(* ===== verification/Prelude.thy ===== *)
theory Prelude
  imports Main "HOL-Library.Word"
begin

text \<open>
  Shared vocabulary of the development: the machine integers of the Go sources as words, Go
  error values, readers over a byte stream as functions from the remaining input to an error or
  a value with the rest of the input, the interface of a reader (it consumes a prefix) and of a
  codec (decoding undoes encoding) as locales, with the vector loops of the sources derived once
  for every element reader.
\<close>

unbundle bit_operations_syntax

section \<open>Machine integers\<close>

type_synonym byte = "8 word"
type_synonym u16 = "16 word"
type_synonym u32 = "32 word"
type_synonym u64 = "64 word"

text \<open>
  Go's signed integers are the same words read through \<^const>\<open>sint\<close>; the type synonyms record
  which reading the source uses.
\<close>

type_synonym i32 = "32 word"
type_synonym i64 = "64 word"

named_theorems res_simps \<open>unfolding of the error monad\<close>
named_theorems reader_simps \<open>facts that run a reader on a known prefix of its input\<close>

section \<open>Go error values\<close>

text \<open>
  \<open>Fail\<close> is a \<^verbatim>\<open>fmt.Errorf\<close> with its format and arguments, \<open>Wrap\<close> one whose last
  verb is \<^verbatim>\<open>%w\<close>. The other constructors are the sentinel errors of the sources and of
  the \<^verbatim>\<open>io\<close> package.
\<close>

datatype go_error =
    IoEOF
  | IoUnexpectedEOF
  | ErrLEB128Overflow
  | ErrLEB128Truncated
  | Fail string "nat list"
  | Wrap string "nat list" go_error

type_synonym 'a res = "go_error + 'a"

definition bind_res :: "'a res \<Rightarrow> ('a \<Rightarrow> 'b res) \<Rightarrow> 'b res" where
  "bind_res m f = (case m of Inl e \<Rightarrow> Inl e | Inr x \<Rightarrow> f x)"

lemma bind_res_Inr [simp, res_simps]: "bind_res (Inr x) f = f x"
  by (simp add: bind_res_def)

lemma bind_res_Inl [simp, res_simps]: "bind_res (Inl e) f = Inl e"
  by (simp add: bind_res_def)

lemma bind_res_eq_Inr [simp]: "bind_res m f = Inr y \<longleftrightarrow> (\<exists>x. m = Inr x \<and> f x = Inr y)"
  by (cases m) (auto simp: bind_res_def)

lemma bind_res_cong [fundef_cong]:
  "m = m' \<Longrightarrow> (\<And>x. m' = Inr x \<Longrightarrow> f x = f' x) \<Longrightarrow> bind_res m f = bind_res m' f'"
  by (cases m') (auto simp: bind_res_def)

definition map_err :: "(go_error \<Rightarrow> go_error) \<Rightarrow> 'a res \<Rightarrow> 'a res" where
  "map_err g m = (case m of Inl e \<Rightarrow> Inl (g e) | Inr x \<Rightarrow> Inr x)"

lemma map_err_Inr [simp, res_simps]: "map_err g (Inr x) = Inr x"
  by (simp add: map_err_def)

lemma map_err_eq_Inr [simp]: "map_err g m = Inr x \<longleftrightarrow> m = Inr x"
  by (cases m) (auto simp: map_err_def)

section \<open>Readers over a byte stream\<close>

type_synonym 'a rd = "byte list \<Rightarrow> ('a \<times> byte list) res"

definition pret :: "'a \<Rightarrow> 'a rd" where
  "pret x bs = Inr (x, bs)"

definition pfail :: "go_error \<Rightarrow> 'a rd" where
  "pfail e bs = Inl e"

definition pbind :: "'a rd \<Rightarrow> ('a \<Rightarrow> 'b rd) \<Rightarrow> 'b rd" where
  "pbind p f bs = bind_res (p bs) (\<lambda>(x, bs'). f x bs')"

definition pwrap :: "(go_error \<Rightarrow> go_error) \<Rightarrow> 'a rd \<Rightarrow> 'a rd" where
  "pwrap g p bs = map_err g (p bs)"

definition pguard :: "bool \<Rightarrow> go_error \<Rightarrow> 'a rd \<Rightarrow> 'a rd" where
  "pguard b e p = (if b then p else pfail e)"

lemma pret_eq [simp, reader_simps]: "pret x bs = Inr y \<longleftrightarrow> y = (x, bs)"
  by (auto simp: pret_def)

lemma pfail_eq [simp]: "pfail e bs \<noteq> Inr y"
  by (simp add: pfail_def)

lemma pwrap_eq [simp, reader_simps]: "pwrap g p bs = Inr y \<longleftrightarrow> p bs = Inr y"
  by (simp add: pwrap_def)

lemma pguard_eq [simp, reader_simps]: "pguard b e p bs = Inr y \<longleftrightarrow> b \<and> p bs = Inr y"
  by (simp add: pguard_def)

lemma pbind_eq: "pbind p f bs = Inr y \<longleftrightarrow> (\<exists>x r. p bs = Inr (x, r) \<and> f x r = Inr y)"
  by (auto simp: pbind_def)

lemma pbind_run [reader_simps]: "p bs = Inr (x, r) \<Longrightarrow> pbind p f bs = f x r"
  by (simp add: pbind_def)

lemma pbind_cong [fundef_cong]:
  "bs = bs' \<Longrightarrow> p bs' = p' bs' \<Longrightarrow>
   (\<And>x r. p' bs' = Inr (x, r) \<Longrightarrow> f x r = f' x r) \<Longrightarrow> pbind p f bs = pbind p' f' bs'"
  by (cases "p' bs'") (auto simp: pbind_def bind_res_def)

text \<open>\<^verbatim>\<open>ReadByte\<close> and \<^verbatim>\<open>io.ReadFull\<close> on a byte stream.\<close>

fun readByte :: "byte rd" where
  "readByte [] = Inl IoEOF"
| "readByte (b # bs) = Inr (b, bs)"

definition readFull :: "nat \<Rightarrow> byte list rd" where
  "readFull n bs =
     (if n \<le> length bs then Inr (take n bs, drop n bs)
      else if bs = [] then Inl IoEOF else Inl IoUnexpectedEOF)"

lemma readFull_append [reader_simps]: "length xs = n \<Longrightarrow> readFull n (xs @ rest) = Inr (xs, rest)"
  by (simp add: readFull_def)

lemma readFull_eq: "readFull n bs = Inr (xs, rest) \<longleftrightarrow> bs = xs @ rest \<and> length xs = n"
  by (auto simp: readFull_def append_eq_conv_conj)

text \<open>
  The counted loops \<^verbatim>\<open>for i := 0; i < n; i++\<close> of the sources: \<open>f i\<close> reads element
  \<open>i\<close> (the index appears in its error messages).
\<close>

primrec readVec :: "(nat \<Rightarrow> 'a rd) \<Rightarrow> nat \<Rightarrow> nat \<Rightarrow> 'a list rd" where
  "readVec f i 0 = pret []"
| "readVec f i (Suc n) = pbind (f i) (\<lambda>x. pbind (readVec f (Suc i) n) (\<lambda>xs. pret (x # xs)))"

section \<open>The interface of a reader\<close>

text \<open>
  A reader takes a prefix of its input, and what it returns depends on that prefix only: it looks
  no further than it reads.
\<close>

definition prefix_reader :: "'a rd \<Rightarrow> bool" where
  "prefix_reader p \<longleftrightarrow>
     (\<forall>bs x rest. p bs = Inr (x, rest) \<longrightarrow>
        (\<exists>used. bs = used @ rest \<and> (\<forall>rest'. p (used @ rest') = Inr (x, rest'))))"

named_theorems prefix_intros \<open>composition of prefix readers\<close>

lemma prefix_readerI:
  "(\<And>bs x rest. p bs = Inr (x, rest) \<Longrightarrow>
      \<exists>used. bs = used @ rest \<and> (\<forall>rest'. p (used @ rest') = Inr (x, rest'))) \<Longrightarrow> prefix_reader p"
  by (simp add: prefix_reader_def)

lemma prefix_readerE:
  assumes "prefix_reader p" and "p bs = Inr (x, rest)"
  obtains used where "bs = used @ rest" and "\<And>rest'. p (used @ rest') = Inr (x, rest')"
  using assms unfolding prefix_reader_def by blast

lemma prefix_pret [prefix_intros]: "prefix_reader (pret x)"
  by (rule prefix_readerI) (simp add: exI [of _ "[]"])

lemma prefix_pfail [prefix_intros]: "prefix_reader (pfail e)"
  by (rule prefix_readerI) simp

lemma prefix_pwrap [prefix_intros]: "prefix_reader p \<Longrightarrow> prefix_reader (pwrap g p)"
  by (simp add: prefix_reader_def)

lemma prefix_pguard [prefix_intros]: "(b \<Longrightarrow> prefix_reader p) \<Longrightarrow> prefix_reader (pguard b e p)"
  by (auto simp: prefix_reader_def)

lemma prefix_if [prefix_intros]:
  "(b \<Longrightarrow> prefix_reader p) \<Longrightarrow> (\<not> b \<Longrightarrow> prefix_reader q) \<Longrightarrow> prefix_reader (if b then p else q)"
  by simp

lemma prefix_pbind [prefix_intros]:
  assumes p: "prefix_reader p" and f: "\<And>x. prefix_reader (f x)"
  shows "prefix_reader (pbind p f)"
proof (rule prefix_readerI)
  fix bs y rest
  assume "pbind p f bs = Inr (y, rest)"
  then obtain x r where px: "p bs = Inr (x, r)" and fy: "f x r = Inr (y, rest)"
    by (auto simp: pbind_eq)
  obtain u where u: "bs = u @ r" "\<And>rest'. p (u @ rest') = Inr (x, rest')"
    using p px by (rule prefix_readerE) blast
  obtain w where w: "r = w @ rest" "\<And>rest'. f x (w @ rest') = Inr (y, rest')"
    using f fy by (rule prefix_readerE) blast
  have "pbind p f ((u @ w) @ rest') = Inr (y, rest')" for rest'
    using u(2) [of "w @ rest'"] w(2) by (simp add: pbind_eq)
  then show "\<exists>used. bs = used @ rest \<and> (\<forall>rest'. pbind p f (used @ rest') = Inr (y, rest'))"
    using u(1) w(1) by (intro exI [of _ "u @ w"]) simp
qed

lemma prefix_readByte [prefix_intros]: "prefix_reader readByte"
proof (rule prefix_readerI)
  fix bs x rest
  assume "readByte bs = Inr (x, rest)"
  then show "\<exists>used. bs = used @ rest \<and> (\<forall>rest'. readByte (used @ rest') = Inr (x, rest'))"
    by (cases bs) (auto intro: exI [of _ "[x]"])
qed

lemma prefix_readFull [prefix_intros]: "prefix_reader (readFull n)"
  by (rule prefix_readerI) (auto simp: readFull_eq readFull_append)

lemma prefix_readVec [prefix_intros]:
  "(\<And>i. prefix_reader (f i)) \<Longrightarrow> prefix_reader (readVec f i n)"
  by (induction n arbitrary: i) (auto intro!: prefix_intros)

locale reader =
  fixes dec :: "nat \<Rightarrow> 'a rd"
  assumes prefix [prefix_intros]: "prefix_reader (dec i)"
begin

lemma consumes: "dec i bs = Inr (x, rest) \<Longrightarrow> \<exists>used. bs = used @ rest"
  by (meson prefix prefix_readerE)

lemma extends: "dec i bs = Inr (x, rest) \<Longrightarrow> dec i (bs @ more) = Inr (x, rest @ more)"
  using prefix_readerE [OF prefix] by (metis append.assoc)

lemma shortens: "dec i bs = Inr (x, rest) \<Longrightarrow> length rest \<le> length bs"
  by (drule consumes) auto

lemma readVec_length:
  "readVec dec i n bs = Inr (xs, rest) \<Longrightarrow> length xs = n"
  by (induction n arbitrary: i bs xs) (auto simp: pbind_eq)

lemma readVec_consumes:
  "readVec dec i n bs = Inr (xs, rest) \<Longrightarrow> \<exists>used. bs = used @ rest"
  using prefix_readVec [of dec, OF prefix] by (meson prefix_readerE)

lemma readVec_all:
  assumes each: "\<And>i bs x rest. dec i bs = Inr (x, rest) \<Longrightarrow> P x"
  shows "readVec dec i n bs = Inr (xs, rest) \<Longrightarrow> \<forall>x \<in> set xs. P x"
  by (induction n arbitrary: i bs xs) (auto simp: pbind_eq dest: each)

end

section \<open>The interface of a codec\<close>

text \<open>
  A codec is a reader together with an encoding whose result it decodes, whatever follows; the
  vector loop over it decodes the concatenation of encodings.
\<close>

locale codec = reader dec for dec :: "nat \<Rightarrow> 'a rd" +
  fixes enc :: "'a \<Rightarrow> byte list" and ok :: "'a \<Rightarrow> bool"
  assumes roundtrip: "ok x \<Longrightarrow> dec i (enc x @ rest) = Inr (x, rest)"
begin

lemma readVec_roundtrip:
  "\<forall>x \<in> set xs. ok x \<Longrightarrow>
   readVec dec i (length xs) (concat (map enc xs) @ rest) = Inr (xs, rest)"
  by (induction xs arbitrary: i) (auto simp: pbind_eq roundtrip)

lemma enc_inj:
  assumes "ok x" and "ok y" and "enc x = enc y"
  shows "x = y"
  using roundtrip [OF assms(1), of 0 "[]"] roundtrip [OF assms(2), of 0 "[]"] assms(3) by simp

end

section \<open>Overwriting a range of a list\<close>

definition overwrite :: "'a list \<Rightarrow> nat \<Rightarrow> 'a list \<Rightarrow> 'a list" where
  "overwrite xs a ys = take a xs @ ys @ drop (a + length ys) xs"

lemma length_overwrite [simp]: "a + length ys \<le> length xs \<Longrightarrow> length (overwrite xs a ys) = length xs"
  by (simp add: overwrite_def)

lemma nth_overwrite:
  "a + length ys \<le> length xs \<Longrightarrow> k < length xs \<Longrightarrow>
   overwrite xs a ys ! k = (if a \<le> k \<and> k < a + length ys then ys ! (k - a) else xs ! k)"
  by (auto simp: overwrite_def nth_append)

lemma take_overwrite:
  "a + length ys \<le> n \<Longrightarrow> n \<le> length xs \<Longrightarrow> take n (overwrite xs a ys) = overwrite (take n xs) a ys"
  by (rule nth_equalityI) (simp_all add: nth_overwrite)

lemma overwrite_read [simp]:
  "a + length ys \<le> length xs \<Longrightarrow> take (length ys) (drop a (overwrite xs a ys)) = ys"
  by (simp add: overwrite_def)

lemma overwrite_self: "n = length (take n (drop a xs)) \<Longrightarrow> overwrite xs a (take n (drop a xs)) = xs"
  by (simp add: overwrite_def) (metis append_take_drop_id drop_drop add.commute)

lemma overwrite_read_disjoint:
  assumes "a + length ys \<le> length xs" and "b + n \<le> a \<or> a + length ys \<le> b"
  shows "take n (drop b (overwrite xs a ys)) = take n (drop b xs)"
  using assms by (intro nth_equalityI) (auto simp: nth_overwrite)

section \<open>Generic facts on words\<close>

lemma unat_lt: "unat (w :: 'a::len word) < 2 ^ LENGTH('a)"
  by (rule unsigned_less)

lemma unat_ucast_up:
  "LENGTH('a) \<le> LENGTH('b) \<Longrightarrow> unat (ucast (w :: 'a::len word) :: 'b::len word) = unat w"
  by (simp add: unsigned_ucast_eq take_bit_nat_eq_self unat_lt [THEN order.strict_trans2])

lemma unat_ucast_small:
  "unat w < 2 ^ LENGTH('b) \<Longrightarrow> unat (ucast (w :: 'a::len word) :: 'b::len word) = unat w"
  by (simp add: unsigned_ucast_eq take_bit_nat_eq_self)

lemma word_or_eq_plus:
  fixes a b :: "'a::len word"
  assumes "unat a < 2 ^ s" and "\<And>k. k < s \<Longrightarrow> \<not> bit b k"
  shows "a OR b = a + b"
proof -
  have "\<not> bit a k \<or> \<not> bit b k" for k
  proof (cases "k < s")
    case True
    then show ?thesis using assms(2) by blast
  next
    case False
    have "unat a < 2 ^ k"
      using assms(1) False by (meson le_less_trans less_le_trans linorder_not_less one_le_numeral
          power_increasing)
    then have "\<not> bit (unat a) k"
      by (simp add: bit_iff_odd)
    then show ?thesis by (simp add: bit_unsigned_iff)
  qed
  then have "a AND b = 0"
    by (intro bit_eqI) (simp add: bit_and_iff)
  then show ?thesis by (simp add: disjunctive_add_eq_or)
qed

lemma unat_push_bit_small:
  fixes x :: "'a::len word"
  assumes "unat x * 2 ^ s < 2 ^ LENGTH('a)"
  shows "unat (push_bit s x) = unat x * 2 ^ s"
  using assms by (subst unsigned_push_bit_eq) (simp add: push_bit_eq_mult take_bit_nat_eq_self)

lemma unat_or_push_bit:
  fixes a x :: "'a::len word"
  assumes "unat a < 2 ^ s" and "unat x * 2 ^ s + unat a < 2 ^ LENGTH('a)"
  shows "unat (a OR push_bit s x) = unat a + unat x * 2 ^ s"
proof -
  have "a OR push_bit s x = a + push_bit s x"
    using assms(1) by (rule word_or_eq_plus) (simp add: bit_simps)
  moreover have "unat (push_bit s x) = unat x * 2 ^ s"
    using assms(2) by (intro unat_push_bit_small) simp
  ultimately show ?thesis using assms(2) by (simp add: unat_word_ariths)
qed

text \<open>Little-endian words and their bytes.\<close>

primrec le_word :: "byte list \<Rightarrow> 'a::len word" where
  "le_word [] = 0"
| "le_word (b # bs) = ucast b OR push_bit 8 (le_word bs)"

primrec le_bytes :: "nat \<Rightarrow> 'a::len word \<Rightarrow> byte list" where
  "le_bytes 0 w = []"
| "le_bytes (Suc n) w = ucast w # le_bytes n (drop_bit 8 w)"

lemma length_le_bytes [simp]: "length (le_bytes n w) = n"
  by (induction n arbitrary: w) simp_all

lemma bit_le_word:
  "bit (le_word bs :: 'a::len word) k \<longleftrightarrow>
     k < LENGTH('a) \<and> k div 8 < length bs \<and> bit (bs ! (k div 8)) (k mod 8)"
proof (induction bs arbitrary: k)
  case Nil
  then show ?case by simp
next
  case (Cons b bs)
  show ?case
  proof (cases "k < 8")
    case True
    then show ?thesis by (auto simp: bit_or_iff bit_ucast_iff bit_push_bit_iff)
  next
    case False
    then have "k div 8 = Suc ((k - 8) div 8)" and "(k - 8) mod 8 = k mod 8"
      by (simp_all add: le_div_geq le_mod_geq)
    moreover have "\<not> bit b k" using False by (auto dest: bit_imp_le_length)
    ultimately show ?thesis
      using False Cons [of "k - 8"] by (auto simp: bit_or_iff bit_ucast_iff bit_push_bit_iff)
  qed
qed

lemma nth_le_bytes: "i < n \<Longrightarrow> le_bytes n w ! i = ucast (drop_bit (8 * i) w)"
proof (induction n arbitrary: w i)
  case (Suc n)
  then show ?case by (cases i) (simp_all add: drop_bit_drop_bit add.commute)
qed simp

lemma le_word_le_bytes:
  fixes w :: "'a::len word"
  assumes "LENGTH('a) \<le> 8 * n"
  shows "le_word (le_bytes n w) = w"
proof (rule bit_word_eqI)
  fix k
  assume k: "k < LENGTH('a)"
  then have "k div 8 < n" using assms by (simp add: div_less_iff_less_mult)
  then show "bit (le_word (le_bytes n w) :: 'a word) k = bit w k"
    using k by (simp add: bit_le_word nth_le_bytes bit_ucast_iff bit_drop_bit_eq)
qed

lemma le_bytes_le_word:
  assumes "8 * length bs \<le> LENGTH('a::len)"
  shows "le_bytes (length bs) (le_word bs :: 'a word) = bs"
proof (rule nth_equalityI)
  fix i
  assume "i < length (le_bytes (length bs) (le_word bs :: 'a word))"
  then have i: "i < length bs" by simp
  show "le_bytes (length bs) (le_word bs :: 'a word) ! i = bs ! i"
  proof (rule bit_word_eqI)
    fix k :: nat
    assume "k < LENGTH(8)"
    then have "k < 8" and "(8 * i + k) div 8 = i" and "(8 * i + k) mod 8 = k" and "8 * i + k < LENGTH('a)"
      using i assms by simp_all
    then show "bit (le_bytes (length bs) (le_word bs :: 'a word) ! i) k = bit (bs ! i) k"
      using i by (simp add: nth_le_bytes bit_ucast_iff bit_drop_bit_eq bit_le_word)
  qed
qed simp

text \<open>The continuation bit, the sign bit and the payload of a LEB128 byte.\<close>

named_theorems leb_bits \<open>the masks of a LEB128 byte as bits\<close>

declare bit_numeral_word_iff [simp del]

lemma and_0x80_iff [leb_bits]: "(b :: byte) AND 0x80 = 0 \<longleftrightarrow> \<not> bit b 7"
  using and_exp_eq_0_iff_not_bit [of b 7] by simp

lemma and_0x40_iff [leb_bits]: "(b :: byte) AND 0x40 = 0 \<longleftrightarrow> \<not> bit b 6"
  using and_exp_eq_0_iff_not_bit [of b 6] by simp

lemma bit_0x80 [leb_bits]: "bit (0x80 :: byte) n \<longleftrightarrow> n = 7"
  using bit_exp_iff [of 7 n, where ?'a = "8 word"] by auto

lemma bit_0x7f [leb_bits]: "bit (0x7f :: byte) n \<longleftrightarrow> n < 7"
proof -
  have "(0x7f :: byte) = mask 7" by (simp add: mask_eq_exp_minus_1)
  then show ?thesis by (simp only: bit_mask_iff) auto
qed

lemma and_0x7f_take_bit [leb_bits]: "(w :: 'a::len word) AND 0x7f = take_bit 7 w"
  by (simp add: take_bit_eq_mask mask_eq_exp_minus_1)

end
