(* ===== verification/Leb128.thy ===== *)
theory Leb128
  imports Prelude
begin

text \<open>
  The module-level LEB128 readers of \<^verbatim>\<open>internal/wasm/leb128.go\<close> and the two LEB128 writers
  of \<^verbatim>\<open>internal/wasm/parser.go\<close>, against the mathematical value of a LEB128 byte sequence.
  Each reader is characterised exactly: which inputs it accepts, how many bytes it takes and
  which number it returns.
\<close>

section \<open>The readers\<close>

fun readU64_from :: "nat \<Rightarrow> nat \<Rightarrow> u64 \<Rightarrow> u64 rd" where
  "readU64_from i shift result bs =
     (if i < 10 then
        (case bs of
           [] \<Rightarrow> Inl ErrLEB128Truncated
         | b # bs' \<Rightarrow>
             if 64 \<le> shift then Inl ErrLEB128Overflow
             else
               let result' = result OR push_bit shift (ucast (b AND 0x7f)) in
               if b AND 0x80 = 0 then
                 if i = 9 \<and> b > 1 then Inl ErrLEB128Overflow else Inr (result', bs')
               else readU64_from (Suc i) (shift + 7) result' bs')
      else Inl ErrLEB128Overflow)"

definition readU64 :: "u64 rd" where
  "readU64 = readU64_from 0 0 0"

definition readU32 :: "u32 rd" where
  "readU32 = pbind readU64 (\<lambda>v. pguard (\<not> v > 0xffffffff) ErrLEB128Overflow (pret (ucast v)))"

text \<open>
  The bit-width check of one byte of \<^verbatim>\<open>readS64Bits\<close>: payload bits at or above bit
  \<open>bits - 1\<close> must repeat that bit of the value assembled so far.
\<close>

definition sign_check :: "nat \<Rightarrow> nat \<Rightarrow> i64 \<Rightarrow> byte \<Rightarrow> bool" where
  "sign_check bits shift result b =
     (let signBit = signed_drop_bit (bits - 1) result AND 1;
          signByte = (if signBit \<noteq> 0 then 0x7f else 0);
          legalInThisByte = (if shift < bits then bits - shift else 0);
          m = 0x7f AND NOT (push_bit legalInThisByte 1 - 1)
      in b AND m = signByte AND m)"

fun readS64Bits_from :: "nat \<Rightarrow> nat \<Rightarrow> nat \<Rightarrow> i64 \<Rightarrow> i64 rd" where
  "readS64Bits_from bits i shift result bs =
     (if i < 10 then
        (case bs of
           [] \<Rightarrow> Inl ErrLEB128Truncated
         | b # bs' \<Rightarrow>
             let result' = result OR push_bit shift (ucast (b AND 0x7f)) in
             if bits < shift + 7 \<and> \<not> sign_check bits shift result' b
             then Inl ErrLEB128Overflow
             else
               let shift' = shift + 7 in
               if b AND 0x80 = 0 then
                 Inr (if shift' < 64 \<and> b AND 0x40 \<noteq> 0
                      then result' OR push_bit shift' (- 1) else result', bs')
               else readS64Bits_from bits (Suc i) shift' result' bs')
      else Inl ErrLEB128Overflow)"

definition readS64Bits :: "nat \<Rightarrow> i64 rd" where
  "readS64Bits bits = readS64Bits_from bits 0 0 0"

definition readS32 :: "i32 rd" where
  "readS32 = pbind (readS64Bits 32) (\<lambda>v. pret (ucast v))"

definition readS64 :: "i64 rd" where
  "readS64 = readS64Bits 64"

definition readByteVecCap :: u32 where
  "readByteVecCap = 2 ^ 28"

definition readByteVec :: "byte list rd" where
  "readByteVec = pbind readU32 (\<lambda>n.
     pguard (\<not> n > readByteVecCap)
       (Fail ''wasm: byte vector length %d exceeds %d-byte safety cap'' [unat n, unat readByteVecCap])
       (readFull (unat n)))"

text \<open>A Go string is its bytes.\<close>

definition readName :: "byte list rd" where
  "readName = readByteVec"

section \<open>The writers\<close>

function writeULEB :: "u64 \<Rightarrow> byte list" where
  "writeULEB v =
     (let b = ucast (v AND 0x7f); v' = drop_bit 7 v in
      if v' \<noteq> 0 then (b OR 0x80) # writeULEB v' else [b])"
  by pat_completeness auto
termination
proof (relation "measure unat")
  fix v b v' :: u64
  assume v': "v' = drop_bit 7 v" and n0: "v' \<noteq> 0"
  have "unat v' = unat v div 128"
    by (simp add: v' drop_bit_eq_div unat_div)
  moreover have "unat v' \<noteq> 0"
    using n0 by (simp add: unat_eq_0)
  ultimately show "(v', v) \<in> measure unat" by simp
qed simp

function writeSLEB :: "i64 \<Rightarrow> byte list" where
  "writeSLEB v =
     (let b = ucast (v AND 0x7f); v' = signed_drop_bit 7 v in
      if (v' = 0 \<and> b AND 0x40 = 0) \<or> (v' = - 1 \<and> b AND 0x40 \<noteq> 0) then [b]
      else (b OR 0x80) # writeSLEB v')"
  by pat_completeness auto
termination
proof (relation "measure (\<lambda>v. nat (if sint v < 0 then - sint v - 1 else sint v))")
  fix v v' :: i64 and b :: byte
  assume b: "b = ucast (v AND 0x7f)" and v': "v' = signed_drop_bit 7 v"
    and go: "\<not> ((v' = 0 \<and> b AND 0x40 = 0) \<or> (v' = - 1 \<and> b AND 0x40 \<noteq> 0))"
  have d: "sint v' = sint v div 128"
    by (simp add: v' sint_signed_drop_bit_eq drop_bit_eq_div)
  have n0: "v \<noteq> 0"
    using go by (auto simp: b v')
  have n1: "v \<noteq> - 1"
    using go by (auto simp: b v')
  have "sint v \<noteq> 0"
    using n0 by (metis word_eq_iff_signed signed_0)
  moreover have "sint v \<noteq> - 1"
    using n1 by (metis word_eq_iff_signed sint_n1)
  ultimately show "(v', v) \<in> measure (\<lambda>v. nat (if sint v < 0 then - sint v - 1 else sint v))"
    by (simp add: d) linarith
qed simp

declare readU64_from.simps [simp del] readS64Bits_from.simps [simp del]
declare writeULEB.simps [simp del] writeSLEB.simps [simp del]

section \<open>The mathematical value of a LEB128 sequence\<close>

text \<open>
  \<open>leb_framed\<close>: every byte but the last has its continuation bit set, and the last has not.
  \<open>uleb_nat\<close> and \<open>sleb_int\<close> are the unsigned and the signed value of the seven-bit payloads.
\<close>

fun leb_framed :: "byte list \<Rightarrow> bool" where
  "leb_framed [] = False"
| "leb_framed (b # us) = (if b AND 0x80 = 0 then us = [] else leb_framed us)"

fun uleb_nat :: "byte list \<Rightarrow> nat" where
  "uleb_nat [] = 0"
| "uleb_nat (b # us) = unat (b AND 0x7f) + 128 * uleb_nat us"

fun sleb_int :: "byte list \<Rightarrow> int" where
  "sleb_int [] = 0"
| "sleb_int [b] = uint (b AND 0x7f) - (if b AND 0x40 \<noteq> 0 then 128 else 0)"
| "sleb_int (b # us) = uint (b AND 0x7f) + 128 * sleb_int us"

lemma payload_less: "unat (b AND 0x7f :: byte) < 128"
proof -
  have "unat (b AND 0x7f) \<le> unat (0x7f :: byte)"
    by (rule word_and_le1 [THEN word_le_nat_alt [THEN iffD1]])
  then show ?thesis by simp
qed

lemma last_payload: "b AND 0x80 = 0 \<Longrightarrow> b AND 0x7f = (b :: byte)"
proof -
  assume 0: "b AND 0x80 = 0"
  have "(0x7f OR 0x80 :: byte) = - 1"
    by simp
  then have "b = b AND (0x7f OR 0x80)"
    by (simp only: and.right_neutral)
  also have "\<dots> = (b AND 0x7f) OR (b AND 0x80)"
    by (rule bit.conj_disj_distrib)
  finally show ?thesis using 0 by simp
qed

lemma uleb_nat_bound: "uleb_nat us < 2 ^ (7 * length us)"
proof (induction us)
  case Nil
  then show ?case by simp
next
  case (Cons b us)
  have "uleb_nat (b # us) < 128 + 128 * (2 ^ (7 * length us) - 1)"
    using Cons payload_less [of b] by simp
  also have "\<dots> = 2 ^ (7 * length (b # us))"
    by (simp add: power_add algebra_simps)
  finally show ?case .
qed

section \<open>The unsigned readers, exactly\<close>

lemma leb_framed_nonempty: "leb_framed us \<Longrightarrow> us \<noteq> []"
  by auto

lemma readU64_from_step:
  assumes r: "unat result < 2 ^ (7 * i)" and i: "i < 9"
  shows "unat (result OR push_bit (7 * i) (ucast (b AND 0x7f :: byte) :: u64)) =
         unat result + 2 ^ (7 * i) * unat (b AND 0x7f)"
proof -
  have p: "unat (ucast (b AND 0x7f) :: u64) = unat (b AND 0x7f)"
    by (simp add: unat_ucast_up)
  have "unat (b AND 0x7f) * 2 ^ (7 * i) + unat result < 128 * 2 ^ (7 * i)"
  proof -
    have "unat (b AND 0x7f) \<le> 127" using payload_less [of b] by simp
    then have "unat (b AND 0x7f) * 2 ^ (7 * i) \<le> 127 * 2 ^ (7 * i)" by (rule mult_le_mono1)
    then show ?thesis using r by linarith
  qed
  also have "(128::nat) * 2 ^ (7 * i) = 2 ^ (7 * i + 7)"
    by (simp add: power_add)
  also have "(2::nat) ^ (7 * i + 7) \<le> 2 ^ 64"
    using i by (intro power_increasing) auto
  finally show ?thesis
    using r by (subst unat_or_push_bit) (simp_all add: p mult.commute)
qed

lemma last_gt_one:
  assumes "b AND 0x80 = (0 :: byte)"
  shows "b > 1 \<longleftrightarrow> unat (b AND 0x7f) > 1"
  by (simp add: last_payload [OF assms] word_less_nat_alt)

lemma readU64_from_iff:
  assumes "unat result < 2 ^ (7 * i)" and "i \<le> 10"
  shows "readU64_from i (7 * i) result bs = Inr (v, rest) \<longleftrightarrow>
    (\<exists>used. bs = used @ rest \<and> leb_framed used \<and> i + length used \<le> 10 \<and>
       unat result + 2 ^ (7 * i) * uleb_nat used < 2 ^ 64 \<and>
       unat v = unat result + 2 ^ (7 * i) * uleb_nat used)"
  using assms
proof (induction bs arbitrary: i result)
  case Nil
  then show ?case by (subst readU64_from.simps) auto
next
  case (Cons b bs)
  let ?r = "result OR push_bit (7 * i) (ucast (b AND 0x7f)) :: u64"
  let ?R = "\<lambda>used. b # bs = used @ rest \<and> leb_framed used \<and> i + length used \<le> 10 \<and>
       unat result + 2 ^ (7 * i) * uleb_nat used < 2 ^ 64 \<and>
       unat v = unat result + 2 ^ (7 * i) * uleb_nat used"
  have split: "(\<exists>used. ?R used) \<longleftrightarrow> (if b AND 0x80 = 0 then ?R [b]
     else (\<exists>us. ?R (b # us) \<and> leb_framed us))"
    by (auto simp: Cons_eq_append_conv split: if_splits dest: leb_framed_nonempty)
  consider "i = 10" | "i = 9" | "i < 9" using Cons.prems by linarith
  then show ?case
  proof cases
    case 1
    then show ?thesis by (subst readU64_from.simps) (auto dest: leb_framed_nonempty)
  next
    case 2
    have p: "unat (ucast (b AND 0x7f) :: u64) = unat (b AND 0x7f)"
      by (simp add: unat_ucast_up)
    have last: "unat ?r = unat result + 2 ^ 63 * unat (b AND 0x7f)" if "unat (b AND 0x7f) \<le> 1"
      using Cons.prems(1) 2 that by (subst unat_or_push_bit) (simp_all add: p)
    show ?thesis
    proof (cases "b AND 0x80 = 0")
      case True
      have "readU64_from i (7 * i) result (b # bs) = Inr (v, rest) \<longleftrightarrow>
          \<not> b > 1 \<and> v = ?r \<and> rest = bs"
        by (subst readU64_from.simps) (auto simp: 2 True Let_def)
      also have "\<dots> \<longleftrightarrow> ?R [b]"
        using last_gt_one [OF True] last Cons.prems(1) True
        by (auto simp: 2 word_unat_eq_iff)
      finally show ?thesis unfolding split using True by simp
    next
      case False
      have "readU64_from i (7 * i) result (b # bs) \<noteq> Inr (v, rest)"
        by (subst readU64_from.simps) (simp add: 2 False Let_def readU64_from.simps)
      moreover have "\<not> (?R (b # us) \<and> leb_framed us)" for us
        using leb_framed_nonempty [of us] by (auto simp: 2)
      ultimately show ?thesis unfolding split using False by simp
    qed
  next
    case 3
    note step = readU64_from_step [OF Cons.prems(1) 3, of b]
    have pow: "(2::nat) ^ (7 * Suc i) = 128 * 2 ^ (7 * i)"
      by (simp add: power_add)
    have "2 ^ (7 * i) * unat (b AND 0x7f) \<le> 2 ^ (7 * i) * 127"
      using payload_less [of b] by (intro mult_le_mono2) simp
    then have lt: "unat ?r < 2 ^ (7 * Suc i)"
      using Cons.prems(1) unfolding step pow by linarith
    have "(2::nat) ^ (7 * Suc i) \<le> 2 ^ 63"
      using 3 by (intro power_increasing) auto
    with lt have lt64: "unat ?r < 2 ^ 64" by simp
    show ?thesis
    proof (cases "b AND 0x80 = 0")
      case True
      have "readU64_from i (7 * i) result (b # bs) = Inr (v, rest) \<longleftrightarrow> v = ?r \<and> rest = bs"
        using 3 by (subst readU64_from.simps) (auto simp: True Let_def)
      also have "\<dots> \<longleftrightarrow> ?R [b]"
        using lt64 3 True unfolding step
        by (auto simp: word_unat_eq_iff step)
      finally show ?thesis unfolding split using True by simp
    next
      case False
      have "readU64_from i (7 * i) result (b # bs) =
          readU64_from (Suc i) (7 * Suc i) ?r bs"
        using 3 by (subst readU64_from.simps) (simp add: False Let_def add.commute)
      moreover have "unat ?r + 2 ^ (7 * Suc i) * uleb_nat us =
          unat result + 2 ^ (7 * i) * uleb_nat (b # us)" for us
        unfolding step pow by (simp add: algebra_simps)
      ultimately show ?thesis
        unfolding split using Cons.IH [OF lt] 3 False by auto
    qed
  qed
qed

lemma readU64_iff:
  "readU64 bs = Inr (v, rest) \<longleftrightarrow>
    (\<exists>used. bs = used @ rest \<and> leb_framed used \<and> length used \<le> 10 \<and>
       uleb_nat used < 2 ^ 64 \<and> unat v = uleb_nat used)"
  using readU64_from_iff [of 0 0 bs v rest] by (simp add: readU64_def)

lemma readU32_iff:
  "readU32 bs = Inr (v, rest) \<longleftrightarrow>
    (\<exists>used. bs = used @ rest \<and> leb_framed used \<and> length used \<le> 10 \<and>
       uleb_nat used < 2 ^ 32 \<and> unat v = uleb_nat used)"
proof -
  have small: "\<not> w > 0xffffffff \<longleftrightarrow> unat w < 2 ^ 32" for w :: u64
    by (auto simp: word_less_nat_alt)
  have cast: "unat (ucast w :: u32) = unat w" if "unat w < 2 ^ 32" for w :: u64
    using that by (simp add: unat_ucast_small)
  have "readU32 bs = Inr (v, rest) \<longleftrightarrow>
      (\<exists>w. readU64 bs = Inr (w, rest) \<and> unat w < 2 ^ 32 \<and> v = ucast w)"
    by (auto simp: readU32_def pbind_eq small)
  also have "\<dots> \<longleftrightarrow> (\<exists>used. bs = used @ rest \<and> leb_framed used \<and> length used \<le> 10 \<and>
       uleb_nat used < 2 ^ 32 \<and> unat v = uleb_nat used)" (is "_ \<longleftrightarrow> ?R")
  proof
    assume "\<exists>w. readU64 bs = Inr (w, rest) \<and> unat w < 2 ^ 32 \<and> v = ucast w"
    then show ?R by (auto simp: readU64_iff cast)
  next
    assume ?R
    then obtain used where used: "bs = used @ rest" "leb_framed used" "length used \<le> 10"
        "uleb_nat used < 2 ^ 32" "unat v = uleb_nat used" by blast
    let ?w = "ucast v :: u64"
    have w: "unat ?w = unat v"
      by (simp add: unat_ucast_up)
    have "readU64 bs = Inr (?w, rest)"
      unfolding readU64_iff w using used by (intro exI [of _ used]) simp
    moreover have "v = ucast ?w"
      by (intro bit_word_eqI) (simp add: bit_simps)
    ultimately show "\<exists>w. readU64 bs = Inr (w, rest) \<and> unat w < 2 ^ 32 \<and> v = ucast w"
      using used w by auto
  qed
  finally show ?thesis .
qed

section \<open>The unsigned writer\<close>

lemma writeULEB_nonempty: "writeULEB v \<noteq> []"
  by (subst writeULEB.simps) (simp add: Let_def)

lemma ucast_payload: "ucast (v AND 0x7f :: u64) AND (0x7f :: byte) = ucast (v AND 0x7f)"
  unfolding and_0x7f_take_bit by (intro bit_word_eqI) (auto simp: bit_simps)

lemma unat_ucast_payload: "unat (ucast (v AND 0x7f :: u64) :: byte) = unat v mod 128"
proof -
  have "unat (v AND 0x7f) = unat v mod 128"
    by (simp only: and_0x7f_take_bit unsigned_take_bit_eq) (simp add: take_bit_eq_mod)
  then show ?thesis by (simp add: unsigned_ucast_eq take_bit_nat_eq_self)
qed

lemma writeULEB_value:
  "leb_framed (writeULEB v) \<and> uleb_nat (writeULEB v) = unat v"
proof (induction v rule: writeULEB.induct)
  case (1 v)
  let ?b = "ucast (v AND 0x7f) :: byte"
  have low: "?b AND 0x80 = 0" and low': "(?b OR 0x80) AND 0x80 \<noteq> 0"
    unfolding leb_bits by (simp_all add: bit_simps leb_bits)
  have pay: "(?b OR 0x80) AND 0x7f = ?b AND 0x7f"
    unfolding and_0x7f_take_bit by (intro bit_word_eqI) (auto simp: bit_simps bit_0x80)
  have d: "unat (drop_bit 7 v) = unat v div 128"
    by (simp add: drop_bit_eq_div unat_div)
  show ?case
  proof (cases "drop_bit 7 v = 0")
    case True
    then have "unat v div 128 = 0" using d by simp
    then show ?thesis
      using True low
      by (subst (1 2) writeULEB.simps)
         (simp add: Let_def ucast_payload unat_ucast_payload div_eq_0_iff)
  next
    case False
    then show ?thesis
      using 1 low' pay d
      by (subst (1 2) writeULEB.simps)
         (simp add: Let_def ucast_payload unat_ucast_payload)
  qed
qed

lemma writeULEB_length:
  "unat v < 2 ^ (7 * n) \<Longrightarrow> 0 < n \<Longrightarrow> length (writeULEB v) \<le> n"
proof (induction v arbitrary: n rule: writeULEB.induct)
  case (1 v)
  have d: "unat (drop_bit 7 v) = unat v div 128"
    by (simp add: drop_bit_eq_div unat_div)
  show ?case
  proof (cases "drop_bit 7 v = 0")
    case True
    then show ?thesis using 1 by (subst writeULEB.simps) (simp add: Let_def)
  next
    case False
    then have pos: "unat v div 128 \<noteq> 0"
      using d by (metis unat_eq_0)
    obtain m where n: "n = Suc m" using 1 by (cases n) auto
    have "unat v div 128 < 2 ^ (7 * m)"
      using 1 unfolding n by (simp add: power_add less_mult_imp_div_less mult.commute)
    moreover have "0 < m"
      using calculation pos by (cases m) auto
    ultimately have "length (writeULEB (drop_bit 7 v)) \<le> m"
      using 1 False d by metis
    then show ?thesis
      using False n by (subst writeULEB.simps) (simp add: Let_def)
  qed
qed

lemma writeULEB_length_10: "length (writeULEB v) \<le> 10"
proof -
  have "unat v < 2 ^ 64" using unat_lt [of v] by simp
  also have "(2::nat) ^ 64 < 2 ^ (7 * 10)" by simp
  finally show ?thesis by (intro writeULEB_length) simp_all
qed

lemma readU64_writeULEB: "readU64 (writeULEB v @ rest) = Inr (v, rest)"
  unfolding readU64_iff
  using writeULEB_value [of v] writeULEB_length_10 [of v] unat_lt [of v]
  by (intro exI [of _ "writeULEB v"]) simp

definition encU32 :: "u32 \<Rightarrow> byte list" where
  "encU32 v = writeULEB (ucast v)"

lemma readU32_encU32: "readU32 (encU32 v @ rest) = Inr (v, rest)"
proof -
  have "unat (ucast v :: u64) = unat v"
    by (simp add: unat_ucast_up)
  then show ?thesis
    unfolding readU32_iff encU32_def
    using writeULEB_value [of "ucast v"] writeULEB_length_10 [of "ucast v"] unat_lt [of v]
    by (intro exI [of _ "writeULEB (ucast v)"]) simp
qed

lemma encU32_nonempty [simp]: "encU32 v \<noteq> []"
  by (simp add: encU32_def writeULEB_nonempty)

lemma prefix_readU64 [prefix_intros]: "prefix_reader readU64"
  by (rule prefix_readerI) (auto simp: readU64_iff)

lemma prefix_readU32 [prefix_intros]: "prefix_reader readU32"
  by (rule prefix_readerI) (auto simp: readU32_iff)

interpretation u64_codec: codec "\<lambda>_. readU64" writeULEB "\<lambda>_. True"
  by unfold_locales (simp_all add: prefix_readU64 readU64_writeULEB)

interpretation u32_codec: codec "\<lambda>_. readU32" encU32 "\<lambda>_. True"
  by unfold_locales (simp_all add: prefix_readU32 readU32_encU32)

section \<open>The signed readers, exactly\<close>

definition in_range :: "nat \<Rightarrow> int \<Rightarrow> bool" where
  "in_range bits S \<longleftrightarrow> - (2 ^ (bits - 1)) \<le> S \<and> S < 2 ^ (bits - 1)"

lemma in_range_bits: "in_range bits S \<longleftrightarrow> (\<forall>k \<ge> bits - 1. bit S k = bit S (bits - 1))"
proof -
  have "in_range bits S \<longleftrightarrow> signed_take_bit (bits - 1) S = S"
    by (simp add: in_range_def signed_take_bit_int_eq_self_iff)
  also have "\<dots> \<longleftrightarrow> (\<forall>k. bit S (min (bits - 1) k) = bit S k)"
    by (simp add: bit_eq_iff bit_signed_take_bit_iff)
  also have "\<dots> \<longleftrightarrow> (\<forall>k \<ge> bits - 1. bit S k = bit S (bits - 1))"
    by (metis min.absorb1 min.absorb2 nle_le)
  finally show ?thesis .
qed

lemma bit_sleb_single: "bit (sleb_int [b]) k = bit b (min 6 k)"
proof -
  have "uint (b AND 0x7f) = take_bit 7 (uint b)"
    by (simp only: and_0x7f_take_bit unsigned_take_bit_eq)
  then have "sleb_int [b] = signed_take_bit 6 (uint b)"
    by (simp add: signed_take_bit_eq_take_bit_minus and_0x40_iff bit_uint_iff)
  then show ?thesis
    by (auto simp: bit_signed_take_bit_iff bit_uint_iff min_def dest: bit_imp_le_length)
qed

lemma bit_sleb_Cons:
  "us \<noteq> [] \<Longrightarrow> bit (sleb_int (b # us)) k = (if k < 7 then bit b k else bit (sleb_int us) (k - 7))"
proof -
  assume "us \<noteq> []"
  have "uint (b AND 0x7f) = take_bit 7 (uint b)"
    by (simp only: and_0x7f_take_bit unsigned_take_bit_eq)
  then have "sleb_int (b # us) = concat_bit 7 (uint b) (sleb_int us)"
    using \<open>us \<noteq> []\<close> by (cases us) (simp_all add: concat_bit_eq push_bit_eq_mult)
  then show ?thesis
    by (auto simp: bit_concat_bit_iff bit_uint_iff dest: bit_imp_le_length)
qed

declare sleb_int.simps [simp del]

lemma masked_eq_iff:
  assumes "\<And>j. bit (M :: byte) j \<longleftrightarrow> L \<le> j \<and> j < 7"
  shows "b AND M = (if s then 0x7f else 0) AND M \<longleftrightarrow> (\<forall>j. L \<le> j \<and> j < 7 \<longrightarrow> bit b j = s)"
proof -
  have "b AND M = (if s then 0x7f else 0) AND M \<longleftrightarrow>
      (\<forall>j < 8. L \<le> j \<and> j < 7 \<longrightarrow> bit b j = s)"
    unfolding bit_eq_iff bit_and_iff assms by (auto simp: bit_0x7f)
  then show ?thesis by auto
qed

lemma sign_check_iff:
  assumes "0 < bits" and "bits \<le> 64" and "bits < shift + 7"
  shows "sign_check bits shift r b \<longleftrightarrow>
    (\<forall>j. bits - shift \<le> j \<and> j < 7 \<longrightarrow> bit b j = bit r (bits - 1))"
proof -
  let ?L = "bits - shift"
  have sb: "signed_drop_bit (bits - 1) r AND 1 \<noteq> 0 \<longleftrightarrow> bit r (bits - 1)"
  proof -
    have "w AND 1 = 0 \<longleftrightarrow> \<not> bit w 0" for w :: u64
      using and_exp_eq_0_iff_not_bit [of w 0] by (simp only: power_0)
    then show ?thesis
      using assms by (simp only: bit_signed_drop_bit_iff) auto
  qed
  have lg: "(if shift < bits then bits - shift else 0) = ?L" by simp
  have m: "bit (0x7f AND NOT (push_bit ?L 1 - 1) :: byte) j \<longleftrightarrow> ?L \<le> j \<and> j < 7" for j
  proof -
    have "push_bit ?L 1 - 1 = (mask ?L :: byte)"
      by (simp add: mask_eq_exp_minus_1)
    then show ?thesis
      by (simp only: bit_and_iff bit_not_iff bit_0x7f bit_mask_iff) auto
  qed
  have "sign_check bits shift r b \<longleftrightarrow>
      b AND (0x7f AND NOT (push_bit ?L 1 - 1)) =
      (if bit r (bits - 1) then 0x7f else 0) AND (0x7f AND NOT (push_bit ?L 1 - 1))"
    unfolding sign_check_def Let_def sb lg ..
  also have "\<dots> \<longleftrightarrow> (\<forall>j. bits - shift \<le> j \<and> j < 7 \<longrightarrow> bit b j = bit r (bits - 1))"
    using m by (rule masked_eq_iff)
  finally show ?thesis .
qed

definition sleb_total :: "nat \<Rightarrow> i64 \<Rightarrow> byte list \<Rightarrow> int" where
  "sleb_total i r us = concat_bit (7 * i) (uint r) (sleb_int us)"

lemma bit_sleb_total:
  "bit (sleb_total i r us) k =
   (if k < 7 * i then bit r k else bit (sleb_int us) (k - 7 * i))"
  by (auto simp: sleb_total_def bit_concat_bit_iff bit_uint_iff dest: bit_imp_le_length)

lemma bit_leb_or:
  "bit (r OR push_bit s (ucast (b AND 0x7f)) :: i64) k \<longleftrightarrow>
     bit r k \<or> (s \<le> k \<and> k < 64 \<and> k < s + 7 \<and> bit b (k - s))"
  unfolding and_0x7f_take_bit
  by (auto simp: bit_simps dest: bit_imp_le_length)

lemma sleb_total_step:
  assumes "\<forall>k \<ge> 7 * i. \<not> bit r k" and "us \<noteq> []" and "i < 9"
  shows "sleb_total (Suc i) (r OR push_bit (7 * i) (ucast (b AND 0x7f))) us = sleb_total i r (b # us)"
proof (rule bit_eqI)
  fix k
  consider "k < 7 * i" | "7 * i \<le> k" "k < 7 * i + 7" | "7 * i + 7 \<le> k" by linarith
  then show "bit (sleb_total (Suc i) (r OR push_bit (7 * i) (ucast (b AND 0x7f))) us) k =
      bit (sleb_total i r (b # us)) k"
  proof cases
    case 1
    then show ?thesis by (simp add: bit_sleb_total bit_leb_or)
  next
    case 2
    then have "k - 7 * i < 7" by simp
    with 2 show ?thesis using assms by (simp add: bit_sleb_total bit_leb_or bit_sleb_Cons)
  next
    case 3
    then have "k - 7 * Suc i = k - 7 * i - 7" and "\<not> k - 7 * i < 7" by simp_all
    with 3 show ?thesis using assms by (simp add: bit_sleb_total bit_sleb_Cons)
  qed
qed

text \<open>The value the last byte gives, with its sign extension.\<close>

definition sleb_last :: "nat \<Rightarrow> i64 \<Rightarrow> byte \<Rightarrow> i64" where
  "sleb_last i r b =
     (let r' = r OR push_bit (7 * i) (ucast (b AND 0x7f)) in
      if 7 * i + 7 < 64 \<and> b AND 0x40 \<noteq> 0 then r' OR push_bit (7 * i + 7) (- 1) else r')"

lemma bit_sleb_last:
  assumes "\<forall>k \<ge> 7 * i. \<not> bit r k" and "i < 10" and "k < 64"
  shows "bit (sleb_last i r b) k = bit (sleb_total i r [b]) k"
proof -
  let ?ext = "7 * i + 7 < 64 \<and> bit b 6"
  have last: "bit (sleb_last i r b) k \<longleftrightarrow>
      bit (r OR push_bit (7 * i) (ucast (b AND 0x7f)) :: i64) k \<or> (?ext \<and> 7 * i + 7 \<le> k)"
    using assms(3) by (auto simp: sleb_last_def Let_def and_0x40_iff bit_or_iff bit_not_iff bit_mask_iff)
  consider "k < 7 * i" | "7 * i \<le> k" "k < 7 * i + 7" | "7 * i + 7 \<le> k" by linarith
  then show ?thesis
  proof cases
    case 1
    then show ?thesis by (simp add: last bit_leb_or bit_sleb_total)
  next
    case 2
    then have "min 6 (k - 7 * i) = k - 7 * i" by simp
    with 2 show ?thesis using assms by (simp add: last bit_leb_or bit_sleb_total bit_sleb_single)
  next
    case 3
    then have "min 6 (k - 7 * i) = 6" by simp
    with 3 show ?thesis using assms by (simp add: last bit_leb_or bit_sleb_total bit_sleb_single)
  qed
qed

lemma bit_sint64: "k < 64 \<Longrightarrow> bit (sint (v :: i64)) k = bit v k"
  by (subst bit_sint_iff) simp

lemma bit_sint64_high: "64 \<le> k \<Longrightarrow> bit (sint (v :: i64)) k = bit v 63"
  using bit_imp_le_length [of v k] by (subst bit_sint_iff) auto

lemma sint_eq_iff_in_range:
  assumes "in_range 64 S"
  shows "sint (v :: i64) = S \<longleftrightarrow> (\<forall>k < 64. bit v k = bit S k)" (is "_ \<longleftrightarrow> ?R")
proof
  assume eq: "sint v = S"
  show ?R
    unfolding eq [symmetric] using bit_sint64 by blast
next
  assume v: ?R
  have S: "bit S k = bit S 63" if "63 \<le> k" for k
    using assms [unfolded in_range_bits, rule_format, of k] that by simp
  show "sint v = S"
  proof (rule bit_eqI)
    fix k
    show "bit (sint v) k = bit S k"
    proof (cases "k < 64")
      case True
      then show ?thesis using v bit_sint64 by blast
    next
      case False
      then have "bit (sint v) k = bit v 63" and "bit S k = bit S 63"
        using bit_sint64_high [of k v] S [of k] by simp_all
      then show ?thesis using v by simp
    qed
  qed
qed

lemma in_range_mono: "in_range m S \<Longrightarrow> m \<le> n \<Longrightarrow> in_range n S"
proof -
  assume m: "in_range m S" and "m \<le> n"
  then have "(2::int) ^ (m - 1) \<le> 2 ^ (n - 1)"
    by (intro power_increasing) auto
  with m show "in_range n S" unfolding in_range_def by linarith
qed

text \<open>
  One byte of the signed loop, seen from the number it contributes to: the check of the byte is
  exactly what the range of the whole number asks of its bits, and after the last byte it is
  equivalent to the range.
\<close>

definition loop_pre :: "nat \<Rightarrow> nat \<Rightarrow> i64 \<Rightarrow> bool" where
  "loop_pre bits i r \<longleftrightarrow>
     (\<forall>k \<ge> 7 * i. \<not> bit r k) \<and> (\<forall>k. bits - 1 \<le> k \<and> k < 7 * i \<longrightarrow> bit r k = bit r (bits - 1))"

definition byte_ok :: "nat \<Rightarrow> nat \<Rightarrow> i64 \<Rightarrow> byte \<Rightarrow> bool" where
  "byte_ok bits i r b \<longleftrightarrow>
     \<not> (bits < 7 * i + 7 \<and> \<not> sign_check bits (7 * i) (r OR push_bit (7 * i) (ucast (b AND 0x7f))) b)"

lemma byte_ok_iff:
  assumes "0 < bits" and "bits \<le> 64" and "\<forall>k \<ge> 7 * i. \<not> bit r k" and "i < 10"
  shows "byte_ok bits i r b \<longleftrightarrow>
    (\<forall>k. bits \<le> k \<and> 7 * i \<le> k \<and> k < 7 * i + 7 \<longrightarrow>
       bit b (k - 7 * i) = bit (sleb_total i r [b]) (bits - 1))"
proof (cases "bits < 7 * i + 7")
  case False
  then show ?thesis by (auto simp: byte_ok_def)
next
  case True
  let ?r = "r OR push_bit (7 * i) (ucast (b AND 0x7f)) :: i64"
  have sb: "bit ?r (bits - 1) = bit (sleb_total i r [b]) (bits - 1)"
  proof (cases "bits - 1 < 7 * i")
    case True
    then show ?thesis by (simp add: bit_leb_or bit_sleb_total)
  next
    case False
    then have "min 6 (bits - 1 - 7 * i) = bits - 1 - 7 * i" using \<open>bits < 7 * i + 7\<close> by simp
    moreover have "bits - 1 < 64" and "bits - 1 < 7 * i + 7"
      using assms \<open>bits < 7 * i + 7\<close> by linarith+
    ultimately show ?thesis
      using assms False by (simp add: bit_leb_or bit_sleb_total bit_sleb_single)
  qed
  have "byte_ok bits i r b \<longleftrightarrow>
      (\<forall>j. bits - 7 * i \<le> j \<and> j < 7 \<longrightarrow> bit b j = bit (sleb_total i r [b]) (bits - 1))"
    unfolding byte_ok_def sign_check_iff [OF assms(1,2) True] sb using True by blast
  also have "\<dots> \<longleftrightarrow> (\<forall>k. bits \<le> k \<and> 7 * i \<le> k \<and> k < 7 * i + 7 \<longrightarrow>
       bit b (k - 7 * i) = bit (sleb_total i r [b]) (bits - 1))" (is "?A \<longleftrightarrow> ?B")
  proof
    assume A: ?A
    show ?B
    proof (intro allI impI)
      fix k
      assume "bits \<le> k \<and> 7 * i \<le> k \<and> k < 7 * i + 7"
      then have "bits - 7 * i \<le> k - 7 * i \<and> k - 7 * i < 7" by auto
      with A show "bit b (k - 7 * i) = bit (sleb_total i r [b]) (bits - 1)" by blast
    qed
  next
    assume B: ?B
    show ?A
    proof (intro allI impI)
      fix j
      assume "bits - 7 * i \<le> j \<and> j < 7"
      then show "bit b j = bit (sleb_total i r [b]) (bits - 1)"
        using B [rule_format, of "7 * i + j"] by auto
    qed
  qed
  finally show ?thesis .
qed

lemma bit_sleb_total_single_last:
  assumes "7 * i + 6 \<le> k"
  shows "bit (sleb_total i r [b]) k = bit b 6"
proof -
  have "min 6 (k - 7 * i) = 6" and "\<not> k < 7 * i" using assms by simp_all
  then show ?thesis by (simp add: bit_sleb_total bit_sleb_single)
qed

lemma byte_ok_last:
  assumes "0 < bits" and "bits \<le> 64" and pre: "loop_pre bits i r" and "i < 10"
  shows "byte_ok bits i r b \<longleftrightarrow> in_range bits (sleb_total i r [b])"
proof -
  let ?S = "sleb_total i r [b]"
  have clean: "\<forall>k \<ge> 7 * i. \<not> bit r k"
    and checked: "\<And>k. bits - 1 \<le> k \<Longrightarrow> k < 7 * i \<Longrightarrow> bit r k = bit r (bits - 1)"
    using pre unfolding loop_pre_def by blast+
  have mid: "bit ?S k = bit b (k - 7 * i)" if "7 * i \<le> k" "k < 7 * i + 7" for k
  proof -
    have "min 6 (k - 7 * i) = k - 7 * i" using that by simp
    then show ?thesis using that by (simp add: bit_sleb_total bit_sleb_single)
  qed
  have "byte_ok bits i r b \<longleftrightarrow>
      (\<forall>k. bits \<le> k \<and> 7 * i \<le> k \<and> k < 7 * i + 7 \<longrightarrow> bit ?S k = bit ?S (bits - 1))"
    unfolding byte_ok_iff [OF assms(1,2) clean \<open>i < 10\<close>] using mid by auto
  also have "\<dots> \<longleftrightarrow> (\<forall>k \<ge> bits - 1. bit ?S k = bit ?S (bits - 1))" (is "?A \<longleftrightarrow> ?B")
  proof
    assume A: ?A
    show ?B
    proof (intro allI impI)
      fix k
      assume k: "bits - 1 \<le> k"
      consider "k = bits - 1" | "bits \<le> k" "k < 7 * i" | "bits \<le> k" "7 * i \<le> k" "k < 7 * i + 7"
        | "bits \<le> k" "7 * i + 7 \<le> k" using k by linarith
      then show "bit ?S k = bit ?S (bits - 1)"
      proof cases
        case 2
        then have "bits - 1 \<le> k" and "bits - 1 < 7 * i" by linarith+
        with 2 show ?thesis using checked [of k] by (simp add: bit_sleb_total)
      next
        case 4
        then have "bit ?S k = bit ?S (7 * i + 6)"
          by (simp add: bit_sleb_total_single_last)
        also have "\<dots> = bit ?S (bits - 1)"
        proof (cases "bits \<le> 7 * i + 6")
          case True
          then show ?thesis using A by auto
        next
          case False
          then show ?thesis by (simp add: bit_sleb_total_single_last)
        qed
        finally show ?thesis .
      qed (use A in auto)
    qed
  next
    assume ?B
    then show ?A by (metis diff_le_self le_trans)
  qed
  finally show ?thesis by (simp only: in_range_bits)
qed

lemma byte_ok_next:
  assumes "0 < bits" and "bits \<le> 64" and pre: "loop_pre bits i r" and "i < 9" and "us \<noteq> []"
  shows "in_range bits (sleb_total i r (b # us)) \<Longrightarrow> byte_ok bits i r b"
    and "byte_ok bits i r b \<Longrightarrow>
      loop_pre bits (Suc i) (r OR push_bit (7 * i) (ucast (b AND 0x7f)))"
proof -
  let ?S = "sleb_total i r (b # us)" and ?S1 = "sleb_total i r [b]"
  let ?r = "r OR push_bit (7 * i) (ucast (b AND 0x7f)) :: i64"
  have clean: "\<forall>k \<ge> 7 * i. \<not> bit r k"
    and checked: "\<And>k. bits - 1 \<le> k \<Longrightarrow> k < 7 * i \<Longrightarrow> bit r k = bit r (bits - 1)"
    using pre unfolding loop_pre_def by blast+
  have same: "bit ?S k = bit ?S1 k" if "k < 7 * i + 7" for k
  proof (cases "k < 7 * i")
    case True
    then show ?thesis by (simp add: bit_sleb_total)
  next
    case False
    then have "k - 7 * i < 7" and "min 6 (k - 7 * i) = k - 7 * i" using that by simp_all
    with False show ?thesis
      using \<open>us \<noteq> []\<close> by (simp add: bit_sleb_total bit_sleb_Cons bit_sleb_single)
  qed
  have r: "bit ?r k = bit ?S1 k" if "k < 7 * i + 7" for k
  proof (cases "k < 7 * i")
    case True
    then show ?thesis by (simp add: bit_sleb_total bit_leb_or)
  next
    case False
    then have "min 6 (k - 7 * i) = k - 7 * i" and "k < 64" using that \<open>i < 9\<close> by simp_all
    with False that show ?thesis
      using clean by (simp add: bit_sleb_total bit_leb_or bit_sleb_single)
  qed
  have ok: "byte_ok bits i r b \<longleftrightarrow>
      (\<forall>k. bits \<le> k \<and> 7 * i \<le> k \<and> k < 7 * i + 7 \<longrightarrow> bit ?r k = bit ?S1 (bits - 1))"
  proof -
    have "bit b (k - 7 * i) = bit ?r k" if "7 * i \<le> k" "k < 7 * i + 7" for k
      using that clean \<open>i < 9\<close> by (simp add: bit_leb_or)
    then show ?thesis
      unfolding byte_ok_iff [OF assms(1,2) clean less_trans [OF \<open>i < 9\<close>], simplified] by auto
  qed
  show "byte_ok bits i r b" if "in_range bits ?S"
    unfolding ok
  proof (intro allI impI)
    fix k
    assume k: "bits \<le> k \<and> 7 * i \<le> k \<and> k < 7 * i + 7"
    then have "bits - 1 \<le> k" by linarith
    then have "bit ?S k = bit ?S (bits - 1)"
      using that unfolding in_range_bits by blast
    moreover have "bits - 1 < 7 * i + 7" using k by linarith
    ultimately show "bit ?r k = bit ?S1 (bits - 1)" using k same r by simp
  qed
  show "loop_pre bits (Suc i) ?r" if "byte_ok bits i r b"
    unfolding loop_pre_def
  proof (intro conjI allI impI)
    fix k
    assume "7 * Suc i \<le> k"
    then show "\<not> bit ?r k" using clean by (simp add: bit_leb_or)
  next
    fix k
    assume k: "bits - 1 \<le> k \<and> k < 7 * Suc i"
    then have b: "bit ?r (bits - 1) = bit ?S1 (bits - 1)" using r by simp
    consider "k = bits - 1" | "bits \<le> k" "k < 7 * i" | "bits \<le> k" "7 * i \<le> k"
      using k by linarith
    then show "bit ?r k = bit ?r (bits - 1)"
    proof cases
      case 2
      then have "bits - 1 \<le> k" and "bits - 1 < 7 * i" by linarith+
      with 2 show ?thesis using checked [of k] by (simp add: bit_leb_or)
    next
      case 3
      then show ?thesis using that [unfolded ok] k b by simp
    qed simp
  qed
qed

lemma readS64Bits_from_unfold:
  "readS64Bits_from bits i (7 * i) r (b # bs) =
     (if i < 10 then
        if byte_ok bits i r b then
          if b AND 0x80 = 0 then Inr (sleb_last i r b, bs)
          else readS64Bits_from bits (Suc i) (7 * Suc i) (r OR push_bit (7 * i) (ucast (b AND 0x7f))) bs
        else Inl ErrLEB128Overflow
      else Inl ErrLEB128Overflow)"
proof -
  have "7 * i + 7 = 7 * Suc i" by simp
  then show ?thesis
    by (subst readS64Bits_from.simps)
       (simp add: byte_ok_def sleb_last_def Let_def del: mult_Suc_right)
qed

lemma readS64Bits_from_iff:
  assumes "0 < bits" and "bits \<le> 64" and "loop_pre bits i r" and "i \<le> 10"
  shows "readS64Bits_from bits i (7 * i) r bs = Inr (v, rest) \<longleftrightarrow>
    (\<exists>used. bs = used @ rest \<and> leb_framed used \<and> i + length used \<le> 10 \<and>
       in_range bits (sleb_total i r used) \<and> sint v = sleb_total i r used)"
  using assms(3,4)
proof (induction bs arbitrary: i r)
  case Nil
  then show ?case by (subst readS64Bits_from.simps) auto
next
  case (Cons b bs)
  let ?r = "r OR push_bit (7 * i) (ucast (b AND 0x7f)) :: i64"
  let ?R = "\<lambda>i r bs used. bs = used @ rest \<and> leb_framed used \<and> i + length used \<le> 10 \<and>
       in_range bits (sleb_total i r used) \<and> sint v = sleb_total i r used"
  have split: "(\<exists>used. ?R i r (b # bs) used) \<longleftrightarrow> (if b AND 0x80 = 0 then ?R i r (b # bs) [b]
     else (\<exists>us. ?R i r (b # bs) (b # us) \<and> us \<noteq> []))"
    by (auto simp: Cons_eq_append_conv split: if_splits)
  have clean: "\<forall>k \<ge> 7 * i. \<not> bit r k"
    using Cons.prems(1) by (simp add: loop_pre_def)
  show ?case
  proof (cases "i < 10 \<and> b AND 0x80 = 0")
    case True
    then have "i < 10" by simp
    have val: "v = sleb_last i r b \<longleftrightarrow> sint v = sleb_total i r [b]"
      if "in_range bits (sleb_total i r [b])"
    proof -
      have "in_range 64 (sleb_total i r [b])" using that assms(2) by (rule in_range_mono)
      then have "sint v = sleb_total i r [b] \<longleftrightarrow> (\<forall>k < 64. bit v k = bit (sleb_total i r [b]) k)"
        by (rule sint_eq_iff_in_range)
      also have "\<dots> \<longleftrightarrow> (\<forall>k < 64. bit v k = bit (sleb_last i r b) k)"
        by (intro all_cong) (simp only: bit_sleb_last [OF clean \<open>i < 10\<close>])
      also have "\<dots> \<longleftrightarrow> v = sleb_last i r b"
      proof
        assume "\<forall>k < 64. bit v k = bit (sleb_last i r b) k"
        then show "v = sleb_last i r b" by (intro bit_word_eqI) simp
      qed blast
      finally show ?thesis by blast
    qed
    have "readS64Bits_from bits i (7 * i) r (b # bs) = Inr (v, rest) \<longleftrightarrow>
        in_range bits (sleb_total i r [b]) \<and> v = sleb_last i r b \<and> rest = bs"
      using True byte_ok_last [OF assms(1,2) Cons.prems(1) \<open>i < 10\<close>]
      by (auto simp: readS64Bits_from_unfold)
    also have "\<dots> \<longleftrightarrow> ?R i r (b # bs) [b]"
      using True val by auto
    finally show ?thesis unfolding split using True by simp
  next
    case False
    consider "i = 10" | "i = 9" "b AND 0x80 \<noteq> 0" | "i < 9" "b AND 0x80 \<noteq> 0"
      using False Cons.prems(2) by linarith
    then show ?thesis
    proof cases
      case 1
      then have "readS64Bits_from bits i (7 * i) r (b # bs) = Inl ErrLEB128Overflow"
        by (simp add: readS64Bits_from.simps)
      moreover have "\<not> ?R i r (b # bs) used" for used
        using 1 leb_framed_nonempty [of used] by auto
      ultimately show ?thesis by simp
    next
      case 2
      have full: "readS64Bits_from bits (Suc 9) s r' bs = Inl ErrLEB128Overflow" for s r'
        by (subst readS64Bits_from.simps) simp
      from 2 have "readS64Bits_from bits i (7 * i) r (b # bs) \<noteq> Inr (v, rest)"
        by (simp only: readS64Bits_from_unfold full) simp
      moreover have "\<not> (?R i r (b # bs) (b # us) \<and> us \<noteq> [])" for us
        using 2 by (cases us) auto
      ultimately show ?thesis unfolding split using 2 by simp
    next
      case 3
      note next_ok = byte_ok_next [OF assms(1,2) Cons.prems(1) 3(1)]
      have run: "readS64Bits_from bits i (7 * i) r (b # bs) =
          (if byte_ok bits i r b then readS64Bits_from bits (Suc i) (7 * Suc i) ?r bs
           else Inl ErrLEB128Overflow)"
        using 3 by (simp add: readS64Bits_from_unfold)
      have total: "sleb_total (Suc i) ?r us = sleb_total i r (b # us)" if "us \<noteq> []" for us
        using sleb_total_step [OF clean that 3(1)] .
      show ?thesis
      proof (cases "byte_ok bits i r b")
        case True
        have "loop_pre bits (Suc i) ?r" using next_ok(2) [of "[b]"] True by simp
        from Cons.IH [OF this] 3 True show ?thesis
          unfolding split run using total leb_framed_nonempty by auto
      next
        case False
        then have "\<not> (?R i r (b # bs) (b # us) \<and> us \<noteq> [])" for us
          using next_ok(1) by blast
        then show ?thesis unfolding split run using 3 False by simp
      qed
    qed
  qed
qed

lemma readS64Bits_iff:
  assumes "0 < bits" and "bits \<le> 64"
  shows "readS64Bits bits bs = Inr (v, rest) \<longleftrightarrow>
    (\<exists>used. bs = used @ rest \<and> leb_framed used \<and> length used \<le> 10 \<and>
       in_range bits (sleb_int used) \<and> sint v = sleb_int used)"
proof -
  have "loop_pre bits 0 0" by (simp add: loop_pre_def)
  moreover have "sleb_total 0 0 us = sleb_int us" for us
    by (rule bit_eqI) (simp add: bit_sleb_total)
  ultimately show ?thesis
    using readS64Bits_from_iff [OF assms, of 0 0 bs v rest] by (simp add: readS64Bits_def)
qed

lemma readS64_iff:
  "readS64 bs = Inr (v, rest) \<longleftrightarrow>
    (\<exists>used. bs = used @ rest \<and> leb_framed used \<and> length used \<le> 10 \<and>
       in_range 64 (sleb_int used) \<and> sint v = sleb_int used)"
  unfolding readS64_def by (rule readS64Bits_iff) simp_all

lemma signed_take_bit_ucast_32: "sint (ucast (w :: i64) :: i32) = signed_take_bit 31 (sint w)"
proof (rule bit_eqI)
  fix n :: nat
  consider "n < 31" | "n = 31" | "31 < n" by linarith
  then show "bit (sint (ucast w :: i32)) n = bit (signed_take_bit 31 (sint w)) n"
    by cases (simp_all add: bit_sint_iff bit_signed_take_bit_iff bit_ucast_iff min_def)
qed

lemma sint_scast_64: "sint (scast (v :: i32) :: i64) = sint v"
proof (rule bit_eqI)
  fix n :: nat
  have high: "\<not> bit v n" if "31 < n" using that by (auto dest: bit_imp_le_length)
  consider "n < 31" | "n = 31" | "31 < n" "n < 63" | "63 \<le> n" by linarith
  then show "bit (sint (scast v :: i64)) n = bit (sint v) n"
  proof cases
    case 3
    then show ?thesis using high by (simp add: bit_sint_iff bit_simps min_def)
  next
    case 4
    then show ?thesis using high by (cases "n = 63") (simp_all add: bit_sint_iff bit_simps min_def)
  qed (simp_all add: bit_sint_iff bit_simps min_def)
qed

lemma sint_ucast_32:
  assumes "in_range 32 (sint (w :: i64))"
  shows "sint (ucast w :: i32) = sint w"
proof -
  have "sint (ucast w :: i32) = signed_take_bit 31 (sint w)"
    by (simp add: signed_take_bit_ucast_32)
  also have "\<dots> = sint w"
    using assms by (simp add: in_range_def signed_take_bit_int_eq_self_iff)
  finally show ?thesis .
qed

lemma readS32_iff:
  "readS32 bs = Inr (v, rest) \<longleftrightarrow>
    (\<exists>used. bs = used @ rest \<and> leb_framed used \<and> length used \<le> 10 \<and>
       in_range 32 (sleb_int used) \<and> sint v = sleb_int used)" (is "_ \<longleftrightarrow> ?R")
proof -
  have "readS32 bs = Inr (v, rest) \<longleftrightarrow> (\<exists>w. readS64Bits 32 bs = Inr (w, rest) \<and> v = ucast w)"
    by (auto simp: readS32_def pbind_eq)
  also have "\<dots> \<longleftrightarrow> ?R"
  proof
    assume "\<exists>w. readS64Bits 32 bs = Inr (w, rest) \<and> v = ucast w"
    then show ?R using sint_ucast_32 by (auto simp: readS64Bits_iff)
  next
    assume ?R
    then obtain used where u: "bs = used @ rest" "leb_framed used" "length used \<le> 10"
        "in_range 32 (sleb_int used)" "sint v = sleb_int used" by blast
    have "sint (scast v :: i64) = sint v" by (rule sint_scast_64)
    with u have "readS64Bits 32 bs = Inr (scast v, rest)" by (auto simp: readS64Bits_iff)
    moreover have "v = ucast (scast v :: i64)"
      by (rule bit_word_eqI) (simp add: bit_simps)
    ultimately show "\<exists>w. readS64Bits 32 bs = Inr (w, rest) \<and> v = ucast w" by blast
  qed
  finally show ?thesis .
qed

section \<open>The signed writer\<close>

lemma writeSLEB_nonempty: "writeSLEB v \<noteq> []"
  by (subst writeSLEB.simps) (simp add: Let_def)

lemma uint_ucast_payload: "uint (ucast (v AND 0x7f :: u64) :: byte) = uint v mod 128"
proof -
  have "int (unat (ucast (v AND 0x7f :: u64) :: byte)) = int (unat v mod 128)"
    by (simp only: unat_ucast_payload)
  then show ?thesis by (simp only: of_nat_unat of_nat_mod of_nat_numeral)
qed

lemma sint_split_7:
  "sint (v :: i64) = uint (ucast (v AND 0x7f) :: byte) + 128 * sint (signed_drop_bit 7 v)"
proof -
  have "uint v mod 128 = sint v mod 128"
  proof -
    have "take_bit 7 (uint v) = take_bit 7 (sint v)"
      by (simp only: uint_sint take_bit_take_bit) simp
    then show ?thesis by (simp add: take_bit_eq_mod)
  qed
  then show ?thesis
    unfolding uint_ucast_payload by (simp add: sint_signed_drop_bit_eq drop_bit_eq_div)
qed

lemma sleb_int_Cons:
  "us \<noteq> [] \<Longrightarrow> sleb_int (b # us) = uint (b AND 0x7f) + 128 * sleb_int us"
  by (cases us) (simp_all add: sleb_int.simps)

lemma writeSLEB_value:
  "leb_framed (writeSLEB v) \<and> sleb_int (writeSLEB v) = sint v"
proof (induction v rule: writeSLEB.induct)
  case (1 v)
  let ?b = "ucast (v AND 0x7f) :: byte" and ?v = "signed_drop_bit 7 v"
  let ?stop = "(?v = 0 \<and> ?b AND 0x40 = 0) \<or> (?v = - 1 \<and> ?b AND 0x40 \<noteq> 0)"
  have low: "?b AND 0x80 = 0" and low': "(?b OR 0x80) AND 0x80 \<noteq> 0"
    unfolding leb_bits by (simp_all add: bit_simps leb_bits)
  have pay: "(?b OR 0x80) AND 0x7f = ?b AND 0x7f"
    unfolding and_0x7f_take_bit by (intro bit_word_eqI) (auto simp: bit_simps bit_0x80)
  show ?case
  proof (cases ?stop)
    case True
    then have "writeSLEB v = [?b]" by (subst writeSLEB.simps) (auto simp: Let_def)
    moreover have "sint v = uint ?b - (if ?b AND 0x40 \<noteq> 0 then 128 else 0)"
      using True sint_split_7 [of v] by auto
    ultimately show ?thesis using low by (simp add: sleb_int.simps ucast_payload)
  next
    case False
    then have run: "writeSLEB v = (?b OR 0x80) # writeSLEB ?v"
      by (subst writeSLEB.simps) (auto simp: Let_def)
    moreover have "leb_framed (writeSLEB ?v) \<and> sleb_int (writeSLEB ?v) = sint ?v"
      using False 1 by blast
    ultimately show ?thesis
      using low' pay sint_split_7 [of v]
      by (simp add: sleb_int_Cons writeSLEB_nonempty ucast_payload)
  qed
qed

lemma payload_sign:
  assumes "uint (b :: byte) < 128"
  shows "b AND 0x40 = 0 \<longleftrightarrow> uint b < 64"
proof -
  have "b AND 0x40 = 0 \<longleftrightarrow> \<not> bit (uint b) 6"
    by (simp add: and_0x40_iff bit_uint_iff)
  also have "\<dots> \<longleftrightarrow> even (uint b div 64)"
    by (simp add: bit_iff_odd)
  also have "\<dots> \<longleftrightarrow> uint b < 64"
  proof (cases "uint b < 64")
    case False
    then have "uint b div 64 = 1" using assms by simp
    with False show ?thesis by simp
  qed simp
  finally show ?thesis .
qed

lemma writeSLEB_length:
  "in_range (7 * n) (sint v) \<Longrightarrow> 0 < n \<Longrightarrow> length (writeSLEB v) \<le> n"
proof (induction v arbitrary: n rule: writeSLEB.induct)
  case (1 v)
  let ?b = "ucast (v AND 0x7f) :: byte" and ?v = "signed_drop_bit 7 v"
  let ?stop = "(?v = 0 \<and> ?b AND 0x40 = 0) \<or> (?v = - 1 \<and> ?b AND 0x40 \<noteq> 0)"
  show ?case
  proof (cases ?stop)
    case True
    then have "writeSLEB v = [?b]" by (subst writeSLEB.simps) (auto simp: Let_def)
    then show ?thesis using 1 by simp
  next
    case False
    then have run: "writeSLEB v = (?b OR 0x80) # writeSLEB ?v"
      by (subst writeSLEB.simps) (auto simp: Let_def)
    obtain m where n: "n = Suc m" using 1 by (cases n) auto
    have b: "0 \<le> uint ?b" "uint ?b < 128"
      by (simp_all only: uint_ucast_payload pos_mod_sign pos_mod_bound zero_less_numeral)
    note s = sint_split_7 [of v]
    have "0 < m"
    proof (rule ccontr)
      assume "\<not> 0 < m"
      then have r: "- 64 \<le> sint v" "sint v < 64" using 1(2) by (simp_all add: n in_range_def)
      then have "sint ?v = 0 \<and> uint ?b < 64 \<or> sint ?v = - 1 \<and> \<not> uint ?b < 64"
        using s b by linarith
      moreover have "?v = 0 \<longleftrightarrow> sint ?v = 0" and "?v = - 1 \<longleftrightarrow> sint ?v = - 1"
        by (metis word_eq_iff_signed [of ?v 0] signed_0) (metis word_eq_iff_signed [of ?v "- 1"] sint_n1)
      ultimately have "?v = 0 \<and> uint ?b < 64 \<or> ?v = - 1 \<and> \<not> uint ?b < 64"
        by blast
      then show False using False payload_sign [OF b(2)] by blast
    qed
    then have "(2::int) ^ (7 * n - 1) = 128 * 2 ^ (7 * m - 1)"
      unfolding n by (cases m) (simp_all add: power_add)
    then have "in_range (7 * m) (sint ?v)"
      using 1(2) s b unfolding in_range_def by linarith
    then have "length (writeSLEB ?v) \<le> m"
      using 1(1) False \<open>0 < m\<close> by blast
    then show ?thesis by (simp add: run n)
  qed
qed

lemma in_range_sint64: "in_range 64 (sint (v :: i64))"
  using sint_greater_eq [of v] sint_less [of v] by (simp add: in_range_def)

lemma in_range_sint32: "in_range 32 (sint (v :: i32))"
  using sint_greater_eq [of v] sint_less [of v] by (simp add: in_range_def)

lemma writeSLEB_length_10: "length (writeSLEB v) \<le> 10"
  by (rule writeSLEB_length) (auto intro: in_range_mono [OF in_range_sint64])

lemma readS64_writeSLEB: "readS64 (writeSLEB v @ rest) = Inr (v, rest)"
  unfolding readS64_iff
  using writeSLEB_value [of v] writeSLEB_length_10 [of v] in_range_sint64 [of v]
  by (intro exI [of _ "writeSLEB v"]) simp

definition encS32 :: "i32 \<Rightarrow> byte list" where
  "encS32 v = writeSLEB (scast v)"

lemma readS32_encS32: "readS32 (encS32 v @ rest) = Inr (v, rest)"
  unfolding readS32_iff encS32_def
  using writeSLEB_value [of "scast v"] writeSLEB_length_10 [of "scast v"] in_range_sint32 [of v]
  by (intro exI [of _ "writeSLEB (scast v)"]) (simp add: sint_scast_64)

lemma prefix_readS64 [prefix_intros]: "prefix_reader readS64"
  by (rule prefix_readerI) (auto simp: readS64_iff)

lemma prefix_readS32 [prefix_intros]: "prefix_reader readS32"
  by (rule prefix_readerI) (auto simp: readS32_iff)

interpretation s64_codec: codec "\<lambda>_. readS64" writeSLEB "\<lambda>_. True"
  by unfold_locales (simp_all add: prefix_readS64 readS64_writeSLEB)

interpretation s32_codec: codec "\<lambda>_. readS32" encS32 "\<lambda>_. True"
  by unfold_locales (simp_all add: prefix_readS32 readS32_encS32)

section \<open>Byte vectors and names\<close>

definition encByteVec :: "byte list \<Rightarrow> byte list" where
  "encByteVec xs = encU32 (word_of_nat (length xs)) @ xs"

definition byteVec_ok :: "byte list \<Rightarrow> bool" where
  "byteVec_ok xs \<longleftrightarrow> length xs \<le> 2 ^ 28"

lemma readByteVec_iff:
  "readByteVec bs = Inr (xs, rest) \<longleftrightarrow>
    (\<exists>n r. readU32 bs = Inr (n, r) \<and> r = xs @ rest \<and> unat n = length xs \<and> byteVec_ok xs)"
  by (auto simp: readByteVec_def pbind_eq readFull_eq byteVec_ok_def readByteVecCap_def
      word_less_nat_alt not_less)

lemma unat_word_of_length: "length xs < 2 ^ 32 \<Longrightarrow> unat (word_of_nat (length xs) :: u32) = length xs"
  by (simp add: unat_of_nat)

lemma readByteVec_encByteVec: "byteVec_ok xs \<Longrightarrow> readByteVec (encByteVec xs @ rest) = Inr (xs, rest)"
  by (simp add: readByteVec_iff encByteVec_def readU32_encU32 unat_word_of_length byteVec_ok_def)

lemma prefix_readByteVec [prefix_intros]: "prefix_reader readByteVec"
  unfolding readByteVec_def by (intro prefix_intros)

interpretation byteVec_codec: codec "\<lambda>_. readByteVec" encByteVec byteVec_ok
  by unfold_locales (simp_all add: prefix_readByteVec readByteVec_encByteVec)

lemma readByteVec_ok: "readByteVec bs = Inr (xs, rest) \<Longrightarrow> byteVec_ok xs"
  by (auto simp: readByteVec_iff)

end
