(* ===== verification/WasmIR.thy ===== *)
theory WasmIR
  imports Leb128
begin

text \<open>
  The in-memory module of \<^verbatim>\<open>internal/wasm/ir.go\<close>: its structs as records, with the queries
  \<^verbatim>\<open>Memory64\<close> and \<^verbatim>\<open>FuncTypeOf\<close> over them. A Go index out of range panics; here
  it gives \<^const>\<open>None\<close>.
\<close>

section \<open>Value types\<close>

type_synonym ValType = byte

definition ValI32 :: ValType where "ValI32 = 0x7f"
definition ValI64 :: ValType where "ValI64 = 0x7e"
definition ValF32 :: ValType where "ValF32 = 0x7d"
definition ValF64 :: ValType where "ValF64 = 0x7c"
definition ValV128 :: ValType where "ValV128 = 0x7b"
definition ValFuncref :: ValType where "ValFuncref = 0x70"
definition ValExternref :: ValType where "ValExternref = 0x6f"

lemmas ValType_defs = ValI32_def ValI64_def ValF32_def ValF64_def ValV128_def ValFuncref_def
  ValExternref_def

definition ValType_String :: "ValType \<Rightarrow> string" where
  "ValType_String v =
     (if v = ValI32 then ''i32'' else if v = ValI64 then ''i64'' else if v = ValF32 then ''f32''
      else if v = ValF64 then ''f64'' else if v = ValV128 then ''v128''
      else if v = ValFuncref then ''funcref'' else if v = ValExternref then ''externref'' else ''?'')"

section \<open>The structs\<close>

record FuncType =
  Params :: "ValType list"
  Results :: "ValType list"

record Limits =
  Min :: u64
  Max :: u64
  HasMax :: bool
  Shared :: bool
  Is64 :: bool

record TableType =
  ElemType :: ValType
  tt_Limits :: Limits

record MemoryType =
  mt_Limits :: Limits
  mt_Is64 :: bool

record GlobalType =
  gt_Type :: ValType
  Mutable :: bool

type_synonym ImportKind = byte

definition ImportFunc :: ImportKind where "ImportFunc = 0x00"
definition ImportTable :: ImportKind where "ImportTable = 0x01"
definition ImportMemory :: ImportKind where "ImportMemory = 0x02"
definition ImportGlobal :: ImportKind where "ImportGlobal = 0x03"
definition ImportTag :: ImportKind where "ImportTag = 0x04"

lemmas ImportKind_defs = ImportFunc_def ImportTable_def ImportMemory_def ImportGlobal_def
  ImportTag_def

record Tag =
  Attribute :: byte
  tag_TypeIdx :: u32

record Import =
  imp_Module :: "byte list"
  imp_Name :: "byte list"
  imp_Kind :: ImportKind
  imp_TypeIdx :: u32
  imp_Table :: TableType
  imp_Memory :: MemoryType
  imp_Global :: GlobalType
  imp_Tag :: Tag

record Export =
  exp_Name :: "byte list"
  exp_Kind :: byte
  exp_Index :: u32

record Global =
  glob_Type :: GlobalType
  glob_Init :: "byte list"

record Function =
  fn_TypeIdx :: u32
  fn_Body :: "byte list"

record ElementSegment =
  elem_TableIdx :: u32
  elem_Offset :: "byte list"
  elem_FuncIdxs :: "u32 list"

record DataSegment =
  data_MemIdx :: u32
  data_Offset :: "byte list"
  data_Bytes :: "byte list"
  data_Passive :: bool

record Module =
  Types :: "FuncType list"
  Imports :: "Import list"
  Functions :: "Function list"
  Tables :: "TableType list"
  Memories :: "MemoryType list"
  Globals :: "Global list"
  Exports :: "Export list"
  Start :: "u32 option"
  Elements :: "ElementSegment list"
  Datas :: "DataSegment list"
  Tags :: "Tag list"
  NumImportedFuncs :: u32
  NumImportedTables :: u32
  NumImportedMems :: u32
  NumImportedGlobals :: u32
  NumImportedTags :: u32

text \<open>Go's zero values.\<close>

definition zero_Limits :: Limits where
  "zero_Limits = \<lparr>Min = 0, Max = 0, HasMax = False, Shared = False, Is64 = False\<rparr>"

definition zero_TableType :: TableType where
  "zero_TableType = \<lparr>ElemType = 0, tt_Limits = zero_Limits\<rparr>"

definition zero_MemoryType :: MemoryType where
  "zero_MemoryType = \<lparr>mt_Limits = zero_Limits, mt_Is64 = False\<rparr>"

definition zero_GlobalType :: GlobalType where
  "zero_GlobalType = \<lparr>gt_Type = 0, Mutable = False\<rparr>"

definition zero_Tag :: Tag where
  "zero_Tag = \<lparr>Attribute = 0, tag_TypeIdx = 0\<rparr>"

definition empty_Module :: Module where
  "empty_Module = \<lparr>Types = [], Imports = [], Functions = [], Tables = [], Memories = [],
     Globals = [], Exports = [], Start = None, Elements = [], Datas = [], Tags = [],
     NumImportedFuncs = 0, NumImportedTables = 0, NumImportedMems = 0, NumImportedGlobals = 0,
     NumImportedTags = 0\<rparr>"

lemmas zero_defs = zero_Limits_def zero_TableType_def zero_MemoryType_def zero_GlobalType_def
  zero_Tag_def

section \<open>Queries\<close>

definition Memory64 :: "Module \<Rightarrow> bool" where
  "Memory64 m \<longleftrightarrow>
     (if list_ex mt_Is64 (Memories m) then True
      else list_ex (\<lambda>imp. imp_Kind imp = ImportMemory \<and> mt_Is64 (imp_Memory imp)) (Imports m))"

definition nth_opt :: "'a list \<Rightarrow> nat \<Rightarrow> 'a option" where
  "nth_opt xs i = (if i < length xs then Some (xs ! i) else None)"

text \<open>
  The loop of \<^verbatim>\<open>FuncTypeOf\<close> over the imports with its 32-bit counter: the import found,
  or none when the loop ends.
\<close>

fun nthFuncImport :: "Import list \<Rightarrow> u32 \<Rightarrow> u32 \<Rightarrow> Import option" where
  "nthFuncImport [] i idx = None"
| "nthFuncImport (imp # imps) i idx =
     (if imp_Kind imp \<noteq> ImportFunc then nthFuncImport imps i idx
      else if i = idx then Some imp
      else nthFuncImport imps (i + 1) idx)"

definition definedFuncType :: "Module \<Rightarrow> u32 \<Rightarrow> FuncType option" where
  "definedFuncType m idx =
     Option.bind (nth_opt (Functions m) (unat (idx - NumImportedFuncs m)))
       (\<lambda>f. nth_opt (Types m) (unat (fn_TypeIdx f)))"

definition FuncTypeOf :: "Module \<Rightarrow> u32 \<Rightarrow> FuncType option" where
  "FuncTypeOf m idx =
     (if idx < NumImportedFuncs m then
        (case nthFuncImport (Imports m) 0 idx of
           Some imp \<Rightarrow> nth_opt (Types m) (unat (imp_TypeIdx imp))
         | None \<Rightarrow> definedFuncType m idx)
      else definedFuncType m idx)"

section \<open>The function index space\<close>

text \<open>
  The specification of \<^verbatim>\<open>FuncTypeOf\<close>: the type indices of the imported functions in
  order, then those of the defined ones.
\<close>

definition func_imports :: "Module \<Rightarrow> Import list" where
  "func_imports m = filter (\<lambda>imp. imp_Kind imp = ImportFunc) (Imports m)"

definition func_space :: "Module \<Rightarrow> u32 list" where
  "func_space m = map imp_TypeIdx (func_imports m) @ map fn_TypeIdx (Functions m)"

lemma nthFuncImport_eq:
  assumes "unat i + length imps < 2 ^ 32" and "i \<le> idx"
  shows "nthFuncImport imps i idx =
    nth_opt (filter (\<lambda>imp. imp_Kind imp = ImportFunc) imps) (unat idx - unat i)"
  using assms
proof (induction imps arbitrary: i)
  case Nil
  then show ?case by (simp add: nth_opt_def)
next
  case (Cons imp imps)
  show ?case
  proof (cases "imp_Kind imp = ImportFunc \<and> i \<noteq> idx")
    case True
    have "i < idx" using True Cons.prems(2) by auto
    then have lt: "unat i < unat idx" by (simp add: word_less_nat_alt)
    have i1: "unat (i + 1) = Suc (unat i)"
      using Cons.prems(1) by (simp add: unat_word_ariths)
    have "i + 1 \<le> idx" using lt i1 by (simp add: word_le_nat_alt)
    then have "nthFuncImport imps (i + 1) idx =
        nth_opt (filter (\<lambda>imp. imp_Kind imp = ImportFunc) imps) (unat idx - unat (i + 1))"
      using Cons.IH [of "i + 1"] Cons.prems(1) i1 by simp
    moreover have "unat idx - unat i = Suc (unat idx - unat (i + 1))" using lt i1 by simp
    ultimately show ?thesis using True by (simp add: nth_opt_def)
  next
    case False
    then show ?thesis using Cons by (auto simp: nth_opt_def)
  qed
qed

lemma FuncTypeOf_space:
  assumes n: "unat (NumImportedFuncs m) = length (func_imports m)"
    and len: "length (Imports m) < 2 ^ 32"
  shows "FuncTypeOf m idx =
    Option.bind (nth_opt (func_space m) (unat idx)) (\<lambda>t. nth_opt (Types m) (unat t))"
proof (cases "idx < NumImportedFuncs m")
  case True
  then have "unat idx < length (func_imports m)" using n by (simp add: word_less_nat_alt)
  then show ?thesis
    using True len nthFuncImport_eq [of 0 "Imports m" idx]
    by (simp add: FuncTypeOf_def nth_opt_def func_space_def nth_append flip: func_imports_def)
next
  case False
  then have "unat (idx - NumImportedFuncs m) = unat idx - length (func_imports m)"
      and "\<not> unat idx < length (func_imports m)"
    using n by (simp_all add: unat_sub not_less word_le_nat_alt)
  then show ?thesis
    using False
    by (auto simp: FuncTypeOf_def definedFuncType_def nth_opt_def func_space_def nth_append)
qed

end
