(* ===== verification/WasmParser.thy ===== *)
theory WasmParser
  imports WasmIR
begin

text \<open>
  The module parser of \<^verbatim>\<open>internal/wasm/parser.go\<close>: the constant-expression reader, one
  reader per section, the dispatch on section ids and the loop over the sections. A section
  reader takes the module built so far and returns it updated, as the Go code updates it in place
  (on an error \<^verbatim>\<open>Parse\<close> drops the module, so the updates before it are not visible).
\<close>

section \<open>Caps\<close>

definition maxSectionPayload :: u32 where
  "maxSectionPayload = 2 ^ 28"

definition maxVectorLen :: u32 where
  "maxVectorLen = maxSectionPayload"

definition maxFunctionBody :: u32 where
  "maxFunctionBody = 2 ^ 25"

lemma cap_values:
  "unat maxSectionPayload = 2 ^ 28" "unat maxVectorLen = 2 ^ 28" "unat maxFunctionBody = 2 ^ 25"
  by (simp_all add: maxSectionPayload_def maxVectorLen_def maxFunctionBody_def)

text \<open>The counted vectors of the sections: a \<^verbatim>\<open>u32\<close> count, the cap, the elements.\<close>

definition countedVec :: "(u32 \<Rightarrow> go_error) \<Rightarrow> (nat \<Rightarrow> 'a rd) \<Rightarrow> 'a list rd" where
  "countedVec err f = pbind readU32 (\<lambda>n.
     pguard (\<not> n > maxVectorLen) (err n) (readVec f 0 (unat n)))"

definition capErr :: "string \<Rightarrow> u32 \<Rightarrow> go_error" where
  "capErr fmt n = Fail fmt [unat n, unat maxVectorLen]"

section \<open>Constant expressions\<close>

text \<open>
  The immediate of one constant instruction, re-encoded the way the loop writes it back into its
  buffer.
\<close>

definition readConstImm :: "byte \<Rightarrow> byte list rd" where
  "readConstImm opc =
     (if opc = 0x41 then pbind readS32 (\<lambda>v. pret (writeSLEB (scast v)))
      else if opc = 0x42 then pbind readS64 (\<lambda>v. pret (writeSLEB v))
      else if opc = 0x43 then readFull 4
      else if opc = 0x44 then readFull 8
      else if opc = 0x23 then pbind readU32 (\<lambda>v. pret (writeULEB (ucast v)))
      else if opc = 0xd0 then pbind readByte (\<lambda>t. pret [t])
      else if opc = 0xd2 then pbind readU32 (\<lambda>v. pret (writeULEB (ucast v)))
      else pfail (Fail ''const expr: unsupported opcode 0x%02x'' [unat opc]))"

lemma prefix_readConstImm [prefix_intros]: "prefix_reader (readConstImm opc)"
  unfolding readConstImm_def by (intro prefix_intros)

lemma readConstImm_shortens: "readConstImm opc bs = Inr (imm, rest) \<Longrightarrow> length rest \<le> length bs"
  by (auto elim!: prefix_readerE [OF prefix_readConstImm])

function readConstExpr_from :: "byte list \<Rightarrow> byte list rd" where
  "readConstExpr_from buf bs =
     (case bs of
        [] \<Rightarrow> Inl IoEOF
      | opc # bs' \<Rightarrow>
          (if opc = 0x0b then Inr (buf @ [opc], bs')
           else
             (case readConstImm opc bs' of
                Inl e \<Rightarrow> Inl e
              | Inr (imm, rest) \<Rightarrow> readConstExpr_from (buf @ [opc] @ imm) rest)))"
  by pat_completeness auto
termination
  by (relation "measure (\<lambda>(buf, bs). length bs)") (auto dest: readConstImm_shortens)

declare readConstExpr_from.simps [simp del]

definition readConstExpr :: "byte list rd" where
  "readConstExpr = readConstExpr_from []"

section \<open>Types, limits, imports\<close>

definition readValVec :: "string \<Rightarrow> ValType list rd" where
  "readValVec fmt = countedVec (capErr fmt) (\<lambda>_. readByte)"

definition readFuncType :: "FuncType rd" where
  "readFuncType =
     pbind (readValVec ''functype params count %d exceeds %d-element cap'') (\<lambda>params.
     pbind (readValVec ''functype results count %d exceeds %d-element cap'') (\<lambda>results.
     pret \<lparr>Params = params, Results = results\<rparr>))"

definition readLimits :: "Limits rd" where
  "readLimits = pbind readByte (\<lambda>flags.
     pguard (\<not> flags > 0x07) (Fail ''limits: unknown flags 0x%02x'' [unat flags])
       (pbind readU64 (\<lambda>min.
          let lim = zero_Limits\<lparr>Min := min\<rparr>;
              lim = (if flags AND 0x02 \<noteq> 0 then lim\<lparr>Shared := True\<rparr> else lim);
              lim = (if flags AND 0x04 \<noteq> 0 then lim\<lparr>Is64 := True\<rparr> else lim)
          in if flags AND 0x01 \<noteq> 0
             then pbind readU64 (\<lambda>max. pret (lim\<lparr>Max := max, HasMax := True\<rparr>))
             else pret lim)))"

definition readTableType :: "TableType rd" where
  "readTableType = pbind readByte (\<lambda>et. pbind readLimits (\<lambda>lim.
     pret \<lparr>ElemType = et, tt_Limits = lim\<rparr>))"

definition readMemoryType :: "MemoryType rd" where
  "readMemoryType = pbind readLimits (\<lambda>lim. pret \<lparr>mt_Limits = lim, mt_Is64 = Is64 lim\<rparr>)"

definition readGlobalType :: "GlobalType rd" where
  "readGlobalType = pbind readByte (\<lambda>vt. pbind readByte (\<lambda>mut.
     pret \<lparr>gt_Type = vt, Mutable = (mut = 1)\<rparr>))"

definition readImport :: "nat \<Rightarrow> Import rd" where
  "readImport i =
     pbind (pwrap (Wrap ''import[%d] module: %w'' [i]) readName) (\<lambda>module.
     pbind (pwrap (Wrap ''import[%d] name: %w'' [i]) readName) (\<lambda>name.
     pbind readByte (\<lambda>kind.
       let imp = \<lparr>imp_Module = module, imp_Name = name, imp_Kind = kind, imp_TypeIdx = 0,
                  imp_Table = zero_TableType, imp_Memory = zero_MemoryType,
                  imp_Global = zero_GlobalType, imp_Tag = zero_Tag\<rparr>
       in if kind = ImportFunc then pbind readU32 (\<lambda>ti. pret (imp\<lparr>imp_TypeIdx := ti\<rparr>))
          else if kind = ImportTable then pbind readTableType (\<lambda>t. pret (imp\<lparr>imp_Table := t\<rparr>))
          else if kind = ImportMemory then pbind readMemoryType (\<lambda>t. pret (imp\<lparr>imp_Memory := t\<rparr>))
          else if kind = ImportGlobal then pbind readGlobalType (\<lambda>t. pret (imp\<lparr>imp_Global := t\<rparr>))
          else if kind = ImportTag then
            pbind readByte (\<lambda>attr. pbind readU32 (\<lambda>ti.
              pret (imp\<lparr>imp_Tag := \<lparr>Attribute = attr, tag_TypeIdx = ti\<rparr>\<rparr>)))
          else pfail (Fail ''import[%d]: unknown kind 0x%02x'' [i, unat kind]))))"

section \<open>The sections\<close>

definition readTypeEntry :: "nat \<Rightarrow> FuncType rd" where
  "readTypeEntry i = pbind readByte (\<lambda>tag.
     pguard (tag = 0x60) (Fail ''type[%d]: bad tag 0x%02x (want 0x60)'' [i, unat tag])
       (pwrap (Wrap ''type[%d]: %w'' [i]) readFuncType))"

definition parseTypeSection :: "Module \<Rightarrow> Module rd" where
  "parseTypeSection m =
     pbind (countedVec (capErr ''type section: count %d exceeds %d-element cap'') readTypeEntry)
       (\<lambda>ts. pret (m\<lparr>Types := ts\<rparr>))"

definition parseImportSection :: "Module \<Rightarrow> Module rd" where
  "parseImportSection m =
     pbind (countedVec (capErr ''import section: count %d exceeds %d-element cap'') readImport)
       (\<lambda>is. pret (m\<lparr>Imports := is\<rparr>))"

definition readTag :: "nat \<Rightarrow> Tag rd" where
  "readTag i =
     pbind (pwrap (Wrap ''tag[%d] attribute: %w'' [i]) readByte) (\<lambda>attr.
     pbind (pwrap (Wrap ''tag[%d] type index: %w'' [i]) readU32) (\<lambda>ti.
     pret \<lparr>Attribute = attr, tag_TypeIdx = ti\<rparr>))"

definition parseTagSection :: "Module \<Rightarrow> Module rd" where
  "parseTagSection m =
     pbind (countedVec (capErr ''tag section: count %d exceeds %d-element cap'') readTag)
       (\<lambda>ts. pret (m\<lparr>Tags := ts\<rparr>))"

definition parseFunctionSection :: "Module \<Rightarrow> Module rd" where
  "parseFunctionSection m =
     pbind (countedVec (capErr ''function section: count %d exceeds %d-element cap'')
              (\<lambda>_. pbind readU32 (\<lambda>ti. pret \<lparr>fn_TypeIdx = ti, fn_Body = []\<rparr>)))
       (\<lambda>fs. pret (m\<lparr>Functions := fs\<rparr>))"

definition parseTableSection :: "Module \<Rightarrow> Module rd" where
  "parseTableSection m =
     pbind (countedVec (capErr ''table section: count %d exceeds %d-element cap'') (\<lambda>_. readTableType))
       (\<lambda>ts. pret (m\<lparr>Tables := ts\<rparr>))"

definition parseMemorySection :: "Module \<Rightarrow> Module rd" where
  "parseMemorySection m =
     pbind (countedVec (capErr ''memory section: count %d exceeds %d-element cap'') (\<lambda>_. readMemoryType))
       (\<lambda>ms. pret (m\<lparr>Memories := ms\<rparr>))"

definition readGlobal :: "nat \<Rightarrow> Global rd" where
  "readGlobal i =
     pbind readGlobalType (\<lambda>gt.
     pbind (pwrap (Wrap ''global[%d] init: %w'' [i]) readConstExpr) (\<lambda>expr.
     pret \<lparr>glob_Type = gt, glob_Init = expr\<rparr>))"

definition parseGlobalSection :: "Module \<Rightarrow> Module rd" where
  "parseGlobalSection m =
     pbind (countedVec (capErr ''global section: count %d exceeds %d-element cap'') readGlobal)
       (\<lambda>gs. pret (m\<lparr>Globals := gs\<rparr>))"

definition readExport :: "Export rd" where
  "readExport =
     pbind readName (\<lambda>name. pbind readByte (\<lambda>kind. pbind readU32 (\<lambda>idx.
     pret \<lparr>exp_Name = name, exp_Kind = kind, exp_Index = idx\<rparr>)))"

definition parseExportSection :: "Module \<Rightarrow> Module rd" where
  "parseExportSection m =
     pbind (countedVec (capErr ''export section: count %d exceeds %d-element cap'') (\<lambda>_. readExport))
       (\<lambda>es. pret (m\<lparr>Exports := es\<rparr>))"

definition elemCapErr :: "nat \<Rightarrow> u32 \<Rightarrow> go_error" where
  "elemCapErr i cnt =
     Fail ''element[%d]: count %d exceeds %d-byte cap'' [i, unat cnt, unat maxVectorLen]"

definition readElement :: "nat \<Rightarrow> ElementSegment rd" where
  "readElement i = pbind readU32 (\<lambda>flag.
     if flag = 0x00 then
       pbind (pwrap (Wrap ''element[%d] offset: %w'' [i]) readConstExpr) (\<lambda>off.
       pbind (countedVec (elemCapErr i) (\<lambda>_. readU32)) (\<lambda>idxs.
       pret \<lparr>elem_TableIdx = 0, elem_Offset = off, elem_FuncIdxs = idxs\<rparr>))
     else if flag = 0x02 then
       pbind readU32 (\<lambda>tIdx.
       pbind readConstExpr (\<lambda>off.
       pbind readByte (\<lambda>elemKind.
       pguard (elemKind = 0x00)
         (Fail ''element[%d]: unsupported elemkind 0x%02x'' [i, unat elemKind])
         (pbind (countedVec (elemCapErr i) (\<lambda>_. readU32)) (\<lambda>idxs.
          pret \<lparr>elem_TableIdx = tIdx, elem_Offset = off, elem_FuncIdxs = idxs\<rparr>)))))
     else pfail (Fail ''element[%d]: unsupported flag 0x%02x'' [i, unat flag]))"

definition parseElementSection :: "Module \<Rightarrow> Module rd" where
  "parseElementSection m =
     pbind (countedVec (capErr ''element section: count %d exceeds %d-element cap'') readElement)
       (\<lambda>es. pret (m\<lparr>Elements := es\<rparr>))"

definition readBody :: "nat \<Rightarrow> byte list rd" where
  "readBody i = pbind readU32 (\<lambda>size.
     pguard (\<not> size > maxFunctionBody)
       (Fail ''code[%d]: body size %d exceeds %d-byte cap'' [i, unat size, unat maxFunctionBody])
       (pwrap (Wrap ''code[%d]: %w'' [i]) (readFull (unat size))))"

definition parseCodeSection :: "Module \<Rightarrow> Module rd" where
  "parseCodeSection m = pbind readU32 (\<lambda>n.
     pguard (unat n = length (Functions m))
       (Fail ''code section count %d != function section count %d''
          [unat n, length (Functions m)])
       (pbind (readVec readBody 0 (unat n)) (\<lambda>bodies.
        pret (m\<lparr>Functions := map2 (\<lambda>f body. f\<lparr>fn_Body := body\<rparr>) (Functions m) bodies\<rparr>))))"

definition readData :: "nat \<Rightarrow> DataSegment rd" where
  "readData i = pbind readU32 (\<lambda>flag.
     if flag = 0x00 then
       pbind readConstExpr (\<lambda>off. pbind readByteVec (\<lambda>b.
       pret \<lparr>data_MemIdx = 0, data_Offset = off, data_Bytes = b, data_Passive = False\<rparr>))
     else if flag = 0x01 then
       pbind readByteVec (\<lambda>b.
       pret \<lparr>data_MemIdx = 0, data_Offset = [], data_Bytes = b, data_Passive = True\<rparr>)
     else if flag = 0x02 then
       pbind readU32 (\<lambda>mi. pbind readConstExpr (\<lambda>off. pbind readByteVec (\<lambda>b.
       pret \<lparr>data_MemIdx = mi, data_Offset = off, data_Bytes = b, data_Passive = False\<rparr>)))
     else pfail (Fail ''data[%d]: unsupported flag 0x%02x'' [i, unat flag]))"

definition parseDataSection :: "Module \<Rightarrow> Module rd" where
  "parseDataSection m =
     pbind (countedVec (capErr ''data section: count %d exceeds %d-element cap'') readData)
       (\<lambda>ds. pret (m\<lparr>Datas := ds\<rparr>))"

section \<open>The dispatch and the loop\<close>

definition parseSection :: "Module \<Rightarrow> byte \<Rightarrow> Module rd" where
  "parseSection m sid =
     (if sid = 0 then pret m
      else if sid = 1 then parseTypeSection m
      else if sid = 2 then parseImportSection m
      else if sid = 3 then parseFunctionSection m
      else if sid = 4 then parseTableSection m
      else if sid = 5 then parseMemorySection m
      else if sid = 6 then parseGlobalSection m
      else if sid = 7 then parseExportSection m
      else if sid = 8 then pbind readU32 (\<lambda>idx. pret (m\<lparr>Start := Some idx\<rparr>))
      else if sid = 9 then parseElementSection m
      else if sid = 10 then parseCodeSection m
      else if sid = 11 then parseDataSection m
      else if sid = 12 then pbind readU32 (\<lambda>_. pret m)
      else if sid = 13 then parseTagSection m
      else pfail (Fail ''unknown section id %d'' [unat sid]))"

definition readHeader :: "unit rd" where
  "readHeader = pbind (pwrap (Wrap ''read header: %w'' []) (readFull 8)) (\<lambda>hdr.
     pguard (\<not> (hdr ! 0 \<noteq> 0x00 \<or> hdr ! 1 \<noteq> 0x61 \<or> hdr ! 2 \<noteq> 0x73 \<or> hdr ! 3 \<noteq> 0x6d))
       (Fail ''not a wasm binary (bad magic % x)'' (map unat (take 4 hdr)))
     (pguard (\<not> (hdr ! 4 \<noteq> 0x01 \<or> hdr ! 5 \<noteq> 0x00 \<or> hdr ! 6 \<noteq> 0x00 \<or> hdr ! 7 \<noteq> 0x00))
       (Fail ''unsupported wasm version % x'' (map unat (drop 4 hdr)))
     (pret ())))"

text \<open>The frame of one section: its id is read, then its size and its payload.\<close>

definition readFrame :: "byte \<Rightarrow> byte list rd" where
  "readFrame sid =
     pbind (pwrap (Wrap ''section %d: read size: %w'' [unat sid]) readU32) (\<lambda>size.
     pguard (\<not> size > maxSectionPayload)
       (Fail ''section %d: payload size %d exceeds %d-byte safety cap''
          [unat sid, unat size, unat maxSectionPayload])
     (pwrap (Wrap ''section %d: read payload: %w'' [unat sid]) (readFull (unat size))))"

lemma prefix_readFrame [prefix_intros]: "prefix_reader (readFrame sid)"
  unfolding readFrame_def by (intro prefix_intros)

lemma readFrame_shortens: "readFrame sid bs = Inr (raw, rest) \<Longrightarrow> length rest \<le> length bs"
  by (auto elim!: prefix_readerE [OF prefix_readFrame])

function parseSections :: "Module \<Rightarrow> byte list \<Rightarrow> Module res" where
  "parseSections m bs =
     (case bs of
        [] \<Rightarrow> Inr m
      | sid # bs' \<Rightarrow>
          (case readFrame sid bs' of
             Inl e \<Rightarrow> Inl e
           | Inr (raw, rest) \<Rightarrow>
               (case pwrap (Wrap ''section %d: %w'' [unat sid]) (parseSection m sid) raw of
                  Inl e \<Rightarrow> Inl e
                | Inr (m', _) \<Rightarrow> parseSections m' rest)))"
  by pat_completeness auto
termination
  by (relation "measure (\<lambda>(m, bs). length bs)") (auto dest: readFrame_shortens)

declare parseSections.simps [simp del]

definition countImport :: "Module \<Rightarrow> Import \<Rightarrow> Module" where
  "countImport m imp =
     (if imp_Kind imp = ImportFunc then m\<lparr>NumImportedFuncs := NumImportedFuncs m + 1\<rparr>
      else if imp_Kind imp = ImportTable then m\<lparr>NumImportedTables := NumImportedTables m + 1\<rparr>
      else if imp_Kind imp = ImportMemory then m\<lparr>NumImportedMems := NumImportedMems m + 1\<rparr>
      else if imp_Kind imp = ImportGlobal then m\<lparr>NumImportedGlobals := NumImportedGlobals m + 1\<rparr>
      else if imp_Kind imp = ImportTag then m\<lparr>NumImportedTags := NumImportedTags m + 1\<rparr>
      else m)"

definition countImports :: "Module \<Rightarrow> Module" where
  "countImports m = foldl countImport m (Imports m)"

definition Parse :: "byte list \<Rightarrow> Module res" where
  "Parse bs =
     bind_res (readHeader bs) (\<lambda>(_, rest).
     bind_res (parseSections empty_Module rest) (\<lambda>m. Inr (countImports m)))"

end
