(* ===== verification/WasmCodec.thy ===== *)
theory WasmCodec
  imports WasmParser
begin

text \<open>
  What the module parser promises. Constant expressions: exactly which byte sequences are
  accepted and what is kept of them. For every section an encoding that its reader undoes, stated
  as an instance of the codec interface, up to a round trip for whole modules. The invariant of
  every module that \<^verbatim>\<open>Parse\<close> returns.
\<close>

section \<open>Constant expressions\<close>

datatype const_instr =
    I32Const i32
  | I64Const i64
  | F32Const "byte list"
  | F64Const "byte list"
  | GlobalGet u32
  | RefNull byte
  | RefFunc u32

fun opcode_of :: "const_instr \<Rightarrow> byte" where
  "opcode_of (I32Const v) = 0x41"
| "opcode_of (I64Const v) = 0x42"
| "opcode_of (F32Const xs) = 0x43"
| "opcode_of (F64Const xs) = 0x44"
| "opcode_of (GlobalGet x) = 0x23"
| "opcode_of (RefNull t) = 0xd0"
| "opcode_of (RefFunc x) = 0xd2"

fun enc_imm :: "const_instr \<Rightarrow> byte list" where
  "enc_imm (I32Const v) = encS32 v"
| "enc_imm (I64Const v) = writeSLEB v"
| "enc_imm (F32Const xs) = xs"
| "enc_imm (F64Const xs) = xs"
| "enc_imm (GlobalGet x) = encU32 x"
| "enc_imm (RefNull t) = [t]"
| "enc_imm (RefFunc x) = encU32 x"

text \<open>The immediates a source may write for an instruction: any LEB128 of its value.\<close>

fun imm_source :: "const_instr \<Rightarrow> byte list \<Rightarrow> bool" where
  "imm_source (I32Const v) us \<longleftrightarrow> readS32 us = Inr (v, [])"
| "imm_source (I64Const v) us \<longleftrightarrow> readS64 us = Inr (v, [])"
| "imm_source (F32Const xs) us \<longleftrightarrow> us = xs \<and> length xs = 4"
| "imm_source (F64Const xs) us \<longleftrightarrow> us = xs \<and> length xs = 8"
| "imm_source (GlobalGet x) us \<longleftrightarrow> readU32 us = Inr (x, [])"
| "imm_source (RefNull t) us \<longleftrightarrow> us = [t]"
| "imm_source (RefFunc x) us \<longleftrightarrow> readU32 us = Inr (x, [])"

definition enc_const :: "const_instr list \<Rightarrow> byte list" where
  "enc_const ins = concat (map (\<lambda>i. opcode_of i # enc_imm i) ins) @ [0x0b]"

definition const_source :: "const_instr list \<Rightarrow> byte list list \<Rightarrow> bool" where
  "const_source ins imms \<longleftrightarrow> list_all2 imm_source ins imms"

definition source_bytes :: "const_instr list \<Rightarrow> byte list list \<Rightarrow> byte list" where
  "source_bytes ins imms = concat (map2 (\<lambda>i us. opcode_of i # us) ins imms) @ [0x0b]"

lemma readU32_empty_rest: "readU32 us = Inr (x, []) \<Longrightarrow> readU32 (us @ r) = Inr (x, r)"
  using u32_codec.extends by fastforce

lemma readS32_empty_rest: "readS32 us = Inr (x, []) \<Longrightarrow> readS32 (us @ r) = Inr (x, r)"
  using s32_codec.extends by fastforce

lemma readS64_empty_rest: "readS64 us = Inr (x, []) \<Longrightarrow> readS64 (us @ r) = Inr (x, r)"
  using s64_codec.extends by fastforce

lemmas empty_rest = readU32_empty_rest readS32_empty_rest readS64_empty_rest

lemma opcode_not_end: "opcode_of i \<noteq> 0x0b"
  by (cases i) simp_all

lemma readConstImm_source:
  "imm_source i us \<Longrightarrow> readConstImm (opcode_of i) (us @ r) = Inr (enc_imm i, r)"
  by (cases i) (simp_all add: readConstImm_def pbind_def empty_rest readFull_append encS32_def
      encU32_def pret_def)

lemma prefix_split:
  assumes "prefix_reader p" and "p bs = Inr (x, r)"
  shows "\<exists>us. bs = us @ r \<and> p us = Inr (x, [])"
proof -
  obtain us where "bs = us @ r" and "\<And>rest'. p (us @ rest') = Inr (x, rest')"
    using assms by (rule prefix_readerE) blast
  then have "p us = Inr (x, [])" by (metis append_Nil2)
  then show ?thesis using \<open>bs = us @ r\<close> by blast
qed

lemma readConstImm_sourceE:
  assumes "readConstImm opc bs = Inr (imm, r)"
  obtains i us where "bs = us @ r" and "opc = opcode_of i" and "imm_source i us" and "imm = enc_imm i"
proof -
  consider
      v where "opc = 0x41" "readS32 bs = Inr (v, r)" "imm = enc_imm (I32Const v)"
    | v where "opc = 0x42" "readS64 bs = Inr (v, r)" "imm = enc_imm (I64Const v)"
    | "opc = 0x43" "readFull 4 bs = Inr (imm, r)"
    | "opc = 0x44" "readFull 8 bs = Inr (imm, r)"
    | v where "opc = 0x23" "readU32 bs = Inr (v, r)" "imm = enc_imm (GlobalGet v)"
    | t where "opc = 0xd0" "readByte bs = Inr (t, r)" "imm = [t]"
    | v where "opc = 0xd2" "readU32 bs = Inr (v, r)" "imm = enc_imm (RefFunc v)"
    using assms
    by (auto simp: readConstImm_def pbind_eq encS32_def encU32_def split: if_splits)
  then show thesis
  proof cases
    case 1
    then show thesis using prefix_split [OF prefix_readS32] that [of _ "I32Const v"] by fastforce
  next
    case 2
    then show thesis using prefix_split [OF prefix_readS64] that [of _ "I64Const v"] by fastforce
  next
    case 3
    then show thesis using that [of imm "F32Const imm"] by (simp add: readFull_eq)
  next
    case 4
    then show thesis using that [of imm "F64Const imm"] by (simp add: readFull_eq)
  next
    case 5
    then show thesis using prefix_split [OF prefix_readU32] that [of _ "GlobalGet v"] by fastforce
  next
    case 6
    then show thesis using that [of "[t]" "RefNull t"] by (cases bs) auto
  next
    case 7
    then show thesis using prefix_split [OF prefix_readU32] that [of _ "RefFunc v"] by fastforce
  qed
qed

lemma readConstExpr_from_source:
  "const_source ins imms \<Longrightarrow>
   readConstExpr_from buf (source_bytes ins imms @ rest) = Inr (buf @ enc_const ins, rest)"
  unfolding const_source_def
proof (induction ins imms arbitrary: buf rule: list_all2_induct)
  case Nil
  then show ?case
    by (subst readConstExpr_from.simps) (simp add: source_bytes_def enc_const_def)
next
  case (Cons i ins us imms)
  have "source_bytes (i # ins) (us # imms) @ rest =
      opcode_of i # us @ source_bytes ins imms @ rest"
    by (simp add: source_bytes_def)
  then show ?case
    using Cons
    by (subst readConstExpr_from.simps)
      (simp add: opcode_not_end readConstImm_source enc_const_def)
qed

lemma readConstExpr_from_sourceE:
  "readConstExpr_from buf bs = Inr (e, rest) \<Longrightarrow>
   \<exists>ins imms. const_source ins imms \<and> bs = source_bytes ins imms @ rest \<and> e = buf @ enc_const ins"
proof (induction buf bs rule: readConstExpr_from.induct)
  case (1 buf bs)
  show ?case
  proof (cases bs)
    case Nil
    then show ?thesis using 1(2) by (simp add: readConstExpr_from.simps)
  next
    case (Cons opc bs')
    show ?thesis
    proof (cases "opc = 0x0b")
      case True
      then have "const_source [] [] \<and> bs = source_bytes [] [] @ rest \<and> e = buf @ enc_const []"
        using 1(2) Cons
        by (simp add: readConstExpr_from.simps const_source_def source_bytes_def enc_const_def)
      then show ?thesis by blast
    next
      case False
      obtain imm r where imm: "readConstImm opc bs' = Inr (imm, r)"
        using 1(2) Cons False by (subst (asm) readConstExpr_from.simps) (auto split: sum.splits)
      then have run: "readConstExpr_from (buf @ [opc] @ imm) r = Inr (e, rest)"
        using 1(2) Cons False by (subst (asm) readConstExpr_from.simps) simp
      obtain i us where i: "bs' = us @ r" "opc = opcode_of i" "imm_source i us" "imm = enc_imm i"
        using imm by (rule readConstImm_sourceE)
      obtain ins imms where "const_source ins imms" "r = source_bytes ins imms @ rest"
          "e = (buf @ [opc] @ imm) @ enc_const ins"
        using 1(1) [OF Cons False imm refl run] by blast
      then have "const_source (i # ins) (us # imms) \<and>
          bs = source_bytes (i # ins) (us # imms) @ rest \<and> e = buf @ enc_const (i # ins)"
        using i Cons by (simp add: const_source_def source_bytes_def enc_const_def)
      then show ?thesis by blast
    qed
  qed
qed

lemma readConstExpr_source_iff:
  "readConstExpr bs = Inr (e, rest) \<longleftrightarrow>
     (\<exists>ins imms. const_source ins imms \<and> bs = source_bytes ins imms @ rest \<and> e = enc_const ins)"
  unfolding readConstExpr_def
  using readConstExpr_from_sourceE [of "[]" bs e rest] readConstExpr_from_source [of _ _ "[]" rest]
  by auto

lemma prefix_readConstExpr [prefix_intros]: "prefix_reader readConstExpr"
  by (rule prefix_readerI) (auto simp: readConstExpr_source_iff)

definition const_ok :: "byte list \<Rightarrow> bool" where
  "const_ok e \<longleftrightarrow> readConstExpr e = Inr (e, [])"

lemma imm_source_enc: "imm_source i us \<Longrightarrow> imm_source i (enc_imm i)"
  using readS32_encS32 [of _ "[]"] readS64_writeSLEB [of _ "[]"] readU32_encU32 [of _ "[]"]
  by (cases i) simp_all

lemma readConstExpr_ok:
  assumes "readConstExpr bs = Inr (e, rest)"
  shows "const_ok e"
proof -
  obtain ins imms where s: "const_source ins imms" "e = enc_const ins"
    using assms by (auto simp: readConstExpr_source_iff)
  then have "const_source ins (map enc_imm ins)"
    unfolding const_source_def list_all2_conv_all_nth by (auto intro: imm_source_enc)
  moreover have "source_bytes ins (map enc_imm ins) = e"
    by (simp add: source_bytes_def s(2) enc_const_def zip_map2 o_def zip_same_conv_map)
  ultimately show ?thesis
    unfolding const_ok_def readConstExpr_source_iff using s(2) by (metis append_Nil2)
qed

interpretation const_codec: codec "\<lambda>_. readConstExpr" "\<lambda>e. e" const_ok
proof (unfold_locales)
  fix e rest
  assume "const_ok e"
  then obtain us where "e = us" and "\<And>rest'. readConstExpr (us @ rest') = Inr (e, rest')"
    unfolding const_ok_def by (auto elim: prefix_readerE [OF prefix_readConstExpr])
  then show "readConstExpr (e @ rest) = Inr (e, rest)" by simp
qed (rule prefix_readConstExpr)

section \<open>Counted vectors\<close>

definition encVec :: "('a \<Rightarrow> byte list) \<Rightarrow> 'a list \<Rightarrow> byte list" where
  "encVec enc xs = encU32 (word_of_nat (length xs)) @ concat (map enc xs)"

definition vec_ok :: "('a \<Rightarrow> bool) \<Rightarrow> 'a list \<Rightarrow> bool" where
  "vec_ok ok xs \<longleftrightarrow> length xs \<le> 2 ^ 28 \<and> list_all ok xs"

lemma prefix_countedVec [prefix_intros]:
  "(\<And>i. prefix_reader (f i)) \<Longrightarrow> prefix_reader (countedVec err f)"
  unfolding countedVec_def by (intro prefix_intros)

lemma cap_word_of_nat:
  assumes "n \<le> 2 ^ 28"
  shows "unat (word_of_nat n :: u32) = n" and "\<not> (word_of_nat n :: u32) > maxVectorLen"
proof -
  show "unat (word_of_nat n :: u32) = n" using assms by (simp add: unat_of_nat)
  then show "\<not> (word_of_nat n :: u32) > maxVectorLen"
    using assms by (simp add: word_less_nat_alt cap_values)
qed

context codec
begin

lemma countedVec_roundtrip:
  assumes "vec_ok ok xs"
  shows "countedVec err dec (encVec enc xs @ rest) = Inr (xs, rest)"
proof -
  have "\<forall>x \<in> set xs. ok x" and len: "length xs \<le> 2 ^ 28"
    using assms by (simp_all add: vec_ok_def list_all_iff)
  then have "readVec dec 0 (length xs) (concat (map enc xs) @ rest) = Inr (xs, rest)"
    by (intro readVec_roundtrip)
  then show ?thesis
    using cap_word_of_nat [OF len] by (simp add: countedVec_def encVec_def pbind_eq readU32_encU32)
qed

end

context reader
begin

lemma countedVec_all:
  assumes run: "countedVec err dec bs = Inr (xs, rest)"
    and each: "\<And>i bs x rest. dec i bs = Inr (x, rest) \<Longrightarrow> P x"
  shows "vec_ok P xs"
proof -
  obtain n r where n: "\<not> n > maxVectorLen" "readVec dec 0 (unat n) r = Inr (xs, rest)"
    using run by (auto simp: countedVec_def pbind_eq)
  have "length xs \<le> 2 ^ 28"
    using n(1) readVec_length [OF n(2)] by (simp add: word_less_nat_alt cap_values)
  then show ?thesis
    using readVec_all [OF each n(2)] by (simp add: vec_ok_def list_all_iff)
qed

end

section \<open>A codec for every element of a section\<close>

interpretation byte_codec: codec "\<lambda>_. readByte" "\<lambda>b. [b]" "\<lambda>_. True"
  by unfold_locales (simp_all add: prefix_readByte)

definition encFuncType :: "FuncType \<Rightarrow> byte list" where
  "encFuncType ft = encVec (\<lambda>b. [b]) (Params ft) @ encVec (\<lambda>b. [b]) (Results ft)"

definition FuncType_ok :: "FuncType \<Rightarrow> bool" where
  "FuncType_ok ft \<longleftrightarrow> vec_ok (\<lambda>_. True) (Params ft) \<and> vec_ok (\<lambda>_. True) (Results ft)"

lemma prefix_readFuncType [prefix_intros]: "prefix_reader readFuncType"
  unfolding readFuncType_def readValVec_def by (intro prefix_intros)

interpretation type_codec: codec readTypeEntry "\<lambda>ft. 0x60 # encFuncType ft" FuncType_ok
proof unfold_locales
  show "prefix_reader (readTypeEntry i)" for i
    unfolding readTypeEntry_def by (intro prefix_intros)
  show "readTypeEntry i ((0x60 # encFuncType ft) @ rest) = Inr (ft, rest)" if "FuncType_ok ft" for i ft rest
    using that
    by (simp add: readTypeEntry_def readFuncType_def readValVec_def encFuncType_def FuncType_ok_def
        pbind_eq byte_codec.countedVec_roundtrip)
qed

definition limits_flags :: "Limits \<Rightarrow> byte" where
  "limits_flags l = (if HasMax l then 1 else 0) + (if Shared l then 2 else 0) + (if Is64 l then 4 else 0)"

definition encLimits :: "Limits \<Rightarrow> byte list" where
  "encLimits l = limits_flags l # writeULEB (Min l) @ (if HasMax l then writeULEB (Max l) else [])"

definition Limits_ok :: "Limits \<Rightarrow> bool" where
  "Limits_ok l \<longleftrightarrow> (\<not> HasMax l \<longrightarrow> Max l = 0)"

lemma prefix_readLimits [prefix_intros]: "prefix_reader readLimits"
  unfolding readLimits_def Let_def by (intro prefix_intros)

lemma readLimits_encLimits:
  "Limits_ok l \<Longrightarrow> readLimits (encLimits l @ rest) = Inr (l, rest)"
  by (cases l; cases "HasMax l"; cases "Shared l"; cases "Is64 l")
    (simp_all add: readLimits_def encLimits_def limits_flags_def Limits_ok_def pbind_eq
      readU64_writeULEB zero_Limits_def Let_def)

lemma readLimits_ok: "readLimits bs = Inr (l, rest) \<Longrightarrow> Limits_ok l"
  by (auto simp: readLimits_def pbind_eq Let_def Limits_ok_def zero_Limits_def split: if_splits)

definition encTableType :: "TableType \<Rightarrow> byte list" where
  "encTableType t = ElemType t # encLimits (tt_Limits t)"

definition TableType_ok :: "TableType \<Rightarrow> bool" where
  "TableType_ok t \<longleftrightarrow> Limits_ok (tt_Limits t)"

interpretation table_codec: codec "\<lambda>_. readTableType" encTableType TableType_ok
proof unfold_locales
  show "prefix_reader readTableType"
    unfolding readTableType_def by (intro prefix_intros)
  show "readTableType (encTableType t @ rest) = Inr (t, rest)" if "TableType_ok t" for t rest
    using that
    by (simp add: readTableType_def encTableType_def TableType_ok_def pbind_eq readLimits_encLimits)
qed

definition encMemoryType :: "MemoryType \<Rightarrow> byte list" where
  "encMemoryType t = encLimits (mt_Limits t)"

definition MemoryType_ok :: "MemoryType \<Rightarrow> bool" where
  "MemoryType_ok t \<longleftrightarrow> Limits_ok (mt_Limits t) \<and> mt_Is64 t = Is64 (mt_Limits t)"

interpretation memory_codec: codec "\<lambda>_. readMemoryType" encMemoryType MemoryType_ok
proof unfold_locales
  show "prefix_reader readMemoryType"
    unfolding readMemoryType_def by (intro prefix_intros)
  show "readMemoryType (encMemoryType t @ rest) = Inr (t, rest)" if "MemoryType_ok t" for t rest
    using that
    by (cases t)
      (simp add: readMemoryType_def encMemoryType_def MemoryType_ok_def pbind_eq readLimits_encLimits)
qed

definition encGlobalType :: "GlobalType \<Rightarrow> byte list" where
  "encGlobalType t = [gt_Type t, if Mutable t then 1 else 0]"

interpretation globalType_codec: codec "\<lambda>_. readGlobalType" encGlobalType "\<lambda>_. True"
proof unfold_locales
  show "prefix_reader readGlobalType"
    unfolding readGlobalType_def by (intro prefix_intros)
  show "readGlobalType (encGlobalType t @ rest) = Inr (t, rest)" for t rest
    by (cases t) (simp add: readGlobalType_def encGlobalType_def pbind_eq)
qed

definition encTag :: "Tag \<Rightarrow> byte list" where
  "encTag t = Attribute t # encU32 (tag_TypeIdx t)"

interpretation tag_codec: codec readTag encTag "\<lambda>_. True"
proof unfold_locales
  show "prefix_reader (readTag i)" for i
    unfolding readTag_def by (intro prefix_intros)
  show "readTag i (encTag t @ rest) = Inr (t, rest)" for i t rest
    by (cases t) (simp add: readTag_def encTag_def pbind_eq readU32_encU32)
qed

definition encGlobal :: "Global \<Rightarrow> byte list" where
  "encGlobal g = encGlobalType (glob_Type g) @ glob_Init g"

definition Global_ok :: "Global \<Rightarrow> bool" where
  "Global_ok g \<longleftrightarrow> const_ok (glob_Init g)"

interpretation global_codec: codec readGlobal encGlobal Global_ok
proof unfold_locales
  show "prefix_reader (readGlobal i)" for i
    unfolding readGlobal_def by (intro prefix_intros globalType_codec.prefix)
  show "readGlobal i (encGlobal g @ rest) = Inr (g, rest)" if "Global_ok g" for i g rest
    using that
    by (cases g) (simp add: readGlobal_def encGlobal_def Global_ok_def pbind_eq
        globalType_codec.roundtrip const_codec.roundtrip)
qed

definition encExport :: "Export \<Rightarrow> byte list" where
  "encExport e = encByteVec (exp_Name e) @ exp_Kind e # encU32 (exp_Index e)"

definition Export_ok :: "Export \<Rightarrow> bool" where
  "Export_ok e \<longleftrightarrow> byteVec_ok (exp_Name e)"

interpretation export_codec: codec "\<lambda>_. readExport" encExport Export_ok
proof unfold_locales
  show "prefix_reader readExport"
    unfolding readExport_def readName_def by (intro prefix_intros)
  show "readExport (encExport e @ rest) = Inr (e, rest)" if "Export_ok e" for e rest
    using that
    by (cases e) (simp add: readExport_def encExport_def Export_ok_def pbind_eq readName_def
        readU32_encU32 readByteVec_encByteVec)
qed

definition Import_ok :: "Import \<Rightarrow> bool" where
  "Import_ok imp \<longleftrightarrow>
     byteVec_ok (imp_Module imp) \<and> byteVec_ok (imp_Name imp) \<and>
     imp_Kind imp \<in> {ImportFunc, ImportTable, ImportMemory, ImportGlobal, ImportTag} \<and>
     (imp_Kind imp \<noteq> ImportFunc \<longrightarrow> imp_TypeIdx imp = 0) \<and>
     (if imp_Kind imp = ImportTable then TableType_ok (imp_Table imp)
      else imp_Table imp = zero_TableType) \<and>
     (if imp_Kind imp = ImportMemory then MemoryType_ok (imp_Memory imp)
      else imp_Memory imp = zero_MemoryType) \<and>
     (imp_Kind imp \<noteq> ImportGlobal \<longrightarrow> imp_Global imp = zero_GlobalType) \<and>
     (imp_Kind imp \<noteq> ImportTag \<longrightarrow> imp_Tag imp = zero_Tag)"

definition encImport :: "Import \<Rightarrow> byte list" where
  "encImport imp =
     encByteVec (imp_Module imp) @ encByteVec (imp_Name imp) @ imp_Kind imp #
     (if imp_Kind imp = ImportFunc then encU32 (imp_TypeIdx imp)
      else if imp_Kind imp = ImportTable then encTableType (imp_Table imp)
      else if imp_Kind imp = ImportMemory then encMemoryType (imp_Memory imp)
      else if imp_Kind imp = ImportGlobal then encGlobalType (imp_Global imp)
      else encTag (imp_Tag imp))"

lemmas kind_values = ImportKind_defs

interpretation import_codec: codec readImport encImport Import_ok
proof unfold_locales
  show "prefix_reader (readImport i)" for i
    unfolding readImport_def readName_def Let_def
    by (intro prefix_intros table_codec.prefix memory_codec.prefix globalType_codec.prefix)
  show "readImport i (encImport imp @ rest) = Inr (imp, rest)" if ok: "Import_ok imp" for i imp rest
  proof -
    have names: "byteVec_ok (imp_Module imp)" "byteVec_ok (imp_Name imp)"
      using ok by (simp_all add: Import_ok_def)
    consider "imp_Kind imp = ImportFunc" | "imp_Kind imp = ImportTable"
      | "imp_Kind imp = ImportMemory" | "imp_Kind imp = ImportGlobal" | "imp_Kind imp = ImportTag"
      using ok by (auto simp: Import_ok_def)
    then show ?thesis
      using names ok
      by cases (simp_all add: readImport_def encImport_def Import_ok_def pbind_eq readName_def
          readByteVec_encByteVec readU32_encU32 table_codec.roundtrip memory_codec.roundtrip
          globalType_codec.roundtrip kind_values encTag_def Let_def)
  qed
qed

lemma readTableType_ok: "readTableType bs = Inr (t, rest) \<Longrightarrow> TableType_ok t"
  by (auto simp: readTableType_def pbind_eq TableType_ok_def dest: readLimits_ok)

lemma readMemoryType_ok: "readMemoryType bs = Inr (t, rest) \<Longrightarrow> MemoryType_ok t"
  by (auto simp: readMemoryType_def pbind_eq MemoryType_ok_def dest: readLimits_ok)

lemma readImport_ok: "readImport i bs = Inr (imp, rest) \<Longrightarrow> Import_ok imp"
  by (auto simp: readImport_def pbind_eq Let_def Import_ok_def kind_values readName_def
      dest: readTableType_ok readMemoryType_ok readByteVec_ok split: if_splits)

lemma readTypeEntry_ok: "readTypeEntry i bs = Inr (ft, rest) \<Longrightarrow> FuncType_ok ft"
  by (auto simp: readTypeEntry_def readFuncType_def readValVec_def pbind_eq FuncType_ok_def
      dest: byte_codec.countedVec_all [where P = "\<lambda>_. True"])

lemma readGlobal_ok: "readGlobal i bs = Inr (g, rest) \<Longrightarrow> Global_ok g"
  by (auto simp: readGlobal_def pbind_eq Global_ok_def dest: readConstExpr_ok)

lemma readExport_ok: "readExport bs = Inr (e, rest) \<Longrightarrow> Export_ok e"
  by (auto simp: readExport_def readName_def pbind_eq Export_ok_def dest: readByteVec_ok)

text \<open>The function section gives each function its type; the code section its body.\<close>

interpretation funcEntry_codec: codec
    "\<lambda>_. pbind readU32 (\<lambda>ti. pret \<lparr>fn_TypeIdx = ti, fn_Body = []\<rparr>)"
    "\<lambda>f. encU32 (fn_TypeIdx f)" "\<lambda>f. fn_Body f = []"
proof unfold_locales
  show "prefix_reader (pbind readU32 (\<lambda>ti. pret \<lparr>fn_TypeIdx = ti, fn_Body = []\<rparr>))"
    by (intro prefix_intros)
  show "pbind readU32 (\<lambda>ti. pret \<lparr>fn_TypeIdx = ti, fn_Body = []\<rparr>) (encU32 (fn_TypeIdx f) @ rest) =
      Inr (f, rest)" if "fn_Body f = []" for f rest
    using that by (cases f) (simp add: pbind_eq readU32_encU32)
qed

definition body_ok :: "byte list \<Rightarrow> bool" where
  "body_ok b \<longleftrightarrow> length b \<le> 2 ^ 25"

interpretation body_codec: codec readBody encByteVec body_ok
proof unfold_locales
  show "prefix_reader (readBody i)" for i
    unfolding readBody_def by (intro prefix_intros)
  show "readBody i (encByteVec b @ rest) = Inr (b, rest)" if "body_ok b" for i b rest
    using that
    by (simp add: readBody_def encByteVec_def body_ok_def pbind_eq readU32_encU32
        unat_word_of_length readFull_append word_less_nat_alt cap_values)
qed

lemma readBody_ok: "readBody i bs = Inr (b, rest) \<Longrightarrow> body_ok b"
  by (auto simp: readBody_def pbind_eq readFull_eq body_ok_def word_less_nat_alt cap_values)

definition ElementSegment_ok :: "ElementSegment \<Rightarrow> bool" where
  "ElementSegment_ok e \<longleftrightarrow> const_ok (elem_Offset e) \<and> vec_ok (\<lambda>_. True) (elem_FuncIdxs e)"

text \<open>Table 0 is written in the short form, any other table in the long one.\<close>

definition encElement :: "ElementSegment \<Rightarrow> byte list" where
  "encElement e =
     (if elem_TableIdx e = 0 then encU32 0 @ elem_Offset e
      else encU32 2 @ encU32 (elem_TableIdx e) @ elem_Offset e @ [0]) @
     encVec encU32 (elem_FuncIdxs e)"

interpretation element_codec: codec readElement encElement ElementSegment_ok
proof unfold_locales
  show "prefix_reader (readElement i)" for i
    unfolding readElement_def by (intro prefix_intros)
  show "readElement i (encElement e @ rest) = Inr (e, rest)" if "ElementSegment_ok e" for i e rest
    using that
    by (cases e) (simp add: readElement_def encElement_def ElementSegment_ok_def pbind_eq
        readU32_encU32 const_codec.roundtrip u32_codec.countedVec_roundtrip)
qed

lemma readElement_ok: "readElement i bs = Inr (e, rest) \<Longrightarrow> ElementSegment_ok e"
  by (auto simp: readElement_def pbind_eq ElementSegment_ok_def split: if_splits
      dest: readConstExpr_ok u32_codec.countedVec_all [where P = "\<lambda>_. True"])

definition DataSegment_ok :: "DataSegment \<Rightarrow> bool" where
  "DataSegment_ok d \<longleftrightarrow> byteVec_ok (data_Bytes d) \<and>
     (if data_Passive d then data_MemIdx d = 0 \<and> data_Offset d = [] else const_ok (data_Offset d))"

definition encData :: "DataSegment \<Rightarrow> byte list" where
  "encData d =
     (if data_Passive d then encU32 1
      else if data_MemIdx d = 0 then encU32 0 @ data_Offset d
      else encU32 2 @ encU32 (data_MemIdx d) @ data_Offset d) @
     encByteVec (data_Bytes d)"

interpretation data_codec: codec readData encData DataSegment_ok
proof unfold_locales
  show "prefix_reader (readData i)" for i
    unfolding readData_def by (intro prefix_intros)
  show "readData i (encData d @ rest) = Inr (d, rest)" if "DataSegment_ok d" for i d rest
    using that
    by (cases d) (auto simp: readData_def encData_def DataSegment_ok_def pbind_eq
        readU32_encU32 const_codec.roundtrip readByteVec_encByteVec)
qed

lemma readData_ok: "readData i bs = Inr (d, rest) \<Longrightarrow> DataSegment_ok d"
  by (auto simp: readData_def pbind_eq DataSegment_ok_def split: if_splits
      dest: readConstExpr_ok readByteVec_ok)

section \<open>The invariant of a module under construction\<close>

definition Function_ok :: "Function \<Rightarrow> bool" where
  "Function_ok f \<longleftrightarrow> body_ok (fn_Body f)"

definition Module_ok :: "Module \<Rightarrow> bool" where
  "Module_ok m \<longleftrightarrow>
     vec_ok FuncType_ok (Types m) \<and> vec_ok Import_ok (Imports m) \<and>
     vec_ok Function_ok (Functions m) \<and> vec_ok TableType_ok (Tables m) \<and>
     vec_ok MemoryType_ok (Memories m) \<and> vec_ok Global_ok (Globals m) \<and>
     vec_ok Export_ok (Exports m) \<and> vec_ok ElementSegment_ok (Elements m) \<and>
     vec_ok DataSegment_ok (Datas m) \<and> vec_ok (\<lambda>_. True) (Tags m)"

lemma Module_ok_empty: "Module_ok empty_Module"
  by (simp add: Module_ok_def empty_Module_def vec_ok_def)

lemma set_bodies_ok:
  assumes "length fs = length bodies" and "list_all body_ok bodies"
  shows "list_all Function_ok (map2 (\<lambda>f body. f\<lparr>fn_Body := body\<rparr>) fs bodies)"
  using assms by (induction fs bodies rule: list_induct2) (simp_all add: Function_ok_def)

lemmas section_defs = parseTypeSection_def parseImportSection_def parseFunctionSection_def
  parseTableSection_def parseMemorySection_def parseGlobalSection_def parseExportSection_def
  parseElementSection_def parseDataSection_def parseTagSection_def

lemma parseFunctionSection_ok:
  assumes "parseFunctionSection m bs = Inr (m', rest)" and "Module_ok m"
  shows "Module_ok m'"
proof -
  obtain fs where fs: "m' = m\<lparr>Functions := fs\<rparr>" and run:
      "countedVec (capErr ''function section: count %d exceeds %d-element cap'')
         (\<lambda>_. pbind readU32 (\<lambda>ti. pret \<lparr>fn_TypeIdx = ti, fn_Body = []\<rparr>)) bs = Inr (fs, rest)"
    using assms(1) by (auto simp: parseFunctionSection_def pbind_eq)
  have "vec_ok Function_ok fs"
    by (rule funcEntry_codec.countedVec_all [OF run])
      (auto simp: pbind_eq Function_ok_def body_ok_def)
  then show ?thesis using assms(2) fs by (simp add: Module_ok_def)
qed

lemma parseCodeSection_ok:
  assumes "parseCodeSection m bs = Inr (m', rest)" and "Module_ok m"
  shows "Module_ok m' \<and> length (Functions m') = length (Functions m)"
proof -
  obtain bodies r where bodies: "readVec readBody 0 (length (Functions m)) r = Inr (bodies, rest)"
    and m': "m' = m\<lparr>Functions := map2 (\<lambda>f body. f\<lparr>fn_Body := body\<rparr>) (Functions m) bodies\<rparr>"
    using assms(1) unfolding parseCodeSection_def pbind_eq pguard_eq pret_eq prod.inject by auto
  have len: "length (Functions m) = length bodies"
    using body_codec.readVec_length [OF bodies] by simp
  have "list_all body_ok bodies"
    unfolding list_all_iff by (rule body_codec.readVec_all [OF _ bodies]) (erule readBody_ok)
  then have "list_all Function_ok (Functions m')"
    using set_bodies_ok [OF len] m' by simp
  then show ?thesis
    using assms(2) m' len by (auto simp: Module_ok_def vec_ok_def)
qed

lemma types_ok: "countedVec err readTypeEntry bs = Inr (xs, rest) \<Longrightarrow> vec_ok FuncType_ok xs"
  by (erule type_codec.countedVec_all) (erule readTypeEntry_ok)

lemma imports_ok: "countedVec err readImport bs = Inr (xs, rest) \<Longrightarrow> vec_ok Import_ok xs"
  by (erule import_codec.countedVec_all) (erule readImport_ok)

lemma tables_ok: "countedVec err (\<lambda>_. readTableType) bs = Inr (xs, rest) \<Longrightarrow> vec_ok TableType_ok xs"
  by (erule table_codec.countedVec_all) (erule readTableType_ok)

lemma memories_ok: "countedVec err (\<lambda>_. readMemoryType) bs = Inr (xs, rest) \<Longrightarrow> vec_ok MemoryType_ok xs"
  by (erule memory_codec.countedVec_all) (erule readMemoryType_ok)

lemma globals_ok: "countedVec err readGlobal bs = Inr (xs, rest) \<Longrightarrow> vec_ok Global_ok xs"
  by (erule global_codec.countedVec_all) (erule readGlobal_ok)

lemma exports_ok: "countedVec err (\<lambda>_. readExport) bs = Inr (xs, rest) \<Longrightarrow> vec_ok Export_ok xs"
  by (erule export_codec.countedVec_all) (erule readExport_ok)

lemma elements_ok: "countedVec err readElement bs = Inr (xs, rest) \<Longrightarrow> vec_ok ElementSegment_ok xs"
  by (erule element_codec.countedVec_all) (erule readElement_ok)

lemma datas_ok: "countedVec err readData bs = Inr (xs, rest) \<Longrightarrow> vec_ok DataSegment_ok xs"
  by (erule data_codec.countedVec_all) (erule readData_ok)

lemma tags_ok: "countedVec err readTag bs = Inr (xs, rest) \<Longrightarrow> vec_ok (\<lambda>_. True) xs"
  by (erule tag_codec.countedVec_all) simp

lemmas vectors_ok = types_ok imports_ok tables_ok memories_ok globals_ok exports_ok elements_ok
  datas_ok tags_ok

lemma section_preserves:
  assumes "pbind (countedVec err f) (\<lambda>xs. pret (upd xs)) bs = Inr (m', rest)"
    and "\<And>xs. countedVec err f bs = Inr (xs, rest) \<Longrightarrow> vec_ok P xs"
    and "\<And>xs. vec_ok P xs \<Longrightarrow> Q (upd xs)"
  shows "Q m'"
  using assms by (auto simp: pbind_eq)

lemma simple_sections_ok:
  assumes "Module_ok m"
  shows "parseTypeSection m bs = Inr (m', rest) \<Longrightarrow> Module_ok m'"
    and "parseImportSection m bs = Inr (m', rest) \<Longrightarrow> Module_ok m'"
    and "parseTableSection m bs = Inr (m', rest) \<Longrightarrow> Module_ok m'"
    and "parseMemorySection m bs = Inr (m', rest) \<Longrightarrow> Module_ok m'"
    and "parseGlobalSection m bs = Inr (m', rest) \<Longrightarrow> Module_ok m'"
    and "parseExportSection m bs = Inr (m', rest) \<Longrightarrow> Module_ok m'"
    and "parseElementSection m bs = Inr (m', rest) \<Longrightarrow> Module_ok m'"
    and "parseDataSection m bs = Inr (m', rest) \<Longrightarrow> Module_ok m'"
    and "parseTagSection m bs = Inr (m', rest) \<Longrightarrow> Module_ok m'"
  unfolding section_defs
  by - (erule section_preserves, erule vectors_ok, simp add: assms [unfolded Module_ok_def] Module_ok_def)+

lemma parseSection_ok:
  assumes "parseSection m sid bs = Inr (m', rest)" and "Module_ok m"
  shows "Module_ok m'"
proof (cases "sid = 0 \<or> sid = 8 \<or> sid = 12")
  case True
  then show ?thesis using assms by (auto simp: parseSection_def pbind_eq Module_ok_def)
next
  case False
  then show ?thesis
    using assms(1) simple_sections_ok [OF assms(2), of bs m' rest]
      parseFunctionSection_ok [OF _ assms(2)] parseCodeSection_ok [OF _ assms(2)]
    unfolding parseSection_def by (simp split: if_splits)
qed

lemma parseSections_step:
  "parseSections m (sid # bs) = Inr m'' \<longleftrightarrow>
     (\<exists>raw rest m' junk. readFrame sid bs = Inr (raw, rest) \<and>
        parseSection m sid raw = Inr (m', junk) \<and> parseSections m' rest = Inr m'')"
  by (subst parseSections.simps) (auto split: sum.splits simp: pwrap_def map_err_def)

lemma parseSections_Nil: "parseSections m [] = Inr m"
  by (simp add: parseSections.simps)

lemma parseSections_ok:
  "parseSections m bs = Inr m' \<Longrightarrow> Module_ok m \<Longrightarrow> Module_ok m'"
proof (induction "length bs" arbitrary: m bs rule: less_induct)
  case less
  show ?case
  proof (cases bs)
    case Nil
    then show ?thesis using less.prems by (simp add: parseSections_Nil)
  next
    case (Cons sid bs')
    obtain raw rest m1 junk where s: "readFrame sid bs' = Inr (raw, rest)"
        "parseSection m sid raw = Inr (m1, junk)" "parseSections m1 rest = Inr m'"
      using less.prems(1) unfolding Cons parseSections_step by blast
    have "Module_ok m1" using s(2) less.prems(2) by (rule parseSection_ok)
    moreover have "length rest < length bs" using readFrame_shortens [OF s(1)] Cons by simp
    ultimately show ?thesis using less.hyps s(3) by blast
  qed
qed

section \<open>Import counts\<close>

definition kind_count :: "ImportKind \<Rightarrow> Import list \<Rightarrow> u32" where
  "kind_count k is = word_of_nat (length (filter (\<lambda>imp. imp_Kind imp = k) is))"

definition add_counts :: "Module \<Rightarrow> Import list \<Rightarrow> Module" where
  "add_counts m is = m\<lparr>
     NumImportedFuncs := NumImportedFuncs m + kind_count ImportFunc is,
     NumImportedTables := NumImportedTables m + kind_count ImportTable is,
     NumImportedMems := NumImportedMems m + kind_count ImportMemory is,
     NumImportedGlobals := NumImportedGlobals m + kind_count ImportGlobal is,
     NumImportedTags := NumImportedTags m + kind_count ImportTag is\<rparr>"

lemma foldl_countImport: "foldl countImport m is = add_counts m is"
proof (induction "is" arbitrary: m)
  case Nil
  then show ?case by (cases m) (simp add: add_counts_def kind_count_def)
next
  case (Cons imp "is")
  then show ?case
    by (cases m) (simp add: add_counts_def kind_count_def countImport_def kind_values)
qed

lemma countImports_eq: "countImports m = add_counts m (Imports m)"
  by (simp add: countImports_def foldl_countImport)

definition counts_zero :: "Module \<Rightarrow> bool" where
  "counts_zero m \<longleftrightarrow> NumImportedFuncs m = 0 \<and> NumImportedTables m = 0 \<and> NumImportedMems m = 0 \<and>
     NumImportedGlobals m = 0 \<and> NumImportedTags m = 0"

lemma parseSection_counts_zero:
  "parseSection m sid bs = Inr (m', rest) \<Longrightarrow> counts_zero m \<Longrightarrow> counts_zero m'"
  by (auto simp: parseSection_def section_defs parseCodeSection_def pbind_eq counts_zero_def
      split: if_splits)

lemma parseSections_counts_zero:
  "parseSections m bs = Inr m' \<Longrightarrow> counts_zero m \<Longrightarrow> counts_zero m'"
proof (induction "length bs" arbitrary: m bs rule: less_induct)
  case less
  show ?case
  proof (cases bs)
    case Nil
    then show ?thesis using less.prems by (simp add: parseSections_Nil)
  next
    case (Cons sid bs')
    obtain raw rest m1 junk where s: "readFrame sid bs' = Inr (raw, rest)"
        "parseSection m sid raw = Inr (m1, junk)" "parseSections m1 rest = Inr m'"
      using less.prems(1) unfolding Cons parseSections_step by blast
    have "counts_zero m1" using s(2) less.prems(2) by (rule parseSection_counts_zero)
    moreover have "length rest < length bs" using readFrame_shortens [OF s(1)] Cons by simp
    ultimately show ?thesis using less.hyps s(3) by blast
  qed
qed

definition counts_ok :: "Module \<Rightarrow> bool" where
  "counts_ok m \<longleftrightarrow> NumImportedFuncs m = kind_count ImportFunc (Imports m) \<and>
     NumImportedTables m = kind_count ImportTable (Imports m) \<and>
     NumImportedMems m = kind_count ImportMemory (Imports m) \<and>
     NumImportedGlobals m = kind_count ImportGlobal (Imports m) \<and>
     NumImportedTags m = kind_count ImportTag (Imports m)"

lemma Parse_invariant:
  assumes "Parse bs = Inr m"
  shows "Module_ok m \<and> counts_ok m"
proof -
  obtain rest m0 where m0: "parseSections empty_Module rest = Inr m0" and m: "m = add_counts m0 (Imports m0)"
    using assms by (auto simp: Parse_def countImports_eq)
  have "Module_ok m0" using m0 Module_ok_empty by (rule parseSections_ok)
  moreover have "counts_zero m0"
    using m0 by (rule parseSections_counts_zero) (simp add: counts_zero_def empty_Module_def)
  ultimately show ?thesis
    using m by (simp add: Module_ok_def counts_ok_def counts_zero_def add_counts_def)
qed

section \<open>Whole modules\<close>

definition encSection :: "byte \<Rightarrow> byte list \<Rightarrow> byte list" where
  "encSection sid payload = sid # encByteVec payload"

definition header_bytes :: "byte list" where
  "header_bytes = [0x00, 0x61, 0x73, 0x6d, 0x01, 0x00, 0x00, 0x00]"

text \<open>The sections of a module in the order the binary format gives them.\<close>

definition module_sections :: "Module \<Rightarrow> (byte \<times> byte list) list" where
  "module_sections m =
     [(1, encVec (\<lambda>ft. 0x60 # encFuncType ft) (Types m)),
      (2, encVec encImport (Imports m)),
      (3, encVec (\<lambda>f. encU32 (fn_TypeIdx f)) (Functions m)),
      (4, encVec encTableType (Tables m)),
      (5, encVec encMemoryType (Memories m)),
      (13, encVec encTag (Tags m)),
      (6, encVec encGlobal (Globals m)),
      (7, encVec encExport (Exports m))] @
     (case Start m of None \<Rightarrow> [] | Some i \<Rightarrow> [(8, encU32 i)]) @
     [(9, encVec encElement (Elements m)),
      (12, encU32 (word_of_nat (length (Datas m)))),
      (10, encVec (\<lambda>f. encByteVec (fn_Body f)) (Functions m)),
      (11, encVec encData (Datas m))]"

definition encModule :: "Module \<Rightarrow> byte list" where
  "encModule m = header_bytes @ concat (map (\<lambda>(sid, p). encSection sid p) (module_sections m))"

definition sections_fit :: "Module \<Rightarrow> bool" where
  "sections_fit m \<longleftrightarrow> list_all (\<lambda>(sid, p). length p \<le> 2 ^ 28) (module_sections m)"

lemma readHeader_bytes: "readHeader (header_bytes @ rest) = Inr ((), rest)"
proof -
  have "readFull 8 (header_bytes @ rest) = Inr (header_bytes, rest)"
    by (rule readFull_append) (simp add: header_bytes_def)
  then show ?thesis
    by (simp add: readHeader_def pbind_eq) (simp add: header_bytes_def)
qed

lemma readFrame_encByteVec:
  "length p \<le> 2 ^ 28 \<Longrightarrow> readFrame sid (encByteVec p @ rest) = Inr (p, rest)"
  by (simp add: readFrame_def encByteVec_def pbind_eq readU32_encU32 unat_word_of_length
      readFull_append word_less_nat_alt cap_values)

lemma parseSections_encSection:
  assumes "length p \<le> 2 ^ 28" and "parseSection m sid p = Inr (m', junk)"
  shows "parseSections m (encSection sid p @ rest) = parseSections m' rest"
  using assms
  by (subst parseSections.simps) (simp add: encSection_def readFrame_encByteVec pwrap_def)

definition run_secs :: "Module \<Rightarrow> (byte \<times> byte list) list \<Rightarrow> Module res" where
  "run_secs m secs = parseSections m (concat (map (\<lambda>(sid, p). encSection sid p) secs))"

lemma run_Cons:
  "length p \<le> 2 ^ 28 \<Longrightarrow> parseSection m sid p = Inr (m', junk) \<Longrightarrow>
   run_secs m ((sid, p) # secs) = run_secs m' secs"
  by (simp add: run_secs_def parseSections_encSection)

lemma run_Nil: "run_secs m [] = Inr m"
  by (simp add: run_secs_def parseSections_Nil)

lemma vec_section:
  assumes "countedVec err f (payload @ []) = Inr (xs, [])"
  shows "pbind (countedVec err f) (\<lambda>xs. pret (upd xs)) payload = Inr (upd xs, [])"
  using assms by (simp add: pbind_eq)

lemma parse_sections_enc:
  shows "vec_ok FuncType_ok ts \<Longrightarrow>
      parseSection m 1 (encVec (\<lambda>ft. 0x60 # encFuncType ft) ts) = Inr (m\<lparr>Types := ts\<rparr>, [])"
    and "vec_ok Import_ok is \<Longrightarrow> parseSection m 2 (encVec encImport is) = Inr (m\<lparr>Imports := is\<rparr>, [])"
    and "vec_ok TableType_ok tabs \<Longrightarrow>
      parseSection m 4 (encVec encTableType tabs) = Inr (m\<lparr>Tables := tabs\<rparr>, [])"
    and "vec_ok MemoryType_ok mems \<Longrightarrow>
      parseSection m 5 (encVec encMemoryType mems) = Inr (m\<lparr>Memories := mems\<rparr>, [])"
    and "vec_ok (\<lambda>_. True) tags \<Longrightarrow> parseSection m 13 (encVec encTag tags) = Inr (m\<lparr>Tags := tags\<rparr>, [])"
    and "vec_ok Global_ok gs \<Longrightarrow> parseSection m 6 (encVec encGlobal gs) = Inr (m\<lparr>Globals := gs\<rparr>, [])"
    and "vec_ok Export_ok es \<Longrightarrow> parseSection m 7 (encVec encExport es) = Inr (m\<lparr>Exports := es\<rparr>, [])"
    and "vec_ok ElementSegment_ok els \<Longrightarrow>
      parseSection m 9 (encVec encElement els) = Inr (m\<lparr>Elements := els\<rparr>, [])"
    and "vec_ok DataSegment_ok ds \<Longrightarrow> parseSection m 11 (encVec encData ds) = Inr (m\<lparr>Datas := ds\<rparr>, [])"
  by (simp_all add: parseSection_def section_defs vec_section type_codec.countedVec_roundtrip
      import_codec.countedVec_roundtrip table_codec.countedVec_roundtrip
      memory_codec.countedVec_roundtrip tag_codec.countedVec_roundtrip
      global_codec.countedVec_roundtrip export_codec.countedVec_roundtrip
      element_codec.countedVec_roundtrip data_codec.countedVec_roundtrip del: append_Nil2)

lemma parse_u32_sections:
  "parseSection m 8 (encU32 i) = Inr (m\<lparr>Start := Some i\<rparr>, [])"
  "parseSection m 12 (encU32 i) = Inr (m, [])"
  using readU32_encU32 [of i "[]"] by (simp_all add: parseSection_def pbind_eq)

definition without_bodies :: "Function list \<Rightarrow> Function list" where
  "without_bodies fs = map (\<lambda>f. f\<lparr>fn_Body := []\<rparr>) fs"

lemma parse_function_section:
  assumes "length fs \<le> 2 ^ 28"
  shows "parseSection m 3 (encVec (\<lambda>f. encU32 (fn_TypeIdx f)) fs) =
    Inr (m\<lparr>Functions := without_bodies fs\<rparr>, [])"
proof -
  have "vec_ok (\<lambda>f. fn_Body f = []) (without_bodies fs)"
    using assms by (simp add: vec_ok_def without_bodies_def list_all_iff)
  moreover have "encVec (\<lambda>f. encU32 (fn_TypeIdx f)) fs =
      encVec (\<lambda>f. encU32 (fn_TypeIdx f)) (without_bodies fs)"
    by (simp add: encVec_def without_bodies_def o_def)
  ultimately show ?thesis
    by (simp add: parseSection_def section_defs vec_section funcEntry_codec.countedVec_roundtrip
        del: append_Nil2)
qed

lemma set_bodies_again:
  "map2 (\<lambda>f body. f\<lparr>fn_Body := body\<rparr>) (without_bodies fs) (map fn_Body fs) = fs"
  unfolding without_bodies_def by (induction fs) simp_all

lemma parse_code_section:
  assumes "vec_ok Function_ok fs" and "Functions m = without_bodies fs"
  shows "parseSection m 10 (encVec (\<lambda>f. encByteVec (fn_Body f)) fs) = Inr (m\<lparr>Functions := fs\<rparr>, [])"
proof -
  have len: "length fs \<le> 2 ^ 28" and ok: "\<forall>b \<in> set (map fn_Body fs). body_ok b"
    using assms(1) by (auto simp: vec_ok_def list_all_iff Function_ok_def)
  have "readVec readBody 0 (length fs) (concat (map (\<lambda>f. encByteVec (fn_Body f)) fs)) =
      Inr (map fn_Body fs, [])"
    using body_codec.readVec_roundtrip [OF ok, of 0 "[]"] by (simp add: o_def)
  moreover have "readU32 (encVec (\<lambda>f. encByteVec (fn_Body f)) fs) =
      Inr (word_of_nat (length fs), concat (map (\<lambda>f. encByteVec (fn_Body f)) fs))"
    by (simp add: encVec_def readU32_encU32)
  ultimately show ?thesis
    using cap_word_of_nat(1) [OF len] assms(2) set_bodies_again [of fs]
    by (simp add: parseSection_def parseCodeSection_def pbind_eq without_bodies_def)
qed

lemmas run_steps = parse_sections_enc [THEN run_Cons [rotated]]
  parse_function_section [THEN run_Cons [rotated]] parse_u32_sections [THEN run_Cons [rotated]]
  parse_code_section [THEN run_Cons [rotated]] run_Nil

definition Module_wf :: "Module \<Rightarrow> bool" where
  "Module_wf m \<longleftrightarrow> Module_ok m \<and> sections_fit m \<and> counts_ok m"

lemma parseSections_encModule:
  assumes ok: "Module_ok m" and fit: "sections_fit m"
  shows "run_secs empty_Module (module_sections m) = Inr (m\<lparr>NumImportedFuncs := 0,
    NumImportedTables := 0, NumImportedMems := 0, NumImportedGlobals := 0, NumImportedTags := 0\<rparr>)"
proof -
  have vecs: "vec_ok FuncType_ok (Types m)" "vec_ok Import_ok (Imports m)"
    "vec_ok Function_ok (Functions m)" "vec_ok TableType_ok (Tables m)"
    "vec_ok MemoryType_ok (Memories m)" "vec_ok Global_ok (Globals m)"
    "vec_ok Export_ok (Exports m)" "vec_ok ElementSegment_ok (Elements m)"
    "vec_ok DataSegment_ok (Datas m)" "vec_ok (\<lambda>_. True) (Tags m)"
    using ok by (simp_all add: Module_ok_def)
  have "length (Functions m) \<le> 2 ^ 28" using vecs(3) by (simp add: vec_ok_def)
  then show ?thesis
    using fit vecs
    by (cases m; cases "Start m")
      (simp_all add: sections_fit_def module_sections_def run_steps empty_Module_def)
qed

section \<open>Properties of the readers and of the parser\<close>

text \<open>
  C5: The four LEB128 readers accept exactly the framed sequences of at most ten bytes whose value
  fits their width, take exactly those bytes, and return that value; anything else is an error.
\<close>

theorem leb_readers_exact:
  "(readU64 bs = Inr (u, rest) \<longleftrightarrow>
      (\<exists>used. bs = used @ rest \<and> leb_framed used \<and> length used \<le> 10 \<and>
         uleb_nat used < 2 ^ 64 \<and> unat u = uleb_nat used)) \<and>
    (readU32 bs = Inr (v, rest) \<longleftrightarrow>
      (\<exists>used. bs = used @ rest \<and> leb_framed used \<and> length used \<le> 10 \<and>
         uleb_nat used < 2 ^ 32 \<and> unat v = uleb_nat used)) \<and>
    (readS64 bs = Inr (x, rest) \<longleftrightarrow>
      (\<exists>used. bs = used @ rest \<and> leb_framed used \<and> length used \<le> 10 \<and>
         in_range 64 (sleb_int used) \<and> sint x = sleb_int used)) \<and>
    (readS32 bs = Inr (y, rest) \<longleftrightarrow>
      (\<exists>used. bs = used @ rest \<and> leb_framed used \<and> length used \<le> 10 \<and>
         in_range 32 (sleb_int used) \<and> sint y = sleb_int used))"
  by (intro conjI readU64_iff readU32_iff readS64_iff readS32_iff)

text \<open>
  C6: What the two LEB128 writers emit is read back by the readers, whatever follows it, for every
  64-bit and every 32-bit value, signed and unsigned, and is at most ten bytes long.
\<close>

theorem leb_writers_roundtrip:
  "readU64 (writeULEB u @ rest) = Inr (u, rest) \<and>
   readU32 (writeULEB (ucast v) @ rest) = Inr (v, rest) \<and>
   readS64 (writeSLEB x @ rest) = Inr (x, rest) \<and>
   readS32 (writeSLEB (scast y) @ rest) = Inr (y, rest) \<and>
   length (writeULEB u) \<le> 10 \<and> length (writeSLEB x) \<le> 10"
  using readU32_encU32 [of v rest] readS32_encS32 [of y rest]
  by (simp add: readU64_writeULEB readS64_writeSLEB writeULEB_length_10 writeSLEB_length_10
      encU32_def encS32_def)

text \<open>
  C7: The constant-expression reader accepts exactly the sequences of constant instructions closed
  by 0x0b, each with any valid LEB128 for its immediate, and returns the same instructions with
  their immediates in canonical form.
\<close>

theorem readConstExpr_exact:
  "readConstExpr bs = Inr (e, rest) \<longleftrightarrow>
     (\<exists>ins imms. const_source ins imms \<and> bs = source_bytes ins imms @ rest \<and> e = enc_const ins)"
  by (rule readConstExpr_source_iff)

text \<open>
  C8: What the constant-expression reader returns is a fixed point: reading it again, followed by
  anything, returns it unchanged and leaves what follows.
\<close>

theorem readConstExpr_fixed_point:
  assumes "readConstExpr bs = Inr (e, rest)"
  shows "readConstExpr (e @ tail) = Inr (e, tail)"
  using assms by (intro const_codec.roundtrip readConstExpr_ok)

text \<open>An overlong \<^verbatim>\<open>i32.const 0\<close> is kept in its one-byte form, not as its raw bytes.\<close>

lemma readConstExpr_overlong:
  "readConstExpr [0x41, 0x80, 0x00, 0x0b, 0x7] = Inr ([0x41, 0x00, 0x0b], [0x7])"
  by code_simp

theorem readConstExpr_fixed_point_witness:
  "readConstExpr ([0x41, 0x00, 0x0b] @ [0x55]) = Inr ([0x41, 0x00, 0x0b], [0x55])"
  by (rule readConstExpr_fixed_point [OF readConstExpr_overlong])

lemma Parse_roundtrip:
  assumes "Module_wf m"
  shows "Parse (encModule m) = Inr m"
proof -
  let ?m = "m\<lparr>NumImportedFuncs := 0, NumImportedTables := 0, NumImportedMems := 0,
    NumImportedGlobals := 0, NumImportedTags := 0\<rparr>"
  have "parseSections empty_Module (concat (map (\<lambda>(sid, p). encSection sid p) (module_sections m)))
      = Inr ?m"
    using parseSections_encModule [of m] assms by (simp add: Module_wf_def run_secs_def)
  then have "Parse (encModule m) = Inr (add_counts ?m (Imports m))"
    by (simp add: Parse_def encModule_def readHeader_bytes countImports_eq)
  also have "add_counts ?m (Imports m) = m"
    using assms by (cases m) (simp add: Module_wf_def counts_ok_def add_counts_def)
  finally show ?thesis .
qed

text \<open>
  C1: Parsing undoes the encoding of a module: for every well-formed module, reading its header,
  its sections in the order of the binary format and its code bodies gives the module back, field
  by field, with the import counts computed.
\<close>

theorem Parse_encModule:
  assumes "Module_wf m"
  shows "Parse (encModule m) = Inr m"
  using assms by (rule Parse_roundtrip)

definition sample_module :: Module where
  "sample_module = empty_Module\<lparr>
     Types := [\<lparr>Params = [ValI32, ValI32], Results = [ValI64]\<rparr>],
     Imports := [\<lparr>imp_Module = [0x65], imp_Name = [0x66], imp_Kind = ImportFunc, imp_TypeIdx = 0,
       imp_Table = zero_TableType, imp_Memory = zero_MemoryType, imp_Global = zero_GlobalType,
       imp_Tag = zero_Tag\<rparr>],
     Functions := [\<lparr>fn_TypeIdx = 0, fn_Body = [0x00, 0x0b]\<rparr>],
     Memories := [\<lparr>mt_Limits = \<lparr>Min = 1, Max = 300, HasMax = True, Shared = False, Is64 = False\<rparr>,
       mt_Is64 = False\<rparr>],
     Globals := [\<lparr>glob_Type = \<lparr>gt_Type = ValI32, Mutable = True\<rparr>, glob_Init = [0x41, 0x00, 0x0b]\<rparr>],
     Start := Some 1,
     Datas := [\<lparr>data_MemIdx = 0, data_Offset = [], data_Bytes = [1, 2, 3], data_Passive = True\<rparr>],
     NumImportedFuncs := 1\<rparr>"

lemma small_lebs:
  "encU32 0 = [0]" "encU32 1 = [1]" "encU32 2 = [2]" "encU32 3 = [3]"
  "writeULEB 1 = [1]" "writeULEB 300 = [0xac, 0x02]"
  by code_simp+

lemma const_ok_i32_zero: "const_ok [0x41, 0x00, 0x0b]"
  by code_simp

lemma sample_module_wf: "Module_wf sample_module"
  by (simp add: Module_wf_def Module_ok_def sections_fit_def module_sections_def counts_ok_def
      sample_module_def empty_Module_def kind_count_def kind_values vec_ok_def byteVec_ok_def
      FuncType_ok_def Import_ok_def Function_ok_def body_ok_def MemoryType_ok_def Limits_ok_def
      Global_ok_def const_ok_i32_zero DataSegment_ok_def encVec_def encByteVec_def encFuncType_def
      encImport_def encMemoryType_def encLimits_def encGlobal_def encGlobalType_def encData_def
      small_lebs)

theorem Parse_encModule_witness: "Parse (encModule sample_module) = Inr sample_module"
  by (rule Parse_encModule [OF sample_module_wf])

lemma Parse_sample: "Parse (encModule sample_module) = Inr sample_module"
  by (rule Parse_roundtrip [OF sample_module_wf])

text \<open>
  C2: Every module that \<^verbatim>\<open>Parse\<close> returns, from any input, keeps the caps and the shape
  its sections promise: vectors within 2 to the 28 elements, bodies within 2 to the 25 bytes, names and data
  within the byte cap, known import kinds with only their own payload set, limits without a
  maximum having maximum 0, constant expressions that read back as themselves; and its import
  counts are those of its import list.
\<close>

theorem Parse_module_invariant:
  assumes "Parse bs = Inr m"
  shows "Module_ok m \<and> counts_ok m"
  using assms by (rule Parse_invariant)

theorem Parse_module_invariant_witness: "Module_ok sample_module \<and> counts_ok sample_module"
  by (rule Parse_module_invariant [OF Parse_sample])

lemma kind_count_unat:
  "length is < 2 ^ 32 \<Longrightarrow> unat (kind_count k is) = length (filter (\<lambda>imp. imp_Kind imp = k) is)"
  by (simp add: kind_count_def unat_of_nat le_less_trans [OF length_filter_le])

text \<open>
  C3: On a parsed module \<^verbatim>\<open>FuncTypeOf\<close> is lookup in the function index space: the imported
  functions in order, then the defined ones; it panics (\<open>None\<close>) exactly where the index or the
  type index it finds is out of range.
\<close>

theorem FuncTypeOf_parsed:
  assumes "Parse bs = Inr m"
  shows "FuncTypeOf m idx =
    Option.bind (nth_opt (func_space m) (unat idx)) (\<lambda>t. nth_opt (Types m) (unat t))"
proof (rule FuncTypeOf_space)
  have inv: "Module_ok m" "counts_ok m" using Parse_invariant [OF assms] by blast+
  then show "length (Imports m) < 2 ^ 32" by (simp add: Module_ok_def vec_ok_def)
  then show "unat (NumImportedFuncs m) = length (func_imports m)"
    using inv(2) by (simp add: counts_ok_def kind_count_unat func_imports_def)
qed

theorem FuncTypeOf_parsed_witness:
  "FuncTypeOf sample_module 1 = Some \<lparr>Params = [ValI32, ValI32], Results = [ValI64]\<rparr>"
  by (subst FuncTypeOf_parsed [OF Parse_sample])
    (simp add: sample_module_def func_space_def func_imports_def nth_opt_def empty_Module_def)

lemma prefix_parseSection: "prefix_reader (parseSection m sid)"
  unfolding parseSection_def section_defs parseCodeSection_def
  by (intro prefix_intros type_codec.prefix import_codec.prefix table_codec.prefix
      memory_codec.prefix tag_codec.prefix global_codec.prefix export_codec.prefix
      element_codec.prefix data_codec.prefix body_codec.prefix)

text \<open>
  C9: A section is read from its own payload only: bytes after what its reader takes, up to the
  declared size, are skipped, and parsing goes on at the next section with the module it built.
  With an empty payload and section id 0 this says that custom sections are skipped.
\<close>

theorem section_framing:
  assumes "length (p @ junk) \<le> 2 ^ 28" and "parseSection m sid p = Inr (m', left_over)"
  shows "parseSections m (encSection sid (p @ junk) @ rest) = parseSections m' rest"
proof -
  obtain used where "p = used @ left_over" and run: "\<And>r. parseSection m sid (used @ r) = Inr (m', r)"
    using prefix_parseSection assms(2) by (rule prefix_readerE) blast
  then have "parseSection m sid (p @ junk) = Inr (m', left_over @ junk)" by simp
  with assms(1) show ?thesis by (rule parseSections_encSection)
qed

theorem section_framing_witness:
  "parseSections empty_Module (encSection 8 ([5] @ [1, 2]) @ encSection 0 ([] @ [7, 7])) =
     Inr (empty_Module\<lparr>Start := Some 5\<rparr>)"
proof -
  have p: "parseSection empty_Module 8 [5] = Inr (empty_Module\<lparr>Start := Some 5\<rparr>, [])" by code_simp
  have c: "parseSection m 0 [] = Inr (m, [])" for m by (simp add: parseSection_def pret_def)
  show ?thesis
    using section_framing [OF _ p, of "[1, 2]"] section_framing [OF _ c, of "[7, 7]" _ "[]"]
    by (simp add: parseSections_Nil)
qed

end
