(* ===== verification/InstrReader.thy ===== *)
theory InstrReader
  imports WasmCodec
begin

text \<open>
  The instruction reader of \<^verbatim>\<open>internal/wasm/instr.go\<close>: its LEB128 and float readers, the
  memory-argument and vector readers and \<^verbatim>\<open>SkipImmediates\<close>. The Go struct holds the bytes
  and a position; each operation is defined on the bytes from the position on, and
  \<open>on_reader\<close> runs it on the struct. Floats are their bit patterns.
\<close>

section \<open>The reader struct\<close>

record InstrReader =
  ir_src :: "byte list"
  ir_pos :: nat

definition NewInstrReader :: "byte list \<Rightarrow> InstrReader" where
  "NewInstrReader src = \<lparr>ir_src = src, ir_pos = 0\<rparr>"

definition ir_EOF :: "InstrReader \<Rightarrow> bool" where
  "ir_EOF r \<longleftrightarrow> length (ir_src r) \<le> ir_pos r"

definition on_reader :: "'a rd \<Rightarrow> InstrReader \<Rightarrow> ('a \<times> InstrReader) res" where
  "on_reader p r = bind_res (p (drop (ir_pos r) (ir_src r)))
     (\<lambda>(x, rest). Inr (x, r\<lparr>ir_pos := length (ir_src r) - length rest\<rparr>))"

section \<open>LEB128 and floats\<close>

fun irReadByte :: "byte rd" where
  "irReadByte [] = Inl (Fail ''unexpected EOF in instruction stream'' [])"
| "irReadByte (b # bs) = Inr (b, bs)"

function irReadU64_from :: "nat \<Rightarrow> nat \<Rightarrow> u64 \<Rightarrow> u64 rd" where
  "irReadU64_from i s v bs =
     (if i < 10 then
        (case irReadByte bs of
           Inl e \<Rightarrow> Inl e
         | Inr (b, bs') \<Rightarrow>
             let v' = v OR push_bit s (ucast (b AND 0x7f)) in
             if b AND 0x80 = 0 then Inr (v', bs')
             else irReadU64_from (Suc i) (s + 7) v' bs')
      else Inl (Fail ''u64 overflow'' []))"
  by pat_completeness auto
termination
  by (relation "measure (\<lambda>(i, s, v, bs). 10 - i)") simp_all

definition irReadU64 :: "u64 rd" where
  "irReadU64 = irReadU64_from 0 0 0"

definition irReadU32 :: "u32 rd" where
  "irReadU32 = pbind irReadU64 (\<lambda>v.
     pguard (\<not> v > 0xffffffff) (Fail ''u32 overflow'' []) (pret (ucast v)))"

function irReadSN_from :: "nat \<Rightarrow> nat \<Rightarrow> i64 \<Rightarrow> i64 rd" where
  "irReadSN_from bits s v bs =
     (case irReadByte bs of
        Inl e \<Rightarrow> Inl e
      | Inr (b, bs') \<Rightarrow>
          let v' = v OR push_bit s (ucast (b AND 0x7f)); s' = s + 7 in
          if b AND 0x80 = 0 then
            Inr (if s' < 64 \<and> b AND 0x40 \<noteq> 0 then v' OR push_bit s' (- 1) else v', bs')
          else if s' > bits + 7 then Inl (Fail ''sN overflow'' [])
          else irReadSN_from bits s' v' bs')"
  by pat_completeness auto
termination
proof (relation "measure (\<lambda>(bits, s, v, bs). length bs)")
  fix bits s :: nat and v v' :: i64 and bs bs' :: "byte list" and s' x b
  assume "irReadByte bs = Inr x" and "(b, bs') = x"
  then show "((bits, s', v', bs'), bits, s, v, bs) \<in> measure (\<lambda>(bits, s, v, bs). length bs)"
    by (cases bs) auto
qed simp

declare irReadU64_from.simps [simp del] irReadSN_from.simps [simp del]

definition irReadSN :: "nat \<Rightarrow> i64 rd" where
  "irReadSN bits = irReadSN_from bits 0 0"

definition irReadS32 :: "i32 rd" where
  "irReadS32 = pbind (irReadSN 32) (\<lambda>v. pret (ucast v))"

definition irReadS33 :: "i64 rd" where
  "irReadS33 = irReadSN 33"

definition irReadS64 :: "i64 rd" where
  "irReadS64 = irReadSN 64"

definition irReadF32 :: "u32 rd" where
  "irReadF32 bs =
     (if 4 > length bs then Inl (Fail ''unexpected EOF reading f32'' [])
      else Inr (le_word (take 4 bs), drop 4 bs))"

definition irReadF64 :: "u64 rd" where
  "irReadF64 bs =
     (if 8 > length bs then Inl (Fail ''unexpected EOF reading f64'' [])
      else Inr (le_word (take 8 bs), drop 8 bs))"

definition irReadMemArg :: "(u32 \<times> u64) rd" where
  "irReadMemArg = pbind irReadU32 (\<lambda>align. pbind irReadU64 (\<lambda>off. pret (align, off)))"

definition irReadVecU32 :: "u32 list rd" where
  "irReadVecU32 = pbind irReadU32 (\<lambda>n. readVec (\<lambda>_. irReadU32) 0 (unat n))"

section \<open>SkipImmediates\<close>

definition OpPrefixFC :: byte where "OpPrefixFC = 0xfc"
definition OpPrefixFD :: byte where "OpPrefixFD = 0xfd"
definition OpPrefixFE :: byte where "OpPrefixFE = 0xfe"

definition discard :: "'a rd \<Rightarrow> unit rd" where
  "discard p = pbind p (\<lambda>_. pret ())"

definition skipMemarg :: "unit rd" where
  "skipMemarg = pbind irReadU32 (\<lambda>_. discard irReadU64)"

definition skipFE :: "unit rd" where
  "skipFE = pbind irReadU32 (\<lambda>sub.
     if sub = 0x03 then discard irReadByte
     else if sub \<le> 0x4e then skipMemarg
     else pfail (Fail ''unknown 0xfe sub-opcode 0x%02x'' [unat sub]))"

definition skipFD :: "unit rd" where
  "skipFD = pbind irReadU32 (\<lambda>sub.
     if sub \<le> 0x0b then skipMemarg
     else if sub = 0x0c \<or> sub = 0x0d then discard (readVec (\<lambda>_. irReadByte) 0 16)
     else if sub \<ge> 0x15 \<and> sub \<le> 0x22 then discard irReadByte
     else if sub \<ge> 0x54 \<and> sub \<le> 0x5b then pbind skipMemarg (\<lambda>_. discard irReadByte)
     else if sub = 0x5c \<or> sub = 0x5d then skipMemarg
     else if sub \<le> 0xff then pret ()
     else pfail (Fail ''unknown 0xfd sub-opcode 0x%02x'' [unat sub]))"

definition skipFC :: "unit rd" where
  "skipFC = pbind irReadU32 (\<lambda>sub.
     if sub \<le> 7 then pret ()
     else if sub = 8 then pbind irReadU32 (\<lambda>_. discard irReadByte)
     else if sub = 9 then discard irReadU32
     else if sub = 10 then pbind irReadByte (\<lambda>_. discard irReadByte)
     else if sub = 11 then discard irReadByte
     else if sub = 12 then pbind irReadU32 (\<lambda>_. discard irReadU32)
     else if sub = 13 then discard irReadU32
     else if sub = 14 then pbind irReadU32 (\<lambda>_. discard irReadU32)
     else if sub = 15 \<or> sub = 16 \<or> sub = 17 then discard irReadU32
     else pfail (Fail ''unsupported 0xFC subop %d'' [unat sub]))"

definition u32Ops :: "byte list" where
  "u32Ops = [0x0c, 0x0d, 0x20, 0x21, 0x22, 0x23, 0x24, 0x10, 0x07, 0x08, 0x09, 0x18]"

definition plainOps :: "byte list" where
  "plainOps = [0x05, 0x0b, 0x0f, 0x00, 0x01, 0x1a, 0x1b, 0x19]"

definition SkipImmediates :: "byte \<Rightarrow> unit rd" where
  "SkipImmediates opc =
     (if opc = OpPrefixFE then skipFE
      else if opc = OpPrefixFD then skipFD
      else if opc = OpPrefixFC then skipFC
      else if opc \<in> set u32Ops then discard irReadU32
      else if opc = 0xd2 then discard irReadU32
      else if opc = 0xd0 then discard irReadByte
      else if opc = 0x11 then pbind irReadU32 (\<lambda>_. discard irReadU32)
      else if opc = 0x0e then pbind irReadVecU32 (\<lambda>_. discard irReadU32)
      else if opc = 0x02 \<or> opc = 0x03 \<or> opc = 0x04 \<or> opc = 0x06 then discard irReadS33
      else if opc \<in> set plainOps then pret ()
      else if opc = 0x1c then pbind irReadU32 (\<lambda>n. discard (readVec (\<lambda>_. irReadByte) 0 (unat n)))
      else if opc = 0x3f \<or> opc = 0x40 then discard irReadByte
      else if opc = 0x41 then discard irReadS32
      else if opc = 0x42 then discard irReadS64
      else if opc = 0x43 then discard irReadF32
      else if opc = 0x44 then discard irReadF64
      else if opc \<ge> 0x28 \<and> opc \<le> 0x3e then skipMemarg
      else if opc \<ge> 0x45 \<and> opc \<le> 0xC4 then pret ()
      else pfail (Fail ''unknown opcode 0x%02x'' [unat opc]))"

section \<open>The LEB128 readers, exactly\<close>

lemma word_uleb_Cons:
  "(word_of_nat (uleb_nat (b # us)) :: u64) =
     ucast (b AND 0x7f) OR push_bit 7 (word_of_nat (uleb_nat us))"
proof -
  have "unat (ucast (b AND 0x7f) :: u64) < 2 ^ 7"
    using payload_less [of b] by (simp add: unat_ucast_up)
  then have "ucast (b AND 0x7f) OR push_bit 7 (word_of_nat (uleb_nat us)) =
      ucast (b AND 0x7f) + push_bit 7 (word_of_nat (uleb_nat us) :: u64)"
    by (rule word_or_eq_plus) (simp add: bit_push_bit_iff)
  also have "\<dots> = word_of_nat (uleb_nat (b # us))"
    by (simp add: push_bit_eq_mult)
  finally show ?thesis by simp
qed

lemma push_bit_or: "push_bit n (a OR b :: 'a::len word) = push_bit n a OR push_bit n b"
  by (rule bit_word_eqI) (auto simp: bit_simps)

lemma irReadByte_eq: "irReadByte bs = Inr (b, r) \<longleftrightarrow> bs = b # r"
  by (cases bs) auto

lemma framed_Cons_split:
  "(\<exists>used. b # bs = used @ rest \<and> leb_framed used \<and> P used) \<longleftrightarrow>
     (if b AND 0x80 = 0 then bs = rest \<and> P [b]
      else \<exists>us. bs = us @ rest \<and> leb_framed us \<and> P (b # us))"
  by (auto simp: Cons_eq_append_conv split: if_splits dest: leb_framed_nonempty)

lemma irReadU64_from_iff:
  "irReadU64_from i s v bs = Inr (w, rest) \<longleftrightarrow>
    (\<exists>used. bs = used @ rest \<and> leb_framed used \<and>
       i + length used \<le> 10 \<and> w = v OR push_bit s (word_of_nat (uleb_nat used)))"
proof (induction bs arbitrary: i s v)
  case Nil
  then show ?case by (subst irReadU64_from.simps) (auto dest: leb_framed_nonempty)
next
  case (Cons b bs)
  show ?case
  proof (cases "i < 10")
    case True
    then show ?thesis
      unfolding framed_Cons_split word_uleb_Cons push_bit_or push_bit_push_bit
      by (subst irReadU64_from.simps)
        (auto simp: Let_def Cons or.assoc ac_simps push_bit_push_bit)
  next
    case False
    then show ?thesis
      unfolding framed_Cons_split by (subst irReadU64_from.simps) auto
  qed
qed

lemma irReadU64_iff:
  "irReadU64 bs = Inr (v, rest) \<longleftrightarrow>
    (\<exists>used. bs = used @ rest \<and> leb_framed used \<and> length used \<le> 10 \<and>
       v = word_of_nat (uleb_nat used))"
  by (simp add: irReadU64_def irReadU64_from_iff)

lemma word_sleb_single:
  "(word_of_int (sleb_int [b]) :: i64) =
     ucast (b AND 0x7f) OR (if b AND 0x40 \<noteq> 0 then push_bit 7 (- 1) else 0)"
proof (rule bit_word_eqI)
  fix k
  assume "k < LENGTH(64)"
  then show "bit (word_of_int (sleb_int [b]) :: i64) k =
      bit (ucast (b AND 0x7f) OR (if b AND 0x40 \<noteq> 0 then push_bit 7 (- 1) else 0) :: i64) k"
    unfolding and_0x7f_take_bit
    by (cases "k < 7") (auto simp: bit_of_int_iff bit_sleb_single and_0x40_iff bit_simps min_def
        not_less_eq eval_nat_numeral dest: le_antisym)
qed

lemma word_sleb_Cons:
  assumes "us \<noteq> []"
  shows "(word_of_int (sleb_int (b # us)) :: i64) =
    ucast (b AND 0x7f) OR push_bit 7 (word_of_int (sleb_int us))"
proof (rule bit_word_eqI)
  fix k
  assume "k < LENGTH(64)"
  then show "bit (word_of_int (sleb_int (b # us)) :: i64) k =
      bit (ucast (b AND 0x7f) OR push_bit 7 (word_of_int (sleb_int us)) :: i64) k"
    using assms unfolding and_0x7f_take_bit
    by (cases "k < 7") (auto simp: bit_of_int_iff bit_sleb_Cons bit_simps)
qed

lemma irReadSN_from_iff:
  assumes "s \<le> bits + 7"
  shows "irReadSN_from bits s v bs = Inr (w, rest) \<longleftrightarrow>
    (\<exists>used. bs = used @ rest \<and> leb_framed used \<and> s + 7 * (length used - 1) \<le> bits + 7 \<and>
       w = v OR push_bit s (word_of_int (sleb_int used)))"
  using assms
proof (induction bs arbitrary: s v)
  case Nil
  then show ?case by (subst irReadSN_from.simps) (auto dest: leb_framed_nonempty)
next
  case (Cons b bs)
  let ?v = "v OR push_bit s (ucast (b AND 0x7f)) :: i64"
  have high: "push_bit (s + 7) (- 1 :: i64) = 0" if "\<not> s + 7 < 64"
    using that by (intro bit_word_eqI) (simp add: bit_simps)
  show ?case
  proof (cases "b AND 0x80 = 0")
    case True
    have "v OR push_bit s (word_of_int (sleb_int [b])) =
        (if s + 7 < 64 \<and> b AND 0x40 \<noteq> 0 then ?v OR push_bit (s + 7) (- 1) else ?v)"
    proof (cases "b AND 0x40 = 0")
      case True
      then show ?thesis by (simp add: word_sleb_single)
    next
      case False
      have "push_bit s (push_bit 7 (- 1 :: i64)) = push_bit (s + 7) (- 1)"
        by (simp only: push_bit_push_bit)
      then have "v OR push_bit s (word_of_int (sleb_int [b])) = ?v OR push_bit (s + 7) (- 1)"
        using False by (simp only: word_sleb_single push_bit_or or.assoc if_True simp_thms)
      then show ?thesis
        using False high by (cases "s + 7 < 64") (simp_all only: simp_thms or.right_neutral if_True if_False)
    qed
    then show ?thesis
      using True Cons.prems unfolding framed_Cons_split
      by (subst irReadSN_from.simps) (auto simp: Let_def)
  next
    case False
    have len: "s + 7 * (length (b # us) - 1) = (s + 7) + 7 * (length us - 1)" if "leb_framed us" for us
      using leb_framed_nonempty [OF that] by (cases us) simp_all
    have val: "v OR push_bit s (word_of_int (sleb_int (b # us))) =
        ?v OR push_bit (s + 7) (word_of_int (sleb_int us))" if "leb_framed us" for us
      using leb_framed_nonempty [OF that]
      by (simp add: word_sleb_Cons push_bit_or push_bit_push_bit or.assoc add.commute)
    show ?thesis
    proof (cases "s + 7 > bits + 7")
      case True
      then have "\<not> s + 7 * (length (b # us) - 1) \<le> bits + 7" if "leb_framed us" for us
        using len [OF that] by simp
      then show ?thesis
        using True False unfolding framed_Cons_split
        by (subst irReadSN_from.simps) (auto simp: Let_def)
    next
      case keep: False
      then have "irReadSN_from bits s v (b # bs) = irReadSN_from bits (s + 7) ?v bs"
        using False by (subst irReadSN_from.simps) (simp add: Let_def)
      then show ?thesis
        using keep False Cons.IH [of "s + 7" ?v] len val unfolding framed_Cons_split by auto
    qed
  qed
qed

lemma irReadSN_iff:
  "irReadSN bits bs = Inr (v, rest) \<longleftrightarrow>
    (\<exists>used. bs = used @ rest \<and> leb_framed used \<and> 7 * (length used - 1) \<le> bits + 7 \<and>
       v = word_of_int (sleb_int used))"
  by (simp add: irReadSN_def irReadSN_from_iff)

section \<open>Prefix readers and round trips\<close>

lemma prefix_irReadByte [prefix_intros]: "prefix_reader irReadByte"
  by (rule prefix_readerI) (auto simp: irReadByte_eq)

lemma prefix_irReadU64 [prefix_intros]: "prefix_reader irReadU64"
  by (rule prefix_readerI) (auto simp: irReadU64_iff)

lemma prefix_irReadU32 [prefix_intros]: "prefix_reader irReadU32"
  unfolding irReadU32_def by (intro prefix_intros)

lemma prefix_irReadSN [prefix_intros]: "prefix_reader (irReadSN bits)"
  by (rule prefix_readerI) (auto simp: irReadSN_iff)

lemma irReadF32_eq: "irReadF32 bs = Inr (w, rest) \<longleftrightarrow> (\<exists>us. bs = us @ rest \<and> length us = 4 \<and> w = le_word us)"
  by (auto simp: irReadF32_def intro: exI [of _ "take 4 bs"])

lemma irReadF64_eq: "irReadF64 bs = Inr (w, rest) \<longleftrightarrow> (\<exists>us. bs = us @ rest \<and> length us = 8 \<and> w = le_word us)"
  by (auto simp: irReadF64_def intro: exI [of _ "take 8 bs"])

lemma prefix_irReadF32 [prefix_intros]: "prefix_reader irReadF32"
  by (rule prefix_readerI) (auto simp: irReadF32_eq)

lemma prefix_irReadF64 [prefix_intros]: "prefix_reader irReadF64"
  by (rule prefix_readerI) (auto simp: irReadF64_eq)

lemma word_of_uleb: "unat (v :: u64) = n \<Longrightarrow> word_of_nat n = v"
  by (metis of_nat_unat ucast_id)

lemma word_of_sleb: "sint (v :: i64) = n \<Longrightarrow> word_of_int n = v"
  by (erule subst) simp

lemma irReadU64_strict: "readU64 bs = Inr (v, rest) \<Longrightarrow> irReadU64 bs = Inr (v, rest)"
  unfolding readU64_iff irReadU64_iff using word_of_uleb by metis

lemma irReadU32_strict: "readU32 bs = Inr (v, rest) \<Longrightarrow> irReadU32 bs = Inr (v, rest)"
  using irReadU64_strict by (fastforce simp: readU32_def irReadU32_def pbind_eq)

lemma irReadSN_strict:
  assumes "readS64Bits bits bs = Inr (v, rest)" and "0 < bits" and "bits \<le> 64"
    and "7 * (length bs - length rest - 1) \<le> bits + 7"
  shows "irReadSN bits bs = Inr (v, rest)"
proof -
  obtain used where used: "bs = used @ rest" "leb_framed used" "sint v = sleb_int used"
    using assms(1-3) by (auto simp: readS64Bits_iff)
  then have "7 * (length used - 1) \<le> bits + 7" using assms(4) by simp
  then show ?thesis
    using used word_of_sleb [OF used(3)] by (auto simp: irReadSN_iff)
qed

lemma irReadS64_strict: "readS64 bs = Inr (v, rest) \<Longrightarrow> irReadS64 bs = Inr (v, rest)"
proof -
  assume run: "readS64 bs = Inr (v, rest)"
  then have "length bs - length rest \<le> 10" by (auto simp: readS64_iff)
  then show ?thesis
    using run unfolding readS64_def irReadS64_def by (intro irReadSN_strict) simp_all
qed

lemma irReadS32_strict:
  assumes "readS32 bs = Inr (v, rest)" and "length bs \<le> length rest + 6"
  shows "irReadS32 bs = Inr (v, rest)"
proof -
  obtain w where w: "readS64Bits 32 bs = Inr (w, rest)" "v = ucast w"
    using assms(1) by (auto simp: readS32_def pbind_eq)
  then have "irReadSN 32 bs = Inr (w, rest)"
    using assms(2) by (intro irReadSN_strict) simp_all
  then show ?thesis using w(2) by (simp add: irReadS32_def pbind_eq)
qed

lemma sint_word_of_int_range: "in_range LENGTH('a::len) k \<Longrightarrow> sint (word_of_int k :: 'a word) = k"
  by (simp add: in_range_def signed_of_int signed_take_bit_int_eq_self)

lemmas sint_in_range = sint_word_of_int_range [where 'a = 64, simplified] sint_word_of_int_range [where 'a = 32, simplified]

lemma leb_framed_unique: "leb_framed us \<Longrightarrow> leb_framed vs \<Longrightarrow> us @ r = vs @ r' \<Longrightarrow> us = vs"
proof (induction us arbitrary: vs)
  case (Cons b us)
  then show ?case by (cases vs) (auto split: if_splits)
qed simp

lemma ucast_word_of_int: "LENGTH('b) \<le> LENGTH('a) \<Longrightarrow> ucast (word_of_int k :: 'a::len word) = (word_of_int k :: 'b::len word)"
  by (rule bit_word_eqI) (auto simp: bit_simps)

lemma irReadS32_iff:
  "irReadS32 bs = Inr (y, rest) \<longleftrightarrow>
     (\<exists>used. bs = used @ rest \<and> leb_framed used \<and> length used \<le> 6 \<and> y = word_of_int (sleb_int used))"
proof -
  have "irReadS32 bs = Inr (y, rest) \<longleftrightarrow> (\<exists>v. irReadSN 32 bs = Inr (v, rest) \<and> y = ucast v)"
    by (auto simp: irReadS32_def pbind_eq split: sum.splits)
  also have "\<dots> \<longleftrightarrow> (\<exists>used. bs = used @ rest \<and> leb_framed used \<and> 7 * (length used - 1) \<le> 32 + 7 \<and> y = ucast (word_of_int (sleb_int used) :: i64))"
    unfolding irReadSN_iff by blast
  also have "\<dots> \<longleftrightarrow> (\<exists>used. bs = used @ rest \<and> leb_framed used \<and> length used \<le> 6 \<and> y = word_of_int (sleb_int used))"
    by (intro ex_cong1) (auto simp: ucast_word_of_int)
  finally show ?thesis .
qed

lemma irReadS32_long:
  assumes "readS32 bs = Inr (y, rest)" and "\<not> length bs \<le> length rest + 6"
  shows "\<exists>e. irReadS32 bs = Inl e"
proof (cases "irReadS32 bs")
  case (Inr yr)
  then obtain y' rest' used where u: "bs = used @ rest'" "leb_framed used" "length used \<le> 6"
    using irReadS32_iff [of bs "fst yr" "snd yr"] by auto
  obtain used' where u': "bs = used' @ rest" "leb_framed used'" using assms(1) by (auto simp: readS32_iff)
  have "used = used'" by (rule leb_framed_unique [OF u(2) u'(2), of rest' rest]) (use u(1) u'(1) in simp)
  then show ?thesis using u(3) u'(1) assms(2) by simp
qed simp

text \<open>What lies beyond: a sequence is determined by what it leaves, so a reader that does not take it takes none.\<close>

lemma beyondI:
  assumes "\<And>x. p bs = Inr (x, rest) \<longleftrightarrow> (\<exists>used. bs = used @ rest \<and> leb_framed used \<and> P used x)"
    and "\<And>x. q bs = Inr (x, rest) \<longleftrightarrow> (\<exists>used. bs = used @ rest \<and> leb_framed used \<and> Q used x)"
  shows "p bs = Inr (x, rest) \<and> q bs \<noteq> Inr (x, rest) \<longleftrightarrow> (\<exists>used. bs = used @ rest \<and> leb_framed used \<and> P used x \<and> \<not> Q used x)"
  unfolding assms by auto

lemma irReadU64_beyond:
  "irReadU64 bs = Inr (u, rest) \<and> readU64 bs \<noteq> Inr (u, rest) \<longleftrightarrow>
     (\<exists>used. bs = used @ rest \<and> leb_framed used \<and> length used = 10 \<and> 2 ^ 64 \<le> uleb_nat used \<and> unat u = uleb_nat used mod 2 ^ 64)"
proof -
  have "irReadU64 bs = Inr (u, rest) \<and> readU64 bs \<noteq> Inr (u, rest) \<longleftrightarrow>
      (\<exists>used. bs = used @ rest \<and> leb_framed used \<and> (length used \<le> 10 \<and> u = word_of_nat (uleb_nat used)) \<and>
        \<not> (length used \<le> 10 \<and> uleb_nat used < 2 ^ 64 \<and> unat u = uleb_nat used))"
    by (rule beyondI) (simp_all only: irReadU64_iff readU64_iff)
  also have "\<dots> \<longleftrightarrow> (\<exists>used. bs = used @ rest \<and> leb_framed used \<and> length used = 10 \<and> 2 ^ 64 \<le> uleb_nat used \<and> unat u = uleb_nat used mod 2 ^ 64)"
  proof (rule ex_cong1, rule conj_cong [OF refl], rule conj_cong [OF refl])
    fix used :: "byte list"
    have ten: "length used = 10" if "length used \<le> 10" "\<not> uleb_nat used < 2 ^ 64"
    proof (rule ccontr)
      assume "length used \<noteq> 10"
      then have "uleb_nat used < 2 ^ (7 * 9)"
        by (intro less_le_trans [OF uleb_nat_bound] power_increasing) (use that(1) in simp_all)
      then show False using that(2) by simp
    qed
    have val: "u = word_of_nat (uleb_nat used) \<longleftrightarrow> unat u = uleb_nat used mod 2 ^ 64" by (simp add: word_unat_eq_iff unat_of_nat)
    show "((length used \<le> 10 \<and> u = word_of_nat (uleb_nat used)) \<and> \<not> (length used \<le> 10 \<and> uleb_nat used < 2 ^ 64 \<and> unat u = uleb_nat used)) =
        (length used = 10 \<and> 2 ^ 64 \<le> uleb_nat used \<and> unat u = uleb_nat used mod 2 ^ 64)"
      unfolding val using ten by (cases "uleb_nat used < 2 ^ 64") (auto simp: not_less)
  qed
  finally show ?thesis .
qed

lemma u32_fits: "\<not> w > 0xffffffff \<and> v = ucast w \<longleftrightarrow> w = ucast (v :: u32)" for w :: u64
proof -
  have small: "\<not> w > 0xffffffff \<longleftrightarrow> unat w < 2 ^ 32" by (auto simp: word_less_nat_alt not_less)
  show ?thesis unfolding small using unat_lt [of v]
    by (auto simp: word_unat_eq_iff unat_ucast_up unat_ucast_small)
qed

lemma irReadU32_beyond:
  "irReadU32 bs = Inr (v, rest) \<and> readU32 bs \<noteq> Inr (v, rest) \<longleftrightarrow>
     (\<exists>used. bs = used @ rest \<and> leb_framed used \<and> length used = 10 \<and> 2 ^ 64 \<le> uleb_nat used \<and> unat v = uleb_nat used mod 2 ^ 64)"
proof -
  have "irReadU32 bs = Inr (v, rest) \<longleftrightarrow> (\<exists>w. irReadU64 bs = Inr (w, rest) \<and> \<not> w > 0xffffffff \<and> v = ucast w)"
    by (auto simp: irReadU32_def pbind_eq pguard_def split: sum.splits if_splits)
  then have ir: "irReadU32 bs = Inr (v, rest) \<longleftrightarrow> irReadU64 bs = Inr (ucast v, rest)" unfolding u32_fits by simp
  have rd: "readU32 bs = Inr (v, rest) \<longleftrightarrow> readU64 bs = Inr (ucast v, rest)"
  proof -
    have "n < 2 ^ 32 \<and> unat v = n \<longleftrightarrow> n < 2 ^ 64 \<and> unat (ucast v :: u64) = n" for n
      using unat_lt [of v] by (auto simp: unat_ucast_up)
    then show ?thesis unfolding readU32_iff readU64_iff by simp
  qed
  show ?thesis unfolding ir rd irReadU64_beyond by (simp add: unat_ucast_up)
qed

lemma irReadS64_beyond:
  "irReadS64 bs = Inr (x, rest) \<and> readS64 bs \<noteq> Inr (x, rest) \<longleftrightarrow>
     (\<exists>used. bs = used @ rest \<and> leb_framed used \<and> length used \<le> 11 \<and> (length used = 11 \<or> \<not> in_range 64 (sleb_int used)) \<and>
        x = word_of_int (sleb_int used))"
proof -
  have "irReadS64 bs = Inr (x, rest) \<and> readS64 bs \<noteq> Inr (x, rest) \<longleftrightarrow>
      (\<exists>used. bs = used @ rest \<and> leb_framed used \<and> (7 * (length used - 1) \<le> 64 + 7 \<and> x = word_of_int (sleb_int used)) \<and>
        \<not> (length used \<le> 10 \<and> in_range 64 (sleb_int used) \<and> sint x = sleb_int used))"
    by (rule beyondI) (simp_all only: irReadS64_def irReadSN_iff readS64_iff)
  also have "\<dots> \<longleftrightarrow> (\<exists>used. bs = used @ rest \<and> leb_framed used \<and> length used \<le> 11 \<and> (length used = 11 \<or> \<not> in_range 64 (sleb_int used)) \<and>
        x = word_of_int (sleb_int used))"
    by (intro ex_cong1) (auto simp: sint_in_range)
  finally show ?thesis .
qed

lemma irReadS32_beyond:
  "irReadS32 bs = Inr (y, rest) \<and> readS32 bs \<noteq> Inr (y, rest) \<longleftrightarrow>
     (\<exists>used. bs = used @ rest \<and> leb_framed used \<and> length used \<le> 6 \<and> \<not> in_range 32 (sleb_int used) \<and>
        y = word_of_int (sleb_int used))"
proof -
  have "irReadS32 bs = Inr (y, rest) \<and> readS32 bs \<noteq> Inr (y, rest) \<longleftrightarrow>
      (\<exists>used. bs = used @ rest \<and> leb_framed used \<and> (length used \<le> 6 \<and> y = word_of_int (sleb_int used)) \<and>
        \<not> (length used \<le> 10 \<and> in_range 32 (sleb_int used) \<and> sint y = sleb_int used))"
    by (rule beyondI) (simp_all only: irReadS32_iff readS32_iff)
  also have "\<dots> \<longleftrightarrow> (\<exists>used. bs = used @ rest \<and> leb_framed used \<and> length used \<le> 6 \<and> \<not> in_range 32 (sleb_int used) \<and> y = word_of_int (sleb_int used))"
    by (intro ex_cong1) (auto simp: sint_in_range)
  finally show ?thesis .
qed

lemma irReadU64_writeULEB: "irReadU64 (writeULEB v @ rest) = Inr (v, rest)"
  by (rule irReadU64_strict [OF readU64_writeULEB])

lemma irReadU32_encU32: "irReadU32 (encU32 v @ rest) = Inr (v, rest)"
  by (rule irReadU32_strict [OF readU32_encU32])

lemma irReadS64_writeSLEB: "irReadS64 (writeSLEB v @ rest) = Inr (v, rest)"
  by (rule irReadS64_strict [OF readS64_writeSLEB])

lemma irReadSN_writeSLEB:
  assumes "in_range 35 (sint v)" and "32 \<le> bits"
  shows "irReadSN bits (writeSLEB v @ rest) = Inr (v, rest)"
proof -
  have "length (writeSLEB v) \<le> 5" using writeSLEB_length [of 5 v] assms(1) by simp
  then show ?thesis
    unfolding irReadSN_iff
    using writeSLEB_value [of v] word_of_sleb [of v] assms(2)
    by (intro exI [of _ "writeSLEB v"]) simp
qed

lemma irReadS32_encS32: "irReadS32 (encS32 v @ rest) = Inr (v, rest)"
proof -
  have "in_range 35 (sint (scast v :: i64))"
    using in_range_mono [OF in_range_sint32 [of v], of 35] by (simp add: sint_scast_64)
  moreover have "ucast (scast v :: i64) = v" by (rule bit_word_eqI) (simp add: bit_simps)
  ultimately show ?thesis
    by (simp add: irReadS32_def encS32_def pbind_eq irReadSN_writeSLEB)
qed

lemma irReadS33_writeSLEB:
  "in_range 33 (sint v) \<Longrightarrow> irReadS33 (writeSLEB v @ rest) = Inr (v, rest)"
  by (simp add: irReadS33_def irReadSN_writeSLEB in_range_mono)

interpretation ir_u32_codec: codec "\<lambda>_. irReadU32" encU32 "\<lambda>_. True"
  by unfold_locales (simp_all add: prefix_irReadU32 irReadU32_encU32)

interpretation ir_byte_codec: codec "\<lambda>_. irReadByte" "\<lambda>b. [b]" "\<lambda>_. True"
  by unfold_locales (simp_all add: prefix_irReadByte)

section \<open>The immediates of the instruction set\<close>

text \<open>
  The specification of \<^verbatim>\<open>SkipImmediates\<close>: the immediate operands the binary format gives
  each opcode, as a sequence of atoms with their encodings.
\<close>

datatype atom = AU32 u32 | AU64 u64 | AByte byte | AS32 i32 | AS33 i64 | AS64 i64 | AF32 u32 | AF64 u64

fun enc_atom :: "atom \<Rightarrow> byte list" where
  "enc_atom (AU32 v) = encU32 v"
| "enc_atom (AU64 v) = writeULEB v"
| "enc_atom (AByte b) = [b]"
| "enc_atom (AS32 v) = encS32 v"
| "enc_atom (AS33 v) = writeSLEB v"
| "enc_atom (AS64 v) = writeSLEB v"
| "enc_atom (AF32 w) = le_bytes 4 w"
| "enc_atom (AF64 w) = le_bytes 8 w"

definition enc_atoms :: "atom list \<Rightarrow> byte list" where
  "enc_atoms as = concat (map enc_atom as)"

inductive imm_atoms :: "byte \<Rightarrow> atom list \<Rightarrow> bool" where
  index: "opc \<in> {0x0c, 0x0d, 0x10, 0x20, 0x21, 0x22, 0x23, 0x24, 0x07, 0x08, 0x09, 0x18, 0xd2} \<Longrightarrow>
    imm_atoms opc [AU32 x]"
| reserved: "opc \<in> {0x3f, 0x40, 0xd0} \<Longrightarrow> imm_atoms opc [AByte b]"
| call_indirect: "imm_atoms 0x11 [AU32 ty, AU32 tab]"
| br_table: "length ls < 2 ^ 32 \<Longrightarrow>
    imm_atoms 0x0e (AU32 (word_of_nat (length ls)) # map AU32 ls @ [AU32 d])"
| block: "opc \<in> {0x02, 0x03, 0x04, 0x06} \<Longrightarrow> in_range 33 (sint t) \<Longrightarrow> imm_atoms opc [AS33 t]"
| select_t: "length ts < 2 ^ 32 \<Longrightarrow> imm_atoms 0x1c (AU32 (word_of_nat (length ts)) # map AByte ts)"
| none: "opc \<in> {0x00, 0x01, 0x05, 0x0b, 0x0f, 0x1a, 0x1b, 0x19} \<Longrightarrow> imm_atoms opc []"
| i32_const: "imm_atoms 0x41 [AS32 v]"
| i64_const: "imm_atoms 0x42 [AS64 w]"
| f32_const: "imm_atoms 0x43 [AF32 f]"
| f64_const: "imm_atoms 0x44 [AF64 g]"
| memory: "0x28 \<le> opc \<Longrightarrow> opc \<le> 0x3e \<Longrightarrow> imm_atoms opc [AU32 al, AU64 off]"
| numeric: "0x45 \<le> opc \<Longrightarrow> opc \<le> 0xc4 \<Longrightarrow> imm_atoms opc []"
| trunc_sat: "sub \<le> 7 \<Longrightarrow> imm_atoms 0xfc [AU32 sub]"
| memory_init: "imm_atoms 0xfc [AU32 8, AU32 seg, AByte 0]"
| data_drop: "imm_atoms 0xfc [AU32 9, AU32 seg]"
| memory_copy: "imm_atoms 0xfc [AU32 10, AByte 0, AByte 0]"
| memory_fill: "imm_atoms 0xfc [AU32 11, AByte 0]"
| table_op2: "sub \<in> {12, 14} \<Longrightarrow> imm_atoms 0xfc [AU32 sub, AU32 x, AU32 y]"
| table_op1: "sub \<in> {13, 15, 16, 17} \<Longrightarrow> imm_atoms 0xfc [AU32 sub, AU32 x]"
| fence: "imm_atoms 0xfe [AU32 3, AByte 0]"
| atomic: "sub \<le> 0x4e \<Longrightarrow> sub \<noteq> 3 \<Longrightarrow> imm_atoms 0xfe [AU32 sub, AU32 al, AU64 off]"
| simd_mem: "sub \<le> 0x0b \<or> sub = 0x5c \<or> sub = 0x5d \<Longrightarrow> imm_atoms 0xfd [AU32 sub, AU32 al, AU64 off]"
| simd_const: "sub = 0x0c \<or> sub = 0x0d \<Longrightarrow> length bs = 16 \<Longrightarrow>
    imm_atoms 0xfd (AU32 sub # map AByte bs)"
| simd_lane: "0x15 \<le> sub \<Longrightarrow> sub \<le> 0x22 \<Longrightarrow> imm_atoms 0xfd [AU32 sub, AByte l]"
| simd_mem_lane: "0x54 \<le> sub \<Longrightarrow> sub \<le> 0x5b \<Longrightarrow>
    imm_atoms 0xfd [AU32 sub, AU32 al, AU64 off, AByte l]"
| simd_plain: "0x0e \<le> sub \<Longrightarrow> sub \<le> 0xff \<Longrightarrow> \<not> (0x15 \<le> sub \<and> sub \<le> 0x22) \<Longrightarrow>
    \<not> (0x54 \<le> sub \<and> sub \<le> 0x5d) \<Longrightarrow> imm_atoms 0xfd [AU32 sub]"

lemma irReadVecU32_enc:
  "length ls < 2 ^ 32 \<Longrightarrow>
   irReadVecU32 (encU32 (word_of_nat (length ls)) @ concat (map encU32 ls) @ rest) = Inr (ls, rest)"
  using ir_u32_codec.readVec_roundtrip [of ls 0 rest]
  by (simp add: irReadVecU32_def pbind_eq irReadU32_encU32 unat_word_of_length)

lemma read_bytes_enc: "readVec (\<lambda>_. irReadByte) 0 (length ts) (ts @ rest) = Inr (ts, rest)"
  using ir_byte_codec.readVec_roundtrip [of ts 0 rest] by simp

lemma irReadF_enc:
  "irReadF32 (le_bytes 4 w @ rest) = Inr (w, rest)" "irReadF64 (le_bytes 8 x @ rest) = Inr (x, rest)"
  by (simp_all add: irReadF32_def irReadF64_def le_word_le_bytes)

lemmas skip_run = discard_def pbind_eq irReadU32_encU32 irReadU64_writeULEB irReadS64_writeSLEB
  irReadS32_encS32 irReadS33_writeSLEB irReadF_enc irReadVecU32_enc read_bytes_enc

lemmas prefix_opcodes = OpPrefixFE_def OpPrefixFD_def OpPrefixFC_def

lemma skip_index:
  "opc \<in> {0x0c, 0x0d, 0x10, 0x20, 0x21, 0x22, 0x23, 0x24, 0x07, 0x08, 0x09, 0x18, 0xd2} \<Longrightarrow>
   SkipImmediates opc = discard irReadU32"
  by (elim insertE) (simp_all add: SkipImmediates_def prefix_opcodes u32Ops_def)

lemma skip_reserved: "opc \<in> {0x3f, 0x40, 0xd0} \<Longrightarrow> SkipImmediates opc = discard irReadByte"
  by (elim insertE) (simp_all add: SkipImmediates_def prefix_opcodes u32Ops_def plainOps_def)

lemma skip_block: "opc \<in> {0x02, 0x03, 0x04, 0x06} \<Longrightarrow> SkipImmediates opc = discard irReadS33"
  by (elim insertE) (simp_all add: SkipImmediates_def prefix_opcodes u32Ops_def plainOps_def)

lemma skip_none:
  "opc \<in> {0x00, 0x01, 0x05, 0x0b, 0x0f, 0x1a, 0x1b, 0x19} \<Longrightarrow> SkipImmediates opc = pret ()"
  by (elim insertE) (simp_all add: SkipImmediates_def prefix_opcodes u32Ops_def plainOps_def)

lemma skip_constants:
  "SkipImmediates 0x11 = pbind irReadU32 (\<lambda>_. discard irReadU32)"
  "SkipImmediates 0x0e = pbind irReadVecU32 (\<lambda>_. discard irReadU32)"
  "SkipImmediates 0x1c = pbind irReadU32 (\<lambda>n. discard (readVec (\<lambda>_. irReadByte) 0 (unat n)))"
  "SkipImmediates 0x41 = discard irReadS32" "SkipImmediates 0x42 = discard irReadS64"
  "SkipImmediates 0x43 = discard irReadF32" "SkipImmediates 0x44 = discard irReadF64"
  "SkipImmediates 0xfc = skipFC" "SkipImmediates 0xfd = skipFD" "SkipImmediates 0xfe = skipFE"
  by (simp_all add: SkipImmediates_def prefix_opcodes u32Ops_def plainOps_def)

lemma skip_ranges:
  shows "0x28 \<le> opc \<Longrightarrow> opc \<le> 0x3e \<Longrightarrow> SkipImmediates opc = skipMemarg"
    and "0x45 \<le> opc \<Longrightarrow> opc \<le> 0xc4 \<Longrightarrow> SkipImmediates opc = pret ()"
  by (auto simp: SkipImmediates_def prefix_opcodes u32Ops_def plainOps_def word_le_nat_alt)

lemmas skip_dispatch = skip_index skip_reserved skip_block skip_none skip_constants skip_ranges

lemma skip_prefixed:
  assumes "imm_atoms opc as" and "opc \<in> {0xfc, 0xfd, 0xfe}"
  shows "SkipImmediates opc (enc_atoms as @ rest) = Inr ((), rest)"
  using assms(1)
proof cases
  case (simd_const sub bs)
  then show ?thesis
    using read_bytes_enc [of bs rest]
    by (auto simp: enc_atoms_def skip_run skip_constants skipFD_def o_def)
qed (use assms(2) in \<open>auto simp: enc_atoms_def skip_run skip_constants skipFC_def skipFD_def
    skipFE_def skipMemarg_def word_le_nat_alt\<close>)

text \<open>
  C4: \<^verbatim>\<open>SkipImmediates\<close> consumes exactly the immediates the binary format gives an opcode,
  whatever follows: for every opcode the module supports, with any operand values, it stops at the
  first byte of the next instruction.
\<close>

theorem SkipImmediates_exact:
  assumes "imm_atoms opc as"
  shows "SkipImmediates opc (enc_atoms as @ rest) = Inr ((), rest)"
proof (cases "opc \<in> {0xfc, 0xfd, 0xfe}")
  case True
  then show ?thesis by (rule skip_prefixed [OF assms])
next
  case False
  show ?thesis
    using assms
  proof cases
    case (br_table ls d)
    then show ?thesis by (simp add: skip_dispatch enc_atoms_def skip_run o_def)
  next
    case (select_t ts)
    then show ?thesis by (simp add: skip_dispatch enc_atoms_def skip_run o_def unat_word_of_length)
  qed (use False in \<open>simp_all add: skip_dispatch enc_atoms_def skip_run skipMemarg_def\<close>)
qed

theorem SkipImmediates_exact_witness:
  "SkipImmediates 0x0e (enc_atoms [AU32 2, AU32 7, AU32 9, AU32 0] @ [0x0b]) = Inr ((), [0x0b])"
  by (rule SkipImmediates_exact) (use imm_atoms.br_table [of "[7, 9]" 0] in simp)

lemma prefix_SkipImmediates: "prefix_reader (SkipImmediates opc)"
  unfolding SkipImmediates_def skipFC_def skipFD_def skipFE_def skipMemarg_def discard_def
    irReadVecU32_def irReadS32_def irReadS33_def irReadS64_def
  by (intro prefix_intros)

lemma on_reader_advances:
  assumes "prefix_reader p" and "on_reader p r = Inr (x, r')" and "ir_pos r \<le> length (ir_src r)"
  shows "ir_src r' = ir_src r \<and> ir_pos r \<le> ir_pos r' \<and> ir_pos r' \<le> length (ir_src r)"
proof -
  obtain rest where p: "p (drop (ir_pos r) (ir_src r)) = Inr (x, rest)"
    and r': "r' = r\<lparr>ir_pos := length (ir_src r) - length rest\<rparr>"
    using assms(2) by (auto simp: on_reader_def)
  obtain used where "drop (ir_pos r) (ir_src r) = used @ rest"
    using assms(1) p by (rule prefix_readerE) blast
  then have "length (ir_src r) - ir_pos r = length used + length rest"
    by (metis length_append length_drop)
  then show ?thesis using r' assms(3) by simp
qed

text \<open>
  C10: On the struct, skipping an instruction's immediates never leaves the instruction bytes and
  never moves backwards, and the position after the skip depends only on the bytes before it: the
  same bytes with any continuation are skipped the same way.
\<close>

theorem SkipImmediates_position:
  assumes "on_reader (SkipImmediates opc) r = Inr ((), r')" and "ir_pos r \<le> length (ir_src r)"
  shows "ir_src r' = ir_src r \<and> ir_pos r \<le> ir_pos r' \<and> ir_pos r' \<le> length (ir_src r) \<and>
    SkipImmediates opc (take (ir_pos r' - ir_pos r) (drop (ir_pos r) (ir_src r)) @ other) = Inr ((), other)"
proof -
  note adv = on_reader_advances [OF prefix_SkipImmediates assms]
  obtain rest where p: "SkipImmediates opc (drop (ir_pos r) (ir_src r)) = Inr ((), rest)"
    and r': "r' = r\<lparr>ir_pos := length (ir_src r) - length rest\<rparr>"
    using assms(1) by (auto simp: on_reader_def)
  obtain used where used: "drop (ir_pos r) (ir_src r) = used @ rest"
    and run: "\<And>rest'. SkipImmediates opc (used @ rest') = Inr ((), rest')"
    using prefix_SkipImmediates p by (rule prefix_readerE) blast
  have "length (ir_src r) - ir_pos r = length used + length rest"
    using used by (metis length_append length_drop)
  then have "ir_pos r' - ir_pos r = length used" using r' assms(2) by simp
  then show ?thesis using adv run by (simp add: used)
qed

theorem SkipImmediates_position_witness:
  "SkipImmediates 0x28 (take 2 (drop 1 [0x28, 0x02, 0x08, 0x0b]) @ [0x6a]) = Inr ((), [0x6a])"
proof -
  have run: "on_reader (SkipImmediates 0x28) \<lparr>ir_src = [0x28, 0x02, 0x08, 0x0b], ir_pos = 1\<rparr> =
      Inr ((), \<lparr>ir_src = [0x28, 0x02, 0x08, 0x0b], ir_pos = 3\<rparr>)"
    by code_simp
  show ?thesis using SkipImmediates_position [OF run, of "[0x6a]"] by simp
qed

text \<open>
  C11: The instruction readers decode exactly the framed LEB128 sequences within their length
  limits, to the value of the sequence modulo 2 to the 64: nothing that does not fit in 64 bits
  is rejected, unlike the module-level readers.
\<close>

theorem instr_leb_exact:
  "(irReadU64 bs = Inr (u, rest) \<longleftrightarrow>
     (\<exists>used. bs = used @ rest \<and> leb_framed used \<and> length used \<le> 10 \<and>
        u = word_of_nat (uleb_nat used))) \<and>
   (irReadSN bits bs = Inr (v, rest) \<longleftrightarrow>
     (\<exists>used. bs = used @ rest \<and> leb_framed used \<and> 7 * (length used - 1) \<le> bits + 7 \<and>
        v = word_of_int (sleb_int used)))"
  by (intro conjI irReadU64_iff irReadSN_iff)

text \<open>
  C12: Wherever the module-level readers accept a value, the instruction readers return the same
  value and stop at the same byte, except that \<^verbatim>\<open>ReadS32\<close> rejects the encodings of seven to ten bytes that
  the module-level reader accepts.
\<close>

theorem instr_leb_agrees:
  "(readU64 bs = Inr (u, rest) \<longrightarrow> irReadU64 bs = Inr (u, rest)) \<and>
   (readU32 bs = Inr (v, rest) \<longrightarrow> irReadU32 bs = Inr (v, rest)) \<and>
   (readS64 bs = Inr (x, rest) \<longrightarrow> irReadS64 bs = Inr (x, rest)) \<and>
   (readS32 bs = Inr (y, rest) \<longrightarrow>
      (if length bs \<le> length rest + 6 then irReadS32 bs = Inr (y, rest) else \<exists>e. irReadS32 bs = Inl e))"
proof -
  have "if length bs \<le> length rest + 6 then irReadS32 bs = Inr (y, rest) else \<exists>e. irReadS32 bs = Inl e" if "readS32 bs = Inr (y, rest)"
    using irReadS32_strict [OF that] irReadS32_long [OF that] by simp
  then show ?thesis using irReadU64_strict irReadU32_strict irReadS64_strict by blast
qed

theorem instr_leb_agrees_witness:
  "irReadU64 [0xe5, 0x8e, 0x26, 1] = Inr (624485, [1]) \<and> irReadS32 [0xc0, 0xbb, 0x78] = Inr (- 123456, []) \<and>
   (\<exists>e. irReadS32 [0x80, 0x80, 0x80, 0x80, 0x80, 0x80, 0] = Inl e)"
proof -
  have "readU64 [0xe5, 0x8e, 0x26, 1] = Inr (624485, [1])"
    and "readS32 [0xc0, 0xbb, 0x78] = Inr (- 123456, [])"
    and "readS32 [0x80, 0x80, 0x80, 0x80, 0x80, 0x80, 0] = Inr (0, [])"
    by code_simp+
  then show ?thesis
    using instr_leb_agrees [of "[0xe5, 0x8e, 0x26, 1]" 624485 "[1]"]
      instr_leb_agrees [of "[0xc0, 0xbb, 0x78]" _ "[]" _ _ "- 123456"]
      instr_leb_agrees [of "[0x80, 0x80, 0x80, 0x80, 0x80, 0x80, 0]" _ "[]" _ _ 0]
    by simp
qed

text \<open>
  C13: What the instruction readers accept beyond the module-level readers: the unsigned reader
  exactly the sequences of ten bytes whose value does not fit in 64 bits, which it truncates (the 32-bit
  form those whose truncation fits); the signed readers exactly the sequences within their length limits
  whose value does not fit, which they truncate, and for 64 bits the sequences of eleven bytes.
\<close>

theorem instr_leb_accepts_overflow:
  "(irReadU64 bs = Inr (u, rest) \<and> readU64 bs \<noteq> Inr (u, rest) \<longleftrightarrow>
     (\<exists>used. bs = used @ rest \<and> leb_framed used \<and> length used = 10 \<and> 2 ^ 64 \<le> uleb_nat used \<and>
        unat u = uleb_nat used mod 2 ^ 64)) \<and>
   (irReadU32 bs = Inr (v, rest) \<and> readU32 bs \<noteq> Inr (v, rest) \<longleftrightarrow>
     (\<exists>used. bs = used @ rest \<and> leb_framed used \<and> length used = 10 \<and> 2 ^ 64 \<le> uleb_nat used \<and>
        unat v = uleb_nat used mod 2 ^ 64)) \<and>
   (irReadS64 bs = Inr (x, rest) \<and> readS64 bs \<noteq> Inr (x, rest) \<longleftrightarrow>
     (\<exists>used. bs = used @ rest \<and> leb_framed used \<and> length used \<le> 11 \<and> (length used = 11 \<or> \<not> in_range 64 (sleb_int used)) \<and>
        x = word_of_int (sleb_int used))) \<and>
   (irReadS32 bs = Inr (y, rest) \<and> readS32 bs \<noteq> Inr (y, rest) \<longleftrightarrow>
     (\<exists>used. bs = used @ rest \<and> leb_framed used \<and> length used \<le> 6 \<and> \<not> in_range 32 (sleb_int used) \<and>
        y = word_of_int (sleb_int used)))"
  by (intro conjI irReadU64_beyond irReadU32_beyond irReadS64_beyond irReadS32_beyond)

theorem instr_leb_accepts_overflow_witness:
  "irReadU32 [0x85, 0x80, 0x80, 0x80, 0x80, 0x80, 0x80, 0x80, 0x80, 0x02] = Inr (5, []) \<and>
   readU32 [0x85, 0x80, 0x80, 0x80, 0x80, 0x80, 0x80, 0x80, 0x80, 0x02] \<noteq> Inr (5, []) \<and>
   irReadS32 [0x80, 0x80, 0x80, 0x80, 0x10] = Inr (0, []) \<and> readS32 [0x80, 0x80, 0x80, 0x80, 0x10] \<noteq> Inr (0, [])"
proof -
  let ?u = "[0x85, 0x80, 0x80, 0x80, 0x80, 0x80, 0x80, 0x80, 0x80, 0x02] :: byte list"
  let ?s = "[0x80, 0x80, 0x80, 0x80, 0x10] :: byte list"
  have u: "leb_framed ?u" "uleb_nat ?u = 2 ^ 64 + 5" "length ?u = 10" and s: "leb_framed ?s" "sleb_int ?s = 2 ^ 32" "length ?s = 5"
    by (simp_all add: sleb_int.simps)
  have 1: "\<exists>used. ?u = used @ [] \<and> leb_framed used \<and> length used = 10 \<and> 2 ^ 64 \<le> uleb_nat used \<and>
      unat (5 :: u32) = uleb_nat used mod 2 ^ 64"
  proof (intro exI conjI)
    show "?u = ?u @ []" by simp
    show "2 ^ 64 \<le> uleb_nat ?u" "unat (5 :: u32) = uleb_nat ?u mod 2 ^ 64" unfolding u(2) by simp_all
  qed (rule u)+
  have 2: "\<exists>used. ?s = used @ [] \<and> leb_framed used \<and> length used \<le> 6 \<and> \<not> in_range 32 (sleb_int used) \<and>
      (0 :: i32) = word_of_int (sleb_int used)"
  proof (intro exI conjI)
    show "?s = ?s @ []" "length ?s \<le> 6" by simp_all
    show "\<not> in_range 32 (sleb_int ?s)" unfolding s(2) by (simp add: in_range_def)
    show "(0 :: i32) = word_of_int (sleb_int ?s)" unfolding s(2) by simp
  qed (rule s)
  have "irReadU32 ?u = Inr (5, []) \<and> readU32 ?u \<noteq> Inr (5, [])"
    by (rule instr_leb_accepts_overflow [where v = 5 and rest = "[]", THEN conjunct2, THEN conjunct1, THEN iffD2, OF 1])
  moreover have "irReadS32 ?s = Inr (0, []) \<and> readS32 ?s \<noteq> Inr (0, [])"
    by (rule instr_leb_accepts_overflow [where y = 0 and rest = "[]", THEN conjunct2, THEN conjunct2, THEN conjunct2, THEN iffD2, OF 2])
  ultimately show ?thesis by (simp only: simp_thms)
qed

end
