(* ===== verification/SsaCore.thy ===== *)
theory SsaCore
  imports Prelude
begin

text \<open>
  The SSA form of \<^verbatim>\<open>internal/ssa\<close>: operations and their classification
  (\<^verbatim>\<open>op.go\<close>), types (\<^verbatim>\<open>type.go\<close>), values, blocks, edges and
  functions (\<^verbatim>\<open>ssa.go\<close>), the builder (\<^verbatim>\<open>builder.go\<close>) and
  \<^verbatim>\<open>compact.go\<close>. Values and blocks are referenced by pointer in Go; here they live in
  two stores of the function, indexed by their ids, which are unique and never reused, and a
  pointer is an id, a possibly-nil one an optional id.
\<close>

section \<open>Operations\<close>

datatype (plugins only:) Op =
  OpInvalid | OpCopy | OpPhi | OpParam | OpConst32 | OpConst64 | OpConstF32 | OpConstF64 |
  OpAdd32 | OpAdd64 | OpSub32 | OpSub64 | OpMul32 | OpMul64 | OpDivS32 | OpDivS64 | OpDivU32 |
  OpDivU64 | OpRemS32 | OpRemS64 | OpRemU32 | OpRemU64 | OpAnd32 | OpAnd64 | OpOr32 | OpOr64 |
  OpXor32 | OpXor64 | OpShl32 | OpShl64 | OpShrS32 | OpShrS64 | OpShrU32 | OpShrU64 | OpEq32 |
  OpEq64 | OpNe32 | OpNe64 | OpLtS32 | OpLtS64 | OpLtU32 | OpLtU64 | OpLeS32 | OpLeS64 |
  OpLeU32 | OpLeU64 | OpAddF32 | OpAddF64 | OpSubF32 | OpSubF64 | OpMulF32 | OpMulF64 |
  OpDivF32 | OpDivF64 | OpExtend32To64S | OpExtend32To64U | OpTrunc64To32 | OpLoad8U |
  OpLoad8S | OpLoad16U | OpLoad16S | OpLoad32 | OpLoad32U | OpLoad32S | OpLoad64 | OpLoadF32 |
  OpLoadF64 | OpStore8 | OpStore16 | OpStore32 | OpStore64 | OpStoreF32 | OpStoreF64 |
  OpGlobalGet | OpGlobalSet | OpLocalGet | OpLocalSet | OpCallDirect | OpCallIndirect |
  OpCallImport | OpSelect | OpUnreachable | OpHelperCall | OpAtomicCall | OpMemSize |
  OpMemGrow | OpMemoryCopy | OpMemoryFill | OpMemoryInit | OpDataDrop | OpCatchArg |
  OpExcPending | OpExcTag | OpExcVal | OpExcRaise | OpExcRearm | OpExcClear | OpSimdConst |
  OpSimdCall | OpSimdMemCall

definition opNames :: "(Op \<times> string) list" where
  "opNames =
    [(OpInvalid, ''OpInvalid''), (OpCopy, ''OpCopy''), (OpPhi, ''OpPhi''),
     (OpParam, ''OpParam''), (OpConst32, ''OpConst32''), (OpConst64, ''OpConst64''),
     (OpConstF32, ''OpConstF32''), (OpConstF64, ''OpConstF64''), (OpAdd32, ''OpAdd32''),
     (OpAdd64, ''OpAdd64''), (OpSub32, ''OpSub32''), (OpSub64, ''OpSub64''),
     (OpMul32, ''OpMul32''), (OpMul64, ''OpMul64''), (OpDivS32, ''OpDivS32''),
     (OpDivS64, ''OpDivS64''), (OpDivU32, ''OpDivU32''), (OpDivU64, ''OpDivU64''),
     (OpRemS32, ''OpRemS32''), (OpRemS64, ''OpRemS64''), (OpRemU32, ''OpRemU32''),
     (OpRemU64, ''OpRemU64''), (OpAnd32, ''OpAnd32''), (OpAnd64, ''OpAnd64''),
     (OpOr32, ''OpOr32''), (OpOr64, ''OpOr64''), (OpXor32, ''OpXor32''),
     (OpXor64, ''OpXor64''), (OpShl32, ''OpShl32''), (OpShl64, ''OpShl64''),
     (OpShrS32, ''OpShrS32''), (OpShrS64, ''OpShrS64''), (OpShrU32, ''OpShrU32''),
     (OpShrU64, ''OpShrU64''), (OpEq32, ''OpEq32''), (OpEq64, ''OpEq64''),
     (OpNe32, ''OpNe32''), (OpNe64, ''OpNe64''), (OpLtS32, ''OpLtS32''),
     (OpLtS64, ''OpLtS64''), (OpLtU32, ''OpLtU32''), (OpLtU64, ''OpLtU64''),
     (OpLeS32, ''OpLeS32''), (OpLeS64, ''OpLeS64''), (OpLeU32, ''OpLeU32''),
     (OpLeU64, ''OpLeU64''), (OpAddF32, ''OpAddF32''), (OpAddF64, ''OpAddF64''),
     (OpSubF32, ''OpSubF32''), (OpSubF64, ''OpSubF64''), (OpMulF32, ''OpMulF32''),
     (OpMulF64, ''OpMulF64''), (OpDivF32, ''OpDivF32''), (OpDivF64, ''OpDivF64''),
     (OpExtend32To64S, ''OpExtend32To64S''), (OpExtend32To64U, ''OpExtend32To64U''),
     (OpTrunc64To32, ''OpTrunc64To32''), (OpLoad8U, ''OpLoad8U''), (OpLoad8S, ''OpLoad8S''),
     (OpLoad16U, ''OpLoad16U''), (OpLoad16S, ''OpLoad16S''), (OpLoad32, ''OpLoad32''),
     (OpLoad32U, ''OpLoad32U''), (OpLoad32S, ''OpLoad32S''), (OpLoad64, ''OpLoad64''),
     (OpLoadF32, ''OpLoadF32''), (OpLoadF64, ''OpLoadF64''), (OpStore8, ''OpStore8''),
     (OpStore16, ''OpStore16''), (OpStore32, ''OpStore32''), (OpStore64, ''OpStore64''),
     (OpStoreF32, ''OpStoreF32''), (OpStoreF64, ''OpStoreF64''),
     (OpGlobalGet, ''OpGlobalGet''), (OpGlobalSet, ''OpGlobalSet''),
     (OpLocalGet, ''OpLocalGet''), (OpLocalSet, ''OpLocalSet''),
     (OpCallDirect, ''OpCallDirect''), (OpCallIndirect, ''OpCallIndirect''),
     (OpCallImport, ''OpCallImport''), (OpSelect, ''OpSelect''),
     (OpUnreachable, ''OpUnreachable''), (OpHelperCall, ''OpHelperCall''),
     (OpAtomicCall, ''OpAtomicCall''), (OpMemSize, ''OpMemSize''), (OpMemGrow, ''OpMemGrow''),
     (OpMemoryCopy, ''OpMemoryCopy''), (OpMemoryFill, ''OpMemoryFill''),
     (OpCatchArg, ''OpCatchArg''), (OpMemoryInit, ''OpMemoryInit''),
     (OpDataDrop, ''OpDataDrop''), (OpExcPending, ''OpExcPending''), (OpExcTag, ''OpExcTag''),
     (OpExcVal, ''OpExcVal''), (OpExcRaise, ''OpExcRaise''), (OpExcRearm, ''OpExcRearm''),
     (OpExcClear, ''OpExcClear''), (OpSimdConst, ''OpSimdConst''),
     (OpSimdCall, ''OpSimdCall''), (OpSimdMemCall, ''OpSimdMemCall'')]"

definition Op_String :: "Op \<Rightarrow> string" where
  "Op_String op = (case map_of opNames op of Some s \<Rightarrow> s | None \<Rightarrow> [])"

definition IsConstant :: "Op \<Rightarrow> bool" where
  "IsConstant op \<longleftrightarrow> op \<in>
    {OpConst32, OpConst64, OpConstF32, OpConstF64}"

definition IsCommutative :: "Op \<Rightarrow> bool" where
  "IsCommutative op \<longleftrightarrow> op \<in>
    {OpAdd32, OpAdd64, OpMul32, OpMul64, OpAnd32, OpAnd64, OpOr32, OpOr64, OpXor32, OpXor64,
     OpEq32, OpEq64, OpNe32, OpNe64, OpAddF32, OpAddF64, OpMulF32, OpMulF64}"

definition UsesAuxInt :: "Op \<Rightarrow> bool" where
  "UsesAuxInt op \<longleftrightarrow> op \<in>
    {OpConst32, OpConst64, OpConstF32, OpConstF64, OpParam, OpLoad8U, OpLoad8S, OpLoad16U,
     OpLoad16S, OpLoad32, OpLoad32U, OpLoad32S, OpLoad64, OpLoadF32, OpLoadF64, OpStore8,
     OpStore16, OpStore32, OpStore64, OpStoreF32, OpStoreF64, OpGlobalGet, OpGlobalSet,
     OpLocalGet, OpLocalSet, OpSelect, OpMemoryInit, OpDataDrop, OpCatchArg, OpExcVal}"

definition Op_HasSideEffect :: "Op \<Rightarrow> bool" where
  "Op_HasSideEffect op \<longleftrightarrow> op \<in>
    {OpStore8, OpStore16, OpStore32, OpStore64, OpStoreF32, OpStoreF64, OpGlobalSet,
     OpLocalSet, OpCallDirect, OpCallIndirect, OpCallImport, OpHelperCall, OpAtomicCall,
     OpSimdMemCall, OpExcRaise, OpExcRearm, OpExcClear, OpUnreachable, OpMemGrow, OpMemoryCopy,
     OpMemoryFill, OpMemoryInit, OpDataDrop}"

definition pureHelperNames :: "string set" where
  "pureHelperNames =
    {''i32_eqz'', ''i64_eqz'', ''i32_clz'', ''i32_ctz'', ''i32_popcnt'', ''i64_clz'',
     ''i64_ctz'', ''i64_popcnt'', ''i32_rotl'', ''i32_rotr'', ''i64_rotl'', ''i64_rotr'',
     ''f32_abs'', ''f32_neg'', ''f32_ceil'', ''f32_floor'', ''f32_trunc'', ''f32_nearest'',
     ''f32_sqrt'', ''f64_abs'', ''f64_neg'', ''f64_ceil'', ''f64_floor'', ''f64_trunc'',
     ''f64_nearest'', ''f64_sqrt'', ''f32_add'', ''f32_sub'', ''f32_mul'', ''f32_div'',
     ''f32_min'', ''f32_max'', ''f32_copysign'', ''f64_add'', ''f64_sub'', ''f64_mul'',
     ''f64_div'', ''f64_min'', ''f64_max'', ''f64_copysign'', ''f32_eq'', ''f32_ne'',
     ''f32_lt'', ''f32_gt'', ''f32_le'', ''f32_ge'', ''f64_eq'', ''f64_ne'', ''f64_lt'',
     ''f64_gt'', ''f64_le'', ''f64_ge'', ''i32_wrap_i64'', ''i64_extend_i32_s'',
     ''i64_extend_i32_u'', ''f32_convert_i32_s'', ''f32_convert_i32_u'', ''f32_convert_i64_s'',
     ''f32_convert_i64_u'', ''f32_demote_f64'', ''f64_convert_i32_s'', ''f64_convert_i32_u'',
     ''f64_convert_i64_s'', ''f64_convert_i64_u'', ''f64_promote_f32'',
     ''i32_reinterpret_f32'', ''i64_reinterpret_f64'', ''f32_reinterpret_i32'',
     ''f64_reinterpret_i64'', ''i32_extend8_s'', ''i32_extend16_s'', ''i64_extend8_s'',
     ''i64_extend16_s'', ''i64_extend32_s'', ''i32_trunc_sat_f32_s'', ''i32_trunc_sat_f32_u'',
     ''i32_trunc_sat_f64_s'', ''i32_trunc_sat_f64_u'', ''i64_trunc_sat_f32_s'',
     ''i64_trunc_sat_f32_u'', ''i64_trunc_sat_f64_s'', ''i64_trunc_sat_f64_u''}"

section \<open>Types\<close>

datatype Type = TypeInvalid | TypeI32 | TypeI64 | TypeF32 | TypeF64 | TypeMem | TypeBool | TypeTuple | TypeV128

fun Type_String :: "Type \<Rightarrow> string" where
  "Type_String TypeInvalid = ''<invalid>''"
| "Type_String TypeI32 = ''i32''"
| "Type_String TypeI64 = ''i64''"
| "Type_String TypeF32 = ''f32''"
| "Type_String TypeF64 = ''f64''"
| "Type_String TypeMem = ''mem''"
| "Type_String TypeBool = ''bool''"
| "Type_String TypeTuple = ''tuple''"
| "Type_String TypeV128 = ''v128''"

definition IsInt :: "Type \<Rightarrow> bool" where
  "IsInt t \<longleftrightarrow> t = TypeI32 \<or> t = TypeI64"

definition IsFloat :: "Type \<Rightarrow> bool" where
  "IsFloat t \<longleftrightarrow> t = TypeF32 \<or> t = TypeF64"

fun Bits :: "Type \<Rightarrow> nat" where
  "Bits TypeI32 = 32"
| "Bits TypeF32 = 32"
| "Bits TypeI64 = 64"
| "Bits TypeF64 = 64"
| "Bits TypeBool = 1"
| "Bits _ = 0"

section \<open>Values, blocks and functions\<close>

text \<open>
  The boxed immediate of a value: Go's nil, a name, a boxed float by its bits, a v128 by its two
  halves, or anything else, told apart by a number.
\<close>

datatype Aux = AuxNil | AuxString string | AuxF32 u32 | AuxF64 u64 | AuxV128 u64 u64 | AuxBox nat

record Value =
  vOp :: Op
  vTyp :: Type
  vArgs :: "nat option list"
  vAuxInt :: i64
  vAux :: Aux
  vBlock :: "nat option"

datatype BlockKind =
    BlockInvalid | BlockPlain | BlockIf | BlockRet | BlockUnreachable | BlockBrTable | BlockThrow

record Edge =
  eBlock :: nat
  eIndex :: nat

record Block =
  bKind :: BlockKind
  Preds :: "Edge list"
  Succs :: "Edge list"
  Values :: "nat list"
  Control :: "nat option"
  TableCases :: "i32 list list"
  TableDefault :: nat
  TagIndex :: u32
  ThrowArgc :: nat
  IsRethrow :: bool
  RethrowRegion :: "nat option"

record TryHandler =
  CatchAll :: bool
  hTagIndex :: u32
  hBlock :: nat
  NumArgs :: nat

record TryRegion =
  trEntry :: nat
  Post :: nat
  Handlers :: "TryHandler list"
  trBody :: "nat list"
  Dispatch :: "nat option"
  Delegate :: bool
  DelegateTarget :: "nat option"

record FuncSig =
  Params :: "Type list"
  Results :: "Type list"

record Func =
  fName :: string
  Sig :: FuncSig
  Blocks :: "nat list"
  Entry :: "nat option"
  fval :: "nat \<Rightarrow> Value"
  fblk :: "nat \<Rightarrow> Block"
  MutableLocals :: bool
  LocalTypes :: "Type list"
  TryRegions :: "TryRegion list"
  nextValueID :: nat
  nextBlockID :: nat

definition nil_value :: Value where
  "nil_value = \<lparr>vOp = OpInvalid, vTyp = TypeInvalid, vArgs = [], vAuxInt = 0, vAux = AuxNil, vBlock = None\<rparr>"

definition zero_block :: Block where
  "zero_block = \<lparr>bKind = BlockInvalid, Preds = [], Succs = [], Values = [], Control = None,
     TableCases = [], TableDefault = 0, TagIndex = 0, ThrowArgc = 0, IsRethrow = False, RethrowRegion = None\<rparr>"

definition NewFunc :: "string \<Rightarrow> FuncSig \<Rightarrow> Func" where
  "NewFunc name sig = \<lparr>fName = name, Sig = sig, Blocks = [], Entry = None,
     fval = (\<lambda>_. nil_value), fblk = (\<lambda>_. zero_block), MutableLocals = False, LocalTypes = [],
     TryRegions = [], nextValueID = 1, nextBlockID = 0\<rparr>"

text \<open>Updates through a pointer.\<close>

definition upd_val :: "nat \<Rightarrow> (Value \<Rightarrow> Value) \<Rightarrow> Func \<Rightarrow> Func" where
  "upd_val i g f = f\<lparr>fval := (fval f)(i := g (fval f i))\<rparr>"

definition upd_blk :: "nat \<Rightarrow> (Block \<Rightarrow> Block) \<Rightarrow> Func \<Rightarrow> Func" where
  "upd_blk b g f = f\<lparr>fblk := (fblk f)(b := g (fblk f b))\<rparr>"

definition NewBlock :: "BlockKind \<Rightarrow> Func \<Rightarrow> nat \<times> Func" where
  "NewBlock kind f =
     (let b = nextBlockID f in
      (b, f\<lparr>fblk := (fblk f)(b := zero_block\<lparr>bKind := kind\<rparr>), nextBlockID := b + 1, Blocks := Blocks f @ [b]\<rparr>))"

definition SetEntry :: "nat \<Rightarrow> Func \<Rightarrow> Func" where
  "SetEntry b f = f\<lparr>Entry := Some b\<rparr>"

definition newValue :: "Op \<Rightarrow> Type \<Rightarrow> nat option list \<Rightarrow> nat option \<Rightarrow> i64 \<Rightarrow> Aux \<Rightarrow> Func \<Rightarrow> nat \<times> Func" where
  "newValue op typ args b auxInt aux f =
     (let v = nextValueID f in
      (v, f\<lparr>fval := (fval f)(v := \<lparr>vOp = op, vTyp = typ, vArgs = args, vAuxInt = auxInt, vAux = aux, vBlock = b\<rparr>),
            nextValueID := v + 1\<rparr>))"

definition insert_at :: "nat \<Rightarrow> 'a \<Rightarrow> 'a list \<Rightarrow> 'a list" where
  "insert_at idx x xs = take idx xs @ x # drop idx xs"

definition NewValueBefore ::
  "nat \<Rightarrow> int \<Rightarrow> Op \<Rightarrow> Type \<Rightarrow> i64 \<Rightarrow> Aux \<Rightarrow> nat option list \<Rightarrow> Func \<Rightarrow> nat \<times> Func" where
  "NewValueBefore b idx op typ auxInt aux args f =
     (let (v, f) = newValue op typ args (Some b) auxInt aux f;
          idx = (if idx < 0 then 0 else nat idx)
      in (v, upd_blk b (\<lambda>blk. blk\<lparr>Values :=
            (if idx \<ge> length (Values blk) then Values blk @ [v] else insert_at idx v (Values blk))\<rparr>) f))"

text \<open>
  \<^verbatim>\<open>AddEdge\<close> reads both lengths before it appends, so that an edge from a block to itself
  is recorded like any other.
\<close>

definition AddEdge :: "nat \<Rightarrow> nat \<Rightarrow> Func \<Rightarrow> Func" where
  "AddEdge src dst f =
     (let si = length (Preds (fblk f dst)); di = length (Succs (fblk f src)) in
      upd_blk dst (\<lambda>b. b\<lparr>Preds := Preds b @ [\<lparr>eBlock = src, eIndex = di\<rparr>]\<rparr>)
        (upd_blk src (\<lambda>b. b\<lparr>Succs := Succs b @ [\<lparr>eBlock = dst, eIndex = si\<rparr>]\<rparr>) f))"

text \<open>The method: it looks at the name of a helper call.\<close>

definition HasSideEffect :: "Value \<Rightarrow> bool" where
  "HasSideEffect v =
     (if vOp v = OpAtomicCall then True
      else if vOp v \<noteq> OpHelperCall then Op_HasSideEffect (vOp v)
      else case vAux v of AuxString name \<Rightarrow> name \<notin> pureHelperNames | _ \<Rightarrow> True)"

section \<open>Compact\<close>

definition Compact :: "Func \<Rightarrow> Func" where
  "Compact f = foldl (\<lambda>f b. upd_blk b (\<lambda>blk. blk\<lparr>Values := filter (\<lambda>v. vOp (fval f v) \<noteq> OpInvalid) (Values blk)\<rparr>) f)
     f (Blocks f)"

definition CountValues :: "Func \<Rightarrow> nat" where
  "CountValues f = sum_list (map (\<lambda>b. length (filter (\<lambda>v. vOp (fval f v) \<noteq> OpInvalid) (Values (fblk f b)))) (Blocks f))"

section \<open>The builder\<close>

record FuncBuilder =
  bf :: Func
  cur :: "nat option"

definition NewFuncBuilder :: "string \<Rightarrow> FuncSig \<Rightarrow> FuncBuilder" where
  "NewFuncBuilder name sig = \<lparr>bf = NewFunc name sig, cur = None\<rparr>"

definition bNewBlock :: "BlockKind \<Rightarrow> FuncBuilder \<Rightarrow> nat \<times> FuncBuilder" where
  "bNewBlock kind b = (let (blk, f) = NewBlock kind (bf b) in (blk, b\<lparr>bf := f\<rparr>))"

definition bSetEntry :: "nat \<Rightarrow> FuncBuilder \<Rightarrow> FuncBuilder" where
  "bSetEntry blk b = b\<lparr>bf := SetEntry blk (bf b)\<rparr>"

definition SetCurrent :: "nat \<Rightarrow> FuncBuilder \<Rightarrow> FuncBuilder" where
  "SetCurrent blk b = b\<lparr>cur := Some blk\<rparr>"

definition no_current_block :: "string + 'a" where
  "no_current_block = Inl ''ssa.FuncBuilder: no current block''"

text \<open>Appending to the current block; a builder without one panics.\<close>

definition bAppend :: "Op \<Rightarrow> Type \<Rightarrow> i64 \<Rightarrow> Aux \<Rightarrow> nat option list \<Rightarrow> FuncBuilder \<Rightarrow> string + (nat \<times> FuncBuilder)" where
  "bAppend op typ auxInt aux args b =
     (case cur b of
        None \<Rightarrow> no_current_block
      | Some c \<Rightarrow>
          let (v, f) = newValue op typ args (Some c) auxInt aux (bf b) in
          Inr (v, b\<lparr>bf := upd_blk c (\<lambda>blk. blk\<lparr>Values := Values blk @ [v]\<rparr>) f\<rparr>))"

definition bNewValue :: "Op \<Rightarrow> Type \<Rightarrow> nat option list \<Rightarrow> FuncBuilder \<Rightarrow> string + (nat \<times> FuncBuilder)" where
  "bNewValue op typ args b = bAppend op typ 0 AuxNil args b"

definition bNewValueAuxInt :: "Op \<Rightarrow> Type \<Rightarrow> i64 \<Rightarrow> nat option list \<Rightarrow> FuncBuilder \<Rightarrow> string + (nat \<times> FuncBuilder)" where
  "bNewValueAuxInt op typ auxInt args b = bAppend op typ auxInt AuxNil args b"

definition bNewValueAux :: "Op \<Rightarrow> Type \<Rightarrow> Aux \<Rightarrow> nat option list \<Rightarrow> FuncBuilder \<Rightarrow> string + (nat \<times> FuncBuilder)" where
  "bNewValueAux op typ aux args b = bAppend op typ 0 aux args b"

definition Const32 :: "i32 \<Rightarrow> FuncBuilder \<Rightarrow> string + (nat \<times> FuncBuilder)" where
  "Const32 v b = bNewValueAuxInt OpConst32 TypeI32 (scast v) [] b"

definition Const64 :: "i64 \<Rightarrow> FuncBuilder \<Rightarrow> string + (nat \<times> FuncBuilder)" where
  "Const64 v b = bNewValueAuxInt OpConst64 TypeI64 v [] b"

definition Param :: "nat \<Rightarrow> Type \<Rightarrow> FuncBuilder \<Rightarrow> string + (nat \<times> FuncBuilder)" where
  "Param idx typ b = bNewValueAuxInt OpParam typ (word_of_nat idx) [] b"

definition LinkPlain :: "nat \<Rightarrow> FuncBuilder \<Rightarrow> string + FuncBuilder" where
  "LinkPlain succ b =
     (case cur b of None \<Rightarrow> no_current_block | Some c \<Rightarrow> Inr (b\<lparr>bf := AddEdge c succ (bf b)\<rparr>))"

definition LinkIf :: "nat option \<Rightarrow> nat \<Rightarrow> nat \<Rightarrow> FuncBuilder \<Rightarrow> string + FuncBuilder" where
  "LinkIf cond thenBlk elseBlk b =
     (case cur b of
        None \<Rightarrow> no_current_block
      | Some c \<Rightarrow> Inr (b\<lparr>bf := AddEdge c elseBlk (AddEdge c thenBlk
          (upd_blk c (\<lambda>blk. blk\<lparr>Control := cond\<rparr>) (bf b)))\<rparr>))"

text \<open>The copies that mark the returned or thrown operands at the end of the block.\<close>

definition add_marker :: "nat \<Rightarrow> Func \<Rightarrow> nat \<Rightarrow> Func" where
  "add_marker c f r =
     (let (v, f) = newValue OpCopy (vTyp (fval f r)) [Some r] (Some c) 0 AuxNil f in
      upd_blk c (\<lambda>blk. blk\<lparr>Values := Values blk @ [v]\<rparr>) f)"

definition FinishRet :: "nat list \<Rightarrow> FuncBuilder \<Rightarrow> string + FuncBuilder" where
  "FinishRet results b =
     (case cur b of
        None \<Rightarrow> no_current_block
      | Some c \<Rightarrow> Inr (b\<lparr>bf := foldl (add_marker c) (upd_blk c (\<lambda>blk. blk\<lparr>bKind := BlockRet\<rparr>) (bf b)) results\<rparr>))"

definition FinishThrow :: "u32 \<Rightarrow> nat list \<Rightarrow> FuncBuilder \<Rightarrow> string + FuncBuilder" where
  "FinishThrow tagIdx operands b =
     (case cur b of
        None \<Rightarrow> no_current_block
      | Some c \<Rightarrow> Inr (b\<lparr>bf := foldl (add_marker c) (upd_blk c (\<lambda>blk. blk\<lparr>bKind := BlockThrow,
          TagIndex := tagIdx, ThrowArgc := length operands\<rparr>) (bf b)) operands\<rparr>))"

definition FinishRethrow :: "FuncBuilder \<Rightarrow> string + FuncBuilder" where
  "FinishRethrow b =
     (case cur b of
        None \<Rightarrow> no_current_block
      | Some c \<Rightarrow> Inr (b\<lparr>bf := upd_blk c (\<lambda>blk. blk\<lparr>bKind := BlockThrow, IsRethrow := True\<rparr>) (bf b)\<rparr>))"

end
