(* ===== verification/SsaSem.thy ===== *)
theory SsaSem
  imports SsaCore
begin

text \<open>
  What an SSA function computes: the abstract machine against which the optimisation passes are
  judged. A configuration is a block about to be entered, the index of the edge it is entered by,
  the values computed so far and the state of the guest, which stays a parameter like the meaning
  of the operations that touch it. The phis of a block read their operand of the entering edge all
  at once, the other values run in block order, the terminator picks the next edge.
\<close>

section \<open>Values and outcomes\<close>

datatype wval = W32 i32 | W64 i64 | WF32 u32 | WF64 u64 | WV128 u64 u64 | WTuple "wval list" | WNone

text \<open>
  \<open>Stuck\<close> is an ill-formed step (an undefined operand, an operand of the wrong kind),
  \<open>Timeout\<close> the end of the block budget.
\<close>

datatype ('s, 'a) outcome = Stuck | Timeout | Trap 's | Done 'a

fun bind_outcome :: "('s, 'a) outcome \<Rightarrow> ('a \<Rightarrow> ('s, 'b) outcome) \<Rightarrow> ('s, 'b) outcome" where
  "bind_outcome Stuck g = Stuck"
| "bind_outcome Timeout g = Timeout"
| "bind_outcome (Trap s) g = Trap s"
| "bind_outcome (Done x) g = g x"

lemma bind_outcome_eq_Done [simp]: "bind_outcome m g = Done y \<longleftrightarrow> (\<exists>x. m = Done x \<and> g x = Done y)"
  by (cases m) auto

lemma bind_outcome_not_Stuck: "bind_outcome m g \<noteq> Stuck \<longleftrightarrow> m \<noteq> Stuck \<and> (\<forall>x. m = Done x \<longrightarrow> g x \<noteq> Stuck)"
  by (cases m) auto

type_synonym env = "nat \<Rightarrow> wval option"
type_synonym 's sem = "Op \<Rightarrow> Type \<Rightarrow> i64 \<Rightarrow> Aux \<Rightarrow> wval list \<Rightarrow> 's \<Rightarrow> ('s, wval \<times> 's) outcome"

definition eval_value :: "'s sem \<Rightarrow> Value \<Rightarrow> wval list \<Rightarrow> 's \<Rightarrow> ('s, wval \<times> 's) outcome" where
  "eval_value sem v as st = sem (vOp v) (vTyp v) (vAuxInt v) (vAux v) as st"

section \<open>Integer operations\<close>

definition wbool :: "bool \<Rightarrow> wval" where
  "wbool p = W32 (if p then 1 else 0)"

text \<open>The operations of the constant folder, by the WebAssembly meaning of their instructions.\<close>

fun int_op :: "Op \<Rightarrow> i64 \<Rightarrow> wval list \<Rightarrow> wval option" where
  "int_op op c [] =
     (if op = OpConst32 then Some (W32 (ucast c)) else if op = OpConst64 then Some (W64 c) else None)"
| "int_op op c [W32 x] =
     (if op = OpExtend32To64S then Some (W64 (scast x))
      else if op = OpExtend32To64U then Some (W64 (ucast x)) else None)"
| "int_op op c [W64 x] = (if op = OpTrunc64To32 then Some (W32 (ucast x)) else None)"
| "int_op op c [W32 x, W32 y] =
     (if op = OpAdd32 then Some (W32 (x + y))
      else if op = OpSub32 then Some (W32 (x - y))
      else if op = OpMul32 then Some (W32 (x * y))
      else if op = OpAnd32 then Some (W32 (x AND y))
      else if op = OpOr32 then Some (W32 (x OR y))
      else if op = OpXor32 then Some (W32 (x XOR y))
      else if op = OpShl32 then Some (W32 (push_bit (unat y mod 32) x))
      else if op = OpShrS32 then Some (W32 (signed_drop_bit (unat y mod 32) x))
      else if op = OpShrU32 then Some (W32 (drop_bit (unat y mod 32) x))
      else if op = OpEq32 then Some (wbool (x = y))
      else if op = OpNe32 then Some (wbool (x \<noteq> y))
      else if op = OpLtS32 then Some (wbool (sint x < sint y))
      else if op = OpLeS32 then Some (wbool (sint x \<le> sint y))
      else if op = OpLtU32 then Some (wbool (unat x < unat y))
      else if op = OpLeU32 then Some (wbool (unat x \<le> unat y))
      else None)"
| "int_op op c [W64 x, W64 y] =
     (if op = OpAdd64 then Some (W64 (x + y))
      else if op = OpSub64 then Some (W64 (x - y))
      else if op = OpMul64 then Some (W64 (x * y))
      else if op = OpAnd64 then Some (W64 (x AND y))
      else if op = OpOr64 then Some (W64 (x OR y))
      else if op = OpXor64 then Some (W64 (x XOR y))
      else if op = OpShl64 then Some (W64 (push_bit (unat y mod 64) x))
      else if op = OpShrS64 then Some (W64 (signed_drop_bit (unat y mod 64) x))
      else if op = OpShrU64 then Some (W64 (drop_bit (unat y mod 64) x))
      else if op = OpEq64 then Some (wbool (x = y))
      else if op = OpNe64 then Some (wbool (x \<noteq> y))
      else if op = OpLtS64 then Some (wbool (sint x < sint y))
      else if op = OpLeS64 then Some (wbool (sint x \<le> sint y))
      else if op = OpLtU64 then Some (wbool (unat x < unat y))
      else if op = OpLeU64 then Some (wbool (unat x \<le> unat y))
      else None)"
| "int_op op c as = None"

definition int_ops :: "Op set" where
  "int_ops =
    {OpConst32, OpConst64, OpExtend32To64S, OpExtend32To64U, OpTrunc64To32,
     OpAdd32, OpSub32, OpMul32, OpAnd32, OpOr32, OpXor32, OpShl32, OpShrS32, OpShrU32,
     OpEq32, OpNe32, OpLtS32, OpLeS32, OpLtU32, OpLeU32,
     OpAdd64, OpSub64, OpMul64, OpAnd64, OpOr64, OpXor64, OpShl64, OpShrS64, OpShrU64,
     OpEq64, OpNe64, OpLtS64, OpLeS64, OpLtU64, OpLeU64}"

text \<open>
  A meaning for every operation: the integer ones and the copy are fixed, everything else (loads,
  calls, floats, helpers) is the parameter \<open>ext\<close>.
\<close>

definition std_sem :: "'s sem \<Rightarrow> 's sem" where
  "std_sem ext op typ c aux as st =
     (if op \<in> int_ops then (case int_op op c as of Some r \<Rightarrow> Done (r, st) | None \<Rightarrow> Stuck)
      else if op = OpCopy then (case as of [x] \<Rightarrow> Done (x, st) | _ \<Rightarrow> Stuck)
      else ext op typ c aux as st)"

section \<open>Executing a function\<close>

definition arg_val :: "env \<Rightarrow> nat option \<Rightarrow> wval option" where
  "arg_val env a = (case a of None \<Rightarrow> None | Some i \<Rightarrow> env i)"

definition arg_vals :: "env \<Rightarrow> nat option list \<Rightarrow> wval list option" where
  "arg_vals env as = those (map (arg_val env) as)"

definition runs :: "Value \<Rightarrow> bool" where
  "runs v \<longleftrightarrow> vOp v \<noteq> OpPhi \<and> vOp v \<noteq> OpInvalid"

definition exec_value :: "'s sem \<Rightarrow> Func \<Rightarrow> nat \<Rightarrow> env \<times> 's \<Rightarrow> ('s, env \<times> 's) outcome" where
  "exec_value sem f i s =
     (if runs (fval f i) then
        (case arg_vals (fst s) (vArgs (fval f i)) of
           None \<Rightarrow> Stuck
         | Some as \<Rightarrow> bind_outcome (eval_value sem (fval f i) as (snd s))
             (\<lambda>(r, st). Done ((fst s)(i \<mapsto> r), st)))
      else Done s)"

fun exec_vals :: "'s sem \<Rightarrow> Func \<Rightarrow> nat list \<Rightarrow> env \<times> 's \<Rightarrow> ('s, env \<times> 's) outcome" where
  "exec_vals sem f [] s = Done s"
| "exec_vals sem f (i # ids) s = bind_outcome (exec_value sem f i s) (exec_vals sem f ids)"

definition phi_ids :: "Func \<Rightarrow> nat list \<Rightarrow> nat set" where
  "phi_ids f ids = {i \<in> set ids. vOp (fval f i) = OpPhi}"

definition phi_val :: "Func \<Rightarrow> nat \<Rightarrow> env \<Rightarrow> nat \<Rightarrow> wval option" where
  "phi_val f k env i =
     (if k < length (vArgs (fval f i)) then arg_val env (vArgs (fval f i) ! k) else None)"

definition enter :: "Func \<Rightarrow> nat list \<Rightarrow> nat \<Rightarrow> env \<Rightarrow> env option" where
  "enter f ids k env =
     (if \<forall>i \<in> set ids. vOp (fval f i) = OpPhi \<longrightarrow> phi_val f k env i \<noteq> None
      then Some (\<lambda>i. if i \<in> phi_ids f ids then phi_val f k env i else env i)
      else None)"

datatype 's jump =
    Goto nat nat env 's
  | Return "wval list" 's
  | Throw u32 bool "wval list" 's

definition truthy :: "wval \<Rightarrow> bool option" where
  "truthy w = (case w of W32 x \<Rightarrow> Some (x \<noteq> 0) | W64 x \<Rightarrow> Some (x \<noteq> 0) | _ \<Rightarrow> None)"

definition table_target :: "Block \<Rightarrow> i32 \<Rightarrow> nat" where
  "table_target b x =
     (case filter (\<lambda>k. x \<in> set (TableCases b ! k)) [0..<length (TableCases b)] of
        k # _ \<Rightarrow> k
      | [] \<Rightarrow> TableDefault b)"

definition take_edge :: "Block \<Rightarrow> nat \<Rightarrow> env \<Rightarrow> 's \<Rightarrow> ('s, 's jump) outcome" where
  "take_edge b j env st =
     (if j < length (Succs b) then Done (Goto (eBlock (Succs b ! j)) (eIndex (Succs b ! j)) env st) else Stuck)"

text \<open>The operands of a return or a throw are the last values of the block.\<close>

definition marker_vals :: "nat \<Rightarrow> nat list \<Rightarrow> env \<Rightarrow> wval list option" where
  "marker_vals n ids env = those (map env (drop (length ids - n) ids))"

definition terminate :: "FuncSig \<Rightarrow> Block \<Rightarrow> env \<Rightarrow> 's \<Rightarrow> ('s, 's jump) outcome" where
  "terminate sig b env st =
     (case bKind b of
        BlockPlain \<Rightarrow> if length (Succs b) = 1 then take_edge b 0 env st else Stuck
      | BlockIf \<Rightarrow>
          (if length (Succs b) = 2 then
             (case arg_val env (Control b) of
                None \<Rightarrow> Stuck
              | Some w \<Rightarrow> (case truthy w of None \<Rightarrow> Stuck | Some p \<Rightarrow> take_edge b (if p then 0 else 1) env st))
           else Stuck)
      | BlockBrTable \<Rightarrow>
          (case arg_val env (Control b) of
             Some (W32 x) \<Rightarrow> take_edge b (table_target b x) env st
           | _ \<Rightarrow> Stuck)
      | BlockRet \<Rightarrow>
          (case marker_vals (length (Results sig)) (Values b) env of
             None \<Rightarrow> Stuck | Some ws \<Rightarrow> Done (Return ws st))
      | BlockThrow \<Rightarrow>
          (case marker_vals (ThrowArgc b) (Values b) env of
             None \<Rightarrow> Stuck | Some ws \<Rightarrow> Done (Throw (TagIndex b) (IsRethrow b) ws st))
      | BlockUnreachable \<Rightarrow> Trap st
      | BlockInvalid \<Rightarrow> Stuck)"

definition step_block :: "'s sem \<Rightarrow> Func \<Rightarrow> nat \<Rightarrow> nat \<Rightarrow> env \<Rightarrow> 's \<Rightarrow> ('s, 's jump) outcome" where
  "step_block sem f b k env st =
     (case enter f (Values (fblk f b)) k env of
        None \<Rightarrow> Stuck
      | Some env \<Rightarrow> bind_outcome (exec_vals sem f (Values (fblk f b)) (env, st))
          (\<lambda>(env, st). terminate (Sig f) (fblk f b) env st))"

fun run :: "nat \<Rightarrow> 's sem \<Rightarrow> Func \<Rightarrow> nat \<Rightarrow> nat \<Rightarrow> env \<Rightarrow> 's \<Rightarrow> ('s, 's jump) outcome" where
  "run 0 sem f b k env st = Timeout"
| "run (Suc n) sem f b k env st =
     bind_outcome (step_block sem f b k env st)
       (\<lambda>r. case r of Goto b k env st \<Rightarrow> run n sem f b k env st | _ \<Rightarrow> Done r)"

definition run_func :: "nat \<Rightarrow> 's sem \<Rightarrow> Func \<Rightarrow> 's \<Rightarrow> ('s, 's jump) outcome" where
  "run_func n sem f st =
     (case Entry f of None \<Rightarrow> Stuck | Some b \<Rightarrow> run n sem f b 0 Map.empty st)"

section \<open>Dominance and well-formed functions\<close>

definition edge :: "Func \<Rightarrow> nat \<Rightarrow> nat \<Rightarrow> bool" where
  "edge f b s \<longleftrightarrow> b \<in> set (Blocks f) \<and> s \<in> eBlock ` set (Succs (fblk f b))"

text \<open>The blocks a path from the entry reaches without touching any block of a set.\<close>

inductive avoids :: "Func \<Rightarrow> nat set \<Rightarrow> nat \<Rightarrow> bool" for f A where
  entry: "Entry f = Some b \<Longrightarrow> b \<notin> A \<Longrightarrow> avoids f A b"
| step: "avoids f A b \<Longrightarrow> edge f b s \<Longrightarrow> s \<notin> A \<Longrightarrow> avoids f A s"

abbreviation reachable :: "Func \<Rightarrow> nat \<Rightarrow> bool" where
  "reachable f b \<equiv> avoids f {} b"

definition dom_by :: "Func \<Rightarrow> nat \<Rightarrow> nat \<Rightarrow> bool" where
  "dom_by f a b \<longleftrightarrow> \<not> avoids f {a} b"

lemma avoids_not_mem: "avoids f A b \<Longrightarrow> b \<notin> A"
  by (induction rule: avoids.induct) auto

lemma dom_by_refl [simp]: "dom_by f b b"
  by (auto simp: dom_by_def dest: avoids_not_mem)

lemma dom_by_pred: "dom_by f a s \<Longrightarrow> a \<noteq> s \<Longrightarrow> edge f b s \<Longrightarrow> dom_by f a b"
  by (auto simp: dom_by_def intro: avoids.step)

text \<open>Of two different blocks, one is reached first.\<close>

lemma first_reached:
  assumes "reachable f b" and "a \<noteq> s"
  shows "avoids f {a} s \<or> avoids f {s} a \<or> avoids f {a, s} b"
  using assms(1)
proof (induction rule: avoids.induct)
  case (entry b)
  then show ?case using assms(2) by (cases "b = a"; cases "b = s") (auto intro: avoids.entry)
next
  case (step b c)
  have sub: "avoids f {x} y" if "avoids f {a, s} y" "x \<in> {a, s}" for x y
    using that by (induction rule: avoids.induct) (auto intro: avoids.intros)
  show ?case using step assms(2) sub
    by (cases "c = a"; cases "c = s") (auto intro: avoids.step)
qed

lemma dom_by_antisym: "dom_by f a s \<Longrightarrow> dom_by f s a \<Longrightarrow> reachable f s \<Longrightarrow> a = s"
  using first_reached [of f s a s] avoids_not_mem [of f "{a, s}" s] by (auto simp: dom_by_def)

lemma avoids_mono: "avoids f A b \<Longrightarrow> B \<subseteq> A \<Longrightarrow> avoids f B b"
  by (induction rule: avoids.induct) (auto intro: avoids.intros)

lemma dom_by_trans:
  assumes "dom_by f a b" and "dom_by f b c"
  shows "dom_by f a c"
proof (rule ccontr)
  assume "\<not> dom_by f a c"
  then have "avoids f {a} c" by (simp add: dom_by_def)
  then have "avoids f {b} c"
  proof (induction rule: avoids.induct)
    case (entry x)
    then show ?case using assms(1) by (cases "x = b") (auto simp: dom_by_def intro: avoids.entry)
  next
    case (step x y)
    then have "avoids f {a} y" by (blast intro: avoids.step)
    then show ?case using step assms(1) by (cases "y = b") (auto simp: dom_by_def intro: avoids.step)
  qed
  then show False using assms(2) by (simp add: dom_by_def)
qed

text \<open>
  What \<^verbatim>\<open>Verify\<close> demands of a function, with dominance by paths: the edge lists mirror each
  other, a value stands in its own block once, and every operand is defined on every path to its
  use.
\<close>

definition succ_ok :: "Func \<Rightarrow> nat \<Rightarrow> nat \<Rightarrow> bool" where
  "succ_ok f b i \<longleftrightarrow>
     (let e = Succs (fblk f b) ! i in
      eBlock e \<in> set (Blocks f) \<and> eIndex e < length (Preds (fblk f (eBlock e))) \<and>
      Preds (fblk f (eBlock e)) ! eIndex e = \<lparr>eBlock = b, eIndex = i\<rparr>)"

definition pred_ok :: "Func \<Rightarrow> nat \<Rightarrow> nat \<Rightarrow> bool" where
  "pred_ok f b i \<longleftrightarrow>
     (let e = Preds (fblk f b) ! i in
      eBlock e \<in> set (Blocks f) \<and> eIndex e < length (Succs (fblk f (eBlock e))) \<and>
      Succs (fblk f (eBlock e)) ! eIndex e = \<lparr>eBlock = b, eIndex = i\<rparr>)"

definition cfg_ok :: "Func \<Rightarrow> bool" where
  "cfg_ok f \<longleftrightarrow>
     (\<exists>e \<in> set (Blocks f). Entry f = Some e) \<and> distinct (Blocks f) \<and>
     (\<forall>b \<in> set (Blocks f). (\<forall>i < length (Succs (fblk f b)). succ_ok f b i) \<and>
                            (\<forall>i < length (Preds (fblk f b)). pred_ok f b i))"

definition vals_ok :: "Func \<Rightarrow> bool" where
  "vals_ok f \<longleftrightarrow>
     (\<forall>b \<in> set (Blocks f). distinct (Values (fblk f b)) \<and>
        (\<forall>v \<in> set (Values (fblk f b)). vBlock (fval f v) = Some b))"

definition dom_def :: "Func \<Rightarrow> nat \<Rightarrow> nat \<Rightarrow> bool" where
  "dom_def f a b \<longleftrightarrow> (\<exists>d \<in> set (Blocks f). dom_by f d b \<and> a \<in> set (Values (fblk f d)))"

definition avail :: "Func \<Rightarrow> nat \<Rightarrow> nat list \<Rightarrow> nat \<Rightarrow> bool" where
  "avail f b pre a \<longleftrightarrow>
     a \<in> set pre \<or> a \<in> phi_ids f (Values (fblk f b)) \<or>
     (\<exists>d \<in> set (Blocks f). d \<noteq> b \<and> dom_by f d b \<and> a \<in> set (Values (fblk f d)))"

definition uses_ok :: "Func \<Rightarrow> bool" where
  "uses_ok f \<longleftrightarrow>
     (\<forall>b \<in> set (Blocks f).
        (\<forall>pre v post a. Values (fblk f b) = pre @ v # post \<longrightarrow> runs (fval f v) \<longrightarrow>
           Some a \<in> set (vArgs (fval f v)) \<longrightarrow> avail f b pre a) \<and>
        (\<forall>v \<in> phi_ids f (Values (fblk f b)). length (vArgs (fval f v)) = length (Preds (fblk f b)) \<and>
           (\<forall>k a. k < length (Preds (fblk f b)) \<longrightarrow> vArgs (fval f v) ! k = Some a \<longrightarrow>
              dom_def f a (eBlock (Preds (fblk f b) ! k)))) \<and>
        (\<forall>a. Control (fblk f b) = Some a \<longrightarrow> dom_def f a b))"

definition ssa_ok :: "Func \<Rightarrow> bool" where
  "ssa_ok f \<longleftrightarrow> cfg_ok f \<and> vals_ok f \<and> uses_ok f"

lemma vals_ok_unique:
  "vals_ok f \<Longrightarrow> b \<in> set (Blocks f) \<Longrightarrow> d \<in> set (Blocks f) \<Longrightarrow> v \<in> set (Values (fblk f b)) \<Longrightarrow>
   v \<in> set (Values (fblk f d)) \<Longrightarrow> b = d"
  unfolding vals_ok_def by (metis option.inject)

lemma cfg_ok_succ:
  assumes "cfg_ok f" and "b \<in> set (Blocks f)" and "i < length (Succs (fblk f b))"
  shows "eBlock (Succs (fblk f b) ! i) \<in> set (Blocks f)"
    and "eIndex (Succs (fblk f b) ! i) < length (Preds (fblk f (eBlock (Succs (fblk f b) ! i))))"
    and "Preds (fblk f (eBlock (Succs (fblk f b) ! i))) ! eIndex (Succs (fblk f b) ! i) = \<lparr>eBlock = b, eIndex = i\<rparr>"
    and "edge f b (eBlock (Succs (fblk f b) ! i))"
  using assms by (auto simp: cfg_ok_def edge_def succ_ok_def Let_def)

lemma avail_all: "b \<in> set (Blocks f) \<Longrightarrow> avail f b (Values (fblk f b)) a \<longleftrightarrow> dom_def f a b"
  unfolding avail_def dom_def_def phi_ids_def by (cases "a \<in> set (Values (fblk f b))") (auto intro: bexI [of _ b])

section \<open>Facts about execution\<close>

lemma those_map_cong: "(\<And>x. x \<in> set xs \<Longrightarrow> g x = h x) \<Longrightarrow> those (map g xs) = those (map h xs)"
  by (metis map_eq_conv)

lemma those_eq_Some: "those xs = Some ys \<longleftrightarrow> xs = map Some ys"
  by (induction xs arbitrary: ys) (auto split: option.splits)

lemma exec_vals_append:
  "exec_vals sem f (xs @ ys) s = bind_outcome (exec_vals sem f xs s) (exec_vals sem f ys)"
proof (induction xs arbitrary: s)
  case (Cons x xs)
  then show ?case by (cases "exec_value sem f x s") auto
qed simp

lemma exec_value_other: "exec_value sem f i s = Done s' \<Longrightarrow> a \<noteq> i \<Longrightarrow> fst s' a = fst s a"
  by (auto simp: exec_value_def split: if_splits option.splits)

lemma exec_vals_other:
  "exec_vals sem f ids s = Done s' \<Longrightarrow> (\<And>i. i \<in> set ids \<Longrightarrow> runs (fval f i) \<Longrightarrow> a \<noteq> i) \<Longrightarrow> fst s' a = fst s a"
proof (induction ids arbitrary: s)
  case (Cons i ids)
  then obtain t where t: "exec_value sem f i s = Done t" "exec_vals sem f ids t = Done s'" by auto
  then have "fst t a = fst s a"
    using Cons.prems(2) [of i] exec_value_other [OF t(1)] t(1) by (cases "runs (fval f i)") (auto simp: exec_value_def)
  then show ?case using Cons.IH [OF t(2)] Cons.prems(2) by simp
qed simp

section \<open>Simulation\<close>

text \<open>
  How the outcome of a transformed function relates to that of the original one, which is assumed
  not to get stuck. With \<open>t\<close> traps are kept, without it a trap of the original may vanish.
\<close>

definition out_sim :: "bool \<Rightarrow> ('a \<Rightarrow> 'b \<Rightarrow> bool) \<Rightarrow> ('s, 'a) outcome \<Rightarrow> ('s, 'b) outcome \<Rightarrow> bool" where
  "out_sim t R o1 o2 \<longleftrightarrow>
     (case o1 of
        Stuck \<Rightarrow> True
      | Timeout \<Rightarrow> o2 = Timeout
      | Trap s \<Rightarrow> t \<longrightarrow> o2 = Trap s
      | Done x \<Rightarrow> (\<exists>y. o2 = Done y \<and> R x y))"

lemma out_sim_simps [simp]:
  "out_sim t R Stuck o2" "out_sim t R Timeout o2 \<longleftrightarrow> o2 = Timeout" "out_sim t R (Trap s) o2 \<longleftrightarrow> (t \<longrightarrow> o2 = Trap s)"
  "out_sim t R (Done x) o2 \<longleftrightarrow> (\<exists>y. o2 = Done y \<and> R x y)"
  by (simp_all add: out_sim_def)

lemma out_sim_bind:
  assumes "out_sim t R o1 o2" and "\<And>x y. o1 = Done x \<Longrightarrow> o2 = Done y \<Longrightarrow> R x y \<Longrightarrow> out_sim t S (g x) (h y)"
  shows "out_sim t S (bind_outcome o1 g) (bind_outcome o2 h)"
  using assms by (cases o1) auto

lemma out_sim_same: "(\<And>x. o1 = Done x \<Longrightarrow> R x x) \<Longrightarrow> out_sim t R o1 o1"
  by (cases o1) auto

type_synonym 's cfg_rel = "'s \<Rightarrow> nat \<Rightarrow> nat \<Rightarrow> env \<Rightarrow> nat \<Rightarrow> nat \<Rightarrow> env \<Rightarrow> bool"

fun jump_sim :: "'s cfg_rel \<Rightarrow> 's jump \<Rightarrow> 's jump \<Rightarrow> bool" where
  "jump_sim R (Goto b k env st) (Goto b' k' env' st') \<longleftrightarrow> st' = st \<and> R st b k env b' k' env'"
| "jump_sim R j j' \<longleftrightarrow> j' = j"

definition sim_result :: "bool \<Rightarrow> ('s, 's jump) outcome \<Rightarrow> ('s, 's jump) outcome \<Rightarrow> bool" where
  "sim_result t = out_sim t (\<lambda>x y. y = x)"

text \<open>Two functions whose block steps agree run alike.\<close>

lemma run_sim:
  assumes step: "\<And>b k env b' k' env' st. R st b k env b' k' env' \<Longrightarrow>
      out_sim t (jump_sim R) (step_block sem f b k env st) (step_block sem g b' k' env' st)"
    and "R st b k env b' k' env'"
  shows "sim_result t (run n sem f b k env st) (run n sem g b' k' env' st)"
  using assms(2)
proof (induction n arbitrary: b k env b' k' env' st)
  case (Suc n)
  show ?case unfolding run.simps sim_result_def
  proof (rule out_sim_bind [OF step [OF Suc.prems]])
    fix x y :: "'a jump" assume "jump_sim R x y"
    then show "out_sim t (\<lambda>x y. y = x) (case x of Goto b k env st \<Rightarrow> run n sem f b k env st | _ \<Rightarrow> Done x)
         (case y of Goto b k env st \<Rightarrow> run n sem g b k env st | _ \<Rightarrow> Done y)"
      using Suc.IH by (cases x; cases y) (auto simp: sim_result_def)
  qed
qed (simp add: sim_result_def)

lemma sim_result_iff:
  "sim_result True o1 o2 \<longleftrightarrow> o1 = Stuck \<or> o2 = o1"
  "sim_result False o1 o2 \<longleftrightarrow> o1 = Stuck \<or> (\<exists>s. o1 = Trap s) \<or> o2 = o1"
  by (cases o1; auto simp: sim_result_def)+

lemma sim_result_refl [simp]: "sim_result t r r"
  by (cases r) (auto simp: sim_result_def)

end
