(* ===== verification/SsaSubst.thy ===== *)
theory SsaSubst
  imports SsaSem
begin

text \<open>
  Replacing values by equivalent ones: the common core of copy propagation, common-subexpression
  elimination and memory forwarding. A map \<open>\<sigma>\<close> sends every value to its representative; a
  value that is not its own representative dies and every operand is rewritten. If each dying
  value computes what its representative already holds, the function computes the same.
\<close>

definition listed :: "Func \<Rightarrow> nat \<Rightarrow> bool" where
  "listed f v \<longleftrightarrow> (\<exists>b \<in> set (Blocks f). v \<in> set (Values (fblk f b)))"

definition subst_value :: "(nat \<Rightarrow> nat) \<Rightarrow> nat \<Rightarrow> Value \<Rightarrow> Value" where
  "subst_value \<sigma> i v =
     (if vOp v = OpInvalid then v
      else if \<sigma> i \<noteq> i then v\<lparr>vOp := OpInvalid, vArgs := []\<rparr>
      else v\<lparr>vArgs := map (map_option \<sigma>) (vArgs v)\<rparr>)"

definition apply_subst :: "(nat \<Rightarrow> nat) \<Rightarrow> Func \<Rightarrow> Func" where
  "apply_subst \<sigma> f = f\<lparr>
     fval := (\<lambda>i. if listed f i then subst_value \<sigma> i (fval f i) else fval f i),
     fblk := (\<lambda>b. if b \<in> set (Blocks f)
                  then (fblk f b)\<lparr>Control := map_option \<sigma> (Control (fblk f b))\<rparr> else fblk f b)\<rparr>"

text \<open>
  What a dying value must satisfy, for one that is computed and for a phi; \<open>I\<close> is an invariant of
  the values and the state that the argument may rest on.
\<close>

definition dies_ok :: "'s sem \<Rightarrow> Func \<Rightarrow> (env \<Rightarrow> 's \<Rightarrow> bool) \<Rightarrow> (nat \<Rightarrow> nat) \<Rightarrow> nat \<Rightarrow> nat list \<Rightarrow> nat \<Rightarrow> bool" where
  "dies_ok sem f I \<sigma> b pre v \<longleftrightarrow>
     (\<forall>env0 st0 env st as. I env0 st0 \<longrightarrow> exec_vals sem f pre (env0, st0) = Done (env, st) \<longrightarrow>
        (\<forall>a. avail f b pre a \<longrightarrow> env a = env (\<sigma> a)) \<longrightarrow>
        arg_vals env (vArgs (fval f v)) = Some as \<longrightarrow>
        eval_value sem (fval f v) as st = Stuck \<or>
        (\<exists>r. eval_value sem (fval f v) as st = Done (r, st) \<and> env (\<sigma> v) = Some r))"

definition phi_dies_ok :: "Func \<Rightarrow> (nat \<Rightarrow> nat) \<Rightarrow> nat \<Rightarrow> nat \<Rightarrow> bool" where
  "phi_dies_ok f \<sigma> b v \<longleftrightarrow>
     (\<exists>d \<in> set (Blocks f). d \<noteq> b \<and> dom_by f d b \<and> \<sigma> v \<in> set (Values (fblk f d))) \<and>
     (\<forall>k a. k < length (Preds (fblk f b)) \<longrightarrow> k < length (vArgs (fval f v)) \<longrightarrow>
        vArgs (fval f v) ! k = Some a \<longrightarrow> \<sigma> a = \<sigma> v)"

definition markers :: "Func \<Rightarrow> nat \<Rightarrow> nat list" where
  "markers f b =
     (let n = (case bKind (fblk f b) of BlockRet \<Rightarrow> length (Results (Sig f))
               | BlockThrow \<Rightarrow> ThrowArgc (fblk f b) | _ \<Rightarrow> 0)
      in drop (length (Values (fblk f b)) - n) (Values (fblk f b)))"

definition keeps :: "'s sem \<Rightarrow> Func \<Rightarrow> (env \<Rightarrow> 's \<Rightarrow> bool) \<Rightarrow> bool" where
  "keeps sem f I \<longleftrightarrow>
     (\<forall>b \<in> set (Blocks f). \<forall>k env st env1. I env st \<longrightarrow> enter f (Values (fblk f b)) k env = Some env1 \<longrightarrow> I env1 st) \<and>
     (\<forall>v env st env1 st1. listed f v \<longrightarrow> I env st \<longrightarrow> exec_value sem f v (env, st) = Done (env1, st1) \<longrightarrow> I env1 st1)"

definition subst_ok :: "'s sem \<Rightarrow> Func \<Rightarrow> (env \<Rightarrow> 's \<Rightarrow> bool) \<Rightarrow> (nat \<Rightarrow> nat) \<Rightarrow> bool" where
  "subst_ok sem f I \<sigma> \<longleftrightarrow>
     (\<forall>v. \<sigma> (\<sigma> v) = \<sigma> v) \<and>
     (\<forall>b \<in> set (Blocks f). \<forall>v \<in> set (markers f b). \<sigma> v = v) \<and>
     (\<forall>b \<in> set (Blocks f). \<forall>pre v post. Values (fblk f b) = pre @ v # post \<longrightarrow> \<sigma> v \<noteq> v \<longrightarrow>
        vOp (fval f v) \<noteq> OpInvalid \<and>
        (if vOp (fval f v) = OpPhi then phi_dies_ok f \<sigma> b v
         else avail f b pre (\<sigma> v) \<and> dies_ok sem f I \<sigma> b pre v))"

lemma apply_subst_simps [simp]:
  "Blocks (apply_subst \<sigma> f) = Blocks f" "Entry (apply_subst \<sigma> f) = Entry f" "Sig (apply_subst \<sigma> f) = Sig f"
  "Values (fblk (apply_subst \<sigma> f) b) = Values (fblk f b)" "bKind (fblk (apply_subst \<sigma> f) b) = bKind (fblk f b)"
  "Succs (fblk (apply_subst \<sigma> f) b) = Succs (fblk f b)" "Preds (fblk (apply_subst \<sigma> f) b) = Preds (fblk f b)"
  by (simp_all add: apply_subst_def)

lemma fval_apply_subst: "listed f i \<Longrightarrow> fval (apply_subst \<sigma> f) i = subst_value \<sigma> i (fval f i)"
  by (simp add: apply_subst_def)

section \<open>The simulation\<close>

definition env_sim :: "(nat \<Rightarrow> nat) \<Rightarrow> env \<Rightarrow> env \<Rightarrow> bool" where
  "env_sim \<sigma> env env' \<longleftrightarrow> (\<forall>v. \<sigma> v = v \<longrightarrow> env' v = env v)"

definition holds_on :: "(nat \<Rightarrow> nat) \<Rightarrow> (nat \<Rightarrow> bool) \<Rightarrow> env \<Rightarrow> bool" where
  "holds_on \<sigma> P env \<longleftrightarrow> (\<forall>a. P a \<longrightarrow> env a = env (\<sigma> a))"

lemma subst_okD:
  assumes "subst_ok sem f I \<sigma>"
  shows "\<sigma> (\<sigma> v) = \<sigma> v"
    and "b \<in> set (Blocks f) \<Longrightarrow> v \<in> set (markers f b) \<Longrightarrow> \<sigma> v = v"
  using assms by (auto simp: subst_ok_def)

lemma subst_ok_dies:
  assumes "subst_ok sem f I \<sigma>" and "b \<in> set (Blocks f)" and "Values (fblk f b) = pre @ v # post" and "\<sigma> v \<noteq> v"
  shows "vOp (fval f v) \<noteq> OpInvalid"
    and "vOp (fval f v) = OpPhi \<Longrightarrow> phi_dies_ok f \<sigma> b v"
    and "vOp (fval f v) \<noteq> OpPhi \<Longrightarrow> avail f b pre (\<sigma> v)"
    and "vOp (fval f v) \<noteq> OpPhi \<Longrightarrow> dies_ok sem f I \<sigma> b pre v"
  using assms(1) assms(2-4) unfolding subst_ok_def by (metis (no_types))+

lemma arg_vals_subst:
  assumes "subst_ok sem f I \<sigma>" and "env_sim \<sigma> env env'" and "holds_on \<sigma> P env"
    and "\<And>a. Some a \<in> set as \<Longrightarrow> P a"
  shows "arg_vals env' (map (map_option \<sigma>) as) = arg_vals env as"
proof -
  have "arg_val env' (map_option \<sigma> a) = arg_val env a" if "a \<in> set as" for a
    using that assms(2-4) subst_okD(1) [OF assms(1)]
    by (auto simp: arg_val_def env_sim_def holds_on_def split: option.splits)
  then show ?thesis unfolding arg_vals_def map_map comp_def by (rule those_map_cong)
qed

text \<open>A representative never lies in a block strictly below its value.\<close>

lemma repr_dom:
  assumes "ssa_ok f" and "subst_ok sem f I \<sigma>" and "reachable f b" and "b \<in> set (Blocks f)"
    and "d \<in> set (Blocks f)" and "d \<noteq> b" and "dom_by f d b" and "a \<in> set (Values (fblk f d))"
  shows "\<sigma> a \<notin> set (Values (fblk f b))"
proof
  assume mem: "\<sigma> a \<in> set (Values (fblk f b))"
  have v: "vals_ok f" using assms(1) by (simp add: ssa_ok_def)
  obtain pre post where split: "Values (fblk f d) = pre @ a # post" using assms(8) by (meson split_list)
  show False
  proof (cases "\<sigma> a = a")
    case True
    then show False using vals_ok_unique [OF v assms(5) assms(4) assms(8)] mem assms(6) by simp
  next
    case ne: False
    note dies = subst_ok_dies [OF assms(2,5) split ne]
    have "(\<exists>c \<in> set (Blocks f). c \<noteq> d \<and> dom_by f c d \<and> \<sigma> a \<in> set (Values (fblk f c))) \<or> \<sigma> a \<in> set (Values (fblk f d))"
      using dies split by (cases "vOp (fval f a) = OpPhi") (auto simp: phi_dies_ok_def avail_def phi_ids_def)
    then show False
    proof
      assume "\<exists>c \<in> set (Blocks f). c \<noteq> d \<and> dom_by f c d \<and> \<sigma> a \<in> set (Values (fblk f c))"
      then obtain c where c: "c \<in> set (Blocks f)" "c \<noteq> d" "dom_by f c d" "\<sigma> a \<in> set (Values (fblk f c))"
        by auto
      then have "c = b" using vals_ok_unique [OF v c(1) assms(4)] mem by auto
      then have "b = d" using dom_by_antisym [of f d b] assms c by auto
      then show False using assms(6) by simp
    next
      assume "\<sigma> a \<in> set (Values (fblk f d))"
      then show False using vals_ok_unique [OF v assms(5) assms(4)] mem assms(6) by auto
    qed
  qed
qed

text \<open>A value and its representative are available together.\<close>

lemma repr_avail:
  assumes "ssa_ok f" and "subst_ok sem f I \<sigma>" and "reachable f b" and "b \<in> set (Blocks f)"
    and "Values (fblk f b) = pre @ v # post" and "runs (fval f v)" and "avail f b pre a"
  shows "a \<noteq> v" and "\<sigma> a \<noteq> v"
proof -
  have v: "vals_ok f" using assms(1) by (simp add: ssa_ok_def)
  have dist: "distinct (Values (fblk f b))" using v assms(4) by (simp add: vals_ok_def)
  have vb: "v \<in> set (Values (fblk f b))" using assms(5) by simp
  show av: "a \<noteq> v"
    using assms(5-7) dist vals_ok_unique [OF v _ assms(4) _ vb]
    by (auto simp: avail_def phi_ids_def runs_def)
  show "\<sigma> a \<noteq> v"
  proof (cases "\<sigma> a = a")
    case ne: False
    from assms(7) consider "a \<in> set pre" | "a \<in> phi_ids f (Values (fblk f b))"
      | d where "d \<in> set (Blocks f)" "d \<noteq> b" "dom_by f d b" "a \<in> set (Values (fblk f d))"
      by (auto simp: avail_def)
    then show ?thesis
    proof cases
      case 1
      then obtain p1 p2 where p: "pre = p1 @ a # p2" by (meson split_list)
      then have split: "Values (fblk f b) = p1 @ a # (p2 @ v # post)" using assms(5) by simp
      note dies = subst_ok_dies [OF assms(2,4) split ne]
      show ?thesis
      proof (cases "vOp (fval f a) = OpPhi")
        case True
        then show ?thesis using dies vals_ok_unique [OF v _ assms(4) _ vb] by (auto simp: phi_dies_ok_def)
      next
        case False
        then have "avail f b p1 (\<sigma> a)" using dies by simp
        then show ?thesis
          using p assms(5,6) dist vals_ok_unique [OF v _ assms(4) _ vb]
          by (auto simp: avail_def phi_ids_def runs_def)
      qed
    next
      case 2
      then obtain p1 p2 where split: "Values (fblk f b) = p1 @ a # p2" and phi: "vOp (fval f a) = OpPhi"
        unfolding phi_ids_def by (auto dest: split_list)
      then have "phi_dies_ok f \<sigma> b a" using subst_ok_dies(2) [OF assms(2,4) split ne] by simp
      then show ?thesis using vals_ok_unique [OF v _ assms(4) _ vb] by (auto simp: phi_dies_ok_def)
    next
      case 3
      then show ?thesis using repr_dom [OF assms(1-4), of d a] vb by auto
    qed
  qed (use av in simp)
qed

lemma exec_value_sim:
  assumes ok: "ssa_ok f" and sub: "subst_ok sem f I \<sigma>" and r: "reachable f b" and b: "b \<in> set (Blocks f)"
    and split: "Values (fblk f b) = pre @ v # post"
    and I0: "I env0 st0" and pre: "exec_vals sem f pre (env0, st0) = Done (env, st)"
    and sim: "env_sim \<sigma> env env'" and hold: "holds_on \<sigma> (avail f b pre) env"
  shows "out_sim True (\<lambda>s s'. snd s' = snd s \<and> env_sim \<sigma> (fst s) (fst s') \<and> holds_on \<sigma> (avail f b (pre @ [v])) (fst s))
    (exec_value sem f v (env, st)) (exec_value sem (apply_subst \<sigma> f) v (env', st))"
proof (cases "exec_value sem f v (env, st) = Stuck")
  case True
  then show ?thesis by simp
next
  case ns: False
  have listed: "listed f v" using b split unfolding listed_def by (intro bexI [of _ b]) auto
  have v: "fval (apply_subst \<sigma> f) v = subst_value \<sigma> v (fval f v)" by (rule fval_apply_subst [OF listed])
  have uses: "avail f b pre a" if "runs (fval f v)" "Some a \<in> set (vArgs (fval f v))" for a
    using ok b split that unfolding ssa_ok_def uses_ok_def by metis
  show ?thesis
  proof (cases "runs (fval f v)")
    case False
    then have sub_runs: "\<not> runs (subst_value \<sigma> v (fval f v))" by (auto simp: subst_value_def runs_def)
    have "holds_on \<sigma> (avail f b (pre @ [v])) env"
    proof (cases "vOp (fval f v) = OpPhi")
      case True
      then have "avail f b (pre @ [v]) a = avail f b pre a" for a
        using split by (auto simp: avail_def phi_ids_def)
      then show ?thesis using hold by (simp add: holds_on_def)
    next
      case False
      then have "vOp (fval f v) = OpInvalid" using \<open>\<not> runs (fval f v)\<close> by (simp add: runs_def)
      then have "\<sigma> v = v" using subst_ok_dies(1) [OF sub b split] by blast
      then show ?thesis using hold by (auto simp: holds_on_def avail_def)
    qed
    then show ?thesis using False sub_runs v sim by (simp add: exec_value_def)
  next
    case run: True
    have keep: "holds_on \<sigma> (avail f b (pre @ [v])) (env(v := x))" if "\<sigma> v = v \<or> env (\<sigma> v) = x" for x
    proof (unfold holds_on_def, intro allI impI)
      fix a assume "avail f b (pre @ [v]) a"
      then consider "a = v" | "avail f b pre a" by (auto simp: avail_def)
      then show "(env(v := x)) a = (env(v := x)) (\<sigma> a)"
      proof cases
        case 1
        then show ?thesis using that by auto
      next
        case 2
        then show ?thesis
          using repr_avail [OF ok sub r b split run 2] hold by (simp add: holds_on_def)
      qed
    qed
    show ?thesis
    proof (cases "\<sigma> v = v")
      case True
      then have v': "fval (apply_subst \<sigma> f) v = (fval f v)\<lparr>vArgs := map (map_option \<sigma>) (vArgs (fval f v))\<rparr>"
        using run v by (simp add: subst_value_def runs_def)
      have args: "arg_vals env' (map (map_option \<sigma>) (vArgs (fval f v))) = arg_vals env (vArgs (fval f v))"
        by (rule arg_vals_subst [OF sub sim hold uses [OF run]])
      have "env_sim \<sigma> (env(v := x)) (env'(v := x))" for x using sim by (simp add: env_sim_def)
      then show ?thesis
        using run True keep args v' ns
        by (cases "arg_vals env (vArgs (fval f v))")
          (auto simp: exec_value_def runs_def eval_value_def intro!: out_sim_bind [OF out_sim_same])
    next
      case ne: False
      have phi: "vOp (fval f v) \<noteq> OpPhi" using run by (simp add: runs_def)
      then have dies: "dies_ok sem f I \<sigma> b pre v" using subst_ok_dies(4) [OF sub b split ne] by simp
      have v': "\<not> runs (fval (apply_subst \<sigma> f) v)" using ne run v by (simp add: subst_value_def runs_def)
      obtain as where as: "arg_vals env (vArgs (fval f v)) = Some as"
        using ns run by (cases "arg_vals env (vArgs (fval f v))") (auto simp: exec_value_def)
      have "eval_value sem (fval f v) as st \<noteq> Stuck"
        using ns run as by (auto simp: exec_value_def)
      then obtain x where x: "eval_value sem (fval f v) as st = Done (x, st)" "env (\<sigma> v) = Some x"
        using dies I0 pre hold as unfolding dies_ok_def holds_on_def by blast
      have "exec_value sem f v (env, st) = Done (env(v \<mapsto> x), st)" using run as x by (simp add: exec_value_def)
      moreover have "exec_value sem (apply_subst \<sigma> f) v (env', st) = Done (env', st)"
        using v' by (simp add: exec_value_def)
      moreover have "env_sim \<sigma> (env(v \<mapsto> x)) env'" using sim ne by (auto simp: env_sim_def)
      ultimately show ?thesis using keep [of "Some x"] x by simp
    qed
  qed
qed

lemma exec_vals_sim:
  assumes ok: "ssa_ok f" and sub: "subst_ok sem f I \<sigma>" and r: "reachable f b" and b: "b \<in> set (Blocks f)"
    and split: "Values (fblk f b) = pre @ ids @ post"
    and I0: "I env0 st0" and pre: "exec_vals sem f pre (env0, st0) = Done (env, st)"
    and sim: "env_sim \<sigma> env env'" and hold: "holds_on \<sigma> (avail f b pre) env"
  shows "out_sim True (\<lambda>s s'. snd s' = snd s \<and> env_sim \<sigma> (fst s) (fst s') \<and> holds_on \<sigma> (avail f b (pre @ ids)) (fst s))
    (exec_vals sem f ids (env, st)) (exec_vals sem (apply_subst \<sigma> f) ids (env', st))"
  using split pre sim hold
proof (induction ids arbitrary: pre env env' st)
  case (Cons v ids)
  have split: "Values (fblk f b) = pre @ v # (ids @ post)" using Cons.prems(1) by simp
  note one = exec_value_sim [OF ok sub r b split I0 Cons.prems(2-4)]
  show ?case unfolding exec_vals.simps
  proof (rule out_sim_bind [OF one], goal_cases)
    case (1 x y)
    have "exec_vals sem f (pre @ [v]) (env0, st0) = Done (fst x, snd x)"
      using 1(1) Cons.prems(2) by (simp add: exec_vals_append)
    from Cons.IH [OF _ this, of "fst y"] show ?case
      using 1(3) Cons.prems(1) by (cases x; cases y) simp
  qed
qed simp

text \<open>The invariant of a configuration: what has been computed when a block is about to be entered.\<close>

definition cfg_inv :: "Func \<Rightarrow> (nat \<Rightarrow> nat) \<Rightarrow> nat \<Rightarrow> nat \<Rightarrow> env \<Rightarrow> bool" where
  "cfg_inv f \<sigma> s k env \<longleftrightarrow>
     s \<in> set (Blocks f) \<and> reachable f s \<and>
     (env = Map.empty \<and> Entry f = Some s \<or>
      (\<exists>p. edge f p s \<and> k < length (Preds (fblk f s)) \<and> eBlock (Preds (fblk f s) ! k) = p \<and>
         holds_on \<sigma> (\<lambda>a. dom_def f a p) env))"

definition subst_rel :: "Func \<Rightarrow> (env \<Rightarrow> 's \<Rightarrow> bool) \<Rightarrow> (nat \<Rightarrow> nat) \<Rightarrow> 's cfg_rel" where
  "subst_rel f I \<sigma> st b k env b' k' env' \<longleftrightarrow>
     b' = b \<and> k' = k \<and> env_sim \<sigma> env env' \<and> cfg_inv f \<sigma> b k env \<and> I env st"

lemma phi_val_subst:
  assumes sub: "subst_ok sem f I \<sigma>" and sim: "env_sim \<sigma> env env'" and mem: "listed f i"
    and phi: "vOp (fval f i) = OpPhi" and keep: "\<sigma> i = i"
    and hold: "holds_on \<sigma> P env"
    and P: "\<And>a. k < length (vArgs (fval f i)) \<Longrightarrow> vArgs (fval f i) ! k = Some a \<Longrightarrow> P a"
  shows "phi_val (apply_subst \<sigma> f) k env' i = phi_val f k env i"
  using assms(2-) subst_okD(1) [OF sub]
  by (auto simp: phi_val_def fval_apply_subst subst_value_def arg_val_def env_sim_def holds_on_def split: option.splits)

lemma entry_dom: "Entry f = Some s \<Longrightarrow> dom_by f d s \<Longrightarrow> d = s"
  using avoids.entry [of f s "{d}"] by (auto simp: dom_by_def)

lemma enter_sim:
  assumes ok: "ssa_ok f" and sub: "subst_ok sem f I \<sigma>" and rel: "subst_rel f I \<sigma> st s k env b' k' env'"
    and en: "enter f (Values (fblk f s)) k env = Some env1"
  shows "\<exists>env1'. enter (apply_subst \<sigma> f) (Values (fblk f s)) k env' = Some env1' \<and>
    env_sim \<sigma> env1 env1' \<and> holds_on \<sigma> (avail f s []) env1"
proof -
  let ?vs = "Values (fblk f s)"
  let ?g = "apply_subst \<sigma> f"
  have sim: "env_sim \<sigma> env env'" and inv: "cfg_inv f \<sigma> s k env" using rel by (auto simp: subst_rel_def)
  then have s: "s \<in> set (Blocks f)" and r: "reachable f s" by (auto simp: cfg_inv_def)
  have v: "vals_ok f" using ok by (simp add: ssa_ok_def)
  define P where "P a \<longleftrightarrow> env a = env (\<sigma> a)" for a
  have phi_def: "phi_val f k env i \<noteq> None" if "i \<in> phi_ids f ?vs" for i
    using en that by (auto simp: enter_def phi_ids_def split: if_splits)
  have env1: "env1 = (\<lambda>i. if i \<in> phi_ids f ?vs then phi_val f k env i else env i)"
    using en by (auto simp: enter_def split: if_splits)
  have arg_ok: "\<exists>a. k < length (vArgs (fval f i)) \<and> vArgs (fval f i) ! k = Some a \<and> env a \<noteq> None \<and> P a
      \<and> k < length (Preds (fblk f s))"
    if i: "i \<in> phi_ids f ?vs" for i
  proof -
    obtain a where a: "k < length (vArgs (fval f i))" "vArgs (fval f i) ! k = Some a" "env a \<noteq> None"
      using phi_def [OF i] by (auto simp: phi_val_def arg_val_def split: if_splits option.splits)
    then have "env \<noteq> Map.empty" by auto
    then obtain p where p: "k < length (Preds (fblk f s))" "eBlock (Preds (fblk f s) ! k) = p" "holds_on \<sigma> (\<lambda>a. dom_def f a p) env"
      using inv by (auto simp: cfg_inv_def)
    have "dom_def f a p" using ok s i a p by (auto simp: ssa_ok_def uses_ok_def)
    then show ?thesis using a p by (auto simp: holds_on_def P_def)
  qed
  have g_phi: "vOp (fval ?g i) = OpPhi \<longleftrightarrow> vOp (fval f i) = OpPhi \<and> \<sigma> i = i" if "i \<in> set ?vs" for i
  proof -
    have "listed f i" using that s by (auto simp: listed_def)
    then show ?thesis by (auto simp: fval_apply_subst subst_value_def)
  qed
  have same: "phi_val ?g k env' i = phi_val f k env i" if "i \<in> phi_ids f ?vs" "\<sigma> i = i" for i
  proof (rule phi_val_subst [OF sub sim, where P = P])
    show "listed f i" using that s by (auto simp: listed_def phi_ids_def)
    show "P a" if "vArgs (fval f i) ! k = Some a" for a using arg_ok [OF \<open>i \<in> phi_ids f ?vs\<close>] that by auto
  qed (use that in \<open>auto simp: phi_ids_def holds_on_def P_def\<close>)
  define env1' where "env1' = (\<lambda>i. if i \<in> phi_ids ?g ?vs then phi_val ?g k env' i else env' i)"
  have en': "enter ?g ?vs k env' = Some env1'"
    using phi_def same g_phi by (auto simp: enter_def env1'_def phi_ids_def)
  have sim1: "env_sim \<sigma> env1 env1'"
    using same sim g_phi by (auto simp: env_sim_def env1 env1'_def phi_ids_def)
  have "env1 a = env1 (\<sigma> a)" if av: "avail f s [] a" for a
  proof (cases "\<sigma> a = a")
    case ne: False
    show ?thesis
    proof (cases "a \<in> phi_ids f ?vs")
      case True
      then obtain p1 p2 where sp: "?vs = p1 @ a # p2" and phi: "vOp (fval f a) = OpPhi"
        unfolding phi_ids_def by (auto dest: split_list)
      have dies: "phi_dies_ok f \<sigma> s a" using subst_ok_dies(2) [OF sub s sp ne phi] .
      obtain x where x: "k < length (vArgs (fval f a))" "vArgs (fval f a) ! k = Some x" "P x" "k < length (Preds (fblk f s))"
        using arg_ok [OF True] by auto
      then have "\<sigma> x = \<sigma> a" using dies by (auto simp: phi_dies_ok_def)
      moreover have "\<sigma> a \<notin> set ?vs" using dies vals_ok_unique [OF v s] by (auto simp: phi_dies_ok_def)
      ultimately show ?thesis using x True by (simp add: env1 P_def phi_val_def arg_val_def phi_ids_def)
    next
      case False
      then obtain d where d: "d \<in> set (Blocks f)" "d \<noteq> s" "dom_by f d s" "a \<in> set (Values (fblk f d))"
        using av by (auto simp: avail_def)
      have "env a = env (\<sigma> a)"
      proof (cases "env = Map.empty")
        case False
        then obtain p where "edge f p s" "holds_on \<sigma> (\<lambda>a. dom_def f a p) env" using inv by (auto simp: cfg_inv_def)
        then show ?thesis using dom_by_pred [of f d s p] d by (auto simp: holds_on_def dom_def_def)
      qed simp
      moreover have "\<sigma> a \<notin> set ?vs" by (rule repr_dom [OF ok sub r s d])
      ultimately show ?thesis using False by (auto simp: env1 phi_ids_def)
    qed
  qed simp
  then show ?thesis using en' sim1 by (auto simp: holds_on_def)
qed

lemma keeps_exec:
  assumes "keeps sem f I" and "\<And>v. v \<in> set ids \<Longrightarrow> listed f v"
    and "I (fst s) (snd s)" and "exec_vals sem f ids s = Done s'"
  shows "I (fst s') (snd s')"
  using assms(2-)
proof (induction ids arbitrary: s)
  case (Cons v ids)
  then obtain t where t: "exec_value sem f v s = Done t" "exec_vals sem f ids t = Done s'" by auto
  then have "I (fst t) (snd t)"
    using assms(1) Cons.prems(1,2) unfolding keeps_def by (metis list.set_intros(1) prod.collapse)
  then show ?case using Cons.IH [OF _ _ t(2)] Cons.prems(1) by simp
qed auto

lemma terminate_sim:
  assumes ok: "ssa_ok f" and sub: "subst_ok sem f I \<sigma>" and b: "b \<in> set (Blocks f)" and r: "reachable f b"
    and sim: "env_sim \<sigma> env env'" and hold: "holds_on \<sigma> (\<lambda>a. dom_def f a b) env" and I: "I env st"
  shows "out_sim True (jump_sim (subst_rel f I \<sigma>)) (terminate (Sig f) (fblk f b) env st)
    (terminate (Sig (apply_subst \<sigma> f)) (fblk (apply_subst \<sigma> f) b) env' st)"
proof -
  let ?g = "apply_subst \<sigma> f"
  have cfg: "cfg_ok f" using ok by (simp add: ssa_ok_def)
  have edge: "out_sim True (jump_sim (subst_rel f I \<sigma>)) (take_edge (fblk f b) j env st) (take_edge (fblk ?g b) j env' st)" for j
  proof (cases "j < length (Succs (fblk f b))")
    case True
    note succ = cfg_ok_succ [OF cfg b True]
    have "cfg_inv f \<sigma> (eBlock (Succs (fblk f b) ! j)) (eIndex (Succs (fblk f b) ! j)) env"
      using succ hold avoids.step [OF r succ(4)] by (auto simp: cfg_inv_def)
    then show ?thesis using True sim I by (simp add: take_edge_def subst_rel_def)
  qed (simp add: take_edge_def)
  have control: "arg_val env' (Control (fblk ?g b)) = arg_val env (Control (fblk f b))"
  proof (cases "Control (fblk f b)")
    case (Some c)
    then have "dom_def f c b" using ok b by (auto simp: ssa_ok_def uses_ok_def)
    then show ?thesis
      using Some b sim hold subst_okD(1) [OF sub] by (simp add: apply_subst_def arg_val_def env_sim_def holds_on_def)
  qed (simp add: apply_subst_def arg_val_def)
  have marks: "those (map env' (markers f b)) = those (map env (markers f b))"
    using subst_okD(2) [OF sub b] sim by (intro those_map_cong) (auto simp: env_sim_def)
  have blk: "ThrowArgc (fblk ?g b) = ThrowArgc (fblk f b)" "TagIndex (fblk ?g b) = TagIndex (fblk f b)"
    "IsRethrow (fblk ?g b) = IsRethrow (fblk f b)" "table_target (fblk ?g b) = table_target (fblk f b)"
    by (simp_all add: apply_subst_def table_target_def fun_eq_iff split: list.splits)
  show ?thesis
    using edge [of 0] edge [of 1] edge control marks
    by (cases "bKind (fblk f b)")
      (auto simp: terminate_def blk markers_def marker_vals_def split: option.splits wval.splits)
qed

theorem subst_sound:
  assumes ok: "ssa_ok f" and sub: "subst_ok sem f I \<sigma>" and keep: "keeps sem f I" and init: "I Map.empty st"
  shows "sim_result True (run_func n sem f st) (run_func n sem (apply_subst \<sigma> f) st)"
proof -
  have cfg: "cfg_ok f" and v: "vals_ok f" using ok by (auto simp: ssa_ok_def)
  obtain e where e: "Entry f = Some e" "e \<in> set (Blocks f)" using cfg by (auto simp: cfg_ok_def)
  have "sim_result True (run n sem f e 0 Map.empty st) (run n sem (apply_subst \<sigma> f) e 0 Map.empty st)"
  proof (rule run_sim [where R = "subst_rel f I \<sigma>"])
    show "subst_rel f I \<sigma> st e 0 Map.empty e 0 Map.empty"
      using e init avoids.entry [of f e "{}"] by (auto simp: subst_rel_def env_sim_def cfg_inv_def)
  next
    fix b k env b' k' env' st assume rel: "subst_rel f I \<sigma> st b k env b' k' env'"
    then have b: "b \<in> set (Blocks f)" and r: "reachable f b" and b': "b' = b" "k' = k"
      by (auto simp: subst_rel_def cfg_inv_def)
    show "out_sim True (jump_sim (subst_rel f I \<sigma>)) (step_block sem f b k env st) (step_block sem (apply_subst \<sigma> f) b' k' env' st)"
    proof (cases "enter f (Values (fblk f b)) k env")
      case None
      then show ?thesis by (simp add: step_block_def)
    next
      case (Some env1)
      then obtain env1' where en: "enter (apply_subst \<sigma> f) (Values (fblk f b)) k env' = Some env1'"
        and sim: "env_sim \<sigma> env1 env1'" and hold: "holds_on \<sigma> (avail f b []) env1"
        using enter_sim [OF ok sub rel] by blast
      have I1: "I env1 st" using keep b rel Some by (auto simp: keeps_def subst_rel_def)
      have "out_sim True (jump_sim (subst_rel f I \<sigma>))
          (bind_outcome (exec_vals sem f (Values (fblk f b)) (env1, st)) (\<lambda>(env, st). terminate (Sig f) (fblk f b) env st))
          (bind_outcome (exec_vals sem (apply_subst \<sigma> f) (Values (fblk f b)) (env1', st))
            (\<lambda>(env, st). terminate (Sig (apply_subst \<sigma> f)) (fblk (apply_subst \<sigma> f) b) env st))"
      proof (rule out_sim_bind [OF exec_vals_sim [OF ok sub r b, where pre = "[]" and post = "[]", OF _ I1 _ sim hold]])
        fix x y
        assume ex: "exec_vals sem f (Values (fblk f b)) (env1, st) = Done x"
        have "I (fst x) (snd x)" using keeps_exec [OF keep _ _ ex] b I1 by (auto simp: listed_def)
        moreover assume "snd y = snd x \<and> env_sim \<sigma> (fst x) (fst y) \<and> holds_on \<sigma> (avail f b ([] @ Values (fblk f b))) (fst x)"
        ultimately show "out_sim True (jump_sim (subst_rel f I \<sigma>)) (case x of (env, st) \<Rightarrow> terminate (Sig f) (fblk f b) env st)
            (case y of (env, st) \<Rightarrow> terminate (Sig (apply_subst \<sigma> f)) (fblk (apply_subst \<sigma> f) b) env st)"
          using terminate_sim [OF ok sub b r, of "fst x" "fst y" "snd x"] avail_all [OF b]
          by (cases x; cases y) (simp add: holds_on_def)
      qed auto
      then show ?thesis using Some en b' by (simp add: step_block_def)
    qed
  qed
  then show ?thesis using e by (simp add: run_func_def)
qed

end
