(* ===== verification/SsaStraight.thy ===== *)
theory SsaStraight
  imports SsaSubst
begin

text \<open>
  Functions of a single block, to run the passes on: the values are numbered from one in the order
  of the list, and the last ones are the return markers.
\<close>

definition value_of :: "Op \<Rightarrow> Type \<Rightarrow> i64 \<Rightarrow> nat list \<Rightarrow> Value" where
  "value_of op typ c as = \<lparr>vOp = op, vTyp = typ, vArgs = map Some as, vAuxInt = c, vAux = AuxNil, vBlock = Some 0\<rparr>"

definition straight :: "Type list \<Rightarrow> Value list \<Rightarrow> Func" where
  "straight ts vs = (NewFunc ''f'' \<lparr>Params = [], Results = ts\<rparr>)\<lparr>
     Blocks := [0], Entry := Some 0,
     fblk := (\<lambda>b. if b = 0 then zero_block\<lparr>bKind := BlockRet, Values := [1..<Suc (length vs)]\<rparr> else zero_block),
     fval := (\<lambda>i. if i = 0 \<or> length vs < i then nil_value else vs ! (i - 1)),
     nextValueID := Suc (length vs), nextBlockID := 1\<rparr>"

lemma straight_simps [simp]:
  "Blocks (straight ts vs) = [0]" "Entry (straight ts vs) = Some 0" "Params (Sig (straight ts vs)) = []"
  "Results (Sig (straight ts vs)) = ts"
  "Values (fblk (straight ts vs) 0) = [1..<Suc (length vs)]" "bKind (fblk (straight ts vs) 0) = BlockRet"
  "Succs (fblk (straight ts vs) b) = []" "Preds (fblk (straight ts vs) b) = []"
  "Control (fblk (straight ts vs) b) = None"
  by (simp_all add: straight_def NewFunc_def zero_block_def)

lemma fval_straight: "fval (straight ts vs) i = (if i = 0 \<or> length vs < i then nil_value else vs ! (i - 1))"
  by (simp add: straight_def)

definition straight_ok :: "Value list \<Rightarrow> bool" where
  "straight_ok vs \<longleftrightarrow>
     list_all (\<lambda>(i, v). vBlock v = Some 0 \<and> vOp v \<noteq> OpPhi \<and>
        list_all (\<lambda>a. case a of None \<Rightarrow> True | Some x \<Rightarrow> 1 \<le> x \<and> x \<le> i) (vArgs v)) (zip [0..<length vs] vs)"

lemma straight_ok_nth:
  assumes "straight_ok vs" and "i < length vs"
  shows "vBlock (vs ! i) = Some 0" and "vOp (vs ! i) \<noteq> OpPhi"
    and "Some x \<in> set (vArgs (vs ! i)) \<Longrightarrow> 1 \<le> x \<and> x \<le> i"
proof -
  have "(i, vs ! i) \<in> set (zip [0..<length vs] vs)" using assms(2) by (force simp: set_zip)
  then have "case (i, vs ! i) of (i, v) \<Rightarrow> vBlock v = Some 0 \<and> vOp v \<noteq> OpPhi \<and>
        list_all (\<lambda>a. case a of None \<Rightarrow> True | Some x \<Rightarrow> 1 \<le> x \<and> x \<le> i) (vArgs v)"
    using assms(1) unfolding straight_ok_def list_all_iff by (rule bspec [rotated])
  then show "vBlock (vs ! i) = Some 0" and "vOp (vs ! i) \<noteq> OpPhi"
    and "Some x \<in> set (vArgs (vs ! i)) \<Longrightarrow> 1 \<le> x \<and> x \<le> i" by (auto simp: list_all_iff)
qed

lemma straight_ssa_ok:
  assumes "straight_ok vs"
  shows "ssa_ok (straight ts vs)"
proof -
  let ?f = "straight ts vs"
  have cfg: "cfg_ok ?f" by (simp add: cfg_ok_def)
  have vals: "vals_ok ?f"
    using straight_ok_nth(1) [OF assms] by (auto simp: vals_ok_def fval_straight)
  have "avail ?f 0 pre a"
    if split: "[1..<Suc (length vs)] = pre @ v # post" and a: "Some a \<in> set (vArgs (fval ?f v))" for pre v post a
  proof -
    have len: "length pre < length vs" using arg_cong [OF split, of length] by (simp del: upt_Suc)
    have "v = [1..<Suc (length vs)] ! length pre" using split by (simp del: upt_Suc)
    then have v: "v = Suc (length pre)" using len by (subst (asm) nth_upt) auto
    have pre: "pre = take (length pre) [1..<Suc (length vs)]" using split by (simp del: upt_Suc)
    have "1 \<le> a \<and> a \<le> length pre"
      using straight_ok_nth(3) [OF assms len] a v len by (auto simp: fval_straight)
    then have "a \<in> set pre" using len by (subst pre) (auto simp: take_upt simp del: upt_Suc)
    then show ?thesis by (simp add: avail_def)
  qed
  moreover have "phi_ids ?f [1..<Suc (length vs)] = {}"
    using straight_ok_nth(2) [OF assms] by (auto simp: phi_ids_def fval_straight nil_value_def)
  ultimately have "uses_ok ?f" by (auto simp: uses_ok_def simp del: upt_Suc)
  with cfg vals show ?thesis by (simp add: ssa_ok_def)
qed


lemmas run_straight_simps =
  run_func_def step_block_def enter_def exec_value_def runs_def fval_straight value_of_def
  arg_vals_def arg_val_def eval_value_def std_sem_def int_ops_def terminate_def marker_vals_def upt_rec phi_ids_def

text \<open>A machine with nothing but a memory size, for concrete runs.\<close>

definition size_ext :: "u32 sem" where
  "size_ext op t c aux as st =
     (if op = OpMemSize \<and> as = [] then Done (W32 st, st)
      else if op = OpMemGrow then (case as of [W32 d] \<Rightarrow> Done (W32 st, st + d) | _ \<Rightarrow> Stuck)
      else Stuck)"

definition sum_func :: Func where
  "sum_func = straight [TypeI32]
     [value_of OpConst32 TypeI32 5 [], value_of OpConst32 TypeI32 7 [],
      value_of OpAdd32 TypeI32 0 [1, 2], value_of OpAdd32 TypeI32 0 [2, 1],
      value_of OpMul32 TypeI32 0 [3, 4], value_of OpCopy TypeI32 0 [5]]"

lemma sum_func_ok: "ssa_ok sum_func"
  unfolding sum_func_def by (rule straight_ssa_ok) (simp add: straight_ok_def value_of_def upt_rec)

lemma sum_func_run: "run_func 1 (std_sem size_ext) sum_func 0 = Done (Return [W32 144] 0)"
  by (simp add: sum_func_def run_straight_simps)

end
