(* ===== verification/RtInt.thy ===== *)
theory RtInt
  imports Prelude "HOL-Library.Signed_Division"
begin

text \<open>
  The integer helpers that generated code calls, from
  \<^verbatim>\<open>internal/codegen/helpers/helpers.go\<close>: division with its traps, shifts and rotates with
  the count taken modulo the width, bit counts, comparisons, wraps and sign extensions. A wasm trap
  is a Go panic with its message, the left of a sum. Each helper is compared with the arithmetic
  the wasm specification gives the instruction.
\<close>

type_synonym 'a trap = "string + 'a"

definition trap_div_zero :: "'a trap" where
  "trap_div_zero = Inl ''wasm: integer divide by zero''"

definition trap_int_overflow :: "'a trap" where
  "trap_int_overflow = Inl ''wasm: integer overflow''"

definition trap_invalid_conv :: "'a trap" where
  "trap_invalid_conv = Inl ''wasm: invalid conversion to integer''"

lemma traps_differ [simp]:
  "trap_div_zero \<noteq> Inr v" "trap_int_overflow \<noteq> Inr v" "trap_invalid_conv \<noteq> Inr v"
  "Inr v \<noteq> trap_div_zero" "Inr v \<noteq> trap_int_overflow" "Inr v \<noteq> trap_invalid_conv"
  "trap_div_zero \<noteq> trap_int_overflow" "trap_int_overflow \<noteq> trap_div_zero"
  by (simp_all add: trap_div_zero_def trap_int_overflow_def trap_invalid_conv_def)

section \<open>Go's integer operators\<close>

text \<open>Go's \<^verbatim>\<open>/\<close> and \<^verbatim>\<open>%\<close> on signed integers truncate toward zero, and wrap.\<close>

definition go_sdiv :: "'a::len word \<Rightarrow> 'a word \<Rightarrow> 'a word" where
  "go_sdiv x y = word_of_int (sint x sdiv sint y)"

definition go_smod :: "'a::len word \<Rightarrow> 'a word \<Rightarrow> 'a word" where
  "go_smod x y = word_of_int (sint x smod sint y)"

text \<open>\<^verbatim>\<open>bits.RotateLeft32/64\<close>: the count is an \<^verbatim>\<open>int\<close>, reduced modulo the width.\<close>

definition go_RotateLeft :: "'a::len word \<Rightarrow> int \<Rightarrow> 'a word" where
  "go_RotateLeft x k =
     (let s = nat (k mod int LENGTH('a)) in push_bit s x OR drop_bit (LENGTH('a) - s) x)"

text \<open>\<^verbatim>\<open>bits.LeadingZeros\<close>, \<^verbatim>\<open>bits.TrailingZeros\<close> and \<^verbatim>\<open>bits.OnesCount\<close>.\<close>

definition go_LeadingZeros :: "'a::len word \<Rightarrow> nat" where
  "go_LeadingZeros x = length (takeWhile (\<lambda>k. \<not> bit x k) (rev [0..<LENGTH('a)]))"

definition go_TrailingZeros :: "'a::len word \<Rightarrow> nat" where
  "go_TrailingZeros x = length (takeWhile (\<lambda>k. \<not> bit x k) [0..<LENGTH('a)])"

definition go_OnesCount :: "'a::len word \<Rightarrow> nat" where
  "go_OnesCount x = length (filter (bit x) [0..<LENGTH('a)])"

section \<open>The helpers\<close>

definition b2i32 :: "bool \<Rightarrow> i32" where
  "b2i32 b = (if b then 1 else 0)"

definition b32 :: "bool \<Rightarrow> i32" where
  "b32 b = (if b then 1 else 0)"

definition MinInt32 :: i32 where "MinInt32 = 0x80000000"
definition MinInt64 :: i64 where "MinInt64 = 0x8000000000000000"

definition i32_div_s :: "i32 \<Rightarrow> i32 \<Rightarrow> i32 trap" where
  "i32_div_s x y =
     (if y = - 1 \<and> x = MinInt32 then trap_int_overflow
      else if y = 0 then trap_div_zero
      else Inr (go_sdiv x y))"

definition i64_div_s :: "i64 \<Rightarrow> i64 \<Rightarrow> i64 trap" where
  "i64_div_s x y =
     (if y = - 1 \<and> x = MinInt64 then trap_int_overflow
      else if y = 0 then trap_div_zero
      else Inr (go_sdiv x y))"

definition i32_div_u :: "u32 \<Rightarrow> u32 \<Rightarrow> u32 trap" where
  "i32_div_u x y = (if y = 0 then trap_div_zero else Inr (x div y))"

definition i64_div_u :: "u64 \<Rightarrow> u64 \<Rightarrow> u64 trap" where
  "i64_div_u x y = (if y = 0 then trap_div_zero else Inr (x div y))"

definition i32_rem_s :: "i32 \<Rightarrow> i32 \<Rightarrow> i32 trap" where
  "i32_rem_s x y =
     (if y = 0 then trap_div_zero else if y = - 1 then Inr 0 else Inr (go_smod x y))"

definition i64_rem_s :: "i64 \<Rightarrow> i64 \<Rightarrow> i64 trap" where
  "i64_rem_s x y =
     (if y = 0 then trap_div_zero else if y = - 1 then Inr 0 else Inr (go_smod x y))"

definition i32_rem_u :: "u32 \<Rightarrow> u32 \<Rightarrow> u32 trap" where
  "i32_rem_u x y = (if y = 0 then trap_div_zero else Inr (x mod y))"

definition i64_rem_u :: "u64 \<Rightarrow> u64 \<Rightarrow> u64 trap" where
  "i64_rem_u x y = (if y = 0 then trap_div_zero else Inr (x mod y))"

text \<open>The adapters of the unsigned divisions to signed arguments; the conversions keep the bits.\<close>

definition i32_div_u_s :: "i32 \<Rightarrow> i32 \<Rightarrow> i32 trap" where "i32_div_u_s x y = i32_div_u x y"
definition i32_rem_u_s :: "i32 \<Rightarrow> i32 \<Rightarrow> i32 trap" where "i32_rem_u_s x y = i32_rem_u x y"
definition i64_div_u_s :: "i64 \<Rightarrow> i64 \<Rightarrow> i64 trap" where "i64_div_u_s x y = i64_div_u x y"
definition i64_rem_u_s :: "i64 \<Rightarrow> i64 \<Rightarrow> i64 trap" where "i64_rem_u_s x y = i64_rem_u x y"

definition i32_shl :: "i32 \<Rightarrow> i32 \<Rightarrow> i32" where
  "i32_shl x y = push_bit (unat (y AND 31)) x"

definition i32_shr_s :: "i32 \<Rightarrow> i32 \<Rightarrow> i32" where
  "i32_shr_s x y = signed_drop_bit (unat (y AND 31)) x"

definition i32_shr_u :: "i32 \<Rightarrow> i32 \<Rightarrow> i32" where
  "i32_shr_u x y = drop_bit (unat (y AND 31)) x"

definition i32_rotl :: "i32 \<Rightarrow> i32 \<Rightarrow> i32" where
  "i32_rotl x y = go_RotateLeft x (sint (y AND 31))"

definition i32_rotr :: "i32 \<Rightarrow> i32 \<Rightarrow> i32" where
  "i32_rotr x y = go_RotateLeft x (- sint (y AND 31))"

definition i64_shl :: "i64 \<Rightarrow> i64 \<Rightarrow> i64" where
  "i64_shl x y = push_bit (unat (y AND 63)) x"

definition i64_shr_s :: "i64 \<Rightarrow> i64 \<Rightarrow> i64" where
  "i64_shr_s x y = signed_drop_bit (unat (y AND 63)) x"

definition i64_shr_u :: "i64 \<Rightarrow> i64 \<Rightarrow> i64" where
  "i64_shr_u x y = drop_bit (unat (y AND 63)) x"

definition i64_rotl :: "i64 \<Rightarrow> i64 \<Rightarrow> i64" where
  "i64_rotl x y = go_RotateLeft x (sint (y AND 63))"

definition i64_rotr :: "i64 \<Rightarrow> i64 \<Rightarrow> i64" where
  "i64_rotr x y = go_RotateLeft x (- sint (y AND 63))"

definition i32_eqz :: "i32 \<Rightarrow> i32" where
  "i32_eqz x = (if x = 0 then 1 else 0)"

definition i64_eqz :: "i64 \<Rightarrow> i32" where
  "i64_eqz x = (if x = 0 then 1 else 0)"

definition i32_clz :: "i32 \<Rightarrow> i32" where "i32_clz x = word_of_nat (go_LeadingZeros x)"
definition i32_ctz :: "i32 \<Rightarrow> i32" where "i32_ctz x = word_of_nat (go_TrailingZeros x)"
definition i32_popcnt :: "i32 \<Rightarrow> i32" where "i32_popcnt x = word_of_nat (go_OnesCount x)"
definition i64_clz :: "i64 \<Rightarrow> i64" where "i64_clz x = word_of_nat (go_LeadingZeros x)"
definition i64_ctz :: "i64 \<Rightarrow> i64" where "i64_ctz x = word_of_nat (go_TrailingZeros x)"
definition i64_popcnt :: "i64 \<Rightarrow> i64" where "i64_popcnt x = word_of_nat (go_OnesCount x)"

definition i32_wrap_i64 :: "i64 \<Rightarrow> i32" where "i32_wrap_i64 x = ucast x"
definition i64_extend_i32_s :: "i32 \<Rightarrow> i64" where "i64_extend_i32_s x = scast x"
definition i64_extend_i32_u :: "i32 \<Rightarrow> i64" where "i64_extend_i32_u x = ucast x"

definition i32_extend8_s :: "i32 \<Rightarrow> i32" where "i32_extend8_s x = scast (ucast x :: byte)"
definition i32_extend16_s :: "i32 \<Rightarrow> i32" where "i32_extend16_s x = scast (ucast x :: u16)"
definition i64_extend8_s :: "i64 \<Rightarrow> i64" where "i64_extend8_s x = scast (ucast x :: byte)"
definition i64_extend16_s :: "i64 \<Rightarrow> i64" where "i64_extend16_s x = scast (ucast x :: u16)"
definition i64_extend32_s :: "i64 \<Rightarrow> i64" where "i64_extend32_s x = scast (ucast x :: u32)"

section \<open>Division\<close>

lemma sdiv_bounds:
  fixes a b :: int
  assumes a: "- N \<le> a" "a < N" and b: "\<not> (a = - N \<and> b = - 1)"
  shows "- N \<le> a sdiv b" and "a sdiv b < N"
proof -
  have r: "- \<bar>a\<bar> \<le> a sdiv b" "a sdiv b \<le> \<bar>a\<bar>" using sdiv_int_range [of a b] by simp_all
  then show "- N \<le> a sdiv b" using a by linarith
  show "a sdiv b < N"
  proof (rule ccontr)
    assume "\<not> a sdiv b < N"
    then have "a sdiv b = - a" and "a = - N" and "a \<noteq> 0" using r a by linarith+
    then show False using b int_sdiv_negated_is_minus1 [of a b] by simp
  qed
qed

lemma sint_bounds: "- (2 ^ (LENGTH('a) - 1)) \<le> sint (x :: 'a::len word)" "sint x < 2 ^ (LENGTH('a) - 1)"
  using sint_greater_eq [of x] sint_less [of x] by simp_all

lemma sint_word_of_int_self:
  assumes "- (2 ^ (LENGTH('a) - 1)) \<le> k" and "k < 2 ^ (LENGTH('a) - 1)"
  shows "sint (word_of_int k :: 'a::len word) = k"
  using assms by (simp add: signed_of_int signed_take_bit_int_eq_self)

lemma unat_eq_nat_sint: "0 \<le> sint (w :: 'a::len word) \<Longrightarrow> unat w = nat (sint w)"
proof -
  assume "0 \<le> sint w"
  have "uint w = take_bit LENGTH('a) (sint w)" by (rule uint_sint)
  also have "\<dots> = sint w"
    using \<open>0 \<le> sint w\<close> sint_bounds(2) [of w]
    by (intro take_bit_int_eq_self) (auto intro: less_le_trans power_increasing)
  finally have "nat (uint w) = nat (sint w)" by (rule arg_cong)
  then show ?thesis by (simp only: nat_uint_eq)
qed

lemma sint_scast_up:
  assumes "LENGTH('a) \<le> LENGTH('b)"
  shows "sint (scast (w :: 'a::len word) :: 'b::len word) = sint w"
proof -
  have "2 ^ (LENGTH('a) - 1) \<le> (2 :: int) ^ (LENGTH('b) - 1)" using assms by (intro power_increasing) auto
  then have "sint (word_of_int (sint w) :: 'b word) = sint w"
    using sint_bounds [of w] by (intro sint_word_of_int_self) linarith+
  then show ?thesis by simp
qed

lemma unat_scast_pos: "0 \<le> sint (n :: i32) \<Longrightarrow> unat (scast n :: u64) = nat (sint n)"
  using unat_eq_nat_sint [of "scast n :: u64"] by (simp add: sint_scast_up)

lemma sint_go_sdiv:
  fixes x y :: "'a::len word"
  assumes "\<not> (sint x = - (2 ^ (LENGTH('a) - 1)) \<and> sint y = - 1)"
  shows "sint (go_sdiv x y) = sint x sdiv sint y"
  unfolding go_sdiv_def
  by (intro sint_word_of_int_self sdiv_bounds sint_bounds assms)

lemma sint_go_smod:
  fixes x y :: "'a::len word"
  assumes "sint y \<noteq> 0"
  shows "sint (go_smod x y) = sint x smod sint y"
proof -
  have "sint x smod sint y \<in> {- \<bar>sint y\<bar> + 1..\<bar>sint y\<bar> - 1}" using assms by (rule smod_int_range)
  then show ?thesis
    unfolding go_smod_def using sint_bounds [of y] by (intro sint_word_of_int_self) auto
qed

lemma sint_eq_0_iff: "sint (y :: 'a::len word) = 0 \<longleftrightarrow> y = 0"
  by (rule signed_eq_0_iff)

lemma sint_eq_iff: "sint x = sint y \<longleftrightarrow> x = (y :: 'a::len word)"
  by (auto intro: signed_word_eqI)

lemma sint_eq_m1_iff: "sint (y :: 'a::len word) = - 1 \<longleftrightarrow> y = - 1"
  using sint_eq_iff [of y "- 1"] by simp

lemma sint_eq_min_iff:
  "sint (x :: i32) = - 2147483648 \<longleftrightarrow> x = MinInt32"
  "sint (z :: i64) = - 9223372036854775808 \<longleftrightarrow> z = MinInt64"
  using sint_eq_iff [of x MinInt32] sint_eq_iff [of z MinInt64]
  by (simp_all add: MinInt32_def MinInt64_def)

lemmas sint_tests = sint_eq_0_iff sint_eq_m1_iff

text \<open>The signed quotient of two integers fits a width, as the wasm specification asks.\<close>

definition quot_fits :: "nat \<Rightarrow> int \<Rightarrow> int \<Rightarrow> bool" where
  "quot_fits n a b \<longleftrightarrow> - (2 ^ (n - 1)) \<le> a sdiv b \<and> a sdiv b < 2 ^ (n - 1)"

lemma quot_fits_iff:
  fixes x y :: "'a::len word"
  assumes "2 \<le> LENGTH('a)"
  shows "quot_fits LENGTH('a) (sint x) (sint y) \<longleftrightarrow>
    \<not> (sint x = - (2 ^ (LENGTH('a) - 1)) \<and> sint y = - 1)"
  using sdiv_bounds [OF sint_bounds [of x], of "sint y"] by (auto simp: quot_fits_def)

lemma i32_div_s_spec:
  "i32_div_s x y =
     (if sint y = 0 then trap_div_zero
      else if \<not> quot_fits 32 (sint x) (sint y) then trap_int_overflow
      else Inr (go_sdiv x y))"
  using quot_fits_iff [of x y] by (auto simp: i32_div_s_def sint_eq_min_iff simp flip: sint_tests)

lemma i64_div_s_spec:
  "i64_div_s x y =
     (if sint y = 0 then trap_div_zero
      else if \<not> quot_fits 64 (sint x) (sint y) then trap_int_overflow
      else Inr (go_sdiv x y))"
  using quot_fits_iff [of x y] by (auto simp: i64_div_s_def sint_eq_min_iff simp flip: sint_tests)

lemma i32_rem_s_spec:
  "i32_rem_s x y = (if sint y = 0 then trap_div_zero else Inr (go_smod x y))"
  by (auto simp: i32_rem_s_def sint_tests go_smod_def signed_modulo_int_def)

lemma i64_rem_s_spec:
  "i64_rem_s x y = (if sint y = 0 then trap_div_zero else Inr (go_smod x y))"
  by (auto simp: i64_rem_s_def sint_tests go_smod_def signed_modulo_int_def)

lemma signed_division:
  "(i32_div_s a b = Inl ''wasm: integer divide by zero'' \<longleftrightarrow> sint b = 0) \<and>
   (i32_div_s a b = Inl ''wasm: integer overflow'' \<longleftrightarrow> sint b \<noteq> 0 \<and> \<not> quot_fits 32 (sint a) (sint b)) \<and>
   (i32_div_s a b = Inr q \<longleftrightarrow> sint b \<noteq> 0 \<and> sint q = sint a sdiv sint b) \<and>
   (i32_rem_s a b = Inl ''wasm: integer divide by zero'' \<longleftrightarrow> sint b = 0) \<and>
   (i32_rem_s a b = Inr r \<longleftrightarrow> sint b \<noteq> 0 \<and> sint r = sint a smod sint b) \<and>
   (i64_div_s c d = Inl ''wasm: integer divide by zero'' \<longleftrightarrow> sint d = 0) \<and>
   (i64_div_s c d = Inl ''wasm: integer overflow'' \<longleftrightarrow> sint d \<noteq> 0 \<and> \<not> quot_fits 64 (sint c) (sint d)) \<and>
   (i64_div_s c d = Inr s \<longleftrightarrow> sint d \<noteq> 0 \<and> sint s = sint c sdiv sint d) \<and>
   (i64_rem_s c d = Inl ''wasm: integer divide by zero'' \<longleftrightarrow> sint d = 0) \<and>
   (i64_rem_s c d = Inr t \<longleftrightarrow> sint d \<noteq> 0 \<and> sint t = sint c smod sint d)"
proof -
  have fits: "quot_fits 32 (sint a) (sint b)" if "sint a sdiv sint b = sint q"
    using that sint_bounds [of q] by (simp add: quot_fits_def)
  have fits': "quot_fits 64 (sint c) (sint d)" if "sint c sdiv sint d = sint s"
    using that sint_bounds [of s] by (simp add: quot_fits_def)
  have val: "go_sdiv a b = q \<longleftrightarrow> sint q = sint a sdiv sint b" if "quot_fits 32 (sint a) (sint b)"
    using sint_go_sdiv [of a b] quot_fits_iff [of a b] that sint_eq_iff [of "go_sdiv a b" q]
    by auto
  have val': "go_sdiv c d = s \<longleftrightarrow> sint s = sint c sdiv sint d" if "quot_fits 64 (sint c) (sint d)"
    using sint_go_sdiv [of c d] quot_fits_iff [of c d] that sint_eq_iff [of "go_sdiv c d" s]
    by auto
  have rem: "go_smod a b = r \<longleftrightarrow> sint r = sint a smod sint b" if "sint b \<noteq> 0"
    using sint_go_smod [OF that, of a] sint_eq_iff [of "go_smod a b" r] by auto
  have rem': "go_smod c d = t \<longleftrightarrow> sint t = sint c smod sint d" if "sint d \<noteq> 0"
    using sint_go_smod [OF that, of c] sint_eq_iff [of "go_smod c d" t] by auto
  show ?thesis
    unfolding i32_div_s_spec i64_div_s_spec i32_rem_s_spec i64_rem_s_spec
    using fits fits' val val' rem rem'
    by (simp add: trap_div_zero_def trap_int_overflow_def) metis
qed

lemma word_quotient_iff:
  fixes x y :: "'a::len word"
  shows "x div y = q \<longleftrightarrow> unat q = unat x div unat y" "x mod y = q \<longleftrightarrow> unat q = unat x mod unat y"
  by (auto simp: word_unat_eq_iff unat_div_distrib unat_mod_distrib)

lemma unsigned_division:
  "(i32_div_u_s a b = Inl ''wasm: integer divide by zero'' \<longleftrightarrow> unat b = 0) \<and>
   (i32_div_u_s a b = Inr q \<longleftrightarrow> unat b \<noteq> 0 \<and> unat q = unat a div unat b) \<and>
   (i32_rem_u_s a b = Inl ''wasm: integer divide by zero'' \<longleftrightarrow> unat b = 0) \<and>
   (i32_rem_u_s a b = Inr r \<longleftrightarrow> unat b \<noteq> 0 \<and> unat r = unat a mod unat b) \<and>
   (i64_div_u_s c d = Inl ''wasm: integer divide by zero'' \<longleftrightarrow> unat d = 0) \<and>
   (i64_div_u_s c d = Inr s \<longleftrightarrow> unat d \<noteq> 0 \<and> unat s = unat c div unat d) \<and>
   (i64_rem_u_s c d = Inl ''wasm: integer divide by zero'' \<longleftrightarrow> unat d = 0) \<and>
   (i64_rem_u_s c d = Inr t \<longleftrightarrow> unat d \<noteq> 0 \<and> unat t = unat c mod unat d)"
  by (simp add: i32_div_u_s_def i32_rem_u_s_def i64_div_u_s_def i64_rem_u_s_def i32_div_u_def i32_rem_u_def i64_div_u_def
      i64_rem_u_def trap_div_zero_def word_quotient_iff unat_eq_zero)

text \<open>
  C37: Division and remainder at both widths, signed and unsigned: a divisor of zero traps with its
  message; a signed quotient that does not fit traps as an overflow; there is no other trap, and
  otherwise the results are the exact quotient, truncated towards zero, and its remainder.
\<close>

theorem division_spec:
  "(i32_div_s a b = Inl ''wasm: integer divide by zero'' \<longleftrightarrow> sint b = 0) \<and>
   (i32_div_s a b = Inl ''wasm: integer overflow'' \<longleftrightarrow> sint b \<noteq> 0 \<and> \<not> quot_fits 32 (sint a) (sint b)) \<and>
   (i32_div_s a b = Inr q \<longleftrightarrow> sint b \<noteq> 0 \<and> sint q = sint a sdiv sint b) \<and>
   (i32_rem_s a b = Inl ''wasm: integer divide by zero'' \<longleftrightarrow> sint b = 0) \<and>
   (i32_rem_s a b = Inr r \<longleftrightarrow> sint b \<noteq> 0 \<and> sint r = sint a smod sint b) \<and>
   (i64_div_s c d = Inl ''wasm: integer divide by zero'' \<longleftrightarrow> sint d = 0) \<and>
   (i64_div_s c d = Inl ''wasm: integer overflow'' \<longleftrightarrow> sint d \<noteq> 0 \<and> \<not> quot_fits 64 (sint c) (sint d)) \<and>
   (i64_div_s c d = Inr s \<longleftrightarrow> sint d \<noteq> 0 \<and> sint s = sint c sdiv sint d) \<and>
   (i64_rem_s c d = Inl ''wasm: integer divide by zero'' \<longleftrightarrow> sint d = 0) \<and>
   (i64_rem_s c d = Inr t \<longleftrightarrow> sint d \<noteq> 0 \<and> sint t = sint c smod sint d) \<and>
   (i32_div_u_s a b = Inl ''wasm: integer divide by zero'' \<longleftrightarrow> unat b = 0) \<and>
   (i32_div_u_s a b = Inr q \<longleftrightarrow> unat b \<noteq> 0 \<and> unat q = unat a div unat b) \<and>
   (i32_rem_u_s a b = Inl ''wasm: integer divide by zero'' \<longleftrightarrow> unat b = 0) \<and>
   (i32_rem_u_s a b = Inr r \<longleftrightarrow> unat b \<noteq> 0 \<and> unat r = unat a mod unat b) \<and>
   (i64_div_u_s c d = Inl ''wasm: integer divide by zero'' \<longleftrightarrow> unat d = 0) \<and>
   (i64_div_u_s c d = Inr s \<longleftrightarrow> unat d \<noteq> 0 \<and> unat s = unat c div unat d) \<and>
   (i64_rem_u_s c d = Inl ''wasm: integer divide by zero'' \<longleftrightarrow> unat d = 0) \<and>
   (i64_rem_u_s c d = Inr t \<longleftrightarrow> unat d \<noteq> 0 \<and> unat t = unat c mod unat d)"
  by (rule conjI [OF signed_division unsigned_division, unfolded conj_assoc])

section \<open>Shifts, rotates and counts\<close>

lemma unat_and_mask:
  "unat ((y :: i32) AND 31) = unat y mod 32" "unat ((z :: i64) AND 63) = unat z mod 64"
proof -
  have "y AND 31 = take_bit 5 y" and "z AND 63 = take_bit 6 z"
    by (simp_all add: take_bit_eq_mask mask_eq_exp_minus_1)
  then show "unat (y AND 31) = unat y mod 32" "unat (z AND 63) = unat z mod 64"
    by (simp_all only: unsigned_take_bit_eq) (simp_all add: take_bit_eq_mod)
qed

lemma sint_small:
  assumes "unat w < 2 ^ (LENGTH('a) - 1)"
  shows "sint (w :: 'a::len word) = int (unat w)"
proof -
  have "int (unat w) < 2 ^ (LENGTH('a) - 1)" using assms by (metis of_nat_less_iff of_nat_numeral of_nat_power)
  moreover have "- (2 ^ (LENGTH('a) - 1)) \<le> int (unat w)" by (rule order_trans [of _ 0]) simp_all
  ultimately have "sint (word_of_int (int (unat w)) :: 'a word) = int (unat w)"
    by (intro sint_word_of_int_self)
  then show ?thesis by simp
qed

lemma sint_and_mask:
  "sint ((y :: i32) AND 31) = int (unat y mod 32)" "sint ((z :: i64) AND 63) = int (unat z mod 64)"
proof -
  have "unat (y AND 31) < 2 ^ 31" "unat (z AND 63) < 2 ^ 63"
    unfolding unat_and_mask by (simp_all add: less_trans [OF mod_less_divisor])
  then show "sint (y AND 31) = int (unat y mod 32)" "sint (z AND 63) = int (unat z mod 64)"
    by (simp_all add: sint_small unat_and_mask)
qed

lemma unat_shifts:
  fixes u :: "'a::len word"
  shows "unat (push_bit n u) = unat u * 2 ^ n mod 2 ^ LENGTH('a)"
    and "unat (drop_bit n u) = unat u div 2 ^ n"
  by (subst unsigned_push_bit_eq unsigned_drop_bit_eq;
      simp add: push_bit_eq_mult drop_bit_eq_div take_bit_eq_mod unat_lt)+

lemma bit_go_RotateLeft:
  assumes k: "k < LENGTH('a)"
  shows "bit (go_RotateLeft (x :: 'a::len word) c) k \<longleftrightarrow> bit x (nat ((int k - c) mod int LENGTH('a)))"
proof -
  define s where "s = nat (c mod int LENGTH('a))"
  have s: "s < LENGTH('a)" "int s = c mod int LENGTH('a)"
    by (simp_all add: s_def nat_less_iff)
  have c: "(int k - c) mod int LENGTH('a) = (int k - int s) mod int LENGTH('a)"
    by (simp add: s(2) mod_diff_right_eq)
  have run: "bit (go_RotateLeft x c) k \<longleftrightarrow>
      (s \<le> k \<and> bit x (k - s)) \<or> bit x (LENGTH('a) - s + k)"
    using k by (simp add: go_RotateLeft_def Let_def flip: s_def) (simp add: bit_simps)
  show ?thesis
  proof (cases "s \<le> k")
    case True
    then have "(int k - int s) mod int LENGTH('a) = int (k - s)"
      using k by (simp add: of_nat_diff)
    moreover have "\<not> bit x (LENGTH('a) - s + k)"
      using True s k by (auto dest!: bit_imp_le_length)
    ultimately show ?thesis using True run c by (simp only: nat_int) simp
  next
    case False
    have "(int k - int s) mod int LENGTH('a) = (int k - int s + int LENGTH('a)) mod int LENGTH('a)"
      by simp
    also have "\<dots> = int (LENGTH('a) - s + k)"
      using False s(1) by (subst mod_pos_pos_trivial) auto
    finally show ?thesis using False run c by (simp only: nat_int) simp
  qed
qed

lemma go_RotateLeft_inverse: "go_RotateLeft (go_RotateLeft x c) (- c) = (x :: 'a::len word)"
proof (rule bit_word_eqI)
  fix k
  assume k: "k < LENGTH('a)"
  let ?L = "int LENGTH('a)"
  have m: "nat ((int k + c) mod ?L) < LENGTH('a)" by (simp add: nat_less_iff)
  have "(int (nat ((int k + c) mod ?L)) - c) mod ?L = ((int k + c) mod ?L - c) mod ?L" by simp
  also have "\<dots> = int k" using k by (simp add: mod_diff_left_eq)
  finally show "bit (go_RotateLeft (go_RotateLeft x c) (- c)) k = bit x k"
    using bit_go_RotateLeft [OF k, of "go_RotateLeft x c" "- c"] bit_go_RotateLeft [OF m, of x c] by simp
qed

text \<open>
  C38: Shifts and rotates take the count modulo the width: shifts multiply, divide and floor-divide
  by that power of two; the left rotate moves every bit up by the count around the word, and the
  right rotate undoes it.
\<close>

theorem shift_rotate_spec:
  "unat (i32_shl x y) = unat x * 2 ^ (unat y mod 32) mod 2 ^ 32 \<and>
   unat (i32_shr_u x y) = unat x div 2 ^ (unat y mod 32) \<and>
   sint (i32_shr_s x y) = sint x div 2 ^ (unat y mod 32) \<and>
   (\<forall>k. k < 32 \<longrightarrow> bit (i32_rotl x y) k = bit x (nat ((int k - int (unat y)) mod 32))) \<and>
   i32_rotr (i32_rotl x y) y = x \<and>
   unat (i64_shl v w) = unat v * 2 ^ (unat w mod 64) mod 2 ^ 64 \<and>
   unat (i64_shr_u v w) = unat v div 2 ^ (unat w mod 64) \<and>
   sint (i64_shr_s v w) = sint v div 2 ^ (unat w mod 64) \<and>
   (\<forall>k. k < 64 \<longrightarrow> bit (i64_rotl v w) k = bit v (nat ((int k - int (unat w)) mod 64))) \<and>
   i64_rotr (i64_rotl v w) w = v"
proof -
  have rot: "nat ((int k - int (unat y mod 32)) mod 32) = nat ((int k - int (unat y)) mod 32)"
    and rot': "nat ((int k - int (unat w mod 64)) mod 64) = nat ((int k - int (unat w)) mod 64)" for k
    by (simp_all add: zmod_int mod_diff_right_eq)
  have "bit (i32_rotl x y) k = bit x (nat ((int k - int (unat y)) mod 32))" if "k < 32" for k
    using bit_go_RotateLeft [of k x "sint (y AND 31)"] that rot [of k]
    by (simp add: i32_rotl_def sint_and_mask)
  moreover have "bit (i64_rotl v w) k = bit v (nat ((int k - int (unat w)) mod 64))" if "k < 64" for k
    using bit_go_RotateLeft [of k v "sint (w AND 63)"] that rot' [of k]
    by (simp add: i64_rotl_def sint_and_mask)
  ultimately show ?thesis
    using go_RotateLeft_inverse [of x "sint (y AND 31)"] go_RotateLeft_inverse [of v "sint (w AND 63)"]
    by (simp add: i32_shl_def i32_shr_u_def i32_shr_s_def i64_shl_def i64_shr_u_def i64_shr_s_def
        i32_rotl_def i32_rotr_def i64_rotl_def i64_rotr_def unat_and_mask sint_signed_drop_bit_eq
        unat_shifts del: push_bit_eq_mult) (simp add: drop_bit_eq_div)
qed

theorem shift_rotate_spec_witness:
  "bit (i32_rotl 0x80000001 33) 1 = bit (0x80000001 :: i32) (nat ((int 1 - int (unat (33 :: i32))) mod 32)) \<and>
   bit (i64_rotl 1 65) 1 = bit (1 :: i64) (nat ((int 1 - int (unat (65 :: i64))) mod 64))"
  using shift_rotate_spec [of "0x80000001" 33 1 65] by simp

lemma takeWhile_upt:
  "length (takeWhile P [0..<n]) = m \<Longrightarrow> m \<le> n \<and> (\<forall>k < m. P k) \<and> (m < n \<longrightarrow> \<not> P m)"
proof -
  assume m: "length (takeWhile P [0..<n]) = m"
  have "m \<le> n" using length_takeWhile_le [of P "[0..<n]"] m by simp
  moreover have "P k" if "k < m" for k
  proof -
    have "takeWhile P [0..<n] ! k = k" using that m \<open>m \<le> n\<close> takeWhile_nth [of k P "[0..<n]"] by simp
    then have "k \<in> set (takeWhile P [0..<n])" using that m by (metis nth_mem)
    then show "P k" by (rule set_takeWhileD [THEN conjunct2])
  qed
  moreover have "\<not> P m" if "m < n"
    using nth_length_takeWhile [of P "[0..<n]"] m that by simp
  ultimately show ?thesis by blast
qed

lemma go_TrailingZeros_spec:
  fixes x :: "'a::len word"
  shows "go_TrailingZeros x \<le> LENGTH('a) \<and> (\<forall>k < go_TrailingZeros x. \<not> bit x k) \<and>
    (x \<noteq> 0 \<longrightarrow> bit x (go_TrailingZeros x))"
proof -
  note t = takeWhile_upt [of "\<lambda>k. \<not> bit x k" "LENGTH('a)", folded go_TrailingZeros_def, OF refl]
  have "x = 0" if "\<not> go_TrailingZeros x < LENGTH('a)"
    using t that by (intro bit_word_eqI) simp
  then show ?thesis using t by blast
qed

lemma rev_upt_nth: "k < n \<Longrightarrow> rev [0..<n] ! k = n - 1 - k"
  by (simp add: rev_nth)

lemma go_LeadingZeros_spec:
  fixes x :: "'a::len word"
  shows "go_LeadingZeros x \<le> LENGTH('a) \<and> (\<forall>k \<ge> LENGTH('a) - go_LeadingZeros x. \<not> bit x k) \<and>
    (x \<noteq> 0 \<longrightarrow> bit x (LENGTH('a) - 1 - go_LeadingZeros x))"
proof -
  let ?P = "\<lambda>k. \<not> bit x k" and ?xs = "rev [0..<LENGTH('a)]"
  let ?m = "length (takeWhile ?P ?xs)"
  have m: "?m \<le> LENGTH('a)" using length_takeWhile_le [of ?P ?xs] by simp
  have zero: "\<not> bit x k" if "LENGTH('a) - ?m \<le> k" for k
  proof (cases "k < LENGTH('a)")
    case True
    let ?j = "LENGTH('a) - 1 - k"
    have j: "?j < ?m" using that True by linarith
    then have "takeWhile ?P ?xs ! ?j = k"
      using m True takeWhile_nth [of ?j ?P ?xs] by (simp add: rev_upt_nth)
    then have "k \<in> set (takeWhile ?P ?xs)" using nth_mem [OF j] by simp
    then show ?thesis by (rule set_takeWhileD [THEN conjunct2])
  next
    case False
    then show ?thesis by (auto dest: bit_imp_le_length)
  qed
  moreover have "bit x (LENGTH('a) - 1 - ?m)" if "x \<noteq> 0"
  proof -
    have "?m < LENGTH('a)"
    proof (rule ccontr)
      assume "\<not> ?m < LENGTH('a)"
      then have "LENGTH('a) - ?m = 0" by linarith
      then have "\<not> bit x k" for k using zero [of k] by linarith
      then have "x = 0" by (intro bit_word_eqI) (simp only: bit_0_eq bot_apply bot_bool_def simp_thms)
      then show False using that by blast
    qed
    then show ?thesis
      using nth_length_takeWhile [of ?P ?xs] by (simp add: rev_upt_nth)
  qed
  ultimately show ?thesis using m unfolding go_LeadingZeros_def by blast
qed

lemma go_OnesCount_spec: "go_OnesCount (x :: 'a::len word) = card {k. bit x k}"
proof -
  have "{k. bit x k} = set (filter (bit x) [0..<LENGTH('a)])"
    by (auto dest: bit_imp_le_length)
  then show ?thesis
    by (simp only: go_OnesCount_def distinct_card [OF distinct_filter [OF distinct_upt]])
qed

lemma unat_count32: "n \<le> 32 \<Longrightarrow> unat (word_of_nat n :: i32) = n"
  by (simp add: unat_of_nat)

lemma unat_count64: "n \<le> 64 \<Longrightarrow> unat (word_of_nat n :: i64) = n"
  by (simp add: unat_of_nat)

lemma go_OnesCount_le: "go_OnesCount (x :: 'a::len word) \<le> LENGTH('a)"
  using length_filter_le [of "bit x" "[0..<LENGTH('a)]"] by (simp add: go_OnesCount_def)

text \<open>
  C39: Count-leading-zeros, count-trailing-zeros and population count at both widths: all bits
  above (below) the counted ones are clear, the next one is set unless the operand is zero, where
  the count is the width; popcnt is the number of set bits.
\<close>

theorem bit_count_spec:
  "(\<forall>k \<ge> 32 - unat (i32_clz x). \<not> bit x k) \<and> (x \<noteq> 0 \<longrightarrow> bit x (31 - unat (i32_clz x))) \<and>
   unat (i32_clz x) \<le> 32 \<and> i32_clz 0 = 32 \<and>
   (\<forall>k < unat (i32_ctz x). \<not> bit x k) \<and> (x \<noteq> 0 \<longrightarrow> bit x (unat (i32_ctz x))) \<and> i32_ctz 0 = 32 \<and>
   unat (i32_popcnt x) = card {k. bit x k} \<and>
   (\<forall>k \<ge> 64 - unat (i64_clz y). \<not> bit y k) \<and> (y \<noteq> 0 \<longrightarrow> bit y (63 - unat (i64_clz y))) \<and>
   unat (i64_clz y) \<le> 64 \<and> i64_clz 0 = 64 \<and>
   (\<forall>k < unat (i64_ctz y). \<not> bit y k) \<and> (y \<noteq> 0 \<longrightarrow> bit y (unat (i64_ctz y))) \<and> i64_ctz 0 = 64 \<and>
   unat (i64_popcnt y) = card {k. bit y k}"
proof -
  have zero: "i32_clz 0 = 32" "i32_ctz 0 = 32" "i64_clz 0 = 64" "i64_ctz 0 = 64"
    by (simp_all add: i32_clz_def i32_ctz_def i64_clz_def i64_ctz_def go_LeadingZeros_def
        go_TrailingZeros_def takeWhile_eq_all_conv [THEN iffD2])
  have clz: "unat (i32_clz x) = go_LeadingZeros x" "unat (i64_clz y) = go_LeadingZeros y"
    using go_LeadingZeros_spec [of x] go_LeadingZeros_spec [of y]
    by (simp_all add: i32_clz_def i64_clz_def unat_count32 unat_count64)
  have ctz: "unat (i32_ctz x) = go_TrailingZeros x" "unat (i64_ctz y) = go_TrailingZeros y"
    using go_TrailingZeros_spec [of x] go_TrailingZeros_spec [of y]
    by (simp_all add: i32_ctz_def i64_ctz_def unat_count32 unat_count64)
  have pop: "unat (i32_popcnt x) = card {k. bit x k}" "unat (i64_popcnt y) = card {k. bit y k}"
    using go_OnesCount_le [of x] go_OnesCount_le [of y]
    by (simp_all add: i32_popcnt_def i64_popcnt_def unat_count32 unat_count64 flip: go_OnesCount_spec)
  show ?thesis
    using go_LeadingZeros_spec [of x] go_LeadingZeros_spec [of y] go_TrailingZeros_spec [of x]
      go_TrailingZeros_spec [of y]
    by (simp only: clz ctz pop zero) simp
qed

theorem bit_count_spec_witness:
  "unat (i32_clz 8) = 28 \<and> \<not> bit (8 :: i32) 4 \<and> bit (8 :: i32) (31 - unat (i32_clz 8)) \<and>
   bit (1 :: i64) (63 - unat (i64_clz 1))"
proof -
  have c: "unat (i32_clz 8) = 28" by code_simp
  show ?thesis using bit_count_spec [of 8 1] c by simp
qed

end
