(* ===== verification/PassConstProp.thy ===== *)
theory PassConstProp
  imports SsaStraight RtInt
begin

text \<open>
  Constant folding, from \<^verbatim>\<open>internal/ssa/pass/constprop.go\<close>. Go's \<^verbatim>\<open>int64(int32(c))\<close> is a
  truncation and a sign extension, \<^verbatim>\<open>int64(uint32(c))\<close> a truncation and a zero extension.
\<close>

section \<open>The pass\<close>

definition sext32 :: "i64 \<Rightarrow> i64" where "sext32 c = scast (ucast c :: i32)"
definition zext32 :: "i64 \<Rightarrow> i64" where "zext32 c = ucast (ucast c :: u32)"

definition intConst :: "Value \<Rightarrow> i64 option" where
  "intConst v =
     (if vOp v = OpConst32 then Some (sext32 (vAuxInt v))
      else if vOp v = OpConst64 then Some (vAuxInt v) else None)"

definition argIs32 :: "(nat \<Rightarrow> Value) \<Rightarrow> Value \<Rightarrow> bool" where
  "argIs32 V v = (case vArgs v of Some a # _ \<Rightarrow> vTyp (V a) = TypeI32 | _ \<Rightarrow> False)"

definition const_value :: "Op \<Rightarrow> Type \<Rightarrow> i64 \<Rightarrow> Value \<Rightarrow> Value" where
  "const_value op t c v = v\<lparr>vOp := op, vTyp := t, vAuxInt := c, vArgs := [], vAux := AuxNil\<rparr>"

definition fold_unary :: "i64 \<Rightarrow> Value \<Rightarrow> Value option" where
  "fold_unary c v =
     (if vOp v = OpExtend32To64S then Some (const_value OpConst64 TypeI64 (sext32 c) v)
      else if vOp v = OpExtend32To64U then Some (const_value OpConst64 TypeI64 (zext32 c) v)
      else if vOp v = OpTrunc64To32 then Some (const_value OpConst32 TypeI32 (sext32 c) v)
      else None)"

datatype folded = FoldInt i64 | FoldBool bool

definition fold_binary :: "Op \<Rightarrow> i64 \<Rightarrow> i64 \<Rightarrow> folded option" where
  "fold_binary op a b =
     (if op = OpAdd32 \<or> op = OpAdd64 then Some (FoldInt (a + b))
      else if op = OpSub32 \<or> op = OpSub64 then Some (FoldInt (a - b))
      else if op = OpMul32 \<or> op = OpMul64 then Some (FoldInt (a * b))
      else if op = OpAnd32 \<or> op = OpAnd64 then Some (FoldInt (a AND b))
      else if op = OpOr32 \<or> op = OpOr64 then Some (FoldInt (a OR b))
      else if op = OpXor32 \<or> op = OpXor64 then Some (FoldInt (a XOR b))
      else if op = OpShl32 then Some (FoldInt (scast (push_bit (unat ((ucast b :: u32) AND 31)) (ucast a :: i32))))
      else if op = OpShl64 then Some (FoldInt (push_bit (unat (b AND 63)) a))
      else if op = OpShrS32 then Some (FoldInt (scast (signed_drop_bit (unat ((ucast b :: u32) AND 31)) (ucast a :: i32))))
      else if op = OpShrS64 then Some (FoldInt (signed_drop_bit (unat (b AND 63)) a))
      else if op = OpShrU32 then Some (FoldInt (ucast (drop_bit (unat ((ucast b :: u32) AND 31)) (ucast a :: u32))))
      else if op = OpShrU64 then Some (FoldInt (drop_bit (unat (b AND 63)) a))
      else if op = OpEq32 \<or> op = OpEq64 then Some (FoldBool (a = b))
      else if op = OpNe32 \<or> op = OpNe64 then Some (FoldBool (a \<noteq> b))
      else if op = OpLtS32 \<or> op = OpLtS64 then Some (FoldBool (a <s b))
      else if op = OpLeS32 \<or> op = OpLeS64 then Some (FoldBool (a \<le>s b))
      else if op = OpLtU32 then Some (FoldBool ((ucast a :: u32) < ucast b))
      else if op = OpLeU32 then Some (FoldBool ((ucast a :: u32) \<le> ucast b))
      else if op = OpLtU64 then Some (FoldBool (a < b))
      else if op = OpLeU64 then Some (FoldBool (a \<le> b))
      else None)"

definition foldValue :: "(nat \<Rightarrow> Value) \<Rightarrow> Value \<Rightarrow> Value option" where
  "foldValue V v =
     (case vArgs v of
        [Some a] \<Rightarrow> (case intConst (V a) of Some c \<Rightarrow> fold_unary c v | None \<Rightarrow> None)
      | [Some a, Some b] \<Rightarrow>
          (case (intConst (V a), intConst (V b)) of
             (Some x, Some y) \<Rightarrow>
               (case fold_binary (vOp v) x y of
                  None \<Rightarrow> None
                | Some (FoldBool p) \<Rightarrow> Some (const_value OpConst32 TypeBool (if p then 1 else 0) v)
                | Some (FoldInt n) \<Rightarrow>
                    if vTyp v = TypeI32 \<or> (vTyp v = TypeBool \<and> argIs32 V v)
                    then Some (const_value OpConst32 TypeI32 (sext32 n) v)
                    else Some (const_value OpConst64 TypeI64 n v))
           | _ \<Rightarrow> None)
      | _ \<Rightarrow> None)"

definition constprop_value :: "Func \<times> bool \<Rightarrow> nat \<Rightarrow> Func \<times> bool" where
  "constprop_value s i =
     (case foldValue (fval (fst s)) (fval (fst s) i) of
        None \<Rightarrow> s
      | Some v \<Rightarrow> (upd_val i (\<lambda>_. v) (fst s), True))"

definition ConstProp :: "Func \<Rightarrow> Func \<times> bool" where
  "ConstProp f = foldl (\<lambda>s b. foldl constprop_value s (Values (fblk (fst s) b))) (f, False) (Blocks f)"

section \<open>Soundness\<close>

text \<open>The integer operations have the result type of their width, as the lowering builds them.\<close>

definition int_typed :: "Value \<Rightarrow> bool" where
  "int_typed v \<longleftrightarrow>
     (vOp v \<in> {OpAdd32, OpSub32, OpMul32, OpAnd32, OpOr32, OpXor32, OpShl32, OpShrS32, OpShrU32} \<longrightarrow> vTyp v = TypeI32) \<and>
     (vOp v \<in> {OpAdd64, OpSub64, OpMul64, OpAnd64, OpOr64, OpXor64, OpShl64, OpShrS64, OpShrU64} \<longrightarrow> vTyp v = TypeI64)"

definition const_wval :: "Value \<Rightarrow> wval option" where
  "const_wval v = (if vOp v = OpConst32 \<or> vOp v = OpConst64 then int_op (vOp v) (vAuxInt v) [] else None)"

named_theorems down_cast \<open>truncation to 32 bits of the 64-bit operations\<close>

lemma down_scast [down_cast]: "(ucast (scast (x :: i32) :: i64) :: i32) = x"
  by (rule bit_word_eqI) (simp add: bit_unsigned_iff bit_signed_iff)

lemma down_ucast [down_cast]: "(ucast (ucast (x :: i32) :: i64) :: i32) = x"
  by (rule bit_word_eqI) (simp add: bit_unsigned_iff)

lemma down_arith [down_cast]:
  "(ucast (x + y :: i64) :: i32) = ucast x + ucast y" "(ucast (x - y :: i64) :: i32) = ucast x - ucast y"
  "(ucast (x * y :: i64) :: i32) = ucast x * ucast y"
  by (simp_all add: word_uint_eq_iff uint_word_ariths unsigned_ucast_eq take_bit_eq_mod mod_mod_cancel mod_simps)

lemma down_bits [down_cast]:
  "(ucast (x AND y :: i64) :: i32) = ucast x AND ucast y" "(ucast (x OR y :: i64) :: i32) = ucast x OR ucast y"
  "(ucast (x XOR y :: i64) :: i32) = ucast x XOR ucast y"
  by (rule bit_word_eqI, simp add: bit_unsigned_iff bit_and_iff bit_or_iff bit_xor_iff)+

lemma scast_inj [down_cast]: "(scast (x :: i32) :: i64) = scast y \<longleftrightarrow> x = y"
  by (metis down_scast)

lemma scast_less [down_cast]:
  "(scast (x :: i32) :: i64) <s scast (y :: i32) \<longleftrightarrow> sint x < sint y" "(scast (x :: i32) :: i64) \<le>s scast (y :: i32) \<longleftrightarrow> sint x \<le> sint y"
  by (simp_all add: word_sless_alt word_sle_eq sint_scast_up)

lemma ucast_sext32 [down_cast]: "(ucast (sext32 c) :: i32) = ucast c"
  by (simp add: sext32_def down_cast)

lemmas order_simps = word_less_nat_alt word_le_nat_alt word_sless_alt word_sle_eq

lemma fold_binary_32:
  assumes "int_op op c [W32 x, W32 y] = Some r" and "fold_binary op (scast x) (scast y) = Some q"
  shows "case q of FoldInt n \<Rightarrow> r = W32 (ucast n) \<and> (int_typed v \<longrightarrow> vOp v = op \<longrightarrow> vTyp v = TypeI32)
    | FoldBool p \<Rightarrow> r = wbool p"
proof -
  have "op \<in> {OpAdd32, OpSub32, OpMul32, OpAnd32, OpOr32, OpXor32, OpShl32, OpShrS32, OpShrU32,
      OpEq32, OpNe32, OpLtS32, OpLeS32, OpLtU32, OpLeU32}"
    using assms(1) by (auto split: if_splits)
  then show ?thesis
    using assms
    by (elim insertE emptyE; clarsimp simp: fold_binary_def down_cast order_simps unat_and_mask int_typed_def sint_scast_up)
qed

lemma fold_binary_64:
  assumes "int_op op c [W64 x, W64 y] = Some r" and "fold_binary op x y = Some q"
  shows "case q of FoldInt n \<Rightarrow> r = W64 n \<and> (int_typed v \<longrightarrow> vOp v = op \<longrightarrow> vTyp v = TypeI64)
    | FoldBool p \<Rightarrow> r = wbool p"
proof -
  have "op \<in> {OpAdd64, OpSub64, OpMul64, OpAnd64, OpOr64, OpXor64, OpShl64, OpShrS64, OpShrU64,
      OpEq64, OpNe64, OpLtS64, OpLeS64, OpLtU64, OpLeU64}"
    using assms(1) by (auto split: if_splits)
  then show ?thesis
    using assms
    by (elim insertE emptyE; clarsimp simp: fold_binary_def order_simps unat_and_mask int_typed_def)
qed


text \<open>Whatever a constant of the function has been computed to, it is its immediate.\<close>

definition consts_ok :: "Func \<Rightarrow> env \<Rightarrow> bool" where
  "consts_ok f env \<longleftrightarrow> (\<forall>i w. env i = Some w \<longrightarrow> vOp (fval f i) \<in> {OpConst32, OpConst64} \<longrightarrow>
     int_op (vOp (fval f i)) (vAuxInt (fval f i)) [] = Some w)"

lemma intConst_cases:
  assumes "intConst v = Some c" and "vOp v \<in> {OpConst32, OpConst64} \<longrightarrow> int_op (vOp v) (vAuxInt v) [] = Some w"
  shows "(\<exists>x. c = scast x \<and> w = W32 x) \<or> w = W64 c"
  using assms by (auto simp: intConst_def sext32_def split: if_splits)

text \<open>The value a folded one is replaced by evaluates to what the original evaluates to.\<close>

lemma foldValue_correct:
  assumes fold: "foldValue (fval f) v = Some v'" and typed: "int_typed v" and ok: "consts_ok f env"
    and as: "arg_vals env (vArgs v) = Some as" and op: "int_op (vOp v) (vAuxInt v) as = Some r"
  shows "int_op (vOp v') (vAuxInt v') [] = Some r \<and> vArgs v' = []"
proof -
  have const: "(\<exists>x. c = scast x \<and> w = W32 x) \<or> w = W64 c" if "intConst (fval f a) = Some c" "env a = Some w" for a c w
    using ok that by (intro intConst_cases [OF that(1)]) (auto simp: consts_ok_def)
  from fold consider (un) a c where "vArgs v = [Some a]" "intConst (fval f a) = Some c" "fold_unary c v = Some v'"
    | (bin) a b x y where "vArgs v = [Some a, Some b]" "intConst (fval f a) = Some x" "intConst (fval f b) = Some y"
        "fold_binary (vOp v) x y \<noteq> None"
    by (auto simp: foldValue_def split: list.splits option.splits)
  then show ?thesis
  proof cases
    case un
    then obtain w where w: "env a = Some w" "as = [w]"
      using as by (auto simp: arg_vals_def arg_val_def split: option.splits)
    with const [OF un(2) w(1)] un(3) op show ?thesis
      by (auto simp: fold_unary_def const_value_def down_cast sext32_def zext32_def split: if_splits)
  next
    case bin
    then obtain w z where w: "env a = Some w" "env b = Some z" "as = [w, z]"
      using as by (auto simp: arg_vals_def arg_val_def split: option.splits)
    obtain q where q: "fold_binary (vOp v) x y = Some q" using bin(4) by auto
    have v': "v' = (case q of FoldBool p \<Rightarrow> const_value OpConst32 TypeBool (if p then 1 else 0) v
        | FoldInt n \<Rightarrow> if vTyp v = TypeI32 \<or> (vTyp v = TypeBool \<and> argIs32 (fval f) v)
            then const_value OpConst32 TypeI32 (sext32 n) v else const_value OpConst64 TypeI64 n v)"
      using fold bin(1-3) q by (auto simp: foldValue_def split: folded.splits if_splits)
    have "(\<exists>s t. w = W32 s \<and> z = W32 t \<and> x = scast s \<and> y = scast t) \<or> w = W64 x \<and> z = W64 y"
      using const [OF bin(2) w(1)] const [OF bin(3) w(2)] op w(3) by auto
    then show ?thesis
    proof (elim disjE exE conjE)
      fix s t assume "w = W32 s" "z = W32 t" "x = scast s" "y = scast t"
      then show ?thesis
        using fold_binary_32 [of "vOp v" "vAuxInt v" s t r q v] op w(3) q typed v'
        by (cases q) (auto simp: const_value_def down_cast wbool_def)
    next
      assume "w = W64 x" "z = W64 y"
      then show ?thesis
        using fold_binary_64 [of "vOp v" "vAuxInt v" x y r q v] op w(3) q typed v'
        by (cases q) (auto simp: const_value_def wbool_def)
    qed
  qed
qed


lemma foldValue_ops:
  assumes "foldValue V v = Some v'"
  shows "vOp v \<in> int_ops - {OpConst32, OpConst64}" and "vOp v' \<in> {OpConst32, OpConst64}" and "int_typed v'"
proof -
  have "vOp v \<in> int_ops - {OpConst32, OpConst64} \<and> vOp v' \<in> {OpConst32, OpConst64}"
    using assms
    by (auto simp: foldValue_def fold_unary_def fold_binary_def const_value_def int_ops_def
        split: list.splits option.splits folded.splits if_splits)
  then show "vOp v \<in> int_ops - {OpConst32, OpConst64}" and "vOp v' \<in> {OpConst32, OpConst64}" and "int_typed v'"
    by (auto simp: int_typed_def)
qed

lemma int_ops_run: "op \<in> int_ops \<Longrightarrow> op \<noteq> OpPhi \<and> op \<noteq> OpInvalid"
  by (auto simp: int_ops_def)

lemma exec_value_consts:
  assumes "exec_value (std_sem ext) f j s = Done s'" and "consts_ok f (fst s)"
  shows "consts_ok f (fst s')"
proof (cases "runs (fval f j)")
  case True
  then obtain as r st where as: "arg_vals (fst s) (vArgs (fval f j)) = Some as"
      "std_sem ext (vOp (fval f j)) (vTyp (fval f j)) (vAuxInt (fval f j)) (vAux (fval f j)) as (snd s) = Done (r, st)"
      "s' = ((fst s)(j \<mapsto> r), st)"
    using assms(1) by (auto simp: exec_value_def eval_value_def split: option.splits)
  have const: "int_op op c as = Some r \<Longrightarrow> op \<in> {OpConst32, OpConst64} \<Longrightarrow> as = []" for op c
    by (auto elim!: int_op.elims split: if_splits)
  have "vOp (fval f j) \<in> {OpConst32, OpConst64} \<Longrightarrow> int_op (vOp (fval f j)) (vAuxInt (fval f j)) [] = Some r"
    using as(2) const [of "vOp (fval f j)" "vAuxInt (fval f j)"]
    by (auto simp: std_sem_def int_ops_def split: option.splits)
  then show ?thesis using assms(2) as(3) by (auto simp: consts_ok_def split: if_splits)
qed (use assms in \<open>simp add: exec_value_def\<close>)

lemma exec_value_fold:
  assumes fold: "foldValue (fval f) (fval f i) = Some v'" and typed: "int_typed (fval f i)" and ok: "consts_ok f (fst s)"
  shows "out_sim True (\<lambda>s s'. s' = s \<and> consts_ok f (fst s)) (exec_value (std_sem ext) f j s)
    (exec_value (std_sem ext) (upd_val i (\<lambda>_. v') f) j s)"
proof (cases "j = i")
  case False
  then have same: "exec_value (std_sem ext) (upd_val i (\<lambda>_. v') f) j s = exec_value (std_sem ext) f j s"
    by (simp add: exec_value_def upd_val_def cong: option.case_cong)
  show ?thesis unfolding same using exec_value_consts [OF _ ok] by (intro out_sim_same) auto
next
  case True
  note ops = foldValue_ops [OF fold]
  have run: "runs (fval f i)" "runs v'" using ops int_ops_run by (auto simp: runs_def)
  show ?thesis
  proof (cases "exec_value (std_sem ext) f j s = Stuck")
    case ns: False
    then obtain as r where as: "arg_vals (fst s) (vArgs (fval f i)) = Some as"
        "int_op (vOp (fval f i)) (vAuxInt (fval f i)) as = Some r"
      using True run ops(1) by (auto simp: exec_value_def eval_value_def std_sem_def split: option.splits)
    have v': "int_op (vOp v') (vAuxInt v') [] = Some r" "vArgs v' = []"
      using foldValue_correct [OF fold typed ok as] by auto
    have eq: "exec_value (std_sem ext) f j s = Done ((fst s)(i \<mapsto> r), snd s)"
      using True run as ops(1) by (auto simp: exec_value_def eval_value_def std_sem_def)
    moreover have "exec_value (std_sem ext) (upd_val i (\<lambda>_. v') f) j s = Done ((fst s)(i \<mapsto> r), snd s)"
      using True run v' ops(2) by (auto simp: exec_value_def eval_value_def std_sem_def upd_val_def arg_vals_def int_ops_def)
    moreover have "consts_ok f ((fst s)(i \<mapsto> r))" using exec_value_consts [OF eq ok] by simp
    ultimately show ?thesis by simp
  qed simp
qed

lemma exec_vals_fold:
  assumes "foldValue (fval f) (fval f i) = Some v'" and "int_typed (fval f i)" and "consts_ok f (fst s)"
  shows "out_sim True (\<lambda>s s'. s' = s \<and> consts_ok f (fst s)) (exec_vals (std_sem ext) f ids s)
    (exec_vals (std_sem ext) (upd_val i (\<lambda>_. v') f) ids s)"
  using assms(3)
proof (induction ids arbitrary: s)
  case (Cons j ids)
  show ?case unfolding exec_vals.simps
    by (rule out_sim_bind [OF exec_value_fold [OF assms(1,2) Cons.prems]]) (use Cons.IH in auto)
qed simp

lemma fold_step_sound:
  assumes fold: "foldValue (fval f) (fval f i) = Some v'" and typed: "int_typed (fval f i)"
  shows "sim_result True (run_func n (std_sem ext) f st) (run_func n (std_sem ext) (upd_val i (\<lambda>_. v') f) st)"
proof -
  let ?g = "upd_val i (\<lambda>_. v') f"
  have phi: "vOp (fval f i) \<noteq> OpPhi" "vOp v' \<noteq> OpPhi"
    using foldValue_ops [OF fold] int_ops_run by auto
  have blk: "fblk ?g = fblk f" "Sig ?g = Sig f" "Entry ?g = Entry f" by (simp_all add: upd_val_def)
  have enter: "enter ?g vs k env = enter f vs k env" for vs k env
  proof -
    have "vOp (fval ?g j) = OpPhi \<longleftrightarrow> vOp (fval f j) = OpPhi" for j using phi by (simp add: upd_val_def)
    moreover have "phi_val ?g k env j = phi_val f k env j" if "vOp (fval f j) = OpPhi" for j
      using that phi by (auto simp: phi_val_def upd_val_def)
    ultimately show ?thesis by (auto simp: enter_def phi_ids_def fun_eq_iff)
  qed
  define R :: "'a cfg_rel" where "R = (\<lambda>st b k env b' k' env'. b' = b \<and> k' = k \<and> env' = env \<and> consts_ok f env)"
  have "sim_result True (run n (std_sem ext) f e 0 Map.empty st) (run n (std_sem ext) ?g e 0 Map.empty st)" for e
  proof (rule run_sim [where R = R])
    fix b k env b' k' env' st assume R: "R st b k env b' k' env'"
    show "out_sim True (jump_sim R) (step_block (std_sem ext) f b k env st) (step_block (std_sem ext) ?g b' k' env' st)"
    proof (cases "enter f (Values (fblk f b)) k env")
      case (Some env1)
      have "consts_ok f env1"
        using R Some by (auto simp: enter_def R_def consts_ok_def phi_ids_def split: if_splits)
      from exec_vals_fold [OF fold typed, of "(env1, st)"] this
      have sim: "out_sim True (\<lambda>s s'. s' = s \<and> consts_ok f (fst s)) (exec_vals (std_sem ext) f (Values (fblk f b)) (env1, st))
        (exec_vals (std_sem ext) ?g (Values (fblk f b)) (env1, st))" by simp
      have fin: "out_sim True (jump_sim R) (terminate (Sig f) (fblk f b) env st) (terminate (Sig f) (fblk f b) env st)"
        if "consts_ok f env" for env and st :: 'a
      proof (rule out_sim_same)
        fix x assume "terminate (Sig f) (fblk f b) env st = Done x"
        then show "jump_sim R x x"
          using that by (cases x) (auto simp: R_def terminate_def take_edge_def split: BlockKind.splits option.splits wval.splits if_splits)
      qed
      show ?thesis
        using R Some by (auto simp: R_def step_block_def enter blk fin [unfolded R_def] intro!: out_sim_bind [OF sim])
    qed (simp add: step_block_def)
  qed (simp add: R_def consts_ok_def)
  then show ?thesis by (cases "Entry f") (auto simp: run_func_def blk)
qed


lemma sim_result_trans:
  "sim_result True o1 o2 \<Longrightarrow> sim_result True o2 o3 \<Longrightarrow> sim_result True o1 o3"
  by (auto simp: sim_result_iff)

text \<open>What the pass keeps while it walks over the values.\<close>

definition prop_inv :: "Func \<Rightarrow> Func \<times> bool \<Rightarrow> bool" where
  "prop_inv f s \<longleftrightarrow>
     fblk (fst s) = fblk f \<and> Blocks (fst s) = Blocks f \<and> (\<not> snd s \<longrightarrow> fst s = f) \<and>
     (\<forall>i. listed f i \<longrightarrow> int_typed (fval (fst s) i))"

lemma constprop_value_step:
  assumes "prop_inv f s" and "listed f i"
  shows "prop_inv f (constprop_value s i) \<and>
    sim_result True (run_func n (std_sem ext) (fst s) st) (run_func n (std_sem ext) (fst (constprop_value s i)) st)"
proof (cases "foldValue (fval (fst s)) (fval (fst s) i)")
  case (Some v)
  have typed: "int_typed (fval (fst s) i)" using assms by (simp add: prop_inv_def)
  show ?thesis
    using assms foldValue_ops(3) [OF Some] fold_step_sound [OF Some typed, of n ext st] Some
    by (auto simp: constprop_value_def prop_inv_def upd_val_def)
qed (use assms in \<open>simp add: constprop_value_def\<close>)

lemma constprop_values_step:
  assumes "prop_inv f s" and "\<And>i. i \<in> set ids \<Longrightarrow> listed f i"
  shows "prop_inv f (foldl constprop_value s ids) \<and>
    sim_result True (run_func n (std_sem ext) (fst s) st) (run_func n (std_sem ext) (fst (foldl constprop_value s ids)) st)"
  using assms
proof (induction ids arbitrary: s)
  case (Cons i ids)
  from constprop_value_step [OF Cons.prems(1), of i n ext st] Cons.prems(2)
  have one: "prop_inv f (constprop_value s i)"
    "sim_result True (run_func n (std_sem ext) (fst s) st) (run_func n (std_sem ext) (fst (constprop_value s i)) st)" by auto
  then show ?case using Cons.IH [OF one(1)] Cons.prems(2) sim_result_trans [OF one(2)] by auto
qed simp

lemma constprop_blocks_step:
  assumes "prop_inv f s" and "set bs \<subseteq> set (Blocks f)"
  shows "prop_inv f (foldl (\<lambda>s b. foldl constprop_value s (Values (fblk (fst s) b))) s bs) \<and>
    sim_result True (run_func n (std_sem ext) (fst s) st)
      (run_func n (std_sem ext) (fst (foldl (\<lambda>s b. foldl constprop_value s (Values (fblk (fst s) b))) s bs)) st)"
  using assms
proof (induction bs arbitrary: s)
  case (Cons b bs)
  have listed: "listed f i" if "i \<in> set (Values (fblk (fst s) b))" for i
    using that Cons.prems by (auto simp: listed_def prop_inv_def)
  from constprop_values_step [OF Cons.prems(1) listed, where n = n and ext = ext and st = st]
  have one: "prop_inv f (foldl constprop_value s (Values (fblk (fst s) b)))"
    "sim_result True (run_func n (std_sem ext) (fst s) st)
       (run_func n (std_sem ext) (fst (foldl constprop_value s (Values (fblk (fst s) b)))) st)" by auto
  then show ?case using Cons.IH [OF one(1)] Cons.prems(2) sim_result_trans [OF one(2)] by auto
qed simp

text \<open>
  C15: Constant folding computes what the folded operations compute, at their width and with wrapped
  shift counts: every run that is not stuck has the same traps, final state and results, whatever
  the operations that are not folded mean; nothing is changed when the pass reports no change.
\<close>

theorem ConstProp_sound:
  assumes "\<And>i. listed f i \<Longrightarrow> int_typed (fval f i)"
  shows "(run_func n (std_sem ext) f st \<noteq> Stuck \<longrightarrow>
      run_func n (std_sem ext) (fst (ConstProp f)) st = run_func n (std_sem ext) f st) \<and>
    (\<not> snd (ConstProp f) \<longrightarrow> fst (ConstProp f) = f)"
  using constprop_blocks_step [of f "(f, False)" "Blocks f" n ext st] assms
  by (auto simp: ConstProp_def prop_inv_def sim_result_iff)

theorem ConstProp_sound_witness:
  "run_func 1 (std_sem size_ext) (fst (ConstProp sum_func)) 0 = Done (Return [W32 144] 0)"
proof -
  have "int_typed (fval sum_func i)" if "listed sum_func i" for i
  proof -
    have "i \<in> {1, 2, 3, 4, 5, 6}" using that by (auto simp: listed_def sum_func_def)
    then show ?thesis by (auto simp: sum_func_def fval_straight value_of_def int_typed_def)
  qed
  then show ?thesis using ConstProp_sound [of sum_func 1 size_ext 0] sum_func_run by simp
qed

end
