(* ===== verification/PassCse.thy ===== *)
theory PassCse
  imports SsaStraight
begin

text \<open>
  Common-subexpression elimination, from \<^verbatim>\<open>internal/ssa/pass/cse.go\<close>, with the loops
  over the values of a function that the passes share and the set of return markers of
  \<^verbatim>\<open>simplify.go\<close>.
\<close>

section \<open>Loops over a function\<close>

fun fold_opt :: "('s \<Rightarrow> 'a \<Rightarrow> 's option) \<Rightarrow> 's \<Rightarrow> 'a list \<Rightarrow> 's option" where
  "fold_opt g s [] = Some s"
| "fold_opt g s (x # xs) = (case g s x of None \<Rightarrow> None | Some s \<Rightarrow> fold_opt g s xs)"

lemma fold_opt_append:
  "fold_opt g s (xs @ ys) = (case fold_opt g s xs of None \<Rightarrow> None | Some s \<Rightarrow> fold_opt g s ys)"
  by (induction xs arbitrary: s) (auto split: option.splits)

definition each_value :: "(nat \<Rightarrow> Value \<Rightarrow> Value) \<Rightarrow> Func \<Rightarrow> Func" where
  "each_value g f = foldl (\<lambda>f b. foldl (\<lambda>f v. upd_val v (g v) f) f (Values (fblk f b))) f (Blocks f)"

definition retMarkerSet :: "Func \<Rightarrow> nat set" where
  "retMarkerSet f = (\<Union>b \<in> set (Blocks f). set (markers f b))"

lemma foldl_upd_val:
  "distinct vs \<Longrightarrow> foldl (\<lambda>f v. upd_val v (g v) f) f vs =
     f\<lparr>fval := (\<lambda>i. if i \<in> set vs then g i (fval f i) else fval f i)\<rparr>"
proof (induction vs arbitrary: f)
  case (Cons v vs)
  then show ?case by (auto simp: upd_val_def intro!: arg_cong [where f = "\<lambda>h. f\<lparr>fval := h\<rparr>"])
qed simp

lemma foldl_blocks_upd:
  assumes "distinct bs" and "\<And>b. b \<in> set bs \<Longrightarrow> distinct (Values (fblk f b))"
    and "\<And>b d v. b \<in> set bs \<Longrightarrow> d \<in> set bs \<Longrightarrow> v \<in> set (Values (fblk f b)) \<Longrightarrow> v \<in> set (Values (fblk f d)) \<Longrightarrow> b = d"
  shows "foldl (\<lambda>f b. upd_blk b h (foldl (\<lambda>f v. upd_val v (g v) f) f (Values (fblk f b)))) f bs =
     f\<lparr>fval := (\<lambda>i. if \<exists>b \<in> set bs. i \<in> set (Values (fblk f b)) then g i (fval f i) else fval f i),
       fblk := (\<lambda>b. if b \<in> set bs then h (fblk f b) else fblk f b)\<rparr>"
  using assms
proof (induction bs arbitrary: f)
  case (Cons b bs)
  let ?h = "f\<lparr>fval := (\<lambda>i. if i \<in> set (Values (fblk f b)) then g i (fval f i) else fval f i),
      fblk := (fblk f)(b := h (fblk f b))\<rparr>"
  have other: "fblk ?h d = fblk f d" if "d \<in> set bs" for d using that Cons.prems(1) by auto
  have "foldl (\<lambda>f b. upd_blk b h (foldl (\<lambda>f v. upd_val v (g v) f) f (Values (fblk f b)))) f (b # bs) =
      foldl (\<lambda>f b. upd_blk b h (foldl (\<lambda>f v. upd_val v (g v) f) f (Values (fblk f b)))) ?h bs"
    using Cons.prems(2) by (simp add: foldl_upd_val upd_blk_def)
  also have "\<dots> = ?h\<lparr>fval := (\<lambda>i. if \<exists>b \<in> set bs. i \<in> set (Values (fblk ?h b)) then g i (fval ?h i) else fval ?h i),
      fblk := (\<lambda>b. if b \<in> set bs then h (fblk ?h b) else fblk ?h b)\<rparr>"
    using Cons.prems by (intro Cons.IH) (auto simp only: other set_subset_Cons distinct.simps list.set_intros)
  also have "\<dots> = f\<lparr>fval := (\<lambda>i. if \<exists>b \<in> set (b # bs). i \<in> set (Values (fblk f b)) then g i (fval f i) else fval f i),
      fblk := (\<lambda>d. if d \<in> set (b # bs) then h (fblk f d) else fblk f d)\<rparr>"
  proof -
    have "(\<lambda>i. if \<exists>b \<in> set bs. i \<in> set (Values (fblk ?h b)) then g i (fval ?h i) else fval ?h i) =
        (\<lambda>i. if \<exists>b \<in> set (b # bs). i \<in> set (Values (fblk f b)) then g i (fval f i) else fval f i)"
      using Cons.prems(1) Cons.prems(3) [of b] other by (auto simp: fun_eq_iff)
    moreover have "(\<lambda>d. if d \<in> set bs then h (fblk ?h d) else fblk ?h d) =
        (\<lambda>d. if d \<in> set (b # bs) then h (fblk f d) else fblk f d)"
      using Cons.prems(1) by (auto simp: fun_eq_iff)
    ultimately show ?thesis by simp
  qed
  finally show ?case .
qed simp

lemma ssa_ok_lists:
  assumes "ssa_ok f"
  shows "distinct (Blocks f)" and "b \<in> set (Blocks f) \<Longrightarrow> distinct (Values (fblk f b))"
    and "b \<in> set (Blocks f) \<Longrightarrow> d \<in> set (Blocks f) \<Longrightarrow> v \<in> set (Values (fblk f b)) \<Longrightarrow> v \<in> set (Values (fblk f d)) \<Longrightarrow> b = d"
  using assms vals_ok_unique by (auto simp: ssa_ok_def vals_ok_def cfg_ok_def)

lemma each_value_eq:
  assumes "distinct (Blocks f)" and "\<And>b. b \<in> set (Blocks f) \<Longrightarrow> distinct (Values (fblk f b))"
    and "\<And>b d v. b \<in> set (Blocks f) \<Longrightarrow> d \<in> set (Blocks f) \<Longrightarrow> v \<in> set (Values (fblk f b)) \<Longrightarrow>
      v \<in> set (Values (fblk f d)) \<Longrightarrow> b = d"
  shows "each_value g f = f\<lparr>fval := (\<lambda>i. if listed f i then g i (fval f i) else fval f i)\<rparr>"
proof -
  have id: "upd_blk b id h = h" for b h by (simp add: upd_blk_def)
  have same: "(\<lambda>b. if b \<in> set (Blocks f) then id (fblk f b) else fblk f b) = fblk f" by auto
  have "foldl (\<lambda>f b. upd_blk b id (foldl (\<lambda>f v. upd_val v (g v) f) f (Values (fblk f b)))) f (Blocks f) =
     f\<lparr>fval := (\<lambda>i. if listed f i then g i (fval f i) else fval f i),
       fblk := (\<lambda>b. if b \<in> set (Blocks f) then id (fblk f b) else fblk f b)\<rparr>"
    unfolding listed_def using assms by (rule foldl_blocks_upd)
  then show ?thesis unfolding each_value_def id same by simp
qed

section \<open>The pass\<close>

text \<open>Following the merge map to its end; \<open>None\<close> if it goes round in circles.\<close>

partial_function (option) canon_resolve :: "(nat \<Rightarrow> nat option) \<Rightarrow> nat \<Rightarrow> nat option" where
  "canon_resolve canon v =
     (case canon v of
        None \<Rightarrow> Some v
      | Some r \<Rightarrow> if r = v then Some v else canon_resolve canon r)"

definition cseEligible :: "Value \<Rightarrow> bool" where
  "cseEligible v \<longleftrightarrow>
     \<not> (vOp v = OpPhi \<or> vOp v = OpParam \<or> HasSideEffect v) \<and>
     vOp v \<notin> {OpLoad8U, OpLoad8S, OpLoad16U, OpLoad16S, OpLoad32, OpLoad32U, OpLoad32S, OpLoad64,
        OpLoadF32, OpLoadF64, OpGlobalGet, OpLocalGet}"

type_synonym cse_key = "Op \<times> Type \<times> i64 \<times> Aux \<times> int list"

definition operand_ids :: "(nat \<Rightarrow> nat option) \<Rightarrow> nat option list \<Rightarrow> int list option" where
  "operand_ids canon as =
     those (map (\<lambda>a. case a of None \<Rightarrow> Some (- 1) | Some i \<Rightarrow> map_option int (canon_resolve canon i)) as)"

text \<open>
  The key is the rendering of these components; operands of a commutative operation are put in
  ascending order.
\<close>

definition sort_pair :: "int list \<Rightarrow> int list" where
  "sort_pair ids = (case ids of [x, y] \<Rightarrow> if x > y then [y, x] else ids | _ \<Rightarrow> ids)"

definition cseKey :: "(nat \<Rightarrow> nat option) \<Rightarrow> Value \<Rightarrow> cse_key option" where
  "cseKey canon v =
     (case operand_ids canon (vArgs v) of
        None \<Rightarrow> None
      | Some ids \<Rightarrow> Some (vOp v, vTyp v, vAuxInt v, vAux v, if IsCommutative (vOp v) then sort_pair ids else ids))"

record cse_state =
  cse_seen :: "cse_key \<Rightarrow> nat option"
  cse_canon :: "nat \<Rightarrow> nat option"
  cse_changed :: bool

definition cse_scan_value :: "Func \<Rightarrow> nat set \<Rightarrow> cse_state \<Rightarrow> nat \<Rightarrow> cse_state option" where
  "cse_scan_value f ret s i =
     (let v = fval f i in
      if vOp v = OpInvalid \<or> i \<in> ret then Some s
      else if \<not> cseEligible v then Some s
      else (case cseKey (cse_canon s) v of
          None \<Rightarrow> None
        | Some key \<Rightarrow> (case cse_seen s key of
              Some prev \<Rightarrow> Some (s\<lparr>cse_canon := (cse_canon s)(i \<mapsto> prev), cse_changed := True\<rparr>)
            | None \<Rightarrow> Some (s\<lparr>cse_seen := (cse_seen s)(key \<mapsto> i)\<rparr>))))"

definition cse_scan_block :: "Func \<Rightarrow> nat set \<Rightarrow> cse_state \<Rightarrow> nat \<Rightarrow> cse_state option" where
  "cse_scan_block f ret s b = fold_opt (cse_scan_value f ret) (s\<lparr>cse_seen := Map.empty\<rparr>) (Values (fblk f b))"

definition cse_scan :: "Func \<Rightarrow> cse_state option" where
  "cse_scan f = fold_opt (cse_scan_block f (retMarkerSet f))
     \<lparr>cse_seen = Map.empty, cse_canon = Map.empty, cse_changed = False\<rparr> (Blocks f)"

text \<open>Rewriting all references through the merge map, and burying what was merged away.\<close>

definition resolve_arg :: "(nat \<Rightarrow> nat option) \<Rightarrow> nat option \<Rightarrow> nat option option" where
  "resolve_arg canon a = (case a of None \<Rightarrow> Some None | Some i \<Rightarrow> map_option Some (canon_resolve canon i))"

definition rewrite_value :: "(nat \<Rightarrow> nat option) \<Rightarrow> Func \<Rightarrow> nat \<Rightarrow> Func option" where
  "rewrite_value canon f i =
     (if vOp (fval f i) = OpInvalid then Some f
      else (case those (map (resolve_arg canon) (vArgs (fval f i))) of
          None \<Rightarrow> None
        | Some as \<Rightarrow> Some (upd_val i (\<lambda>v. v\<lparr>vArgs := as\<rparr>) f)))"

definition rewrite_block :: "(nat \<Rightarrow> nat option) \<Rightarrow> Func \<Rightarrow> nat \<Rightarrow> Func option" where
  "rewrite_block canon f b =
     (case fold_opt (rewrite_value canon) f (Values (fblk f b)) of
        None \<Rightarrow> None
      | Some f \<Rightarrow> (case resolve_arg canon (Control (fblk f b)) of
            None \<Rightarrow> None
          | Some c \<Rightarrow> Some (upd_blk b (\<lambda>blk. blk\<lparr>Control := c\<rparr>) f)))"

definition bury_merged :: "(nat \<Rightarrow> nat option) \<Rightarrow> nat \<Rightarrow> Value \<Rightarrow> Value" where
  "bury_merged canon i v =
     (if vOp v = OpInvalid then v
      else (case canon i of
          None \<Rightarrow> v
        | Some r \<Rightarrow> if r \<noteq> i then v\<lparr>vOp := OpInvalid, vArgs := []\<rparr> else v))"

definition CSE :: "Func \<Rightarrow> (Func \<times> bool) option" where
  "CSE f =
     (case cse_scan f of
        None \<Rightarrow> None
      | Some s \<Rightarrow>
          if \<not> cse_changed s then Some (f, False)
          else (case fold_opt (rewrite_block (cse_canon s)) f (Blocks f) of
              None \<Rightarrow> None
            | Some f \<Rightarrow> Some (each_value (bury_merged (cse_canon s)) f, True)))"

section \<open>What the rewriting does\<close>

definition rep :: "(nat \<Rightarrow> nat option) \<Rightarrow> nat \<Rightarrow> nat" where
  "rep canon v = (case canon v of None \<Rightarrow> v | Some r \<Rightarrow> r)"

definition flat :: "(nat \<Rightarrow> nat option) \<Rightarrow> bool" where
  "flat canon \<longleftrightarrow> (\<forall>v r. canon v = Some r \<longrightarrow> canon r = None)"

lemma canon_resolve_flat: "flat canon \<Longrightarrow> canon_resolve canon v = Some (rep canon v)"
  by (subst canon_resolve.simps, subst canon_resolve.simps) (auto simp: flat_def rep_def split: option.splits)

lemma canon_resolve_steps [simp]:
  "canon v = None \<Longrightarrow> canon_resolve canon v = Some v"
  "canon v = Some r \<Longrightarrow> canon r = None \<Longrightarrow> canon_resolve canon v = Some r"
  by (subst canon_resolve.simps, simp add: canon_resolve.simps [of canon r])+

lemma rep_rep: "flat canon \<Longrightarrow> rep canon (rep canon v) = rep canon v"
  by (auto simp: flat_def rep_def split: option.splits)

definition resolves :: "(nat \<Rightarrow> nat option) \<Rightarrow> (nat \<Rightarrow> nat) \<Rightarrow> bool" where
  "resolves canon \<sigma> \<longleftrightarrow> (\<forall>v. canon_resolve canon v = Some (\<sigma> v))"

lemma resolves_flat: "flat canon \<Longrightarrow> resolves canon (rep canon)"
  by (simp add: resolves_def canon_resolve_flat)

lemma resolve_arg_resolves: "resolves canon \<sigma> \<Longrightarrow> resolve_arg canon = (\<lambda>a. Some (map_option \<sigma> a))"
  by (rule ext, rename_tac a, case_tac a) (auto simp: resolve_arg_def resolves_def)

lemma those_map_Some: "those (map (\<lambda>x. Some (g x)) xs) = Some (map g xs)"
  by (induction xs) auto

lemma rewrite_value_resolves:
  "resolves canon \<sigma> \<Longrightarrow> rewrite_value canon f i = Some (upd_val i
     (\<lambda>v. if vOp v = OpInvalid then v else v\<lparr>vArgs := map (map_option \<sigma>) (vArgs v)\<rparr>) f)"
  by (simp add: rewrite_value_def resolve_arg_resolves those_map_Some upd_val_def)

lemma fold_opt_Some: "(\<And>s x. g s x = Some (h s x)) \<Longrightarrow> fold_opt g s xs = Some (foldl h s xs)"
  by (induction xs arbitrary: s) auto

lemma rewrite_block_resolves:
  assumes "resolves canon \<sigma>"
  shows "rewrite_block canon f b = Some (upd_blk b (\<lambda>blk. blk\<lparr>Control := map_option \<sigma> (Control blk)\<rparr>)
    (foldl (\<lambda>f i. upd_val i (\<lambda>v. if vOp v = OpInvalid then v
       else v\<lparr>vArgs := map (map_option \<sigma>) (vArgs v)\<rparr>) f) f (Values (fblk f b))))"
  using assms fold_opt_Some [of "rewrite_value canon", OF rewrite_value_resolves [OF assms]]
  by (simp add: rewrite_block_def resolve_arg_resolves upd_blk_def)

text \<open>Rewriting and then burying is the substitution, whichever way the dead values are told.\<close>

lemma rewrite_bury:
  assumes "ssa_ok f" and "resolves canon \<sigma>"
    and bury: "\<And>i v. bury i (if vOp v = OpInvalid then v else v\<lparr>vArgs := map (map_option \<sigma>) (vArgs v)\<rparr>) =
      subst_value \<sigma> i v"
  shows "map_option (each_value bury) (fold_opt (rewrite_block canon) f (Blocks f)) = Some (apply_subst \<sigma> f)"
proof -
  define g where "g (i :: nat) v = (if vOp v = OpInvalid then v else v\<lparr>vArgs := map (map_option \<sigma>) (vArgs v)\<rparr>)" for i and v :: Value
  define h where "h blk = blk\<lparr>Control := map_option \<sigma> (Control blk)\<rparr>" for blk :: Block
  let ?f = "f\<lparr>fval := (\<lambda>i. if listed f i then g i (fval f i) else fval f i),
      fblk := (\<lambda>b. if b \<in> set (Blocks f) then h (fblk f b) else fblk f b)\<rparr>"
  have "fold_opt (rewrite_block canon) f (Blocks f) =
      Some (foldl (\<lambda>f b. upd_blk b h (foldl (\<lambda>f v. upd_val v (g v) f) f (Values (fblk f b)))) f (Blocks f))"
    using rewrite_block_resolves [OF assms(2)] unfolding g_def h_def by (rule fold_opt_Some)
  then have 1: "fold_opt (rewrite_block canon) f (Blocks f) = Some ?f"
    using foldl_blocks_upd [of "Blocks f" f h g] ssa_ok_lists [OF assms(1)] by (simp add: listed_def)
  have vals: "Values (fblk ?f b) = Values (fblk f b)" "Blocks ?f = Blocks f" for b by (auto simp: h_def)
  have 2: "each_value bury ?f = ?f\<lparr>fval := (\<lambda>i. if listed ?f i then bury i (fval ?f i) else fval ?f i)\<rparr>"
    using ssa_ok_lists [OF assms(1)] by (intro each_value_eq) (simp_all only: vals)
  have 3: "listed ?f = listed f" by (simp add: listed_def h_def fun_eq_iff)
  have "bury i (g i v) = subst_value \<sigma> i v" for i v using bury by (simp add: g_def)
  then show ?thesis unfolding 1 option.map 2 3
    by (auto simp: apply_subst_def h_def fun_eq_iff intro!: arg_cong2 [where f = "\<lambda>x y. f\<lparr>fval := x, fblk := y\<rparr>"])
qed

lemma bury_rewrite:
  assumes "ssa_ok f" and "flat canon"
  shows "map_option (each_value (bury_merged canon)) (fold_opt (rewrite_block canon) f (Blocks f)) =
    Some (apply_subst (rep canon) f)"
  using assms by (intro rewrite_bury [OF assms(1) resolves_flat [OF assms(2)]])
    (auto simp: bury_merged_def flat_def subst_value_def rep_def split: option.splits)

text \<open>A map that always goes down in some measure resolves, to values it does not replace.\<close>

lemma resolves_by_rank:
  assumes down: "\<And>v r. canon v = Some r \<Longrightarrow> m r < (m v :: nat)"
  obtains \<sigma> where "resolves canon \<sigma>" and "\<And>v. canon (\<sigma> v) = None" and "\<And>v. canon v = None \<Longrightarrow> \<sigma> v = v"
    and "\<And>v r. canon v = Some r \<Longrightarrow> \<sigma> v = \<sigma> r"
proof -
  have ex: "\<exists>y. canon_resolve canon v = Some y \<and> canon y = None" for v
  proof (induction "m v" arbitrary: v rule: less_induct)
    case less
    show ?case
    proof (cases "canon v")
      case (Some r)
      have "m r < m v" by (rule down [OF Some])
      then have "r \<noteq> v" by auto
      then show ?thesis using Some less.hyps [OF \<open>m r < m v\<close>] by (subst canon_resolve.simps) simp
    qed simp
  qed
  have step: "canon v = Some r \<Longrightarrow> canon_resolve canon v = canon_resolve canon r" for v r
    using down [of v r] by (subst canon_resolve.simps) auto
  show thesis
  proof (rule that [of "\<lambda>v. the (canon_resolve canon v)"])
    show "resolves canon (\<lambda>v. the (canon_resolve canon v))" unfolding resolves_def using ex by (metis option.sel)
    show "canon (the (canon_resolve canon v)) = None" for v using ex [of v] by auto
  qed (use step in auto)
qed

section \<open>What the scan finds\<close>

text \<open>Two values with equal operations whose operands have equal representatives.\<close>

definition same_args :: "(nat \<Rightarrow> nat) \<Rightarrow> Op \<Rightarrow> nat option list \<Rightarrow> nat option list \<Rightarrow> bool" where
  "same_args \<sigma> op as bs \<longleftrightarrow>
     map (map_option \<sigma>) as = map (map_option \<sigma>) bs \<or>
     IsCommutative op \<and> length as = 2 \<and> map (map_option \<sigma>) as = rev (map (map_option \<sigma>) bs)"

definition same_value :: "(nat \<Rightarrow> nat) \<Rightarrow> Value \<Rightarrow> Value \<Rightarrow> bool" where
  "same_value \<sigma> v w \<longleftrightarrow>
     vOp v = vOp w \<and> vTyp v = vTyp w \<and> vAuxInt v = vAuxInt w \<and> vAux v = vAux w \<and>
     same_args \<sigma> (vOp v) (vArgs v) (vArgs w)"

lemma operand_ids_flat:
  "flat canon \<Longrightarrow> operand_ids canon as = Some (map (\<lambda>a. case map_option (rep canon) a of None \<Rightarrow> - 1 | Some i \<Rightarrow> int i) as)"
  unfolding operand_ids_def
  by (subst those_map_Some [symmetric], rule those_map_cong) (auto simp: canon_resolve_flat split: option.splits)

lemma option_int_inj: "inj (\<lambda>a. case a of None \<Rightarrow> - 1 | Some i \<Rightarrow> int i)"
  by (auto simp: inj_def split: option.splits)

lemma sort_pair_eq: "sort_pair xs = sort_pair ys \<Longrightarrow> xs = ys \<or> length xs = 2 \<and> xs = rev ys"
  by (auto simp: sort_pair_def split: list.splits if_splits)

text \<open>Equal keys, taken at different times of the scan, mean equal values under the later map.\<close>

lemma cseKey_eq:
  assumes "flat c1" and "flat c2" and "cseKey c1 v = Some k" and "cseKey c2 w = Some k"
    and "\<And>x. rep c2 (rep c1 x) = rep c2 x"
  shows "same_value (rep c2) v w"
proof -
  let ?int = "\<lambda>a. case a of None \<Rightarrow> - 1 | Some i \<Rightarrow> int i"
  let ?ids = "\<lambda>c v. map (\<lambda>a. ?int (map_option (rep c) a)) (vArgs v)"
  have "cseKey c v = Some (vOp v, vTyp v, vAuxInt v, vAux v, if IsCommutative (vOp v) then sort_pair (?ids c v) else ?ids c v)"
    if "flat c" for c v using that by (simp add: cseKey_def operand_ids_flat)
  then have eq: "vOp v = vOp w" "vTyp v = vTyp w" "vAuxInt v = vAuxInt w" "vAux v = vAux w"
    and ids: "?ids c1 v = ?ids c2 w \<or> IsCommutative (vOp v) \<and> length (?ids c1 v) = 2 \<and> ?ids c1 v = rev (?ids c2 w)"
    using assms(1-4) sort_pair_eq [of "?ids c1 v" "?ids c2 w"] by (auto split: if_splits)
  have inj: "map (\<lambda>a. ?int (map_option (rep c1) a)) as = map (\<lambda>a. ?int (map_option (rep c2) a)) bs \<longleftrightarrow>
      map (map_option (rep c1)) as = map (map_option (rep c2)) bs" for as bs
    using inj_map_eq_map [OF option_int_inj, of "map (map_option (rep c1)) as" "map (map_option (rep c2)) bs"]
    by (simp add: comp_def)
  have "map (map_option (rep c1)) (vArgs v) = map (map_option (rep c2)) (vArgs w) \<or>
      IsCommutative (vOp v) \<and> length (vArgs v) = 2 \<and>
      map (map_option (rep c1)) (vArgs v) = map (map_option (rep c2)) (rev (vArgs w))"
    using ids inj [of "vArgs v" "vArgs w"] inj [of "vArgs v" "rev (vArgs w)"] by (auto simp: rev_map)
  then have "map (map_option (rep c2)) (map (map_option (rep c1)) (vArgs v)) =
        map (map_option (rep c2)) (map (map_option (rep c2)) (vArgs w)) \<or>
      IsCommutative (vOp v) \<and> length (vArgs v) = 2 \<and>
      map (map_option (rep c2)) (map (map_option (rep c1)) (vArgs v)) =
        map (map_option (rep c2)) (map (map_option (rep c2)) (rev (vArgs w)))"
    by metis
  then show ?thesis
    using eq assms(2,5)
    by (auto simp: same_value_def same_args_def option.map_comp comp_def rep_rep rev_map)
qed

text \<open>What a merge of a value into an earlier one of its block rests on.\<close>

definition merged :: "Func \<Rightarrow> (nat \<Rightarrow> nat option) \<Rightarrow> nat \<Rightarrow> nat \<Rightarrow> bool" where
  "merged f canon v r \<longleftrightarrow>
     v \<notin> retMarkerSet f \<and> cseEligible (fval f v) \<and> runs (fval f v) \<and> runs (fval f r) \<and>
     same_value (rep canon) (fval f v) (fval f r) \<and>
     (\<exists>b \<in> set (Blocks f). \<exists>p q post. Values (fblk f b) = p @ r # q @ v # post)"

definition scanned :: "Func \<Rightarrow> nat set \<Rightarrow> (nat \<Rightarrow> nat option) \<Rightarrow> bool" where
  "scanned f S canon \<longleftrightarrow>
     flat canon \<and> (\<forall>v r. canon v = Some r \<longrightarrow> v \<in> S \<and> r \<in> S \<and> merged f canon v r)"

definition seen_ok :: "Func \<Rightarrow> nat list \<Rightarrow> cse_state \<Rightarrow> bool" where
  "seen_ok f pre s \<longleftrightarrow>
     (\<forall>key r. cse_seen s key = Some r \<longrightarrow>
        r \<in> set pre \<and> cse_canon s r = None \<and> runs (fval f r) \<and> cseEligible (fval f r) \<and>
        (\<exists>c. flat c \<and> cseKey c (fval f r) = Some key \<and>
           (\<forall>x. rep (cse_canon s) (rep c x) = rep (cse_canon s) x)))"

lemma same_value_mono:
  assumes "same_value (rep c1) v w" and "\<And>x. rep c2 (rep c1 x) = rep c2 x"
  shows "same_value (rep c2) v w"
proof -
  have comp: "map (map_option (rep c2)) (map (map_option (rep c1)) as) = map (map_option (rep c2)) as" for as
    using assms(2) by (simp add: option.map_comp comp_def)
  have "map (map_option (rep c2)) as = map (map_option (rep c2)) bs"
    if "map (map_option (rep c1)) as = map (map_option (rep c1)) bs" for as bs
    using comp [of as] comp [of bs] that by simp
  from this [of "vArgs v" "vArgs w"] this [of "vArgs v" "rev (vArgs w)"] show ?thesis
    using assms(1) by (auto simp: same_value_def same_args_def rev_map)
qed

lemma rep_extend:
  assumes "flat c" and "c v = None" and "c r = None" and "v \<noteq> r" and "\<And>x. c x \<noteq> Some v"
  shows "flat (c(v \<mapsto> r))" and "rep (c(v \<mapsto> r)) (rep c x) = rep (c(v \<mapsto> r)) x"
  using assms by (auto simp: flat_def rep_def split: option.splits)

lemma cse_scan_value_ok:
  assumes b: "b \<in> set (Blocks f)" and split: "Values (fblk f b) = pre @ v # post"
    and inv: "scanned f S (cse_canon s)" and seen: "seen_ok f pre s" and S: "set pre \<subseteq> S" "v \<notin> S"
    and runs: "cse_changed s \<longleftrightarrow> cse_canon s \<noteq> Map.empty"
  shows "\<exists>s'. cse_scan_value f (retMarkerSet f) s v = Some s' \<and> scanned f (insert v S) (cse_canon s') \<and>
    seen_ok f (pre @ [v]) s' \<and> (cse_changed s' \<longleftrightarrow> cse_canon s' \<noteq> Map.empty)"
proof -
  have flat: "flat (cse_canon s)" using inv by (simp add: scanned_def)
  have keep: "scanned f (insert v S) (cse_canon s)" "seen_ok f (pre @ [v]) s"
    using inv seen by (auto simp: scanned_def seen_ok_def)
  show ?thesis
  proof (cases "vOp (fval f v) = OpInvalid \<or> v \<in> retMarkerSet f \<or> \<not> cseEligible (fval f v)")
    case True
    then have "cse_scan_value f (retMarkerSet f) s v = Some s" by (auto simp: cse_scan_value_def Let_def)
    then show ?thesis using keep runs by blast
  next
    case False
    then have elig: "cseEligible (fval f v)" "runs (fval f v)" "v \<notin> retMarkerSet f"
      by (auto simp: runs_def cseEligible_def)
    obtain key where key: "cseKey (cse_canon s) (fval f v) = Some key"
      using flat by (simp add: cseKey_def operand_ids_flat)
    have none: "cse_canon s v = None" and notrange: "\<And>x. cse_canon s x \<noteq> Some v"
      using inv S(2) by (cases "cse_canon s v"; auto simp: scanned_def)+
    show ?thesis
    proof (cases "cse_seen s key")
      case None
      let ?s = "s\<lparr>cse_seen := (cse_seen s)(key \<mapsto> v)\<rparr>"
      have "seen_ok f (pre @ [v]) ?s"
        using keep(2) none elig key flat by (auto simp: seen_ok_def rep_rep)
      moreover have "cse_scan_value f (retMarkerSet f) s v = Some ?s"
        using False key None by (simp add: cse_scan_value_def Let_def)
      ultimately show ?thesis using keep(1) runs by simp
    next
      case (Some r)
      then obtain c where r: "r \<in> set pre" "cse_canon s r = None" "runs (fval f r)" "cseEligible (fval f r)"
        and c: "flat c" "cseKey c (fval f r) = Some key" "\<And>x. rep (cse_canon s) (rep c x) = rep (cse_canon s) x"
        using seen Some unfolding seen_ok_def by blast
      let ?c = "(cse_canon s)(v \<mapsto> r)"
      have ne: "v \<noteq> r" using r S by auto
      note ext = rep_extend [OF flat none r(2) ne notrange]
      have "same_value (rep (cse_canon s)) (fval f r) (fval f v)"
        by (rule cseKey_eq [OF c(1) flat c(2) key c(3)])
      then have sv: "same_value (rep ?c) (fval f v) (fval f r)"
        using same_value_mono [OF _ ext(2)] unfolding same_value_def same_args_def by (metis length_map length_rev rev_rev_ident)
      obtain p q where "pre = p @ r # q" using r(1) by (meson split_list)
      then have "merged f ?c v r" using elig r sv b split by (auto simp: merged_def)
      moreover have "merged f ?c x y" if "cse_canon s x = Some y" for x y
        using that inv same_value_mono [OF _ ext(2)] by (auto simp: scanned_def merged_def)
      ultimately have "scanned f (insert v S) ?c"
        using inv ext(1) r(1) S by (auto simp: scanned_def)
      moreover have "seen_ok f (pre @ [v]) (s\<lparr>cse_canon := ?c, cse_changed := True\<rparr>)"
      proof (unfold seen_ok_def, intro allI impI)
        fix k x assume "cse_seen (s\<lparr>cse_canon := ?c, cse_changed := True\<rparr>) k = Some x"
        then have "cse_seen s k = Some x" by simp
        then obtain d where x: "x \<in> set pre" "cse_canon s x = None" "runs (fval f x)" "cseEligible (fval f x)"
          and d: "flat d" "cseKey d (fval f x) = Some k" "\<And>y. rep (cse_canon s) (rep d y) = rep (cse_canon s) y"
          using seen unfolding seen_ok_def by blast
        have "rep ?c (rep d y) = rep ?c y" for y using ext(2) d(3) by metis
        moreover have "x \<noteq> v" using x(1) S by auto
        ultimately show "x \<in> set (pre @ [v]) \<and> cse_canon (s\<lparr>cse_canon := ?c, cse_changed := True\<rparr>) x = None \<and>
            runs (fval f x) \<and> cseEligible (fval f x) \<and>
            (\<exists>c. flat c \<and> cseKey c (fval f x) = Some k \<and>
              (\<forall>y. rep (cse_canon (s\<lparr>cse_canon := ?c, cse_changed := True\<rparr>)) (rep c y) =
                 rep (cse_canon (s\<lparr>cse_canon := ?c, cse_changed := True\<rparr>)) y))"
          using x d by auto
      qed
      moreover have "cse_scan_value f (retMarkerSet f) s v = Some (s\<lparr>cse_canon := ?c, cse_changed := True\<rparr>)"
        using False key Some by (simp add: cse_scan_value_def Let_def)
      ultimately show ?thesis by simp
    qed
  qed
qed


lemma cse_scan_values_ok:
  assumes b: "b \<in> set (Blocks f)" and dist: "distinct (Values (fblk f b))"
    and split: "Values (fblk f b) = pre @ ids @ post"
    and inv: "scanned f S (cse_canon s)" and seen: "seen_ok f pre s" and S: "set pre \<subseteq> S" "S \<inter> set ids = {}"
    and runs: "cse_changed s \<longleftrightarrow> cse_canon s \<noteq> Map.empty"
  shows "\<exists>s'. fold_opt (cse_scan_value f (retMarkerSet f)) s ids = Some s' \<and> scanned f (S \<union> set ids) (cse_canon s') \<and>
    (cse_changed s' \<longleftrightarrow> cse_canon s' \<noteq> Map.empty)"
  using split inv seen S runs
proof (induction ids arbitrary: pre S s)
  case (Cons v ids)
  have v: "Values (fblk f b) = pre @ v # (ids @ post)" using Cons.prems(1) by simp
  obtain s' where s': "cse_scan_value f (retMarkerSet f) s v = Some s'" "scanned f (insert v S) (cse_canon s')"
      "seen_ok f (pre @ [v]) s'" "cse_changed s' \<longleftrightarrow> cse_canon s' \<noteq> Map.empty"
    using cse_scan_value_ok [OF b v Cons.prems(2,3,4) _ Cons.prems(6)] Cons.prems(5) by auto
  have "\<exists>s''. fold_opt (cse_scan_value f (retMarkerSet f)) s' ids = Some s'' \<and>
      scanned f (insert v S \<union> set ids) (cse_canon s'') \<and> (cse_changed s'' \<longleftrightarrow> cse_canon s'' \<noteq> Map.empty)"
    using Cons.prems s' dist by (intro Cons.IH [of "pre @ [v]"]) auto
  then show ?case using s'(1) by simp
qed simp

lemma cse_scan_blocks_ok:
  assumes ok: "ssa_ok f" and "set bs \<subseteq> set (Blocks f)" and "distinct bs"
    and "scanned f S (cse_canon s)" and "cse_changed s \<longleftrightarrow> cse_canon s \<noteq> Map.empty"
    and "\<And>b v. b \<in> set bs \<Longrightarrow> v \<in> set (Values (fblk f b)) \<Longrightarrow> v \<notin> S"
  shows "\<exists>S' s'. fold_opt (cse_scan_block f (retMarkerSet f)) s bs = Some s' \<and> scanned f S' (cse_canon s') \<and>
    (cse_changed s' \<longleftrightarrow> cse_canon s' \<noteq> Map.empty)"
  using assms(2-)
proof (induction bs arbitrary: S s)
  case (Cons b bs)
  have b: "b \<in> set (Blocks f)" using Cons.prems(1) by simp
  let ?s = "s\<lparr>cse_seen := Map.empty\<rparr>"
  obtain s' where s': "cse_scan_block f (retMarkerSet f) s b = Some s'"
      "scanned f (S \<union> set (Values (fblk f b))) (cse_canon s')" "cse_changed s' \<longleftrightarrow> cse_canon s' \<noteq> Map.empty"
    using cse_scan_values_ok [OF b ssa_ok_lists(2) [OF ok b], of "[]" "Values (fblk f b)" "[]" S ?s]
      Cons.prems(3,4) Cons.prems(5) [of b]
    by (auto simp: cse_scan_block_def seen_ok_def)
  have "v \<notin> S \<union> set (Values (fblk f b))" if "d \<in> set bs" "v \<in> set (Values (fblk f d))" for d v
    using that Cons.prems(1,2) Cons.prems(5) [of d v] ssa_ok_lists(3) [OF ok, of d b v] by auto
  then have "\<exists>S' s''. fold_opt (cse_scan_block f (retMarkerSet f)) s' bs = Some s'' \<and> scanned f S' (cse_canon s'') \<and>
      (cse_changed s'' \<longleftrightarrow> cse_canon s'' \<noteq> Map.empty)"
    using Cons.prems(1,2) by (intro Cons.IH [OF _ _ s'(2,3)]) auto
  then show ?case using s'(1) by simp
qed auto

lemma cse_scan_ok:
  assumes "ssa_ok f"
  shows "\<exists>S s. cse_scan f = Some s \<and> scanned f S (cse_canon s) \<and> (cse_changed s \<longleftrightarrow> cse_canon s \<noteq> Map.empty)"
  using cse_scan_blocks_ok [OF assms, of "Blocks f" "{}" "\<lparr>cse_seen = Map.empty, cse_canon = Map.empty, cse_changed = False\<rparr>"]
    ssa_ok_lists(1) [OF assms]
  by (auto simp: cse_scan_def scanned_def flat_def)

section \<open>Soundness\<close>

text \<open>A value whose result depends on nothing but its operands, and in no particular order if it is
  commutative.\<close>

definition pure_value :: "'s sem \<Rightarrow> Value \<Rightarrow> bool" where
  "pure_value sem v \<longleftrightarrow>
     (\<forall>as w st st' st1. eval_value sem v as st = Done (w, st1) \<longrightarrow> eval_value sem v as st' = Done (w, st')) \<and>
     (IsCommutative (vOp v) \<longrightarrow> (\<forall>x y st. eval_value sem v [x, y] st = eval_value sem v [y, x] st))"

definition cse_pure :: "'s sem \<Rightarrow> Func \<Rightarrow> bool" where
  "cse_pure sem f \<longleftrightarrow> (\<forall>v. listed f v \<longrightarrow> cseEligible (fval f v) \<longrightarrow> pure_value sem (fval f v))"

lemma arg_vals_nth: "arg_vals env as = Some ws \<longleftrightarrow> map (arg_val env) as = map Some ws"
  by (simp add: arg_vals_def those_eq_Some)

lemma exec_splits:
  assumes "exec_vals sem f (p @ r # q) s0 = Done s" and "distinct (p @ r # q)" and "runs (fval f r)"
  obtains s1 as w st2 where "exec_vals sem f p s0 = Done s1" "arg_vals (fst s1) (vArgs (fval f r)) = Some as"
    "eval_value sem (fval f r) as (snd s1) = Done (w, st2)" "fst s r = Some w"
    "\<And>a. a \<notin> {i \<in> set (r # q). runs (fval f i)} \<Longrightarrow> fst s a = fst s1 a"
proof -
  obtain s1 where s1: "exec_vals sem f p s0 = Done s1" "exec_vals sem f (r # q) s1 = Done s"
    using assms(1) by (auto simp: exec_vals_append)
  then obtain s2 where s2: "exec_value sem f r s1 = Done s2" "exec_vals sem f q s2 = Done s" by auto
  then obtain as w st2 where r: "arg_vals (fst s1) (vArgs (fval f r)) = Some as"
      "eval_value sem (fval f r) as (snd s1) = Done (w, st2)" "s2 = ((fst s1)(r \<mapsto> w), st2)"
    using assms(3) by (auto simp: exec_value_def split: option.splits)
  have "fst s r = fst s2 r" using assms(2) by (intro exec_vals_other [OF s2(2)]) auto
  moreover have "fst s a = fst s1 a" if "a \<notin> {i \<in> set (r # q). runs (fval f i)}" for a
    using that by (intro exec_vals_other [OF s1(2)]) auto
  ultimately show thesis using that s1(1) r by auto
qed

lemma merged_dies_ok:
  assumes ok: "ssa_ok f" and pure: "cse_pure sem f" and m: "merged f canon v r" and flat: "flat canon"
    and cr: "canon v = Some r" and b: "b \<in> set (Blocks f)" and split: "Values (fblk f b) = pre @ v # post"
  shows "r \<in> set pre" and "dies_ok sem f I (rep canon) b pre v"
proof -
  obtain d p q post' where d: "d \<in> set (Blocks f)" "Values (fblk f d) = p @ r # q @ v # post'"
    using m by (auto simp: merged_def)
  have "d = b" using ssa_ok_lists(3) [OF ok d(1) b, of v] d split by simp
  then have eq: "(p @ r # q) @ v # post' = pre @ v # post" using d split by simp
  have "distinct (pre @ v # post)" using ssa_ok_lists(2) [OF ok b] split by simp
  then have "distinct ((p @ r # q) @ v # post')" "v \<notin> set pre" using eq by auto
  then have "v \<notin> set (p @ r # q)" "v \<notin> set post'" by auto
  then have pre: "pre = p @ r # q" using eq append_Cons_eq_iff [of v "p @ r # q" post' pre post] by simp
  then show "r \<in> set pre" by simp
  have bs: "Values (fblk f b) = p @ r # (q @ v # post)" using split pre by simp
  have dist: "distinct (Values (fblk f b))" by (rule ssa_ok_lists(2) [OF ok b])
  have rr: "runs (fval f r)" "runs (fval f v)" and sv: "same_value (rep canon) (fval f v) (fval f r)"
    and elig: "cseEligible (fval f v)" using m by (auto simp: merged_def)
  have lv: "listed f v" using b split unfolding listed_def by (intro bexI [of _ b]) auto
  have pv: "pure_value sem (fval f v)" using pure lv elig by (auto simp: cse_pure_def)
  have uses: "uses_ok f" using ok by (simp add: ssa_ok_def)
  show "dies_ok sem f I (rep canon) b pre v"
    unfolding dies_ok_def
  proof (intro allI impI)
    fix env0 st0 env st as
    assume ex: "exec_vals sem f pre (env0, st0) = Done (env, st)"
      and hold: "\<forall>a. avail f b pre a \<longrightarrow> env a = env (rep canon a)"
      and as: "arg_vals env (vArgs (fval f v)) = Some as"
    have ex': "exec_vals sem f (p @ r # q) (env0, st0) = Done (env, st)" and d': "distinct (p @ r # q)"
      using ex pre dist bs by auto
    obtain s1 asr w st2 where s1: "arg_vals (fst s1) (vArgs (fval f r)) = Some asr"
      "eval_value sem (fval f r) asr (snd s1) = Done (w, st2)" "env r = Some w"
      "\<And>a. a \<notin> {i \<in> set (r # q). runs (fval f i)} \<Longrightarrow> env a = fst s1 a"
      by (rule exec_splits [OF ex' d' rr(1)]) simp
    have avr: "avail f b p a" if "Some a \<in> set (vArgs (fval f r))" for a
      using uses b bs rr(1) that unfolding uses_ok_def by metis
    have avv: "avail f b pre a" if "Some a \<in> set (vArgs (fval f v))" for a
      using uses b split rr(2) that unfolding uses_ok_def by metis
    have fixed: "env a = fst s1 a \<and> env a = env (rep canon a)" if "Some a \<in> set (vArgs (fval f r))" for a
    proof -
      have "a \<notin> {i \<in> set (r # q). runs (fval f i)}"
        using avr [OF that] dist bs ssa_ok_lists(3) [OF ok _ b, of _ a]
        by (auto simp: avail_def phi_ids_def runs_def)
      moreover have "avail f b pre a" using avr [OF that] pre by (auto simp: avail_def)
      ultimately show ?thesis using s1(4) hold by auto
    qed
    have val: "arg_val env (map_option (rep canon) a) = arg_val env a" if "a \<in> set (vArgs (fval f v)) \<union> set (vArgs (fval f r))" for a
    proof (cases a)
      case (Some x)
      then have "env x = env (rep canon x)" using that fixed [of x] avv [of x] hold by auto
      then show ?thesis using Some by (simp add: arg_val_def)
    qed (simp add: arg_val_def)
    have r_args: "map (arg_val env) (vArgs (fval f r)) = map Some asr"
    proof -
      have "map (arg_val env) (vArgs (fval f r)) = map (arg_val (fst s1)) (vArgs (fval f r))"
        using fixed by (auto simp: arg_val_def split: option.splits)
      then show ?thesis using s1(1) unfolding arg_vals_nth by (rule trans)
    qed
    have lift: "map (arg_val env) (map (map_option (rep canon)) xs) = map (arg_val env) xs"
      if "set xs \<subseteq> set (vArgs (fval f v)) \<union> set (vArgs (fval f r))" for xs
      using that val by auto
    have v_args: "map (arg_val env) (vArgs (fval f v)) = map Some as" using as by (simp only: arg_vals_nth)
    have as_eq: "as = zs" if "map (map_option (rep canon)) (vArgs (fval f v)) = map (map_option (rep canon)) ys"
      "set ys \<subseteq> set (vArgs (fval f r))" "map (arg_val env) ys = map Some zs" for ys zs
    proof -
      have "map (arg_val env) (vArgs (fval f v)) = map (arg_val env) ys"
        using lift [of "vArgs (fval f v)"] lift [of ys] that(1,2) by auto
      then have "map Some as = map Some zs" using v_args that(3) by (simp only:)
      then show ?thesis by (simp add: inj_map_eq_map)
    qed
    have "map (arg_val env) (rev (vArgs (fval f r))) = map Some (rev asr)"
      using r_args by (simp only: flip: rev_map)
    then have "as = asr \<or> IsCommutative (vOp (fval f v)) \<and> length as = 2 \<and> as = rev asr"
      using sv as_eq [of "vArgs (fval f r)" asr] as_eq [of "rev (vArgs (fval f r))" "rev asr"] r_args
        arg_cong [OF v_args, of length]
      by (auto simp: same_value_def same_args_def rev_map)
    moreover have same: "eval_value sem (fval f v) xs s' = eval_value sem (fval f r) xs s'" for xs s'
      using sv by (simp add: same_value_def eval_value_def)
    moreover have "eval_value sem (fval f v) (rev asr) s' = eval_value sem (fval f v) asr s'"
      if comm: "IsCommutative (vOp (fval f v))" and len: "length (rev asr) = 2" for s'
    proof -
      obtain x y where "asr = [x, y]" using len by (auto simp: numeral_2_eq_2 length_Suc_conv)
      then show ?thesis using pv comm by (simp add: pure_value_def)
    qed
    ultimately have "eval_value sem (fval f v) as (snd s1) = Done (w, st2)" using s1(2) by auto
    then have "eval_value sem (fval f v) as st = Done (w, st)" using pv unfolding pure_value_def by blast
    then show "eval_value sem (fval f v) as st = Stuck \<or>
        (\<exists>r. eval_value sem (fval f v) as st = Done (r, st) \<and> env (rep canon v) = Some r)"
      using s1(3) cr by (simp add: rep_def)
  qed
qed


lemma CSE_subst:
  assumes ok: "ssa_ok f"
  obtains "CSE f = Some (f, False)"
    | canon where "CSE f = Some (apply_subst (rep canon) f, True)" "flat canon" "\<And>v r. canon v = Some r \<Longrightarrow> merged f canon v r"
proof -
  obtain S s where s: "cse_scan f = Some s" "scanned f S (cse_canon s)" "cse_changed s \<longleftrightarrow> cse_canon s \<noteq> Map.empty"
    using cse_scan_ok [OF ok] by auto
  show thesis
  proof (cases "cse_changed s")
    case False
    then show thesis using that(1) s by (simp add: CSE_def)
  next
    case True
    have flat: "flat (cse_canon s)" using s by (simp add: scanned_def)
    have "CSE f = Some (apply_subst (rep (cse_canon s)) f, True)"
      using bury_rewrite [OF ok flat] True s(1) by (auto simp: CSE_def split: option.splits)
    then show thesis using that(2) [OF _ flat] s(2) by (auto simp: scanned_def)
  qed
qed

lemma merged_subst_ok:
  assumes ok: "ssa_ok f" and pure: "cse_pure sem f" and flat: "flat canon"
    and m: "\<And>v r. canon v = Some r \<Longrightarrow> merged f canon v r"
  shows "subst_ok sem f (\<lambda>_ _. True) (rep canon)"
  unfolding subst_ok_def
proof (intro conjI ballI allI impI)
  fix v show "rep canon (rep canon v) = rep canon v" by (rule rep_rep [OF flat])
next
  fix b v assume "b \<in> set (Blocks f)" "v \<in> set (markers f b)"
  then have "v \<in> retMarkerSet f" by (auto simp: retMarkerSet_def)
  then show "rep canon v = v" using m by (auto simp: rep_def merged_def split: option.splits)
next
  fix b pre v post
  assume b: "b \<in> set (Blocks f)" and split: "Values (fblk f b) = pre @ v # post" and ne: "rep canon v \<noteq> v"
  then obtain r where r: "canon v = Some r" "rep canon v = r" by (auto simp: rep_def split: option.splits)
  note mr = m [OF r(1)]
  then show "vOp (fval f v) \<noteq> OpInvalid" by (simp add: merged_def runs_def)
  show "if vOp (fval f v) = OpPhi then phi_dies_ok f (rep canon) b v
     else avail f b pre (rep canon v) \<and> dies_ok sem f (\<lambda>_ _. True) (rep canon) b pre v"
    using merged_dies_ok [OF ok pure mr flat r(1) b split] mr r(2) by (simp add: merged_def runs_def avail_def)
qed

text \<open>
  C14: Common-subexpression elimination always ends with a result, and the function it returns
  computes the same: every run that is not stuck has the same traps, the same final state and the
  same returned values, provided the values it considers mergeable depend on their operands alone.
\<close>

theorem CSE_sound:
  assumes "ssa_ok f" and "cse_pure sem f"
  shows "\<exists>g c. CSE f = Some (g, c) \<and> (\<not> c \<longrightarrow> g = f) \<and>
    (run_func n sem f st \<noteq> Stuck \<longrightarrow> run_func n sem g st = run_func n sem f st)"
proof (rule CSE_subst [OF assms(1)])
  fix canon
  assume c: "CSE f = Some (apply_subst (rep canon) f, True)" "flat canon" "\<And>v r. canon v = Some r \<Longrightarrow> merged f canon v r"
  show ?thesis
    using subst_sound [OF assms(1) merged_subst_ok [OF assms c(2,3)], where n = n and st = st] c(1)
    by (auto simp: sim_result_iff keeps_def)
qed auto


lemma std_pure:
  assumes "vOp v \<in> insert OpCopy int_ops"
  shows "pure_value (std_sem ext) v"
proof -
  have "int_op op c [x, y] = int_op op c [y, x]" if "IsCommutative op" for op c x y
    using that by (cases x; cases y)
      (auto simp: IsCommutative_def wbool_def ac_simps)
  then show ?thesis
    using assms by (auto simp: pure_value_def eval_value_def std_sem_def split: option.splits list.splits if_splits)
qed

lemma sum_func_pure: "cse_pure (std_sem size_ext) sum_func"
proof -
  have "vOp (fval sum_func v) \<in> insert OpCopy int_ops" if "listed sum_func v" for v
  proof -
    have "v \<in> {1, 2, 3, 4, 5, 6}" using that by (auto simp: listed_def sum_func_def)
    then show ?thesis by (auto simp: sum_func_def fval_straight value_of_def int_ops_def)
  qed
  then show ?thesis by (auto simp: cse_pure_def std_pure)
qed

theorem CSE_sound_witness:
  "run_func 1 (std_sem size_ext) sum_func 0 = Done (Return [W32 144] 0) \<and>
   (\<exists>g c. CSE sum_func = Some (g, c) \<and> run_func 1 (std_sem size_ext) g 0 = Done (Return [W32 144] 0))"
  using CSE_sound [OF sum_func_ok sum_func_pure, of 1 0] sum_func_run by auto


text \<open>\<^verbatim>\<open>memory.size; memory.grow 1; memory.size\<close>, returning the second size.\<close>

definition grow_func :: Func where
  "grow_func = straight [TypeI32]
     [value_of OpMemSize TypeI32 0 [], value_of OpConst32 TypeI32 1 [], value_of OpMemGrow TypeI32 0 [2],
      value_of OpMemSize TypeI32 0 [], value_of OpCopy TypeI32 0 [4]]"

lemma CSE_grow_func: "CSE grow_func = Some (apply_subst (rep [4 \<mapsto> 1]) grow_func, True)"
proof -
  have ok: "ssa_ok grow_func"
    unfolding grow_func_def by (rule straight_ssa_ok) (simp add: straight_ok_def value_of_def upt_rec)
  have "\<exists>s. cse_scan grow_func = Some s \<and> cse_canon s = [4 \<mapsto> 1] \<and> cse_changed s"
    by (simp add: cse_scan_def cse_scan_block_def cse_scan_value_def grow_func_def fval_straight value_of_def upt_rec
        retMarkerSet_def markers_def cseEligible_def HasSideEffect_def Op_HasSideEffect_def cseKey_def operand_ids_def
        IsCommutative_def numeral_eq_Suc)
  then obtain s where s: "cse_scan grow_func = Some s" "cse_canon s = [4 \<mapsto> 1]" "cse_changed s" by blast
  have "flat [4 \<mapsto> 1]" by (auto simp: flat_def)
  then show ?thesis using bury_rewrite [OF ok, of "[4 \<mapsto> 1]"] s by (auto simp: CSE_def split: option.splits)
qed

text \<open>
  C18: The pass treats reading the memory size as a pure value: of two size queries around a
  successful growth in one block it keeps the first, so the function returns the old size.
\<close>

theorem CSE_merges_memory_size:
  "ssa_ok grow_func \<and> cseEligible (value_of OpMemSize TypeI32 0 []) \<and>
   run_func 1 (std_sem size_ext) grow_func 0 = Done (Return [W32 1] 1) \<and>
   (\<exists>g. CSE grow_func = Some (g, True) \<and> run_func 1 (std_sem size_ext) g 0 = Done (Return [W32 0] 1))"
proof (intro conjI exI [of _ "apply_subst (rep [4 \<mapsto> 1]) grow_func"])
  show "ssa_ok grow_func"
    unfolding grow_func_def by (rule straight_ssa_ok) (simp add: straight_ok_def value_of_def upt_rec)
  show "cseEligible (value_of OpMemSize TypeI32 0 [])"
    by (simp add: cseEligible_def HasSideEffect_def Op_HasSideEffect_def value_of_def)
  show "run_func 1 (std_sem size_ext) grow_func 0 = Done (Return [W32 1] 1)"
    by (simp add: run_straight_simps grow_func_def size_ext_def)
  show "run_func 1 (std_sem size_ext) (apply_subst (rep [4 \<mapsto> 1]) grow_func) 0 = Done (Return [W32 0] 1)"
    by (simp add: run_straight_simps grow_func_def size_ext_def apply_subst_def listed_def subst_value_def rep_def)
qed (rule CSE_grow_func)

end
