(* ===== verification/RtMemory.thy ===== *)
theory RtMemory
  imports RtInt
begin

text \<open>
  Linear memory at run time, from \<^verbatim>\<open>internal/codegen/helpers/helpers.go\<close>: the memory
  fields of the module, the load and store helpers, growth with its geometric capacity, and the
  bulk operations, in the 32-bit and the 64-bit form. The slice \<^verbatim>\<open>m.memory\<close> is its
  backing array up to its capacity, its length, and the identity of the array, so that
  reslicing, reallocation and the cached base pointer are visible.
\<close>

section \<open>State\<close>

record RtModule =
  backing :: "byte list"
  mlen :: nat
  arr :: nat
  mptr :: nat
  maxMem :: u64
  memSize :: u64
  memShared :: bool
  dataSegs :: "byte list option list"
  dataEnd :: u32

definition index_oob :: "'a trap" where
  "index_oob = Inl ''runtime: index out of range''"

definition slice_oob :: "'a trap" where
  "slice_oob = Inl ''runtime: slice bounds out of range''"

lemma oob_not_Inr [simp]: "index_oob \<noteq> Inr v" "slice_oob \<noteq> Inr v" "Inr v \<noteq> index_oob" "Inr v \<noteq> slice_oob"
  by (simp_all add: index_oob_def slice_oob_def)

definition write_at :: "RtModule \<Rightarrow> nat \<Rightarrow> byte list \<Rightarrow> RtModule" where
  "write_at m a bs = m\<lparr>backing := overwrite (backing m) a bs\<rparr>"

definition map_trap :: "('a \<Rightarrow> 'b) \<Rightarrow> 'a trap \<Rightarrow> 'b trap" where
  "map_trap f t = (case t of Inl e \<Rightarrow> Inl e | Inr x \<Rightarrow> Inr (f x))"

lemma map_trap_eq_Inr [simp]: "map_trap f t = Inr y \<longleftrightarrow> (\<exists>x. t = Inr x \<and> y = f x)"
  by (cases t) (auto simp: map_trap_def)

section \<open>Loads and stores\<close>

text \<open>The effective address: two 32-bit operands added at 64 bits.\<close>

definition mea :: "i32 \<Rightarrow> u32 \<Rightarrow> nat" where
  "mea addr off = unat (ucast addr + ucast off :: u64)"

definition mload_bytes :: "nat \<Rightarrow> RtModule \<Rightarrow> i32 \<Rightarrow> u32 \<Rightarrow> byte list trap" where
  "mload_bytes n m addr off =
     (let a = mea addr off in
      if a + n \<le> mlen m then Inr (take n (drop a (backing m))) else index_oob)"

definition mstore_bytes :: "RtModule \<Rightarrow> i32 \<Rightarrow> u32 \<Rightarrow> byte list \<Rightarrow> RtModule trap" where
  "mstore_bytes m addr off bs =
     (let a = mea addr off in
      if a + length bs \<le> mlen m then Inr (write_at m a bs) else index_oob)"

definition mload8s :: "RtModule \<Rightarrow> i32 \<Rightarrow> u32 \<Rightarrow> i32 trap" where
  "mload8s m a off = map_trap (\<lambda>bs. scast (le_word bs :: byte)) (mload_bytes 1 m a off)"
definition mload8u :: "RtModule \<Rightarrow> i32 \<Rightarrow> u32 \<Rightarrow> i32 trap" where
  "mload8u m a off = map_trap (\<lambda>bs. ucast (le_word bs :: byte)) (mload_bytes 1 m a off)"
definition mload16s :: "RtModule \<Rightarrow> i32 \<Rightarrow> u32 \<Rightarrow> i32 trap" where
  "mload16s m a off = map_trap (\<lambda>bs. scast (le_word bs :: u16)) (mload_bytes 2 m a off)"
definition mload16u :: "RtModule \<Rightarrow> i32 \<Rightarrow> u32 \<Rightarrow> i32 trap" where
  "mload16u m a off = map_trap (\<lambda>bs. ucast (le_word bs :: u16)) (mload_bytes 2 m a off)"
definition mload32 :: "RtModule \<Rightarrow> i32 \<Rightarrow> u32 \<Rightarrow> i32 trap" where
  "mload32 m a off = map_trap (\<lambda>bs. le_word bs) (mload_bytes 4 m a off)"
definition mload64 :: "RtModule \<Rightarrow> i32 \<Rightarrow> u32 \<Rightarrow> i64 trap" where
  "mload64 m a off = map_trap (\<lambda>bs. le_word bs) (mload_bytes 8 m a off)"
definition mload64_8s :: "RtModule \<Rightarrow> i32 \<Rightarrow> u32 \<Rightarrow> i64 trap" where
  "mload64_8s m a off = map_trap (\<lambda>bs. scast (le_word bs :: byte)) (mload_bytes 1 m a off)"
definition mload64_8u :: "RtModule \<Rightarrow> i32 \<Rightarrow> u32 \<Rightarrow> i64 trap" where
  "mload64_8u m a off = map_trap (\<lambda>bs. ucast (le_word bs :: byte)) (mload_bytes 1 m a off)"
definition mload64_16s :: "RtModule \<Rightarrow> i32 \<Rightarrow> u32 \<Rightarrow> i64 trap" where
  "mload64_16s m a off = map_trap (\<lambda>bs. scast (le_word bs :: u16)) (mload_bytes 2 m a off)"
definition mload64_16u :: "RtModule \<Rightarrow> i32 \<Rightarrow> u32 \<Rightarrow> i64 trap" where
  "mload64_16u m a off = map_trap (\<lambda>bs. ucast (le_word bs :: u16)) (mload_bytes 2 m a off)"
definition mload64_32s :: "RtModule \<Rightarrow> i32 \<Rightarrow> u32 \<Rightarrow> i64 trap" where
  "mload64_32s m a off = map_trap (\<lambda>bs. scast (le_word bs :: u32)) (mload_bytes 4 m a off)"
definition mload64_32u :: "RtModule \<Rightarrow> i32 \<Rightarrow> u32 \<Rightarrow> i64 trap" where
  "mload64_32u m a off = map_trap (\<lambda>bs. ucast (le_word bs :: u32)) (mload_bytes 4 m a off)"

text \<open>A float is its bit pattern.\<close>

definition mloadF32 :: "RtModule \<Rightarrow> i32 \<Rightarrow> u32 \<Rightarrow> u32 trap" where
  "mloadF32 m a off = map_trap (\<lambda>bs. le_word bs) (mload_bytes 4 m a off)"
definition mloadF64 :: "RtModule \<Rightarrow> i32 \<Rightarrow> u32 \<Rightarrow> u64 trap" where
  "mloadF64 m a off = map_trap (\<lambda>bs. le_word bs) (mload_bytes 8 m a off)"

definition mstore8 :: "RtModule \<Rightarrow> i32 \<Rightarrow> u32 \<Rightarrow> i32 \<Rightarrow> RtModule trap" where
  "mstore8 m a off v = mstore_bytes m a off [ucast v]"
definition mstore8_64 :: "RtModule \<Rightarrow> i32 \<Rightarrow> u32 \<Rightarrow> i64 \<Rightarrow> RtModule trap" where
  "mstore8_64 m a off v = mstore_bytes m a off [ucast v]"
definition mstore16 :: "RtModule \<Rightarrow> i32 \<Rightarrow> u32 \<Rightarrow> i32 \<Rightarrow> RtModule trap" where
  "mstore16 m a off v = mstore_bytes m a off (le_bytes 2 (ucast v :: u16))"
definition mstore16_64 :: "RtModule \<Rightarrow> i32 \<Rightarrow> u32 \<Rightarrow> i64 \<Rightarrow> RtModule trap" where
  "mstore16_64 m a off v = mstore_bytes m a off (le_bytes 2 (ucast v :: u16))"
definition mstore32 :: "RtModule \<Rightarrow> i32 \<Rightarrow> u32 \<Rightarrow> i32 \<Rightarrow> RtModule trap" where
  "mstore32 m a off v = mstore_bytes m a off (le_bytes 4 v)"
definition mstore32_64 :: "RtModule \<Rightarrow> i32 \<Rightarrow> u32 \<Rightarrow> i64 \<Rightarrow> RtModule trap" where
  "mstore32_64 m a off v = mstore_bytes m a off (le_bytes 4 (ucast v :: u32))"
definition mstore64 :: "RtModule \<Rightarrow> i32 \<Rightarrow> u32 \<Rightarrow> i64 \<Rightarrow> RtModule trap" where
  "mstore64 m a off v = mstore_bytes m a off (le_bytes 8 v)"
definition mstoreF32 :: "RtModule \<Rightarrow> i32 \<Rightarrow> u32 \<Rightarrow> u32 \<Rightarrow> RtModule trap" where
  "mstoreF32 m a off v = mstore_bytes m a off (le_bytes 4 v)"
definition mstoreF64 :: "RtModule \<Rightarrow> i32 \<Rightarrow> u32 \<Rightarrow> u64 \<Rightarrow> RtModule trap" where
  "mstoreF64 m a off v = mstore_bytes m a off (le_bytes 8 v)"

definition mcopy32 :: "RtModule \<Rightarrow> i32 \<Rightarrow> u32 \<Rightarrow> i32 \<Rightarrow> u32 \<Rightarrow> RtModule trap" where
  "mcopy32 m sa so da do =
     (let a = mea sa so; b = mea da do in
      if \<not> a + 4 \<le> mlen m then index_oob
      else if \<not> b + 4 \<le> mlen m then index_oob
      else Inr (write_at m b (le_bytes 4 (le_word (take 4 (drop a (backing m))) :: u32))))"

definition mcopy64 :: "RtModule \<Rightarrow> i32 \<Rightarrow> u32 \<Rightarrow> i32 \<Rightarrow> u32 \<Rightarrow> RtModule trap" where
  "mcopy64 m sa so da do =
     (let a = mea sa so; b = mea da do in
      if \<not> a + 8 \<le> mlen m then index_oob
      else if \<not> b + 8 \<le> mlen m then index_oob
      else Inr (write_at m b (le_bytes 8 (le_word (take 8 (drop a (backing m))) :: u64))))"

section \<open>Size and growth\<close>

definition memorySize :: "RtModule \<Rightarrow> i32" where
  "memorySize m = ucast (drop_bit 16 (memSize m))"

definition wasmMemHardCap :: u64 where
  "wasmMemHardCap = 2 ^ 32 - 2 ^ 17"

text \<open>Go's \<^verbatim>\<open>copy\<close>: the source is read as it was before the call.\<close>

definition go_copy :: "byte list \<Rightarrow> byte list \<Rightarrow> byte list" where
  "go_copy dst src = take (length dst) src @ drop (length src) dst"

text \<open>\<^verbatim>\<open>make([]byte, want, newCap)\<close> with the old contents copied in.\<close>

definition reallocate :: "RtModule \<Rightarrow> nat \<Rightarrow> nat \<Rightarrow> RtModule trap" where
  "reallocate m want newCap =
     (if newCap < want then Inl ''runtime: makeslice: cap out of range''
      else Inr (m\<lparr>backing := go_copy (replicate want 0) (take (mlen m) (backing m)) @
                    replicate (newCap - want) 0,
                  mlen := want, memSize := word_of_nat want, arr := Suc (arr m), mptr := Suc (arr m)\<rparr>))"

definition grow_to :: "u64 \<Rightarrow> RtModule \<Rightarrow> u64 \<Rightarrow> RtModule trap" where
  "grow_to hardCap m want =
     (let newCap = word_of_nat (length (backing m)) * 2;
          newCap = (if newCap < want then want else newCap);
          newCap = (if maxMem m \<noteq> 0 \<and> newCap > maxMem m then maxMem m else newCap);
          newCap = (if newCap > hardCap then hardCap else newCap)
      in reallocate m (unat want) (unat newCap))"

text \<open>The part both growth operations share, once the wanted size has passed its checks.\<close>

definition grow_commit :: "u64 \<Rightarrow> 'a::len word \<Rightarrow> RtModule \<Rightarrow> u64 \<Rightarrow> ('a word \<times> RtModule) trap" where
  "grow_commit hardCap prev m want =
     (if memShared m then
        (if want > word_of_nat (mlen m) then Inr (- 1, m)
         else Inr (prev, m\<lparr>memSize := want\<rparr>))
      else if want \<le> word_of_nat (length (backing m)) then
        Inr (prev, m\<lparr>mlen := unat want, memSize := want\<rparr>)
      else map_trap (\<lambda>m'. (prev, m')) (grow_to hardCap m want))"

definition memoryGrow :: "RtModule \<Rightarrow> i32 \<Rightarrow> (i32 \<times> RtModule) trap" where
  "memoryGrow m n =
     (let cur = memSize m; prev = ucast (drop_bit 16 cur) in
      if n = 0 then Inr (prev, m)
      else if n <s 0 then Inr (- 1, m)
      else let want = cur + scast n * 65536 in
        if maxMem m \<noteq> 0 \<and> want > maxMem m then Inr (- 1, m)
        else if want > wasmMemHardCap then Inr (- 1, m)
        else grow_commit wasmMemHardCap prev m want)"

definition mem64HardCap :: u64 where
  "mem64HardCap = 2 ^ 48"

definition memorySize64 :: "RtModule \<Rightarrow> i64" where
  "memorySize64 m = drop_bit 16 (memSize m)"

definition memoryGrow64 :: "RtModule \<Rightarrow> i64 \<Rightarrow> (i64 \<times> RtModule) trap" where
  "memoryGrow64 m n =
     (let cur = memSize m; prev = drop_bit 16 cur in
      if n = 0 then Inr (prev, m)
      else if n <s 0 then Inr (- 1, m)
      else if n > drop_bit 16 mem64HardCap then Inr (- 1, m)
      else let want = cur + n * 65536 in
        if want < cur \<or> want > mem64HardCap then Inr (- 1, m)
        else if maxMem m \<noteq> 0 \<and> want > maxMem m then Inr (- 1, m)
        else grow_commit mem64HardCap prev m want)"

section \<open>Bulk operations\<close>

text \<open>A slice expression \<^verbatim>\<open>m.memory[lo:hi]\<close>; its high bound may go up to the capacity.\<close>

definition slice_ok :: "RtModule \<Rightarrow> nat \<Rightarrow> nat \<Rightarrow> bool" where
  "slice_ok m lo hi \<longleftrightarrow> lo \<le> hi \<and> hi \<le> length (backing m)"

definition slice :: "RtModule \<Rightarrow> nat \<Rightarrow> nat \<Rightarrow> byte list" where
  "slice m lo hi = take (hi - lo) (drop lo (backing m))"

text \<open>The doubling loop of \<^verbatim>\<open>memoryFill\<close>.\<close>

function fill_loop :: "byte list \<Rightarrow> nat \<Rightarrow> byte list" where
  "fill_loop b filled =
     (if filled = 0 then b
      else if filled < length b then
        fill_loop (take filled b @ go_copy (drop filled b) (take filled b)) (filled * 2)
      else b)"
  by pat_completeness auto
termination
  by (relation "measure (\<lambda>(b, filled). length b - filled)") (auto simp: go_copy_def)

declare fill_loop.simps [simp del]

definition fill_slice :: "byte list \<Rightarrow> byte \<Rightarrow> byte list" where
  "fill_slice b v = (if v = 0 then map (\<lambda>_. 0) b else fill_loop (b[0 := v]) 1)"

definition trap_memfill_oob :: "'a trap" where
  "trap_memfill_oob = Inl ''wasm: memory.fill out of bounds''"
definition trap_memcopy_oob :: "'a trap" where
  "trap_memcopy_oob = Inl ''wasm: memory.copy out of bounds''"
definition trap_meminit_oob :: "'a trap" where
  "trap_meminit_oob = Inl ''wasm: memory.init out of bounds''"

definition fill_range :: "RtModule \<Rightarrow> nat \<Rightarrow> nat \<Rightarrow> byte \<Rightarrow> RtModule trap" where
  "fill_range m lo hi v =
     (if slice_ok m lo hi then Inr (write_at m lo (fill_slice (slice m lo hi) v)) else slice_oob)"

definition copy_range :: "RtModule \<Rightarrow> nat \<Rightarrow> nat \<Rightarrow> nat \<Rightarrow> nat \<Rightarrow> RtModule trap" where
  "copy_range m dlo dhi slo shi =
     (if slice_ok m dlo dhi \<and> slice_ok m slo shi
      then Inr (write_at m dlo (go_copy (slice m dlo dhi) (slice m slo shi))) else slice_oob)"

definition memoryFill :: "RtModule \<Rightarrow> i32 \<Rightarrow> i32 \<Rightarrow> i32 \<Rightarrow> RtModule trap" where
  "memoryFill m dst val n =
     (if n = 0 then Inr m
      else let end = ucast dst + ucast n :: u64 in
        if end > memSize m then trap_memfill_oob
        else fill_range m (unat dst) (unat (ucast end :: u32)) (ucast val))"

definition memoryCopy :: "RtModule \<Rightarrow> i32 \<Rightarrow> i32 \<Rightarrow> i32 \<Rightarrow> RtModule trap" where
  "memoryCopy m dst src n =
     (if n = 0 then Inr m
      else let srcEnd = ucast src + ucast n :: u64; dstEnd = ucast dst + ucast n :: u64 in
        if srcEnd > memSize m \<or> dstEnd > memSize m then trap_memcopy_oob
        else copy_range m (unat dst) (unat (ucast dstEnd :: u32)) (unat src) (unat (ucast srcEnd :: u32)))"

text \<open>The write of \<^verbatim>\<open>memory.init\<close>: equal bytes are not written again.\<close>

definition init_range :: "RtModule \<Rightarrow> nat \<Rightarrow> nat \<Rightarrow> byte list \<Rightarrow> nat \<Rightarrow> nat \<Rightarrow> RtModule trap" where
  "init_range m dlo dhi data slo shi =
     (if slice_ok m dlo dhi \<and> slo \<le> shi \<and> shi \<le> length data then
        let d = slice m dlo dhi; s = take (shi - slo) (drop slo data) in
        if d = s then Inr m else Inr (write_at m dlo (go_copy d s))
      else slice_oob)"

definition memoryInit :: "RtModule \<Rightarrow> nat \<Rightarrow> i32 \<Rightarrow> i32 \<Rightarrow> i32 \<Rightarrow> RtModule trap" where
  "memoryInit m seg dst src n =
     (if \<not> seg < length (dataSegs m) then index_oob
      else if n = 0 then Inr m
      else case dataSegs m ! seg of
          None \<Rightarrow> trap_meminit_oob
        | Some data \<Rightarrow>
            if (ucast src + ucast n :: u64) > word_of_nat (length data) \<or>
               (ucast dst + ucast n :: u64) > memSize m then trap_meminit_oob
            else
              let end = dst + n; m' = (if end > dataEnd m then m\<lparr>dataEnd := end\<rparr> else m)
              in init_range m' (unat dst) (unat (dst + n)) data (unat src) (unat (src + n)))"

definition dataDrop :: "RtModule \<Rightarrow> nat \<Rightarrow> RtModule trap" where
  "dataDrop m seg =
     (if seg < length (dataSegs m) then Inr (m\<lparr>dataSegs := (dataSegs m)[seg := None]\<rparr>) else index_oob)"

definition memoryFill64 :: "RtModule \<Rightarrow> i64 \<Rightarrow> i32 \<Rightarrow> i64 \<Rightarrow> RtModule trap" where
  "memoryFill64 m dst val n =
     (if n = 0 then Inr m
      else let end = dst + n in
        if n <s 0 \<or> end < dst \<or> end > memSize m then trap_memfill_oob
        else fill_range m (unat dst) (unat end) (ucast val))"

definition memoryCopy64 :: "RtModule \<Rightarrow> i64 \<Rightarrow> i64 \<Rightarrow> i64 \<Rightarrow> RtModule trap" where
  "memoryCopy64 m dst src n =
     (if n = 0 then Inr m
      else let srcEnd = src + n; dstEnd = dst + n in
        if n <s 0 \<or> srcEnd < src \<or> dstEnd < dst \<or> srcEnd > memSize m \<or> dstEnd > memSize m
        then trap_memcopy_oob
        else copy_range m (unat dst) (unat dstEnd) (unat src) (unat srcEnd))"

definition memoryInit64 :: "RtModule \<Rightarrow> nat \<Rightarrow> i64 \<Rightarrow> i32 \<Rightarrow> i32 \<Rightarrow> RtModule trap" where
  "memoryInit64 m seg dst src n =
     (if \<not> seg < length (dataSegs m) then index_oob
      else if n = 0 then Inr m
      else let dstEnd = dst + ucast n :: u64 in
        case dataSegs m ! seg of
          None \<Rightarrow> trap_meminit_oob
        | Some data \<Rightarrow>
            if n <s 0 \<or> (ucast src + ucast n :: u64) > word_of_nat (length data) \<or>
               dstEnd < dst \<or> dstEnd > memSize m then trap_meminit_oob
            else
              let m' = (if dstEnd > ucast (dataEnd m) then
                          m\<lparr>dataEnd := (if dstEnd \<ge> 0xffffffff then - 1 else ucast dstEnd)\<rparr>
                        else m)
              in init_range m' (unat dst) (unat dstEnd) data (unat src) (unat (src + n)))"

section \<open>The invariant\<close>

text \<open>
  The guest-visible memory is the first \<^verbatim>\<open>memSize\<close> bytes. A memory that is not shared
  has exactly those bytes in its slice; the rest of the backing array is zero, so that growing
  into it exposes zeroed pages; the cached pointer is that of the backing array.
\<close>

definition mem_abs :: "RtModule \<Rightarrow> byte list" where
  "mem_abs m = take (unat (memSize m)) (backing m)"

definition mem_inv :: "u64 \<Rightarrow> RtModule \<Rightarrow> bool" where
  "mem_inv hardCap m \<longleftrightarrow>
     mlen m \<le> length (backing m) \<and> length (backing m) < 2 ^ 62 \<and>
     (if memShared m then unat (memSize m) \<le> mlen m else unat (memSize m) = mlen m) \<and>
     (\<forall>k. unat (memSize m) \<le> k \<and> k < length (backing m) \<longrightarrow> backing m ! k = 0) \<and>
     65536 dvd unat (memSize m) \<and> memSize m \<le> hardCap \<and>
     (maxMem m \<noteq> 0 \<longrightarrow> memSize m \<le> maxMem m) \<and> mptr m = arr m"

lemma mem_invD:
  assumes "mem_inv hardCap m"
  shows "mlen m \<le> length (backing m)" and "length (backing m) < 2 ^ 62"
    and "unat (memSize m) \<le> mlen m" and "\<not> memShared m \<Longrightarrow> mlen m = unat (memSize m)"
    and "\<And>k. unat (memSize m) \<le> k \<Longrightarrow> k < length (backing m) \<Longrightarrow> backing m ! k = 0"
    and "65536 dvd unat (memSize m)" and "unat (memSize m) \<le> unat hardCap"
    and "maxMem m \<noteq> 0 \<Longrightarrow> unat (memSize m) \<le> unat (maxMem m)" and "mptr m = arr m"
  using assms by (auto simp: mem_inv_def word_le_nat_alt split: if_splits)

lemma length_mem_abs: "mem_inv hardCap m \<Longrightarrow> length (mem_abs m) = unat (memSize m)"
  using mem_invD(1,3) [of hardCap m] by (simp add: mem_abs_def)

definition grow_fits :: "u64 \<Rightarrow> RtModule \<Rightarrow> nat \<Rightarrow> bool" where
  "grow_fits hardCap m pages \<longleftrightarrow>
     (let size = length (mem_abs m) + 65536 * pages in
      size \<le> unat hardCap \<and> (maxMem m \<noteq> 0 \<longrightarrow> size \<le> unat (maxMem m)) \<and>
      (memShared m \<longrightarrow> size \<le> mlen m))"

lemma take_more_zeros:
  assumes "n \<le> n'" and "n' \<le> length xs" and "\<And>k. n \<le> k \<Longrightarrow> k < length xs \<Longrightarrow> xs ! k = 0"
  shows "take n' xs = take n xs @ replicate (n' - n) (0 :: byte)"
  using assms by (intro nth_equalityI) (auto simp: nth_append)

lemma unat_le_word_of_nat:
  "n < 2 ^ 64 \<Longrightarrow> (w :: u64) \<le> word_of_nat n \<longleftrightarrow> unat w \<le> n"
  by (simp add: word_le_nat_alt unat_of_nat)

lemma reallocate_spec:
  assumes inv: "mem_inv hardCap m" and "\<not> memShared m"
    and grow: "unat (memSize m) \<le> unat want" and "unat want \<le> cap" and "cap < 2 ^ 62"
    and ok: "want \<le> hardCap" "maxMem m \<noteq> 0 \<longrightarrow> want \<le> maxMem m" "65536 dvd unat want"
  shows "\<exists>m'. reallocate m (unat want) cap = Inr m' \<and> mem_inv hardCap m' \<and>
    mem_abs m' = mem_abs m @ replicate (unat want - unat (memSize m)) 0 \<and> memSize m' = want \<and>
    mlen m' = unat want \<and> arr m' = Suc (arr m)"
proof -
  let ?old = "take (mlen m) (backing m)"
  note d = mem_invD [OF inv]
  have len: "length ?old = unat (memSize m)" using d(1) d(4) assms(2) by simp
  let ?b = "go_copy (replicate (unat want) 0) ?old @ replicate (cap - unat want) (0 :: byte)"
  have b: "?b = ?old @ replicate (cap - unat (memSize m)) 0"
  proof -
    have "go_copy (replicate (unat want) 0) ?old = ?old @ replicate (unat want - unat (memSize m)) 0"
      using len grow by (simp add: go_copy_def del: length_take take_take)
    moreover have "(unat want - unat (memSize m)) + (cap - unat want) = cap - unat (memSize m)"
      using grow assms(4) by simp
    ultimately show ?thesis by (simp only: append_assoc flip: replicate_add)
  qed
  let ?m = "m\<lparr>backing := ?b, mlen := unat want, memSize := want, arr := Suc (arr m), mptr := Suc (arr m)\<rparr>"
  have "reallocate m (unat want) cap = Inr ?m" using assms(4) by (simp add: reallocate_def)
  moreover have "mem_inv hardCap ?m"
    unfolding mem_inv_def b using assms len by (auto simp: nth_append)
  moreover have "mem_abs ?m = mem_abs m @ replicate (unat want - unat (memSize m)) 0"
    unfolding mem_abs_def b using assms len d(4) by (auto simp: min_def)
  ultimately show ?thesis by auto
qed

text \<open>One result for both growths: what happened, and that the invariant survived.\<close>

definition grown_by :: "u64 \<Rightarrow> RtModule \<Rightarrow> nat \<Rightarrow> RtModule \<Rightarrow> bool" where
  "grown_by hardCap m pages m' \<longleftrightarrow>
     mem_inv hardCap m' \<and> mem_abs m' = mem_abs m @ replicate (65536 * pages) 0 \<and>
     dataSegs m' = dataSegs m \<and> dataEnd m' = dataEnd m \<and> maxMem m' = maxMem m \<and>
     memShared m' = memShared m \<and> (memShared m \<longrightarrow> backing m' = backing m \<and> arr m' = arr m)"

lemma reallocate_frame:
  "reallocate m want cap = Inr m' \<Longrightarrow> dataSegs m' = dataSegs m \<and> dataEnd m' = dataEnd m \<and>
     maxMem m' = maxMem m \<and> memShared m' = memShared m"
  by (auto simp: reallocate_def split: if_splits)

lemma grow_in_place:
  assumes inv: "mem_inv hardCap m" and want: "unat want = unat (memSize m) + 65536 * k"
    and ok: "want \<le> hardCap" "maxMem m \<noteq> 0 \<longrightarrow> want \<le> maxMem m"
    and fit: "unat want \<le> (if memShared m then mlen m else length (backing m))"
    and m': "m' = (if memShared m then m\<lparr>memSize := want\<rparr> else m\<lparr>mlen := unat want, memSize := want\<rparr>)"
  shows "grown_by hardCap m k m'"
proof -
  note d = mem_invD [OF inv]
  have len: "unat want \<le> length (backing m)" using fit d(1) by (simp split: if_splits)
  have "take (unat want) (backing m) =
      take (unat (memSize m)) (backing m) @ replicate (unat want - unat (memSize m)) 0"
    using want len d(5) by (intro take_more_zeros) auto
  then have "mem_abs m' = mem_abs m @ replicate (65536 * k) 0"
    using want m' by (simp add: mem_abs_def)
  moreover have "mem_inv hardCap m'"
  proof -
    have "65536 dvd unat want" using want d(6) by (simp add: dvd_add)
    then show ?thesis
      using m' fit ok d want len by (auto simp: mem_inv_def word_le_nat_alt)
  qed
  ultimately show ?thesis using m' by (simp add: grown_by_def)
qed

lemma grow_to_spec:
  assumes inv: "mem_inv hardCap m" and "\<not> memShared m" and hc: "unat hardCap \<le> 2 ^ 48"
    and want: "unat want = unat (memSize m) + 65536 * k"
    and ok: "want \<le> hardCap" "maxMem m \<noteq> 0 \<longrightarrow> want \<le> maxMem m"
  shows "\<exists>m'. grow_to hardCap m want = Inr m' \<and> grown_by hardCap m k m'"
proof -
  define c1 where "c1 = (let c = word_of_nat (length (backing m)) * 2 :: u64 in if c < want then want else c)"
  define c2 where "c2 = (if maxMem m \<noteq> 0 \<and> c1 > maxMem m then maxMem m else c1)"
  define c3 where "c3 = (if c2 > hardCap then hardCap else c2)"
  have run: "grow_to hardCap m want = reallocate m (unat want) (unat c3)"
    by (simp add: grow_to_def c3_def c2_def c1_def Let_def)
  have "want \<le> c1" by (auto simp: c1_def Let_def)
  then have "want \<le> c2" using ok(2) by (simp add: c2_def)
  then have "want \<le> c3" and "c3 \<le> hardCap" using ok(1) by (auto simp: c3_def)
  then have c3: "unat want \<le> unat c3" "unat c3 < 2 ^ 62" using hc by (simp_all add: word_le_nat_alt)
  have "65536 dvd unat want" using want mem_invD(6) [OF inv] by (simp add: dvd_add)
  then obtain m' where m': "reallocate m (unat want) (unat c3) = Inr m'" "mem_inv hardCap m'"
      "mem_abs m' = mem_abs m @ replicate (unat want - unat (memSize m)) 0"
    using reallocate_spec [OF inv assms(2) _ c3 ok] want by auto
  then have "grown_by hardCap m k m'"
    using reallocate_frame [OF m'(1)] want assms(2) by (simp add: grown_by_def)
  then show ?thesis using run m'(1) by simp
qed

lemma grow_commit_spec:
  assumes inv: "mem_inv hardCap m" and hc: "unat hardCap \<le> 2 ^ 48"
    and want: "unat want = unat (memSize m) + 65536 * k"
    and ok: "want \<le> hardCap" "maxMem m \<noteq> 0 \<longrightarrow> want \<le> maxMem m"
  shows "\<exists>m'. grow_commit hardCap prev m want = Inr (if memShared m \<and> mlen m < unat want then - 1 else prev, m') \<and>
    (if memShared m \<and> mlen m < unat want then m' = m else grown_by hardCap m k m')"
proof -
  note d = mem_invD [OF inv]
  have small: "mlen m < 2 ^ 64" "length (backing m) < 2 ^ 64" using d(1,2) by simp_all
  consider (full) "memShared m" "mlen m < unat want" | (shared) "memShared m" "unat want \<le> mlen m"
    | (reslice) "\<not> memShared m" "unat want \<le> length (backing m)"
    | (realloc) "\<not> memShared m" "length (backing m) < unat want" by linarith
  then show ?thesis
  proof cases
    case full
    then show ?thesis
      using unat_le_word_of_nat [OF small(1), of want] by (auto simp: grow_commit_def not_le)
  next
    case shared
    then have "grown_by hardCap m k (m\<lparr>memSize := want\<rparr>)"
      using grow_in_place [OF inv want ok] by simp
    then show ?thesis
      using shared unat_le_word_of_nat [OF small(1), of want] by (auto simp: grow_commit_def not_le)
  next
    case reslice
    then have "grown_by hardCap m k (m\<lparr>mlen := unat want, memSize := want\<rparr>)"
      using grow_in_place [OF inv want ok] by simp
    then show ?thesis
      using reslice unat_le_word_of_nat [OF small(2), of want] by (auto simp: grow_commit_def)
  next
    case realloc
    then obtain m' where "grow_to hardCap m want = Inr m'" "grown_by hardCap m k m'"
      using grow_to_spec [OF inv _ hc want ok] by blast
    then show ?thesis
      using realloc unat_le_word_of_nat [OF small(2), of want]
      by (auto simp: grow_commit_def map_trap_def)
  qed
qed

lemma unat_hardCaps: "unat wasmMemHardCap = 2 ^ 32 - 2 ^ 17" "unat mem64HardCap = 2 ^ 48"
  by (simp_all add: wasmMemHardCap_def mem64HardCap_def)

lemma unat_want:
  assumes "unat cur \<le> 2 ^ 48" and "unat (n :: u64) < 2 ^ 33"
  shows "unat (cur + n * 65536 :: u64) = unat cur + 65536 * unat n"
  using assms by (simp add: unat_word_ariths)

lemma fits_iff:
  assumes inv: "mem_inv hardCap m" and want: "unat want = unat (memSize m) + 65536 * k"
  shows "grow_fits hardCap m k \<longleftrightarrow>
    want \<le> hardCap \<and> (maxMem m \<noteq> 0 \<longrightarrow> want \<le> maxMem m) \<and> \<not> (memShared m \<and> mlen m < unat want)"
  using want length_mem_abs [OF inv] by (auto simp: grow_fits_def Let_def word_le_nat_alt)

lemma memoryGrow_cases:
  assumes inv: "mem_inv wasmMemHardCap m"
  shows "\<exists>r m'. memoryGrow m n = Inr (r, m') \<and>
    (if n = 0 then r = memorySize m \<and> m' = m
     else if 0 < sint n \<and> grow_fits wasmMemHardCap m (nat (sint n))
       then r = memorySize m \<and> grown_by wasmMemHardCap m (nat (sint n)) m'
     else r = - 1 \<and> m' = m)"
proof -
  consider "n = 0" | "sint n < 0" | (pos) "n \<noteq> 0" "0 < sint n"
    using sint_eq_0_iff [of n] by linarith
  then show ?thesis
  proof cases
    case pos
    let ?k = "nat (sint n)" and ?want = "memSize m + scast n * 65536"
    have k: "unat (scast n :: u64) = ?k" using pos by (simp add: unat_scast_pos)
    have "?k < 2 ^ 31" using sint_bounds(2) [of n] pos by (simp add: nat_less_iff)
    moreover have "unat (memSize m) \<le> 2 ^ 48"
      using mem_invD(7) [OF inv] by (simp add: unat_hardCaps)
    ultimately have want: "unat ?want = unat (memSize m) + 65536 * ?k"
      using unat_want [of "memSize m" "scast n"] k by simp
    have "\<not> n <s 0" using pos by (simp add: word_sless_alt)
    then have run: "memoryGrow m n =
        (if maxMem m \<noteq> 0 \<and> ?want > maxMem m then Inr (- 1, m)
         else if ?want > wasmMemHardCap then Inr (- 1, m)
         else grow_commit wasmMemHardCap (memorySize m) m ?want)"
      using pos by (simp add: memoryGrow_def memorySize_def Let_def)
    show ?thesis
    proof (cases "?want \<le> wasmMemHardCap \<and> (maxMem m \<noteq> 0 \<longrightarrow> ?want \<le> maxMem m)")
      case True
      then show ?thesis
        using grow_commit_spec [OF inv _ want, of "memorySize m"] run pos fits_iff [OF inv want]
        by (auto simp: unat_hardCaps split: if_splits)
    next
      case False
      then show ?thesis using run pos fits_iff [OF inv want] by auto
    qed
  qed (auto simp: memoryGrow_def memorySize_def word_sless_alt sint_eq_0_iff)
qed

lemma memoryGrow64_cases:
  assumes inv: "mem_inv mem64HardCap m"
  shows "\<exists>r m'. memoryGrow64 m n = Inr (r, m') \<and>
    (if n = 0 then r = memorySize64 m \<and> m' = m
     else if 0 < sint n \<and> grow_fits mem64HardCap m (nat (sint n))
       then r = memorySize64 m \<and> grown_by mem64HardCap m (nat (sint n)) m'
     else r = - 1 \<and> m' = m)"
proof -
  consider "n = 0" | "sint n < 0" | (pos) "n \<noteq> 0" "0 < sint n"
    using sint_eq_0_iff [of n] by linarith
  then show ?thesis
  proof cases
    case pos
    let ?k = "nat (sint n)" and ?want = "memSize m + n * 65536"
    have k: "unat n = ?k" using pos by (simp add: unat_eq_nat_sint)
    have sl: "\<not> n <s 0" using pos by (simp add: word_sless_alt)
    have big: "n > drop_bit 16 mem64HardCap \<longleftrightarrow> 2 ^ 32 < ?k"
      using k by (simp add: mem64HardCap_def word_less_nat_alt)
    show ?thesis
    proof (cases "2 ^ 32 < ?k")
      case True
      then have "\<not> grow_fits mem64HardCap m ?k" by (simp add: grow_fits_def Let_def unat_hardCaps)
      then show ?thesis using True big sl pos by (auto simp: memoryGrow64_def)
    next
      case False
      have cur: "unat (memSize m) \<le> 2 ^ 48"
        using mem_invD(7) [OF inv] by (simp add: unat_hardCaps)
      then have want: "unat ?want = unat (memSize m) + 65536 * ?k"
        using unat_want [of "memSize m" n] k False by simp
      then have "\<not> ?want < memSize m" by (simp add: word_less_nat_alt)
      then have run: "memoryGrow64 m n =
          (if ?want > mem64HardCap then Inr (- 1, m)
           else if maxMem m \<noteq> 0 \<and> ?want > maxMem m then Inr (- 1, m)
           else grow_commit mem64HardCap (memorySize64 m) m ?want)"
        using pos False big sl by (simp add: memoryGrow64_def memorySize64_def Let_def)
      show ?thesis
      proof (cases "?want \<le> mem64HardCap \<and> (maxMem m \<noteq> 0 \<longrightarrow> ?want \<le> maxMem m)")
        case True
        then show ?thesis
          using grow_commit_spec [OF inv _ want, of "memorySize64 m"] run pos fits_iff [OF inv want]
          by (auto simp: unat_hardCaps split: if_splits)
      next
        case False
        then show ?thesis using run pos fits_iff [OF inv want] by auto
      qed
    qed
  qed (auto simp: memoryGrow64_def memorySize64_def word_sless_alt sint_eq_0_iff)
qed

lemma memorySize_pages:
  assumes inv: "mem_inv wasmMemHardCap m"
  shows "unat (memorySize m) * 65536 = length (mem_abs m)"
proof -
  have c: "unat (memSize m) \<le> 2 ^ 32 - 2 ^ 17" using mem_invD(7) [OF inv] by (simp add: unat_hardCaps)
  have "unat (drop_bit 16 (memSize m)) = unat (memSize m) div 65536"
    using unat_shifts(2) [of 16 "memSize m"] by simp
  then have "unat (memorySize m) = unat (memSize m) div 65536"
    using c unat_ucast_small [where ?'b = 32, of "drop_bit 16 (memSize m)"] by (simp add: memorySize_def)
  then show ?thesis
    using mem_invD(6) [OF inv] length_mem_abs [OF inv] by simp
qed

lemma memorySize64_pages:
  assumes inv: "mem_inv mem64HardCap m"
  shows "unat (memorySize64 m) * 65536 = length (mem_abs m)"
  using mem_invD(6) [OF inv] length_mem_abs [OF inv] unat_shifts(2) [of 16 "memSize m"]
  by (simp add: memorySize64_def)

section \<open>Writes keep the invariant\<close>

lemma write_at_spec:
  assumes inv: "mem_inv hardCap m" and a: "a + length bs \<le> unat (memSize m)"
  shows "mem_inv hardCap (write_at m a bs) \<and> mem_abs (write_at m a bs) = overwrite (mem_abs m) a bs"
proof -
  note d = mem_invD [OF inv]
  have len: "a + length bs \<le> length (backing m)" using a d(1,3) by linarith
  have "mem_inv hardCap (write_at m a bs)"
    using inv a len d(1,3) by (auto simp: mem_inv_def write_at_def nth_overwrite)
  moreover have "mem_abs (write_at m a bs) = overwrite (mem_abs m) a bs"
    using a d(1,3) by (simp add: mem_abs_def write_at_def take_overwrite)
  ultimately show ?thesis by blast
qed

lemma write_at_frame [simp]:
  "memSize (write_at m a bs) = memSize m" "dataSegs (write_at m a bs) = dataSegs m"
  "dataEnd (write_at m a bs) = dataEnd m" "memShared (write_at m a bs) = memShared m"
  "maxMem (write_at m a bs) = maxMem m" "mlen (write_at m a bs) = mlen m"
  by (simp_all add: write_at_def)

lemma fill_loop_spec:
  "0 < filled \<Longrightarrow> filled \<le> length b \<Longrightarrow> take filled b = replicate filled v \<Longrightarrow>
   fill_loop b filled = replicate (length b) v"
proof (induction b filled rule: fill_loop.induct)
  case (1 b filled)
  show ?case
  proof (cases "filled < length b")
    case True
    let ?b = "take filled b @ go_copy (drop filled b) (take filled b)"
    have len: "length ?b = length b" using True by (simp add: go_copy_def)
    have pre: "?b = replicate filled v @ replicate (min (length b - filled) filled) v @ drop (2 * filled) b"
      using 1(4) True by (simp add: go_copy_def mult_2 add.commute)
    show ?thesis
    proof (cases "filled * 2 \<le> length b")
      case double: True
      then have "take (filled * 2) ?b = replicate (filled * 2) v"
        unfolding pre using True by (auto simp: min_def mult_2_right simp flip: replicate_add)
      then have "fill_loop ?b (filled * 2) = replicate (length ?b) v"
        using 1(1) 1(2) True double len by auto
      then show ?thesis using 1(2) True len by (subst fill_loop.simps) simp
    next
      case False
      then have "?b = replicate (length b) v"
        unfolding pre using True by (simp add: min_def flip: replicate_add)
      moreover have "fill_loop ?b (filled * 2) = ?b"
        using False len by (subst fill_loop.simps) simp
      ultimately show ?thesis using 1(2) True by (subst fill_loop.simps) simp
    qed
  next
    case False
    then show ?thesis using 1(2-4) by (subst fill_loop.simps) simp
  qed
qed

lemma fill_slice_spec: "fill_slice b v = replicate (length b) v"
proof (cases "v = 0")
  case True
  then show ?thesis by (simp add: fill_slice_def map_replicate_const)
next
  case False
  show ?thesis
  proof (cases b)
    case Nil
    then show ?thesis using False by (simp add: fill_slice_def fill_loop.simps)
  next
    case (Cons x xs)
    then show ?thesis using False fill_loop_spec [of 1 "b[0 := v]" v] by (simp add: fill_slice_def)
  qed
qed

lemma slice_eq:
  assumes "mem_inv hardCap m" and "lo \<le> hi" and "hi \<le> unat (memSize m)"
  shows "slice_ok m lo hi" and "slice m lo hi = take (hi - lo) (drop lo (mem_abs m))"
    and "length (slice m lo hi) = hi - lo"
  using assms mem_invD(1,3) [OF assms(1)]
  by (auto simp: slice_ok_def slice_def mem_abs_def drop_take min_def)

lemma go_copy_full: "length src = length dst \<Longrightarrow> go_copy dst src = src"
  by (simp add: go_copy_def)

lemma fill_range_spec:
  assumes inv: "mem_inv hardCap m" and "lo + n \<le> unat (memSize m)"
  shows "\<exists>m'. fill_range m lo (lo + n) v = Inr m' \<and> mem_inv hardCap m' \<and>
    mem_abs m' = overwrite (mem_abs m) lo (replicate n v) \<and> m' = write_at m lo (replicate n v)"
proof -
  have "fill_slice (slice m lo (lo + n)) v = replicate n v"
    using slice_eq(3) [OF inv, of lo "lo + n"] assms(2) by (simp add: fill_slice_spec)
  then show ?thesis
    using slice_eq(1) [OF inv, of lo "lo + n"] assms(2) write_at_spec [OF inv, of lo "replicate n v"]
    by (simp add: fill_range_def)
qed

lemma copy_range_spec:
  assumes inv: "mem_inv hardCap m" and "d + n \<le> unat (memSize m)" and "s + n \<le> unat (memSize m)"
  shows "\<exists>m'. copy_range m d (d + n) s (s + n) = Inr m' \<and> mem_inv hardCap m' \<and>
    mem_abs m' = overwrite (mem_abs m) d (take n (drop s (mem_abs m)))"
proof -
  note sl = slice_eq [OF inv]
  have "go_copy (slice m d (d + n)) (slice m s (s + n)) = take n (drop s (mem_abs m))"
    using sl(2,3) [of d "d + n"] sl(2,3) [of s "s + n"] assms(2,3) by (simp add: go_copy_full)
  moreover have "length (take n (drop s (mem_abs m))) = n"
    using assms(3) length_mem_abs [OF inv] by simp
  ultimately show ?thesis
    using sl(1) [of d "d + n"] sl(1) [of s "s + n"] assms write_at_spec [OF inv, of d "take n (drop s (mem_abs m))"]
    by (simp add: copy_range_def)
qed

lemma init_range_spec:
  assumes inv: "mem_inv hardCap m" and "d + n \<le> unat (memSize m)" and "s + n \<le> length data"
  shows "\<exists>m'. init_range m d (d + n) data s (s + n) = Inr m' \<and> mem_inv hardCap m' \<and>
    mem_abs m' = overwrite (mem_abs m) d (take n (drop s data)) \<and>
    dataSegs m' = dataSegs m \<and> dataEnd m' = dataEnd m"
proof -
  note sl = slice_eq [OF inv, of d "d + n"]
  let ?bs = "take n (drop s data)"
  have len: "length ?bs = n" using assms(3) by simp
  show ?thesis
  proof (cases "slice m d (d + n) = ?bs")
    case True
    then have "overwrite (mem_abs m) d ?bs = mem_abs m"
      using sl assms(2) len overwrite_self [of n d "mem_abs m"] length_mem_abs [OF inv] by simp
    then show ?thesis using True sl assms by (simp add: init_range_def Let_def)
  next
    case False
    then show ?thesis
      using sl assms len write_at_spec [OF inv, of d ?bs]
      by (simp add: init_range_def Let_def go_copy_full)
  qed
qed

section \<open>The bulk operations\<close>

lemma unat_sum32: "unat (ucast (a :: u32) + ucast (b :: u32) :: u64) = unat a + unat b"
  using unat_lt [of a] unat_lt [of b] by (simp add: unat_word_ariths unat_ucast_up)

lemma sum32_small:
  fixes a b :: u32
  assumes "unat a + unat b \<le> 2 ^ 32 - 2 ^ 17"
  shows "unat (ucast (ucast a + ucast b :: u64) :: u32) = unat a + unat b" and "unat (a + b) = unat a + unat b"
  using assms by (simp_all add: unat_ucast_small unat_sum32 unat_word_ariths)

lemma size32: "mem_inv wasmMemHardCap m \<Longrightarrow> length (mem_abs m) \<le> 2 ^ 32 - 2 ^ 17"
  using mem_invD(7) [of wasmMemHardCap m] by (simp add: length_mem_abs unat_hardCaps)

lemma memoryFill_spec:
  assumes inv: "mem_inv wasmMemHardCap m" and "n \<noteq> 0"
  shows "if unat dst + unat n \<le> length (mem_abs m)
    then \<exists>m'. memoryFill m dst val n = Inr m' \<and> mem_inv wasmMemHardCap m' \<and>
      mem_abs m' = overwrite (mem_abs m) (unat dst) (replicate (unat n) (ucast val))
    else memoryFill m dst val n = trap_memfill_oob"
proof -
  have le: "ucast dst + ucast n > memSize m \<longleftrightarrow> \<not> unat dst + unat n \<le> length (mem_abs m)"
    using length_mem_abs [OF inv] by (simp add: word_less_nat_alt unat_sum32 not_le)
  show ?thesis
  proof (cases "unat dst + unat n \<le> length (mem_abs m)")
    case True
    then have "memoryFill m dst val n = fill_range m (unat dst) (unat dst + unat n) (ucast val)"
      using le size32 [OF inv] assms(2) sum32_small(1) [of dst n] by (simp add: memoryFill_def Let_def)
    then show ?thesis
      using True fill_range_spec [OF inv, of "unat dst" "unat n" "ucast val"] length_mem_abs [OF inv] by auto
  next
    case False
    then show ?thesis using le assms(2) by (simp add: memoryFill_def Let_def)
  qed
qed

lemma memoryCopy_spec:
  assumes inv: "mem_inv wasmMemHardCap m" and "n \<noteq> 0"
  shows "if unat dst + unat n \<le> length (mem_abs m) \<and> unat src + unat n \<le> length (mem_abs m)
    then \<exists>m'. memoryCopy m dst src n = Inr m' \<and> mem_inv wasmMemHardCap m' \<and>
      mem_abs m' = overwrite (mem_abs m) (unat dst) (take (unat n) (drop (unat src) (mem_abs m)))
    else memoryCopy m dst src n = trap_memcopy_oob"
proof -
  have le: "ucast a + ucast n > memSize m \<longleftrightarrow> \<not> unat a + unat n \<le> length (mem_abs m)" for a :: i32
    using length_mem_abs [OF inv] by (simp add: word_less_nat_alt unat_sum32 not_le)
  show ?thesis
  proof (cases "unat dst + unat n \<le> length (mem_abs m) \<and> unat src + unat n \<le> length (mem_abs m)")
    case True
    then have "memoryCopy m dst src n =
        copy_range m (unat dst) (unat dst + unat n) (unat src) (unat src + unat n)"
      using le [of dst] le [of src] size32 [OF inv] assms(2) sum32_small(1) [of dst n] sum32_small(1) [of src n]
      by (simp add: memoryCopy_def Let_def)
    then show ?thesis
      using True copy_range_spec [OF inv, of "unat dst" "unat n" "unat src"] length_mem_abs [OF inv] by auto
  next
    case False
    then show ?thesis using le [of dst] le [of src] assms(2) by (auto simp: memoryCopy_def Let_def)
  qed
qed

lemma memoryInit_spec:
  assumes inv: "mem_inv wasmMemHardCap m" and "n \<noteq> 0" and seg: "seg < length (dataSegs m)"
    and small: "\<forall>d. dataSegs m ! seg = Some d \<longrightarrow> length d < 2 ^ 32"
  shows "case dataSegs m ! seg of
      Some data \<Rightarrow>
        (if unat src + unat n \<le> length data \<and> unat dst + unat n \<le> length (mem_abs m)
         then \<exists>m'. memoryInit m seg dst src n = Inr m' \<and> mem_inv wasmMemHardCap m' \<and>
           mem_abs m' = overwrite (mem_abs m) (unat dst) (take (unat n) (drop (unat src) data)) \<and>
           dataSegs m' = dataSegs m \<and>
           unat (dataEnd m') = max (unat (dataEnd m)) (unat dst + unat n)
         else memoryInit m seg dst src n = trap_meminit_oob)
    | None \<Rightarrow> memoryInit m seg dst src n = trap_meminit_oob"
proof (cases "dataSegs m ! seg")
  case None
  then show ?thesis using seg assms(2) by (simp add: memoryInit_def)
next
  case (Some data)
  have data: "length data < 2 ^ 32" using small Some by blast
  have le: "ucast dst + ucast n > memSize m \<longleftrightarrow> \<not> unat dst + unat n \<le> length (mem_abs m)"
    using length_mem_abs [OF inv] by (simp add: word_less_nat_alt unat_sum32 not_le)
  have le': "(ucast src + ucast n :: u64) > word_of_nat (length data) \<longleftrightarrow> \<not> unat src + unat n \<le> length data"
    using data by (simp add: word_less_nat_alt unat_sum32 not_le unat_of_nat)
  show ?thesis
  proof (cases "unat src + unat n \<le> length data \<and> unat dst + unat n \<le> length (mem_abs m)")
    case True
    have d: "unat (dst + n) = unat dst + unat n"
      using True size32 [OF inv] sum32_small(2) [of dst n] by simp
    have s: "unat (src + n) = unat src + unat n"
      using True data by (simp add: unat_word_ariths)
    let ?m = "if dst + n > dataEnd m then m\<lparr>dataEnd := dst + n\<rparr> else m"
    have m: "mem_inv wasmMemHardCap ?m" "mem_abs ?m = mem_abs m" "dataSegs ?m = dataSegs m"
        "memSize ?m = memSize m" "unat (dataEnd ?m) = max (unat (dataEnd m)) (unat dst + unat n)"
      using inv d by (auto simp: mem_inv_def mem_abs_def word_less_nat_alt max_def)
    have "memoryInit m seg dst src n =
        init_range ?m (unat dst) (unat dst + unat n) data (unat src) (unat src + unat n)"
      using Some seg assms(2) le le' True d s by (simp add: memoryInit_def Let_def)
    then show ?thesis
      using True Some init_range_spec [OF m(1), of "unat dst" "unat n" "unat src" data] m length_mem_abs [OF inv]
      by auto
  next
    case False
    then show ?thesis using Some seg assms(2) le le' by (auto simp: memoryInit_def Let_def)
  qed
qed

text \<open>
  C21: Growing a memory, in the 32-bit form: a request of zero pages returns the size; a request
  that fits the hard cap, the declared maximum and, for a shared memory, the reservation, returns
  the old size in pages and appends that many zeroed pages, keeping everything before them; any
  other request returns -1 and changes nothing. The invariant survives, the make call cannot
  panic and the cached pointer follows a reallocation.
\<close>

theorem memoryGrow_spec:
  assumes "mem_inv wasmMemHardCap m"
  shows "\<exists>r m'. memoryGrow m n = Inr (r, m') \<and> mem_inv wasmMemHardCap m' \<and>
    (if n = 0 then unat r * 65536 = length (mem_abs m) \<and> m' = m
     else if 0 < sint n \<and> grow_fits wasmMemHardCap m (nat (sint n)) then
       unat r * 65536 = length (mem_abs m) \<and>
       mem_abs m' = mem_abs m @ replicate (65536 * nat (sint n)) 0 \<and>
       (memShared m \<longrightarrow> arr m' = arr m)
     else r = - 1 \<and> m' = m)"
  using memoryGrow_cases [OF assms, of n] memorySize_pages [OF assms] assms
  by (auto simp: grown_by_def split: if_splits)

definition sample_mem :: RtModule where
  "sample_mem = \<lparr>backing = replicate 65536 0, mlen = 65536, arr = 0, mptr = 0, maxMem = 0x30000,
     memSize = 0x10000, memShared = False, dataSegs = [Some [1, 2, 3]], dataEnd = 0\<rparr>"

lemma sample_mem_inv: "mem_inv wasmMemHardCap sample_mem"
  by (simp add: mem_inv_def sample_mem_def wasmMemHardCap_def)

theorem memoryGrow_spec_witness:
  "\<exists>r m'. memoryGrow sample_mem 2 = Inr (r, m') \<and> unat r = 1 \<and>
     mem_abs m' = mem_abs sample_mem @ replicate 131072 0"
proof -
  have len: "length (mem_abs sample_mem) = 65536" by (simp add: mem_abs_def sample_mem_def)
  have fits: "grow_fits wasmMemHardCap sample_mem 2"
    by (simp add: grow_fits_def len unat_hardCaps) (simp add: sample_mem_def)
  show ?thesis
    using memoryGrow_spec [OF sample_mem_inv, of 2] fits len by auto
qed

text \<open>The module's bulk operations, composed, as an abstract memory sees them.\<close>

text \<open>
  C22: \<^verbatim>\<open>memory.fill\<close> and \<^verbatim>\<open>memory.copy\<close> of length zero return at once with nothing changed, wherever
  their operands point. Of a positive length, they trap exactly when a range leaves the memory;
  otherwise fill writes the byte over the range, whatever doubling steps it takes, and copy moves
  the old bytes of the source, overlapping or not.
\<close>

theorem fill_copy_spec:
  assumes "mem_inv wasmMemHardCap m"
  shows "(if n = 0 then memoryFill m dst val n = Inr m \<and> memoryCopy m dst src n = Inr m else
    (if unat dst + unat n \<le> length (mem_abs m)
      then \<exists>m'. memoryFill m dst val n = Inr m' \<and> mem_inv wasmMemHardCap m' \<and>
        mem_abs m' = overwrite (mem_abs m) (unat dst) (replicate (unat n) (ucast val))
      else memoryFill m dst val n = Inl ''wasm: memory.fill out of bounds'') \<and>
    (if unat dst + unat n \<le> length (mem_abs m) \<and> unat src + unat n \<le> length (mem_abs m)
      then \<exists>m'. memoryCopy m dst src n = Inr m' \<and> mem_inv wasmMemHardCap m' \<and>
        mem_abs m' = overwrite (mem_abs m) (unat dst) (take (unat n) (drop (unat src) (mem_abs m)))
      else memoryCopy m dst src n = Inl ''wasm: memory.copy out of bounds''))"
proof (cases "n = 0")
  case True
  then show ?thesis by (simp add: memoryFill_def memoryCopy_def)
next
  case False
  then show ?thesis
    using memoryFill_spec [OF assms False] memoryCopy_spec [OF assms False]
    by (simp add: trap_memfill_oob_def trap_memcopy_oob_def)
qed

theorem fill_copy_spec_witness:
  "memoryFill sample_mem 0xfffe 7 3 = Inl ''wasm: memory.fill out of bounds'' \<and>
   memoryFill sample_mem 0xffffffff 7 0 = Inr sample_mem \<and>
   (\<exists>m'. memoryCopy sample_mem 0 1 3 = Inr m' \<and>
      mem_abs m' = overwrite (mem_abs sample_mem) 0 (take 3 (drop 1 (mem_abs sample_mem))))"
proof -
  have "length (mem_abs sample_mem) = 65536" by (simp add: mem_abs_def sample_mem_def)
  then show ?thesis
    using fill_copy_spec [OF sample_mem_inv, of 3 "0xfffe" 7 0]
      fill_copy_spec [OF sample_mem_inv, of 3 0 0 1] fill_copy_spec [OF sample_mem_inv, of 0 "0xffffffff" 7 0] by auto
qed

text \<open>
  C23: \<^verbatim>\<open>memory.init\<close> of a segment that does not exist is an index panic, even of length zero. Of
  length zero it otherwise returns with nothing changed, also when the segment was dropped or the
  operands point outside. Of a positive length it traps exactly when the segment was dropped or either range
  is out of bounds; otherwise the bytes of the segment land in memory, whether or not the
  equal-bytes shortcut was taken, the segments stay, and the recorded end of the data is the
  largest written so far.
\<close>

theorem memoryInit_exact:
  assumes "mem_inv wasmMemHardCap m" and "\<forall>d \<in> set (dataSegs m). case d of None \<Rightarrow> True | Some x \<Rightarrow> length x < 2 ^ 32"
  shows "if \<not> seg < length (dataSegs m) then memoryInit m seg dst src n = index_oob
    else if n = 0 then memoryInit m seg dst src n = Inr m
    else case dataSegs m ! seg of
      Some data \<Rightarrow>
        (if unat src + unat n \<le> length data \<and> unat dst + unat n \<le> length (mem_abs m)
         then \<exists>m'. memoryInit m seg dst src n = Inr m' \<and> mem_inv wasmMemHardCap m' \<and>
           mem_abs m' = overwrite (mem_abs m) (unat dst) (take (unat n) (drop (unat src) data)) \<and>
           dataSegs m' = dataSegs m \<and>
           unat (dataEnd m') = max (unat (dataEnd m)) (unat dst + unat n)
         else memoryInit m seg dst src n = Inl ''wasm: memory.init out of bounds'')
    | None \<Rightarrow> memoryInit m seg dst src n = Inl ''wasm: memory.init out of bounds''"
proof -
  consider "\<not> seg < length (dataSegs m)" | "seg < length (dataSegs m)" "n = 0" | (go) "seg < length (dataSegs m)" "n \<noteq> 0" by blast
  then show ?thesis
  proof cases
    case go
    have "\<forall>d. dataSegs m ! seg = Some d \<longrightarrow> length d < 2 ^ 32"
      using assms(2) nth_mem [OF go(1)] by (metis option.simps(5))
    from memoryInit_spec [OF assms(1) go(2,1) this, where src = src and dst = dst] show ?thesis
      unfolding trap_meminit_oob_def [symmetric] using go by simp
  qed (simp_all add: memoryInit_def)
qed

theorem memoryInit_exact_witness:
  "(\<exists>m'. memoryInit sample_mem 0 5 1 2 = Inr m' \<and> mem_abs m' = overwrite (mem_abs sample_mem) 5 [2, 3] \<and>
     dataEnd m' = 7) \<and>
   memoryInit sample_mem 0 0xffffffff 9 0 = Inr sample_mem \<and> memoryInit sample_mem 1 0 0 0 = index_oob"
proof -
  have len: "length (mem_abs sample_mem) = 65536" by (simp add: mem_abs_def sample_mem_def)
  have seg: "dataSegs sample_mem = [Some [1, 2, 3]]" "dataEnd sample_mem = 0"
    by (simp_all add: sample_mem_def)
  then have segs: "\<forall>d \<in> set (dataSegs sample_mem). case d of None \<Rightarrow> True | Some x \<Rightarrow> length x < 2 ^ 32" by simp
  note spec = memoryInit_exact [OF sample_mem_inv segs]
  obtain m' where m': "memoryInit sample_mem 0 5 1 2 = Inr m'"
      "mem_abs m' = overwrite (mem_abs sample_mem) 5 [2, 3]" "unat (dataEnd m') = 7"
    using spec [where n = 2 and seg = 0 and dst = 5 and src = 1] len seg by (auto simp: take_Cons' drop_Cons')
  then have "dataEnd m' = 7" by (simp add: word_unat_eq_iff)
  then show ?thesis
    using m' spec [where n = 0 and seg = 0 and dst = "0xffffffff" and src = 9] spec [where n = 0 and seg = 1 and dst = 0 and src = 0]
      seg(1) by simp
qed

section \<open>The interface of a memory access\<close>

text \<open>
  The contract of a load and a store of one width at one address form: a store succeeds exactly
  where the bytes fit, changes only them, and the load reads back what was stored.
\<close>

locale mem_access =
  fixes width :: nat
    and ld :: "RtModule \<Rightarrow> i32 \<Rightarrow> u32 \<Rightarrow> 'v trap"
    and st :: "RtModule \<Rightarrow> i32 \<Rightarrow> u32 \<Rightarrow> 'v \<Rightarrow> RtModule trap"
    and enc :: "'v \<Rightarrow> byte list" and dec :: "byte list \<Rightarrow> 'v"
  assumes enc_width: "length (enc v) = width"
    and dec_enc: "dec (enc v) = v"
    and ld_bytes: "ld m a off = map_trap dec (mload_bytes width m a off)"
    and st_bytes: "st m a off v = mstore_bytes m a off (enc v)"
begin

lemma store_traps: "(\<exists>m'. st m a off v = Inr m') \<longleftrightarrow> mea a off + width \<le> mlen m"
  by (simp add: st_bytes mstore_bytes_def enc_width Let_def)

lemma load_traps: "(\<exists>v. ld m a off = Inr v) \<longleftrightarrow> mea a off + width \<le> mlen m"
  by (simp add: ld_bytes mload_bytes_def Let_def)

lemma load_after_store:
  assumes "st m a off v = Inr m'" and "mlen m \<le> length (backing m)"
  shows "ld m' a off = Inr v"
proof -
  have m': "m' = write_at m (mea a off) (enc v)" and len: "mea a off + width \<le> mlen m"
    using assms(1) by (auto simp: st_bytes mstore_bytes_def enc_width Let_def split: if_splits)
  then have "mea a off + length (enc v) \<le> length (backing m)" using assms(2) by (simp add: enc_width)
  then have "take width (drop (mea a off) (backing m')) = enc v"
    using overwrite_read [of "mea a off" "enc v" "backing m"] m' by (simp add: write_at_def enc_width)
  then show ?thesis using len m' by (simp add: ld_bytes mload_bytes_def dec_enc Let_def)
qed

lemma store_result:
  assumes "st m a off v = Inr m'"
  shows "m' = write_at m (mea a off) (enc v)" and "mea a off + width \<le> mlen m"
  using assms by (auto simp: st_bytes mstore_bytes_def enc_width Let_def split: if_splits)

lemma load_elsewhere:
  assumes "st m a off v = Inr m'" and "mlen m \<le> length (backing m)"
    and "mea b off' + n \<le> mea a off \<or> mea a off + width \<le> mea b off'"
  shows "mload_bytes n m' b off' = mload_bytes n m b off'"
proof -
  have m': "m' = write_at m (mea a off) (enc v)" and len: "mea a off + width \<le> mlen m"
    using assms(1) by (auto simp: st_bytes mstore_bytes_def enc_width Let_def split: if_splits)
  then have "mea a off + length (enc v) \<le> length (backing m)" using assms(2) by (simp add: enc_width)
  then have "take n (drop (mea b off') (backing m')) = take n (drop (mea b off') (backing m))"
    using assms(3) m' by (simp add: write_at_def overwrite_read_disjoint enc_width)
  then show ?thesis using m' by (simp add: mload_bytes_def Let_def)
qed

end

text \<open>A store writes within its own bytes and changes nothing else of the module.\<close>

definition apart :: "nat \<Rightarrow> nat \<Rightarrow> nat \<Rightarrow> nat \<Rightarrow> bool" where
  "apart a k b n \<longleftrightarrow> b + n \<le> a \<or> a + k \<le> b"

definition writes_only :: "nat \<Rightarrow> i32 \<Rightarrow> u32 \<Rightarrow> RtModule \<Rightarrow> RtModule \<Rightarrow> bool" where
  "writes_only k a off m m' \<longleftrightarrow> m' = m\<lparr>backing := backing m'\<rparr> \<and> length (backing m') = length (backing m) \<and>
     (\<forall>b n. apart (unat a + unat off) k b n \<longrightarrow> take n (drop b (backing m')) = take n (drop b (backing m)))"

lemma le_word_single: "le_word [b] = (ucast b :: 'a::len word)"
  by simp

interpretation access32: mem_access 4 mload32 mstore32 "le_bytes 4" le_word
  by unfold_locales (simp_all add: le_word_le_bytes mload32_def mstore32_def)

interpretation access64: mem_access 8 mload64 mstore64 "le_bytes 8" le_word
  by unfold_locales (simp_all add: le_word_le_bytes mload64_def mstore64_def)

interpretation accessF32: mem_access 4 mloadF32 mstoreF32 "le_bytes 4" le_word
  by unfold_locales (simp_all add: le_word_le_bytes mloadF32_def mstoreF32_def)

interpretation accessF64: mem_access 8 mloadF64 mstoreF64 "le_bytes 8" le_word
  by unfold_locales (simp_all add: le_word_le_bytes mloadF64_def mstoreF64_def)

text \<open>The narrow forms store the low part and load it back extended.\<close>

definition mload8_raw :: "RtModule \<Rightarrow> i32 \<Rightarrow> u32 \<Rightarrow> byte trap" where
  "mload8_raw m a off = map_trap (\<lambda>bs. le_word bs) (mload_bytes 1 m a off)"
definition mstore8_raw :: "RtModule \<Rightarrow> i32 \<Rightarrow> u32 \<Rightarrow> byte \<Rightarrow> RtModule trap" where
  "mstore8_raw m a off v = mstore_bytes m a off [v]"
definition mload16_raw :: "RtModule \<Rightarrow> i32 \<Rightarrow> u32 \<Rightarrow> u16 trap" where
  "mload16_raw m a off = map_trap (\<lambda>bs. le_word bs) (mload_bytes 2 m a off)"
definition mstore16_raw :: "RtModule \<Rightarrow> i32 \<Rightarrow> u32 \<Rightarrow> u16 \<Rightarrow> RtModule trap" where
  "mstore16_raw m a off v = mstore_bytes m a off (le_bytes 2 v)"

interpretation access8: mem_access 1 mload8_raw mstore8_raw "\<lambda>v. [v]" le_word
  by unfold_locales (simp_all add: mload8_raw_def mstore8_raw_def)

interpretation access16: mem_access 2 mload16_raw mstore16_raw "le_bytes 2" le_word
  by unfold_locales (simp_all add: le_word_le_bytes mload16_raw_def mstore16_raw_def)

lemma map_trap_comp: "map_trap f (map_trap g t) = map_trap (\<lambda>x. f (g x)) t"
  by (cases t) (simp_all add: map_trap_def)

lemma narrow_accesses:
  "mload8s m a off = map_trap scast (mload8_raw m a off)"
  "mload8u m a off = map_trap ucast (mload8_raw m a off)"
  "mload16s m a off = map_trap scast (mload16_raw m a off)"
  "mload16u m a off = map_trap ucast (mload16_raw m a off)"
  "mload64_8s m a off = map_trap scast (mload8_raw m a off)"
  "mload64_8u m a off = map_trap ucast (mload8_raw m a off)"
  "mload64_16s m a off = map_trap scast (mload16_raw m a off)"
  "mload64_16u m a off = map_trap ucast (mload16_raw m a off)"
  "mload64_32s m a off = map_trap scast (mload32 m a off)"
  "mload64_32u m a off = map_trap ucast (mload32 m a off)"
  "mstore8 m a off v = mstore8_raw m a off (ucast v)"
  "mstore8_64 m a off w = mstore8_raw m a off (ucast w)"
  "mstore16 m a off v = mstore16_raw m a off (ucast v)"
  "mstore16_64 m a off w = mstore16_raw m a off (ucast w)"
  "mstore32_64 m a off w = mstore32 m a off (ucast w)"
  by (simp_all only: mload8s_def mload8u_def mload16s_def mload16u_def mload64_8s_def mload64_8u_def
      mload64_16s_def mload64_16u_def mload64_32s_def mload64_32u_def mload8_raw_def mload16_raw_def
      mload32_def mstore8_def mstore8_64_def mstore16_def mstore16_64_def mstore32_64_def
      mstore8_raw_def mstore16_raw_def mstore32_def map_trap_comp)

lemma mea_eq: "mea a off = unat a + unat off"
  by (simp add: mea_def unat_sum32)

text \<open>How a load and a store of \<open>k\<close> bytes end.\<close>

definition load_in_bounds :: "nat \<Rightarrow> RtModule \<Rightarrow> i32 \<Rightarrow> u32 \<Rightarrow> 'v trap \<Rightarrow> bool" where
  "load_in_bounds k m a off t \<longleftrightarrow> (if unat a + unat off + k \<le> mlen m then \<exists>v. t = Inr v else t = index_oob)"

definition store_in_bounds :: "nat \<Rightarrow> RtModule \<Rightarrow> i32 \<Rightarrow> u32 \<Rightarrow> RtModule trap \<Rightarrow> bool" where
  "store_in_bounds k m a off t \<longleftrightarrow>
     (if unat a + unat off + k \<le> mlen m then \<exists>m'. t = Inr m' \<and> writes_only k a off m m' else t = index_oob)"

lemma load_in_bounds_map: "load_in_bounds k m a off t \<Longrightarrow> load_in_bounds k m a off (map_trap f t)"
  by (auto simp: load_in_bounds_def map_trap_def index_oob_def split: if_splits)

context mem_access
begin

lemma store_writes_only:
  assumes "st m a off v = Inr m'" and "mlen m \<le> length (backing m)"
  shows "writes_only width a off m m'"
proof -
  have m': "m' = write_at m (unat a + unat off) (enc v)" and len: "unat a + unat off + length (enc v) \<le> length (backing m)"
    using store_result [OF assms(1)] assms(2) by (simp_all add: mea_eq enc_width)
  then show ?thesis
    by (simp add: writes_only_def write_at_def apart_def overwrite_read_disjoint enc_width)
qed

lemma store_contract:
  assumes "mlen m \<le> length (backing m)"
  shows "store_in_bounds width m a off (st m a off v)"
  unfolding store_in_bounds_def using store_traps [of m a off v] store_writes_only [OF _ assms, of a off v]
  by (auto simp: mea_eq st_bytes mstore_bytes_def enc_width Let_def)

lemma load_contract:
  "load_in_bounds width m a off (ld m a off)"
  by (simp add: load_in_bounds_def ld_bytes mload_bytes_def mea_eq Let_def map_trap_def index_oob_def)

end

lemmas store_contracts =
  access8.store_contract access16.store_contract access32.store_contract access64.store_contract accessF32.store_contract accessF64.store_contract

lemmas load_contracts =
  access8.load_contract access16.load_contract access32.load_contract access64.load_contract accessF32.load_contract accessF64.load_contract

text \<open>
  C25: Every load reads back what the store of its width left at that address: whole words
  unchanged, narrow values zero- or sign-extended from the stored low part, floats bit for bit.
\<close>

theorem load_after_store_spec:
  assumes "mlen m \<le> length (backing m)"
  shows "(mstore32 m a off v = Inr m' \<longrightarrow> mload32 m' a off = Inr v) \<and>
    (mstore64 m a off w = Inr m' \<longrightarrow> mload64 m' a off = Inr w) \<and>
    (mstoreF32 m a off x = Inr m' \<longrightarrow> mloadF32 m' a off = Inr x) \<and>
    (mstoreF64 m a off y = Inr m' \<longrightarrow> mloadF64 m' a off = Inr y) \<and>
    (mstore8 m a off v = Inr m' \<longrightarrow>
       mload8s m' a off = Inr (i32_extend8_s v) \<and> mload8u m' a off = Inr (take_bit 8 v)) \<and>
    (mstore16 m a off v = Inr m' \<longrightarrow>
       mload16s m' a off = Inr (i32_extend16_s v) \<and> mload16u m' a off = Inr (take_bit 16 v)) \<and>
    (mstore8_64 m a off w = Inr m' \<longrightarrow>
       mload64_8s m' a off = Inr (i64_extend8_s w) \<and> mload64_8u m' a off = Inr (take_bit 8 w)) \<and>
    (mstore16_64 m a off w = Inr m' \<longrightarrow>
       mload64_16s m' a off = Inr (i64_extend16_s w) \<and> mload64_16u m' a off = Inr (take_bit 16 w)) \<and>
    (mstore32_64 m a off w = Inr m' \<longrightarrow>
       mload64_32s m' a off = Inr (i64_extend32_s w) \<and> mload64_32u m' a off = Inr (take_bit 32 w))"
proof -
  have casts: "ucast (ucast v :: byte) = take_bit 8 v" "ucast (ucast v :: u16) = take_bit 16 v"
    "ucast (ucast w :: byte) = take_bit 8 w" "ucast (ucast w :: u16) = take_bit 16 w"
    "ucast (ucast w :: u32) = take_bit 32 w"
    by (rule bit_word_eqI; auto simp: bit_simps)+
  note raw = access8.load_after_store [OF _ assms] access16.load_after_store [OF _ assms]
    access32.load_after_store [OF _ assms]
  show ?thesis
    using access32.load_after_store [OF _ assms] access64.load_after_store [OF _ assms]
      accessF32.load_after_store [OF _ assms] accessF64.load_after_store [OF _ assms]
    by (simp add: narrow_accesses raw casts i32_extend8_s_def i32_extend16_s_def i64_extend8_s_def
        i64_extend16_s_def i64_extend32_s_def map_trap_def)
qed

theorem load_after_store_spec_witness:
  "mload8s (write_at sample_mem 24 [0xff]) 16 8 = Inr (- 1)"
proof -
  have "mstore8 sample_mem 16 8 0xff = Inr (write_at sample_mem 24 [0xff])"
    by (simp add: mstore8_def mstore_bytes_def mea_eq Let_def) (simp add: sample_mem_def)
  moreover have "mlen sample_mem \<le> length (backing sample_mem)" by (simp add: sample_mem_def)
  moreover have "i32_extend8_s 0xff = - 1" by (simp add: i32_extend8_s_def)
  ultimately show ?thesis using load_after_store_spec by metis
qed

text \<open>
  C26: Every load and every store of a 32-bit memory succeeds exactly when base plus offset plus its width,
  added without wrap-around, stays within the memory slice, and is an index panic otherwise. A
  store that succeeds changes only its own bytes: every disjoint range, the size of the array and
  every other field are as before.
\<close>

theorem access_bounds_spec:
  assumes "mlen m \<le> length (backing m)"
  shows "load_in_bounds 1 m a off (mload8s m a off) \<and> load_in_bounds 1 m a off (mload8u m a off) \<and>
    load_in_bounds 2 m a off (mload16s m a off) \<and> load_in_bounds 2 m a off (mload16u m a off) \<and>
    load_in_bounds 4 m a off (mload32 m a off) \<and> load_in_bounds 8 m a off (mload64 m a off) \<and>
    load_in_bounds 1 m a off (mload64_8s m a off) \<and> load_in_bounds 1 m a off (mload64_8u m a off) \<and>
    load_in_bounds 2 m a off (mload64_16s m a off) \<and> load_in_bounds 2 m a off (mload64_16u m a off) \<and>
    load_in_bounds 4 m a off (mload64_32s m a off) \<and> load_in_bounds 4 m a off (mload64_32u m a off) \<and>
    load_in_bounds 4 m a off (mloadF32 m a off) \<and> load_in_bounds 8 m a off (mloadF64 m a off) \<and>
    store_in_bounds 1 m a off (mstore8 m a off x) \<and> store_in_bounds 2 m a off (mstore16 m a off x) \<and>
    store_in_bounds 4 m a off (mstore32 m a off x) \<and> store_in_bounds 8 m a off (mstore64 m a off y) \<and>
    store_in_bounds 1 m a off (mstore8_64 m a off y) \<and> store_in_bounds 2 m a off (mstore16_64 m a off y) \<and>
    store_in_bounds 4 m a off (mstore32_64 m a off y) \<and>
    store_in_bounds 4 m a off (mstoreF32 m a off z) \<and> store_in_bounds 8 m a off (mstoreF64 m a off w)"
  unfolding narrow_accesses
  by (intro conjI load_in_bounds_map load_contracts store_contracts [OF assms])

theorem access_bounds_spec_witness:
  "(\<exists>v. mload32 sample_mem 0xfffc 0 = Inr v) \<and> mload32 sample_mem 0xfffffffc 0xffffffff = index_oob \<and>
   (\<exists>m'. mstore16_64 sample_mem 8 0 7 = Inr m' \<and> writes_only 2 8 0 sample_mem m')"
proof -
  have m: "mlen sample_mem = 65536" "mlen sample_mem \<le> length (backing sample_mem)"
    by (simp_all add: sample_mem_def)
  then show ?thesis
    using access_bounds_spec [OF m(2), where a = 8 and off = 0 and y = 7]
      access_bounds_spec [OF m(2), where a = "0xfffc" and off = 0]
      access_bounds_spec [OF m(2), where a = "0xfffffffc" and off = "0xffffffff"]
    by (simp add: load_in_bounds_def store_in_bounds_def)
qed

section \<open>The memory as a state machine\<close>

lemma le_bytes_ucast:
  assumes "8 * n \<le> LENGTH('b::len)"
  shows "le_bytes n (ucast (w :: 'a::len word) :: 'b word) = le_bytes n w"
proof (rule nth_equalityI)
  fix i assume "i < length (le_bytes n (ucast w :: 'b word))"
  then have "i < n" "8 * i + 8 \<le> LENGTH('b)" using assms by simp_all
  moreover have "bit w k \<Longrightarrow> k < LENGTH('a)" for k by (rule bit_imp_le_length)
  ultimately show "le_bytes n (ucast w :: 'b word) ! i = le_bytes n w ! i"
    by (auto simp: nth_le_bytes bit_simps intro!: bit_word_eqI)
qed simp

text \<open>Every store writes the low bytes of its operand.\<close>

lemma store_low_bytes:
  "mstore8 m a off v = mstore_bytes m a off (le_bytes 1 v)" "mstore16 m a off v = mstore_bytes m a off (le_bytes 2 v)"
  "mstore32 m a off v = mstore_bytes m a off (le_bytes 4 v)" "mstore8_64 m a off w = mstore_bytes m a off (le_bytes 1 w)"
  "mstore16_64 m a off w = mstore_bytes m a off (le_bytes 2 w)" "mstore32_64 m a off w = mstore_bytes m a off (le_bytes 4 w)"
  "mstore64 m a off w = mstore_bytes m a off (le_bytes 8 w)" "mstoreF32 m a off x = mstore_bytes m a off (le_bytes 4 x)"
  "mstoreF64 m a off y = mstore_bytes m a off (le_bytes 8 y)"
  by (simp_all add: mstore8_def mstore16_def mstore32_def mstore8_64_def mstore16_64_def mstore32_64_def mstore64_def
      mstoreF32_def mstoreF64_def le_bytes_ucast)

datatype mem_op =
    Grow i32
  | Fill i32 i32 i32
  | Copy i32 i32 i32
  | Init nat i32 i32 i32
  | Drop nat
  | Store8 i32 u32 i32 | Store16 i32 u32 i32 | Store32 i32 u32 i32
  | Store8_64 i32 u32 i64 | Store16_64 i32 u32 i64 | Store32_64 i32 u32 i64 | Store64 i32 u32 i64
  | StoreF32 i32 u32 u32 | StoreF64 i32 u32 u64

fun exec_op :: "mem_op \<Rightarrow> RtModule \<Rightarrow> RtModule trap" where
  "exec_op (Grow n) m = map_trap snd (memoryGrow m n)"
| "exec_op (Fill dst val n) m = memoryFill m dst val n"
| "exec_op (Copy dst src n) m = memoryCopy m dst src n"
| "exec_op (Init seg dst src n) m = memoryInit m seg dst src n"
| "exec_op (Drop seg) m = dataDrop m seg"
| "exec_op (Store8 a off v) m = mstore8 m a off v"
| "exec_op (Store16 a off v) m = mstore16 m a off v"
| "exec_op (Store32 a off v) m = mstore32 m a off v"
| "exec_op (Store8_64 a off w) m = mstore8_64 m a off w"
| "exec_op (Store16_64 a off w) m = mstore16_64 m a off w"
| "exec_op (Store32_64 a off w) m = mstore32_64 m a off w"
| "exec_op (Store64 a off w) m = mstore64 m a off w"
| "exec_op (StoreF32 a off x) m = mstoreF32 m a off x"
| "exec_op (StoreF64 a off y) m = mstoreF64 m a off y"

fun exec_ops :: "mem_op list \<Rightarrow> RtModule \<Rightarrow> RtModule trap" where
  "exec_ops [] m = Inr m"
| "exec_ops (x # xs) m = (case exec_op x m of Inl e \<Rightarrow> Inl e | Inr m' \<Rightarrow> exec_ops xs m')"

text \<open>The abstract memory: its bytes and its segments, with a declared maximum.\<close>

type_synonym spec_mem = "byte list \<times> byte list option list"

definition spec_write :: "nat \<Rightarrow> byte list \<Rightarrow> spec_mem \<Rightarrow> spec_mem option" where
  "spec_write a bs s =
     (if a + length bs \<le> length (fst s) then Some (overwrite (fst s) a bs, snd s) else None)"

definition spec_max :: "RtModule \<Rightarrow> nat" where
  "spec_max m = (if maxMem m = 0 then 2 ^ 32 - 2 ^ 17 else min (unat (maxMem m)) (2 ^ 32 - 2 ^ 17))"

fun spec_op :: "nat \<Rightarrow> mem_op \<Rightarrow> spec_mem \<Rightarrow> spec_mem option" where
  "spec_op mx (Grow n) s =
     (let k = 65536 * nat (sint n) in
      Some (if length (fst s) + k \<le> mx then (fst s @ replicate k 0, snd s) else s))"
| "spec_op mx (Fill dst val n) s =
     (if n = 0 then Some s else spec_write (unat dst) (replicate (unat n) (ucast val)) s)"
| "spec_op mx (Copy dst src n) s =
     (if n = 0 then Some s
      else if unat src + unat n \<le> length (fst s)
      then spec_write (unat dst) (take (unat n) (drop (unat src) (fst s))) s else None)"
| "spec_op mx (Init seg dst src n) s =
     (if \<not> seg < length (snd s) then None
      else if n = 0 then Some s
      else case snd s ! seg of
          None \<Rightarrow> None
        | Some d \<Rightarrow> if unat src + unat n \<le> length d
            then spec_write (unat dst) (take (unat n) (drop (unat src) d)) s else None)"
| "spec_op mx (Drop seg) s =
     (if seg < length (snd s) then Some (fst s, (snd s)[seg := None]) else None)"
| "spec_op mx (Store8 a off v) s = spec_write (unat a + unat off) (le_bytes 1 v) s"
| "spec_op mx (Store16 a off v) s = spec_write (unat a + unat off) (le_bytes 2 v) s"
| "spec_op mx (Store32 a off v) s = spec_write (unat a + unat off) (le_bytes 4 v) s"
| "spec_op mx (Store8_64 a off w) s = spec_write (unat a + unat off) (le_bytes 1 w) s"
| "spec_op mx (Store16_64 a off w) s = spec_write (unat a + unat off) (le_bytes 2 w) s"
| "spec_op mx (Store32_64 a off w) s = spec_write (unat a + unat off) (le_bytes 4 w) s"
| "spec_op mx (Store64 a off w) s = spec_write (unat a + unat off) (le_bytes 8 w) s"
| "spec_op mx (StoreF32 a off x) s = spec_write (unat a + unat off) (le_bytes 4 x) s"
| "spec_op mx (StoreF64 a off y) s = spec_write (unat a + unat off) (le_bytes 8 y) s"

fun spec_ops :: "nat \<Rightarrow> mem_op list \<Rightarrow> spec_mem \<Rightarrow> spec_mem option" where
  "spec_ops mx [] s = Some s"
| "spec_ops mx (x # xs) s = Option.bind (spec_op mx x s) (spec_ops mx xs)"

definition spec_abs :: "RtModule \<Rightarrow> spec_mem" where
  "spec_abs m = (mem_abs m, dataSegs m)"

definition own_inv :: "RtModule \<Rightarrow> bool" where
  "own_inv m \<longleftrightarrow> mem_inv wasmMemHardCap m \<and> \<not> memShared m \<and>
     (\<forall>d \<in> set (dataSegs m). case d of None \<Rightarrow> True | Some x \<Rightarrow> length x < 2 ^ 32)"

definition refines :: "RtModule \<Rightarrow> RtModule trap \<Rightarrow> spec_mem option \<Rightarrow> bool" where
  "refines m t s \<longleftrightarrow>
     (case t of
        Inl e \<Rightarrow> s = None
      | Inr m' \<Rightarrow> s = Some (spec_abs m') \<and> own_inv m' \<and> spec_max m' = spec_max m)"

lemma refines_write:
  assumes inv: "own_inv m" and "mem_inv wasmMemHardCap m'" and "mem_abs m' = overwrite (mem_abs m) a bs"
    and "dataSegs m' = dataSegs m" "memShared m' = memShared m" "maxMem m' = maxMem m"
    and "a + length bs \<le> length (mem_abs m)"
  shows "refines m (Inr m') (spec_write a bs (spec_abs m))"
  using assms by (simp add: refines_def spec_write_def spec_abs_def own_inv_def spec_max_def)

lemma spec_write_trap: "\<not> a + length bs \<le> length (mem_abs m) \<Longrightarrow> spec_write a bs (spec_abs m) = None"
  by (simp add: spec_write_def spec_abs_def)

lemma own_inv_mem: "own_inv m \<Longrightarrow> mem_inv wasmMemHardCap m"
  by (simp add: own_inv_def)

lemma mlen_own: "own_inv m \<Longrightarrow> mlen m = length (mem_abs m)"
  using mem_invD(4) [of wasmMemHardCap m] length_mem_abs [of wasmMemHardCap m] by (simp add: own_inv_def)

lemma refines_store:
  assumes inv: "own_inv m"
  shows "refines m (mstore_bytes m a off bs) (spec_write (unat a + unat off) bs (spec_abs m))"
proof (cases "unat a + unat off + length bs \<le> length (mem_abs m)")
  case True
  let ?m' = "write_at m (unat a + unat off) bs"
  have "mstore_bytes m a off bs = Inr ?m'"
    using True mlen_own [OF inv] by (simp add: mstore_bytes_def mea_eq Let_def)
  moreover have "mem_inv wasmMemHardCap ?m'" "mem_abs ?m' = overwrite (mem_abs m) (unat a + unat off) bs"
    using write_at_spec [OF own_inv_mem [OF inv], of "unat a + unat off" bs] True
      length_mem_abs [OF own_inv_mem [OF inv]] by simp_all
  ultimately show ?thesis using refines_write [OF inv] True by simp
next
  case False
  then show ?thesis
    using mlen_own [OF inv] spec_write_trap [of "unat a + unat off" bs m]
    by (simp add: mstore_bytes_def mea_eq Let_def refines_def index_oob_def)
qed

lemma spec_max_fits:
  assumes "own_inv m"
  shows "grow_fits wasmMemHardCap m k \<longleftrightarrow> length (mem_abs m) + 65536 * k \<le> spec_max m"
  using assms by (auto simp: grow_fits_def spec_max_def own_inv_def unat_hardCaps Let_def)

lemma refines_grow:
  assumes inv: "own_inv m"
  shows "refines m (exec_op (Grow n) m) (spec_op (spec_max m) (Grow n) (spec_abs m))"
proof -
  obtain r m' where run: "memoryGrow m n = Inr (r, m')"
    and c: "if n = 0 then r = memorySize m \<and> m' = m
     else if 0 < sint n \<and> grow_fits wasmMemHardCap m (nat (sint n))
       then r = memorySize m \<and> grown_by wasmMemHardCap m (nat (sint n)) m'
     else r = - 1 \<and> m' = m"
    using memoryGrow_cases [OF own_inv_mem [OF inv]] by blast
  have len: "length (mem_abs m) \<le> spec_max m"
    using mem_invD(7,8) [OF own_inv_mem [OF inv]] length_mem_abs [OF own_inv_mem [OF inv]]
    by (auto simp: spec_max_def unat_hardCaps)
  show ?thesis
  proof (cases "0 < sint n \<and> grow_fits wasmMemHardCap m (nat (sint n))")
    case True
    then have "grown_by wasmMemHardCap m (nat (sint n)) m'" using c by (auto split: if_splits)
    then show ?thesis
      using True run inv spec_max_fits [OF inv, of "nat (sint n)"]
      by (simp add: refines_def spec_abs_def grown_by_def own_inv_def map_trap_def Let_def spec_max_def)
  next
    case False
    then have "m' = m" using c by (auto split: if_splits)
    moreover have "mem_abs m @ replicate (65536 * nat (sint n)) 0 = mem_abs m"
      if "length (mem_abs m) + 65536 * nat (sint n) \<le> spec_max m"
      using that False spec_max_fits [OF inv, of "nat (sint n)"] by simp
    ultimately show ?thesis
      using run inv by (auto simp: refines_def spec_abs_def map_trap_def Let_def)
  qed
qed

lemma refines_self: "own_inv m \<Longrightarrow> refines m (Inr m) (Some (spec_abs m))"
  by (simp add: refines_def)

lemma memoryFill_frame:
  "memoryFill m dst val n = Inr m' \<Longrightarrow> dataSegs m' = dataSegs m \<and> memShared m' = memShared m \<and> maxMem m' = maxMem m"
  by (auto simp: memoryFill_def fill_range_def trap_memfill_oob_def Let_def split: if_splits)

lemma memoryCopy_frame:
  "memoryCopy m dst src n = Inr m' \<Longrightarrow> dataSegs m' = dataSegs m \<and> memShared m' = memShared m \<and> maxMem m' = maxMem m"
  by (auto simp: memoryCopy_def copy_range_def trap_memcopy_oob_def Let_def split: if_splits)

lemma memoryInit_frame:
  "memoryInit m seg dst src n = Inr m' \<Longrightarrow> dataSegs m' = dataSegs m \<and> memShared m' = memShared m \<and> maxMem m' = maxMem m"
  by (auto simp: memoryInit_def init_range_def trap_meminit_oob_def Let_def
      split: if_splits option.splits)

lemma refines_fill:
  assumes inv: "own_inv m"
  shows "refines m (exec_op (Fill dst val n) m) (spec_op mx (Fill dst val n) (spec_abs m))"
proof (cases "n = 0")
  case True
  then show ?thesis using inv by (simp add: memoryFill_def refines_self)
next
  case False
  note spec = memoryFill_spec [OF own_inv_mem [OF inv] False, of dst val]
  show ?thesis
  proof (cases "unat dst + unat n \<le> length (mem_abs m)")
    case True
    then obtain m' where "memoryFill m dst val n = Inr m'" "mem_inv wasmMemHardCap m'"
        "mem_abs m' = overwrite (mem_abs m) (unat dst) (replicate (unat n) (ucast val))"
      using spec by auto
    then show ?thesis using False True refines_write [OF inv] memoryFill_frame by simp
  next
    case fails: False
    then show ?thesis
      using spec False by (simp add: refines_def trap_memfill_oob_def spec_write_trap)
  qed
qed

lemma refines_copy:
  assumes inv: "own_inv m"
  shows "refines m (exec_op (Copy dst src n) m) (spec_op mx (Copy dst src n) (spec_abs m))"
proof (cases "n = 0")
  case True
  then show ?thesis using inv by (simp add: memoryCopy_def refines_self)
next
  case False
  note spec = memoryCopy_spec [OF own_inv_mem [OF inv] False, of dst src]
  show ?thesis
  proof (cases "unat dst + unat n \<le> length (mem_abs m) \<and> unat src + unat n \<le> length (mem_abs m)")
    case True
    then obtain m' where "memoryCopy m dst src n = Inr m'" "mem_inv wasmMemHardCap m'"
        "mem_abs m' = overwrite (mem_abs m) (unat dst) (take (unat n) (drop (unat src) (mem_abs m)))"
      using spec by auto
    moreover have "length (take (unat n) (drop (unat src) (mem_abs m))) = unat n" using True by (auto simp: min_def)
    ultimately have "refines m (Inr m') (spec_write (unat dst) (take (unat n) (drop (unat src) (mem_abs m))) (spec_abs m))"
      using True memoryCopy_frame [of m dst src n m'] by (intro refines_write [OF inv]) simp_all
    then show ?thesis
      using False True \<open>memoryCopy m dst src n = Inr m'\<close> by (simp add: spec_abs_def)
  next
    case fails: False
    then have "memoryCopy m dst src n = trap_memcopy_oob" using spec by (auto split: if_splits)
    then show ?thesis
      using fails False by (auto simp: refines_def trap_memcopy_oob_def spec_write_def spec_abs_def)
  qed
qed

lemma refines_init:
  assumes inv: "own_inv m"
  shows "refines m (exec_op (Init seg dst src n) m) (spec_op mx (Init seg dst src n) (spec_abs m))"
proof -
  consider "\<not> seg < length (dataSegs m)" | "seg < length (dataSegs m)" "n = 0"
    | (go) "seg < length (dataSegs m)" "n \<noteq> 0" by blast
  then show ?thesis
  proof cases
    case go
    then have "\<forall>d. dataSegs m ! seg = Some d \<longrightarrow> length d < 2 ^ 32"
      using inv nth_mem [OF go(1)] unfolding own_inv_def by (metis option.simps(5))
    note spec = memoryInit_spec [OF own_inv_mem [OF inv] go(2,1) this, where src = src and dst = dst]
    show ?thesis
    proof (cases "dataSegs m ! seg")
      case None
      then show ?thesis using spec go by (simp add: refines_def trap_meminit_oob_def spec_abs_def)
    next
      case (Some d)
      show ?thesis
      proof (cases "unat src + unat n \<le> length d \<and> unat dst + unat n \<le> length (mem_abs m)")
        case True
        then obtain m' where "memoryInit m seg dst src n = Inr m'" "mem_inv wasmMemHardCap m'"
            "mem_abs m' = overwrite (mem_abs m) (unat dst) (take (unat n) (drop (unat src) d))"
          using spec Some by auto
        moreover have "length (take (unat n) (drop (unat src) d)) = unat n" using True by (auto simp: min_def)
        ultimately have "refines m (Inr m') (spec_write (unat dst) (take (unat n) (drop (unat src) d)) (spec_abs m))"
          using True memoryInit_frame [of m seg dst src n m'] by (intro refines_write [OF inv]) simp_all
        then show ?thesis
          using go True Some \<open>memoryInit m seg dst src n = Inr m'\<close> by (simp add: spec_abs_def)
      next
        case False
        then have "memoryInit m seg dst src n = trap_meminit_oob"
          using spec Some by (auto split: if_splits)
        then show ?thesis
          using go False Some by (auto simp: refines_def trap_meminit_oob_def spec_write_def spec_abs_def)
      qed
    qed
  qed (use inv in \<open>simp_all add: refines_def memoryInit_def spec_abs_def index_oob_def\<close>)
qed

lemma refines_op:
  assumes "own_inv m"
  shows "refines m (exec_op x m) (spec_op (spec_max m) x (spec_abs m))"
proof (cases x)
  case (Drop seg)
  show ?thesis
  proof (cases "seg < length (dataSegs m)")
    case True
    let ?m = "m\<lparr>dataSegs := (dataSegs m)[seg := None]\<rparr>"
    have "mem_inv wasmMemHardCap ?m" using own_inv_mem [OF assms] unfolding mem_inv_def by simp
    moreover have "case d of None \<Rightarrow> True | Some x \<Rightarrow> length x < 2 ^ 32"
      if "d \<in> set ((dataSegs m)[seg := None])" for d
      using that set_update_subset_insert [of "dataSegs m" seg None] assms
      by (auto simp: own_inv_def split: option.splits)
    ultimately have "own_inv ?m" using assms by (simp add: own_inv_def)
    then show ?thesis
      using Drop True by (simp add: refines_def dataDrop_def spec_abs_def mem_abs_def spec_max_def)
  next
    case False
    then show ?thesis using Drop by (simp add: refines_def dataDrop_def spec_abs_def index_oob_def)
  qed
next
  case (Grow n)
  then show ?thesis by (simp only: refines_grow [OF assms])
next
  case (Fill dst val n)
  then show ?thesis by (simp only: refines_fill [OF assms])
next
  case (Copy dst src n)
  then show ?thesis by (simp only: refines_copy [OF assms])
next
  case (Init seg dst src n)
  then show ?thesis by (simp only: refines_init [OF assms])
qed (simp_all only: exec_op.simps spec_op.simps store_low_bytes refines_store [OF assms])

lemma refines_ops:
  "own_inv m \<Longrightarrow> refines m (exec_ops xs m) (spec_ops (spec_max m) xs (spec_abs m))"
proof (induction xs arbitrary: m)
  case Nil
  then show ?case by (simp add: refines_self)
next
  case (Cons x xs)
  note op = refines_op [OF Cons.prems, of x]
  show ?case
  proof (cases "exec_op x m")
    case (Inl e)
    then show ?thesis using op by (simp add: refines_def)
  next
    case (Inr m')
    then have "spec_op (spec_max m) x (spec_abs m) = Some (spec_abs m')" "own_inv m'"
        "spec_max m' = spec_max m"
      using op by (simp_all add: refines_def)
    then show ?thesis
      using Cons.IH [of m'] Inr by (cases "exec_ops xs m'") (simp_all add: refines_def)
  qed
qed

text \<open>
  C20: Any sequence of grows, fills, copies, segment initialisations and drops and stores of every width on
  an unshared 32-bit memory runs as on the abstract memory: a trap happens exactly where the abstract
  memory refuses, the visible bytes and segments after every run are the abstract ones, through
  reslices, reallocations, doubling fills and skipped equal writes, and the invariant survives.
\<close>

theorem memory_refines_spec:
  assumes "own_inv m"
  shows "case exec_ops xs m of
      Inl e \<Rightarrow> spec_ops (spec_max m) xs (spec_abs m) = None
    | Inr m' \<Rightarrow> spec_ops (spec_max m) xs (spec_abs m) = Some (spec_abs m') \<and> own_inv m'"
  using refines_ops [OF assms, of xs] by (auto simp: refines_def split: sum.splits)

theorem memory_refines_spec_witness:
  "case exec_ops [Grow 1, Fill 0x10000 7 5, Init 0 0 0 3, Drop 0, Store32 4 0 9] sample_mem of
      Inl e \<Rightarrow> False
    | Inr m' \<Rightarrow> own_inv m' \<and> length (mem_abs m') = 131072 \<and> dataSegs m' = [None]"
proof -
  have inv: "own_inv sample_mem"
    using sample_mem_inv by (simp add: own_inv_def) (simp add: sample_mem_def)
  have abs: "length (fst (spec_abs sample_mem)) = 65536" "snd (spec_abs sample_mem) = [Some [1, 2, 3]]"
    by (simp_all add: spec_abs_def mem_abs_def sample_mem_def)
  have mx: "spec_max sample_mem = 0x30000" by (simp add: spec_max_def sample_mem_def)
  have "\<exists>s. spec_ops (spec_max sample_mem) [Grow 1, Fill 0x10000 7 5, Init 0 0 0 3, Drop 0, Store32 4 0 9]
      (spec_abs sample_mem) = Some s \<and> length (fst s) = 131072 \<and> snd s = [None]"
    unfolding mx by (simp add: abs spec_write_def Let_def)
  moreover define t where "t = exec_ops [Grow 1, Fill 0x10000 7 5, Init 0 0 0 3, Drop 0, Store32 4 0 9] sample_mem"
  ultimately show ?thesis
    using memory_refines_spec [OF inv, of "[Grow 1, Fill 0x10000 7 5, Init 0 0 0 3, Drop 0, Store32 4 0 9]"]
    unfolding t_def [symmetric] by (cases t) (auto simp: spec_abs_def)
qed

section \<open>The 64-bit forms\<close>

lemma sum64_wraps:
  fixes a n :: u64
  shows "a + n < a \<longleftrightarrow> 2 ^ 64 \<le> unat a + unat n"
    and "unat a + unat n < 2 ^ 64 \<Longrightarrow> unat (a + n) = unat a + unat n"
proof -
  show s: "unat (a + n) = unat a + unat n" if "unat a + unat n < 2 ^ 64"
    using that by (simp add: unat_word_ariths)
  show "a + n < a \<longleftrightarrow> 2 ^ 64 \<le> unat a + unat n"
  proof (cases "unat a + unat n < 2 ^ 64")
    case True
    then show ?thesis using s by (simp add: word_less_nat_alt)
  next
    case False
    have "unat (a + n) = (unat a + unat n) mod 2 ^ 64" by (simp add: unat_word_ariths)
    also have "\<dots> = unat a + unat n - 2 ^ 64"
      using False unat_lt [of a] unat_lt [of n] by (simp add: le_mod_geq)
    finally show ?thesis using False unat_lt [of n] by (simp add: word_less_nat_alt)
  qed
qed

lemma range64:
  assumes inv: "mem_inv mem64HardCap m" and n: "\<not> n <s 0"
  shows "(a + n < a \<or> a + n > memSize m) \<longleftrightarrow> \<not> unat a + unat n \<le> length (mem_abs m)"
    and "unat a + unat n \<le> length (mem_abs m) \<Longrightarrow> unat (a + n) = unat a + unat n"
proof -
  have len: "length (mem_abs m) = unat (memSize m)" "unat (memSize m) \<le> 2 ^ 48"
    using length_mem_abs [OF inv] mem_invD(7) [OF inv] by (simp_all add: unat_hardCaps)
  then show s: "unat (a + n) = unat a + unat n" if "unat a + unat n \<le> length (mem_abs m)"
    using that sum64_wraps(2) [of a n] by simp
  show "(a + n < a \<or> a + n > memSize m) \<longleftrightarrow> \<not> unat a + unat n \<le> length (mem_abs m)"
    using sum64_wraps [of a n] len by (auto simp: word_less_nat_alt not_le)
qed

text \<open>
  C24: The 64-bit forms keep the same contract under their own cap: growth appends zeroed pages or
  returns -1 unchanged, and fill and copy of a nonzero length trap exactly when the length is
  negative or a range, computed without wrapping at 2 to the 64, leaves the memory.
\<close>

theorem memory64_spec:
  assumes inv: "mem_inv mem64HardCap m" and n: "n \<noteq> 0"
  shows "(\<exists>r m'. memoryGrow64 m p = Inr (r, m') \<and> mem_inv mem64HardCap m' \<and>
      (if p = 0 then unat r * 65536 = length (mem_abs m) \<and> m' = m
       else if 0 < sint p \<and> grow_fits mem64HardCap m (nat (sint p)) then
         unat r * 65536 = length (mem_abs m) \<and>
         mem_abs m' = mem_abs m @ replicate (65536 * nat (sint p)) 0
       else r = - 1 \<and> m' = m)) \<and>
    (if 0 \<le> sint n \<and> unat dst + unat n \<le> length (mem_abs m)
      then \<exists>m'. memoryFill64 m dst val n = Inr m' \<and> mem_inv mem64HardCap m' \<and>
        mem_abs m' = overwrite (mem_abs m) (unat dst) (replicate (unat n) (ucast val))
      else memoryFill64 m dst val n = Inl ''wasm: memory.fill out of bounds'') \<and>
    (if 0 \<le> sint n \<and> unat dst + unat n \<le> length (mem_abs m) \<and> unat src + unat n \<le> length (mem_abs m)
      then \<exists>m'. memoryCopy64 m dst src n = Inr m' \<and> mem_inv mem64HardCap m' \<and>
        mem_abs m' = overwrite (mem_abs m) (unat dst) (take (unat n) (drop (unat src) (mem_abs m)))
      else memoryCopy64 m dst src n = Inl ''wasm: memory.copy out of bounds'')"
proof -
  have len: "length (mem_abs m) = unat (memSize m)" by (rule length_mem_abs [OF inv])
  have neg: "n <s 0 \<longleftrightarrow> \<not> 0 \<le> sint n" by (simp add: word_sless_alt not_le)
  have fill: "if 0 \<le> sint n \<and> unat dst + unat n \<le> length (mem_abs m)
      then \<exists>m'. memoryFill64 m dst val n = Inr m' \<and> mem_inv mem64HardCap m' \<and>
        mem_abs m' = overwrite (mem_abs m) (unat dst) (replicate (unat n) (ucast val))
      else memoryFill64 m dst val n = trap_memfill_oob"
  proof (cases "0 \<le> sint n \<and> unat dst + unat n \<le> length (mem_abs m)")
    case True
    then have "\<not> n <s 0" using neg by blast
    note r = range64 [OF inv this, of dst]
    have "memoryFill64 m dst val n = fill_range m (unat dst) (unat dst + unat n) (ucast val)"
      using True r n neg by (auto simp: memoryFill64_def Let_def)
    then show ?thesis
      using True fill_range_spec [OF inv, of "unat dst" "unat n" "ucast val"] len by auto
  next
    case False
    then show ?thesis
      using range64(1) [OF inv, of n dst] n neg by (cases "n <s 0") (auto simp: memoryFill64_def Let_def)
  qed
  have copy: "if 0 \<le> sint n \<and> unat dst + unat n \<le> length (mem_abs m) \<and> unat src + unat n \<le> length (mem_abs m)
      then \<exists>m'. memoryCopy64 m dst src n = Inr m' \<and> mem_inv mem64HardCap m' \<and>
        mem_abs m' = overwrite (mem_abs m) (unat dst) (take (unat n) (drop (unat src) (mem_abs m)))
      else memoryCopy64 m dst src n = trap_memcopy_oob"
  proof (cases "0 \<le> sint n \<and> unat dst + unat n \<le> length (mem_abs m) \<and> unat src + unat n \<le> length (mem_abs m)")
    case True
    then have "\<not> n <s 0" using neg by blast
    note r = range64 [OF inv this, of dst] range64 [OF inv this, of src]
    have "memoryCopy64 m dst src n = copy_range m (unat dst) (unat dst + unat n) (unat src) (unat src + unat n)"
      using True r n neg by (auto simp: memoryCopy64_def Let_def)
    then show ?thesis
      using True copy_range_spec [OF inv, of "unat dst" "unat n" "unat src"] len by auto
  next
    case False
    then show ?thesis
      using range64(1) [OF inv, of n dst] range64(1) [OF inv, of n src] n neg
      by (cases "n <s 0") (auto simp: memoryCopy64_def Let_def)
  qed
  have "\<exists>r m'. memoryGrow64 m p = Inr (r, m') \<and> mem_inv mem64HardCap m' \<and>
      (if p = 0 then unat r * 65536 = length (mem_abs m) \<and> m' = m
       else if 0 < sint p \<and> grow_fits mem64HardCap m (nat (sint p)) then
         unat r * 65536 = length (mem_abs m) \<and>
         mem_abs m' = mem_abs m @ replicate (65536 * nat (sint p)) 0
       else r = - 1 \<and> m' = m)"
    using memoryGrow64_cases [OF inv, of p] memorySize64_pages [OF inv] inv
    by (auto simp: grown_by_def split: if_splits)
  then show ?thesis
    using fill copy by (simp only: trap_memfill_oob_def trap_memcopy_oob_def simp_thms)
qed

theorem memory64_spec_witness:
  "memoryFill64 sample_mem 0xfffffffffffffff0 7 0x20 = Inl ''wasm: memory.fill out of bounds'' \<and>
   (\<exists>m'. memoryCopy64 sample_mem 0 1 3 = Inr m' \<and> mem_inv mem64HardCap m')"
proof -
  have inv: "mem_inv mem64HardCap sample_mem"
    by (simp add: mem_inv_def sample_mem_def mem64HardCap_def)
  have "length (mem_abs sample_mem) = 65536" by (simp add: mem_abs_def sample_mem_def)
  then show ?thesis
    using memory64_spec [OF inv, where n = "0x20" and dst = "0xfffffffffffffff0" and val = 7 and src = 0 and p = 0]
      memory64_spec [OF inv, where n = 3 and dst = 0 and src = 1 and val = 0 and p = 0]
    by (simp split del: if_split) blast
qed

end
