(* ===== verification/SsaMem.thy ===== *)
theory SsaMem
  imports SsaStraight RtMemory
begin

text \<open>
  SSA functions over a linear memory: the guest state is the runtime's module with something
  unspecified beside it, and a memory operation means what the runtime's checked helper for it
  does. The emitter prints plain loads and stores in line, without the bounds check; the two agree
  on accesses inside the memory. The other operations keep the meaning \<open>ext\<close> gives them.
\<close>

type_synonym 'x machine = "RtModule \<times> 'x"

text \<open>One helper per load operation and result type.\<close>

definition load_helpers :: "((Op \<times> Type) \<times> (RtModule \<Rightarrow> i32 \<Rightarrow> u32 \<Rightarrow> wval trap)) list" where
  "load_helpers =
    [((OpLoad8S, TypeI32), \<lambda>m a off. map_trap W32 (mload8s m a off)),
     ((OpLoad8U, TypeI32), \<lambda>m a off. map_trap W32 (mload8u m a off)),
     ((OpLoad16S, TypeI32), \<lambda>m a off. map_trap W32 (mload16s m a off)),
     ((OpLoad16U, TypeI32), \<lambda>m a off. map_trap W32 (mload16u m a off)),
     ((OpLoad32, TypeI32), \<lambda>m a off. map_trap W32 (mload32 m a off)),
     ((OpLoad8S, TypeI64), \<lambda>m a off. map_trap W64 (mload64_8s m a off)),
     ((OpLoad8U, TypeI64), \<lambda>m a off. map_trap W64 (mload64_8u m a off)),
     ((OpLoad16S, TypeI64), \<lambda>m a off. map_trap W64 (mload64_16s m a off)),
     ((OpLoad16U, TypeI64), \<lambda>m a off. map_trap W64 (mload64_16u m a off)),
     ((OpLoad32S, TypeI64), \<lambda>m a off. map_trap W64 (mload64_32s m a off)),
     ((OpLoad32U, TypeI64), \<lambda>m a off. map_trap W64 (mload64_32u m a off)),
     ((OpLoad64, TypeI64), \<lambda>m a off. map_trap W64 (mload64 m a off)),
     ((OpLoadF32, TypeF32), \<lambda>m a off. map_trap WF32 (mloadF32 m a off)),
     ((OpLoadF64, TypeF64), \<lambda>m a off. map_trap WF64 (mloadF64 m a off))]"

text \<open>One helper per store operation and kind of the stored value.\<close>

fun store_helper :: "Op \<Rightarrow> wval \<Rightarrow> (RtModule \<Rightarrow> i32 \<Rightarrow> u32 \<Rightarrow> RtModule trap) option" where
  "store_helper op (W32 v) =
     (if op = OpStore8 then Some (\<lambda>m a off. mstore8 m a off v)
      else if op = OpStore16 then Some (\<lambda>m a off. mstore16 m a off v)
      else if op = OpStore32 then Some (\<lambda>m a off. mstore32 m a off v)
      else None)"
| "store_helper op (W64 v) =
     (if op = OpStore8 then Some (\<lambda>m a off. mstore8_64 m a off v)
      else if op = OpStore16 then Some (\<lambda>m a off. mstore16_64 m a off v)
      else if op = OpStore32 then Some (\<lambda>m a off. mstore32_64 m a off v)
      else if op = OpStore64 then Some (\<lambda>m a off. mstore64 m a off v)
      else None)"
| "store_helper op (WF32 v) = (if op = OpStoreF32 then Some (\<lambda>m a off. mstoreF32 m a off v) else None)"
| "store_helper op (WF64 v) = (if op = OpStoreF64 then Some (\<lambda>m a off. mstoreF64 m a off v) else None)"
| "store_helper op _ = None"

definition load_ops :: "Op set" where
  "load_ops = {OpLoad8U, OpLoad8S, OpLoad16U, OpLoad16S, OpLoad32, OpLoad32U, OpLoad32S, OpLoad64, OpLoadF32, OpLoadF64}"

definition store_ops :: "Op set" where
  "store_ops = {OpStore8, OpStore16, OpStore32, OpStore64, OpStoreF32, OpStoreF64}"

definition bulk_ops :: "Op set" where
  "bulk_ops = {OpMemSize, OpMemGrow, OpMemoryCopy, OpMemoryFill, OpMemoryInit, OpDataDrop}"

text \<open>A helper's result as an outcome: its panic is the guest's trap.\<close>

definition trap_out :: "'s \<Rightarrow> ('a \<Rightarrow> wval \<times> 's) \<Rightarrow> 'a trap \<Rightarrow> ('s, wval \<times> 's) outcome" where
  "trap_out st k t = (case t of Inl _ \<Rightarrow> Trap st | Inr x \<Rightarrow> Done (k x))"

definition load_sem :: "Op \<Rightarrow> Type \<Rightarrow> i64 \<Rightarrow> wval list \<Rightarrow> 'x machine \<Rightarrow> ('x machine, wval \<times> 'x machine) outcome" where
  "load_sem op typ c as st =
     (case as of
        [W32 a] \<Rightarrow>
          (case map_of load_helpers (op, typ) of
             Some ld \<Rightarrow> if c \<le> 0xffffffff then trap_out st (\<lambda>w. (w, st)) (ld (fst st) a (ucast c)) else Stuck
           | None \<Rightarrow> Stuck)
      | _ \<Rightarrow> Stuck)"

definition store_sem :: "Op \<Rightarrow> i64 \<Rightarrow> wval list \<Rightarrow> 'x machine \<Rightarrow> ('x machine, wval \<times> 'x machine) outcome" where
  "store_sem op c as st =
     (case as of
        [W32 a, w] \<Rightarrow>
          (case store_helper op w of
             Some sto \<Rightarrow> if c \<le> 0xffffffff then trap_out st (\<lambda>m. (WNone, m, snd st)) (sto (fst st) a (ucast c)) else Stuck
           | None \<Rightarrow> Stuck)
      | _ \<Rightarrow> Stuck)"

definition bulk_sem :: "Op \<Rightarrow> i64 \<Rightarrow> wval list \<Rightarrow> 'x machine \<Rightarrow> ('x machine, wval \<times> 'x machine) outcome" where
  "bulk_sem op c as st =
     (let m = fst st; upd = (\<lambda>m. (WNone, m, snd st)) in
      if op = OpMemSize \<and> as = [] then Done (W32 (memorySize m), st)
      else if op = OpDataDrop \<and> as = [] then trap_out st upd (dataDrop m (unat c))
      else case as of
          [W32 n] \<Rightarrow> if op = OpMemGrow then trap_out st (\<lambda>(r, m). (W32 r, m, snd st)) (memoryGrow m n) else Stuck
        | [W32 x, W32 y, W32 n] \<Rightarrow>
            if op = OpMemoryCopy then trap_out st upd (memoryCopy m x y n)
            else if op = OpMemoryFill then trap_out st upd (memoryFill m x y n)
            else if op = OpMemoryInit then trap_out st upd (memoryInit m (unat c) x y n)
            else Stuck
        | _ \<Rightarrow> Stuck)"

definition mem_sem :: "'x machine sem \<Rightarrow> 'x machine sem" where
  "mem_sem ext op typ c aux as st =
     (if op \<in> load_ops then load_sem op typ c as st
      else if op \<in> store_ops then store_sem op c as st
      else if op \<in> bulk_ops then bulk_sem op c as st
      else std_sem ext op typ c aux as st)"

text \<open>A machine with nothing but its memory, for concrete runs.\<close>

definition no_ext :: "'s sem" where
  "no_ext op t c aux as st = Stuck"

lemmas run_mem_simps = run_straight_simps mem_sem_def load_ops_def store_ops_def bulk_ops_def load_sem_def store_sem_def trap_out_def

fun returned :: "('s, 's jump) outcome \<Rightarrow> wval list option" where
  "returned (Done (Return ws st)) = Some ws"
| "returned r = None"

section \<open>Bytes accessed\<close>

definition access_width :: "Op \<Rightarrow> nat" where
  "access_width op =
     (if op \<in> {OpLoad8U, OpLoad8S, OpStore8} then 1
      else if op \<in> {OpLoad16U, OpLoad16S, OpStore16} then 2
      else if op \<in> {OpLoad64, OpStore64, OpLoadF64, OpStoreF64} then 8 else 4)"

lemma load_helper_bytes:
  assumes "map_of load_helpers (op, typ) = Some ld"
  obtains dec where "\<And>m a off. ld m a off = map_trap dec (mload_bytes (access_width op) m a off)"
proof -
  have "\<exists>dec. \<forall>m a off. ld m a off = map_trap dec (mload_bytes (access_width op) m a off)"
    using assms
    by (auto simp: map_trap_comp load_helpers_def access_width_def mload8s_def mload8u_def mload16s_def mload16u_def mload32_def mload64_def
        mload64_8s_def mload64_8u_def mload64_16s_def mload64_16u_def mload64_32s_def mload64_32u_def mloadF32_def mloadF64_def
        split: if_splits intro!: exI)
  then show thesis using that by blast
qed

lemma store_helper_bytes:
  assumes "store_helper op w = Some sto"
  obtains bs where "length bs = access_width op" and "\<And>m a off. sto m a off = mstore_bytes m a off bs"
proof -
  have "\<exists>bs. length bs = access_width op \<and> (\<forall>m a off. sto m a off = mstore_bytes m a off bs)"
    using assms
    by (cases w) (auto simp: access_width_def mstore8_def mstore16_def mstore32_def mstore64_def mstore8_64_def mstore16_64_def
        mstore32_64_def mstoreF32_def mstoreF64_def split: if_splits intro!: exI)
  then show thesis using that by blast
qed

text \<open>What a store leaves alone.\<close>

lemma store_elsewhere:
  assumes "store_helper op w = Some sto" and "sto m a off = Inr m'" and "mlen m \<le> length (backing m)"
    and "mea b off' + n \<le> mea a off \<or> mea a off + access_width op \<le> mea b off'"
  shows "mload_bytes n m' b off' = mload_bytes n m b off'"
proof -
  obtain bs where bs: "length bs = access_width op" "\<And>m a off. sto m a off = mstore_bytes m a off bs"
    using store_helper_bytes [OF assms(1)] by blast
  have m': "m' = write_at m (mea a off) bs" and len: "mea a off + length bs \<le> mlen m"
    using assms(2) by (auto simp: bs(2) mstore_bytes_def Let_def split: if_splits)
  then have "mea a off + length bs \<le> length (backing m)" using assms(3) by simp
  then have "take n (drop (mea b off') (backing m')) = take n (drop (mea b off') (backing m))"
    using assms(4) m' bs(1) by (simp add: write_at_def overwrite_read_disjoint)
  then show ?thesis using m' by (simp add: mload_bytes_def Let_def)
qed

lemma store_slice:
  assumes "store_helper op w = Some sto" and "sto m a off = Inr m'" and "mlen m \<le> length (backing m)"
  shows "mlen m' \<le> length (backing m')"
proof -
  obtain bs where bs: "length bs = access_width op" "\<And>m a off. sto m a off = mstore_bytes m a off bs"
    using store_helper_bytes [OF assms(1)] by blast
  then show ?thesis using assms(2,3)
    by (auto simp: mstore_bytes_def Let_def write_at_def split: if_splits)
qed

lemma load_ops_helpers: "map_of load_helpers (op, typ) = Some ld \<Longrightarrow> op \<in> load_ops"
  by (auto simp: load_helpers_def load_ops_def split: if_splits)

text \<open>The kind of value a type stands for, where it is a scalar.\<close>

fun has_type :: "Type \<Rightarrow> wval \<Rightarrow> bool" where
  "has_type TypeI32 w \<longleftrightarrow> (\<exists>x. w = W32 x)"
| "has_type TypeI64 w \<longleftrightarrow> (\<exists>x. w = W64 x)"
| "has_type TypeF32 w \<longleftrightarrow> (\<exists>x. w = WF32 x)"
| "has_type TypeF64 w \<longleftrightarrow> (\<exists>x. w = WF64 x)"
| "has_type _ w \<longleftrightarrow> True"

lemma load_sem_typed: "load_sem op typ c as st = Done (w, st') \<Longrightarrow> has_type typ w \<and> st' = st"
  by (auto simp: load_sem_def trap_out_def load_helpers_def map_trap_def
      split: list.splits wval.splits option.splits sum.splits if_splits)

end
