(* ===== verification/PassDce.thy ===== *)
theory PassDce
  imports PassCse SsaMem
begin

text \<open>
  Dead-code elimination, from \<^verbatim>\<open>internal/ssa/pass/dce.go\<close>: marking from the roots with a
  stack of pending values, and burying what was not marked.
\<close>

section \<open>The pass\<close>

record dce_state =
  dce_live :: "nat set"
  dce_work :: "nat list"

definition dce_mark :: "Func \<Rightarrow> dce_state \<Rightarrow> nat option \<Rightarrow> dce_state" where
  "dce_mark f s a =
     (case a of
        None \<Rightarrow> s
      | Some v \<Rightarrow>
          if vOp (fval f v) \<noteq> OpInvalid \<and> v \<notin> dce_live s
          then s\<lparr>dce_live := insert v (dce_live s), dce_work := v # dce_work s\<rparr> else s)"

definition dce_ret_count :: "Func \<Rightarrow> nat \<Rightarrow> nat" where
  "dce_ret_count f b =
     (case bKind (fblk f b) of BlockRet \<Rightarrow> length (Results (Sig f)) | BlockThrow \<Rightarrow> ThrowArgc (fblk f b) | _ \<Rightarrow> 0)"

definition dce_root :: "Func \<Rightarrow> int \<Rightarrow> dce_state \<Rightarrow> nat \<times> nat \<Rightarrow> dce_state" where
  "dce_root f retStart s iv =
     (case iv of (i, v) \<Rightarrow>
        if vOp (fval f v) = OpInvalid then s
        else
          let s = (if HasSideEffect (fval f v) then dce_mark f s (Some v) else s)
          in if int i \<ge> retStart then dce_mark f s (Some v) else s)"

definition dce_roots_block :: "Func \<Rightarrow> dce_state \<Rightarrow> nat \<Rightarrow> dce_state" where
  "dce_roots_block f s b =
     (let vs = Values (fblk f b); retStart = int (length vs) - int (dce_ret_count f b)
      in foldl (dce_root f retStart) (dce_mark f s (Control (fblk f b))) (zip [0..<length vs] vs))"

partial_function (option) dce_loop :: "Func \<Rightarrow> dce_state \<Rightarrow> nat set option" where
  "dce_loop f s =
     (case dce_work s of
        [] \<Rightarrow> Some (dce_live s)
      | v # work \<Rightarrow> dce_loop f (foldl (dce_mark f) (s\<lparr>dce_work := work\<rparr>) (vArgs (fval f v))))"

definition dce_bury :: "nat set \<Rightarrow> nat \<Rightarrow> Value \<Rightarrow> Value" where
  "dce_bury live i v = (if vOp v \<noteq> OpInvalid \<and> i \<notin> live then v\<lparr>vOp := OpInvalid, vArgs := []\<rparr> else v)"

definition DCE :: "Func \<Rightarrow> (Func \<times> bool) option" where
  "DCE f =
     (case dce_loop f (foldl (dce_roots_block f) \<lparr>dce_live = {}, dce_work = []\<rparr> (Blocks f)) of
        None \<Rightarrow> None
      | Some live \<Rightarrow> Some (each_value (dce_bury live) f,
          \<exists>b \<in> set (Blocks f). \<exists>v \<in> set (Values (fblk f b)). vOp (fval f v) \<noteq> OpInvalid \<and> v \<notin> live))"

section \<open>What is marked\<close>

definition is_root :: "Func \<Rightarrow> nat \<Rightarrow> bool" where
  "is_root f v \<longleftrightarrow>
     vOp (fval f v) \<noteq> OpInvalid \<and>
     (\<exists>b \<in> set (Blocks f). Control (fblk f b) = Some v \<or> v \<in> set (markers f b) \<or>
        v \<in> set (Values (fblk f b)) \<and> HasSideEffect (fval f v))"

inductive needed :: "Func \<Rightarrow> nat \<Rightarrow> bool" for f where
  root: "is_root f v \<Longrightarrow> needed f v"
| arg: "needed f v \<Longrightarrow> Some a \<in> set (vArgs (fval f v)) \<Longrightarrow> vOp (fval f a) \<noteq> OpInvalid \<Longrightarrow> needed f a"

text \<open>Marking a list of operands: the new values are exactly those added to the stack.\<close>

lemma dce_mark_fold:
  fixes s as f
  defines "s' \<equiv> foldl (dce_mark f) s as"
  assumes "set (dce_work s) \<subseteq> dce_live s" and "finite (dce_live s)"
  shows "dce_live s \<subseteq> dce_live s' \<and> set (dce_work s') \<subseteq> dce_live s' \<and> finite (dce_live s') \<and>
    dce_live s' - set (dce_work s') \<subseteq> dce_live s - set (dce_work s) \<and>
    (\<forall>a. Some a \<in> set as \<longrightarrow> vOp (fval f a) \<noteq> OpInvalid \<longrightarrow> a \<in> dce_live s') \<and>
    (\<forall>v \<in> dce_live s'. v \<in> dce_live s \<or> Some v \<in> set as \<and> vOp (fval f v) \<noteq> OpInvalid) \<and>
    length (dce_work s') + card (dce_live s) = length (dce_work s) + card (dce_live s')"
  using assms(2-) unfolding s'_def
proof (induction as arbitrary: s)
  case (Cons a as)
  let ?t = "dce_mark f s a"
  have t: "set (dce_work ?t) \<subseteq> dce_live ?t" "finite (dce_live ?t)" "dce_live s \<subseteq> dce_live ?t"
    "dce_live ?t - set (dce_work ?t) \<subseteq> dce_live s - set (dce_work s)"
    "length (dce_work ?t) + card (dce_live s) = length (dce_work s) + card (dce_live ?t)"
    "\<And>v. a = Some v \<Longrightarrow> vOp (fval f v) \<noteq> OpInvalid \<Longrightarrow> v \<in> dce_live ?t"
    "\<And>v. v \<in> dce_live ?t \<Longrightarrow> v \<in> dce_live s \<or> a = Some v \<and> vOp (fval f v) \<noteq> OpInvalid"
    using Cons.prems by (auto simp: dce_mark_def split: option.splits if_splits)
  define t' where "t' = foldl (dce_mark f) ?t as"
  note ih = Cons.IH [OF t(1,2), folded t'_def]
  have eq: "foldl (dce_mark f) s (a # as) = t'" by (simp add: t'_def)
  show ?case
    unfolding eq
  proof (intro conjI allI impI ballI)
    show "dce_live s \<subseteq> dce_live t'" using ih t(3) by blast
    show "set (dce_work t') \<subseteq> dce_live t'" "finite (dce_live t')" using ih by blast+
    show "dce_live t' - set (dce_work t') \<subseteq> dce_live s - set (dce_work s)" using ih t(4) by blast
    show "x \<in> dce_live t'" if "Some x \<in> set (a # as)" "vOp (fval f x) \<noteq> OpInvalid" for x
      using that ih t(6) [of x] by (cases "a = Some x") auto
    show "x \<in> dce_live s \<or> Some x \<in> set (a # as) \<and> vOp (fval f x) \<noteq> OpInvalid" if "x \<in> dce_live t'" for x
      using that ih t(7) [of x] by auto
    show "length (dce_work t') + card (dce_live s) = length (dce_work s) + card (dce_live t')"
      using ih t(5) by linarith
  qed
qed simp

text \<open>Everything marked is needed, pending values are marked, and what is not pending has been followed.\<close>

definition followed :: "Func \<Rightarrow> nat set \<Rightarrow> nat set \<Rightarrow> bool" where
  "followed f A L \<longleftrightarrow>
     (\<forall>v \<in> A. \<forall>a. Some a \<in> set (vArgs (fval f v)) \<longrightarrow> vOp (fval f a) \<noteq> OpInvalid \<longrightarrow> a \<in> L)"

definition all_needed :: "Func \<Rightarrow> nat set \<Rightarrow> bool" where
  "all_needed f L \<longleftrightarrow> (\<forall>v \<in> L. needed f v \<and> vOp (fval f v) \<noteq> OpInvalid)"

definition dce_inv :: "Func \<Rightarrow> dce_state \<Rightarrow> bool" where
  "dce_inv f s \<longleftrightarrow>
     all_needed f (dce_live s) \<and> finite (dce_live s) \<and> set (dce_work s) \<subseteq> dce_live s \<and>
     followed f (dce_live s - set (dce_work s)) (dce_live s)"

lemma followed_mono: "followed f A L \<Longrightarrow> B \<subseteq> A \<Longrightarrow> L \<subseteq> M \<Longrightarrow> followed f B M"
  unfolding followed_def by (meson subset_iff)

lemma followed_insert:
  "followed f A L \<Longrightarrow> (\<And>a. Some a \<in> set (vArgs (fval f v)) \<Longrightarrow> vOp (fval f a) \<noteq> OpInvalid \<Longrightarrow> a \<in> L) \<Longrightarrow>
   followed f (insert v A) L"
  unfolding followed_def by (metis insert_iff)

lemma dce_mark_inv:
  assumes "dce_inv f s" and "\<And>v. a = Some v \<Longrightarrow> vOp (fval f v) \<noteq> OpInvalid \<Longrightarrow> needed f v"
  shows "dce_inv f (dce_mark f s a)" and "dce_live s \<subseteq> dce_live (dce_mark f s a)"
    and "a = Some v \<Longrightarrow> vOp (fval f v) \<noteq> OpInvalid \<Longrightarrow> v \<in> dce_live (dce_mark f s a)"
proof -
  show "dce_inv f (dce_mark f s a)"
  proof (cases a)
    case (Some v)
    show ?thesis
    proof (cases "vOp (fval f v) \<noteq> OpInvalid \<and> v \<notin> dce_live s")
      case True
      let ?L = "dce_live s"
      have inv: "all_needed f ?L" "finite ?L" "set (dce_work s) \<subseteq> ?L" "followed f (?L - set (dce_work s)) ?L"
        using assms(1) by (auto simp: dce_inv_def)
      have "followed f (insert v ?L - set (v # dce_work s)) (insert v ?L)"
        by (rule followed_mono [OF inv(4)]) auto
      moreover have "all_needed f (insert v ?L)" using inv(1) assms(2) [OF Some] True by (simp add: all_needed_def)
      ultimately show ?thesis using True inv(2,3) Some by (auto simp: dce_inv_def dce_mark_def)
    qed (use assms(1) Some in \<open>auto simp: dce_mark_def\<close>)
  qed (use assms(1) in \<open>simp add: dce_mark_def\<close>)
qed (auto simp: dce_mark_def split: option.splits)

lemma dce_step_inv:
  assumes inv: "dce_inv f s" and work: "dce_work s = v # work"
  defines "s' \<equiv> foldl (dce_mark f) (s\<lparr>dce_work := work\<rparr>) (vArgs (fval f v))"
  shows "dce_inv f s'" and "dce_live s \<subseteq> dce_live s'"
    and "length (dce_work s') + card (dce_live s) + 1 = length (dce_work s) + card (dce_live s')"
proof -
  have inv': "all_needed f (dce_live s)" "finite (dce_live s)" "set (dce_work s) \<subseteq> dce_live s"
    "followed f (dce_live s - set (dce_work s)) (dce_live s)"
    using inv by (auto simp: dce_inv_def)
  have "set (dce_work (s\<lparr>dce_work := work\<rparr>)) \<subseteq> dce_live (s\<lparr>dce_work := work\<rparr>)" "finite (dce_live (s\<lparr>dce_work := work\<rparr>))"
    using inv' work by auto
  note m = dce_mark_fold [OF this, of f "vArgs (fval f v)", folded s'_def, simplified]
  have nv: "needed f v" using inv'(1,3) work by (auto simp: all_needed_def)
  show sub: "dce_live s \<subseteq> dce_live s'" using m by simp
  show "length (dce_work s') + card (dce_live s) + 1 = length (dce_work s) + card (dce_live s')" using m work by simp
  have "all_needed f (dce_live s')"
    unfolding all_needed_def
  proof
    fix u assume "u \<in> dce_live s'"
    then consider "u \<in> dce_live s" | "Some u \<in> set (vArgs (fval f v))" "vOp (fval f u) \<noteq> OpInvalid" using m by blast
    then show "needed f u \<and> vOp (fval f u) \<noteq> OpInvalid"
      using inv'(1) needed.arg [OF nv] by cases (auto simp: all_needed_def)
  qed
  moreover have "followed f (dce_live s' - set (dce_work s')) (dce_live s')"
  proof (rule followed_mono [OF followed_insert [of f "dce_live s - set (dce_work s)"]])
    show "followed f (dce_live s - set (dce_work s)) (dce_live s')" by (rule followed_mono [OF inv'(4) _ sub]) simp
    show "dce_live s' - set (dce_work s') \<subseteq> insert v (dce_live s - set (dce_work s))" using m work by auto
  qed (use m in auto)
  ultimately show "dce_inv f s'" using m by (simp add: dce_inv_def)
qed

lemma dce_loop_total:
  assumes "dce_inv f s" and "finite U" and "{v. needed f v} \<subseteq> U"
  shows "\<exists>live. dce_loop f s = Some live \<and> dce_live s \<subseteq> live \<and> all_needed f live \<and> followed f live live"
  using assms(1)
proof (induction "2 * card (U - dce_live s) + length (dce_work s)" arbitrary: s rule: less_induct)
  case less
  show ?case
  proof (cases "dce_work s")
    case Nil
    then show ?thesis using less.prems by (subst dce_loop.simps) (auto simp: dce_inv_def)
  next
    case (Cons v work)
    define s' where "s' = foldl (dce_mark f) (s\<lparr>dce_work := work\<rparr>) (vArgs (fval f v))"
    note st = dce_step_inv [OF less.prems Cons, folded s'_def]
    have sub: "dce_live s \<subseteq> U" "dce_live s' \<subseteq> U"
      using less.prems st(1) assms(3) by (auto simp: dce_inv_def all_needed_def)
    have card: "card (U - dce_live s) + card (dce_live s) = card U" "card (U - dce_live s') + card (dce_live s') = card U"
      using sub assms(2) by (simp_all add: card_Diff_subset finite_subset card_mono)
    have le: "card (dce_live s) \<le> card (dce_live s')"
      using st(1,2) by (auto simp: dce_inv_def intro: card_mono)
    have "2 * card (U - dce_live s') + length (dce_work s') < 2 * card (U - dce_live s) + length (dce_work s)"
      using st(3) card le by linarith
    from less.hyps [OF this st(1)] obtain live where "dce_loop f s' = Some live" "dce_live s' \<subseteq> live"
      "all_needed f live" "followed f live live" by blast
    moreover have "dce_loop f s = dce_loop f s'" using Cons by (subst dce_loop.simps) (simp add: s'_def)
    ultimately show ?thesis using st(2) by auto
  qed
qed


section \<open>The roots\<close>

definition holds_roots :: "Func \<Rightarrow> nat set \<Rightarrow> dce_state \<Rightarrow> bool" where
  "holds_roots f S s \<longleftrightarrow> dce_inv f s \<and> {v \<in> S. vOp (fval f v) \<noteq> OpInvalid} \<subseteq> dce_live s"

lemma holds_roots_mark:
  assumes "holds_roots f S s" and "vOp (fval f v) \<noteq> OpInvalid \<Longrightarrow> is_root f v"
  shows "holds_roots f (insert v S) (dce_mark f s (Some v))"
  using assms dce_mark_inv [of f s "Some v"] needed.root [of f v] unfolding holds_roots_def by auto

lemma holds_roots_same:
  "holds_roots f S s \<Longrightarrow> (\<And>v. v \<in> T \<Longrightarrow> v \<in> S \<or> vOp (fval f v) = OpInvalid) \<Longrightarrow> holds_roots f T s"
  unfolding holds_roots_def by auto

lemma in_set_drop_nth: "v \<in> set (drop m vs) \<longleftrightarrow> (\<exists>i < length vs. m \<le> i \<and> vs ! i = v)"
proof
  assume "v \<in> set (drop m vs)"
  then obtain i where "i < length vs - m" "vs ! (m + i) = v" by (auto simp: in_set_conv_nth)
  then show "\<exists>i < length vs. m \<le> i \<and> vs ! i = v" by (intro exI [of _ "m + i"]) auto
next
  assume "\<exists>i < length vs. m \<le> i \<and> vs ! i = v"
  then obtain i where "i < length vs" "m \<le> i" "vs ! i = v" by auto
  then show "v \<in> set (drop m vs)" by (auto simp: in_set_conv_nth intro!: exI [of _ "i - m"])
qed

lemma markers_nth:
  "v \<in> set (markers f b) \<longleftrightarrow>
   (\<exists>i < length (Values (fblk f b)). int i \<ge> int (length (Values (fblk f b))) - int (dce_ret_count f b) \<and>
      Values (fblk f b) ! i = v)"
proof -
  have "markers f b = drop (length (Values (fblk f b)) - dce_ret_count f b) (Values (fblk f b))"
    by (simp add: markers_def dce_ret_count_def)
  moreover have "n - k \<le> i \<longleftrightarrow> int i \<ge> int n - int k" for n k i :: nat by linarith
  ultimately show ?thesis by (simp only: in_set_drop_nth)
qed

definition root_in :: "Func \<Rightarrow> nat \<Rightarrow> nat \<Rightarrow> bool" where
  "root_in f b i \<longleftrightarrow>
     HasSideEffect (fval f (Values (fblk f b) ! i)) \<or>
     int i \<ge> int (length (Values (fblk f b))) - int (dce_ret_count f b)"

lemma dce_root_holds:
  assumes b: "b \<in> set (Blocks f)" and i: "i < length (Values (fblk f b))" and h: "holds_roots f S s"
  shows "holds_roots f (if root_in f b i then insert (Values (fblk f b) ! i) S else S)
    (dce_root f (int (length (Values (fblk f b))) - int (dce_ret_count f b)) s (i, Values (fblk f b) ! i))"
proof -
  let ?v = "Values (fblk f b) ! i"
  have "is_root f ?v" if "root_in f b i" "vOp (fval f ?v) \<noteq> OpInvalid"
    using that b i unfolding is_root_def root_in_def by (intro conjI bexI [of _ b]) (auto simp: markers_nth)
  then show ?thesis
    using h holds_roots_mark [of f S s ?v] holds_roots_mark [of f "insert ?v S" "dce_mark f s (Some ?v)" ?v]
    by (auto simp: dce_root_def root_in_def Let_def intro: holds_roots_same)
qed

lemma dce_roots_values:
  assumes b: "b \<in> set (Blocks f)" and h: "holds_roots f S s" and n: "n \<le> length (Values (fblk f b))"
  shows "holds_roots f (S \<union> {Values (fblk f b) ! i |i. i < n \<and> root_in f b i})
    (foldl (dce_root f (int (length (Values (fblk f b))) - int (dce_ret_count f b))) s
      (zip [0..<n] (take n (Values (fblk f b)))))"
  using n
proof (induction n)
  case (Suc n)
  let ?vs = "Values (fblk f b)"
  have z: "zip [0..<Suc n] (take (Suc n) ?vs) = zip [0..<n] (take n ?vs) @ [(n, ?vs ! n)]"
    using Suc.prems by (simp add: take_Suc_conv_app_nth)
  have n: "n < length ?vs" using Suc.prems by simp
  have "holds_roots f (S \<union> {?vs ! i |i. i < n \<and> root_in f b i})
    (foldl (dce_root f (int (length ?vs) - int (dce_ret_count f b))) s (zip [0..<n] (take n ?vs)))"
    using Suc by simp
  from dce_root_holds [OF b n this] show ?case
    unfolding z foldl_append foldl.simps
    by (rule holds_roots_same) (auto simp: less_Suc_eq)
qed (use h in simp)

lemma dce_roots_block_holds:
  assumes b: "b \<in> set (Blocks f)" and h: "holds_roots f S s"
  shows "holds_roots f (S \<union> {v. Control (fblk f b) = Some v} \<union> set (markers f b) \<union>
      {v \<in> set (Values (fblk f b)). HasSideEffect (fval f v)}) (dce_roots_block f s b)"
proof -
  let ?vs = "Values (fblk f b)"
  have "holds_roots f (S \<union> {v. Control (fblk f b) = Some v}) (dce_mark f s (Control (fblk f b)))"
  proof (cases "Control (fblk f b)")
    case (Some v)
    then have "vOp (fval f v) \<noteq> OpInvalid \<Longrightarrow> is_root f v" using b by (auto simp: is_root_def)
    from holds_roots_mark [OF h this] show ?thesis using Some by (auto intro: holds_roots_same)
  qed (use h in \<open>simp add: dce_mark_def\<close>)
  from dce_roots_values [OF b this, of "length ?vs"]
  have "holds_roots f (S \<union> {v. Control (fblk f b) = Some v} \<union> {?vs ! i |i. i < length ?vs \<and> root_in f b i})
      (dce_roots_block f s b)"
    by (simp add: dce_roots_block_def Let_def)
  then show ?thesis
  proof (rule holds_roots_same, goal_cases)
    case (1 v)
    then consider "v \<in> S" | "Control (fblk f b) = Some v" | "v \<in> set (markers f b)"
      | "v \<in> set ?vs" "HasSideEffect (fval f v)" by auto
    then show ?case
    proof cases
      case 3
      then show ?thesis by (auto simp: markers_nth root_in_def)
    next
      case 4
      then obtain i where "i < length ?vs" "?vs ! i = v" by (auto simp: in_set_conv_nth)
      then show ?thesis using 4 by (auto simp: root_in_def)
    qed auto
  qed
qed

lemma dce_roots_hold:
  assumes "set bs \<subseteq> set (Blocks f)" and "holds_roots f S s"
  shows "holds_roots f (S \<union> (\<Union>b \<in> set bs. {v. Control (fblk f b) = Some v} \<union> set (markers f b) \<union>
      {v \<in> set (Values (fblk f b)). HasSideEffect (fval f v)})) (foldl (dce_roots_block f) s bs)"
  using assms
proof (induction bs arbitrary: S s)
  case (Cons b bs)
  from Cons.IH [OF _ dce_roots_block_holds [OF _ Cons.prems(2), of b]] Cons.prems(1)
  show ?case by (simp add: Un_assoc)
qed simp

lemma needed_listed:
  assumes "ssa_ok f" and "needed f v"
  shows "listed f v \<and> vOp (fval f v) \<noteq> OpInvalid"
  using assms(2)
proof (induction rule: needed.induct)
  case (root v)
  then obtain b where b: "b \<in> set (Blocks f)"
    and v: "Control (fblk f b) = Some v \<or> v \<in> set (markers f b) \<or> v \<in> set (Values (fblk f b))"
    by (auto simp: is_root_def)
  have "v \<in> set (Values (fblk f b))" if "v \<in> set (markers f b)"
    using that by (auto simp: markers_def Let_def dest: in_set_dropD)
  moreover have "dom_def f v b" if "Control (fblk f b) = Some v" using assms(1) b that by (auto simp: ssa_ok_def uses_ok_def)
  ultimately show ?case using v b root by (auto simp: listed_def dom_def_def is_root_def)
next
  case (arg v a)
  then obtain b where b: "b \<in> set (Blocks f)" "v \<in> set (Values (fblk f b))" by (auto simp: listed_def)
  then obtain pre post where split: "Values (fblk f b) = pre @ v # post" by (meson split_list)
  have uses: "uses_ok f" using assms(1) by (simp add: ssa_ok_def)
  show ?case
  proof (cases "vOp (fval f v) = OpPhi")
    case True
    then have phi: "v \<in> phi_ids f (Values (fblk f b))" using b by (simp add: phi_ids_def)
    then have len: "length (vArgs (fval f v)) = length (Preds (fblk f b))" using uses b(1) by (simp add: uses_ok_def)
    obtain k where k: "k < length (vArgs (fval f v))" "vArgs (fval f v) ! k = Some a"
      using arg.hyps(2) by (auto simp: in_set_conv_nth)
    then have "dom_def f a (eBlock (Preds (fblk f b) ! k))" using uses b(1) phi len by (simp add: uses_ok_def)
    then show ?thesis using arg.hyps(3) by (auto simp: dom_def_def listed_def)
  next
    case False
    then have "runs (fval f v)" using arg.IH by (simp add: runs_def)
    then have "avail f b pre a" using uses b(1) split arg.hyps(2) unfolding uses_ok_def by metis
    then have "a \<in> set (Values (fblk f b)) \<or> listed f a" using split by (auto simp: avail_def listed_def phi_ids_def)
    then show ?thesis using arg.hyps(3) b(1) by (auto simp: listed_def)
  qed
qed


lemma dce_live_exact:
  assumes "ssa_ok f"
  shows "dce_loop f (foldl (dce_roots_block f) \<lparr>dce_live = {}, dce_work = []\<rparr> (Blocks f)) = Some {v. needed f v}"
proof -
  define s where "s = foldl (dce_roots_block f) \<lparr>dce_live = {}, dce_work = []\<rparr> (Blocks f)"
  have "holds_roots f {} \<lparr>dce_live = {}, dce_work = []\<rparr>" by (simp add: holds_roots_def dce_inv_def all_needed_def followed_def)
  from dce_roots_hold [OF subset_refl this] have s: "dce_inv f s" "{v. is_root f v} \<subseteq> dce_live s"
    unfolding holds_roots_def s_def [symmetric] by (auto simp: is_root_def)
  have fin: "finite {v. listed f v}"
    by (rule finite_subset [of _ "\<Union>b \<in> set (Blocks f). set (Values (fblk f b))"]) (auto simp: listed_def)
  obtain live where live: "dce_loop f s = Some live" "dce_live s \<subseteq> live" "all_needed f live" "followed f live live"
    using dce_loop_total [OF s(1) fin] needed_listed [OF assms] by blast
  have "v \<in> live" if "needed f v" for v
    using that by (induction rule: needed.induct) (use s(2) live(2,4) in \<open>auto simp: followed_def\<close>)
  then have "live = {v. needed f v}" using live(3) by (auto simp: all_needed_def)
  then show ?thesis using live(1) by (simp add: s_def)
qed

lemma DCE_eq:
  assumes "ssa_ok f"
  shows "DCE f = Some (f\<lparr>fval := (\<lambda>i. if listed f i then dce_bury {v. needed f v} i (fval f i) else fval f i)\<rparr>,
     \<exists>v. listed f v \<and> vOp (fval f v) \<noteq> OpInvalid \<and> \<not> needed f v)"
  using dce_live_exact [OF assms] each_value_eq [OF ssa_ok_lists [OF assms]]
  by (auto simp: DCE_def listed_def)

section \<open>Soundness\<close>

text \<open>A value without a side effect leaves the state of the guest alone (it may still trap).\<close>

definition dce_quiet :: "'s sem \<Rightarrow> Func \<Rightarrow> bool" where
  "dce_quiet sem f \<longleftrightarrow>
     (\<forall>v as st w st'. listed f v \<longrightarrow> \<not> HasSideEffect (fval f v) \<longrightarrow>
        eval_value sem (fval f v) as st \<noteq> Timeout \<and> (eval_value sem (fval f v) as st = Done (w, st') \<longrightarrow> st' = st))"

definition live_sim :: "Func \<Rightarrow> env \<Rightarrow> env \<Rightarrow> bool" where
  "live_sim f env env' \<longleftrightarrow> (\<forall>v. needed f v \<longrightarrow> env' v = env v)"

definition buried :: "Func \<Rightarrow> Func" where
  "buried f = f\<lparr>fval := (\<lambda>i. if listed f i then dce_bury {v. needed f v} i (fval f i) else fval f i)\<rparr>"

lemma buried_simps [simp]: "fblk (buried f) = fblk f" "Sig (buried f) = Sig f" "Entry (buried f) = Entry f"
  by (simp_all add: buried_def)

lemma fval_buried:
  "needed f v \<Longrightarrow> fval (buried f) v = fval f v"
  "listed f v \<Longrightarrow> \<not> needed f v \<Longrightarrow> vOp (fval (buried f) v) = OpInvalid"
  by (auto simp: buried_def dce_bury_def)

lemma live_args:
  assumes "ssa_ok f" and "needed f v" and "live_sim f env env'" and "arg_vals env (vArgs (fval f v)) = Some as"
    and "\<And>a. env a \<noteq> None \<Longrightarrow> vOp (fval f a) \<noteq> OpInvalid"
  shows "arg_vals env' (vArgs (fval f v)) = Some as"
proof -
  have "arg_val env' a = arg_val env a" if "a \<in> set (vArgs (fval f v))" for a
  proof (cases a)
    case (Some x)
    have "arg_val env a \<noteq> None" using assms(4) that unfolding arg_vals_nth by (metis imageE image_eqI list.set_map option.distinct(1))
    then have "vOp (fval f x) \<noteq> OpInvalid" using assms(5) Some by (simp add: arg_val_def)
    then have "needed f x" using needed.arg [OF assms(2)] that Some by simp
    then show ?thesis using assms(3) Some by (simp add: arg_val_def live_sim_def)
  qed (simp add: arg_val_def)
  then have "arg_vals env' (vArgs (fval f v)) = arg_vals env (vArgs (fval f v))"
    unfolding arg_vals_def by (rule those_map_cong)
  then show ?thesis using assms(4) by simp
qed

text \<open>Only values that exist are ever computed.\<close>

definition live_rel :: "Func \<Rightarrow> env \<Rightarrow> env \<Rightarrow> bool" where
  "live_rel f env env' \<longleftrightarrow> live_sim f env env' \<and> (\<forall>a. env a \<noteq> None \<longrightarrow> vOp (fval f a) \<noteq> OpInvalid)"

lemma dce_exec_value:
  assumes ok: "ssa_ok f" and quiet: "dce_quiet sem f" and l: "listed f v" and rel: "live_rel f (fst s) (fst s')" and st: "snd s' = snd s"
  shows "out_sim False (\<lambda>s s'. live_rel f (fst s) (fst s') \<and> snd s' = snd s)
    (exec_value sem f v s) (exec_value sem (buried f) v s')"
proof (cases "runs (fval f v)")
  case False
  then have "\<not> runs (fval (buried f) v)" using l fval_buried [of f v] by (cases "needed f v") (auto simp: runs_def)
  then show ?thesis using False rel st by (simp add: exec_value_def)
next
  case run: True
  show ?thesis
  proof (cases "arg_vals (fst s) (vArgs (fval f v))")
    case (Some as)
    have inv: "vOp (fval f v) \<noteq> OpInvalid" using run by (simp add: runs_def)
    show ?thesis
    proof (cases "needed f v")
      case True
      have args: "arg_vals (fst s') (vArgs (fval f v)) = Some as"
        using live_args [OF ok True _ Some] rel by (auto simp: live_rel_def)
      have "live_rel f ((fst s)(v \<mapsto> w)) ((fst s')(v \<mapsto> w))" for w
        using rel inv by (auto simp: live_rel_def live_sim_def)
      then show ?thesis
        using run Some args st fval_buried(1) [OF True]
        by (auto simp: exec_value_def eval_value_def intro!: out_sim_bind [OF out_sim_same])
    next
      case False
      have dead: "exec_value sem (buried f) v s' = Done s'"
        using fval_buried(2) [OF l False] by (simp add: exec_value_def runs_def)
      have "\<not> HasSideEffect (fval f v)"
        using False l inv needed.root [of f v] by (auto simp: is_root_def listed_def)
      then have "eval_value sem (fval f v) as (snd s) \<noteq> Timeout \<and>
          (eval_value sem (fval f v) as (snd s) = Done (w, st') \<longrightarrow> st' = snd s)" for w st'
        using quiet l unfolding dce_quiet_def by blast
      moreover have "live_rel f ((fst s)(v \<mapsto> w)) (fst s')" for w
        using rel inv False by (auto simp: live_rel_def live_sim_def)
      ultimately show ?thesis
        unfolding dead using run Some st
        by (cases "eval_value sem (fval f v) as (snd s)") (auto simp: exec_value_def)
    qed
  qed (use run in \<open>simp add: exec_value_def\<close>)
qed

lemma dce_exec_vals:
  assumes ok: "ssa_ok f" and quiet: "dce_quiet sem f" and "\<And>v. v \<in> set ids \<Longrightarrow> listed f v"
    and "live_rel f (fst s) (fst s')" and "snd s' = snd s"
  shows "out_sim False (\<lambda>s s'. live_rel f (fst s) (fst s') \<and> snd s' = snd s)
    (exec_vals sem f ids s) (exec_vals sem (buried f) ids s')"
  using assms(3-)
proof (induction ids arbitrary: s s')
  case (Cons v ids)
  show ?case unfolding exec_vals.simps
    by (rule out_sim_bind [OF dce_exec_value [OF ok quiet]]) (use Cons in auto)
qed simp

lemma dce_enter:
  assumes ok: "ssa_ok f" and b: "b \<in> set (Blocks f)" and rel: "live_rel f env env'"
    and en: "enter f (Values (fblk f b)) k env = Some env1"
  shows "\<exists>env1'. enter (buried f) (Values (fblk f b)) k env' = Some env1' \<and> live_rel f env1 env1'"
proof -
  let ?vs = "Values (fblk f b)"
  have listed: "listed f i" if "i \<in> set ?vs" for i using that b by (auto simp: listed_def)
  have phi: "i \<in> phi_ids (buried f) ?vs \<longleftrightarrow> i \<in> phi_ids f ?vs \<and> needed f i" for i
    using listed [of i] fval_buried [of f i] by (cases "needed f i") (auto simp: phi_ids_def)
  have defd: "phi_val f k env i \<noteq> None" if "i \<in> phi_ids f ?vs" for i
    using en that by (auto simp: enter_def phi_ids_def split: if_splits)
  have same: "phi_val (buried f) k env' i = phi_val f k env i" if i: "i \<in> phi_ids f ?vs" "needed f i" for i
  proof -
    obtain a where a: "k < length (vArgs (fval f i))" "vArgs (fval f i) ! k = Some a" "env a \<noteq> None"
      using defd [OF i(1)] by (auto simp: phi_val_def arg_val_def split: if_splits option.splits)
    then have "vOp (fval f a) \<noteq> OpInvalid" using rel by (simp add: live_rel_def)
    moreover have "Some a \<in> set (vArgs (fval f i))" using a(1,2) by (metis nth_mem)
    ultimately have "needed f a" using needed.arg [OF i(2)] by simp
    then show ?thesis using a rel fval_buried(1) [OF i(2)] by (simp add: phi_val_def arg_val_def live_rel_def live_sim_def)
  qed
  let ?env1' = "\<lambda>i. if i \<in> phi_ids (buried f) ?vs then phi_val (buried f) k env' i else env' i"
  have "phi_val (buried f) k env' i \<noteq> None" if "i \<in> set ?vs" "vOp (fval (buried f) i) = OpPhi" for i
  proof -
    have "i \<in> phi_ids f ?vs" "needed f i" using that phi [of i] by (auto simp: phi_ids_def)
    then show ?thesis using same defd by simp
  qed
  then have "enter (buried f) ?vs k env' = Some ?env1'" by (auto simp: enter_def)
  moreover have "env1 = (\<lambda>i. if i \<in> phi_ids f ?vs then phi_val f k env i else env i)"
    using en by (auto simp: enter_def split: if_splits)
  then have "live_rel f env1 ?env1'"
    using rel phi same by (auto simp: live_rel_def live_sim_def phi_ids_def)
  ultimately show ?thesis by blast
qed

lemma dce_terminate:
  assumes ok: "ssa_ok f" and b: "b \<in> set (Blocks f)" and rel: "live_rel f env env'"
  shows "out_sim False (jump_sim (\<lambda>st b k env b' k' env'. b' = b \<and> k' = k \<and> b \<in> set (Blocks f) \<and> live_rel f env env'))
    (terminate (Sig f) (fblk f b) env st) (terminate (Sig f) (fblk f b) env' st)"
    (is "out_sim _ ?R _ _")
proof -
  have cfg: "cfg_ok f" using ok by (simp add: ssa_ok_def)
  have edge: "out_sim False ?R (take_edge (fblk f b) j env st) (take_edge (fblk f b) j env' st)" for j
    using cfg_ok_succ(1) [OF cfg b] rel by (simp add: take_edge_def)
  have control: "arg_val env' (Control (fblk f b)) = arg_val env (Control (fblk f b))" if "arg_val env (Control (fblk f b)) \<noteq> None"
  proof (cases "Control (fblk f b)")
    case (Some c)
    then have "is_root f c" using that rel b by (auto simp: is_root_def arg_val_def live_rel_def)
    then show ?thesis using Some rel needed.root by (simp add: arg_val_def live_rel_def live_sim_def)
  qed (simp add: arg_val_def)
  have marks: "those (map env' (markers f b)) = Some ws" if "those (map env (markers f b)) = Some ws" for ws
  proof -
    have "env' v = env v" if "v \<in> set (markers f b)" for v
    proof -
      have "env v \<noteq> None" using \<open>those (map env (markers f b)) = Some ws\<close> \<open>v \<in> set (markers f b)\<close>
        unfolding those_eq_Some by (metis imageE image_eqI list.set_map option.distinct(1))
      then have "is_root f v" using rel b that by (auto simp: is_root_def live_rel_def)
      then show ?thesis using rel needed.root by (simp add: live_rel_def live_sim_def)
    qed
    then have "those (map env' (markers f b)) = those (map env (markers f b))" by (rule those_map_cong)
    then show ?thesis using that by simp
  qed
  show ?thesis
    using edge [of 0] edge [of 1] edge control marks
    by (cases "bKind (fblk f b)"; cases "arg_val env (Control (fblk f b))")
      (auto simp: terminate_def markers_def marker_vals_def split: option.splits wval.splits)
qed

lemma buried_sound:
  assumes ok: "ssa_ok f" and quiet: "dce_quiet sem f"
  shows "sim_result False (run_func n sem f st) (run_func n sem (buried f) st)"
proof -
  define R :: "'a cfg_rel" where "R = (\<lambda>st b k env b' k' env'. b' = (b :: nat) \<and> k' = (k :: nat) \<and> b \<in> set (Blocks f) \<and> live_rel f env env')"
  obtain e where e: "Entry f = Some e" "e \<in> set (Blocks f)" using ok by (auto simp: ssa_ok_def cfg_ok_def)
  have "sim_result False (run n sem f e 0 Map.empty st) (run n sem (buried f) e 0 Map.empty st)"
  proof (rule run_sim [where R = R])
    fix b k env b' k' env' st assume R: "R st b k env b' k' env'"
    then have b: "b \<in> set (Blocks f)" by (simp add: R_def)
    show "out_sim False (jump_sim R) (step_block sem f b k env st) (step_block sem (buried f) b' k' env' st)"
    proof (cases "enter f (Values (fblk f b)) k env")
      case (Some env1)
      then obtain env1' where en: "enter (buried f) (Values (fblk f b)) k env' = Some env1'" "live_rel f env1 env1'"
        using dce_enter [OF ok b _ Some] R unfolding R_def by blast
      have "out_sim False (\<lambda>s s'. live_rel f (fst s) (fst s') \<and> snd s' = snd s)
          (exec_vals sem f (Values (fblk f b)) (env1, st)) (exec_vals sem (buried f) (Values (fblk f b)) (env1', st))"
        by (rule dce_exec_vals [OF ok quiet]) (use b en in \<open>auto simp: listed_def\<close>)
      then show ?thesis
        using R Some en(1) dce_terminate [OF ok b]
        by (auto simp: R_def step_block_def intro!: out_sim_bind)
    qed (simp add: step_block_def)
  qed (use e in \<open>simp add: R_def live_rel_def live_sim_def\<close>)
  then show ?thesis using e by (simp add: run_func_def)
qed


text \<open>
  C16: Dead-code elimination always ends; it buries exactly the values that no chain of operands
  connects to a side effect, a branch condition or a returned or thrown operand, and leaves every
  other value as it was.
\<close>

theorem DCE_exact:
  assumes "ssa_ok f"
  shows "\<exists>g. DCE f = Some (g, \<exists>v. listed f v \<and> vOp (fval f v) \<noteq> OpInvalid \<and> \<not> needed f v) \<and>
    fblk g = fblk f \<and> Blocks g = Blocks f \<and>
    (\<forall>v. if needed f v \<or> \<not> listed f v then fval g v = fval f v else vOp (fval g v) = OpInvalid)"
  using DCE_eq [OF assms] fval_buried(1) [of f] fval_buried(2) [of f] by (auto simp: buried_def)

text \<open>
  What may write, in the state of a module with a memory. The stores and the bulk operations are
  those of \<open>mem_sem\<close>, which says what they write; of the operations it leaves open, these are the ones that
  may change the state: globals, mutable locals, calls, atomics, vector memory, the exception
  state, and the helpers that are given the module. A helper is given numbers only if its name starts with a
  number type.
\<close>

definition number_helper :: "Aux \<Rightarrow> bool" where
  "number_helper aux \<longleftrightarrow> (\<exists>h. aux = AuxString h \<and> take 4 h \<in> {''i32_'', ''i64_'', ''f32_'', ''f64_''})"

definition may_write :: "Op \<Rightarrow> Aux \<Rightarrow> bool" where
  "may_write op aux \<longleftrightarrow>
     op \<in> {OpGlobalSet, OpLocalSet, OpCallDirect, OpCallIndirect, OpCallImport, OpAtomicCall, OpSimdMemCall,
       OpExcRaise, OpExcRearm, OpExcClear} \<or> op = OpHelperCall \<and> \<not> number_helper aux"

definition ext_frame :: "'s sem \<Rightarrow> bool" where
  "ext_frame ext \<longleftrightarrow> (\<forall>op typ c aux as st. \<not> may_write op aux \<longrightarrow>
     ext op typ c aux as st \<noteq> Timeout \<and> (\<forall>w st'. ext op typ c aux as st = Done (w, st') \<longrightarrow> st' = st))"

lemma pure_helpers_number: "h \<in> pureHelperNames \<Longrightarrow> number_helper (AuxString h)"
  by (auto simp: pureHelperNames_def number_helper_def)

lemma effect_free: "\<not> HasSideEffect v \<Longrightarrow> \<not> may_write (vOp v) (vAux v)"
  using pure_helpers_number by (auto simp: HasSideEffect_def Op_HasSideEffect_def may_write_def split: Aux.splits if_splits)

lemma mem_frame_quiet:
  assumes "\<not> Op_HasSideEffect op \<or> op = OpHelperCall" and "ext_frame ext" and "\<not> may_write op aux"
  shows "mem_sem ext op typ c aux as st \<noteq> Timeout \<and> (mem_sem ext op typ c aux as st = Done (w, st') \<longrightarrow> st' = st)"
proof -
  have "op \<notin> store_ops" "op \<in> bulk_ops \<Longrightarrow> op = OpMemSize"
    using assms(1) by (auto simp: store_ops_def bulk_ops_def Op_HasSideEffect_def)
  moreover have "ext op typ c aux as st \<noteq> Timeout" "ext op typ c aux as st = Done (w, st') \<Longrightarrow> st' = st"
    using assms(2,3) unfolding ext_frame_def by blast+
  moreover have "load_sem op typ c as st \<noteq> Timeout" "load_sem op typ c as st = Done (w, st') \<Longrightarrow> st' = st"
    using load_sem_typed [of op _ c _ st w st']
    by (auto simp: load_sem_def trap_out_def split: list.splits wval.splits option.splits sum.splits)
  moreover have "bulk_sem OpMemSize c as st \<noteq> Timeout \<and> (bulk_sem OpMemSize c as st = Done (w, st') \<longrightarrow> st' = st)"
    by (auto simp: bulk_sem_def Let_def split: list.splits wval.splits)
  moreover have "std_sem ext op typ c aux as st \<noteq> Timeout" "std_sem ext op typ c aux as st = Done (w, st') \<Longrightarrow> st' = st"
    using calculation(3,4) by (auto simp: std_sem_def split: option.splits list.splits if_splits)
  ultimately show ?thesis unfolding mem_sem_def by presburger
qed

lemma mem_dce_quiet: "ext_frame ext \<Longrightarrow> dce_quiet (mem_sem ext) f"
  unfolding dce_quiet_def eval_value_def
proof (intro allI impI)
  fix v as st w st' assume e: "ext_frame ext" and h: "\<not> HasSideEffect (fval f v)"
  have "\<not> Op_HasSideEffect (vOp (fval f v)) \<or> vOp (fval f v) = OpHelperCall" using h by (auto simp: HasSideEffect_def split: if_splits)
  then show "mem_sem ext (vOp (fval f v)) (vTyp (fval f v)) (vAuxInt (fval f v)) (vAux (fval f v)) as st \<noteq> Timeout \<and>
      (mem_sem ext (vOp (fval f v)) (vTyp (fval f v)) (vAuxInt (fval f v)) (vAux (fval f v)) as st = Done (w, st') \<longrightarrow> st' = st)"
    by (rule mem_frame_quiet [OF _ e effect_free [OF h]])
qed

text \<open>
  C17: A run over the runtime's memory that neither traps nor is stuck has the same final state and
  results after dead-code elimination. The stores and bulk operations write what their helpers
  write; of the operations whose meaning is left open, only globals, mutable locals, calls,
  atomics, vector memory operations, the exception operations and the helpers that are not on numbers may change
  the state.
\<close>

theorem DCE_sound:
  assumes "ssa_ok f" and "ext_frame ext"
  shows "\<exists>g c. DCE f = Some (g, c) \<and>
    (\<forall>r. run_func n (mem_sem ext) f st = Done r \<longrightarrow> run_func n (mem_sem ext) g st = Done r)"
  using buried_sound [OF assms(1) mem_dce_quiet [OF assms(2)], of n st] DCE_eq [OF assms(1)]
  by (auto simp: sim_result_iff buried_def)

definition dead_func :: Func where
  "dead_func = straight [TypeI32]
     [value_of OpConst32 TypeI32 5 [], value_of OpLoad32 TypeI32 0 [1], value_of OpCopy TypeI32 0 [1]]"

lemma dead_func_ok: "ssa_ok dead_func"
  unfolding dead_func_def by (rule straight_ssa_ok) (simp add: straight_ok_def value_of_def upt_rec)

lemma dead_func_listed: "listed dead_func v \<longleftrightarrow> v \<in> {1, 2, 3}"
  by (auto simp: listed_def dead_func_def)

lemma dead_func_needed: "needed dead_func v \<longleftrightarrow> v \<in> {1, 3}"
proof
  assume "needed dead_func v"
  then show "v \<in> {1, 3}"
    by (induction rule: needed.induct)
      (auto simp: is_root_def dead_func_def fval_straight value_of_def markers_def HasSideEffect_def Op_HasSideEffect_def
        upt_rec split: if_splits)
next
  have 3: "needed dead_func 3"
    by (rule needed.root) (simp add: is_root_def dead_func_def fval_straight value_of_def markers_def upt_rec)
  have "needed dead_func 1"
    by (rule needed.arg [OF 3]) (simp_all add: dead_func_def fval_straight value_of_def)
  then show "v \<in> {1, 3} \<Longrightarrow> needed dead_func v" using 3 by auto
qed

definition load_ext :: "u32 sem" where
  "load_ext op t c aux as st =
     (if op = OpLoad32 then (if st = 0 then Trap st else Done (W32 st, st)) else Stuck)"

theorem DCE_exact_witness:
  "\<exists>g. DCE dead_func = Some (g, True) \<and> fval g 1 = fval dead_func 1 \<and> vOp (fval g 2) = OpInvalid"
proof -
  obtain g where g: "DCE dead_func = Some (g, \<exists>v. listed dead_func v \<and> vOp (fval dead_func v) \<noteq> OpInvalid \<and> \<not> needed dead_func v)"
    "\<And>v. if needed dead_func v \<or> \<not> listed dead_func v then fval g v = fval dead_func v else vOp (fval g v) = OpInvalid"
    using DCE_exact [OF dead_func_ok] by blast
  have "\<exists>v. listed dead_func v \<and> vOp (fval dead_func v) \<noteq> OpInvalid \<and> \<not> needed dead_func v"
    by (rule exI [of _ 2]) (simp add: dead_func_listed dead_func_needed, simp add: dead_func_def fval_straight value_of_def)
  then show ?thesis using g(1) g(2) [of 1] g(2) [of 2] by (auto simp: dead_func_listed dead_func_needed)
qed

text \<open>A store, a load nobody reads, and the load of the stored word.\<close>

definition store_func :: Func where
  "store_func = straight [TypeI32]
     [value_of OpConst32 TypeI32 8 [], value_of OpConst32 TypeI32 5 [], value_of OpStore32 TypeInvalid 0 [1, 2],
      value_of OpLoad32 TypeI32 4 [1], value_of OpLoad32 TypeI32 0 [1], value_of OpCopy TypeI32 0 [5]]"

lemma store_func_ok: "ssa_ok store_func"
  unfolding store_func_def by (rule straight_ssa_ok) (simp add: straight_ok_def value_of_def upt_rec)

lemma store_func_run:
  "run_func 1 (mem_sem no_ext) store_func (sample_mem, ()) =
     Done (Return [W32 5] (write_at sample_mem 8 (le_bytes 4 (5 :: i32)), ()))"
proof -
  have "mstore32 sample_mem 8 0 5 = Inr (write_at sample_mem 8 (le_bytes 4 (5 :: i32)))"
    by (simp add: mstore32_def mstore_bytes_def mea_eq Let_def) (simp add: sample_mem_def)
  moreover have "mload32 (write_at sample_mem 8 (le_bytes 4 (5 :: i32))) 8 0 = Inr 5"
    by (rule access32.load_after_store [OF calculation]) (simp add: sample_mem_def)
  moreover have "\<exists>v. mload32 (write_at sample_mem 8 (le_bytes 4 (5 :: i32))) 8 4 = Inr v"
    by (simp add: access32.load_traps mea_eq write_at_def) (simp add: sample_mem_def)
  ultimately show ?thesis by (auto simp: store_func_def run_mem_simps load_helpers_def map_trap_def)
qed

theorem DCE_sound_witness:
  "\<exists>g c. DCE store_func = Some (g, c) \<and> run_func 1 (mem_sem no_ext) g (sample_mem, ()) =
     Done (Return [W32 5] (write_at sample_mem 8 (le_bytes 4 (5 :: i32)), ()))"
proof -
  have "ext_frame no_ext" by (simp add: ext_frame_def no_ext_def)
  from DCE_sound [OF store_func_ok this, of 1 "(sample_mem, ())"] show ?thesis using store_func_run by blast
qed

lemma buried_dead_func:
  "buried dead_func = dead_func\<lparr>fval := (fval dead_func)(2 := (fval dead_func 2)\<lparr>vOp := OpInvalid, vArgs := []\<rparr>)\<rparr>"
proof -
  have "vOp (fval dead_func 2) \<noteq> OpInvalid" by (simp add: dead_func_def fval_straight value_of_def)
  then show ?thesis
    unfolding buried_def
    by (intro arg_cong [where f = "\<lambda>h. dead_func\<lparr>fval := h\<rparr>"] ext)
      (auto simp: dead_func_listed dead_func_needed dce_bury_def)
qed

text \<open>
  C19: Loads do not count as side effects although they can trap: a load whose value is unused is
  buried, and the function that trapped returns normally.
\<close>

theorem DCE_drops_load_trap:
  "\<not> HasSideEffect (fval dead_func 2) \<and> vOp (fval dead_func 2) = OpLoad32 \<and>
   run_func 1 (std_sem load_ext) dead_func 0 = Trap 0 \<and>
   (\<exists>g. DCE dead_func = Some (g, True) \<and> run_func 1 (std_sem load_ext) g 0 = Done (Return [W32 5] 0))"
proof (intro conjI exI [of _ "buried dead_func"])
  show "\<not> HasSideEffect (fval dead_func 2)" "vOp (fval dead_func 2) = OpLoad32"
    by (simp_all add: dead_func_def fval_straight value_of_def HasSideEffect_def Op_HasSideEffect_def)
  show "run_func 1 (std_sem load_ext) dead_func 0 = Trap 0"
    by (simp add: dead_func_def run_straight_simps load_ext_def)
  have "\<exists>v. listed dead_func v \<and> vOp (fval dead_func v) \<noteq> OpInvalid \<and> \<not> needed dead_func v"
    by (rule exI [of _ 2]) (simp add: dead_func_listed dead_func_needed, simp add: dead_func_def fval_straight value_of_def)
  then show "DCE dead_func = Some (buried dead_func, True)" by (simp add: DCE_eq [OF dead_func_ok] buried_def)
  show "run_func 1 (std_sem load_ext) (buried dead_func) 0 = Done (Return [W32 5] 0)"
    unfolding buried_dead_func by (simp add: dead_func_def run_straight_simps)
qed

end
