(* ===== verification/SsaOrder.thy ===== *)
theory SsaOrder
  imports SsaSubst
begin

text \<open>
  The order in which values are defined. What is available when a value is computed is available
  when anything that may use it is computed, so chains of replacements always go back in this
  order and end.
\<close>

definition all_reachable :: "Func \<Rightarrow> bool" where
  "all_reachable f \<longleftrightarrow> (\<forall>b \<in> set (Blocks f). reachable f b)"

definition above :: "Func \<Rightarrow> nat \<Rightarrow> nat \<Rightarrow> bool" where
  "above f b a \<longleftrightarrow> (\<exists>d \<in> set (Blocks f). d \<noteq> b \<and> dom_by f d b \<and> a \<in> set (Values (fblk f d)))"

definition before :: "Func \<Rightarrow> nat \<Rightarrow> nat \<Rightarrow> bool" where
  "before f v a \<longleftrightarrow> (\<exists>b \<in> set (Blocks f). \<exists>pre post. Values (fblk f b) = pre @ v # post \<and>
     (if vOp (fval f v) = OpPhi then above f b a else avail f b pre a))"

definition rank :: "Func \<Rightarrow> nat \<Rightarrow> nat" where
  "rank f v = card {a. before f v a}"

lemma avail_above: "avail f b pre a \<longleftrightarrow> a \<in> set pre \<or> a \<in> phi_ids f (Values (fblk f b)) \<or> above f b a"
  by (auto simp: avail_def above_def)

lemma split_unique:
  assumes "distinct (p @ v # q)" and "p @ v # q = p' @ v # q'"
  shows "p' = p" and "q' = q"
proof -
  have "v \<notin> set p" "v \<notin> set q" using assms(1) by auto
  then show "p' = p" "q' = q" using assms(2) append_Cons_eq_iff [of v p q p' q'] by auto
qed

lemma beforeD:
  assumes "ssa_ok f" and "before f v a" and "b \<in> set (Blocks f)" and "Values (fblk f b) = pre @ v # post"
  shows "if vOp (fval f v) = OpPhi then above f b a else avail f b pre a"
proof -
  have v: "vals_ok f" using assms(1) by (simp add: ssa_ok_def)
  obtain c p q where c: "c \<in> set (Blocks f)" "Values (fblk f c) = p @ v # q"
      "if vOp (fval f v) = OpPhi then above f c a else avail f c p a"
    using assms(2) by (auto simp: before_def)
  then have "c = b" using vals_ok_unique [OF v c(1) assms(3), of v] assms(4) by simp
  have "distinct (Values (fblk f c))" using v c(1) by (simp add: vals_ok_def)
  then have "distinct (p @ v # q)" using c(2) by simp
  moreover have "p @ v # q = pre @ v # post" using c(2) assms(4) \<open>c = b\<close> by simp
  ultimately have "pre = p" by (rule split_unique)
  then show ?thesis using c(3) unfolding \<open>c = b\<close> by simp
qed

lemma beforeI:
  assumes "b \<in> set (Blocks f)" and "Values (fblk f b) = pre @ v # post"
    and "if vOp (fval f v) = OpPhi then above f b a else avail f b pre a"
  shows "before f v a"
  using assms unfolding before_def by blast

lemma above_trans:
  assumes "all_reachable f" and "b \<in> set (Blocks f)" and "dom_by f d b" and "d \<noteq> b" and "above f d a"
  shows "above f b a"
proof -
  obtain e where e: "e \<in> set (Blocks f)" "e \<noteq> d" "dom_by f e d" "a \<in> set (Values (fblk f e))"
    using assms(5) by (auto simp: above_def)
  have "dom_by f e b" by (rule dom_by_trans [OF e(3) assms(3)])
  moreover have "e \<noteq> b"
  proof
    assume "e = b"
    then have "d = b" using dom_by_antisym [of f d b] e assms by (auto simp: all_reachable_def)
    then show False using assms(4) by simp
  qed
  ultimately show ?thesis using e by (auto simp: above_def)
qed

lemma above_of_block:
  assumes "all_reachable f" and "b \<in> set (Blocks f)" and "d \<in> set (Blocks f)" and "dom_by f d b" and "d \<noteq> b"
    and "a \<in> set (Values (fblk f d)) \<or> above f d a"
  shows "above f b a"
  using assms above_trans [OF assms(1,2,4,5)] by (auto simp: above_def)

lemma before_irrefl:
  assumes "ssa_ok f"
  shows "\<not> before f v v"
proof
  assume "before f v v"
  then obtain b p q where b: "b \<in> set (Blocks f)" "Values (fblk f b) = p @ v # q"
      "if vOp (fval f v) = OpPhi then above f b v else avail f b p v"
    by (auto simp: before_def)
  have v: "vals_ok f" using assms by (simp add: ssa_ok_def)
  have "\<not> above f b v" using vals_ok_unique [OF v _ b(1), of _ v] b(2) by (auto simp: above_def)
  moreover have "v \<notin> set p" using v b(1,2) by (auto simp: vals_ok_def)
  ultimately show False using b(3) by (auto simp: avail_above phi_ids_def split: if_splits)
qed

lemma before_trans:
  assumes ok: "ssa_ok f" and r: "all_reachable f" and vx: "before f v x" and xy: "before f x y"
  shows "before f v y"
proof -
  obtain b p q where b: "b \<in> set (Blocks f)" "Values (fblk f b) = p @ v # q"
      "if vOp (fval f v) = OpPhi then above f b x else avail f b p x"
    using vx by (auto simp: before_def)
  have "above f b y" if ab: "above f b x"
  proof -
    obtain d where d: "d \<in> set (Blocks f)" "d \<noteq> b" "dom_by f d b" "x \<in> set (Values (fblk f d))"
      using ab by (auto simp: above_def)
    obtain p' q' where s: "Values (fblk f d) = p' @ x # q'" using d(4) by (meson split_list)
    have "y \<in> set (Values (fblk f d)) \<or> above f d y"
      using beforeD [OF ok xy d(1) s] s by (auto simp: avail_above phi_ids_def split: if_splits)
    then show ?thesis by (rule above_of_block [OF r b(1) d(1,3,2)])
  qed
  moreover have "avail f b p y" if px: "x \<in> set p" and phi: "vOp (fval f v) \<noteq> OpPhi"
  proof -
    obtain p' q' where s: "p = p' @ x # q'" using px by (meson split_list)
    have "if vOp (fval f x) = OpPhi then above f b y else avail f b p' y"
      by (rule beforeD [OF ok xy b(1), of p' "q' @ v # q"]) (simp add: b s)
    then show ?thesis using s by (auto simp: avail_above split: if_splits)
  qed
  moreover have "avail f b p y" if px: "x \<in> phi_ids f (Values (fblk f b))"
  proof -
    have "x \<in> set (Values (fblk f b))" "vOp (fval f x) = OpPhi" using px by (auto simp: phi_ids_def)
    then obtain p' q' where s: "Values (fblk f b) = p' @ x # q'" by (meson split_list)
    have "above f b y" using beforeD [OF ok xy b(1) s] \<open>vOp (fval f x) = OpPhi\<close> by simp
    then show ?thesis by (simp add: avail_above)
  qed
  ultimately show ?thesis using b by (intro beforeI [OF b(1,2)]) (auto simp: avail_above split: if_splits)
qed

lemma before_listed: "before f v a \<Longrightarrow> listed f a"
  unfolding before_def avail_above above_def listed_def phi_ids_def
  by (metis (no_types, lifting) Un_iff mem_Collect_eq set_append)

lemma finite_before: "finite {a. before f v a}"
proof (rule finite_subset)
  show "{a. before f v a} \<subseteq> (\<Union>b \<in> set (Blocks f). set (Values (fblk f b)))"
    using before_listed [of f v] by (auto simp: listed_def)
qed simp

lemma rank_less:
  assumes "ssa_ok f" and "all_reachable f" and "before f v x"
  shows "rank f x < rank f v"
  unfolding rank_def
proof (rule psubset_card_mono [OF finite_before])
  have "{a. before f x a} \<subseteq> {a. before f v a}" using before_trans [OF assms] by auto
  moreover have "x \<in> {a. before f v a}" "x \<notin> {a. before f x a}" using assms(3) before_irrefl [OF assms(1)] by auto
  ultimately show "{a. before f x a} \<subset> {a. before f v a}" by blast
qed

section \<open>Phis with one source\<close>

lemma first_arrival:
  assumes "avoids f A c"
  shows "avoids f (insert b A) c \<or> Entry f = Some b \<or> (\<exists>p. avoids f (insert b A) p \<and> edge f p b)"
  using assms
proof (induction rule: avoids.induct)
  case (entry c)
  then show ?case by (cases "c = b") (auto intro: avoids.entry)
next
  case (step c d)
  then show ?case by (cases "d = b") (auto intro: avoids.step)
qed

lemma edge_pred:
  assumes "cfg_ok f" and "edge f p b"
  obtains k where "k < length (Preds (fblk f b))" and "eBlock (Preds (fblk f b) ! k) = p"
proof -
  obtain i where i: "p \<in> set (Blocks f)" "i < length (Succs (fblk f p))" "eBlock (Succs (fblk f p) ! i) = b"
    using assms(2) by (auto simp: edge_def in_set_conv_nth)
  then show thesis using cfg_ok_succ(2,3) [OF assms(1) i(1,2)] that by force
qed

text \<open>
  If along every edge into a block a phi reads either itself or something whose definition comes
  with \<open>u\<close>, then \<open>u\<close> is defined strictly above the block.
\<close>

lemma phi_source_above:
  assumes ok: "ssa_ok f" and b: "b \<in> set (Blocks f)" and r: "reachable f b" and en: "Entry f \<noteq> Some b"
    and v: "v \<in> set (Values (fblk f b))"
    and src: "\<And>k. k < length (Preds (fblk f b)) \<Longrightarrow>
      dom_def f u (eBlock (Preds (fblk f b) ! k)) \<or> dom_by f b (eBlock (Preds (fblk f b) ! k))"
  shows "above f b u"
proof -
  have cfg: "cfg_ok f" and vals: "vals_ok f" using ok by (auto simp: ssa_ok_def)
  have none: "\<exists>d. dom_def f u p \<and> d \<in> set (Blocks f) \<and> u \<in> set (Values (fblk f d)) \<and> dom_by f d p"
    if p: "avoids f {b} p" "edge f p b" for p
  proof -
    obtain k where k: "k < length (Preds (fblk f b))" "eBlock (Preds (fblk f b) ! k) = p" by (rule edge_pred [OF cfg p(2)])
    then have "dom_def f u p" using src [OF k(1)] p(1) by (auto simp: dom_by_def)
    then show ?thesis by (auto simp: dom_def_def)
  qed
  obtain p where p: "avoids f {b} p" "edge f p b"
    using first_arrival [OF r, of b] en avoids_not_mem [of f "{b}" b] by auto
  obtain d where d: "d \<in> set (Blocks f)" "u \<in> set (Values (fblk f d))" "dom_by f d p"
    using none [OF p] by auto
  have "d \<noteq> b" using d(3) p(1) by (auto simp: dom_by_def)
  moreover have "dom_by f d b"
  proof (rule ccontr)
    assume "\<not> dom_by f d b"
    then have "avoids f {d} b" by (simp add: dom_by_def)
    then obtain q where q: "avoids f {b, d} q" "edge f q b"
      using first_arrival [of f "{d}" b b] en avoids_not_mem [of f "{b, d}" b] by auto
    then have "avoids f {b} q" "avoids f {d} q" using avoids_mono by blast+
    then obtain e where e: "e \<in> set (Blocks f)" "u \<in> set (Values (fblk f e))" "dom_by f e q"
      using none q(2) by blast
    have "e = d" by (rule vals_ok_unique [OF vals e(1) d(1) e(2) d(2)])
    then show False using e(3) \<open>avoids f {d} q\<close> by (simp add: dom_by_def)
  qed
  ultimately show ?thesis using d by (auto simp: above_def)
qed

end
