(* ===== verification/RtSimdMem.thy ===== *)
theory RtSimdMem
  imports RtMemory
begin

text \<open>
  The SIMD memory helpers of \<^verbatim>\<open>internal/codegen/helpers/helpers.go\<close>: checked, coalesced and
  unchecked vector loads and stores in the 32-bit and the memory64 family, with their pair forms.
  They go through the cached base pointer \<^verbatim>\<open>m.M\<close>; reading or writing through it outside its
  array, or after the array has been replaced, is undefined in Go and a failure of its own here.
\<close>

section \<open>Vectors and raw memory\<close>

text \<open>A v128 is the Go array \<^verbatim>\<open>[2]uint64\<close>.\<close>

type_synonym v128 = "u64 \<times> u64"

definition vget :: "v128 \<Rightarrow> nat \<Rightarrow> u64" where
  "vget v i = (if i = 0 then fst v else snd v)"

definition vset :: "v128 \<Rightarrow> nat \<Rightarrow> u64 \<Rightarrow> v128" where
  "vset v i x = (if i = 0 then (x, snd v) else (fst v, x))"

text \<open>The loops that assemble a vector, \<^verbatim>\<open>out[i*w/64] |= f(i) << (w*i % 64)\<close>.\<close>

definition or_lanes :: "nat \<Rightarrow> nat \<Rightarrow> (nat \<Rightarrow> u64) \<Rightarrow> v128" where
  "or_lanes w n f = foldl (\<lambda>v i. vset v (i * w div 64) (vget v (i * w div 64) OR push_bit (w * i mod 64) (f i))) (0, 0) [0..<n]"

definition bind_trap :: "'a trap \<Rightarrow> ('a \<Rightarrow> 'b trap) \<Rightarrow> 'b trap" where
  "bind_trap t g = (case t of Inl e \<Rightarrow> Inl e | Inr x \<Rightarrow> g x)"

lemma bind_trap_simps [simp]: "bind_trap (Inl e) g = Inl e" "bind_trap (Inr x) g = g x"
  by (simp_all add: bind_trap_def)

lemma bind_trap_eq_Inr [simp]: "bind_trap t g = Inr y \<longleftrightarrow> (\<exists>x. t = Inr x \<and> g x = Inr y)"
  by (cases t) auto

definition raw_fault :: "'a trap" where
  "raw_fault = Inl ''unsafe pointer outside its array''"

definition raw_read :: "nat \<Rightarrow> RtModule \<Rightarrow> u64 \<Rightarrow> byte list trap" where
  "raw_read n m ea =
     (if mptr m = arr m \<and> unat ea + n \<le> length (backing m) then Inr (take n (drop (unat ea) (backing m))) else raw_fault)"

definition raw_write :: "RtModule \<Rightarrow> u64 \<Rightarrow> byte list \<Rightarrow> RtModule trap" where
  "raw_write m ea bs =
     (if mptr m = arr m \<and> unat ea + length bs \<le> length (backing m) then Inr (write_at m (unat ea) bs) else raw_fault)"

definition trap_simd_oob :: "'a trap" where
  "trap_simd_oob = Inl ''wasm: v128 memory access out of bounds''"

text \<open>Reading and writing 16 bytes as two 64-bit words.\<close>

definition raw_read_v128 :: "RtModule \<Rightarrow> u64 \<Rightarrow> v128 trap" where
  "raw_read_v128 m ea = map_trap (\<lambda>bs. (le_word (take 8 bs), le_word (drop 8 bs))) (raw_read 16 m ea)"

definition raw_write_v128 :: "RtModule \<Rightarrow> u64 \<Rightarrow> v128 \<Rightarrow> RtModule trap" where
  "raw_write_v128 m ea v =
     bind_trap (raw_write m ea (le_bytes 8 (fst v))) (\<lambda>m. raw_write m (ea + 8) (le_bytes 8 (snd v)))"

section \<open>The 32-bit family\<close>

definition simdEA :: "RtModule \<Rightarrow> i32 \<Rightarrow> i32 \<Rightarrow> u64 \<Rightarrow> u64 trap" where
  "simdEA m addr off sz =
     (let ea = ucast addr + ucast off in if ea + sz > memSize m then trap_simd_oob else Inr ea)"

definition simd_v128_load_rng :: "RtModule \<Rightarrow> i32 \<Rightarrow> i32 \<Rightarrow> i32 \<Rightarrow> i32 \<Rightarrow> v128 trap" where
  "simd_v128_load_rng m addr off rlo span =
     (let start = ucast addr + scast rlo :: i64 in
      if start <s 0 \<or> start + ucast span > memSize m then trap_simd_oob
      else raw_read_v128 m (ucast addr + ucast off))"

definition simd_v128_load_nc :: "RtModule \<Rightarrow> i32 \<Rightarrow> i32 \<Rightarrow> v128 trap" where
  "simd_v128_load_nc m addr off = raw_read_v128 m (ucast addr + ucast off)"

definition simd_v128_load :: "RtModule \<Rightarrow> i32 \<Rightarrow> i32 \<Rightarrow> v128 trap" where
  "simd_v128_load m addr off = bind_trap (simdEA m addr off 16) (raw_read_v128 m)"

definition simd_v128_store :: "RtModule \<Rightarrow> i32 \<Rightarrow> i32 \<Rightarrow> v128 \<Rightarrow> RtModule trap" where
  "simd_v128_store m addr off v = bind_trap (simdEA m addr off 16) (\<lambda>ea. raw_write_v128 m ea v)"

text \<open>Extending loads: eight bytes, each lane widened to twice its size.\<close>

definition simd_v128_load8x8_s :: "RtModule \<Rightarrow> i32 \<Rightarrow> i32 \<Rightarrow> v128 trap" where
  "simd_v128_load8x8_s m addr off = bind_trap (simdEA m addr off 8) (\<lambda>ea. map_trap
     (\<lambda>bs. or_lanes 16 8 (\<lambda>i. ucast (scast (le_word (take 1 (drop (1 * i) bs)) :: byte) :: u16))) (raw_read 8 m ea))"

definition simd_v128_load8x8_u :: "RtModule \<Rightarrow> i32 \<Rightarrow> i32 \<Rightarrow> v128 trap" where
  "simd_v128_load8x8_u m addr off = bind_trap (simdEA m addr off 8) (\<lambda>ea. map_trap
     (\<lambda>bs. or_lanes 16 8 (\<lambda>i. ucast (le_word (take 1 (drop (1 * i) bs)) :: byte))) (raw_read 8 m ea))"

definition simd_v128_load16x4_s :: "RtModule \<Rightarrow> i32 \<Rightarrow> i32 \<Rightarrow> v128 trap" where
  "simd_v128_load16x4_s m addr off = bind_trap (simdEA m addr off 8) (\<lambda>ea. map_trap
     (\<lambda>bs. or_lanes 32 4 (\<lambda>i. ucast (scast (le_word (take 2 (drop (2 * i) bs)) :: u16) :: u32))) (raw_read 8 m ea))"

definition simd_v128_load16x4_u :: "RtModule \<Rightarrow> i32 \<Rightarrow> i32 \<Rightarrow> v128 trap" where
  "simd_v128_load16x4_u m addr off = bind_trap (simdEA m addr off 8) (\<lambda>ea. map_trap
     (\<lambda>bs. or_lanes 32 4 (\<lambda>i. ucast (le_word (take 2 (drop (2 * i) bs)) :: u16))) (raw_read 8 m ea))"

definition simd_v128_load32x2_s :: "RtModule \<Rightarrow> i32 \<Rightarrow> i32 \<Rightarrow> v128 trap" where
  "simd_v128_load32x2_s m addr off = bind_trap (simdEA m addr off 8) (\<lambda>ea. map_trap
     (\<lambda>bs. or_lanes 64 2 (\<lambda>i. ucast (scast (le_word (take 4 (drop (4 * i) bs)) :: u32) :: u64))) (raw_read 8 m ea))"

definition simd_v128_load32x2_u :: "RtModule \<Rightarrow> i32 \<Rightarrow> i32 \<Rightarrow> v128 trap" where
  "simd_v128_load32x2_u m addr off = bind_trap (simdEA m addr off 8) (\<lambda>ea. map_trap
     (\<lambda>bs. or_lanes 64 2 (\<lambda>i. ucast (le_word (take 4 (drop (4 * i) bs)) :: u32))) (raw_read 8 m ea))"

text \<open>Splats, and loads that zero the upper lanes.\<close>

definition simd_v128_load8_splat :: "RtModule \<Rightarrow> i32 \<Rightarrow> i32 \<Rightarrow> v128 trap" where
  "simd_v128_load8_splat m addr off = bind_trap (simdEA m addr off 1) (\<lambda>ea. map_trap
     (\<lambda>bs. or_lanes 8 16 (\<lambda>i. ucast (le_word bs :: byte))) (raw_read 1 m ea))"

definition simd_v128_load16_splat :: "RtModule \<Rightarrow> i32 \<Rightarrow> i32 \<Rightarrow> v128 trap" where
  "simd_v128_load16_splat m addr off = bind_trap (simdEA m addr off 2) (\<lambda>ea. map_trap
     (\<lambda>bs. or_lanes 16 8 (\<lambda>i. ucast (le_word bs :: u16))) (raw_read 2 m ea))"

definition simd_v128_load32_splat :: "RtModule \<Rightarrow> i32 \<Rightarrow> i32 \<Rightarrow> v128 trap" where
  "simd_v128_load32_splat m addr off = bind_trap (simdEA m addr off 4) (\<lambda>ea. map_trap
     (\<lambda>bs. or_lanes 32 4 (\<lambda>i. ucast (le_word bs :: u32))) (raw_read 4 m ea))"

definition simd_v128_load64_splat :: "RtModule \<Rightarrow> i32 \<Rightarrow> i32 \<Rightarrow> v128 trap" where
  "simd_v128_load64_splat m addr off = bind_trap (simdEA m addr off 8) (\<lambda>ea. map_trap
     (\<lambda>bs. or_lanes 64 2 (\<lambda>i. ucast (le_word bs :: u64))) (raw_read 8 m ea))"

definition simd_v128_load32_zero :: "RtModule \<Rightarrow> i32 \<Rightarrow> i32 \<Rightarrow> v128 trap" where
  "simd_v128_load32_zero m addr off = bind_trap (simdEA m addr off 4) (\<lambda>ea. map_trap
     (\<lambda>bs. (ucast (le_word bs :: u32), 0)) (raw_read 4 m ea))"

definition simd_v128_load64_zero :: "RtModule \<Rightarrow> i32 \<Rightarrow> i32 \<Rightarrow> v128 trap" where
  "simd_v128_load64_zero m addr off = bind_trap (simdEA m addr off 8) (\<lambda>ea. map_trap
     (\<lambda>bs. (ucast (le_word bs :: u64), 0)) (raw_read 8 m ea))"

text \<open>
  Single lanes. The lane is a signed number in Go; the callers pass an immediate below the number
  of lanes, and an index that leaves the array panics.
\<close>

definition lane_index :: "nat \<Rightarrow> i32 \<Rightarrow> nat trap" where
  "lane_index w lane =
     (let i = sint lane * int w sdiv 64 in if 0 \<le> i \<and> i < 2 then Inr (nat i) else index_oob)"

definition lane_shift :: "nat \<Rightarrow> i32 \<Rightarrow> nat" where
  "lane_shift w lane = unat (word_of_nat w * (scast lane :: u64)) mod 64"

definition set_lane :: "nat \<Rightarrow> u64 \<Rightarrow> i32 \<Rightarrow> u64 \<Rightarrow> v128 \<Rightarrow> v128 trap" where
  "set_lane w ones lane x v =
     map_trap (\<lambda>i. vset v i (vget v i AND NOT (push_bit (lane_shift w lane) ones) OR push_bit (lane_shift w lane) x))
       (lane_index w lane)"

definition get_lane :: "nat \<Rightarrow> i32 \<Rightarrow> v128 \<Rightarrow> u64 trap" where
  "get_lane w lane v = map_trap (\<lambda>i. drop_bit (lane_shift w lane) (vget v i)) (lane_index w lane)"

definition simd_v128_load8_lane :: "RtModule \<Rightarrow> i32 \<Rightarrow> i32 \<Rightarrow> i32 \<Rightarrow> v128 \<Rightarrow> v128 trap" where
  "simd_v128_load8_lane m addr off lane v = bind_trap (simdEA m addr off 1) (\<lambda>ea. bind_trap (raw_read 1 m ea)
     (\<lambda>bs. set_lane 8 (ucast (- 1 :: byte)) lane (ucast (le_word bs :: byte)) v))"

definition simd_v128_load16_lane :: "RtModule \<Rightarrow> i32 \<Rightarrow> i32 \<Rightarrow> i32 \<Rightarrow> v128 \<Rightarrow> v128 trap" where
  "simd_v128_load16_lane m addr off lane v = bind_trap (simdEA m addr off 2) (\<lambda>ea. bind_trap (raw_read 2 m ea)
     (\<lambda>bs. set_lane 16 (ucast (- 1 :: u16)) lane (ucast (le_word bs :: u16)) v))"

definition simd_v128_load32_lane :: "RtModule \<Rightarrow> i32 \<Rightarrow> i32 \<Rightarrow> i32 \<Rightarrow> v128 \<Rightarrow> v128 trap" where
  "simd_v128_load32_lane m addr off lane v = bind_trap (simdEA m addr off 4) (\<lambda>ea. bind_trap (raw_read 4 m ea)
     (\<lambda>bs. set_lane 32 (ucast (- 1 :: u32)) lane (ucast (le_word bs :: u32)) v))"

definition simd_v128_load64_lane :: "RtModule \<Rightarrow> i32 \<Rightarrow> i32 \<Rightarrow> i32 \<Rightarrow> v128 \<Rightarrow> v128 trap" where
  "simd_v128_load64_lane m addr off lane v = bind_trap (simdEA m addr off 8) (\<lambda>ea. bind_trap (raw_read 8 m ea)
     (\<lambda>bs. set_lane 64 (ucast (- 1 :: u64)) lane (ucast (le_word bs :: u64)) v))"

definition simd_v128_store8_lane :: "RtModule \<Rightarrow> i32 \<Rightarrow> i32 \<Rightarrow> i32 \<Rightarrow> v128 \<Rightarrow> RtModule trap" where
  "simd_v128_store8_lane m addr off lane v = bind_trap (simdEA m addr off 1) (\<lambda>ea. bind_trap (get_lane 8 lane v)
     (\<lambda>x. raw_write m ea ([ucast x])))"

definition simd_v128_store16_lane :: "RtModule \<Rightarrow> i32 \<Rightarrow> i32 \<Rightarrow> i32 \<Rightarrow> v128 \<Rightarrow> RtModule trap" where
  "simd_v128_store16_lane m addr off lane v = bind_trap (simdEA m addr off 2) (\<lambda>ea. bind_trap (get_lane 16 lane v)
     (\<lambda>x. raw_write m ea (le_bytes 2 (ucast x :: u16))))"

definition simd_v128_store32_lane :: "RtModule \<Rightarrow> i32 \<Rightarrow> i32 \<Rightarrow> i32 \<Rightarrow> v128 \<Rightarrow> RtModule trap" where
  "simd_v128_store32_lane m addr off lane v = bind_trap (simdEA m addr off 4) (\<lambda>ea. bind_trap (get_lane 32 lane v)
     (\<lambda>x. raw_write m ea (le_bytes 4 (ucast x :: u32))))"

definition simd_v128_store64_lane :: "RtModule \<Rightarrow> i32 \<Rightarrow> i32 \<Rightarrow> i32 \<Rightarrow> v128 \<Rightarrow> RtModule trap" where
  "simd_v128_store64_lane m addr off lane v = bind_trap (simdEA m addr off 8) (\<lambda>ea. bind_trap (get_lane 64 lane v)
     (\<lambda>x. raw_write m ea (le_bytes 8 (ucast x :: u64))))"

section \<open>The memory64 family\<close>

definition simdEA64 :: "RtModule \<Rightarrow> i64 \<Rightarrow> i64 \<Rightarrow> u64 \<Rightarrow> u64 trap" where
  "simdEA64 m addr off sz =
     (let ea = addr + off; end = ea + sz in
      if ea < addr \<or> end < ea \<or> end > memSize m then trap_simd_oob else Inr ea)"

definition simd_m64_v128_load :: "RtModule \<Rightarrow> i64 \<Rightarrow> i64 \<Rightarrow> v128 trap" where
  "simd_m64_v128_load m addr off = bind_trap (simdEA64 m addr off 16) (raw_read_v128 m)"

definition simd_m64_v128_load_rng :: "RtModule \<Rightarrow> i64 \<Rightarrow> i64 \<Rightarrow> i64 \<Rightarrow> i64 \<Rightarrow> v128 trap" where
  "simd_m64_v128_load_rng m addr off rlo span =
     (let start = addr + rlo in
      if start <s 0 \<or> start + span > memSize m then trap_simd_oob
      else raw_read_v128 m (addr + off))"

definition simd_m64_v128_load_nc :: "RtModule \<Rightarrow> i64 \<Rightarrow> i64 \<Rightarrow> v128 trap" where
  "simd_m64_v128_load_nc m addr off = raw_read_v128 m (addr + off)"

definition simd_m64_v128_store :: "RtModule \<Rightarrow> i64 \<Rightarrow> i64 \<Rightarrow> v128 \<Rightarrow> RtModule trap" where
  "simd_m64_v128_store m addr off v = bind_trap (simdEA64 m addr off 16) (\<lambda>ea. raw_write_v128 m ea v)"

definition simd_m64_v128_load32_zero :: "RtModule \<Rightarrow> i64 \<Rightarrow> i64 \<Rightarrow> v128 trap" where
  "simd_m64_v128_load32_zero m addr off = bind_trap (simdEA64 m addr off 4) (\<lambda>ea. map_trap
     (\<lambda>bs. (ucast (le_word bs :: u32), 0)) (raw_read 4 m ea))"

definition simd_m64_v128_load64_zero :: "RtModule \<Rightarrow> i64 \<Rightarrow> i64 \<Rightarrow> v128 trap" where
  "simd_m64_v128_load64_zero m addr off = bind_trap (simdEA64 m addr off 8) (\<lambda>ea. map_trap
     (\<lambda>bs. (ucast (le_word bs :: u64), 0)) (raw_read 8 m ea))"

definition simd_m64_v128_load8_splat :: "RtModule \<Rightarrow> i64 \<Rightarrow> i64 \<Rightarrow> v128 trap" where
  "simd_m64_v128_load8_splat m addr off = bind_trap (simdEA64 m addr off 1) (\<lambda>ea. map_trap
     (\<lambda>bs. let x = ucast (le_word bs :: byte); w = x * 0x0101010101010101 in (w, w)) (raw_read 1 m ea))"

definition simd_m64_v128_load16_splat :: "RtModule \<Rightarrow> i64 \<Rightarrow> i64 \<Rightarrow> v128 trap" where
  "simd_m64_v128_load16_splat m addr off = bind_trap (simdEA64 m addr off 2) (\<lambda>ea. map_trap
     (\<lambda>bs. let x = ucast (le_word bs :: u16); w = x * 0x0001000100010001 in (w, w)) (raw_read 2 m ea))"

definition simd_m64_v128_load32_splat :: "RtModule \<Rightarrow> i64 \<Rightarrow> i64 \<Rightarrow> v128 trap" where
  "simd_m64_v128_load32_splat m addr off = bind_trap (simdEA64 m addr off 4) (\<lambda>ea. map_trap
     (\<lambda>bs. let x = ucast (le_word bs :: u32); w = x OR push_bit 32 x in (w, w)) (raw_read 4 m ea))"

definition simd_m64_v128_load64_splat :: "RtModule \<Rightarrow> i64 \<Rightarrow> i64 \<Rightarrow> v128 trap" where
  "simd_m64_v128_load64_splat m addr off = bind_trap (simdEA64 m addr off 8) (\<lambda>ea. map_trap
     (\<lambda>bs. let x = le_word bs in (x, x)) (raw_read 8 m ea))"

text \<open>The shared body of the extending loads; the lanes come from one 64-bit word.\<close>

definition widen_lanes :: "nat \<Rightarrow> bool \<Rightarrow> u64 \<Rightarrow> v128" where
  "widen_lanes elemBits sgnd x =
     (if elemBits = 8 then or_lanes 16 8 (\<lambda>i. let b = ucast (drop_bit (8 * i) x) :: byte in
          ucast (if sgnd then scast b else ucast b :: u16))
      else if elemBits = 16 then or_lanes 32 4 (\<lambda>i. let h = ucast (drop_bit (16 * i) x) :: u16 in
          ucast (if sgnd then scast h else ucast h :: u32))
      else (let q = (\<lambda>i. ucast (drop_bit (32 * i) x) :: u32); e = (\<lambda>i. if sgnd then scast (q i) else ucast (q i))
            in (e 0, e 1)))"

definition simd_m64_widen :: "RtModule \<Rightarrow> i64 \<Rightarrow> i64 \<Rightarrow> nat \<Rightarrow> bool \<Rightarrow> v128 trap" where
  "simd_m64_widen m addr off elemBits sgnd =
     bind_trap (simdEA64 m addr off 8) (\<lambda>ea. map_trap (\<lambda>bs. widen_lanes elemBits sgnd (le_word bs)) (raw_read 8 m ea))"

definition simd_m64_v128_load8x8_s :: "RtModule \<Rightarrow> i64 \<Rightarrow> i64 \<Rightarrow> v128 trap" where
  "simd_m64_v128_load8x8_s m addr off = simd_m64_widen m addr off 8 True"

definition simd_m64_v128_load8x8_u :: "RtModule \<Rightarrow> i64 \<Rightarrow> i64 \<Rightarrow> v128 trap" where
  "simd_m64_v128_load8x8_u m addr off = simd_m64_widen m addr off 8 False"

definition simd_m64_v128_load16x4_s :: "RtModule \<Rightarrow> i64 \<Rightarrow> i64 \<Rightarrow> v128 trap" where
  "simd_m64_v128_load16x4_s m addr off = simd_m64_widen m addr off 16 True"

definition simd_m64_v128_load16x4_u :: "RtModule \<Rightarrow> i64 \<Rightarrow> i64 \<Rightarrow> v128 trap" where
  "simd_m64_v128_load16x4_u m addr off = simd_m64_widen m addr off 16 False"

definition simd_m64_v128_load32x2_s :: "RtModule \<Rightarrow> i64 \<Rightarrow> i64 \<Rightarrow> v128 trap" where
  "simd_m64_v128_load32x2_s m addr off = simd_m64_widen m addr off 32 True"

definition simd_m64_v128_load32x2_u :: "RtModule \<Rightarrow> i64 \<Rightarrow> i64 \<Rightarrow> v128 trap" where
  "simd_m64_v128_load32x2_u m addr off = simd_m64_widen m addr off 32 False"

text \<open>A lane number used directly as the array index.\<close>

definition v128_index :: "i32 \<Rightarrow> nat trap" where
  "v128_index lane = (if 0 \<le> sint lane \<and> sint lane < 2 then Inr (nat (sint lane)) else index_oob)"

definition simd_m64_v128_load8_lane :: "RtModule \<Rightarrow> i64 \<Rightarrow> i64 \<Rightarrow> i32 \<Rightarrow> v128 \<Rightarrow> v128 trap" where
  "simd_m64_v128_load8_lane m addr off lane v = bind_trap (simdEA64 m addr off 1) (\<lambda>ea. bind_trap (raw_read 1 m ea)
     (\<lambda>bs. set_lane 8 0xff lane (ucast (le_word bs :: byte)) v))"

definition simd_m64_v128_load16_lane :: "RtModule \<Rightarrow> i64 \<Rightarrow> i64 \<Rightarrow> i32 \<Rightarrow> v128 \<Rightarrow> v128 trap" where
  "simd_m64_v128_load16_lane m addr off lane v = bind_trap (simdEA64 m addr off 2) (\<lambda>ea. bind_trap (raw_read 2 m ea)
     (\<lambda>bs. set_lane 16 0xffff lane (ucast (le_word bs :: u16)) v))"

definition simd_m64_v128_load32_lane :: "RtModule \<Rightarrow> i64 \<Rightarrow> i64 \<Rightarrow> i32 \<Rightarrow> v128 \<Rightarrow> v128 trap" where
  "simd_m64_v128_load32_lane m addr off lane v = bind_trap (simdEA64 m addr off 4) (\<lambda>ea. bind_trap (raw_read 4 m ea)
     (\<lambda>bs. set_lane 32 (ucast (- 1 :: u32)) lane (ucast (le_word bs :: u32)) v))"

definition simd_m64_v128_load64_lane :: "RtModule \<Rightarrow> i64 \<Rightarrow> i64 \<Rightarrow> i32 \<Rightarrow> v128 \<Rightarrow> v128 trap" where
  "simd_m64_v128_load64_lane m addr off lane v = bind_trap (simdEA64 m addr off 8) (\<lambda>ea. bind_trap (raw_read 8 m ea)
     (\<lambda>bs. map_trap (\<lambda>i. vset v i (le_word bs)) (v128_index lane)))"

definition simd_m64_v128_store8_lane :: "RtModule \<Rightarrow> i64 \<Rightarrow> i64 \<Rightarrow> i32 \<Rightarrow> v128 \<Rightarrow> RtModule trap" where
  "simd_m64_v128_store8_lane m addr off lane v = bind_trap (simdEA64 m addr off 1) (\<lambda>ea. bind_trap (get_lane 8 lane v)
     (\<lambda>x. raw_write m ea ([ucast x])))"

definition simd_m64_v128_store16_lane :: "RtModule \<Rightarrow> i64 \<Rightarrow> i64 \<Rightarrow> i32 \<Rightarrow> v128 \<Rightarrow> RtModule trap" where
  "simd_m64_v128_store16_lane m addr off lane v = bind_trap (simdEA64 m addr off 2) (\<lambda>ea. bind_trap (get_lane 16 lane v)
     (\<lambda>x. raw_write m ea (le_bytes 2 (ucast x :: u16))))"

definition simd_m64_v128_store32_lane :: "RtModule \<Rightarrow> i64 \<Rightarrow> i64 \<Rightarrow> i32 \<Rightarrow> v128 \<Rightarrow> RtModule trap" where
  "simd_m64_v128_store32_lane m addr off lane v = bind_trap (simdEA64 m addr off 4) (\<lambda>ea. bind_trap (get_lane 32 lane v)
     (\<lambda>x. raw_write m ea (le_bytes 4 (ucast x :: u32))))"

definition simd_m64_v128_store64_lane :: "RtModule \<Rightarrow> i64 \<Rightarrow> i64 \<Rightarrow> i32 \<Rightarrow> v128 \<Rightarrow> RtModule trap" where
  "simd_m64_v128_store64_lane m addr off lane v = bind_trap (simdEA64 m addr off 8) (\<lambda>ea. bind_trap (v128_index lane)
     (\<lambda>i. raw_write m ea (le_bytes 8 (vget v i))))"

section \<open>Pair forms\<close>

text \<open>The same helpers with each vector passed as its two halves.\<close>

definition simd_p_pack :: "u64 \<Rightarrow> u64 \<Rightarrow> v128" where
  "simd_p_pack lo hi = (lo, hi)"

definition simd_p_v128_load_rng :: "RtModule \<Rightarrow> i32 \<Rightarrow> i32 \<Rightarrow> i32 \<Rightarrow> i32 \<Rightarrow> (u64 \<times> u64) trap" where
  "simd_p_v128_load_rng m addr off rlo span = map_trap (\<lambda>r. (vget r 0, vget r 1)) (simd_v128_load_rng m addr off rlo span)"

definition simd_p_v128_load_nc :: "RtModule \<Rightarrow> i32 \<Rightarrow> i32 \<Rightarrow> (u64 \<times> u64) trap" where
  "simd_p_v128_load_nc m addr off = map_trap (\<lambda>r. (vget r 0, vget r 1)) (simd_v128_load_nc m addr off)"

definition simd_p_v128_load :: "RtModule \<Rightarrow> i32 \<Rightarrow> i32 \<Rightarrow> (u64 \<times> u64) trap" where
  "simd_p_v128_load m addr off = map_trap (\<lambda>r. (vget r 0, vget r 1)) (simd_v128_load m addr off)"

definition simd_p_v128_load8x8_s :: "RtModule \<Rightarrow> i32 \<Rightarrow> i32 \<Rightarrow> (u64 \<times> u64) trap" where
  "simd_p_v128_load8x8_s m addr off = map_trap (\<lambda>r. (vget r 0, vget r 1)) (simd_v128_load8x8_s m addr off)"

definition simd_p_v128_load8x8_u :: "RtModule \<Rightarrow> i32 \<Rightarrow> i32 \<Rightarrow> (u64 \<times> u64) trap" where
  "simd_p_v128_load8x8_u m addr off = map_trap (\<lambda>r. (vget r 0, vget r 1)) (simd_v128_load8x8_u m addr off)"

definition simd_p_v128_load16x4_s :: "RtModule \<Rightarrow> i32 \<Rightarrow> i32 \<Rightarrow> (u64 \<times> u64) trap" where
  "simd_p_v128_load16x4_s m addr off = map_trap (\<lambda>r. (vget r 0, vget r 1)) (simd_v128_load16x4_s m addr off)"

definition simd_p_v128_load16x4_u :: "RtModule \<Rightarrow> i32 \<Rightarrow> i32 \<Rightarrow> (u64 \<times> u64) trap" where
  "simd_p_v128_load16x4_u m addr off = map_trap (\<lambda>r. (vget r 0, vget r 1)) (simd_v128_load16x4_u m addr off)"

definition simd_p_v128_load32x2_s :: "RtModule \<Rightarrow> i32 \<Rightarrow> i32 \<Rightarrow> (u64 \<times> u64) trap" where
  "simd_p_v128_load32x2_s m addr off = map_trap (\<lambda>r. (vget r 0, vget r 1)) (simd_v128_load32x2_s m addr off)"

definition simd_p_v128_load32x2_u :: "RtModule \<Rightarrow> i32 \<Rightarrow> i32 \<Rightarrow> (u64 \<times> u64) trap" where
  "simd_p_v128_load32x2_u m addr off = map_trap (\<lambda>r. (vget r 0, vget r 1)) (simd_v128_load32x2_u m addr off)"

definition simd_p_v128_load8_splat :: "RtModule \<Rightarrow> i32 \<Rightarrow> i32 \<Rightarrow> (u64 \<times> u64) trap" where
  "simd_p_v128_load8_splat m addr off = map_trap (\<lambda>r. (vget r 0, vget r 1)) (simd_v128_load8_splat m addr off)"

definition simd_p_v128_load16_splat :: "RtModule \<Rightarrow> i32 \<Rightarrow> i32 \<Rightarrow> (u64 \<times> u64) trap" where
  "simd_p_v128_load16_splat m addr off = map_trap (\<lambda>r. (vget r 0, vget r 1)) (simd_v128_load16_splat m addr off)"

definition simd_p_v128_load32_splat :: "RtModule \<Rightarrow> i32 \<Rightarrow> i32 \<Rightarrow> (u64 \<times> u64) trap" where
  "simd_p_v128_load32_splat m addr off = map_trap (\<lambda>r. (vget r 0, vget r 1)) (simd_v128_load32_splat m addr off)"

definition simd_p_v128_load64_splat :: "RtModule \<Rightarrow> i32 \<Rightarrow> i32 \<Rightarrow> (u64 \<times> u64) trap" where
  "simd_p_v128_load64_splat m addr off = map_trap (\<lambda>r. (vget r 0, vget r 1)) (simd_v128_load64_splat m addr off)"

definition simd_p_v128_load32_zero :: "RtModule \<Rightarrow> i32 \<Rightarrow> i32 \<Rightarrow> (u64 \<times> u64) trap" where
  "simd_p_v128_load32_zero m addr off = map_trap (\<lambda>r. (vget r 0, vget r 1)) (simd_v128_load32_zero m addr off)"

definition simd_p_v128_load64_zero :: "RtModule \<Rightarrow> i32 \<Rightarrow> i32 \<Rightarrow> (u64 \<times> u64) trap" where
  "simd_p_v128_load64_zero m addr off = map_trap (\<lambda>r. (vget r 0, vget r 1)) (simd_v128_load64_zero m addr off)"

definition simd_p_v128_load8_lane :: "RtModule \<Rightarrow> i32 \<Rightarrow> i32 \<Rightarrow> i32 \<Rightarrow> u64 \<Rightarrow> u64 \<Rightarrow> (u64 \<times> u64) trap" where
  "simd_p_v128_load8_lane m addr off lane v0 v1 = map_trap (\<lambda>r. (vget r 0, vget r 1)) (simd_v128_load8_lane m addr off lane (v0, v1))"

definition simd_p_v128_load16_lane :: "RtModule \<Rightarrow> i32 \<Rightarrow> i32 \<Rightarrow> i32 \<Rightarrow> u64 \<Rightarrow> u64 \<Rightarrow> (u64 \<times> u64) trap" where
  "simd_p_v128_load16_lane m addr off lane v0 v1 = map_trap (\<lambda>r. (vget r 0, vget r 1)) (simd_v128_load16_lane m addr off lane (v0, v1))"

definition simd_p_v128_load32_lane :: "RtModule \<Rightarrow> i32 \<Rightarrow> i32 \<Rightarrow> i32 \<Rightarrow> u64 \<Rightarrow> u64 \<Rightarrow> (u64 \<times> u64) trap" where
  "simd_p_v128_load32_lane m addr off lane v0 v1 = map_trap (\<lambda>r. (vget r 0, vget r 1)) (simd_v128_load32_lane m addr off lane (v0, v1))"

definition simd_p_v128_load64_lane :: "RtModule \<Rightarrow> i32 \<Rightarrow> i32 \<Rightarrow> i32 \<Rightarrow> u64 \<Rightarrow> u64 \<Rightarrow> (u64 \<times> u64) trap" where
  "simd_p_v128_load64_lane m addr off lane v0 v1 = map_trap (\<lambda>r. (vget r 0, vget r 1)) (simd_v128_load64_lane m addr off lane (v0, v1))"

definition simd_p_v128_store :: "RtModule \<Rightarrow> i32 \<Rightarrow> i32 \<Rightarrow> u64 \<Rightarrow> u64 \<Rightarrow> RtModule trap" where
  "simd_p_v128_store m addr off v0 v1 = simd_v128_store m addr off (v0, v1)"

definition simd_p_v128_store8_lane :: "RtModule \<Rightarrow> i32 \<Rightarrow> i32 \<Rightarrow> i32 \<Rightarrow> u64 \<Rightarrow> u64 \<Rightarrow> RtModule trap" where
  "simd_p_v128_store8_lane m addr off lane v0 v1 = simd_v128_store8_lane m addr off lane (v0, v1)"

definition simd_p_v128_store16_lane :: "RtModule \<Rightarrow> i32 \<Rightarrow> i32 \<Rightarrow> i32 \<Rightarrow> u64 \<Rightarrow> u64 \<Rightarrow> RtModule trap" where
  "simd_p_v128_store16_lane m addr off lane v0 v1 = simd_v128_store16_lane m addr off lane (v0, v1)"

definition simd_p_v128_store32_lane :: "RtModule \<Rightarrow> i32 \<Rightarrow> i32 \<Rightarrow> i32 \<Rightarrow> u64 \<Rightarrow> u64 \<Rightarrow> RtModule trap" where
  "simd_p_v128_store32_lane m addr off lane v0 v1 = simd_v128_store32_lane m addr off lane (v0, v1)"

definition simd_p_v128_store64_lane :: "RtModule \<Rightarrow> i32 \<Rightarrow> i32 \<Rightarrow> i32 \<Rightarrow> u64 \<Rightarrow> u64 \<Rightarrow> RtModule trap" where
  "simd_p_v128_store64_lane m addr off lane v0 v1 = simd_v128_store64_lane m addr off lane (v0, v1)"

definition simd_p_m64_v128_load_rng :: "RtModule \<Rightarrow> i64 \<Rightarrow> i64 \<Rightarrow> i64 \<Rightarrow> i64 \<Rightarrow> (u64 \<times> u64) trap" where
  "simd_p_m64_v128_load_rng m addr off rlo span = map_trap (\<lambda>r. (vget r 0, vget r 1)) (simd_m64_v128_load_rng m addr off rlo span)"

definition simd_p_m64_v128_load_nc :: "RtModule \<Rightarrow> i64 \<Rightarrow> i64 \<Rightarrow> (u64 \<times> u64) trap" where
  "simd_p_m64_v128_load_nc m addr off = map_trap (\<lambda>r. (vget r 0, vget r 1)) (simd_m64_v128_load_nc m addr off)"

definition simd_p_m64_v128_load :: "RtModule \<Rightarrow> i64 \<Rightarrow> i64 \<Rightarrow> (u64 \<times> u64) trap" where
  "simd_p_m64_v128_load m addr off = map_trap (\<lambda>r. (vget r 0, vget r 1)) (simd_m64_v128_load m addr off)"

definition simd_p_m64_v128_load8x8_s :: "RtModule \<Rightarrow> i64 \<Rightarrow> i64 \<Rightarrow> (u64 \<times> u64) trap" where
  "simd_p_m64_v128_load8x8_s m addr off = map_trap (\<lambda>r. (vget r 0, vget r 1)) (simd_m64_v128_load8x8_s m addr off)"

definition simd_p_m64_v128_load8x8_u :: "RtModule \<Rightarrow> i64 \<Rightarrow> i64 \<Rightarrow> (u64 \<times> u64) trap" where
  "simd_p_m64_v128_load8x8_u m addr off = map_trap (\<lambda>r. (vget r 0, vget r 1)) (simd_m64_v128_load8x8_u m addr off)"

definition simd_p_m64_v128_load16x4_s :: "RtModule \<Rightarrow> i64 \<Rightarrow> i64 \<Rightarrow> (u64 \<times> u64) trap" where
  "simd_p_m64_v128_load16x4_s m addr off = map_trap (\<lambda>r. (vget r 0, vget r 1)) (simd_m64_v128_load16x4_s m addr off)"

definition simd_p_m64_v128_load16x4_u :: "RtModule \<Rightarrow> i64 \<Rightarrow> i64 \<Rightarrow> (u64 \<times> u64) trap" where
  "simd_p_m64_v128_load16x4_u m addr off = map_trap (\<lambda>r. (vget r 0, vget r 1)) (simd_m64_v128_load16x4_u m addr off)"

definition simd_p_m64_v128_load32x2_s :: "RtModule \<Rightarrow> i64 \<Rightarrow> i64 \<Rightarrow> (u64 \<times> u64) trap" where
  "simd_p_m64_v128_load32x2_s m addr off = map_trap (\<lambda>r. (vget r 0, vget r 1)) (simd_m64_v128_load32x2_s m addr off)"

definition simd_p_m64_v128_load32x2_u :: "RtModule \<Rightarrow> i64 \<Rightarrow> i64 \<Rightarrow> (u64 \<times> u64) trap" where
  "simd_p_m64_v128_load32x2_u m addr off = map_trap (\<lambda>r. (vget r 0, vget r 1)) (simd_m64_v128_load32x2_u m addr off)"

definition simd_p_m64_v128_load8_splat :: "RtModule \<Rightarrow> i64 \<Rightarrow> i64 \<Rightarrow> (u64 \<times> u64) trap" where
  "simd_p_m64_v128_load8_splat m addr off = map_trap (\<lambda>r. (vget r 0, vget r 1)) (simd_m64_v128_load8_splat m addr off)"

definition simd_p_m64_v128_load16_splat :: "RtModule \<Rightarrow> i64 \<Rightarrow> i64 \<Rightarrow> (u64 \<times> u64) trap" where
  "simd_p_m64_v128_load16_splat m addr off = map_trap (\<lambda>r. (vget r 0, vget r 1)) (simd_m64_v128_load16_splat m addr off)"

definition simd_p_m64_v128_load32_splat :: "RtModule \<Rightarrow> i64 \<Rightarrow> i64 \<Rightarrow> (u64 \<times> u64) trap" where
  "simd_p_m64_v128_load32_splat m addr off = map_trap (\<lambda>r. (vget r 0, vget r 1)) (simd_m64_v128_load32_splat m addr off)"

definition simd_p_m64_v128_load64_splat :: "RtModule \<Rightarrow> i64 \<Rightarrow> i64 \<Rightarrow> (u64 \<times> u64) trap" where
  "simd_p_m64_v128_load64_splat m addr off = map_trap (\<lambda>r. (vget r 0, vget r 1)) (simd_m64_v128_load64_splat m addr off)"

definition simd_p_m64_v128_load32_zero :: "RtModule \<Rightarrow> i64 \<Rightarrow> i64 \<Rightarrow> (u64 \<times> u64) trap" where
  "simd_p_m64_v128_load32_zero m addr off = map_trap (\<lambda>r. (vget r 0, vget r 1)) (simd_m64_v128_load32_zero m addr off)"

definition simd_p_m64_v128_load64_zero :: "RtModule \<Rightarrow> i64 \<Rightarrow> i64 \<Rightarrow> (u64 \<times> u64) trap" where
  "simd_p_m64_v128_load64_zero m addr off = map_trap (\<lambda>r. (vget r 0, vget r 1)) (simd_m64_v128_load64_zero m addr off)"

definition simd_p_m64_v128_load8_lane :: "RtModule \<Rightarrow> i64 \<Rightarrow> i64 \<Rightarrow> i32 \<Rightarrow> u64 \<Rightarrow> u64 \<Rightarrow> (u64 \<times> u64) trap" where
  "simd_p_m64_v128_load8_lane m addr off lane v0 v1 = map_trap (\<lambda>r. (vget r 0, vget r 1)) (simd_m64_v128_load8_lane m addr off lane (v0, v1))"

definition simd_p_m64_v128_load16_lane :: "RtModule \<Rightarrow> i64 \<Rightarrow> i64 \<Rightarrow> i32 \<Rightarrow> u64 \<Rightarrow> u64 \<Rightarrow> (u64 \<times> u64) trap" where
  "simd_p_m64_v128_load16_lane m addr off lane v0 v1 = map_trap (\<lambda>r. (vget r 0, vget r 1)) (simd_m64_v128_load16_lane m addr off lane (v0, v1))"

definition simd_p_m64_v128_load32_lane :: "RtModule \<Rightarrow> i64 \<Rightarrow> i64 \<Rightarrow> i32 \<Rightarrow> u64 \<Rightarrow> u64 \<Rightarrow> (u64 \<times> u64) trap" where
  "simd_p_m64_v128_load32_lane m addr off lane v0 v1 = map_trap (\<lambda>r. (vget r 0, vget r 1)) (simd_m64_v128_load32_lane m addr off lane (v0, v1))"

definition simd_p_m64_v128_load64_lane :: "RtModule \<Rightarrow> i64 \<Rightarrow> i64 \<Rightarrow> i32 \<Rightarrow> u64 \<Rightarrow> u64 \<Rightarrow> (u64 \<times> u64) trap" where
  "simd_p_m64_v128_load64_lane m addr off lane v0 v1 = map_trap (\<lambda>r. (vget r 0, vget r 1)) (simd_m64_v128_load64_lane m addr off lane (v0, v1))"

definition simd_p_m64_v128_store :: "RtModule \<Rightarrow> i64 \<Rightarrow> i64 \<Rightarrow> u64 \<Rightarrow> u64 \<Rightarrow> RtModule trap" where
  "simd_p_m64_v128_store m addr off v0 v1 = simd_m64_v128_store m addr off (v0, v1)"

definition simd_p_m64_v128_store8_lane :: "RtModule \<Rightarrow> i64 \<Rightarrow> i64 \<Rightarrow> i32 \<Rightarrow> u64 \<Rightarrow> u64 \<Rightarrow> RtModule trap" where
  "simd_p_m64_v128_store8_lane m addr off lane v0 v1 = simd_m64_v128_store8_lane m addr off lane (v0, v1)"

definition simd_p_m64_v128_store16_lane :: "RtModule \<Rightarrow> i64 \<Rightarrow> i64 \<Rightarrow> i32 \<Rightarrow> u64 \<Rightarrow> u64 \<Rightarrow> RtModule trap" where
  "simd_p_m64_v128_store16_lane m addr off lane v0 v1 = simd_m64_v128_store16_lane m addr off lane (v0, v1)"

definition simd_p_m64_v128_store32_lane :: "RtModule \<Rightarrow> i64 \<Rightarrow> i64 \<Rightarrow> i32 \<Rightarrow> u64 \<Rightarrow> u64 \<Rightarrow> RtModule trap" where
  "simd_p_m64_v128_store32_lane m addr off lane v0 v1 = simd_m64_v128_store32_lane m addr off lane (v0, v1)"

definition simd_p_m64_v128_store64_lane :: "RtModule \<Rightarrow> i64 \<Rightarrow> i64 \<Rightarrow> i32 \<Rightarrow> u64 \<Rightarrow> u64 \<Rightarrow> RtModule trap" where
  "simd_p_m64_v128_store64_lane m addr off lane v0 v1 = simd_m64_v128_store64_lane m addr off lane (v0, v1)"

end
