(* ===== verification/PassMemOpt.thy ===== *)
theory PassMemOpt
  imports PassCse SsaOrder SsaMem RtSimdMem
begin

text \<open>
  Redundant loads and store-to-load forwarding within a block, from
  \<^verbatim>\<open>internal/ssa/pass/memopt.go\<close>.
\<close>

section \<open>The pass\<close>

definition byteWidth :: "Op \<Rightarrow> i64" where
  "byteWidth op =
     (if op \<in> {OpLoad8U, OpLoad8S, OpStore8} then 1
      else if op \<in> {OpLoad16U, OpLoad16S, OpStore16} then 2
      else if op \<in> {OpLoad32, OpLoad32U, OpLoad32S, OpStore32, OpLoadF32, OpStoreF32} then 4
      else if op \<in> {OpLoad64, OpStore64, OpLoadF64, OpStoreF64} then 8
      else 0)"

definition isLinearLoad :: "Op \<Rightarrow> bool" where
  "isLinearLoad op \<longleftrightarrow> op \<in>
     {OpLoad8U, OpLoad8S, OpLoad16U, OpLoad16S, OpLoad32, OpLoad32U, OpLoad32S, OpLoad64, OpLoadF32, OpLoadF64}"

definition isLinearStore :: "Op \<Rightarrow> bool" where
  "isLinearStore op \<longleftrightarrow> op \<in> {OpStore8, OpStore16, OpStore32, OpStore64, OpStoreF32, OpStoreF64}"

definition isMemBarrier :: "Value \<Rightarrow> bool" where
  "isMemBarrier v \<longleftrightarrow> vOp v \<in>
     {OpCallDirect, OpCallIndirect, OpCallImport, OpAtomicCall,
      OpMemoryCopy, OpMemoryFill, OpMemoryInit, OpDataDrop, OpMemGrow}"

definition forwardable :: "Op \<Rightarrow> Op \<Rightarrow> bool" where
  "forwardable storeOp loadOp \<longleftrightarrow>
     (if storeOp = OpStore32 then loadOp = OpLoad32
      else if storeOp = OpStore64 then loadOp = OpLoad64
      else if storeOp = OpStoreF32 then loadOp = OpLoadF32
      else if storeOp = OpStoreF64 then loadOp = OpLoadF64
      else False)"

text \<open>An address is the id of its base value and a constant offset.\<close>

type_synonym addrKey = "nat \<times> i64"
type_synonym loadKey = "Op \<times> Type"

record memCell =
  width :: i64
  storeVal :: "nat option"
  storeOp :: Op
  loads :: "loadKey \<Rightarrow> nat option"

definition newLoadCell :: "nat \<Rightarrow> Value \<Rightarrow> memCell" where
  "newLoadCell i v = \<lparr>width = byteWidth (vOp v), storeVal = None, storeOp = OpInvalid, loads = [(vOp v, vTyp v) \<mapsto> i]\<rparr>"

text \<open>A store without a second operand panics.\<close>

definition newStoreCell :: "Value \<Rightarrow> memCell option" where
  "newStoreCell v =
     (if 1 < length (vArgs v) then
        Some \<lparr>width = byteWidth (vOp v), storeVal = vArgs v ! 1, storeOp = vOp v, loads = Map.empty\<rparr>
      else None)"

definition addLoad :: "nat \<Rightarrow> Value \<Rightarrow> memCell \<Rightarrow> memCell" where
  "addLoad i v c =
     (let c = c\<lparr>loads := (loads c)((vOp v, vTyp v) \<mapsto> i)\<rparr>; w = byteWidth (vOp v) in
      if width c <s w then c\<lparr>width := w\<rparr> else c)"

definition readableAs :: "Func \<Rightarrow> memCell \<Rightarrow> Value \<Rightarrow> nat option" where
  "readableAs f c v =
     (case loads c (vOp v, vTyp v) of
        Some prev \<Rightarrow> Some prev
      | None \<Rightarrow>
          (case storeVal c of
             None \<Rightarrow> None
           | Some x \<Rightarrow> if forwardable (storeOp c) (vOp v) \<and> vTyp (fval f x) = vTyp v then Some x else None))"

definition memKeyOf :: "Value \<Rightarrow> addrKey option" where
  "memKeyOf v = (case vArgs v of Some a # _ \<Rightarrow> Some (a, vAuxInt v) | _ \<Rightarrow> None)"

definition mayAlias :: "nat \<Rightarrow> i64 \<Rightarrow> i64 \<Rightarrow> nat \<Rightarrow> i64 \<Rightarrow> i64 \<Rightarrow> bool" where
  "mayAlias baseA offA widthA baseB offB widthB \<longleftrightarrow>
     (if baseA \<noteq> baseB then True else offA <s offB + widthB \<and> offB <s offA + widthA)"

record memopt_state =
  mo_avail :: "addrKey \<Rightarrow> memCell option"
  mo_canon :: "nat \<Rightarrow> nat option"
  mo_changed :: bool

text \<open>What a store leaves in the table: every other cell it cannot touch.\<close>

definition invalidate :: "addrKey \<Rightarrow> i64 \<Rightarrow> (addrKey \<Rightarrow> memCell option) \<Rightarrow> addrKey \<Rightarrow> memCell option" where
  "invalidate k w tab ck =
     (case tab ck of
        None \<Rightarrow> None
      | Some cc \<Rightarrow>
          if ck = k then Some cc
          else if mayAlias (fst ck) (snd ck) (width cc) (fst k) (snd k) w then None
          else Some cc)"

definition memopt_load :: "Func \<Rightarrow> memopt_state \<Rightarrow> nat \<Rightarrow> memopt_state" where
  "memopt_load f s i =
     (let v = fval f i in
      case memKeyOf v of
        None \<Rightarrow> s
      | Some k \<Rightarrow>
          (case mo_avail s k of
             None \<Rightarrow> s\<lparr>mo_avail := (mo_avail s)(k \<mapsto> newLoadCell i v)\<rparr>
           | Some cell \<Rightarrow>
               (case readableAs f cell v of
                  Some x \<Rightarrow> s\<lparr>mo_canon := (mo_canon s)(i \<mapsto> x), mo_changed := True\<rparr>
                | None \<Rightarrow> s\<lparr>mo_avail := (mo_avail s)(k \<mapsto> addLoad i v cell)\<rparr>)))"

definition memopt_store :: "memopt_state \<Rightarrow> Value \<Rightarrow> memopt_state option" where
  "memopt_store s v =
     (case memKeyOf v of
        None \<Rightarrow> Some (s\<lparr>mo_avail := Map.empty\<rparr>)
      | Some k \<Rightarrow>
          (case newStoreCell v of
             None \<Rightarrow> None
           | Some cell \<Rightarrow> Some (s\<lparr>mo_avail := (invalidate k (byteWidth (vOp v)) (mo_avail s))(k \<mapsto> cell)\<rparr>)))"

definition memopt_scan_value :: "Func \<Rightarrow> memopt_state \<Rightarrow> nat \<Rightarrow> memopt_state option" where
  "memopt_scan_value f s i =
     (let v = fval f i in
      if vOp v = OpInvalid then Some s
      else if isLinearLoad (vOp v) then Some (memopt_load f s i)
      else if isLinearStore (vOp v) then memopt_store s v
      else if isMemBarrier v then Some (s\<lparr>mo_avail := Map.empty\<rparr>)
      else Some s)"

definition memopt_scan_block :: "Func \<Rightarrow> memopt_state \<Rightarrow> nat \<Rightarrow> memopt_state option" where
  "memopt_scan_block f s b = fold_opt (memopt_scan_value f) (s\<lparr>mo_avail := Map.empty\<rparr>) (Values (fblk f b))"

definition memopt_scan :: "Func \<Rightarrow> memopt_state option" where
  "memopt_scan f = fold_opt (memopt_scan_block f)
     \<lparr>mo_avail = Map.empty, mo_canon = Map.empty, mo_changed = False\<rparr> (Blocks f)"

definition bury_replaced :: "(nat \<Rightarrow> nat option) \<Rightarrow> nat \<Rightarrow> Value \<Rightarrow> Value" where
  "bury_replaced canon i v =
     (if vOp v = OpInvalid then v
      else if canon i \<noteq> None then v\<lparr>vOp := OpInvalid, vArgs := []\<rparr>
      else v)"

definition MemOpt :: "Func \<Rightarrow> (Func \<times> bool) option" where
  "MemOpt f =
     (case memopt_scan f of
        None \<Rightarrow> None
      | Some s \<Rightarrow>
          if \<not> mo_changed s then Some (f, False)
          else (case fold_opt (rewrite_block (mo_canon s)) f (Blocks f) of
              None \<Rightarrow> None
            | Some f \<Rightarrow> Some (each_value (bury_replaced (mo_canon s)) f, True)))"

section \<open>What the scan finds\<close>

text \<open>The pass does not panic: every store has its value operand.\<close>

definition stores_ok :: "Func \<Rightarrow> bool" where
  "stores_ok f \<longleftrightarrow> (\<forall>v. listed f v \<longrightarrow> isLinearStore (vOp (fval f v)) \<longrightarrow> 1 < length (vArgs (fval f v)))"

text \<open>The table before a value, when the scan enters its block with an empty one.\<close>

fun tables :: "Func \<Rightarrow> (addrKey \<Rightarrow> memCell option) \<Rightarrow> nat list \<Rightarrow> (addrKey \<Rightarrow> memCell option)" where
  "tables f tab [] = tab"
| "tables f tab (i # ids) =
     (case memopt_scan_value f \<lparr>mo_avail = tab, mo_canon = Map.empty, mo_changed = False\<rparr> i of
        None \<Rightarrow> tab
      | Some s \<Rightarrow> tables f (mo_avail s) ids)"

definition found :: "Func \<Rightarrow> nat \<Rightarrow> nat \<Rightarrow> bool" where
  "found f v x \<longleftrightarrow>
     (\<exists>b \<in> set (Blocks f). \<exists>pre post k cell. Values (fblk f b) = pre @ v # post \<and>
        vOp (fval f v) \<noteq> OpInvalid \<and> isLinearLoad (vOp (fval f v)) \<and> memKeyOf (fval f v) = Some k \<and>
        tables f Map.empty pre k = Some cell \<and> readableAs f cell (fval f v) = Some x)"

lemma tables_append: "tables f tab (xs @ ys) = tables f (tables f tab xs) ys" if "stores_ok f" "\<And>i. i \<in> set xs \<Longrightarrow> listed f i"
  using that(2)
proof (induction xs arbitrary: tab)
  case (Cons i xs)
  have "listed f i" using Cons.prems by simp
  then have "memopt_scan_value f \<lparr>mo_avail = tab, mo_canon = Map.empty, mo_changed = False\<rparr> i \<noteq> None"
    using that(1)
    by (auto simp: memopt_scan_value_def memopt_store_def newStoreCell_def stores_ok_def Let_def split: option.splits)
  then show ?case using Cons by auto
qed simp

text \<open>One step of the scan, split into what it does to the table and what it records.\<close>

lemma memopt_scan_value_ok:
  assumes "stores_ok f" and "listed f i"
  shows "\<exists>s'. memopt_scan_value f s i = Some s' \<and> mo_avail s' = tables f (mo_avail s) [i] \<and>
    (mo_canon s' = mo_canon s \<and> mo_changed s' = mo_changed s \<or>
     (\<exists>k cell x. vOp (fval f i) \<noteq> OpInvalid \<and> isLinearLoad (vOp (fval f i)) \<and> memKeyOf (fval f i) = Some k \<and>
        mo_avail s k = Some cell \<and> readableAs f cell (fval f i) = Some x \<and> mo_canon s' = (mo_canon s)(i \<mapsto> x) \<and> mo_changed s'))"
proof -
  let ?v = "fval f i"
  have st: "isLinearStore (vOp ?v) \<Longrightarrow> 1 < length (vArgs ?v)" using assms by (auto simp: stores_ok_def)
  show ?thesis
  proof (cases "vOp ?v \<noteq> OpInvalid \<and> isLinearLoad (vOp ?v)")
    case True
    then show ?thesis
      by (auto simp: memopt_scan_value_def memopt_load_def Let_def split: option.splits)
  next
    case False
    then show ?thesis using st
      by (auto simp: memopt_scan_value_def memopt_store_def newStoreCell_def Let_def split: option.splits)
  qed
qed

definition canon_ok :: "Func \<Rightarrow> memopt_state \<Rightarrow> bool" where
  "canon_ok f s \<longleftrightarrow> (\<forall>v x. mo_canon s v = Some x \<longrightarrow> found f v x) \<and> (mo_changed s \<longleftrightarrow> mo_canon s \<noteq> Map.empty)"

lemma memopt_scan_values_ok:
  assumes so: "stores_ok f" and b: "b \<in> set (Blocks f)" and "Values (fblk f b) = pre @ ids @ post"
    and "canon_ok f s" and "mo_avail s = tables f Map.empty pre"
  shows "\<exists>s'. fold_opt (memopt_scan_value f) s ids = Some s' \<and> canon_ok f s'"
  using assms(3-)
proof (induction ids arbitrary: pre s)
  case (Cons i ids)
  have "i \<in> set (Values (fblk f b))" using Cons.prems(1) by simp
  then have l: "listed f i" using b by (auto simp: listed_def)
  have lp: "listed f j" if "j \<in> set pre" for j using that Cons.prems(1) b by (auto simp: listed_def intro!: bexI [of _ b])
  obtain s' where s': "memopt_scan_value f s i = Some s'" "mo_avail s' = tables f (mo_avail s) [i]"
      "mo_canon s' = mo_canon s \<and> mo_changed s' = mo_changed s \<or>
       (\<exists>k cell x. vOp (fval f i) \<noteq> OpInvalid \<and> isLinearLoad (vOp (fval f i)) \<and> memKeyOf (fval f i) = Some k \<and>
          mo_avail s k = Some cell \<and> readableAs f cell (fval f i) = Some x \<and> mo_canon s' = (mo_canon s)(i \<mapsto> x) \<and> mo_changed s')"
    using memopt_scan_value_ok [OF so l] by blast
  have "canon_ok f s'"
    using s'(3)
  proof
    assume "\<exists>k cell x. vOp (fval f i) \<noteq> OpInvalid \<and> isLinearLoad (vOp (fval f i)) \<and> memKeyOf (fval f i) = Some k \<and>
          mo_avail s k = Some cell \<and> readableAs f cell (fval f i) = Some x \<and> mo_canon s' = (mo_canon s)(i \<mapsto> x) \<and> mo_changed s'"
    then obtain k cell x where k: "vOp (fval f i) \<noteq> OpInvalid" "isLinearLoad (vOp (fval f i))" "memKeyOf (fval f i) = Some k"
        "mo_avail s k = Some cell" "readableAs f cell (fval f i) = Some x" and c: "mo_canon s' = (mo_canon s)(i \<mapsto> x)" "mo_changed s'"
      by blast
    have "found f i x" unfolding found_def using b Cons.prems(1,3) k
      by (intro bexI [of _ b] exI [of _ pre] exI [of _ "ids @ post"] exI [of _ k] exI [of _ cell]) auto
    then show ?thesis using c Cons.prems(2) by (auto simp: canon_ok_def)
  qed (use Cons.prems(2) in \<open>auto simp: canon_ok_def\<close>)
  moreover have "mo_avail s' = tables f Map.empty (pre @ [i])"
    using s'(2) Cons.prems(3) tables_append [OF so lp] by simp
  ultimately have "\<exists>s''. fold_opt (memopt_scan_value f) s' ids = Some s'' \<and> canon_ok f s''"
    using Cons.prems(1) by (intro Cons.IH [of "pre @ [i]"]) auto
  then show ?case using s'(1) by simp
qed simp

lemma memopt_scan_ok:
  assumes "stores_ok f"
  shows "\<exists>s. memopt_scan f = Some s \<and> canon_ok f s"
proof -
  have "\<exists>s'. fold_opt (memopt_scan_block f) s bs = Some s' \<and> canon_ok f s'"
    if "set bs \<subseteq> set (Blocks f)" "canon_ok f s" for bs s
    using that
  proof (induction bs arbitrary: s)
    case (Cons b bs)
    have "\<exists>s'. fold_opt (memopt_scan_value f) (s\<lparr>mo_avail := Map.empty\<rparr>) (Values (fblk f b)) = Some s' \<and> canon_ok f s'"
      using Cons.prems by (intro memopt_scan_values_ok [OF assms, of b "[]" _ "[]"]) (auto simp: canon_ok_def)
    then show ?case using Cons by (auto simp: memopt_scan_block_def)
  qed simp
  then show ?thesis by (auto simp: memopt_scan_def canon_ok_def)
qed


section \<open>What the table means\<close>

lemma byteWidth_access: "isLinearLoad op \<or> isLinearStore op \<Longrightarrow> unat (byteWidth op) = access_width op"
  by (auto simp: isLinearLoad_def isLinearStore_def byteWidth_def access_width_def)

lemma byteWidth_le8: "byteWidth op \<le> 8"
  by (auto simp: byteWidth_def)

lemma forwardable_width: "forwardable sop lop \<Longrightarrow> isLinearStore sop \<and> access_width lop = access_width sop"
  by (auto simp: forwardable_def isLinearStore_def access_width_def split: if_splits)

text \<open>A stored value comes back from a load of the matching kind.\<close>

lemma forward_load:
  assumes "forwardable sop lop" and "store_helper sop w = Some sto" and "map_of load_helpers (lop, typ) = Some ld"
    and "has_type typ w" and "sto m a off = Inr m'" and "mlen m \<le> length (backing m)"
  shows "ld m' a off = Inr w"
proof -
  have "map_trap W32 (mload32 m' a off) = Inr (W32 x)" if "mstore32 m a off x = Inr m'" for x
    using access32.load_after_store [OF that assms(6)] by simp
  moreover have "map_trap W64 (mload64 m' a off) = Inr (W64 x)" if "mstore64 m a off x = Inr m'" for x
    using access64.load_after_store [OF that assms(6)] by simp
  moreover have "map_trap WF32 (mloadF32 m' a off) = Inr (WF32 x)" if "mstoreF32 m a off x = Inr m'" for x
    using accessF32.load_after_store [OF that assms(6)] by simp
  moreover have "map_trap WF64 (mloadF64 m' a off) = Inr (WF64 x)" if "mstoreF64 m a off x = Inr m'" for x
    using accessF64.load_after_store [OF that assms(6)] by simp
  ultimately show ?thesis
    using assms(1-5) by (cases w) (auto simp: forwardable_def load_helpers_def split: if_splits)
qed

text \<open>The invariant of runs: values have the kind of their type, and the slice lies in its array.\<close>

definition mem_I :: "Func \<Rightarrow> env \<Rightarrow> 'x machine \<Rightarrow> bool" where
  "mem_I f env st \<longleftrightarrow>
     (\<forall>v w. listed f v \<longrightarrow> env v = Some w \<longrightarrow> has_type (vTyp (fval f v)) w) \<and> mlen (fst st) \<le> length (backing (fst st))"

text \<open>
  What is asked of the function and of the operations the pass does not look into: phis join
  values of their own type, stores have the memory type, every other operation returns a value of
  its type, and those that are not barriers leave the memory alone.
\<close>

definition mem_typed :: "Func \<Rightarrow> bool" where
  "mem_typed f \<longleftrightarrow>
     (\<forall>v. listed f v \<longrightarrow>
        (vOp (fval f v) = OpPhi \<longrightarrow> (\<forall>a. Some a \<in> set (vArgs (fval f v)) \<longrightarrow> vTyp (fval f a) = vTyp (fval f v))) \<and>
        (vOp (fval f v) \<in> store_ops \<longrightarrow> vTyp (fval f v) = TypeMem))"

definition mem_frame :: "'x machine sem \<Rightarrow> Func \<Rightarrow> bool" where
  "mem_frame ext f \<longleftrightarrow>
     (\<forall>v env st as r st'. listed f v \<longrightarrow> runs (fval f v) \<longrightarrow> vOp (fval f v) \<notin> load_ops \<union> store_ops \<longrightarrow>
        mem_I f env st \<longrightarrow> arg_vals env (vArgs (fval f v)) = Some as \<longrightarrow>
        eval_value (mem_sem ext) (fval f v) as st = Done (r, st') \<longrightarrow>
        has_type (vTyp (fval f v)) r \<and> mlen (fst st') \<le> length (backing (fst st')) \<and>
        (\<not> isMemBarrier (fval f v) \<longrightarrow> mlen (fst st') = mlen (fst st) \<and> backing (fst st') = backing (fst st)))"

lemma mem_frameD:
  assumes "mem_frame ext f" and "listed f v" and "runs (fval f v)" and "vOp (fval f v) \<notin> load_ops \<union> store_ops"
    and "mem_I f env st" and "arg_vals env (vArgs (fval f v)) = Some as"
    and "eval_value (mem_sem ext) (fval f v) as st = Done (r, st')"
  shows "has_type (vTyp (fval f v)) r" and "mlen (fst st') \<le> length (backing (fst st'))"
    and "\<not> isMemBarrier (fval f v) \<Longrightarrow> mlen (fst st') = mlen (fst st) \<and> backing (fst st') = backing (fst st)"
  using assms unfolding mem_frame_def by blast+

lemma store_semD:
  assumes "store_sem op c as st = Done (r, st')"
  obtains a w sto m' where "as = [W32 a, w]" "store_helper op w = Some sto" "c \<le> 0xffffffff"
    "sto (fst st) a (ucast c) = Inr m'" "r = WNone" "st' = (m', snd st)"
  using assms
  by (auto simp: store_sem_def trap_out_def split: list.splits wval.splits option.splits if_splits sum.splits)

lemma load_semD:
  assumes "load_sem op typ c as st = Done (r, st')"
  obtains a ld where "as = [W32 a]" "map_of load_helpers (op, typ) = Some ld" "c \<le> 0xffffffff"
    "ld (fst st) a (ucast c) = Inr r" "st' = st"
  using assms
  by (auto simp: load_sem_def trap_out_def split: list.splits wval.splits option.splits if_splits sum.splits)

lemma mem_keeps:
  assumes ok: "ssa_ok f" and typed: "mem_typed f" and frame: "mem_frame ext f"
  shows "keeps (mem_sem ext) f (mem_I f)"
  unfolding keeps_def
proof (intro conjI ballI allI impI)
  fix b k env st env1
  assume b: "b \<in> set (Blocks f)" and I: "mem_I f env st" and en: "enter f (Values (fblk f b)) k env = Some env1"
  have "has_type (vTyp (fval f v)) w" if v: "listed f v" "env1 v = Some w" for v w
  proof (cases "v \<in> phi_ids f (Values (fblk f b))")
    case True
    then have phi: "vOp (fval f v) = OpPhi" by (simp add: phi_ids_def)
    have "phi_val f k env v = Some w" using en v(2) True by (auto simp: enter_def split: if_splits)
    then obtain a where a: "k < length (vArgs (fval f v))" "vArgs (fval f v) ! k = Some a" "env a = Some w"
      by (auto simp: phi_val_def arg_val_def split: if_splits option.splits)
    then have mem: "Some a \<in> set (vArgs (fval f v))" by (metis nth_mem)
    have "k < length (Preds (fblk f b))" using ok b True a(1) by (auto simp: ssa_ok_def uses_ok_def)
    then have "dom_def f a (eBlock (Preds (fblk f b) ! k))" using ok b True a by (auto simp: ssa_ok_def uses_ok_def)
    then have "listed f a" by (auto simp: dom_def_def listed_def)
    then have "has_type (vTyp (fval f a)) w" using I a(3) by (simp add: mem_I_def)
    then show ?thesis using typed v(1) phi mem by (simp add: mem_typed_def)
  next
    case False
    then have "env v = Some w" using en v(2) by (auto simp: enter_def split: if_splits)
    then show ?thesis using I v(1) by (simp add: mem_I_def)
  qed
  then show "mem_I f env1 st" using I by (simp add: mem_I_def)
next
  fix v env st env1 st1
  assume l: "listed f v" and I: "mem_I f env st" and ex: "exec_value (mem_sem ext) f v (env, st) = Done (env1, st1)"
  show "mem_I f env1 st1"
  proof (cases "runs (fval f v)")
    case False
    then show ?thesis using ex I by (simp add: exec_value_def)
  next
    case True
    then obtain as r where as: "arg_vals env (vArgs (fval f v)) = Some as"
        "eval_value (mem_sem ext) (fval f v) as st = Done (r, st1)" "env1 = env(v \<mapsto> r)"
      using ex by (auto simp: exec_value_def split: option.splits)
    have "has_type (vTyp (fval f v)) r \<and> mlen (fst st1) \<le> length (backing (fst st1))"
    proof (cases "vOp (fval f v) \<in> load_ops \<union> store_ops")
      case False
      then show ?thesis using mem_frameD [OF frame l True False I as(1,2)] by simp
    next
      case mem: True
      have sl: "mlen (fst st) \<le> length (backing (fst st))" using I by (simp add: mem_I_def)
      show ?thesis
      proof (cases "vOp (fval f v) \<in> load_ops")
        case True
        then show ?thesis using as(2) load_sem_typed sl by (fastforce simp: eval_value_def mem_sem_def)
      next
        case False
        then have "store_sem (vOp (fval f v)) (vAuxInt (fval f v)) as st = Done (r, st1)"
          using mem as(2) by (simp add: eval_value_def mem_sem_def)
        then obtain a w sto m' where "store_helper (vOp (fval f v)) w = Some sto"
            "sto (fst st) a (ucast (vAuxInt (fval f v))) = Inr m'" "st1 = (m', snd st)"
          by (rule store_semD)
        then show ?thesis using store_slice [OF _ _ sl] typed l mem False by (auto simp: mem_typed_def)
      qed
    qed
    then show ?thesis using I as(3) by (auto simp: mem_I_def)
  qed
qed

definition cell_static :: "Func \<Rightarrow> nat \<Rightarrow> nat list \<Rightarrow> nat \<Rightarrow> memCell \<Rightarrow> bool" where
  "cell_static f b pre base cell \<longleftrightarrow>
     avail f b pre base \<and> width cell \<le> 8 \<and>
     (\<forall>x. storeVal cell = Some x \<longrightarrow> avail f b pre x \<and> isLinearStore (storeOp cell) \<and> byteWidth (storeOp cell) \<le> width cell) \<and>
     (\<forall>op typ x. loads cell (op, typ) = Some x \<longrightarrow> avail f b pre x \<and> isLinearLoad op \<and> byteWidth op \<le> width cell)"

definition cell_dyn :: "env \<Rightarrow> RtModule \<Rightarrow> nat \<Rightarrow> i64 \<Rightarrow> memCell \<Rightarrow> bool" where
  "cell_dyn env m base off cell \<longleftrightarrow>
     (\<exists>a. env base = Some (W32 a) \<and> off \<le> 0xffffffff \<and>
        (\<forall>x. storeVal cell = Some x \<longrightarrow> (\<exists>w. env x = Some w \<and>
           (\<forall>lop typ ld. forwardable (storeOp cell) lop \<longrightarrow> has_type typ w \<longrightarrow>
              map_of load_helpers (lop, typ) = Some ld \<longrightarrow> ld m a (ucast off) = Inr w))) \<and>
        (\<forall>op typ x. loads cell (op, typ) = Some x \<longrightarrow> (\<exists>w. env x = Some w \<and>
           (\<forall>ld. map_of load_helpers (op, typ) = Some ld \<longrightarrow> ld m a (ucast off) = Inr w))))"

definition tab_static :: "Func \<Rightarrow> nat \<Rightarrow> nat list \<Rightarrow> (addrKey \<Rightarrow> memCell option) \<Rightarrow> bool" where
  "tab_static f b pre tab \<longleftrightarrow> (\<forall>base off cell. tab (base, off) = Some cell \<longrightarrow> cell_static f b pre base cell)"

definition cells_ok :: "(addrKey \<Rightarrow> memCell option) \<Rightarrow> env \<Rightarrow> RtModule \<Rightarrow> bool" where
  "cells_ok tab env m \<longleftrightarrow> (\<forall>base off cell. tab (base, off) = Some cell \<longrightarrow> cell_dyn env m base off cell)"

lemma cell_static_mono: "cell_static f b pre base cell \<Longrightarrow> cell_static f b (pre @ [v]) base cell"
  by (auto simp: cell_static_def avail_above)

lemma cell_frame:
  assumes st: "cell_static f b pre base cell" and dyn: "cell_dyn env m base off cell"
    and env: "\<And>y. avail f b pre y \<Longrightarrow> env' y = env y"
    and mem: "\<And>a n. env base = Some (W32 a) \<Longrightarrow> n \<le> unat (width cell) \<Longrightarrow>
      mload_bytes n m' a (ucast off) = mload_bytes n m a (ucast off)"
  shows "cell_dyn env' m' base off cell"
proof -
  obtain a where a: "env base = Some (W32 a)" "off \<le> 0xffffffff" using dyn by (auto simp: cell_dyn_def)
  have same: "ld m' a (ucast off) = ld m a (ucast off)"
    if ld: "map_of load_helpers (op, ty) = Some ld" and w: "access_width op \<le> unat (width cell)" for op ty ld
  proof -
    obtain dec where "\<And>m a off. ld m a off = map_trap dec (mload_bytes (access_width op) m a off)"
      using load_helper_bytes [OF ld] by blast
    then show ?thesis using mem [OF a(1) w] by simp
  qed
  have sw: "access_width lop \<le> unat (width cell)" if "storeVal cell = Some x" "forwardable (storeOp cell) lop" for x lop
  proof -
    have "byteWidth (storeOp cell) \<le> width cell" "isLinearStore (storeOp cell)" using st that(1) by (auto simp: cell_static_def)
    then show ?thesis using forwardable_width [OF that(2)] byteWidth_access by (simp add: word_le_nat_alt)
  qed
  have lw: "access_width op \<le> unat (width cell)" if "loads cell (op, ty) = Some x" for op ty x
  proof -
    have "byteWidth op \<le> width cell" "isLinearLoad op" using st that by (auto simp: cell_static_def)
    then show ?thesis using byteWidth_access [of op] by (simp add: word_le_nat_alt)
  qed
  have e: "env' base = env base" "\<And>x. storeVal cell = Some x \<Longrightarrow> env' x = env x" "\<And>k x. loads cell k = Some x \<Longrightarrow> env' x = env x"
    using st env by (auto simp: cell_static_def)
  show ?thesis unfolding cell_dyn_def
  proof (intro exI [of _ a] conjI allI impI)
    fix x assume x: "storeVal cell = Some x"
    then obtain w where w: "env x = Some w" "\<And>lop ty ld. forwardable (storeOp cell) lop \<Longrightarrow> has_type ty w \<Longrightarrow>
              map_of load_helpers (lop, ty) = Some ld \<Longrightarrow> ld m a (ucast off) = Inr w"
      using dyn a(1) by (auto simp: cell_dyn_def)
    have "ld m' a (ucast off) = Inr w"
      if "forwardable (storeOp cell) lop" "has_type ty w" "map_of load_helpers (lop, ty) = Some ld" for lop ty ld
      using w(2) [OF that] same [OF that(3) sw [OF x that(1)]] by simp
    then show "\<exists>w. env' x = Some w \<and> (\<forall>lop ty ld. forwardable (storeOp cell) lop \<longrightarrow> has_type ty w \<longrightarrow>
              map_of load_helpers (lop, ty) = Some ld \<longrightarrow> ld m' a (ucast off) = Inr w)"
      using e(2) [OF x] w(1) by (intro exI [of _ w] conjI allI impI) simp_all
  next
    fix op ty x assume x: "loads cell (op, ty) = Some x"
    then obtain w where w: "env x = Some w" "\<And>ld. map_of load_helpers (op, ty) = Some ld \<Longrightarrow> ld m a (ucast off) = Inr w"
      using dyn a(1) by (force simp: cell_dyn_def)
    then show "\<exists>w. env' x = Some w \<and> (\<forall>ld. map_of load_helpers (op, ty) = Some ld \<longrightarrow> ld m' a (ucast off) = Inr w)"
      using e(3) [OF x] same [OF _ lw [OF x]] by (intro exI [of _ w]) simp
  qed (use a e(1) in auto)
qed

lemma cells_frame:
  assumes "tab_static f b pre tab" and "cells_ok tab env m" and "\<And>y. avail f b pre y \<Longrightarrow> env' y = env y"
    and "\<And>n a off. mload_bytes n m' a off = mload_bytes n m a off"
  shows "cells_ok tab env' m'"
  unfolding cells_ok_def
proof (intro allI impI)
  fix base off cell assume t: "tab (base, off) = Some cell"
  have c: "cell_static f b pre base cell" "cell_dyn env m base off cell"
    using assms(1,2) t by (auto simp: cells_ok_def tab_static_def)
  show "cell_dyn env' m' base off cell" by (rule cell_frame [OF c assms(3,4)])
qed

lemma avail_ne:
  assumes "ssa_ok f" and b: "b \<in> set (Blocks f)" and split: "Values (fblk f b) = pre @ v # post"
    and "runs (fval f v)" and "avail f b pre a"
  shows "a \<noteq> v"
proof -
  have v: "vals_ok f" using assms(1) by (simp add: ssa_ok_def)
  then have "distinct (Values (fblk f b))" using b by (simp add: vals_ok_def)
  then have "distinct (pre @ v # post)" using split by simp
  then show ?thesis
    using assms(4,5) split vals_ok_unique [OF v _ b, of _ v] by (auto simp: avail_def phi_ids_def runs_def)
qed

lemma use_avail:
  assumes "ssa_ok f" and "b \<in> set (Blocks f)" and "Values (fblk f b) = pre @ v # post"
    and "runs (fval f v)" and "Some a \<in> set (vArgs (fval f v))"
  shows "avail f b pre a"
  using assms unfolding ssa_ok_def uses_ok_def by metis

lemma offsets_disjoint:
  fixes o1 o2 w1 w2 :: i64
  assumes "o1 \<le> 0xffffffff" "o2 \<le> 0xffffffff" "w1 \<le> 8" "w2 \<le> 8" and "\<not> (o1 <s o2 + w2 \<and> o2 <s o1 + w1)"
  shows "unat o2 + unat w2 \<le> unat o1 \<or> unat o1 + unat w1 \<le> unat o2"
proof -
  have le: "unat o1 \<le> 0xffffffff" "unat o2 \<le> 0xffffffff" "unat w1 \<le> 8" "unat w2 \<le> 8"
    using assms(1-4) by (simp_all add: word_le_nat_alt)
  have sum: "unat (o1 + w1) = unat o1 + unat w1" "unat (o2 + w2) = unat o2 + unat w2"
    using le by (simp_all add: unat_word_ariths)
  have s: "sint o1 = int (unat o1)" "sint o2 = int (unat o2)" "sint (o1 + w1) = int (unat (o1 + w1))" "sint (o2 + w2) = int (unat (o2 + w2))"
    using le sum by (intro sint_small; simp)+
  show ?thesis using assms(5) unfolding word_sless_alt s sum by linarith
qed

lemma mea_off: "off \<le> (0xffffffff :: i64) \<Longrightarrow> mea a (ucast off) = unat a + unat off"
  by (simp add: mea_eq unsigned_ucast_eq take_bit_eq_mod word_le_nat_alt)

lemma memKey_args:
  assumes "memKeyOf v = Some (base, off)"
  shows "vArgs v = Some base # tl (vArgs v) \<and> vAuxInt v = off"
  using assms by (auto simp: memKeyOf_def split: list.splits option.splits)

lemma linear_ops: "isLinearLoad op \<longleftrightarrow> op \<in> load_ops" "isLinearStore op \<longleftrightarrow> op \<in> store_ops"
  by (simp_all add: isLinearLoad_def isLinearStore_def load_ops_def store_ops_def)

lemma load_run:
  assumes "vOp v \<in> load_ops" and "arg_vals env (vArgs v) = Some as"
    and "eval_value (mem_sem ext) v as st = Done (r, st')"
  obtains base a ld where "vArgs v = [Some base]" "env base = Some (W32 a)" "map_of load_helpers (vOp v, vTyp v) = Some ld"
    "vAuxInt v \<le> 0xffffffff" "ld (fst st) a (ucast (vAuxInt v)) = Inr r" "st' = st" "memKeyOf v = Some (base, vAuxInt v)"
proof -
  have "load_sem (vOp v) (vTyp v) (vAuxInt v) as st = Done (r, st')" using assms(1,3) by (simp add: eval_value_def mem_sem_def)
  then obtain a ld where a: "as = [W32 a]" "map_of load_helpers (vOp v, vTyp v) = Some ld" "vAuxInt v \<le> 0xffffffff"
    "ld (fst st) a (ucast (vAuxInt v)) = Inr r" "st' = st" by (rule load_semD)
  then have "map (arg_val env) (vArgs v) = [Some (W32 a)]" using assms(2) by (simp add: arg_vals_nth)
  then obtain base where "vArgs v = [Some base]" "env base = Some (W32 a)"
    by (auto simp: arg_val_def split: option.splits)
  then show thesis using that a by (simp add: memKeyOf_def)
qed

lemma store_run:
  assumes "vOp v \<in> store_ops" and "arg_vals env (vArgs v) = Some as"
    and "eval_value (mem_sem ext) v as st = Done (r, st')"
  obtains base a x w sto m' where "vArgs v = [Some base, Some x]" "env base = Some (W32 a)" "env x = Some w"
    "store_helper (vOp v) w = Some sto" "vAuxInt v \<le> 0xffffffff" "sto (fst st) a (ucast (vAuxInt v)) = Inr m'"
    "st' = (m', snd st)" "memKeyOf v = Some (base, vAuxInt v)"
proof -
  have "vOp v \<notin> load_ops" using assms(1) by (auto simp: load_ops_def store_ops_def)
  then have "store_sem (vOp v) (vAuxInt v) as st = Done (r, st')" using assms(1,3) by (simp add: eval_value_def mem_sem_def)
  then obtain a w sto m' where a: "as = [W32 a, w]" "store_helper (vOp v) w = Some sto" "vAuxInt v \<le> 0xffffffff"
    "sto (fst st) a (ucast (vAuxInt v)) = Inr m'" "st' = (m', snd st)" by (rule store_semD)
  then have "map (arg_val env) (vArgs v) = [Some (W32 a), Some w]" using assms(2) by (simp add: arg_vals_nth)
  then obtain base x where "vArgs v = [Some base, Some x]" "env base = Some (W32 a)" "env x = Some w"
    by (auto simp: arg_val_def split: option.splits)
  then show thesis using that a by (simp add: memKeyOf_def)
qed

text \<open>The steps of the scan that change the table.\<close>

lemma tables_load:
  assumes "isLinearLoad (vOp (fval f v))" and "memKeyOf (fval f v) = Some k"
  shows "tables f tab [v] =
      (case tab k of None \<Rightarrow> tab(k \<mapsto> newLoadCell v (fval f v))
       | Some cell \<Rightarrow> (case readableAs f cell (fval f v) of Some x \<Rightarrow> tab | None \<Rightarrow> tab(k \<mapsto> addLoad v (fval f v) cell)))"
  using assms by (auto simp: memopt_scan_value_def memopt_load_def isLinearLoad_def Let_def split: option.splits)

lemma tables_store:
  assumes "isLinearStore (vOp (fval f v))" and "memKeyOf (fval f v) = Some k" and "1 < length (vArgs (fval f v))"
  shows "tables f tab [v] = (invalidate k (byteWidth (vOp (fval f v))) tab)(k \<mapsto>
    \<lparr>width = byteWidth (vOp (fval f v)), storeVal = vArgs (fval f v) ! 1, storeOp = vOp (fval f v), loads = Map.empty\<rparr>)"
  using assms
  by (auto simp: memopt_scan_value_def memopt_store_def isLinearStore_def isLinearLoad_def newStoreCell_def Let_def)

lemma tables_other:
  assumes "\<not> isLinearLoad (vOp (fval f v))" and "\<not> isLinearStore (vOp (fval f v))"
  shows "tables f tab [v] = tab \<or> tables f tab [v] = Map.empty"
  using assms by (auto simp: memopt_scan_value_def Let_def)

lemma addLoad_simps:
  "storeVal (addLoad v val cell) = storeVal cell" "storeOp (addLoad v val cell) = storeOp cell"
  "loads (addLoad v val cell) = (loads cell)((vOp val, vTyp val) \<mapsto> v)"
  by (auto simp: addLoad_def Let_def)

lemma addLoad_width:
  assumes "width cell \<le> 8"
  shows "width cell \<le> width (addLoad v val cell)" and "byteWidth (vOp val) \<le> width (addLoad v val cell)"
    and "width (addLoad v val cell) \<le> 8"
proof -
  have "unat (width cell) \<le> 8" "unat (byteWidth (vOp val)) \<le> 8"
    using assms byteWidth_le8 by (auto simp: word_le_nat_alt)
  then have "sint (width cell) = int (unat (width cell))"
      "sint (byteWidth (vOp val)) = int (unat (byteWidth (vOp val)))" by (intro sint_small; simp)+
  then have "width cell <s byteWidth (vOp val) \<longleftrightarrow> width cell < byteWidth (vOp val)"
    unfolding word_sless_alt word_less_nat_alt by (metis of_nat_less_iff)
  then show "width cell \<le> width (addLoad v val cell)" "byteWidth (vOp val) \<le> width (addLoad v val cell)"
      "width (addLoad v val cell) \<le> 8"
    using assms byteWidth_le8 unfolding addLoad_def Let_def by auto
qed

lemma static_step:
  assumes ok: "ssa_ok f" and so: "stores_ok f" and b: "b \<in> set (Blocks f)" and split: "Values (fblk f b) = pre @ v # post"
    and tab: "tab_static f b pre tab"
  shows "tab_static f b (pre @ [v]) (tables f tab [v])"
proof -
  let ?v = "fval f v"
  have old: "tab_static f b (pre @ [v]) tab" using tab cell_static_mono by (auto simp: tab_static_def)
  have "v \<in> set (Values (fblk f b))" using split by simp
  then have l: "listed f v" using b by (auto simp: listed_def)
  have use: "avail f b (pre @ [v]) a" if "isLinearLoad (vOp ?v) \<or> isLinearStore (vOp ?v)" "Some a \<in> set (vArgs ?v)" for a
  proof -
    have "runs ?v" using that(1) by (auto simp: runs_def isLinearLoad_def isLinearStore_def)
    then show ?thesis using use_avail [OF ok b split _ that(2)] by (auto simp: avail_above)
  qed
  have key: "Some (fst k) \<in> set (vArgs ?v)" if "memKeyOf ?v = Some k" for k
    using memKey_args [of ?v "fst k" "snd k"] that by (metis list.set_intros(1) prod.collapse)
  have up: "tab_static f b (pre @ [v]) (tab'(k \<mapsto> cell))"
    if "tab_static f b (pre @ [v]) tab'" "cell_static f b (pre @ [v]) (fst k) cell" for tab' k cell
    using that by (auto simp: tab_static_def)
  show ?thesis
  proof (cases "isLinearLoad (vOp ?v)")
    case load: True
    show ?thesis
    proof (cases "memKeyOf ?v")
      case None
      then show ?thesis using load old by (simp add: memopt_scan_value_def memopt_load_def Let_def)
    next
      case (Some k)
      have base: "avail f b (pre @ [v]) (fst k)" using use load key [OF Some] by blast
      have v: "avail f b (pre @ [v]) v" by (simp add: avail_above)
      have new: "cell_static f b (pre @ [v]) (fst k) (newLoadCell v ?v)"
        using base v load byteWidth_le8 by (auto simp: cell_static_def newLoadCell_def split: if_splits)
      have add: "cell_static f b (pre @ [v]) (fst k) (addLoad v ?v cell)" if "tab k = Some cell" for cell
      proof -
        have c: "cell_static f b (pre @ [v]) (fst k) cell" using old that by (cases k) (auto simp: tab_static_def)
        then have "width cell \<le> 8" by (simp add: cell_static_def)
        note w = addLoad_width [OF this]
        show ?thesis
          using c w base v load unfolding cell_static_def addLoad_simps
          by (auto split: if_splits intro: order_trans [OF _ w(1)])
      qed
      show ?thesis using up [OF old new] up [OF old add] old unfolding tables_load [OF load Some] by (auto split: option.splits)
    qed
  next
    case nload: False
    show ?thesis
    proof (cases "isLinearStore (vOp ?v)")
      case store: True
      have len: "1 < length (vArgs ?v)" using so l store by (simp add: stores_ok_def)
      show ?thesis
      proof (cases "memKeyOf ?v")
        case None
        then show ?thesis using store nload old by (auto simp: memopt_scan_value_def memopt_store_def tab_static_def Let_def)
      next
        case (Some k)
        have "vArgs ?v ! 1 \<in> set (vArgs ?v)" using len by (rule nth_mem)
        then have "cell_static f b (pre @ [v]) (fst k)
            \<lparr>width = byteWidth (vOp ?v), storeVal = vArgs ?v ! 1, storeOp = vOp ?v, loads = Map.empty\<rparr>"
          using use store key [OF Some] byteWidth_le8 by (auto simp: cell_static_def)
        moreover have "tab_static f b (pre @ [v]) (invalidate k (byteWidth (vOp ?v)) tab)"
          using old by (auto simp: tab_static_def invalidate_def split: option.splits if_splits)
        ultimately show ?thesis using up by (simp only: tables_store [OF store Some len])
      qed
    next
      case False
      then show ?thesis using tables_other [OF nload False, of tab] old by (auto simp: tab_static_def)
    qed
  qed
qed

lemma tables_static:
  assumes ok: "ssa_ok f" and so: "stores_ok f" and b: "b \<in> set (Blocks f)" and "Values (fblk f b) = pre @ post"
  shows "tab_static f b pre (tables f Map.empty pre)"
  using assms(4)
proof (induction pre arbitrary: post rule: rev_induct)
  case Nil
  then show ?case by (simp add: tab_static_def)
next
  case (snoc v pre)
  have l: "listed f j" if "j \<in> set pre" for j
    using that snoc.prems b by (auto simp: listed_def intro!: bexI [of _ b])
  have split: "Values (fblk f b) = pre @ v # post" using snoc.prems by simp
  have "tab_static f b (pre @ [v]) (tables f (tables f Map.empty pre) [v])"
    by (rule static_step [OF ok so b split snoc.IH [OF split]])
  then show ?case using tables_append [OF so l] by simp
qed

lemma cells_load:
  assumes stat: "tab_static f b pre tab" and cells: "cells_ok tab env m"
    and base: "avail f b pre base" and fresh: "\<And>y. avail f b pre y \<Longrightarrow> y \<noteq> v"
    and op: "isLinearLoad (vOp (fval f v))" and key: "memKeyOf (fval f v) = Some (base, vAuxInt (fval f v))"
    and a: "env base = Some (W32 a)" "vAuxInt (fval f v) \<le> 0xffffffff"
    and ld: "map_of load_helpers (vOp (fval f v), vTyp (fval f v)) = Some ld" "ld m a (ucast (vAuxInt (fval f v))) = Inr r"
  shows "cells_ok (tables f tab [v]) (env(v \<mapsto> r)) m"
proof -
  let ?k = "(base, vAuxInt (fval f v))"
  have old: "cells_ok tab (env(v \<mapsto> r)) m"
    using fresh by (intro cells_frame [OF stat cells]) auto
  have bne: "base \<noteq> v" using fresh base by blast
  have up: "cells_ok (tab(?k \<mapsto> cell)) (env(v \<mapsto> r)) m"
    if "cell_dyn (env(v \<mapsto> r)) m base (vAuxInt (fval f v)) cell" for cell
    using old that by (auto simp: cells_ok_def)
  have "cell_dyn (env(v \<mapsto> r)) m base (vAuxInt (fval f v)) (newLoadCell v (fval f v))"
    using a ld bne by (auto simp: cell_dyn_def newLoadCell_def)
  moreover have "cell_dyn (env(v \<mapsto> r)) m base (vAuxInt (fval f v)) (addLoad v (fval f v) cell)" if "tab ?k = Some cell" for cell
  proof -
    have c: "cell_dyn (env(v \<mapsto> r)) m base (vAuxInt (fval f v)) cell" using old that by (auto simp: cells_ok_def)
    then obtain a' where "(env(v \<mapsto> r)) base = Some (W32 a')" by (auto simp: cell_dyn_def)
    then have "a' = a" using a bne by simp
    then show ?thesis using c a ld bne unfolding cell_dyn_def addLoad_simps by (auto split: if_splits)
  qed
  ultimately show ?thesis using up old unfolding tables_load [OF op key] by (auto split: option.splits)
qed

lemma cells_store:
  assumes stat: "tab_static f b pre tab" and cells: "cells_ok tab env m"
    and base: "avail f b pre base" and x: "avail f b pre x" and fresh: "\<And>y. avail f b pre y \<Longrightarrow> y \<noteq> v"
    and op: "isLinearStore (vOp (fval f v))" and args: "vArgs (fval f v) = [Some base, Some x]"
    and a: "env base = Some (W32 a)" "env x = Some w" "vAuxInt (fval f v) \<le> 0xffffffff"
    and sto: "store_helper (vOp (fval f v)) w = Some sto" "sto m a (ucast (vAuxInt (fval f v))) = Inr m'"
    and sl: "mlen m \<le> length (backing m)"
  shows "cells_ok (tables f tab [v]) (env(v \<mapsto> r)) m'"
  unfolding cells_ok_def
proof (intro allI impI)
  let ?o = "vAuxInt (fval f v)" and ?w = "byteWidth (vOp (fval f v))"
  let ?cell = "\<lparr>width = ?w, storeVal = Some x, storeOp = vOp (fval f v), loads = Map.empty\<rparr>"
  have "memKeyOf (fval f v) = Some (base, ?o)" by (simp add: memKeyOf_def args)
  from tables_store [OF op this] have "tables f tab [v] = (invalidate (base, ?o) ?w tab)((base, ?o) \<mapsto> ?cell)" by (simp add: args)
  moreover fix base' off cell assume "tables f tab [v] (base', off) = Some cell"
  ultimately consider "base' = base" "off = ?o" "cell = ?cell"
    | "(base', off) \<noteq> (base, ?o)" "tab (base', off) = Some cell" "\<not> mayAlias base' off (width cell) base ?o ?w"
    by (auto simp: invalidate_def split: if_splits option.splits)
  then show "cell_dyn (env(v \<mapsto> r)) m' base' off cell"
  proof cases
    case 1
    have "base \<noteq> v" "x \<noteq> v" using fresh base x by blast+
    then have "cell_dyn (env(v \<mapsto> r)) m' base ?o ?cell"
      using a forward_load [OF _ sto(1) _ _ sto(2) sl] by (auto simp: cell_dyn_def)
    then show ?thesis using 1 by simp
  next
    case 2
    have c: "cell_static f b pre base' cell" "cell_dyn env m base' off cell"
      using stat cells 2(2) by (auto simp: cells_ok_def tab_static_def)
    have b': "base' = base" and dis: "\<not> (off <s ?o + ?w \<and> ?o <s off + width cell)"
      using 2(3) by (auto simp: mayAlias_def split: if_splits)
    have off: "off \<le> 0xffffffff" "width cell \<le> 8" using c by (auto simp: cell_static_def cell_dyn_def)
    have apart: "unat ?o + unat ?w \<le> unat off \<or> unat off + unat (width cell) \<le> unat ?o"
      using offsets_disjoint [OF off(1) a(3) off(2) byteWidth_le8 dis] by blast
    show ?thesis
    proof (rule cell_frame [OF c])
      fix a' n assume "env base' = Some (W32 a')" "n \<le> unat (width cell)"
      then show "mload_bytes n m' a' (ucast off) = mload_bytes n m a' (ucast off)"
        using apart a(1) b' byteWidth_access [of "vOp (fval f v)"] op
        by (intro store_elsewhere [OF sto sl]) (auto simp: mea_off [OF off(1)] mea_off [OF a(3)])
    qed (use fresh in auto)
  qed
qed

lemma cells_step:
  assumes ok: "ssa_ok f" and frame: "mem_frame ext f" and b: "b \<in> set (Blocks f)"
    and split: "Values (fblk f b) = pre @ v # post"
    and stat: "tab_static f b pre tab" and cells: "cells_ok tab env (fst st)" and I: "mem_I f env st"
    and ex: "exec_value (mem_sem ext) f v (env, st) = Done (env', st')"
  shows "cells_ok (tables f tab [v]) env' (fst st')"
proof -
  let ?v = "fval f v"
  have "v \<in> set (Values (fblk f b))" using split by simp
  then have l: "listed f v" using b by (auto simp: listed_def)
  have sl: "mlen (fst st) \<le> length (backing (fst st))" using I by (simp add: mem_I_def)
  show ?thesis
  proof (cases "runs ?v")
    case False
    then have "tables f tab [v] = tab" "env' = env" "st' = st"
      using ex by (auto simp: memopt_scan_value_def exec_value_def runs_def isLinearLoad_def isLinearStore_def isMemBarrier_def)
    then show ?thesis using cells_frame [OF stat cells] by simp
  next
    case run: True
    then obtain as r where as: "arg_vals env (vArgs ?v) = Some as"
        "eval_value (mem_sem ext) ?v as st = Done (r, st')" "env' = env(v \<mapsto> r)"
      using ex by (auto simp: exec_value_def split: option.splits)
    note fresh = avail_ne [OF ok b split run]
    note use = use_avail [OF ok b split run]
    consider "vOp ?v \<in> load_ops" | "vOp ?v \<in> store_ops" | "vOp ?v \<notin> load_ops \<union> store_ops" by blast
    then show ?thesis
    proof cases
      case 1
      obtain base a ld where ld: "vArgs ?v = [Some base]" "env base = Some (W32 a)" "map_of load_helpers (vOp ?v, vTyp ?v) = Some ld"
        "vAuxInt ?v \<le> 0xffffffff" "ld (fst st) a (ucast (vAuxInt ?v)) = Inr r" "st' = st" "memKeyOf ?v = Some (base, vAuxInt ?v)"
        by (rule load_run [OF 1 as(1,2)])
      have "avail f b pre base" "isLinearLoad (vOp ?v)" using use ld(1) 1 by (simp_all add: linear_ops)
      then show ?thesis unfolding as(3) ld(6)
        by (intro cells_load [OF stat cells _ _ _ ld(7,2,4,3,5)]) (simp_all add: fresh)
    next
      case 2
      obtain base a x w sto m' where sto: "vArgs ?v = [Some base, Some x]" "env base = Some (W32 a)" "env x = Some w"
        "store_helper (vOp ?v) w = Some sto" "vAuxInt ?v \<le> 0xffffffff" "sto (fst st) a (ucast (vAuxInt ?v)) = Inr m'"
        "st' = (m', snd st)" "memKeyOf ?v = Some (base, vAuxInt ?v)"
        by (rule store_run [OF 2 as(1,2)])
      have "avail f b pre base" "avail f b pre x" "isLinearStore (vOp ?v)" using use sto(1) 2 by (simp_all add: linear_ops)
      then show ?thesis unfolding as(3) sto(7) fst_conv
        by (intro cells_store [OF stat cells _ _ _ _ sto(1-3,5,4,6) sl]) (simp_all add: fresh)
    next
      case 3
      note fr = mem_frameD [OF frame l run 3 I as(1,2)]
      show ?thesis
      proof (cases "isMemBarrier ?v")
        case True
        then have "tables f tab [v] = Map.empty"
          using 3 run by (auto simp: memopt_scan_value_def linear_ops runs_def)
        then show ?thesis by (simp add: cells_ok_def)
      next
        case False
        then have "tables f tab [v] = tab" using 3 run by (auto simp: memopt_scan_value_def linear_ops runs_def)
        moreover have "mload_bytes n (fst st') a off = mload_bytes n (fst st) a off" for n a off
          using conjunct1 [OF fr(3) [OF False]] conjunct2 [OF fr(3) [OF False]] unfolding mload_bytes_def Let_def by simp
        ultimately show ?thesis using cells_frame [OF stat cells] fresh by (simp add: as(3))
      qed
    qed
  qed
qed

lemma cells_hold:
  assumes ok: "ssa_ok f" and typed: "mem_typed f" and frame: "mem_frame ext f" and so: "stores_ok f" and b: "b \<in> set (Blocks f)"
    and "Values (fblk f b) = pre @ post" and I: "mem_I f env0 st0" and "exec_vals (mem_sem ext) f pre (env0, st0) = Done (env, st)"
  shows "cells_ok (tables f Map.empty pre) env (fst st)"
  using assms(6,8)
proof (induction pre arbitrary: env st post rule: rev_induct)
  case Nil
  then show ?case by (simp add: cells_ok_def)
next
  case (snoc v pre)
  obtain env1 st1 where e: "exec_vals (mem_sem ext) f pre (env0, st0) = Done (env1, st1)"
      "exec_value (mem_sem ext) f v (env1, st1) = Done (env, st)"
    using snoc.prems(2) by (auto simp: exec_vals_append)
  have l: "listed f j" if "j \<in> set pre" for j
    using that snoc.prems(1) b by (auto simp: listed_def intro!: bexI [of _ b])
  have split: "Values (fblk f b) = pre @ v # post" using snoc.prems(1) by simp
  have I1: "mem_I f env1 st1" using keeps_exec [OF mem_keeps [OF ok typed frame] l _ e(1)] I by simp
  have "cells_ok (tables f (tables f Map.empty pre) [v]) env (fst st)"
    by (rule cells_step [OF ok frame b split tables_static [OF ok so b split] snoc.IH [OF split e(1)] I1 e(2)])
  then show ?case using tables_append [OF so l] by simp
qed


section \<open>Soundness\<close>

lemma foundD:
  assumes ok: "ssa_ok f" and fd: "found f v x" and b: "b \<in> set (Blocks f)" and split: "Values (fblk f b) = pre @ v # post"
  obtains k cell where "runs (fval f v)" "isLinearLoad (vOp (fval f v))" "memKeyOf (fval f v) = Some k"
    "tables f Map.empty pre k = Some cell" "readableAs f cell (fval f v) = Some x"
proof -
  obtain c p q k cell where c: "c \<in> set (Blocks f)" "Values (fblk f c) = p @ v # q" "vOp (fval f v) \<noteq> OpInvalid"
      "isLinearLoad (vOp (fval f v))" "memKeyOf (fval f v) = Some k"
      "tables f Map.empty p k = Some cell" "readableAs f cell (fval f v) = Some x"
    using fd unfolding found_def by blast
  have "c = b" using ssa_ok_lists(3) [OF ok c(1) b, of v] c(2) split by simp
  then have eq: "p @ v # q = pre @ v # post" using c(2) split by simp
  have dist: "distinct (p @ v # q)" using ssa_ok_lists(2) [OF ok c(1)] c(2) by simp
  have "pre = p" by (rule split_unique(1) [OF dist eq])
  moreover have "runs (fval f v)" using c(3,4) by (auto simp: runs_def isLinearLoad_def)
  ultimately show thesis using that c by simp
qed

lemma readable_avail:
  assumes "cell_static f b pre base cell" and "readableAs f cell val = Some x"
  shows "avail f b pre x"
  using assms by (auto simp: readableAs_def cell_static_def split: option.splits if_splits)

lemma found_avail:
  assumes ok: "ssa_ok f" and so: "stores_ok f" and fd: "found f v x"
    and b: "b \<in> set (Blocks f)" and split: "Values (fblk f b) = pre @ v # post"
  shows "avail f b pre x"
proof -
  obtain k cell where k: "tables f Map.empty pre k = Some cell" "readableAs f cell (fval f v) = Some x"
    by (rule foundD [OF ok fd b split])
  have "cell_static f b pre (fst k) cell"
    using tables_static [OF ok so b split] k(1) by (cases k) (auto simp: tab_static_def)
  then show ?thesis using readable_avail k(2) by blast
qed

lemma found_value:
  assumes ok: "ssa_ok f" and typed: "mem_typed f" and frame: "mem_frame ext f" and so: "stores_ok f" and fd: "found f v x"
    and b: "b \<in> set (Blocks f)" and split: "Values (fblk f b) = pre @ v # post"
    and I: "mem_I f env0 st0" and ex: "exec_vals (mem_sem ext) f pre (env0, st0) = Done (env, st)"
    and as: "arg_vals env (vArgs (fval f v)) = Some as"
  shows "eval_value (mem_sem ext) (fval f v) as st = Stuck \<or>
    (\<exists>r. eval_value (mem_sem ext) (fval f v) as st = Done (r, st) \<and> env x = Some r)"
proof -
  let ?v = "fval f v"
  obtain k cell where run: "runs ?v" and op: "isLinearLoad (vOp ?v)" and key: "memKeyOf ?v = Some k"
      and cell: "tables f Map.empty pre k = Some cell" "readableAs f cell ?v = Some x"
    by (rule foundD [OF ok fd b split])
  obtain base off where k: "k = (base, off)" by (cases k)
  have args: "vArgs ?v = Some base # tl (vArgs ?v)" "vAuxInt ?v = off" using memKey_args [of ?v base off] key k by auto
  have dyn: "cell_dyn env (fst st) base off cell"
    using cells_hold [OF ok typed frame so b split I ex] cell(1) k by (auto simp: cells_ok_def)
  have stat: "cell_static f b pre base cell"
    using tables_static [OF ok so b split] cell(1) k by (auto simp: tab_static_def)
  have eval: "eval_value (mem_sem ext) ?v as st = load_sem (vOp ?v) (vTyp ?v) off as st"
    using op args(2) by (simp add: eval_value_def mem_sem_def linear_ops)
  obtain a where a: "env base = Some (W32 a)" "off \<le> 0xffffffff" using dyn by (auto simp: cell_dyn_def)
  show ?thesis
  proof (cases "\<exists>ld. as = [W32 a] \<and> map_of load_helpers (vOp ?v, vTyp ?v) = Some ld")
    case False
    obtain rest where rest: "vArgs ?v = Some base # rest" using args(1) by blast
    have "map (arg_val env) (vArgs ?v) = map Some as" using as by (simp add: arg_vals_nth)
    then have "as \<noteq> [] \<and> hd as = W32 a" using a(1) unfolding rest by (cases as) (simp_all add: arg_val_def)
    then have "load_sem (vOp ?v) (vTyp ?v) off as st = Stuck"
      using False by (auto simp: load_sem_def split: list.splits wval.splits option.splits)
    then show ?thesis using eval by simp
  next
    case True
    then obtain ld where ld: "as = [W32 a]" "map_of load_helpers (vOp ?v, vTyp ?v) = Some ld" by blast
    have "\<exists>w. env x = Some w \<and> ld (fst st) a (ucast off) = Inr w"
    proof (cases "loads cell (vOp ?v, vTyp ?v)")
      case (Some y)
      then have "y = x" using cell(2) by (simp add: readableAs_def)
      then show ?thesis using dyn Some a(1) ld(2) by (fastforce simp: cell_dyn_def)
    next
      case None
      then have x: "storeVal cell = Some x" "forwardable (storeOp cell) (vOp ?v)" "vTyp (fval f x) = vTyp ?v"
        using cell(2) by (auto simp: readableAs_def split: option.splits if_splits)
      then obtain w where w: "env x = Some w" "has_type (vTyp ?v) w \<Longrightarrow> ld (fst st) a (ucast off) = Inr w"
        using dyn a(1) ld(2) by (fastforce simp: cell_dyn_def)
      have lp: "listed f j" if "j \<in> set pre" for j using that split b by (auto simp: listed_def intro!: bexI [of _ b])
      have "before f v x" by (rule beforeI [OF b split]) (use found_avail [OF ok so fd b split] run in \<open>simp add: runs_def\<close>)
      then have "listed f x" by (rule before_listed)
      moreover have "mem_I f env st" using keeps_exec [OF mem_keeps [OF ok typed frame] lp _ ex] I by simp
      ultimately have "has_type (vTyp ?v) w" using w(1) x(3) by (auto simp: mem_I_def)
      then show ?thesis using w by blast
    qed
    then show ?thesis using eval ld a(2) by (auto simp: load_sem_def trap_out_def)
  qed
qed

lemma MemOpt_subst:
  assumes ok: "ssa_ok f" and r: "all_reachable f" and so: "stores_ok f"
  obtains "MemOpt f = Some (f, False)"
    | canon \<sigma> where "MemOpt f = Some (apply_subst \<sigma> f, True)" "resolves canon \<sigma>" "\<And>v x. canon v = Some x \<Longrightarrow> found f v x"
      "\<And>v. canon (\<sigma> v) = None" "\<And>v. canon v = None \<Longrightarrow> \<sigma> v = v" "\<And>v x. canon v = Some x \<Longrightarrow> \<sigma> v = \<sigma> x"
proof -
  obtain s where s: "memopt_scan f = Some s" "canon_ok f s" using memopt_scan_ok [OF so] by blast
  show thesis
  proof (cases "mo_changed s")
    case False
    then show thesis using that(1) s(1) by (simp add: MemOpt_def)
  next
    case True
    let ?c = "mo_canon s"
    have fd: "found f v x" if "?c v = Some x" for v x using s(2) that by (simp add: canon_ok_def)
    have down: "rank f x < rank f v" if c: "?c v = Some x" for v x
    proof -
      obtain b pre post where b: "b \<in> set (Blocks f)" "Values (fblk f b) = pre @ v # post"
        using fd [OF c] by (auto simp: found_def)
      have "runs (fval f v)" by (rule foundD [OF ok fd [OF c] b])
      then have "before f v x"
        using found_avail [OF ok so fd [OF c] b] by (intro beforeI [OF b]) (simp add: runs_def)
      then show ?thesis by (rule rank_less [OF ok r])
    qed
    obtain \<sigma> where \<sigma>: "resolves ?c \<sigma>" "\<And>v. ?c (\<sigma> v) = None" "\<And>v. ?c v = None \<Longrightarrow> \<sigma> v = v"
        "\<And>v x. ?c v = Some x \<Longrightarrow> \<sigma> v = \<sigma> x"
      using resolves_by_rank [of ?c "rank f"] down by blast
    have ne: "\<sigma> v \<noteq> v \<longleftrightarrow> ?c v \<noteq> None" for v using \<sigma>(2) [of v] \<sigma>(3) [of v] by auto
    have "map_option (each_value (bury_replaced ?c)) (fold_opt (rewrite_block ?c) f (Blocks f)) = Some (apply_subst \<sigma> f)"
      using ne by (intro rewrite_bury [OF ok \<sigma>(1)]) (auto simp: bury_replaced_def subst_value_def)
    then have "MemOpt f = Some (apply_subst \<sigma> f, True)"
      using s(1) True by (auto simp: MemOpt_def split: option.splits)
    then show thesis by (rule that(2) [OF _ \<sigma>(1) fd \<sigma>(2,3,4)])
  qed
qed

text \<open>The return and throw operands are the copies the builder appends, never loads.\<close>

definition markers_ok :: "Func \<Rightarrow> bool" where
  "markers_ok f \<longleftrightarrow> (\<forall>b \<in> set (Blocks f). \<forall>v \<in> set (markers f b). vOp (fval f v) = OpCopy)"

lemma found_subst_ok:
  assumes ok: "ssa_ok f" and r: "all_reachable f" and typed: "mem_typed f" and frame: "mem_frame ext f" and so: "stores_ok f"
    and mk: "markers_ok f" and fd: "\<And>v x. canon v = Some x \<Longrightarrow> found f v x"
    and \<sigma>: "\<And>v. canon (\<sigma> v) = None" "\<And>v. canon v = None \<Longrightarrow> \<sigma> v = v" "\<And>v x. canon v = Some x \<Longrightarrow> \<sigma> v = \<sigma> x"
  shows "subst_ok (mem_sem ext) f (mem_I f) \<sigma>"
  unfolding subst_ok_def
proof (intro conjI ballI allI impI)
  fix v show "\<sigma> (\<sigma> v) = \<sigma> v" using \<sigma>(1,2) by simp
next
  fix b v assume "b \<in> set (Blocks f)" "v \<in> set (markers f b)"
  then have "vOp (fval f v) = OpCopy" using mk by (simp add: markers_ok_def)
  then have "canon v = None" using fd [of v] by (cases "canon v") (auto simp: found_def isLinearLoad_def)
  then show "\<sigma> v = v" by (rule \<sigma>(2))
next
  fix b pre v post
  assume b: "b \<in> set (Blocks f)" and split: "Values (fblk f b) = pre @ v # post" and ne: "\<sigma> v \<noteq> v"
  then obtain x where x: "canon v = Some x" using \<sigma>(2) by (cases "canon v") auto
  note fx = fd [OF x]
  have run: "runs (fval f v)" by (rule foundD [OF ok fx b split])
  then show "vOp (fval f v) \<noteq> OpInvalid" by (simp add: runs_def)
  have vx: "before f v x" using found_avail [OF ok so fx b split] run by (intro beforeI [OF b split]) (simp add: runs_def)
  have chain: "before f v (\<sigma> x)"
  proof -
    have "before f v (\<sigma> y)" if "before f v y" for y
      using that
    proof (induction "rank f y" arbitrary: y rule: less_induct)
      case less
      show ?case
      proof (cases "canon y")
        case (Some z)
        obtain c p q where c: "c \<in> set (Blocks f)" "Values (fblk f c) = p @ y # q"
          using fd [OF Some] by (auto simp: found_def)
        have "runs (fval f y)" by (rule foundD [OF ok fd [OF Some] c])
        then have yz: "before f y z"
          using found_avail [OF ok so fd [OF Some] c] by (intro beforeI [OF c]) (simp add: runs_def)
        then show ?thesis
          using less.hyps [OF rank_less [OF ok r yz] before_trans [OF ok r less.prems yz]] \<sigma>(3) [OF Some] by simp
      qed (use less.prems \<sigma>(2) in simp)
    qed
    then show ?thesis using vx by blast
  qed
  have "avail f b pre (\<sigma> v)"
    using beforeD [OF ok chain b split] run \<sigma>(3) [OF x] by (simp add: runs_def)
  moreover have "dies_ok (mem_sem ext) f (mem_I f) \<sigma> b pre v"
    unfolding dies_ok_def
  proof (intro allI impI)
    fix env0 st0 env st as
    assume I: "mem_I f env0 st0" and ex: "exec_vals (mem_sem ext) f pre (env0, st0) = Done (env, st)"
      and hold: "\<forall>a. avail f b pre a \<longrightarrow> env a = env (\<sigma> a)" and as: "arg_vals env (vArgs (fval f v)) = Some as"
    have "env x = env (\<sigma> v)" using hold found_avail [OF ok so fx b split] \<sigma>(3) [OF x] by auto
    then show "eval_value (mem_sem ext) (fval f v) as st = Stuck \<or>
        (\<exists>r. eval_value (mem_sem ext) (fval f v) as st = Done (r, st) \<and> env (\<sigma> v) = Some r)"
      using found_value [OF ok typed frame so fx b split I ex as] by simp
  qed
  ultimately show "if vOp (fval f v) = OpPhi then phi_dies_ok f \<sigma> b v
     else avail f b pre (\<sigma> v) \<and> dies_ok (mem_sem ext) f (mem_I f) \<sigma> b pre v"
    using run by (simp add: runs_def)
qed

text \<open>
  C27: Redundant-load elimination and store-to-load forwarding always end with a result, and the
  function they return computes the same from every state, provided every block is reachable, the
  function is well typed and only the barriers and the plain stores write to memory.
\<close>

theorem MemOpt_sound:
  assumes "ssa_ok f" and "all_reachable f" and "stores_ok f" and "markers_ok f" and "mem_typed f" and "mem_frame ext f"
    and "mlen (fst st) \<le> length (backing (fst st))"
  shows "\<exists>g c. MemOpt f = Some (g, c) \<and> (\<not> c \<longrightarrow> g = f) \<and>
    (run_func n (mem_sem ext) f st \<noteq> Stuck \<longrightarrow> run_func n (mem_sem ext) g st = run_func n (mem_sem ext) f st)"
proof (rule MemOpt_subst [OF assms(1-3)])
  fix canon \<sigma>
  assume c: "MemOpt f = Some (apply_subst \<sigma> f, True)" and \<sigma>: "\<And>v x. canon v = Some x \<Longrightarrow> found f v x"
      "\<And>v. canon (\<sigma> v) = None" "\<And>v. canon v = None \<Longrightarrow> \<sigma> v = v" "\<And>v x. canon v = Some x \<Longrightarrow> \<sigma> v = \<sigma> x"
  have sub: "subst_ok (mem_sem ext) f (mem_I f) \<sigma>"
    by (rule found_subst_ok [OF assms(1,2,5,6,3,4)]) (rule \<sigma>; assumption?)+
  have "sim_result True (run_func n (mem_sem ext) f st) (run_func n (mem_sem ext) (apply_subst \<sigma> f) st)"
    using assms(7) by (intro subst_sound [OF assms(1) sub mem_keeps [OF assms(1,5,6)]]) (simp add: mem_I_def)
  then show ?thesis using c by (auto simp: sim_result_iff)
qed auto


text \<open>
  A store of 7 at 64 is loaded back, a byte is stored eight bytes further and the word is loaded
  again; both loads are the stored 7.
\<close>

definition mem_func :: Func where
  "mem_func = straight [TypeI32]
     [value_of OpConst32 TypeI32 64 [], value_of OpConst32 TypeI32 7 [],
      value_of OpStore32 TypeMem 0 [1, 2], value_of OpLoad32 TypeI32 0 [1],
      value_of OpStore8 TypeMem 8 [1, 2], value_of OpLoad32 TypeI32 0 [1],
      value_of OpAdd32 TypeI32 0 [4, 6], value_of OpCopy TypeI32 0 [7]]"

lemma listed_straight: "listed (straight ts vs) v \<longleftrightarrow> 1 \<le> v \<and> v \<le> length vs"
  by (auto simp: listed_def)

lemma straight_reachable: "all_reachable (straight ts vs)"
  by (auto simp: all_reachable_def intro: avoids.entry)

lemma less_9: "1 \<le> (v :: nat) \<and> v \<le> 8 \<longleftrightarrow> v \<in> {1, 2, 3, 4, 5, 6, 7, 8}"
  by (simp only: insert_iff empty_iff simp_thms) presburger

lemma mem_func_hyps:
  "ssa_ok mem_func" "all_reachable mem_func" "stores_ok mem_func" "markers_ok mem_func" "mem_typed mem_func"
  "mem_frame (no_ext :: 'x machine sem) mem_func"
proof -
  show "ssa_ok mem_func"
    unfolding mem_func_def by (rule straight_ssa_ok) (simp add: straight_ok_def value_of_def upt_rec)
  show "all_reachable mem_func" unfolding mem_func_def by (rule straight_reachable)
  have l: "listed mem_func v \<longleftrightarrow> v \<in> {1, 2, 3, 4, 5, 6, 7, 8}" for v
    unfolding mem_func_def listed_straight less_9 [symmetric] by (simp add: numeral_eq_Suc)
  have fv: "fval mem_func (Suc 0) = value_of OpConst32 TypeI32 64 []" "fval mem_func 2 = value_of OpConst32 TypeI32 7 []"
      "fval mem_func 3 = value_of OpStore32 TypeMem 0 [1, 2]" "fval mem_func 4 = value_of OpLoad32 TypeI32 0 [1]"
      "fval mem_func 5 = value_of OpStore8 TypeMem 8 [1, 2]" "fval mem_func 6 = value_of OpLoad32 TypeI32 0 [1]"
      "fval mem_func 7 = value_of OpAdd32 TypeI32 0 [4, 6]" "fval mem_func 8 = value_of OpCopy TypeI32 0 [7]"
    by (simp_all add: mem_func_def fval_straight)
  show "stores_ok mem_func"
    by (auto simp: stores_ok_def l fv value_of_def isLinearStore_def)
  show "markers_ok mem_func"
    by (simp add: markers_ok_def markers_def mem_func_def fval_straight value_of_def upt_rec)
  show "mem_typed mem_func"
    by (auto simp: mem_typed_def l fv value_of_def store_ops_def)
  have op: "has_type (vTyp (fval mem_func v)) r \<and> st' = st"
    if "listed mem_func v" "vOp (fval mem_func v) \<notin> load_ops \<union> store_ops" "mem_I mem_func env st"
      "arg_vals env (vArgs (fval mem_func v)) = Some as" "eval_value (mem_sem no_ext) (fval mem_func v) as st = Done (r, st')"
    for v env as r and st st' :: "'x machine"
  proof -
    have t7: "env 7 = Some w \<Longrightarrow> \<exists>x. w = W32 x" for w using that(3) l [of 7] by (force simp: mem_I_def fv value_of_def)
    have "v \<in> {1, 2, 3, 4, 5, 6, 7, 8}" using that(1) l by simp
    then show ?thesis
      using that(2,4,5) t7
      by (auto simp: fv value_of_def load_ops_def store_ops_def eval_value_def mem_sem_def arg_vals_def arg_val_def
          std_sem_def int_ops_def bulk_ops_def split: option.splits elim!: int_op.elims)
  qed
  show "mem_frame (no_ext :: 'x machine sem) mem_func"
    unfolding mem_frame_def
  proof (intro allI impI)
    fix v env as r and st st' :: "'x machine"
    assume a: "listed mem_func v" "vOp (fval mem_func v) \<notin> load_ops \<union> store_ops" "mem_I mem_func env st"
      "arg_vals env (vArgs (fval mem_func v)) = Some as" "eval_value (mem_sem no_ext) (fval mem_func v) as st = Done (r, st')"
    show "has_type (vTyp (fval mem_func v)) r \<and> mlen (fst st') \<le> length (backing (fst st')) \<and>
        (\<not> isMemBarrier (fval mem_func v) \<longrightarrow> mlen (fst st') = mlen (fst st) \<and> backing (fst st') = backing (fst st))"
      using op [OF a] a(3) by (simp add: mem_I_def)
  qed
qed

lemma le_bytes4: "le_bytes 4 w = [ucast w, ucast (drop_bit 8 w), ucast (drop_bit 16 w), ucast (drop_bit 24 w)]"
  by (simp add: numeral_eq_Suc drop_bit_drop_bit)

lemma mem_func_run:
  "returned (run_func 1 (mem_sem no_ext) mem_func (sample_mem, ())) = Some [W32 14]"
  by (simp add: mem_func_def run_mem_simps load_helpers_def sample_mem_def mstore32_def mstore8_def mload32_def mstore_bytes_def mload_bytes_def
      mea_eq write_at_def overwrite_def le_bytes4 map_trap_def)


theorem MemOpt_sound_witness:
  "\<exists>g c. MemOpt mem_func = Some (g, c) \<and> returned (run_func 1 (mem_sem no_ext) g (sample_mem, ())) = Some [W32 14]"
proof -
  have "mlen (fst (sample_mem, ())) \<le> length (backing (fst (sample_mem, ())))" by (simp add: sample_mem_def)
  from MemOpt_sound [OF mem_func_hyps this, of 1] obtain g c where "MemOpt mem_func = Some (g, c)"
      "run_func 1 (mem_sem no_ext) mem_func (sample_mem, ()) \<noteq> Stuck \<longrightarrow>
       run_func 1 (mem_sem no_ext) g (sample_mem, ()) = run_func 1 (mem_sem no_ext) mem_func (sample_mem, ())" by blast
  moreover have "run_func 1 (mem_sem no_ext) mem_func (sample_mem, ()) \<noteq> Stuck" using mem_func_run by auto
  ultimately show ?thesis using mem_func_run by metis
qed

text \<open>The vector operations as the emitted code calls them.\<close>

definition vec_ext :: "'x machine sem" where
  "vec_ext op t c aux as st =
     (if op = OpSimdConst then (case aux of AuxV128 lo hi \<Rightarrow> Done (WV128 lo hi, st) | _ \<Rightarrow> Stuck)
      else if op = OpSimdMemCall \<and> aux = AuxString ''simd_v128_store'' then
        (case as of
           [W32 a, W32 off, WV128 lo hi] \<Rightarrow>
             trap_out st (\<lambda>m. (W32 0, m, snd st)) (simd_v128_store (fst st) a off (lo, hi))
         | _ \<Rightarrow> Stuck)
      else Stuck)"

text \<open>A word is loaded, a vector is stored over it, and the word is loaded again and returned.\<close>

definition vec_func :: Func where
  "vec_func = straight [TypeI32]
     [value_of OpConst32 TypeI32 0 [], value_of OpLoad32 TypeI32 0 [1],
      (value_of OpSimdConst TypeV128 0 [])\<lparr>vAux := AuxV128 5 0\<rparr>,
      (value_of OpSimdMemCall TypeI32 0 [1, 1, 3])\<lparr>vAux := AuxString ''simd_v128_store''\<rparr>,
      value_of OpLoad32 TypeI32 0 [1], value_of OpCopy TypeI32 0 [5]]"

lemma vec_func_ok: "ssa_ok vec_func"
  unfolding vec_func_def by (rule straight_ssa_ok) (simp add: straight_ok_def value_of_def upt_rec)

lemma le_bytes8: "le_bytes 8 w = [ucast w, ucast (drop_bit 8 w), ucast (drop_bit 16 w), ucast (drop_bit 24 w),
    ucast (drop_bit 32 w), ucast (drop_bit 40 w), ucast (drop_bit 48 w), ucast (drop_bit 56 w)]"
  by (simp add: numeral_eq_Suc drop_bit_drop_bit)

lemma le_word_zeros: "le_word (replicate n 0) = 0"
  by (induction n) simp_all

lemma MemOpt_vec_func: "MemOpt vec_func = Some (apply_subst (rep [5 \<mapsto> 2]) vec_func, True)"
proof -
  have "\<exists>s. memopt_scan vec_func = Some s \<and> mo_canon s = [5 \<mapsto> 2] \<and> mo_changed s"
    by (simp add: memopt_scan_def memopt_scan_block_def memopt_scan_value_def memopt_load_def vec_func_def fval_straight
        value_of_def upt_rec isLinearLoad_def isLinearStore_def isMemBarrier_def memKeyOf_def newLoadCell_def readableAs_def numeral_eq_Suc)
  then obtain s where s: "memopt_scan vec_func = Some s" "mo_canon s = [5 \<mapsto> 2]" "mo_changed s" by blast
  have flat: "flat [5 \<mapsto> 2]" by (auto simp: flat_def)
  have "map_option (each_value (bury_replaced [5 \<mapsto> 2])) (fold_opt (rewrite_block [5 \<mapsto> 2]) vec_func (Blocks vec_func)) =
      Some (apply_subst (rep [5 \<mapsto> 2]) vec_func)"
    by (rule rewrite_bury [OF vec_func_ok resolves_flat [OF flat]]) (auto simp: bury_replaced_def subst_value_def rep_def)
  then show ?thesis using s by (auto simp: MemOpt_def split: option.splits)
qed

text \<open>
  C35: A vector store does not end what the pass knows of memory: a word loaded before it is taken
  for the word loaded after it, although the store has overwritten it, so the function returns the
  old word.
\<close>

theorem MemOpt_forwards_across_vector_store:
  "ssa_ok vec_func \<and> \<not> isMemBarrier (fval vec_func 4) \<and>
   returned (run_func 1 (mem_sem vec_ext) vec_func (sample_mem, ())) = Some [W32 5] \<and>
   (\<exists>g. MemOpt vec_func = Some (g, True) \<and> returned (run_func 1 (mem_sem vec_ext) g (sample_mem, ())) = Some [W32 0])"
proof (intro conjI exI [of _ "apply_subst (rep [5 \<mapsto> 2]) vec_func"])
  note sims = run_mem_simps vec_ext_def load_helpers_def sample_mem_def mload32_def mload_bytes_def mea_eq map_trap_def
    simd_v128_store_def simdEA_def raw_write_v128_def raw_write_def write_at_def overwrite_def le_bytes8 le_word_zeros
  show "\<not> isMemBarrier (fval vec_func 4)" by (simp add: isMemBarrier_def vec_func_def fval_straight value_of_def)
  show "returned (run_func 1 (mem_sem vec_ext) vec_func (sample_mem, ())) = Some [W32 5]"
    by (simp add: sims vec_func_def)
  show "returned (run_func 1 (mem_sem vec_ext) (apply_subst (rep [5 \<mapsto> 2]) vec_func) (sample_mem, ())) = Some [W32 0]"
    by (simp add: sims vec_func_def apply_subst_def listed_def subst_value_def rep_def)
qed (rule vec_func_ok, rule MemOpt_vec_func)

end
