(* ===== verification/RtSimdSpec.thy ===== *)
theory RtSimdSpec
  imports RtSimdMem
begin

text \<open>
  What the SIMD memory helpers guarantee: under the memory invariant they trap exactly when a byte
  of the access lies outside the memory, never touch anything else through the raw pointer, and the
  memory64 family behaves like the 32-bit one wherever both apply.
\<close>

lemma simd_oob_not_Inr [simp]: "trap_simd_oob \<noteq> Inr v" "Inr v \<noteq> trap_simd_oob"
  by (simp_all add: trap_simd_oob_def)

text \<open>
  What an effective-address helper promises: the sum of address and offset as a number, if the
  access of the given size ends within the memory.
\<close>

locale simd_address =
  fixes ea :: "RtModule \<Rightarrow> 'a::len word \<Rightarrow> 'a word \<Rightarrow> u64 \<Rightarrow> u64 trap" and cap :: u64
  assumes exact: "mem_inv cap m \<Longrightarrow> sz \<le> 16 \<Longrightarrow>
    ea m addr off sz = (if unat addr + unat off + unat sz \<le> unat (memSize m)
                        then Inr (word_of_nat (unat addr + unat off)) else trap_simd_oob)"
begin

definition fits :: "RtModule \<Rightarrow> 'a word \<Rightarrow> 'a word \<Rightarrow> nat \<Rightarrow> bool" where
  "fits m addr off n \<longleftrightarrow> unat addr + unat off + n \<le> unat (memSize m)"

lemma in_range:
  assumes inv: "mem_inv cap m" and "fits m addr off n"
  shows "unat (word_of_nat (unat addr + unat off) :: u64) = unat addr + unat off"
    and "unat addr + unat off + n \<le> length (backing m)" and "mptr m = arr m"
proof -
  have "unat (memSize m) < 2 ^ 64" using unat_lt [of "memSize m"] by simp
  then have "unat addr + unat off < 2 ^ 64" using assms(2) unfolding fits_def by linarith
  then show "unat (word_of_nat (unat addr + unat off) :: u64) = unat addr + unat off"
    by (simp add: unsigned_of_nat take_bit_nat_eq_self_iff del: of_nat_add)
  show "unat addr + unat off + n \<le> length (backing m)"
    using assms(2) mem_invD(1,3) [OF inv] unfolding fits_def by linarith
  show "mptr m = arr m" using inv by (simp add: mem_inv_def)
qed

lemma load_exact:
  assumes inv: "mem_inv cap m" and "n \<le> 16"
  shows "bind_trap (ea m addr off (word_of_nat n)) (\<lambda>e. map_trap g (raw_read n m e)) =
    (if fits m addr off n then Inr (g (take n (drop (unat addr + unat off) (mem_abs m)))) else trap_simd_oob)"
proof -
  have n: "unat (word_of_nat n :: u64) = n" using assms(2) by (simp add: unsigned_of_nat take_bit_nat_eq_self_iff)
  have sz: "(word_of_nat n :: u64) \<le> 16" using n assms(2) by (simp add: word_le_nat_alt)
  have "take n (drop (unat addr + unat off) (mem_abs m)) = take n (drop (unat addr + unat off) (backing m))"
    if "fits m addr off n" using that by (simp add: mem_abs_def fits_def drop_take min_def)
  then show ?thesis
    using in_range [OF inv, of addr off n]
    by (auto simp: exact [OF inv sz] n fits_def raw_read_def map_trap_def trap_simd_oob_def)
qed

lemma store_exact:
  assumes inv: "mem_inv cap m" and "length bs \<le> 16"
  shows "bind_trap (ea m addr off (word_of_nat (length bs))) (\<lambda>e. raw_write m e bs) =
    (if fits m addr off (length bs) then Inr (write_at m (unat addr + unat off) bs) else trap_simd_oob)"
proof -
  have n: "unat (word_of_nat (length bs) :: u64) = length bs" using assms(2) by (simp add: unsigned_of_nat take_bit_nat_eq_self_iff)
  have sz: "(word_of_nat (length bs) :: u64) \<le> 16" using n assms(2) by (simp add: word_le_nat_alt)
  show ?thesis
    using in_range [OF inv, of addr off "length bs"]
    by (auto simp: exact [OF inv sz] n fits_def raw_write_def trap_simd_oob_def)
qed

end

lemma sum32_exact: "unat (ucast (a :: i32) + ucast (b :: i32) :: u64) = unat a + unat b"
  by (rule unat_sum32)

interpretation simd32: simd_address simdEA wasmMemHardCap
proof
  fix m and sz :: u64 and addr off :: i32
  assume "mem_inv wasmMemHardCap m" and sz: "sz \<le> 16"
  have "unat (ucast addr + ucast off + sz :: u64) = unat addr + unat off + unat sz"
  proof -
    have "unat addr < 2 ^ 32" "unat off < 2 ^ 32" "unat sz \<le> 16"
      using unat_lt [of addr] unat_lt [of off] sz by (simp_all add: word_le_nat_alt)
    then show ?thesis using sum32_exact [of addr off] by (simp add: unat_word_ariths)
  qed
  then show "simdEA m addr off sz = (if unat addr + unat off + unat sz \<le> unat (memSize m)
      then Inr (word_of_nat (unat addr + unat off)) else trap_simd_oob)"
    by (auto simp: simdEA_def Let_def word_less_nat_alt)
qed

interpretation simd64: simd_address simdEA64 mem64HardCap
proof
  fix m and sz :: u64 and addr off :: i64
  assume "mem_inv mem64HardCap m" and sz: "sz \<le> 16"
  have "(addr + off < addr \<or> addr + off + sz < addr + off \<or> addr + off + sz > memSize m) \<longleftrightarrow>
      \<not> unat addr + unat off + unat sz \<le> unat (memSize m)"
  proof (cases "unat addr + unat off < 2 ^ 64")
    case False
    then show ?thesis using unat_lt [of "memSize m"] sum64_wraps [of addr off] by simp
  next
    case True
    then have 1: "unat (addr + off) = unat addr + unat off" "\<not> addr + off < addr"
      by (simp_all add: unat_word_ariths word_less_nat_alt)
    show ?thesis
    proof (cases "unat (addr + off) + unat sz < 2 ^ 64")
      case False
      then show ?thesis using unat_lt [of "memSize m"] sum64_wraps [of "addr + off" sz] 1 by simp
    next
      case True
      then have "unat (addr + off + sz) = unat addr + unat off + unat sz" "\<not> addr + off + sz < addr + off"
        using 1 by (simp_all add: unat_word_ariths word_less_nat_alt)
      then show ?thesis using 1 by (simp add: word_less_nat_alt not_le)
    qed
  qed
  then show "simdEA64 m addr off sz = (if unat addr + unat off + unat sz \<le> unat (memSize m)
      then Inr (word_of_nat (unat addr + unat off)) else trap_simd_oob)"
    by (auto simp: simdEA64_def Let_def)
qed


section \<open>Whole vectors\<close>

lemma raw_write_twice:
  assumes "length xs = 8" and "length ys = 8" and "unat e + 16 < 2 ^ 64"
  shows "bind_trap (raw_write m e xs) (\<lambda>m. raw_write m (e + 8) ys) = raw_write m e (xs @ ys)"
proof -
  have e8: "unat (e + 8) = unat e + 8" using assms(3) by (simp add: unat_word_ariths)
  have "overwrite (overwrite bs (unat e) xs) (unat e + 8) ys = overwrite bs (unat e) (xs @ ys)"
    if "unat e + 16 \<le> length bs" for bs
    using assms(1,2) that by (simp add: overwrite_def min_def ac_simps)
  then show ?thesis
    using assms(1,2) by (auto simp: raw_write_def write_at_def e8 raw_fault_def)
qed

definition v128_bytes :: "v128 \<Rightarrow> byte list" where
  "v128_bytes v = le_bytes 8 (fst v) @ le_bytes 8 (snd v)"

definition bytes_v128 :: "byte list \<Rightarrow> v128" where
  "bytes_v128 bs = (le_word (take 8 bs), le_word (drop 8 bs))"

lemma bytes_v128_bytes [simp]: "bytes_v128 (v128_bytes v) = v"
  by (simp add: bytes_v128_def v128_bytes_def le_word_le_bytes)

lemma length_v128_bytes [simp]: "length (v128_bytes v) = 16"
  by (simp add: v128_bytes_def)

context simd_address
begin

lemma vector_load:
  assumes "mem_inv cap m"
  shows "bind_trap (ea m addr off 16) (raw_read_v128 m) =
    (if fits m addr off 16 then Inr (bytes_v128 (take 16 (drop (unat addr + unat off) (mem_abs m)))) else trap_simd_oob)"
proof -
  have "raw_read_v128 m = (\<lambda>e. map_trap bytes_v128 (raw_read 16 m e))"
    by (simp add: fun_eq_iff raw_read_v128_def bytes_v128_def [abs_def])
  then show ?thesis using load_exact [OF assms, of 16 addr off bytes_v128] by simp
qed

lemma vector_store:
  assumes "mem_inv cap m"
  shows "bind_trap (ea m addr off 16) (\<lambda>e. raw_write_v128 m e v) =
    (if fits m addr off 16 then Inr (write_at m (unat addr + unat off) (v128_bytes v)) else trap_simd_oob)"
proof -
  have small: "unat (memSize m) + 16 < 2 ^ 64"
    using mem_invD(1,2,3) [OF assms] by simp
  have "raw_write_v128 m e v = raw_write m e (v128_bytes v)" if "unat e \<le> unat (memSize m)" for e
    unfolding raw_write_v128_def v128_bytes_def using that small by (intro raw_write_twice) auto
  then have "bind_trap (ea m addr off 16) (\<lambda>e. raw_write_v128 m e v) =
      bind_trap (ea m addr off 16) (\<lambda>e. raw_write m e (v128_bytes v))"
    using in_range(1) [OF assms, of addr off 16] by (auto simp: exact [OF assms] fits_def trap_simd_oob_def)
  also have "\<dots> = (if fits m addr off 16 then Inr (write_at m (unat addr + unat off) (v128_bytes v)) else trap_simd_oob)"
    using store_exact [OF assms, of "v128_bytes v" addr off] by simp
  finally show ?thesis .
qed

end

text \<open>
  C33: Under the memory invariant the checked vector load and store of both address families trap
  exactly when one of the 16 bytes lies outside the memory, the address computed without wrapping;
  otherwise the load reads those bytes, the store replaces them and nothing else, and a stored
  vector is loaded back. The raw accesses never leave the array.
\<close>

theorem simd_load_store_spec:
  fixes addr off :: i32 and addr64 off64 :: i64
  assumes "mem_inv wasmMemHardCap m" and "mem_inv mem64HardCap m'"
  shows "simd_v128_load m addr off =
      (if unat addr + unat off + 16 \<le> unat (memSize m)
       then Inr (bytes_v128 (take 16 (drop (unat addr + unat off) (mem_abs m)))) else trap_simd_oob) \<and>
    simd_v128_store m addr off v =
      (if unat addr + unat off + 16 \<le> unat (memSize m)
       then Inr (write_at m (unat addr + unat off) (v128_bytes v)) else trap_simd_oob) \<and>
    bind_trap (simd_v128_store m addr off v) (\<lambda>m. simd_v128_load m addr off) = map_trap (\<lambda>_. v) (simd_v128_store m addr off v) \<and>
    simd_m64_v128_load m' addr64 off64 =
      (if unat addr64 + unat off64 + 16 \<le> unat (memSize m')
       then Inr (bytes_v128 (take 16 (drop (unat addr64 + unat off64) (mem_abs m')))) else trap_simd_oob) \<and>
    simd_m64_v128_store m' addr64 off64 v =
      (if unat addr64 + unat off64 + 16 \<le> unat (memSize m')
       then Inr (write_at m' (unat addr64 + unat off64) (v128_bytes v)) else trap_simd_oob) \<and>
    bind_trap (simd_m64_v128_store m' addr64 off64 v) (\<lambda>m. simd_m64_v128_load m addr64 off64) =
      map_trap (\<lambda>_. v) (simd_m64_v128_store m' addr64 off64 v)"
proof -
  note specs = simd_v128_load_def simd_v128_store_def simd_m64_v128_load_def simd_m64_v128_store_def
  have load: "simd_v128_load m addr off =
      (if unat addr + unat off + 16 \<le> unat (memSize m)
       then Inr (bytes_v128 (take 16 (drop (unat addr + unat off) (mem_abs m)))) else trap_simd_oob)"
    if "mem_inv wasmMemHardCap m" for m using simd32.vector_load [OF that] by (simp add: specs simd32.fits_def)
  have load64: "simd_m64_v128_load m addr64 off64 =
      (if unat addr64 + unat off64 + 16 \<le> unat (memSize m)
       then Inr (bytes_v128 (take 16 (drop (unat addr64 + unat off64) (mem_abs m)))) else trap_simd_oob)"
    if "mem_inv mem64HardCap m" for m using simd64.vector_load [OF that] by (simp add: specs simd64.fits_def)
  have store: "simd_v128_store m addr off v =
      (if unat addr + unat off + 16 \<le> unat (memSize m)
       then Inr (write_at m (unat addr + unat off) (v128_bytes v)) else trap_simd_oob)"
    using simd32.vector_store [OF assms(1)] by (simp add: specs simd32.fits_def)
  have store64: "simd_m64_v128_store m' addr64 off64 v =
      (if unat addr64 + unat off64 + 16 \<le> unat (memSize m')
       then Inr (write_at m' (unat addr64 + unat off64) (v128_bytes v)) else trap_simd_oob)"
    using simd64.vector_store [OF assms(2)] by (simp add: specs simd64.fits_def)
  have again: "mem_inv cap (write_at m a (v128_bytes v)) \<and>
      bytes_v128 (take 16 (drop a (mem_abs (write_at m a (v128_bytes v))))) = v"
    if "mem_inv cap m" "a + 16 \<le> unat (memSize m)" for cap m a
    using write_at_spec [OF that(1), of a "v128_bytes v"] that(2) length_mem_abs [OF that(1)]
      overwrite_read [of a "v128_bytes v" "mem_abs m"] by simp
  have rt: "bind_trap (simd_v128_store m addr off v) (\<lambda>m. simd_v128_load m addr off) = map_trap (\<lambda>_. v) (simd_v128_store m addr off v)"
    using again [OF assms(1), of "unat addr + unat off"]
    by (auto simp: store load map_trap_def trap_simd_oob_def)
  have rt64: "bind_trap (simd_m64_v128_store m' addr64 off64 v) (\<lambda>m. simd_m64_v128_load m addr64 off64) =
      map_trap (\<lambda>_. v) (simd_m64_v128_store m' addr64 off64 v)"
    using again [OF assms(2), of "unat addr64 + unat off64"]
    by (auto simp: store64 load64 map_trap_def trap_simd_oob_def)
  show ?thesis using load [OF assms(1)] store rt load64 [OF assms(2)] store64 rt64 by blast
qed


text \<open>The sample memory under the cap of the memory64 family.\<close>

lemma sample_mem_inv64: "mem_inv mem64HardCap sample_mem"
  by (simp add: mem_inv_def sample_mem_def mem64HardCap_def)

theorem simd_load_store_spec_witness:
  "(\<exists>m'. simd_v128_store sample_mem 32 8 (5, 7) = Inr m') \<and>
   simd_v128_store sample_mem 65520 1 (5, 7) = trap_simd_oob \<and>
   simd_m64_v128_load sample_mem (- 8) 16 = trap_simd_oob"
proof -
  have size: "unat (memSize sample_mem) = 65536" by (simp add: sample_mem_def)
  have big: "unat (- 8 :: i64) = 2 ^ 64 - 8" by simp
  note spec = simd_load_store_spec [OF sample_mem_inv sample_mem_inv64]
  show ?thesis
    using spec [of 32 8 "(5, 7)" "- 8" 16] spec [of 65520 1 "(5, 7)" 0 0] size big by simp
qed


section \<open>The two address families\<close>

text \<open>A lane of a vector.\<close>

definition vlane :: "nat \<Rightarrow> v128 \<Rightarrow> nat \<Rightarrow> u64" where
  "vlane w v i = take_bit w (drop_bit (w * i mod 64) (vget v (w * i div 64)))"

lemma vget_vset: "i < 2 \<Longrightarrow> j < 2 \<Longrightarrow> vget (vset v i x) j = (if i = j then x else vget v j)"
  by (auto simp: vget_def vset_def)

lemma bit_or_lanes:
  assumes w: "w dvd 64" "0 < w" and n: "n * w \<le> 128" and "k < 2"
  shows "bit (vget (or_lanes w n f) k) q \<longleftrightarrow> (\<exists>i < n. i * w div 64 = k \<and> bit (push_bit (w * i mod 64) (f i)) q)"
  using n
proof (induction n)
  case 0
  then show ?case using assms(4) by (simp add: or_lanes_def vget_def)
next
  case (Suc n)
  have "n * w < 128" using Suc.prems w by simp
  then have "n * w div 64 < 2" by (simp add: less_mult_imp_div_less)
  moreover have "or_lanes w (Suc n) f = vset (or_lanes w n f) (n * w div 64)
      (vget (or_lanes w n f) (n * w div 64) OR push_bit (w * n mod 64) (f n))"
    by (simp add: or_lanes_def)
  ultimately show ?case
    using Suc assms(4) by (auto simp: vget_vset less_Suc_eq bit_or_iff)
qed

text \<open>The assembling loop puts each lane where it belongs.\<close>

lemma vlane_or_lanes:
  assumes w: "w dvd 64" "0 < w" and n: "n * w \<le> 128" and i: "i < n" and f: "\<And>j. j < n \<Longrightarrow> take_bit w (f j) = f j"
  shows "vlane w (or_lanes w n f) i = f i"
proof (rule bit_word_eqI)
  fix q assume q: "q < LENGTH(64)"
  obtain c where c: "64 = w * c" using w(1) by (rule dvdE)
  have cpos: "0 < c" using c by (cases c) auto
  have iw: "i * w < 128" using i n w(2) by (meson less_le_trans mult_less_mono1)
  then have k: "w * i div 64 < 2" by (simp add: less_mult_imp_div_less mult.commute)
  have high: "bit (f j) b \<longleftrightarrow> b < w \<and> bit (f j) b" if "j < n" for j b
    using f [OF that] by (metis bit_take_bit_iff)
  have dv1: "j * w div 64 = j div c" for j
    unfolding c mult.commute [of j w] using w(2) by simp
  have dv2: "w * j mod 64 = w * (j mod c)" for j
    unfolding c by (rule mult_mod_right [symmetric])
  have dv3: "w * j div 64 = j div c" for j
    using dv1 [of j] by (simp only: mult.commute)
  note dv = dv1 dv2 dv3
  have room: "w * (i mod c) + w \<le> 64"
  proof -
    have "i mod c + 1 \<le> c" using cpos by (simp add: Suc_leI)
    then have "w * (i mod c + 1) \<le> w * c" by (rule mult_le_mono2)
    then show ?thesis using c by simp
  qed
  have "bit (vlane w (or_lanes w n f) i) q \<longleftrightarrow>
      q < w \<and> (\<exists>j < n. j * w div 64 = w * i div 64 \<and> bit (push_bit (w * j mod 64) (f j)) (w * i mod 64 + q))"
    unfolding vlane_def by (simp add: bit_take_bit_iff bit_drop_bit_eq bit_or_lanes [OF w n k] del: bit_push_bit_iff)
  also have "\<dots> \<longleftrightarrow> q < w \<and> bit (f i) q"
  proof (cases "q < w")
    case qw: True
    have uniq: "j = i" if j: "j < n" "j div c = i div c" "w * (j mod c) \<le> w * (i mod c) + q"
        "bit (f j) (w * (i mod c) + q - w * (j mod c))" for j
    proof -
      have "w * (i mod c) + q - w * (j mod c) < w" using high [OF j(1)] j(4) by blast
      then have lt: "w * (i mod c) + q < w * (j mod c) + w" using j(3) by linarith
      have "i mod c \<le> j mod c"
      proof (rule ccontr)
        assume "\<not> i mod c \<le> j mod c"
        then have "w * (j mod c + 1) \<le> w * (i mod c)" by (intro mult_le_mono2) simp
        then show False using lt by simp
      qed
      moreover have "j mod c \<le> i mod c"
      proof (rule ccontr)
        assume "\<not> j mod c \<le> i mod c"
        then have "w * (i mod c + 1) \<le> w * (j mod c)" by (intro mult_le_mono2) simp
        then show False using j(3) qw by simp
      qed
      ultimately show ?thesis using j(2) by (metis div_mult_mod_eq le_antisym)
    qed
    have "(\<exists>j < n. j div c = i div c \<and> bit (push_bit (w * (j mod c)) (f j)) (w * (i mod c) + q)) \<longleftrightarrow> bit (f i) q"
    proof
      assume "\<exists>j < n. j div c = i div c \<and> bit (push_bit (w * (j mod c)) (f j)) (w * (i mod c) + q)"
      then obtain j where j: "j < n" "j div c = i div c" "w * (j mod c) \<le> w * (i mod c) + q"
          "bit (f j) (w * (i mod c) + q - w * (j mod c))"
        by (auto simp: bit_push_bit_iff)
      have "j = i" by (rule uniq [OF j])
      then show "bit (f i) q" using j(4) by simp
    next
      assume "bit (f i) q"
      then show "\<exists>j < n. j div c = i div c \<and> bit (push_bit (w * (j mod c)) (f j)) (w * (i mod c) + q)"
        using i qw room by (intro exI [of _ i]) (simp add: bit_push_bit_iff)
    qed
    then show ?thesis using qw by (simp only: dv simp_thms)
  qed simp
  also have "\<dots> \<longleftrightarrow> bit (f i) q" using high [OF i] by blast
  finally show "bit (vlane w (or_lanes w n f) i) q = bit (f i) q" .
qed


text \<open>The 32-bit addresses are the 64-bit ones that fit.\<close>

lemma simdEA_widen: "sz \<le> 16 \<Longrightarrow> simdEA64 m (ucast (addr :: i32)) (ucast (off :: i32)) sz = simdEA m addr off sz"
proof -
  assume sz: "sz \<le> 16"
  have lt: "unat addr < 2 ^ 32" "unat off < 2 ^ 32" using unat_lt [of addr] unat_lt [of off] by simp_all
  have u: "unat (ucast addr :: u64) = unat addr" using lt by (simp add: unsigned_ucast_eq take_bit_nat_eq_self_iff)
  have s: "unat (ucast addr + ucast off :: u64) = unat addr + unat off" by (rule sum32_exact)
  then have "unat (ucast addr + ucast off + sz :: u64) = unat addr + unat off + unat sz"
    using lt sz by (simp add: unat_word_ariths word_le_nat_alt)
  then show ?thesis using s u by (simp add: simdEA_def simdEA64_def Let_def word_less_nat_alt)
qed

lemma or_lanes_cong: "(\<And>i. i < n \<Longrightarrow> f i = g i) \<Longrightarrow> or_lanes w n f = or_lanes w n g"
  unfolding or_lanes_def by (rule foldl_cong) auto

lemma or_lanes_64: "or_lanes 64 2 f = (f 0, f 1)"
  by (simp add: or_lanes_def vset_def vget_def upt_rec)

text \<open>A group of bytes read on its own or out of the 64-bit word that holds it.\<close>

lemma sub_word:
  assumes "length bs = 8" and "LENGTH('b) = 8 * n" and "n * i + n \<le> 8"
  shows "ucast (drop_bit (8 * n * i) (le_word bs :: u64)) = (le_word (take n (drop (n * i) bs)) :: 'b::len word)"
proof (rule bit_word_eqI)
  fix k assume k: "k < LENGTH('b)"
  then have "k div 8 < n" using assms(2) by (simp add: less_mult_imp_div_less mult.commute)
  moreover have "(8 * n * i + k) div 8 = n * i + k div 8" "(8 * n * i + k) mod 8 = k mod 8"
    by (simp_all add: mult.assoc)
  moreover have "8 * n * i + k < 64"
    using k assms(2) mult_le_mono2 [OF assms(3), of 8] by (simp add: algebra_simps)
  ultimately show "bit (ucast (drop_bit (8 * n * i) (le_word bs :: u64)) :: 'b word) k =
      bit (le_word (take n (drop (n * i) bs)) :: 'b word) k"
    using assms k by (simp add: bit_ucast_iff bit_drop_bit_eq bit_le_word)
qed


lemma add_push_or: "take_bit n x = x \<Longrightarrow> x + push_bit n y = x OR push_bit n (y :: u64)"
proof -
  assume x: "take_bit n x = x"
  have "\<not> (bit x k \<and> bit (push_bit n y) k)" for k
    using x bit_take_bit_iff [of n x k] by (auto simp: bit_push_bit_iff)
  then show ?thesis by (intro disjunctive_add_eq_or bit_eqI) (simp add: bit_and_iff del: bit_push_bit_iff)
qed

text \<open>Splatting by multiplication.\<close>

lemma upt_lanes:
  "[0..<8] = [0, 1, 2, 3, 4, 5, 6, 7]" "[0..<16] = [0, 1, 2, 3, 4, 5, 6, 7, 8, 9, 10, 11, 12, 13, 14, 15]"
  "[0..<4] = [0, 1, 2, 3]"
  by code_simp+

lemma splat8: "or_lanes 8 16 (\<lambda>_. ucast (b :: byte)) = (let x = ucast b; w = x * 0x0101010101010101 in (w, w))"
proof -
  let ?x = "ucast b :: u64"
  have t: "take_bit 8 ?x = ?x" by (rule bit_word_eqI) (auto simp: bit_take_bit_iff bit_ucast_iff dest: bit_imp_le_length)
  note add = add_push_or [OF t]
  have "?x * 0x0101010101010101 = ?x + push_bit 8 (?x + push_bit 8 (?x + push_bit 8 (?x + push_bit 8
      (?x + push_bit 8 (?x + push_bit 8 (?x + push_bit 8 ?x))))))"
    by (simp add: push_bit_eq_mult algebra_simps)
  then show ?thesis
    unfolding add by (simp add: or_lanes_def upt_lanes vset_def vget_def push_bit_or push_bit_push_bit or.assoc Let_def del: push_bit_Suc)
qed

lemma splat16: "or_lanes 16 8 (\<lambda>_. ucast (b :: u16)) = (let x = ucast b; w = x * 0x0001000100010001 in (w, w))"
proof -
  let ?x = "ucast b :: u64"
  have t: "take_bit 16 ?x = ?x" by (rule bit_word_eqI) (auto simp: bit_take_bit_iff bit_ucast_iff dest: bit_imp_le_length)
  note add = add_push_or [OF t]
  have "?x * 0x0001000100010001 = ?x + push_bit 16 (?x + push_bit 16 (?x + push_bit 16 ?x))"
    by (simp add: push_bit_eq_mult algebra_simps)
  then show ?thesis
    unfolding add by (simp add: or_lanes_def upt_lanes vset_def vget_def push_bit_or push_bit_push_bit or.assoc Let_def del: push_bit_Suc)
qed


lemma map_raw_cong:
  "(\<And>bs. length bs = n \<Longrightarrow> g bs = h bs) \<Longrightarrow> map_trap g (raw_read n m e) = map_trap h (raw_read n m e)"
  by (auto simp: raw_read_def map_trap_def raw_fault_def)

lemma widen_bytes:
  assumes "length bs = 8"
  shows "widen_lanes 8 True (le_word bs) = or_lanes 16 8 (\<lambda>i. ucast (scast (le_word (take 1 (drop (1 * i) bs)) :: byte) :: u16))"
    and "widen_lanes 8 False (le_word bs) = or_lanes 16 8 (\<lambda>i. ucast (le_word (take 1 (drop (1 * i) bs)) :: byte))"
    and "widen_lanes 16 True (le_word bs) = or_lanes 32 4 (\<lambda>i. ucast (scast (le_word (take 2 (drop (2 * i) bs)) :: u16) :: u32))"
    and "widen_lanes 16 False (le_word bs) = or_lanes 32 4 (\<lambda>i. ucast (le_word (take 2 (drop (2 * i) bs)) :: u16))"
    and "widen_lanes 32 True (le_word bs) = or_lanes 64 2 (\<lambda>i. ucast (scast (le_word (take 4 (drop (4 * i) bs)) :: u32) :: u64))"
    and "widen_lanes 32 False (le_word bs) = or_lanes 64 2 (\<lambda>i. ucast (le_word (take 4 (drop (4 * i) bs)) :: u32))"
proof -
  have b: "ucast (drop_bit (8 * i) (le_word bs :: u64)) = (le_word (take 1 (drop (1 * i) bs)) :: byte)" if "i < 8" for i
    using sub_word [OF assms, where n = 1 and i = i and 'b = 8] that by simp
  have h: "ucast (drop_bit (16 * i) (le_word bs :: u64)) = (le_word (take 2 (drop (2 * i) bs)) :: u16)" if "i < 4" for i
    using sub_word [OF assms, where n = 2 and i = i and 'b = 16] that by simp
  have q: "ucast (drop_bit (32 * i) (le_word bs :: u64)) = (le_word (take 4 (drop (4 * i) bs)) :: u32)" if "i < 2" for i
    using sub_word [OF assms, where n = 4 and i = i and 'b = 32] that by simp
  have up: "ucast (ucast x :: u16) = (ucast x :: u64)" for x :: byte
    by (rule bit_word_eqI) (auto simp: bit_ucast_iff dest: bit_imp_le_length)
  have up2: "ucast (ucast x :: u32) = (ucast x :: u64)" for x :: u16
    by (rule bit_word_eqI) (auto simp: bit_ucast_iff dest: bit_imp_le_length)
  show "widen_lanes 8 True (le_word bs) = or_lanes 16 8 (\<lambda>i. ucast (scast (le_word (take 1 (drop (1 * i) bs)) :: byte) :: u16))"
    unfolding widen_lanes_def Let_def using b by (auto intro!: or_lanes_cong)
  show "widen_lanes 8 False (le_word bs) = or_lanes 16 8 (\<lambda>i. ucast (le_word (take 1 (drop (1 * i) bs)) :: byte))"
    unfolding widen_lanes_def Let_def using b up by (auto intro!: or_lanes_cong)
  show "widen_lanes 16 True (le_word bs) = or_lanes 32 4 (\<lambda>i. ucast (scast (le_word (take 2 (drop (2 * i) bs)) :: u16) :: u32))"
    unfolding widen_lanes_def Let_def using h by (auto intro!: or_lanes_cong)
  show "widen_lanes 16 False (le_word bs) = or_lanes 32 4 (\<lambda>i. ucast (le_word (take 2 (drop (2 * i) bs)) :: u16))"
    unfolding widen_lanes_def Let_def using h up2 by (auto intro!: or_lanes_cong)
  show "widen_lanes 32 True (le_word bs) = or_lanes 64 2 (\<lambda>i. ucast (scast (le_word (take 4 (drop (4 * i) bs)) :: u32) :: u64))"
    unfolding widen_lanes_def Let_def or_lanes_64 using q [of 0] q [of 1] by simp
  show "widen_lanes 32 False (le_word bs) = or_lanes 64 2 (\<lambda>i. ucast (le_word (take 4 (drop (4 * i) bs)) :: u32))"
    unfolding widen_lanes_def Let_def or_lanes_64 using q [of 0] q [of 1] by simp
qed

lemma lane_64: "lane_index 64 lane = v128_index lane" "lane_shift 64 lane = 0"
proof -
  have "sint lane * 64 sdiv 64 = sint lane" by (simp add: signed_divide_int_def abs_mult sgn_mult mult_sgn_abs)
  then show "lane_index 64 lane = v128_index lane" by (simp add: lane_index_def v128_index_def Let_def)
  have "unat ((64 :: u64) * x) mod 64 = 0" for x
    by (simp add: unat_word_ariths mod_mod_cancel)
  then show "lane_shift 64 lane = 0" by (simp add: lane_shift_def)
qed

text \<open>
  C34: On addresses, offsets and ranges of 32 bits every vector load, lane load, store and lane store of the
  memory64 family does the same as its 32-bit twin, the range-checked and the unchecked load and
  all traps included, although it computes addresses, extended lanes and splats in other ways. Only
  the store that converts float lanes to half precision is not among them.
\<close>

theorem simd_families_agree:
  fixes addr off :: i32
  shows "simd_m64_v128_load m (ucast addr) (ucast off) = simd_v128_load m addr off \<and>
    simd_m64_v128_store m (ucast addr) (ucast off) v = simd_v128_store m addr off v \<and>
    simd_m64_v128_load8x8_s m (ucast addr) (ucast off) = simd_v128_load8x8_s m addr off \<and>
    simd_m64_v128_load8x8_u m (ucast addr) (ucast off) = simd_v128_load8x8_u m addr off \<and>
    simd_m64_v128_load16x4_s m (ucast addr) (ucast off) = simd_v128_load16x4_s m addr off \<and>
    simd_m64_v128_load16x4_u m (ucast addr) (ucast off) = simd_v128_load16x4_u m addr off \<and>
    simd_m64_v128_load32x2_s m (ucast addr) (ucast off) = simd_v128_load32x2_s m addr off \<and>
    simd_m64_v128_load32x2_u m (ucast addr) (ucast off) = simd_v128_load32x2_u m addr off \<and>
    simd_m64_v128_load8_splat m (ucast addr) (ucast off) = simd_v128_load8_splat m addr off \<and>
    simd_m64_v128_load16_splat m (ucast addr) (ucast off) = simd_v128_load16_splat m addr off \<and>
    simd_m64_v128_load32_splat m (ucast addr) (ucast off) = simd_v128_load32_splat m addr off \<and>
    simd_m64_v128_load64_splat m (ucast addr) (ucast off) = simd_v128_load64_splat m addr off \<and>
    simd_m64_v128_load32_zero m (ucast addr) (ucast off) = simd_v128_load32_zero m addr off \<and>
    simd_m64_v128_load64_zero m (ucast addr) (ucast off) = simd_v128_load64_zero m addr off \<and>
    simd_m64_v128_load8_lane m (ucast addr) (ucast off) lane v = simd_v128_load8_lane m addr off lane v \<and>
    simd_m64_v128_load16_lane m (ucast addr) (ucast off) lane v = simd_v128_load16_lane m addr off lane v \<and>
    simd_m64_v128_load32_lane m (ucast addr) (ucast off) lane v = simd_v128_load32_lane m addr off lane v \<and>
    simd_m64_v128_load64_lane m (ucast addr) (ucast off) lane v = simd_v128_load64_lane m addr off lane v \<and>
    simd_m64_v128_store8_lane m (ucast addr) (ucast off) lane v = simd_v128_store8_lane m addr off lane v \<and>
    simd_m64_v128_store16_lane m (ucast addr) (ucast off) lane v = simd_v128_store16_lane m addr off lane v \<and>
    simd_m64_v128_store32_lane m (ucast addr) (ucast off) lane v = simd_v128_store32_lane m addr off lane v \<and>
    simd_m64_v128_store64_lane m (ucast addr) (ucast off) lane v = simd_v128_store64_lane m addr off lane v \<and>
    simd_m64_v128_load_rng m (ucast addr) (ucast off) (scast rlo) (ucast span) = simd_v128_load_rng m addr off rlo span \<and>
    simd_m64_v128_load_nc m (ucast addr) (ucast off) = simd_v128_load_nc m addr off"
proof -
  have s: "simdEA64 m (ucast addr) (ucast off) sz = simdEA m addr off sz" if "sz \<le> 16" for sz
    by (rule simdEA_widen [OF that])
  have cong: "bind_trap (simdEA64 m (ucast addr) (ucast off) sz) g = bind_trap (simdEA m addr off sz) h"
    if "sz \<le> 16" "\<And>e. g e = h e" for sz and g h :: "u64 \<Rightarrow> 'a trap"
    using s [OF that(1)] that(2) by (simp add: bind_trap_def split: sum.splits)
  note map = map_raw_cong cong
  have splat32: "or_lanes 32 4 (\<lambda>_. ucast (x :: u32)) = (let y = ucast x; w = y OR push_bit 32 y in (w, w))" for x
    by (simp add: or_lanes_def upt_lanes vset_def vget_def Let_def)
  have bind_map: "bind_trap (map_trap f t) g = bind_trap t (\<lambda>x. g (f x))" for f :: "'a \<Rightarrow> 'b" and t and g :: "'b \<Rightarrow> 'c trap"
    by (cases t) (simp_all add: map_trap_def)
  have ones: "(0xff :: u64) = ucast (- 1 :: byte)" "(0xffff :: u64) = ucast (- 1 :: u16)" by (simp_all add: unsigned_minus_1_eq_mask mask_eq_exp_minus_1)
  show ?thesis
  proof (intro conjI)
    show "simd_m64_v128_load m (ucast addr) (ucast off) = simd_v128_load m addr off"
      by (simp add: simd_m64_v128_load_def simd_v128_load_def s)
    show "simd_m64_v128_store m (ucast addr) (ucast off) v = simd_v128_store m addr off v"
      by (simp add: simd_m64_v128_store_def simd_v128_store_def s)
    show "simd_m64_v128_load8x8_s m (ucast addr) (ucast off) = simd_v128_load8x8_s m addr off"
      unfolding simd_m64_v128_load8x8_s_def simd_v128_load8x8_s_def simd_m64_widen_def s [of 8, simplified]
      by (intro arg_cong [where f = "bind_trap _"] ext map_raw_cong) (rule widen_bytes)
    show "simd_m64_v128_load8x8_u m (ucast addr) (ucast off) = simd_v128_load8x8_u m addr off"
      unfolding simd_m64_v128_load8x8_u_def simd_v128_load8x8_u_def simd_m64_widen_def s [of 8, simplified]
      by (intro arg_cong [where f = "bind_trap _"] ext map_raw_cong) (rule widen_bytes)
    show "simd_m64_v128_load16x4_s m (ucast addr) (ucast off) = simd_v128_load16x4_s m addr off"
      unfolding simd_m64_v128_load16x4_s_def simd_v128_load16x4_s_def simd_m64_widen_def s [of 8, simplified]
      by (intro arg_cong [where f = "bind_trap _"] ext map_raw_cong) (rule widen_bytes)
    show "simd_m64_v128_load16x4_u m (ucast addr) (ucast off) = simd_v128_load16x4_u m addr off"
      unfolding simd_m64_v128_load16x4_u_def simd_v128_load16x4_u_def simd_m64_widen_def s [of 8, simplified]
      by (intro arg_cong [where f = "bind_trap _"] ext map_raw_cong) (rule widen_bytes)
    show "simd_m64_v128_load32x2_s m (ucast addr) (ucast off) = simd_v128_load32x2_s m addr off"
      unfolding simd_m64_v128_load32x2_s_def simd_v128_load32x2_s_def simd_m64_widen_def s [of 8, simplified]
      by (intro arg_cong [where f = "bind_trap _"] ext map_raw_cong) (rule widen_bytes)
    show "simd_m64_v128_load32x2_u m (ucast addr) (ucast off) = simd_v128_load32x2_u m addr off"
      unfolding simd_m64_v128_load32x2_u_def simd_v128_load32x2_u_def simd_m64_widen_def s [of 8, simplified]
      by (intro arg_cong [where f = "bind_trap _"] ext map_raw_cong) (rule widen_bytes)
  qed (simp_all add: simd_m64_v128_load8_splat_def simd_v128_load8_splat_def simd_m64_v128_load16_splat_def
      simd_v128_load16_splat_def simd_m64_v128_load32_splat_def simd_v128_load32_splat_def simd_m64_v128_load64_splat_def
      simd_v128_load64_splat_def simd_m64_v128_load32_zero_def simd_v128_load32_zero_def simd_m64_v128_load64_zero_def
      simd_v128_load64_zero_def simd_m64_v128_load8_lane_def simd_v128_load8_lane_def simd_m64_v128_load16_lane_def
      simd_v128_load16_lane_def simd_m64_v128_load32_lane_def simd_v128_load32_lane_def simd_m64_v128_load64_lane_def
      simd_v128_load64_lane_def simd_m64_v128_store8_lane_def simd_v128_store8_lane_def simd_m64_v128_store16_lane_def
      simd_v128_store16_lane_def simd_m64_v128_store32_lane_def simd_v128_store32_lane_def simd_m64_v128_store64_lane_def
      simd_v128_store64_lane_def simd_m64_v128_load_rng_def simd_v128_load_rng_def simd_m64_v128_load_nc_def
      simd_v128_load_nc_def s splat8 splat16 splat32 or_lanes_64 Let_def bind_map ones [symmetric] set_lane_def get_lane_def lane_64)
qed

end
