(* ===== verification/PassSimdBounds.thy ===== *)
theory PassSimdBounds
  imports PassMemOpt RtSimdSpec
begin

text \<open>
  Coalescing the bounds checks of vector loads, from
  \<^verbatim>\<open>internal/ssa/pass/simdbounds.go\<close>.
\<close>

section \<open>The pass\<close>

definition simdBoundsWindow :: int where
  "simdBoundsWindow = 65536"

record simdLoadRef =
  ref_idx :: nat
  ref_v :: nat
  ref_total :: int

record simdLoadGroup =
  grp_base :: nat
  grp_refs :: "simdLoadRef list"

text \<open>
  The address as a base value and a constant displacement. Operands are not nil in a verified
  function; where the Go code would panic on one, nothing is split here.
\<close>

definition peel :: "Func \<Rightarrow> Op \<Rightarrow> Op \<Rightarrow> (i64 \<Rightarrow> int) \<Rightarrow> nat \<Rightarrow> int \<Rightarrow> nat \<times> int" where
  "peel f addOp constOp rd addr off =
     (case vArgs (fval f addr) of
        [Some b, Some k] \<Rightarrow>
          if vOp (fval f addr) = addOp \<and> vOp (fval f k) = constOp \<and>
             0 \<le> rd (vAuxInt (fval f k)) \<and> rd (vAuxInt (fval f k)) < simdBoundsWindow
          then (b, off + rd (vAuxInt (fval f k))) else (addr, off)
      | _ \<Rightarrow> (addr, off))"

definition splitSimdAddr :: "Func \<Rightarrow> Value \<Rightarrow> (nat \<times> int) option" where
  "splitSimdAddr f v =
     (case vArgs v of
        Some addr # Some offV # _ \<Rightarrow>
          if vOp (fval f offV) = OpConst32 then
            Some (peel f OpAdd32 OpConst32 (\<lambda>c. sint (ucast c :: i32)) addr (uint (ucast (vAuxInt (fval f offV)) :: u32)))
          else if vOp (fval f offV) = OpConst64 then
            (let off = sint (vAuxInt (fval f offV)) in
             if off < 0 \<or> off \<ge> simdBoundsWindow then None
             else Some (peel f OpAdd64 OpConst64 sint addr off))
          else None
      | _ \<Rightarrow> None)"

text \<open>The running minimum and maximum over the displacements.\<close>

definition lo_hi :: "int \<Rightarrow> simdLoadRef list \<Rightarrow> int \<times> int" where
  "lo_hi off refs = foldl (\<lambda>(lo, hi) r. (if ref_total r < lo then ref_total r else lo,
                                         if ref_total r > hi then ref_total r else hi)) (off, off) refs"

definition fitsWindow :: "simdLoadRef list \<Rightarrow> int \<Rightarrow> bool" where
  "fitsWindow refs off =
     (let (lo, hi) = lo_hi off refs in
      hi - lo < simdBoundsWindow \<and> lo > - simdBoundsWindow \<and> hi < simdBoundsWindow)"

definition simdBoundsBarrier :: "Value \<Rightarrow> bool" where
  "simdBoundsBarrier v = (if vOp v = OpSimdCall then False else HasSideEffect v)"

text \<open>Putting a load into the open group of its base: the groups closed by it, and the open ones.\<close>

fun place_ref :: "nat \<Rightarrow> simdLoadRef \<Rightarrow> simdLoadGroup list \<Rightarrow> simdLoadGroup list \<times> simdLoadGroup list" where
  "place_ref base ref [] = ([], [\<lparr>grp_base = base, grp_refs = [ref]\<rparr>])"
| "place_ref base ref (g # gs) =
     (if grp_base g \<noteq> base then (let (closed, gs) = place_ref base ref gs in (closed, g # gs))
      else if fitsWindow (grp_refs g) (ref_total ref) then ([], g\<lparr>grp_refs := grp_refs g @ [ref]\<rparr> # gs)
      else (if length (grp_refs g) \<ge> 2 then [g] else [], \<lparr>grp_base = base, grp_refs = [ref]\<rparr> # gs))"

text \<open>The groups found so far and the open ones.\<close>

type_synonym bounds_state = "simdLoadGroup list \<times> simdLoadGroup list"

definition flushAll :: "bounds_state \<Rightarrow> bounds_state" where
  "flushAll s = (fst s @ filter (\<lambda>g. length (grp_refs g) \<ge> 2) (snd s), [])"

definition vec_load_names :: "Aux set" where
  "vec_load_names = {AuxString ''simd_v128_load'', AuxString ''simd_m64_v128_load''}"

definition bounds_scan_value :: "Func \<Rightarrow> bounds_state \<Rightarrow> nat \<times> nat \<Rightarrow> bounds_state" where
  "bounds_scan_value f s iv =
     (let (i, vid) = iv; v = fval f vid in
      if vOp v = OpInvalid then s
      else if vOp v = OpSimdMemCall \<and> vAux v \<in> vec_load_names then
        (case splitSimdAddr f v of
           None \<Rightarrow> s
         | Some (base, off) \<Rightarrow>
             (let (closed, opened) = place_ref base \<lparr>ref_idx = i, ref_v = vid, ref_total = off\<rparr> (snd s)
              in (fst s @ closed, opened)))
      else if simdBoundsBarrier v then flushAll s
      else s)"

definition bounds_scan :: "Func \<Rightarrow> nat \<Rightarrow> simdLoadGroup list" where
  "bounds_scan f b =
     fst (flushAll (foldl (bounds_scan_value f) ([], []) (enumerate 0 (Values (fblk f b)))))"

text \<open>The exchange sort that puts the groups in descending order of their first load.\<close>

definition first_idx :: "simdLoadGroup \<Rightarrow> nat" where
  "first_idx g = (case grp_refs g of r # _ \<Rightarrow> ref_idx r | [] \<Rightarrow> 0)"

definition exchange :: "nat \<Rightarrow> simdLoadGroup list \<Rightarrow> nat \<Rightarrow> simdLoadGroup list" where
  "exchange i gs j =
     (if first_idx (gs ! j) > first_idx (gs ! i) then gs[i := gs ! j, j := gs ! i] else gs)"

definition sort_groups :: "simdLoadGroup list \<Rightarrow> simdLoadGroup list" where
  "sort_groups gs = foldl (\<lambda>gs i. foldl (exchange i) gs [Suc i..<length gs]) gs [0..<length gs]"

text \<open>The constants of a group: the start of the range relative to the first load's address, and its length.\<close>

definition group_range :: "int \<Rightarrow> simdLoadRef list \<Rightarrow> int \<times> int" where
  "group_range firstOff refs =
     (let first = hd refs; (lo, hi) = lo_hi (ref_total first) refs; c1 = ref_total first - firstOff
      in (lo - c1, hi + 16 - lo))"

definition emitCoalesced :: "nat \<Rightarrow> simdLoadRef list \<Rightarrow> Func \<Rightarrow> Func" where
  "emitCoalesced b refs f =
     (let first = hd refs; fv = fval f (ref_v first);
          mem64 = (vAux fv = AuxString ''simd_m64_v128_load'');
          offAux = (case vArgs fv of _ # Some offV # _ \<Rightarrow> vAuxInt (fval f offV) | _ \<Rightarrow> 0);
          firstOff = (if mem64 then sint offAux else uint (ucast offAux :: u32));
          (rlo, span) = group_range firstOff refs
      in if rlo < - (2 ^ 31) \<or> rlo \<ge> 2 ^ 31 \<or> span \<ge> 2 ^ 31 then f
         else
          let rngName = (if mem64 then ''simd_m64_v128_load_rng'' else ''simd_v128_load_rng'');
              ncName = (if mem64 then ''simd_m64_v128_load_nc'' else ''simd_v128_load_nc'');
              cop = (if mem64 then OpConst64 else OpConst32);
              cty = (if mem64 then TypeI64 else TypeI32);
              loAux = (if mem64 then word_of_int rlo else scast (word_of_int rlo :: i32));
              spanAux = (if mem64 then word_of_int span else scast (word_of_int span :: i32));
              (loC, f) = NewValueBefore b (int (ref_idx first)) cop cty loAux AuxNil [] f;
              (spanC, f) = NewValueBefore b (int (ref_idx first) + 1) cop cty spanAux AuxNil [] f;
              f = upd_val (ref_v first) (\<lambda>v. v\<lparr>vAux := AuxString rngName, vArgs := vArgs v @ [Some loC, Some spanC]\<rparr>) f
          in foldl (\<lambda>f r. upd_val (ref_v r) (\<lambda>v. v\<lparr>vAux := AuxString ncName\<rparr>) f) f (tl refs))"

definition coalesceBlock :: "Func \<Rightarrow> nat \<Rightarrow> Func \<times> bool" where
  "coalesceBlock f b =
     (let groups = sort_groups (bounds_scan f b)
      in (foldl (\<lambda>f g. emitCoalesced b (grp_refs g) f) f groups, groups \<noteq> []))"

definition CoalesceSimdBounds :: "Func \<Rightarrow> Func \<times> bool" where
  "CoalesceSimdBounds f =
     foldl (\<lambda>(f, changed) b. let (f, c) = coalesceBlock f b in (f, c \<or> changed)) (f, False) (Blocks f)"


section \<open>What the scan groups\<close>

definition group_ok :: "Func \<Rightarrow> simdLoadGroup \<Rightarrow> bool" where
  "group_ok f g \<longleftrightarrow>
     grp_refs g \<noteq> [] \<and>
     (\<forall>r \<in> set (grp_refs g). splitSimdAddr f (fval f (ref_v r)) = Some (grp_base g, ref_total r)) \<and>
     (length (grp_refs g) \<ge> 2 \<longrightarrow> (\<forall>r \<in> set (grp_refs g). ref_total r < simdBoundsWindow))"

lemma lo_hi_bounds:
  assumes "lo_hi off refs = (lo, hi)"
  shows "lo \<le> off \<and> off \<le> hi \<and> (\<forall>r \<in> set refs. lo \<le> ref_total r \<and> ref_total r \<le> hi)"
    and "lo = off \<or> (\<exists>r \<in> set refs. lo = ref_total r)" and "hi = off \<or> (\<exists>r \<in> set refs. hi = ref_total r)"
proof -
  let ?step = "\<lambda>(lo, hi) r. (if ref_total r < lo then ref_total r else lo, if ref_total r > hi then ref_total r else hi)"
  have gen: "foldl ?step (l0, h0) refs = (l, h) \<Longrightarrow>
      l \<le> l0 \<and> h0 \<le> h \<and> (\<forall>r \<in> set refs. l \<le> ref_total r \<and> ref_total r \<le> h) \<and>
      (l = l0 \<or> (\<exists>r \<in> set refs. l = ref_total r)) \<and> (h = h0 \<or> (\<exists>r \<in> set refs. h = ref_total r))" for l0 h0 l h
  proof (induction refs arbitrary: l0 h0)
    case (Cons r refs)
    have "foldl ?step (if ref_total r < l0 then ref_total r else l0, if ref_total r > h0 then ref_total r else h0) refs = (l, h)"
      using Cons.prems by simp
    from Cons.IH [OF this] show ?case by (auto split: if_splits)
  qed simp
  note g = gen [OF assms [unfolded lo_hi_def]]
  show "lo \<le> off \<and> off \<le> hi \<and> (\<forall>r \<in> set refs. lo \<le> ref_total r \<and> ref_total r \<le> hi)"
    "lo = off \<or> (\<exists>r \<in> set refs. lo = ref_total r)" "hi = off \<or> (\<exists>r \<in> set refs. hi = ref_total r)"
    using g by blast+
qed

lemma place_ref_ok:
  assumes "\<forall>g \<in> set gs. group_ok f g" and "splitSimdAddr f (fval f (ref_v ref)) = Some (base, ref_total ref)"
    and "place_ref base ref gs = (closed, opened)"
  shows "(\<forall>g \<in> set closed. group_ok f g \<and> length (grp_refs g) \<ge> 2) \<and> (\<forall>g \<in> set opened. group_ok f g)"
  using assms(1,3)
proof (induction gs arbitrary: closed opened)
  case Nil
  then show ?case using assms(2) by (auto simp: group_ok_def)
next
  case (Cons g gs)
  have "group_ok f (g\<lparr>grp_refs := grp_refs g @ [ref]\<rparr>)"
    if base: "grp_base g = base" and fits: "fitsWindow (grp_refs g) (ref_total ref)"
  proof -
    obtain lo hi where lh: "lo_hi (ref_total ref) (grp_refs g) = (lo, hi)" by fastforce
    then have "hi < simdBoundsWindow" using fits by (simp add: fitsWindow_def)
    then show ?thesis
      using lo_hi_bounds(1) [OF lh] Cons.prems(1) assms(2) base by (auto simp: group_ok_def)
  qed
  moreover have new: "group_ok f \<lparr>grp_base = base, grp_refs = [ref]\<rparr>" using assms(2) by (simp add: group_ok_def)
  ultimately show ?case
  proof (cases "grp_base g = base")
    case False
    obtain c gs' where p: "place_ref base ref gs = (c, gs')" by fastforce
    then have "closed = c" "opened = g # gs'" using Cons.prems(2) False by auto
    then show ?thesis using Cons.IH [OF _ p] Cons.prems(1) by simp
  next
    case base: True
    assume ext: "grp_base g = base \<Longrightarrow> fitsWindow (grp_refs g) (ref_total ref) \<Longrightarrow> group_ok f (g\<lparr>grp_refs := grp_refs g @ [ref]\<rparr>)"
    show ?thesis
    proof (cases "fitsWindow (grp_refs g) (ref_total ref)")
      case True
      then have "closed = []" "opened = g\<lparr>grp_refs := grp_refs g @ [ref]\<rparr> # gs" using Cons.prems(2) base by auto
      then show ?thesis using ext [OF base True] Cons.prems(1) by simp
    next
      case False
      then have "closed = (if length (grp_refs g) \<ge> 2 then [g] else [])" "opened = \<lparr>grp_base = base, grp_refs = [ref]\<rparr> # gs"
        using Cons.prems(2) base by auto
      then show ?thesis using new Cons.prems(1) by simp
    qed
  qed
qed


lemma bounds_scan_ok:
  assumes "g \<in> set (bounds_scan f b)"
  shows "group_ok f g \<and> length (grp_refs g) \<ge> 2"
proof -
  define inv where "inv s \<longleftrightarrow> (\<forall>g \<in> set (fst s). group_ok f g \<and> length (grp_refs g) \<ge> 2) \<and> (\<forall>g \<in> set (snd s). group_ok f g)"
    for s :: bounds_state
  have flush: "inv (flushAll s)" if "inv s" for s
    using that by (auto simp: inv_def flushAll_def)
  have step: "inv (bounds_scan_value f s (i, vid))" if s: "inv s" for s i vid
  proof (cases "vOp (fval f vid) = OpSimdMemCall \<and> vAux (fval f vid) \<in> vec_load_names")
    case False
    then have "bounds_scan_value f s (i, vid) = s \<or> bounds_scan_value f s (i, vid) = flushAll s"
      unfolding bounds_scan_value_def Let_def prod.case using False by (simp split: if_split del: de_Morgan_conj)
    then show ?thesis using s flush [OF s] by metis
  next
    case call: True
    show ?thesis
    proof (cases "splitSimdAddr f (fval f vid)")
      case None
      then show ?thesis using s call by (simp add: bounds_scan_value_def)
    next
      case (Some bo)
      obtain base off where bo: "bo = (base, off)" by fastforce
      let ?ref = "\<lparr>ref_idx = i, ref_v = vid, ref_total = off\<rparr>"
      obtain c o' where p: "place_ref base ?ref (snd s) = (c, o')" by fastforce
      have "\<forall>g \<in> set (snd s). group_ok f g" using s by (simp add: inv_def)
      moreover have "splitSimdAddr f (fval f (ref_v ?ref)) = Some (base, ref_total ?ref)" using Some bo by simp
      ultimately have "(\<forall>g \<in> set c. group_ok f g \<and> length (grp_refs g) \<ge> 2) \<and> (\<forall>g \<in> set o'. group_ok f g)"
        using p by (rule place_ref_ok)
      moreover have "bounds_scan_value f s (i, vid) = (fst s @ c, o')"
        using call Some bo p by (simp add: bounds_scan_value_def)
      ultimately show ?thesis using s by (auto simp: inv_def)
    qed
  qed
  have "inv (foldl (bounds_scan_value f) s ivs)" if "inv s" for s ivs
    using that
  proof (induction ivs arbitrary: s)
    case (Cons iv ivs)
    then show ?case using step [of s "fst iv" "snd iv"] by simp
  qed simp
  from flush [OF this [of "([], [])"]]
  have "inv (flushAll (foldl (bounds_scan_value f) ([], []) (enumerate 0 (Values (fblk f b)))))" by (simp add: inv_def)
  then show ?thesis using assms unfolding bounds_scan_def inv_def by blast
qed

section \<open>The coalesced check\<close>

text \<open>
  The values of a block while it runs: an integer operation that has a value has the one its
  operands give it.
\<close>

definition values_agree :: "env \<Rightarrow> Func \<Rightarrow> bool" where
  "values_agree env f \<longleftrightarrow>
     (\<forall>v w. env v = Some w \<longrightarrow> vOp (fval f v) \<in> int_ops \<longrightarrow>
        (\<exists>as. arg_vals env (vArgs (fval f v)) = Some as \<and> int_op (vOp (fval f v)) (vAuxInt (fval f v)) as = Some w))"

definition load_operands :: "env \<Rightarrow> Func \<Rightarrow> simdLoadRef \<Rightarrow> (i32 \<times> i32) option" where
  "load_operands env f r =
     (case vArgs (fval f (ref_v r)) of
        Some a # Some d # _ \<Rightarrow> (case (env a, env d) of (Some (W32 x), Some (W32 y)) \<Rightarrow> Some (x, y) | _ \<Rightarrow> None)
      | _ \<Rightarrow> None)"

lemma int_op_unary_values:
  "int_op OpConst32 c as = Some w \<longleftrightarrow> as = [] \<and> w = W32 (ucast c)"
  "int_op OpConst64 c as = Some w \<longleftrightarrow> as = [] \<and> w = W64 c"
  "int_op OpAdd32 c as = Some w \<longleftrightarrow> (\<exists>x y. as = [W32 x, W32 y] \<and> w = W32 (x + y))"
  by (auto elim!: int_op.elims split: if_splits)

lemma const32_value:
  assumes "values_agree env f" and "env v = Some (W32 y)" and "vOp (fval f v) \<in> {OpConst32, OpConst64}"
  shows "vOp (fval f v) = OpConst32 \<and> y = ucast (vAuxInt (fval f v))"
proof -
  have "vOp (fval f v) \<in> int_ops" using assms(3) by (auto simp: int_ops_def)
  then obtain as where "int_op (vOp (fval f v)) (vAuxInt (fval f v)) as = Some (W32 y)"
    using assms(1,2) by (auto simp: values_agree_def)
  then show ?thesis using assms(3) by (auto simp: int_op_unary_values)
qed

lemma peel_value:
  assumes "values_agree env f" and "env a = Some (W32 x)"
    and "peel f OpAdd32 OpConst32 (\<lambda>c. sint (ucast c :: i32)) a off = (base, tot)"
    and "env base = Some (W32 bx)"
  shows "\<exists>c. 0 \<le> c \<and> c < simdBoundsWindow \<and> tot = off + c \<and> x = bx + word_of_int c"
proof (cases "base = a \<and> tot = off")
  case True
  then show ?thesis using assms(2,4) by (intro exI [of _ 0]) (simp add: simdBoundsWindow_def)
next
  case False
  then obtain k where args: "vArgs (fval f a) = [Some base, Some k]" and op: "vOp (fval f a) = OpAdd32" "vOp (fval f k) = OpConst32"
    and c: "0 \<le> sint (ucast (vAuxInt (fval f k)) :: i32)" "sint (ucast (vAuxInt (fval f k)) :: i32) < simdBoundsWindow"
    and tot: "tot = off + sint (ucast (vAuxInt (fval f k)) :: i32)"
    using assms(3) by (auto simp: peel_def split: list.splits option.splits if_splits)
  have "vOp (fval f a) \<in> int_ops" using op by (simp add: int_ops_def)
  then obtain as where as: "arg_vals env (vArgs (fval f a)) = Some as" "int_op OpAdd32 (vAuxInt (fval f a)) as = Some (W32 x)"
    using assms(1,2) op by (fastforce simp: values_agree_def)
  then obtain y where "env k = Some (W32 y)" "x = bx + y"
    using assms(4) by (auto simp: int_op_unary_values args arg_vals_def arg_val_def split: option.splits)
  moreover from this have "y = ucast (vAuxInt (fval f k))" using const32_value [OF assms(1)] op by blast
  ultimately show ?thesis using c tot by (intro exI [of _ "sint (ucast (vAuxInt (fval f k)) :: i32)"]) simp
qed

text \<open>A member's operands are the base and its displacement, added without wrapping.\<close>

lemma member_operands:
  assumes "values_agree env f" and "splitSimdAddr f (fval f (ref_v r)) = Some (base, ref_total r)"
    and "load_operands env f r = Some (x, d)" and "env base = Some (W32 bx)"
    and "ref_total r < simdBoundsWindow" and "uint bx + simdBoundsWindow \<le> 2 ^ 32"
  shows "uint x + uint d = uint bx + ref_total r \<and> uint d \<le> ref_total r"
proof -
  obtain a k rest where args: "vArgs (fval f (ref_v r)) = Some a # Some k # rest"
    and env: "env a = Some (W32 x)" "env k = Some (W32 d)"
    using assms(3) by (auto simp: load_operands_def split: list.splits option.splits wval.splits)
  have "vOp (fval f k) \<in> {OpConst32, OpConst64}"
    using assms(2) args by (auto simp: splitSimdAddr_def split: if_splits)
  note k = const32_value [OF assms(1) env(2) this]
  then have "peel f OpAdd32 OpConst32 (\<lambda>c. sint (ucast c :: i32)) a (uint d) = (base, ref_total r)"
    using assms(2) args by (simp add: splitSimdAddr_def)
  from peel_value [OF assms(1) env(1) this assms(4)]
  obtain c where c: "0 \<le> c" "c < simdBoundsWindow" "ref_total r = uint d + c" "x = bx + word_of_int c" by blast
  have "uint d \<ge> 0" "uint bx \<ge> 0" by simp_all
  moreover have "take_bit 32 c = c" using c(1,2) by (simp add: take_bit_int_eq_self_iff simdBoundsWindow_def)
  ultimately have "uint (bx + word_of_int c) = uint bx + c"
    using c(1,2) assms(6) by (simp add: uint_word_ariths unsigned_of_int simdBoundsWindow_def)
  then show ?thesis using c by simp
qed

lemma signed_window:
  assumes "uint (a :: i32) + rlo \<ge> 0" and "- (2 ^ 31) \<le> rlo" and "rlo < 2 ^ 31" and "0 \<le> span" and "span < 2 ^ 31"
  shows "\<not> (ucast a + scast (word_of_int rlo :: i32) :: i64) <s 0"
    and "uint (ucast a + scast (word_of_int rlo :: i32) + ucast (word_of_int span :: i32) :: u64) = uint a + rlo + span"
proof -
  have a: "0 \<le> uint a" "uint a < 2 ^ 32" using uint_lt2p [of a] by simp_all
  have r: "scast (word_of_int rlo :: i32) = (word_of_int rlo :: i64)"
    using assms(2,3) sint_word_of_int_self [where 'a = 32, of rlo] unfolding scast_eq by simp
  have s: "ucast (word_of_int span :: i32) = (word_of_int span :: i64)"
    using assms(4,5) take_bit_int_eq_self [of span 32] by (simp only: ucast_eq unsigned_of_int) simp
  have u: "(ucast a :: i64) = word_of_int (uint a)" by (rule ucast_eq)
  have st: "(ucast a + scast (word_of_int rlo :: i32) :: i64) = word_of_int (uint a + rlo)"
    unfolding r u by simp
  then have "sint (ucast a + scast (word_of_int rlo :: i32) :: i64) = uint a + rlo"
    unfolding st using assms(1,3) a by (intro sint_word_of_int_self) simp_all
  then show "\<not> (ucast a + scast (word_of_int rlo :: i32) :: i64) <s 0"
    using assms(1) by (simp add: word_sless_alt)
  have "(ucast a + scast (word_of_int rlo :: i32) + ucast (word_of_int span :: i32) :: u64) = word_of_int (uint a + rlo + span)"
    unfolding st s by simp
  moreover have "take_bit 64 (uint a + rlo + span) = uint a + rlo + span"
    using assms a by (simp add: take_bit_int_eq_self_iff)
  ultimately show "uint (ucast a + scast (word_of_int rlo :: i32) + ucast (word_of_int span :: i32) :: u64) = uint a + rlo + span"
    using assms(1,4) by (simp only: unsigned_of_int) simp
qed

lemma load_in_bounds:
  assumes "mem_inv wasmMemHardCap m"
  shows "simd_v128_load m a d =
    (if uint a + uint d + 16 \<le> uint (memSize m) then simd_v128_load_nc m a d else trap_simd_oob)"
proof -
  have "uint a < 2 ^ 32" "uint d < 2 ^ 32" using uint_lt2p [of a] uint_lt2p [of d] by simp_all
  then have "take_bit 64 (uint a) = uint a" "take_bit 64 (uint d) = uint d" "uint a + uint d + 16 < 2 ^ 64"
    by (simp_all add: take_bit_int_eq_self_iff)
  then have "uint (ucast a + ucast d + 16 :: u64) = uint a + uint d + 16"
    by (simp add: uint_word_ariths unsigned_ucast_eq)
  then show ?thesis
    by (auto simp: simd_v128_load_def simd_v128_load_nc_def simdEA_def Let_def word_less_def trap_simd_oob_def)
qed

definition in_group :: "env \<Rightarrow> Func \<Rightarrow> simdLoadGroup \<Rightarrow> i32 \<Rightarrow> bool" where
  "in_group env f g bx \<longleftrightarrow>
     env (grp_base g) = Some (W32 bx) \<and> (\<forall>r \<in> set (grp_refs g). load_operands env f r \<noteq> None)"

lemma group_check:
  assumes g: "group_ok f g" "length (grp_refs g) \<ge> 2" and agree: "values_agree env f"
    and base: "env (grp_base g) = Some (W32 bx)" and small: "uint bx + simdBoundsWindow \<le> 2 ^ 32"
    and ops: "\<forall>r \<in> set (grp_refs g). load_operands env f r \<noteq> None"
    and first: "load_operands env f (hd (grp_refs g)) = Some (a, d)"
    and range: "group_range (uint d) (grp_refs g) = (rlo, span)"
  shows "simd_v128_load_rng m a d (word_of_int rlo) (word_of_int span) =
    (if \<forall>r \<in> set (grp_refs g). uint bx + ref_total r + 16 \<le> uint (memSize m)
     then simd_v128_load_nc m a d else trap_simd_oob)"
proof -
  let ?rs = "grp_refs g"
  obtain lo hi where lh: "lo_hi (ref_total (hd ?rs)) ?rs = (lo, hi)" by fastforce
  have hd: "hd ?rs \<in> set ?rs" using g(2) by (cases ?rs) auto
  have mem: "uint x + uint y = uint bx + ref_total r \<and> uint y \<le> ref_total r \<and> ref_total r < simdBoundsWindow"
    if "r \<in> set ?rs" "load_operands env f r = Some (x, y)" for r x y
    using member_operands [OF agree _ that(2) base _ small] g that(1) by (simp add: group_ok_def)
  have tot: "0 \<le> ref_total r \<and> ref_total r < simdBoundsWindow" if r: "r \<in> set ?rs" for r
  proof -
    obtain x y where "load_operands env f r = Some (x, y)" using ops r by fastforce
    from mem [OF r this] show ?thesis using uint_ge_0 [of y] by linarith
  qed
  have ends: "(\<exists>r \<in> set ?rs. lo = ref_total r) \<and> (\<exists>r \<in> set ?rs. hi = ref_total r) \<and>
      (\<forall>r \<in> set ?rs. lo \<le> ref_total r \<and> ref_total r \<le> hi)"
    using lo_hi_bounds [OF lh] hd by blast
  then have lohi: "0 \<le> lo" "lo \<le> hi" "hi < simdBoundsWindow" using tot hd by auto
  have rl: "rlo = lo - (ref_total (hd ?rs) - uint d)" "span = hi + 16 - lo"
    using range lh by (simp_all add: group_range_def Let_def)
  note h = mem [OF hd first]
  have win: "uint a + rlo = uint bx + lo" "- (2 ^ 31) \<le> rlo" "rlo < 2 ^ 31" "0 \<le> span" "span < 2 ^ 31"
    using rl h lohi tot [OF hd] uint_ge_0 [of d] unfolding simdBoundsWindow_def by (linarith | simp)+
  have pos: "uint a + rlo \<ge> 0" using win(1) lohi(1) uint_ge_0 [of bx] by linarith
  note check = signed_window [OF pos win(2-5)]
  have "uint a + rlo + span = uint bx + hi + 16" using win(1) rl(2) by linarith
  moreover have "(\<forall>r \<in> set ?rs. uint bx + ref_total r + 16 \<le> uint (memSize m)) \<longleftrightarrow> uint bx + hi + 16 \<le> uint (memSize m)"
    using ends by force
  ultimately show ?thesis
    using check by (auto simp: simd_v128_load_rng_def simd_v128_load_nc_def Let_def word_less_def)
qed

text \<open>
  C28: For every group the scan of a block finds, whatever the block's values are at run time, if the
  group's base lies at least the window below the end of the 32-bit address space, then the range
  check the pass puts on the first load passes exactly when every load of the group is in bounds,
  and then the first load and the unchecked loads return what the checked loads return.
\<close>

theorem coalesce_exact:
  assumes "g \<in> set (bounds_scan f b)" and "values_agree env f" and "in_group env f g bx"
    and "uint bx + simdBoundsWindow \<le> 2 ^ 32" and "mem_inv wasmMemHardCap m"
    and "load_operands env f (hd (grp_refs g)) = Some (a, d)"
    and "group_range (uint d) (grp_refs g) = (rlo, span)"
  shows "(\<forall>e. simd_v128_load_rng m a d (word_of_int rlo) (word_of_int span) = Inr e \<longrightarrow>
       simd_v128_load m a d = Inr e \<and>
       (\<forall>r \<in> set (grp_refs g). \<forall>x y. load_operands env f r = Some (x, y) \<longrightarrow>
          (\<exists>v. simd_v128_load m x y = Inr v \<and> simd_v128_load_nc m x y = Inr v))) \<and>
    (simd_v128_load_rng m a d (word_of_int rlo) (word_of_int span) = trap_simd_oob \<longleftrightarrow>
       (\<exists>r \<in> set (grp_refs g). \<exists>x y. load_operands env f r = Some (x, y) \<and> simd_v128_load m x y = trap_simd_oob))"
proof -
  let ?ok = "\<lambda>r. uint bx + ref_total r + 16 \<le> uint (memSize m)"
  note g = bounds_scan_ok [OF assms(1)]
  have ops: "\<forall>r \<in> set (grp_refs g). load_operands env f r \<noteq> None" and base: "env (grp_base g) = Some (W32 bx)"
    using assms(3) by (simp_all add: in_group_def)
  note check = group_check [OF conjunct1 [OF g] conjunct2 [OF g] assms(2) base assms(4) ops assms(6,7)]
  have sum: "uint x + uint y = uint bx + ref_total r" if "r \<in> set (grp_refs g)" "load_operands env f r = Some (x, y)" for r x y
    using member_operands [OF assms(2) _ that(2) base _ assms(4)] g that(1) by (simp add: group_ok_def)
  have nc: "\<exists>v. simd_v128_load_nc m x y = Inr v" if "uint x + uint y + 16 \<le> uint (memSize m)" for x y
  proof -
    have "unat x + unat y + 16 \<le> unat (memSize m)" using that unfolding uint_nat by linarith
    then have "simd_v128_load m x y = Inr (bytes_v128 (take 16 (drop (unat x + unat y) (mem_abs m))))"
      using simd32.vector_load [OF assms(5), of x y] by (simp only: simd_v128_load_def simd32.fits_def if_True)
    then show ?thesis using load_in_bounds [OF assms(5), of x y] that by metis
  qed
  have load: "simd_v128_load m x y = (if ?ok r then simd_v128_load_nc m x y else trap_simd_oob)"
    if "r \<in> set (grp_refs g)" "load_operands env f r = Some (x, y)" for r x y
    using load_in_bounds [OF assms(5), of x y] sum [OF that] by simp
  have hd: "hd (grp_refs g) \<in> set (grp_refs g)" using g by (cases "grp_refs g") auto
  show ?thesis
  proof (cases "\<forall>r \<in> set (grp_refs g). ?ok r")
    case True
    have "\<exists>v. simd_v128_load m x y = Inr v \<and> simd_v128_load_nc m x y = Inr v"
      if "r \<in> set (grp_refs g)" "load_operands env f r = Some (x, y)" for r x y
      using nc [of x y] load [OF that] sum [OF that] True that(1) by simp
    moreover have "simd_v128_load_rng m a d (word_of_int rlo) (word_of_int span) = simd_v128_load m a d"
      using check load [OF hd assms(6)] True hd by simp
    ultimately show ?thesis using hd assms(6) by fastforce
  next
    case False
    then have "simd_v128_load_rng m a d (word_of_int rlo) (word_of_int span) = trap_simd_oob" by (subst check) (simp only: if_False)
    moreover obtain r where "r \<in> set (grp_refs g)" "\<not> ?ok r" using False by blast
    moreover from this obtain x y where "load_operands env f r = Some (x, y)" using ops by fastforce
    ultimately show ?thesis using load [of r x y] by auto
  qed
qed

definition load_call :: "string \<Rightarrow> nat list \<Rightarrow> Value" where
  "load_call name as = (value_of OpSimdMemCall TypeV128 0 as)\<lparr>vAux := AuxString name\<rparr>"

text \<open>Two loads of a base pointer, the second sixteen bytes on.\<close>

definition pair_func :: Func where
  "pair_func = straight []
     [value_of OpParam TypeI32 0 [], value_of OpConst32 TypeI32 16 [], value_of OpAdd32 TypeI32 0 [1, 2],
      value_of OpConst32 TypeI32 0 [], load_call ''simd_v128_load'' [1, 4], load_call ''simd_v128_load'' [3, 4]]"

definition pair_env :: env where
  "pair_env = [1 \<mapsto> W32 64, 2 \<mapsto> W32 16, 3 \<mapsto> W32 80, 4 \<mapsto> W32 0]"

lemmas scan_simps = bounds_scan_def bounds_scan_value_def splitSimdAddr_def peel_def vec_load_names_def simdBoundsBarrier_def
  HasSideEffect_def Op_HasSideEffect_def flushAll_def fitsWindow_def lo_hi_def simdBoundsWindow_def
  fval_straight value_of_def load_call_def upt_rec

lemma pair_scan:
  "bounds_scan pair_func 0 = [\<lparr>grp_base = 1, grp_refs =
     [\<lparr>ref_idx = 4, ref_v = 5, ref_total = 0\<rparr>, \<lparr>ref_idx = 5, ref_v = 6, ref_total = 16\<rparr>]\<rparr>]"
  by (simp add: pair_func_def scan_simps)

lemma pair_agree: "values_agree pair_env pair_func"
  by (simp add: values_agree_def pair_env_def pair_func_def fval_straight value_of_def load_call_def
      arg_vals_def arg_val_def int_ops_def)

lemma sample_rng: "\<exists>e. simd_v128_load_rng sample_mem 64 0 0 32 = Inr e"
proof -
  have "\<not> (64 :: i64) <s 0" by (simp add: word_sless_alt)
  then show ?thesis by (simp add: simd_v128_load_rng_def sample_mem_def raw_read_v128_def raw_read_def map_trap_def)
qed

theorem coalesce_exact_witness:
  "\<exists>e. simd_v128_load_rng sample_mem 64 0 0 32 = Inr e \<and> simd_v128_load sample_mem 64 0 = Inr e \<and>
     simd_v128_load_nc sample_mem 80 0 = simd_v128_load sample_mem 80 0"
proof -
  let ?g = "\<lparr>grp_base = 1, grp_refs =
     [\<lparr>ref_idx = 4, ref_v = 5, ref_total = 0\<rparr>, \<lparr>ref_idx = 5, ref_v = 6, ref_total = 16\<rparr>]\<rparr>"
  note sims = load_operands_def pair_func_def fval_straight value_of_def load_call_def pair_env_def
  have ops: "load_operands pair_env pair_func \<lparr>ref_idx = 4, ref_v = 5, ref_total = 0\<rparr> = Some (64, 0)"
    "load_operands pair_env pair_func \<lparr>ref_idx = 5, ref_v = 6, ref_total = 16\<rparr> = Some (80, 0)"
    by (simp_all add: sims)
  then have g: "in_group pair_env pair_func ?g 64" by (simp add: in_group_def) (simp add: pair_env_def)
  have hd: "load_operands pair_env pair_func (hd (grp_refs ?g)) = Some (64, 0)" using ops by simp
  have r: "group_range (uint (0 :: i32)) (grp_refs ?g) = (0, 32)" by (simp add: group_range_def lo_hi_def)
  have "?g \<in> set (bounds_scan pair_func 0)" by (simp add: pair_scan)
  from coalesce_exact [OF this pair_agree g _ sample_mem_inv hd r] have
    c: "\<forall>e. simd_v128_load_rng sample_mem 64 0 0 32 = Inr e \<longrightarrow> simd_v128_load sample_mem 64 0 = Inr e \<and>
      (\<forall>r \<in> set (grp_refs ?g). \<forall>x y. load_operands pair_env pair_func r = Some (x, y) \<longrightarrow>
          (\<exists>v. simd_v128_load sample_mem x y = Inr v \<and> simd_v128_load_nc sample_mem x y = Inr v))"
    by (simp add: simdBoundsWindow_def)
  obtain e where e: "simd_v128_load_rng sample_mem 64 0 0 32 = Inr e"
    using sample_rng by blast
  from c [rule_format, OF e] ops have "\<exists>v. simd_v128_load sample_mem 80 0 = Inr v \<and> simd_v128_load_nc sample_mem 80 0 = Inr v"
    by (metis list.set_intros simdLoadGroup.select_convs(2))
  then show ?thesis using c e by auto
qed

text \<open>The vector loads as the emitted code calls them; a read outside the array has no meaning.\<close>

definition bounds_ext :: "'x machine sem" where
  "bounds_ext op t c aux as st =
     (let out = (\<lambda>r. if r = raw_fault then Stuck else trap_out st (\<lambda>(lo, hi). (WV128 lo hi, st)) r) in
      if op \<noteq> OpSimdMemCall then Stuck
      else if aux = AuxString ''simd_v128_load'' then
        (case as of [W32 a, W32 d] \<Rightarrow> out (simd_v128_load (fst st) a d) | _ \<Rightarrow> Stuck)
      else if aux = AuxString ''simd_v128_load_rng'' then
        (case as of [W32 a, W32 d, W32 l, W32 n] \<Rightarrow> out (simd_v128_load_rng (fst st) a d l n) | _ \<Rightarrow> Stuck)
      else if aux = AuxString ''simd_v128_load_nc'' then
        (case as of [W32 a, W32 d] \<Rightarrow> out (simd_v128_load_nc (fst st) a d) | _ \<Rightarrow> Stuck)
      else if aux = AuxString ''simd_m64_v128_load'' then
        (case as of [W64 a, W64 d] \<Rightarrow> out (simd_m64_v128_load (fst st) a d) | _ \<Rightarrow> Stuck)
      else if aux = AuxString ''simd_m64_v128_load_rng'' then
        (case as of [W64 a, W64 d, W64 l, W64 n] \<Rightarrow> out (simd_m64_v128_load_rng (fst st) a d l n) | _ \<Rightarrow> Stuck)
      else if aux = AuxString ''simd_m64_v128_load_nc'' then
        (case as of [W64 a, W64 d] \<Rightarrow> out (simd_m64_v128_load_nc (fst st) a d) | _ \<Rightarrow> Stuck)
      else Stuck)"

text \<open>
  A 64-bit base just below the end of the address space, loaded at two offsets that carry it past
  the end; and a 32-bit one whose first load has the base wrapped by an addition.
\<close>

definition wrap64_func :: Func where
  "wrap64_func = straight [TypeI64]
     [value_of OpConst64 TypeI64 (- 8) [], value_of OpConst64 TypeI64 16 [], load_call ''simd_m64_v128_load'' [1, 2],
      value_of OpConst64 TypeI64 32 [], load_call ''simd_m64_v128_load'' [1, 4], value_of OpCopy TypeI64 0 [1]]"

definition wrap32_func :: Func where
  "wrap32_func = straight [TypeI32]
     [value_of OpConst32 TypeI32 (- 16) [], value_of OpConst32 TypeI32 16 [], value_of OpAdd32 TypeI32 0 [1, 2],
      value_of OpConst32 TypeI32 0 [], load_call ''simd_v128_load'' [3, 4], value_of OpConst32 TypeI32 32 [],
      load_call ''simd_v128_load'' [1, 6], value_of OpCopy TypeI32 0 [1]]"

lemmas emit_simps = CoalesceSimdBounds_def coalesceBlock_def sort_groups_def exchange_def emitCoalesced_def group_range_def
  NewValueBefore_def newValue_def insert_at_def upd_val_def upd_blk_def first_idx_def


lemma wrap64_scan:
  "bounds_scan wrap64_func 0 = [\<lparr>grp_base = 1, grp_refs =
     [\<lparr>ref_idx = 2, ref_v = 3, ref_total = 16\<rparr>, \<lparr>ref_idx = 4, ref_v = 5, ref_total = 32\<rparr>]\<rparr>]"
  by (simp add: wrap64_func_def scan_simps)


lemma wrap64_values:
  "Entry wrap64_func = Some 0" "Blocks wrap64_func = [0]" "Values (fblk wrap64_func 0) = [1, 2, 3, 4, 5, 6]" "bKind (fblk wrap64_func 0) = BlockRet"
  "Results (Sig wrap64_func) = [TypeI64]" "nextValueID wrap64_func = 7"
  "fval wrap64_func (Suc 0) = value_of OpConst64 TypeI64 (- 8) []" "fval wrap64_func 2 = value_of OpConst64 TypeI64 16 []"
  "fval wrap64_func 3 = load_call ''simd_m64_v128_load'' [1, 2]" "fval wrap64_func 4 = value_of OpConst64 TypeI64 32 []"
  "fval wrap64_func 5 = load_call ''simd_m64_v128_load'' [1, 4]" "fval wrap64_func 6 = value_of OpCopy TypeI64 0 [1]"
  by (simp_all add: wrap64_func_def fval_straight upt_rec) (simp add: straight_def)

lemma wrap64_out:
  fixes g :: Func
  defines "g \<equiv> fst (CoalesceSimdBounds wrap64_func)"
  shows "Entry g = Some 0" and "Values (fblk g 0) = [1, 2, 7, 8, 3, 4, 5, 6]" and "bKind (fblk g 0) = BlockRet"
    and "Results (Sig g) = [TypeI64]"
    and "fval g (Suc 0) = value_of OpConst64 TypeI64 (- 8) []" "fval g 2 = value_of OpConst64 TypeI64 16 []"
    and "fval g 7 = value_of OpConst64 TypeI64 16 []" "fval g 8 = value_of OpConst64 TypeI64 32 []"
    and "fval g 3 = load_call ''simd_m64_v128_load_rng'' [1, 2, 7, 8]" "fval g 4 = value_of OpConst64 TypeI64 32 []"
    and "fval g 5 = load_call ''simd_m64_v128_load_nc'' [1, 4]" "fval g 6 = value_of OpCopy TypeI64 0 [1]"
  unfolding g_def
  by (simp_all add: CoalesceSimdBounds_def coalesceBlock_def wrap64_scan wrap64_values Let_def emit_simps lo_hi_def load_call_def value_of_def)



lemma wrap32_scan:
  "bounds_scan wrap32_func 0 = [\<lparr>grp_base = 1, grp_refs =
     [\<lparr>ref_idx = 4, ref_v = 5, ref_total = 16\<rparr>, \<lparr>ref_idx = 6, ref_v = 7, ref_total = 32\<rparr>]\<rparr>]"
  by (simp add: wrap32_func_def scan_simps)

text \<open>
  C36: Near the end of the address space the coalesced check differs from the checks it replaces. In
  the 64-bit family a base of -8 with offsets 16 and 32 makes the first load trap, since the sum
  wraps, but the range check wraps the same way and passes, so the function returns. In the 32-bit
  family a first load whose base addition wraps to 0 passes the range check of its group, and the
  second load, which used to trap, then reads beyond four gigabytes without a check.
\<close>

theorem coalesce_misses_traps:
  "run_func 1 (mem_sem bounds_ext) wrap64_func (sample_mem, ()) = Trap (sample_mem, ()) \<and>
   returned (run_func 1 (mem_sem bounds_ext) (fst (CoalesceSimdBounds wrap64_func)) (sample_mem, ())) = Some [W64 (- 8)] \<and>
   map (\<lambda>g. group_range 0 (grp_refs g)) (bounds_scan wrap32_func 0) = [(0, 32)] \<and>
   simd_v128_load sample_mem (- 16 + 16) 0 = Inr (0, 0) \<and> simd_v128_load sample_mem (- 16) 32 = trap_simd_oob \<and>
   simd_v128_load_rng sample_mem (- 16 + 16) 0 0 32 = Inr (0, 0) \<and> simd_v128_load_nc sample_mem (- 16) 32 = raw_fault"
proof (intro conjI)
  show "run_func 1 (mem_sem bounds_ext) wrap64_func (sample_mem, ()) = Trap (sample_mem, ())"
    by (simp add: run_mem_simps load_call_def bounds_ext_def sample_mem_def simd_m64_v128_load_def simdEA64_def trap_simd_oob_def
        raw_fault_def trap_out_def wrap64_func_def)
  define g where "g = fst (CoalesceSimdBounds wrap64_func)"
  note g = wrap64_out [folded g_def]
  have "simd_m64_v128_load_rng sample_mem (- 8) 16 16 32 = Inr (0, 0)" "simd_m64_v128_load_nc sample_mem (- 8) 32 = Inr (0, 0)"
    by (simp_all add: sample_mem_def simd_m64_v128_load_rng_def simd_m64_v128_load_nc_def raw_read_v128_def raw_read_def
        map_trap_def le_word_zeros word_sless_alt)
  then show "returned (run_func 1 (mem_sem bounds_ext) (fst (CoalesceSimdBounds wrap64_func)) (sample_mem, ())) = Some [W64 (- 8)]"
    unfolding g_def [symmetric]
    by (simp add: g run_mem_simps load_call_def bounds_ext_def raw_fault_def)
  show "map (\<lambda>g. group_range 0 (grp_refs g)) (bounds_scan wrap32_func 0) = [(0, 32)]"
    by (simp add: wrap32_scan group_range_def lo_hi_def)
  note sims = sample_mem_def simd_v128_load_def simd_v128_load_rng_def simd_v128_load_nc_def simdEA_def raw_read_v128_def
    raw_read_def map_trap_def le_word_zeros word_sless_alt trap_simd_oob_def raw_fault_def
  show "simd_v128_load sample_mem (- 16 + 16) 0 = Inr (0, 0)" "simd_v128_load sample_mem (- 16) 32 = trap_simd_oob"
    "simd_v128_load_rng sample_mem (- 16 + 16) 0 0 32 = Inr (0, 0)" "simd_v128_load_nc sample_mem (- 16) 32 = raw_fault"
    by (simp_all add: sims)
qed

end
