(* ===== verification/LowerTables.thy ===== *)
theory LowerTables
  imports SsaCore InstrReader
begin

text \<open>
  The opcode tables of the lowering, from \<^verbatim>\<open>internal/lower/lower.go\<close> and
  \<^verbatim>\<open>internal/lower/simd.go\<close>, with the opcodes of \<^verbatim>\<open>internal/wasm/opcodes.go\<close> under a
  \<open>W\<close> before their Go names. A table that is a \<^verbatim>\<open>switch\<close> with a panic at its end is partial here.
\<close>

section \<open>Opcodes\<close>

abbreviation WOpUnreachable :: byte where "WOpUnreachable \<equiv> 0x00"
abbreviation WOpNop :: byte where "WOpNop \<equiv> 0x01"
abbreviation WOpBlock :: byte where "WOpBlock \<equiv> 0x02"
abbreviation WOpLoop :: byte where "WOpLoop \<equiv> 0x03"
abbreviation WOpIf :: byte where "WOpIf \<equiv> 0x04"
abbreviation WOpElse :: byte where "WOpElse \<equiv> 0x05"
abbreviation WOpTry :: byte where "WOpTry \<equiv> 0x06"
abbreviation WOpCatch :: byte where "WOpCatch \<equiv> 0x07"
abbreviation WOpThrow :: byte where "WOpThrow \<equiv> 0x08"
abbreviation WOpRethrow :: byte where "WOpRethrow \<equiv> 0x09"
abbreviation WOpDelegate :: byte where "WOpDelegate \<equiv> 0x18"
abbreviation WOpCatchAll :: byte where "WOpCatchAll \<equiv> 0x19"
abbreviation WOpEnd :: byte where "WOpEnd \<equiv> 0x0b"
abbreviation WOpBr :: byte where "WOpBr \<equiv> 0x0c"
abbreviation WOpBrIf :: byte where "WOpBrIf \<equiv> 0x0d"
abbreviation WOpBrTable :: byte where "WOpBrTable \<equiv> 0x0e"
abbreviation WOpReturn :: byte where "WOpReturn \<equiv> 0x0f"
abbreviation WOpCall :: byte where "WOpCall \<equiv> 0x10"
abbreviation WOpCallIndirect :: byte where "WOpCallIndirect \<equiv> 0x11"
abbreviation WOpDrop :: byte where "WOpDrop \<equiv> 0x1a"
abbreviation WOpSelect :: byte where "WOpSelect \<equiv> 0x1b"
abbreviation WOpSelectT :: byte where "WOpSelectT \<equiv> 0x1c"
abbreviation WOpLocalGet :: byte where "WOpLocalGet \<equiv> 0x20"
abbreviation WOpLocalSet :: byte where "WOpLocalSet \<equiv> 0x21"
abbreviation WOpLocalTee :: byte where "WOpLocalTee \<equiv> 0x22"
abbreviation WOpGlobalGet :: byte where "WOpGlobalGet \<equiv> 0x23"
abbreviation WOpGlobalSet :: byte where "WOpGlobalSet \<equiv> 0x24"
abbreviation WOpI32Load :: byte where "WOpI32Load \<equiv> 0x28"
abbreviation WOpI64Load :: byte where "WOpI64Load \<equiv> 0x29"
abbreviation WOpF32Load :: byte where "WOpF32Load \<equiv> 0x2a"
abbreviation WOpF64Load :: byte where "WOpF64Load \<equiv> 0x2b"
abbreviation WOpI32Load8S :: byte where "WOpI32Load8S \<equiv> 0x2c"
abbreviation WOpI32Load8U :: byte where "WOpI32Load8U \<equiv> 0x2d"
abbreviation WOpI32Load16S :: byte where "WOpI32Load16S \<equiv> 0x2e"
abbreviation WOpI32Load16U :: byte where "WOpI32Load16U \<equiv> 0x2f"
abbreviation WOpI64Load8S :: byte where "WOpI64Load8S \<equiv> 0x30"
abbreviation WOpI64Load8U :: byte where "WOpI64Load8U \<equiv> 0x31"
abbreviation WOpI64Load16S :: byte where "WOpI64Load16S \<equiv> 0x32"
abbreviation WOpI64Load16U :: byte where "WOpI64Load16U \<equiv> 0x33"
abbreviation WOpI64Load32S :: byte where "WOpI64Load32S \<equiv> 0x34"
abbreviation WOpI64Load32U :: byte where "WOpI64Load32U \<equiv> 0x35"
abbreviation WOpI32Store :: byte where "WOpI32Store \<equiv> 0x36"
abbreviation WOpI64Store :: byte where "WOpI64Store \<equiv> 0x37"
abbreviation WOpF32Store :: byte where "WOpF32Store \<equiv> 0x38"
abbreviation WOpF64Store :: byte where "WOpF64Store \<equiv> 0x39"
abbreviation WOpI32Store8 :: byte where "WOpI32Store8 \<equiv> 0x3a"
abbreviation WOpI32Store16 :: byte where "WOpI32Store16 \<equiv> 0x3b"
abbreviation WOpI64Store8 :: byte where "WOpI64Store8 \<equiv> 0x3c"
abbreviation WOpI64Store16 :: byte where "WOpI64Store16 \<equiv> 0x3d"
abbreviation WOpI64Store32 :: byte where "WOpI64Store32 \<equiv> 0x3e"
abbreviation WOpMemSize :: byte where "WOpMemSize \<equiv> 0x3f"
abbreviation WOpMemGrow :: byte where "WOpMemGrow \<equiv> 0x40"
abbreviation WOpI32Const :: byte where "WOpI32Const \<equiv> 0x41"
abbreviation WOpI64Const :: byte where "WOpI64Const \<equiv> 0x42"
abbreviation WOpF32Const :: byte where "WOpF32Const \<equiv> 0x43"
abbreviation WOpF64Const :: byte where "WOpF64Const \<equiv> 0x44"
abbreviation WOpI32Eqz :: byte where "WOpI32Eqz \<equiv> 0x45"
abbreviation WOpI32Eq :: byte where "WOpI32Eq \<equiv> 0x46"
abbreviation WOpI32Ne :: byte where "WOpI32Ne \<equiv> 0x47"
abbreviation WOpI32LtS :: byte where "WOpI32LtS \<equiv> 0x48"
abbreviation WOpI32LtU :: byte where "WOpI32LtU \<equiv> 0x49"
abbreviation WOpI32GtS :: byte where "WOpI32GtS \<equiv> 0x4a"
abbreviation WOpI32GtU :: byte where "WOpI32GtU \<equiv> 0x4b"
abbreviation WOpI32LeS :: byte where "WOpI32LeS \<equiv> 0x4c"
abbreviation WOpI32LeU :: byte where "WOpI32LeU \<equiv> 0x4d"
abbreviation WOpI32GeS :: byte where "WOpI32GeS \<equiv> 0x4e"
abbreviation WOpI32GeU :: byte where "WOpI32GeU \<equiv> 0x4f"
abbreviation WOpI64Eqz :: byte where "WOpI64Eqz \<equiv> 0x50"
abbreviation WOpI64Eq :: byte where "WOpI64Eq \<equiv> 0x51"
abbreviation WOpI64Ne :: byte where "WOpI64Ne \<equiv> 0x52"
abbreviation WOpI64LtS :: byte where "WOpI64LtS \<equiv> 0x53"
abbreviation WOpI64LtU :: byte where "WOpI64LtU \<equiv> 0x54"
abbreviation WOpI64GtS :: byte where "WOpI64GtS \<equiv> 0x55"
abbreviation WOpI64GtU :: byte where "WOpI64GtU \<equiv> 0x56"
abbreviation WOpI64LeS :: byte where "WOpI64LeS \<equiv> 0x57"
abbreviation WOpI64LeU :: byte where "WOpI64LeU \<equiv> 0x58"
abbreviation WOpI64GeS :: byte where "WOpI64GeS \<equiv> 0x59"
abbreviation WOpI64GeU :: byte where "WOpI64GeU \<equiv> 0x5a"
abbreviation WOpF32Eq :: byte where "WOpF32Eq \<equiv> 0x5b"
abbreviation WOpF32Ne :: byte where "WOpF32Ne \<equiv> 0x5c"
abbreviation WOpF32Lt :: byte where "WOpF32Lt \<equiv> 0x5d"
abbreviation WOpF32Gt :: byte where "WOpF32Gt \<equiv> 0x5e"
abbreviation WOpF32Le :: byte where "WOpF32Le \<equiv> 0x5f"
abbreviation WOpF32Ge :: byte where "WOpF32Ge \<equiv> 0x60"
abbreviation WOpF64Eq :: byte where "WOpF64Eq \<equiv> 0x61"
abbreviation WOpF64Ne :: byte where "WOpF64Ne \<equiv> 0x62"
abbreviation WOpF64Lt :: byte where "WOpF64Lt \<equiv> 0x63"
abbreviation WOpF64Gt :: byte where "WOpF64Gt \<equiv> 0x64"
abbreviation WOpF64Le :: byte where "WOpF64Le \<equiv> 0x65"
abbreviation WOpF64Ge :: byte where "WOpF64Ge \<equiv> 0x66"
abbreviation WOpI32Clz :: byte where "WOpI32Clz \<equiv> 0x67"
abbreviation WOpI32Ctz :: byte where "WOpI32Ctz \<equiv> 0x68"
abbreviation WOpI32Popcnt :: byte where "WOpI32Popcnt \<equiv> 0x69"
abbreviation WOpI32Add :: byte where "WOpI32Add \<equiv> 0x6a"
abbreviation WOpI32Sub :: byte where "WOpI32Sub \<equiv> 0x6b"
abbreviation WOpI32Mul :: byte where "WOpI32Mul \<equiv> 0x6c"
abbreviation WOpI32DivS :: byte where "WOpI32DivS \<equiv> 0x6d"
abbreviation WOpI32DivU :: byte where "WOpI32DivU \<equiv> 0x6e"
abbreviation WOpI32RemS :: byte where "WOpI32RemS \<equiv> 0x6f"
abbreviation WOpI32RemU :: byte where "WOpI32RemU \<equiv> 0x70"
abbreviation WOpI32And :: byte where "WOpI32And \<equiv> 0x71"
abbreviation WOpI32Or :: byte where "WOpI32Or \<equiv> 0x72"
abbreviation WOpI32Xor :: byte where "WOpI32Xor \<equiv> 0x73"
abbreviation WOpI32Shl :: byte where "WOpI32Shl \<equiv> 0x74"
abbreviation WOpI32ShrS :: byte where "WOpI32ShrS \<equiv> 0x75"
abbreviation WOpI32ShrU :: byte where "WOpI32ShrU \<equiv> 0x76"
abbreviation WOpI32Rotl :: byte where "WOpI32Rotl \<equiv> 0x77"
abbreviation WOpI32Rotr :: byte where "WOpI32Rotr \<equiv> 0x78"
abbreviation WOpI64Clz :: byte where "WOpI64Clz \<equiv> 0x79"
abbreviation WOpI64Ctz :: byte where "WOpI64Ctz \<equiv> 0x7a"
abbreviation WOpI64Popcnt :: byte where "WOpI64Popcnt \<equiv> 0x7b"
abbreviation WOpI64Add :: byte where "WOpI64Add \<equiv> 0x7c"
abbreviation WOpI64Sub :: byte where "WOpI64Sub \<equiv> 0x7d"
abbreviation WOpI64Mul :: byte where "WOpI64Mul \<equiv> 0x7e"
abbreviation WOpI64DivS :: byte where "WOpI64DivS \<equiv> 0x7f"
abbreviation WOpI64DivU :: byte where "WOpI64DivU \<equiv> 0x80"
abbreviation WOpI64RemS :: byte where "WOpI64RemS \<equiv> 0x81"
abbreviation WOpI64RemU :: byte where "WOpI64RemU \<equiv> 0x82"
abbreviation WOpI64And :: byte where "WOpI64And \<equiv> 0x83"
abbreviation WOpI64Or :: byte where "WOpI64Or \<equiv> 0x84"
abbreviation WOpI64Xor :: byte where "WOpI64Xor \<equiv> 0x85"
abbreviation WOpI64Shl :: byte where "WOpI64Shl \<equiv> 0x86"
abbreviation WOpI64ShrS :: byte where "WOpI64ShrS \<equiv> 0x87"
abbreviation WOpI64ShrU :: byte where "WOpI64ShrU \<equiv> 0x88"
abbreviation WOpI64Rotl :: byte where "WOpI64Rotl \<equiv> 0x89"
abbreviation WOpI64Rotr :: byte where "WOpI64Rotr \<equiv> 0x8a"
abbreviation WOpF32Abs :: byte where "WOpF32Abs \<equiv> 0x8b"
abbreviation WOpF32Neg :: byte where "WOpF32Neg \<equiv> 0x8c"
abbreviation WOpF32Ceil :: byte where "WOpF32Ceil \<equiv> 0x8d"
abbreviation WOpF32Floor :: byte where "WOpF32Floor \<equiv> 0x8e"
abbreviation WOpF32Trunc :: byte where "WOpF32Trunc \<equiv> 0x8f"
abbreviation WOpF32Nearest :: byte where "WOpF32Nearest \<equiv> 0x90"
abbreviation WOpF32Sqrt :: byte where "WOpF32Sqrt \<equiv> 0x91"
abbreviation WOpF32Add :: byte where "WOpF32Add \<equiv> 0x92"
abbreviation WOpF32Sub :: byte where "WOpF32Sub \<equiv> 0x93"
abbreviation WOpF32Mul :: byte where "WOpF32Mul \<equiv> 0x94"
abbreviation WOpF32Div :: byte where "WOpF32Div \<equiv> 0x95"
abbreviation WOpF32Min :: byte where "WOpF32Min \<equiv> 0x96"
abbreviation WOpF32Max :: byte where "WOpF32Max \<equiv> 0x97"
abbreviation WOpF32Copysign :: byte where "WOpF32Copysign \<equiv> 0x98"
abbreviation WOpF64Abs :: byte where "WOpF64Abs \<equiv> 0x99"
abbreviation WOpF64Neg :: byte where "WOpF64Neg \<equiv> 0x9a"
abbreviation WOpF64Ceil :: byte where "WOpF64Ceil \<equiv> 0x9b"
abbreviation WOpF64Floor :: byte where "WOpF64Floor \<equiv> 0x9c"
abbreviation WOpF64Trunc :: byte where "WOpF64Trunc \<equiv> 0x9d"
abbreviation WOpF64Nearest :: byte where "WOpF64Nearest \<equiv> 0x9e"
abbreviation WOpF64Sqrt :: byte where "WOpF64Sqrt \<equiv> 0x9f"
abbreviation WOpF64Add :: byte where "WOpF64Add \<equiv> 0xa0"
abbreviation WOpF64Sub :: byte where "WOpF64Sub \<equiv> 0xa1"
abbreviation WOpF64Mul :: byte where "WOpF64Mul \<equiv> 0xa2"
abbreviation WOpF64Div :: byte where "WOpF64Div \<equiv> 0xa3"
abbreviation WOpF64Min :: byte where "WOpF64Min \<equiv> 0xa4"
abbreviation WOpF64Max :: byte where "WOpF64Max \<equiv> 0xa5"
abbreviation WOpF64Copysign :: byte where "WOpF64Copysign \<equiv> 0xa6"
abbreviation WOpI32WrapI64 :: byte where "WOpI32WrapI64 \<equiv> 0xa7"
abbreviation WOpI32TruncF32S :: byte where "WOpI32TruncF32S \<equiv> 0xa8"
abbreviation WOpI32TruncF32U :: byte where "WOpI32TruncF32U \<equiv> 0xa9"
abbreviation WOpI32TruncF64S :: byte where "WOpI32TruncF64S \<equiv> 0xaa"
abbreviation WOpI32TruncF64U :: byte where "WOpI32TruncF64U \<equiv> 0xab"
abbreviation WOpI64ExtendI32S :: byte where "WOpI64ExtendI32S \<equiv> 0xac"
abbreviation WOpI64ExtendI32U :: byte where "WOpI64ExtendI32U \<equiv> 0xad"
abbreviation WOpI64TruncF32S :: byte where "WOpI64TruncF32S \<equiv> 0xae"
abbreviation WOpI64TruncF32U :: byte where "WOpI64TruncF32U \<equiv> 0xaf"
abbreviation WOpI64TruncF64S :: byte where "WOpI64TruncF64S \<equiv> 0xb0"
abbreviation WOpI64TruncF64U :: byte where "WOpI64TruncF64U \<equiv> 0xb1"
abbreviation WOpF32ConvertI32S :: byte where "WOpF32ConvertI32S \<equiv> 0xb2"
abbreviation WOpF32ConvertI32U :: byte where "WOpF32ConvertI32U \<equiv> 0xb3"
abbreviation WOpF32ConvertI64S :: byte where "WOpF32ConvertI64S \<equiv> 0xb4"
abbreviation WOpF32ConvertI64U :: byte where "WOpF32ConvertI64U \<equiv> 0xb5"
abbreviation WOpF32DemoteF64 :: byte where "WOpF32DemoteF64 \<equiv> 0xb6"
abbreviation WOpF64ConvertI32S :: byte where "WOpF64ConvertI32S \<equiv> 0xb7"
abbreviation WOpF64ConvertI32U :: byte where "WOpF64ConvertI32U \<equiv> 0xb8"
abbreviation WOpF64ConvertI64S :: byte where "WOpF64ConvertI64S \<equiv> 0xb9"
abbreviation WOpF64ConvertI64U :: byte where "WOpF64ConvertI64U \<equiv> 0xba"
abbreviation WOpF64PromoteF32 :: byte where "WOpF64PromoteF32 \<equiv> 0xbb"
abbreviation WOpI32ReinterpretF32 :: byte where "WOpI32ReinterpretF32 \<equiv> 0xbc"
abbreviation WOpI64ReinterpretF64 :: byte where "WOpI64ReinterpretF64 \<equiv> 0xbd"
abbreviation WOpF32ReinterpretI32 :: byte where "WOpF32ReinterpretI32 \<equiv> 0xbe"
abbreviation WOpF64ReinterpretI64 :: byte where "WOpF64ReinterpretI64 \<equiv> 0xbf"
abbreviation WOpI32Extend8S :: byte where "WOpI32Extend8S \<equiv> 0xc0"
abbreviation WOpI32Extend16S :: byte where "WOpI32Extend16S \<equiv> 0xc1"
abbreviation WOpI64Extend8S :: byte where "WOpI64Extend8S \<equiv> 0xc2"
abbreviation WOpI64Extend16S :: byte where "WOpI64Extend16S \<equiv> 0xc3"
abbreviation WOpI64Extend32S :: byte where "WOpI64Extend32S \<equiv> 0xc4"
abbreviation WOpRefNull :: byte where "WOpRefNull \<equiv> 0xd0"
abbreviation WOpRefFunc :: byte where "WOpRefFunc \<equiv> 0xd2"

section \<open>Plain instructions\<close>

definition isMemoryOp :: "byte \<Rightarrow> bool" where
  "isMemoryOp opc \<longleftrightarrow> opc \<in> set
     [WOpI32Load, WOpI64Load, WOpF32Load, WOpF64Load, WOpI32Load8S, WOpI32Load8U, WOpI32Load16S,
      WOpI32Load16U, WOpI64Load8S, WOpI64Load8U, WOpI64Load16S, WOpI64Load16U, WOpI64Load32S,
      WOpI64Load32U, WOpI32Store, WOpI64Store, WOpF32Store, WOpF64Store, WOpI32Store8,
      WOpI32Store16, WOpI64Store8, WOpI64Store16, WOpI64Store32]"

record memoryOpSpec =
  mo_ssaOp :: Op
  mo_typ :: Type
  mo_store :: bool

definition memory_ops :: "(byte \<times> memoryOpSpec) list" where
  "memory_ops =
     [(WOpI32Load, \<lparr>mo_ssaOp = OpLoad32, mo_typ = TypeI32, mo_store = False\<rparr>),
      (WOpI32Load8S, \<lparr>mo_ssaOp = OpLoad8S, mo_typ = TypeI32, mo_store = False\<rparr>),
      (WOpI32Load8U, \<lparr>mo_ssaOp = OpLoad8U, mo_typ = TypeI32, mo_store = False\<rparr>),
      (WOpI32Load16S, \<lparr>mo_ssaOp = OpLoad16S, mo_typ = TypeI32, mo_store = False\<rparr>),
      (WOpI32Load16U, \<lparr>mo_ssaOp = OpLoad16U, mo_typ = TypeI32, mo_store = False\<rparr>),
      (WOpI64Load, \<lparr>mo_ssaOp = OpLoad64, mo_typ = TypeI64, mo_store = False\<rparr>),
      (WOpI64Load8S, \<lparr>mo_ssaOp = OpLoad8S, mo_typ = TypeI64, mo_store = False\<rparr>),
      (WOpI64Load8U, \<lparr>mo_ssaOp = OpLoad8U, mo_typ = TypeI64, mo_store = False\<rparr>),
      (WOpI64Load16S, \<lparr>mo_ssaOp = OpLoad16S, mo_typ = TypeI64, mo_store = False\<rparr>),
      (WOpI64Load16U, \<lparr>mo_ssaOp = OpLoad16U, mo_typ = TypeI64, mo_store = False\<rparr>),
      (WOpI64Load32S, \<lparr>mo_ssaOp = OpLoad32S, mo_typ = TypeI64, mo_store = False\<rparr>),
      (WOpI64Load32U, \<lparr>mo_ssaOp = OpLoad32U, mo_typ = TypeI64, mo_store = False\<rparr>),
      (WOpF32Load, \<lparr>mo_ssaOp = OpLoadF32, mo_typ = TypeF32, mo_store = False\<rparr>),
      (WOpF64Load, \<lparr>mo_ssaOp = OpLoadF64, mo_typ = TypeF64, mo_store = False\<rparr>),
      (WOpI32Store, \<lparr>mo_ssaOp = OpStore32, mo_typ = TypeI32, mo_store = True\<rparr>),
      (WOpI32Store8, \<lparr>mo_ssaOp = OpStore8, mo_typ = TypeI32, mo_store = True\<rparr>),
      (WOpI32Store16, \<lparr>mo_ssaOp = OpStore16, mo_typ = TypeI32, mo_store = True\<rparr>),
      (WOpI64Store, \<lparr>mo_ssaOp = OpStore64, mo_typ = TypeI64, mo_store = True\<rparr>),
      (WOpI64Store8, \<lparr>mo_ssaOp = OpStore8, mo_typ = TypeI64, mo_store = True\<rparr>),
      (WOpI64Store16, \<lparr>mo_ssaOp = OpStore16, mo_typ = TypeI64, mo_store = True\<rparr>),
      (WOpI64Store32, \<lparr>mo_ssaOp = OpStore32, mo_typ = TypeI64, mo_store = True\<rparr>),
      (WOpF32Store, \<lparr>mo_ssaOp = OpStoreF32, mo_typ = TypeF32, mo_store = True\<rparr>),
      (WOpF64Store, \<lparr>mo_ssaOp = OpStoreF64, mo_typ = TypeF64, mo_store = True\<rparr>)]"

definition memoryOpKind :: "byte \<Rightarrow> memoryOpSpec" where
  "memoryOpKind opc =
     (case map_of memory_ops opc of
        Some s \<Rightarrow> s
      | None \<Rightarrow> \<lparr>mo_ssaOp = OpInvalid, mo_typ = TypeInvalid, mo_store = False\<rparr>)"

definition isGtGe :: "byte \<Rightarrow> bool" where
  "isGtGe opc \<longleftrightarrow> opc \<in> set
     [WOpI32GtS, WOpI32GtU, WOpI32GeS, WOpI32GeU, WOpI64GtS, WOpI64GtU, WOpI64GeS, WOpI64GeU]"

definition isSimpleBinary :: "byte \<Rightarrow> bool" where
  "isSimpleBinary opc \<longleftrightarrow> opc \<in> set
     [WOpI32Add, WOpI32Sub, WOpI32Mul, WOpI32And, WOpI32Or, WOpI32Xor, WOpI32Shl, WOpI32ShrS,
      WOpI32ShrU, WOpI64Add, WOpI64Sub, WOpI64Mul, WOpI64And, WOpI64Or, WOpI64Xor, WOpI64Shl,
      WOpI64ShrS, WOpI64ShrU, WOpI32Eq, WOpI32Ne, WOpI32LtS, WOpI32LtU, WOpI32LeS, WOpI32LeU,
      WOpI32GtS, WOpI32GtU, WOpI32GeS, WOpI32GeU, WOpI64Eq, WOpI64Ne, WOpI64LtS, WOpI64LtU,
      WOpI64LeS, WOpI64LeU, WOpI64GtS, WOpI64GtU, WOpI64GeS, WOpI64GeU]"

definition simpleBinaryOp_table :: "(byte \<times> Op \<times> Type) list" where
  "simpleBinaryOp_table =
     [(WOpI32Add, OpAdd32, TypeI32),
      (WOpI32Sub, OpSub32, TypeI32),
      (WOpI32Mul, OpMul32, TypeI32),
      (WOpI32And, OpAnd32, TypeI32),
      (WOpI32Or, OpOr32, TypeI32),
      (WOpI32Xor, OpXor32, TypeI32),
      (WOpI32Shl, OpShl32, TypeI32),
      (WOpI32ShrS, OpShrS32, TypeI32),
      (WOpI32ShrU, OpShrU32, TypeI32),
      (WOpI64Add, OpAdd64, TypeI64),
      (WOpI64Sub, OpSub64, TypeI64),
      (WOpI64Mul, OpMul64, TypeI64),
      (WOpI64And, OpAnd64, TypeI64),
      (WOpI64Or, OpOr64, TypeI64),
      (WOpI64Xor, OpXor64, TypeI64),
      (WOpI64Shl, OpShl64, TypeI64),
      (WOpI64ShrS, OpShrS64, TypeI64),
      (WOpI64ShrU, OpShrU64, TypeI64),
      (WOpI32Eq, OpEq32, TypeBool),
      (WOpI32Ne, OpNe32, TypeBool),
      (WOpI32LtS, OpLtS32, TypeBool),
      (WOpI32LtU, OpLtU32, TypeBool),
      (WOpI32LeS, OpLeS32, TypeBool),
      (WOpI32LeU, OpLeU32, TypeBool),
      (WOpI32GtS, OpLtS32, TypeBool),
      (WOpI32GtU, OpLtU32, TypeBool),
      (WOpI32GeS, OpLeS32, TypeBool),
      (WOpI32GeU, OpLeU32, TypeBool),
      (WOpI64Eq, OpEq64, TypeBool),
      (WOpI64Ne, OpNe64, TypeBool),
      (WOpI64LtS, OpLtS64, TypeBool),
      (WOpI64LtU, OpLtU64, TypeBool),
      (WOpI64LeS, OpLeS64, TypeBool),
      (WOpI64LeU, OpLeU64, TypeBool),
      (WOpI64GtS, OpLtS64, TypeBool),
      (WOpI64GtU, OpLtU64, TypeBool),
      (WOpI64GeS, OpLeS64, TypeBool),
      (WOpI64GeU, OpLeU64, TypeBool)]"

definition simpleBinaryOp :: "byte \<Rightarrow> (Op \<times> Type) option" where
  "simpleBinaryOp = map_of simpleBinaryOp_table"

definition isHelperBinary :: "byte \<Rightarrow> bool" where
  "isHelperBinary opc \<longleftrightarrow> opc \<in> set
     [WOpI32Rotl, WOpI32Rotr, WOpI64Rotl, WOpI64Rotr, WOpI32DivS, WOpI32DivU, WOpI32RemS,
      WOpI32RemU, WOpI64DivS, WOpI64DivU, WOpI64RemS, WOpI64RemU, WOpF32Add, WOpF32Sub,
      WOpF32Mul, WOpF32Div, WOpF64Add, WOpF64Sub, WOpF64Mul, WOpF64Div, WOpF32Min, WOpF32Max,
      WOpF32Copysign, WOpF64Min, WOpF64Max, WOpF64Copysign, WOpF32Eq, WOpF32Ne, WOpF32Lt,
      WOpF32Gt, WOpF32Le, WOpF32Ge, WOpF64Eq, WOpF64Ne, WOpF64Lt, WOpF64Gt, WOpF64Le, WOpF64Ge]"

definition helperBinarySpec_table :: "(byte \<times> string \<times> Type) list" where
  "helperBinarySpec_table =
     [(WOpI32Rotl, ''i32_rotl'', TypeI32),
      (WOpI32Rotr, ''i32_rotr'', TypeI32),
      (WOpI64Rotl, ''i64_rotl'', TypeI64),
      (WOpI64Rotr, ''i64_rotr'', TypeI64),
      (WOpI32DivS, ''i32_div_s'', TypeI32),
      (WOpI32DivU, ''i32_div_u_s'', TypeI32),
      (WOpI32RemS, ''i32_rem_s'', TypeI32),
      (WOpI32RemU, ''i32_rem_u_s'', TypeI32),
      (WOpI64DivS, ''i64_div_s'', TypeI64),
      (WOpI64DivU, ''i64_div_u_s'', TypeI64),
      (WOpI64RemS, ''i64_rem_s'', TypeI64),
      (WOpI64RemU, ''i64_rem_u_s'', TypeI64),
      (WOpF32Add, ''f32_add'', TypeF32),
      (WOpF32Sub, ''f32_sub'', TypeF32),
      (WOpF32Mul, ''f32_mul'', TypeF32),
      (WOpF32Div, ''f32_div'', TypeF32),
      (WOpF64Add, ''f64_add'', TypeF64),
      (WOpF64Sub, ''f64_sub'', TypeF64),
      (WOpF64Mul, ''f64_mul'', TypeF64),
      (WOpF64Div, ''f64_div'', TypeF64),
      (WOpF32Min, ''f32_min'', TypeF32),
      (WOpF32Max, ''f32_max'', TypeF32),
      (WOpF32Copysign, ''f32_copysign'', TypeF32),
      (WOpF64Min, ''f64_min'', TypeF64),
      (WOpF64Max, ''f64_max'', TypeF64),
      (WOpF64Copysign, ''f64_copysign'', TypeF64),
      (WOpF32Eq, ''f32_eq'', TypeI32),
      (WOpF32Ne, ''f32_ne'', TypeI32),
      (WOpF32Lt, ''f32_lt'', TypeI32),
      (WOpF32Gt, ''f32_gt'', TypeI32),
      (WOpF32Le, ''f32_le'', TypeI32),
      (WOpF32Ge, ''f32_ge'', TypeI32),
      (WOpF64Eq, ''f64_eq'', TypeI32),
      (WOpF64Ne, ''f64_ne'', TypeI32),
      (WOpF64Lt, ''f64_lt'', TypeI32),
      (WOpF64Gt, ''f64_gt'', TypeI32),
      (WOpF64Le, ''f64_le'', TypeI32),
      (WOpF64Ge, ''f64_ge'', TypeI32)]"

definition helperBinarySpec :: "byte \<Rightarrow> (string \<times> Type) option" where
  "helperBinarySpec = map_of helperBinarySpec_table"

definition isHelperUnary :: "byte \<Rightarrow> bool" where
  "isHelperUnary opc \<longleftrightarrow> opc \<in> set
     [WOpI32Clz, WOpI32Ctz, WOpI32Popcnt, WOpI64Clz, WOpI64Ctz, WOpI64Popcnt, WOpF32Abs,
      WOpF32Neg, WOpF32Ceil, WOpF32Floor, WOpF32Trunc, WOpF32Nearest, WOpF32Sqrt, WOpF64Abs,
      WOpF64Neg, WOpF64Ceil, WOpF64Floor, WOpF64Trunc, WOpF64Nearest, WOpF64Sqrt, WOpI32WrapI64,
      WOpI32TruncF32S, WOpI32TruncF32U, WOpI32TruncF64S, WOpI32TruncF64U, WOpI64ExtendI32S,
      WOpI64ExtendI32U, WOpI64TruncF32S, WOpI64TruncF32U, WOpI64TruncF64S, WOpI64TruncF64U,
      WOpF32ConvertI32S, WOpF32ConvertI32U, WOpF32ConvertI64S, WOpF32ConvertI64U,
      WOpF32DemoteF64, WOpF64ConvertI32S, WOpF64ConvertI32U, WOpF64ConvertI64S,
      WOpF64ConvertI64U, WOpF64PromoteF32, WOpI32ReinterpretF32, WOpI64ReinterpretF64,
      WOpF32ReinterpretI32, WOpF64ReinterpretI64, WOpI32Extend8S, WOpI32Extend16S,
      WOpI64Extend8S, WOpI64Extend16S, WOpI64Extend32S]"

definition helperUnarySpec_table :: "(byte \<times> string \<times> Type) list" where
  "helperUnarySpec_table =
     [(WOpI32Clz, ''i32_clz'', TypeI32),
      (WOpI32Ctz, ''i32_ctz'', TypeI32),
      (WOpI32Popcnt, ''i32_popcnt'', TypeI32),
      (WOpI64Clz, ''i64_clz'', TypeI64),
      (WOpI64Ctz, ''i64_ctz'', TypeI64),
      (WOpI64Popcnt, ''i64_popcnt'', TypeI64),
      (WOpF32Abs, ''f32_abs'', TypeF32),
      (WOpF32Neg, ''f32_neg'', TypeF32),
      (WOpF32Ceil, ''f32_ceil'', TypeF32),
      (WOpF32Floor, ''f32_floor'', TypeF32),
      (WOpF32Trunc, ''f32_trunc'', TypeF32),
      (WOpF32Nearest, ''f32_nearest'', TypeF32),
      (WOpF32Sqrt, ''f32_sqrt'', TypeF32),
      (WOpF64Abs, ''f64_abs'', TypeF64),
      (WOpF64Neg, ''f64_neg'', TypeF64),
      (WOpF64Ceil, ''f64_ceil'', TypeF64),
      (WOpF64Floor, ''f64_floor'', TypeF64),
      (WOpF64Trunc, ''f64_trunc'', TypeF64),
      (WOpF64Nearest, ''f64_nearest'', TypeF64),
      (WOpF64Sqrt, ''f64_sqrt'', TypeF64),
      (WOpI32WrapI64, ''i32_wrap_i64'', TypeI32),
      (WOpI32TruncF32S, ''i32_trunc_f32_s'', TypeI32),
      (WOpI32TruncF32U, ''i32_trunc_f32_u'', TypeI32),
      (WOpI32TruncF64S, ''i32_trunc_f64_s'', TypeI32),
      (WOpI32TruncF64U, ''i32_trunc_f64_u'', TypeI32),
      (WOpI64ExtendI32S, ''i64_extend_i32_s'', TypeI64),
      (WOpI64ExtendI32U, ''i64_extend_i32_u'', TypeI64),
      (WOpI64TruncF32S, ''i64_trunc_f32_s'', TypeI64),
      (WOpI64TruncF32U, ''i64_trunc_f32_u'', TypeI64),
      (WOpI64TruncF64S, ''i64_trunc_f64_s'', TypeI64),
      (WOpI64TruncF64U, ''i64_trunc_f64_u'', TypeI64),
      (WOpF32ConvertI32S, ''f32_convert_i32_s'', TypeF32),
      (WOpF32ConvertI32U, ''f32_convert_i32_u'', TypeF32),
      (WOpF32ConvertI64S, ''f32_convert_i64_s'', TypeF32),
      (WOpF32ConvertI64U, ''f32_convert_i64_u'', TypeF32),
      (WOpF32DemoteF64, ''f32_demote_f64'', TypeF32),
      (WOpF64ConvertI32S, ''f64_convert_i32_s'', TypeF64),
      (WOpF64ConvertI32U, ''f64_convert_i32_u'', TypeF64),
      (WOpF64ConvertI64S, ''f64_convert_i64_s'', TypeF64),
      (WOpF64ConvertI64U, ''f64_convert_i64_u'', TypeF64),
      (WOpF64PromoteF32, ''f64_promote_f32'', TypeF64),
      (WOpI32ReinterpretF32, ''i32_reinterpret_f32'', TypeI32),
      (WOpI64ReinterpretF64, ''i64_reinterpret_f64'', TypeI64),
      (WOpF32ReinterpretI32, ''f32_reinterpret_i32'', TypeF32),
      (WOpF64ReinterpretI64, ''f64_reinterpret_i64'', TypeF64),
      (WOpI32Extend8S, ''i32_extend8_s'', TypeI32),
      (WOpI32Extend16S, ''i32_extend16_s'', TypeI32),
      (WOpI64Extend8S, ''i64_extend8_s'', TypeI64),
      (WOpI64Extend16S, ''i64_extend16_s'', TypeI64),
      (WOpI64Extend32S, ''i64_extend32_s'', TypeI64)]"

definition helperUnarySpec :: "byte \<Rightarrow> (string \<times> Type) option" where
  "helperUnarySpec = map_of helperUnarySpec_table"

text \<open>The saturating conversions behind the \<^verbatim>\<open>0xfc\<close> prefix.\<close>

definition fc_trunc_specs :: "(string \<times> Type) list" where
  "fc_trunc_specs =
     [(''i32_trunc_sat_f32_s'', TypeI32),
      (''i32_trunc_sat_f32_u'', TypeI32),
      (''i32_trunc_sat_f64_s'', TypeI32),
      (''i32_trunc_sat_f64_u'', TypeI32),
      (''i64_trunc_sat_f32_s'', TypeI64),
      (''i64_trunc_sat_f32_u'', TypeI64),
      (''i64_trunc_sat_f64_s'', TypeI64),
      (''i64_trunc_sat_f64_u'', TypeI64)]"

section \<open>Atomics\<close>

record feAtomicSpec =
  fe_helper :: string
  fe_resType :: Type
  fe_extra :: nat

definition feAtomics_base :: "(u32 \<times> feAtomicSpec) list" where
  "feAtomics_base =
     [(0x00, \<lparr>fe_helper = ''atomicNotify'', fe_resType = TypeI32, fe_extra = 1\<rparr>),
      (0x01, \<lparr>fe_helper = ''atomicWait32'', fe_resType = TypeI32, fe_extra = 2\<rparr>),
      (0x02, \<lparr>fe_helper = ''atomicWait64'', fe_resType = TypeI32, fe_extra = 2\<rparr>),
      (0x10, \<lparr>fe_helper = ''atomicLoad32'', fe_resType = TypeI32, fe_extra = 0\<rparr>),
      (0x11, \<lparr>fe_helper = ''atomicLoad64'', fe_resType = TypeI64, fe_extra = 0\<rparr>),
      (0x12, \<lparr>fe_helper = ''atomicLoad32_8u'', fe_resType = TypeI32, fe_extra = 0\<rparr>),
      (0x13, \<lparr>fe_helper = ''atomicLoad32_16u'', fe_resType = TypeI32, fe_extra = 0\<rparr>),
      (0x14, \<lparr>fe_helper = ''atomicLoad64_8u'', fe_resType = TypeI64, fe_extra = 0\<rparr>),
      (0x15, \<lparr>fe_helper = ''atomicLoad64_16u'', fe_resType = TypeI64, fe_extra = 0\<rparr>),
      (0x16, \<lparr>fe_helper = ''atomicLoad64_32u'', fe_resType = TypeI64, fe_extra = 0\<rparr>),
      (0x17, \<lparr>fe_helper = ''atomicStore32'', fe_resType = TypeI32, fe_extra = 1\<rparr>),
      (0x18, \<lparr>fe_helper = ''atomicStore64'', fe_resType = TypeI32, fe_extra = 1\<rparr>),
      (0x19, \<lparr>fe_helper = ''atomicStore32_8'', fe_resType = TypeI32, fe_extra = 1\<rparr>),
      (0x1a, \<lparr>fe_helper = ''atomicStore32_16'', fe_resType = TypeI32, fe_extra = 1\<rparr>),
      (0x1b, \<lparr>fe_helper = ''atomicStore64_8'', fe_resType = TypeI32, fe_extra = 1\<rparr>),
      (0x1c, \<lparr>fe_helper = ''atomicStore64_16'', fe_resType = TypeI32, fe_extra = 1\<rparr>),
      (0x1d, \<lparr>fe_helper = ''atomicStore64_32'', fe_resType = TypeI32, fe_extra = 1\<rparr>)]"

text \<open>The read-modify-write families: a base sub-opcode each, over seven sizes.\<close>

definition rmw_families :: "(u32 \<times> string) list" where
  "rmw_families =
     [(0x1e, ''Add''),
      (0x25, ''Sub''),
      (0x2c, ''And''),
      (0x33, ''Or''),
      (0x3a, ''Xor''),
      (0x41, ''Xchg''),
      (0x48, ''Cmpxchg'')]"

definition rmw_sizes :: "(string \<times> Type) list" where
  "rmw_sizes =
     [(''32'', TypeI32),
      (''64'', TypeI64),
      (''32_8u'', TypeI32),
      (''32_16u'', TypeI32),
      (''64_8u'', TypeI64),
      (''64_16u'', TypeI64),
      (''64_32u'', TypeI64)]"

definition feAtomics :: "u32 \<Rightarrow> feAtomicSpec option" where
  "feAtomics = map_of (feAtomics_base @ concat (map (\<lambda>(base, name). map (\<lambda>(i, suffix, ty).
     (base + word_of_nat i, \<lparr>fe_helper = ''atomicRmw'' @ name @ suffix, fe_resType = ty,
                             fe_extra = (if name = ''Cmpxchg'' then 2 else 1)\<rparr>)) (enumerate 0 rmw_sizes)) rmw_families))"

section \<open>SIMD\<close>

record fdSimdSpec =
  fd_helper :: string
  fd_args :: "Type list"
  fd_res :: Type

definition fdSimd_low :: "(u32 \<times> fdSimdSpec) list" where
  "fdSimd_low =
     [(0x0e, \<lparr>fd_helper = ''simd_i8x16_swizzle'', fd_args = [TypeV128, TypeV128], fd_res = TypeV128\<rparr>),
      (0x0f, \<lparr>fd_helper = ''simd_i8x16_splat'', fd_args = [TypeI32], fd_res = TypeV128\<rparr>),
      (0x10, \<lparr>fd_helper = ''simd_i16x8_splat'', fd_args = [TypeI32], fd_res = TypeV128\<rparr>),
      (0x11, \<lparr>fd_helper = ''simd_i32x4_splat'', fd_args = [TypeI32], fd_res = TypeV128\<rparr>),
      (0x12, \<lparr>fd_helper = ''simd_i64x2_splat'', fd_args = [TypeI64], fd_res = TypeV128\<rparr>),
      (0x13, \<lparr>fd_helper = ''simd_f32x4_splat'', fd_args = [TypeF32], fd_res = TypeV128\<rparr>),
      (0x14, \<lparr>fd_helper = ''simd_f64x2_splat'', fd_args = [TypeF64], fd_res = TypeV128\<rparr>),
      (0x4d, \<lparr>fd_helper = ''simd_v128_not'', fd_args = [TypeV128], fd_res = TypeV128\<rparr>),
      (0x4e, \<lparr>fd_helper = ''simd_v128_and'', fd_args = [TypeV128, TypeV128], fd_res = TypeV128\<rparr>),
      (0x4f, \<lparr>fd_helper = ''simd_v128_andnot'', fd_args = [TypeV128, TypeV128], fd_res = TypeV128\<rparr>),
      (0x50, \<lparr>fd_helper = ''simd_v128_or'', fd_args = [TypeV128, TypeV128], fd_res = TypeV128\<rparr>),
      (0x51, \<lparr>fd_helper = ''simd_v128_xor'', fd_args = [TypeV128, TypeV128], fd_res = TypeV128\<rparr>),
      (0x52, \<lparr>fd_helper = ''simd_v128_bitselect'', fd_args = [TypeV128, TypeV128, TypeV128], fd_res = TypeV128\<rparr>),
      (0x53, \<lparr>fd_helper = ''simd_v128_any_true'', fd_args = [TypeV128], fd_res = TypeI32\<rparr>),
      (0x5e, \<lparr>fd_helper = ''simd_f32x4_demote_f64x2_zero'', fd_args = [TypeV128], fd_res = TypeV128\<rparr>),
      (0x5f, \<lparr>fd_helper = ''simd_f64x2_promote_low_f32x4'', fd_args = [TypeV128], fd_res = TypeV128\<rparr>),
      (0x60, \<lparr>fd_helper = ''simd_i8x16_abs'', fd_args = [TypeV128], fd_res = TypeV128\<rparr>),
      (0x61, \<lparr>fd_helper = ''simd_i8x16_neg'', fd_args = [TypeV128], fd_res = TypeV128\<rparr>),
      (0x62, \<lparr>fd_helper = ''simd_i8x16_popcnt'', fd_args = [TypeV128], fd_res = TypeV128\<rparr>),
      (0x63, \<lparr>fd_helper = ''simd_i8x16_all_true'', fd_args = [TypeV128], fd_res = TypeI32\<rparr>),
      (0x64, \<lparr>fd_helper = ''simd_i8x16_bitmask'', fd_args = [TypeV128], fd_res = TypeI32\<rparr>),
      (0x65, \<lparr>fd_helper = ''simd_i8x16_narrow_i16x8_s'', fd_args = [TypeV128, TypeV128], fd_res = TypeV128\<rparr>),
      (0x66, \<lparr>fd_helper = ''simd_i8x16_narrow_i16x8_u'', fd_args = [TypeV128, TypeV128], fd_res = TypeV128\<rparr>),
      (0x67, \<lparr>fd_helper = ''simd_f32x4_ceil'', fd_args = [TypeV128], fd_res = TypeV128\<rparr>),
      (0x68, \<lparr>fd_helper = ''simd_f32x4_floor'', fd_args = [TypeV128], fd_res = TypeV128\<rparr>),
      (0x69, \<lparr>fd_helper = ''simd_f32x4_trunc'', fd_args = [TypeV128], fd_res = TypeV128\<rparr>),
      (0x6a, \<lparr>fd_helper = ''simd_f32x4_nearest'', fd_args = [TypeV128], fd_res = TypeV128\<rparr>),
      (0x6b, \<lparr>fd_helper = ''simd_i8x16_shl'', fd_args = [TypeV128, TypeI32], fd_res = TypeV128\<rparr>),
      (0x6c, \<lparr>fd_helper = ''simd_i8x16_shr_s'', fd_args = [TypeV128, TypeI32], fd_res = TypeV128\<rparr>),
      (0x6d, \<lparr>fd_helper = ''simd_i8x16_shr_u'', fd_args = [TypeV128, TypeI32], fd_res = TypeV128\<rparr>),
      (0x6e, \<lparr>fd_helper = ''simd_i8x16_add'', fd_args = [TypeV128, TypeV128], fd_res = TypeV128\<rparr>),
      (0x6f, \<lparr>fd_helper = ''simd_i8x16_add_sat_s'', fd_args = [TypeV128, TypeV128], fd_res = TypeV128\<rparr>),
      (0x70, \<lparr>fd_helper = ''simd_i8x16_add_sat_u'', fd_args = [TypeV128, TypeV128], fd_res = TypeV128\<rparr>),
      (0x71, \<lparr>fd_helper = ''simd_i8x16_sub'', fd_args = [TypeV128, TypeV128], fd_res = TypeV128\<rparr>),
      (0x72, \<lparr>fd_helper = ''simd_i8x16_sub_sat_s'', fd_args = [TypeV128, TypeV128], fd_res = TypeV128\<rparr>),
      (0x73, \<lparr>fd_helper = ''simd_i8x16_sub_sat_u'', fd_args = [TypeV128, TypeV128], fd_res = TypeV128\<rparr>),
      (0x74, \<lparr>fd_helper = ''simd_f64x2_ceil'', fd_args = [TypeV128], fd_res = TypeV128\<rparr>),
      (0x75, \<lparr>fd_helper = ''simd_f64x2_floor'', fd_args = [TypeV128], fd_res = TypeV128\<rparr>),
      (0x76, \<lparr>fd_helper = ''simd_i8x16_min_s'', fd_args = [TypeV128, TypeV128], fd_res = TypeV128\<rparr>),
      (0x77, \<lparr>fd_helper = ''simd_i8x16_min_u'', fd_args = [TypeV128, TypeV128], fd_res = TypeV128\<rparr>),
      (0x78, \<lparr>fd_helper = ''simd_i8x16_max_s'', fd_args = [TypeV128, TypeV128], fd_res = TypeV128\<rparr>),
      (0x79, \<lparr>fd_helper = ''simd_i8x16_max_u'', fd_args = [TypeV128, TypeV128], fd_res = TypeV128\<rparr>),
      (0x7a, \<lparr>fd_helper = ''simd_f64x2_trunc'', fd_args = [TypeV128], fd_res = TypeV128\<rparr>),
      (0x7b, \<lparr>fd_helper = ''simd_i8x16_avgr_u'', fd_args = [TypeV128, TypeV128], fd_res = TypeV128\<rparr>),
      (0x7c, \<lparr>fd_helper = ''simd_i16x8_extadd_pairwise_i8x16_s'', fd_args = [TypeV128], fd_res = TypeV128\<rparr>),
      (0x7d, \<lparr>fd_helper = ''simd_i16x8_extadd_pairwise_i8x16_u'', fd_args = [TypeV128], fd_res = TypeV128\<rparr>),
      (0x7e, \<lparr>fd_helper = ''simd_i32x4_extadd_pairwise_i16x8_s'', fd_args = [TypeV128], fd_res = TypeV128\<rparr>),
      (0x7f, \<lparr>fd_helper = ''simd_i32x4_extadd_pairwise_i16x8_u'', fd_args = [TypeV128], fd_res = TypeV128\<rparr>),
      (0x80, \<lparr>fd_helper = ''simd_i16x8_abs'', fd_args = [TypeV128], fd_res = TypeV128\<rparr>),
      (0x81, \<lparr>fd_helper = ''simd_i16x8_neg'', fd_args = [TypeV128], fd_res = TypeV128\<rparr>),
      (0x82, \<lparr>fd_helper = ''simd_i16x8_q15mulr_sat_s'', fd_args = [TypeV128, TypeV128], fd_res = TypeV128\<rparr>),
      (0x83, \<lparr>fd_helper = ''simd_i16x8_all_true'', fd_args = [TypeV128], fd_res = TypeI32\<rparr>),
      (0x84, \<lparr>fd_helper = ''simd_i16x8_bitmask'', fd_args = [TypeV128], fd_res = TypeI32\<rparr>),
      (0x85, \<lparr>fd_helper = ''simd_i16x8_narrow_i32x4_s'', fd_args = [TypeV128, TypeV128], fd_res = TypeV128\<rparr>),
      (0x86, \<lparr>fd_helper = ''simd_i16x8_narrow_i32x4_u'', fd_args = [TypeV128, TypeV128], fd_res = TypeV128\<rparr>),
      (0x87, \<lparr>fd_helper = ''simd_i16x8_extend_low_i8x16_s'', fd_args = [TypeV128], fd_res = TypeV128\<rparr>),
      (0x88, \<lparr>fd_helper = ''simd_i16x8_extend_high_i8x16_s'', fd_args = [TypeV128], fd_res = TypeV128\<rparr>),
      (0x89, \<lparr>fd_helper = ''simd_i16x8_extend_low_i8x16_u'', fd_args = [TypeV128], fd_res = TypeV128\<rparr>),
      (0x8a, \<lparr>fd_helper = ''simd_i16x8_extend_high_i8x16_u'', fd_args = [TypeV128], fd_res = TypeV128\<rparr>),
      (0x8b, \<lparr>fd_helper = ''simd_i16x8_shl'', fd_args = [TypeV128, TypeI32], fd_res = TypeV128\<rparr>),
      (0x8c, \<lparr>fd_helper = ''simd_i16x8_shr_s'', fd_args = [TypeV128, TypeI32], fd_res = TypeV128\<rparr>),
      (0x8d, \<lparr>fd_helper = ''simd_i16x8_shr_u'', fd_args = [TypeV128, TypeI32], fd_res = TypeV128\<rparr>),
      (0x8e, \<lparr>fd_helper = ''simd_i16x8_add'', fd_args = [TypeV128, TypeV128], fd_res = TypeV128\<rparr>),
      (0x8f, \<lparr>fd_helper = ''simd_i16x8_add_sat_s'', fd_args = [TypeV128, TypeV128], fd_res = TypeV128\<rparr>),
      (0x90, \<lparr>fd_helper = ''simd_i16x8_add_sat_u'', fd_args = [TypeV128, TypeV128], fd_res = TypeV128\<rparr>),
      (0x91, \<lparr>fd_helper = ''simd_i16x8_sub'', fd_args = [TypeV128, TypeV128], fd_res = TypeV128\<rparr>),
      (0x92, \<lparr>fd_helper = ''simd_i16x8_sub_sat_s'', fd_args = [TypeV128, TypeV128], fd_res = TypeV128\<rparr>),
      (0x93, \<lparr>fd_helper = ''simd_i16x8_sub_sat_u'', fd_args = [TypeV128, TypeV128], fd_res = TypeV128\<rparr>),
      (0x94, \<lparr>fd_helper = ''simd_f64x2_nearest'', fd_args = [TypeV128], fd_res = TypeV128\<rparr>),
      (0x95, \<lparr>fd_helper = ''simd_i16x8_mul'', fd_args = [TypeV128, TypeV128], fd_res = TypeV128\<rparr>),
      (0x96, \<lparr>fd_helper = ''simd_i16x8_min_s'', fd_args = [TypeV128, TypeV128], fd_res = TypeV128\<rparr>),
      (0x97, \<lparr>fd_helper = ''simd_i16x8_min_u'', fd_args = [TypeV128, TypeV128], fd_res = TypeV128\<rparr>),
      (0x98, \<lparr>fd_helper = ''simd_i16x8_max_s'', fd_args = [TypeV128, TypeV128], fd_res = TypeV128\<rparr>),
      (0x99, \<lparr>fd_helper = ''simd_i16x8_max_u'', fd_args = [TypeV128, TypeV128], fd_res = TypeV128\<rparr>),
      (0x9b, \<lparr>fd_helper = ''simd_i16x8_avgr_u'', fd_args = [TypeV128, TypeV128], fd_res = TypeV128\<rparr>),
      (0x9c, \<lparr>fd_helper = ''simd_i16x8_extmul_low_i8x16_s'', fd_args = [TypeV128, TypeV128], fd_res = TypeV128\<rparr>),
      (0x9d, \<lparr>fd_helper = ''simd_i16x8_extmul_high_i8x16_s'', fd_args = [TypeV128, TypeV128], fd_res = TypeV128\<rparr>),
      (0x9e, \<lparr>fd_helper = ''simd_i16x8_extmul_low_i8x16_u'', fd_args = [TypeV128, TypeV128], fd_res = TypeV128\<rparr>)]"

definition fdSimd_high :: "(u32 \<times> fdSimdSpec) list" where
  "fdSimd_high =
     [(0x9f, \<lparr>fd_helper = ''simd_i16x8_extmul_high_i8x16_u'', fd_args = [TypeV128, TypeV128], fd_res = TypeV128\<rparr>),
      (0xa0, \<lparr>fd_helper = ''simd_i32x4_abs'', fd_args = [TypeV128], fd_res = TypeV128\<rparr>),
      (0xa1, \<lparr>fd_helper = ''simd_i32x4_neg'', fd_args = [TypeV128], fd_res = TypeV128\<rparr>),
      (0xa3, \<lparr>fd_helper = ''simd_i32x4_all_true'', fd_args = [TypeV128], fd_res = TypeI32\<rparr>),
      (0xa4, \<lparr>fd_helper = ''simd_i32x4_bitmask'', fd_args = [TypeV128], fd_res = TypeI32\<rparr>),
      (0xa7, \<lparr>fd_helper = ''simd_i32x4_extend_low_i16x8_s'', fd_args = [TypeV128], fd_res = TypeV128\<rparr>),
      (0xa8, \<lparr>fd_helper = ''simd_i32x4_extend_high_i16x8_s'', fd_args = [TypeV128], fd_res = TypeV128\<rparr>),
      (0xa9, \<lparr>fd_helper = ''simd_i32x4_extend_low_i16x8_u'', fd_args = [TypeV128], fd_res = TypeV128\<rparr>),
      (0xaa, \<lparr>fd_helper = ''simd_i32x4_extend_high_i16x8_u'', fd_args = [TypeV128], fd_res = TypeV128\<rparr>),
      (0xab, \<lparr>fd_helper = ''simd_i32x4_shl'', fd_args = [TypeV128, TypeI32], fd_res = TypeV128\<rparr>),
      (0xac, \<lparr>fd_helper = ''simd_i32x4_shr_s'', fd_args = [TypeV128, TypeI32], fd_res = TypeV128\<rparr>),
      (0xad, \<lparr>fd_helper = ''simd_i32x4_shr_u'', fd_args = [TypeV128, TypeI32], fd_res = TypeV128\<rparr>),
      (0xae, \<lparr>fd_helper = ''simd_i32x4_add'', fd_args = [TypeV128, TypeV128], fd_res = TypeV128\<rparr>),
      (0xb1, \<lparr>fd_helper = ''simd_i32x4_sub'', fd_args = [TypeV128, TypeV128], fd_res = TypeV128\<rparr>),
      (0xb5, \<lparr>fd_helper = ''simd_i32x4_mul'', fd_args = [TypeV128, TypeV128], fd_res = TypeV128\<rparr>),
      (0xb6, \<lparr>fd_helper = ''simd_i32x4_min_s'', fd_args = [TypeV128, TypeV128], fd_res = TypeV128\<rparr>),
      (0xb7, \<lparr>fd_helper = ''simd_i32x4_min_u'', fd_args = [TypeV128, TypeV128], fd_res = TypeV128\<rparr>),
      (0xb8, \<lparr>fd_helper = ''simd_i32x4_max_s'', fd_args = [TypeV128, TypeV128], fd_res = TypeV128\<rparr>),
      (0xb9, \<lparr>fd_helper = ''simd_i32x4_max_u'', fd_args = [TypeV128, TypeV128], fd_res = TypeV128\<rparr>),
      (0xba, \<lparr>fd_helper = ''simd_i32x4_dot_i16x8_s'', fd_args = [TypeV128, TypeV128], fd_res = TypeV128\<rparr>),
      (0xbc, \<lparr>fd_helper = ''simd_i32x4_extmul_low_i16x8_s'', fd_args = [TypeV128, TypeV128], fd_res = TypeV128\<rparr>),
      (0xbd, \<lparr>fd_helper = ''simd_i32x4_extmul_high_i16x8_s'', fd_args = [TypeV128, TypeV128], fd_res = TypeV128\<rparr>),
      (0xbe, \<lparr>fd_helper = ''simd_i32x4_extmul_low_i16x8_u'', fd_args = [TypeV128, TypeV128], fd_res = TypeV128\<rparr>),
      (0xbf, \<lparr>fd_helper = ''simd_i32x4_extmul_high_i16x8_u'', fd_args = [TypeV128, TypeV128], fd_res = TypeV128\<rparr>),
      (0xc0, \<lparr>fd_helper = ''simd_i64x2_abs'', fd_args = [TypeV128], fd_res = TypeV128\<rparr>),
      (0xc1, \<lparr>fd_helper = ''simd_i64x2_neg'', fd_args = [TypeV128], fd_res = TypeV128\<rparr>),
      (0xc3, \<lparr>fd_helper = ''simd_i64x2_all_true'', fd_args = [TypeV128], fd_res = TypeI32\<rparr>),
      (0xc4, \<lparr>fd_helper = ''simd_i64x2_bitmask'', fd_args = [TypeV128], fd_res = TypeI32\<rparr>),
      (0xc7, \<lparr>fd_helper = ''simd_i64x2_extend_low_i32x4_s'', fd_args = [TypeV128], fd_res = TypeV128\<rparr>),
      (0xc8, \<lparr>fd_helper = ''simd_i64x2_extend_high_i32x4_s'', fd_args = [TypeV128], fd_res = TypeV128\<rparr>),
      (0xc9, \<lparr>fd_helper = ''simd_i64x2_extend_low_i32x4_u'', fd_args = [TypeV128], fd_res = TypeV128\<rparr>),
      (0xca, \<lparr>fd_helper = ''simd_i64x2_extend_high_i32x4_u'', fd_args = [TypeV128], fd_res = TypeV128\<rparr>),
      (0xcb, \<lparr>fd_helper = ''simd_i64x2_shl'', fd_args = [TypeV128, TypeI32], fd_res = TypeV128\<rparr>),
      (0xcc, \<lparr>fd_helper = ''simd_i64x2_shr_s'', fd_args = [TypeV128, TypeI32], fd_res = TypeV128\<rparr>),
      (0xcd, \<lparr>fd_helper = ''simd_i64x2_shr_u'', fd_args = [TypeV128, TypeI32], fd_res = TypeV128\<rparr>),
      (0xce, \<lparr>fd_helper = ''simd_i64x2_add'', fd_args = [TypeV128, TypeV128], fd_res = TypeV128\<rparr>),
      (0xd1, \<lparr>fd_helper = ''simd_i64x2_sub'', fd_args = [TypeV128, TypeV128], fd_res = TypeV128\<rparr>),
      (0xd5, \<lparr>fd_helper = ''simd_i64x2_mul'', fd_args = [TypeV128, TypeV128], fd_res = TypeV128\<rparr>),
      (0xd6, \<lparr>fd_helper = ''simd_i64x2_eq'', fd_args = [TypeV128, TypeV128], fd_res = TypeV128\<rparr>),
      (0xd7, \<lparr>fd_helper = ''simd_i64x2_ne'', fd_args = [TypeV128, TypeV128], fd_res = TypeV128\<rparr>),
      (0xd8, \<lparr>fd_helper = ''simd_i64x2_lt_s'', fd_args = [TypeV128, TypeV128], fd_res = TypeV128\<rparr>),
      (0xd9, \<lparr>fd_helper = ''simd_i64x2_gt_s'', fd_args = [TypeV128, TypeV128], fd_res = TypeV128\<rparr>),
      (0xda, \<lparr>fd_helper = ''simd_i64x2_le_s'', fd_args = [TypeV128, TypeV128], fd_res = TypeV128\<rparr>),
      (0xdb, \<lparr>fd_helper = ''simd_i64x2_ge_s'', fd_args = [TypeV128, TypeV128], fd_res = TypeV128\<rparr>),
      (0xdc, \<lparr>fd_helper = ''simd_i64x2_extmul_low_i32x4_s'', fd_args = [TypeV128, TypeV128], fd_res = TypeV128\<rparr>),
      (0xdd, \<lparr>fd_helper = ''simd_i64x2_extmul_high_i32x4_s'', fd_args = [TypeV128, TypeV128], fd_res = TypeV128\<rparr>),
      (0xde, \<lparr>fd_helper = ''simd_i64x2_extmul_low_i32x4_u'', fd_args = [TypeV128, TypeV128], fd_res = TypeV128\<rparr>),
      (0xdf, \<lparr>fd_helper = ''simd_i64x2_extmul_high_i32x4_u'', fd_args = [TypeV128, TypeV128], fd_res = TypeV128\<rparr>),
      (0xe0, \<lparr>fd_helper = ''simd_f32x4_abs'', fd_args = [TypeV128], fd_res = TypeV128\<rparr>),
      (0xe1, \<lparr>fd_helper = ''simd_f32x4_neg'', fd_args = [TypeV128], fd_res = TypeV128\<rparr>),
      (0xe3, \<lparr>fd_helper = ''simd_f32x4_sqrt'', fd_args = [TypeV128], fd_res = TypeV128\<rparr>),
      (0xe4, \<lparr>fd_helper = ''simd_f32x4_add'', fd_args = [TypeV128, TypeV128], fd_res = TypeV128\<rparr>),
      (0xe5, \<lparr>fd_helper = ''simd_f32x4_sub'', fd_args = [TypeV128, TypeV128], fd_res = TypeV128\<rparr>),
      (0xe6, \<lparr>fd_helper = ''simd_f32x4_mul'', fd_args = [TypeV128, TypeV128], fd_res = TypeV128\<rparr>),
      (0xe7, \<lparr>fd_helper = ''simd_f32x4_div'', fd_args = [TypeV128, TypeV128], fd_res = TypeV128\<rparr>),
      (0xe8, \<lparr>fd_helper = ''simd_f32x4_min'', fd_args = [TypeV128, TypeV128], fd_res = TypeV128\<rparr>),
      (0xe9, \<lparr>fd_helper = ''simd_f32x4_max'', fd_args = [TypeV128, TypeV128], fd_res = TypeV128\<rparr>),
      (0xea, \<lparr>fd_helper = ''simd_f32x4_pmin'', fd_args = [TypeV128, TypeV128], fd_res = TypeV128\<rparr>),
      (0xeb, \<lparr>fd_helper = ''simd_f32x4_pmax'', fd_args = [TypeV128, TypeV128], fd_res = TypeV128\<rparr>),
      (0xec, \<lparr>fd_helper = ''simd_f64x2_abs'', fd_args = [TypeV128], fd_res = TypeV128\<rparr>),
      (0xed, \<lparr>fd_helper = ''simd_f64x2_neg'', fd_args = [TypeV128], fd_res = TypeV128\<rparr>),
      (0xef, \<lparr>fd_helper = ''simd_f64x2_sqrt'', fd_args = [TypeV128], fd_res = TypeV128\<rparr>),
      (0xf0, \<lparr>fd_helper = ''simd_f64x2_add'', fd_args = [TypeV128, TypeV128], fd_res = TypeV128\<rparr>),
      (0xf1, \<lparr>fd_helper = ''simd_f64x2_sub'', fd_args = [TypeV128, TypeV128], fd_res = TypeV128\<rparr>),
      (0xf2, \<lparr>fd_helper = ''simd_f64x2_mul'', fd_args = [TypeV128, TypeV128], fd_res = TypeV128\<rparr>),
      (0xf3, \<lparr>fd_helper = ''simd_f64x2_div'', fd_args = [TypeV128, TypeV128], fd_res = TypeV128\<rparr>),
      (0xf4, \<lparr>fd_helper = ''simd_f64x2_min'', fd_args = [TypeV128, TypeV128], fd_res = TypeV128\<rparr>),
      (0xf5, \<lparr>fd_helper = ''simd_f64x2_max'', fd_args = [TypeV128, TypeV128], fd_res = TypeV128\<rparr>),
      (0xf6, \<lparr>fd_helper = ''simd_f64x2_pmin'', fd_args = [TypeV128, TypeV128], fd_res = TypeV128\<rparr>),
      (0xf7, \<lparr>fd_helper = ''simd_f64x2_pmax'', fd_args = [TypeV128, TypeV128], fd_res = TypeV128\<rparr>),
      (0xf8, \<lparr>fd_helper = ''simd_i32x4_trunc_sat_f32x4_s'', fd_args = [TypeV128], fd_res = TypeV128\<rparr>),
      (0xf9, \<lparr>fd_helper = ''simd_i32x4_trunc_sat_f32x4_u'', fd_args = [TypeV128], fd_res = TypeV128\<rparr>),
      (0xfa, \<lparr>fd_helper = ''simd_f32x4_convert_i32x4_s'', fd_args = [TypeV128], fd_res = TypeV128\<rparr>),
      (0xfb, \<lparr>fd_helper = ''simd_f32x4_convert_i32x4_u'', fd_args = [TypeV128], fd_res = TypeV128\<rparr>),
      (0xfc, \<lparr>fd_helper = ''simd_i32x4_trunc_sat_f64x2_s_zero'', fd_args = [TypeV128], fd_res = TypeV128\<rparr>),
      (0xfd, \<lparr>fd_helper = ''simd_i32x4_trunc_sat_f64x2_u_zero'', fd_args = [TypeV128], fd_res = TypeV128\<rparr>),
      (0xfe, \<lparr>fd_helper = ''simd_f64x2_convert_low_i32x4_s'', fd_args = [TypeV128], fd_res = TypeV128\<rparr>),
      (0xff, \<lparr>fd_helper = ''simd_f64x2_convert_low_i32x4_u'', fd_args = [TypeV128], fd_res = TypeV128\<rparr>)]"

text \<open>The comparison families: the same clauses at one base sub-opcode per lane shape.\<close>

definition int_cmps :: "string list" where
  "int_cmps = [''eq'', ''ne'', ''lt_s'', ''lt_u'', ''gt_s'', ''gt_u'', ''le_s'', ''le_u'', ''ge_s'', ''ge_u'']"

definition flt_cmps :: "string list" where
  "flt_cmps = [''eq'', ''ne'', ''lt'', ''gt'', ''le'', ''ge'']"

definition cmp_family :: "string list \<Rightarrow> u32 \<Rightarrow> string \<Rightarrow> (u32 \<times> fdSimdSpec) list" where
  "cmp_family ops base shape = map (\<lambda>(i, opn).
     (base + word_of_nat i, \<lparr>fd_helper = ''simd_'' @ shape @ ''_'' @ opn, fd_args = [TypeV128, TypeV128], fd_res = TypeV128\<rparr>))
     (enumerate 0 ops)"

definition fdSimd :: "u32 \<Rightarrow> fdSimdSpec option" where
  "fdSimd = map_of (cmp_family int_cmps 0x23 ''i8x16'' @ cmp_family int_cmps 0x2d ''i16x8'' @
     cmp_family int_cmps 0x37 ''i32x4'' @ cmp_family flt_cmps 0x41 ''f32x4'' @ cmp_family flt_cmps 0x47 ''f64x2'' @
     fdSimd_low @ fdSimd_high)"

record fdSimdMemSpec =
  fm_helper :: string
  fm_store :: bool
  fm_lane :: bool
  fm_res :: Type

definition fdSimdMem_table :: "(u32 \<times> fdSimdMemSpec) list" where
  "fdSimdMem_table =
     [(0x00, \<lparr>fm_helper = ''simd_v128_load'', fm_store = False, fm_lane = False, fm_res = TypeV128\<rparr>),
      (0x01, \<lparr>fm_helper = ''simd_v128_load8x8_s'', fm_store = False, fm_lane = False, fm_res = TypeV128\<rparr>),
      (0x02, \<lparr>fm_helper = ''simd_v128_load8x8_u'', fm_store = False, fm_lane = False, fm_res = TypeV128\<rparr>),
      (0x03, \<lparr>fm_helper = ''simd_v128_load16x4_s'', fm_store = False, fm_lane = False, fm_res = TypeV128\<rparr>),
      (0x04, \<lparr>fm_helper = ''simd_v128_load16x4_u'', fm_store = False, fm_lane = False, fm_res = TypeV128\<rparr>),
      (0x05, \<lparr>fm_helper = ''simd_v128_load32x2_s'', fm_store = False, fm_lane = False, fm_res = TypeV128\<rparr>),
      (0x06, \<lparr>fm_helper = ''simd_v128_load32x2_u'', fm_store = False, fm_lane = False, fm_res = TypeV128\<rparr>),
      (0x07, \<lparr>fm_helper = ''simd_v128_load8_splat'', fm_store = False, fm_lane = False, fm_res = TypeV128\<rparr>),
      (0x08, \<lparr>fm_helper = ''simd_v128_load16_splat'', fm_store = False, fm_lane = False, fm_res = TypeV128\<rparr>),
      (0x09, \<lparr>fm_helper = ''simd_v128_load32_splat'', fm_store = False, fm_lane = False, fm_res = TypeV128\<rparr>),
      (0x0a, \<lparr>fm_helper = ''simd_v128_load64_splat'', fm_store = False, fm_lane = False, fm_res = TypeV128\<rparr>),
      (0x0b, \<lparr>fm_helper = ''simd_v128_store'', fm_store = True, fm_lane = False, fm_res = TypeInvalid\<rparr>),
      (0x54, \<lparr>fm_helper = ''simd_v128_load8_lane'', fm_store = True, fm_lane = True, fm_res = TypeV128\<rparr>),
      (0x55, \<lparr>fm_helper = ''simd_v128_load16_lane'', fm_store = True, fm_lane = True, fm_res = TypeV128\<rparr>),
      (0x56, \<lparr>fm_helper = ''simd_v128_load32_lane'', fm_store = True, fm_lane = True, fm_res = TypeV128\<rparr>),
      (0x57, \<lparr>fm_helper = ''simd_v128_load64_lane'', fm_store = True, fm_lane = True, fm_res = TypeV128\<rparr>),
      (0x58, \<lparr>fm_helper = ''simd_v128_store8_lane'', fm_store = True, fm_lane = True, fm_res = TypeInvalid\<rparr>),
      (0x59, \<lparr>fm_helper = ''simd_v128_store16_lane'', fm_store = True, fm_lane = True, fm_res = TypeInvalid\<rparr>),
      (0x5a, \<lparr>fm_helper = ''simd_v128_store32_lane'', fm_store = True, fm_lane = True, fm_res = TypeInvalid\<rparr>),
      (0x5b, \<lparr>fm_helper = ''simd_v128_store64_lane'', fm_store = True, fm_lane = True, fm_res = TypeInvalid\<rparr>),
      (0x5c, \<lparr>fm_helper = ''simd_v128_load32_zero'', fm_store = False, fm_lane = False, fm_res = TypeV128\<rparr>),
      (0x5d, \<lparr>fm_helper = ''simd_v128_load64_zero'', fm_store = False, fm_lane = False, fm_res = TypeV128\<rparr>)]"

definition fdSimdMem :: "u32 \<Rightarrow> fdSimdMemSpec option" where
  "fdSimdMem = map_of fdSimdMem_table"

record fdSimdLaneSpec =
  fl_helper :: string
  fl_scalar :: Type
  fl_res :: Type

definition fdSimdLane_table :: "(u32 \<times> fdSimdLaneSpec) list" where
  "fdSimdLane_table =
     [(0x15, \<lparr>fl_helper = ''simd_i8x16_extract_lane_s'', fl_scalar = TypeInvalid, fl_res = TypeI32\<rparr>),
      (0x16, \<lparr>fl_helper = ''simd_i8x16_extract_lane_u'', fl_scalar = TypeInvalid, fl_res = TypeI32\<rparr>),
      (0x17, \<lparr>fl_helper = ''simd_i8x16_replace_lane'', fl_scalar = TypeI32, fl_res = TypeV128\<rparr>),
      (0x18, \<lparr>fl_helper = ''simd_i16x8_extract_lane_s'', fl_scalar = TypeInvalid, fl_res = TypeI32\<rparr>),
      (0x19, \<lparr>fl_helper = ''simd_i16x8_extract_lane_u'', fl_scalar = TypeInvalid, fl_res = TypeI32\<rparr>),
      (0x1a, \<lparr>fl_helper = ''simd_i16x8_replace_lane'', fl_scalar = TypeI32, fl_res = TypeV128\<rparr>),
      (0x1b, \<lparr>fl_helper = ''simd_i32x4_extract_lane'', fl_scalar = TypeInvalid, fl_res = TypeI32\<rparr>),
      (0x1c, \<lparr>fl_helper = ''simd_i32x4_replace_lane'', fl_scalar = TypeI32, fl_res = TypeV128\<rparr>),
      (0x1d, \<lparr>fl_helper = ''simd_i64x2_extract_lane'', fl_scalar = TypeInvalid, fl_res = TypeI64\<rparr>),
      (0x1e, \<lparr>fl_helper = ''simd_i64x2_replace_lane'', fl_scalar = TypeI64, fl_res = TypeV128\<rparr>),
      (0x1f, \<lparr>fl_helper = ''simd_f32x4_extract_lane'', fl_scalar = TypeInvalid, fl_res = TypeF32\<rparr>),
      (0x20, \<lparr>fl_helper = ''simd_f32x4_replace_lane'', fl_scalar = TypeF32, fl_res = TypeV128\<rparr>),
      (0x21, \<lparr>fl_helper = ''simd_f64x2_extract_lane'', fl_scalar = TypeInvalid, fl_res = TypeF64\<rparr>),
      (0x22, \<lparr>fl_helper = ''simd_f64x2_replace_lane'', fl_scalar = TypeF64, fl_res = TypeV128\<rparr>)]"

definition fdSimdLane :: "u32 \<Rightarrow> fdSimdLaneSpec option" where
  "fdSimdLane = map_of fdSimdLane_table"

end
