(* ===== verification/LowerState.thy ===== *)
theory LowerState
  imports SsaCore InstrReader
begin

text \<open>
  The state of the lowering of one function body, from \<^verbatim>\<open>internal/lower/lower.go\<close>, and the
  operations every instruction handler is made of: reading immediates, building values and blocks,
  the operand stack, and the hand-over of locals and results to a join block. A handler is a
  function from the state to an error or a result with the new state; the reader of the body being
  lowered is part of the state.
\<close>

section \<open>State\<close>

text \<open>
  \<open>Unsupported\<close> is an error that wraps \<^verbatim>\<open>ErrSSAUnsupported\<close>, \<open>Plain\<close> any other,
  \<open>Panic\<close> a panic, which \<^verbatim>\<open>LowerFunction\<close> turns into an unsupported feature.
\<close>

datatype lower_error = Plain go_error | Unsupported string "nat list" | Panic string

datatype ctrlKind = ctrlBlock | ctrlLoop | ctrlIf | ctrlTry

record ctrlFrame =
  cf_kind :: ctrlKind
  cf_target :: nat
  cf_fallthrough :: nat
  cf_elseBlk :: "nat option"
  cf_haveElse :: bool
  cf_resultCount :: nat
  cf_stackHeightAtEntry :: nat
  cf_entryLocals :: "nat list"
  cf_tryRegion :: "nat option"
  cf_excChain :: "nat option"
  cf_excTagVal :: "nat option"
  cf_excSavedTag :: "nat option"
  cf_excSavedVals :: "nat list"
  cf_excDispatchLocals :: "nat list"
  cf_excHasCatchAll :: bool
  cf_excDead :: bool
  cf_excDispatch :: "nat option"
  cf_inHandler :: bool

definition new_frame :: "ctrlKind \<Rightarrow> nat \<Rightarrow> nat \<Rightarrow> nat \<Rightarrow> nat \<Rightarrow> ctrlFrame" where
  "new_frame kind tgt fall results height =
     \<lparr>cf_kind = kind, cf_target = tgt, cf_fallthrough = fall, cf_elseBlk = None, cf_haveElse = False,
      cf_resultCount = results, cf_stackHeightAtEntry = height, cf_entryLocals = [], cf_tryRegion = None,
      cf_excChain = None, cf_excTagVal = None, cf_excSavedTag = None, cf_excSavedVals = [],
      cf_excDispatchLocals = [], cf_excHasCatchAll = False, cf_excDead = False, cf_excDispatch = None,
      cf_inHandler = False\<rparr>"

definition branchArity :: "ctrlFrame \<Rightarrow> nat" where
  "branchArity f = (if cf_kind f = ctrlLoop then 0 else cf_resultCount f)"

record incomingEdge =
  ie_from :: nat
  ie_locals :: "nat list"
  ie_stack :: "nat list"

record ThrowSet =
  ts_may :: "u32 set"
  ts_indirectTypes :: "u32 set"

record fnInlineInfo =
  fi_bodyBytes :: nat
  fi_leaf :: bool
  fi_hasTry :: bool
  fi_noInline :: bool
  fi_sites :: nat
  fi_innerCalls :: "u32 list"
  fi_hasIndirect :: bool

record inlineFrame =
  if_ctrlIdx :: nat
  if_savedFt :: FuncType
  if_savedLocals :: "nat list"
  if_savedLocalTypes :: "Type list"

record lowerState =
  ls_throwSet :: "ThrowSet option"
  ls_excSlots :: nat
  ls_excPropagate :: "nat option"
  ls_b :: FuncBuilder
  ls_mod :: Module
  ls_ft :: FuncType
  ls_mem64 :: bool
  ls_locals :: "nat list"
  ls_localTypes :: "Type list"
  ls_stack :: "nat list"
  ls_ctrl :: "ctrlFrame list"
  ls_incoming :: "nat \<Rightarrow> incomingEdge list option"
  ls_unreachable :: bool
  ls_unreachableDepth :: nat
  ls_mutableLocals :: bool
  ls_inlineInfo :: "u32 \<Rightarrow> fnInlineInfo option"
  ls_inlineFrames :: "inlineFrame list"
  ls_inlinedBytes :: nat
  ls_callerIdx :: u32
  ls_rd :: "byte list"

section \<open>Handlers\<close>

type_synonym 'a low = "lowerState \<Rightarrow> lower_error + ('a \<times> lowerState)"

named_theorems low_simps \<open>unfolding of handlers\<close>

definition lret :: "'a \<Rightarrow> 'a low" where
  "lret x s = Inr (x, s)"

definition lfail :: "lower_error \<Rightarrow> 'a low" where
  "lfail e s = Inl e"

definition lbind :: "'a low \<Rightarrow> ('a \<Rightarrow> 'b low) \<Rightarrow> 'b low" where
  "lbind m f s = (case m s of Inl e \<Rightarrow> Inl e | Inr (x, s') \<Rightarrow> f x s')"

definition lthen :: "'a low \<Rightarrow> 'b low \<Rightarrow> 'b low" where
  "lthen m n = lbind m (\<lambda>_. n)"

definition lget :: "(lowerState \<Rightarrow> 'a) \<Rightarrow> 'a low" where
  "lget g s = Inr (g s, s)"

definition lmodify :: "(lowerState \<Rightarrow> lowerState) \<Rightarrow> unit low" where
  "lmodify g s = Inr ((), g s)"

definition lwhen :: "bool \<Rightarrow> unit low \<Rightarrow> unit low" where
  "lwhen c m = (if c then m else lret ())"

definition lcheck :: "bool \<Rightarrow> lower_error \<Rightarrow> unit low" where
  "lcheck c e = (if c then lret () else lfail e)"

text \<open>A pointer the Go code dereferences.\<close>

definition lsome :: "'a option \<Rightarrow> 'a low" where
  "lsome x = (case x of Some y \<Rightarrow> lret y | None \<Rightarrow> lfail (Panic ''nil pointer dereference''))"

definition lnth :: "'a list \<Rightarrow> nat \<Rightarrow> 'a low" where
  "lnth xs i = (if i < length xs then lret (xs ! i) else lfail (Panic ''index out of range''))"

fun lmap :: "('a \<Rightarrow> 'b low) \<Rightarrow> 'a list \<Rightarrow> 'b list low" where
  "lmap f [] = lret []"
| "lmap f (x # xs) = lbind (f x) (\<lambda>y. lbind (lmap f xs) (\<lambda>ys. lret (y # ys)))"

lemma lbind_eq_Inr: "lbind m f s = Inr r \<longleftrightarrow> (\<exists>x s'. m s = Inr (x, s') \<and> f x s' = Inr r)"
  by (auto simp: lbind_def split: sum.splits)

lemma lthen_eq_Inr: "lthen m n s = Inr r \<longleftrightarrow> (\<exists>x s'. m s = Inr (x, s') \<and> n s' = Inr r)"
  by (simp add: lthen_def lbind_eq_Inr)

lemma lret_eq_Inr: "lret x s = Inr r \<longleftrightarrow> r = (x, s)"
  by (auto simp: lret_def)

lemma lfail_eq_Inr: "lfail e s \<noteq> Inr r"
  by (simp add: lfail_def)

lemma lget_eq_Inr: "lget g s = Inr r \<longleftrightarrow> r = (g s, s)"
  by (auto simp: lget_def)

lemma lmodify_eq_Inr: "lmodify g s = Inr r \<longleftrightarrow> r = ((), g s)"
  by (auto simp: lmodify_def)

lemma lwhen_eq_Inr: "lwhen c m s = Inr r \<longleftrightarrow> (if c then m s = Inr r else r = ((), s))"
  by (auto simp: lwhen_def lret_def)

lemma lcheck_eq_Inr: "lcheck c e s = Inr r \<longleftrightarrow> c \<and> r = ((), s)"
  by (auto simp: lcheck_def lret_def lfail_def)

lemma lsome_eq_Inr: "lsome x s = Inr r \<longleftrightarrow> (\<exists>y. x = Some y \<and> r = (y, s))"
  by (auto simp: lsome_def lret_def lfail_def split: option.splits)

lemma lnth_eq_Inr: "lnth xs i s = Inr r \<longleftrightarrow> i < length xs \<and> r = (xs ! i, s)"
  by (auto simp: lnth_def lret_def lfail_def)

lemmas low_eqs = lbind_eq_Inr lthen_eq_Inr lret_eq_Inr lfail_eq_Inr lget_eq_Inr lmodify_eq_Inr lwhen_eq_Inr
  lcheck_eq_Inr lsome_eq_Inr lnth_eq_Inr

section \<open>Reading, building, stack\<close>

definition lread :: "'a rd \<Rightarrow> 'a low" where
  "lread p s = (case p (ls_rd s) of Inl e \<Rightarrow> Inl (Plain e) | Inr (x, rest) \<Rightarrow> Inr (x, s\<lparr>ls_rd := rest\<rparr>))"

definition unsupported :: "string \<Rightarrow> nat list \<Rightarrow> 'a low" where
  "unsupported fmt as = lfail (Unsupported fmt as)"

definition plain_error :: "string \<Rightarrow> nat list \<Rightarrow> 'a low" where
  "plain_error fmt as = lfail (Plain (Fail fmt as))"

text \<open>A builder operation; its panic is the handler's.\<close>

definition lbuild :: "(FuncBuilder \<Rightarrow> string + ('a \<times> FuncBuilder)) \<Rightarrow> 'a low" where
  "lbuild g s = (case g (ls_b s) of Inl e \<Rightarrow> Inl (Panic e) | Inr (x, b) \<Rightarrow> Inr (x, s\<lparr>ls_b := b\<rparr>))"

definition lfunc :: "(Func \<Rightarrow> Func) \<Rightarrow> unit low" where
  "lfunc g = lmodify (\<lambda>s. s\<lparr>ls_b := (ls_b s)\<lparr>bf := g (bf (ls_b s))\<rparr>\<rparr>)"

definition lvalue :: "Op \<Rightarrow> Type \<Rightarrow> i64 \<Rightarrow> nat list \<Rightarrow> nat low" where
  "lvalue op ty c as = lbuild (bNewValueAuxInt op ty c (map Some as))"

definition lvalueAux :: "Op \<Rightarrow> Type \<Rightarrow> Aux \<Rightarrow> nat list \<Rightarrow> nat low" where
  "lvalueAux op ty aux as = lbuild (bNewValueAux op ty aux (map Some as))"

definition lconst32 :: "i32 \<Rightarrow> nat low" where
  "lconst32 c = lbuild (Const32 c)"

definition lconst64 :: "i64 \<Rightarrow> nat low" where
  "lconst64 c = lbuild (Const64 c)"

definition lnewBlock :: "BlockKind \<Rightarrow> nat low" where
  "lnewBlock kind = lbuild (\<lambda>b. Inr (bNewBlock kind b))"

definition lsetCurrent :: "nat \<Rightarrow> unit low" where
  "lsetCurrent blk = lmodify (\<lambda>s. s\<lparr>ls_b := SetCurrent blk (ls_b s)\<rparr>)"

definition lcurrent :: "nat low" where
  "lcurrent = lbind (lget (\<lambda>s. cur (ls_b s))) lsome"

definition lkind :: "BlockKind \<Rightarrow> unit low" where
  "lkind k = lbind lcurrent (\<lambda>c. lfunc (upd_blk c (\<lambda>b. b\<lparr>bKind := k\<rparr>)))"

definition lcontrol :: "nat \<Rightarrow> unit low" where
  "lcontrol v = lbind lcurrent (\<lambda>c. lfunc (upd_blk c (\<lambda>b. b\<lparr>Control := Some v\<rparr>)))"

definition ledge :: "nat \<Rightarrow> unit low" where
  "ledge dst = lbind lcurrent (\<lambda>c. lfunc (AddEdge c dst))"

definition lpush :: "nat \<Rightarrow> unit low" where
  "lpush v = lmodify (\<lambda>s. s\<lparr>ls_stack := ls_stack s @ [v]\<rparr>)"

definition lpop :: "nat low" where
  "lpop s = (if ls_stack s = [] then Inl (Plain (Fail ''ssa lowering: pop on empty stack'' []))
             else Inr (last (ls_stack s), s\<lparr>ls_stack := butlast (ls_stack s)\<rparr>))"

text \<open>Popping several operands from the top down, in the order in which they were pushed.\<close>

fun lpopN :: "nat \<Rightarrow> nat list low" where
  "lpopN 0 = lret []"
| "lpopN (Suc n) = lbind lpop (\<lambda>v. lbind (lpopN n) (\<lambda>vs. lret (vs @ [v])))"

definition lstack :: "nat list \<Rightarrow> unit low" where
  "lstack vs = lmodify (\<lambda>s. s\<lparr>ls_stack := vs\<rparr>)"

definition llocals :: "nat list \<Rightarrow> unit low" where
  "llocals vs = lmodify (\<lambda>s. s\<lparr>ls_locals := vs\<rparr>)"

definition ldead :: "bool \<Rightarrow> unit low" where
  "ldead d = lmodify (\<lambda>s. s\<lparr>ls_unreachable := d\<rparr>)"

section \<open>Types\<close>

definition toSSAType :: "ValType \<Rightarrow> Type" where
  "toSSAType t =
     (if t = ValI32 then TypeI32
      else if t = ValI64 then TypeI64
      else if t = ValF32 then TypeF32
      else if t = ValF64 then TypeF64
      else if t = ValV128 then TypeV128
      else TypeInvalid)"

definition toSSATypes :: "ValType list \<Rightarrow> Type list" where
  "toSSATypes = map toSSAType"

definition decodeBlockResults :: "i64 \<Rightarrow> ValType list res" where
  "decodeBlockResults bt =
     (if bt = - 0x40 \<or> bt = 0x40 then Inr []
      else if bt = - 0x01 then Inr [ValI32]
      else if bt = - 0x02 then Inr [ValI64]
      else if bt = - 0x03 then Inr [ValF32]
      else if bt = - 0x04 then Inr [ValF64]
      else if bt = - 0x05 then Inr [ValV128]
      else Inl (Fail ''blocktype %v not supported (function-type-index encoding)'' [unat bt]))"

definition lblocktype :: "string \<Rightarrow> ValType list low" where
  "lblocktype what =
     lbind (lread irReadS33) (\<lambda>bt.
       case decodeBlockResults bt of Inl e \<Rightarrow> unsupported what [unat bt] | Inr rs \<Rightarrow> lret rs)"

definition zeroValueOf :: "Type \<Rightarrow> nat low" where
  "zeroValueOf t =
     (case t of
        TypeI32 \<Rightarrow> lconst32 0
      | TypeI64 \<Rightarrow> lconst64 0
      | TypeF32 \<Rightarrow> lvalue OpConstF32 TypeF32 0 []
      | TypeF64 \<Rightarrow> lvalue OpConstF64 TypeF64 0 []
      | TypeV128 \<Rightarrow> lvalueAux OpSimdConst TypeV128 (AuxV128 0 0) []
      | _ \<Rightarrow> lconst32 0)"

section \<open>Edges into join blocks\<close>

definition recordIncoming :: "nat \<Rightarrow> nat \<Rightarrow> unit low" where
  "recordIncoming tgt resultCount =
     lbind lcurrent (\<lambda>from. lmodify (\<lambda>s.
       s\<lparr>ls_incoming := (ls_incoming s)(tgt \<mapsto>
          (case ls_incoming s tgt of None \<Rightarrow> [] | Some es \<Rightarrow> es) @
          [\<lparr>ie_from = from,
            ie_locals = (if ls_mutableLocals s then [] else ls_locals s),
            ie_stack = drop (length (ls_stack s) - resultCount) (ls_stack s)\<rparr>])\<rparr>))"

text \<open>
  One slot of the merged state: the common value of all edges, or a phi of their values. The phi of
  a result slot takes the type of the last edge's value.
\<close>

definition merge_slot :: "Type \<Rightarrow> nat list \<Rightarrow> nat low" where
  "merge_slot ty as =
     (if \<forall>a \<in> set as. a = hd as then lret (hd as) else lvalue OpPhi ty 0 as)"

definition slot_values :: "(incomingEdge \<Rightarrow> nat list) \<Rightarrow> incomingEdge list \<Rightarrow> nat \<Rightarrow> nat list low" where
  "slot_values g es i = lmap (\<lambda>e. lnth (g e) i) es"

definition merge_local :: "incomingEdge list \<Rightarrow> nat \<Rightarrow> nat low" where
  "merge_local es i =
     lbind (slot_values ie_locals es i) (\<lambda>as.
     if \<forall>a \<in> set as. a = hd as then lret (hd as)
     else lbind (lget ls_localTypes) (\<lambda>tys. lbind (lnth tys i) (\<lambda>ty. lvalue OpPhi ty 0 as)))"

definition merge_result :: "incomingEdge list \<Rightarrow> nat \<Rightarrow> nat low" where
  "merge_result es i =
     lbind (slot_values ie_stack es i) (\<lambda>as.
     lbind (lget (\<lambda>s. vTyp (fval (bf (ls_b s)) (last as)))) (\<lambda>ty. merge_slot ty as))"

definition edge_from :: "incomingEdge list \<Rightarrow> nat \<Rightarrow> incomingEdge option" where
  "edge_from es p = List.find (\<lambda>e. ie_from e = p) es"

text \<open>The edges in the order of the block's predecessors.\<close>

definition order_edges :: "incomingEdge list \<Rightarrow> nat \<Rightarrow> incomingEdge list low" where
  "order_edges es tgt =
     lbind (lget (\<lambda>s. Preds (fblk (bf (ls_b s)) tgt)))
       (lmap (\<lambda>pe. case edge_from es (eBlock pe) of
          Some e \<Rightarrow> lret e
        | None \<Rightarrow> plain_error ''resolveIncoming: no incoming edge recorded for pred b%d of b%d'' [eBlock pe, tgt]))"

definition merge_edges :: "nat \<Rightarrow> nat \<Rightarrow> nat \<Rightarrow> incomingEdge list \<Rightarrow> unit low" where
  "merge_edges tgt resultCount baseHeight edges =
     lbind lcurrent (\<lambda>c. lthen (lcheck (c = tgt) (Plain (Fail ''resolveIncoming: current block %d != target %d'' [c, tgt])))
     (lbind (order_edges edges tgt) (\<lambda>es.
      lbind (lnth es 0) (\<lambda>e0.
      lbind (lmap (merge_local es) [0..<length (ie_locals e0)]) (\<lambda>mergedLocals.
      lthen (llocals mergedLocals)
     (lbind (lmap (merge_result es) [0..<resultCount]) (\<lambda>mergedStack.
      lmodify (\<lambda>s. s\<lparr>ls_stack := take baseHeight (ls_stack s) @ mergedStack\<rparr>))))))))"

definition resolveIncoming :: "nat \<Rightarrow> nat \<Rightarrow> nat \<Rightarrow> unit low" where
  "resolveIncoming tgt resultCount baseHeight =
     lbind (lget (\<lambda>s. (case ls_incoming s tgt of None \<Rightarrow> [] | Some es \<Rightarrow> es, length (ls_stack s)))) (\<lambda>(edges, height).
     lthen (lmodify (\<lambda>s. s\<lparr>ls_incoming := (ls_incoming s)(tgt := None)\<rparr>))
     (if edges = [] then lret ()
      else lthen (lcheck (baseHeight \<le> height)
          (Plain (Fail ''resolveIncoming: baseHeight %d out of range (stack %d)'' [baseHeight, height])))
     (case edges of
        [e] \<Rightarrow> lmodify (\<lambda>s. s\<lparr>ls_locals := ie_locals e, ls_stack := take baseHeight (ls_stack s) @ ie_stack e\<rparr>)
      | _ \<Rightarrow> merge_edges tgt resultCount baseHeight edges)))"

text \<open>
  A branch back to a loop header gives one more operand to each of the header's phis, the first of
  which belong to the locals in order.
\<close>

definition header_phis :: "Func \<Rightarrow> nat \<Rightarrow> nat list" where
  "header_phis f header = filter (\<lambda>v. vOp (fval f v) = OpPhi) (Values (fblk f header))"

definition appendLoopBackArgs :: "nat \<Rightarrow> unit low" where
  "appendLoopBackArgs header =
     lbind (lget (\<lambda>s. (ls_mutableLocals s, ls_locals s))) (\<lambda>(mutableLocals, locals).
     if mutableLocals then lret ()
     else lfunc (\<lambda>f. foldl (\<lambda>f (p, v). upd_val p (\<lambda>w. w\<lparr>vArgs := vArgs w @ [Some v]\<rparr>) f) f
       (zip (header_phis f header) locals)))"

end
