(* ===== verification/LowerOps.thy ===== *)
theory LowerOps
  imports LowerTables LowerState
begin

text \<open>
  The handlers of the instructions without control flow, from \<^verbatim>\<open>internal/lower/lower.go\<close> and
  \<^verbatim>\<open>internal/lower/simd.go\<close>: locals, globals, memory, arithmetic, conversions, bulk memory,
  atomics and vectors.
\<close>

section \<open>Locals and globals\<close>

definition lower_localGet :: "unit low" where
  "lower_localGet =
     lbind (lread irReadU32) (\<lambda>idx.
     lbind (lget ls_localTypes) (\<lambda>tys.
     lthen (lcheck (unat idx < length tys) (Plain (Fail ''local.get out of range: %d'' [unat idx])))
     (lbind (lget ls_mutableLocals) (\<lambda>mutableLocals.
      if mutableLocals then lbind (lvalue OpLocalGet (tys ! unat idx) (ucast idx) []) lpush
      else lbind (lget ls_locals) (\<lambda>locals. lbind (lnth locals (unat idx)) lpush)))))"

definition lower_localSet :: "unit low" where
  "lower_localSet =
     lbind (lread irReadU32) (\<lambda>idx.
     lbind (lget ls_localTypes) (\<lambda>tys.
     lthen (lcheck (unat idx < length tys) (Plain (Fail ''local.set out of range: %d'' [unat idx])))
     (lbind lpop (\<lambda>v.
      lbind (lget ls_mutableLocals) (\<lambda>mutableLocals.
      if mutableLocals then lbind (lvalue OpLocalSet TypeMem (ucast idx) [v]) (\<lambda>_. lret ())
      else lbind (lget ls_locals) (\<lambda>locals.
        lbind (lnth locals (unat idx)) (\<lambda>_. llocals (locals[unat idx := v]))))))))"

definition lower_localTee :: "unit low" where
  "lower_localTee =
     lbind (lread irReadU32) (\<lambda>idx.
     lbind (lget (\<lambda>s. (ls_localTypes s, ls_stack s))) (\<lambda>(tys, st).
     lthen (lcheck (unat idx < length tys) (Plain (Fail ''local.tee out of range: %d'' [unat idx])))
     (lthen (lcheck (st \<noteq> []) (Plain (Fail ''local.tee on empty stack'' [])))
     (lbind (lget ls_mutableLocals) (\<lambda>mutableLocals.
      if mutableLocals then lbind (lvalue OpLocalSet TypeMem (ucast idx) [last st]) (\<lambda>_. lret ())
      else lbind (lget ls_locals) (\<lambda>locals.
        lbind (lnth locals (unat idx)) (\<lambda>_. llocals (locals[unat idx := last st]))))))))"

text \<open>The type of a global: imported globals come first, counted over the global imports only.\<close>

fun imported_global :: "Import list \<Rightarrow> u32 \<Rightarrow> u32 \<Rightarrow> Type" where
  "imported_global [] seen idx = TypeInvalid"
| "imported_global (imp # imps) seen idx =
     (if imp_Kind imp \<noteq> ImportGlobal then imported_global imps seen idx
      else if seen = idx then toSSAType (gt_Type (imp_Global imp))
      else imported_global imps (seen + 1) idx)"

definition globalType :: "Module \<Rightarrow> u32 \<Rightarrow> Type" where
  "globalType m idx =
     (if idx < NumImportedGlobals m then imported_global (Imports m) 0 idx
      else case nth_opt (Globals m) (unat (idx - NumImportedGlobals m)) of
          None \<Rightarrow> TypeInvalid
        | Some g \<Rightarrow> toSSAType (gt_Type (glob_Type g)))"

definition lower_globalGet :: "unit low" where
  "lower_globalGet =
     lbind (lread irReadU32) (\<lambda>idx.
     lbind (lget ls_mod) (\<lambda>m.
     if globalType m idx = TypeInvalid then unsupported ''global.get for unsupported global type %d'' [unat idx]
     else lbind (lvalue OpGlobalGet (globalType m idx) (ucast idx) []) lpush))"

definition lower_globalSet :: "unit low" where
  "lower_globalSet =
     lbind (lread irReadU32) (\<lambda>idx. lbind lpop (\<lambda>v. lbind (lvalue OpGlobalSet TypeMem (ucast idx) [v]) (\<lambda>_. lret ())))"

section \<open>Memory\<close>

definition addrType :: "bool \<Rightarrow> Type" where
  "addrType mem64 = (if mem64 then TypeI64 else TypeI32)"

definition lower_memSize :: "unit low" where
  "lower_memSize =
     lbind (lread irReadByte) (\<lambda>_. lbind (lget ls_mem64) (\<lambda>mem64. lbind (lvalue OpMemSize (addrType mem64) 0 []) lpush))"

definition lower_memGrow :: "unit low" where
  "lower_memGrow =
     lbind (lread irReadByte) (\<lambda>_. lbind lpop (\<lambda>delta.
     lbind (lget ls_mem64) (\<lambda>mem64. lbind (lvalue OpMemGrow (addrType mem64) 0 [delta]) lpush)))"

definition handleMemoryOp :: "byte \<Rightarrow> unit low" where
  "handleMemoryOp opc =
     lbind (lread irReadMemArg) (\<lambda>(align, offset).
     let spec = memoryOpKind opc in
     if mo_ssaOp spec = OpInvalid then unsupported ''memoryOpKind for 0x%02x'' [unat opc]
     else if mo_store spec then
       lbind lpop (\<lambda>v. lbind lpop (\<lambda>base. lbind (lvalue (mo_ssaOp spec) TypeMem offset [base, v]) (\<lambda>_. lret ())))
     else lbind lpop (\<lambda>base. lbind (lvalue (mo_ssaOp spec) (mo_typ spec) offset [base]) lpush))"

section \<open>Arithmetic\<close>

definition lower_simpleBinary :: "byte \<Rightarrow> unit low" where
  "lower_simpleBinary opc =
     lbind lpop (\<lambda>rhs. lbind lpop (\<lambda>lhs.
       case simpleBinaryOp opc of
         None \<Rightarrow> lfail (Panic ''simpleBinaryOp: not a binary op'')
       | Some (op, ty) \<Rightarrow>
           let (lhs, rhs) = (if isGtGe opc then (rhs, lhs) else (lhs, rhs))
           in lbind (lvalue op ty 0 [lhs, rhs]) lpush))"

definition lower_helperBinary :: "byte \<Rightarrow> unit low" where
  "lower_helperBinary opc =
     lbind lpop (\<lambda>rhs. lbind lpop (\<lambda>lhs.
       case helperBinarySpec opc of
         None \<Rightarrow> lfail (Panic ''helperBinarySpec: unknown op'')
       | Some (helper, ty) \<Rightarrow> lbind (lvalueAux OpHelperCall ty (AuxString helper) [lhs, rhs]) lpush))"

definition lower_helperUnary :: "byte \<Rightarrow> unit low" where
  "lower_helperUnary opc =
     lbind lpop (\<lambda>x.
       case helperUnarySpec opc of
         None \<Rightarrow> lfail (Panic ''helperUnarySpec: unknown op'')
       | Some (helper, ty) \<Rightarrow> lbind (lvalueAux OpHelperCall ty (AuxString helper) [x]) lpush)"

text \<open>The zero is created before the comparison, as an operand of its call.\<close>

definition lower_eqz :: "byte \<Rightarrow> unit low" where
  "lower_eqz opc =
     lbind lpop (\<lambda>x.
       if opc = WOpI32Eqz then lbind (lconst32 0) (\<lambda>z. lbind (lvalue OpEq32 TypeBool 0 [x, z]) lpush)
       else lbind (lconst64 0) (\<lambda>z. lbind (lvalue OpEq64 TypeBool 0 [x, z]) lpush))"

section \<open>Select\<close>

definition lskip_bytes :: "u32 \<Rightarrow> unit low" where
  "lskip_bytes n = lbind (lread (readVec (\<lambda>_. irReadByte) 0 (unat n))) (\<lambda>_. lret ())"

definition handleSelect :: "byte \<Rightarrow> unit low" where
  "handleSelect opc =
     lthen (lwhen (opc = WOpSelectT) (lbind (lread irReadU32) lskip_bytes))
     (lbind lpop (\<lambda>cond. lbind lpop (\<lambda>elseVal. lbind lpop (\<lambda>thenVal.
      lbind (lnewBlock BlockPlain) (\<lambda>thenBlk.
      lbind (lnewBlock BlockPlain) (\<lambda>elseBlk.
      lbind (lnewBlock BlockPlain) (\<lambda>postBlk.
      lthen (lkind BlockIf)
     (lthen (lcontrol cond)
     (lthen (ledge thenBlk)
     (lthen (ledge elseBlk)
     (lthen (lfunc (AddEdge thenBlk postBlk))
     (lthen (lfunc (AddEdge elseBlk postBlk))
     (lthen (lsetCurrent postBlk)
     (lbind (lget (\<lambda>s. vTyp (fval (bf (ls_b s)) thenVal))) (\<lambda>ty.
      lbind (lvalue OpPhi ty 0 [thenVal, elseVal]) lpush)))))))))))))))"

section \<open>Atomics\<close>

definition handleFEOp :: "unit low" where
  "handleFEOp =
     lbind (lread irReadU32) (\<lambda>sub.
     if sub = 0x03 then
       lbind (lread irReadByte) (\<lambda>_. lbind (lvalueAux OpAtomicCall TypeI32 (AuxString ''atomicFence'') []) (\<lambda>_. lret ()))
     else case feAtomics sub of
         None \<Rightarrow> unsupported ''0xfe sub-opcode 0x%02x not implemented'' [unat sub]
       | Some spec \<Rightarrow>
           lbind (lread irReadU32) (\<lambda>_.
           lbind (lget ls_mem64) (\<lambda>mem64.
           lbind (if mem64 then lbind (lread irReadU64) lconst64 else lbind (lread irReadU32) lconst32) (\<lambda>offVal.
           lbind (lpopN (fe_extra spec)) (\<lambda>extras.
           lbind lpop (\<lambda>addr.
           lbind (lvalueAux OpAtomicCall (fe_resType spec)
              (AuxString (fe_helper spec @ (if mem64 then ''_m64'' else ''''))) (addr # offVal # extras)) (\<lambda>v.
           if take 11 (fe_helper spec) = ''atomicStore'' then lret () else lpush v)))))))"

section \<open>Saturating conversions and bulk memory\<close>

definition handleFCOp :: "unit low" where
  "handleFCOp =
     lbind (lread irReadU32) (\<lambda>sub.
     if sub \<le> 7 then
       lbind lpop (\<lambda>x. case fc_trunc_specs ! unat sub of
         (helper, ty) \<Rightarrow> lbind (lvalueAux OpHelperCall ty (AuxString helper) [x]) lpush)
     else if sub = 8 then
       lbind (lread irReadU32) (\<lambda>segIdx. lbind (lread irReadByte) (\<lambda>_.
       lbind lpop (\<lambda>n. lbind lpop (\<lambda>src. lbind lpop (\<lambda>dst.
       lbind (lvalue OpMemoryInit TypeMem (ucast segIdx) [dst, src, n]) (\<lambda>_. lret ()))))))
     else if sub = 9 then
       lbind (lread irReadU32) (\<lambda>segIdx. lbind (lvalue OpDataDrop TypeMem (ucast segIdx) []) (\<lambda>_. lret ()))
     else if sub = 10 then
       lbind (lread irReadByte) (\<lambda>_. lbind (lread irReadByte) (\<lambda>_.
       lbind lpop (\<lambda>n. lbind lpop (\<lambda>src. lbind lpop (\<lambda>dst.
       lbind (lvalue OpMemoryCopy TypeMem 0 [dst, src, n]) (\<lambda>_. lret ()))))))
     else if sub = 11 then
       lbind (lread irReadByte) (\<lambda>_.
       lbind lpop (\<lambda>n. lbind lpop (\<lambda>v. lbind lpop (\<lambda>dst.
       lbind (lvalue OpMemoryFill TypeMem 0 [dst, v, n]) (\<lambda>_. lret ())))))
     else unsupported ''prefix 0xfc sub-opcode %d not implemented'' [unat sub])"

section \<open>Vectors\<close>

text \<open>Sixteen immediate bytes as two little-endian halves.\<close>

definition read_v128 :: "(u64 \<times> u64) low" where
  "read_v128 = lbind (lread (readVec (\<lambda>_. irReadByte) 0 16)) (\<lambda>bs. lret (le_word (take 8 bs), le_word (drop 8 bs)))"

definition lower_simdMem :: "fdSimdMemSpec \<Rightarrow> unit low" where
  "lower_simdMem spec =
     lbind (lread irReadU32) (\<lambda>_.
     lbind (lread irReadU64) (\<lambda>offset.
     lbind (if fm_lane spec then lbind (lread irReadByte) (\<lambda>b. lret (Some b)) else lret None) (\<lambda>lane.
     lbind (if fm_store spec then lbind lpop (\<lambda>v. lret [v]) else lret []) (\<lambda>vec.
     lbind lpop (\<lambda>addr.
     lbind (lget ls_mem64) (\<lambda>mem64.
     lbind (if mem64 then lconst64 offset else lconst32 (ucast offset)) (\<lambda>offVal.
     lbind (case lane of None \<Rightarrow> lret [] | Some b \<Rightarrow> lbind (lconst32 (ucast b)) (\<lambda>c. lret [c])) (\<lambda>lanes.
     lbind (lvalueAux OpSimdMemCall (if fm_res spec = TypeInvalid then TypeI32 else fm_res spec)
        (AuxString (if mem64 then ''simd_m64'' @ drop 4 (fm_helper spec) else fm_helper spec))
        (addr # offVal # lanes @ vec)) (\<lambda>v.
     lwhen (fm_res spec \<noteq> TypeInvalid) (lpush v))))))))))"

definition lower_simdLane :: "fdSimdLaneSpec \<Rightarrow> unit low" where
  "lower_simdLane spec =
     lbind (lread irReadByte) (\<lambda>b.
     lbind (if fl_scalar spec \<noteq> TypeInvalid then lbind lpop (\<lambda>v. lret [v]) else lret []) (\<lambda>repl.
     lbind lpop (\<lambda>vec.
     lbind (lconst32 (ucast b)) (\<lambda>c.
     lbind (lvalueAux OpSimdCall (fl_res spec) (AuxString (fl_helper spec)) (vec # c # repl)) lpush))))"

definition handleFDOp :: "unit low" where
  "handleFDOp =
     lbind (lread irReadU32) (\<lambda>sub.
     case fdSimdMem sub of
       Some spec \<Rightarrow> lower_simdMem spec
     | None \<Rightarrow>
        if sub = 0x0c then
          lbind read_v128 (\<lambda>(lo, hi). lbind (lvalueAux OpSimdConst TypeV128 (AuxV128 lo hi) []) lpush)
        else if sub = 0x0d then
          lbind read_v128 (\<lambda>(lo, hi). lbind lpop (\<lambda>bv. lbind lpop (\<lambda>av.
          lbind (lvalueAux OpSimdConst TypeV128 (AuxV128 lo hi) []) (\<lambda>pat.
          lbind (lvalueAux OpSimdCall TypeV128 (AuxString ''simd_i8x16_shuffle'') [av, bv, pat]) lpush))))
        else (case fdSimdLane sub of
            Some spec \<Rightarrow> lower_simdLane spec
          | None \<Rightarrow>
             (case fdSimd sub of
                None \<Rightarrow> unsupported ''0xfd sub-opcode 0x%02x not implemented'' [unat sub]
              | Some spec \<Rightarrow>
                  lbind (lpopN (length (fd_args spec))) (\<lambda>as.
                  lbind (lvalueAux OpSimdCall (fd_res spec) (AuxString (fd_helper spec)) as) lpush))))"

end
