(* ===== verification/LowerCtrl.thy ===== *)
theory LowerCtrl
  imports LowerOps
begin

text \<open>
  The handlers of control flow and of branch-based exception handling, from
  \<^verbatim>\<open>internal/lower/lower.go\<close> and \<^verbatim>\<open>internal/lower/eh.go\<close>.
\<close>

section \<open>Frames and regions\<close>

definition lpushFrame :: "ctrlFrame \<Rightarrow> unit low" where
  "lpushFrame f = lmodify (\<lambda>s. s\<lparr>ls_ctrl := ls_ctrl s @ [f]\<rparr>)"

definition lpopFrame :: "unit low" where
  "lpopFrame = lmodify (\<lambda>s. s\<lparr>ls_ctrl := butlast (ls_ctrl s)\<rparr>)"

definition lsetTop :: "ctrlFrame \<Rightarrow> unit low" where
  "lsetTop f = lmodify (\<lambda>s. s\<lparr>ls_ctrl := butlast (ls_ctrl s) @ [f]\<rparr>)"

definition lheight :: "nat low" where
  "lheight = lget (\<lambda>s. length (ls_stack s))"

definition ldeadNow :: "bool low" where
  "ldeadNow = lget ls_unreachable"

text \<open>The frame a label names.\<close>

definition lframe :: "u32 \<Rightarrow> lower_error \<Rightarrow> ctrlFrame low" where
  "lframe depth e =
     lbind (lget ls_ctrl) (\<lambda>ctrl.
     lthen (lcheck (unat depth < length ctrl) e) (lret (ctrl ! (length ctrl - 1 - unat depth))))"

definition lregion :: "(TryRegion \<Rightarrow> TryRegion) \<Rightarrow> nat \<Rightarrow> unit low" where
  "lregion g i = lfunc (\<lambda>f. f\<lparr>TryRegions := (TryRegions f)[i := g (TryRegions f ! i)]\<rparr>)"

text \<open>The current block ends in a plain edge.\<close>

definition lgoto :: "nat \<Rightarrow> unit low" where
  "lgoto tgt = lthen (lkind BlockPlain) (ledge tgt)"

text \<open>Closing a region into its join block from a live cursor, and entering the join if anything flows in.\<close>

definition close_into :: "nat \<Rightarrow> nat \<Rightarrow> unit low" where
  "close_into tgt resultCount = lthen (recordIncoming tgt resultCount) (lgoto tgt)"

definition enter_join :: "nat \<Rightarrow> nat \<Rightarrow> nat \<Rightarrow> unit low" where
  "enter_join tgt resultCount baseHeight =
     lbind (lget (\<lambda>s. ls_incoming s tgt)) (\<lambda>es.
     lwhen (es \<noteq> None)
       (lthen (lsetCurrent tgt) (lthen (ldead False) (resolveIncoming tgt resultCount baseHeight))))"

section \<open>Exceptions\<close>

record excTarget =
  et_dispatch :: "nat option"
  et_stackBase :: nat

definition catching :: "ctrlFrame \<Rightarrow> bool" where
  "catching f \<longleftrightarrow> cf_kind f = ctrlTry \<and> \<not> cf_inHandler f \<and> cf_tryRegion f \<noteq> None \<and> cf_excDispatch f \<noteq> None"

definition currentExcTarget :: "ctrlFrame list \<Rightarrow> excTarget" where
  "currentExcTarget ctrl =
     (case List.find catching (rev ctrl) of
        Some f \<Rightarrow> \<lparr>et_dispatch = cf_excDispatch f, et_stackBase = cf_stackHeightAtEntry f\<rparr>
      | None \<Rightarrow> \<lparr>et_dispatch = None, et_stackBase = 0\<rparr>)"

text \<open>The number of exception operand slots of a module: the widest tag.\<close>

definition tag_arity :: "Module \<Rightarrow> u32 \<Rightarrow> nat" where
  "tag_arity m typeIdx = (case nth_opt (Types m) (unat typeIdx) of None \<Rightarrow> 0 | Some ft \<Rightarrow> length (Params ft))"

definition maxTagArity :: "Module \<Rightarrow> nat" where
  "maxTagArity m =
     (let n = foldl max 0 (map (tag_arity m)
          (map (\<lambda>imp. tag_TypeIdx (imp_Tag imp)) (filter (\<lambda>imp. imp_Kind imp = ImportTag) (Imports m)) @
           map tag_TypeIdx (Tags m)))
      in if n = 0 \<and> (NumImportedTags m > 0 \<or> Tags m \<noteq> []) then 1 else n)"

text \<open>The operand types of a tag; imported tags come first.\<close>

fun imported_tag :: "Import list \<Rightarrow> u32 \<Rightarrow> u32 \<Rightarrow> u32 option" where
  "imported_tag [] k tagIdx = None"
| "imported_tag (imp # imps) k tagIdx =
     (if imp_Kind imp \<noteq> ImportTag then imported_tag imps k tagIdx
      else if k = tagIdx then Some (tag_TypeIdx (imp_Tag imp))
      else imported_tag imps (k + 1) tagIdx)"

definition tagOperandParams :: "Module \<Rightarrow> u32 \<Rightarrow> ValType list res" where
  "tagOperandParams m tagIdx =
     bind_res
       (if tagIdx < NumImportedTags m then
          (case imported_tag (Imports m) 0 tagIdx of
             None \<Rightarrow> Inl (Fail ''tag: imported tag %d not found'' [unat tagIdx])
           | Some ti \<Rightarrow> Inr ti)
        else
          (case nth_opt (Tags m) (unat (tagIdx - NumImportedTags m)) of
             None \<Rightarrow> Inl (Fail ''tag index %d out of range (%d defined tags)'' [unat tagIdx, length (Tags m)])
           | Some tg \<Rightarrow> Inr (tag_TypeIdx tg)))
       (\<lambda>typeIdx. case nth_opt (Types m) (unat typeIdx) of
          None \<Rightarrow> Inl (Fail ''tag type index %d out of range'' [unat typeIdx])
        | Some ft \<Rightarrow> Inr (Params ft))"

definition tagOperandCount :: "Module \<Rightarrow> u32 \<Rightarrow> nat res" where
  "tagOperandCount m tagIdx = bind_res (tagOperandParams m tagIdx) (\<lambda>ps. Inr (length ps))"

definition tagOperandTypes :: "Module \<Rightarrow> u32 \<Rightarrow> Type list res" where
  "tagOperandTypes m tagIdx =
     bind_res (tagOperandParams m tagIdx) (\<lambda>ps.
       if \<exists>p \<in> set ps. toSSAType p = TypeInvalid then Inl (Fail ''tag %d operand has unsupported type'' [unat tagIdx])
       else Inr (map toSSAType ps))"

definition lres :: "'a res \<Rightarrow> 'a low" where
  "lres r = (case r of Inl e \<Rightarrow> unsupported ''%w'' [] | Inr x \<Rightarrow> lret x)"

text \<open>The block that returns with the exception still pending.\<close>

definition lfinishRet :: "nat list \<Rightarrow> unit low" where
  "lfinishRet vs = lbuild (\<lambda>b. case FinishRet vs b of Inl e \<Rightarrow> Inl e | Inr b \<Rightarrow> Inr ((), b))"

definition propagateBlock :: "nat low" where
  "propagateBlock =
     lbind (lget ls_excPropagate) (\<lambda>p. case p of
        Some blk \<Rightarrow> lret blk
      | None \<Rightarrow>
          lbind (lnewBlock BlockPlain) (\<lambda>blk.
          lbind (lget (\<lambda>s. (cur (ls_b s), Results (ls_ft s)))) (\<lambda>(saved, results).
          lthen (lsetCurrent blk)
         (lbind (lmap (\<lambda>t. zeroValueOf (toSSAType t)) results) (\<lambda>rets.
          lthen (lfinishRet rets)
         (lthen (lmodify (\<lambda>s. s\<lparr>ls_b := (ls_b s)\<lparr>cur := saved\<rparr>, ls_excPropagate := Some blk\<rparr>))
         (lret blk)))))))"

definition emitExcCheck :: "unit low" where
  "emitExcCheck =
     lbind (lget (\<lambda>s. currentExcTarget (ls_ctrl s))) (\<lambda>tgt.
     lbind (case et_dispatch tgt of
        Some d \<Rightarrow> lthen (recordIncoming d 0) (lret d)
      | None \<Rightarrow> propagateBlock) (\<lambda>excBlk.
     lbind (lnewBlock BlockPlain) (\<lambda>cont.
     lbind lheight (\<lambda>h.
     lthen (recordIncoming cont h)
    (lbind (lvalue OpExcPending TypeI32 0 []) (\<lambda>pending.
     lthen (lkind BlockIf) (lthen (lcontrol pending)
    (lthen (ledge excBlk) (lthen (ledge cont)
    (lthen (lsetCurrent cont)
    (\<lambda>s. case resolveIncoming cont h 0 s of
        Inl e \<Rightarrow> Inl (Panic ''resolveIncoming'')
      | Inr r \<Rightarrow> Inr r)))))))))))"

definition gotoExcTarget :: "unit low" where
  "gotoExcTarget =
     lbind (lget (\<lambda>s. currentExcTarget (ls_ctrl s))) (\<lambda>tgt.
     lthen (lkind BlockPlain)
    (lthen (case et_dispatch tgt of
        Some d \<Rightarrow> lthen (recordIncoming d 0) (ledge d)
      | None \<Rightarrow> lbind lcurrent (\<lambda>c. lbind propagateBlock (\<lambda>p. lfunc (AddEdge c p))))
     (ldead True)))"

definition raiseAndGo :: "nat \<Rightarrow> nat list \<Rightarrow> unit low" where
  "raiseAndGo tag vals = lbind (lvalue OpExcRaise TypeMem 0 (tag # vals)) (\<lambda>_. gotoExcTarget)"

definition sealDead :: "nat \<Rightarrow> Func \<Rightarrow> Func" where
  "sealDead b f =
     (if bKind (fblk f b) \<noteq> BlockPlain \<or> Succs (fblk f b) \<noteq> [] then f
      else upd_blk b (\<lambda>blk. blk\<lparr>bKind := BlockUnreachable\<rparr>) f)"

definition sealDeadExcBlocks :: "nat option \<Rightarrow> nat option \<Rightarrow> unit low" where
  "sealDeadExcBlocks region extra =
     lfunc (\<lambda>f. foldl (\<lambda>f b. sealDead b f) f
       ((case region of
           None \<Rightarrow> []
         | Some i \<Rightarrow> (case Dispatch (TryRegions f ! i) of None \<Rightarrow> [] | Some d \<Rightarrow> [d]) @
                    map hBlock (Handlers (TryRegions f ! i))) @
        (case extra of None \<Rightarrow> [] | Some b \<Rightarrow> [b])))"

section \<open>Try regions\<close>

definition handleTry :: "unit low" where
  "handleTry =
     lbind (lblocktype ''try blocktype %v: %w'') (\<lambda>results.
     lbind (lnewBlock BlockPlain) (\<lambda>entryBlk.
     lbind (lnewBlock BlockPlain) (\<lambda>postBlk.
     lbind (lnewBlock BlockPlain) (\<lambda>dispatchBlk.
     lthen (lgoto entryBlk)
    (lthen (lsetCurrent entryBlk)
    (lbind (lget (\<lambda>s. length (TryRegions (bf (ls_b s))))) (\<lambda>region.
     lthen (lfunc (\<lambda>f. f\<lparr>TryRegions := TryRegions f @
        [\<lparr>trEntry = entryBlk, Post = postBlk, Handlers = [], trBody = [], Dispatch = Some dispatchBlk,
          Delegate = False, DelegateTarget = None\<rparr>]\<rparr>))
    (lbind lheight (\<lambda>h.
     lpushFrame ((new_frame ctrlTry postBlk postBlk (length results) h)
        \<lparr>cf_tryRegion := Some region, cf_excDispatch := Some dispatchBlk\<rparr>))))))))))"

text \<open>The blocks created while the region was open, recorded once.\<close>

definition body_blocks :: "Func \<Rightarrow> TryRegion \<Rightarrow> nat list" where
  "body_blocks f tr =
     (case dropWhile (\<lambda>b. b \<noteq> trEntry tr) (Blocks f) of
        [] \<Rightarrow> []
      | e # bs \<Rightarrow> e # filter (\<lambda>b. b \<noteq> Post tr) bs)"

definition captureTryBody :: "ctrlFrame \<Rightarrow> unit low" where
  "captureTryBody f =
     (case cf_tryRegion f of
        None \<Rightarrow> lret ()
      | Some i \<Rightarrow> lfunc (\<lambda>fn. if trBody (TryRegions fn ! i) \<noteq> [] then fn
          else fn\<lparr>TryRegions := (TryRegions fn)[i := (TryRegions fn ! i)\<lparr>trBody := body_blocks fn (TryRegions fn ! i)\<rparr>]\<rparr>))"

text \<open>Entering the dispatch block: the tag and the operand slots are read before the flag is cleared.\<close>

definition openDispatch :: "ctrlFrame \<Rightarrow> ctrlFrame low" where
  "openDispatch f =
     lbind (lsome (cf_excDispatch f)) (\<lambda>d.
     lthen (lsetCurrent d)
    (lthen (ldead False)
    (lthen (resolveIncoming d 0 (cf_stackHeightAtEntry f))
    (lbind lheight (\<lambda>h.
     lthen (lcheck (cf_stackHeightAtEntry f \<le> h)
       (Unsupported ''dispatch stack underflow (entry %d, have %d)'' [cf_stackHeightAtEntry f, h]))
    (lthen (lmodify (\<lambda>s. s\<lparr>ls_stack := take (cf_stackHeightAtEntry f) (ls_stack s)\<rparr>))
    (lbind (lget (\<lambda>s. (ls_locals s, ls_excSlots s))) (\<lambda>(locals, slots).
     lbind (lvalue OpExcTag TypeI32 0 []) (\<lambda>tag.
     lbind (lmap (\<lambda>i. lvalue OpExcVal TypeI64 (word_of_nat i) []) [0..<slots]) (\<lambda>vals.
     lbind (lvalue OpExcClear TypeMem 0 []) (\<lambda>_.
     lret (f\<lparr>cf_excDispatchLocals := locals, cf_excSavedTag := Some tag, cf_excSavedVals := vals,
             cf_excTagVal := Some tag\<rparr>))))))))))))"

definition beginClause :: "ctrlFrame \<Rightarrow> bool \<Rightarrow> u32 \<Rightarrow> (nat \<times> ctrlFrame) low" where
  "beginClause f catchAll tagIdx =
     lbind (case cf_excChain f of
        None \<Rightarrow>
          lbind (openDispatch f) (\<lambda>f.
          lbind lcurrent (\<lambda>c.
          lbind (lget (\<lambda>s. Preds (fblk (bf (ls_b s)) (the (cf_excDispatch f))))) (\<lambda>ps.
          lret (f\<lparr>cf_excChain := Some c, cf_excDead := (ps = [])\<rparr>))))
      | Some c \<Rightarrow> lthen (lsetCurrent c) (lthen (llocals (cf_excDispatchLocals f)) (lret f))) (\<lambda>f.
     lthen (ldead (cf_excDead f))
    (lthen (lmodify (\<lambda>s. s\<lparr>ls_stack := (if cf_stackHeightAtEntry f \<le> length (ls_stack s)
                                          then take (cf_stackHeightAtEntry f) (ls_stack s) else [])\<rparr>))
    (if catchAll then lbind lcurrent (\<lambda>c. lret (c, f\<lparr>cf_excChain := None, cf_excHasCatchAll := True\<rparr>))
     else
       lbind (lnewBlock BlockPlain) (\<lambda>handler.
       lbind (lnewBlock BlockPlain) (\<lambda>nxt.
       lbind (lconst32 tagIdx) (\<lambda>k.
       lbind (lsome (cf_excTagVal f)) (\<lambda>tag.
       lbind (lvalue OpEq32 TypeBool 0 [tag, k]) (\<lambda>cmp.
       lthen (lkind BlockIf) (lthen (lcontrol cmp)
      (lthen (ledge handler) (lthen (ledge nxt)
      (lthen (lsetCurrent handler)
      (lret (handler, f\<lparr>cf_excChain := Some nxt\<rparr>))))))))))))))"

definition catch_args :: "ctrlFrame \<Rightarrow> u32 \<Rightarrow> nat low" where
  "catch_args f tagIdx =
     lbind (lget ls_mod) (\<lambda>m.
     lbind (lres (tagOperandTypes m tagIdx)) (\<lambda>types.
     lbind (lmap (\<lambda>(i, t).
        lthen (lcheck (i < length (cf_excSavedVals f)) (Unsupported ''tag %d arity %d exceeds the slots'' [unat tagIdx]))
          (lbind (lvalue OpCatchArg t (word_of_nat i) [cf_excSavedVals f ! i]) lpush)) (enumerate 0 types)) (\<lambda>_.
     lret (length types))))"

definition beginHandler :: "bool \<Rightarrow> u32 \<Rightarrow> unit low" where
  "beginHandler catchAll tagIdx =
     lbind (lget ls_ctrl) (\<lambda>ctrl.
     lthen (lcheck (ctrl \<noteq> [] \<and> cf_kind (last ctrl) = ctrlTry) (Unsupported ''catch/catch_all with no open try'' []))
    (let f = last ctrl in
     lthen (captureTryBody f)
    (lbind ldeadNow (\<lambda>d.
     lthen (lwhen (\<not> d) (close_into (cf_target f) (cf_resultCount f)))
    (lthen (lsetTop (f\<lparr>cf_inHandler := True\<rparr>))
    (lbind (beginClause (f\<lparr>cf_inHandler := True\<rparr>) catchAll tagIdx) (\<lambda>(hBlk, f).
     lthen (lsetTop f)
    (lbind (if catchAll then lret 0 else catch_args f tagIdx) (\<lambda>nArgs.
     lbind (lsome (cf_tryRegion f)) (lregion (\<lambda>tr. tr\<lparr>Handlers := Handlers tr @
        [\<lparr>CatchAll = catchAll, hTagIndex = tagIdx, hBlock = hBlk, NumArgs = nArgs\<rparr>]\<rparr>)))))))))))"

definition handleCatch :: "unit low" where
  "handleCatch = lbind (lread irReadU32) (beginHandler False)"

definition handleCatchAll :: "unit low" where
  "handleCatchAll = beginHandler True 0"

text \<open>
  The edge of an exception no clause matches, laid outside the current position: afterwards the
  cursor, the stack and the locals are as before.
\<close>

definition closeChain :: "ctrlFrame \<Rightarrow> unit low" where
  "closeChain f =
     (case cf_excChain f of
        None \<Rightarrow> lret ()
      | Some c \<Rightarrow>
          lbind (lget (\<lambda>s. (cur (ls_b s), ls_unreachable s, ls_stack s, ls_locals s))) (\<lambda>(saved, dead, st, locals).
          lthen (lsetCurrent c)
         (lthen (ldead False)
         (lthen (lstack [])
         (lthen (llocals (cf_excDispatchLocals f))
         (lbind (lvalue OpExcRearm TypeMem 0 []) (\<lambda>_.
          lthen gotoExcTarget
         (lmodify (\<lambda>s. s\<lparr>ls_b := (ls_b s)\<lparr>cur := saved\<rparr>, ls_unreachable := dead, ls_stack := st, ls_locals := locals\<rparr>)))))))))"

text \<open>
  A delegate names its catching context by a label: the nearest try still in its protected body, at
  or outside that label.
\<close>

definition delegate_target :: "ctrlFrame list \<Rightarrow> u32 \<Rightarrow> nat option" where
  "delegate_target ctrl depth =
     (if unat depth < length ctrl then
        (case List.find (\<lambda>fr. cf_kind fr = ctrlTry \<and> \<not> cf_inHandler fr \<and> cf_tryRegion fr \<noteq> None)
             (rev (take (length ctrl - unat depth) ctrl)) of
           Some fr \<Rightarrow> cf_tryRegion fr
         | None \<Rightarrow> None)
      else None)"

text \<open>The dispatch of a delegating try forwards the exception. Regions are named by their place in the list.\<close>

definition forward_target :: "TryRegion list \<Rightarrow> nat \<Rightarrow> nat option" where
  "forward_target rs i =
     Option.bind (nth_opt rs i) (\<lambda>tr. Option.bind (DelegateTarget tr) (\<lambda>j. Option.bind (nth_opt rs j) Dispatch))"

definition forward_delegate :: "ctrlFrame \<Rightarrow> nat \<Rightarrow> unit low" where
  "forward_delegate f d =
     lbind (lget (\<lambda>s. (cur (ls_b s), ls_unreachable s))) (\<lambda>(saved, dead).
     lthen (lsetCurrent d)
    (lthen (ldead False)
    (lthen (resolveIncoming d 0 (cf_stackHeightAtEntry f))
    (lthen (lmodify (\<lambda>s. s\<lparr>ls_stack := take (cf_stackHeightAtEntry f) (ls_stack s)\<rparr>))
    (lbind (lget (\<lambda>s. Option.bind (cf_tryRegion f) (forward_target (TryRegions (bf (ls_b s)))))) (\<lambda>tgt.
     lthen (case tgt of
        Some t \<Rightarrow> lthen (lkind BlockPlain) (lthen (recordIncoming t 0) (lthen (ledge t) (ldead True)))
      | None \<Rightarrow> gotoExcTarget)
    (lmodify (\<lambda>s. s\<lparr>ls_b := (ls_b s)\<lparr>cur := saved\<rparr>, ls_unreachable := dead\<rparr>))))))))"

definition handleDelegate :: "unit low" where
  "handleDelegate =
     lbind (lread irReadU32) (\<lambda>depth.
     lbind (lget ls_ctrl) (\<lambda>ctrl.
     lthen (lcheck (ctrl \<noteq> [] \<and> cf_kind (last ctrl) = ctrlTry) (Unsupported ''delegate with no open try'' []))
    (let f = last ctrl in
     lthen lpopFrame
    (lthen (captureTryBody f)
    (lbind (lsome (cf_tryRegion f)) (\<lambda>region.
     lthen (lregion (\<lambda>tr. tr\<lparr>Delegate := True\<rparr>) region)
    (lthen (lregion (\<lambda>tr. case delegate_target (butlast ctrl) depth of
        None \<Rightarrow> tr | Some t \<Rightarrow> tr\<lparr>DelegateTarget := Some t\<rparr>) region)
    (lbind ldeadNow (\<lambda>dead.
     lthen (lwhen (\<not> dead) (close_into (cf_target f) (cf_resultCount f)))
    (lbind (lsome (cf_excDispatch f)) (\<lambda>d.
     lbind (lget (\<lambda>s. Preds (fblk (bf (ls_b s)) d))) (\<lambda>ps.
     lthen (lwhen (ps \<noteq> []) (forward_delegate f d))
    (lthen (sealDeadExcBlocks (Some region) None)
     (enter_join (cf_target f) (cf_resultCount f) (cf_stackHeightAtEntry f)))))))))))))))"

definition handleRethrow :: "unit low" where
  "handleRethrow =
     lbind (lread irReadU32) (\<lambda>depth.
     lbind (lframe depth (Unsupported ''rethrow depth %d exceeds control stack'' [unat depth])) (\<lambda>fr.
     case cf_excSavedTag fr of
       Some tag \<Rightarrow>
         if cf_kind fr = ctrlTry \<and> cf_inHandler fr then raiseAndGo tag (cf_excSavedVals fr)
         else unsupported ''rethrow label does not name a catch handler'' []
     | None \<Rightarrow> unsupported ''rethrow label does not name a catch handler'' []))"

definition handleThrow :: "unit low" where
  "handleThrow =
     lbind (lread irReadU32) (\<lambda>tagIdx.
     lbind (lget ls_mod) (\<lambda>m.
     lbind (lres (tagOperandCount m tagIdx)) (\<lambda>n.
     lbind (lget ls_stack) (\<lambda>st.
     lthen (lcheck (n \<le> length st) (Unsupported ''throw tag %d needs %d operands, stack has %d'' [unat tagIdx, n, length st]))
    (lthen (lstack (take (length st - n) st))
    (lbind (lconst32 tagIdx) (\<lambda>tag. raiseAndGo tag (drop (length st - n) st))))))))"

end
