(* ===== verification/LowerFlow.thy ===== *)
theory LowerFlow
  imports LowerCtrl
begin

text \<open>
  The handlers of structured control, branches, returns and calls, the main loop over a function
  body with its unreachable regions, and the splicing of small callees, from
  \<^verbatim>\<open>internal/lower/lower.go\<close> and \<^verbatim>\<open>internal/lower/inline.go\<close>.
\<close>

section \<open>Blocks, loops and conditionals\<close>

definition handleBlock :: "unit low" where
  "handleBlock =
     lbind (lblocktype ''block blocktype %v: %w'') (\<lambda>results.
     lbind (lnewBlock BlockPlain) (\<lambda>postBlk.
     lbind lheight (\<lambda>h. lpushFrame (new_frame ctrlBlock postBlk postBlk (length results) h))))"

text \<open>A loop header starts with one phi per local, which knows its entry value only.\<close>

definition header_phi :: "Type list \<Rightarrow> nat \<times> nat \<Rightarrow> nat low" where
  "header_phi tys = (\<lambda>(i, v). lbind (lnth tys i) (\<lambda>ty. lvalue OpPhi ty 0 [v]))"

definition handleLoop :: "unit low" where
  "handleLoop =
     lbind (lblocktype ''loop blocktype %v: %w'') (\<lambda>results.
     lbind (lnewBlock BlockPlain) (\<lambda>header.
     lbind (lnewBlock BlockPlain) (\<lambda>postBlk.
     lthen (lgoto header)
    (lthen (lsetCurrent header)
    (lbind (lget (\<lambda>s. (ls_mutableLocals s, ls_locals s, ls_localTypes s))) (\<lambda>(mutableLocals, locals, tys).
     lthen (if mutableLocals then lret ()
            else lbind (lmap (header_phi tys) (enumerate 0 locals)) llocals)
    (lbind lheight (\<lambda>h. lpushFrame (new_frame ctrlLoop header postBlk (length results) h)))))))))"

definition handleIf :: "unit low" where
  "handleIf =
     lbind (lblocktype ''if blocktype %v: %w'') (\<lambda>results.
     lbind lpop (\<lambda>cond.
     lbind (lnewBlock BlockPlain) (\<lambda>thenBlk.
     lbind (lnewBlock BlockPlain) (\<lambda>elseBlk.
     lbind (lnewBlock BlockPlain) (\<lambda>postBlk.
     lthen (lkind BlockIf)
    (lthen (lcontrol cond)
    (lthen (ledge thenBlk)
    (lthen (ledge elseBlk)
    (lbind (lget (\<lambda>s. (length (ls_stack s), ls_locals s))) (\<lambda>(h, locals).
     lthen (lpushFrame ((new_frame ctrlIf postBlk postBlk (length results) h)
        \<lparr>cf_elseBlk := Some elseBlk, cf_entryLocals := locals\<rparr>))
     (lsetCurrent thenBlk)))))))))))"

text \<open>
  The slice \<^verbatim>\<open>ls.stack[:n]\<close>. Beyond the length of the stack, which validation excludes,
  Go reads stale elements of the backing array or panics; here it panics.
\<close>

definition lcut :: "nat \<Rightarrow> unit low" where
  "lcut n = lbind (lget ls_stack) (\<lambda>st.
     lthen (lcheck (n \<le> length st) (Panic ''slice bounds out of range'')) (lstack (take n st)))"

definition handleElse :: "unit low" where
  "handleElse =
     lbind (lget ls_ctrl) (\<lambda>ctrl.
     lthen (lcheck (ctrl \<noteq> [] \<and> cf_kind (last ctrl) = ctrlIf) (Unsupported ''else without matching if'' []))
    (let f = last ctrl in
     lbind ldeadNow (\<lambda>d.
     lthen (lwhen (\<not> d) (close_into (cf_target f) (cf_resultCount f)))
    (lthen (lcut (cf_stackHeightAtEntry f))
    (lthen (llocals (cf_entryLocals f))
    (lthen (lsetTop (f\<lparr>cf_haveElse := True\<rparr>))
    (lthen (ldead False)
    (lbind (lsome (cf_elseBlk f)) lsetCurrent))))))))"

section \<open>Branches\<close>

definition branch_to :: "ctrlFrame \<Rightarrow> nat \<Rightarrow> unit low" where
  "branch_to frame arity =
     lthen (recordIncoming (cf_target frame) arity)
       (lwhen (cf_kind frame = ctrlLoop) (appendLoopBackArgs (cf_target frame)))"

definition jump_to :: "ctrlFrame \<Rightarrow> unit low" where
  "jump_to frame =
     lthen (branch_to frame (branchArity frame)) (lthen (lgoto (cf_target frame)) (ldead True))"

definition handleBr :: "unit low" where
  "handleBr =
     lbind (lread irReadU32) (\<lambda>depth.
     lbind (lget (\<lambda>s. length (ls_ctrl s))) (\<lambda>n.
     lbind (lframe depth (Plain (Fail ''br %d: out of range (ctrl depth %d)'' [unat depth, n]))) jump_to))"

definition handleBrIf :: "unit low" where
  "handleBrIf =
     lbind (lread irReadU32) (\<lambda>depth.
     lbind (lget (\<lambda>s. length (ls_ctrl s))) (\<lambda>n.
     lbind (lframe depth (Plain (Fail ''br_if %d: out of range (ctrl depth %d)'' [unat depth, n]))) (\<lambda>frame.
     lbind lpop (\<lambda>cond.
     lbind (lnewBlock BlockPlain) (\<lambda>cont.
     lthen (branch_to frame (branchArity frame))
    (lthen (lkind BlockIf)
    (lthen (lcontrol cond)
    (lthen (ledge (cf_target frame))
    (lthen (ledge cont)
     (lsetCurrent cont))))))))))"

text \<open>
  A table without branch operands: one successor per target, which keeps the list of its cases. The
  association list plays \<^verbatim>\<open>succIdx\<close>.
\<close>

definition lcase :: "nat \<Rightarrow> (i32 list list \<Rightarrow> i32 list list) \<Rightarrow> unit low" where
  "lcase c g = lfunc (upd_blk c (\<lambda>b. b\<lparr>TableCases := g (TableCases b)\<rparr>))"

definition addTarget :: "ctrlFrame list \<Rightarrow> u32 \<Rightarrow> (nat \<times> nat) list \<Rightarrow> (nat \<times> (nat \<times> nat) list) low" where
  "addTarget ctrl depth succIdx =
     (let frame = ctrl ! (length ctrl - 1 - unat depth) in
      case map_of succIdx (cf_target frame) of
        Some si \<Rightarrow> lret (si, succIdx)
      | None \<Rightarrow>
          lbind lcurrent (\<lambda>c.
          lbind (lget (\<lambda>s. length (Succs (fblk (bf (ls_b s)) c)))) (\<lambda>si.
          lthen (branch_to frame 0)
         (lthen (ledge (cf_target frame))
         (lthen (lcase c (\<lambda>cs. cs @ [[]]))
          (lret (si, (cf_target frame, si) # succIdx)))))))"

fun addCases :: "ctrlFrame list \<Rightarrow> (nat \<times> u32) list \<Rightarrow> (nat \<times> nat) list \<Rightarrow> (nat \<times> nat) list low" where
  "addCases ctrl [] succIdx = lret succIdx"
| "addCases ctrl ((i, depth) # cs) succIdx =
     lbind (addTarget ctrl depth succIdx) (\<lambda>(si, succIdx).
     lbind lcurrent (\<lambda>c.
     lthen (lcase c (\<lambda>tcs. tcs[si := tcs ! si @ [word_of_nat i]]))
     (addCases ctrl cs succIdx)))"

text \<open>A table with branch operands: a comparison per case.\<close>

fun chainCases :: "ctrlFrame list \<Rightarrow> nat \<Rightarrow> (nat \<times> u32) list \<Rightarrow> unit low" where
  "chainCases ctrl sel [] = lret ()"
| "chainCases ctrl sel ((i, depth) # cs) =
     (let frame = ctrl ! (length ctrl - 1 - unat depth) in
      lbind (lnewBlock BlockPlain) (\<lambda>cont.
      lthen (branch_to frame (branchArity frame))
     (lbind (lconst32 (word_of_nat i)) (\<lambda>k.
      lbind (lvalue OpEq32 TypeBool 0 [sel, k]) (\<lambda>eq.
      lthen (lkind BlockIf)
     (lthen (lcontrol eq)
     (lthen (ledge (cf_target frame))
     (lthen (ledge cont)
     (lthen (lsetCurrent cont)
      (chainCases ctrl sel cs))))))))))"

definition handleBrTable :: "unit low" where
  "handleBrTable =
     lbind (lread irReadVecU32) (\<lambda>cases.
     lbind (lread irReadU32) (\<lambda>defaultDepth.
     lbind lpop (\<lambda>sel.
     lbind (lget ls_ctrl) (\<lambda>ctrl.
     let maxDepth = foldl max (unat defaultDepth) (map unat cases);
         frame = (\<lambda>depth. ctrl ! (length ctrl - 1 - unat depth));
         wantArity = branchArity (frame defaultDepth) in
     lthen (lcheck (maxDepth < length ctrl)
        (Plain (Fail ''br_table: depth %d out of range (ctrl depth %d)'' [maxDepth, length ctrl])))
    (lthen (lcheck (\<forall>d \<in> set cases. branchArity (frame d) = wantArity)
        (Unsupported ''br_table target %d has branch arity %d, default has %d'' []))
    (if wantArity = 0 then
       lthen (lkind BlockBrTable)
      (lthen (lcontrol sel)
      (lbind (addCases ctrl (enumerate 0 cases) []) (\<lambda>succIdx.
       lbind (addTarget ctrl defaultDepth succIdx) (\<lambda>(si, _).
       lbind lcurrent (\<lambda>c.
       lthen (lfunc (upd_blk c (\<lambda>b. b\<lparr>TableDefault := si\<rparr>)))
        (ldead True))))))
     else lthen (chainCases ctrl sel (enumerate 0 cases)) (jump_to (frame defaultDepth))))))))"

section \<open>Return\<close>

definition returnAsInlineBr :: "unit low" where
  "returnAsInlineBr =
     lbind (lget (\<lambda>s. (ls_inlineFrames s, ls_ctrl s, length (ls_stack s)))) (\<lambda>(frames, ctrl, h).
     lbind (lnth ctrl (if_ctrlIdx (last frames))) (\<lambda>frame.
     let nRes = cf_resultCount frame in
     lthen (lcheck (nRes \<le> h) (Plain (Fail ''inline return with %d stack values, expected %d'' [h, nRes])))
    (lthen (close_into (cf_target frame) nRes)
     (ldead True))))"

definition last_values :: "nat \<Rightarrow> nat list low" where
  "last_values n = lget (\<lambda>s. drop (length (ls_stack s) - n) (ls_stack s))"

definition handleReturn :: "unit low" where
  "handleReturn =
     lbind (lget (\<lambda>s. (ls_inlineFrames s, length (ls_stack s), length (Results (ls_ft s))))) (\<lambda>(frames, h, nRes).
     if frames \<noteq> [] then returnAsInlineBr
     else
       lthen (lcheck (nRes \<le> h) (Plain (Fail ''return with %d stack values, expected %d'' [h, nRes])))
      (lbind (last_values nRes) (\<lambda>rets.
       lthen (lkind BlockRet)
      (lthen (lfinishRet rets)
       (ldead True)))))"

section \<open>End\<close>

text \<open>The end of the function: the result tells that the loop over the body stops.\<close>

definition end_function :: "unit low" where
  "end_function =
     lbind (lget (\<lambda>s. (ls_unreachable s, ls_ft s, length (ls_stack s)))) (\<lambda>(dead, ft, h).
     let nRes = length (Results ft) in
     lbind lcurrent (\<lambda>c.
     lbind (lget (\<lambda>s. bKind (fblk (bf (ls_b s)) c))) (\<lambda>k.
     if dead then
       lwhen (k = BlockInvalid) (lbind (lmap (\<lambda>t. zeroValueOf (toSSAType t)) (Results ft)) lfinishRet)
     else
       lthen (lcheck (nRes \<le> h) (Unsupported ''function end with %d stack values, expected %d'' [h, nRes]))
      (lbind (last_values nRes) (\<lambda>rets. lthen (lkind BlockRet) (lfinishRet rets))))))"

text \<open>The edge of an \<open>if\<close> without \<open>else\<close> carries the locals of the entry.\<close>

definition implicit_else :: "ctrlFrame \<Rightarrow> unit low" where
  "implicit_else f =
     lthen (lcheck (cf_resultCount f = 0) (Unsupported ''if without else cannot have block results'' []))
    (lbind (lget (\<lambda>s. (ls_locals s, cur (ls_b s)))) (\<lambda>(savedLocals, prev).
     lbind (lsome (cf_elseBlk f)) (\<lambda>elseBlk.
     lthen (llocals (cf_entryLocals f))
    (lthen (lsetCurrent elseBlk)
    (lthen (recordIncoming (cf_target f) 0)
    (lthen (lmodify (\<lambda>s. s\<lparr>ls_b := (ls_b s)\<lparr>cur := prev\<rparr>, ls_locals := savedLocals\<rparr>))
     (lfunc (AddEdge elseBlk (cf_target f)))))))))"

definition end_if :: "ctrlFrame \<Rightarrow> unit low" where
  "end_if f =
     lbind ldeadNow (\<lambda>d.
     lthen (lwhen (\<not> d) (recordIncoming (cf_target f) (cf_resultCount f)))
    (lthen (lwhen (\<not> cf_haveElse f) (implicit_else f))
    (lthen (lwhen (\<not> d) (lgoto (cf_target f)))
     (enter_join (cf_target f) (cf_resultCount f) (cf_stackHeightAtEntry f)))))"

definition end_plain :: "nat \<Rightarrow> ctrlFrame \<Rightarrow> unit low" where
  "end_plain tgt f =
     lbind ldeadNow (\<lambda>d.
     lthen (lwhen (\<not> d) (close_into tgt (cf_resultCount f)))
     (enter_join tgt (cf_resultCount f) (cf_stackHeightAtEntry f)))"

text \<open>The chain block is cleared by \<^const>\<open>closeChain\<close>, so that nothing but the region is sealed.\<close>

definition end_try :: "ctrlFrame \<Rightarrow> unit low" where
  "end_try f =
     lthen (captureTryBody f)
    (lthen (closeChain f)
    (lthen (sealDeadExcBlocks (cf_tryRegion f) None)
     (end_plain (cf_target f) f)))"

definition end_frame :: "ctrlFrame \<Rightarrow> unit low" where
  "end_frame f =
     (case cf_kind f of
        ctrlIf \<Rightarrow> end_if f
      | ctrlBlock \<Rightarrow> end_plain (cf_target f) f
      | ctrlLoop \<Rightarrow> end_plain (cf_fallthrough f) f
      | ctrlTry \<Rightarrow> end_try f)"

definition handleEnd :: "bool low" where
  "handleEnd =
     lbind (lget ls_ctrl) (\<lambda>ctrl.
     if ctrl = [] then lthen end_function (lret True)
     else lthen lpopFrame (lthen (end_frame (last ctrl)) (lret False)))"

end
