(* ===== verification/Lower.thy ===== *)
theory Lower
  imports LowerFlow
begin

text \<open>
  Calls and their splicing (\<^verbatim>\<open>internal/lower/inline.go\<close>), the dispatch of one instruction and the
  loop over a function body with its unreachable regions (\<^verbatim>\<open>internal/lower/lower.go\<close>).
\<close>

section \<open>Which calls may raise\<close>

text \<open>A nil pointer is \<^const>\<open>None\<close>.\<close>

definition MayThrow :: "ThrowSet option \<Rightarrow> u32 \<Rightarrow> bool" where
  "MayThrow t idx = (case t of None \<Rightarrow> True | Some ts \<Rightarrow> idx \<in> ts_may ts)"

definition IndirectMayThrow :: "ThrowSet option \<Rightarrow> u32 \<Rightarrow> bool" where
  "IndirectMayThrow t idx = (case t of None \<Rightarrow> True | Some ts \<Rightarrow> idx \<in> ts_indirectTypes ts)"

definition AnyThrows :: "ThrowSet option \<Rightarrow> bool" where
  "AnyThrows t = (case t of None \<Rightarrow> False | Some ts \<Rightarrow> ts_may ts \<noteq> {})"

definition mayThrowCall :: "ThrowSet option \<Rightarrow> u32 \<Rightarrow> bool" where
  "mayThrowCall t idx \<longleftrightarrow> AnyThrows t \<and> MayThrow t idx"

definition mayThrowIndirect :: "ThrowSet option \<Rightarrow> u32 \<Rightarrow> bool" where
  "mayThrowIndirect t idx \<longleftrightarrow> AnyThrows t \<and> IndirectMayThrow t idx"

text \<open>Without a set no call is taken to raise, although a nil set is documented to mean that every call can.\<close>

lemma nil_throw_set: "MayThrow None idx \<and> \<not> mayThrowCall None idx"
  by (simp add: MayThrow_def mayThrowCall_def AnyThrows_def)

section \<open>Calls\<close>

definition inlineMaxBody :: nat where "inlineMaxBody = 4096"
definition inlineMaxProduct :: nat where "inlineMaxProduct = 131072"
definition inlineCallerBudget :: nat where "inlineCallerBudget = 65536"
definition inlineNonLeafMaxBody :: nat where "inlineNonLeafMaxBody = 512"

definition shouldInline :: "lowerState \<Rightarrow> u32 \<Rightarrow> FuncType \<Rightarrow> bool" where
  "shouldInline s funcIdx ft =
     (if ls_inlineFrames s \<noteq> [] then False
      else if funcIdx < NumImportedFuncs (ls_mod s) then False
      else if mayThrowCall (ls_throwSet s) funcIdx then False
      else if length (Results ft) > 1 then False
      else case ls_inlineInfo s funcIdx of
        None \<Rightarrow> False
      | Some info \<Rightarrow>
          if fi_hasTry info \<or> fi_noInline info then False
          else if \<not> fi_leaf info \<and>
              (fi_bodyBytes info > inlineNonLeafMaxBody \<or> fi_hasIndirect info \<or>
               (\<exists>c \<in> set (fi_innerCalls info). c < NumImportedFuncs (ls_mod s) \<or> mayThrowCall (ls_throwSet s) c))
            then False
          else if fi_bodyBytes info > inlineMaxBody then False
          else if fi_bodyBytes info * fi_sites info > inlineMaxProduct then False
          else \<not> ls_inlinedBytes s + fi_bodyBytes info > inlineCallerBudget)"

text \<open>The declared locals of a body: their zeros and their types.\<close>

fun lrep :: "nat \<Rightarrow> 'a low \<Rightarrow> 'a list low" where
  "lrep 0 m = lret []"
| "lrep (Suc n) m = lbind m (\<lambda>x. lbind (lrep n m) (\<lambda>xs. lret (x # xs)))"

fun declared_locals :: "string \<Rightarrow> nat \<Rightarrow> (nat list \<times> Type list) low" where
  "declared_locals what 0 = lret ([], [])"
| "declared_locals what (Suc n) =
     lbind (lread irReadU32) (\<lambda>count.
     lbind (lread irReadByte) (\<lambda>t.
     let st = toSSAType t in
     lthen (lcheck (st \<noteq> TypeInvalid) (Unsupported what [unat t]))
    (lbind (lrep (unat count) (zeroValueOf st)) (\<lambda>zs.
     lbind (declared_locals what n) (\<lambda>(vs, tys).
     lret (zs @ vs, replicate (unat count) st @ tys))))))"

fun skip_decls :: "nat \<Rightarrow> unit rd" where
  "skip_decls 0 = pret ()"
| "skip_decls (Suc n) = pbind irReadU32 (\<lambda>_. pbind irReadByte (\<lambda>_. skip_decls n))"

definition skipLocalDecls :: "unit rd" where
  "skipLocalDecls = pbind irReadU32 (\<lambda>n. skip_decls (unat n))"

text \<open>
  The body of the callee is lowered in place, as a block whose results are the callee's. The result
  of entering is the height of the control stack, to which the end of the callee's body pops it.
\<close>

definition enter_inline :: "u32 \<Rightarrow> FuncType \<Rightarrow> nat low" where
  "enter_inline funcIdx ft =
     lbind (lget ls_stack) (\<lambda>st.
     let n = length (Params ft) in
     lthen (lcheck (n \<le> length st)
        (Plain (Fail ''inline call fn%d: stack underflow (need %d, have %d)'' [unat funcIdx, n, length st])))
    (lthen (lstack (take (length st - n) st))
    (lbind (lget ls_mod) (\<lambda>m.
     lbind (lnth (Functions m) (unat (funcIdx - NumImportedFuncs m))) (\<lambda>fn.
     lthen (lcheck (\<forall>p \<in> set (Params ft). toSSAType p \<noteq> TypeInvalid)
        (Unsupported ''inline fn%d: param %d type %v'' [unat funcIdx]))
    (lthen (lmodify (\<lambda>s. s\<lparr>ls_rd := fn_Body fn\<rparr>))
    (lbind (lread irReadU32) (\<lambda>nDecls.
     lbind (declared_locals ''inline fn%d: local type 0x%02x'' (unat nDecls)) (\<lambda>(zs, zts).
     lbind (lnewBlock BlockPlain) (\<lambda>postBlk.
     lbind (lget (\<lambda>s. (length (ls_ctrl s), ls_ft s, ls_locals s, ls_localTypes s))) (\<lambda>(base, ft0, locals0, tys0).
     lbind lheight (\<lambda>h.
     lthen (lpushFrame (new_frame ctrlBlock postBlk postBlk (length (Results ft)) h))
    (lthen (lmodify (\<lambda>s. s\<lparr>ls_inlineFrames := ls_inlineFrames s @
          [\<lparr>if_ctrlIdx = base, if_savedFt = ft0, if_savedLocals = locals0, if_savedLocalTypes = tys0\<rparr>],
        ls_ft := ft, ls_locals := drop (length st - n) st @ zs,
        ls_localTypes := map toSSAType (Params ft) @ zts,
        ls_inlinedBytes := ls_inlinedBytes s + length (fn_Body fn)\<rparr>))
     (lret base))))))))))))))"

definition leave_inline :: "u32 \<Rightarrow> nat \<Rightarrow> byte list \<Rightarrow> unit low" where
  "leave_inline funcIdx base rd =
     lbind (lget ls_inlineFrames) (\<lambda>frames.
     let inf = last frames in
     lthen (lmodify (\<lambda>s. s\<lparr>ls_inlineFrames := butlast frames, ls_ft := if_savedFt inf,
        ls_locals := if_savedLocals inf, ls_localTypes := if_savedLocalTypes inf, ls_rd := rd\<rparr>))
    (lbind (lget (\<lambda>s. length (ls_ctrl s))) (\<lambda>k.
     lcheck (k = base) (Unsupported ''inline fn%d: control stack imbalance (%d != %d)'' [unat funcIdx, k, base]))))"

text \<open>\<open>body\<close> is \<^verbatim>\<open>lowerBodyUntil\<close>; the reader of the caller is taken up again afterwards.\<close>

definition lowerInlineCall :: "(nat \<Rightarrow> unit low) \<Rightarrow> u32 \<Rightarrow> FuncType \<Rightarrow> unit low" where
  "lowerInlineCall body funcIdx ft =
     lbind (lget ls_rd) (\<lambda>rd.
     lbind (enter_inline funcIdx ft) (\<lambda>base.
     lthen (body base) (leave_inline funcIdx base rd)))"

text \<open>Splitting off the arguments of a call.\<close>

definition call_args :: "nat \<Rightarrow> lower_error \<Rightarrow> nat list low" where
  "call_args n e =
     lbind (lget ls_stack) (\<lambda>st.
     lthen (lcheck (n \<le> length st) e)
    (lthen (lstack (take (length st - n) st)) (lret (drop (length st - n) st))))"

definition direct_call :: "u32 \<Rightarrow> FuncType \<Rightarrow> unit low" where
  "direct_call funcIdx ft =
     lbind (lget (\<lambda>s. (ls_mod s, length (ls_stack s)))) (\<lambda>(m, h).
     lbind (call_args (length (Params ft))
        (Plain (Fail ''call fn%d: stack underflow (need %d, have %d)'' [unat funcIdx, length (Params ft), h]))) (\<lambda>args.
     let resType = (case Results ft of [] \<Rightarrow> TypeMem | r # _ \<Rightarrow> toSSAType r);
         isImport = funcIdx < NumImportedFuncs m in
     lthen (lcheck (resType \<noteq> TypeInvalid) (Unsupported ''call result type %v unsupported'' []))
    (lbind (lvalue (if isImport then OpCallImport else OpCallDirect) resType (ucast funcIdx) args) (\<lambda>v.
     lthen (lwhen (length (Results ft) = 1) (lpush v))
    (lbind (lget (\<lambda>s. mayThrowCall (ls_throwSet s) funcIdx)) (\<lambda>throws.
     lwhen (\<not> isImport \<and> throws) emitExcCheck))))))"

definition handleCall :: "(u32 \<Rightarrow> FuncType \<Rightarrow> unit low) \<Rightarrow> unit low" where
  "handleCall inl =
     lbind (lread irReadU32) (\<lambda>funcIdx.
     lbind (lget ls_mod) (\<lambda>m.
     case FuncTypeOf m funcIdx of
       None \<Rightarrow> lfail (Panic ''index out of range'')
     | Some ft \<Rightarrow>
         lthen (lcheck (length (Results ft) \<le> 1) (Unsupported ''multi-result call (%d results)'' [length (Results ft)]))
        (lbind (lget (\<lambda>s. shouldInline s funcIdx ft)) (\<lambda>inline.
         if inline then inl funcIdx ft else direct_call funcIdx ft))))"

definition handleCallIndirect :: "unit low" where
  "handleCallIndirect =
     lbind (lread irReadU32) (\<lambda>typeIdx.
     lbind (lread irReadU32) (\<lambda>tableIdx.
     lbind (lget ls_mod) (\<lambda>m.
     lbind (lnth (Types m) (unat typeIdx)) (\<lambda>ft.
     lthen (lcheck (length (Results ft) \<le> 1) (Unsupported ''multi-result call_indirect'' []))
    (lbind (lget (\<lambda>s. length (ls_stack s))) (\<lambda>h.
     lthen (lcheck (1 + length (Params ft) \<le> h) (Plain (Fail ''call_indirect: stack underflow'' [])))
    (lbind lpop (\<lambda>tableArg.
     lbind (call_args (length (Params ft)) (Panic ''slice bounds out of range'')) (\<lambda>args.
     let resType = (case Results ft of [] \<Rightarrow> TypeMem | r # _ \<Rightarrow> toSSAType r) in
     lbind (lvalue OpCallIndirect resType (ucast typeIdx) (tableArg # args)) (\<lambda>v.
     lthen (lwhen (length (Results ft) = 1) (lpush v))
    (lbind (lget (\<lambda>s. mayThrowIndirect (ls_throwSet s) typeIdx)) (\<lambda>throws.
     lwhen throws emitExcCheck))))))))))))"

section \<open>One instruction\<close>

definition lower_unreachable :: "unit low" where
  "lower_unreachable = lthen (lkind BlockUnreachable) (ldead True)"

definition control_op :: "(u32 \<Rightarrow> FuncType \<Rightarrow> unit low) \<Rightarrow> byte \<Rightarrow> unit low option" where
  "control_op inl opc =
     (if opc = WOpEnd then Some (lthen handleEnd (lret ()))
      else if opc = WOpElse then Some handleElse
      else if opc = WOpIf then Some handleIf
      else if opc = WOpBlock then Some handleBlock
      else if opc = WOpLoop then Some handleLoop
      else if opc = WOpTry then Some handleTry
      else if opc = WOpCatch then Some handleCatch
      else if opc = WOpCatchAll then Some handleCatchAll
      else if opc = WOpBr then Some handleBr
      else if opc = WOpBrIf then Some handleBrIf
      else if opc = WOpBrTable then Some handleBrTable
      else if opc = WOpReturn then Some handleReturn
      else if opc = WOpThrow then Some handleThrow
      else if opc = WOpDelegate then Some handleDelegate
      else if opc = WOpRethrow then Some handleRethrow
      else if opc = WOpCall then Some (handleCall inl)
      else if opc = WOpCallIndirect then Some handleCallIndirect
      else if opc = WOpUnreachable then Some lower_unreachable
      else if opc = WOpSelect \<or> opc = WOpSelectT then Some (handleSelect opc)
      else None)"

definition plain_op :: "byte \<Rightarrow> unit low" where
  "plain_op opc =
     (if opc = WOpLocalGet then lower_localGet
      else if opc = WOpLocalSet then lower_localSet
      else if opc = WOpLocalTee then lower_localTee
      else if opc = WOpI32Const then lbind (lread irReadS32) (\<lambda>v. lbind (lconst32 v) lpush)
      else if opc = WOpI64Const then lbind (lread irReadS64) (\<lambda>v. lbind (lconst64 v) lpush)
      else if opc = WOpGlobalGet then lower_globalGet
      else if opc = WOpGlobalSet then lower_globalSet
      else if isMemoryOp opc then handleMemoryOp opc
      else if opc = WOpMemSize then lower_memSize
      else if opc = WOpMemGrow then lower_memGrow
      else if opc = WOpNop then lret ()
      else if opc = WOpDrop then lbind lpop (\<lambda>_. lret ())
      else if opc = WOpF32Const then lbind (lread irReadF32) (\<lambda>v. lbind (lvalue OpConstF32 TypeF32 (ucast v) []) lpush)
      else if opc = WOpF64Const then lbind (lread irReadF64) (\<lambda>v. lbind (lvalue OpConstF64 TypeF64 v []) lpush)
      else if isSimpleBinary opc then lower_simpleBinary opc
      else if isHelperBinary opc then lower_helperBinary opc
      else if opc = WOpI32Eqz \<or> opc = WOpI64Eqz then lower_eqz opc
      else if isHelperUnary opc then lower_helperUnary opc
      else if opc = OpPrefixFC then handleFCOp
      else if opc = OpPrefixFD then handleFDOp
      else if opc = OpPrefixFE then handleFEOp
      else unsupported ''opcode 0x%02x not implemented'' [unat opc])"

definition handleOp :: "(u32 \<Rightarrow> FuncType \<Rightarrow> unit low) \<Rightarrow> byte \<Rightarrow> unit low" where
  "handleOp inl opc = (case control_op inl opc of Some m \<Rightarrow> m | None \<Rightarrow> plain_op opc)"

section \<open>The loop over a body\<close>

text \<open>What happens to an instruction in an unreachable region. True stops the loop.\<close>

definition ldepth :: "(nat \<Rightarrow> nat) \<Rightarrow> unit low" where
  "ldepth g = lmodify (\<lambda>s. s\<lparr>ls_unreachableDepth := g (ls_unreachableDepth s)\<rparr>)"

definition lskip :: "byte \<Rightarrow> unit low" where
  "lskip opc = lread (SkipImmediates opc)"

definition lskip_unsupported :: "string \<Rightarrow> byte \<Rightarrow> unit low" where
  "lskip_unsupported what opc s =
     (case lskip opc s of Inl e \<Rightarrow> Inl (Unsupported what [unat opc]) | Inr r \<Rightarrow> Inr r)"

definition end_stops :: "nat option \<Rightarrow> bool low" where
  "end_stops baseCtrl =
     lbind handleEnd (\<lambda>fin. lget (\<lambda>s. fin \<or> (case baseCtrl of None \<Rightarrow> False | Some k \<Rightarrow> length (ls_ctrl s) = k)))"

definition dead_step :: "nat option \<Rightarrow> byte \<Rightarrow> bool low" where
  "dead_step baseCtrl opc =
     lbind (lget ls_unreachableDepth) (\<lambda>d.
     if opc \<in> {WOpBlock, WOpLoop, WOpIf, WOpTry} then
       lthen (ldepth Suc) (lthen (lskip_unsupported ''skipping unreachable block-open 0x%02x: %w'' opc) (lret False))
     else if opc = WOpElse then
       lthen (if d > 0 then lret () else handleElse) (lret False)
     else if opc = WOpCatch \<or> opc = WOpCatchAll then
       lthen (if d > 0 then lskip opc else if opc = WOpCatch then handleCatch else handleCatchAll) (lret False)
     else if opc = WOpDelegate then
       lthen (if d > 0 then lthen (ldepth (\<lambda>d. d - 1)) (lskip opc) else handleDelegate) (lret False)
     else if opc = WOpEnd then
       (if d > 0 then lthen (ldepth (\<lambda>d. d - 1)) (lret False) else end_stops baseCtrl)
     else lthen (lskip_unsupported ''skipping unreachable opcode 0x%02x: %w'' opc) (lret False))"

definition live_step :: "(u32 \<Rightarrow> FuncType \<Rightarrow> unit low) \<Rightarrow> nat option \<Rightarrow> byte \<Rightarrow> bool low" where
  "live_step inl baseCtrl opc =
     (if opc = WOpEnd then end_stops baseCtrl else lthen (handleOp inl opc) (lret False))"

definition body_step :: "(u32 \<Rightarrow> FuncType \<Rightarrow> unit low) \<Rightarrow> nat option \<Rightarrow> bool low" where
  "body_step inl baseCtrl =
     lbind (lread irReadByte) (\<lambda>opc.
     lbind ldeadNow (\<lambda>d. if d then dead_step baseCtrl opc else live_step inl baseCtrl opc))"

text \<open>Every step reads at least a byte; the fuel is the number of bytes that are left.\<close>

definition out_of_fuel :: lower_error where
  "out_of_fuel = Panic ''fuel''"

fun body_loop :: "nat \<Rightarrow> (u32 \<Rightarrow> FuncType \<Rightarrow> unit low) \<Rightarrow> nat option \<Rightarrow> unit low" where
  "body_loop 0 inl baseCtrl = lfail out_of_fuel"
| "body_loop (Suc n) inl baseCtrl =
     lbind (lget (\<lambda>s. ls_rd s = [])) (\<lambda>eof.
     if eof then unsupported ''function body ended without End'' []
     else lbind (body_step inl baseCtrl) (\<lambda>stop. if stop then lret () else body_loop n inl baseCtrl))"

definition lowerBodyUntil :: "(u32 \<Rightarrow> FuncType \<Rightarrow> unit low) \<Rightarrow> nat option \<Rightarrow> unit low" where
  "lowerBodyUntil inl baseCtrl = lbind (lget (\<lambda>s. length (ls_rd s))) (\<lambda>n. body_loop (Suc n) inl baseCtrl)"

text \<open>
  Inside a spliced body nothing is spliced (\<^const>\<open>shouldInline\<close>), so two levels are all there are; a third
  would be out of fuel.
\<close>

definition no_inline :: "u32 \<Rightarrow> FuncType \<Rightarrow> unit low" where
  "no_inline _ _ = lfail out_of_fuel"

definition inline_call :: "u32 \<Rightarrow> FuncType \<Rightarrow> unit low" where
  "inline_call = lowerInlineCall (\<lambda>base. lowerBodyUntil no_inline (Some base))"

definition lowerBody :: "unit low" where
  "lowerBody = lowerBodyUntil inline_call None"

end
