(* ===== verification/SsaDom.thy ===== *)
theory SsaDom
  imports SsaSem
begin

text \<open>
  Immediate dominators by the iterative algorithm of \<^verbatim>\<open>internal/ssa/verify.go\<close>
  (\<^verbatim>\<open>computeDominators\<close>) and \<^verbatim>\<open>internal/ssa/domtree.go\<close> (\<^verbatim>\<open>iterativeDom\<close>), over the nodes of any
  graph: the depth-first search that numbers the nodes, \<open>intersect\<close>, and the passes over the nodes
  until nothing changes. The loops are partial functions; none is a loop that does not end or a nil
  pointer that is followed. They are proved to end, with the dominators as their result.
\<close>

section \<open>Depth-first search\<close>

text \<open>
  The stack holds nodes with the number of successors already looked at, its top first. The result
  is the postorder.
\<close>

partial_function (option) dfs ::
  "('a \<Rightarrow> 'a list) \<Rightarrow> ('a \<times> nat) list \<Rightarrow> 'a list \<Rightarrow> 'a list \<Rightarrow> 'a list option" where
  "dfs succs stack seen post =
     (case stack of
        [] \<Rightarrow> Some post
      | (b, i) # rest \<Rightarrow>
          if i < length (succs b) then
            if succs b ! i \<in> set seen then dfs succs ((b, i + 1) # rest) seen post
            else dfs succs ((succs b ! i, 0) # (b, i + 1) # rest) (succs b ! i # seen) post
          else dfs succs rest seen (post @ [b]))"

definition rpo_from :: "('a \<Rightarrow> 'a list) \<Rightarrow> 'a \<Rightarrow> 'a list option" where
  "rpo_from succs root = map_option rev (dfs succs [(root, 0)] [root] [])"

text \<open>The number of a node in reverse postorder; a missing entry of the Go map reads as zero.\<close>

definition rpoNum :: "'a list \<Rightarrow> 'a \<Rightarrow> nat" where
  "rpoNum rpo b = (case map_of (zip rpo [0..<length rpo]) b of Some i \<Rightarrow> i | None \<Rightarrow> 0)"

section \<open>Intersecting two chains\<close>

partial_function (option) climb :: "('a \<Rightarrow> 'a option) \<Rightarrow> ('a \<Rightarrow> nat) \<Rightarrow> nat \<Rightarrow> 'a \<Rightarrow> 'a option" where
  "climb idom r k a = (if k < r a then Option.bind (idom a) (climb idom r k) else Some a)"

partial_function (option) intersect :: "('a \<Rightarrow> 'a option) \<Rightarrow> ('a \<Rightarrow> nat) \<Rightarrow> 'a \<Rightarrow> 'a \<Rightarrow> 'a option" where
  "intersect idom r a b =
     (if a = b then Some a
      else Option.bind (climb idom r (r b) a) (\<lambda>a.
           Option.bind (climb idom r (r a) b) (\<lambda>b. intersect idom r a b)))"

section \<open>The passes\<close>

text \<open>The inner option is the Go variable that is nil until a processed predecessor is met.\<close>

fun join_preds :: "('a \<Rightarrow> 'a option) \<Rightarrow> ('a \<Rightarrow> nat) \<Rightarrow> 'a list \<Rightarrow> 'a option \<Rightarrow> 'a option option" where
  "join_preds idom r [] acc = Some acc"
| "join_preds idom r (p # ps) acc =
     (if idom p = None then join_preds idom r ps acc
      else case acc of
        None \<Rightarrow> join_preds idom r ps (Some p)
      | Some n \<Rightarrow> Option.bind (intersect idom r p n) (\<lambda>n. join_preds idom r ps (Some n)))"

fun idom_pass :: "'a \<Rightarrow> ('a \<Rightarrow> 'a list) \<Rightarrow> ('a \<Rightarrow> nat) \<Rightarrow> 'a list \<Rightarrow> ('a \<Rightarrow> 'a option) \<Rightarrow> bool \<Rightarrow>
    (('a \<Rightarrow> 'a option) \<times> bool) option" where
  "idom_pass root preds r [] idom changed = Some (idom, changed)"
| "idom_pass root preds r (b # bs) idom changed =
     (if b = root then idom_pass root preds r bs idom changed
      else Option.bind (join_preds idom r (preds b) None) (\<lambda>new.
        if new \<noteq> None \<and> idom b \<noteq> new then idom_pass root preds r bs (idom(b := new)) True
        else idom_pass root preds r bs idom changed))"

partial_function (option) idom_loop ::
  "'a \<Rightarrow> ('a \<Rightarrow> 'a list) \<Rightarrow> ('a \<Rightarrow> nat) \<Rightarrow> 'a list \<Rightarrow> ('a \<Rightarrow> 'a option) \<Rightarrow> ('a \<Rightarrow> 'a option) option" where
  "idom_loop root preds r rpo idom =
     Option.bind (idom_pass root preds r rpo idom False) (\<lambda>(idom, changed).
       if changed then idom_loop root preds r rpo idom else Some idom)"

definition idoms :: "'a \<Rightarrow> ('a \<Rightarrow> 'a list) \<Rightarrow> 'a list \<Rightarrow> ('a \<Rightarrow> 'a option) option" where
  "idoms root preds rpo = idom_loop root preds (rpoNum rpo) rpo [root \<mapsto> root]"

text \<open>Walking up from a node: the closure \<^verbatim>\<open>dominates\<close>.\<close>

partial_function (option) chain_has :: "('a \<Rightarrow> 'a option) \<Rightarrow> 'a \<Rightarrow> 'a \<Rightarrow> bool option" where
  "chain_has idom a x =
     (if x = a then Some True
      else case idom x of
        None \<Rightarrow> Some False
      | Some y \<Rightarrow> if y = x then Some False else chain_has idom a y)"

declare dfs.simps [code] climb.simps [code] intersect.simps [code] idom_loop.simps [code] chain_has.simps [code]

section \<open>Paths\<close>

text \<open>The nodes a path from the root reaches without touching any node of a set.\<close>

inductive avoiding :: "'a \<Rightarrow> ('a \<Rightarrow> 'a list) \<Rightarrow> 'a set \<Rightarrow> 'a \<Rightarrow> bool" for root succs A where
  root: "root \<notin> A \<Longrightarrow> avoiding root succs A root"
| step: "avoiding root succs A b \<Longrightarrow> s \<in> set (succs b) \<Longrightarrow> s \<notin> A \<Longrightarrow> avoiding root succs A s"

lemma avoiding_not_mem: "avoiding root succs A b \<Longrightarrow> b \<notin> A"
  by (induction rule: avoiding.induct) auto

lemma avoiding_mono: "avoiding root succs A b \<Longrightarrow> B \<subseteq> A \<Longrightarrow> avoiding root succs B b"
  by (induction rule: avoiding.induct) (auto intro: avoiding.intros)

section \<open>The search\<close>

text \<open>
  What holds between two steps of the search: the postorder followed by the stack lists every node
  seen once, the root last, and each other node has a predecessor further on in this list.
\<close>

definition later_pred :: "('a \<Rightarrow> 'a list) \<Rightarrow> 'a list \<Rightarrow> bool" where
  "later_pred succs L \<longleftrightarrow>
     (\<forall>xs y ys. L = xs @ y # ys \<longrightarrow> ys \<noteq> [] \<longrightarrow> (\<exists>p \<in> set ys. y \<in> set (succs p)))"

definition dfs_inv :: "'a \<Rightarrow> ('a \<Rightarrow> 'a list) \<Rightarrow> ('a \<times> nat) list \<Rightarrow> 'a list \<Rightarrow> 'a list \<Rightarrow> bool" where
  "dfs_inv root succs stack seen post \<longleftrightarrow>
     (let L = post @ map fst stack in
      L \<noteq> [] \<and> last L = root \<and> distinct L \<and> set L = set seen \<and> later_pred succs L \<and>
      (\<forall>b \<in> set L. avoiding root succs {} b) \<and>
      (\<forall>b \<in> set post. set (succs b) \<subseteq> set seen) \<and>
      (\<forall>(b, i) \<in> set stack. i \<le> length (succs b) \<and> set (take i (succs b)) \<subseteq> set seen))"

lemma later_pred_insert:
  assumes "later_pred succs (xs @ b # ys)" and "s \<in> set (succs b)"
  shows "later_pred succs (xs @ s # b # ys)"
  unfolding later_pred_def
proof (intro allI impI)
  fix us y vs assume eq: "xs @ s # b # ys = us @ y # vs" and "vs \<noteq> []"
  consider (in_xs) ws where "xs = us @ y # ws" "vs = ws @ s # b # ys"
    | (here) "us = xs" "y = s" "vs = b # ys"
    | (after) ws where "us = xs @ s # ws" "b # ys = ws @ y # vs"
    using eq by (auto simp: append_eq_append_conv2 Cons_eq_append_conv append_eq_Cons_conv)
  then show "\<exists>p \<in> set vs. y \<in> set (succs p)"
  proof cases
    case in_xs
    then have "\<exists>p \<in> set (ws @ b # ys). y \<in> set (succs p)"
      using assms(1) unfolding later_pred_def by (metis append.assoc append_Cons append_is_Nil_conv list.distinct(1))
    then show ?thesis using in_xs by auto
  next
    case here
    then show ?thesis using assms(2) by simp
  next
    case after
    then have "xs @ b # ys = (xs @ ws) @ y # vs" by simp
    then show ?thesis using assms(1) \<open>vs \<noteq> []\<close> unfolding later_pred_def by metis
  qed
qed

lemma dfs_ends:
  assumes fin: "finite U" and closed: "\<And>b s. b \<in> U \<Longrightarrow> s \<in> set (succs b) \<Longrightarrow> s \<in> U"
    and inv: "dfs_inv root succs stack seen post" and sub: "set seen \<subseteq> U"
  shows "\<exists>post' seen'. dfs succs stack seen post = Some post' \<and> dfs_inv root succs [] seen' post'"
  using inv sub
proof (induction "(card (U - set seen), sum_list (map (\<lambda>(b, i). Suc (length (succs b)) - i) stack))"
    arbitrary: stack seen post rule: wf_induct_rule [OF wf_lex_prod [OF wf_less_than wf_less_than]])
  case 1
  note IH = 1(1)
  show ?case
  proof (cases stack)
    case Nil
    then show ?thesis using 1(2) by (auto simp: dfs.simps)
  next
    case (Cons top rest)
    obtain b i where top: "top = (b, i)" by (cases top)
    note st = Cons top
    have i: "i \<le> length (succs b)" "set (take i (succs b)) \<subseteq> set seen" and bU: "b \<in> U"
      using 1(2,3) st by (auto simp: dfs_inv_def Let_def)
    show ?thesis
    proof (cases "i < length (succs b)")
      case True
      let ?s = "succs b ! i"
      have sU: "?s \<in> U" and smem: "?s \<in> set (succs b)" using closed [OF bU] True by auto
      have take: "set (take (i + 1) (succs b)) = insert ?s (set (take i (succs b)))"
        using True by (simp add: take_Suc_conv_app_nth)
      show ?thesis
      proof (cases "?s \<in> set seen")
        case True
        have inv': "dfs_inv root succs ((b, i + 1) # rest) seen post"
          using 1(2) st True \<open>i < length (succs b)\<close> take i unfolding dfs_inv_def Let_def by auto
        have "((card (U - set seen), sum_list (map (\<lambda>(b, i). Suc (length (succs b)) - i) ((b, i + 1) # rest))),
            (card (U - set seen), sum_list (map (\<lambda>(b, i). Suc (length (succs b)) - i) stack))) \<in> less_than <*lex*> less_than"
          using \<open>i < length (succs b)\<close> st by simp
        from IH [OF this inv' 1(3)] show ?thesis
          using st True \<open>i < length (succs b)\<close> by (subst dfs.simps) simp
      next
        case False
        have "?s \<notin> set (post @ map fst stack)" using 1(2) False unfolding dfs_inv_def Let_def by blast
        then have "?s \<notin> set post" "?s \<noteq> b" "?s \<notin> fst ` set rest" using st by auto
        then have inv': "dfs_inv root succs ((?s, 0) # (b, i + 1) # rest) (?s # seen) post"
          using 1(2) st False \<open>i < length (succs b)\<close> take i smem
          unfolding dfs_inv_def Let_def by (auto simp: later_pred_insert intro: avoiding.step)
        have "card (U - set (?s # seen)) < card (U - set seen)"
          using fin sU False by (intro psubset_card_mono) auto
        then have "((card (U - set (?s # seen)), sum_list (map (\<lambda>(b, i). Suc (length (succs b)) - i) ((?s, 0) # (b, i + 1) # rest))),
            (card (U - set seen), sum_list (map (\<lambda>(b, i). Suc (length (succs b)) - i) stack))) \<in> less_than <*lex*> less_than"
          by simp
        from IH [OF this inv'] show ?thesis
          using st False \<open>i < length (succs b)\<close> 1(3) sU by (subst dfs.simps) simp
      qed
    next
      case False
      then have all: "take i (succs b) = succs b" using i(1) by simp
      have inv': "dfs_inv root succs rest seen (post @ [b])"
        using 1(2) st i all unfolding dfs_inv_def Let_def by auto
      have "((card (U - set seen), sum_list (map (\<lambda>(b, i). Suc (length (succs b)) - i) rest)),
          (card (U - set seen), sum_list (map (\<lambda>(b, i). Suc (length (succs b)) - i) stack))) \<in> less_than <*lex*> less_than"
        using False st i(1) by simp
      from IH [OF this inv' 1(3)] show ?thesis
        using st False by (subst dfs.simps) simp
    qed
  qed
qed

text \<open>The reverse postorder of a finite graph: what the passes need to know of it.\<close>

definition rpo_ok :: "'a \<Rightarrow> ('a \<Rightarrow> 'a list) \<Rightarrow> 'a list \<Rightarrow> bool" where
  "rpo_ok root succs rpo \<longleftrightarrow>
     rpo \<noteq> [] \<and> hd rpo = root \<and> distinct rpo \<and> set rpo = Collect (avoiding root succs {}) \<and>
     (\<forall>xs y ys. rpo = xs @ y # ys \<longrightarrow> xs \<noteq> [] \<longrightarrow> (\<exists>p \<in> set xs. y \<in> set (succs p)))"

lemma rpo_from_ok:
  assumes "finite U" and "\<And>b s. b \<in> U \<Longrightarrow> s \<in> set (succs b) \<Longrightarrow> s \<in> U" and "root \<in> U"
  shows "\<exists>rpo. rpo_from succs root = Some rpo \<and> rpo_ok root succs rpo"
proof -
  have "dfs_inv root succs [(root, 0)] [root] []"
    by (auto simp: dfs_inv_def later_pred_def Cons_eq_append_conv intro: avoiding.root)
  moreover have "set [root] \<subseteq> U" using assms(3) by simp
  ultimately have "\<exists>post seen. dfs succs [(root, 0)] [root] [] = Some post \<and> dfs_inv root succs [] seen post"
    using assms(2) by (intro dfs_ends [OF assms(1)])
  then obtain post seen where p: "dfs succs [(root, 0)] [root] [] = Some post"
      and inv: "dfs_inv root succs [] seen post"
    by blast
  have reach: "set post = Collect (avoiding root succs {})"
  proof
    show "set post \<subseteq> Collect (avoiding root succs {})" using inv by (auto simp: dfs_inv_def)
    have "b \<in> set post" if "avoiding root succs {} b" for b
      using that by (induction rule: avoiding.induct) (use inv in \<open>auto simp: dfs_inv_def\<close>)
    then show "Collect (avoiding root succs {}) \<subseteq> set post" by auto
  qed
  have "\<exists>p \<in> set xs. y \<in> set (succs p)" if "rev post = xs @ y # ys" "xs \<noteq> []" for xs y ys
  proof -
    have "post = rev ys @ y # rev xs" using that(1) by (simp add: rev_swap)
    then show ?thesis using inv that(2) unfolding dfs_inv_def Let_def later_pred_def
      by (metis append_Nil2 list.map(1) rev_is_Nil_conv set_rev)
  qed
  then have "rpo_ok root succs (rev post)"
    using inv reach unfolding rpo_ok_def dfs_inv_def Let_def by (simp add: hd_rev)
  then show ?thesis using p by (auto simp: rpo_from_def)
qed

section \<open>Chains\<close>

text \<open>
  A map that sends the root to itself and every other node it knows to a known node with a smaller
  number is a tree; the chain of a node is its way up.
\<close>

definition tree_ok :: "'a \<Rightarrow> ('a \<Rightarrow> nat) \<Rightarrow> ('a \<Rightarrow> 'a option) \<Rightarrow> bool" where
  "tree_ok root r D \<longleftrightarrow>
     D root = Some root \<and> r root = 0 \<and> inj_on r (dom D) \<and>
     (\<forall>v d. D v = Some d \<longrightarrow> v \<noteq> root \<longrightarrow> r d < r v \<and> d \<in> dom D)"

definition chain :: "('a \<Rightarrow> 'a option) \<Rightarrow> 'a \<Rightarrow> 'a set" where
  "chain D x = {y. (\<lambda>a b. D a = Some b)\<^sup>*\<^sup>* x y}"

lemma chain_refl [simp]: "x \<in> chain D x"
  by (simp add: chain_def)

lemma chain_step: "D x = Some d \<Longrightarrow> chain D x = insert x (chain D d)"
  unfolding chain_def by (auto elim: converse_rtranclpE intro: converse_rtranclp_into_rtranclp)

lemma chain_trans: "y \<in> chain D x \<Longrightarrow> z \<in> chain D y \<Longrightarrow> z \<in> chain D x"
  unfolding chain_def by auto

lemma chain_None: "D x = None \<Longrightarrow> chain D x = {x}"
  unfolding chain_def by (auto elim: converse_rtranclpE)

lemma tree_okD:
  assumes "tree_ok root r D" and "D v = Some d" and "v \<noteq> root"
  shows "r d < r v" and "d \<in> dom D"
  using assms by (auto simp: tree_ok_def)

lemma chain_root: "tree_ok root r D \<Longrightarrow> chain D root = {root}"
proof
  assume ok: "tree_ok root r D"
  have "y = root" if "(\<lambda>a b. D a = Some b)\<^sup>*\<^sup>* root y" for y
    using that by (induction rule: rtranclp_induct) (use ok in \<open>auto simp: tree_ok_def\<close>)
  then show "chain D root \<subseteq> {root}" by (auto simp: chain_def)
qed simp

text \<open>Induction from a known node to the root.\<close>

lemma tree_induct [consumes 2, case_names root step]:
  assumes ok: "tree_ok root r D" and "v \<in> dom D"
    and "P root" and "\<And>v d. v \<noteq> root \<Longrightarrow> D v = Some d \<Longrightarrow> r d < r v \<Longrightarrow> d \<in> dom D \<Longrightarrow> P d \<Longrightarrow> P v"
  shows "P v"
  using assms(2)
proof (induction "r v" arbitrary: v rule: less_induct)
  case less
  show ?case
  proof (cases "v = root")
    case False
    then obtain d where "D v = Some d" "r d < r v" "d \<in> dom D" using less.prems tree_okD [OF ok] by auto
    then show ?thesis using assms(4) [OF False] less.hyps by blast
  qed (simp add: assms(3))
qed

lemma chain_below:
  assumes "tree_ok root r D" and "x \<in> dom D" and "y \<in> chain D x"
  shows "y \<in> dom D" and "y \<noteq> x \<Longrightarrow> r y < r x"
proof -
  have "\<forall>y \<in> chain D x. y \<in> dom D \<and> (y \<noteq> x \<longrightarrow> r y < r x)"
    using assms(1,2)
  proof (induction rule: tree_induct)
    case root
    have "root \<in> dom D" using assms(1) by (auto simp: tree_ok_def)
    then show ?case using chain_root [OF assms(1)] by simp
  next
    case (step v d)
    then show ?case using chain_step [of D v d] by force
  qed
  then show "y \<in> dom D" and "y \<noteq> x \<Longrightarrow> r y < r x" using assms(3) by auto
qed

lemma chain_le: "tree_ok root r D \<Longrightarrow> x \<in> dom D \<Longrightarrow> y \<in> chain D x \<Longrightarrow> r y \<le> r x"
  using chain_below(2) [of root r D x y] by (cases "y = x") auto

lemma chain_has_root: "tree_ok root r D \<Longrightarrow> x \<in> dom D \<Longrightarrow> root \<in> chain D x"
  by (induction rule: tree_induct) (auto simp: chain_step)

lemma chain_linear:
  assumes ok: "tree_ok root r D" and "x \<in> dom D" and "y \<in> chain D x" and "z \<in> chain D x" and "r y \<le> r z"
  shows "y \<in> chain D z"
  using ok assms(2-4)
proof (induction rule: tree_induct)
  case root
  then show ?case using chain_root [OF ok] by simp
next
  case (step v d)
  have v: "v \<in> dom D" using step by auto
  show ?case
  proof (cases "z = v")
    case False
    then have "r z < r v" using chain_below(2) [OF ok v step.prems(2)] by simp
    then have "y \<noteq> v" using assms(5) by auto
    then show ?thesis using step.IH step.prems False chain_step [of D v d, OF step.hyps(2)] by simp
  qed (use step in simp)
qed

section \<open>Intersection is the meeting of chains\<close>

lemma climb_ok:
  assumes ok: "tree_ok root r D" and "a \<in> dom D"
  shows "\<exists>a'. climb D r k a = Some a' \<and> a' \<in> chain D a \<and> r a' \<le> k \<and> {y \<in> chain D a. r y \<le> k} = chain D a'"
  using ok assms(2)
proof (induction rule: tree_induct)
  case root
  have "r root = 0" using ok by (simp add: tree_ok_def)
  then have "{y. y = root \<and> r y \<le> k} = {root}" by auto
  then show ?case using \<open>r root = 0\<close> chain_root [OF ok] by (subst climb.simps) simp
next
  case (step v d)
  have v: "v \<in> dom D" using step by auto
  show ?case
  proof (cases "k < r v")
    case True
    then have "{y \<in> chain D v. r y \<le> k} = {y \<in> chain D d. r y \<le> k}"
      using chain_step [of D v d, OF step.hyps(2)] by auto
    then show ?thesis using step.IH True step.hyps(2) chain_step [of D v d, OF step.hyps(2)]
      by (subst climb.simps) auto
  next
    case False
    then have "{y \<in> chain D v. r y \<le> k} = chain D v" using chain_le [OF ok v] by force
    then show ?thesis using False by (subst climb.simps) simp
  qed
qed

lemma intersect_ok:
  assumes ok: "tree_ok root r D"
  shows "a \<in> dom D \<Longrightarrow> b \<in> dom D \<Longrightarrow>
    \<exists>n. intersect D r a b = Some n \<and> n \<in> dom D \<and> chain D n = chain D a \<inter> chain D b"
proof (induction "r a + r b" arbitrary: a b rule: less_induct)
  case less
  show ?case
  proof (cases "a = b")
    case True
    then show ?thesis using less.prems by (subst intersect.simps) auto
  next
    case False
    obtain a' where a': "climb D r (r b) a = Some a'" "a' \<in> chain D a" "r a' \<le> r b"
        "{y \<in> chain D a. r y \<le> r b} = chain D a'"
      using climb_ok [OF ok less.prems(1)] by blast
    obtain b' where b': "climb D r (r a') b = Some b'" "b' \<in> chain D b" "r b' \<le> r a'"
        "{y \<in> chain D b. r y \<le> r a'} = chain D b'"
      using climb_ok [OF ok less.prems(2)] by blast
    have dom: "a' \<in> dom D" "b' \<in> dom D"
      using chain_below(1) [OF ok less.prems(1) a'(2)] chain_below(1) [OF ok less.prems(2) b'(2)] by auto
    have eq: "chain D a' \<inter> chain D b' = chain D a \<inter> chain D b"
      using a'(4) b'(4) chain_le [OF ok less.prems(2)] chain_le [OF ok dom(1)] by blast
    have less': "r a' + r b' < r a + r b"
    proof (cases "a' = a \<and> b' = b")
      case True
      then have "r a = r b" using a'(3) b'(3) by simp
      then show ?thesis using ok False less.prems by (auto simp: tree_ok_def dest: inj_onD)
    next
      case False
      then show ?thesis
        using chain_below(2) [OF ok less.prems(1) a'(2)] chain_below(2) [OF ok less.prems(2) b'(2)]
          chain_le [OF ok less.prems(1) a'(2)] chain_le [OF ok less.prems(2) b'(2)] by fastforce
    qed
    show ?thesis using less.hyps [OF less' dom] a'(1) b'(1) False eq
      by (subst intersect.simps) simp
  qed
qed

lemma join_preds_ok:
  assumes ok: "tree_ok root r D" and "\<And>m. acc = Some m \<Longrightarrow> m \<in> dom D"
  shows "\<exists>res. join_preds D r ps acc = Some res \<and>
    (res = None \<longleftrightarrow> acc = None \<and> set ps \<inter> dom D = {}) \<and>
    (\<forall>n. res = Some n \<longrightarrow> n \<in> dom D \<and>
       chain D n = (case acc of None \<Rightarrow> UNIV | Some m \<Rightarrow> chain D m) \<inter> (\<Inter>p \<in> set ps \<inter> dom D. chain D p))"
  using assms(2)
proof (induction ps arbitrary: acc)
  case Nil
  then show ?case by (cases acc) auto
next
  case (Cons p ps)
  show ?case
  proof (cases "p \<in> dom D")
    case False
    then have "set (p # ps) \<inter> dom D = set ps \<inter> dom D" and "D p = None" by auto
    then show ?thesis using Cons.IH [OF Cons.prems] by simp
  next
    case True
    then have ins: "set (p # ps) \<inter> dom D = insert p (set ps \<inter> dom D)" and p: "D p \<noteq> None" by auto
    show ?thesis
    proof (cases acc)
      case None
      show ?thesis using Cons.IH [of "Some p"] True p None unfolding ins by (auto split: option.splits)
    next
      case (Some m)
      obtain n where "intersect D r p m = Some n" "n \<in> dom D" "chain D n = chain D p \<inter> chain D m"
        using intersect_ok [OF ok True, of m] Cons.prems [OF Some] by blast
      then show ?thesis using Cons.IH [of "Some n"] p Some unfolding ins by (auto simp: Int_assoc Int_left_commute)
    qed
  qed
qed

section \<open>The numbered graph\<close>

definition numbered :: "'a \<Rightarrow> ('a \<Rightarrow> 'a list) \<Rightarrow> ('a \<Rightarrow> 'a list) \<Rightarrow> 'a list \<Rightarrow> bool" where
  "numbered root succs preds rpo \<longleftrightarrow>
     rpo_ok root succs rpo \<and>
     (\<forall>b \<in> set rpo. \<forall>p \<in> set rpo. p \<in> set (preds b) \<longleftrightarrow> b \<in> set (succs p))"

lemma rpoNum_nth: "distinct rpo \<Longrightarrow> i < length rpo \<Longrightarrow> rpoNum rpo (rpo ! i) = i"
  unfolding rpoNum_def by (simp add: map_of_zip_nth)

lemma rpoNum_inj: "distinct rpo \<Longrightarrow> inj_on (rpoNum rpo) (set rpo)"
  by (rule inj_onI) (metis in_set_conv_nth rpoNum_nth)

lemma rpoNum_less: "distinct rpo \<Longrightarrow> b \<in> set rpo \<Longrightarrow> rpoNum rpo b < length rpo"
  by (metis in_set_conv_nth rpoNum_nth)

lemma rpo_ok_root:
  assumes "rpo_ok root succs rpo"
  shows "root \<in> set rpo" and "rpoNum rpo root = 0" and "v \<in> set rpo \<Longrightarrow> rpoNum rpo v = 0 \<Longrightarrow> v = root"
proof -
  obtain rest where rpo: "rpo = root # rest" and dist: "distinct rpo"
    using assms by (cases rpo) (auto simp: rpo_ok_def)
  show "root \<in> set rpo" using rpo by simp
  show z: "rpoNum rpo root = 0" using rpoNum_nth [OF dist, of 0] rpo by simp
  show "v \<in> set rpo \<Longrightarrow> rpoNum rpo v = 0 \<Longrightarrow> v = root"
    using rpoNum_inj [OF dist] z rpo by (auto dest: inj_onD)
qed

text \<open>A spanning tree: every node but the root picks a predecessor with a smaller number.\<close>

definition spanning :: "'a \<Rightarrow> ('a \<Rightarrow> 'a list) \<Rightarrow> 'a list \<Rightarrow> ('a \<Rightarrow> 'a option) \<Rightarrow> bool" where
  "spanning root preds rpo T \<longleftrightarrow>
     tree_ok root (rpoNum rpo) T \<and> dom T = set rpo \<and>
     (\<forall>v p. T v = Some p \<longrightarrow> v \<noteq> root \<longrightarrow> p \<in> set (preds v))"

lemma spanning_exists:
  assumes "numbered root succs preds rpo"
  shows "\<exists>T. spanning root preds rpo T"
proof -
  have ok: "rpo_ok root succs rpo" and dist: "distinct rpo"
    using assms by (auto simp: numbered_def rpo_ok_def)
  have "\<exists>p. p \<in> set rpo \<and> p \<in> set (preds v) \<and> rpoNum rpo p < rpoNum rpo v" if v: "v \<in> set rpo" "v \<noteq> root" for v
  proof -
    obtain xs ys where s: "rpo = xs @ v # ys" using v(1) by (meson split_list)
    then have "xs \<noteq> []" using v(2) ok by (auto simp: rpo_ok_def)
    then have "\<exists>p \<in> set xs. v \<in> set (succs p)" using ok s unfolding rpo_ok_def by blast
    then obtain p where p: "p \<in> set xs" "v \<in> set (succs p)" by blast
    obtain i where i: "i < length xs" "xs ! i = p" using p(1) by (auto simp: in_set_conv_nth)
    then have "rpoNum rpo p = i" using rpoNum_nth [OF dist, of i] s by (simp add: nth_append)
    moreover have "rpoNum rpo v = length xs" using rpoNum_nth [OF dist, of "length xs"] s by simp
    ultimately show ?thesis using p i s v(1) assms by (auto simp: numbered_def)
  qed
  then obtain par where par: "\<And>v. v \<in> set rpo \<Longrightarrow> v \<noteq> root \<Longrightarrow>
      par v \<in> set rpo \<and> par v \<in> set (preds v) \<and> rpoNum rpo (par v) < rpoNum rpo v"
    by metis
  let ?T = "\<lambda>v. if v = root then Some root else if v \<in> set rpo then Some (par v) else None"
  have dom: "dom ?T = set rpo" using rpo_ok_root(1) [OF ok] by (auto split: if_splits)
  have Tv: "?T v = Some p \<Longrightarrow> v \<noteq> root \<Longrightarrow> v \<in> set rpo \<and> p = par v" for v p
    by (simp split: if_splits)
  have "tree_ok root (rpoNum rpo) ?T"
    unfolding tree_ok_def dom
  proof (intro conjI allI impI)
    fix v d assume "?T v = Some d" "v \<noteq> root"
    then show "rpoNum rpo d < rpoNum rpo v" "d \<in> set rpo" using Tv par by blast+
  qed (simp_all add: rpo_ok_root(2) [OF ok] rpoNum_inj [OF dist])
  then have "spanning root preds rpo ?T"
    unfolding spanning_def dom using par Tv by blast
  then show ?thesis by blast
qed

definition dominates :: "'a \<Rightarrow> ('a \<Rightarrow> 'a list) \<Rightarrow> 'a \<Rightarrow> 'a \<Rightarrow> bool" where
  "dominates root succs a b \<longleftrightarrow> \<not> avoiding root succs {a} b"

lemma dominates_refl [simp]: "dominates root succs a a"
  by (auto simp: dominates_def dest: avoiding_not_mem)

lemma dominates_pred: "dominates root succs a b \<Longrightarrow> a \<noteq> b \<Longrightarrow> b \<in> set (succs p) \<Longrightarrow> dominates root succs a p"
  by (auto simp: dominates_def intro: avoiding.step)

text \<open>A dominator of a node with a smaller number than one of its tree ancestors dominates that ancestor.\<close>

lemma dominates_ancestor:
  assumes G: "numbered root succs preds rpo" and T: "spanning root preds rpo T"
    and "v \<in> set rpo" and "dominates root succs a v" and "u \<in> chain T v" and "rpoNum rpo a \<le> rpoNum rpo u"
    and "a \<in> set rpo"
  shows "dominates root succs a u"
proof -
  have tree: "tree_ok root (rpoNum rpo) T" and dom: "dom T = set rpo" using T by (auto simp: spanning_def)
  have "v \<in> dom T" using assms(3) dom by simp
  show ?thesis using tree \<open>v \<in> dom T\<close> assms(4,5)
  proof (induction rule: tree_induct)
    case root
    then show ?case using chain_root [OF tree] by simp
  next
    case (step v d)
    have v: "v \<in> dom T" using step.hyps by auto
    show ?case
    proof (cases "u = v")
      case False
      then have u: "u \<in> chain T d" using step.prems(2) chain_step [of T v d, OF step.hyps(2)] by simp
      then have "rpoNum rpo u < rpoNum rpo v" using chain_le [OF tree step.hyps(4)] step.hyps(3) by fastforce
      then have "a \<noteq> v" using assms(6) by auto
      moreover have "d \<in> set (preds v)" using T step.hyps(1,2) by (auto simp: spanning_def)
      then have "v \<in> set (succs d)" using G step.hyps(4) v dom by (auto simp: numbered_def)
      ultimately have "dominates root succs a d" using dominates_pred [OF step.prems(1)] by simp
      then show ?thesis using step.IH u by simp
    qed (use step.prems in simp)
  qed
qed

section \<open>The invariant of the passes\<close>

text \<open>
  \<open>i\<close> nodes have been visited in this pass. A known node's immediate dominator is a tree ancestor of
  its parent; the chain of a node visited in this pass lies in that of its parent; no node that
  is on the chains of all known predecessors has a larger number than the immediate dominator; and a strict
  dominator of a node is one of its immediate dominator.
\<close>

definition meets :: "('a \<Rightarrow> 'a list) \<Rightarrow> ('a \<Rightarrow> 'a option) \<Rightarrow> 'a \<Rightarrow> 'a set" where
  "meets preds D v = (\<Inter>p \<in> set (preds v) \<inter> dom D. chain D p)"

definition pass_inv ::
  "'a \<Rightarrow> ('a \<Rightarrow> 'a list) \<Rightarrow> ('a \<Rightarrow> 'a list) \<Rightarrow> 'a list \<Rightarrow> ('a \<Rightarrow> 'a option) \<Rightarrow> nat \<Rightarrow> ('a \<Rightarrow> 'a option) \<Rightarrow> bool" where
  "pass_inv root succs preds rpo T i D \<longleftrightarrow>
     tree_ok root (rpoNum rpo) D \<and> dom D \<subseteq> set rpo \<and>
     (\<forall>u \<in> set rpo. \<forall>v \<in> dom D. rpoNum rpo u \<le> rpoNum rpo v \<longrightarrow> u \<in> dom D) \<and>
     (\<forall>v \<in> set rpo. rpoNum rpo v < i \<longrightarrow> v \<in> dom D) \<and>
     (\<forall>v d p. D v = Some d \<longrightarrow> v \<noteq> root \<longrightarrow> T v = Some p \<longrightarrow> d \<in> chain T p) \<and>
     (\<forall>v p. v \<noteq> root \<longrightarrow> T v = Some p \<longrightarrow> rpoNum rpo v < i \<longrightarrow> chain D v \<subseteq> insert v (chain D p)) \<and>
     (\<forall>v d x. D v = Some d \<longrightarrow> v \<noteq> root \<longrightarrow> x \<in> meets preds D v \<longrightarrow> x = v \<or> rpoNum rpo x \<le> rpoNum rpo d) \<and>
     (\<forall>v d a. D v = Some d \<longrightarrow> v \<noteq> root \<longrightarrow> dominates root succs a v \<longrightarrow> a \<noteq> v \<longrightarrow> dominates root succs a d)"

lemma pass_invD:
  assumes "pass_inv root succs preds rpo T i D"
  shows "tree_ok root (rpoNum rpo) D" and "dom D \<subseteq> set rpo"
    and "u \<in> set rpo \<Longrightarrow> v \<in> dom D \<Longrightarrow> rpoNum rpo u \<le> rpoNum rpo v \<Longrightarrow> u \<in> dom D"
    and "v \<in> set rpo \<Longrightarrow> rpoNum rpo v < i \<Longrightarrow> v \<in> dom D"
    and "D v = Some d \<Longrightarrow> v \<noteq> root \<Longrightarrow> T v = Some p \<Longrightarrow> d \<in> chain T p"
    and "v \<noteq> root \<Longrightarrow> T v = Some p \<Longrightarrow> rpoNum rpo v < i \<Longrightarrow> chain D v \<subseteq> insert v (chain D p)"
    and "D v = Some d \<Longrightarrow> v \<noteq> root \<Longrightarrow> x \<in> meets preds D v \<Longrightarrow> x = v \<or> rpoNum rpo x \<le> rpoNum rpo d"
    and "D v = Some d \<Longrightarrow> v \<noteq> root \<Longrightarrow> dominates root succs a v \<Longrightarrow> a \<noteq> v \<Longrightarrow> dominates root succs a d"
  using assms unfolding pass_inv_def by blast+

lemma pass_inv_restart: "pass_inv root succs preds rpo T i D \<Longrightarrow> pass_inv root succs preds rpo T 0 D"
  unfolding pass_inv_def by simp

lemma pass_inv_start:
  assumes "numbered root succs preds rpo"
  shows "pass_inv root succs preds rpo T 0 [root \<mapsto> root]"
proof -
  have ok: "rpo_ok root succs rpo" using assms by (simp add: numbered_def)
  let ?D = "[root \<mapsto> root]"
  have only: "v = root" if "?D v = Some d" for v d using that by (simp split: if_splits)
  have dom: "dom ?D = {root}" by simp
  have low: "u = root" if "u \<in> set rpo" "v \<in> dom ?D" "rpoNum rpo u \<le> rpoNum rpo v" for u v
  proof -
    have "v = root" using that(2) unfolding dom by simp
    then have "rpoNum rpo u = 0" using that(3) rpo_ok_root(2) [OF ok] by simp
    then show ?thesis by (rule rpo_ok_root(3) [OF ok that(1)])
  qed
  have tree: "tree_ok root (rpoNum rpo) ?D"
    unfolding tree_ok_def dom
  proof (intro conjI allI impI)
    fix v d assume "?D v = Some d" "v \<noteq> root"
    then show "rpoNum rpo d < rpoNum rpo v" "d \<in> {root}" using only by blast+
  qed (simp_all add: rpo_ok_root(2) [OF ok])
  show ?thesis unfolding pass_inv_def
  proof (intro conjI allI ballI impI)
    show "dom ?D \<subseteq> set rpo" using rpo_ok_root(1) [OF ok] unfolding dom by simp
  next
    fix u v assume "u \<in> set rpo" "v \<in> dom ?D" "rpoNum rpo u \<le> rpoNum rpo v"
    then show "u \<in> dom ?D" using low unfolding dom by simp
  next
    fix v d x assume "?D v = Some d" "v \<noteq> root"
    then show "x = v \<or> rpoNum rpo x \<le> rpoNum rpo d" using only by blast
  next
    fix v d a assume "?D v = Some d" "v \<noteq> root"
    then show "dominates root succs a d" using only by blast
  next
    fix v d p assume "?D v = Some d" "v \<noteq> root"
    then show "d \<in> chain T p" using only by blast
  qed (simp_all add: tree)
qed

text \<open>Known chains consist of tree ancestors.\<close>

lemma chain_ancestors:
  assumes "spanning root preds rpo T" and inv: "pass_inv root succs preds rpo T i D" and "v \<in> dom D"
  shows "chain D v \<subseteq> chain T v"
  using pass_invD(1) [OF inv] assms(3)
proof (induction rule: tree_induct)
  case root
  then show ?case using chain_root [OF pass_invD(1) [OF inv]] by simp
next
  case (step v d)
  have "v \<in> set rpo" using step.hyps pass_invD(2) [OF inv] by auto
  then have "v \<in> dom T" using assms(1) by (simp add: spanning_def)
  then obtain p where p: "T v = Some p" by auto
  have "d \<in> chain T p" by (rule pass_invD(5) [OF inv step.hyps(2,1) p])
  then have "chain T d \<subseteq> chain T v" using chain_step [of T v p, OF p] by (auto intro: chain_trans)
  then show ?case using step.IH chain_step [of D v d, OF step.hyps(2)] by auto
qed

lemma dominators_on_chain:
  assumes "pass_inv root succs preds rpo T i D" and "v \<in> dom D" and "dominates root succs a v"
  shows "a \<in> chain D v"
  using pass_invD(1) [OF assms(1)] assms(2,3)
proof (induction rule: tree_induct)
  case root
  then have "a = root" by (auto simp: dominates_def intro: avoiding.root)
  then show ?case by simp
next
  case (step v d)
  then show ?case using pass_invD(8) [OF assms(1) step.hyps(2,1)] chain_step [of D v d, OF step.hyps(2)] by auto
qed

text \<open>In what has been visited, a chain passes through the chain of each tree ancestor.\<close>

lemma chain_of_ancestor:
  assumes T: "spanning root preds rpo T" and inv: "pass_inv root succs preds rpo T i D"
    and "v \<in> set rpo" and "rpoNum rpo v < i" and "d \<in> chain T v" and "x \<in> chain D v" and "rpoNum rpo x \<le> rpoNum rpo d"
  shows "x \<in> chain D d"
proof -
  have tree: "tree_ok root (rpoNum rpo) T" and dom: "dom T = set rpo" using T by (auto simp: spanning_def)
  have "v \<in> dom T" using assms(3) dom by simp
  show ?thesis using tree \<open>v \<in> dom T\<close> assms(4-6)
  proof (induction rule: tree_induct)
    case root
    then show ?case using chain_root [OF tree] by simp
  next
    case (step v p)
    show ?case
    proof (cases "d = v")
      case False
      then have d: "d \<in> chain T p" using step.prems(2) chain_step [of T v p, OF step.hyps(2)] by simp
      then have "rpoNum rpo d < rpoNum rpo v" using chain_le [OF tree step.hyps(4)] step.hyps(3) by fastforce
      then have "x \<noteq> v" using assms(7) by auto
      then have "x \<in> chain D p" using pass_invD(6) [OF inv step.hyps(1,2) step.prems(1)] step.prems(3) by auto
      then show ?thesis using step.IH d step.prems(1) step.hyps(3) by simp
    qed (use step.prems in simp)
  qed
qed

section \<open>One update\<close>

lemma tree_upd:
  assumes "tree_ok root r D" and "b \<noteq> root" and "n \<in> dom D" and "r n < r b" and "inj_on r (insert b (dom D))"
  shows "tree_ok root r (D(b \<mapsto> n))"
  using assms unfolding tree_ok_def by (auto split: if_splits)

lemma chain_upd_other:
  assumes "tree_ok root r D" and "v \<in> dom D" and "b \<notin> chain D v"
  shows "chain (D(b \<mapsto> n)) v = chain D v"
  using assms
proof (induction rule: tree_induct)
  case root
  then have "b \<noteq> root" by auto
  then have ok': "(D(b \<mapsto> n)) root = Some root" using assms(1) by (simp add: tree_ok_def)
  have "y = root" if "(\<lambda>x y. (D(b \<mapsto> n)) x = Some y)\<^sup>*\<^sup>* root y" for y
    using that by (induction rule: rtranclp_induct) (use ok' in auto)
  then show ?case using chain_root [OF assms(1)] by (auto simp: chain_def)
next
  case (step v d)
  have "b \<noteq> v" "b \<notin> chain D d" using step.prems chain_step [of D v d, OF step.hyps(2)] by auto
  have "(D(b \<mapsto> n)) v = Some d" using \<open>b \<noteq> v\<close> step.hyps(2) by simp
  show ?case
    unfolding chain_step [of D v d, OF step.hyps(2)] chain_step [of "D(b \<mapsto> n)" v d, OF \<open>(D(b \<mapsto> n)) v = Some d\<close>]
    by (rule arg_cong [OF step.IH [OF \<open>b \<notin> chain D d\<close>]])
qed

lemma chain_upd_self:
  assumes "tree_ok root r D" and "n \<in> dom D" and "r n < r b"
  shows "chain (D(b \<mapsto> n)) b = insert b (chain D n)"
proof -
  have "b \<notin> chain D n" using chain_le [OF assms(1,2)] assms(3) by fastforce
  then show ?thesis
    using chain_step [of "D(b \<mapsto> n)" b n] chain_upd_other [OF assms(1,2)] by simp
qed

lemma chain_upd_subset:
  assumes ok: "tree_ok root r D" and "n \<in> dom D" and "r n < r b" and "\<And>d. D b = Some d \<Longrightarrow> n \<in> chain D d"
    and "v \<in> dom D"
  shows "chain (D(b \<mapsto> n)) v \<subseteq> chain D v"
  using ok assms(5)
proof (induction rule: tree_induct)
  case root
  have "r root = 0" using ok by (simp add: tree_ok_def)
  then have "b \<noteq> root" using assms(3) by auto
  then have "b \<notin> chain D root" using chain_root [OF ok] by simp
  moreover have "root \<in> dom D" using ok by (auto simp: tree_ok_def)
  ultimately show ?case using chain_upd_other [OF ok, of root b n] by blast
next
  case (step v d)
  note cs = chain_step [of D v d, OF step.hyps(2)]
  show ?case
  proof (cases "v = b")
    case True
    then have "chain D n \<subseteq> chain D d" using assms(4) step.hyps(2) chain_trans [of n D d] by auto
    then show ?thesis unfolding True chain_upd_self [OF ok assms(2,3)] cs [unfolded True] by blast
  next
    case False
    then have "chain (D(b \<mapsto> n)) v = insert v (chain (D(b \<mapsto> n)) d)"
      using step.hyps(2) by (intro chain_step) simp
    then show ?thesis using cs step.IH by blast
  qed
qed

text \<open>The node that is visited: what the joined predecessors give, and that it is no larger than before.\<close>

lemma visit:
  assumes G: "numbered root succs preds rpo" and T: "spanning root preds rpo T"
    and inv: "pass_inv root succs preds rpo T i D"
    and b: "b \<in> set rpo" "rpoNum rpo b = i" "b \<noteq> root"
    and n: "n \<in> dom D" "chain D n = meets preds D b"
  shows "rpoNum rpo n < rpoNum rpo b" and "T b = Some p \<Longrightarrow> n \<in> chain D p"
    and "D b = Some d \<Longrightarrow> n \<in> chain D d"
proof -
  note tree = pass_invD(1) [OF inv]
  have treeT: "tree_ok root (rpoNum rpo) T" using T by (simp add: spanning_def)
  have "b \<in> dom T" using T b(1) by (simp add: spanning_def)
  then obtain q where q: "T b = Some q" by auto
  have qr: "rpoNum rpo q < rpoNum rpo b" "q \<in> set rpo" "q \<in> set (preds b)"
    using tree_okD [OF treeT q b(3)] T q b(3) by (auto simp: spanning_def)
  have qD: "q \<in> dom D" using pass_invD(4) [OF inv qr(2)] qr(1) b(2) by simp
  have nq: "n \<in> chain D q" using n(2) qr(3) qD chain_refl [of n D] unfolding meets_def by blast
  then show "T b = Some p \<Longrightarrow> n \<in> chain D p" using q by simp
  have "rpoNum rpo n \<le> rpoNum rpo q" by (rule chain_le [OF tree qD nq])
  then show lt: "rpoNum rpo n < rpoNum rpo b" using qr(1) by simp
  assume d: "D b = Some d"
  have "n \<in> meets preds D b" using n(2) chain_refl [of n D] by simp
  then have nd: "rpoNum rpo n \<le> rpoNum rpo d" using pass_invD(7) [OF inv d b(3)] lt by auto
  have "d \<in> chain T q" by (rule pass_invD(5) [OF inv d b(3) q])
  then show "n \<in> chain D d" using chain_of_ancestor [OF T inv qr(2) _ _ nq nd] qr(1) b(2) by simp
qed

lemma pass_inv_visit:
  assumes G: "numbered root succs preds rpo" and T: "spanning root preds rpo T"
    and inv: "pass_inv root succs preds rpo T i D"
    and b: "b \<in> set rpo" "rpoNum rpo b = i" "b \<noteq> root"
    and n: "n \<in> dom D" "chain D n = meets preds D b"
  shows "pass_inv root succs preds rpo T (Suc i) (D(b \<mapsto> n))"
proof -
  let ?D = "D(b \<mapsto> n)"
  note tree = pass_invD(1) [OF inv]
  note v = visit [OF G T inv b n]
  have dist: "distinct rpo" using G by (simp add: numbered_def rpo_ok_def)
  have eq: "u = w" if "u \<in> set rpo" "w \<in> set rpo" "rpoNum rpo u = rpoNum rpo w" for u w
    using rpoNum_inj [OF dist] that by (auto dest: inj_onD)
  have dom: "dom ?D = insert b (dom D)" by simp
  have sub: "insert b (dom D) \<subseteq> set rpo" using pass_invD(2) [OF inv] b(1) by simp
  have treeD: "tree_ok root (rpoNum rpo) ?D"
    using tree_upd [OF tree b(3) n(1) v(1)] rpoNum_inj [OF dist] sub by (meson inj_on_subset)
  have shrink: "chain ?D u \<subseteq> chain D u" if "u \<in> dom D" for u
    by (rule chain_upd_subset [OF tree n(1) v(1,3) that])
  have same: "chain ?D u = chain D u" if "u \<in> set rpo" "rpoNum rpo u < i" for u
  proof -
    have "u \<in> dom D" by (rule pass_invD(4) [OF inv that])
    moreover have "b \<notin> chain D u" using chain_le [OF tree calculation] that(2) b(2) by fastforce
    ultimately show ?thesis by (rule chain_upd_other [OF tree])
  qed
  have self: "chain ?D b = insert b (chain D n)" by (rule chain_upd_self [OF tree n(1) v(1)])
  have treeT: "tree_ok root (rpoNum rpo) T" and domT: "dom T = set rpo" using T by (simp_all add: spanning_def)
  have before: "u \<in> dom D" if "u \<in> set rpo" "rpoNum rpo u < i" for u by (rule pass_invD(4) [OF inv that])
  have meet: "meets preds ?D u \<subseteq> meets preds D u" for u
    unfolding meets_def using shrink dom by fastforce
  show ?thesis unfolding pass_inv_def
  proof (intro conjI allI ballI impI)
    show "tree_ok root (rpoNum rpo) ?D" by (rule treeD)
    show "dom ?D \<subseteq> set rpo" using sub dom by simp
  next
    fix u w assume u: "u \<in> set rpo" "w \<in> dom ?D" "rpoNum rpo u \<le> rpoNum rpo w"
    show "u \<in> dom ?D"
    proof (cases "w = b")
      case True
      then show ?thesis using u before [OF u(1)] eq [OF u(1) b(1)] b(2) dom by (cases "rpoNum rpo u < i") auto
    next
      case False
      then show ?thesis using u pass_invD(3) [OF inv u(1)] dom by simp
    qed
  next
    fix u assume "u \<in> set rpo" "rpoNum rpo u < Suc i"
    then show "u \<in> dom ?D" using before [of u] eq [of u b] b dom by (cases "rpoNum rpo u < i") auto
  next
    fix u d p assume u: "?D u = Some d" "u \<noteq> root" "T u = Some p"
    show "d \<in> chain T p"
    proof (cases "u = b")
      case True
      then have "d = n" using u(1) by simp
      have "n \<in> chain D p" using v(2) u(3) True by simp
      moreover have "p \<in> dom D" using before tree_okD [OF treeT u(3,2)] domT True b(2) by simp
      ultimately show ?thesis using chain_ancestors [OF T inv] \<open>d = n\<close> by blast
    qed (use u pass_invD(5) [OF inv] in simp)
  next
    fix u p assume u: "u \<noteq> root" "T u = Some p" "rpoNum rpo u < Suc i"
    have ur: "u \<in> set rpo" using u(2) domT by auto
    have p: "p \<in> set rpo" "rpoNum rpo p < rpoNum rpo u" using tree_okD [OF treeT u(2,1)] domT by auto
    show "chain ?D u \<subseteq> insert u (chain ?D p)"
    proof (cases "u = b")
      case True
      then have "chain D n \<subseteq> chain D p" using v(2) u(2) chain_trans [of n D p] by auto
      then show ?thesis using self same [OF p(1)] p(2) True b(2) by auto
    next
      case False
      then have "rpoNum rpo u < i" using u(3) eq [OF ur b(1)] b(2) by (cases "rpoNum rpo u = i") auto
      then show ?thesis using same [OF ur] same [OF p(1)] p(2) pass_invD(6) [OF inv u(1,2)] by simp
    qed
  next
    fix u d x assume u: "?D u = Some d" "u \<noteq> root" "x \<in> meets preds ?D u"
    have x: "x \<in> meets preds D u" using u(3) meet by auto
    show "x = u \<or> rpoNum rpo x \<le> rpoNum rpo d"
    proof (cases "u = b")
      case True
      then have "x \<in> chain D n" "d = n" using x n(2) u(1) by simp_all
      then show ?thesis using chain_le [OF tree n(1)] by simp
    qed (use u x pass_invD(7) [OF inv] in simp)
  next
    fix u d a assume u: "?D u = Some d" "u \<noteq> root" "dominates root succs a u" "a \<noteq> u"
    show "dominates root succs a d"
    proof (cases "u = b")
      case True
      have pred: "a \<in> chain D p" if "p \<in> set (preds b) \<inter> dom D" for p
      proof -
        have "b \<in> set (succs p)" using that G b(1) pass_invD(2) [OF inv] by (auto simp: numbered_def)
        then have "dominates root succs a p" using dominates_pred [OF u(3,4)] True by simp
        then show ?thesis using dominators_on_chain [OF inv] that by simp
      qed
      then have an: "a \<in> chain D n" unfolding n(2) meets_def by simp
      have "d = n" using u(1) True by simp
      have "n \<in> chain T b"
      proof -
        obtain p where p: "T b = Some p" using b(1) domT by blast
        have "n \<in> chain T p"
          using v(2) [OF p] chain_ancestors [OF T inv] before tree_okD [OF treeT p b(3)] domT b(2) by blast
        then show ?thesis using chain_step [of T b p, OF p] by simp
      qed
      moreover have "rpoNum rpo a \<le> rpoNum rpo n" by (rule chain_le [OF tree n(1) an])
      moreover have "a \<in> set rpo" using chain_below(1) [OF tree n(1) an] pass_invD(2) [OF inv] by auto
      ultimately show ?thesis
        using dominates_ancestor [OF G T b(1), of a n] u(3) True \<open>d = n\<close> by simp
    qed (use u pass_invD(8) [OF inv] in simp)
  qed
qed

section \<open>The passes end with the dominators\<close>

lemma pass_inv_root:
  assumes G: "numbered root succs preds rpo" and inv: "pass_inv root succs preds rpo T 0 D"
  shows "pass_inv root succs preds rpo T (Suc 0) D"
proof -
  have ok: "rpo_ok root succs rpo" using G by (simp add: numbered_def)
  have zero: "v = root" if "v \<in> set rpo" "rpoNum rpo v < Suc 0" for v
    using rpo_ok_root(3) [OF ok that(1)] that(2) by simp
  have root: "root \<in> dom D" using pass_invD(1) [OF inv] by (auto simp: tree_ok_def)
  have "chain D v \<subseteq> insert v (chain D p)" if "v \<noteq> root" "rpoNum rpo v < Suc 0" for v p
  proof (cases "v \<in> set rpo")
    case False
    then have "D v = None" using pass_invD(2) [OF inv] by auto
    then show ?thesis by (simp add: chain_None)
  qed (use zero that in blast)
  then have chains: "\<forall>v p. v \<noteq> root \<longrightarrow> T v = Some p \<longrightarrow> rpoNum rpo v < Suc 0 \<longrightarrow> chain D v \<subseteq> insert v (chain D p)"
    by simp
  have known: "\<forall>v \<in> set rpo. rpoNum rpo v < Suc 0 \<longrightarrow> v \<in> dom D" using zero root by blast
  show ?thesis using inv unfolding pass_inv_def by (elim conjE) (intro conjI known chains)
qed

definition weight :: "'a list \<Rightarrow> ('a \<Rightarrow> 'a option) \<Rightarrow> nat" where
  "weight rpo D = (\<Sum>v \<in> set rpo. case D v of None \<Rightarrow> length rpo | Some d \<Rightarrow> rpoNum rpo d)"

lemma weight_upd:
  assumes "b \<in> set rpo" and "rpoNum rpo n < (case D b of None \<Rightarrow> length rpo | Some d \<Rightarrow> rpoNum rpo d)"
  shows "weight rpo (D(b \<mapsto> n)) < weight rpo D"
  unfolding weight_def
proof (rule sum_strict_mono_ex1)
  show "\<forall>v \<in> set rpo. (case (D(b \<mapsto> n)) v of None \<Rightarrow> length rpo | Some d \<Rightarrow> rpoNum rpo d)
      \<le> (case D v of None \<Rightarrow> length rpo | Some d \<Rightarrow> rpoNum rpo d)"
    using assms(2) by auto
  show "\<exists>v \<in> set rpo. (case (D(b \<mapsto> n)) v of None \<Rightarrow> length rpo | Some d \<Rightarrow> rpoNum rpo d)
      < (case D v of None \<Rightarrow> length rpo | Some d \<Rightarrow> rpoNum rpo d)"
    using assms by (intro bexI [of _ b]) auto
qed simp

definition settled :: "('a \<Rightarrow> 'a list) \<Rightarrow> ('a \<Rightarrow> 'a option) \<Rightarrow> 'a \<Rightarrow> bool" where
  "settled preds D b \<longleftrightarrow> (\<exists>n. D b = Some n \<and> chain D n = meets preds D b)"

lemma joined:
  assumes G: "numbered root succs preds rpo" and T: "spanning root preds rpo T"
    and inv: "pass_inv root succs preds rpo T (rpoNum rpo b) D" and b: "b \<in> set rpo" "b \<noteq> root"
  shows "\<exists>n. join_preds D (rpoNum rpo) (preds b) None = Some (Some n) \<and> n \<in> dom D \<and> chain D n = meets preds D b"
proof -
  obtain res where res: "join_preds D (rpoNum rpo) (preds b) None = Some res"
      "res = None \<longleftrightarrow> set (preds b) \<inter> dom D = {}"
      "\<And>n. res = Some n \<Longrightarrow> n \<in> dom D \<and> chain D n = meets preds D b"
    using join_preds_ok [OF pass_invD(1) [OF inv], of None "preds b"] unfolding meets_def by auto
  have treeT: "tree_ok root (rpoNum rpo) T" and domT: "dom T = set rpo" using T by (simp_all add: spanning_def)
  obtain p where p: "T b = Some p" using b(1) domT by blast
  have "p \<in> set (preds b)" using T p b(2) by (simp add: spanning_def)
  moreover have "p \<in> dom D" using pass_invD(4) [OF inv] tree_okD [OF treeT p b(2)] domT by blast
  ultimately obtain n where "res = Some n" using res(2) by (cases res) auto
  then show ?thesis using res(1,3) by blast
qed

definition pass_result :: "'a \<Rightarrow> ('a \<Rightarrow> 'a list) \<Rightarrow> 'a list \<Rightarrow> 'a list \<Rightarrow> bool \<Rightarrow> ('a \<Rightarrow> 'a option) \<Rightarrow> bool \<Rightarrow> ('a \<Rightarrow> 'a option) \<Rightarrow> bool" where
  "pass_result root preds rpo bs ch D c D' \<longleftrightarrow>
     (c \<longrightarrow> ch \<and> weight rpo D' \<le> weight rpo D \<or> weight rpo D' < weight rpo D) \<and>
     (\<not> c \<longrightarrow> \<not> ch \<and> D' = D \<and> (\<forall>b \<in> set bs. b \<noteq> root \<longrightarrow> settled preds D b))"

lemma idom_pass_ok:
  assumes G: "numbered root succs preds rpo" and T: "spanning root preds rpo T"
  shows "pass_inv root succs preds rpo T i D \<Longrightarrow> rpo = pre @ bs \<Longrightarrow> length pre = i \<Longrightarrow>
    \<exists>D' c. idom_pass root preds (rpoNum rpo) bs D ch = Some (D', c) \<and>
      pass_inv root succs preds rpo T (length rpo) D' \<and> pass_result root preds rpo bs ch D c D'"
proof (induction bs arbitrary: i D pre ch)
  case Nil
  then show ?case by (auto simp: pass_result_def)
next
  case (Cons b bs)
  have ok: "rpo_ok root succs rpo" and dist: "distinct rpo" using G by (auto simp: numbered_def rpo_ok_def)
  have b: "b \<in> set rpo" using Cons.prems(2) by simp
  have rb: "rpoNum rpo b = i" using rpoNum_nth [OF dist, of i] Cons.prems(2,3) by auto
  have next_pre: "rpo = (pre @ [b]) @ bs" "length (pre @ [b]) = Suc i" using Cons.prems(2,3) by auto
  show ?case
  proof (cases "b = root")
    case True
    then have "i = 0" using rpo_ok_root(2) [OF ok] rb by simp
    then have "pass_inv root succs preds rpo T (Suc i) D" using pass_inv_root [OF G] Cons.prems(1) by simp
    from Cons.IH [OF this next_pre] show ?thesis using True by (auto simp: pass_result_def)
  next
    case False
    obtain n where n: "join_preds D (rpoNum rpo) (preds b) None = Some (Some n)" "n \<in> dom D"
        "chain D n = meets preds D b"
      using joined [OF G T _ b False] Cons.prems(1) rb by blast
    note v = visit [OF G T Cons.prems(1) b rb False n(2,3)]
    have inv': "pass_inv root succs preds rpo T (Suc i) (D(b \<mapsto> n))"
      by (rule pass_inv_visit [OF G T Cons.prems(1) b rb False n(2,3)])
    show ?thesis
    proof (cases "D b = Some n")
      case True
      then have "D(b \<mapsto> n) = D" by (simp add: fun_upd_idem)
      then have "pass_inv root succs preds rpo T (Suc i) D" using inv' by simp
      from Cons.IH [OF this next_pre, of ch] obtain D' c where r:
        "idom_pass root preds (rpoNum rpo) bs D ch = Some (D', c)"
        "pass_inv root succs preds rpo T (length rpo) D'"
        "pass_result root preds rpo bs ch D c D'"
        by blast
      have "settled preds D b" using True n(3) by (simp add: settled_def)
      then show ?thesis using r n(1) True False by (auto simp: pass_result_def)
    next
      case changed: False
      have "rpoNum rpo n < (case D b of None \<Rightarrow> length rpo | Some d \<Rightarrow> rpoNum rpo d)"
      proof (cases "D b")
        case None
        have "n \<in> set rpo" using n(2) pass_invD(2) [OF Cons.prems(1)] by auto
        then show ?thesis using rpoNum_less [OF dist] None by simp
      next
        case (Some d)
        have "d \<in> dom D" by (rule tree_okD(2) [OF pass_invD(1) [OF Cons.prems(1)] Some False])
        then have "rpoNum rpo n < rpoNum rpo d"
          using chain_below(2) [OF pass_invD(1) [OF Cons.prems(1)] _ v(3) [OF Some]] changed Some by auto
        then show ?thesis using Some by simp
      qed
      then have w: "weight rpo (D(b \<mapsto> n)) < weight rpo D" by (rule weight_upd [OF b])
      from Cons.IH [OF inv' next_pre, of True] obtain D' c where r:
        "idom_pass root preds (rpoNum rpo) bs (D(b \<mapsto> n)) True = Some (D', c)"
        "pass_inv root succs preds rpo T (length rpo) D'"
        "pass_result root preds rpo bs True (D(b \<mapsto> n)) c D'"
        by blast
      then have "pass_result root preds rpo (b # bs) ch D c D'"
        using w by (auto simp: pass_result_def)
      then show ?thesis using r(1,2) n(1) changed False by simp
    qed
  qed
qed

lemma idom_loop_ok:
  assumes G: "numbered root succs preds rpo" and T: "spanning root preds rpo T"
    and "pass_inv root succs preds rpo T 0 D"
  shows "\<exists>D'. idom_loop root preds (rpoNum rpo) rpo D = Some D' \<and>
    pass_inv root succs preds rpo T (length rpo) D' \<and> (\<forall>b \<in> set rpo. b \<noteq> root \<longrightarrow> settled preds D' b)"
  using assms(3)
proof (induction "weight rpo D" arbitrary: D rule: less_induct)
  case less
  obtain D' c where r: "idom_pass root preds (rpoNum rpo) rpo D False = Some (D', c)"
      "pass_inv root succs preds rpo T (length rpo) D'"
      "pass_result root preds rpo rpo False D c D'"
    using idom_pass_ok [OF G T less.prems, of "[]" rpo False] by auto
  show ?case
  proof (cases c)
    case True
    then show ?thesis
      using less.hyps [OF _ pass_inv_restart [OF r(2)]] r(1) r(3) [unfolded pass_result_def]
      by (subst idom_loop.simps) simp
  next
    case False
    then show ?thesis using r(1,2) r(3) [unfolded pass_result_def] by (subst idom_loop.simps) simp
  qed
qed

text \<open>What has settled is exact: a node no dominator of which is missed has no other node on its chain.\<close>

lemma settled_exact:
  assumes G: "numbered root succs preds rpo" and inv: "pass_inv root succs preds rpo T (length rpo) D"
    and settle: "\<And>b. b \<in> set rpo \<Longrightarrow> b \<noteq> root \<Longrightarrow> settled preds D b"
    and "avoiding root succs {a} b"
  shows "a \<notin> chain D b"
  using assms(4)
proof (induction rule: avoiding.induct)
  case root
  then show ?case using chain_root [OF pass_invD(1) [OF inv]] by simp
next
  case (step p b)
  have ok: "rpo_ok root succs rpo" and dist: "distinct rpo" using G by (auto simp: numbered_def rpo_ok_def)
  have "avoiding root succs {} p" using step.hyps(1) by (rule avoiding_mono) simp
  then have p: "p \<in> set rpo" and b: "b \<in> set rpo"
    using ok step.hyps(2) by (auto simp: rpo_ok_def intro: avoiding.step)
  show ?case
  proof (cases "b = root")
    case True
    then show ?thesis using chain_root [OF pass_invD(1) [OF inv]] step.hyps(3) by simp
  next
    case False
    obtain n where n: "D b = Some n" "chain D n = meets preds D b"
      using settle [OF b False] by (auto simp: settled_def)
    have "p \<in> dom D" using pass_invD(4) [OF inv p] rpoNum_less [OF dist p] by simp
    moreover have "p \<in> set (preds b)" using G b p step.hyps(2) by (simp add: numbered_def)
    ultimately have "a \<notin> chain D n" using step.IH unfolding n(2) meets_def by blast
    then show ?thesis using chain_step [of D b n, OF n(1)] step.hyps(3) by simp
  qed
qed

theorem idoms_exact:
  assumes G: "numbered root succs preds rpo"
  shows "\<exists>D. idoms root preds rpo = Some D \<and> dom D = set rpo \<and> tree_ok root (rpoNum rpo) D \<and>
    (\<forall>b \<in> set rpo. chain D b = {a. dominates root succs a b})"
proof -
  obtain T where T: "spanning root preds rpo T" using spanning_exists [OF G] by blast
  obtain D where D: "idoms root preds rpo = Some D"
      and inv: "pass_inv root succs preds rpo T (length rpo) D"
      and settle: "\<And>b. b \<in> set rpo \<Longrightarrow> b \<noteq> root \<Longrightarrow> settled preds D b"
    using idom_loop_ok [OF G T pass_inv_start [OF G]] by (auto simp: idoms_def)
  have dist: "distinct rpo" using G by (simp add: numbered_def rpo_ok_def)
  have dom: "dom D = set rpo"
    using pass_invD(2) [OF inv] pass_invD(4) [OF inv] rpoNum_less [OF dist] by auto
  moreover have "chain D b = {a. dominates root succs a b}" if "b \<in> set rpo" for b
    using settled_exact [OF G inv settle, of _ b] dominators_on_chain [OF inv, of b] that dom
    by (auto simp: dominates_def)
  ultimately show ?thesis using D pass_invD(1) [OF inv] by blast
qed

lemma chain_has_ok:
  assumes "tree_ok root r D" and "x \<in> dom D"
  shows "chain_has D a x = Some (a \<in> chain D x)"
  using assms
proof (induction rule: tree_induct)
  case root
  have "D root = Some root" using assms(1) by (simp add: tree_ok_def)
  then show ?case using chain_root [OF assms(1)] by (subst chain_has.simps) auto
next
  case (step v d)
  have "d \<noteq> v" using step.hyps(3) by auto
  then show ?case
    using step.IH step.hyps(2) chain_step [of D v d, OF step.hyps(2)] by (subst chain_has.simps) auto
qed

end
