(* ===== verification/SsaVerify.thy ===== *)
theory SsaVerify
  imports SsaDom SsaOrder
begin

text \<open>
  The verifier of \<^verbatim>\<open>internal/ssa/verify.go\<close> and the control-flow analyses of
  \<^verbatim>\<open>internal/ssa/domtree.go\<close>. The result of \<open>Verify\<close> is \<^const>\<open>None\<close> if one of its loops did not end.
\<close>

section \<open>Dominators of a function\<close>

definition succ_blocks :: "Func \<Rightarrow> nat \<Rightarrow> nat list" where
  "succ_blocks f b = map eBlock (Succs (fblk f b))"

definition pred_blocks :: "Func \<Rightarrow> nat \<Rightarrow> nat list" where
  "pred_blocks f b = map eBlock (Preds (fblk f b))"

definition computeDominators :: "Func \<Rightarrow> nat \<Rightarrow> (nat \<Rightarrow> nat option) option" where
  "computeDominators f entry =
     Option.bind (rpo_from (succ_blocks f) entry) (idoms entry (pred_blocks f))"

section \<open>Checks\<close>

text \<open>A check and the error it gives when it fails; the first failure is the result.\<close>

type_synonym check = "bool option \<times> go_error"

fun first_fail :: "check list \<Rightarrow> unit res option" where
  "first_fail [] = Some (Inr ())"
| "first_fail ((ok, e) # cs) =
     (case ok of None \<Rightarrow> None | Some True \<Rightarrow> first_fail cs | Some False \<Rightarrow> Some (Inl e))"

definition chk :: "bool \<Rightarrow> string \<Rightarrow> nat list \<Rightarrow> check" where
  "chk c msg as = (Some c, Fail msg as)"

definition dup_checks :: "Func \<Rightarrow> check list" where
  "dup_checks f = map (\<lambda>i. chk (Blocks f ! i \<notin> set (take i (Blocks f)))
     ''verify %s: duplicate block id b%d'' [Blocks f ! i]) [0..<length (Blocks f)]"

definition succ_checks :: "Func \<Rightarrow> nat \<Rightarrow> check list" where
  "succ_checks f b = concat (map (\<lambda>e.
     [chk (eIndex e < length (Preds (fblk f (eBlock e))))
        ''verify %s: b%d->b%d succ edge index %d out of range'' [b, eBlock e, eIndex e],
      chk (eBlock (Preds (fblk f (eBlock e)) ! eIndex e) = b)
        ''verify %s: b%d->b%d edge asymmetric'' [b, eBlock e]]) (Succs (fblk f b)))"

definition pred_checks :: "Func \<Rightarrow> nat \<Rightarrow> check list" where
  "pred_checks f b = concat (map (\<lambda>e.
     [chk (eIndex e < length (Succs (fblk f (eBlock e))))
        ''verify %s: b%d pred-edge from b%d index %d out of range'' [b, eBlock e, eIndex e],
      chk (eBlock (Succs (fblk f (eBlock e)) ! eIndex e) = b)
        ''verify %s: b%d pred from b%d asymmetric'' [b, eBlock e]]) (Preds (fblk f b)))"

definition table_checks :: "Block \<Rightarrow> nat \<Rightarrow> check list" where
  "table_checks blk b = concat (map (\<lambda>si.
     chk (eBlock (Succs blk ! si) \<notin> set (map eBlock (take si (Succs blk))))
        ''verify %s: BrTable b%d successor b%d appears twice (targets must be deduped)'' [b, eBlock (Succs blk ! si)] #
     map (\<lambda>j. chk (TableCases blk ! si ! j \<notin> set (concat (take si (TableCases blk)) @ take j (TableCases blk ! si)))
        ''verify %s: BrTable b%d selector value %d routed twice'' [b, unat (TableCases blk ! si ! j)])
       [0..<length (TableCases blk ! si)]) [0..<length (TableCases blk)])"

definition kind_checks :: "Func \<Rightarrow> nat \<Rightarrow> check list" where
  "kind_checks f b =
     (let blk = fblk f b; n = length (Succs blk) in
      case bKind blk of
        BlockPlain \<Rightarrow> [chk (n = 1) ''verify %s: Plain b%d has %d successors (want 1)'' [b, n]]
      | BlockIf \<Rightarrow> [chk (n = 2) ''verify %s: If b%d has %d successors (want 2)'' [b, n],
                   chk (Control blk \<noteq> None) ''verify %s: If b%d has nil Control'' [b]]
      | BlockRet \<Rightarrow> [chk (n = 0) ''verify %s: Ret b%d has %d successors (want 0)'' [b, n]]
      | BlockUnreachable \<Rightarrow> []
      | BlockThrow \<Rightarrow> [chk (n = 0) ''verify %s: Throw b%d has %d successors (want 0)'' [b, n]]
      | BlockBrTable \<Rightarrow>
          [chk (n \<noteq> 0) ''verify %s: BrTable b%d has no successors'' [b],
           chk (Control blk \<noteq> None) ''verify %s: BrTable b%d has nil Control'' [b],
           chk (vTyp (fval f (the (Control blk))) \<in> {TypeI32, TypeBool})
             ''verify %s: BrTable b%d selector v%d has type %v (want i32)'' [b, the (Control blk)],
           chk (length (TableCases blk) = n)
             ''verify %s: BrTable b%d has %d case lists for %d successors'' [b, length (TableCases blk), n],
           chk (TableDefault blk < n)
             ''verify %s: BrTable b%d default index %d out of range (%d succs)'' [b, TableDefault blk, n]] @
          table_checks blk b
      | BlockInvalid \<Rightarrow> [chk False ''verify %s: b%d has invalid kind %v'' [b]])"

definition value_checks :: "Func \<Rightarrow> nat \<Rightarrow> check list" where
  "value_checks f b = concat (map (\<lambda>i.
     let v = Values (fblk f b) ! i; as = vArgs (fval f v) in
     (if vOp (fval f v) = OpPhi then
        [chk (\<forall>w \<in> set (take i (Values (fblk f b))). vOp (fval f w) = OpPhi)
           ''verify %s: b%d phi v%d appears after a non-phi value'' [b, v],
         chk (length as = length (Preds (fblk f b)))
           ''verify %s: b%d phi v%d has %d args but block has %d preds'' [b, v, length as, length (Preds (fblk f b))]]
      else []) @
     map (\<lambda>ai. chk (as ! ai \<noteq> None) ''verify %s: v%d (%s) arg %d is nil'' [v, ai]) [0..<length as] @
     [chk (vBlock (fval f v) = Some b) ''verify %s: v%d listed in b%d but Block is b%d'' [v, b]])
     [0..<length (Values (fblk f b))])"

definition block_checks :: "Func \<Rightarrow> nat \<Rightarrow> check list" where
  "block_checks f b = succ_checks f b @ pred_checks f b @ kind_checks f b @ value_checks f b"

section \<open>Reachability\<close>

partial_function (option) reach_loop :: "('a \<Rightarrow> 'a list) \<Rightarrow> 'a list \<Rightarrow> 'a list \<Rightarrow> 'a list option" where
  "reach_loop succs stack reached =
     (case stack of
        [] \<Rightarrow> Some reached
      | b # rest \<Rightarrow>
          if b \<in> set reached then reach_loop succs rest reached
          else reach_loop succs (rev (succs b) @ rest) (b # reached))"

declare reach_loop.simps [code]

definition reach_check :: "Func \<Rightarrow> nat \<Rightarrow> check" where
  "reach_check f entry =
     (map_option (\<lambda>reached. filter (\<lambda>b. b \<notin> set reached) (Blocks f) = []) (reach_loop (succ_blocks f) [entry] []),
      Fail ''verify %s: blocks unreachable from entry: %s'' [])"

section \<open>Uses\<close>

definition def_values :: "Func \<Rightarrow> (nat \<Rightarrow> nat option) \<Rightarrow> nat \<Rightarrow> nat \<Rightarrow> nat option" where
  "def_values f m b = foldl (\<lambda>m v. m(v \<mapsto> b)) m (Values (fblk f b))"

definition defBlock :: "Func \<Rightarrow> nat \<Rightarrow> nat option" where
  "defBlock f = foldl (def_values f) Map.empty (Blocks f)"

definition posInBlock :: "Func \<Rightarrow> nat \<Rightarrow> nat \<Rightarrow> nat" where
  "posInBlock f b a =
     (case map_of (rev (zip (Values (fblk f b)) [0..<length (Values (fblk f b))])) a of Some i \<Rightarrow> i | None \<Rightarrow> 0)"

definition use_checks :: "Func \<Rightarrow> (nat \<Rightarrow> nat option) \<Rightarrow> nat \<Rightarrow> nat \<Rightarrow> nat \<Rightarrow> check list" where
  "use_checks f idom b vi ai =
     (let v = Values (fblk f b) ! vi; a = the (vArgs (fval f v) ! ai); db = defBlock f a in
      chk (db \<noteq> None) ''verify %s: v%d arg %d (v%d) has no defining block'' [v, ai, a] #
      (if vOp (fval f v) = OpPhi then
         let pred = eBlock (Preds (fblk f b) ! ai) in
         [chk (ai < length (Preds (fblk f b))) ''verify %s: phi v%d arg index %d exceeds preds'' [v, ai],
          (if db = Some pred then Some True else chain_has idom (the db) pred,
           Fail ''verify %s: phi v%d in b%d: arg %d does not dominate pred'' [v, b, ai])]
       else if db = Some b then
         [chk (posInBlock f b a < vi) ''verify %s: v%d uses v%d defined later in same block b%d'' [v, a, b]]
       else
         [(chain_has idom (the db) b,
           Fail ''verify %s: v%d in b%d uses v%d whose def block b%d does not dominate b%d'' [v, b, a])]))"

definition control_checks :: "Func \<Rightarrow> (nat \<Rightarrow> nat option) \<Rightarrow> nat \<Rightarrow> check list" where
  "control_checks f idom b =
     (case Control (fblk f b) of
        None \<Rightarrow> []
      | Some c \<Rightarrow>
          (case defBlock f c of
             None \<Rightarrow> []
           | Some db \<Rightarrow>
               if db = b then []
               else [(chain_has idom db b,
                      Fail ''verify %s: b%d control v%d def block b%d does not dominate b%d'' [b, c, db])]))"

definition dominance_checks :: "Func \<Rightarrow> (nat \<Rightarrow> nat option) \<Rightarrow> check list" where
  "dominance_checks f idom = concat (map (\<lambda>b.
     concat (map (\<lambda>vi. concat (map (use_checks f idom b vi) [0..<length (vArgs (fval f (Values (fblk f b) ! vi)))]))
       [0..<length (Values (fblk f b))]) @
     control_checks f idom b) (Blocks f))"

definition verifyUseDominance :: "Func \<Rightarrow> nat \<Rightarrow> unit res option" where
  "verifyUseDominance f entry =
     Option.bind (computeDominators f entry) (\<lambda>idom. first_fail (dominance_checks f idom))"

definition Verify :: "Func \<Rightarrow> unit res option" where
  "Verify f =
     (case Entry f of
        None \<Rightarrow> Some (Inl (Fail ''verify %s: no entry block'' []))
      | Some entry \<Rightarrow>
          Option.bind (first_fail (dup_checks f @ concat (map (block_checks f) (Blocks f)) @ [reach_check f entry]))
            (\<lambda>r. case r of Inl e \<Rightarrow> Some (Inl e) | Inr _ \<Rightarrow> verifyUseDominance f entry))"

section \<open>Pruning\<close>

definition prunable :: "Func \<Rightarrow> nat \<Rightarrow> bool" where
  "prunable f b \<longleftrightarrow> Entry f \<noteq> Some b \<and> Preds (fblk f b) = [] \<and> Succs (fblk f b) = []"

text \<open>No edge is removed with a block, so the second round of the Go loop finds nothing left to remove.\<close>

definition PruneDeadBlocks :: "Func \<Rightarrow> Func" where
  "PruneDeadBlocks f = f\<lparr>Blocks := filter (\<lambda>b. \<not> prunable f b) (Blocks f)\<rparr>"

section \<open>The analyses of domtree.go\<close>

definition rpo_preds :: "('a \<Rightarrow> 'a list) \<Rightarrow> 'a list \<Rightarrow> 'a \<Rightarrow> 'a list" where
  "rpo_preds succs rpo b = concat (map (\<lambda>p. map (\<lambda>_. p) (filter (\<lambda>s. s = b) (succs p))) rpo)"

definition iterativeDom :: "'a \<Rightarrow> ('a \<Rightarrow> 'a list) \<Rightarrow> ('a \<Rightarrow> 'a option) option" where
  "iterativeDom root succs = Option.bind (rpo_from succs root) (\<lambda>rpo. idoms root (rpo_preds succs rpo) rpo)"

definition Dominators :: "Func \<Rightarrow> (nat \<Rightarrow> nat option) option" where
  "Dominators f = (case Entry f of None \<Rightarrow> None | Some e \<Rightarrow> iterativeDom e (succ_blocks f))"

text \<open>The virtual exit is \<^const>\<open>None\<close>; its successors in the reversed graph are the exits.\<close>

definition exit_blocks :: "Func \<Rightarrow> nat list" where
  "exit_blocks f = filter (\<lambda>b. bKind (fblk f b) = BlockRet \<or> bKind (fblk f b) = BlockUnreachable \<or> Succs (fblk f b) = [])
     (Blocks f)"

definition rev_succs :: "Func \<Rightarrow> nat option \<Rightarrow> nat option list" where
  "rev_succs f b = (case b of None \<Rightarrow> map Some (exit_blocks f) | Some b \<Rightarrow> map Some (pred_blocks f b))"

definition PostDominators :: "Func \<Rightarrow> (nat \<Rightarrow> nat option) option" where
  "PostDominators f =
     map_option (\<lambda>idom b. if b \<in> set (Blocks f) then Option.bind (idom (Some b)) (\<lambda>d. d) else None)
       (iterativeDom None (rev_succs f))"

fun option_filter :: "('a \<Rightarrow> bool option) \<Rightarrow> 'a list \<Rightarrow> 'a list option" where
  "option_filter p [] = Some []"
| "option_filter p (x # xs) =
     Option.bind (p x) (\<lambda>c. map_option (\<lambda>ys. if c then x # ys else ys) (option_filter p xs))"

definition BackEdges :: "Func \<Rightarrow> (nat \<times> nat) list option" where
  "BackEdges f =
     Option.bind (Dominators f) (\<lambda>idom.
       option_filter (\<lambda>(b, s). chain_has idom s b)
         (concat (map (\<lambda>b. map (\<lambda>s. (b, s)) (succ_blocks f b)) (Blocks f))))"

definition LoopHeaders :: "Func \<Rightarrow> nat set option" where
  "LoopHeaders f = map_option (\<lambda>es. set (map snd es)) (BackEdges f)"

section \<open>Lists of checks\<close>

definition passes :: "check list \<Rightarrow> bool" where
  "passes cs \<longleftrightarrow> (\<forall>c \<in> set cs. fst c = Some True)"

lemma passes_simps [simp]:
  "passes []" "passes (c # cs) \<longleftrightarrow> fst c = Some True \<and> passes cs"
  "passes (xs @ ys) \<longleftrightarrow> passes xs \<and> passes ys"
  "passes (concat (map g ys')) \<longleftrightarrow> (\<forall>y \<in> set ys'. passes (g y))"
  "passes (map h zs) \<longleftrightarrow> (\<forall>z \<in> set zs. fst (h z) = Some True)"
  by (auto simp: passes_def)

lemma fst_chk [simp]: "fst (chk c msg as) = Some c"
  by (simp add: chk_def)

lemma first_fail_ok: "first_fail cs = Some (Inr ()) \<longleftrightarrow> passes cs"
  by (induction cs rule: first_fail.induct) (auto split: option.splits bool.splits)

lemma first_fail_ends: "(\<And>c. c \<in> set cs \<Longrightarrow> fst c \<noteq> None) \<Longrightarrow> first_fail cs \<noteq> None"
proof (induction cs rule: first_fail.induct)
  case (2 ok e cs)
  have "ok \<noteq> None" using 2(2) [of "(ok, e)"] by simp
  then show ?case using 2 by (auto split: bool.splits)
qed simp

section \<open>Paths in a function\<close>

lemma succ_blocks_edge: "b \<in> set (Blocks f) \<Longrightarrow> s \<in> set (succ_blocks f b) \<longleftrightarrow> edge f b s"
  by (auto simp: succ_blocks_def edge_def)

lemma succ_in_Blocks:
  assumes "cfg_ok f" and "b \<in> set (Blocks f)" and "s \<in> set (succ_blocks f b)"
  shows "s \<in> set (Blocks f)"
  using assms cfg_ok_succ(1) [OF assms(1,2)] by (auto simp: succ_blocks_def in_set_conv_nth)

lemma pred_in_Blocks:
  assumes "cfg_ok f" and "b \<in> set (Blocks f)" and "i < length (Preds (fblk f b))"
  shows "eBlock (Preds (fblk f b) ! i) \<in> set (Blocks f)"
  using assms by (auto simp: cfg_ok_def pred_ok_def Let_def)

lemma pred_blocks_edge:
  assumes cfg: "cfg_ok f" and b: "b \<in> set (Blocks f)" and p: "p \<in> set (Blocks f)"
  shows "p \<in> set (pred_blocks f b) \<longleftrightarrow> b \<in> set (succ_blocks f p)"
proof
  assume "p \<in> set (pred_blocks f b)"
  then obtain i where i: "i < length (Preds (fblk f b))" "eBlock (Preds (fblk f b) ! i) = p"
    by (auto simp: pred_blocks_def in_set_conv_nth)
  then have "pred_ok f b i" using cfg b by (simp add: cfg_ok_def)
  then show "b \<in> set (succ_blocks f p)"
    using i by (force simp: pred_ok_def Let_def succ_blocks_def in_set_conv_nth)
next
  assume "b \<in> set (succ_blocks f p)"
  then obtain i where i: "i < length (Succs (fblk f p))" "eBlock (Succs (fblk f p) ! i) = b"
    by (auto simp: succ_blocks_def in_set_conv_nth)
  then have "succ_ok f p i" using cfg p by (simp add: cfg_ok_def)
  then show "p \<in> set (pred_blocks f b)"
    using i by (force simp: succ_ok_def Let_def pred_blocks_def in_set_conv_nth)
qed

lemma avoiding_iff:
  assumes "cfg_ok f" and "Entry f = Some e"
  shows "avoiding e (succ_blocks f) A b \<longleftrightarrow> avoids f A b"
proof
  have e: "e \<in> set (Blocks f)" using assms by (auto simp: cfg_ok_def)
  assume "avoiding e (succ_blocks f) A b"
  then have "avoids f A b \<and> b \<in> set (Blocks f)"
  proof (induction rule: avoiding.induct)
    case root
    then show ?case using e assms(2) by (auto intro: avoids.entry)
  next
    case (step p s)
    then show ?case
      using succ_in_Blocks [OF assms(1)] succ_blocks_edge [of p f s] by (auto intro: avoids.step)
  qed
  then show "avoids f A b" ..
next
  assume "avoids f A b"
  then show "avoiding e (succ_blocks f) A b"
  proof (induction rule: avoids.induct)
    case (entry b)
    then show ?case using assms(2) by (auto intro: avoiding.root)
  next
    case (step p s)
    then show ?case using succ_blocks_edge [of p f s] by (auto simp: edge_def intro: avoiding.step)
  qed
qed

lemma dominates_iff:
  assumes "cfg_ok f" and "Entry f = Some e"
  shows "dominates e (succ_blocks f) a b \<longleftrightarrow> dom_by f a b"
  by (simp add: dominates_def dom_by_def avoiding_iff [OF assms])

section \<open>The dominators are found\<close>

lemma tree_chain_ends:
  assumes "tree_ok root r D" and "b \<in> dom D"
  shows "chain_has D a b = Some (a \<in> chain D b)"
  by (rule chain_has_ok [OF assms])

lemma computeDominators_exact:
  assumes cfg: "cfg_ok f" and e: "Entry f = Some e"
  shows "\<exists>D. computeDominators f e = Some D \<and> dom D = {b. reachable f b} \<and>
    (\<forall>a b. reachable f b \<longrightarrow> chain_has D a b = Some (dom_by f a b))"
proof -
  have eb: "e \<in> set (Blocks f)" using cfg e by (auto simp: cfg_ok_def)
  obtain rpo where rpo: "rpo_from (succ_blocks f) e = Some rpo" "rpo_ok e (succ_blocks f) rpo"
    using rpo_from_ok [of "set (Blocks f)" "succ_blocks f" e] succ_in_Blocks [OF cfg] eb by auto
  have "avoiding e (succ_blocks f) {} = avoids f {}" by (intro ext avoiding_iff [OF cfg e])
  then have set: "set rpo = {b. reachable f b}" using rpo(2) unfolding rpo_ok_def by simp
  have sub: "set rpo \<subseteq> set (Blocks f)"
  proof
    fix b assume "b \<in> set rpo"
    then have "avoids f {} b" using set by simp
    then show "b \<in> set (Blocks f)"
      by (induction rule: avoids.induct)
        (use e eb succ_in_Blocks [OF cfg] succ_blocks_edge in \<open>auto simp: edge_def succ_blocks_def\<close>)
  qed
  have "numbered e (succ_blocks f) (pred_blocks f) rpo"
    unfolding numbered_def using rpo(2) sub pred_blocks_edge [OF cfg] by auto
  from idoms_exact [OF this] obtain D where D: "idoms e (pred_blocks f) rpo = Some D" "dom D = set rpo"
      "tree_ok e (rpoNum rpo) D" "\<forall>b \<in> set rpo. chain D b = {a. dominates e (succ_blocks f) a b}"
    by (elim exE conjE)
  have "chain_has D a b = Some (dom_by f a b)" if "reachable f b" for a b
    using tree_chain_ends [OF D(3), of b a] D(2,4) that set dominates_iff [OF cfg e] by simp
  then show ?thesis using rpo(1) D(1,2) set by (auto simp: computeDominators_def)
qed

section \<open>Reachability, definitions and positions\<close>

lemma reach_loop_ends:
  assumes fin: "finite U" and closed: "\<And>b s. b \<in> U \<Longrightarrow> s \<in> set (succs b) \<Longrightarrow> s \<in> U"
  shows "set stack \<subseteq> U \<Longrightarrow> set reached \<subseteq> U \<Longrightarrow> distinct reached \<Longrightarrow>
    (\<And>b. b \<in> set reached \<Longrightarrow> set (succs b) \<subseteq> set reached \<union> set stack) \<Longrightarrow>
    (\<And>b. b \<in> set reached \<union> set stack \<Longrightarrow> avoiding root succs {} b) \<Longrightarrow> root \<in> set reached \<union> set stack \<Longrightarrow>
    \<exists>rs. reach_loop succs stack reached = Some rs \<and> set rs = Collect (avoiding root succs {})"
proof (induction "(card (U - set reached), length stack)" arbitrary: stack reached
    rule: wf_induct_rule [OF wf_lex_prod [OF wf_less_than wf_less_than]])
  case 1
  note IH = 1(1) and stack = 1(2) and reached = 1(3,4) and cl = 1(5) and av = 1(6) and root = 1(7)
  show ?case
  proof (cases stack)
    case Nil
    have "b \<in> set reached" if "avoiding root succs {} b" for b
      using that by (induction rule: avoiding.induct) (use root cl Nil in auto)
    then show ?thesis using Nil av by (subst reach_loop.simps) auto
  next
    case (Cons b rest)
    show ?thesis
    proof (cases "b \<in> set reached")
      case True
      have "((card (U - set reached), length rest), (card (U - set reached), length stack)) \<in> less_than <*lex*> less_than"
        using Cons by simp
      from IH [OF this] show ?thesis using stack reached cl av root Cons True
        by (subst reach_loop.simps) auto
    next
      case False
      have "b \<in> U" using stack Cons by simp
      then have "card (U - set (b # reached)) < card (U - set reached)"
        using fin False by (intro psubset_card_mono) auto
      then have less: "((card (U - set (b # reached)), length (rev (succs b) @ rest)),
          (card (U - set reached), length stack)) \<in> less_than <*lex*> less_than"
        by simp
      have "avoiding root succs {} b" using av Cons by simp
      then have av': "avoiding root succs {} c" if "c \<in> set (b # reached) \<union> set (rev (succs b) @ rest)" for c
        using that av [of c] Cons by (auto intro: avoiding.step)
      have "\<exists>rs. reach_loop succs (rev (succs b) @ rest) (b # reached) = Some rs \<and> set rs = Collect (avoiding root succs {})"
      proof (rule IH [OF less])
        show "set (succs c) \<subseteq> set (b # reached) \<union> set (rev (succs b) @ rest)" if "c \<in> set (b # reached)" for c
          using cl [of c] that Cons by auto
      qed (use stack reached Cons root False closed [OF \<open>b \<in> U\<close>] av' in auto)
      then show ?thesis using Cons False by (subst reach_loop.simps) simp
    qed
  qed
qed

lemma reach_check_ok:
  assumes cfg: "cfg_ok f" and e: "Entry f = Some e"
  shows "fst (reach_check f e) = Some (all_reachable f)"
proof -
  have eb: "e \<in> set (Blocks f)" using cfg e by (auto simp: cfg_ok_def)
  have root: "avoiding e (succ_blocks f) {} e" by (simp add: avoiding.root)
  obtain rs where "reach_loop (succ_blocks f) [e] [] = Some rs" "set rs = Collect (avoiding e (succ_blocks f) {})"
    using reach_loop_ends [of "set (Blocks f)" "succ_blocks f" "[e]" "[]" e] succ_in_Blocks [OF cfg] eb root by auto
  then show ?thesis
    using avoiding_iff [OF cfg e] by (auto simp: reach_check_def all_reachable_def filter_empty_conv)
qed

lemma def_values_apply: "def_values f m b a = (if a \<in> set (Values (fblk f b)) then Some b else m a)"
proof -
  have "foldl (\<lambda>m v. m(v \<mapsto> b)) m vs a = (if a \<in> set vs then Some b else m a)" for vs
    by (induction vs arbitrary: m) auto
  then show ?thesis by (simp add: def_values_def)
qed

lemma defBlock_iff:
  assumes "vals_ok f"
  shows "defBlock f a = Some d \<longleftrightarrow> d \<in> set (Blocks f) \<and> a \<in> set (Values (fblk f d))"
proof -
  have "foldl (def_values f) m bs a = Some d \<longleftrightarrow>
      (d \<in> set bs \<and> a \<in> set (Values (fblk f d))) \<or>
      ((\<forall>b \<in> set bs. a \<notin> set (Values (fblk f b))) \<and> m a = Some d)"
    if "set bs \<subseteq> set (Blocks f)" for bs m
    using that
  proof (induction bs arbitrary: m)
    case (Cons b bs)
    have sub: "set bs \<subseteq> set (Blocks f)" and b: "b \<in> set (Blocks f)" using Cons.prems by auto
    have uniq: "c = b" if "c \<in> set bs" "a \<in> set (Values (fblk f c))" "a \<in> set (Values (fblk f b))" for c
      using vals_ok_unique [OF assms _ b that(2,3)] that(1) sub by blast
    show ?case
    proof (cases "a \<in> set (Values (fblk f b))")
      case True
      then have "d \<in> set bs \<and> a \<in> set (Values (fblk f d)) \<longrightarrow> d = b" using uniq by blast
      then show ?thesis unfolding foldl.simps Cons.IH [OF sub] using True uniq by (simp add: def_values_apply) blast
    next
      case False
      then show ?thesis unfolding foldl.simps Cons.IH [OF sub] by (simp add: def_values_apply) blast
    qed
  qed simp
  from this [of "Blocks f" Map.empty] show ?thesis by (auto simp: defBlock_def)
qed

lemma posInBlock_nth:
  assumes "distinct (Values (fblk f b))" and "i < length (Values (fblk f b))"
  shows "posInBlock f b (Values (fblk f b) ! i) = i"
proof -
  let ?vs = "Values (fblk f b)"
  have "distinct (map fst (rev (zip ?vs [0..<length ?vs])))" using assms(1) by (simp add: rev_map [symmetric])
  moreover have "(?vs ! i, i) \<in> set (rev (zip ?vs [0..<length ?vs]))" using assms(2) by (force simp: set_zip)
  ultimately have "map_of (rev (zip ?vs [0..<length ?vs])) (?vs ! i) = Some i" by simp
  then show ?thesis by (simp add: posInBlock_def)
qed

section \<open>What the verifier accepts\<close>

definition kind_ok :: "Func \<Rightarrow> nat \<Rightarrow> bool" where
  "kind_ok f b \<longleftrightarrow>
     (let blk = fblk f b in
      case bKind blk of
        BlockPlain \<Rightarrow> length (Succs blk) = 1
      | BlockIf \<Rightarrow> length (Succs blk) = 2 \<and> Control blk \<noteq> None
      | BlockRet \<Rightarrow> Succs blk = []
      | BlockUnreachable \<Rightarrow> True
      | BlockThrow \<Rightarrow> Succs blk = []
      | BlockBrTable \<Rightarrow>
          Succs blk \<noteq> [] \<and> Control blk \<noteq> None \<and> vTyp (fval f (the (Control blk))) \<in> {TypeI32, TypeBool} \<and>
          length (TableCases blk) = length (Succs blk) \<and> TableDefault blk < length (Succs blk) \<and>
          distinct (map eBlock (Succs blk)) \<and> distinct (concat (TableCases blk))
      | BlockInvalid \<Rightarrow> False)"

definition value_ok :: "Func \<Rightarrow> nat \<Rightarrow> nat list \<Rightarrow> nat \<Rightarrow> bool" where
  "value_ok f b pre v \<longleftrightarrow>
     (vOp (fval f v) = OpPhi \<longrightarrow>
        (\<forall>w \<in> set pre. vOp (fval f w) = OpPhi) \<and> length (vArgs (fval f v)) = length (Preds (fblk f b))) \<and>
     None \<notin> set (vArgs (fval f v))"

definition use_ok :: "Func \<Rightarrow> nat \<Rightarrow> nat list \<Rightarrow> nat \<Rightarrow> nat \<Rightarrow> nat \<Rightarrow> bool" where
  "use_ok f b pre v k a \<longleftrightarrow>
     (if vOp (fval f v) = OpPhi then dom_def f a (eBlock (Preds (fblk f b) ! k))
      else a \<in> set pre \<or> (\<exists>d \<in> set (Blocks f). d \<noteq> b \<and> dom_by f d b \<and> a \<in> set (Values (fblk f d))))"

definition control_ok :: "Func \<Rightarrow> nat \<Rightarrow> bool" where
  "control_ok f b \<longleftrightarrow>
     (\<forall>c d. Control (fblk f b) = Some c \<longrightarrow> d \<in> set (Blocks f) \<longrightarrow> c \<in> set (Values (fblk f d)) \<longrightarrow> dom_by f d b)"

definition block_ok :: "Func \<Rightarrow> nat \<Rightarrow> bool" where
  "block_ok f b \<longleftrightarrow>
     kind_ok f b \<and> control_ok f b \<and>
     (\<forall>pre v post. Values (fblk f b) = pre @ v # post \<longrightarrow>
        value_ok f b pre v \<and> (\<forall>k < length (vArgs (fval f v)). \<forall>a. vArgs (fval f v) ! k = Some a \<longrightarrow> use_ok f b pre v k a))"

definition verified :: "Func \<Rightarrow> bool" where
  "verified f \<longleftrightarrow> all_reachable f \<and> (\<forall>b \<in> set (Blocks f). block_ok f b)"

lemma all_splits: "(\<forall>pre v post. xs = pre @ v # post \<longrightarrow> P pre v) \<longleftrightarrow> (\<forall>i < length xs. P (take i xs) (xs ! i))"
proof (intro iffI allI impI)
  fix i assume "\<forall>pre v post. xs = pre @ v # post \<longrightarrow> P pre v" "i < length xs"
  then show "P (take i xs) (xs ! i)" using id_take_nth_drop by blast
next
  fix pre v post assume "\<forall>i < length xs. P (take i xs) (xs ! i)" "xs = pre @ v # post"
  then show "P pre v" by (auto dest: spec [of _ "length pre"])
qed

lemma distinct_prefix: "distinct xs \<longleftrightarrow> (\<forall>i < length xs. xs ! i \<notin> set (take i xs))"
proof (induction xs rule: rev_induct)
  case (snoc x xs)
  have "(\<forall>i < length (xs @ [x]). (xs @ [x]) ! i \<notin> set (take i (xs @ [x]))) \<longleftrightarrow>
      x \<notin> set xs \<and> (\<forall>i < length xs. xs ! i \<notin> set (take i xs))"
    by (simp add: nth_append less_Suc_eq all_conj_distrib imp_conjL) auto
  then show ?case using snoc by auto
qed simp

lemma distinct_concat_prefix:
  "distinct (concat xss) \<longleftrightarrow>
     (\<forall>i < length xss. \<forall>j < length (xss ! i). xss ! i ! j \<notin> set (concat (take i xss) @ take j (xss ! i)))"
proof (induction xss rule: rev_induct)
  case (snoc xs xss)
  have "(\<forall>i < length (xss @ [xs]). \<forall>j < length ((xss @ [xs]) ! i).
        (xss @ [xs]) ! i ! j \<notin> set (concat (take i (xss @ [xs])) @ take j ((xss @ [xs]) ! i))) \<longleftrightarrow>
      (\<forall>i < length xss. \<forall>j < length (xss ! i). xss ! i ! j \<notin> set (concat (take i xss) @ take j (xss ! i))) \<and>
      (\<forall>j < length xs. xs ! j \<notin> set (concat xss @ take j xs))"
    by (auto simp: nth_append less_Suc_eq)
  moreover have "(\<forall>j < length xs. xs ! j \<notin> set (concat xss @ take j xs)) \<longleftrightarrow> distinct xs \<and> set (concat xss) \<inter> set xs = {}"
  proof -
    have "(\<forall>j < length xs. xs ! j \<notin> A \<union> set (take j xs)) \<longleftrightarrow> distinct xs \<and> A \<inter> set xs = {}" for A
    proof -
      have "A \<inter> set xs = {} \<longleftrightarrow> (\<forall>x \<in> set xs. x \<notin> A)" by auto
      then have "A \<inter> set xs = {} \<longleftrightarrow> (\<forall>j < length xs. xs ! j \<notin> A)" by (simp only: all_set_conv_all_nth)
      then show ?thesis unfolding distinct_prefix by auto
    qed
    then show ?thesis by (simp only: set_append)
  qed
  ultimately show ?case using snoc by auto
qed simp

lemma kind_checks_ok: "passes (kind_checks f b) \<longleftrightarrow> kind_ok f b"
proof (cases "bKind (fblk f b) = BlockBrTable")
  case True
  have "passes (table_checks (fblk f b) b) \<longleftrightarrow>
      distinct (map eBlock (Succs (fblk f b))) \<and> distinct (concat (TableCases (fblk f b)))"
    if "length (TableCases (fblk f b)) = length (Succs (fblk f b))"
    unfolding table_checks_def distinct_prefix [of "map eBlock _"] distinct_concat_prefix
    using that by (auto simp: take_map)
  then show ?thesis using True by (auto simp: kind_checks_def kind_ok_def Let_def)
next
  case False
  then show ?thesis by (auto simp: kind_checks_def kind_ok_def Let_def split: BlockKind.splits)
qed

lemma edge_checks_ok:
  assumes "cfg_ok f" and "b \<in> set (Blocks f)"
  shows "passes (succ_checks f b)" and "passes (pred_checks f b)"
proof -
  have s: "succ_ok f b i" if "i < length (Succs (fblk f b))" for i using assms that by (simp add: cfg_ok_def)
  have p: "pred_ok f b i" if "i < length (Preds (fblk f b))" for i using assms that by (simp add: cfg_ok_def)
  show "passes (succ_checks f b)"
    unfolding succ_checks_def passes_simps all_set_conv_all_nth using s by (auto simp: succ_ok_def Let_def)
  show "passes (pred_checks f b)"
    unfolding pred_checks_def passes_simps all_set_conv_all_nth using p by (auto simp: pred_ok_def Let_def)
qed

lemma value_checks_ok:
  assumes "vals_ok f" and "b \<in> set (Blocks f)"
  shows "passes (value_checks f b) \<longleftrightarrow>
    (\<forall>pre v post. Values (fblk f b) = pre @ v # post \<longrightarrow> value_ok f b pre v)"
proof -
  have "vBlock (fval f v) = Some b" if "v \<in> set (Values (fblk f b))" for v
    using assms that by (simp add: vals_ok_def)
  then have own: "\<forall>i < length (Values (fblk f b)). vBlock (fval f (Values (fblk f b) ! i)) = Some b" by simp
  have args: "(\<forall>k \<in> set [0..<length as]. as ! k \<noteq> None) \<longleftrightarrow> None \<notin> set as" for as :: "nat option list"
    by (auto simp: in_set_conv_nth)
  have "passes (value_checks f b) \<longleftrightarrow>
      (\<forall>i < length (Values (fblk f b)). value_ok f b (take i (Values (fblk f b))) (Values (fblk f b) ! i))"
    unfolding value_checks_def value_ok_def passes_simps Let_def args [symmetric] using own by (auto split: if_splits)
  then show ?thesis by (simp only: all_splits)
qed

lemma dup_checks_ok: "cfg_ok f \<Longrightarrow> passes (dup_checks f)"
  unfolding dup_checks_def by (simp add: cfg_ok_def distinct_prefix)

lemma defBlock_None: "vals_ok f \<Longrightarrow> defBlock f a = None \<longleftrightarrow> (\<forall>d \<in> set (Blocks f). a \<notin> set (Values (fblk f d)))"
  using defBlock_iff [of f a] by (metis not_None_eq)

lemma use_checks_ok:
  assumes cfg: "cfg_ok f" and vals: "vals_ok f" and all: "all_reachable f" and b: "b \<in> set (Blocks f)"
    and D: "\<And>a b. reachable f b \<Longrightarrow> chain_has D a b = Some (dom_by f a b)"
    and vi: "vi < length (Values (fblk f b))" and v: "v = Values (fblk f b) ! vi"
    and ai: "ai < length (vArgs (fval f v))" "vArgs (fval f v) ! ai = Some a"
    and phi: "vOp (fval f v) = OpPhi \<Longrightarrow> length (vArgs (fval f v)) = length (Preds (fblk f b))"
  shows "passes (use_checks f D b vi ai) \<longleftrightarrow> use_ok f b (take vi (Values (fblk f b))) v ai a"
proof -
  have reach: "reachable f d" if "d \<in> set (Blocks f)" for d using all that by (simp add: all_reachable_def)
  have dist: "distinct (Values (fblk f b))" using vals b by (simp add: vals_ok_def)
  show ?thesis
  proof (cases "defBlock f a")
    case None
    then have none: "a \<notin> set (Values (fblk f d))" if "d \<in> set (Blocks f)" for d
      using defBlock_None [OF vals] that by simp
    have "\<not> use_ok f b (take vi (Values (fblk f b))) v ai a"
      using none none [OF b] unfolding use_ok_def dom_def_def by (meson in_set_takeD)
    moreover have "\<not> passes (use_checks f D b vi ai)" using None ai v by (simp add: use_checks_def Let_def)
    ultimately show ?thesis by simp
  next
    case (Some d)
    then have d: "d \<in> set (Blocks f)" "a \<in> set (Values (fblk f d))" using defBlock_iff [OF vals] by auto
    have uniq: "d' = d" if "d' \<in> set (Blocks f)" "a \<in> set (Values (fblk f d'))" for d'
      using vals_ok_unique [OF vals that(1) d(1) that(2) d(2)] .
    show ?thesis
    proof (cases "vOp (fval f v) = OpPhi")
      case True
      let ?p = "eBlock (Preds (fblk f b) ! ai)"
      have lt: "ai < length (Preds (fblk f b))" using ai(1) phi [OF True] by simp
      have p: "reachable f ?p" using reach [OF pred_in_Blocks [OF cfg b lt]] .
      have dd: "dom_def f a ?p \<longleftrightarrow> dom_by f d ?p" unfolding dom_def_def using d uniq by blast
      show ?thesis
      proof (cases "d = ?p")
        case True
        then show ?thesis using dd \<open>vOp (fval f v) = OpPhi\<close> Some ai v lt by (simp add: use_checks_def use_ok_def Let_def)
      next
        case False
        then show ?thesis using dd \<open>vOp (fval f v) = OpPhi\<close> Some ai v lt D [OF p, of d]
          by (simp add: use_checks_def use_ok_def Let_def)
      qed
    next
      case False
      show ?thesis
      proof (cases "d = b")
        case True
        then obtain i where i: "i < length (Values (fblk f b))" "Values (fblk f b) ! i = a"
          using d(2) by (auto simp: in_set_conv_nth)
        have pos: "posInBlock f b a = i" using posInBlock_nth [OF dist i(1)] i(2) by simp
        have "a \<in> set (take vi (Values (fblk f b))) \<longleftrightarrow> i < vi"
        proof
          assume "a \<in> set (take vi (Values (fblk f b)))"
          then obtain j where "j < vi" "j < length (Values (fblk f b))" "Values (fblk f b) ! j = a"
            by (auto simp: in_set_conv_nth)
          then show "i < vi" using i nth_eq_iff_index_eq [OF dist, of j i] by simp
        next
          assume "i < vi"
          then show "a \<in> set (take vi (Values (fblk f b)))" using i by (auto simp: in_set_conv_nth)
        qed
        moreover have "\<not> (\<exists>d' \<in> set (Blocks f). d' \<noteq> b \<and> dom_by f d' b \<and> a \<in> set (Values (fblk f d')))"
          using uniq True by blast
        ultimately have "use_ok f b (take vi (Values (fblk f b))) v ai a \<longleftrightarrow> i < vi"
          using False unfolding use_ok_def by auto
        then show ?thesis using False True Some ai v pos by (simp add: use_checks_def Let_def)
      next
        case other: False
        have "a \<notin> set (Values (fblk f b))" using uniq b other by blast
        then have "a \<notin> set (take vi (Values (fblk f b)))" by (auto dest: in_set_takeD)
        moreover have "(\<exists>d' \<in> set (Blocks f). d' \<noteq> b \<and> dom_by f d' b \<and> a \<in> set (Values (fblk f d'))) \<longleftrightarrow> dom_by f d b"
          using uniq d other by blast
        ultimately have "use_ok f b (take vi (Values (fblk f b))) v ai a \<longleftrightarrow> dom_by f d b"
          using False unfolding use_ok_def by simp
        then show ?thesis using False other Some ai v D [OF reach [OF b], of d] by (simp add: use_checks_def Let_def)
      qed
    qed
  qed
qed

lemma control_checks_ok:
  assumes vals: "vals_ok f" and "all_reachable f" and b: "b \<in> set (Blocks f)"
    and D: "\<And>a b. reachable f b \<Longrightarrow> chain_has D a b = Some (dom_by f a b)"
  shows "passes (control_checks f D b) \<longleftrightarrow> control_ok f b"
proof -
  have r: "reachable f b" using assms(2) b by (simp add: all_reachable_def)
  show ?thesis
  proof (cases "Control (fblk f b)")
    case (Some c)
    show ?thesis
    proof (cases "defBlock f c")
      case None
      then have "\<forall>d \<in> set (Blocks f). c \<notin> set (Values (fblk f d))" using defBlock_None [OF vals] by blast
      then show ?thesis using Some None by (simp add: control_checks_def control_ok_def)
    next
      case d: (Some d)
      then have d': "d \<in> set (Blocks f)" "c \<in> set (Values (fblk f d))" using defBlock_iff [OF vals] by auto
      have "control_ok f b \<longleftrightarrow> dom_by f d b" unfolding control_ok_def
      proof (intro iffI allI impI)
        fix c' e assume "dom_by f d b" "Control (fblk f b) = Some c'" "e \<in> set (Blocks f)" "c' \<in> set (Values (fblk f e))"
        moreover from this have "e = d" using vals_ok_unique [OF vals _ d'(1) _ d'(2), of e] Some by simp
        ultimately show "dom_by f e b" by simp
      qed (use Some d' in blast)
      then show ?thesis using Some d D [OF r] by (auto simp: control_checks_def)
    qed
  qed (simp add: control_checks_def control_ok_def)
qed

lemma dominance_checks_end:
  assumes cfg: "cfg_ok f" and "all_reachable f" and blocks: "\<And>b. b \<in> set (Blocks f) \<Longrightarrow>
      \<forall>pre v post. Values (fblk f b) = pre @ v # post \<longrightarrow> value_ok f b pre v"
    and D: "\<And>a b. reachable f b \<Longrightarrow> chain_has D a b = Some (dom_by f a b)"
    and "c \<in> set (dominance_checks f D)"
  shows "fst c \<noteq> None"
proof -
  have reach: "chain_has D a b \<noteq> None" if "b \<in> set (Blocks f)" for a b
    using D assms(2) that by (simp add: all_reachable_def)
  obtain b where b: "b \<in> set (Blocks f)" and
      c: "c \<in> set (control_checks f D b) \<or> (\<exists>vi < length (Values (fblk f b)).
        \<exists>ai < length (vArgs (fval f (Values (fblk f b) ! vi))). c \<in> set (use_checks f D b vi ai))"
    using assms(5) unfolding dominance_checks_def by auto (metis)?
  from c show ?thesis
  proof (elim disjE exE conjE)
    assume "c \<in> set (control_checks f D b)"
    then show ?thesis using reach [OF b] by (auto simp: control_checks_def split: option.splits if_splits)
  next
    fix vi ai assume vi: "vi < length (Values (fblk f b))"
      and ai: "ai < length (vArgs (fval f (Values (fblk f b) ! vi)))" and cu: "c \<in> set (use_checks f D b vi ai)"
    have "value_ok f b (take vi (Values (fblk f b))) (Values (fblk f b) ! vi)"
      using blocks [OF b] id_take_nth_drop [OF vi] by blast
    then have "vOp (fval f (Values (fblk f b) ! vi)) = OpPhi \<Longrightarrow> ai < length (Preds (fblk f b))"
      using ai by (simp add: value_ok_def)
    then show ?thesis
      using cu reach [OF b] reach [OF pred_in_Blocks [OF cfg b]]
      by (auto simp: use_checks_def Let_def split: if_splits)
  qed
qed

section \<open>The verifier is exact\<close>

lemma block_checks_end: "c \<in> set (block_checks f b) \<Longrightarrow> fst c \<noteq> None"
  by (auto simp: block_checks_def succ_checks_def pred_checks_def kind_checks_def table_checks_def value_checks_def
      Let_def split: BlockKind.splits if_splits)

lemma block_checks_ok:
  assumes "cfg_ok f" and "vals_ok f" and "b \<in> set (Blocks f)"
  shows "passes (block_checks f b) \<longleftrightarrow>
    kind_ok f b \<and> (\<forall>pre v post. Values (fblk f b) = pre @ v # post \<longrightarrow> value_ok f b pre v)"
  unfolding block_checks_def using edge_checks_ok [OF assms(1,3)] kind_checks_ok value_checks_ok [OF assms(2,3)] by simp

lemma dominance_checks_ok:
  assumes cfg: "cfg_ok f" and vals: "vals_ok f" and all: "all_reachable f"
    and blocks: "\<And>b. b \<in> set (Blocks f) \<Longrightarrow>
      \<forall>pre v post. Values (fblk f b) = pre @ v # post \<longrightarrow> value_ok f b pre v"
    and D: "\<And>a b. reachable f b \<Longrightarrow> chain_has D a b = Some (dom_by f a b)"
  shows "passes (dominance_checks f D) \<longleftrightarrow>
    (\<forall>b \<in> set (Blocks f). control_ok f b \<and> (\<forall>pre v post. Values (fblk f b) = pre @ v # post \<longrightarrow>
       (\<forall>k < length (vArgs (fval f v)). \<forall>a. vArgs (fval f v) ! k = Some a \<longrightarrow> use_ok f b pre v k a)))"
proof -
  have one: "(\<forall>ai \<in> set [0..<length (vArgs (fval f (Values (fblk f b) ! vi)))]. passes (use_checks f D b vi ai)) \<longleftrightarrow>
      (\<forall>k < length (vArgs (fval f (Values (fblk f b) ! vi))). \<forall>a. vArgs (fval f (Values (fblk f b) ! vi)) ! k = Some a \<longrightarrow>
         use_ok f b (take vi (Values (fblk f b))) (Values (fblk f b) ! vi) k a)"
    if b: "b \<in> set (Blocks f)" and vi: "vi < length (Values (fblk f b))" for b vi
  proof -
    let ?v = "Values (fblk f b) ! vi"
    have v: "value_ok f b (take vi (Values (fblk f b))) ?v"
      using blocks [OF b] id_take_nth_drop [OF vi] by blast
    have "passes (use_checks f D b vi k) \<longleftrightarrow>
        (\<forall>a. vArgs (fval f ?v) ! k = Some a \<longrightarrow> use_ok f b (take vi (Values (fblk f b))) ?v k a)"
      if k: "k < length (vArgs (fval f ?v))" for k
    proof -
      have "vArgs (fval f ?v) ! k \<noteq> None" using v k by (auto simp: value_ok_def in_set_conv_nth)
      then obtain a where a: "vArgs (fval f ?v) ! k = Some a" by auto
      have "passes (use_checks f D b vi k) \<longleftrightarrow> use_ok f b (take vi (Values (fblk f b))) ?v k a"
        by (rule use_checks_ok [OF cfg vals all b D vi refl k a]) (use v in \<open>auto simp: value_ok_def\<close>)
      then show ?thesis using a by simp
    qed
    then show ?thesis by auto
  qed
  have "passes (dominance_checks f D) \<longleftrightarrow>
      (\<forall>b \<in> set (Blocks f). (\<forall>vi < length (Values (fblk f b)).
         \<forall>k < length (vArgs (fval f (Values (fblk f b) ! vi))). \<forall>a. vArgs (fval f (Values (fblk f b) ! vi)) ! k = Some a \<longrightarrow>
           use_ok f b (take vi (Values (fblk f b))) (Values (fblk f b) ! vi) k a) \<and> control_ok f b)"
    unfolding dominance_checks_def passes_simps using one control_checks_ok [OF vals all _ D]
    by (intro ball_cong refl) auto
  then show ?thesis by (simp only: all_splits conj_commute)
qed

lemma Verify_correct:
  assumes cfg: "cfg_ok f" and vals: "vals_ok f"
  shows "Verify f \<noteq> None \<and> (Verify f = Some (Inr ()) \<longleftrightarrow> verified f)"
proof -
  obtain e where e: "Entry f = Some e" using cfg by (auto simp: cfg_ok_def)
  let ?A = "dup_checks f @ concat (map (block_checks f) (Blocks f)) @ [reach_check f e]"
  have A: "passes ?A \<longleftrightarrow> all_reachable f \<and> (\<forall>b \<in> set (Blocks f). kind_ok f b \<and>
      (\<forall>pre v post. Values (fblk f b) = pre @ v # post \<longrightarrow> value_ok f b pre v))"
    using dup_checks_ok [OF cfg] block_checks_ok [OF cfg vals] reach_check_ok [OF cfg e] by auto
  have "fst c \<noteq> None" if "c \<in> set ?A" for c
    using that block_checks_end [of c f] reach_check_ok [OF cfg e] by (auto simp: dup_checks_def)
  then have ends: "first_fail ?A \<noteq> None" by (rule first_fail_ends)
  show ?thesis
  proof (cases "passes ?A")
    case False
    then have "first_fail ?A \<noteq> Some (Inr ())" by (simp add: first_fail_ok)
    then obtain err where "first_fail ?A = Some (Inl err)" using ends by (cases "first_fail ?A") (auto split: sum.splits, metis old.sum.exhaust old.unit.exhaust)
    moreover have "\<not> verified f" using False A by (auto simp: verified_def block_ok_def)
    ultimately show ?thesis using e by (simp add: Verify_def)
  next
    case True
    then have all: "all_reachable f" and blocks: "\<And>b. b \<in> set (Blocks f) \<Longrightarrow> kind_ok f b \<and>
        (\<forall>pre v post. Values (fblk f b) = pre @ v # post \<longrightarrow> value_ok f b pre v)" using A by auto
    obtain D where D: "computeDominators f e = Some D" "\<And>a b. reachable f b \<Longrightarrow> chain_has D a b = Some (dom_by f a b)"
      using computeDominators_exact [OF cfg e] by blast
    have vals': "\<forall>pre v post. Values (fblk f b) = pre @ v # post \<longrightarrow> value_ok f b pre v"
      if "b \<in> set (Blocks f)" for b using blocks [OF that] ..
    have "first_fail ?A = Some (Inr ())" using True by (simp only: first_fail_ok)
    then have "Verify f = first_fail (dominance_checks f D)"
      using e D(1) by (simp add: Verify_def verifyUseDominance_def)
    moreover have "first_fail (dominance_checks f D) \<noteq> None"
      by (intro first_fail_ends dominance_checks_end [OF cfg all vals' D(2)])
    moreover have "first_fail (dominance_checks f D) = Some (Inr ()) \<longleftrightarrow> verified f"
      unfolding first_fail_ok verified_def block_ok_def
      using dominance_checks_ok [OF cfg vals all vals' D(2)] all blocks by blast
    ultimately show ?thesis by simp
  qed
qed

lemmas Verify_ends = Verify_correct [THEN conjunct1]
lemmas Verify_accepts = Verify_correct [THEN conjunct2]

text \<open>
  C31: \<^verbatim>\<open>Verify\<close> always returns, and accepts a function with mirrored edges that lists each value once,
  in its own block, exactly when every block is reachable and well-shaped and every operand is
  defined, on every path from the entry, before it is used.
\<close>

theorem Verify_exact:
  assumes "cfg_ok f" and "vals_ok f"
  shows "Verify f \<noteq> None \<and> (Verify f = Some (Inr ()) \<longleftrightarrow> verified f)"
  by (rule Verify_correct [OF assms])

text \<open>A control value that no block lists is the one use that the verifier does not look at.\<close>

definition controls_listed :: "Func \<Rightarrow> bool" where
  "controls_listed f \<longleftrightarrow>
     (\<forall>b \<in> set (Blocks f). \<forall>c. Control (fblk f b) = Some c \<longrightarrow> (\<exists>d \<in> set (Blocks f). c \<in> set (Values (fblk f d))))"

lemma verified_ssa_ok:
  assumes "cfg_ok f" and "vals_ok f" and "controls_listed f" and "verified f"
  shows "ssa_ok f"
  unfolding ssa_ok_def
proof (intro conjI assms)
  show "uses_ok f" unfolding uses_ok_def
  proof (intro ballI conjI allI impI)
    fix b pre v post a
    assume b: "b \<in> set (Blocks f)" and s: "Values (fblk f b) = pre @ v # post" and "runs (fval f v)"
      and "Some a \<in> set (vArgs (fval f v))"
    moreover obtain k where "k < length (vArgs (fval f v))" "vArgs (fval f v) ! k = Some a"
      using calculation(4) by (auto simp: in_set_conv_nth)
    ultimately have "use_ok f b pre v k a" using assms(4) unfolding verified_def block_ok_def by blast
    then show "avail f b pre a" using \<open>runs (fval f v)\<close> by (auto simp: use_ok_def avail_def runs_def)
  next
    fix b v assume b: "b \<in> set (Blocks f)" and v: "v \<in> phi_ids f (Values (fblk f b))"
    then obtain pre post where s: "Values (fblk f b) = pre @ v # post" by (auto simp: phi_ids_def dest: split_list)
    have ok: "value_ok f b pre v" "\<And>k a. k < length (vArgs (fval f v)) \<Longrightarrow> vArgs (fval f v) ! k = Some a \<Longrightarrow> use_ok f b pre v k a"
      using assms(4) b s unfolding verified_def block_ok_def by blast+
    show len: "length (vArgs (fval f v)) = length (Preds (fblk f b))"
      using ok(1) v by (simp add: value_ok_def phi_ids_def)
    fix k a assume "k < length (Preds (fblk f b))" "vArgs (fval f v) ! k = Some a"
    then show "dom_def f a (eBlock (Preds (fblk f b) ! k))"
      using ok(2) [of k a] len v by (simp add: use_ok_def phi_ids_def)
  next
    fix b a assume b: "b \<in> set (Blocks f)" and c: "Control (fblk f b) = Some a"
    obtain d where "d \<in> set (Blocks f)" "a \<in> set (Values (fblk f d))"
      using assms(3) b c unfolding controls_listed_def by blast
    moreover have "control_ok f b" using assms(4) b unfolding verified_def block_ok_def by blast
    ultimately show "dom_def f a b" using c unfolding control_ok_def dom_def_def by blast
  qed
qed

section \<open>The dominator trees of domtree.go\<close>

lemma rpo_preds_numbered:
  assumes "rpo_ok root succs rpo"
  shows "numbered root succs (rpo_preds succs rpo) rpo"
  using assms by (auto simp: numbered_def rpo_preds_def)

text \<open>
  The tree of \<^verbatim>\<open>iterativeDom\<close> exists for every finite graph, and a node lies on the way up from
  another exactly when every path from the root to that other passes through it.
\<close>

lemma iterativeDom_tree:
  assumes "finite U" and "root \<in> U" and "\<And>b s. b \<in> U \<Longrightarrow> s \<in> set (succs b) \<Longrightarrow> s \<in> U"
  shows "\<exists>D. iterativeDom root succs = Some D \<and> dom D = Collect (avoiding root succs {}) \<and>
    (\<forall>a b. avoiding root succs {} b \<longrightarrow> chain_has D a b = Some (dominates root succs a b))"
proof -
  obtain rpo where rpo: "rpo_from succs root = Some rpo" "rpo_ok root succs rpo"
    using rpo_from_ok [of U succs root] assms by blast
  have set: "set rpo = Collect (avoiding root succs {})" using rpo(2) by (simp add: rpo_ok_def)
  from idoms_exact [OF rpo_preds_numbered [OF rpo(2)]] obtain D where
    D: "idoms root (rpo_preds succs rpo) rpo = Some D" "dom D = set rpo" "tree_ok root (rpoNum rpo) D"
      "\<forall>b \<in> set rpo. chain D b = {a. dominates root succs a b}"
    by (elim exE conjE)
  have "chain_has D a b = Some (dominates root succs a b)" if "avoiding root succs {} b" for a b
    using tree_chain_ends [OF D(3), of b a] D(2,4) that set by simp
  then show ?thesis using rpo(1) D(1,2) set by (auto simp: iterativeDom_def)
qed

lemma Dominators_tree:
  assumes cfg: "cfg_ok f"
  shows "\<exists>D. Dominators f = Some D \<and> dom D = {b. reachable f b} \<and>
    (\<forall>a b. reachable f b \<longrightarrow> chain_has D a b = Some (dom_by f a b))"
proof -
  obtain e where e: "Entry f = Some e" "e \<in> set (Blocks f)" using cfg by (auto simp: cfg_ok_def)
  have "avoiding e (succ_blocks f) {} = avoids f {}" by (intro ext avoiding_iff [OF cfg e(1)])
  then show ?thesis
    using iterativeDom_tree [of "set (Blocks f)" e "succ_blocks f"] succ_in_Blocks [OF cfg] e
    by (auto simp: Dominators_def dominates_iff [OF cfg e(1)])
qed

lemma option_filter_Some:
  "(\<And>x. x \<in> set xs \<Longrightarrow> p x = Some (q x)) \<Longrightarrow> option_filter p xs = Some (filter q xs)"
  by (induction xs) auto

text \<open>A back edge is an edge whose target dominates its source.\<close>

lemma BackEdges_tree:
  assumes cfg: "cfg_ok f" and "all_reachable f"
  shows "\<exists>es. BackEdges f = Some es \<and> set es = {(b, s). edge f b s \<and> dom_by f s b}"
proof -
  obtain D where D: "Dominators f = Some D" "\<And>a b. reachable f b \<Longrightarrow> chain_has D a b = Some (dom_by f a b)"
    using Dominators_tree [OF cfg] by blast
  let ?all = "concat (map (\<lambda>b. map (\<lambda>s. (b, s)) (succ_blocks f b)) (Blocks f))"
  have "option_filter (\<lambda>(b, s). chain_has D s b) ?all = Some (filter (\<lambda>(b, s). dom_by f s b) ?all)"
    using D(2) assms(2) by (intro option_filter_Some) (auto simp: all_reachable_def)
  moreover have "set (filter (\<lambda>(b, s). dom_by f s b) ?all) = {(b, s). edge f b s \<and> dom_by f s b}"
    by (auto simp: edge_def succ_blocks_def)
  ultimately show ?thesis using D(1) by (auto simp: BackEdges_def)
qed

section \<open>An example\<close>

definition diamond :: Func where
  "diamond = (NewFunc ''diamond'' \<lparr>Params = [TypeI32], Results = [TypeI32]\<rparr>)
     \<lparr>Blocks := [0, 1, 2, 3], Entry := Some 0, nextValueID := 6, nextBlockID := 4,
      fval := (\<lambda>_. nil_value)
        (1 := \<lparr>vOp = OpParam, vTyp = TypeI32, vArgs = [], vAuxInt = 0, vAux = AuxNil, vBlock = Some 0\<rparr>,
         2 := \<lparr>vOp = OpConst32, vTyp = TypeI32, vArgs = [], vAuxInt = 7, vAux = AuxNil, vBlock = Some 1\<rparr>,
         3 := \<lparr>vOp = OpConst32, vTyp = TypeI32, vArgs = [], vAuxInt = 9, vAux = AuxNil, vBlock = Some 2\<rparr>,
         4 := \<lparr>vOp = OpPhi, vTyp = TypeI32, vArgs = [Some 2, Some 3], vAuxInt = 0, vAux = AuxNil, vBlock = Some 3\<rparr>,
         5 := \<lparr>vOp = OpCopy, vTyp = TypeI32, vArgs = [Some 4], vAuxInt = 0, vAux = AuxNil, vBlock = Some 3\<rparr>),
      fblk := (\<lambda>_. zero_block)
        (0 := zero_block\<lparr>bKind := BlockIf, Control := Some 1, Values := [1],
           Succs := [\<lparr>eBlock = 1, eIndex = 0\<rparr>, \<lparr>eBlock = 2, eIndex = 0\<rparr>]\<rparr>,
         1 := zero_block\<lparr>bKind := BlockPlain, Values := [2], Preds := [\<lparr>eBlock = 0, eIndex = 0\<rparr>],
           Succs := [\<lparr>eBlock = 3, eIndex = 0\<rparr>]\<rparr>,
         2 := zero_block\<lparr>bKind := BlockPlain, Values := [3], Preds := [\<lparr>eBlock = 0, eIndex = 1\<rparr>],
           Succs := [\<lparr>eBlock = 3, eIndex = 1\<rparr>]\<rparr>,
         3 := zero_block\<lparr>bKind := BlockRet, Values := [4, 5],
           Preds := [\<lparr>eBlock = 1, eIndex = 0\<rparr>, \<lparr>eBlock = 2, eIndex = 0\<rparr>]\<rparr>)\<rparr>"

lemma diamond_blocks:
  "Blocks diamond = [0, 1, 2, 3]" "Entry diamond = Some 0"
  "fblk diamond 0 = zero_block\<lparr>bKind := BlockIf, Control := Some 1, Values := [1],
     Succs := [\<lparr>eBlock = 1, eIndex = 0\<rparr>, \<lparr>eBlock = 2, eIndex = 0\<rparr>]\<rparr>"
  "fblk diamond 1 = zero_block\<lparr>bKind := BlockPlain, Values := [2], Preds := [\<lparr>eBlock = 0, eIndex = 0\<rparr>],
     Succs := [\<lparr>eBlock = 3, eIndex = 0\<rparr>]\<rparr>"
  "fblk diamond 2 = zero_block\<lparr>bKind := BlockPlain, Values := [3], Preds := [\<lparr>eBlock = 0, eIndex = 1\<rparr>],
     Succs := [\<lparr>eBlock = 3, eIndex = 1\<rparr>]\<rparr>"
  "fblk diamond 3 = zero_block\<lparr>bKind := BlockRet, Values := [4, 5],
     Preds := [\<lparr>eBlock = 1, eIndex = 0\<rparr>, \<lparr>eBlock = 2, eIndex = 0\<rparr>]\<rparr>"
  by (simp_all add: diamond_def NewFunc_def)

lemma diamond_values:
  "vOp (fval diamond 1) = OpParam" "vOp (fval diamond 2) = OpConst32" "vOp (fval diamond 3) = OpConst32"
  "vOp (fval diamond 4) = OpPhi" "vOp (fval diamond 5) = OpCopy"
  "vArgs (fval diamond 1) = []" "vArgs (fval diamond 2) = []" "vArgs (fval diamond 3) = []"
  "vArgs (fval diamond 4) = [Some 2, Some 3]" "vArgs (fval diamond 5) = [Some 4]"
  "vBlock (fval diamond 1) = Some 0" "vBlock (fval diamond 2) = Some 1" "vBlock (fval diamond 3) = Some 2"
  "vBlock (fval diamond 4) = Some 3" "vBlock (fval diamond 5) = Some 3"
  by (simp_all add: diamond_def NewFunc_def)

lemmas diamond_facts = diamond_blocks diamond_values zero_block_def
  diamond_blocks(4) [unfolded One_nat_def] diamond_values(1,6,11) [unfolded One_nat_def]

lemma diamond_ok: "cfg_ok diamond" "vals_ok diamond"
  by (simp_all add: cfg_ok_def vals_ok_def succ_ok_def pred_ok_def diamond_facts Let_def All_less_Suc)

lemma diamond_reachable: "all_reachable diamond"
proof -
  have e: "edge diamond 0 1" "edge diamond 0 2" "edge diamond 1 3" by (simp_all add: edge_def diamond_facts)
  have r: "avoids diamond {} 0" by (rule avoids.entry) (simp_all add: diamond_facts)
  then show ?thesis
    using avoids.step [OF r e(1)] avoids.step [OF r e(2)] avoids.step [OF avoids.step [OF r e(1)] e(3)]
    by (simp add: all_reachable_def diamond_facts)
qed

lemma diamond_verified: "verified diamond"
  unfolding verified_def block_ok_def all_splits
  using diamond_reachable
  by (simp add: diamond_facts kind_ok_def control_ok_def value_ok_def use_ok_def dom_def_def All_less_Suc)

theorem Verify_exact_witness: "Verify diamond = Some (Inr ())"
  using Verify_exact [OF diamond_ok] diamond_verified by simp

end
