(* ===== verification/LowerFunc.thy ===== *)
theory LowerFunc
  imports Lower SsaVerify
begin

text \<open>
  The lowering of a whole function, \<^verbatim>\<open>LowerFunction\<close> of \<^verbatim>\<open>internal/lower/lower.go\<close>, and the
  module-wide summary that the inliner consults, from \<^verbatim>\<open>internal/lower/inline.go\<close>.
\<close>

section \<open>The inliner's summary\<close>

definition ExportFunc :: byte where "ExportFunc = 0x00"

type_synonym inlineAnalysis = "u32 \<Rightarrow> fnInlineInfo option"

definition upd_info :: "u32 \<Rightarrow> (fnInlineInfo \<Rightarrow> fnInlineInfo) \<Rightarrow> inlineAnalysis \<Rightarrow> inlineAnalysis" where
  "upd_info idx g fns = fns(idx := map_option g (fns idx))"

definition new_info :: "byte list \<Rightarrow> fnInlineInfo" where
  "new_info body = \<lparr>fi_bodyBytes = length body, fi_leaf = True, fi_hasTry = False, fi_noInline = False,
     fi_sites = 0, fi_innerCalls = [], fi_hasIndirect = False\<rparr>"

definition defined_idx :: "Module \<Rightarrow> nat \<Rightarrow> u32" where
  "defined_idx m i = NumImportedFuncs m + word_of_nat i"

definition new_infos :: "Module \<Rightarrow> inlineAnalysis" where
  "new_infos m = foldl (\<lambda>fns (i, fn). fns(defined_idx m i \<mapsto> new_info (fn_Body fn))) Map.empty
     (enumerate 0 (Functions m))"

text \<open>The exports registered by \<^verbatim>\<open>SetNoInlineExports\<close> are the parameter \<open>pinned\<close>.\<close>

definition pin_exports :: "Module \<Rightarrow> byte list set \<Rightarrow> inlineAnalysis \<Rightarrow> inlineAnalysis" where
  "pin_exports m pinned fns = foldl (\<lambda>fns e.
     if exp_Kind e = ExportFunc \<and> exp_Name e \<in> pinned
     then upd_info (exp_Index e) (\<lambda>info. info\<lparr>fi_noInline := True\<rparr>) fns else fns) fns (Exports m)"

definition add_call :: "u32 \<Rightarrow> u32 \<Rightarrow> inlineAnalysis \<Rightarrow> inlineAnalysis" where
  "add_call idx callee fns =
     upd_info idx (\<lambda>info. if callee \<in> set (fi_innerCalls info) then info
                          else info\<lparr>fi_innerCalls := fi_innerCalls info @ [callee]\<rparr>)
       (upd_info callee (\<lambda>info. info\<lparr>fi_sites := fi_sites info + 1\<rparr>) fns)"

definition not_leaf :: "u32 \<Rightarrow> inlineAnalysis \<Rightarrow> inlineAnalysis" where
  "not_leaf idx = upd_info idx (\<lambda>info. info\<lparr>fi_leaf := False\<rparr>)"

text \<open>
  One instruction: the summary so far, and the rest of the body unless the immediates are
  malformed.
\<close>

definition scan_instr :: "u32 \<Rightarrow> byte \<Rightarrow> byte list \<Rightarrow> inlineAnalysis \<Rightarrow> inlineAnalysis \<times> byte list option" where
  "scan_instr idx opc bs fns =
     (if opc = WOpCall then
        (case irReadU32 bs of
           Inl e \<Rightarrow> (not_leaf idx fns, None)
         | Inr (callee, rest) \<Rightarrow> (add_call idx callee (not_leaf idx fns), Some rest))
      else
        (let fns = (if opc = WOpCallIndirect then upd_info idx (\<lambda>info. info\<lparr>fi_leaf := False, fi_hasIndirect := True\<rparr>) fns
                    else if opc = WOpTry then upd_info idx (\<lambda>info. info\<lparr>fi_hasTry := True\<rparr>) fns
                    else fns)
         in case SkipImmediates opc bs of Inl e \<Rightarrow> (fns, None) | Inr (_, rest) \<Rightarrow> (fns, Some rest)))"

text \<open>An unparsable body is never spliced: its leaf flag is cleared.\<close>

fun scan_instrs :: "nat \<Rightarrow> u32 \<Rightarrow> byte list \<Rightarrow> inlineAnalysis \<Rightarrow> inlineAnalysis" where
  "scan_instrs 0 idx bs fns = fns"
| "scan_instrs (Suc n) idx [] fns = fns"
| "scan_instrs (Suc n) idx (opc # bs) fns =
     (case scan_instr idx opc bs fns of
        (fns, None) \<Rightarrow> not_leaf idx fns
      | (fns, Some rest) \<Rightarrow> scan_instrs n idx rest fns)"

definition scanBodyForInline :: "u32 \<Rightarrow> byte list \<Rightarrow> inlineAnalysis \<Rightarrow> inlineAnalysis" where
  "scanBodyForInline idx body fns =
     (case skipLocalDecls body of
        Inl e \<Rightarrow> not_leaf idx fns
      | Inr (_, rest) \<Rightarrow> scan_instrs (length rest) idx rest fns)"

definition analyzeModuleForInline :: "Module \<Rightarrow> byte list set \<Rightarrow> inlineAnalysis" where
  "analyzeModuleForInline m pinned =
     foldl (\<lambda>fns (i, fn). scanBodyForInline (defined_idx m i) (fn_Body fn) fns)
       (pin_exports m pinned (new_infos m)) (enumerate 0 (Functions m))"

section \<open>LowerFunction\<close>

definition param_local :: "nat \<times> ValType \<Rightarrow> nat low" where
  "param_local = (\<lambda>(i, p).
     if toSSAType p = TypeInvalid then unsupported ''parameter %d has unsupported type %v'' [i, unat p]
     else lbuild (Param i (toSSAType p)))"

definition setupLocals :: "FuncType \<Rightarrow> (nat list \<times> Type list) low" where
  "setupLocals ft =
     lbind (lmap param_local (enumerate 0 (FuncType.Params ft))) (\<lambda>ps.
     lbind (lread irReadU32) (\<lambda>nDecls.
     lbind (declared_locals ''local block %d has unsupported type 0x%02x'' (unat nDecls)) (\<lambda>(vs, tys).
     lret (ps @ vs, map toSSAType (FuncType.Params ft) @ tys))))"

definition entry_builder :: "string \<Rightarrow> FuncType \<Rightarrow> FuncBuilder" where
  "entry_builder name ft =
     (let (entry, b) = bNewBlock BlockPlain (NewFuncBuilder name
        \<lparr>FuncSig.Params = toSSATypes (FuncType.Params ft), FuncSig.Results = toSSATypes (FuncType.Results ft)\<rparr>)
      in SetCurrent entry (bSetEntry entry b))"

definition init_state :: "Module \<Rightarrow> byte list set \<Rightarrow> u32 \<Rightarrow> string \<Rightarrow> ThrowSet option \<Rightarrow> FuncType \<Rightarrow> byte list \<Rightarrow> lowerState" where
  "init_state m pinned funcIdx name ts ft body =
     \<lparr>ls_throwSet = ts, ls_excSlots = maxTagArity m, ls_excPropagate = None, ls_b = entry_builder name ft,
      ls_mod = m, ls_ft = ft, ls_mem64 = Memory64 m, ls_locals = [], ls_localTypes = [], ls_stack = [],
      ls_ctrl = [], ls_incoming = Map.empty, ls_unreachable = False, ls_unreachableDepth = 0,
      ls_mutableLocals = False, ls_inlineInfo = analyzeModuleForInline m pinned, ls_inlineFrames = [],
      ls_inlinedBytes = 0, ls_callerIdx = funcIdx, ls_rd = body\<rparr>"

text \<open>The body is read twice: once for the local declarations, once past them for the code.\<close>

definition lower_all :: "FuncType \<Rightarrow> byte list \<Rightarrow> unit low" where
  "lower_all ft body =
     lbind (setupLocals ft) (\<lambda>(locals, tys).
     lthen (lmodify (\<lambda>s. s\<lparr>ls_locals := locals, ls_localTypes := tys, ls_rd := body\<rparr>))
    (lthen (lread skipLocalDecls) lowerBody))"

text \<open>A panic is recovered as an unsupported feature.\<close>

definition recovered :: "lower_error \<Rightarrow> lower_error" where
  "recovered e = (case e of Panic msg \<Rightarrow> Unsupported ''lower panic in fn%d (%s): %v'' [] | _ \<Rightarrow> e)"

definition LowerFunction :: "byte list set \<Rightarrow> Module \<Rightarrow> u32 \<Rightarrow> string \<Rightarrow> ThrowSet option \<Rightarrow> lower_error + Func" where
  "LowerFunction pinned m funcIdx name ts =
     (case definedFuncType m funcIdx of
        None \<Rightarrow> Inl (recovered (Panic ''index out of range''))
      | Some ft \<Rightarrow>
          let body = fn_Body (Functions m ! unat (funcIdx - NumImportedFuncs m)) in
          case lower_all ft body (init_state m pinned funcIdx name ts ft body) of
            Inl e \<Rightarrow> Inl (recovered e)
          | Inr (_, s) \<Rightarrow>
              let f = PruneDeadBlocks (bf (ls_b s)) in
              case Verify f of
                Some (Inr _) \<Rightarrow> Inr f
              | Some (Inl e) \<Rightarrow> Inl (Unsupported ''verify fn%d: %w'' [unat funcIdx])
              | None \<Rightarrow> Inl (Panic ''Verify does not return''))"

end
