(* ===== verification/LowerInv.thy ===== *)
theory LowerInv
  imports LowerFunc
begin

text \<open>
  What every handler of the lowering keeps: the edge lists of the function under construction mirror
  each other and every value stands once in its own block; nothing is read twice; the caller's inline
  frames, the module and the analyses stay. From this, the loop over a body never runs out of
  fuel, and what \<^verbatim>\<open>LowerFunction\<close> returns is well-formed SSA.
\<close>

section \<open>The function under construction\<close>

definition edge_at :: "Edge list \<Rightarrow> nat \<Rightarrow> Edge \<Rightarrow> bool" where
  "edge_at es i e \<longleftrightarrow> i < length es \<and> es ! i = e"

definition edges_inv :: "Func \<Rightarrow> bool" where
  "edges_inv f \<longleftrightarrow>
     (\<forall>b i c j. edge_at (Succs (fblk f b)) i \<lparr>eBlock = c, eIndex = j\<rparr> \<longleftrightarrow>
                edge_at (Preds (fblk f c)) j \<lparr>eBlock = b, eIndex = i\<rparr>) \<and>
     (\<forall>b \<ge> nextBlockID f. Succs (fblk f b) = [] \<and> Preds (fblk f b) = [])"

definition values_inv :: "Func \<Rightarrow> bool" where
  "values_inv f \<longleftrightarrow>
     (\<forall>b. distinct (Values (fblk f b)) \<and>
        (\<forall>v \<in> set (Values (fblk f b)). v < nextValueID f \<and> vBlock (fval f v) = Some b))"

definition func_inv :: "Func \<Rightarrow> bool" where
  "func_inv f \<longleftrightarrow> Entry f = Some 0 \<and> 0 < nextBlockID f \<and> Blocks f = [0..<nextBlockID f] \<and> edges_inv f \<and> values_inv f"

lemma func_invD:
  assumes "func_inv f"
  shows "Entry f = Some 0" and "Blocks f = [0..<nextBlockID f]" and "edges_inv f" and "values_inv f"
  using assms by (simp_all add: func_inv_def)

lemma edge_at_snoc: "edge_at (es @ [e']) i e \<longleftrightarrow> edge_at es i e \<or> i = length es \<and> e = e'"
  by (auto simp: edge_at_def nth_append less_Suc_eq)

lemma AddEdge_fields [simp]:
  "Entry (AddEdge a b f) = Entry f" "Blocks (AddEdge a b f) = Blocks f" "nextBlockID (AddEdge a b f) = nextBlockID f"
  "nextValueID (AddEdge a b f) = nextValueID f" "fval (AddEdge a b f) = fval f" "TryRegions (AddEdge a b f) = TryRegions f"
  "Values (fblk (AddEdge a b f) c) = Values (fblk f c)"
  "Succs (fblk (AddEdge a b f) c) =
     (if c = a then Succs (fblk f a) @ [\<lparr>eBlock = b, eIndex = length (Preds (fblk f b))\<rparr>] else Succs (fblk f c))"
  "Preds (fblk (AddEdge a b f) c) =
     (if c = b then Preds (fblk f b) @ [\<lparr>eBlock = a, eIndex = length (Succs (fblk f a))\<rparr>] else Preds (fblk f c))"
  by (auto simp: AddEdge_def upd_blk_def Let_def)

lemma AddEdge_edges_inv:
  assumes "edges_inv f" and "a < nextBlockID f" and "b < nextBlockID f"
  shows "edges_inv (AddEdge a b f)"
proof -
  have m: "edge_at (Succs (fblk f x)) i \<lparr>eBlock = y, eIndex = j\<rparr> \<longleftrightarrow> edge_at (Preds (fblk f y)) j \<lparr>eBlock = x, eIndex = i\<rparr>"
    for x y i j using assms(1) by (simp add: edges_inv_def)
  have "edge_at (Succs (fblk (AddEdge a b f) x)) i \<lparr>eBlock = y, eIndex = j\<rparr> \<longleftrightarrow>
      edge_at (Preds (fblk (AddEdge a b f) y)) j \<lparr>eBlock = x, eIndex = i\<rparr>" for x y i j
    using m [of x i y j] by (auto simp: edge_at_snoc)
  then show ?thesis using assms by (auto simp: edges_inv_def)
qed

lemma AddEdge_inv: "func_inv f \<Longrightarrow> a < nextBlockID f \<Longrightarrow> b < nextBlockID f \<Longrightarrow> func_inv (AddEdge a b f)"
  unfolding func_inv_def using AddEdge_edges_inv [of f a b] by (auto simp: values_inv_def)

text \<open>Updates of a block that leave its edges and values alone, and of a value that leave its block.\<close>

lemma upd_blk_inv:
  assumes "func_inv f" and "\<And>blk. Succs (g blk) = Succs blk" and "\<And>blk. Preds (g blk) = Preds blk"
    and "\<And>blk. Values (g blk) = Values blk"
  shows "func_inv (upd_blk b g f)"
  using assms by (simp add: func_inv_def edges_inv_def values_inv_def upd_blk_def)

lemma upd_val_inv:
  assumes "func_inv f" and "\<And>v. vBlock (g v) = vBlock v"
  shows "func_inv (upd_val i g f)"
  using assms by (simp add: func_inv_def edges_inv_def values_inv_def upd_val_def)

lemma regions_inv [simp]: "func_inv (f\<lparr>TryRegions := rs\<rparr>) \<longleftrightarrow> func_inv f"
  by (simp add: func_inv_def edges_inv_def values_inv_def)

lemma NewBlock_fields [simp]:
  "fst (NewBlock k f) = nextBlockID f" "nextBlockID (snd (NewBlock k f)) = Suc (nextBlockID f)"
  "Entry (snd (NewBlock k f)) = Entry f" "Blocks (snd (NewBlock k f)) = Blocks f @ [nextBlockID f]"
  "nextValueID (snd (NewBlock k f)) = nextValueID f" "fval (snd (NewBlock k f)) = fval f"
  "TryRegions (snd (NewBlock k f)) = TryRegions f"
  "fblk (snd (NewBlock k f)) = (fblk f)(nextBlockID f := zero_block\<lparr>bKind := k\<rparr>)"
  by (simp_all add: NewBlock_def Let_def)

lemma NewBlock_inv:
  assumes "func_inv f"
  shows "func_inv (snd (NewBlock k f))"
proof -
  let ?n = "nextBlockID f"
  have z [simp]: "Succs (zero_block\<lparr>bKind := k\<rparr>) = []" "Preds (zero_block\<lparr>bKind := k\<rparr>) = []"
      "Values (zero_block\<lparr>bKind := k\<rparr>) = []" "\<not> edge_at [] i e" for i e
    by (simp_all add: zero_block_def edge_at_def)
  have m: "edge_at (Succs (fblk f x)) i \<lparr>eBlock = y, eIndex = j\<rparr> \<longleftrightarrow> edge_at (Preds (fblk f y)) j \<lparr>eBlock = x, eIndex = i\<rparr>"
    and n: "Succs (fblk f ?n) = []" "Preds (fblk f ?n) = []" for x y i j
    using func_invD(3) [OF assms] by (simp_all add: edges_inv_def)
  have "edges_inv (snd (NewBlock k f))"
    using func_invD(3) [OF assms] m [of ?n] m [of _ _ ?n] n by (auto simp: edges_inv_def)
  then show ?thesis using assms by (auto simp: func_inv_def values_inv_def)
qed

lemma append_value_inv:
  assumes "func_inv f"
  shows "func_inv (upd_blk c (\<lambda>blk. blk\<lparr>Values := Values blk @ [nextValueID f]\<rparr>)
    (snd (newValue op ty as (Some c) k aux f)))"
  using assms unfolding func_inv_def edges_inv_def values_inv_def newValue_def upd_blk_def
  by (auto simp: Let_def less_Suc_eq)

lemma add_marker_inv: "func_inv f \<Longrightarrow> func_inv (add_marker c f r)"
  using append_value_inv [of f c OpCopy "vTyp (fval f r)" "[Some r]" 0 AuxNil]
  by (simp add: add_marker_def newValue_def Let_def)

lemma add_marker_fields [simp]: "nextBlockID (add_marker c f r) = nextBlockID f" "TryRegions (add_marker c f r) = TryRegions f"
  by (simp_all add: add_marker_def newValue_def upd_blk_def Let_def)

lemma add_markers_inv: "func_inv f \<Longrightarrow> func_inv (foldl (add_marker c) f rs)"
  by (induction rs arbitrary: f) (simp_all add: add_marker_inv)

lemma add_markers_fields [simp]:
  "nextBlockID (foldl (add_marker c) f rs) = nextBlockID f" "TryRegions (foldl (add_marker c) f rs) = TryRegions f"
  by (induction rs arbitrary: f) simp_all

section \<open>The state\<close>

definition bound :: "lowerState \<Rightarrow> nat" where
  "bound s = nextBlockID (bf (ls_b s))"

definition opt_lt :: "nat \<Rightarrow> nat option \<Rightarrow> bool" where
  "opt_lt k x \<longleftrightarrow> (\<forall>b. x = Some b \<longrightarrow> b < k)"

definition frame_ok :: "nat \<Rightarrow> ctrlFrame \<Rightarrow> bool" where
  "frame_ok k f \<longleftrightarrow> cf_target f < k \<and> cf_fallthrough f < k \<and> opt_lt k (cf_elseBlk f) \<and>
     opt_lt k (cf_excChain f) \<and> opt_lt k (cf_excDispatch f)"

definition state_inv :: "lowerState \<Rightarrow> bool" where
  "state_inv s \<longleftrightarrow>
     func_inv (bf (ls_b s)) \<and> opt_lt (bound s) (cur (ls_b s)) \<and> opt_lt (bound s) (ls_excPropagate s) \<and>
     (\<forall>f \<in> set (ls_ctrl s). frame_ok (bound s) f) \<and>
     (\<forall>tr \<in> set (TryRegions (bf (ls_b s))). opt_lt (bound s) (Dispatch tr))"

text \<open>From one state to a later one.\<close>

definition goes :: "lowerState \<Rightarrow> lowerState \<Rightarrow> bool" where
  "goes s t \<longleftrightarrow>
     bound s \<le> bound t \<and> length (ls_rd t) \<le> length (ls_rd s) \<and> ls_mod t = ls_mod s \<and>
     ls_throwSet t = ls_throwSet s \<and> ls_inlineFrames t = ls_inlineFrames s \<and> ls_inlineInfo t = ls_inlineInfo s"

definition lkeeps :: "nat \<Rightarrow> 'a low \<Rightarrow> (nat \<Rightarrow> 'a \<Rightarrow> bool) \<Rightarrow> bool" where
  "lkeeps n m Q \<longleftrightarrow> (\<forall>s. state_inv s \<longrightarrow> n \<le> bound s \<longrightarrow>
     (case m s of Inl e \<Rightarrow> e \<noteq> out_of_fuel | Inr (x, t) \<Rightarrow> state_inv t \<and> goes s t \<and> Q (bound t) x))"

abbreviation any :: "nat \<Rightarrow> 'a \<Rightarrow> bool" where
  "any \<equiv> \<lambda>_ _. True"

lemma keepsI:
  assumes "\<And>s e. state_inv s \<Longrightarrow> n \<le> bound s \<Longrightarrow> m s = Inl e \<Longrightarrow> e \<noteq> out_of_fuel"
    and "\<And>s x t. state_inv s \<Longrightarrow> n \<le> bound s \<Longrightarrow> m s = Inr (x, t) \<Longrightarrow> state_inv t \<and> goes s t \<and> Q (bound t) x"
  shows "lkeeps n m Q"
  using assms by (auto simp: lkeeps_def split: sum.splits)

lemma keepsD:
  assumes "lkeeps n m Q" and "state_inv s" and "n \<le> bound s"
  shows "m s = Inl e \<Longrightarrow> e \<noteq> out_of_fuel"
    and "m s = Inr (x, t) \<Longrightarrow> state_inv t \<and> goes s t \<and> Q (bound t) x"
  using assms by (auto simp: lkeeps_def)

lemma goes_refl [simp]: "goes s s"
  by (simp add: goes_def)

lemma goes_trans: "goes s t \<Longrightarrow> goes t u \<Longrightarrow> goes s u"
  by (auto simp: goes_def)

lemma goes_bound: "goes s t \<Longrightarrow> bound s \<le> bound t"
  by (simp add: goes_def)

lemma opt_lt_mono: "opt_lt k x \<Longrightarrow> k \<le> n \<Longrightarrow> opt_lt n x"
  by (force simp: opt_lt_def)

lemma opt_lt_simps [simp]: "opt_lt k None" "opt_lt k (Some b) \<longleftrightarrow> b < k"
  by (simp_all add: opt_lt_def)

lemma frame_ok_mono: "frame_ok k f \<Longrightarrow> k \<le> n \<Longrightarrow> frame_ok n f"
  by (auto simp: frame_ok_def intro: opt_lt_mono)

lemma frame_ok_new [simp]: "frame_ok k (new_frame kind tgt fall r h) \<longleftrightarrow> tgt < k \<and> fall < k"
  by (simp add: frame_ok_def new_frame_def)

lemma frame_lt:
  assumes "frame_ok k f" and "k \<le> n"
  shows "cf_target f < n" and "cf_fallthrough f < n" and "cf_elseBlk f = Some b \<Longrightarrow> b < n"
    and "cf_excChain f = Some b \<Longrightarrow> b < n" and "cf_excDispatch f = Some b \<Longrightarrow> b < n"
  using frame_ok_mono [OF assms] by (auto simp: frame_ok_def)

section \<open>Composition\<close>

lemma keeps_bind:
  assumes m: "lkeeps n m Q" and f: "\<And>k x. n \<le> k \<Longrightarrow> Q k x \<Longrightarrow> lkeeps k (f x) R"
  shows "lkeeps n (lbind m f) R"
proof (rule keepsI)
  fix s e assume s: "state_inv s" "n \<le> bound s" and e: "lbind m f s = Inl e"
  show "e \<noteq> out_of_fuel"
  proof (cases "m s")
    case (Inl e')
    then show ?thesis using keepsD(1) [OF m s] e by (simp add: lbind_def)
  next
    case (Inr r)
    then obtain x t where t: "m s = Inr (x, t)" by (cases r) simp
    have "state_inv t \<and> goes s t \<and> Q (bound t) x" by (rule keepsD(2) [OF m s t])
    then have "lkeeps (bound t) (f x) R" "state_inv t" using f s(2) goes_bound [of s t] by auto
    then show ?thesis using keepsD(1) [of "bound t" "f x" R t e] e t by (simp add: lbind_def)
  qed
next
  fix s y u assume s: "state_inv s" "n \<le> bound s" and "lbind m f s = Inr (y, u)"
  then obtain x t where t: "m s = Inr (x, t)" "f x t = Inr (y, u)" by (auto simp: lbind_eq_Inr)
  have r: "state_inv t \<and> goes s t \<and> Q (bound t) x" by (rule keepsD(2) [OF m s t(1)])
  then have "lkeeps (bound t) (f x) R" using f s(2) goes_bound [of s t] by auto
  then have "state_inv u \<and> goes t u \<and> R (bound u) y" using keepsD(2) [of "bound t" "f x" R t y u] r t(2) by simp
  then show "state_inv u \<and> goes s u \<and> R (bound u) y" using r goes_trans [of s t u] by blast
qed

lemma keeps_weaken: "lkeeps n m Q \<Longrightarrow> (\<And>k x. n \<le> k \<Longrightarrow> Q k x \<Longrightarrow> R k x) \<Longrightarrow> lkeeps n m R"
proof (rule keepsI)
  fix s e assume "lkeeps n m Q" "state_inv s" "n \<le> bound s" "m s = Inl e"
  then show "e \<noteq> out_of_fuel" by (rule keepsD(1))
next
  fix s x t
  assume m: "lkeeps n m Q" and s: "state_inv s" "n \<le> bound s" "m s = Inr (x, t)"
    and w: "\<And>k x. n \<le> k \<Longrightarrow> Q k x \<Longrightarrow> R k x"
  have r: "state_inv t \<and> goes s t \<and> Q (bound t) x" by (rule keepsD(2) [OF m s])
  then have "n \<le> bound t" using goes_bound [of s t] s(2) by simp
  then show "state_inv t \<and> goes s t \<and> R (bound t) x" using r w by blast
qed

lemma keeps_any: "lkeeps n m Q \<Longrightarrow> lkeeps n m any"
  by (erule keeps_weaken) simp

lemma keeps_le: "lkeeps n m Q \<Longrightarrow> n \<le> k \<Longrightarrow> lkeeps k m Q"
  by (auto simp: lkeeps_def)

lemma keeps_bind_any: "lkeeps n m any \<Longrightarrow> (\<And>k x. n \<le> k \<Longrightarrow> lkeeps k (f x) R) \<Longrightarrow> lkeeps n (lbind m f) R"
  by (rule keeps_bind [of n m any])

lemma keeps_then: "lkeeps n m any \<Longrightarrow> (\<And>k. n \<le> k \<Longrightarrow> lkeeps k m' R) \<Longrightarrow> lkeeps n (lthen m m') R"
  unfolding lthen_def by (rule keeps_bind_any)

lemma keeps_ret: "(\<And>k. n \<le> k \<Longrightarrow> Q k x) \<Longrightarrow> lkeeps n (lret x) Q"
  by (simp add: lkeeps_def lret_def)

lemma keeps_fail: "e \<noteq> out_of_fuel \<Longrightarrow> lkeeps n (lfail e) Q"
  by (simp add: lkeeps_def lfail_def)

lemma keeps_get: "(\<And>s. state_inv s \<Longrightarrow> n \<le> bound s \<Longrightarrow> Q (bound s) (g s)) \<Longrightarrow> lkeeps n (lget g) Q"
  by (simp add: lkeeps_def lget_def)

lemma keeps_get_any: "lkeeps n (lget g) any"
  by (rule keeps_get) simp

lemma keeps_modify:
  "(\<And>s. state_inv s \<Longrightarrow> n \<le> bound s \<Longrightarrow> state_inv (g s) \<and> goes s (g s)) \<Longrightarrow> lkeeps n (lmodify g) any"
  by (simp add: lkeeps_def lmodify_def)

lemma keeps_if: "(c \<Longrightarrow> lkeeps n a Q) \<Longrightarrow> (\<not> c \<Longrightarrow> lkeeps n b Q) \<Longrightarrow> lkeeps n (if c then a else b) Q"
  by simp

lemma keeps_when: "(c \<Longrightarrow> lkeeps n m any) \<Longrightarrow> lkeeps n (lwhen c m) any"
  by (simp add: lwhen_def keeps_ret)

lemma keeps_check: "e \<noteq> out_of_fuel \<Longrightarrow> lkeeps n (lcheck c e) any"
  by (simp add: lcheck_def keeps_ret keeps_fail)

lemma keeps_bind_check:
  "e \<noteq> out_of_fuel \<Longrightarrow> (\<And>k. n \<le> k \<Longrightarrow> c \<Longrightarrow> lkeeps k m R) \<Longrightarrow> lkeeps n (lthen (lcheck c e) m) R"
  unfolding lthen_def
  by (rule keeps_bind [of n _ "\<lambda>_ _. c"]) (auto simp: lcheck_def intro: keeps_ret keeps_fail)

lemma keeps_option: "(x = None \<Longrightarrow> lkeeps n a Q) \<Longrightarrow> (\<And>y. x = Some y \<Longrightarrow> lkeeps n (b y) Q) \<Longrightarrow>
    lkeeps n (case x of None \<Rightarrow> a | Some y \<Rightarrow> b y) Q"
  by (cases x) simp_all

lemma keeps_sum: "(\<And>e. x = Inl e \<Longrightarrow> lkeeps n (a e) Q) \<Longrightarrow> (\<And>y. x = Inr y \<Longrightarrow> lkeeps n (b y) Q) \<Longrightarrow>
    lkeeps n (case x of Inl e \<Rightarrow> a e | Inr y \<Rightarrow> b y) Q"
  by (cases x) simp_all

lemma keeps_prod: "(\<And>a b. x = (a, b) \<Longrightarrow> lkeeps n (g a b) Q) \<Longrightarrow> lkeeps n (case x of (a, b) \<Rightarrow> g a b) Q"
  by (cases x) simp

lemma keeps_list: "(xs = [] \<Longrightarrow> lkeeps n a Q) \<Longrightarrow> (\<And>y ys. xs = y # ys \<Longrightarrow> lkeeps n (b y ys) Q) \<Longrightarrow>
    lkeeps n (case xs of [] \<Rightarrow> a | y # ys \<Rightarrow> b y ys) Q"
  by (cases xs) simp_all

lemma keeps_some: "lkeeps n (lsome x) any"
  by (auto simp: lsome_def out_of_fuel_def split: option.split intro: keeps_ret keeps_fail)

lemma keeps_bind_some:
  "(\<And>y. x = Some y \<Longrightarrow> lkeeps n (f y) R) \<Longrightarrow> lkeeps n (lbind (lsome x) f) R"
  by (cases x) (auto simp: lkeeps_def lbind_def lsome_def lfail_def lret_def out_of_fuel_def)

lemma keeps_nth: "lkeeps n (lnth xs i) any"
  by (auto simp: lnth_def out_of_fuel_def intro: keeps_ret keeps_fail)

lemma keeps_bind_nth:
  "(i < length xs \<Longrightarrow> lkeeps n (f (xs ! i)) R) \<Longrightarrow> lkeeps n (lbind (lnth xs i) f) R"
  by (auto simp: lkeeps_def lbind_def lnth_def lfail_def lret_def out_of_fuel_def)

lemma keeps_map: "(\<And>k x. n \<le> k \<Longrightarrow> x \<in> set xs \<Longrightarrow> lkeeps k (f x) any) \<Longrightarrow> lkeeps n (lmap f xs) any"
proof (induction xs arbitrary: n)
  case (Cons x xs)
  show ?case unfolding lmap.simps
    by (rule keeps_bind_any keeps_ret Cons.IH Cons.prems TrueI | simp)+
qed (simp add: keeps_ret)

section \<open>Reading, building and the stack\<close>

lemma bound_simps [simp]:
  "bound (s\<lparr>ls_rd := a\<rparr>) = bound s" "bound (s\<lparr>ls_stack := b\<rparr>) = bound s" "bound (s\<lparr>ls_locals := b\<rparr>) = bound s"
  "bound (s\<lparr>ls_incoming := c\<rparr>) = bound s" "bound (s\<lparr>ls_unreachable := d\<rparr>) = bound s"
  "bound (s\<lparr>ls_unreachableDepth := e\<rparr>) = bound s" "bound (s\<lparr>ls_ctrl := g\<rparr>) = bound s"
  "bound (s\<lparr>ls_excPropagate := h\<rparr>) = bound s" "bound (s\<lparr>ls_localTypes := i\<rparr>) = bound s"
  "bound (s\<lparr>ls_ft := j\<rparr>) = bound s" "bound (s\<lparr>ls_inlinedBytes := k\<rparr>) = bound s" "bound (s\<lparr>ls_inlineFrames := l\<rparr>) = bound s"
  "bound (s\<lparr>ls_b := bb\<rparr>) = nextBlockID (bf bb)"
  by (simp_all add: bound_def)

lemma state_inv_simps [simp]:
  "state_inv (s\<lparr>ls_rd := a\<rparr>) = state_inv s" "state_inv (s\<lparr>ls_stack := b\<rparr>) = state_inv s"
  "state_inv (s\<lparr>ls_locals := b\<rparr>) = state_inv s" "state_inv (s\<lparr>ls_incoming := c\<rparr>) = state_inv s"
  "state_inv (s\<lparr>ls_unreachable := d\<rparr>) = state_inv s" "state_inv (s\<lparr>ls_unreachableDepth := e\<rparr>) = state_inv s"
  "state_inv (s\<lparr>ls_localTypes := i\<rparr>) = state_inv s" "state_inv (s\<lparr>ls_ft := j\<rparr>) = state_inv s"
  "state_inv (s\<lparr>ls_inlinedBytes := k\<rparr>) = state_inv s" "state_inv (s\<lparr>ls_inlineFrames := l\<rparr>) = state_inv s"
  by (simp_all add: state_inv_def)

lemma state_invD:
  assumes "state_inv s"
  shows "func_inv (bf (ls_b s))" and "cur (ls_b s) = Some c \<Longrightarrow> c < bound s"
    and "ls_excPropagate s = Some p \<Longrightarrow> p < bound s" and "f \<in> set (ls_ctrl s) \<Longrightarrow> frame_ok (bound s) f"
    and "tr \<in> set (TryRegions (bf (ls_b s))) \<Longrightarrow> opt_lt (bound s) (Dispatch tr)"
  using assms by (auto simp: state_inv_def opt_lt_def)

text \<open>A new function that keeps the invariant and forgets no block.\<close>

lemma state_inv_builder:
  assumes "state_inv s" and "func_inv (bf b)" and "bound s \<le> nextBlockID (bf b)"
    and "opt_lt (nextBlockID (bf b)) (cur b)"
    and "\<And>tr. tr \<in> set (TryRegions (bf b)) \<Longrightarrow> opt_lt (nextBlockID (bf b)) (Dispatch tr)"
  shows "state_inv (s\<lparr>ls_b := b\<rparr>)" and "goes s (s\<lparr>ls_b := b\<rparr>)"
  using assms by (auto simp: state_inv_def goes_def intro: opt_lt_mono frame_ok_mono)

lemma keeps_read: "prefix_reader p \<Longrightarrow> lkeeps n (lread p) any"
  by (rule keepsI) (auto simp: lread_def goes_def out_of_fuel_def split: sum.splits elim: prefix_readerE)

lemma keeps_unsupported: "lkeeps n (unsupported fmt as) Q"
  by (simp add: unsupported_def keeps_fail out_of_fuel_def)

lemma keeps_plain_error: "lkeeps n (plain_error fmt as) Q"
  by (simp add: plain_error_def keeps_fail out_of_fuel_def)

lemma keeps_func:
  assumes "\<And>f. func_inv f \<Longrightarrow> n \<le> nextBlockID f \<Longrightarrow> func_inv (g f)" and "\<And>f. nextBlockID (g f) = nextBlockID f"
    and "\<And>f tr. tr \<in> set (TryRegions (g f)) \<Longrightarrow> \<exists>tr' \<in> set (TryRegions f). Dispatch tr = Dispatch tr'"
  shows "lkeeps n (lfunc g) any"
  unfolding lfunc_def
proof (rule keeps_modify)
  fix s assume s: "state_inv s" "n \<le> bound s"
  let ?b = "(ls_b s)\<lparr>bf := g (bf (ls_b s))\<rparr>"
  have "opt_lt (nextBlockID (bf ?b)) (Dispatch tr)" if "tr \<in> set (TryRegions (bf ?b))" for tr
    using assms(3) [of tr "bf (ls_b s)"] that state_invD(5) [OF s(1)] assms(2) by (auto simp: bound_def)
  then show "state_inv (s\<lparr>ls_b := ?b\<rparr>) \<and> goes s (s\<lparr>ls_b := ?b\<rparr>)"
    using state_inv_builder [OF s(1), of ?b] assms(1,2) s state_invD(1,2) [OF s(1)]
    by (auto simp: bound_def opt_lt_def)
qed

lemma keeps_build:
  assumes "\<And>b e. g b = Inl e \<Longrightarrow> e \<noteq> ''fuel''"
    and "\<And>b x b'. func_inv (bf b) \<Longrightarrow> opt_lt (nextBlockID (bf b)) (cur b) \<Longrightarrow> g b = Inr (x, b') \<Longrightarrow>
      func_inv (bf b') \<and> nextBlockID (bf b) \<le> nextBlockID (bf b') \<and> cur b' = cur b \<and>
      TryRegions (bf b') = TryRegions (bf b) \<and> Q (nextBlockID (bf b')) x"
  shows "lkeeps n (lbuild g) Q"
proof (rule keepsI)
  fix s e assume "lbuild g s = Inl e"
  then show "e \<noteq> out_of_fuel" using assms(1) [of "ls_b s"] by (auto simp: lbuild_def out_of_fuel_def split: sum.splits)
next
  fix s x t assume s: "state_inv s" and "n \<le> bound s" "lbuild g s = Inr (x, t)"
  then obtain b' where g: "g (ls_b s) = Inr (x, b')" and t: "t = s\<lparr>ls_b := b'\<rparr>"
    by (auto simp: lbuild_def split: sum.splits)
  have "opt_lt (nextBlockID (bf (ls_b s))) (cur (ls_b s))" using s by (simp add: state_inv_def bound_def)
  then have r: "func_inv (bf b')" "nextBlockID (bf (ls_b s)) \<le> nextBlockID (bf b')" "cur b' = cur (ls_b s)"
      "TryRegions (bf b') = TryRegions (bf (ls_b s))" "Q (nextBlockID (bf b')) x"
    using assms(2) [OF state_invD(1) [OF s] _ g] by auto
  have "opt_lt (nextBlockID (bf b')) (Dispatch tr)" if "tr \<in> set (TryRegions (bf b'))" for tr
    using state_invD(5) [OF s, of tr] that r(2,4) by (auto simp: bound_def intro: opt_lt_mono)
  moreover have "opt_lt (nextBlockID (bf b')) (cur b')"
    using s r(2,3) by (auto simp: state_inv_def bound_def intro: opt_lt_mono)
  ultimately show "state_inv t \<and> goes s t \<and> Q (bound t) x"
    using state_inv_builder [OF s r(1)] r(2,5) t by (simp add: bound_def)
qed

lemma bAppend_inv:
  assumes "func_inv (bf b)" and "bAppend op ty c aux as b = Inr (v, b')"
  shows "func_inv (bf b') \<and> nextBlockID (bf b) \<le> nextBlockID (bf b') \<and> cur b' = cur b \<and> TryRegions (bf b') = TryRegions (bf b)"
proof -
  obtain k where k: "cur b = Some k" using assms(2) by (auto simp: bAppend_def no_current_block_def split: option.splits)
  then have b': "b' = b\<lparr>bf := upd_blk k (\<lambda>blk. blk\<lparr>Values := Values blk @ [nextValueID (bf b)]\<rparr>)
      (snd (newValue op ty as (Some k) c aux (bf b)))\<rparr>"
    using assms(2) by (auto simp: bAppend_def newValue_def Let_def)
  show ?thesis using append_value_inv [OF assms(1), of k op ty as c aux] b'
    by (simp add: newValue_def upd_blk_def Let_def)
qed

lemma bAppend_error: "bAppend op ty c aux as b = Inl e \<Longrightarrow> e \<noteq> ''fuel''"
  by (auto simp: bAppend_def no_current_block_def Let_def split: option.splits prod.splits)

lemma keeps_lvalue: "lkeeps n (lvalue op ty c as) any"
  unfolding lvalue_def bNewValueAuxInt_def by (rule keeps_build) (use bAppend_error bAppend_inv in blast)+

lemma keeps_lvalueAux: "lkeeps n (lvalueAux op ty aux as) any"
  unfolding lvalueAux_def bNewValueAux_def by (rule keeps_build) (use bAppend_error bAppend_inv in blast)+

lemma keeps_lconst32: "lkeeps n (lconst32 c) any"
  unfolding lconst32_def Const32_def bNewValueAuxInt_def by (rule keeps_build) (use bAppend_error bAppend_inv in blast)+

lemma keeps_lconst64: "lkeeps n (lconst64 c) any"
  unfolding lconst64_def Const64_def bNewValueAuxInt_def by (rule keeps_build) (use bAppend_error bAppend_inv in blast)+

lemma keeps_param: "lkeeps n (lbuild (Param i t)) any"
  unfolding Param_def bNewValueAuxInt_def by (rule keeps_build) (use bAppend_error bAppend_inv in blast)+

lemma keeps_finishRet: "lkeeps n (lfinishRet rs) any"
  unfolding lfinishRet_def
proof (rule keeps_build)
  fix b e assume "(case FinishRet rs b of Inl e \<Rightarrow> Inl e | Inr b \<Rightarrow> Inr ((), b)) = Inl e"
  then show "e \<noteq> ''fuel''" by (auto simp: FinishRet_def no_current_block_def split: sum.splits option.splits)
next
  fix b x b' assume b: "func_inv (bf b)" and "(case FinishRet rs b of Inl e \<Rightarrow> Inl e | Inr b \<Rightarrow> Inr ((), b)) = Inr (x, b')"
  then obtain c where "b' = b\<lparr>bf := foldl (add_marker c) (upd_blk c (\<lambda>blk. blk\<lparr>bKind := BlockRet\<rparr>) (bf b)) rs\<rparr>"
    by (auto simp: FinishRet_def no_current_block_def split: sum.splits option.splits)
  moreover have "func_inv (foldl (add_marker c) (upd_blk c (\<lambda>blk. blk\<lparr>bKind := BlockRet\<rparr>) (bf b)) rs)"
    by (rule add_markers_inv, rule upd_blk_inv [OF b]) simp_all
  ultimately show "func_inv (bf b') \<and> nextBlockID (bf b) \<le> nextBlockID (bf b') \<and> cur b' = cur b \<and>
      TryRegions (bf b') = TryRegions (bf b) \<and> True"
    by (simp add: upd_blk_def)
qed

lemma keeps_newBlock: "lkeeps n (lnewBlock kd) (\<lambda>k b. b < k)"
  unfolding lnewBlock_def
proof (rule keeps_build)
  fix b x b' assume b: "func_inv (bf b)" and "Inr (bNewBlock kd b) = Inr (x, b')"
  then have "x = nextBlockID (bf b)" "b' = b\<lparr>bf := snd (NewBlock kd (bf b))\<rparr>"
    by (auto simp: bNewBlock_def split: prod.splits) (metis NewBlock_fields(1) fst_conv snd_conv)+
  then show "func_inv (bf b') \<and> nextBlockID (bf b) \<le> nextBlockID (bf b') \<and> cur b' = cur b \<and>
      TryRegions (bf b') = TryRegions (bf b) \<and> x < nextBlockID (bf b')"
    using NewBlock_inv [OF b] by simp
qed simp

lemma keeps_bind_newBlock: "(\<And>k b. n \<le> k \<Longrightarrow> b < k \<Longrightarrow> lkeeps k (f b) R) \<Longrightarrow> lkeeps n (lbind (lnewBlock kd) f) R"
  by (rule keeps_bind [OF keeps_newBlock])

lemma keeps_setCurrent: "b < n \<Longrightarrow> lkeeps n (lsetCurrent b) any"
  unfolding lsetCurrent_def
  by (rule keeps_modify) (auto simp: state_inv_def goes_def SetCurrent_def bound_def)

lemma keeps_current: "lkeeps n lcurrent (\<lambda>k c. c < k)"
  unfolding lcurrent_def
  by (rule keepsI) (auto simp: lbind_def lget_def lsome_def lret_def lfail_def out_of_fuel_def
      split: option.splits dest: state_invD(2))

lemma keeps_current_any: "lkeeps n lcurrent any"
  by (rule keeps_any [OF keeps_current])

lemma keeps_bind_current: "(\<And>k c. n \<le> k \<Longrightarrow> c < k \<Longrightarrow> lkeeps k (f c) R) \<Longrightarrow> lkeeps n (lbind lcurrent f) R"
  by (rule keeps_bind [OF keeps_current])

lemma keeps_upd_blk:
  assumes "\<And>blk. Succs (g blk) = Succs blk" and "\<And>blk. Preds (g blk) = Preds blk" and "\<And>blk. Values (g blk) = Values blk"
  shows "lkeeps n (lfunc (upd_blk b g)) any"
  by (rule keeps_func) (use assms in \<open>auto simp: upd_blk_inv\<close>, auto simp: upd_blk_def)

lemma keeps_kind: "lkeeps n (lkind k) any"
  unfolding lkind_def by (rule keeps_bind_any keeps_current_any keeps_upd_blk | simp)+

lemma keeps_control: "lkeeps n (lcontrol v) any"
  unfolding lcontrol_def by (rule keeps_bind_any keeps_current_any keeps_upd_blk | simp)+

lemma keeps_addEdge: "a < n \<Longrightarrow> b < n \<Longrightarrow> lkeeps n (lfunc (AddEdge a b)) any"
  by (rule keeps_func) (auto intro: AddEdge_inv)

lemma keeps_edge: "b < n \<Longrightarrow> lkeeps n (ledge b) any"
  unfolding ledge_def by (rule keeps_bind_current keeps_addEdge | simp)+

lemma keeps_push: "lkeeps n (lpush v) any"
  unfolding lpush_def by (rule keeps_modify) (simp add: goes_def)

lemma keeps_pop: "lkeeps n lpop any"
  by (rule keepsI) (auto simp: lpop_def goes_def out_of_fuel_def split: if_splits)

lemma keeps_popN: "lkeeps n (lpopN j) any"
proof (induction j arbitrary: n)
  case (Suc j)
  show ?case unfolding lpopN.simps by (rule keeps_bind_any keeps_pop Suc.IH keeps_ret TrueI)+
qed (simp add: keeps_ret)

lemma keeps_stack: "lkeeps n (lstack vs) any"
  unfolding lstack_def by (rule keeps_modify) (simp add: goes_def)

lemma keeps_locals: "lkeeps n (llocals vs) any"
  unfolding llocals_def by (rule keeps_modify) (simp add: goes_def)

lemma keeps_dead: "lkeeps n (ldead d) any"
  unfolding ldead_def by (rule keeps_modify) (simp add: goes_def)

lemmas keeps_prims = keeps_unsupported keeps_plain_error keeps_lvalue keeps_lvalueAux keeps_lconst32
  keeps_lconst64 keeps_param keeps_finishRet keeps_setCurrent keeps_current_any keeps_kind keeps_control keeps_edge keeps_push
  keeps_pop keeps_popN keeps_stack keeps_locals keeps_dead keeps_check keeps_get_any keeps_some keeps_nth TrueI

lemmas keeps_binds = keeps_bind_newBlock keeps_bind_current keeps_bind_some keeps_bind_nth keeps_bind_check keeps_bind_any keeps_then

section \<open>The handlers without control flow\<close>

lemma prefix_instr: "prefix_reader irReadS32" "prefix_reader irReadS33" "prefix_reader irReadS64"
  "prefix_reader irReadMemArg" "prefix_reader irReadVecU32" "prefix_reader (readVec (\<lambda>_. irReadByte) 0 j)"
  unfolding irReadS32_def irReadS33_def irReadS64_def irReadMemArg_def irReadVecU32_def by (intro prefix_intros)+

lemmas keeps_reads = keeps_read [OF prefix_irReadByte] keeps_read [OF prefix_irReadU32] keeps_read [OF prefix_irReadU64]
  keeps_read [OF prefix_irReadF32] keeps_read [OF prefix_irReadF64] keeps_read [OF prefix_instr(1)]
  keeps_read [OF prefix_instr(2)] keeps_read [OF prefix_instr(3)] keeps_read [OF prefix_instr(4)]
  keeps_read [OF prefix_instr(5)] keeps_read [OF prefix_instr(6)] keeps_read [OF prefix_SkipImmediates]

lemmas keeps_struct = keeps_if keeps_when keeps_option keeps_sum keeps_prod keeps_list keeps_map keeps_ret keeps_fail

lemmas keeps_rules = keeps_binds keeps_struct keeps_prims keeps_reads

lemma keeps_zeroValueOf: "lkeeps n (zeroValueOf t) any"
  unfolding zeroValueOf_def by (cases t) (simp_all, (rule keeps_prims)+)

lemma keeps_blocktype: "lkeeps n (lblocktype what) any"
  unfolding lblocktype_def by (rule keeps_rules)+

lemma keeps_localGet: "lkeeps n lower_localGet any"
  unfolding lower_localGet_def by (rule keeps_rules | simp add: out_of_fuel_def)+

lemma keeps_localSet: "lkeeps n lower_localSet any"
  unfolding lower_localSet_def by (rule keeps_rules | simp add: out_of_fuel_def)+

lemma keeps_localTee: "lkeeps n lower_localTee any"
  unfolding lower_localTee_def by (rule keeps_rules | simp add: out_of_fuel_def)+

lemma keeps_globals: "lkeeps n lower_globalGet any" "lkeeps n lower_globalSet any"
  unfolding lower_globalGet_def lower_globalSet_def by (rule keeps_rules)+

lemma keeps_memory: "lkeeps n lower_memSize any" "lkeeps n lower_memGrow any" "lkeeps n (handleMemoryOp opc) any"
  unfolding lower_memSize_def lower_memGrow_def handleMemoryOp_def Let_def by (rule keeps_rules)+

lemma keeps_arith: "lkeeps n (lower_simpleBinary opc) any" "lkeeps n (lower_helperBinary opc) any"
  "lkeeps n (lower_helperUnary opc) any" "lkeeps n (lower_eqz opc) any"
  unfolding lower_simpleBinary_def lower_helperBinary_def lower_helperUnary_def lower_eqz_def Let_def
  by (rule keeps_rules | simp add: out_of_fuel_def)+

lemma keeps_select: "lkeeps n (handleSelect opc) any"
  unfolding handleSelect_def lskip_bytes_def by (rule keeps_rules keeps_addEdge | linarith)+

lemma keeps_FE: "lkeeps n handleFEOp any"
  unfolding handleFEOp_def by (rule keeps_rules)+

lemma keeps_FC: "lkeeps n handleFCOp any"
  unfolding handleFCOp_def by (rule keeps_rules)+

lemma keeps_FD: "lkeeps n handleFDOp any"
  unfolding handleFDOp_def lower_simdMem_def lower_simdLane_def read_v128_def by (rule keeps_rules)+

lemma keeps_plain_op: "lkeeps n (plain_op opc) any"
  unfolding plain_op_def
  by (rule keeps_localGet keeps_localSet keeps_localTee keeps_globals keeps_memory keeps_arith keeps_FE keeps_FC keeps_FD
      keeps_rules)+

section \<open>Edges into join blocks\<close>

lemma keeps_recordIncoming: "lkeeps n (recordIncoming tgt r) any"
  unfolding recordIncoming_def
  by (rule keeps_rules keeps_modify | simp add: goes_def)+

lemma keeps_slot: "lkeeps n (merge_slot ty as) any" "lkeeps n (slot_values g es i) any"
  unfolding merge_slot_def slot_values_def by (rule keeps_rules)+

lemma keeps_merge: "lkeeps n (merge_local es i) any" "lkeeps n (merge_result es i) any" "lkeeps n (order_edges es tgt) any"
  unfolding merge_local_def merge_result_def order_edges_def by (rule keeps_rules keeps_slot)+

lemma keeps_merge_edges: "lkeeps n (merge_edges tgt r h es) any"
  unfolding merge_edges_def
  by (rule keeps_rules keeps_merge keeps_modify | simp add: goes_def out_of_fuel_def)+

lemma keeps_resolveIncoming: "lkeeps n (resolveIncoming tgt r h) any"
  unfolding resolveIncoming_def
  by (rule keeps_rules keeps_merge_edges keeps_modify | simp add: goes_def out_of_fuel_def)+

lemma loop_back_inv:
  "func_inv f \<Longrightarrow> func_inv (foldl (\<lambda>f (p, v). upd_val p (\<lambda>w. w\<lparr>vArgs := vArgs w @ [Some v]\<rparr>) f) f pvs)"
  "nextBlockID (foldl (\<lambda>f (p, v). upd_val p (\<lambda>w. w\<lparr>vArgs := vArgs w @ [Some v]\<rparr>) f) f pvs) = nextBlockID f"
  "TryRegions (foldl (\<lambda>f (p, v). upd_val p (\<lambda>w. w\<lparr>vArgs := vArgs w @ [Some v]\<rparr>) f) f pvs) = TryRegions f"
  by (induction pvs arbitrary: f) (auto simp: upd_val_inv, simp_all add: upd_val_def)

lemma keeps_appendLoopBackArgs: "lkeeps n (appendLoopBackArgs h) any"
  unfolding appendLoopBackArgs_def
  by (rule keeps_rules keeps_func loop_back_inv | auto simp: loop_back_inv)+

section \<open>Frames, regions and exceptions\<close>

lemma keeps_pushFrame: "frame_ok n f \<Longrightarrow> lkeeps n (lpushFrame f) any"
  unfolding lpushFrame_def by (rule keeps_modify) (auto simp: state_inv_def goes_def intro: frame_ok_mono)

lemma keeps_popFrame: "lkeeps n lpopFrame any"
  unfolding lpopFrame_def by (rule keeps_modify) (auto simp: state_inv_def goes_def dest: in_set_butlastD)

lemma keeps_setTop: "frame_ok n f \<Longrightarrow> lkeeps n (lsetTop f) any"
  unfolding lsetTop_def
  by (rule keeps_modify) (auto simp: state_inv_def goes_def intro: frame_ok_mono dest: in_set_butlastD)

lemma keeps_get_ctrl: "lkeeps n (lget ls_ctrl) (\<lambda>k ctrl. \<forall>f \<in> set ctrl. frame_ok k f)"
  by (rule keeps_get) (simp add: state_inv_def)

lemma keeps_bind_ctrl:
  "(\<And>k ctrl. n \<le> k \<Longrightarrow> (\<And>f. f \<in> set ctrl \<Longrightarrow> frame_ok k f) \<Longrightarrow> lkeeps k (g ctrl) R) \<Longrightarrow> lkeeps n (lbind (lget ls_ctrl) g) R"
  by (rule keeps_bind [OF keeps_get_ctrl]) simp

lemma keeps_height: "lkeeps n lheight any" "lkeeps n ldeadNow any"
  unfolding lheight_def ldeadNow_def by (rule keeps_rules)+

lemma keeps_frame: "e \<noteq> out_of_fuel \<Longrightarrow> lkeeps n (lframe d e) (\<lambda>k f. frame_ok k f)"
  unfolding lframe_def
proof (rule keeps_bind_ctrl, rule keeps_bind_check, assumption, rule keeps_ret)
  fix k ctrl k' k''
  assume "\<And>f. f \<in> set ctrl \<Longrightarrow> frame_ok k f" "k \<le> k'" "unat d < length ctrl" "k' \<le> k''"
  then show "frame_ok k'' (ctrl ! (length ctrl - 1 - unat d))"
    using frame_ok_mono [of k "ctrl ! (length ctrl - 1 - unat d)" k''] by simp
qed

lemma keeps_bind_frame:
  "e \<noteq> out_of_fuel \<Longrightarrow> (\<And>k f. n \<le> k \<Longrightarrow> frame_ok k f \<Longrightarrow> lkeeps k (g f) R) \<Longrightarrow> lkeeps n (lbind (lframe d e) g) R"
  by (rule keeps_bind [OF keeps_frame])

lemma keeps_region:
  assumes "\<And>tr. Dispatch (g tr) = Dispatch tr"
  shows "lkeeps n (lregion g i) any"
  unfolding lregion_def
proof (rule keeps_func)
  fix f :: Func and tr
  assume tr: "tr \<in> set (TryRegions (f\<lparr>TryRegions := (TryRegions f)[i := g (TryRegions f ! i)]\<rparr>))"
  show "\<exists>tr' \<in> set (TryRegions f). Dispatch tr = Dispatch tr'"
  proof (cases "i < length (TryRegions f)")
    case True
    have "tr = g (TryRegions f ! i) \<or> tr \<in> set (TryRegions f)"
      using tr set_update_subset_insert [of "TryRegions f" i "g (TryRegions f ! i)"] by auto
    then show ?thesis using assms nth_mem [OF True] by metis
  qed (use tr in \<open>auto simp: list_update_beyond\<close>)
qed simp_all

lemma keeps_goto: "b < n \<Longrightarrow> lkeeps n (lgoto b) any"
  unfolding lgoto_def by (rule keeps_rules | linarith)+

lemma keeps_close_into: "b < n \<Longrightarrow> lkeeps n (close_into b r) any"
  unfolding close_into_def by (rule keeps_rules keeps_recordIncoming keeps_goto | linarith)+

lemma keeps_enter_join: "b < n \<Longrightarrow> lkeeps n (enter_join b r h) any"
  unfolding enter_join_def by (rule keeps_rules keeps_resolveIncoming | linarith)+

lemma find_catching:
  assumes "\<And>f. f \<in> set ctrl \<Longrightarrow> frame_ok k f" and "et_dispatch (currentExcTarget ctrl) = Some d"
  shows "d < k"
proof -
  obtain f where "List.find catching (rev ctrl) = Some f" "cf_excDispatch f = Some d"
    using assms(2) by (auto simp: currentExcTarget_def split: option.splits)
  moreover from this have "f \<in> set ctrl" by (auto simp: find_Some_iff in_set_conv_nth) (metis length_rev nth_mem set_rev in_set_conv_nth)
  ultimately show ?thesis using frame_lt(5) [OF assms(1) order_refl] by blast
qed

lemma keeps_bind_target:
  "(\<And>k tgt. n \<le> k \<Longrightarrow> (\<And>d. et_dispatch tgt = Some d \<Longrightarrow> d < k) \<Longrightarrow> lkeeps k (g tgt) R) \<Longrightarrow>
   lkeeps n (lbind (lget (\<lambda>s. currentExcTarget (ls_ctrl s))) g) R"
  by (rule keeps_bind [OF keeps_get [of n "\<lambda>k tgt. \<forall>d. et_dispatch tgt = Some d \<longrightarrow> d < k"]])
    (auto intro: find_catching dest: state_invD(4))

lemma keeps_lres: "lkeeps n (lres r) any"
  unfolding lres_def by (rule keeps_rules)+

lemma state_inv_cur: "state_inv s \<Longrightarrow> opt_lt (bound s) c \<Longrightarrow> state_inv (s\<lparr>ls_b := (ls_b s)\<lparr>cur := c\<rparr>\<rparr>)"
  by (simp add: state_inv_def bound_def)

lemma state_inv_propagate: "state_inv s \<Longrightarrow> b < bound s \<Longrightarrow> state_inv (s\<lparr>ls_excPropagate := Some b\<rparr>)"
  by (simp add: state_inv_def)

lemma bound_cur [simp]: "bound (s\<lparr>ls_b := (ls_b s)\<lparr>cur := c\<rparr>\<rparr>) = bound s"
  by (simp add: bound_def)

lemma keeps_bind_saved:
  "(\<And>k c x. n \<le> k \<Longrightarrow> opt_lt k c \<Longrightarrow> lkeeps k (f c x) R) \<Longrightarrow>
   lkeeps n (lbind (lget (\<lambda>s. (cur (ls_b s), h s))) (case_prod f)) R"
  by (rule keeps_bind [OF keeps_get [of n "\<lambda>k p. opt_lt k (fst p)"]]) (auto simp: state_inv_def)

lemma keeps_bind_saved2:
  "(\<And>k c x. n \<le> k \<Longrightarrow> opt_lt k c \<Longrightarrow> lkeeps k (f x c) R) \<Longrightarrow>
   lkeeps n (lbind (lget (\<lambda>s. (h s, cur (ls_b s)))) (case_prod f)) R"
  by (rule keeps_bind [OF keeps_get [of n "\<lambda>k p. opt_lt k (snd p)"]]) (auto simp: state_inv_def)

lemma keeps_bind_propagate:
  "(\<And>k p. n \<le> k \<Longrightarrow> opt_lt k p \<Longrightarrow> lkeeps k (f p) R) \<Longrightarrow> lkeeps n (lbind (lget ls_excPropagate) f) R"
  by (rule keeps_bind [OF keeps_get [of n "\<lambda>k p. opt_lt k p"]]) (simp_all add: state_inv_def)

lemma keeps_save_propagate:
  "opt_lt n c \<Longrightarrow> b < n \<Longrightarrow> lkeeps n (lmodify (\<lambda>s. s\<lparr>ls_b := (ls_b s)\<lparr>cur := c\<rparr>, ls_excPropagate := Some b\<rparr>)) any"
  by (rule keeps_modify)
    (auto simp: goes_def bound_def intro!: state_inv_propagate state_inv_cur elim: opt_lt_mono)

lemma keeps_propagateBlock: "lkeeps n propagateBlock (\<lambda>k b. b < k)"
  unfolding propagateBlock_def
  by (rule keeps_bind_propagate keeps_bind_saved keeps_zeroValueOf keeps_save_propagate keeps_rules |
      (erule opt_lt_mono, linarith) | linarith | force)+

lemma keeps_propagate_any: "lkeeps n propagateBlock any"
  by (rule keeps_any [OF keeps_propagateBlock])

lemma keeps_restore:
  "opt_lt n c \<Longrightarrow> lkeeps n (lmodify (\<lambda>s. s\<lparr>ls_b := (ls_b s)\<lparr>cur := c\<rparr>, ls_unreachable := d, ls_stack := st, ls_locals := ls\<rparr>)) any"
  "opt_lt n c \<Longrightarrow> lkeeps n (lmodify (\<lambda>s. s\<lparr>ls_b := (ls_b s)\<lparr>cur := c\<rparr>, ls_unreachable := d\<rparr>)) any"
  "opt_lt n c \<Longrightarrow> lkeeps n (lmodify (\<lambda>s. s\<lparr>ls_b := (ls_b s)\<lparr>cur := c\<rparr>, ls_locals := ls\<rparr>)) any"
  by (rule keeps_modify; auto simp: goes_def bound_def intro!: state_inv_cur elim: opt_lt_mono)+

lemma keeps_bind_excBlk:
  assumes "\<And>d. x = Some d \<Longrightarrow> d < n" and "\<And>k b. n \<le> k \<Longrightarrow> b < k \<Longrightarrow> lkeeps k (f b) R"
  shows "lkeeps n (lbind (case x of Some d \<Rightarrow> lthen (recordIncoming d 0) (lret d) | None \<Rightarrow> propagateBlock) f) R"
proof (rule keeps_bind [where Q = "\<lambda>k b. b < k"])
  show "lkeeps n (case x of Some d \<Rightarrow> lthen (recordIncoming d 0) (lret d) | None \<Rightarrow> propagateBlock) (\<lambda>k b. b < k)"
  proof (cases x)
    case (Some d)
    then have d: "d < n" using assms(1) by simp
    show ?thesis unfolding Some option.case
      by (rule keeps_recordIncoming keeps_rules | (use d in linarith))+
  qed (simp add: keeps_propagateBlock)
qed (rule assms(2))

lemma keeps_catch_panic:
  assumes "lkeeps n m any" and "e' \<noteq> out_of_fuel"
  shows "lkeeps n (\<lambda>s. case m s of Inl e \<Rightarrow> Inl e' | Inr r \<Rightarrow> Inr r) any"
  using assms by (auto simp: lkeeps_def split: sum.splits)

lemma keeps_emitExcCheck: "lkeeps n emitExcCheck any"
  unfolding emitExcCheck_def
  by (rule keeps_bind_target keeps_bind_excBlk keeps_catch_panic keeps_resolveIncoming keeps_recordIncoming keeps_height
      keeps_rules | linarith | (simp add: out_of_fuel_def))+

lemma keeps_gotoExcTarget: "lkeeps n gotoExcTarget any"
  unfolding gotoExcTarget_def
  by (rule keeps_bind_target keeps_bind [OF keeps_propagateBlock] keeps_recordIncoming keeps_addEdge keeps_rules |
      linarith | force)+

lemma keeps_raiseAndGo: "lkeeps n (raiseAndGo tag vs) any"
  unfolding raiseAndGo_def by (rule keeps_gotoExcTarget keeps_rules)+

lemma sealDead_inv:
  "func_inv f \<Longrightarrow> func_inv (foldl (\<lambda>f b. sealDead b f) f bs)"
  "nextBlockID (foldl (\<lambda>f b. sealDead b f) f bs) = nextBlockID f"
  "TryRegions (foldl (\<lambda>f b. sealDead b f) f bs) = TryRegions f"
  by (induction bs arbitrary: f) (auto simp: sealDead_def upd_blk_inv, simp_all add: sealDead_def upd_blk_def)

lemma keeps_sealDeadExcBlocks: "lkeeps n (sealDeadExcBlocks r x) any"
  unfolding sealDeadExcBlocks_def by (rule keeps_func) (auto simp: sealDead_inv)

section \<open>Try regions\<close>

lemma keeps_addRegion:
  "b < n \<Longrightarrow> lkeeps n (lfunc (\<lambda>f. f\<lparr>TryRegions := TryRegions f @ [\<lparr>trEntry = x, Post = y, Handlers = hs, trBody = bs,
     Dispatch = Some b, Delegate = d, DelegateTarget = t\<rparr>]\<rparr>)) any"
  unfolding lfunc_def
  by (rule keeps_modify) (auto simp: state_inv_def goes_def bound_def)

lemma keeps_handleTry: "lkeeps n handleTry any"
  unfolding handleTry_def
  by (rule keeps_blocktype keeps_goto keeps_addRegion keeps_height keeps_pushFrame keeps_rules | linarith |
      (simp add: frame_ok_def new_frame_def))+

lemma keeps_captureTryBody: "lkeeps n (captureTryBody f) any"
proof (cases "cf_tryRegion f")
  case (Some i)
  have "tr \<in> set (TryRegions (if trBody (TryRegions fn ! i) \<noteq> [] then fn
      else fn\<lparr>TryRegions := (TryRegions fn)[i := (TryRegions fn ! i)\<lparr>trBody := body_blocks fn (TryRegions fn ! i)\<rparr>]\<rparr>)) \<Longrightarrow>
      \<exists>tr' \<in> set (TryRegions fn). Dispatch tr = Dispatch tr'" for fn :: Func and tr
  proof (cases "i < length (TryRegions fn)")
    case True
    assume "tr \<in> set (TryRegions (if trBody (TryRegions fn ! i) \<noteq> [] then fn
      else fn\<lparr>TryRegions := (TryRegions fn)[i := (TryRegions fn ! i)\<lparr>trBody := body_blocks fn (TryRegions fn ! i)\<rparr>]\<rparr>))"
    then have "tr \<in> set (TryRegions fn) \<or> Dispatch tr = Dispatch (TryRegions fn ! i)"
      using set_update_subset_insert [of "TryRegions fn" i "(TryRegions fn ! i)\<lparr>trBody := body_blocks fn (TryRegions fn ! i)\<rparr>"]
      by (auto split: if_splits)
    then show ?thesis using nth_mem [OF True] by metis
  qed (auto simp: list_update_beyond split: if_splits)
  then show ?thesis unfolding captureTryBody_def Some option.case by (intro keeps_func) simp_all
qed (simp add: captureTryBody_def keeps_ret)

lemma frame_ok_exc:
  "frame_ok k f \<Longrightarrow> frame_ok k (f\<lparr>cf_excDispatchLocals := a, cf_excSavedTag := b, cf_excSavedVals := c, cf_excTagVal := d\<rparr>)"
  "frame_ok k f \<Longrightarrow> frame_ok k (f\<lparr>cf_inHandler := e\<rparr>)"
  "frame_ok k f \<Longrightarrow> frame_ok k (f\<lparr>cf_haveElse := e\<rparr>)"
  "frame_ok k f \<Longrightarrow> frame_ok k (f\<lparr>cf_excChain := None, cf_excHasCatchAll := e\<rparr>)"
  "frame_ok k f \<Longrightarrow> x < k \<Longrightarrow> frame_ok k (f\<lparr>cf_excChain := Some x\<rparr>)"
  "frame_ok k f \<Longrightarrow> x < k \<Longrightarrow> frame_ok k (f\<lparr>cf_excChain := Some x, cf_excDead := e\<rparr>)"
  by (simp_all add: frame_ok_def)

lemma keeps_cutStack: "lkeeps n (lmodify (\<lambda>s. s\<lparr>ls_stack := g s\<rparr>)) any"
  by (rule keeps_modify) (simp add: goes_def)

lemma keeps_openDispatch: "frame_ok n f \<Longrightarrow> lkeeps n (openDispatch f) (\<lambda>k f. frame_ok k f)"
  unfolding openDispatch_def
  by (rule keeps_resolveIncoming keeps_height keeps_cutStack keeps_rules frame_ok_exc | (erule frame_lt(5), linarith, assumption) |
      (erule (1) frame_lt(5) [OF _ order_refl]) | (erule frame_ok_mono, linarith) | (simp add: out_of_fuel_def))+

end
