(* ===== verification/LowerKeeps.thy ===== *)
theory LowerKeeps
  imports LowerInv
begin

text \<open>
  The invariant of \<open>LowerInv\<close> for the handlers of exceptions, structured control, branches and calls,
  and for the loop over a body, which always ends within its fuel.
\<close>

section \<open>Clauses of a try\<close>

lemma keeps_bind_open:
  "frame_ok n f \<Longrightarrow> (\<And>k f. n \<le> k \<Longrightarrow> frame_ok k f \<Longrightarrow> lkeeps k (g f) R) \<Longrightarrow> lkeeps n (lbind (openDispatch f) g) R"
  by (rule keeps_bind [OF keeps_openDispatch])

lemma keeps_clause_start:
  assumes "frame_ok n f"
  shows "lkeeps n (case cf_excChain f of
        None \<Rightarrow>
          lbind (openDispatch f) (\<lambda>f.
          lbind lcurrent (\<lambda>c.
          lbind (lget (\<lambda>s. Preds (fblk (bf (ls_b s)) (the (cf_excDispatch f))))) (\<lambda>ps.
          lret (f\<lparr>cf_excChain := Some c, cf_excDead := (ps = [])\<rparr>))))
      | Some c \<Rightarrow> lthen (lsetCurrent c) (lthen (llocals (cf_excDispatchLocals f)) (lret f))) (\<lambda>k f. frame_ok k f)"
proof (cases "cf_excChain f")
  case None
  show ?thesis unfolding None option.case
    by (rule keeps_bind_open assms keeps_rules frame_ok_exc | (erule frame_ok_mono, linarith) | linarith)+
next
  case (Some c)
  then have "c < n" using frame_lt(4) [OF assms order_refl] by simp
  then show ?thesis unfolding Some option.case
    by (intro keeps_then keeps_ret keeps_setCurrent keeps_locals) (use assms in \<open>auto elim: frame_ok_mono\<close>)
qed

lemma keeps_beginClause: "frame_ok n f \<Longrightarrow> lkeeps n (beginClause f ca t) (\<lambda>k r. frame_ok k (snd r))"
  unfolding beginClause_def
proof (rule keeps_bind [OF keeps_clause_start])
  fix k f assume f: "frame_ok k f"
  show "lkeeps k
    (lthen (ldead (cf_excDead f))
    (lthen (lmodify (\<lambda>s. s\<lparr>ls_stack := (if cf_stackHeightAtEntry f \<le> length (ls_stack s)
                                          then take (cf_stackHeightAtEntry f) (ls_stack s) else [])\<rparr>))
    (if ca then lbind lcurrent (\<lambda>c. lret (c, f\<lparr>cf_excChain := None, cf_excHasCatchAll := True\<rparr>))
     else
       lbind (lnewBlock BlockPlain) (\<lambda>handler.
       lbind (lnewBlock BlockPlain) (\<lambda>nxt.
       lbind (lconst32 t) (\<lambda>k.
       lbind (lsome (cf_excTagVal f)) (\<lambda>tag.
       lbind (lvalue OpEq32 TypeBool 0 [tag, k]) (\<lambda>cmp.
       lthen (lkind BlockIf) (lthen (lcontrol cmp)
      (lthen (ledge handler) (lthen (ledge nxt)
      (lthen (lsetCurrent handler)
      (lret (handler, f\<lparr>cf_excChain := Some nxt\<rparr>)))))))))))))) (\<lambda>k r. frame_ok k (snd r))"
    by (rule keeps_cutStack keeps_rules | (simp only: snd_conv) | rule frame_ok_exc | (rule frame_ok_mono [OF f], linarith) |
        linarith)+
qed

lemma keeps_catch_args: "lkeeps n (catch_args f t) any"
  unfolding catch_args_def
  by (rule keeps_lres keeps_rules | (simp add: out_of_fuel_def))+

lemma keeps_bind_clause:
  "frame_ok n f \<Longrightarrow> (\<And>k c f. n \<le> k \<Longrightarrow> frame_ok k f \<Longrightarrow> lkeeps k (g c f) R) \<Longrightarrow>
   lkeeps n (lbind (beginClause f ca t) (case_prod g)) R"
  by (rule keeps_bind [OF keeps_beginClause]) auto

lemma keeps_bind_top:
  assumes "e \<noteq> out_of_fuel" and "\<And>k ctrl. n \<le> k \<Longrightarrow> frame_ok k (last ctrl) \<Longrightarrow> lkeeps k (g ctrl) R"
  shows "lkeeps n (lbind (lget ls_ctrl) (\<lambda>ctrl. lthen (lcheck (ctrl \<noteq> [] \<and> P ctrl) e) (g ctrl))) R"
proof (rule keeps_bind_ctrl, rule keeps_bind_check [OF assms(1)])
  fix k k' ctrl assume "n \<le> k" "\<And>f. f \<in> set ctrl \<Longrightarrow> frame_ok k f" "k \<le> k'" "ctrl \<noteq> [] \<and> P ctrl"
  then show "lkeeps k' (g ctrl) R" using assms(2) [of k' ctrl] frame_ok_mono [of k "last ctrl" k'] by auto
qed

lemma keeps_close_frame:
  assumes "frame_ok n f"
  shows "lkeeps n (close_into (cf_target f) r) any" and "lkeeps n (close_into (cf_fallthrough f) r) any"
    and "lkeeps n (enter_join (cf_target f) r h) any" and "lkeeps n (enter_join (cf_fallthrough f) r h) any"
  using frame_lt(1,2) [OF assms order_refl] by (auto intro: keeps_close_into keeps_enter_join)

lemma keeps_beginHandler: "lkeeps n (beginHandler ca t) any"
  unfolding beginHandler_def Let_def
  by (rule keeps_bind_top keeps_captureTryBody keeps_height keeps_close_frame keeps_setTop keeps_bind_clause keeps_catch_args
        keeps_region keeps_rules frame_ok_exc |
      (erule frame_ok_mono, linarith) | (simp add: out_of_fuel_def))+

lemma keeps_handleCatch: "lkeeps n handleCatch any" "lkeeps n handleCatchAll any"
  unfolding handleCatch_def handleCatchAll_def by (rule keeps_beginHandler keeps_rules)+

lemma keeps_closeChain: "frame_ok n f \<Longrightarrow> lkeeps n (closeChain f) any"
  unfolding closeChain_def
  by (rule keeps_bind_saved keeps_gotoExcTarget keeps_restore keeps_rules | (erule frame_lt(4), linarith, assumption) |
      (erule opt_lt_mono, linarith))+

lemma forward_lt:
  assumes "state_inv s" and "Option.bind i (forward_target (TryRegions (bf (ls_b s)))) = Some b"
  shows "b < bound s"
proof -
  obtain j where "j < length (TryRegions (bf (ls_b s)))" "Dispatch (TryRegions (bf (ls_b s)) ! j) = Some b"
    using assms(2) by (auto simp: forward_target_def bind_eq_Some_conv nth_opt_def split: if_splits)
  then show ?thesis using state_invD(5) [OF assms(1) nth_mem] by (auto simp: opt_lt_def)
qed

lemma keeps_bind_forward:
  "(\<And>k tgt. n \<le> k \<Longrightarrow> opt_lt k tgt \<Longrightarrow> lkeeps k (g tgt) R) \<Longrightarrow>
   lkeeps n (lbind (lget (\<lambda>s. Option.bind i (forward_target (TryRegions (bf (ls_b s)))))) g) R"
  by (rule keeps_bind [OF keeps_get [of n "\<lambda>k tgt. opt_lt k tgt"]]) (auto simp: opt_lt_def intro: forward_lt)

lemma keeps_forward_delegate: "d < n \<Longrightarrow> lkeeps n (forward_delegate f d) any"
  unfolding forward_delegate_def
  by (rule keeps_bind_saved keeps_resolveIncoming keeps_cutStack keeps_bind_forward keeps_recordIncoming keeps_gotoExcTarget
      keeps_restore keeps_rules | (erule opt_lt_mono, linarith) | linarith | (force simp: opt_lt_def))+

lemma keeps_handleDelegate: "lkeeps n handleDelegate any"
  unfolding handleDelegate_def Let_def
  by (rule keeps_bind_top keeps_popFrame keeps_captureTryBody keeps_region keeps_height keeps_close_frame keeps_forward_delegate
      keeps_sealDeadExcBlocks keeps_rules | (erule frame_ok_mono, linarith) | (erule frame_lt(5), linarith, assumption) |
      (simp add: out_of_fuel_def split: option.split))+

lemma keeps_handleRethrow: "lkeeps n handleRethrow any"
  unfolding handleRethrow_def
  by (rule keeps_bind_frame keeps_raiseAndGo keeps_rules | (simp add: out_of_fuel_def))+

lemma keeps_handleThrow: "lkeeps n handleThrow any"
  unfolding handleThrow_def
  by (rule keeps_lres keeps_raiseAndGo keeps_rules | (simp add: out_of_fuel_def))+

section \<open>Structured control and branches\<close>

lemma keeps_handleBlock: "lkeeps n handleBlock any"
  unfolding handleBlock_def
  by (rule keeps_blocktype keeps_height keeps_pushFrame keeps_rules | (simp only: frame_ok_new) | linarith)+

lemma keeps_header_phi: "lkeeps n (header_phi tys p) any"
  unfolding header_phi_def by (rule keeps_rules)+

lemma keeps_handleLoop: "lkeeps n handleLoop any"
  unfolding handleLoop_def
  by (rule keeps_blocktype keeps_goto keeps_header_phi keeps_height keeps_pushFrame keeps_rules | (simp only: frame_ok_new) | linarith)+

lemma keeps_handleIf: "lkeeps n handleIf any"
  unfolding handleIf_def
  by (rule keeps_blocktype keeps_pushFrame keeps_rules | (simp add: frame_ok_def new_frame_def) | linarith)+

lemma keeps_lcut: "lkeeps n (lcut h) any"
  unfolding lcut_def by (rule keeps_rules | (simp add: out_of_fuel_def))+

lemma keeps_handleElse: "lkeeps n handleElse any"
  unfolding handleElse_def Let_def
  by (rule keeps_bind_top keeps_height keeps_close_frame keeps_lcut keeps_setTop keeps_rules frame_ok_exc |
      (erule frame_ok_mono, linarith) | (erule frame_lt(3), linarith, assumption) | (simp add: out_of_fuel_def))+

lemma keeps_branch_to: "lkeeps n (branch_to f r) any"
  unfolding branch_to_def by (rule keeps_recordIncoming keeps_appendLoopBackArgs keeps_rules)+

lemma keeps_jump_to: "frame_ok n f \<Longrightarrow> lkeeps n (jump_to f) any"
  unfolding jump_to_def by (rule keeps_branch_to keeps_goto keeps_rules | (erule frame_lt(1), linarith))+

lemma keeps_handleBr: "lkeeps n handleBr any"
  unfolding handleBr_def by (rule keeps_bind_frame keeps_jump_to keeps_rules | assumption | (simp add: out_of_fuel_def))+

lemma keeps_handleBrIf: "lkeeps n handleBrIf any"
  unfolding handleBrIf_def
  by (rule keeps_bind_frame keeps_branch_to keeps_rules | (erule frame_lt(1), linarith) | linarith | (simp add: out_of_fuel_def))+

lemma keeps_lcase: "lkeeps n (lcase c g) any"
  unfolding lcase_def by (rule keeps_upd_blk) simp_all

text \<open>The frames that the labels of a table name.\<close>

definition labels_ok :: "nat \<Rightarrow> ctrlFrame list \<Rightarrow> u32 \<Rightarrow> bool" where
  "labels_ok k ctrl d \<longleftrightarrow> frame_ok k (ctrl ! (length ctrl - 1 - unat d))"

lemma labels_ok_mono: "labels_ok k ctrl d \<Longrightarrow> k \<le> n \<Longrightarrow> labels_ok n ctrl d"
  unfolding labels_ok_def by (rule frame_ok_mono)

lemma label_lt: "labels_ok k ctrl d \<Longrightarrow> k \<le> n \<Longrightarrow> cf_target (ctrl ! (length ctrl - 1 - unat d)) < n"
  unfolding labels_ok_def by (rule frame_lt(1))

lemma keeps_addTarget: "labels_ok n ctrl d \<Longrightarrow> lkeeps n (addTarget ctrl d si) any"
  unfolding addTarget_def Let_def
  by (rule keeps_branch_to keeps_lcase keeps_rules | (erule label_lt, linarith))+

lemma keeps_addCases: "(\<And>i d. (i, d) \<in> set cs \<Longrightarrow> labels_ok n ctrl d) \<Longrightarrow> lkeeps n (addCases ctrl cs si) any"
proof (induction cs arbitrary: si n)
  case (Cons c cs)
  obtain i d where c: "c = (i, d)" by (cases c)
  have d: "labels_ok n ctrl d" using Cons.prems [of i d] c by simp
  have cs: "labels_ok n ctrl d'" if "(j, d') \<in> set cs" for j d' using Cons.prems [of j d'] that by simp
  show ?case unfolding c addCases.simps
    by (rule keeps_addTarget keeps_lcase Cons.IH keeps_rules | (rule d) | (rule labels_ok_mono, erule cs, linarith))+
qed (simp add: keeps_ret)

lemma keeps_chainCases: "(\<And>i d. (i, d) \<in> set cs \<Longrightarrow> labels_ok n ctrl d) \<Longrightarrow> lkeeps n (chainCases ctrl sel cs) any"
proof (induction cs arbitrary: n)
  case (Cons c cs)
  obtain i d where c: "c = (i, d)" by (cases c)
  have d: "labels_ok n ctrl d" using Cons.prems [of i d] c by simp
  have cs: "labels_ok n ctrl d'" if "(j, d') \<in> set cs" for j d' using Cons.prems [of j d'] that by simp
  show ?case unfolding c chainCases.simps Let_def
    by (rule keeps_branch_to Cons.IH keeps_rules | (rule label_lt [OF d], linarith) | linarith |
        (rule labels_ok_mono, erule cs, linarith))+
qed (simp add: keeps_ret)

lemma foldl_max_ge: "(a :: nat) \<le> foldl max a xs \<and> (\<forall>x \<in> set xs. x \<le> foldl max a xs)"
proof (induction xs arbitrary: a)
  case (Cons x xs)
  have "max a x \<le> foldl max (max a x) xs" "\<forall>y \<in> set xs. y \<le> foldl max (max a x) xs" using Cons by simp_all
  then show ?case by auto
qed simp

lemma keeps_handleBrTable: "lkeeps n handleBrTable any"
  unfolding handleBrTable_def Let_def
proof (rule keeps_bind_any [OF keeps_read [OF prefix_instr(5)]], rule keeps_bind_any [OF keeps_read [OF prefix_irReadU32]],
    rule keeps_bind_any [OF keeps_pop], rule keeps_bind_ctrl, rule keeps_bind_check)
  fix cases :: "u32 list" and dflt :: u32 and sel k k' ctrl
  assume ctrl: "\<And>f. f \<in> set ctrl \<Longrightarrow> frame_ok k f" "k \<le> k'" "foldl max (unat dflt) (map unat cases) < length ctrl"
  have lab: "labels_ok j ctrl d" if "d \<in> set cases \<or> d = dflt" "k \<le> j" for d j
  proof -
    have "unat d < length ctrl" using that(1) ctrl(3) foldl_max_ge [of "unat dflt" "map unat cases"] by auto
    then have "ctrl ! (length ctrl - 1 - unat d) \<in> set ctrl" by simp
    then show ?thesis using ctrl(1) frame_ok_mono that(2) unfolding labels_ok_def by blast
  qed
  have en: "d \<in> set cases" if "(i, d) \<in> set (enumerate 0 cases)" for i d
    using that by (auto simp: in_set_enumerate_eq)
  show "lkeeps k' (lthen (lcheck (\<forall>d \<in> set cases. branchArity (ctrl ! (length ctrl - 1 - unat d)) = branchArity (ctrl ! (length ctrl - 1 - unat dflt)))
        (Unsupported ''br_table target %d has branch arity %d, default has %d'' []))
    (if branchArity (ctrl ! (length ctrl - 1 - unat dflt)) = 0 then
       lthen (lkind BlockBrTable)
      (lthen (lcontrol sel)
      (lbind (addCases ctrl (enumerate 0 cases) []) (\<lambda>succIdx.
       lbind (addTarget ctrl dflt succIdx) (\<lambda>(si, _).
       lbind lcurrent (\<lambda>c.
       lthen (lfunc (upd_blk c (\<lambda>b. b\<lparr>TableDefault := si\<rparr>)))
        (ldead True))))))
     else lthen (chainCases ctrl sel (enumerate 0 cases)) (jump_to (ctrl ! (length ctrl - 1 - unat dflt))))) any"
    by (rule keeps_addCases keeps_addTarget keeps_chainCases keeps_jump_to keeps_upd_blk keeps_rules |
      (rule lab, erule disjI1 [OF en], use ctrl(2) in linarith) | (rule lab, simp, use ctrl(2) in linarith) |
      (rule lab [unfolded labels_ok_def], simp, use ctrl(2) in linarith) | (simp add: out_of_fuel_def))+
qed (simp add: out_of_fuel_def)

section \<open>Returns and ends\<close>

lemma keeps_bind_ctrl3:
  "(\<And>k x ctrl y. n \<le> k \<Longrightarrow> (\<And>f. f \<in> set ctrl \<Longrightarrow> frame_ok k f) \<Longrightarrow> lkeeps k (g x ctrl y) R) \<Longrightarrow>
   lkeeps n (lbind (lget (\<lambda>s. (u s, ls_ctrl s, v s))) (\<lambda>(x, ctrl, y). g x ctrl y)) R"
  by (rule keeps_bind [OF keeps_get [of n "\<lambda>k p. \<forall>f \<in> set (fst (snd p)). frame_ok k f"]]) (auto simp: state_inv_def)

lemma keeps_returnAsInlineBr: "lkeeps n returnAsInlineBr any"
  unfolding returnAsInlineBr_def Let_def
proof (rule keeps_bind_ctrl3, rule keeps_bind_nth)
  fix k ctrl i and frames :: "inlineFrame list" and h :: nat
  assume "\<And>f. f \<in> set ctrl \<Longrightarrow> frame_ok k f" "if_ctrlIdx (last frames) < length ctrl"
  then have "frame_ok k (ctrl ! if_ctrlIdx (last frames))" by simp
  then show "lkeeps k (lthen (lcheck (cf_resultCount (ctrl ! if_ctrlIdx (last frames)) \<le> h)
        (Plain (Fail ''inline return with %d stack values, expected %d'' [h, cf_resultCount (ctrl ! if_ctrlIdx (last frames))])))
    (lthen (close_into (cf_target (ctrl ! if_ctrlIdx (last frames))) (cf_resultCount (ctrl ! if_ctrlIdx (last frames))))
     (ldead True))) any"
    by (intro keeps_then keeps_check keeps_close_frame keeps_dead) (auto simp: out_of_fuel_def elim: frame_ok_mono)
qed

lemma keeps_last_values: "lkeeps n (last_values r) any"
  unfolding last_values_def by (rule keeps_rules)+

lemma keeps_handleReturn: "lkeeps n handleReturn any"
  unfolding handleReturn_def Let_def
  by (rule keeps_returnAsInlineBr keeps_last_values keeps_rules | (simp add: out_of_fuel_def))+

lemma keeps_end_function: "lkeeps n end_function any"
  unfolding end_function_def Let_def
  by (rule keeps_last_values keeps_zeroValueOf keeps_rules | (simp add: out_of_fuel_def))+

lemma keeps_implicit_else: "frame_ok n f \<Longrightarrow> lkeeps n (implicit_else f) any"
  unfolding implicit_else_def
  by (rule keeps_bind_saved2 keeps_recordIncoming keeps_restore keeps_addEdge keeps_rules | (erule frame_lt(3), linarith, assumption) |
      (erule frame_lt(1), linarith) | (erule opt_lt_mono, linarith) | (simp add: out_of_fuel_def))+

lemma keeps_end_if: "frame_ok n f \<Longrightarrow> lkeeps n (end_if f) any"
  unfolding end_if_def
  by (rule keeps_height keeps_recordIncoming keeps_implicit_else keeps_goto keeps_enter_join keeps_rules | (erule frame_lt(1), linarith) |
      (erule frame_ok_mono, linarith))+

lemma keeps_end_plain: "b < n \<Longrightarrow> lkeeps n (end_plain b f) any"
  unfolding end_plain_def by (rule keeps_height keeps_close_into keeps_enter_join keeps_rules | linarith)+

lemma keeps_end_try: "frame_ok n f \<Longrightarrow> lkeeps n (end_try f) any"
  unfolding end_try_def
  by (rule keeps_captureTryBody keeps_closeChain keeps_sealDeadExcBlocks keeps_end_plain keeps_rules | (erule frame_lt(1), linarith) |
      (erule frame_ok_mono, linarith))+

lemma keeps_end_frame: "frame_ok n f \<Longrightarrow> lkeeps n (end_frame f) any"
  unfolding end_frame_def
  by (cases "cf_kind f") (auto intro: keeps_end_if keeps_end_plain keeps_end_try frame_lt)

lemma keeps_handleEnd: "lkeeps n handleEnd any"
  unfolding handleEnd_def
proof (rule keeps_bind_ctrl, rule keeps_if)
  fix k ctrl assume "\<And>f. f \<in> set ctrl \<Longrightarrow> frame_ok k f" "ctrl \<noteq> []"
  then have f: "frame_ok k (last ctrl)" by simp
  show "lkeeps k (lthen lpopFrame (lthen (end_frame (last ctrl)) (lret False))) any"
    by (rule keeps_popFrame keeps_end_frame keeps_rules | (rule frame_ok_mono [OF f], linarith))+
qed (rule keeps_end_function keeps_rules)+

section \<open>Calls\<close>

lemma keeps_call_args: "e \<noteq> out_of_fuel \<Longrightarrow> lkeeps n (call_args r e) any"
  unfolding call_args_def by (rule keeps_rules | assumption)+

lemma keeps_handleCallIndirect: "lkeeps n handleCallIndirect any"
  unfolding handleCallIndirect_def Let_def
  by (rule keeps_call_args keeps_emitExcCheck keeps_rules | (simp add: out_of_fuel_def))+

lemma keeps_lrep: "(\<And>k. n \<le> k \<Longrightarrow> lkeeps k m any) \<Longrightarrow> lkeeps n (lrep j m) any"
proof (induction j arbitrary: n)
  case (Suc j)
  show ?case unfolding lrep.simps by (rule Suc keeps_rules | linarith)+
qed (simp add: keeps_ret)

lemma keeps_declared_locals: "lkeeps n (declared_locals what j) any"
proof (induction j arbitrary: n)
  case (Suc j)
  show ?case unfolding declared_locals.simps Let_def
    by (rule Suc.IH keeps_lrep keeps_zeroValueOf keeps_rules | (simp add: out_of_fuel_def))+
qed (simp add: keeps_ret)

section \<open>The depth of splicing\<close>

text \<open>
  The handlers on states inside a spliced body (\<open>b\<close>), where no call is spliced, and outside.
\<close>

definition level :: "bool \<Rightarrow> lowerState \<Rightarrow> bool" where
  "level b s \<longleftrightarrow> (ls_inlineFrames s \<noteq> []) = b"

definition lruns :: "bool \<Rightarrow> 'a low \<Rightarrow> bool" where
  "lruns b m \<longleftrightarrow> (\<forall>s. state_inv s \<longrightarrow> level b s \<longrightarrow>
     (case m s of Inl e \<Rightarrow> e \<noteq> out_of_fuel | Inr (x, t) \<Rightarrow> state_inv t \<and> goes s t))"

lemma goes_level: "goes s t \<Longrightarrow> level b t \<longleftrightarrow> level b s"
  by (simp add: goes_def level_def)

lemma runs_keeps: "lkeeps 0 m any \<Longrightarrow> lruns b m"
  by (auto simp: lkeeps_def lruns_def split: sum.splits)

lemma runsD:
  assumes "lruns b m" and "state_inv s" and "level b s"
  shows "m s = Inl e \<Longrightarrow> e \<noteq> out_of_fuel" and "m s = Inr (x, t) \<Longrightarrow> state_inv t \<and> goes s t"
  using assms by (auto simp: lruns_def)

lemma runsI:
  assumes "\<And>s e. state_inv s \<Longrightarrow> level b s \<Longrightarrow> m s = Inl e \<Longrightarrow> e \<noteq> out_of_fuel"
    and "\<And>s x t. state_inv s \<Longrightarrow> level b s \<Longrightarrow> m s = Inr (x, t) \<Longrightarrow> state_inv t \<and> goes s t"
  shows "lruns b m"
  using assms by (auto simp: lruns_def split: sum.splits)

lemma runs_bind:
  assumes m: "lruns b m" and f: "\<And>x. lruns b (f x)"
  shows "lruns b (lbind m f)"
proof (rule runsI)
  fix s e assume s: "state_inv s" "level b s" and e: "lbind m f s = Inl e"
  show "e \<noteq> out_of_fuel"
  proof (cases "m s")
    case (Inl e')
    then show ?thesis using runsD(1) [OF m s] e by (simp add: lbind_def)
  next
    case (Inr r)
    then obtain x t where t: "m s = Inr (x, t)" by (cases r) simp
    then have "state_inv t" "level b t" using runsD(2) [OF m s t] s(2) goes_level by auto
    then show ?thesis using runsD(1) [OF f] e t by (simp add: lbind_def)
  qed
next
  fix s y u assume s: "state_inv s" "level b s" and "lbind m f s = Inr (y, u)"
  then obtain x t where t: "m s = Inr (x, t)" "f x t = Inr (y, u)" by (auto simp: lbind_eq_Inr)
  then have "state_inv t" "goes s t" "level b t" using runsD(2) [OF m s t(1)] s(2) goes_level by auto
  then show "state_inv u \<and> goes s u" using runsD(2) [OF f _ _ t(2)] goes_trans [of s t u] by blast
qed

lemma runs_then: "lruns b m \<Longrightarrow> lruns b m' \<Longrightarrow> lruns b (lthen m m')"
  unfolding lthen_def by (rule runs_bind)

lemma runs_if: "(c \<Longrightarrow> lruns b m) \<Longrightarrow> (\<not> c \<Longrightarrow> lruns b m') \<Longrightarrow> lruns b (if c then m else m')"
  by simp

lemma runs_option: "(x = None \<Longrightarrow> lruns b m) \<Longrightarrow> (\<And>y. x = Some y \<Longrightarrow> lruns b (m' y)) \<Longrightarrow>
    lruns b (case x of None \<Rightarrow> m | Some y \<Rightarrow> m' y)"
  by (cases x) simp_all

text \<open>A call is only spliced outside a spliced body.\<close>

lemma runs_bind_inline:
  assumes "lruns b (g False)" and "\<not> b \<Longrightarrow> lruns b (g True)"
  shows "lruns b (lbind (lget (\<lambda>s. shouldInline s i ft)) g)"
proof -
  have "lruns b (g (shouldInline s i ft))" if "level b s" for s
    using that assms by (cases "shouldInline s i ft") (auto simp: level_def shouldInline_def)
  then show ?thesis by (auto simp: lruns_def lbind_def lget_def)
qed

lemma keeps_direct_call: "lkeeps n (direct_call i ft) any"
  unfolding direct_call_def Let_def
  by (rule keeps_call_args keeps_emitExcCheck keeps_rules | (simp add: out_of_fuel_def))+

lemma runs_handleCall:
  assumes "\<And>i ft. \<not> b \<Longrightarrow> lruns b (inl i ft)"
  shows "lruns b (handleCall inl)"
  unfolding handleCall_def
  by (rule runs_bind_inline runs_bind runs_option runs_then | (unfold if_True, erule assms) |
      (simp add: assms runs_keeps keeps_reads keeps_prims keeps_fail keeps_direct_call out_of_fuel_def))+

lemma runs_control_op:
  assumes inl: "\<And>i ft. \<not> b \<Longrightarrow> lruns b (inl i ft)" and "control_op inl opc = Some m"
  shows "lruns b m"
proof (cases "opc = WOpCall")
  case True
  have "lruns b (handleCall inl)" by (rule runs_handleCall) (rule inl)
  then show ?thesis using assms(2) True by (simp add: control_op_def)
next
  case False
  have "lkeeps 0 m any"
    using assms(2) False unfolding control_op_def lower_unreachable_def
    by (simp split: if_splits)
      (auto intro: keeps_handleEnd keeps_handleElse keeps_handleIf keeps_handleBlock keeps_handleLoop keeps_handleTry keeps_handleCatch
      keeps_handleBr keeps_handleBrIf keeps_handleBrTable keeps_handleReturn keeps_handleThrow keeps_handleDelegate
      keeps_handleRethrow keeps_handleCallIndirect keeps_select keeps_then keeps_ret keeps_kind keeps_dead)
  then show ?thesis by (rule runs_keeps)
qed

lemma runs_handleOp:
  assumes "\<And>i ft. \<not> b \<Longrightarrow> lruns b (inl i ft)"
  shows "lruns b (handleOp inl opc)"
  unfolding handleOp_def
  by (rule runs_option) (use assms runs_control_op runs_keeps keeps_plain_op in blast)+

section \<open>The loop over a body\<close>

lemma keeps_depth: "lkeeps n (ldepth g) any"
  unfolding ldepth_def by (rule keeps_modify) (simp add: goes_def)

lemma keeps_skip: "lkeeps n (lskip opc) any"
  unfolding lskip_def by (rule keeps_reads)

lemma keeps_skip_unsupported: "lkeeps n (lskip_unsupported what opc) any"
  using keeps_skip [of n opc] by (auto simp: lkeeps_def lskip_unsupported_def out_of_fuel_def split: sum.splits)

lemma keeps_end_stops: "lkeeps n (end_stops base) any"
  unfolding end_stops_def by (rule keeps_handleEnd keeps_rules)+

lemma keeps_dead_step: "lkeeps n (dead_step base opc) any"
  unfolding dead_step_def
  by (rule keeps_depth keeps_skip keeps_skip_unsupported keeps_end_stops keeps_handleElse keeps_handleCatch keeps_handleDelegate keeps_rules)+

lemma runs_live_step:
  assumes "\<And>i ft. \<not> b \<Longrightarrow> lruns b (inl i ft)"
  shows "lruns b (live_step inl base opc)"
  unfolding live_step_def
  by (intro runs_if runs_then runs_handleOp assms runs_keeps keeps_end_stops keeps_ret) simp_all

text \<open>Every step reads a byte.\<close>

lemma body_step_reads:
  assumes inl: "\<And>i ft. \<not> b \<Longrightarrow> lruns b (inl i ft)" and s: "state_inv s" "level b s"
  shows "body_step inl base s = Inl e \<Longrightarrow> e \<noteq> out_of_fuel"
    and "body_step inl base s = Inr (x, t) \<Longrightarrow> state_inv t \<and> goes s t \<and> length (ls_rd t) < length (ls_rd s)"
proof -
  let ?g = "\<lambda>opc. lbind ldeadNow (\<lambda>d. if d then dead_step base opc else live_step inl base opc)"
  have g: "lruns b (?g opc)" for opc
    by (intro runs_bind runs_if runs_keeps keeps_height keeps_dead_step runs_live_step inl)
  have r: "lread irReadByte s = (case ls_rd s of [] \<Rightarrow> Inl (Plain (Fail ''unexpected EOF in instruction stream'' [])) | c # cs \<Rightarrow> Inr (c, s\<lparr>ls_rd := cs\<rparr>))"
    by (cases "ls_rd s") (simp_all add: lread_def)
  have st: "state_inv (s\<lparr>ls_rd := cs\<rparr>)" "level b (s\<lparr>ls_rd := cs\<rparr>)" for cs
    using s by (simp_all add: level_def)
  show "body_step inl base s = Inl e \<Longrightarrow> e \<noteq> out_of_fuel"
    using runsD(1) [OF g st] by (auto simp: body_step_def lbind_def r out_of_fuel_def split: list.splits)
  assume "body_step inl base s = Inr (x, t)"
  then obtain c cs where c: "ls_rd s = c # cs" "?g c (s\<lparr>ls_rd := cs\<rparr>) = Inr (x, t)"
    by (auto simp: body_step_def lbind_eq_Inr r split: list.splits)
  then have "state_inv t" "goes (s\<lparr>ls_rd := cs\<rparr>) t" using runsD(2) [OF g st c(2)] by auto
  then show "state_inv t \<and> goes s t \<and> length (ls_rd t) < length (ls_rd s)" using c(1) by (auto simp: goes_def)
qed

lemma body_loop_ends:
  assumes inl: "\<And>i ft. \<not> b \<Longrightarrow> lruns b (inl i ft)" and s: "state_inv s" "level b s" "length (ls_rd s) < n"
  shows "(\<forall>e. body_loop n inl base s = Inl e \<longrightarrow> e \<noteq> out_of_fuel) \<and>
    (\<forall>x t. body_loop n inl base s = Inr (x, t) \<longrightarrow> state_inv t \<and> goes s t)"
  using s
proof (induction n arbitrary: s)
  case (Suc n)
  note step = body_step_reads [OF inl Suc.prems(1,2)]
  show ?case
  proof (cases "ls_rd s = []")
    case True
    then show ?thesis by (simp add: lbind_def lget_def unsupported_def lfail_def out_of_fuel_def)
  next
    case False
    show ?thesis
    proof (cases "body_step inl base s")
      case (Inl e)
      then show ?thesis using False step(1) by (simp add: lbind_def lget_def)
    next
      case (Inr r)
      then obtain stop t where t: "body_step inl base s = Inr (stop, t)" by (cases r) simp
      have r: "state_inv t" "goes s t" "length (ls_rd t) < n" "level b t"
        using step(2) [OF _ t] Suc.prems goes_level [of s t b] by auto
      have "body_loop (Suc n) inl base s = (if stop then Inr ((), t) else body_loop n inl base t)"
        using False t by (simp add: lbind_def lget_def lret_def)
      then show ?thesis using Suc.IH [OF r(1,4,3)] r(1,2) goes_trans [OF r(2)] by auto
    qed
  qed
qed simp

lemma runs_lowerBodyUntil:
  assumes "\<And>i ft. \<not> b \<Longrightarrow> lruns b (inl i ft)"
  shows "lruns b (lowerBodyUntil inl base)"
proof -
  have eq: "lowerBodyUntil inl base s = body_loop (Suc (length (ls_rd s))) inl base s" for s
    by (simp add: lowerBodyUntil_def lbind_def lget_def)
  have "(\<forall>e. lowerBodyUntil inl base s = Inl e \<longrightarrow> e \<noteq> out_of_fuel) \<and>
      (\<forall>x t. lowerBodyUntil inl base s = Inr (x, t) \<longrightarrow> state_inv t \<and> goes s t)" if "state_inv s" "level b s" for s
    unfolding eq by (rule body_loop_ends [OF assms that lessI])
  then show ?thesis by (intro runsI) blast+
qed

section \<open>Splicing\<close>

text \<open>While a callee is spliced, the reader is another's and the frames grow.\<close>

definition splicing :: "lowerState \<Rightarrow> inlineFrame list \<Rightarrow> nat \<Rightarrow> lowerState \<Rightarrow> bool" where
  "splicing s0 fr n s \<longleftrightarrow>
     state_inv s \<and> bound s0 \<le> bound s \<and> n \<le> bound s \<and> ls_mod s = ls_mod s0 \<and> ls_throwSet s = ls_throwSet s0 \<and>
     ls_inlineInfo s = ls_inlineInfo s0 \<and> ls_inlineFrames s = fr"

definition ltriple :: "(lowerState \<Rightarrow> bool) \<Rightarrow> 'a low \<Rightarrow> ('a \<Rightarrow> lowerState \<Rightarrow> bool) \<Rightarrow> bool" where
  "ltriple P m Q \<longleftrightarrow> (\<forall>s. P s \<longrightarrow> (case m s of Inl e \<Rightarrow> e \<noteq> out_of_fuel | Inr (x, t) \<Rightarrow> Q x t))"

lemma triple_bind:
  assumes m: "ltriple P m Q" and f: "\<And>x. ltriple (Q x) (f x) R"
  shows "ltriple P (lbind m f) R"
  unfolding ltriple_def
proof (intro allI impI)
  fix s assume "P s"
  then have c: "case m s of Inl e \<Rightarrow> e \<noteq> out_of_fuel | Inr (x, t) \<Rightarrow> Q x t" using m by (simp add: ltriple_def)
  then show "case lbind m f s of Inl e \<Rightarrow> e \<noteq> out_of_fuel | Inr (x, t) \<Rightarrow> R x t"
  proof (cases "m s")
    case (Inr r)
    then show ?thesis using c f [of "fst r"]
      by (cases r) (simp add: lbind_def ltriple_def)
  qed (use c in \<open>simp add: lbind_def\<close>)
qed

lemma splice_step:
  assumes "splicing s0 fr n s" and "state_inv t" and "goes s t"
  shows "splicing s0 fr n t"
  using assms by (auto simp: splicing_def goes_def)

lemma splice_keeps: "lkeeps n m Q \<Longrightarrow> ltriple (splicing s0 fr n) m (\<lambda>x t. splicing s0 fr n t \<and> Q (bound t) x)"
  unfolding ltriple_def
proof (intro allI impI)
  fix s assume m: "lkeeps n m Q" and s: "splicing s0 fr n s"
  have "state_inv s" "n \<le> bound s" using s by (simp_all add: splicing_def)
  then show "case m s of Inl e \<Rightarrow> e \<noteq> out_of_fuel | Inr (x, t) \<Rightarrow> splicing s0 fr n t \<and> Q (bound t) x"
    using keepsD [OF m] splice_step [OF s] by (auto split: sum.splits)
qed

lemma splice_bind:
  assumes "lkeeps n m any" and "\<And>x. ltriple (splicing s0 fr n) (f x) R"
  shows "ltriple (splicing s0 fr n) (lbind m f) R"
  by (rule triple_bind [OF splice_keeps [OF assms(1)]]) (use assms(2) in simp)

lemma splice_then:
  "lkeeps n m any \<Longrightarrow> ltriple (splicing s0 fr n) m' R \<Longrightarrow> ltriple (splicing s0 fr n) (lthen m m') R"
  unfolding lthen_def by (rule splice_bind)

lemma splice_bind_newBlock:
  assumes "\<And>b. ltriple (splicing s0 fr (Suc b)) (f b) R"
  shows "ltriple (splicing s0 fr n) (lbind (lnewBlock kd) f) R"
proof (rule triple_bind [OF splice_keeps [OF keeps_newBlock]])
  fix b
  show "ltriple (\<lambda>t. splicing s0 fr n t \<and> b < bound t) (f b) R"
    using assms [of b] by (simp add: ltriple_def splicing_def Suc_le_eq)
qed

lemma splice_rd:
  "ltriple (splicing s0 fr n) m R \<Longrightarrow> ltriple (splicing s0 fr n) (lthen (lmodify (\<lambda>s. s\<lparr>ls_rd := x\<rparr>)) m) R"
  by (auto simp: ltriple_def lthen_def lbind_def lmodify_def splicing_def)

lemma splice_prod: "(\<And>a b. ltriple P (g a b) R) \<Longrightarrow> ltriple P (case x of (a, b) \<Rightarrow> g a b) R"
  by (cases x) simp

lemma splice_push:
  "ltriple (splicing s0 fr n) (lthen (lmodify (\<lambda>s. s\<lparr>ls_inlineFrames := ls_inlineFrames s @ [x], ls_ft := a, ls_locals := b,
     ls_localTypes := c, ls_inlinedBytes := ls_inlinedBytes s + d\<rparr>)) (lret base)) (\<lambda>_ t. \<exists>x. splicing s0 (fr @ [x]) 0 t)"
  by (auto simp: ltriple_def lthen_def lbind_def lmodify_def lret_def splicing_def)

lemma splice_enter:
  "ltriple (splicing s0 fr n) (enter_inline i ft) (\<lambda>_ t. \<exists>x. splicing s0 (fr @ [x]) 0 t)"
  unfolding enter_inline_def Let_def
  by (rule splice_push splice_bind_newBlock splice_rd splice_bind splice_then splice_prod keeps_declared_locals keeps_height
      keeps_pushFrame keeps_prims keeps_reads | (simp only: frame_ok_new) | (simp add: out_of_fuel_def))+

lemma splice_leave:
  "ltriple (splicing s0 (fr @ [x]) 0) (leave_inline i base rd) (\<lambda>_ t. splicing s0 fr 0 t \<and> ls_rd t = rd)"
  by (auto simp: ltriple_def leave_inline_def Let_def lthen_def lbind_def lget_def lmodify_def lcheck_def lret_def lfail_def
      splicing_def out_of_fuel_def split: if_splits)

lemma splice_body:
  assumes "lruns True m"
  shows "ltriple (\<lambda>t. \<exists>x. splicing s0 (fr @ [x]) 0 t) m (\<lambda>_ t. \<exists>x. splicing s0 (fr @ [x]) 0 t)"
  unfolding ltriple_def
proof (intro allI impI)
  fix s assume "\<exists>x. splicing s0 (fr @ [x]) 0 s"
  then obtain x where x: "splicing s0 (fr @ [x]) 0 s" by blast
  then have "state_inv s" "level True s" by (auto simp: splicing_def level_def)
  then show "case m s of Inl e \<Rightarrow> e \<noteq> out_of_fuel | Inr (_, t) \<Rightarrow> \<exists>x. splicing s0 (fr @ [x]) 0 t"
    using runsD [OF assms] splice_step [OF x] by (force split: sum.splits)
qed

lemma splice_leave_any:
  "ltriple (\<lambda>t. \<exists>x. splicing s0 (fr @ [x]) 0 t) (leave_inline i base rd) (\<lambda>_ t. splicing s0 fr 0 t \<and> ls_rd t = rd)"
  using splice_leave unfolding ltriple_def by blast

lemma runs_inline_call: "lruns False (inline_call i ft)"
proof -
  let ?body = "\<lambda>base. lowerBodyUntil no_inline (Some base)"
  have body: "lruns True (?body base)" for base by (rule runs_lowerBodyUntil) simp
  have t: "ltriple (splicing s (ls_inlineFrames s) 0)
      (lbind (enter_inline i ft) (\<lambda>base. lthen (?body base) (leave_inline i base rd)))
      (\<lambda>_ t. splicing s (ls_inlineFrames s) 0 t \<and> ls_rd t = rd)" for s rd
    unfolding lthen_def
    by (rule triple_bind [OF splice_enter], rule triple_bind [OF splice_body [OF body]], rule splice_leave_any)
  have "case inline_call i ft s of Inl e \<Rightarrow> e \<noteq> out_of_fuel | Inr (x, t) \<Rightarrow> state_inv t \<and> goes s t" if "state_inv s" for s
  proof -
    have eq: "inline_call i ft s = lbind (enter_inline i ft) (\<lambda>base. lthen (?body base) (leave_inline i base (ls_rd s))) s"
      by (simp add: inline_call_def lowerInlineCall_def lbind_def lget_def)
    have "splicing s (ls_inlineFrames s) 0 s" using that by (simp add: splicing_def)
    then have r: "case inline_call i ft s of Inl e \<Rightarrow> e \<noteq> out_of_fuel
        | Inr (x, t) \<Rightarrow> splicing s (ls_inlineFrames s) 0 t \<and> ls_rd t = ls_rd s"
      using t [of s "ls_rd s"] unfolding eq ltriple_def by blast
    have "state_inv t \<and> goes s t" if "splicing s (ls_inlineFrames s) 0 t" "ls_rd t = ls_rd s" for t
      using that by (simp add: splicing_def goes_def)
    then show ?thesis using r by (cases "inline_call i ft s") auto
  qed
  then show ?thesis by (simp add: lruns_def)
qed

lemma runs_lowerBody: "lruns False lowerBody"
  unfolding lowerBody_def by (rule runs_lowerBodyUntil) (rule runs_inline_call)

section \<open>A whole function\<close>

lemma entry_builder_inv: "func_inv (bf (entry_builder name ft))" "nextBlockID (bf (entry_builder name ft)) = 1"
  "cur (entry_builder name ft) = Some 0" "TryRegions (bf (entry_builder name ft)) = []"
  by (simp_all add: entry_builder_def bNewBlock_def NewBlock_def NewFuncBuilder_def NewFunc_def SetCurrent_def bSetEntry_def
      SetEntry_def Let_def func_inv_def edges_inv_def values_inv_def edge_at_def zero_block_def)

lemma init_state_inv: "state_inv (init_state m pinned i name ts ft body)"
  by (simp add: state_inv_def init_state_def bound_def entry_builder_inv)

lemma keeps_setupLocals: "lkeeps n (setupLocals ft) any"
  unfolding setupLocals_def param_local_def
  by (rule keeps_declared_locals keeps_rules | (simp add: split_def, intro conjI impI))+

lemma keeps_skipLocalDecls: "lkeeps n (lread skipLocalDecls) any"
proof (rule keeps_read)
  have "prefix_reader (skip_decls j)" for j by (induction j) (auto intro!: prefix_intros)
  then show "prefix_reader skipLocalDecls" unfolding skipLocalDecls_def by (intro prefix_intros)
qed

lemma splice_locals:
  "ltriple (splicing s0 fr n) m R \<Longrightarrow>
   ltriple (splicing s0 fr n) (lthen (lmodify (\<lambda>s. s\<lparr>ls_locals := a, ls_localTypes := b, ls_rd := c\<rparr>)) m) R"
  by (auto simp: ltriple_def lthen_def lbind_def lmodify_def splicing_def)

lemma splice_lowerBody: "ltriple (splicing s0 [] n) lowerBody (\<lambda>_ t. state_inv t)"
  using runsD [OF runs_lowerBody] by (force simp: ltriple_def splicing_def level_def split: sum.splits)

text \<open>The invariant holds at the end of a body.\<close>

lemma lower_all_ok:
  assumes "state_inv s" and "ls_inlineFrames s = []"
  shows "lower_all ft body s = Inl e \<Longrightarrow> e \<noteq> out_of_fuel"
    and "lower_all ft body s = Inr (x, t) \<Longrightarrow> state_inv t"
proof -
  have "ltriple (splicing s [] 0) (lower_all ft body) (\<lambda>_ t. state_inv t)"
    unfolding lower_all_def
    by (rule splice_lowerBody splice_locals splice_bind splice_then splice_prod keeps_setupLocals keeps_skipLocalDecls)+
  moreover have "splicing s [] 0 s" using assms by (simp add: splicing_def)
  ultimately have "case lower_all ft body s of Inl e \<Rightarrow> e \<noteq> out_of_fuel | Inr (x, t) \<Rightarrow> state_inv t"
    unfolding ltriple_def by blast
  then show "lower_all ft body s = Inl e \<Longrightarrow> e \<noteq> out_of_fuel" "lower_all ft body s = Inr (x, t) \<Longrightarrow> state_inv t"
    by simp_all
qed

text \<open>The pruned function.\<close>

lemma edge_mirror:
  assumes "edges_inv f" and "i < length (Succs (fblk f b))"
  shows "edge_at (Preds (fblk f (eBlock (Succs (fblk f b) ! i)))) (eIndex (Succs (fblk f b) ! i)) \<lparr>eBlock = b, eIndex = i\<rparr>"
proof -
  have "edge_at (Succs (fblk f b)) i \<lparr>eBlock = eBlock (Succs (fblk f b) ! i), eIndex = eIndex (Succs (fblk f b) ! i)\<rparr>"
    using assms(2) by (simp add: edge_at_def)
  then show ?thesis using assms(1) by (simp add: edges_inv_def)
qed

lemma edge_mirror':
  assumes "edges_inv f" and "i < length (Preds (fblk f b))"
  shows "edge_at (Succs (fblk f (eBlock (Preds (fblk f b) ! i)))) (eIndex (Preds (fblk f b) ! i)) \<lparr>eBlock = b, eIndex = i\<rparr>"
proof -
  have "edge_at (Preds (fblk f b)) i \<lparr>eBlock = eBlock (Preds (fblk f b) ! i), eIndex = eIndex (Preds (fblk f b) ! i)\<rparr>"
    using assms(2) by (simp add: edge_at_def)
  then show ?thesis using assms(1) by (simp add: edges_inv_def)
qed

lemma kept_block:
  assumes "func_inv f" and "Succs (fblk f b) \<noteq> [] \<or> Preds (fblk f b) \<noteq> []"
  shows "b \<in> set (Blocks (PruneDeadBlocks f))"
proof -
  have "b < nextBlockID f"
    using assms func_invD(3) [OF assms(1)] unfolding edges_inv_def by (metis not_le)
  then show ?thesis using assms(2) func_invD(2) [OF assms(1)] by (auto simp: PruneDeadBlocks_def prunable_def)
qed

lemma prune_ok:
  assumes f: "func_inv f"
  shows "cfg_ok (PruneDeadBlocks f)" and "vals_ok (PruneDeadBlocks f)"
proof -
  let ?p = "PruneDeadBlocks f"
  have same: "fblk ?p = fblk f" "fval ?p = fval f" "Entry ?p = Entry f" by (simp_all add: PruneDeadBlocks_def)
  have nonempty: "i < length xs \<Longrightarrow> xs \<noteq> []" for i and xs :: "Edge list" by auto
  have succ: "succ_ok ?p b i" if i: "i < length (Succs (fblk f b))" for b i
    using edge_mirror [OF func_invD(3) [OF f] i] kept_block [OF f] nonempty
    by (auto simp: succ_ok_def Let_def same edge_at_def)
  have pred: "pred_ok ?p b i" if i: "i < length (Preds (fblk f b))" for b i
    using edge_mirror' [OF func_invD(3) [OF f] i] kept_block [OF f] nonempty
    by (auto simp: pred_ok_def Let_def same edge_at_def)
  have "0 \<in> set (Blocks ?p)" "distinct (Blocks ?p)"
    using f by (auto simp: func_inv_def PruneDeadBlocks_def prunable_def)
  then show "cfg_ok ?p" using succ pred func_invD(1) [OF f] by (auto simp: cfg_ok_def same)
  show "vals_ok ?p" using func_invD(4) [OF f] by (auto simp: vals_ok_def values_inv_def same)
qed

end
