(* ===== verification/LowerSound.thy ===== *)
theory LowerSound
  imports LowerKeeps
begin

text \<open>
  What \<^verbatim>\<open>LowerFunction\<close> guarantees for every module, function and list of bytes, well-formed or not.
\<close>

section \<open>The loop ends\<close>

text \<open>
  C30: The loop over a function body ends, for every module and every byte string: no more steps are
  taken than there are bytes, in the function itself and in every body spliced into it, and no body
  is spliced into a spliced one.
\<close>

theorem lowering_ends:
  "lower_all ft body (init_state m pinned funcIdx name ts ft body') \<noteq> Inl out_of_fuel"
  using lower_all_ok(1) [OF init_state_inv, of m pinned funcIdx name ts ft body' ft body out_of_fuel]
  by (auto simp: init_state_def)

section \<open>The result\<close>

lemma recovered_no_panic: "recovered e \<noteq> Panic msg"
  by (cases e) (simp_all add: recovered_def)

text \<open>
  C29: \<^verbatim>\<open>LowerFunction\<close> never panics, and the function it returns is well-formed SSA: its edge lists
  mirror each other, every value stands once in its own block, every block is reachable and ends as
  its kind demands, phis come first with one operand per predecessor, and every operand is defined
  on every path to its use.
\<close>

theorem LowerFunction_ok:
  "case LowerFunction pinned m funcIdx name ts of
     Inl e \<Rightarrow> \<forall>msg. e \<noteq> Panic msg
   | Inr f \<Rightarrow> cfg_ok f \<and> vals_ok f \<and> verified f"
proof (cases "definedFuncType m funcIdx")
  case None
  then show ?thesis by (simp add: LowerFunction_def recovered_no_panic)
next
  case (Some ft)
  define body where "body = fn_Body (Functions m ! unat (funcIdx - NumImportedFuncs m))"
  let ?s0 = "init_state m pinned funcIdx name ts ft body"
  show ?thesis
  proof (cases "lower_all ft body ?s0")
    case (Inl e)
    then show ?thesis using Some by (simp add: LowerFunction_def recovered_no_panic body_def [symmetric])
  next
    case (Inr r)
    then obtain x s where s: "lower_all ft body ?s0 = Inr (x, s)" by (cases r) simp
    have "state_inv s" by (rule lower_all_ok(2) [OF init_state_inv _ s]) (simp add: init_state_def)
    then have ok: "cfg_ok (PruneDeadBlocks (bf (ls_b s)))" "vals_ok (PruneDeadBlocks (bf (ls_b s)))"
      using prune_ok [OF state_invD(1)] by auto
    let ?f = "PruneDeadBlocks (bf (ls_b s))"
    obtain v where v: "Verify ?f = Some v" using Verify_ends [OF ok] by auto
    then have "LowerFunction pinned m funcIdx name ts =
        (case v of Inr _ \<Rightarrow> Inr ?f | Inl e \<Rightarrow> Inl (Unsupported ''verify fn%d: %w'' [unat funcIdx]))"
      using Some s by (simp add: LowerFunction_def body_def [symmetric] Let_def split: sum.split)
    then show ?thesis using ok v Verify_accepts [OF ok] by (cases v) auto
  qed
qed

section \<open>An example\<close>

text \<open>The sum of two parameters: \<^verbatim>\<open>local.get 0, local.get 1, i32.add, end\<close>.\<close>

definition add_type :: FuncType where
  "add_type = \<lparr>FuncType.Params = [ValI32, ValI32], FuncType.Results = [ValI32]\<rparr>"

definition add_body :: "byte list" where
  "add_body = [0x00, 0x20, 0x00, 0x20, 0x01, 0x6a, 0x0b]"

definition add_module :: Module where
  "add_module = empty_Module\<lparr>Types := [add_type], Functions := [\<lparr>fn_TypeIdx = 0, fn_Body = add_body\<rparr>]\<rparr>"

definition add_func :: Func where
  "add_func = (NewFunc ''add'' \<lparr>FuncSig.Params = [TypeI32, TypeI32], FuncSig.Results = [TypeI32]\<rparr>)
     \<lparr>Blocks := [0], Entry := Some 0, nextValueID := 5, nextBlockID := 1,
      fval := (\<lambda>_. nil_value)
        (1 := \<lparr>vOp = OpParam, vTyp = TypeI32, vArgs = [], vAuxInt = 0, vAux = AuxNil, vBlock = Some 0\<rparr>,
         2 := \<lparr>vOp = OpParam, vTyp = TypeI32, vArgs = [], vAuxInt = 1, vAux = AuxNil, vBlock = Some 0\<rparr>,
         3 := \<lparr>vOp = OpAdd32, vTyp = TypeI32, vArgs = [Some 1, Some 2], vAuxInt = 0, vAux = AuxNil, vBlock = Some 0\<rparr>,
         4 := \<lparr>vOp = OpCopy, vTyp = TypeI32, vArgs = [Some 3], vAuxInt = 0, vAux = AuxNil, vBlock = Some 0\<rparr>),
      fblk := (\<lambda>_. zero_block)(0 := zero_block\<lparr>bKind := BlockRet, Values := [1, 2, 3, 4]\<rparr>)\<rparr>"

lemmas low_defs = lret_def lfail_def lbind_def lthen_def lget_def lmodify_def lwhen_def lcheck_def lsome_def lnth_def
  lread_def lbuild_def lfunc_def lcurrent_def lkind_def lpush_def lpop_def lvalue_def lfinishRet_def

lemmas builder_defs = bNewBlock_def NewBlock_def NewFuncBuilder_def NewFunc_def SetCurrent_def bSetEntry_def SetEntry_def
  Let_def Param_def bNewValueAuxInt_def bAppend_def newValue_def upd_blk_def upd_val_def FinishRet_def add_marker_def

lemmas reader_defs = irReadU32_def irReadU64_def irReadU64_from.simps pbind_def pret_def pguard_def skipLocalDecls_def

lemma add_lowered:
  "\<exists>s. lower_all add_type add_body (init_state add_module pinned 0 ''add'' ts add_type add_body) = Inr ((), s) \<and>
       bf (ls_b s) = add_func"
  apply (simp add: lower_all_def setupLocals_def param_local_def add_type_def add_body_def low_defs init_state_def
      entry_builder_def builder_defs toSSAType_def toSSATypes_def ValI32_def reader_defs)
  apply (simp add: lowerBody_def lowerBodyUntil_def low_defs body_step_def ldeadNow_def live_step_def handleOp_def
      control_op_def plain_op_def lower_localGet_def reader_defs isMemoryOp_def isSimpleBinary_def OpPrefixFC_def
      OpPrefixFD_def OpPrefixFE_def lower_simpleBinary_def simpleBinaryOp_def simpleBinaryOp_table_def isGtGe_def
      builder_defs end_stops_def handleEnd_def end_function_def last_values_def)
  apply (simp add: add_func_def NewFunc_def zero_block_def eval_nat_numeral)
  done

lemma add_func_facts:
  "Blocks add_func = [0]" "Entry add_func = Some 0" "PruneDeadBlocks add_func = add_func"
  "fblk add_func 0 = zero_block\<lparr>bKind := BlockRet, Values := [1, 2, 3, 4]\<rparr>"
  "vOp (fval add_func 1) = OpParam" "vOp (fval add_func 2) = OpParam" "vOp (fval add_func 3) = OpAdd32" "vOp (fval add_func 4) = OpCopy"
  "vArgs (fval add_func 1) = []" "vArgs (fval add_func 2) = []" "vArgs (fval add_func 3) = [Some 1, Some 2]"
  "vArgs (fval add_func 4) = [Some 3]"
  by (simp_all add: add_func_def NewFunc_def PruneDeadBlocks_def prunable_def)

lemma add_func_verified: "verified add_func"
proof -
  have "avoids add_func {} 0" by (rule avoids.entry) (simp_all add: add_func_facts)
  then have "all_reachable add_func" by (simp add: all_reachable_def add_func_facts)
  then show ?thesis
    unfolding verified_def block_ok_def all_splits
    by (simp add: add_func_facts add_func_facts(5,9) [unfolded One_nat_def] zero_block_def kind_ok_def control_ok_def
        value_ok_def use_ok_def All_less_Suc)
qed

theorem LowerFunction_ok_witness:
  "LowerFunction {} add_module 0 ''add'' None = Inr add_func \<and> verified add_func"
proof -
  obtain s where s: "lower_all add_type add_body (init_state add_module {} 0 ''add'' None add_type add_body) = Inr ((), s)"
      "bf (ls_b s) = add_func"
    using add_lowered by blast
  have "func_inv add_func" unfolding s(2) [symmetric]
    by (rule state_invD(1), rule lower_all_ok(2) [OF init_state_inv _ s(1)]) (simp add: init_state_def)
  then have ok: "cfg_ok add_func" "vals_ok add_func" using prune_ok [of add_func] by (simp_all add: add_func_facts)
  have "definedFuncType add_module 0 = Some add_type"
    by (simp add: definedFuncType_def add_module_def empty_Module_def nth_opt_def)
  then have "LowerFunction {} add_module 0 ''add'' None = Inr add_func"
    using s ok add_func_verified Verify_accepts [OF ok]
    by (simp add: LowerFunction_def add_module_def empty_Module_def Let_def add_func_facts)
  then show ?thesis using LowerFunction_ok [of "{}" add_module 0 "''add''" None] by simp
qed

end
