(* ===== verification/SsaTrees.thy ===== *)
theory SsaTrees
  imports SsaVerify
begin

text \<open>
  What the analyses of \<^verbatim>\<open>internal/ssa/domtree.go\<close> compute: the dominator tree, the post-dominator
  tree of the reversed graph with its virtual exit, the back edges and the loop headers.
\<close>

section \<open>Ways out of a function\<close>

text \<open>A way from a block to one of the exits that does not touch the blocks of \<open>A\<close>.\<close>

inductive escapes :: "Func \<Rightarrow> nat set \<Rightarrow> nat \<Rightarrow> bool" for f A where
  exit: "b \<in> set (exit_blocks f) \<Longrightarrow> b \<notin> A \<Longrightarrow> escapes f A b"
| step: "escapes f A s \<Longrightarrow> edge f b s \<Longrightarrow> b \<notin> A \<Longrightarrow> escapes f A b"

definition post_dom_by :: "Func \<Rightarrow> nat \<Rightarrow> nat \<Rightarrow> bool" where
  "post_dom_by f a b \<longleftrightarrow> \<not> escapes f {a} b"

lemma exit_in_Blocks: "b \<in> set (exit_blocks f) \<Longrightarrow> b \<in> set (Blocks f)"
  by (simp add: exit_blocks_def)

lemma rev_succs_edge:
  assumes "cfg_ok f" and "s \<in> set (Blocks f)"
  shows "Some b \<in> set (rev_succs f (Some s)) \<longleftrightarrow> edge f b s"
proof
  assume "Some b \<in> set (rev_succs f (Some s))"
  then have b: "b \<in> set (pred_blocks f s)" by (simp add: rev_succs_def image_iff)
  then have "b \<in> set (Blocks f)"
    using pred_in_Blocks [OF assms] by (auto simp: pred_blocks_def in_set_conv_nth)
  then show "edge f b s" using b pred_blocks_edge [OF assms] succ_blocks_edge by blast
next
  assume e: "edge f b s"
  then have "b \<in> set (Blocks f)" by (simp add: edge_def)
  then show "Some b \<in> set (rev_succs f (Some s))"
    using e pred_blocks_edge [OF assms, of b] succ_blocks_edge [of b f s] by (simp add: rev_succs_def)
qed

lemma rev_succs_Some: "x \<in> set (rev_succs f y) \<Longrightarrow> x \<noteq> None"
  by (auto simp: rev_succs_def split: option.splits)

lemma avoiding_escapes:
  assumes "cfg_ok f" and "avoiding None (rev_succs f) A x" and "x = Some b" and "A = Some ` B"
  shows "escapes f B b \<and> b \<in> set (Blocks f)"
  using assms(2,3,4)
proof (induction arbitrary: b rule: avoiding.induct)
  case (step y s)
  have nb: "b \<notin> B" using step by auto
  show ?case
  proof (cases y)
    case None
    then have "b \<in> set (exit_blocks f)" using step by (auto simp: rev_succs_def)
    then show ?thesis using nb exit_in_Blocks by (auto intro: escapes.exit)
  next
    case (Some c)
    then have c: "escapes f B c" "c \<in> set (Blocks f)" using step by auto
    moreover have "edge f b c" using step Some rev_succs_edge [OF assms(1) c(2)] by auto
    ultimately show ?thesis using nb by (auto intro: escapes.step simp: edge_def)
  qed
qed simp

lemma escapes_avoiding:
  assumes "cfg_ok f" and "escapes f B b"
  shows "avoiding None (rev_succs f) (Some ` B) (Some b) \<and> b \<in> set (Blocks f)"
  using assms(2)
proof (induction rule: escapes.induct)
  case (exit b)
  have "avoiding None (rev_succs f) (Some ` B) None" by (rule avoiding.root) auto
  moreover have "Some b \<in> set (rev_succs f None)" "Some b \<notin> Some ` B" using exit by (auto simp: rev_succs_def)
  ultimately have "avoiding None (rev_succs f) (Some ` B) (Some b)" by (rule avoiding.step)
  then show ?case using exit exit_in_Blocks by blast
next
  case (step s b)
  then have "Some b \<in> set (rev_succs f (Some s))" using rev_succs_edge [OF assms(1)] by simp
  then show ?case using step by (auto intro: avoiding.step simp: edge_def)
qed

lemma avoiding_escapes_iff:
  assumes "cfg_ok f"
  shows "avoiding None (rev_succs f) (Some ` B) (Some b) \<longleftrightarrow> escapes f B b"
  using avoiding_escapes [OF assms, of "Some ` B" "Some b" b B] escapes_avoiding [OF assms, of B b] by blast

lemma post_dominates_iff:
  assumes "cfg_ok f"
  shows "dominates None (rev_succs f) (Some a) (Some b) \<longleftrightarrow> post_dom_by f a b"
  using avoiding_escapes_iff [OF assms, of "{a}"] by (simp add: dominates_def post_dom_by_def)

section \<open>Immediate dominators\<close>

text \<open>The parent of a node in a tree of dominators is its nearest other dominator.\<close>

lemma chain_has_step:
  assumes "D b = Some d" and "b \<noteq> d"
  shows "chain_has D a b = (if a = b then Some True else chain_has D a d)"
  using assms by (subst chain_has.simps) auto

lemma iterativeDom_parent:
  assumes U: "finite U" "root \<in> U" "\<And>b s. b \<in> U \<Longrightarrow> s \<in> set (succs b) \<Longrightarrow> s \<in> U"
    and D: "iterativeDom root succs = Some D" and b: "avoiding root succs {} b" "b \<noteq> root"
  shows "\<exists>d. D b = Some d \<and> d \<noteq> b \<and> avoiding root succs {} d \<and>
    (\<forall>a. dominates root succs a b \<longleftrightarrow> a = b \<or> dominates root succs a d)"
proof -
  obtain rpo where rpo: "rpo_from succs root = Some rpo" "rpo_ok root succs rpo"
    using rpo_from_ok [of U succs root] U by blast
  have set: "set rpo = Collect (avoiding root succs {})" using rpo(2) by (simp add: rpo_ok_def)
  obtain D' where D': "idoms root (rpo_preds succs rpo) rpo = Some D'" "dom D' = set rpo" "tree_ok root (rpoNum rpo) D'"
      "\<forall>b \<in> set rpo. chain D' b = {a. dominates root succs a b}"
    using idoms_exact [OF rpo_preds_numbered [OF rpo(2)]] by (elim exE conjE)
  have "D' = D" using D rpo(1) D'(1) by (simp add: iterativeDom_def)
  note D' = D' [unfolded \<open>D' = D\<close>]
  obtain d where d: "D b = Some d" using b set D'(2) by blast
  have "d \<in> dom D" "d \<noteq> b" using D'(3) d b(2) by (auto simp: tree_ok_def)
  moreover have "dominates root succs a b \<longleftrightarrow> a = b \<or> dominates root succs a d" for a
  proof -
    have "b \<in> dom D" "b \<in> set rpo" "d \<in> set rpo" using D'(2) set b \<open>d \<in> dom D\<close> by auto
    then have "chain_has D a b = Some (dominates root succs a b)" "chain_has D a d = Some (dominates root succs a d)"
      using tree_chain_ends [OF D'(3), of b a] tree_chain_ends [OF D'(3), of d a] D'(4) \<open>d \<in> dom D\<close> by simp_all
    moreover have "chain_has D a b = (if a = b then Some True else chain_has D a d)"
      by (rule chain_has_step [where D = D]) (use d \<open>d \<noteq> b\<close> in blast)+
    ultimately show ?thesis by (metis option.inject)
  qed
  ultimately show ?thesis using d D'(2) set by blast
qed

lemma iterativeDom_root:
  assumes U: "finite U" "root \<in> U" "\<And>b s. b \<in> U \<Longrightarrow> s \<in> set (succs b) \<Longrightarrow> s \<in> U" and D: "iterativeDom root succs = Some D"
  shows "D root = Some root"
proof -
  obtain rpo where rpo: "rpo_from succs root = Some rpo" "rpo_ok root succs rpo"
    using rpo_from_ok [of U succs root] U by blast
  obtain D' where "idoms root (rpo_preds succs rpo) rpo = Some D'" "tree_ok root (rpoNum rpo) D'"
    using idoms_exact [OF rpo_preds_numbered [OF rpo(2)]] by blast
  then show ?thesis using D rpo(1) by (simp add: iterativeDom_def tree_ok_def)
qed

lemma Dominators_parent:
  assumes cfg: "cfg_ok f" and e: "Entry f = Some e" and D: "Dominators f = Some D" and b: "reachable f b" "b \<noteq> e"
  shows "\<exists>d. D b = Some d \<and> d \<noteq> b \<and> (\<forall>a. dom_by f a b \<longleftrightarrow> a = b \<or> dom_by f a d)"
proof -
  have "e \<in> set (Blocks f)" using cfg e by (auto simp: cfg_ok_def)
  moreover have "iterativeDom e (succ_blocks f) = Some D" using D e by (simp add: Dominators_def)
  moreover have "avoiding e (succ_blocks f) {} b" using b(1) avoiding_iff [OF cfg e] by simp
  ultimately have "\<exists>d. D b = Some d \<and> d \<noteq> b \<and> avoiding e (succ_blocks f) {} d \<and>
      (\<forall>a. dominates e (succ_blocks f) a b \<longleftrightarrow> a = b \<or> dominates e (succ_blocks f) a d)"
    using iterativeDom_parent [of "set (Blocks f)" e "succ_blocks f" D b] succ_in_Blocks [OF cfg] b(2) by blast
  then show ?thesis by (simp add: dominates_iff [OF cfg e]) blast
qed

text \<open>
  The virtual exit closes the reversed graph; a block whose parent it is has no post-dominator but
  itself.
\<close>

lemma PostDominators_tree:
  assumes cfg: "cfg_ok f"
  shows "\<exists>D. iterativeDom None (rev_succs f) = Some D \<and>
    (\<forall>b. escapes f {} b \<longrightarrow> (\<exists>d. D (Some b) = Some d \<and> d \<noteq> Some b \<and>
       (\<forall>a. dominates None (rev_succs f) a (Some b) \<longleftrightarrow> a = Some b \<or> dominates None (rev_succs f) a d)))"
proof -
  let ?U = "insert None (Some ` set (Blocks f))"
  have U: "s \<in> ?U" if "x \<in> ?U" "s \<in> set (rev_succs f x)" for x s
  proof (cases x)
    case None
    then show ?thesis using that exit_in_Blocks by (auto simp: rev_succs_def)
  next
    case (Some c)
    then have "c \<in> set (Blocks f)" "s \<noteq> None" using that rev_succs_Some by auto
    then show ?thesis using that Some rev_succs_edge [OF cfg, of c] by (auto simp: edge_def)
  qed
  obtain D where D: "iterativeDom None (rev_succs f) = Some D"
    using iterativeDom_tree [of ?U None "rev_succs f"] U by auto
  have "\<exists>d. D (Some b) = Some d \<and> d \<noteq> Some b \<and>
       (\<forall>a. dominates None (rev_succs f) a (Some b) \<longleftrightarrow> a = Some b \<or> dominates None (rev_succs f) a d)"
    if "escapes f {} b" for b
  proof -
    have "avoiding None (rev_succs f) {} (Some b)" using that avoiding_escapes_iff [OF cfg, of "{}"] by simp
    then show ?thesis using iterativeDom_parent [of ?U None "rev_succs f" D "Some b"] U D by auto
  qed
  then show ?thesis using D by blast
qed

lemma PostDominators_parent:
  assumes cfg: "cfg_ok f"
  shows "\<exists>P. PostDominators f = Some P \<and> (\<forall>b \<in> set (Blocks f). escapes f {} b \<longrightarrow>
    (case P b of
       None \<Rightarrow> (\<forall>a. post_dom_by f a b \<longleftrightarrow> a = b)
     | Some d \<Rightarrow> d \<noteq> b \<and> (\<forall>a. post_dom_by f a b \<longleftrightarrow> a = b \<or> post_dom_by f a d)))"
proof -
  obtain D where D: "iterativeDom None (rev_succs f) = Some D"
    "\<And>b. escapes f {} b \<Longrightarrow> \<exists>d. D (Some b) = Some d \<and> d \<noteq> Some b \<and>
       (\<forall>a. dominates None (rev_succs f) a (Some b) \<longleftrightarrow> a = Some b \<or> dominates None (rev_succs f) a d)"
    using PostDominators_tree [OF cfg] by blast
  have "case (Option.bind (D (Some b)) (\<lambda>d. d)) of None \<Rightarrow> (\<forall>a. post_dom_by f a b \<longleftrightarrow> a = b)
     | Some d \<Rightarrow> d \<noteq> b \<and> (\<forall>a. post_dom_by f a b \<longleftrightarrow> a = b \<or> post_dom_by f a d)" if b: "escapes f {} b" for b
  proof -
    obtain d where d: "D (Some b) = Some d" and ne: "d \<noteq> Some b" and d':
        "\<And>a. dominates None (rev_succs f) a (Some b) \<longleftrightarrow> a = Some b \<or> dominates None (rev_succs f) a d"
      using D(2) [OF b] by blast
    have "post_dom_by f a b \<longleftrightarrow> a = b \<or> dominates None (rev_succs f) (Some a) d" for a
      using d' [of "Some a"] by (simp add: post_dominates_iff [OF cfg])
    moreover have "\<not> dominates None (rev_succs f) (Some a) None" for a
      by (auto simp: dominates_def intro: avoiding.root)
    ultimately show ?thesis using d ne by (auto split: option.splits simp: post_dominates_iff [OF cfg])
  qed
  then show ?thesis using D(1) by (simp add: PostDominators_def)
qed

lemma Dominators_entry:
  assumes cfg: "cfg_ok f" and e: "Entry f = Some e" and D: "Dominators f = Some D"
  shows "D e = Some e"
proof -
  have "e \<in> set (Blocks f)" using cfg e by (auto simp: cfg_ok_def)
  moreover have "iterativeDom e (succ_blocks f) = Some D" using D e by (simp add: Dominators_def)
  ultimately show ?thesis
    using iterativeDom_root [of "set (Blocks f)" e "succ_blocks f" D] succ_in_Blocks [OF cfg] by blast
qed

text \<open>The nearest of the other nodes that dominate a node, for either relation.\<close>

definition immediate :: "(nat \<Rightarrow> nat \<Rightarrow> bool) \<Rightarrow> nat \<Rightarrow> nat \<Rightarrow> bool" where
  "immediate doms d b \<longleftrightarrow> d \<noteq> b \<and> doms d b \<and> (\<forall>a. a \<noteq> b \<and> doms a b \<longrightarrow> doms a d)"

lemma immediateI:
  assumes "d \<noteq> b" and "\<forall>a. doms a b \<longleftrightarrow> a = b \<or> doms a d" and "doms d d"
  shows "immediate doms d b"
  unfolding immediate_def using assms by blast

lemma dom_refl: "dom_by f d d" "post_dom_by f d d"
  by (auto simp: dom_by_def post_dom_by_def elim: avoids.cases escapes.cases)

text \<open>
  C32: For a function whose edge lists mirror each other and whose blocks are all reachable, the tree
  of \<^verbatim>\<open>Dominators\<close> gives the entry itself and every other block its immediate dominator: the other
  block that dominates it and that all its further dominators dominate. \<^verbatim>\<open>BackEdges\<close> are the
  edges whose target dominates their source, \<^verbatim>\<open>LoopHeaders\<close> are their targets, and
  \<^verbatim>\<open>PostDominators\<close> gives every block from which an exit can be reached its immediate
  post-dominator, or nothing when no other block post-dominates it.
\<close>

theorem domtree_exact:
  assumes cfg: "cfg_ok f" and "Entry f = Some e" and "all_reachable f"
  shows "\<exists>D P es. Dominators f = Some D \<and> PostDominators f = Some P \<and> BackEdges f = Some es \<and>
    D e = Some e \<and> (\<forall>b \<in> set (Blocks f). b \<noteq> e \<longrightarrow> (\<exists>d. D b = Some d \<and> immediate (dom_by f) d b)) \<and>
    set es = {(b, s). edge f b s \<and> dom_by f s b} \<and>
    LoopHeaders f = Some {s. \<exists>b. edge f b s \<and> dom_by f s b} \<and>
    (\<forall>b \<in> set (Blocks f). escapes f {} b \<longrightarrow>
       (case P b of
          None \<Rightarrow> (\<forall>a. post_dom_by f a b \<longleftrightarrow> a = b)
        | Some d \<Rightarrow> immediate (post_dom_by f) d b))"
proof -
  obtain D where D: "Dominators f = Some D" using Dominators_tree [OF cfg] by blast
  have par: "\<exists>d. D b = Some d \<and> immediate (dom_by f) d b" if "b \<in> set (Blocks f)" "b \<noteq> e" for b
    using Dominators_parent [OF cfg assms(2) D, of b] that assms(3) immediateI [where doms = "dom_by f"] dom_refl(1)
    unfolding all_reachable_def by metis
  have en: "D e = Some e" by (rule Dominators_entry [OF cfg assms(2) D])
  obtain es where es: "BackEdges f = Some es" "set es = {(b, s). edge f b s \<and> dom_by f s b}"
    using BackEdges_tree [OF cfg assms(3)] by blast
  have hs: "LoopHeaders f = Some {s. \<exists>b. edge f b s \<and> dom_by f s b}"
    using es by (auto simp: LoopHeaders_def image_iff)
  obtain P where P: "PostDominators f = Some P" "\<forall>b \<in> set (Blocks f). escapes f {} b \<longrightarrow>
      (case P b of None \<Rightarrow> (\<forall>a. post_dom_by f a b \<longleftrightarrow> a = b)
       | Some d \<Rightarrow> d \<noteq> b \<and> (\<forall>a. post_dom_by f a b \<longleftrightarrow> a = b \<or> post_dom_by f a d))"
    using PostDominators_parent [OF cfg] by blast
  have "case P b of None \<Rightarrow> (\<forall>a. post_dom_by f a b \<longleftrightarrow> a = b) | Some d \<Rightarrow> immediate (post_dom_by f) d b"
    if "b \<in> set (Blocks f)" "escapes f {} b" for b
    using P(2) that immediateI [where doms = "post_dom_by f"] dom_refl(2) by (cases "P b") auto
  then show ?thesis using D P(1) par en es hs by blast
qed

text \<open>The join of a diamond is dominated by its head and by nothing between.\<close>

lemma diamond_edges: "edge diamond b s \<longleftrightarrow> (b, s) \<in> {(0, 1), (0, 2), (1, 3), (2, 3)}"
  by (auto simp: edge_def diamond_facts)

theorem domtree_exact_witness:
  "\<exists>D. Dominators diamond = Some D \<and> D 0 = Some 0 \<and> D 3 = Some 0 \<and> BackEdges diamond = Some [] \<and> LoopHeaders diamond = Some {}"
proof -
  have r: "avoids diamond {k} 0" if "k \<noteq> 0" for k
    using that by (intro avoids.entry) (simp_all add: diamond_facts)
  have e: "edge diamond 0 1" "edge diamond 0 2" "edge diamond 1 3" "edge diamond 2 3" by (simp_all add: diamond_edges)
  have 1: "avoids diamond {k} 1" if "k \<noteq> 0" "k \<noteq> 1" for k by (rule avoids.step [OF r [OF that(1)] e(1)]) (use that in simp)
  have 2: "avoids diamond {k} 2" if "k \<noteq> 0" "k \<noteq> 2" for k by (rule avoids.step [OF r [OF that(1)] e(2)]) (use that in simp)
  have 3: "avoids diamond {k} 3" if "k \<noteq> 0" "k \<noteq> 3" for k
    using avoids.step [OF 1 e(3)] avoids.step [OF 2 e(4)] that by (cases "k = 1") simp_all
  have "\<not> (edge diamond b s \<and> dom_by diamond s b)" for b s
    using r 1 2 by (auto simp: diamond_edges dom_by_def)
  then have n: "{(b, s). edge diamond b s \<and> dom_by diamond s b} = {}" "{s. \<exists>b. edge diamond b s \<and> dom_by diamond s b} = {}"
    by auto
  have "d = 0" if "immediate (dom_by diamond) d 3" for d using that 3 [of d] by (auto simp: immediate_def dom_by_def)
  moreover have "3 \<in> set (Blocks diamond)" by (simp add: diamond_facts)
  ultimately show ?thesis
    using domtree_exact [OF diamond_ok(1) diamond_blocks(2) diamond_reachable] n by (fastforce simp flip: set_empty)
qed

end
