(* ===== verification/WasmSem.thy ===== *)
theory WasmSem
  imports SsaMem LowerState
begin

text \<open>
  WebAssembly itself, for the part of the language whose lowering is followed to its meaning:
  structured control flow, locals, globals, integer arithmetic and a 32-bit memory. An abstract
  syntax, the bytes that stand for it, the stack discipline that validation imposes and an
  interpreter. None of this is code of the repository: it is the specification against which the
  lowering is judged. A memory instruction means what the runtime's helper for it does, the subject
  of \<open>RtMemory\<close>.
\<close>

section \<open>Instructions\<close>

datatype ibin = IAdd | ISub | IMul | IDivS | IDivU | IRemS | IRemU | IAnd | IOr | IXor | IShl | IShrS | IShrU | IRotl | IRotr
datatype irel = IEq | INe | ILtS | ILtU | IGtS | IGtU | ILeS | ILeU | IGeS | IGeU
datatype iun = IClz | ICtz | IPopcnt
datatype icvt = CWrap | CExtendS | CExtendU | CExt32From8 | CExt32From16 | CExt64From8 | CExt64From16 | CExt64From32
datatype mload = L32 | L64 | LF32 | LF64 | L32From8S | L32From8U | L32From16S | L32From16U |
  L64From8S | L64From8U | L64From16S | L64From16U | L64From32S | L64From32U
datatype mstore = S32 | S64 | SF32 | SF64 | S32To8 | S32To16 | S64To8 | S64To16 | S64To32

datatype winstr =
    WNop | WDrop | WSelect | WConst32 i32 | WConst64 i64 | WConstF32 u32 | WConstF64 u64
  | WLocalGet u32 | WLocalSet u32 | WLocalTee u32 | WGlobalGet u32 | WGlobalSet u32
  | WBin32 ibin | WBin64 ibin | WRel32 irel | WRel64 irel | WUn32 iun | WUn64 iun | WEqz32 | WEqz64 | WCvt icvt
  | WLoad mload u64 | WStore mstore u64 | WMemSize | WMemGrow | WMemCopy | WMemFill | WMemInit u32 | WDataDrop u32
  | WUnreachable | WReturn | WBr u32 | WBrIf u32 | WBrTable "u32 list" u32
  | WBlock nat "winstr list" | WLoop nat "winstr list" | WIf nat "winstr list" "winstr list"

section \<open>The binary format\<close>

fun bin32_code :: "ibin \<Rightarrow> byte" where
  "bin32_code IAdd = 0x6a" | "bin32_code ISub = 0x6b" | "bin32_code IMul = 0x6c" | "bin32_code IDivS = 0x6d"
| "bin32_code IDivU = 0x6e" | "bin32_code IRemS = 0x6f" | "bin32_code IRemU = 0x70" | "bin32_code IAnd = 0x71"
| "bin32_code IOr = 0x72" | "bin32_code IXor = 0x73" | "bin32_code IShl = 0x74" | "bin32_code IShrS = 0x75"
| "bin32_code IShrU = 0x76" | "bin32_code IRotl = 0x77" | "bin32_code IRotr = 0x78"

fun bin64_code :: "ibin \<Rightarrow> byte" where
  "bin64_code IAdd = 0x7c" | "bin64_code ISub = 0x7d" | "bin64_code IMul = 0x7e" | "bin64_code IDivS = 0x7f"
| "bin64_code IDivU = 0x80" | "bin64_code IRemS = 0x81" | "bin64_code IRemU = 0x82" | "bin64_code IAnd = 0x83"
| "bin64_code IOr = 0x84" | "bin64_code IXor = 0x85" | "bin64_code IShl = 0x86" | "bin64_code IShrS = 0x87"
| "bin64_code IShrU = 0x88" | "bin64_code IRotl = 0x89" | "bin64_code IRotr = 0x8a"

fun rel32_code :: "irel \<Rightarrow> byte" where
  "rel32_code IEq = 0x46" | "rel32_code INe = 0x47" | "rel32_code ILtS = 0x48" | "rel32_code ILtU = 0x49"
| "rel32_code IGtS = 0x4a" | "rel32_code IGtU = 0x4b" | "rel32_code ILeS = 0x4c" | "rel32_code ILeU = 0x4d"
| "rel32_code IGeS = 0x4e" | "rel32_code IGeU = 0x4f"

fun rel64_code :: "irel \<Rightarrow> byte" where
  "rel64_code IEq = 0x51" | "rel64_code INe = 0x52" | "rel64_code ILtS = 0x53" | "rel64_code ILtU = 0x54"
| "rel64_code IGtS = 0x55" | "rel64_code IGtU = 0x56" | "rel64_code ILeS = 0x57" | "rel64_code ILeU = 0x58"
| "rel64_code IGeS = 0x59" | "rel64_code IGeU = 0x5a"

fun un32_code :: "iun \<Rightarrow> byte" where
  "un32_code IClz = 0x67" | "un32_code ICtz = 0x68" | "un32_code IPopcnt = 0x69"

fun un64_code :: "iun \<Rightarrow> byte" where
  "un64_code IClz = 0x79" | "un64_code ICtz = 0x7a" | "un64_code IPopcnt = 0x7b"

fun cvt_code :: "icvt \<Rightarrow> byte" where
  "cvt_code CWrap = 0xa7" | "cvt_code CExtendS = 0xac" | "cvt_code CExtendU = 0xad" | "cvt_code CExt32From8 = 0xc0"
| "cvt_code CExt32From16 = 0xc1" | "cvt_code CExt64From8 = 0xc2" | "cvt_code CExt64From16 = 0xc3" | "cvt_code CExt64From32 = 0xc4"

fun load_code :: "mload \<Rightarrow> byte" where
  "load_code L32 = 0x28" | "load_code L64 = 0x29" | "load_code LF32 = 0x2a" | "load_code LF64 = 0x2b"
| "load_code L32From8S = 0x2c" | "load_code L32From8U = 0x2d" | "load_code L32From16S = 0x2e" | "load_code L32From16U = 0x2f"
| "load_code L64From8S = 0x30" | "load_code L64From8U = 0x31" | "load_code L64From16S = 0x32" | "load_code L64From16U = 0x33"
| "load_code L64From32S = 0x34" | "load_code L64From32U = 0x35"

fun store_code :: "mstore \<Rightarrow> byte" where
  "store_code S32 = 0x36" | "store_code S64 = 0x37" | "store_code SF32 = 0x38" | "store_code SF64 = 0x39"
| "store_code S32To8 = 0x3a" | "store_code S32To16 = 0x3b" | "store_code S64To8 = 0x3c" | "store_code S64To16 = 0x3d"
| "store_code S64To32 = 0x3e"

text \<open>The instructions without control flow, by their first byte and the reader of their immediates.\<close>

definition discarding :: "'a rd \<Rightarrow> winstr \<Rightarrow> winstr rd" where
  "discarding p i = pbind p (\<lambda>_. pret i)"

fun plain_code :: "winstr \<Rightarrow> (byte \<times> winstr rd) option" where
  "plain_code WNop = Some (0x01, pret WNop)"
| "plain_code WDrop = Some (0x1a, pret WDrop)"
| "plain_code (WConst32 c) = Some (0x41, pbind irReadS32 (\<lambda>c. pret (WConst32 c)))"
| "plain_code (WConst64 c) = Some (0x42, pbind irReadS64 (\<lambda>c. pret (WConst64 c)))"
| "plain_code (WConstF32 c) = Some (0x43, pbind irReadF32 (\<lambda>c. pret (WConstF32 c)))"
| "plain_code (WConstF64 c) = Some (0x44, pbind irReadF64 (\<lambda>c. pret (WConstF64 c)))"
| "plain_code (WLocalGet i) = Some (0x20, pbind irReadU32 (\<lambda>i. pret (WLocalGet i)))"
| "plain_code (WLocalSet i) = Some (0x21, pbind irReadU32 (\<lambda>i. pret (WLocalSet i)))"
| "plain_code (WLocalTee i) = Some (0x22, pbind irReadU32 (\<lambda>i. pret (WLocalTee i)))"
| "plain_code (WGlobalGet i) = Some (0x23, pbind irReadU32 (\<lambda>i. pret (WGlobalGet i)))"
| "plain_code (WGlobalSet i) = Some (0x24, pbind irReadU32 (\<lambda>i. pret (WGlobalSet i)))"
| "plain_code (WBin32 o') = Some (bin32_code o', pret (WBin32 o'))"
| "plain_code (WBin64 o') = Some (bin64_code o', pret (WBin64 o'))"
| "plain_code (WRel32 o') = Some (rel32_code o', pret (WRel32 o'))"
| "plain_code (WRel64 o') = Some (rel64_code o', pret (WRel64 o'))"
| "plain_code (WUn32 o') = Some (un32_code o', pret (WUn32 o'))"
| "plain_code (WUn64 o') = Some (un64_code o', pret (WUn64 o'))"
| "plain_code WEqz32 = Some (0x45, pret WEqz32)"
| "plain_code WEqz64 = Some (0x50, pret WEqz64)"
| "plain_code (WCvt o') = Some (cvt_code o', pret (WCvt o'))"
| "plain_code (WLoad l off) = Some (load_code l, pbind irReadMemArg (\<lambda>(_, off). pret (WLoad l off)))"
| "plain_code (WStore l off) = Some (store_code l, pbind irReadMemArg (\<lambda>(_, off). pret (WStore l off)))"
| "plain_code WMemSize = Some (0x3f, discarding irReadByte WMemSize)"
| "plain_code WMemGrow = Some (0x40, discarding irReadByte WMemGrow)"
| "plain_code (WMemInit k) = Some (0xfc, pbind irReadU32 (\<lambda>sub. pguard (sub = 8) (Fail '''' [])
     (pbind irReadU32 (\<lambda>k. discarding irReadByte (WMemInit k)))))"
| "plain_code (WDataDrop k) = Some (0xfc, pbind irReadU32 (\<lambda>sub. pguard (sub = 9) (Fail '''' [])
     (pbind irReadU32 (\<lambda>k. pret (WDataDrop k)))))"
| "plain_code WMemCopy = Some (0xfc, pbind irReadU32 (\<lambda>sub. pguard (sub = 10) (Fail '''' [])
     (pbind irReadByte (\<lambda>_. discarding irReadByte WMemCopy))))"
| "plain_code WMemFill = Some (0xfc, pbind irReadU32 (\<lambda>sub. pguard (sub = 11) (Fail '''' [])
     (discarding irReadByte WMemFill)))"
| "plain_code _ = None"

text \<open>
  \<open>code_of is bs rest\<close>: the bytes \<open>bs\<close> are those of the instructions \<open>is\<close>, then \<open>rest\<close>. The
  end byte of a block is between its instructions and the rest; a conditional may leave out an
  empty alternative.
\<close>

definition block_results :: "byte list \<Rightarrow> nat \<Rightarrow> byte list \<Rightarrow> bool" where
  "block_results bs r rest \<longleftrightarrow> (\<exists>bt rs. irReadS33 bs = Inr (bt, rest) \<and> decodeBlockResults bt = Inr rs \<and> length rs = r)"

inductive code_of :: "winstr list \<Rightarrow> byte list \<Rightarrow> byte list \<Rightarrow> bool" where
  code_nil: "code_of [] bs bs"
| code_plain: "plain_code i = Some (opc, rd) \<Longrightarrow> rd bs = Inr (i, bs1) \<Longrightarrow> code_of is bs1 rest \<Longrightarrow>
    code_of (i # is) (opc # bs) rest"
| code_select: "code_of is bs rest \<Longrightarrow> code_of (WSelect # is) (0x1b # bs) rest"
| code_unreachable: "code_of is bs rest \<Longrightarrow> code_of (WUnreachable # is) (0x00 # bs) rest"
| code_return: "code_of is bs rest \<Longrightarrow> code_of (WReturn # is) (0x0f # bs) rest"
| code_br: "irReadU32 bs = Inr (d, bs1) \<Longrightarrow> code_of is bs1 rest \<Longrightarrow> code_of (WBr d # is) (0x0c # bs) rest"
| code_br_if: "irReadU32 bs = Inr (d, bs1) \<Longrightarrow> code_of is bs1 rest \<Longrightarrow> code_of (WBrIf d # is) (0x0d # bs) rest"
| code_br_table: "irReadVecU32 bs = Inr (ds, bs1) \<Longrightarrow> irReadU32 bs1 = Inr (d, bs2) \<Longrightarrow> code_of is bs2 rest \<Longrightarrow>
    code_of (WBrTable ds d # is) (0x0e # bs) rest"
| code_block: "block_results bs r bs1 \<Longrightarrow> code_of body bs1 (0x0b # bs2) \<Longrightarrow> code_of is bs2 rest \<Longrightarrow>
    code_of (WBlock r body # is) (0x02 # bs) rest"
| code_loop: "block_results bs r bs1 \<Longrightarrow> code_of body bs1 (0x0b # bs2) \<Longrightarrow> code_of is bs2 rest \<Longrightarrow>
    code_of (WLoop r body # is) (0x03 # bs) rest"
| code_if: "block_results bs r bs1 \<Longrightarrow> code_of body bs1 (0x05 # bs2) \<Longrightarrow> code_of body' bs2 (0x0b # bs3) \<Longrightarrow>
    code_of is bs3 rest \<Longrightarrow> code_of (WIf r body body' # is) (0x04 # bs) rest"
| code_if_only: "block_results bs 0 bs1 \<Longrightarrow> code_of body bs1 (0x0b # bs2) \<Longrightarrow> code_of is bs2 rest \<Longrightarrow>
    code_of (WIf 0 body [] # is) (0x04 # bs) rest"

section \<open>The stack discipline\<close>

text \<open>
  The part of validation the lowering relies on: the height of the operand stack of a block at
  every live instruction. \<open>ls\<close> holds the number of operands of each label, innermost first, and
  \<open>n\<close> the number of results of the function; the result is \<open>Some None\<close> where the end is not
  reached, and None where an instruction finds too few operands or a block ends with the wrong
  number of them.
\<close>

fun plain_arity :: "winstr \<Rightarrow> nat \<times> nat" where
  "plain_arity WDrop = (1, 0)" | "plain_arity WSelect = (3, 1)"
| "plain_arity (WConst32 _) = (0, 1)" | "plain_arity (WConst64 _) = (0, 1)" | "plain_arity (WConstF32 _) = (0, 1)"
| "plain_arity (WConstF64 _) = (0, 1)" | "plain_arity (WLocalGet _) = (0, 1)" | "plain_arity (WLocalSet _) = (1, 0)"
| "plain_arity (WLocalTee _) = (1, 1)" | "plain_arity (WGlobalGet _) = (0, 1)" | "plain_arity (WGlobalSet _) = (1, 0)"
| "plain_arity (WBin32 _) = (2, 1)" | "plain_arity (WBin64 _) = (2, 1)" | "plain_arity (WRel32 _) = (2, 1)"
| "plain_arity (WRel64 _) = (2, 1)" | "plain_arity (WUn32 _) = (1, 1)" | "plain_arity (WUn64 _) = (1, 1)"
| "plain_arity WEqz32 = (1, 1)" | "plain_arity WEqz64 = (1, 1)" | "plain_arity (WCvt _) = (1, 1)"
| "plain_arity (WLoad _ _) = (1, 1)" | "plain_arity (WStore _ _) = (2, 0)" | "plain_arity WMemSize = (0, 1)"
| "plain_arity WMemGrow = (1, 1)" | "plain_arity WMemCopy = (3, 0)" | "plain_arity WMemFill = (3, 0)"
| "plain_arity (WMemInit _) = (3, 0)" | "plain_arity _ = (0, 0)"

definition label_arity :: "nat list \<Rightarrow> u32 \<Rightarrow> nat option" where
  "label_arity ls d = (if unat d < length ls then Some (ls ! unat d) else None)"

definition needs :: "nat option \<Rightarrow> nat \<Rightarrow> bool" where
  "needs a h \<longleftrightarrow> (\<exists>r. a = Some r \<and> r \<le> h)"

text \<open>A block with \<open>r\<close> results from the check of its body.\<close>

definition ends_with :: "nat \<Rightarrow> nat option option \<Rightarrow> bool" where
  "ends_with r c \<longleftrightarrow> c = Some None \<or> c = Some (Some r)"

fun height_instr :: "nat list \<Rightarrow> nat \<Rightarrow> winstr \<Rightarrow> nat \<Rightarrow> nat option option"
  and height_seq :: "nat list \<Rightarrow> nat \<Rightarrow> winstr list \<Rightarrow> nat \<Rightarrow> nat option option" where
  "height_instr ls n WUnreachable h = Some None"
| "height_instr ls n WReturn h = (if n \<le> h then Some None else None)"
| "height_instr ls n (WBr d) h = (if needs (label_arity ls d) h then Some None else None)"
| "height_instr ls n (WBrIf d) h = (if 0 < h \<and> needs (label_arity ls d) (h - 1) then Some (Some (h - 1)) else None)"
| "height_instr ls n (WBrTable ds d) h =
     (if 0 < h \<and> needs (label_arity ls d) (h - 1) \<and> list_all (\<lambda>d'. label_arity ls d' = label_arity ls d) ds
      then Some None else None)"
| "height_instr ls n (WBlock r body) h =
     (if ends_with r (height_seq (r # ls) n body 0) then Some (Some (h + r)) else None)"
| "height_instr ls n (WLoop r body) h =
     (if ends_with r (height_seq (0 # ls) n body 0) then Some (Some (h + r)) else None)"
| "height_instr ls n (WIf r body body') h =
     (if 0 < h \<and> ends_with r (height_seq (r # ls) n body 0) \<and> ends_with r (height_seq (r # ls) n body' 0)
      then Some (Some (h - 1 + r)) else None)"
| "height_instr ls n i h =
     (if fst (plain_arity i) \<le> h then Some (Some (h - fst (plain_arity i) + snd (plain_arity i))) else None)"
| "height_seq ls n [] h = Some (Some h)"
| "height_seq ls n (i # is) h =
     (case height_instr ls n i h of
        None \<Rightarrow> None | Some None \<Rightarrow> Some None | Some (Some h') \<Rightarrow> height_seq ls n is h')"

section \<open>Arithmetic\<close>

fun ibin_sem :: "ibin \<Rightarrow> 'a::len word \<Rightarrow> 'a word \<Rightarrow> 'a word trap" where
  "ibin_sem IAdd x y = Inr (x + y)"
| "ibin_sem ISub x y = Inr (x - y)"
| "ibin_sem IMul x y = Inr (x * y)"
| "ibin_sem IDivS x y =
     (if y = 0 then trap_div_zero
      else if \<not> quot_fits LENGTH('a) (sint x) (sint y) then trap_int_overflow
      else Inr (word_of_int (sint x sdiv sint y)))"
| "ibin_sem IDivU x y = (if y = 0 then trap_div_zero else Inr (word_of_nat (unat x div unat y)))"
| "ibin_sem IRemS x y = (if y = 0 then trap_div_zero else Inr (word_of_int (sint x smod sint y)))"
| "ibin_sem IRemU x y = (if y = 0 then trap_div_zero else Inr (word_of_nat (unat x mod unat y)))"
| "ibin_sem IAnd x y = Inr (x AND y)"
| "ibin_sem IOr x y = Inr (x OR y)"
| "ibin_sem IXor x y = Inr (x XOR y)"
| "ibin_sem IShl x y = Inr (push_bit (unat y mod LENGTH('a)) x)"
| "ibin_sem IShrS x y = Inr (signed_drop_bit (unat y mod LENGTH('a)) x)"
| "ibin_sem IShrU x y = Inr (drop_bit (unat y mod LENGTH('a)) x)"
| "ibin_sem IRotl x y = Inr (word_rotl (unat y mod LENGTH('a)) x)"
| "ibin_sem IRotr x y = Inr (word_rotr (unat y mod LENGTH('a)) x)"

fun irel_sem :: "irel \<Rightarrow> 'a::len word \<Rightarrow> 'a word \<Rightarrow> bool" where
  "irel_sem IEq x y = (x = y)"
| "irel_sem INe x y = (x \<noteq> y)"
| "irel_sem ILtS x y = (sint x < sint y)"
| "irel_sem ILtU x y = (unat x < unat y)"
| "irel_sem IGtS x y = (sint x > sint y)"
| "irel_sem IGtU x y = (unat x > unat y)"
| "irel_sem ILeS x y = (sint x \<le> sint y)"
| "irel_sem ILeU x y = (unat x \<le> unat y)"
| "irel_sem IGeS x y = (sint x \<ge> sint y)"
| "irel_sem IGeU x y = (unat x \<ge> unat y)"

fun iun_sem :: "iun \<Rightarrow> 'a::len word \<Rightarrow> 'a word" where
  "iun_sem IClz x = word_of_nat (go_LeadingZeros x)"
| "iun_sem ICtz x = word_of_nat (go_TrailingZeros x)"
| "iun_sem IPopcnt x = word_of_nat (go_OnesCount x)"

fun icvt_sem :: "icvt \<Rightarrow> wval \<Rightarrow> wval option" where
  "icvt_sem CWrap (W64 x) = Some (W32 (ucast x))"
| "icvt_sem CExtendS (W32 x) = Some (W64 (scast x))"
| "icvt_sem CExtendU (W32 x) = Some (W64 (ucast x))"
| "icvt_sem CExt32From8 (W32 x) = Some (W32 (scast (ucast x :: byte)))"
| "icvt_sem CExt32From16 (W32 x) = Some (W32 (scast (ucast x :: u16)))"
| "icvt_sem CExt64From8 (W64 x) = Some (W64 (scast (ucast x :: byte)))"
| "icvt_sem CExt64From16 (W64 x) = Some (W64 (scast (ucast x :: u16)))"
| "icvt_sem CExt64From32 (W64 x) = Some (W64 (scast (ucast x :: u32)))"
| "icvt_sem c w = None"

section \<open>Memory\<close>

fun mload_sem :: "mload \<Rightarrow> RtModule \<Rightarrow> i32 \<Rightarrow> u32 \<Rightarrow> wval trap" where
  "mload_sem L32 m a off = map_trap W32 (mload32 m a off)"
| "mload_sem L64 m a off = map_trap W64 (mload64 m a off)"
| "mload_sem LF32 m a off = map_trap WF32 (mloadF32 m a off)"
| "mload_sem LF64 m a off = map_trap WF64 (mloadF64 m a off)"
| "mload_sem L32From8S m a off = map_trap W32 (mload8s m a off)"
| "mload_sem L32From8U m a off = map_trap W32 (mload8u m a off)"
| "mload_sem L32From16S m a off = map_trap W32 (mload16s m a off)"
| "mload_sem L32From16U m a off = map_trap W32 (mload16u m a off)"
| "mload_sem L64From8S m a off = map_trap W64 (mload64_8s m a off)"
| "mload_sem L64From8U m a off = map_trap W64 (mload64_8u m a off)"
| "mload_sem L64From16S m a off = map_trap W64 (mload64_16s m a off)"
| "mload_sem L64From16U m a off = map_trap W64 (mload64_16u m a off)"
| "mload_sem L64From32S m a off = map_trap W64 (mload64_32s m a off)"
| "mload_sem L64From32U m a off = map_trap W64 (mload64_32u m a off)"

fun mstore_sem :: "mstore \<Rightarrow> wval \<Rightarrow> (RtModule \<Rightarrow> i32 \<Rightarrow> u32 \<Rightarrow> RtModule trap) option" where
  "mstore_sem S32 (W32 v) = Some (\<lambda>m a off. mstore32 m a off v)"
| "mstore_sem S64 (W64 v) = Some (\<lambda>m a off. mstore64 m a off v)"
| "mstore_sem SF32 (WF32 v) = Some (\<lambda>m a off. mstoreF32 m a off v)"
| "mstore_sem SF64 (WF64 v) = Some (\<lambda>m a off. mstoreF64 m a off v)"
| "mstore_sem S32To8 (W32 v) = Some (\<lambda>m a off. mstore8 m a off v)"
| "mstore_sem S32To16 (W32 v) = Some (\<lambda>m a off. mstore16 m a off v)"
| "mstore_sem S64To8 (W64 v) = Some (\<lambda>m a off. mstore8_64 m a off v)"
| "mstore_sem S64To16 (W64 v) = Some (\<lambda>m a off. mstore16_64 m a off v)"
| "mstore_sem S64To32 (W64 v) = Some (\<lambda>m a off. mstore32_64 m a off v)"
| "mstore_sem c w = None"

section \<open>The interpreter\<close>

text \<open>
  The guest's state: the runtime's module and the globals. A result carries the operands of the
  block, the last one first, and the locals; a branch names its label by the number of blocks it
  leaves. \<open>WStuck\<close> is an instruction on operands of the wrong kind, \<open>WTimeout\<close> the end of the
  fuel.
\<close>

type_synonym guest = "(u32 \<Rightarrow> wval) machine"

datatype wres =
    WStuck | WTimeout | WTrap guest
  | WNormal "wval list" "wval list" guest
  | WBranch nat "wval list" "wval list" guest
  | WReturned "wval list" guest

definition to_res :: "guest \<Rightarrow> ('a \<Rightarrow> wres) \<Rightarrow> 'a trap \<Rightarrow> wres" where
  "to_res st k t = (case t of Inl _ \<Rightarrow> WTrap st | Inr x \<Rightarrow> k x)"

definition with_mem :: "wval list \<Rightarrow> wval list \<Rightarrow> guest \<Rightarrow> RtModule trap \<Rightarrow> wres" where
  "with_mem ws ls st t = to_res st (\<lambda>m. WNormal ws ls (m, snd st)) t"

text \<open>Popping an operand of any kind, and of a kind.\<close>

fun pop1 :: "(wval \<Rightarrow> wval list \<Rightarrow> wres) \<Rightarrow> wval list \<Rightarrow> wres" where
  "pop1 k [] = WStuck"
| "pop1 k (w # ws) = k w ws"

definition pop32 :: "(i32 \<Rightarrow> wval list \<Rightarrow> wres) \<Rightarrow> wval list \<Rightarrow> wres" where
  "pop32 k = pop1 (\<lambda>w. case w of W32 x \<Rightarrow> k x | _ \<Rightarrow> \<lambda>_. WStuck)"

definition pop64 :: "(i64 \<Rightarrow> wval list \<Rightarrow> wres) \<Rightarrow> wval list \<Rightarrow> wres" where
  "pop64 k = pop1 (\<lambda>w. case w of W64 x \<Rightarrow> k x | _ \<Rightarrow> \<lambda>_. WStuck)"

fun plain_sem :: "winstr \<Rightarrow> wval list \<Rightarrow> wval list \<Rightarrow> guest \<Rightarrow> wres" where
  "plain_sem WNop ws ls st = WNormal ws ls st"
| "plain_sem WDrop ws ls st = pop1 (\<lambda>_ ws. WNormal ws ls st) ws"
| "plain_sem WSelect ws ls st =
     pop32 (\<lambda>c. pop1 (\<lambda>w2. pop1 (\<lambda>w1 ws. WNormal ((if c \<noteq> 0 then w1 else w2) # ws) ls st))) ws"
| "plain_sem (WConst32 c) ws ls st = WNormal (W32 c # ws) ls st"
| "plain_sem (WConst64 c) ws ls st = WNormal (W64 c # ws) ls st"
| "plain_sem (WConstF32 c) ws ls st = WNormal (WF32 c # ws) ls st"
| "plain_sem (WConstF64 c) ws ls st = WNormal (WF64 c # ws) ls st"
| "plain_sem (WLocalGet i) ws ls st = (if unat i < length ls then WNormal (ls ! unat i # ws) ls st else WStuck)"
| "plain_sem (WLocalSet i) ws ls st =
     pop1 (\<lambda>w ws. if unat i < length ls then WNormal ws (ls[unat i := w]) st else WStuck) ws"
| "plain_sem (WLocalTee i) ws ls st =
     pop1 (\<lambda>w ws. if unat i < length ls then WNormal (w # ws) (ls[unat i := w]) st else WStuck) ws"
| "plain_sem (WGlobalGet i) ws ls st = WNormal (snd st i # ws) ls st"
| "plain_sem (WGlobalSet i) ws ls st = pop1 (\<lambda>w ws. WNormal ws ls (fst st, (snd st)(i := w))) ws"
| "plain_sem (WBin32 b) ws ls st =
     pop32 (\<lambda>y. pop32 (\<lambda>x ws. to_res st (\<lambda>z. WNormal (W32 z # ws) ls st) (ibin_sem b x y))) ws"
| "plain_sem (WBin64 b) ws ls st =
     pop64 (\<lambda>y. pop64 (\<lambda>x ws. to_res st (\<lambda>z. WNormal (W64 z # ws) ls st) (ibin_sem b x y))) ws"
| "plain_sem (WRel32 r) ws ls st = pop32 (\<lambda>y. pop32 (\<lambda>x ws. WNormal (wbool (irel_sem r x y) # ws) ls st)) ws"
| "plain_sem (WRel64 r) ws ls st = pop64 (\<lambda>y. pop64 (\<lambda>x ws. WNormal (wbool (irel_sem r x y) # ws) ls st)) ws"
| "plain_sem (WUn32 u) ws ls st = pop32 (\<lambda>x ws. WNormal (W32 (iun_sem u x) # ws) ls st) ws"
| "plain_sem (WUn64 u) ws ls st = pop64 (\<lambda>x ws. WNormal (W64 (iun_sem u x) # ws) ls st) ws"
| "plain_sem WEqz32 ws ls st = pop32 (\<lambda>x ws. WNormal (wbool (x = 0) # ws) ls st) ws"
| "plain_sem WEqz64 ws ls st = pop64 (\<lambda>x ws. WNormal (wbool (x = 0) # ws) ls st) ws"
| "plain_sem (WCvt c) ws ls st =
     pop1 (\<lambda>w ws. case icvt_sem c w of Some w' \<Rightarrow> WNormal (w' # ws) ls st | None \<Rightarrow> WStuck) ws"
| "plain_sem (WLoad l off) ws ls st =
     pop32 (\<lambda>a ws. if off \<le> 0xffffffff
       then to_res st (\<lambda>w. WNormal (w # ws) ls st) (mload_sem l (fst st) a (ucast off)) else WStuck) ws"
| "plain_sem (WStore l off) ws ls st =
     pop1 (\<lambda>w. pop32 (\<lambda>a ws.
       case mstore_sem l w of
         Some sto \<Rightarrow> if off \<le> 0xffffffff then with_mem ws ls st (sto (fst st) a (ucast off)) else WStuck
       | None \<Rightarrow> WStuck)) ws"
| "plain_sem WMemSize ws ls st = WNormal (W32 (memorySize (fst st)) # ws) ls st"
| "plain_sem WMemGrow ws ls st =
     pop32 (\<lambda>n ws. to_res st (\<lambda>(r, m). WNormal (W32 r # ws) ls (m, snd st)) (memoryGrow (fst st) n)) ws"
| "plain_sem WMemCopy ws ls st =
     pop32 (\<lambda>n. pop32 (\<lambda>s. pop32 (\<lambda>d ws. with_mem ws ls st (memoryCopy (fst st) d s n)))) ws"
| "plain_sem WMemFill ws ls st =
     pop32 (\<lambda>n. pop32 (\<lambda>v. pop32 (\<lambda>d ws. with_mem ws ls st (memoryFill (fst st) d v n)))) ws"
| "plain_sem (WMemInit k) ws ls st =
     pop32 (\<lambda>n. pop32 (\<lambda>s. pop32 (\<lambda>d ws. with_mem ws ls st (memoryInit (fst st) (unat k) d s n)))) ws"
| "plain_sem (WDataDrop k) ws ls st = with_mem ws ls st (dataDrop (fst st) (unat k))"
| "plain_sem _ ws ls st = WStuck"

text \<open>Leaving a block with \<open>r\<close> results: \<open>ws\<close> are the operands below it.\<close>

definition leave_block :: "nat \<Rightarrow> wval list \<Rightarrow> wres \<Rightarrow> wres" where
  "leave_block r ws res =
     (case res of
        WNormal vs ls st \<Rightarrow> if length vs = r then WNormal (vs @ ws) ls st else WStuck
      | WBranch 0 vs ls st \<Rightarrow> if r \<le> length vs then WNormal (take r vs @ ws) ls st else WStuck
      | WBranch (Suc d) vs ls st \<Rightarrow> WBranch d vs ls st
      | _ \<Rightarrow> res)"

definition branch_if :: "wval \<Rightarrow> wres \<Rightarrow> wres \<Rightarrow> wres" where
  "branch_if w a b = (case w of W32 c \<Rightarrow> if c \<noteq> 0 then a else b | _ \<Rightarrow> WStuck)"

text \<open>A loop runs its body again when it is branched to.\<close>

fun wexec :: "nat \<Rightarrow> nat \<Rightarrow> winstr \<Rightarrow> wval list \<Rightarrow> wval list \<Rightarrow> guest \<Rightarrow> wres"
  and weval :: "nat \<Rightarrow> nat \<Rightarrow> winstr list \<Rightarrow> wval list \<Rightarrow> wval list \<Rightarrow> guest \<Rightarrow> wres" where
  "wexec 0 n i ws ls st = WTimeout"
| "wexec (Suc k) n i ws ls st =
     (case i of
        WUnreachable \<Rightarrow> WTrap st
      | WReturn \<Rightarrow> if n \<le> length ws then WReturned (take n ws) st else WStuck
      | WBr d \<Rightarrow> WBranch (unat d) ws ls st
      | WBrIf d \<Rightarrow> (case ws of [] \<Rightarrow> WStuck | w # ws \<Rightarrow> branch_if w (WBranch (unat d) ws ls st) (WNormal ws ls st))
      | WBrTable ds d \<Rightarrow>
          (case ws of
             W32 x # ws \<Rightarrow> WBranch (unat (if unat x < length ds then ds ! unat x else d)) ws ls st
           | _ \<Rightarrow> WStuck)
      | WBlock r body \<Rightarrow> leave_block r ws (weval k n body [] ls st)
      | WLoop r body \<Rightarrow>
          (case weval k n body [] ls st of
             WBranch 0 vs ls st \<Rightarrow> wexec k n i ws ls st
           | res \<Rightarrow> leave_block r ws res)
      | WIf r body body' \<Rightarrow>
          (case ws of
             [] \<Rightarrow> WStuck
           | w # ws \<Rightarrow> branch_if w (leave_block r ws (weval k n body [] ls st)) (leave_block r ws (weval k n body' [] ls st)))
      | _ \<Rightarrow> plain_sem i ws ls st)"
| "weval 0 n is ws ls st = WTimeout"
| "weval (Suc k) n [] ws ls st = WNormal ws ls st"
| "weval (Suc k) n (i # is) ws ls st =
     (case wexec k n i ws ls st of
        WNormal ws ls st \<Rightarrow> weval k n is ws ls st
      | res \<Rightarrow> res)"

text \<open>
  A function with \<open>n\<close> results, from the values of its parameters and declared locals. A branch past
  the outermost block is a return.
\<close>

definition winvoke :: "nat \<Rightarrow> nat \<Rightarrow> winstr list \<Rightarrow> wval list \<Rightarrow> guest \<Rightarrow> (guest, wval list \<times> guest) outcome" where
  "winvoke k n is ls st =
     (case weval k n is [] ls st of
        WTimeout \<Rightarrow> Timeout
      | WTrap st \<Rightarrow> Trap st
      | WReturned ws st \<Rightarrow> Done (rev ws, st)
      | WNormal ws _ st \<Rightarrow> if length ws = n then Done (rev ws, st) else Stuck
      | _ \<Rightarrow> Stuck)"

end
