(* ===== verification/RtSem.thy ===== *)
theory RtSem
  imports WasmSem
begin

text \<open>
  What the operations of a lowered function mean at run time: parameters, globals, float constants
  and calls of the integer helpers, besides the integer and memory operations of \<^verbatim>\<open>SsaMem\<close>. The
  helpers compute what the instructions they stand for do.
\<close>

section \<open>Helpers by name\<close>

definition helpers_32_32 :: "(string \<times> (i32 \<Rightarrow> i32 \<Rightarrow> i32 trap)) list" where
  "helpers_32_32 =
     [(''i32_rotl'', \<lambda>x y. Inr (i32_rotl x y)), (''i32_rotr'', \<lambda>x y. Inr (i32_rotr x y)),
      (''i32_div_s'', i32_div_s), (''i32_div_u_s'', i32_div_u_s), (''i32_rem_s'', i32_rem_s), (''i32_rem_u_s'', i32_rem_u_s)]"

definition helpers_64_64 :: "(string \<times> (i64 \<Rightarrow> i64 \<Rightarrow> i64 trap)) list" where
  "helpers_64_64 =
     [(''i64_rotl'', \<lambda>x y. Inr (i64_rotl x y)), (''i64_rotr'', \<lambda>x y. Inr (i64_rotr x y)),
      (''i64_div_s'', i64_div_s), (''i64_div_u_s'', i64_div_u_s), (''i64_rem_s'', i64_rem_s), (''i64_rem_u_s'', i64_rem_u_s)]"

definition helpers_32 :: "(string \<times> (i32 \<Rightarrow> wval)) list" where
  "helpers_32 =
     [(''i32_clz'', \<lambda>x. W32 (i32_clz x)), (''i32_ctz'', \<lambda>x. W32 (i32_ctz x)), (''i32_popcnt'', \<lambda>x. W32 (i32_popcnt x)),
      (''i64_extend_i32_s'', \<lambda>x. W64 (i64_extend_i32_s x)), (''i64_extend_i32_u'', \<lambda>x. W64 (i64_extend_i32_u x)),
      (''i32_extend8_s'', \<lambda>x. W32 (i32_extend8_s x)), (''i32_extend16_s'', \<lambda>x. W32 (i32_extend16_s x))]"

definition helpers_64 :: "(string \<times> (i64 \<Rightarrow> wval)) list" where
  "helpers_64 =
     [(''i64_clz'', \<lambda>x. W64 (i64_clz x)), (''i64_ctz'', \<lambda>x. W64 (i64_ctz x)), (''i64_popcnt'', \<lambda>x. W64 (i64_popcnt x)),
      (''i32_wrap_i64'', \<lambda>x. W32 (i32_wrap_i64 x)), (''i64_extend8_s'', \<lambda>x. W64 (i64_extend8_s x)),
      (''i64_extend16_s'', \<lambda>x. W64 (i64_extend16_s x)), (''i64_extend32_s'', \<lambda>x. W64 (i64_extend32_s x))]"

text \<open>None is a helper that is not modelled, or one called with the wrong operands.\<close>

fun helper_call :: "string \<Rightarrow> wval list \<Rightarrow> wval trap option" where
  "helper_call h [W32 x, W32 y] = map_option (\<lambda>f. map_trap W32 (f x y)) (map_of helpers_32_32 h)"
| "helper_call h [W64 x, W64 y] = map_option (\<lambda>f. map_trap W64 (f x y)) (map_of helpers_64_64 h)"
| "helper_call h [W32 x] = map_option (\<lambda>f. Inr (f x)) (map_of helpers_32 h)"
| "helper_call h [W64 x] = map_option (\<lambda>f. Inr (f x)) (map_of helpers_64 h)"
| "helper_call h as = None"

section \<open>Operations\<close>

definition rt_ops :: "Op set" where
  "rt_ops = {OpParam, OpConstF32, OpConstF64, OpGlobalGet, OpGlobalSet, OpHelperCall}"

definition env_sem :: "wval list \<Rightarrow> Op \<Rightarrow> i64 \<Rightarrow> Aux \<Rightarrow> wval list \<Rightarrow> guest \<Rightarrow> (guest, wval \<times> guest) outcome" where
  "env_sem params op c aux as st =
     (case as of
        [] \<Rightarrow>
          (if op = OpParam then (if unat c < length params then Done (params ! unat c, st) else Stuck)
           else if op = OpConstF32 then Done (WF32 (ucast c), st)
           else if op = OpConstF64 then Done (WF64 c, st)
           else if op = OpGlobalGet then Done (snd st (ucast c), st)
           else Stuck)
      | w # ws \<Rightarrow>
          (if op = OpGlobalSet \<and> ws = [] then Done (WNone, fst st, (snd st)(ucast c := w))
           else case aux of
             AuxString h \<Rightarrow>
               (if op = OpHelperCall then
                  (case helper_call h as of Some t \<Rightarrow> trap_out st (\<lambda>w. (w, st)) t | None \<Rightarrow> Stuck)
                else Stuck)
           | _ \<Rightarrow> Stuck))"

definition rt_sem :: "wval list \<Rightarrow> guest sem \<Rightarrow> guest sem" where
  "rt_sem params ext op typ c aux as st =
     (if op \<in> rt_ops then env_sem params op c aux as st else mem_sem ext op typ c aux as st)"

section \<open>What the helpers compute\<close>

lemma word_rotl_go: "go_RotateLeft (x :: 'a::len word) (int n) = word_rotl n x"
proof (rule bit_word_eqI)
  fix k assume k: "k < LENGTH('a)"
  have "nat ((int k - int n) mod int LENGTH('a)) = (k + (LENGTH('a) - n mod LENGTH('a))) mod LENGTH('a)"
  proof -
    have "(int k - int n) mod int LENGTH('a) = (int k - int (n mod LENGTH('a))) mod int LENGTH('a)"
      by (simp add: zmod_int mod_diff_right_eq)
    also have "\<dots> = (int k - int (n mod LENGTH('a)) + int LENGTH('a)) mod int LENGTH('a)" by simp
    also have "int k - int (n mod LENGTH('a)) + int LENGTH('a) = int (k + (LENGTH('a) - n mod LENGTH('a)))"
      by (subst of_nat_add, subst of_nat_diff) (auto simp: less_imp_le)
    finally show ?thesis by (simp only: zmod_int [symmetric] nat_int)
  qed
  then show "bit (go_RotateLeft x (int n)) k = bit (word_rotl n x) k"
    using k by (simp add: bit_go_RotateLeft bit_word_rotl_iff)
qed

lemma word_rotr_go: "go_RotateLeft (x :: 'a::len word) (- int n) = word_rotr n x"
proof (rule bit_word_eqI)
  fix k assume k: "k < LENGTH('a)"
  have "(int k - - int n) mod int LENGTH('a) = int ((k + n) mod LENGTH('a))" by (simp add: zmod_int)
  then have "nat ((int k - - int n) mod int LENGTH('a)) = (k + n) mod LENGTH('a)" by (simp only: nat_int)
  then show "bit (go_RotateLeft x (- int n)) k = bit (word_rotr n x) k"
    using k by (simp add: bit_go_RotateLeft bit_word_rotr_iff)
qed

lemma rotates:
  "i32_rotl x y = word_rotl (unat y mod 32) x" "i32_rotr x y = word_rotr (unat y mod 32) x"
  "i64_rotl v w = word_rotl (unat w mod 64) v" "i64_rotr v w = word_rotr (unat w mod 64) v"
  by (simp_all add: i32_rotl_def i32_rotr_def i64_rotl_def i64_rotr_def sint_and_mask word_rotl_go word_rotr_go)

lemma word_div_nat: "word_of_nat (unat x div unat y) = x div (y :: 'a::len word)"
  "word_of_nat (unat x mod unat y) = x mod (y :: 'a::len word)"
  by (simp_all flip: unat_div_distrib unat_mod_distrib)

text \<open>The binary instructions that are calls of a helper, and the unary ones.\<close>

fun bin_helper :: "ibin \<Rightarrow> (string \<times> string) option" where
  "bin_helper IRotl = Some (''i32_rotl'', ''i64_rotl'')" | "bin_helper IRotr = Some (''i32_rotr'', ''i64_rotr'')"
| "bin_helper IDivS = Some (''i32_div_s'', ''i64_div_s'')" | "bin_helper IDivU = Some (''i32_div_u_s'', ''i64_div_u_s'')"
| "bin_helper IRemS = Some (''i32_rem_s'', ''i64_rem_s'')" | "bin_helper IRemU = Some (''i32_rem_u_s'', ''i64_rem_u_s'')"
| "bin_helper _ = None"

lemma helper_lookup:
  "map_of helpers_32_32 ''i32_rotl'' = Some (\<lambda>x y. Inr (i32_rotl x y))"
  "map_of helpers_32_32 ''i32_rotr'' = Some (\<lambda>x y. Inr (i32_rotr x y))"
  "map_of helpers_32_32 ''i32_div_s'' = Some i32_div_s" "map_of helpers_32_32 ''i32_div_u_s'' = Some i32_div_u_s"
  "map_of helpers_32_32 ''i32_rem_s'' = Some i32_rem_s" "map_of helpers_32_32 ''i32_rem_u_s'' = Some i32_rem_u_s"
  "map_of helpers_64_64 ''i64_rotl'' = Some (\<lambda>x y. Inr (i64_rotl x y))"
  "map_of helpers_64_64 ''i64_rotr'' = Some (\<lambda>x y. Inr (i64_rotr x y))"
  "map_of helpers_64_64 ''i64_div_s'' = Some i64_div_s" "map_of helpers_64_64 ''i64_div_u_s'' = Some i64_div_u_s"
  "map_of helpers_64_64 ''i64_rem_s'' = Some i64_rem_s" "map_of helpers_64_64 ''i64_rem_u_s'' = Some i64_rem_u_s"
  by (simp_all add: helpers_32_32_def helpers_64_64_def)

lemma helper_sem:
  "Inr (i32_rotl x y) = ibin_sem IRotl x y" "Inr (i32_rotr x y) = ibin_sem IRotr x y"
  "i32_div_s x y = ibin_sem IDivS x y" "i32_div_u_s x y = ibin_sem IDivU x y"
  "i32_rem_s x y = ibin_sem IRemS x y" "i32_rem_u_s x y = ibin_sem IRemU x y"
  by (simp_all add: rotates i32_div_s_spec i32_rem_s_spec go_sdiv_def go_smod_def i32_div_u_s_def i32_rem_u_s_def
      i32_div_u_def i32_rem_u_def word_div_nat sint_eq_0_iff)

lemma helper_sem64:
  "Inr (i64_rotl x y) = ibin_sem IRotl x y" "Inr (i64_rotr x y) = ibin_sem IRotr x y"
  "i64_div_s x y = ibin_sem IDivS x y" "i64_div_u_s x y = ibin_sem IDivU x y"
  "i64_rem_s x y = ibin_sem IRemS x y" "i64_rem_u_s x y = ibin_sem IRemU x y"
  by (simp_all add: rotates i64_div_s_spec i64_rem_s_spec go_sdiv_def go_smod_def i64_div_u_s_def i64_rem_u_s_def
      i64_div_u_def i64_rem_u_def word_div_nat sint_eq_0_iff)

lemma bin_helper_call:
  assumes "bin_helper b = Some (h, h')"
  shows "helper_call h [W32 x, W32 y] = Some (map_trap W32 (ibin_sem b x y))"
    and "helper_call h' [W64 v, W64 w] = Some (map_trap W64 (ibin_sem b v w))"
  using assms by (cases b; force simp: helper_lookup helper_sem helper_sem64 simp del: ibin_sem.simps)+

fun un_helper :: "iun \<Rightarrow> string \<times> string" where
  "un_helper IClz = (''i32_clz'', ''i64_clz'')" | "un_helper ICtz = (''i32_ctz'', ''i64_ctz'')"
| "un_helper IPopcnt = (''i32_popcnt'', ''i64_popcnt'')"

lemma un_helper_call:
  "helper_call (fst (un_helper u)) [W32 x] = Some (Inr (W32 (iun_sem u x)))"
  "helper_call (snd (un_helper u)) [W64 y] = Some (Inr (W64 (iun_sem u y)))"
  by (cases u; simp add: helpers_32_def helpers_64_def i32_clz_def i32_ctz_def i32_popcnt_def i64_clz_def i64_ctz_def i64_popcnt_def)+

fun cvt_helper :: "icvt \<Rightarrow> string" where
  "cvt_helper CWrap = ''i32_wrap_i64''" | "cvt_helper CExtendS = ''i64_extend_i32_s''"
| "cvt_helper CExtendU = ''i64_extend_i32_u''" | "cvt_helper CExt32From8 = ''i32_extend8_s''"
| "cvt_helper CExt32From16 = ''i32_extend16_s''" | "cvt_helper CExt64From8 = ''i64_extend8_s''"
| "cvt_helper CExt64From16 = ''i64_extend16_s''" | "cvt_helper CExt64From32 = ''i64_extend32_s''"

lemma cvt_helper_call: "icvt_sem c w = Some w' \<Longrightarrow> helper_call (cvt_helper c) [w] = Some (Inr w')"
  by (cases c; cases w) (auto simp: helpers_32_def helpers_64_def i32_wrap_i64_def i64_extend_i32_s_def i64_extend_i32_u_def
      i32_extend8_s_def i32_extend16_s_def i64_extend8_s_def i64_extend16_s_def i64_extend32_s_def)

end
