(* ===== verification/LowerDispatch.thy ===== *)
theory LowerDispatch
  imports RtSem LowerKeeps
begin

text \<open>
  Which handler and which entry of the opcode tables an instruction of \<open>WasmSem\<close> leads to.
\<close>

section \<open>Dispatch\<close>

fun bin_op :: "ibin \<Rightarrow> Op \<times> Op" where
  "bin_op IAdd = (OpAdd32, OpAdd64)" | "bin_op ISub = (OpSub32, OpSub64)" | "bin_op IMul = (OpMul32, OpMul64)"
| "bin_op IAnd = (OpAnd32, OpAnd64)" | "bin_op IOr = (OpOr32, OpOr64)" | "bin_op IXor = (OpXor32, OpXor64)"
| "bin_op IShl = (OpShl32, OpShl64)" | "bin_op IShrS = (OpShrS32, OpShrS64)" | "bin_op IShrU = (OpShrU32, OpShrU64)"
| "bin_op _ = (OpInvalid, OpInvalid)"

fun rel_op :: "irel \<Rightarrow> Op \<times> Op" where
  "rel_op IEq = (OpEq32, OpEq64)" | "rel_op INe = (OpNe32, OpNe64)" | "rel_op ILtS = (OpLtS32, OpLtS64)"
| "rel_op ILtU = (OpLtU32, OpLtU64)" | "rel_op IGtS = (OpLtS32, OpLtS64)" | "rel_op IGtU = (OpLtU32, OpLtU64)"
| "rel_op ILeS = (OpLeS32, OpLeS64)" | "rel_op ILeU = (OpLeU32, OpLeU64)" | "rel_op IGeS = (OpLeS32, OpLeS64)"
| "rel_op IGeU = (OpLeU32, OpLeU64)"

fun rel_swap :: "irel \<Rightarrow> bool" where
  "rel_swap IGtS = True" | "rel_swap IGtU = True" | "rel_swap IGeS = True" | "rel_swap IGeU = True" | "rel_swap _ = False"

fun load_op :: "mload \<Rightarrow> Op \<times> Type" where
  "load_op L32 = (OpLoad32, TypeI32)" | "load_op L64 = (OpLoad64, TypeI64)" | "load_op LF32 = (OpLoadF32, TypeF32)"
| "load_op LF64 = (OpLoadF64, TypeF64)" | "load_op L32From8S = (OpLoad8S, TypeI32)" | "load_op L32From8U = (OpLoad8U, TypeI32)"
| "load_op L32From16S = (OpLoad16S, TypeI32)" | "load_op L32From16U = (OpLoad16U, TypeI32)"
| "load_op L64From8S = (OpLoad8S, TypeI64)" | "load_op L64From8U = (OpLoad8U, TypeI64)"
| "load_op L64From16S = (OpLoad16S, TypeI64)" | "load_op L64From16U = (OpLoad16U, TypeI64)"
| "load_op L64From32S = (OpLoad32S, TypeI64)" | "load_op L64From32U = (OpLoad32U, TypeI64)"

fun store_op :: "mstore \<Rightarrow> Op" where
  "store_op S32 = OpStore32" | "store_op S64 = OpStore64" | "store_op SF32 = OpStoreF32" | "store_op SF64 = OpStoreF64"
| "store_op S32To8 = OpStore8" | "store_op S32To16 = OpStore16" | "store_op S64To8 = OpStore8" | "store_op S64To16 = OpStore16"
| "store_op S64To32 = OpStore32"

text \<open>Where the groups of opcodes lie; each group is the first that matches its opcodes.\<close>

definition between :: "nat \<Rightarrow> nat \<Rightarrow> byte \<Rightarrow> bool" where
  "between a b opc \<longleftrightarrow> a \<le> unat opc \<and> unat opc \<le> b"

lemma memory_range: "isMemoryOp opc \<Longrightarrow> between 0x28 0x3e opc"
  by (auto simp: isMemoryOp_def between_def)

lemma simple_binary_range:
  "isSimpleBinary opc \<Longrightarrow> between 0x46 0x4f opc \<or> between 0x51 0x5a opc \<or> between 0x6a 0x6c opc \<or>
     between 0x71 0x76 opc \<or> between 0x7c 0x7e opc \<or> between 0x83 0x88 opc"
  unfolding isSimpleBinary_def list.set by (elim insertE emptyE) (simp_all add: between_def)

lemma helper_binary_range:
  "isHelperBinary opc \<Longrightarrow> between 0x5b 0x66 opc \<or> between 0x6d 0x70 opc \<or> between 0x77 0x78 opc \<or>
     between 0x7f 0x82 opc \<or> between 0x89 0x8a opc \<or> between 0x92 0x98 opc \<or> between 0xa0 0xa6 opc"
  unfolding isHelperBinary_def list.set by (elim insertE emptyE) (simp_all add: between_def)

lemma helper_unary_range:
  "isHelperUnary opc \<Longrightarrow> between 0x67 0x69 opc \<or> between 0x79 0x7b opc \<or> between 0x8b 0x91 opc \<or>
     between 0x99 0x9f opc \<or> between 0xa7 0xc4 opc"
  unfolding isHelperUnary_def list.set by (elim insertE emptyE) (simp_all add: between_def)

lemma not_memory: "\<not> between 0x28 0x3e opc \<Longrightarrow> \<not> isMemoryOp opc"
  using memory_range by blast

lemma plain_group:
  "isMemoryOp opc \<Longrightarrow> plain_op opc = handleMemoryOp opc"
  "isSimpleBinary opc \<Longrightarrow> plain_op opc = lower_simpleBinary opc"
  "isHelperBinary opc \<Longrightarrow> plain_op opc = lower_helperBinary opc"
  "isHelperUnary opc \<Longrightarrow> plain_op opc = lower_helperUnary opc"
proof -
  have mem: "isMemoryOp opc \<Longrightarrow> 0x28 \<le> unat opc \<and> unat opc \<le> 0x3e"
    using memory_range [of opc] by (simp add: between_def)
  have sb: "isSimpleBinary opc \<Longrightarrow> 0x46 \<le> unat opc \<and> unat opc \<le> 0x88"
    using simple_binary_range [of opc] by (auto simp: between_def)
  have hb: "isHelperBinary opc \<Longrightarrow> 0x5b \<le> unat opc \<and> unat opc \<le> 0xa6"
    using helper_binary_range [of opc] by (auto simp: between_def)
  have hu: "isHelperUnary opc \<Longrightarrow> 0x67 \<le> unat opc \<and> unat opc \<le> 0xc4"
    using helper_unary_range [of opc] by (auto simp: between_def)
  have d1: "isHelperBinary opc \<Longrightarrow> \<not> isSimpleBinary opc"
    using helper_binary_range [of opc] simple_binary_range [of opc] by (auto simp: between_def)
  have d2: "isHelperUnary opc \<Longrightarrow> \<not> isSimpleBinary opc \<and> \<not> isHelperBinary opc"
    using helper_unary_range [of opc] helper_binary_range [of opc] simple_binary_range [of opc] by (auto simp: between_def)
  show "isMemoryOp opc \<Longrightarrow> plain_op opc = handleMemoryOp opc"
    using mem by (simp add: plain_op_def word_unat_eq_iff)
  have nm: "0x3e < unat opc \<Longrightarrow> \<not> isMemoryOp opc" using mem by linarith
  show "isSimpleBinary opc \<Longrightarrow> plain_op opc = lower_simpleBinary opc"
    using sb nm by (simp add: plain_op_def word_unat_eq_iff)
  show "isHelperBinary opc \<Longrightarrow> plain_op opc = lower_helperBinary opc"
    using hb d1 nm by (simp add: plain_op_def word_unat_eq_iff)
  show "isHelperUnary opc \<Longrightarrow> plain_op opc = lower_helperUnary opc"
    using hu d2 nm by (simp add: plain_op_def word_unat_eq_iff)
qed

lemma plain_simple_binary:
  "bin_helper b = None \<Longrightarrow> isSimpleBinary (bin32_code b)" "bin_helper b = None \<Longrightarrow> isSimpleBinary (bin64_code b)"
  "isSimpleBinary (rel32_code r)" "isSimpleBinary (rel64_code r)"
  by (cases b; simp add: isSimpleBinary_def; fail)+ (cases r; simp add: isSimpleBinary_def; fail)+

lemma bin_lookup:
  "bin_helper b = None \<Longrightarrow> simpleBinaryOp (bin32_code b) = Some (fst (bin_op b), TypeI32)"
  "bin_helper b = None \<Longrightarrow> simpleBinaryOp (bin64_code b) = Some (snd (bin_op b), TypeI64)"
  by (cases b; simp add: simpleBinaryOp_def simpleBinaryOp_table_def; fail)+

lemma rel_lookup:
  "simpleBinaryOp (rel32_code r) = Some (fst (rel_op r), TypeBool)"
  "simpleBinaryOp (rel64_code r) = Some (snd (rel_op r), TypeBool)"
  by (cases r; simp add: simpleBinaryOp_def simpleBinaryOp_table_def; fail)+

lemma swapped:
  "bin_helper b = None \<Longrightarrow> \<not> isGtGe (bin32_code b)" "bin_helper b = None \<Longrightarrow> \<not> isGtGe (bin64_code b)"
  "isGtGe (rel32_code r) = rel_swap r" "isGtGe (rel64_code r) = rel_swap r"
  by (cases b; simp add: isGtGe_def; fail)+ (cases r; simp add: isGtGe_def; fail)+

lemma plain_helper_binary:
  assumes "bin_helper b = Some (h, h')"
  shows "isHelperBinary (bin32_code b)" "helperBinarySpec (bin32_code b) = Some (h, TypeI32)"
    "isHelperBinary (bin64_code b)" "helperBinarySpec (bin64_code b) = Some (h', TypeI64)"
  using assms by (cases b; auto simp: isHelperBinary_def helperBinarySpec_def helperBinarySpec_table_def)+

fun cvt_type :: "icvt \<Rightarrow> Type" where
  "cvt_type CWrap = TypeI32" | "cvt_type CExt32From8 = TypeI32" | "cvt_type CExt32From16 = TypeI32" | "cvt_type _ = TypeI64"

lemma plain_helper_unary:
  "isHelperUnary (un32_code u)" "helperUnarySpec (un32_code u) = Some (fst (un_helper u), TypeI32)"
  "isHelperUnary (un64_code u)" "helperUnarySpec (un64_code u) = Some (snd (un_helper u), TypeI64)"
  by (cases u; simp add: isHelperUnary_def helperUnarySpec_def helperUnarySpec_table_def; fail)+

lemma plain_helper_cvt: "isHelperUnary (cvt_code c)" "helperUnarySpec (cvt_code c) = Some (cvt_helper c, cvt_type c)"
  by (cases c; simp add: isHelperUnary_def helperUnarySpec_def helperUnarySpec_table_def; fail)+

lemma plain_load:
  "isMemoryOp (load_code l)" "fst (load_op l) \<noteq> OpInvalid"
  "memoryOpKind (load_code l) = \<lparr>mo_ssaOp = fst (load_op l), mo_typ = snd (load_op l), mo_store = False\<rparr>"
  by (cases l; simp add: isMemoryOp_def memoryOpKind_def memory_ops_def; fail)+

lemma plain_store:
  "isMemoryOp (store_code t)" "store_op t \<noteq> OpInvalid"
  "mo_store (memoryOpKind (store_code t)) \<and> mo_ssaOp (memoryOpKind (store_code t)) = store_op t"
  by (cases t; simp add: isMemoryOp_def memoryOpKind_def memory_ops_def; fail)+

end
