(* ===== verification/LowerExec.thy ===== *)
theory LowerExec
  imports LowerDispatch
begin

text \<open>
  Executing a function from a position inside a block, and the straight pieces of code that the
  handlers of the instructions without control flow append to the current block.
\<close>

section \<open>Running from inside a block\<close>

type_synonym config = "nat \<times> nat \<times> env \<times> guest"

text \<open>\<open>k\<close> blocks may be entered; the values of the block are executed from the position \<open>n\<close> on.\<close>

definition finish :: "nat \<Rightarrow> guest sem \<Rightarrow> Func \<Rightarrow> nat \<Rightarrow> env \<times> guest \<Rightarrow> (guest, guest jump) outcome" where
  "finish k sem F c s =
     bind_outcome (terminate (Sig F) (fblk F c) (fst s) (snd s))
       (\<lambda>r. case r of Goto b j env st \<Rightarrow> run k sem F b j env st | _ \<Rightarrow> Done r)"

definition resume :: "nat \<Rightarrow> guest sem \<Rightarrow> Func \<Rightarrow> config \<Rightarrow> (guest, guest jump) outcome" where
  "resume k sem F cfg =
     (case cfg of (c, n, env, st) \<Rightarrow>
        bind_outcome (exec_vals sem F (drop n (Values (fblk F c))) (env, st)) (finish k sem F c))"

text \<open>With enough more blocks to enter, the configuration does what \<open>g\<close> says.\<close>

definition leads :: "guest sem \<Rightarrow> Func \<Rightarrow> config \<Rightarrow> (nat \<Rightarrow> (guest, guest jump) outcome) \<Rightarrow> bool" where
  "leads sem F cfg g \<longleftrightarrow> (\<exists>m. \<forall>k. resume (m + k) sem F cfg = g k)"

lemma leadsI: "(\<And>k. resume k sem F cfg = g k) \<Longrightarrow> leads sem F cfg g"
  unfolding leads_def by (rule exI [of _ 0]) simp

lemma leads_refl: "leads sem F cfg (\<lambda>k. resume k sem F cfg)"
  by (rule leadsI) simp

lemma leads_trans:
  assumes "leads sem F cfg (\<lambda>k. resume k sem F cfg')" and "leads sem F cfg' g"
  shows "leads sem F cfg g"
proof -
  obtain m m' where "\<And>k. resume (m + k) sem F cfg = resume k sem F cfg'" "\<And>k. resume (m' + k) sem F cfg' = g k"
    using assms unfolding leads_def by blast
  then have "resume (m + m' + k) sem F cfg = g k" for k by (simp add: add.assoc)
  then show ?thesis unfolding leads_def by blast
qed

text \<open>Entering a block takes one.\<close>

lemma leads_enter:
  assumes "leads sem F cfg (\<lambda>k. run k sem F b j env st)"
    and "\<And>k. run (Suc k) sem F b j env st = resume k sem F cfg'"
  shows "leads sem F cfg (\<lambda>k. resume k sem F cfg')"
proof -
  obtain m where "\<And>k. resume (m + k) sem F cfg = run k sem F b j env st" using assms(1) unfolding leads_def by blast
  then have "resume (m + 1 + k) sem F cfg = resume k sem F cfg'" for k
    using assms(2) [of k] by (metis add.assoc add.commute plus_1_eq_Suc)
  then show ?thesis unfolding leads_def by blast
qed

lemma run_Suc_resume:
  assumes "enter F (Values (fblk F b)) j env = Some env'"
    and "exec_vals sem F (take n (Values (fblk F b))) (env', st) = Done (env', st)"
  shows "run (Suc k) sem F b j env st = resume k sem F (b, n, env', st)"
proof -
  have "exec_vals sem F (Values (fblk F b)) (env', st) = exec_vals sem F (drop n (Values (fblk F b))) (env', st)"
    using assms(2) exec_vals_append [of sem F "take n (Values (fblk F b))" "drop n (Values (fblk F b))" "(env', st)"] by simp
  then show ?thesis
    by (simp add: step_block_def assms(1) resume_def finish_def [abs_def] split_def)
      (cases "exec_vals sem F (drop n (Values (fblk F b))) (env', st)"; simp add: split_def)
qed

text \<open>Executing a piece of the values of the block.\<close>

lemma resume_append:
  assumes "drop n (Values (fblk F c)) = vs @ drop (n + length vs) (Values (fblk F c))"
  shows "exec_vals sem F vs (env, st) = Done (env', st') \<Longrightarrow>
      resume k sem F (c, n, env, st) = resume k sem F (c, n + length vs, env', st')"
    and "exec_vals sem F vs (env, st) = Trap st' \<Longrightarrow> resume k sem F (c, n, env, st) = Trap st'"
proof -
  have "resume k sem F (c, n, env, st) =
      bind_outcome (bind_outcome (exec_vals sem F vs (env, st)) (exec_vals sem F (drop (n + length vs) (Values (fblk F c))))) (finish k sem F c)"
    by (simp add: resume_def) (subst assms, simp add: exec_vals_append)
  then show "exec_vals sem F vs (env, st) = Done (env', st') \<Longrightarrow>
      resume k sem F (c, n, env, st) = resume k sem F (c, n + length vs, env', st')"
    and "exec_vals sem F vs (env, st) = Trap st' \<Longrightarrow> resume k sem F (c, n, env, st) = Trap st'"
    by (simp_all add: resume_def)
qed

section \<open>Values of a block\<close>

definition push_value :: "nat \<Rightarrow> Value \<Rightarrow> Func \<Rightarrow> Func" where
  "push_value c v f = f\<lparr>fval := (fval f)(nextValueID f := v), nextValueID := Suc (nextValueID f),
     fblk := (fblk f)(c := (fblk f c)\<lparr>Values := Values (fblk f c) @ [nextValueID f]\<rparr>)\<rparr>"

definition push_values :: "nat \<Rightarrow> Value list \<Rightarrow> Func \<Rightarrow> Func" where
  "push_values c vs f = foldl (\<lambda>f v. push_value c v f) f vs"

lemma push_values_simps [simp]:
  "push_values c [] f = f" "push_values c (v # vs) f = push_values c vs (push_value c v f)"
  by (simp_all add: push_values_def)

lemma push_values_append: "push_values c (vs @ ws) f = push_values c ws (push_values c vs f)"
  by (simp add: push_values_def)

lemma push_value_fields [simp]:
  "Sig (push_value c v f) = Sig f" "Entry (push_value c v f) = Entry f" "Blocks (push_value c v f) = Blocks f"
  "TryRegions (push_value c v f) = TryRegions f" "nextBlockID (push_value c v f) = nextBlockID f"
  "nextValueID (push_value c v f) = Suc (nextValueID f)" "fval (push_value c v f) = (fval f)(nextValueID f := v)"
  "fblk (push_value c v f) = (fblk f)(c := (fblk f c)\<lparr>Values := Values (fblk f c) @ [nextValueID f]\<rparr>)"
  by (simp_all add: push_value_def)

lemma upt_first: "[n..<Suc (n + k)] = n # [Suc n..<Suc (n + k)]"
  by (simp add: upt_conv_Cons del: upt_Suc)

lemma push_values_fields [simp]:
  "Sig (push_values c vs f) = Sig f" "Entry (push_values c vs f) = Entry f" "Blocks (push_values c vs f) = Blocks f"
  "TryRegions (push_values c vs f) = TryRegions f" "nextBlockID (push_values c vs f) = nextBlockID f"
  "nextValueID (push_values c vs f) = nextValueID f + length vs"
  "fblk (push_values c vs f) =
     (fblk f)(c := (fblk f c)\<lparr>Values := Values (fblk f c) @ [nextValueID f..<nextValueID f + length vs]\<rparr>)"
  by (induction vs arbitrary: f) (simp_all add: upt_first del: upt_Suc)

lemma fval_push_values:
  "fval (push_values c vs f) i =
     (if nextValueID f \<le> i \<and> i < nextValueID f + length vs then vs ! (i - nextValueID f) else fval f i)"
proof (induction vs arbitrary: f)
  case (Cons v vs)
  then show ?case by (auto simp: nth_Cons' Suc_diff_le)
qed auto

section \<open>Appending from a handler\<close>

definition value_in :: "nat \<Rightarrow> Op \<Rightarrow> Type \<Rightarrow> i64 \<Rightarrow> Aux \<Rightarrow> nat list \<Rightarrow> Value" where
  "value_in c op ty k aux as = \<lparr>vOp = op, vTyp = ty, vArgs = map Some as, vAuxInt = k, vAux = aux, vBlock = Some c\<rparr>"

lemma value_in_fields [simp]:
  "vOp (value_in c op ty k aux as) = op" "vTyp (value_in c op ty k aux as) = ty" "vArgs (value_in c op ty k aux as) = map Some as"
  "vAuxInt (value_in c op ty k aux as) = k" "vAux (value_in c op ty k aux as) = aux" "vBlock (value_in c op ty k aux as) = Some c"
  by (simp_all add: value_in_def)

definition nextV :: "lowerState \<Rightarrow> nat" where
  "nextV s = nextValueID (bf (ls_b s))"

definition on_func :: "(Func \<Rightarrow> Func) \<Rightarrow> lowerState \<Rightarrow> lowerState" where
  "on_func g s = s\<lparr>ls_b := (ls_b s)\<lparr>bf := g (bf (ls_b s))\<rparr>\<rparr>"

lemma on_func_fields [simp]:
  "bf (ls_b (on_func g s)) = g (bf (ls_b s))" "cur (ls_b (on_func g s)) = cur (ls_b s)"
  "ls_stack (on_func g s) = ls_stack s" "ls_locals (on_func g s) = ls_locals s" "ls_localTypes (on_func g s) = ls_localTypes s"
  "ls_ctrl (on_func g s) = ls_ctrl s" "ls_incoming (on_func g s) = ls_incoming s" "ls_unreachable (on_func g s) = ls_unreachable s"
  "ls_unreachableDepth (on_func g s) = ls_unreachableDepth s" "ls_mutableLocals (on_func g s) = ls_mutableLocals s"
  "ls_inlineFrames (on_func g s) = ls_inlineFrames s" "ls_mem64 (on_func g s) = ls_mem64 s" "ls_rd (on_func g s) = ls_rd s"
  "ls_mod (on_func g s) = ls_mod s" "ls_ft (on_func g s) = ls_ft s"
  by (simp_all add: on_func_def)

lemma on_func_on_func [simp]: "on_func g (on_func h s) = on_func (\<lambda>f. g (h f)) s"
  by (simp add: on_func_def)

lemma on_func_id [simp]: "on_func (\<lambda>f. f) s = s"
  by (simp add: on_func_def)

lemma lfunc_run: "lfunc g s = Inr ((), on_func g s)"
  by (simp add: lfunc_def lmodify_def on_func_def)

lemma bAppend_run:
  "cur b = Some c \<Longrightarrow> bAppend op ty k aux (map Some as) b =
     Inr (nextValueID (bf b), b\<lparr>bf := push_value c (value_in c op ty k aux as) (bf b)\<rparr>)"
  by (simp add: bAppend_def newValue_def push_value_def value_in_def upd_blk_def Let_def)

lemma lvalue_run:
  "cur (ls_b s) = Some c \<Longrightarrow>
   lvalue op ty k as s = Inr (nextV s, on_func (push_value c (value_in c op ty k AuxNil as)) s)"
  "cur (ls_b s) = Some c \<Longrightarrow>
   lvalueAux op ty aux as s = Inr (nextV s, on_func (push_value c (value_in c op ty 0 aux as)) s)"
  "cur (ls_b s) = Some c \<Longrightarrow>
   lconst32 x s = Inr (nextV s, on_func (push_value c (value_in c OpConst32 TypeI32 (scast x) AuxNil [])) s)"
  "cur (ls_b s) = Some c \<Longrightarrow>
   lconst64 y s = Inr (nextV s, on_func (push_value c (value_in c OpConst64 TypeI64 y AuxNil [])) s)"
  using bAppend_run [where as = "[]"]
  by (simp_all add: lvalue_def lvalueAux_def lconst32_def lconst64_def Const32_def Const64_def lbuild_def bNewValueAuxInt_def
      bNewValueAux_def bAppend_run nextV_def on_func_def)

lemma lpop_run: "ls_stack s = st @ [v] \<Longrightarrow> lpop s = Inr (v, s\<lparr>ls_stack := st\<rparr>)"
  by (simp add: lpop_def)

lemma lpush_run: "lpush v s = Inr ((), s\<lparr>ls_stack := ls_stack s @ [v]\<rparr>)"
  by (simp add: lpush_def lmodify_def)

lemma lread_run: "p (ls_rd s) = Inr (x, rest) \<Longrightarrow> lread p s = Inr (x, s\<lparr>ls_rd := rest\<rparr>)"
  by (simp add: lread_def)

lemmas run_basics = lret_def lfail_def lbind_def lthen_def lget_def lmodify_def lwhen_def lcheck_def lsome_def lnth_def

section \<open>Identifiers and their values\<close>

definition denotes :: "env \<Rightarrow> nat list \<Rightarrow> wval list \<Rightarrow> bool" where
  "denotes env ids ws \<longleftrightarrow> map env ids = map Some ws"

definition agree :: "nat \<Rightarrow> env \<Rightarrow> env \<Rightarrow> bool" where
  "agree n env env' \<longleftrightarrow> (\<forall>i < n. env' i = env i)"

definition ids_lt :: "nat \<Rightarrow> nat list \<Rightarrow> bool" where
  "ids_lt n ids \<longleftrightarrow> (\<forall>i \<in> set ids. i < n)"

lemma denotes_simps [simp]:
  "denotes env [] ws \<longleftrightarrow> ws = []" "denotes env ids [] \<longleftrightarrow> ids = []"
  "denotes env (i # ids) (w # ws) \<longleftrightarrow> env i = Some w \<and> denotes env ids ws"
  by (auto simp: denotes_def)

lemma denotes_length: "denotes env ids ws \<Longrightarrow> length ids = length ws"
  unfolding denotes_def by (metis length_map)

lemma denotes_append:
  "length ids = length ws \<Longrightarrow> denotes env (ids @ ids') (ws @ ws') \<longleftrightarrow> denotes env ids ws \<and> denotes env ids' ws'"
  by (simp add: denotes_def)

lemma denotes_nth: "denotes env ids ws \<Longrightarrow> k < length ids \<Longrightarrow> env (ids ! k) = Some (ws ! k)"
  unfolding denotes_def by (metis length_map nth_map)

lemma denotes_update: "denotes env ids ws \<Longrightarrow> env i = Some w \<Longrightarrow> denotes env (ids[k := i]) (ws[k := w])"
  by (simp add: denotes_def map_update)

lemma denotes_agree: "denotes env ids ws \<Longrightarrow> agree n env env' \<Longrightarrow> ids_lt n ids \<Longrightarrow> denotes env' ids ws"
  unfolding denotes_def agree_def ids_lt_def by (metis map_eq_conv)

lemma denotes_arg_vals: "denotes env ids ws \<Longrightarrow> arg_vals env (map Some ids) = Some ws"
  by (simp add: denotes_def arg_vals_def arg_val_def those_eq_Some o_def)

lemma denotes_snoc: "denotes env (ids @ [i]) (rev ws) \<longleftrightarrow> (\<exists>w ws'. ws = w # ws' \<and> denotes env ids (rev ws') \<and> env i = Some w)"
  by (cases ws) (auto simp: denotes_def)

lemma agree_refl [simp]: "agree n env env"
  by (simp add: agree_def)

lemma agree_trans: "agree n env env' \<Longrightarrow> agree m env' env'' \<Longrightarrow> n \<le> m \<Longrightarrow> agree n env env''"
  by (simp add: agree_def)

lemma agree_le: "agree m env env' \<Longrightarrow> n \<le> m \<Longrightarrow> agree n env env'"
  by (simp add: agree_def)

lemma agree_upd: "n \<le> i \<Longrightarrow> agree n env (env(i \<mapsto> w))"
  by (simp add: agree_def)

lemma ids_lt_simps [simp]:
  "ids_lt n []" "ids_lt n (i # ids) \<longleftrightarrow> i < n \<and> ids_lt n ids" "ids_lt n (ids @ ids') \<longleftrightarrow> ids_lt n ids \<and> ids_lt n ids'"
  by (auto simp: ids_lt_def)

lemma ids_lt_mono: "ids_lt n ids \<Longrightarrow> n \<le> m \<Longrightarrow> ids_lt m ids"
  by (force simp: ids_lt_def)

lemma ids_lt_take: "ids_lt n ids \<Longrightarrow> ids_lt n (take k ids)" "ids_lt n ids \<Longrightarrow> ids_lt n (drop k ids)"
  by (auto simp: ids_lt_def dest: in_set_takeD in_set_dropD)

lemma ids_lt_update: "ids_lt n ids \<Longrightarrow> i < n \<Longrightarrow> ids_lt n (ids[k := i])"
  using set_update_subset_insert [of ids k i] by (auto simp: ids_lt_def)

lemma ids_lt_nth: "ids_lt n ids \<Longrightarrow> k < length ids \<Longrightarrow> ids ! k < n"
  by (simp add: ids_lt_def)

end
