(* ===== verification/LowerPlain.thy ===== *)
theory LowerPlain
  imports LowerExec
begin

text \<open>
  The lowering of the instructions without control flow, followed to its meaning: each appends a few
  values to the current block, and executing these does to the values that the abstract stack and
  locals name what the instruction does to the operands.
\<close>

section \<open>The operations\<close>

lemmas rt_sem_defs = rt_sem_def rt_ops_def mem_sem_def load_ops_def store_ops_def bulk_ops_def std_sem_def int_ops_def

lemma bin_eval:
  assumes "bin_helper b = None"
  shows "\<exists>z. ibin_sem b x y = Inr z \<and> rt_sem ps ext (fst (bin_op b)) ty k aux [W32 x, W32 y] st = Done (W32 z, st)"
    and "\<exists>z. ibin_sem b v w = Inr z \<and> rt_sem ps ext (snd (bin_op b)) ty k aux [W64 v, W64 w] st = Done (W64 z, st)"
  using assms by (cases b; simp add: rt_sem_defs)+

lemma rel_eval:
  "rt_sem ps ext (fst (rel_op r)) ty k aux (if rel_swap r then [W32 y, W32 x] else [W32 x, W32 y]) st =
     Done (wbool (irel_sem r x y), st)"
  "rt_sem ps ext (snd (rel_op r)) ty k aux (if rel_swap r then [W64 w, W64 v] else [W64 v, W64 w]) st =
     Done (wbool (irel_sem r v w), st)"
  by (cases r; simp add: rt_sem_defs)+

lemma const_eval:
  "rt_sem ps ext OpConst32 ty k aux [] st = Done (W32 (ucast k), st)" "rt_sem ps ext OpConst64 ty k aux [] st = Done (W64 k, st)"
  "rt_sem ps ext OpConstF32 ty k aux [] st = Done (WF32 (ucast k), st)" "rt_sem ps ext OpConstF64 ty k aux [] st = Done (WF64 k, st)"
  "rt_sem ps ext OpGlobalGet ty k aux [] st = Done (snd st (ucast k), st)"
  "rt_sem ps ext OpGlobalSet ty k aux [u] st = Done (WNone, fst st, (snd st)(ucast k := u))"
  "rt_sem ps ext OpCopy ty k aux [u] st = Done (u, st)"
  "rt_sem ps ext OpEq32 ty k aux [W32 x, W32 y] st = Done (wbool (x = y), st)"
  "rt_sem ps ext OpEq64 ty k aux [W64 v, W64 w] st = Done (wbool (v = w), st)"
  "unat k < length ps \<Longrightarrow> rt_sem ps ext OpParam ty k aux [] st = Done (ps ! unat k, st)"
  by (simp_all add: rt_sem_defs env_sem_def)

lemma helper_eval:
  "as \<noteq> [] \<Longrightarrow> helper_call h as = Some t \<Longrightarrow> rt_sem ps ext OpHelperCall ty k (AuxString h) as st = trap_out st (\<lambda>w. (w, st)) t"
  by (cases as) (simp_all add: rt_sem_def rt_ops_def env_sem_def)

lemma load_eval:
  assumes "k \<le> 0xffffffff"
  shows "rt_sem ps ext (fst (load_op l)) (snd (load_op l)) k aux [W32 a] st =
    trap_out st (\<lambda>w. (w, st)) (mload_sem l (fst st) a (ucast k))"
  using assms by (cases l; simp add: rt_sem_def rt_ops_def mem_sem_def load_ops_def load_sem_def load_helpers_def)

lemma store_eval:
  assumes "k \<le> 0xffffffff" and "mstore_sem t w = Some sto"
  shows "rt_sem ps ext (store_op t) ty k aux [W32 a, w] st =
    trap_out st (\<lambda>m. (WNone, m, snd st)) (sto (fst st) a (ucast k))"
  using assms by (cases t; cases w) (auto simp: rt_sem_def rt_ops_def mem_sem_def load_ops_def store_ops_def store_sem_def)

lemma bulk_eval:
  "rt_sem ps ext OpMemSize ty k aux [] st = Done (W32 (memorySize (fst st)), st)"
  "rt_sem ps ext OpMemGrow ty k aux [W32 n] st = trap_out st (\<lambda>(r, m). (W32 r, m, snd st)) (memoryGrow (fst st) n)"
  "rt_sem ps ext OpMemoryCopy ty k aux [W32 x, W32 y, W32 n] st = trap_out st (\<lambda>m. (WNone, m, snd st)) (memoryCopy (fst st) x y n)"
  "rt_sem ps ext OpMemoryFill ty k aux [W32 x, W32 y, W32 n] st = trap_out st (\<lambda>m. (WNone, m, snd st)) (memoryFill (fst st) x y n)"
  "rt_sem ps ext OpMemoryInit ty k aux [W32 x, W32 y, W32 n] st = trap_out st (\<lambda>m. (WNone, m, snd st)) (memoryInit (fst st) (unat k) x y n)"
  "rt_sem ps ext OpDataDrop ty k aux [] st = trap_out st (\<lambda>m. (WNone, m, snd st)) (dataDrop (fst st) (unat k))"
  by (simp_all add: rt_sem_def rt_ops_def mem_sem_def load_ops_def store_ops_def bulk_ops_def bulk_sem_def)

section \<open>What a piece of code does\<close>

definition fits :: "Func \<Rightarrow> nat \<Rightarrow> Value list \<Rightarrow> bool" where
  "fits F n vs \<longleftrightarrow> (\<forall>k < length vs. fval F (n + k) = vs ! k)"

text \<open>
  \<open>does \<dots>\<close>: executing the values \<open>vs\<close>, numbered from \<open>n\<close>, takes the operands named by \<open>stk\<close> and the
  locals named by \<open>locs\<close> to those named by \<open>stk'\<close> and \<open>locs'\<close>, as the instruction \<open>i\<close> does.
\<close>

definition exec_rel :: "guest sem \<Rightarrow> Func \<Rightarrow> nat \<Rightarrow> nat \<Rightarrow> env \<Rightarrow> guest \<Rightarrow> nat list \<Rightarrow> nat list \<Rightarrow> wres \<Rightarrow> bool" where
  "exec_rel sem F n k env st stk' locs' res \<longleftrightarrow>
     (case res of
        WNormal ws' ls' st' \<Rightarrow> \<exists>env'. exec_vals sem F [n..<n + k] (env, st) = Done (env', st') \<and> agree n env env' \<and>
          denotes env' stk' (rev ws') \<and> denotes env' locs' ls'
      | WTrap st' \<Rightarrow> exec_vals sem F [n..<n + k] (env, st) = Trap st'
      | WStuck \<Rightarrow> True
      | _ \<Rightarrow> False)"

definition does :: "winstr \<Rightarrow> nat \<Rightarrow> Value list \<Rightarrow> nat list \<Rightarrow> nat list \<Rightarrow> nat list \<Rightarrow> nat list \<Rightarrow> bool" where
  "does i n vs stk locs stk' locs' \<longleftrightarrow>
     (\<forall>ps ext F env ws ls st. fits F n vs \<longrightarrow> denotes env stk (rev ws) \<longrightarrow> denotes env locs ls \<longrightarrow>
        exec_rel (rt_sem ps ext) F n (length vs) env st stk' locs' (plain_sem i ws ls st))"

lemma exec_one:
  assumes "fval F i = value_in c op ty k aux as" and "op \<noteq> OpPhi" "op \<noteq> OpInvalid" and "denotes env as was"
  shows "exec_vals sem F [i] (env, st) = bind_outcome (sem op ty k aux was st) (\<lambda>(w, st). Done (env(i \<mapsto> w), st))"
proof -
  have "exec_value sem F i (env, st) = bind_outcome (sem op ty k aux was st) (\<lambda>(w, st). Done (env(i \<mapsto> w), st))"
    using assms denotes_arg_vals [OF assms(4)] by (simp add: exec_value_def runs_def eval_value_def)
  then show ?thesis by (cases "sem op ty k aux was st") auto
qed

lemma denotes_new: "denotes env ids ws \<Longrightarrow> ids_lt n ids \<Longrightarrow> denotes (env(n \<mapsto> w)) ids ws"
  using agree_upd [of n n env w] denotes_agree by blast

lemma denotes_snoc': "denotes env (ids @ [i]) (xs @ [w]) \<longleftrightarrow> denotes env ids xs \<and> env i = Some w"
  by (simp add: denotes_def)

text \<open>One value, with a result or without.\<close>

text \<open>What an operation gives, with a result (\<open>res\<close>) or without, against the instruction's outcome.\<close>

definition op_sim :: "bool \<Rightarrow> wval list \<Rightarrow> wval list \<Rightarrow> (guest, wval \<times> guest) outcome \<Rightarrow> wres \<Rightarrow> bool" where
  "op_sim res ws ls out r \<longleftrightarrow> r = WStuck \<or>
     (case out of
        Done (w, st') \<Rightarrow> r = WNormal (if res then w # ws else ws) ls st'
      | Trap st' \<Rightarrow> r = WTrap st'
      | _ \<Rightarrow> False)"

lemma op_sim_simps [simp]:
  "op_sim res ws ls out WStuck" "op_sim True ws ls (Done (w, st')) r \<longleftrightarrow> r = WStuck \<or> r = WNormal (w # ws) ls st'"
  "op_sim False ws ls (Done (w, st')) r \<longleftrightarrow> r = WStuck \<or> r = WNormal ws ls st'"
  by (simp_all add: op_sim_def)

lemma op_sim_trap:
  "(\<And>x. t = Inr x \<Longrightarrow> op_sim res ws ls (Done (f x)) (g x)) \<Longrightarrow> op_sim res ws ls (trap_out st f t) (to_res st g t)"
  by (cases t) (auto simp: op_sim_def trap_out_def to_res_def)

lemma op_sim_map_trap:
  "(\<And>x. t = Inr x \<Longrightarrow> op_sim res ws ls (Done (f (h x))) (g x)) \<Longrightarrow> op_sim res ws ls (trap_out st f (map_trap h t)) (to_res st g t)"
  by (cases t) (auto simp: op_sim_def trap_out_def to_res_def map_trap_def)

lemma does_value:
  assumes lt: "ids_lt n st0" "ids_lt n locs" and op: "op \<noteq> OpPhi" "op \<noteq> OpInvalid" and stk': "stk' = (if res then st0 @ [n] else st0)"
    and sem: "\<And>ps ext env ws wa ls st. denotes env args (rev wa) \<Longrightarrow>
      \<exists>was. denotes env as was \<and> op_sim res ws ls (rt_sem ps ext op ty k aux was st) (plain_sem i (wa @ ws) ls st)"
  shows "does i n [value_in c op ty k aux as] (st0 @ args) locs stk' locs"
  unfolding does_def
proof (intro allI impI)
  fix ps ext F env ws0 ls st
  assume F: "fits F n [value_in c op ty k aux as]" and stk: "denotes env (st0 @ args) (rev ws0)" and locs: "denotes env locs ls"
  define wa ws where "wa = take (length args) ws0" and "ws = drop (length args) ws0"
  have len: "length ws0 = length st0 + length args" using denotes_length [OF stk] by simp
  have ws0: "ws0 = wa @ ws" by (simp add: wa_def ws_def)
  have "length st0 = length (rev ws)" using len by (simp add: ws_def)
  then have "denotes env st0 (rev ws) \<and> denotes env args (rev wa)"
    using stk unfolding ws0 by (simp add: denotes_append)
  then have d: "denotes env st0 (rev ws)" "denotes env args (rev wa)" by simp_all
  have v: "fval F n = value_in c op ty k aux as" using F by (simp add: fits_def)
  obtain was where was: "denotes env as was" "op_sim res ws ls (rt_sem ps ext op ty k aux was st) (plain_sem i ws0 ls st)"
    using sem [OF d(2), of ws ls ps ext st] ws0 by auto
  let ?out = "rt_sem ps ext op ty k aux was st"
  have ex: "exec_vals (rt_sem ps ext) F [n] (env, st) = bind_outcome ?out (\<lambda>(w, st). Done (env(n \<mapsto> w), st))"
    by (rule exec_one [OF v op was(1)])
  have new: "denotes (env(n \<mapsto> w)) st0 (rev ws)" "denotes (env(n \<mapsto> w)) locs ls" "agree n env (env(n \<mapsto> w))" for w
    by (rule denotes_new [OF d(1) lt(1)], rule denotes_new [OF locs lt(2)], rule agree_upd [OF order_refl])
  show "exec_rel (rt_sem ps ext) F n (length [value_in c op ty k aux as]) env st stk' locs (plain_sem i ws0 ls st)"
    unfolding stk' using was(2) ex new
    by (cases "plain_sem i ws0 ls st"; cases ?out)
      (auto simp: op_sim_def exec_rel_def denotes_snoc' split: if_splits)
qed

text \<open>No value: the names of the operands change.\<close>

lemma does_nothing:
  assumes "\<And>env ws ls st. denotes env stk (rev ws) \<Longrightarrow> denotes env locs ls \<Longrightarrow>
      plain_sem i ws ls st = WStuck \<or>
      (\<exists>ws' ls'. plain_sem i ws ls st = WNormal ws' ls' st \<and> denotes env stk' (rev ws') \<and> denotes env locs' ls')"
  shows "does i n [] stk locs stk' locs'"
  unfolding does_def
proof (intro allI impI)
  fix ps ext F env ws ls st
  assume "denotes env stk (rev ws)" "denotes env locs ls"
  from assms [OF this, of st]
  show "exec_rel (rt_sem ps ext) F n (length []) env st stk' locs' (plain_sem i ws ls st)"
    by (auto simp: exec_rel_def)
qed

section \<open>Each instruction\<close>

lemma ucasts: "ucast (scast (x :: i32) :: i64) = x" "ucast (ucast (u :: u32) :: i64) = u"
  by (auto intro!: bit_word_eqI simp: bit_simps)

lemma does_value0:
  assumes "ids_lt n st0" and "ids_lt n locs" and "op \<noteq> OpPhi" "op \<noteq> OpInvalid"
    and "\<And>ps ext ws ls st. rt_sem ps ext op ty k aux [] st = Done (w st, st) \<and> plain_sem i ws ls st = WNormal (w st # ws) ls st"
  shows "does i n [value_in c op ty k aux []] st0 locs (st0 @ [n]) locs"
  using does_value [OF assms(1-4), where args = "[]" and res = True and as = "[]", OF refl] assms(5) by simp

lemma does_const:
  assumes "ids_lt n st0" and "ids_lt n locs"
  shows "does (WConst32 x) n [value_in c OpConst32 TypeI32 (scast x) AuxNil []] st0 locs (st0 @ [n]) locs"
    and "does (WConst64 y) n [value_in c OpConst64 TypeI64 y AuxNil []] st0 locs (st0 @ [n]) locs"
    and "does (WConstF32 u) n [value_in c OpConstF32 TypeF32 (ucast u) AuxNil []] st0 locs (st0 @ [n]) locs"
    and "does (WConstF64 v) n [value_in c OpConstF64 TypeF64 v AuxNil []] st0 locs (st0 @ [n]) locs"
    and "does (WGlobalGet g) n [value_in c OpGlobalGet ty (ucast g) AuxNil []] st0 locs (st0 @ [n]) locs"
    and "does WMemSize n [value_in c OpMemSize ty k AuxNil []] st0 locs (st0 @ [n]) locs"
proof -
  show "does (WConst32 x) n [value_in c OpConst32 TypeI32 (scast x) AuxNil []] st0 locs (st0 @ [n]) locs"
    by (rule does_value0 [OF assms, where w = "\<lambda>_. W32 x"]) (simp_all add: const_eval ucasts)
  show "does (WConst64 y) n [value_in c OpConst64 TypeI64 y AuxNil []] st0 locs (st0 @ [n]) locs"
    by (rule does_value0 [OF assms, where w = "\<lambda>_. W64 y"]) (simp_all add: const_eval)
  show "does (WConstF32 u) n [value_in c OpConstF32 TypeF32 (ucast u) AuxNil []] st0 locs (st0 @ [n]) locs"
    by (rule does_value0 [OF assms, where w = "\<lambda>_. WF32 u"]) (simp_all add: const_eval ucasts)
  show "does (WConstF64 v) n [value_in c OpConstF64 TypeF64 v AuxNil []] st0 locs (st0 @ [n]) locs"
    by (rule does_value0 [OF assms, where w = "\<lambda>_. WF64 v"]) (simp_all add: const_eval)
  show "does (WGlobalGet g) n [value_in c OpGlobalGet ty (ucast g) AuxNil []] st0 locs (st0 @ [n]) locs"
    by (rule does_value0 [OF assms, where w = "\<lambda>st. snd st g"]) (simp_all add: const_eval ucasts)
  show "does WMemSize n [value_in c OpMemSize ty k AuxNil []] st0 locs (st0 @ [n]) locs"
    by (rule does_value0 [OF assms, where w = "\<lambda>st. W32 (memorySize (fst st))"]) (simp_all add: bulk_eval)
qed

lemma denotes_Cons: "denotes env (i # ids) ws \<longleftrightarrow> (\<exists>w ws'. ws = w # ws' \<and> env i = Some w \<and> denotes env ids ws')"
  by (cases ws) auto

lemma args_values:
  "denotes env [a] (rev wa) \<longleftrightarrow> (\<exists>x. wa = [x] \<and> env a = Some x)"
  "denotes env [a, b] (rev wa) \<longleftrightarrow> (\<exists>x y. wa = [y, x] \<and> env a = Some x \<and> env b = Some y)"
  "denotes env [a, b, d] (rev wa) \<longleftrightarrow> (\<exists>x y z. wa = [z, y, x] \<and> env a = Some x \<and> env b = Some y \<and> env d = Some z)"
  by (auto simp: denotes_Cons rev_swap)

lemmas pop_simps = pop32_def pop64_def

lemma bin_op_ok: "bin_helper b = None \<Longrightarrow> fst (bin_op b) \<notin> {OpPhi, OpInvalid} \<and> snd (bin_op b) \<notin> {OpPhi, OpInvalid}"
  by (cases b) simp_all

lemma rel_op_ok: "fst (rel_op r) \<notin> {OpPhi, OpInvalid} \<and> snd (rel_op r) \<notin> {OpPhi, OpInvalid}"
  by (cases r) simp_all

lemma load_op_ok: "fst (load_op l) \<notin> {OpPhi, OpInvalid}" "store_op t \<notin> {OpPhi, OpInvalid}"
  by (cases l; simp) (cases t; simp)

text \<open>One, two and three operands, the last ones pushed on top.\<close>

lemma does_1:
  assumes "ids_lt n st0" "ids_lt n locs" "op \<notin> {OpPhi, OpInvalid}"
    and "\<And>ps ext u ws ls st. op_sim res ws ls (rt_sem ps ext op ty k aux [u] st) (plain_sem i (u # ws) ls st)"
  shows "does i n [value_in c op ty k aux [x]] (st0 @ [x]) locs (if res then st0 @ [n] else st0) locs"
  by (rule does_value [where res = res, OF assms(1,2)]) (use assms(3,4) in \<open>auto simp: args_values denotes_Cons\<close>)

lemma does_2:
  assumes "ids_lt n st0" "ids_lt n locs" "op \<notin> {OpPhi, OpInvalid}"
    and "\<And>ps ext u v ws ls st. op_sim res ws ls (rt_sem ps ext op ty k aux (if sw then [v, u] else [u, v]) st) (plain_sem i (v # u # ws) ls st)"
  shows "does i n [value_in c op ty k aux (if sw then [y, x] else [x, y])] (st0 @ [x, y]) locs (if res then st0 @ [n] else st0) locs"
proof (rule does_value [where res = res, OF assms(1,2)])
  fix ps ext env ws wa ls st assume "denotes env [x, y] (rev wa)"
  then obtain u v where uv: "wa = [v, u]" "env x = Some u" "env y = Some v" by (auto simp: args_values)
  show "\<exists>was. denotes env (if sw then [y, x] else [x, y]) was \<and>
      op_sim res ws ls (rt_sem ps ext op ty k aux was st) (plain_sem i (wa @ ws) ls st)"
    using uv assms(4) [of ws ls ps ext v u st] by (intro exI [of _ "if sw then [v, u] else [u, v]"]) simp
qed (use assms(3) in simp_all)

lemma does_3:
  assumes "ids_lt n st0" "ids_lt n locs" "op \<notin> {OpPhi, OpInvalid}"
    and "\<And>ps ext u v w ws ls st. op_sim res ws ls (rt_sem ps ext op ty k aux [u, v, w] st) (plain_sem i (w # v # u # ws) ls st)"
  shows "does i n [value_in c op ty k aux [x, y, z]] (st0 @ [x, y, z]) locs (if res then st0 @ [n] else st0) locs"
  by (rule does_value [where res = res, OF assms(1,2)]) (use assms(3,4) in \<open>auto simp: args_values denotes_Cons\<close>)

lemma does_bin:
  assumes "ids_lt n st0" "ids_lt n locs" and b: "bin_helper b = None"
  shows "does (WBin32 b) n [value_in c (fst (bin_op b)) TypeI32 0 AuxNil [x, y]] (st0 @ [x, y]) locs (st0 @ [n]) locs"
    and "does (WBin64 b) n [value_in c (snd (bin_op b)) TypeI64 0 AuxNil [x, y]] (st0 @ [x, y]) locs (st0 @ [n]) locs"
proof -
  have "op_sim True ws ls (rt_sem ps ext (fst (bin_op b)) TypeI32 0 AuxNil (if False then [v, u] else [u, v]) st) (plain_sem (WBin32 b) (v # u # ws) ls st)"
    for u v ps ext ws ls st
  proof (cases "\<exists>p q. u = W32 p \<and> v = W32 q")
    case True
    then obtain p q where "u = W32 p" "v = W32 q" by blast
    then show ?thesis using bin_eval(1) [OF b, of p q ps ext TypeI32 0 AuxNil st] by (auto simp: pop_simps to_res_def)
  qed (cases u; cases v; simp add: pop_simps)
  from does_2 [OF assms(1,2) _ this] show "does (WBin32 b) n [value_in c (fst (bin_op b)) TypeI32 0 AuxNil [x, y]] (st0 @ [x, y]) locs (st0 @ [n]) locs"
    using bin_op_ok [OF b] by simp
  have "op_sim True ws ls (rt_sem ps ext (snd (bin_op b)) TypeI64 0 AuxNil (if False then [v, u] else [u, v]) st) (plain_sem (WBin64 b) (v # u # ws) ls st)"
    for u v ps ext ws ls st
  proof (cases "\<exists>p q. u = W64 p \<and> v = W64 q")
    case True
    then obtain p q where "u = W64 p" "v = W64 q" by blast
    then show ?thesis using bin_eval(2) [OF b, of p q ps ext TypeI64 0 AuxNil st] by (auto simp: pop_simps to_res_def)
  qed (cases u; cases v; simp add: pop_simps)
  from does_2 [OF assms(1,2) _ this] show "does (WBin64 b) n [value_in c (snd (bin_op b)) TypeI64 0 AuxNil [x, y]] (st0 @ [x, y]) locs (st0 @ [n]) locs"
    using bin_op_ok [OF b] by simp
qed

lemma does_rel:
  assumes "ids_lt n st0" "ids_lt n locs"
  shows "does (WRel32 r) n [value_in c (fst (rel_op r)) ty 0 AuxNil (if rel_swap r then [y, x] else [x, y])] (st0 @ [x, y]) locs (st0 @ [n]) locs"
    and "does (WRel64 r) n [value_in c (snd (rel_op r)) ty 0 AuxNil (if rel_swap r then [y, x] else [x, y])] (st0 @ [x, y]) locs (st0 @ [n]) locs"
proof -
  have "op_sim True ws ls (rt_sem ps ext (fst (rel_op r)) ty 0 AuxNil (if rel_swap r then [v, u] else [u, v]) st) (plain_sem (WRel32 r) (v # u # ws) ls st)"
    for u v ps ext ws ls st
    by (cases u; cases v; cases "rel_swap r"; use rel_eval(1) [of ps ext r ty 0 AuxNil] in \<open>simp add: pop_simps\<close>)
  from does_2 [OF assms(1,2) _ this] show "does (WRel32 r) n [value_in c (fst (rel_op r)) ty 0 AuxNil (if rel_swap r then [y, x] else [x, y])] (st0 @ [x, y]) locs (st0 @ [n]) locs"
    using rel_op_ok [of r] by simp
  have "op_sim True ws ls (rt_sem ps ext (snd (rel_op r)) ty 0 AuxNil (if rel_swap r then [v, u] else [u, v]) st) (plain_sem (WRel64 r) (v # u # ws) ls st)"
    for u v ps ext ws ls st
    by (cases u; cases v; cases "rel_swap r"; use rel_eval(2) [of ps ext r ty 0 AuxNil] in \<open>simp add: pop_simps\<close>)
  from does_2 [OF assms(1,2) _ this] show "does (WRel64 r) n [value_in c (snd (rel_op r)) ty 0 AuxNil (if rel_swap r then [y, x] else [x, y])] (st0 @ [x, y]) locs (st0 @ [n]) locs"
    using rel_op_ok [of r] by simp
qed

lemma does_helper_binary:
  assumes "ids_lt n st0" "ids_lt n locs" and b: "bin_helper b = Some (h, h')"
  shows "does (WBin32 b) n [value_in c OpHelperCall ty 0 (AuxString h) [x, y]] (st0 @ [x, y]) locs (st0 @ [n]) locs"
    and "does (WBin64 b) n [value_in c OpHelperCall ty 0 (AuxString h') [x, y]] (st0 @ [x, y]) locs (st0 @ [n]) locs"
proof -
  have "op_sim True ws ls (rt_sem ps ext OpHelperCall ty 0 (AuxString h) (if False then [v, u] else [u, v]) st) (plain_sem (WBin32 b) (v # u # ws) ls st)"
    for u v ps ext ws ls st
    by (cases u; cases v; simp add: pop_simps helper_eval [OF _ bin_helper_call(1) [OF b]] op_sim_map_trap)
  from does_2 [OF assms(1,2) _ this] show "does (WBin32 b) n [value_in c OpHelperCall ty 0 (AuxString h) [x, y]] (st0 @ [x, y]) locs (st0 @ [n]) locs" by simp
  have "op_sim True ws ls (rt_sem ps ext OpHelperCall ty 0 (AuxString h') (if False then [v, u] else [u, v]) st) (plain_sem (WBin64 b) (v # u # ws) ls st)"
    for u v ps ext ws ls st
    by (cases u; cases v; simp add: pop_simps helper_eval [OF _ bin_helper_call(2) [OF b]] op_sim_map_trap)
  from does_2 [OF assms(1,2) _ this] show "does (WBin64 b) n [value_in c OpHelperCall ty 0 (AuxString h') [x, y]] (st0 @ [x, y]) locs (st0 @ [n]) locs" by simp
qed

lemma does_unary:
  assumes "ids_lt n st0" "ids_lt n locs"
  shows "does (WUn32 u) n [value_in c OpHelperCall ty 0 (AuxString (fst (un_helper u))) [x]] (st0 @ [x]) locs (st0 @ [n]) locs"
    and "does (WUn64 u) n [value_in c OpHelperCall ty 0 (AuxString (snd (un_helper u))) [x]] (st0 @ [x]) locs (st0 @ [n]) locs"
    and "does (WCvt cv) n [value_in c OpHelperCall ty 0 (AuxString (cvt_helper cv)) [x]] (st0 @ [x]) locs (st0 @ [n]) locs"
proof -
  have "op_sim True ws ls (rt_sem ps ext OpHelperCall ty 0 (AuxString (fst (un_helper u))) [v] st) (plain_sem (WUn32 u) (v # ws) ls st)"
    for v ps ext ws ls st
    by (cases v; simp add: pop_simps helper_eval [OF _ un_helper_call(1)] trap_out_def)
  from does_1 [OF assms(1,2) _ this] show "does (WUn32 u) n [value_in c OpHelperCall ty 0 (AuxString (fst (un_helper u))) [x]] (st0 @ [x]) locs (st0 @ [n]) locs" by simp
  have "op_sim True ws ls (rt_sem ps ext OpHelperCall ty 0 (AuxString (snd (un_helper u))) [v] st) (plain_sem (WUn64 u) (v # ws) ls st)"
    for v ps ext ws ls st
    by (cases v; simp add: pop_simps helper_eval [OF _ un_helper_call(2)] trap_out_def)
  from does_1 [OF assms(1,2) _ this] show "does (WUn64 u) n [value_in c OpHelperCall ty 0 (AuxString (snd (un_helper u))) [x]] (st0 @ [x]) locs (st0 @ [n]) locs" by simp
  have "op_sim True ws ls (rt_sem ps ext OpHelperCall ty 0 (AuxString (cvt_helper cv)) [v] st) (plain_sem (WCvt cv) (v # ws) ls st)"
    for v ps ext ws ls st
    by (cases "icvt_sem cv v"; simp add: pop_simps helper_eval [OF _ cvt_helper_call] trap_out_def)
  from does_1 [OF assms(1,2) _ this] show "does (WCvt cv) n [value_in c OpHelperCall ty 0 (AuxString (cvt_helper cv)) [x]] (st0 @ [x]) locs (st0 @ [n]) locs" by simp
qed

lemma does_access:
  assumes "ids_lt n st0" "ids_lt n locs"
  shows "does (WLoad l off) n [value_in c (fst (load_op l)) (snd (load_op l)) off AuxNil [x]] (st0 @ [x]) locs (st0 @ [n]) locs"
    and "does (WStore t off) n [value_in c (store_op t) TypeMem off AuxNil [x, y]] (st0 @ [x, y]) locs st0 locs"
proof -
  have "op_sim True ws ls (rt_sem ps ext (fst (load_op l)) (snd (load_op l)) off AuxNil [v] st) (plain_sem (WLoad l off) (v # ws) ls st)"
    for v ps ext ws ls st
    by (cases v; cases "off \<le> 0xffffffff"; simp add: pop_simps load_eval op_sim_trap)
  from does_1 [OF assms(1,2) _ this]
  show "does (WLoad l off) n [value_in c (fst (load_op l)) (snd (load_op l)) off AuxNil [x]] (st0 @ [x]) locs (st0 @ [n]) locs"
    using load_op_ok by simp
  have "op_sim False ws ls (rt_sem ps ext (store_op t) TypeMem off AuxNil (if False then [v, u] else [u, v]) st) (plain_sem (WStore t off) (v # u # ws) ls st)"
    for u v ps ext ws ls st
    by (cases u; cases "mstore_sem t v"; cases "off \<le> 0xffffffff"; simp add: pop_simps store_eval with_mem_def op_sim_trap)
  from does_2 [OF assms(1,2) _ this]
  show "does (WStore t off) n [value_in c (store_op t) TypeMem off AuxNil [x, y]] (st0 @ [x, y]) locs st0 locs"
    using load_op_ok by simp
qed

lemma does_bulk:
  assumes "ids_lt n st0" "ids_lt n locs"
  shows "does WMemGrow n [value_in c OpMemGrow ty 0 AuxNil [x]] (st0 @ [x]) locs (st0 @ [n]) locs"
    and "does WMemCopy n [value_in c OpMemoryCopy TypeMem 0 AuxNil [x, y, z]] (st0 @ [x, y, z]) locs st0 locs"
    and "does WMemFill n [value_in c OpMemoryFill TypeMem 0 AuxNil [x, y, z]] (st0 @ [x, y, z]) locs st0 locs"
    and "does (WMemInit g) n [value_in c OpMemoryInit TypeMem (ucast g) AuxNil [x, y, z]] (st0 @ [x, y, z]) locs st0 locs"
    and "does (WDataDrop g) n [value_in c OpDataDrop TypeMem (ucast g) AuxNil []] st0 locs st0 locs"
    and "does (WGlobalSet g) n [value_in c OpGlobalSet TypeMem (ucast g) AuxNil [x]] (st0 @ [x]) locs st0 locs"
proof -
  have g: "unat (ucast g :: i64) = unat g" by (simp add: unat_ucast_up)
  have "op_sim True ws ls (rt_sem ps ext OpMemGrow ty 0 AuxNil [v] st) (plain_sem WMemGrow (v # ws) ls st)" for v ps ext ws ls st
    by (cases v) (auto simp: pop_simps bulk_eval intro!: op_sim_trap)
  from does_1 [OF assms(1,2) _ this] show "does WMemGrow n [value_in c OpMemGrow ty 0 AuxNil [x]] (st0 @ [x]) locs (st0 @ [n]) locs" by simp
  have "op_sim False ws ls (rt_sem ps ext OpMemoryCopy TypeMem 0 AuxNil [u, v, w] st) (plain_sem WMemCopy (w # v # u # ws) ls st)" for u v w ps ext ws ls st
    by (cases u; cases v; cases w; simp add: pop_simps bulk_eval with_mem_def op_sim_trap)
  from does_3 [OF assms(1,2) _ this] show "does WMemCopy n [value_in c OpMemoryCopy TypeMem 0 AuxNil [x, y, z]] (st0 @ [x, y, z]) locs st0 locs" by simp
  have "op_sim False ws ls (rt_sem ps ext OpMemoryFill TypeMem 0 AuxNil [u, v, w] st) (plain_sem WMemFill (w # v # u # ws) ls st)" for u v w ps ext ws ls st
    by (cases u; cases v; cases w; simp add: pop_simps bulk_eval with_mem_def op_sim_trap)
  from does_3 [OF assms(1,2) _ this] show "does WMemFill n [value_in c OpMemoryFill TypeMem 0 AuxNil [x, y, z]] (st0 @ [x, y, z]) locs st0 locs" by simp
  have "op_sim False ws ls (rt_sem ps ext OpMemoryInit TypeMem (ucast g) AuxNil [u, v, w] st) (plain_sem (WMemInit g) (w # v # u # ws) ls st)" for u v w ps ext ws ls st
    by (cases u; cases v; cases w; simp add: pop_simps bulk_eval with_mem_def op_sim_trap g)
  from does_3 [OF assms(1,2) _ this] show "does (WMemInit g) n [value_in c OpMemoryInit TypeMem (ucast g) AuxNil [x, y, z]] (st0 @ [x, y, z]) locs st0 locs" by simp
  have "op_sim False ws ls (rt_sem ps ext OpGlobalSet TypeMem (ucast g) AuxNil [v] st) (plain_sem (WGlobalSet g) (v # ws) ls st)" for v ps ext ws ls st
    by (simp add: const_eval ucasts)
  from does_1 [OF assms(1,2) _ this] show "does (WGlobalSet g) n [value_in c OpGlobalSet TypeMem (ucast g) AuxNil [x]] (st0 @ [x]) locs st0 locs" by simp
  have "op_sim False ws ls (rt_sem ps ext OpDataDrop TypeMem (ucast g) AuxNil [] st) (plain_sem (WDataDrop g) ws ls st)" for ps ext ws ls st
    by (simp add: bulk_eval with_mem_def op_sim_trap g)
  then show "does (WDataDrop g) n [value_in c OpDataDrop TypeMem (ucast g) AuxNil []] st0 locs st0 locs"
    using does_value [OF assms(1,2), of OpDataDrop st0 False "[]" "[]" TypeMem "ucast g" AuxNil "WDataDrop g" c] by simp
qed

lemma exec_two:
  assumes F: "fits F n [value_in c op ty k aux [], value_in c op' ty' k' aux' [x, n]]"
    and "op \<notin> {OpPhi, OpInvalid}" "op' \<notin> {OpPhi, OpInvalid}" and "env x = Some u" "x < n"
    and "\<And>st. sem op ty k aux [] st = Done (w, st)"
  shows "exec_vals sem F [n..<n + 2] (env, st) =
    bind_outcome (sem op' ty' k' aux' [u, w] st) (\<lambda>(z, st). Done (env(n \<mapsto> w, Suc n \<mapsto> z), st))"
proof -
  have v: "fval F n = value_in c op ty k aux []" "fval F (Suc n) = value_in c op' ty' k' aux' [x, n]"
    using F [unfolded fits_def, THEN spec, of 0] F [unfolded fits_def, THEN spec, of 1] by simp_all
  have 1: "exec_vals sem F [n] (env, st) = Done (env(n \<mapsto> w), st)"
    using exec_one [OF v(1), of env "[]" sem st] assms(2,6) by simp
  have "denotes (env(n \<mapsto> w)) [x, n] [u, w]" using assms(4,5) by simp
  then have 2: "exec_vals sem F [Suc n] (env(n \<mapsto> w), st) =
      bind_outcome (sem op' ty' k' aux' [u, w] st) (\<lambda>(z, st). Done (env(n \<mapsto> w, Suc n \<mapsto> z), st))"
    using exec_one [OF v(2), of "env(n \<mapsto> w)" "[u, w]" sem st] assms(3) by simp
  have "[n..<n + 2] = [n] @ [Suc n]" by (simp add: upt_rec)
  then show ?thesis using 1 2 by (simp only: exec_vals_append bind_outcome.simps)
qed

lemma does_with_constant:
  assumes lt: "ids_lt n (st0 @ [x])" "ids_lt n locs" and ops: "op \<notin> {OpPhi, OpInvalid}" "op' \<notin> {OpPhi, OpInvalid}"
    and sem: "\<And>ps ext st. rt_sem ps ext op ty k aux [] st = Done (w, st)"
    and sim: "\<And>ps ext u ws ls st. op_sim True ws ls (rt_sem ps ext op' ty' k' aux' [u, w] st) (plain_sem i (u # ws) ls st)"
  shows "does i n [value_in c op ty k aux [], value_in c op' ty' k' aux' [x, n]] (st0 @ [x]) locs (st0 @ [Suc n]) locs"
  unfolding does_def
proof (intro allI impI)
  fix ps ext F env ws ls st
  let ?vs = "[value_in c op ty k aux [], value_in c op' ty' k' aux' [x, n]]"
  assume F: "fits F n ?vs" and "denotes env (st0 @ [x]) (rev ws)" and locs: "denotes env locs ls"
  then obtain u ws' where ws: "ws = u # ws'" "denotes env st0 (rev ws')" "env x = Some u" by (auto simp: denotes_snoc)
  let ?out = "rt_sem ps ext op' ty' k' aux' [u, w] st"
  have ex: "exec_vals (rt_sem ps ext) F [n..<n + 2] (env, st) = bind_outcome ?out (\<lambda>(z, st). Done (env(n \<mapsto> w, Suc n \<mapsto> z), st))"
    by (rule exec_two [where sem = "rt_sem ps ext" and u = u and w = w and env = env and x = x, OF F ops]) (use ws(3) lt sem in simp_all)
  have new: "agree n env (env(n \<mapsto> a, Suc n \<mapsto> b)) \<and> denotes (env(n \<mapsto> a, Suc n \<mapsto> b)) st0 (rev ws') \<and>
      denotes (env(n \<mapsto> a, Suc n \<mapsto> b)) locs ls" for a b
  proof -
    have "agree n env (env(n \<mapsto> a, Suc n \<mapsto> b))" by (simp add: agree_def)
    then show ?thesis using denotes_agree ws(2) locs lt by (metis ids_lt_simps(3))
  qed
  show "exec_rel (rt_sem ps ext) F n (length ?vs) env st (st0 @ [Suc n]) locs (plain_sem i ws ls st)"
    using sim [of ws' ls ps ext u st] ex new unfolding ws(1)
    by (cases "plain_sem i (u # ws') ls st"; cases ?out)
      (auto simp: op_sim_def exec_rel_def denotes_snoc' eval_nat_numeral split: if_splits)
qed

lemma does_eqz:
  assumes "ids_lt n (st0 @ [x])" "ids_lt n locs"
  shows "does WEqz32 n [value_in c OpConst32 TypeI32 0 AuxNil [], value_in c OpEq32 TypeBool 0 AuxNil [x, n]] (st0 @ [x]) locs (st0 @ [Suc n]) locs"
    and "does WEqz64 n [value_in c OpConst64 TypeI64 0 AuxNil [], value_in c OpEq64 TypeBool 0 AuxNil [x, n]] (st0 @ [x]) locs (st0 @ [Suc n]) locs"
proof -
  have "op_sim True ws ls (rt_sem ps ext OpEq32 TypeBool 0 AuxNil [u, W32 0] st) (plain_sem WEqz32 (u # ws) ls st)" for ps ext u ws ls st
    by (cases u) (simp_all add: pop_simps const_eval)
  then show "does WEqz32 n [value_in c OpConst32 TypeI32 0 AuxNil [], value_in c OpEq32 TypeBool 0 AuxNil [x, n]] (st0 @ [x]) locs (st0 @ [Suc n]) locs"
    by (rule does_with_constant [where w = "W32 0", rotated -1]) (simp_all add: assms [simplified] const_eval)
  have "op_sim True ws ls (rt_sem ps ext OpEq64 TypeBool 0 AuxNil [u, W64 0] st) (plain_sem WEqz64 (u # ws) ls st)" for ps ext u ws ls st
    by (cases u) (simp_all add: pop_simps const_eval)
  then show "does WEqz64 n [value_in c OpConst64 TypeI64 0 AuxNil [], value_in c OpEq64 TypeBool 0 AuxNil [x, n]] (st0 @ [x]) locs (st0 @ [Suc n]) locs"
    by (rule does_with_constant [where w = "W64 0", rotated -1]) (simp_all add: assms [simplified] const_eval)
qed

lemma does_names:
  "does WNop n [] stk locs stk locs" "does WDrop n [] (stk @ [x]) locs stk locs"
  "unat g < length locs \<Longrightarrow> does (WLocalGet g) n [] stk locs (stk @ [locs ! unat g]) locs"
  "unat g < length locs \<Longrightarrow> does (WLocalSet g) n [] (stk @ [x]) locs stk (locs[unat g := x])"
  "unat g < length locs \<Longrightarrow> does (WLocalTee g) n [] (stk @ [x]) locs (stk @ [x]) (locs[unat g := x])"
proof -
  show "does WNop n [] stk locs stk locs" "does WDrop n [] (stk @ [x]) locs stk locs"
    by (rule does_nothing; auto simp: denotes_snoc)+
  assume g: "unat g < length locs"
  then show "does (WLocalGet g) n [] stk locs (stk @ [locs ! unat g]) locs"
    by (intro does_nothing) (auto simp: denotes_snoc' denotes_nth dest: denotes_length)
  show "does (WLocalSet g) n [] (stk @ [x]) locs stk (locs[unat g := x])"
  proof (rule does_nothing)
    fix env ws ls st assume d: "denotes env (stk @ [x]) (rev ws)" "denotes env locs ls"
    then obtain w ws' where w: "ws = w # ws'" "env x = Some w" "denotes env stk (rev ws')" by (auto simp: denotes_snoc)
    then have "plain_sem (WLocalSet g) ws ls st = WNormal ws' (ls[unat g := w]) st \<and> denotes env (locs[unat g := x]) (ls[unat g := w])"
      using g d denotes_length [OF d(2)] by (simp add: denotes_update)
    then show "plain_sem (WLocalSet g) ws ls st = WStuck \<or>
        (\<exists>ws' ls'. plain_sem (WLocalSet g) ws ls st = WNormal ws' ls' st \<and> denotes env stk (rev ws') \<and>
          denotes env (locs[unat g := x]) ls')"
      using w(3) by blast
  qed
  show "does (WLocalTee g) n [] (stk @ [x]) locs (stk @ [x]) (locs[unat g := x])"
  proof (rule does_nothing)
    fix env ws ls st assume d: "denotes env (stk @ [x]) (rev ws)" "denotes env locs ls"
    then obtain w ws' where "ws = w # ws'" "env x = Some w" by (auto simp: denotes_snoc)
    then have "plain_sem (WLocalTee g) ws ls st = WNormal ws (ls[unat g := w]) st \<and> denotes env (locs[unat g := x]) (ls[unat g := w])"
      using g d denotes_length [OF d(2)] by (simp add: denotes_update)
    then show "plain_sem (WLocalTee g) ws ls st = WStuck \<or>
        (\<exists>ws' ls'. plain_sem (WLocalTee g) ws ls st = WNormal ws' ls' st \<and> denotes env (stk @ [x]) (rev ws') \<and>
          denotes env (locs[unat g := x]) ls')"
      using d(1) by blast
  qed
qed

section \<open>The handlers\<close>

definition appended :: "nat \<Rightarrow> Value list \<Rightarrow> nat list \<Rightarrow> nat list \<Rightarrow> byte list \<Rightarrow> lowerState \<Rightarrow> lowerState" where
  "appended c vs stk locs rd s = (on_func (push_values c vs) s)\<lparr>ls_stack := stk, ls_locals := locs, ls_rd := rd\<rparr>"

lemma on_func_upd [simp]:
  "on_func g (s\<lparr>ls_stack := a\<rparr>) = (on_func g s)\<lparr>ls_stack := a\<rparr>" "on_func g (s\<lparr>ls_locals := b\<rparr>) = (on_func g s)\<lparr>ls_locals := b\<rparr>"
  "on_func g (s\<lparr>ls_rd := r\<rparr>) = (on_func g s)\<lparr>ls_rd := r\<rparr>"
  by (simp_all add: on_func_def)

lemma nextV_upd [simp]:
  "nextV (s\<lparr>ls_stack := a\<rparr>) = nextV s" "nextV (s\<lparr>ls_locals := b\<rparr>) = nextV s" "nextV (s\<lparr>ls_rd := r\<rparr>) = nextV s"
  "nextV (on_func (push_value c v) s) = Suc (nextV s)"
  by (simp_all add: nextV_def)

lemma push_values_fun:
  "push_values c [] = (\<lambda>f. f)" "push_values c [v] = push_value c v" "push_values c [v, w] = (\<lambda>f. push_value c w (push_value c v f))"
  by (auto simp: fun_eq_iff)

lemma same_state [simp]: "s\<lparr>ls_stack := ls_stack s\<rparr> = s" "s\<lparr>ls_locals := ls_locals s\<rparr> = s"
  by simp_all

definition plain_result :: "nat \<Rightarrow> nat \<Rightarrow> winstr \<Rightarrow> byte list \<Rightarrow> lowerState \<Rightarrow> lowerState \<Rightarrow> bool" where
  "plain_result c base i rd s s' \<longleftrightarrow>
     (\<exists>vs st0 args new locs. ls_stack s = st0 @ args \<and> length args = fst (plain_arity i) \<and> base \<le> length st0 \<and>
        s' = appended c vs (st0 @ new) locs rd s \<and> length new = snd (plain_arity i) \<and>
        length locs = length (ls_locals s) \<and> ids_lt (nextV s + length vs) (new @ locs) \<and>
        (\<forall>v \<in> set vs. vOp v \<noteq> OpPhi \<and> vOp v \<noteq> OpInvalid \<and> vBlock v = Some c) \<and>
        does i (nextV s) vs (drop base (ls_stack s)) (ls_locals s) (drop base (st0 @ new)) locs)"

lemma plain_resultI:
  assumes "ls_stack s = st0 @ args" "base \<le> length st0" "length args = fst (plain_arity i)" "length new = snd (plain_arity i)"
    and "s' = appended c vs (st0 @ new) locs rd s" "length locs = length (ls_locals s)"
    and "ids_lt (nextV s + length vs) (new @ locs)" "\<forall>v \<in> set vs. vOp v \<notin> {OpPhi, OpInvalid} \<and> vBlock v = Some c"
    and "\<And>st. ids_lt (nextV s) st \<Longrightarrow> does i (nextV s) vs (st @ args) (ls_locals s) (st @ new) locs" and "ids_lt (nextV s) (ls_stack s)"
  shows "plain_result c base i rd s s'"
proof -
  have "ids_lt (nextV s) (drop base st0)" using assms(1,10) by (simp add: ids_lt_take)
  from assms(9) [OF this] have "does i (nextV s) vs (drop base (ls_stack s)) (ls_locals s) (drop base (st0 @ new)) locs"
    using assms(1,2) by simp
  then show ?thesis unfolding plain_result_def using assms(1-8) by blast
qed

text \<open>What holds of a state in which an instruction is lowered.\<close>

definition live_state :: "nat \<Rightarrow> lowerState \<Rightarrow> bool" where
  "live_state c s \<longleftrightarrow> cur (ls_b s) = Some c \<and> \<not> ls_mutableLocals s \<and> \<not> ls_mem64 s \<and>
     ids_lt (nextV s) (ls_stack s) \<and> ids_lt (nextV s) (ls_locals s) \<and> length (ls_locals s) = length (ls_localTypes s)"

lemma pops:
  "ls_stack s = st0 @ [x] \<Longrightarrow> lbind lpop f s = f x (s\<lparr>ls_stack := st0\<rparr>)"
  "ls_stack s = st0 @ [x, y] \<Longrightarrow> lbind lpop (\<lambda>b. lbind lpop (g b)) s = g y x (s\<lparr>ls_stack := st0\<rparr>)"
  "ls_stack s = st0 @ [x, y, z] \<Longrightarrow> lbind lpop (\<lambda>c. lbind lpop (\<lambda>b. lbind lpop (h c b))) s = h z y x (s\<lparr>ls_stack := st0\<rparr>)"
  by (simp_all add: lbind_def lpop_def butlast_append)

lemma cur_upd [simp]: "cur (ls_b (s\<lparr>ls_stack := a\<rparr>)) = cur (ls_b s)" "cur (ls_b (s\<lparr>ls_rd := r\<rparr>)) = cur (ls_b s)"
  by simp_all

lemma value_push:
  "cur (ls_b s) = Some c \<Longrightarrow> lbind (lvalue op ty k as) lpush s =
     Inr ((), (on_func (push_value c (value_in c op ty k AuxNil as)) s)\<lparr>ls_stack := ls_stack s @ [nextV s]\<rparr>)"
  "cur (ls_b s) = Some c \<Longrightarrow> lbind (lvalueAux op ty aux as) lpush s =
     Inr ((), (on_func (push_value c (value_in c op ty 0 aux as)) s)\<lparr>ls_stack := ls_stack s @ [nextV s]\<rparr>)"
  "cur (ls_b s) = Some c \<Longrightarrow> lbind (lvalue op ty k as) (\<lambda>_. lret ()) s =
     Inr ((), on_func (push_value c (value_in c op ty k AuxNil as)) s)"
  "cur (ls_b s) = Some c \<Longrightarrow> lbind (lconst32 x) lpush s =
     Inr ((), (on_func (push_value c (value_in c OpConst32 TypeI32 (scast x) AuxNil [])) s)\<lparr>ls_stack := ls_stack s @ [nextV s]\<rparr>)"
  "cur (ls_b s) = Some c \<Longrightarrow> lbind (lconst64 y) lpush s =
     Inr ((), (on_func (push_value c (value_in c OpConst64 TypeI64 y AuxNil [])) s)\<lparr>ls_stack := ls_stack s @ [nextV s]\<rparr>)"
  by (simp_all add: lbind_def lvalue_run lpush_run lret_def)

lemmas appended_simps = appended_def push_values_fun

text \<open>An appended value with or without a result, after one to three operands.\<close>

lemma live_stateD:
  assumes "live_state c s"
  shows "cur (ls_b s) = Some c" "\<not> ls_mutableLocals s" "\<not> ls_mem64 s" "ids_lt (nextV s) (ls_stack s)"
    "ids_lt (nextV s) (ls_locals s)" "length (ls_locals s) = length (ls_localTypes s)"
  using assms by (simp_all add: live_state_def)

lemma pushes_result:
  assumes s: "live_state c s" "ls_stack s = st0 @ args" "base \<le> length st0" "length args = fst (plain_arity i)"
    and "snd (plain_arity i) = 1" "op \<notin> {OpPhi, OpInvalid}"
    and "s' = (on_func (push_value c (value_in c op ty k aux as)) (s\<lparr>ls_rd := rd\<rparr>))\<lparr>ls_stack := st0 @ [nextV s]\<rparr>"
    and "\<And>st. ids_lt (nextV s) st \<Longrightarrow> does i (nextV s) [value_in c op ty k aux as] (st @ args) (ls_locals s) (st @ [nextV s]) (ls_locals s)"
  shows "plain_result c base i rd s s'"
  by (rule plain_resultI [OF s(2-4), where new = "[nextV s]" and vs = "[value_in c op ty k aux as]" and locs = "ls_locals s"])
    (use assms live_stateD [OF s(1)] in \<open>auto simp: appended_simps elim: ids_lt_mono\<close>)

lemma effect_result:
  assumes s: "live_state c s" "ls_stack s = st0 @ args" "base \<le> length st0" "length args = fst (plain_arity i)"
    and "snd (plain_arity i) = 0" "op \<notin> {OpPhi, OpInvalid}"
    and "s' = (on_func (push_value c (value_in c op ty k aux as)) (s\<lparr>ls_rd := rd\<rparr>))\<lparr>ls_stack := st0\<rparr>"
    and "\<And>st. ids_lt (nextV s) st \<Longrightarrow> does i (nextV s) [value_in c op ty k aux as] (st @ args) (ls_locals s) st (ls_locals s)"
  shows "plain_result c base i rd s s'"
  by (rule plain_resultI [OF s(2-4), where new = "[]" and vs = "[value_in c op ty k aux as]" and locs = "ls_locals s"])
    (use assms live_stateD [OF s(1)] in \<open>auto simp: appended_simps elim: ids_lt_mono\<close>)

lemma names_result:
  assumes s: "live_state c s" "ls_stack s = st0 @ args" "base \<le> length st0" "length args = fst (plain_arity i)"
    and "length new = snd (plain_arity i)" "s' = s\<lparr>ls_rd := rd, ls_stack := st0 @ new, ls_locals := locs\<rparr>"
    and "length locs = length (ls_locals s)" "ids_lt (nextV s) new" "ids_lt (nextV s) locs"
    and "\<And>st. ids_lt (nextV s) st \<Longrightarrow> does i (nextV s) [] (st @ args) (ls_locals s) (st @ new) locs"
  shows "plain_result c base i rd s s'"
  by (rule plain_resultI [OF s(2-4), where new = new and vs = "[]" and locs = locs])
    (use assms live_stateD [OF s(1)] in \<open>auto simp: appended_simps\<close>)

lemma same_rd [simp]: "s\<lparr>ls_rd := ls_rd s\<rparr> = s"
  by simp

lemma on_func_same:
  "(on_func g s)\<lparr>ls_locals := ls_locals s\<rparr> = on_func g s" "(on_func g s)\<lparr>ls_rd := ls_rd s\<rparr> = on_func g s"
  "(on_func g s)\<lparr>ls_stack := a, ls_locals := ls_locals s, ls_rd := ls_rd s\<rparr> = (on_func g s)\<lparr>ls_stack := a\<rparr>"
  "(on_func g s)\<lparr>ls_rd := r, ls_stack := ls_stack s\<rparr> = (on_func g s)\<lparr>ls_rd := r\<rparr>"
  by (simp_all add: on_func_def)

lemma lowered_binary_op:
  assumes s: "live_state c s" "ls_stack s = st0 @ [x, y]"
    and "plain_op opc = lower_simpleBinary opc" "simpleBinaryOp opc = Some (op, ty)" "isGtGe opc = sw" "plain_op opc s = Inr ((), s')"
  shows "s' = (on_func (push_value c (value_in c op ty 0 AuxNil (if sw then [y, x] else [x, y]))) (s\<lparr>ls_rd := ls_rd s\<rparr>))\<lparr>ls_stack := st0 @ [nextV s]\<rparr>"
  using assms live_stateD(1) [OF s(1)] by (auto simp: lower_simpleBinary_def pops value_push split: if_splits)

lemma lowered_helper_binary:
  assumes s: "live_state c s" "ls_stack s = st0 @ [x, y]"
    and "isHelperBinary opc" "helperBinarySpec opc = Some (h, ty)" "plain_op opc s = Inr ((), s')"
  shows "s' = (on_func (push_value c (value_in c OpHelperCall ty 0 (AuxString h) [x, y])) (s\<lparr>ls_rd := ls_rd s\<rparr>))\<lparr>ls_stack := st0 @ [nextV s]\<rparr>"
  using assms live_stateD(1) [OF s(1)] by (simp add: plain_group lower_helperBinary_def pops value_push)

lemma lowered_helper_unary:
  assumes s: "live_state c s" "ls_stack s = st0 @ [x]"
    and "isHelperUnary opc" "helperUnarySpec opc = Some (h, ty)" "plain_op opc s = Inr ((), s')"
  shows "s' = (on_func (push_value c (value_in c OpHelperCall ty 0 (AuxString h) [x])) (s\<lparr>ls_rd := ls_rd s\<rparr>))\<lparr>ls_stack := st0 @ [nextV s]\<rparr>"
  using assms live_stateD(1) [OF s(1)] by (simp add: plain_group lower_helperUnary_def pops value_push)

lemma lowered_bin:
  assumes s: "live_state c s" "ls_stack s = st0 @ [x, y]" "base \<le> length st0"
  shows "plain_op (bin32_code b) s = Inr ((), s') \<Longrightarrow> plain_result c base (WBin32 b) (ls_rd s) s s'"
    and "plain_op (bin64_code b) s = Inr ((), s') \<Longrightarrow> plain_result c base (WBin64 b) (ls_rd s) s s'"
proof -
  note live = live_stateD(5) [OF s(1)] and res = pushes_result [OF s]
  assume run: "plain_op (bin32_code b) s = Inr ((), s')"
  show "plain_result c base (WBin32 b) (ls_rd s) s s'"
  proof (cases "bin_helper b")
    case None
    note r = lowered_binary_op [OF s(1,2) plain_group(2) [OF plain_simple_binary(1) [OF None]] bin_lookup(1) [OF None] refl run]
    show ?thesis
      by (rule res [OF _ _ _ r]) (use bin_op_ok [OF None] swapped(1) [OF None] does_bin(1) [OF _ live None] in simp_all)
  next
    case (Some hh)
    obtain h h' where h: "bin_helper b = Some (h, h')" using Some by (cases hh) simp
    note r = lowered_helper_binary [OF s(1,2) plain_helper_binary(1,2) [OF h] run]
    show ?thesis by (rule res [OF _ _ _ r does_helper_binary(1) [OF _ live h]]) simp_all
  qed
next
  note live = live_stateD(5) [OF s(1)] and res = pushes_result [OF s]
  assume run: "plain_op (bin64_code b) s = Inr ((), s')"
  show "plain_result c base (WBin64 b) (ls_rd s) s s'"
  proof (cases "bin_helper b")
    case None
    note r = lowered_binary_op [OF s(1,2) plain_group(2) [OF plain_simple_binary(2) [OF None]] bin_lookup(2) [OF None] refl run]
    show ?thesis
      by (rule res [OF _ _ _ r]) (use bin_op_ok [OF None] swapped(2) [OF None] does_bin(2) [OF _ live None] in simp_all)
  next
    case (Some hh)
    obtain h h' where h: "bin_helper b = Some (h, h')" using Some by (cases hh) simp
    note r = lowered_helper_binary [OF s(1,2) plain_helper_binary(3,4) [OF h] run]
    show ?thesis by (rule res [OF _ _ _ r does_helper_binary(2) [OF _ live h]]) simp_all
  qed
qed

lemma lowered_rel:
  assumes s: "live_state c s" "ls_stack s = st0 @ [x, y]" "base \<le> length st0"
  shows "plain_op (rel32_code r) s = Inr ((), s') \<Longrightarrow> plain_result c base (WRel32 r) (ls_rd s) s s'"
    and "plain_op (rel64_code r) s = Inr ((), s') \<Longrightarrow> plain_result c base (WRel64 r) (ls_rd s) s s'"
proof -
  note live = live_stateD(5) [OF s(1)] and res = pushes_result [OF s]
  assume run: "plain_op (rel32_code r) s = Inr ((), s')"
  note st = lowered_binary_op [OF s(1,2) plain_group(2) [OF plain_simple_binary(3)] rel_lookup(1) swapped(3) run]
  show "plain_result c base (WRel32 r) (ls_rd s) s s'"
    by (rule res [OF _ _ _ st does_rel(1) [OF _ live]]) (use rel_op_ok [of r] in simp_all)
next
  note live = live_stateD(5) [OF s(1)] and res = pushes_result [OF s]
  assume run: "plain_op (rel64_code r) s = Inr ((), s')"
  note st = lowered_binary_op [OF s(1,2) plain_group(2) [OF plain_simple_binary(4)] rel_lookup(2) swapped(4) run]
  show "plain_result c base (WRel64 r) (ls_rd s) s s'"
    by (rule res [OF _ _ _ st does_rel(2) [OF _ live]]) (use rel_op_ok [of r] in simp_all)
qed

lemma lowered_un:
  assumes s: "live_state c s" "ls_stack s = st0 @ [x]" "base \<le> length st0"
  shows "plain_op (un32_code u) s = Inr ((), s') \<Longrightarrow> plain_result c base (WUn32 u) (ls_rd s) s s'"
    and "plain_op (un64_code u) s = Inr ((), s') \<Longrightarrow> plain_result c base (WUn64 u) (ls_rd s) s s'"
    and "plain_op (cvt_code cv) s = Inr ((), s') \<Longrightarrow> plain_result c base (WCvt cv) (ls_rd s) s s'"
proof -
  note live = live_stateD(5) [OF s(1)] and res = pushes_result [OF s] and st = lowered_helper_unary [OF s(1,2)]
  show "plain_op (un32_code u) s = Inr ((), s') \<Longrightarrow> plain_result c base (WUn32 u) (ls_rd s) s s'"
    by (rule res [OF _ _ _ st [OF plain_helper_unary(1,2)] does_unary(1) [OF _ live]]) simp_all
  show "plain_op (un64_code u) s = Inr ((), s') \<Longrightarrow> plain_result c base (WUn64 u) (ls_rd s) s s'"
    by (rule res [OF _ _ _ st [OF plain_helper_unary(3,4)] does_unary(2) [OF _ live]]) simp_all
  show "plain_op (cvt_code cv) s = Inr ((), s') \<Longrightarrow> plain_result c base (WCvt cv) (ls_rd s) s s'"
    by (rule res [OF _ _ _ st [OF plain_helper_cvt] does_unary(3) [OF _ live]]) simp_all
qed

lemma plain_op_single:
  "plain_op 0x45 = lower_eqz 0x45" "plain_op 0x50 = lower_eqz 0x50" "plain_op 0x20 = lower_localGet" "plain_op 0x21 = lower_localSet"
  "plain_op 0x22 = lower_localTee" "plain_op 0x41 = lbind (lread irReadS32) (\<lambda>v. lbind (lconst32 v) lpush)"
  "plain_op 0x42 = lbind (lread irReadS64) (\<lambda>v. lbind (lconst64 v) lpush)" "plain_op 0x23 = lower_globalGet"
  "plain_op 0x24 = lower_globalSet" "plain_op 0x3f = lower_memSize" "plain_op 0x40 = lower_memGrow" "plain_op 0x01 = lret ()"
  "plain_op 0x1a = lbind lpop (\<lambda>_. lret ())" 
  "plain_op 0x43 = lbind (lread irReadF32) (\<lambda>v. lbind (lvalue OpConstF32 TypeF32 (ucast v) []) lpush)"
  "plain_op 0x44 = lbind (lread irReadF64) (\<lambda>v. lbind (lvalue OpConstF64 TypeF64 v []) lpush)" "plain_op 0xfc = handleFCOp"
proof -
  have "0x3e < unat opc \<Longrightarrow> \<not> isMemoryOp opc" "unat opc < 0x28 \<Longrightarrow> \<not> isMemoryOp opc" for opc
    using memory_range [of opc] by (auto simp: between_def)
  moreover have "\<not> isSimpleBinary opc" if "unat opc < 0x46 \<or> opc = 0x50 \<or> opc = 0xfc" for opc
    using simple_binary_range [of opc] that by (auto simp: between_def)
  moreover have "\<not> isHelperBinary opc" if "unat opc < 0x5b \<or> opc = 0xfc" for opc
    using helper_binary_range [of opc] that by (auto simp: between_def)
  moreover have "\<not> isHelperUnary opc" if "unat opc < 0x67 \<or> opc = 0xfc" for opc
    using helper_unary_range [of opc] that by (auto simp: between_def)
  ultimately show
    "plain_op 0x45 = lower_eqz 0x45" "plain_op 0x50 = lower_eqz 0x50" "plain_op 0x20 = lower_localGet" "plain_op 0x21 = lower_localSet"
    "plain_op 0x22 = lower_localTee" "plain_op 0x41 = lbind (lread irReadS32) (\<lambda>v. lbind (lconst32 v) lpush)"
    "plain_op 0x42 = lbind (lread irReadS64) (\<lambda>v. lbind (lconst64 v) lpush)" "plain_op 0x23 = lower_globalGet"
    "plain_op 0x24 = lower_globalSet" "plain_op 0x3f = lower_memSize" "plain_op 0x40 = lower_memGrow" "plain_op 0x01 = lret ()"
    "plain_op 0x1a = lbind lpop (\<lambda>_. lret ())" 
    "plain_op 0x43 = lbind (lread irReadF32) (\<lambda>v. lbind (lvalue OpConstF32 TypeF32 (ucast v) []) lpush)"
    "plain_op 0x44 = lbind (lread irReadF64) (\<lambda>v. lbind (lvalue OpConstF64 TypeF64 v []) lpush)" "plain_op 0xfc = handleFCOp"
    by (simp_all add: plain_op_def OpPrefixFC_def)
qed

lemma read_bind: "p (ls_rd s) = Inr (x, rest) \<Longrightarrow> lbind (lread p) f s = f x (s\<lparr>ls_rd := rest\<rparr>)"
  by (simp add: lbind_def lread_def)

lemma get_bind: "lbind (lget g) f s = f (g s) s"
  by (simp add: lbind_def lget_def)

lemma then_check: "lthen (lcheck b e) m s = (if b then m s else Inl e)"
  by (simp add: lthen_def lbind_def lcheck_def lret_def lfail_def)

lemma then_modify: "lthen (lmodify g) m s = m (g s)"
  by (simp add: lthen_def lbind_def lmodify_def)

lemma nth_bind: "lbind (lnth xs i) f s = (if i < length xs then f (xs ! i) s else Inl (Panic ''index out of range''))"
  by (simp add: lbind_def lnth_def lret_def lfail_def)

lemma locals_run: "llocals ls s = Inr ((), s\<lparr>ls_locals := ls\<rparr>)"
  by (simp add: llocals_def lmodify_def)

lemma live_rd: "live_state c s \<Longrightarrow> live_state c (s\<lparr>ls_rd := rd\<rparr>)"
  by (simp add: live_state_def)

lemma lowered_eqz:
  assumes s: "live_state c s" "ls_stack s = st0 @ [x]" "base \<le> length st0"
  shows "plain_op 0x45 s = Inr ((), s') \<Longrightarrow> plain_result c base WEqz32 (ls_rd s) s s'"
    and "plain_op 0x50 s = Inr ((), s') \<Longrightarrow> plain_result c base WEqz64 (ls_rd s) s s'"
proof -
  have cur: "cur (ls_b s) = Some c" and lt: "x < nextV s" "ids_lt (nextV s) (ls_locals s)" "ids_lt (nextV s) (ls_stack s)"
    using s(1,2) by (simp_all add: live_state_def)
  note res = plain_resultI [OF s(2,3), where new = "[Suc (nextV s)]" and locs = "ls_locals s" and s' = s']
  have push: "lbind (lconst32 0) f s = f (nextV s) (on_func (push_value c (value_in c OpConst32 TypeI32 0 AuxNil [])) s)"
      "lbind (lconst64 0) f s = f (nextV s) (on_func (push_value c (value_in c OpConst64 TypeI64 0 AuxNil [])) s)"
    if "cur (ls_b s) = Some c" for f :: "nat \<Rightarrow> unit low" and s
    using lvalue_run(3,4) [OF that, of 0] by (simp_all add: lbind_def)
  assume "plain_op 0x45 s = Inr ((), s')"
  then have "s' = appended c [value_in c OpConst32 TypeI32 0 AuxNil [], value_in c OpEq32 TypeBool 0 AuxNil [x, nextV s]]
      (st0 @ [Suc (nextV s)]) (ls_locals s) (ls_rd s) s"
    using s(2) cur by (auto simp: plain_op_single lower_eqz_def pops push value_push appended_simps on_func_same)
  then show "plain_result c base WEqz32 (ls_rd s) s s'"
    by (rule res [rotated 2]) (use lt does_eqz(1) in \<open>auto elim: ids_lt_mono\<close>)
next
  have cur: "cur (ls_b s) = Some c" and lt: "x < nextV s" "ids_lt (nextV s) (ls_locals s)" "ids_lt (nextV s) (ls_stack s)"
    using s(1,2) by (simp_all add: live_state_def)
  note res = plain_resultI [OF s(2,3), where new = "[Suc (nextV s)]" and locs = "ls_locals s" and s' = s']
  have push: "lbind (lconst64 0) f s = f (nextV s) (on_func (push_value c (value_in c OpConst64 TypeI64 0 AuxNil [])) s)"
    if "cur (ls_b s) = Some c" for f :: "nat \<Rightarrow> unit low" and s
    using lvalue_run(4) [OF that, of 0] by (simp add: lbind_def)
  assume "plain_op 0x50 s = Inr ((), s')"
  then have "s' = appended c [value_in c OpConst64 TypeI64 0 AuxNil [], value_in c OpEq64 TypeBool 0 AuxNil [x, nextV s]]
      (st0 @ [Suc (nextV s)]) (ls_locals s) (ls_rd s) s"
    using s(2) cur by (auto simp: plain_op_single lower_eqz_def pops push value_push appended_simps on_func_same)
  then show "plain_result c base WEqz64 (ls_rd s) s s'"
    by (rule res [rotated 2]) (use lt does_eqz(2) in \<open>auto elim: ids_lt_mono\<close>)
qed

lemma lowered_load:
  assumes s: "live_state c s" "ls_stack s = st0 @ [x]" "base \<le> length st0" and rd: "irReadMemArg (ls_rd s) = Inr ((al, off), rest)"
    and run: "plain_op (load_code l) s = Inr ((), s')"
  shows "plain_result c base (WLoad l off) rest s s'"
proof -
  have st: "s' = (on_func (push_value c (value_in c (fst (load_op l)) (snd (load_op l)) off AuxNil [x])) (s\<lparr>ls_rd := rest\<rparr>))\<lparr>ls_stack := st0 @ [nextV s]\<rparr>"
    using run rd s(2) live_stateD(1) [OF s(1)]
    by (simp add: plain_group plain_load handleMemoryOp_def read_bind pops value_push)
  show ?thesis
    by (rule pushes_result [OF s _ _ _ st does_access(1) [OF _ live_stateD(5) [OF s(1)]]]) (use load_op_ok in simp_all)
qed

lemma lowered_store:
  assumes s: "live_state c s" "ls_stack s = st0 @ [x, y]" "base \<le> length st0" and rd: "irReadMemArg (ls_rd s) = Inr ((al, off), rest)"
    and run: "plain_op (store_code t) s = Inr ((), s')"
  shows "plain_result c base (WStore t off) rest s s'"
proof -
  have st: "s' = (on_func (push_value c (value_in c (store_op t) TypeMem off AuxNil [x, y])) (s\<lparr>ls_rd := rest\<rparr>))\<lparr>ls_stack := st0\<rparr>"
    using run rd s(2) live_stateD(1) [OF s(1)] plain_store [of t]
    by (simp add: plain_group handleMemoryOp_def Let_def read_bind pops value_push)
  show ?thesis
    by (rule effect_result [OF s _ _ _ st does_access(2) [OF _ live_stateD(5) [OF s(1)]]]) (use load_op_ok in simp_all)
qed

lemma lowered_const:
  assumes s: "live_state c s" "base \<le> length (ls_stack s)"
  shows "irReadS32 (ls_rd s) = Inr (x, rest) \<Longrightarrow> plain_op 0x41 s = Inr ((), s') \<Longrightarrow> plain_result c base (WConst32 x) rest s s'"
    and "irReadS64 (ls_rd s) = Inr (y, rest) \<Longrightarrow> plain_op 0x42 s = Inr ((), s') \<Longrightarrow> plain_result c base (WConst64 y) rest s s'"
    and "irReadF32 (ls_rd s) = Inr (u, rest) \<Longrightarrow> plain_op 0x43 s = Inr ((), s') \<Longrightarrow> plain_result c base (WConstF32 u) rest s s'"
    and "irReadF64 (ls_rd s) = Inr (v, rest) \<Longrightarrow> plain_op 0x44 s = Inr ((), s') \<Longrightarrow> plain_result c base (WConstF64 v) rest s s'"
    and "irReadU32 (ls_rd s) = Inr (g, rest) \<Longrightarrow> plain_op 0x23 s = Inr ((), s') \<Longrightarrow> plain_result c base (WGlobalGet g) rest s s'"
    and "irReadByte (ls_rd s) = Inr (b, rest) \<Longrightarrow> plain_op 0x3f s = Inr ((), s') \<Longrightarrow> plain_result c base WMemSize rest s s'"
proof -
  note live = live_stateD(5) [OF s(1)] and cur = live_stateD(1,3) [OF s(1)]
  have res: "plain_result c base i rd s s'"
    if "fst (plain_arity i) = 0" "snd (plain_arity i) = 1" "op \<notin> {OpPhi, OpInvalid}"
      "s' = (on_func (push_value c (value_in c op ty k aux [])) (s\<lparr>ls_rd := rd\<rparr>))\<lparr>ls_stack := ls_stack s @ [nextV s]\<rparr>"
      "\<And>st. ids_lt (nextV s) st \<Longrightarrow> does i (nextV s) [value_in c op ty k aux []] st (ls_locals s) (st @ [nextV s]) (ls_locals s)"
    for i op ty k aux rd
    by (rule pushes_result [OF s(1) append_Nil2 [symmetric] s(2) _ _ _ that(4)]) (use that in simp_all)
  show "irReadS32 (ls_rd s) = Inr (x, rest) \<Longrightarrow> plain_op 0x41 s = Inr ((), s') \<Longrightarrow> plain_result c base (WConst32 x) rest s s'"
    by (rule res [OF _ _ _ _ does_const(1) [OF _ live]]) (use cur in \<open>simp_all add: plain_op_single read_bind value_push\<close>)
  show "irReadS64 (ls_rd s) = Inr (y, rest) \<Longrightarrow> plain_op 0x42 s = Inr ((), s') \<Longrightarrow> plain_result c base (WConst64 y) rest s s'"
    by (rule res [OF _ _ _ _ does_const(2) [OF _ live]]) (use cur in \<open>simp_all add: plain_op_single read_bind value_push\<close>)
  show "irReadF32 (ls_rd s) = Inr (u, rest) \<Longrightarrow> plain_op 0x43 s = Inr ((), s') \<Longrightarrow> plain_result c base (WConstF32 u) rest s s'"
    by (rule res [OF _ _ _ _ does_const(3) [OF _ live]]) (use cur in \<open>simp_all add: plain_op_single read_bind value_push\<close>)
  show "irReadF64 (ls_rd s) = Inr (v, rest) \<Longrightarrow> plain_op 0x44 s = Inr ((), s') \<Longrightarrow> plain_result c base (WConstF64 v) rest s s'"
    by (rule res [OF _ _ _ _ does_const(4) [OF _ live]]) (use cur in \<open>simp_all add: plain_op_single read_bind value_push\<close>)
  show "irReadByte (ls_rd s) = Inr (b, rest) \<Longrightarrow> plain_op 0x3f s = Inr ((), s') \<Longrightarrow> plain_result c base WMemSize rest s s'"
    by (rule res [OF _ _ _ _ does_const(6) [OF _ live, where ty = TypeI32 and k = 0]]) (use cur in \<open>simp_all add: addrType_def plain_op_single lower_memSize_def read_bind get_bind value_push\<close>)
  assume g: "irReadU32 (ls_rd s) = Inr (g, rest)" and run: "plain_op 0x23 s = Inr ((), s')"
  have "globalType (ls_mod s) g \<noteq> TypeInvalid" using run g by (auto simp: plain_op_single lower_globalGet_def read_bind get_bind unsupported_def lfail_def)
  then have st: "s' = (on_func (push_value c (value_in c OpGlobalGet (globalType (ls_mod s) g) (ucast g) AuxNil [])) (s\<lparr>ls_rd := rest\<rparr>))\<lparr>ls_stack := ls_stack s @ [nextV s]\<rparr>"
    using run g cur by (simp add: plain_op_single lower_globalGet_def read_bind get_bind value_push)
  show "plain_result c base (WGlobalGet g) rest s s'"
    by (rule res [OF _ _ _ st does_const(5) [OF _ live]]) simp_all
qed

lemma lowered_local:
  assumes s: "live_state c s" and g: "irReadU32 (ls_rd s) = Inr (g, rest)"
  shows "base \<le> length (ls_stack s) \<Longrightarrow> plain_op 0x20 s = Inr ((), s') \<Longrightarrow> plain_result c base (WLocalGet g) rest s s'"
    and "ls_stack s = st0 @ [x] \<Longrightarrow> base \<le> length st0 \<Longrightarrow> plain_op 0x21 s = Inr ((), s') \<Longrightarrow> plain_result c base (WLocalSet g) rest s s'"
    and "ls_stack s = st0 @ [x] \<Longrightarrow> base \<le> length st0 \<Longrightarrow> plain_op 0x22 s = Inr ((), s') \<Longrightarrow> plain_result c base (WLocalTee g) rest s s'"
proof -
  note live = live_stateD [OF s]
  have run_get: "plain_op 0x20 s = Inr ((), s') \<Longrightarrow> unat g < length (ls_locals s) \<and>
      s' = s\<lparr>ls_rd := rest, ls_stack := ls_stack s @ [ls_locals s ! unat g], ls_locals := ls_locals s\<rparr>"
    using g live(2,6) by (auto simp: plain_op_single lower_localGet_def read_bind get_bind then_check nth_bind lpush_run split: if_splits)
  have run_set: "plain_op 0x21 s = Inr ((), s') \<Longrightarrow> ls_stack s = st0 @ [x] \<Longrightarrow> unat g < length (ls_locals s) \<and>
      s' = s\<lparr>ls_rd := rest, ls_stack := st0 @ [], ls_locals := (ls_locals s)[unat g := x]\<rparr>"
    using g live(2,6) by (auto simp: plain_op_single lower_localSet_def read_bind get_bind then_check nth_bind pops locals_run split: if_splits)
  have run_tee: "plain_op 0x22 s = Inr ((), s') \<Longrightarrow> ls_stack s = st0 @ [x] \<Longrightarrow> unat g < length (ls_locals s) \<and>
      s' = s\<lparr>ls_rd := rest, ls_stack := ls_stack s, ls_locals := (ls_locals s)[unat g := x]\<rparr>"
    using g live(2,6) by (auto simp: plain_op_single lower_localTee_def read_bind get_bind then_check nth_bind locals_run split: if_splits)
  show "base \<le> length (ls_stack s) \<Longrightarrow> plain_op 0x20 s = Inr ((), s') \<Longrightarrow> plain_result c base (WLocalGet g) rest s s'"
    by (rule names_result [OF s append_Nil2 [symmetric] _ _ _ conjunct2 [OF run_get]])
      (use run_get live in \<open>auto simp: ids_lt_nth does_names(3)\<close>)
  show "ls_stack s = st0 @ [x] \<Longrightarrow> base \<le> length st0 \<Longrightarrow> plain_op 0x21 s = Inr ((), s') \<Longrightarrow> plain_result c base (WLocalSet g) rest s s'"
    by (rule names_result [OF s _ _ _ _ conjunct2 [OF run_set]]) (use run_set live in \<open>auto simp: ids_lt_update does_names(4)\<close>)
  assume st: "ls_stack s = st0 @ [x]" "base \<le> length st0" and run: "plain_op 0x22 s = Inr ((), s')"
  have "s' = s\<lparr>ls_rd := rest, ls_stack := st0 @ [x], ls_locals := (ls_locals s)[unat g := x]\<rparr>" using run_tee [OF run st(1)] st(1) by simp
  then show "plain_result c base (WLocalTee g) rest s s'"
    by (rule names_result [OF s st, where new = "[x]" and locs = "(ls_locals s)[unat g := x]", rotated 2]) (use run_tee [OF run st(1)] live st(1) in \<open>auto simp: ids_lt_update does_names(5)\<close>)
qed

lemma lowered_simple:
  assumes s: "live_state c s"
  shows "base \<le> length (ls_stack s) \<Longrightarrow> plain_op 0x01 s = Inr ((), s') \<Longrightarrow> plain_result c base WNop (ls_rd s) s s'"
    and "ls_stack s = st0 @ [x] \<Longrightarrow> base \<le> length st0 \<Longrightarrow> plain_op 0x1a s = Inr ((), s') \<Longrightarrow> plain_result c base WDrop (ls_rd s) s s'"
proof -
  note live = live_stateD [OF s]
  show "base \<le> length (ls_stack s) \<Longrightarrow> plain_op 0x01 s = Inr ((), s') \<Longrightarrow> plain_result c base WNop (ls_rd s) s s'"
    by (rule names_result [OF s append_Nil2 [symmetric], where new = "[]" and locs = "ls_locals s"])
      (use live in \<open>auto simp: plain_op_single lret_def does_names(1)\<close>)
  show "ls_stack s = st0 @ [x] \<Longrightarrow> base \<le> length st0 \<Longrightarrow> plain_op 0x1a s = Inr ((), s') \<Longrightarrow> plain_result c base WDrop (ls_rd s) s s'"
    by (rule names_result [OF s, where new = "[]" and locs = "ls_locals s"])
      (use live in \<open>auto simp: plain_op_single pops lret_def does_names(2)\<close>)
qed

lemma lowered_effects:
  assumes s: "live_state c s" "ls_stack s = st0 @ [x]" "base \<le> length st0"
  shows "irReadU32 (ls_rd s) = Inr (g, rest) \<Longrightarrow> plain_op 0x24 s = Inr ((), s') \<Longrightarrow> plain_result c base (WGlobalSet g) rest s s'"
    and "irReadByte (ls_rd s) = Inr (b, rest) \<Longrightarrow> plain_op 0x40 s = Inr ((), s') \<Longrightarrow> plain_result c base WMemGrow rest s s'"
proof -
  note live = live_stateD [OF s(1)]
  show "irReadU32 (ls_rd s) = Inr (g, rest) \<Longrightarrow> plain_op 0x24 s = Inr ((), s') \<Longrightarrow> plain_result c base (WGlobalSet g) rest s s'"
    by (rule effect_result [OF s _ _ _ _ does_bulk(6) [OF _ live(5)]]) (use live s in \<open>simp_all add: plain_op_single lower_globalSet_def read_bind pops value_push\<close>)
  show "irReadByte (ls_rd s) = Inr (b, rest) \<Longrightarrow> plain_op 0x40 s = Inr ((), s') \<Longrightarrow> plain_result c base WMemGrow rest s s'"
    by (rule pushes_result [OF s _ _ _ _ does_bulk(1) [OF _ live(5), where ty = TypeI32]])
      (use live s in \<open>simp_all add: plain_op_single lower_memGrow_def addrType_def read_bind get_bind pops value_push\<close>)
qed

lemma lowered_bulk:
  assumes s: "live_state c s" "ls_stack s = st0 @ [x, y, z]" "base \<le> length st0" and sub: "irReadU32 (ls_rd s) = Inr (sub, bs)"
  shows "sub = 10 \<Longrightarrow> irReadByte bs = Inr (b, bs') \<Longrightarrow> irReadByte bs' = Inr (b', rest) \<Longrightarrow> plain_op 0xfc s = Inr ((), s') \<Longrightarrow>
      plain_result c base WMemCopy rest s s'"
    and "sub = 11 \<Longrightarrow> irReadByte bs = Inr (b, rest) \<Longrightarrow> plain_op 0xfc s = Inr ((), s') \<Longrightarrow> plain_result c base WMemFill rest s s'"
    and "sub = 8 \<Longrightarrow> irReadU32 bs = Inr (g, bs') \<Longrightarrow> irReadByte bs' = Inr (b', rest) \<Longrightarrow> plain_op 0xfc s = Inr ((), s') \<Longrightarrow>
      plain_result c base (WMemInit g) rest s s'"
proof -
  note live = live_stateD [OF s(1)]
  note defs = plain_op_single handleFCOp_def read_bind [where p = irReadU32] read_bind [where p = irReadByte] pops value_push
  show "sub = 10 \<Longrightarrow> irReadByte bs = Inr (b, bs') \<Longrightarrow> irReadByte bs' = Inr (b', rest) \<Longrightarrow> plain_op 0xfc s = Inr ((), s') \<Longrightarrow>
      plain_result c base WMemCopy rest s s'"
    by (rule effect_result [OF s _ _ _ _ does_bulk(2) [OF _ live(5)]]) (use live s sub in \<open>simp_all add: defs\<close>)
  show "sub = 11 \<Longrightarrow> irReadByte bs = Inr (b, rest) \<Longrightarrow> plain_op 0xfc s = Inr ((), s') \<Longrightarrow> plain_result c base WMemFill rest s s'"
    by (rule effect_result [OF s _ _ _ _ does_bulk(3) [OF _ live(5)]]) (use live s sub in \<open>simp_all add: defs\<close>)
  show "sub = 8 \<Longrightarrow> irReadU32 bs = Inr (g, bs') \<Longrightarrow> irReadByte bs' = Inr (b', rest) \<Longrightarrow> plain_op 0xfc s = Inr ((), s') \<Longrightarrow>
      plain_result c base (WMemInit g) rest s s'"
    by (rule effect_result [OF s _ _ _ _ does_bulk(4) [OF _ live(5)]]) (use live s sub in \<open>simp_all add: defs\<close>)
qed

lemma lowered_data_drop:
  assumes s: "live_state c s" "base \<le> length (ls_stack s)" and "irReadU32 (ls_rd s) = Inr (9, bs)" "irReadU32 bs = Inr (g, rest)"
    and "plain_op 0xfc s = Inr ((), s')"
  shows "plain_result c base (WDataDrop g) rest s s'"
proof -
  note live = live_stateD [OF s(1)]
  have "s' = on_func (push_value c (value_in c OpDataDrop TypeMem (ucast g) AuxNil [])) (s\<lparr>ls_rd := rest\<rparr>)"
    using assms live by (simp add: plain_op_single handleFCOp_def read_bind value_push)
  then have "s' = (on_func (push_value c (value_in c OpDataDrop TypeMem (ucast g) AuxNil [])) (s\<lparr>ls_rd := rest\<rparr>))\<lparr>ls_stack := ls_stack s\<rparr>"
    by (simp add: on_func_same)
  then show ?thesis
    by (rule effect_result [OF s(1) append_Nil2 [symmetric] s(2), rotated 3])
      (use does_bulk(5) [OF _ live(5)] in simp_all)
qed

section \<open>All of them\<close>

lemma split_stack:
  "Suc base \<le> length xs \<Longrightarrow> \<exists>st0 x. xs = st0 @ [x] \<and> base \<le> length st0"
  "Suc (Suc base) \<le> length xs \<Longrightarrow> \<exists>st0 x y. xs = st0 @ [x, y] \<and> base \<le> length st0"
  "Suc (Suc (Suc base)) \<le> length xs \<Longrightarrow> \<exists>st0 x y z. xs = st0 @ [x, y, z] \<and> base \<le> length st0"
proof -
  have one: "\<exists>st0 x. ys = st0 @ [x] \<and> k \<le> length st0" if "Suc k \<le> length ys" for k and ys :: "'a list"
    using that by (intro exI [of _ "butlast ys"] exI [of _ "last ys"]) (cases ys rule: rev_cases; auto)
  then show "Suc base \<le> length xs \<Longrightarrow> \<exists>st0 x. xs = st0 @ [x] \<and> base \<le> length st0" .
  have two: "\<exists>st0 x y. ys = st0 @ [x, y] \<and> k \<le> length st0" if l: "Suc (Suc k) \<le> length ys" for k and ys :: "'a list"
  proof -
    obtain st y where "ys = st @ [y]" "Suc k \<le> length st" using one [OF l] by blast
    moreover obtain st0 x where "st = st0 @ [x]" "k \<le> length st0" using one [OF calculation(2)] by blast
    ultimately show ?thesis by auto
  qed
  then show "Suc (Suc base) \<le> length xs \<Longrightarrow> \<exists>st0 x y. xs = st0 @ [x, y] \<and> base \<le> length st0" .
  assume l: "Suc (Suc (Suc base)) \<le> length xs"
  obtain st z where "xs = st @ [z]" "Suc (Suc base) \<le> length st" using one [OF l] by blast
  moreover obtain st0 x y where "st = st0 @ [x, y]" "base \<le> length st0" using two [OF calculation(2)] by blast
  ultimately show "\<exists>st0 x y z. xs = st0 @ [x, y, z] \<and> base \<le> length st0" by auto
qed

lemma plain_lowered:
  assumes i: "plain_code i = Some (opc, rd)" "rd (ls_rd s) = Inr (i, rest)" and s: "live_state c s"
    and h: "base + fst (plain_arity i) \<le> length (ls_stack s)" and run: "plain_op opc s = Inr ((), s')"
  shows "plain_result c base i rest s s'"
proof (cases "fst (plain_arity i)")
  case 0
  then have b: "base \<le> length (ls_stack s)" using h by simp
  show ?thesis using i run 0
    by (cases i) (auto simp: pbind_eq pret_def discarding_def pguard_def split: if_splits prod.splits
        intro: lowered_const [OF s b] lowered_local(1) [OF s _ b] lowered_simple(1) [OF s b] lowered_data_drop [OF s b])
next
  case (Suc k)
  note readers = pbind_eq pret_def discarding_def pguard_def
  consider (one) "fst (plain_arity i) = 1" | (two) "fst (plain_arity i) = 2" | (three) "fst (plain_arity i) = 3"
    using Suc by (cases i) auto
  then show ?thesis
  proof cases
    case one
    then obtain st0 x where st: "ls_stack s = st0 @ [x]" "base \<le> length st0" using h split_stack(1) [of base "ls_stack s"] by auto
    show ?thesis using i run one
      by (cases i) (auto simp: readers split: if_splits prod.splits
          intro: lowered_un [OF s st] lowered_eqz [OF s st] lowered_load [OF s st] lowered_local(2,3) [OF s _ st]
            lowered_simple(2) [OF s st] lowered_effects [OF s st])
  next
    case two
    then obtain st0 x y where st: "ls_stack s = st0 @ [x, y]" "base \<le> length st0" using h split_stack(2) [of base "ls_stack s"] by auto
    show ?thesis using i run two
      by (cases i) (auto simp: readers split: if_splits prod.splits
          intro: lowered_bin [OF s st] lowered_rel [OF s st] lowered_store [OF s st])
  next
    case three
    then obtain st0 x y z where st: "ls_stack s = st0 @ [x, y, z]" "base \<le> length st0" using h split_stack(3) [of base "ls_stack s"] by auto
    show ?thesis using i run three
      by (cases i) (auto simp: readers split: if_splits prod.splits intro: lowered_bulk [OF s st])
  qed
qed

end
