(* ===== verification/LowerGrow.thy ===== *)
theory LowerGrow
  imports LowerPlain "HOL-Library.Sublist"
begin

text \<open>
  How the function under construction grows, and what of it a later version keeps: the code of the
  blocks that are closed, and of the open ones what has been appended so far.
\<close>

section \<open>Growth\<close>

text \<open>
  \<open>Q\<close> holds the blocks of \<open>f\<close> whose code may still change, \<open>P\<close> those that may still get phis at their
  start: join blocks that control has not entered. Only a phi gets more operands and a block more
  predecessors.
\<close>

definition same_code :: "Block \<Rightarrow> Block \<Rightarrow> bool" where
  "same_code a b \<longleftrightarrow> b\<lparr>Preds := Preds a\<rparr> = a"

definition grows :: "nat set \<Rightarrow> nat set \<Rightarrow> Func \<Rightarrow> Func \<Rightarrow> bool" where
  "grows Q P f F \<longleftrightarrow>
     Sig F = Sig f \<and> Entry F = Entry f \<and> nextValueID f \<le> nextValueID F \<and> nextBlockID f \<le> nextBlockID F \<and>
     (\<forall>i < nextValueID f. vOp (fval F i) = vOp (fval f i) \<and> prefix (vArgs (fval f i)) (vArgs (fval F i)) \<and>
        (vOp (fval f i) \<noteq> OpPhi \<longrightarrow> fval F i = fval f i)) \<and>
     (\<forall>b < nextBlockID f. prefix (Values (fblk f b)) (Values (fblk F b)) \<and> prefix (Preds (fblk f b)) (Preds (fblk F b)) \<and>
        (b \<notin> Q \<longrightarrow> same_code (fblk f b) (fblk F b)) \<and> (b \<notin> P \<longrightarrow> header_phis F b = header_phis f b))"

lemma growsI:
  assumes "Sig F = Sig f" "Entry F = Entry f" "nextValueID f \<le> nextValueID F" "nextBlockID f \<le> nextBlockID F"
    and "\<And>i. i < nextValueID f \<Longrightarrow> vOp (fval F i) = vOp (fval f i) \<and> prefix (vArgs (fval f i)) (vArgs (fval F i)) \<and>
        (vOp (fval f i) \<noteq> OpPhi \<longrightarrow> fval F i = fval f i)"
    and "\<And>b. b < nextBlockID f \<Longrightarrow> prefix (Values (fblk f b)) (Values (fblk F b)) \<and> prefix (Preds (fblk f b)) (Preds (fblk F b))"
    and "\<And>b. b < nextBlockID f \<Longrightarrow> b \<notin> Q \<Longrightarrow> same_code (fblk f b) (fblk F b)"
    and "\<And>b. b < nextBlockID f \<Longrightarrow> b \<notin> P \<Longrightarrow> header_phis F b = header_phis f b"
  shows "grows Q P f F"
  using assms unfolding grows_def by blast

lemma growsD:
  assumes "grows Q P f F"
  shows "Sig F = Sig f" "Entry F = Entry f" "nextValueID f \<le> nextValueID F" "nextBlockID f \<le> nextBlockID F"
    and "i < nextValueID f \<Longrightarrow> vOp (fval F i) = vOp (fval f i)" "i < nextValueID f \<Longrightarrow> prefix (vArgs (fval f i)) (vArgs (fval F i))"
    and "i < nextValueID f \<Longrightarrow> vOp (fval f i) \<noteq> OpPhi \<Longrightarrow> fval F i = fval f i"
    and "b < nextBlockID f \<Longrightarrow> prefix (Values (fblk f b)) (Values (fblk F b))"
    and "b < nextBlockID f \<Longrightarrow> prefix (Preds (fblk f b)) (Preds (fblk F b))"
    and "b < nextBlockID f \<Longrightarrow> b \<notin> Q \<Longrightarrow> same_code (fblk f b) (fblk F b)"
    and "b < nextBlockID f \<Longrightarrow> b \<notin> P \<Longrightarrow> header_phis F b = header_phis f b"
  using assms unfolding grows_def by blast+

lemma same_code_refl [simp]: "same_code a a"
  by (simp add: same_code_def)

lemma same_code_trans: "same_code a b \<Longrightarrow> same_code b c \<Longrightarrow> same_code a c"
  by (cases a; cases b; cases c) (simp add: same_code_def)

lemma terminate_Preds: "terminate sig (b\<lparr>Preds := ps\<rparr>) env st = terminate sig b env st"
proof -
  have "take_edge (b\<lparr>Preds := ps\<rparr>) j env st = take_edge b j env st" "table_target (b\<lparr>Preds := ps\<rparr>) = table_target b" for j
    by (simp_all add: take_edge_def table_target_def fun_eq_iff split: list.split)
  then show ?thesis unfolding terminate_def
    by (simp split: BlockKind.split option.split wval.split)
qed

lemma same_codeD:
  assumes "same_code a b"
  shows "Values b = Values a" "bKind b = bKind a" "Succs b = Succs a" "Control b = Control a"
    "TableCases b = TableCases a" "TableDefault b = TableDefault a" "terminate sig b env st = terminate sig a env st"
proof -
  obtain ps where a: "a = b\<lparr>Preds := ps\<rparr>" using assms unfolding same_code_def by metis
  show "Values b = Values a" "bKind b = bKind a" "Succs b = Succs a" "Control b = Control a"
    "TableCases b = TableCases a" "TableDefault b = TableDefault a" "terminate sig b env st = terminate sig a env st"
    by (simp_all add: a terminate_Preds)
qed

lemma same_codeI [intro]: "same_code b (b\<lparr>Preds := ps\<rparr>)"
  by (simp add: same_code_def)

lemma grows_refl [simp]: "grows Q P f f"
  by (rule growsI) simp_all

lemma grows_trans:
  assumes "grows Q P f g" and "grows Q' P' g F"
    and "\<And>b. b \<in> Q' \<Longrightarrow> b < nextBlockID f \<Longrightarrow> b \<in> Q" and "\<And>b. b \<in> P' \<Longrightarrow> b < nextBlockID f \<Longrightarrow> b \<in> P"
  shows "grows Q P f F"
proof (rule growsI)
  note f = growsD [OF assms(1)] and g = growsD [OF assms(2)]
  show "Sig F = Sig f" "Entry F = Entry f" "nextValueID f \<le> nextValueID F" "nextBlockID f \<le> nextBlockID F" using f(1-4) g(1-4) by simp_all
  show "vOp (fval F i) = vOp (fval f i) \<and> prefix (vArgs (fval f i)) (vArgs (fval F i)) \<and>
      (vOp (fval f i) \<noteq> OpPhi \<longrightarrow> fval F i = fval f i)" if "i < nextValueID f" for i
  proof -
    have i: "i < nextValueID g" using that f(3) by simp
    show ?thesis using f(5) [OF that] g(5) [OF i] f(7) [OF that] g(7) [OF i] prefix_order.trans [OF f(6) [OF that] g(6) [OF i]] by simp
  qed
  fix b assume b: "b < nextBlockID f"
  then have b': "b < nextBlockID g" using f(4) by simp
  have "prefix (Values (fblk f b)) (Values (fblk F b))" by (rule prefix_order.trans [OF f(8) [OF b] g(8) [OF b']])
  moreover have "prefix (Preds (fblk f b)) (Preds (fblk F b))" by (rule prefix_order.trans [OF f(9) [OF b] g(9) [OF b']])
  ultimately show "prefix (Values (fblk f b)) (Values (fblk F b)) \<and> prefix (Preds (fblk f b)) (Preds (fblk F b))" by blast
  show "same_code (fblk f b) (fblk F b)" if "b \<notin> Q"
    by (rule same_code_trans [OF f(10) [OF b that] g(10) [OF b']]) (use assms(3) [of b] b that in blast)
  show "header_phis F b = header_phis f b" if "b \<notin> P"
    using f(11) [OF b that] g(11) [OF b'] assms(4) [of b] b that by metis
qed

lemma grows_step: "grows Q P f g \<Longrightarrow> grows Q P g F \<Longrightarrow> grows Q P f F"
  by (rule grows_trans)

lemma grows_mono: "grows Q P f F \<Longrightarrow> Q \<subseteq> Q' \<Longrightarrow> P \<subseteq> P' \<Longrightarrow> grows Q' P' f F"
  by (rule grows_trans [OF grows_refl]) blast+

text \<open>The steps.\<close>

definition vals_lt :: "Func \<Rightarrow> bool" where
  "vals_lt f \<longleftrightarrow> (\<forall>b. \<forall>v \<in> set (Values (fblk f b)). v < nextValueID f)"

lemma func_inv_vals_lt: "func_inv f \<Longrightarrow> vals_lt f"
  by (auto simp: vals_lt_def func_inv_def values_inv_def)

lemma header_phis_push:
  assumes "vals_lt f"
  shows "header_phis (push_value c v f) b = header_phis f b @ (if b = c \<and> vOp v = OpPhi then [nextValueID f] else [])"
proof -
  have "filter (\<lambda>i. vOp (if i = nextValueID f then v else fval f i) = OpPhi) (Values (fblk f b)) =
      filter (\<lambda>i. vOp (fval f i) = OpPhi) (Values (fblk f b))" for b
    using assms by (intro filter_cong) (auto simp: vals_lt_def)
  then show ?thesis by (auto simp: header_phis_def)
qed

lemma vals_lt_push: "vals_lt f \<Longrightarrow> vals_lt (push_value c v f)"
  by (auto simp: vals_lt_def less_Suc_eq)

lemma grows_push:
  assumes "vals_lt f" and "c \<in> Q" and "vOp v = OpPhi \<longrightarrow> c \<in> P"
  shows "grows Q P f (push_value c v f)"
  by (rule growsI) (use assms in \<open>auto simp: header_phis_push\<close>)

lemma grows_pushes:
  assumes "vals_lt f" and "c \<in> Q" and "\<And>v. v \<in> set vs \<Longrightarrow> vOp v = OpPhi \<Longrightarrow> c \<in> P"
  shows "grows Q P f (push_values c vs f) \<and> vals_lt (push_values c vs f)"
  using assms
proof (induction vs arbitrary: f)
  case (Cons v vs)
  have 1: "grows Q P f (push_value c v f)" by (rule grows_push) (use Cons.prems in auto)
  have "grows Q P (push_value c v f) (push_values c vs (push_value c v f)) \<and> vals_lt (push_values c vs (push_value c v f))"
    by (rule Cons.IH) (use Cons.prems vals_lt_push in auto)
  then show ?case using 1 grows_step by auto
qed simp

lemma header_phis_upd_blk: "(\<And>blk. Values (g blk) = Values blk) \<Longrightarrow> header_phis (upd_blk c g f) b = header_phis f b"
  by (simp add: header_phis_def upd_blk_def)

lemma grows_upd_blk:
  assumes "c \<in> Q" and "\<And>blk. Values (g blk) = Values blk" and "\<And>blk. Preds (g blk) = Preds blk"
  shows "grows Q P f (upd_blk c g f)"
  by (rule growsI) (use assms in \<open>auto simp: upd_blk_def header_phis_def\<close>)

lemma AddEdge_code: "a \<noteq> c \<Longrightarrow> same_code (fblk f c) (fblk (AddEdge a b f) c)"
  by (auto simp: AddEdge_def upd_blk_def Let_def same_code_def)

lemma header_phis_AddEdge [simp]: "header_phis (AddEdge a b f) c = header_phis f c"
  by (simp add: header_phis_def)

lemma AddEdge_Sig [simp]: "Sig (AddEdge a b f) = Sig f"
  by (simp add: AddEdge_def upd_blk_def Let_def)

lemma grows_AddEdge:
  assumes "a \<in> Q"
  shows "grows Q P f (AddEdge a b f)"
proof (rule growsI)
  fix c assume "c \<notin> Q"
  then have "a \<noteq> c" using assms by blast
  then show "same_code (fblk f c) (fblk (AddEdge a b f) c)" by (rule AddEdge_code)
qed simp_all

lemma grows_NewBlock: "grows Q P f (snd (NewBlock k f))"
proof -
  have "Sig (snd (NewBlock k f)) = Sig f" by (simp add: NewBlock_def Let_def)
  then show ?thesis by (intro growsI) (auto simp: header_phis_def)
qed

lemma grows_arg:
  assumes "vOp (fval f p) = OpPhi"
  shows "grows Q P f (upd_val p (\<lambda>w. w\<lparr>vArgs := vArgs w @ as\<rparr>) f)"
  by (rule growsI) (use assms in \<open>auto simp: upd_val_def header_phis_def intro!: filter_cong\<close>)

section \<open>What stays\<close>

lemma grows_header: "grows Q P f F \<Longrightarrow> b < nextBlockID f \<Longrightarrow> b \<notin> P \<Longrightarrow> header_phis F b = header_phis f b"
  by (rule growsD(11))

lemma grows_fits:
  assumes F: "grows Q P (push_values c vs f) F" and "\<forall>v \<in> set vs. vOp v \<noteq> OpPhi"
  shows "fits F (nextValueID f) vs"
  unfolding fits_def
proof (intro allI impI)
  fix k assume k: "k < length vs"
  then show "fval F (nextValueID f + k) = vs ! k"
    using growsD(7) [OF F, of "nextValueID f + k"] assms(2) by (simp add: fval_push_values)
qed

text \<open>Executing what has been appended to an open block.\<close>

lemma run_pushed:
  assumes F: "grows Q P (push_values c vs f) F" and c: "c < nextBlockID f"
  shows "exec_vals sem F [nextValueID f..<nextValueID f + length vs] (env, st) = Done (env', st') \<Longrightarrow>
      leads sem F (c, length (Values (fblk f c)), env, st)
        (\<lambda>k. resume k sem F (c, length (Values (fblk (push_values c vs f) c)), env', st'))"
    and "exec_vals sem F [nextValueID f..<nextValueID f + length vs] (env, st) = Trap st' \<Longrightarrow>
      leads sem F (c, length (Values (fblk f c)), env, st) (\<lambda>k. Trap st')"
proof -
  have "prefix (Values (fblk f c) @ [nextValueID f..<nextValueID f + length vs]) (Values (fblk F c))"
    using growsD(8) [OF F, of c] c by simp
  then have *: "drop (length (Values (fblk f c))) (Values (fblk F c)) =
      [nextValueID f..<nextValueID f + length vs] @
      drop (length (Values (fblk f c)) + length [nextValueID f..<nextValueID f + length vs]) (Values (fblk F c))"
    by (auto simp: prefix_def)
  show "leads sem F (c, length (Values (fblk f c)), env, st)
      (\<lambda>k. resume k sem F (c, length (Values (fblk (push_values c vs f) c)), env', st'))"
    if "exec_vals sem F [nextValueID f..<nextValueID f + length vs] (env, st) = Done (env', st')"
    by (rule leadsI) (use resume_append(1) [OF * that] in simp)
  show "leads sem F (c, length (Values (fblk f c)), env, st) (\<lambda>k. Trap st')"
    if "exec_vals sem F [nextValueID f..<nextValueID f + length vs] (env, st) = Trap st'"
    by (rule leadsI) (use resume_append(2) [OF * that] in simp)
qed

text \<open>Leaving a block that is closed.\<close>

lemma run_closed:
  assumes F: "grows Q P f F" and c: "c < nextBlockID f" "c \<notin> Q" and n: "n = length (Values (fblk f c))"
  shows "resume k sem F (c, n, env, st) =
    bind_outcome (terminate (Sig f) (fblk f c) env st)
      (\<lambda>r. case r of Goto b j env st \<Rightarrow> run k sem F b j env st | _ \<Rightarrow> Done r)"
proof -
  have s: "same_code (fblk f c) (fblk F c)" by (rule growsD(10) [OF F c])
  then have "drop n (Values (fblk F c)) = []" using n same_codeD(1) [OF s] by simp
  then show ?thesis unfolding resume_def finish_def prod.case
    by (simp only: exec_vals.simps bind_outcome.simps fst_conv snd_conv same_codeD(7) [OF s] growsD(1) [OF F])
qed

lemma leads_goto:
  assumes F: "grows Q P f F" and c: "c < nextBlockID f" "c \<notin> Q" and "n = length (Values (fblk f c))"
    and "terminate (Sig f) (fblk f c) env st = Done (Goto b j env st)"
  shows "leads sem F (c, n, env, st) (\<lambda>k. run k sem F b j env st)"
  by (rule leadsI) (use run_closed [OF assms(1-4)] assms(5) in simp)

text \<open>Entering a block through an edge.\<close>

definition phi_env :: "Func \<Rightarrow> nat \<Rightarrow> nat list \<Rightarrow> env \<Rightarrow> env" where
  "phi_env F j phis env = (\<lambda>i. if i \<in> set phis then phi_val F j env i else env i)"

lemma enter_header:
  "enter F (Values (fblk F b)) j env =
     (if \<forall>i \<in> set (header_phis F b). phi_val F j env i \<noteq> None then Some (phi_env F j (header_phis F b) env) else None)"
proof -
  have "phi_ids F (Values (fblk F b)) = set (header_phis F b)" by (auto simp: phi_ids_def header_phis_def)
  then show ?thesis by (auto simp: enter_def phi_env_def header_phis_def fun_eq_iff)
qed

lemma exec_phis: "\<forall>i \<in> set ids. vOp (fval F i) = OpPhi \<Longrightarrow> exec_vals sem F ids s = Done s"
  by (induction ids arbitrary: s) (auto simp: exec_value_def runs_def)

lemma leads_into:
  assumes "prefix phis (Values (fblk F b))" and "header_phis F b = phis"
    and "\<And>i. i \<in> set phis \<Longrightarrow> phi_val F j env i \<noteq> None"
    and "leads sem F cfg (\<lambda>k. run k sem F b j env st)"
  shows "leads sem F cfg (\<lambda>k. resume k sem F (b, length phis, phi_env F j phis env, st))"
proof (rule leads_enter [OF assms(4)])
  fix k
  have "\<forall>i \<in> set phis. vOp (fval F i) = OpPhi" using assms(2) by (auto simp: header_phis_def)
  then show "run (Suc k) sem F b j env st = resume k sem F (b, length phis, phi_env F j phis env, st)"
    using assms(1-3) exec_phis
    by (intro run_Suc_resume) (auto simp: enter_header prefix_def)
qed

lemma agree_phi_env: "\<forall>i \<in> set phis. n \<le> i \<Longrightarrow> agree n env (phi_env F j phis env)"
  by (force simp: agree_def phi_env_def)

end
