(* ===== verification/LowerRun.thy ===== *)
theory LowerRun
  imports LowerGrow
begin

text \<open>The handlers of control flow, run on a live state without mutable locals: the state each one leaves.\<close>

section \<open>The pieces\<close>

definition at_block :: "nat \<Rightarrow> lowerState \<Rightarrow> lowerState" where
  "at_block t s = s\<lparr>ls_b := (ls_b s)\<lparr>cur := Some t\<rparr>\<rparr>"

definition inc :: "lowerState \<Rightarrow> nat \<Rightarrow> incomingEdge list" where
  "inc s t = (case ls_incoming s t of None \<Rightarrow> [] | Some es \<Rightarrow> es)"

definition edge_of :: "nat \<Rightarrow> nat \<Rightarrow> lowerState \<Rightarrow> incomingEdge" where
  "edge_of c r s = \<lparr>ie_from = c, ie_locals = ls_locals s, ie_stack = drop (length (ls_stack s) - r) (ls_stack s)\<rparr>"

definition recorded :: "nat \<Rightarrow> nat \<Rightarrow> nat \<Rightarrow> lowerState \<Rightarrow> lowerState" where
  "recorded c t r s = s\<lparr>ls_incoming := (ls_incoming s)(t \<mapsto> inc s t @ [edge_of c r s])\<rparr>"

definition back_args :: "nat list \<Rightarrow> nat list \<Rightarrow> Func \<Rightarrow> Func" where
  "back_args phis vs f = foldl (\<lambda>f (p, v). upd_val p (\<lambda>w. w\<lparr>vArgs := vArgs w @ [Some v]\<rparr>) f) f (zip phis vs)"

definition set_kind :: "BlockKind \<Rightarrow> nat \<Rightarrow> Func \<Rightarrow> Func" where
  "set_kind k c = upd_blk c (\<lambda>b. b\<lparr>bKind := k\<rparr>)"

definition set_control :: "nat \<Rightarrow> nat \<Rightarrow> Func \<Rightarrow> Func" where
  "set_control v c = upd_blk c (\<lambda>b. b\<lparr>Control := Some v\<rparr>)"

definition new_block :: "Func \<Rightarrow> Func" where
  "new_block f = snd (NewBlock BlockPlain f)"

lemma at_block_fields [simp]:
  "bf (ls_b (at_block t s)) = bf (ls_b s)" "cur (ls_b (at_block t s)) = Some t" "ls_stack (at_block t s) = ls_stack s"
  "ls_locals (at_block t s) = ls_locals s" "ls_localTypes (at_block t s) = ls_localTypes s" "ls_ctrl (at_block t s) = ls_ctrl s"
  "ls_incoming (at_block t s) = ls_incoming s" "ls_unreachable (at_block t s) = ls_unreachable s"
  "ls_unreachableDepth (at_block t s) = ls_unreachableDepth s" "ls_mutableLocals (at_block t s) = ls_mutableLocals s"
  "ls_inlineFrames (at_block t s) = ls_inlineFrames s" "ls_mem64 (at_block t s) = ls_mem64 s" "ls_rd (at_block t s) = ls_rd s"
  "ls_mod (at_block t s) = ls_mod s" "ls_ft (at_block t s) = ls_ft s" "nextV (at_block t s) = nextV s" "bound (at_block t s) = bound s"
  "inc (at_block t s) = inc s"
  by (simp_all add: at_block_def nextV_def bound_def inc_def fun_eq_iff)

lemma recorded_fields [simp]:
  "ls_b (recorded c t r s) = ls_b s" "ls_stack (recorded c t r s) = ls_stack s"
  "ls_locals (recorded c t r s) = ls_locals s" "ls_localTypes (recorded c t r s) = ls_localTypes s" "ls_ctrl (recorded c t r s) = ls_ctrl s"
  "ls_unreachable (recorded c t r s) = ls_unreachable s" "ls_unreachableDepth (recorded c t r s) = ls_unreachableDepth s"
  "ls_mutableLocals (recorded c t r s) = ls_mutableLocals s" "ls_inlineFrames (recorded c t r s) = ls_inlineFrames s"
  "ls_mem64 (recorded c t r s) = ls_mem64 s" "ls_rd (recorded c t r s) = ls_rd s" "ls_mod (recorded c t r s) = ls_mod s"
  "ls_ft (recorded c t r s) = ls_ft s" "nextV (recorded c t r s) = nextV s" "bound (recorded c t r s) = bound s"
  "ls_incoming (recorded c t r s) = (ls_incoming s)(t \<mapsto> inc s t @ [edge_of c r s])"
  "inc (recorded c t r s) b = (if b = t then inc s t @ [edge_of c r s] else inc s b)"
  by (simp_all add: recorded_def nextV_def bound_def inc_def)

lemma on_func_ids [simp]: "nextV (on_func g s) = nextValueID (g (bf (ls_b s)))" "bound (on_func g s) = nextBlockID (g (bf (ls_b s)))"
  "inc (on_func g s) = inc s"
  by (simp_all add: nextV_def bound_def inc_def fun_eq_iff)

lemma nextV_more [simp]:
  "nextV (s\<lparr>ls_incoming := a\<rparr>) = nextV s" "nextV (s\<lparr>ls_ctrl := b\<rparr>) = nextV s" "nextV (s\<lparr>ls_unreachable := d\<rparr>) = nextV s"
  by (simp_all add: nextV_def)

lemma inc_upd [simp]:
  "inc (s\<lparr>ls_stack := a\<rparr>) = inc s" "inc (s\<lparr>ls_locals := a\<rparr>) = inc s" "inc (s\<lparr>ls_rd := r\<rparr>) = inc s"
  "inc (s\<lparr>ls_ctrl := b\<rparr>) = inc s" "inc (s\<lparr>ls_unreachable := d\<rparr>) = inc s"
  by (simp_all add: inc_def fun_eq_iff)

lemma step_then: "m s = Inr (x, s') \<Longrightarrow> lthen m n s = n s'" "m s = Inr (y, s') \<Longrightarrow> lbind m f s = f y s'"
  by (simp_all add: lthen_def lbind_def)

lemma runs_at:
  "cur (ls_b s) = Some c \<Longrightarrow> \<not> ls_mutableLocals s \<Longrightarrow> recordIncoming t r s = Inr ((), recorded c t r s)"
  "cur (ls_b s) = Some c \<Longrightarrow> lkind k s = Inr ((), on_func (set_kind k c) s)"
  "cur (ls_b s) = Some c \<Longrightarrow> lcontrol v s = Inr ((), on_func (set_control v c) s)"
  "cur (ls_b s) = Some c \<Longrightarrow> ledge t s = Inr ((), on_func (AddEdge c t) s)"
  "lsetCurrent t s = Inr ((), at_block t s)"
  "lnewBlock BlockPlain s = Inr (bound s, on_func new_block s)"
  "cur (ls_b s) = Some c \<Longrightarrow> lcurrent s = Inr (c, s)"
  by (simp_all add: recordIncoming_def lkind_def lcontrol_def ledge_def lcurrent_def lsetCurrent_def lnewBlock_def lbuild_def
      lfunc_run lbind_def lget_def lsome_def lret_def lmodify_def recorded_def edge_of_def inc_def set_kind_def set_control_def
      at_block_def SetCurrent_def on_func_def bNewBlock_def NewBlock_def Let_def bound_def new_block_def)

lemma runs_more:
  "lret x s = Inr (x, s)" "lget g s = Inr (g s, s)" "lmodify h s = Inr ((), h s)" "lfunc g' s = Inr ((), on_func g' s)"
  "ldead d s = Inr ((), s\<lparr>ls_unreachable := d\<rparr>)" "llocals ls s = Inr ((), s\<lparr>ls_locals := ls\<rparr>)" "lstack st s = Inr ((), s\<lparr>ls_stack := st\<rparr>)"
  "lpushFrame fr s = Inr ((), s\<lparr>ls_ctrl := ls_ctrl s @ [fr]\<rparr>)" "lpopFrame s = Inr ((), s\<lparr>ls_ctrl := butlast (ls_ctrl s)\<rparr>)"
  "lsetTop fr s = Inr ((), s\<lparr>ls_ctrl := butlast (ls_ctrl s) @ [fr]\<rparr>)" "lheight s = Inr (length (ls_stack s), s)"
  "ldeadNow s = Inr (ls_unreachable s, s)"
  by (simp_all add: lret_def lget_def lmodify_def lfunc_run ldead_def llocals_def lstack_def lpushFrame_def lpopFrame_def lsetTop_def
      lheight_def ldeadNow_def)

lemma lgoto_run: "cur (ls_b s) = Some c \<Longrightarrow> lgoto t s = Inr ((), on_func (\<lambda>f. AddEdge c t (set_kind BlockPlain c f)) s)"
  by (simp add: lgoto_def step_then(1) [OF runs_at(2)] runs_at)

lemma close_into_run:
  "cur (ls_b s) = Some c \<Longrightarrow> \<not> ls_mutableLocals s \<Longrightarrow>
   close_into t r s = Inr ((), on_func (\<lambda>f. AddEdge c t (set_kind BlockPlain c f)) (recorded c t r s))"
  by (simp add: close_into_def step_then(1) [OF runs_at(1)] lgoto_run)

lemma appendLoopBackArgs_run:
  "\<not> ls_mutableLocals s \<Longrightarrow> appendLoopBackArgs h s = Inr ((), on_func (\<lambda>f. back_args (header_phis f h) (ls_locals s) f) s)"
  by (simp add: appendLoopBackArgs_def lbind_def lget_def lfunc_run back_args_def)

definition branch_f :: "ctrlFrame \<Rightarrow> nat list \<Rightarrow> Func \<Rightarrow> Func" where
  "branch_f fr ls f = (if cf_kind fr = ctrlLoop then back_args (header_phis f (cf_target fr)) ls f else f)"

lemma lpop_runs: "ls_stack s = st @ [v] \<Longrightarrow> lpop s = Inr (v, s\<lparr>ls_stack := st\<rparr>)"
  by (simp add: lpop_def)

lemmas run_simps = lthen_def lbind_def runs_at runs_more lgoto_run close_into_run appendLoopBackArgs_run lwhen_def lpop_runs

lemma branch_to_run:
  "cur (ls_b s) = Some c \<Longrightarrow> \<not> ls_mutableLocals s \<Longrightarrow>
   branch_to fr r s = Inr ((), on_func (branch_f fr (ls_locals s)) (recorded c (cf_target fr) r s))"
  by (cases "cf_kind fr = ctrlLoop") (simp_all add: branch_to_def run_simps branch_f_def [abs_def])

lemma lblocktype_run:
  assumes "irReadS33 (ls_rd s) = Inr (bt, bs)" and "decodeBlockResults bt = Inr rs"
  shows "lblocktype what s = Inr (rs, s\<lparr>ls_rd := bs\<rparr>)"
  using assms by (simp add: lblocktype_def lbind_def lread_def lret_def)

lemma handleBlock_run:
  assumes "irReadS33 (ls_rd s) = Inr (bt, bs)" and "decodeBlockResults bt = Inr rs"
  shows "handleBlock s = Inr ((), (on_func new_block (s\<lparr>ls_rd := bs\<rparr>))
    \<lparr>ls_ctrl := ls_ctrl s @ [new_frame ctrlBlock (bound s) (bound s) (length rs) (length (ls_stack s))]\<rparr>)"
  by (simp add: handleBlock_def run_simps lblocktype_run [OF assms])

definition if_f :: "nat \<Rightarrow> nat \<Rightarrow> nat \<Rightarrow> nat \<Rightarrow> Func \<Rightarrow> Func" where
  "if_f v c t e f = AddEdge c e (AddEdge c t (set_control v c (set_kind BlockIf c f)))"

lemma new_block_fields [simp]:
  "nextBlockID (new_block f) = Suc (nextBlockID f)" "nextValueID (new_block f) = nextValueID f" "Sig (new_block f) = Sig f"
  "Entry (new_block f) = Entry f" "fval (new_block f) = fval f" "fblk (new_block f) = (fblk f)(nextBlockID f := zero_block\<lparr>bKind := BlockPlain\<rparr>)"
  by (simp_all add: new_block_def NewBlock_def Let_def)

lemma handleIf_run:
  assumes "irReadS33 (ls_rd s) = Inr (bt, bs)" and "decodeBlockResults bt = Inr rs" and "ls_stack s = st @ [v]" and c: "cur (ls_b s) = Some c"
  shows "handleIf s = Inr ((), at_block (bound s) ((on_func (\<lambda>f. if_f v c (bound s) (bound s + 1) (new_block (new_block (new_block f)))) s)
    \<lparr>ls_rd := bs, ls_stack := st, ls_ctrl := ls_ctrl s @ [(new_frame ctrlIf (bound s + 2) (bound s + 2) (length rs) (length st))
        \<lparr>cf_elseBlk := Some (bound s + 1), cf_entryLocals := ls_locals s\<rparr>]\<rparr>))"
  by (simp add: handleIf_def if_f_def [abs_def] run_simps lblocktype_run [OF assms(1,2)] assms(3) c bound_def)

section \<open>Loops\<close>

definition phi_in :: "nat \<Rightarrow> Type \<Rightarrow> nat list \<Rightarrow> Value" where
  "phi_in h ty as = value_in h OpPhi ty 0 AuxNil as"

lemma phi_in_fields [simp]: "vOp (phi_in h ty as) = OpPhi" "vArgs (phi_in h ty as) = map Some as" "vBlock (phi_in h ty as) = Some h"
  by (simp_all add: phi_in_def)

definition loop_phis :: "nat \<Rightarrow> Type list \<Rightarrow> nat list \<Rightarrow> Value list" where
  "loop_phis h tys vs = map2 (\<lambda>ty v. phi_in h ty [v]) tys vs"

lemma header_phis_run:
  assumes "cur (ls_b s) = Some h" and "i + length vs \<le> length tys"
  shows "lmap (header_phi tys) (enumerate i vs) s =
    Inr ([nextV s..<nextV s + length vs], on_func (push_values h (loop_phis h (drop i tys) vs)) s)"
  using assms
proof (induction vs arbitrary: i s)
  case Nil
  then show ?case by (simp add: lret_def loop_phis_def)
next
  case (Cons v vs)
  let ?p = "phi_in h (tys ! i) [v]" and ?s = "on_func (push_value h (phi_in h (tys ! i) [v])) s"
  have i: "i < length tys" using Cons.prems(2) by simp
  have one: "header_phi tys (i, v) s = Inr (nextV s, ?s)"
    using i Cons.prems(1) by (simp add: header_phi_def lbind_def lnth_def lret_def lvalue_run(1) phi_in_def)
  have rest: "lmap (header_phi tys) (enumerate (Suc i) vs) ?s =
      Inr ([nextV ?s..<nextV ?s + length vs], on_func (push_values h (loop_phis h (drop (Suc i) tys) vs)) ?s)"
    by (rule Cons.IH) (use Cons.prems in simp_all)
  have "loop_phis h (drop i tys) (v # vs) = ?p # loop_phis h (drop (Suc i) tys) vs"
    using i by (simp add: loop_phis_def Cons_nth_drop_Suc [symmetric])
  then show ?case using one rest
    by (simp add: lbind_def lret_def upt_first nextV_def del: upt_Suc)
qed

definition loop_f :: "nat \<Rightarrow> nat \<Rightarrow> Type list \<Rightarrow> nat list \<Rightarrow> Func \<Rightarrow> Func" where
  "loop_f c h tys vs f = push_values h (loop_phis h tys vs) (AddEdge c h (set_kind BlockPlain c (new_block (new_block f))))"

lemma set_kind_fields [simp]:
  "nextBlockID (set_kind k c f) = nextBlockID f" "nextValueID (set_kind k c f) = nextValueID f" "Sig (set_kind k c f) = Sig f"
  "Entry (set_kind k c f) = Entry f" "fval (set_kind k c f) = fval f" "fblk (set_kind k c f) = (fblk f)(c := (fblk f c)\<lparr>bKind := k\<rparr>)"
  "nextBlockID (set_control v c f) = nextBlockID f" "nextValueID (set_control v c f) = nextValueID f" "Sig (set_control v c f) = Sig f"
  "Entry (set_control v c f) = Entry f" "fval (set_control v c f) = fval f"
  "fblk (set_control v c f) = (fblk f)(c := (fblk f c)\<lparr>Control := Some v\<rparr>)"
  by (simp_all add: set_kind_def set_control_def upd_blk_def)

lemma handleLoop_run:
  assumes "irReadS33 (ls_rd s) = Inr (bt, bs)" and "decodeBlockResults bt = Inr rs" and c: "cur (ls_b s) = Some c"
    and "\<not> ls_mutableLocals s" and "length (ls_locals s) = length (ls_localTypes s)"
  shows "handleLoop s = Inr ((), (on_func (loop_f c (bound s) (ls_localTypes s) (ls_locals s)) (at_block (bound s) s))
    \<lparr>ls_rd := bs, ls_locals := [nextV s..<nextV s + length (ls_locals s)],
     ls_ctrl := ls_ctrl s @ [new_frame ctrlLoop (bound s) (bound s + 1) (length rs) (length (ls_stack s))]\<rparr>)"
proof -
  let ?s = "at_block (bound s) (on_func (\<lambda>f. AddEdge c (bound s) (set_kind BlockPlain c (new_block (new_block f)))) (s\<lparr>ls_rd := bs\<rparr>))"
  have "lmap (header_phi (ls_localTypes s)) (enumerate 0 (ls_locals s)) ?s =
      Inr ([nextV ?s..<nextV ?s + length (ls_locals s)], on_func (push_values (bound s) (loop_phis (bound s) (drop 0 (ls_localTypes s)) (ls_locals s))) ?s)"
    by (rule header_phis_run) (use assms(5) in simp_all)
  moreover have "nextV ?s = nextV s" by (simp add: nextV_def)
  ultimately have m: "lmap (header_phi (ls_localTypes s)) (enumerate 0 (ls_locals s)) ?s =
      Inr ([nextV s..<nextV s + length (ls_locals s)], on_func (push_values (bound s) (loop_phis (bound s) (ls_localTypes s) (ls_locals s))) ?s)"
    by (simp only: drop0)
  show ?thesis
    using m assms(4) c
    by (simp add: handleLoop_def run_simps lblocktype_run [OF assms(1,2)] loop_f_def [abs_def] bound_def at_block_def on_func_def)
qed

section \<open>Branches and ends\<close>

lemma lframe_run:
  "lframe d e s = (if unat d < length (ls_ctrl s) then Inr (ls_ctrl s ! (length (ls_ctrl s) - 1 - unat d), s) else Inl e)"
  by (simp add: lframe_def lbind_def lget_def then_check lret_def)

definition label :: "lowerState \<Rightarrow> nat \<Rightarrow> ctrlFrame" where
  "label s d = ls_ctrl s ! (length (ls_ctrl s) - 1 - d)"

definition jumped :: "nat \<Rightarrow> ctrlFrame \<Rightarrow> lowerState \<Rightarrow> lowerState" where
  "jumped c fr s = (on_func (\<lambda>f. AddEdge c (cf_target fr) (set_kind BlockPlain c (branch_f fr (ls_locals s) f)))
     (recorded c (cf_target fr) (branchArity fr) s))\<lparr>ls_unreachable := True\<rparr>"

lemma jump_to_run:
  "cur (ls_b s) = Some c \<Longrightarrow> \<not> ls_mutableLocals s \<Longrightarrow> jump_to fr s = Inr ((), jumped c fr s)"
  by (simp add: jump_to_def run_simps branch_to_run jumped_def)

lemma handleBr_run:
  assumes "irReadU32 (ls_rd s) = Inr (d, bs)" and "cur (ls_b s) = Some c" and "\<not> ls_mutableLocals s" and "unat d < length (ls_ctrl s)"
  shows "handleBr s = Inr ((), jumped c (label s (unat d)) (s\<lparr>ls_rd := bs\<rparr>))"
  using assms by (simp add: handleBr_def lbind_def lread_run lget_def lframe_run jump_to_run label_def)

definition branched :: "nat \<Rightarrow> nat \<Rightarrow> ctrlFrame \<Rightarrow> lowerState \<Rightarrow> lowerState" where
  "branched c v fr s =
     at_block (bound s) (on_func (\<lambda>f. if_f v c (cf_target fr) (bound s) (branch_f fr (ls_locals s) (new_block f)))
       (recorded c (cf_target fr) (branchArity fr) s))"

lemma recorded_on_func: "recorded c t r (on_func g s) = on_func g (recorded c t r s)"
  by (simp add: recorded_def on_func_def inc_def edge_of_def)

lemma handleBrIf_run:
  assumes "irReadU32 (ls_rd s) = Inr (d, bs)" and "cur (ls_b s) = Some c" and "\<not> ls_mutableLocals s" and "unat d < length (ls_ctrl s)"
    and "ls_stack s = st @ [v]"
  shows "handleBrIf s = Inr ((), branched c v (label s (unat d)) (s\<lparr>ls_rd := bs, ls_stack := st\<rparr>))"
  using assms
  by (simp add: handleBrIf_def run_simps lread_run lframe_run branch_to_run branched_def label_def if_f_def [abs_def] bound_def
      recorded_on_func [symmetric])

lemma lower_unreachable_run:
  "cur (ls_b s) = Some c \<Longrightarrow> lower_unreachable s = Inr ((), (on_func (set_kind BlockUnreachable c) s)\<lparr>ls_unreachable := True\<rparr>)"
  by (simp add: lower_unreachable_def run_simps)

section \<open>Returns\<close>

definition copies :: "nat \<Rightarrow> nat list \<Rightarrow> Value list \<Rightarrow> bool" where
  "copies c rs vs \<longleftrightarrow> list_all2 (\<lambda>r v. \<exists>ty. v = value_in c OpCopy ty 0 AuxNil [r]) rs vs"

lemma add_marker_push: "add_marker c f r = push_value c (value_in c OpCopy (vTyp (fval f r)) 0 AuxNil [r]) f"
  by (simp add: add_marker_def newValue_def Let_def push_value_def value_in_def upd_blk_def)

lemma add_markers_push: "\<exists>vs. foldl (add_marker c) f rs = push_values c vs f \<and> copies c rs vs"
proof (induction rs arbitrary: f)
  case Nil
  show ?case by (intro exI [of _ "[]"]) (simp add: copies_def)
next
  case (Cons r rs)
  let ?v = "value_in c OpCopy (vTyp (fval f r)) 0 AuxNil [r]"
  obtain vs where "foldl (add_marker c) (push_value c ?v f) rs = push_values c vs (push_value c ?v f)" "copies c rs vs"
    using Cons.IH by blast
  then have "foldl (add_marker c) f (r # rs) = push_values c (?v # vs) f" by (simp only: foldl_Cons add_marker_push push_values_simps)
  then show ?case using \<open>copies c rs vs\<close> by (intro exI [of _ "?v # vs"]) (auto simp: copies_def)
qed

lemma lfinishRet_run:
  assumes "cur (ls_b s) = Some c"
  shows "\<exists>vs. lfinishRet rs s = Inr ((), on_func (\<lambda>f. push_values c vs (set_kind BlockRet c f)) s) \<and> copies c rs vs"
proof -
  obtain vs where "foldl (add_marker c) (set_kind BlockRet c (bf (ls_b s))) rs = push_values c vs (set_kind BlockRet c (bf (ls_b s)))"
      "copies c rs vs" using add_markers_push by blast
  then show ?thesis using assms
    by (intro exI [of _ vs]) (simp add: lfinishRet_def lbuild_def FinishRet_def set_kind_def on_func_def)
qed

definition returned :: "nat \<Rightarrow> Value list \<Rightarrow> lowerState \<Rightarrow> lowerState" where
  "returned c vs s = on_func (\<lambda>f. push_values c vs (set_kind BlockRet c f)) s"

lemma set_kind_twice: "set_kind k c (set_kind k' c f) = set_kind k c f"
  by (simp add: set_kind_def upd_blk_def)

lemma ret_run:
  assumes "cur (ls_b s) = Some c"
  shows "\<exists>vs. lthen (lkind BlockRet) (lfinishRet rs) s = Inr ((), returned c vs s) \<and> copies c rs vs"
proof -
  obtain vs where "lfinishRet rs (on_func (set_kind BlockRet c) s) =
      Inr ((), on_func (\<lambda>f. push_values c vs (set_kind BlockRet c f)) (on_func (set_kind BlockRet c) s))" "copies c rs vs"
    using lfinishRet_run [of "on_func (set_kind BlockRet c) s" c rs] assms by auto
  then show ?thesis using assms by (auto simp: run_simps returned_def set_kind_twice)
qed

definition top_vals :: "nat \<Rightarrow> nat list \<Rightarrow> nat list" where
  "top_vals n st = drop (length st - n) st"

lemma handleReturn_run:
  assumes "cur (ls_b s) = Some c" and "ls_inlineFrames s = []" and "n = length (FuncType.Results (ls_ft s))" and "n \<le> length (ls_stack s)"
  shows "\<exists>vs. handleReturn s = Inr ((), (returned c vs s)\<lparr>ls_unreachable := True\<rparr>) \<and> copies c (top_vals n (ls_stack s)) vs"
proof -
  obtain vs where vs: "lthen (lkind BlockRet) (lfinishRet (top_vals n (ls_stack s))) s = Inr ((), returned c vs s)" "copies c (top_vals n (ls_stack s)) vs"
    using ret_run [OF assms(1)] by blast
  then have "lfinishRet (top_vals n (ls_stack s)) (on_func (set_kind BlockRet c) s) = Inr ((), returned c vs s)"
    using assms(1) by (simp add: run_simps)
  then show ?thesis using assms vs(2)
    by (auto simp: handleReturn_def run_simps last_values_def lcheck_def top_vals_def)
qed

lemma end_function_run:
  assumes "cur (ls_b s) = Some c" and "\<not> ls_unreachable s" and "n = length (FuncType.Results (ls_ft s))" and "n \<le> length (ls_stack s)"
  shows "\<exists>vs. end_function s = Inr ((), returned c vs s) \<and> copies c (top_vals n (ls_stack s)) vs"
proof -
  obtain vs where vs: "lthen (lkind BlockRet) (lfinishRet (top_vals n (ls_stack s))) s = Inr ((), returned c vs s)" "copies c (top_vals n (ls_stack s)) vs"
    using ret_run [OF assms(1)] by blast
  then have "lfinishRet (top_vals n (ls_stack s)) (on_func (set_kind BlockRet c) s) = Inr ((), returned c vs s)"
    using assms(1) by (simp add: run_simps)
  then show ?thesis using assms vs(2)
    by (auto simp: end_function_def run_simps last_values_def lcheck_def top_vals_def)
qed

section \<open>Joins\<close>

text \<open>
  The identifier a join gives a slot, from those the edges have for it: the common one, older than
  the join, or a phi of the join.
\<close>

definition merged :: "nat \<Rightarrow> Func \<Rightarrow> nat \<Rightarrow> nat list \<Rightarrow> bool" where
  "merged n f i as \<longleftrightarrow>
     (if i < n then \<forall>a \<in> set as. a = i
      else i < nextValueID f \<and> vOp (fval f i) = OpPhi \<and> vArgs (fval f i) = map Some as)"

definition phis_pushed :: "nat \<Rightarrow> Value list \<Rightarrow> bool" where
  "phis_pushed t vs \<longleftrightarrow> (\<forall>v \<in> set vs. \<exists>ty as. v = phi_in t ty as)"

lemma merged_pushes: "merged n f i as \<Longrightarrow> n \<le> nextValueID f \<Longrightarrow> merged n (push_values c vs f) i as"
  by (auto simp: merged_def fval_push_values)

lemma slot_values_run:
  "slot_values g es i s = Inr (as, s') \<Longrightarrow> s' = s \<and> as = map (\<lambda>e. g e ! i) es \<and> (\<forall>e \<in> set es. i < length (g e))"
  unfolding slot_values_def
  by (induction es arbitrary: as s s') (auto simp: low_eqs)

lemma merge_slot_run:
  assumes "merge_slot ty as s = Inr (i, s')" and "cur (ls_b s) = Some t" and "as \<noteq> []" and "ids_lt n as" and "n \<le> nextV s"
  shows "\<exists>vs. s' = on_func (push_values t vs) s \<and> phis_pushed t vs \<and> merged n (bf (ls_b s')) i as \<and> i < nextV s' \<and>
    {nextV s..<nextV s'} \<subseteq> {i}"
proof (cases "\<forall>a \<in> set as. a = hd as")
  case True
  then have "i = hd as" "s' = s" using assms(1) by (auto simp: merge_slot_def lret_def)
  moreover have "hd as < n" using assms(3,4) by (simp add: ids_lt_def)
  ultimately show ?thesis using True assms(5)
    by (intro exI [of _ "[]"]) (auto simp: phis_pushed_def merged_def push_values_fun)
next
  case False
  then have "lvalue OpPhi ty 0 as s = Inr (i, s')" using assms(1) unfolding merge_slot_def by (simp only: if_False)
  then have "i = nextV s" "s' = on_func (push_value t (phi_in t ty as)) s"
    using lvalue_run(1) [OF assms(2), of OpPhi ty 0 as] by (simp_all add: phi_in_def)
  then show ?thesis using assms(5)
    by (intro exI [of _ "[phi_in t ty as]"]) (auto simp: phis_pushed_def merged_def push_values_fun nextV_def)
qed

lemma merge_local_slot: "merge_local es i s = Inr (j, s') \<Longrightarrow> \<exists>ty as. slot_values ie_locals es i s = Inr (as, s) \<and> merge_slot ty as s = Inr (j, s')"
  using slot_values_run by (fastforce simp: merge_local_def merge_slot_def low_eqs split: if_splits)

lemma merge_result_slot: "merge_result es i s = Inr (j, s') \<Longrightarrow> \<exists>ty as. slot_values ie_stack es i s = Inr (as, s) \<and> merge_slot ty as s = Inr (j, s')"
  using slot_values_run by (fastforce simp: merge_result_def low_eqs)

definition slots :: "nat \<Rightarrow> Func \<Rightarrow> nat list \<Rightarrow> nat \<Rightarrow> nat list list \<Rightarrow> bool" where
  "slots n f ids k cols \<longleftrightarrow> (\<forall>i < length ids. merged n f (ids ! i) (map (\<lambda>as. as ! (k + i)) cols) \<and>
     (\<forall>as \<in> set cols. k + i < length as))"

text \<open>All slots in turn.\<close>

lemma merge_slots_run:
  assumes step: "\<And>i j s s'. m i s = Inr (j, s') \<Longrightarrow> \<exists>ty as. slot_values g es i s = Inr (as, s) \<and> merge_slot ty as s = Inr (j, s')"
    and "lmap m [k..<k + r] s = Inr (ids, s')" and "cur (ls_b s) = Some t" and "es \<noteq> []" and "\<And>e. e \<in> set es \<Longrightarrow> ids_lt n (g e)"
    and "n \<le> nextV s"
  shows "\<exists>vs. s' = on_func (push_values t vs) s \<and> phis_pushed t vs \<and> length ids = r \<and> slots n (bf (ls_b s')) ids k (map g es) \<and>
    ids_lt (nextV s') ids \<and> {nextV s..<nextV s'} \<subseteq> set ids"
  using assms(2,3,6)
proof (induction r arbitrary: k s ids)
  case 0
  then show ?case by (intro exI [of _ "[]"]) (auto simp: lret_def phis_pushed_def slots_def push_values_fun)
next
  case (Suc r)
  have split: "[k..<k + Suc r] = k # [Suc k..<Suc k + r]" by (simp add: upt_first del: upt_Suc)
  obtain i s1 js where i: "m k s = Inr (i, s1)" and js: "lmap m [Suc k..<Suc k + r] s1 = Inr (js, s')" and ids: "ids = i # js"
    using Suc.prems(1) unfolding split by (auto simp: low_eqs)
  obtain ty as where as: "slot_values g es k s = Inr (as, s)" "merge_slot ty as s = Inr (i, s1)" using step [OF i] by blast
  note sv = slot_values_run [OF as(1)]
  have ne: "as \<noteq> []" "ids_lt n as" using sv assms(4,5) by (auto simp: ids_lt_def)
  obtain vs where vs: "s1 = on_func (push_values t vs) s" "phis_pushed t vs" "merged n (bf (ls_b s1)) i as" "i < nextV s1"
      "{nextV s..<nextV s1} \<subseteq> {i}"
    using merge_slot_run [OF as(2) Suc.prems(2) ne Suc.prems(3)] by blast
  have cur1: "cur (ls_b s1) = Some t" and le1: "n \<le> nextV s1" using vs(1) Suc.prems(2,3) by (simp_all add: nextV_def)
  obtain ws where ws: "s' = on_func (push_values t ws) s1" "phis_pushed t ws" "length js = r" "slots n (bf (ls_b s')) js (Suc k) (map g es)"
      "ids_lt (nextV s') js" "{nextV s1..<nextV s'} \<subseteq> set js"
    using Suc.IH [OF js cur1 le1] by blast
  have "n \<le> nextValueID (bf (ls_b s1))" using Suc.prems(3) vs(1) by (simp add: nextV_def)
  then have "merged n (bf (ls_b s')) i as" using merged_pushes [OF vs(3)] ws(1) by simp
  moreover have "as = map (\<lambda>as. as ! k) (map g es)" using sv by simp
  ultimately have "slots n (bf (ls_b s')) ids k (map g es)"
    using ws(4) sv unfolding slots_def ids by (auto simp: nth_Cons less_Suc_eq_0_disj split: nat.split)
  moreover have "ids_lt (nextV s') ids" using ws(1,5) vs(4) unfolding ids by (auto simp: nextV_def)
  moreover have "s' = on_func (push_values t (vs @ ws)) s" using vs(1) ws(1) by (simp add: push_values_append [abs_def])
  moreover have "{nextV s..<nextV s'} \<subseteq> set ids" using vs(5) ws(6) unfolding ids by (force simp: subset_iff not_less)
  ultimately show ?case using vs(2) ws(2,3) unfolding ids
    by (intro exI [of _ "vs @ ws"]) (auto simp: phis_pushed_def)
qed

text \<open>
  After the join the identifier \<open>i\<close> of a slot stands for the \<open>a\<close> that the edge into position \<open>j\<close> of the
  predecessors has for it.
\<close>

definition slot_is :: "nat \<Rightarrow> Func \<Rightarrow> nat \<Rightarrow> nat \<Rightarrow> nat \<Rightarrow> bool" where
  "slot_is n f j i a \<longleftrightarrow>
     (if i < n then a = i
      else i < nextValueID f \<and> vOp (fval f i) = OpPhi \<and> j < length (vArgs (fval f i)) \<and> vArgs (fval f i) ! j = Some a)"

lemma slots_slot_is:
  "slots n f ids 0 (map g es) \<Longrightarrow> j < length es \<Longrightarrow> i < length ids \<Longrightarrow> slot_is n f j (ids ! i) (g (es ! j) ! i)"
  by (auto simp: slots_def merged_def slot_is_def)

definition join_of :: "nat \<Rightarrow> nat \<Rightarrow> nat \<Rightarrow> nat \<Rightarrow> incomingEdge list \<Rightarrow> lowerState \<Rightarrow> lowerState \<Rightarrow> bool" where
  "join_of t n r base es s s' \<longleftrightarrow>
     (\<exists>vs ls st. s' = (on_func (push_values t vs) s)\<lparr>ls_locals := ls, ls_stack := take base (ls_stack s) @ st\<rparr> \<and>
        phis_pushed t vs \<and> base \<le> length (ls_stack s) \<and> length ls = n \<and> length st = r \<and> ids_lt (nextV s') ls \<and> ids_lt (nextV s') st \<and>
        {nextV s..<nextV s'} \<subseteq> set ls \<union> set st \<and>
        (\<forall>j e. j < length (Preds (fblk (bf (ls_b s)) t)) \<longrightarrow> e \<in> set es \<longrightarrow> eBlock (Preds (fblk (bf (ls_b s)) t) ! j) = ie_from e \<longrightarrow>
           list_all2 (slot_is (nextV s) (bf (ls_b s')) j) ls (ie_locals e) \<and>
           list_all2 (slot_is (nextV s) (bf (ls_b s')) j) st (ie_stack e)))"

lemma edge_from_unique:
  "distinct (map ie_from es) \<Longrightarrow> e \<in> set es \<Longrightarrow> edge_from es (ie_from e) = Some e"
  unfolding edge_from_def by (induction es) (auto simp: image_iff)

lemma order_edges_run:
  assumes "order_edges es t s = Inr (es', s')"
  shows "s' = s \<and> list_all2 (\<lambda>p e. edge_from es (eBlock p) = Some e) (Preds (fblk (bf (ls_b s)) t)) es'"
proof -
  have "lmap (\<lambda>pe. case edge_from es (eBlock pe) of Some e \<Rightarrow> lret e | None \<Rightarrow> plain_error m [eBlock pe, t]) ps s = Inr (es', s') \<Longrightarrow>
      s' = s \<and> list_all2 (\<lambda>p e. edge_from es (eBlock p) = Some e) ps es'" for m ps
    by (induction ps arbitrary: es') (auto simp: low_eqs plain_error_def split: option.splits)
  then show ?thesis using assms by (auto simp: order_edges_def low_eqs)
qed

lemma resolve_single:
  assumes "inc s t = [e]" and "resolveIncoming t r base s = Inr ((), s')"
  shows "base \<le> length (ls_stack s) \<and>
    s' = s\<lparr>ls_incoming := (ls_incoming s)(t := None), ls_locals := ie_locals e, ls_stack := take base (ls_stack s) @ ie_stack e\<rparr>"
  using assms by (auto simp: resolveIncoming_def inc_def low_eqs)

lemma resolve_many:
  assumes "1 < length (inc s t)" and "resolveIncoming t r base s = Inr ((), s')"
  shows "base \<le> length (ls_stack s) \<and> merge_edges t r base (inc s t) (s\<lparr>ls_incoming := (ls_incoming s)(t := None)\<rparr>) = Inr ((), s')"
proof -
  obtain e e' es where "inc s t = e # e' # es" using assms(1) by (cases "inc s t" rule: remdups_adj.cases) auto
  then show ?thesis using assms(2) by (auto simp: resolveIncoming_def inc_def low_eqs)
qed

text \<open>What the recorded edges of a block look like, for a function with \<open>n\<close> locals.\<close>

definition edges_ok :: "nat \<Rightarrow> nat \<Rightarrow> nat \<Rightarrow> incomingEdge list \<Rightarrow> bool" where
  "edges_ok m n r es \<longleftrightarrow> distinct (map ie_from es) \<and>
     (\<forall>e \<in> set es. ids_lt m (ie_locals e) \<and> ids_lt m (ie_stack e) \<and> length (ie_locals e) = n \<and> length (ie_stack e) = r)"

lemma slot_is_old: "ids_lt n ids \<Longrightarrow> list_all2 (slot_is n f j) ids ids"
  by (auto simp: list_all2_conv_all_nth slot_is_def ids_lt_def)

lemma merge_join:
  assumes "merge_edges t r base es s = Inr ((), s')" and "cur (ls_b s) = Some t" and es: "edges_ok (nextV s) n r es"
    and "base \<le> length (ls_stack s)"
  shows "join_of t n r base es s s'"
proof -
  obtain es' e0 s1 ls s2 st where order: "order_edges es t s = Inr (es', s)" and e0: "0 < length es'" "e0 = es' ! 0"
    and ls: "lmap (merge_local es') [0..<length (ie_locals e0)] s = Inr (ls, s1)"
    and st: "lmap (merge_result es') [0..<r] (s1\<lparr>ls_locals := ls\<rparr>) = Inr (st, s2)"
    and s': "s' = s2\<lparr>ls_stack := take base (ls_stack s2) @ st\<rparr>"
    using assms(1,2) order_edges_run by (auto simp: merge_edges_def low_eqs lcurrent_def llocals_def) metis
  note o = order_edges_run [OF order]
  have from_es: "e \<in> set es \<and> ie_from e = eBlock p" if "edge_from es (eBlock p) = Some e" for p e
    using that by (auto simp: edge_from_def find_Some_iff)
  have in_es: "e \<in> set es" if e: "e \<in> set es'" for e
  proof -
    obtain j where j: "e = es' ! j" "j < length es'" using e by (auto simp: in_set_conv_nth)
    then have "edge_from es (eBlock (Preds (fblk (bf (ls_b s)) t) ! j)) = Some e" using o by (auto simp: list_all2_conv_all_nth)
    then show ?thesis using from_es by blast
  qed
  have ne: "es' \<noteq> []" using e0 by auto
  have lt: "ids_lt (nextV s) (ie_locals e)" "ids_lt (nextV s) (ie_stack e)" "length (ie_locals e) = n" if "e \<in> set es'" for e
    using es in_es [OF that] by (auto simp: edges_ok_def)
  have n: "length (ie_locals e0) = n" using lt(3) e0 by simp
  obtain vs where vs: "s1 = on_func (push_values t vs) s" "phis_pushed t vs" "length ls = n" "slots (nextV s) (bf (ls_b s1)) ls 0 (map ie_locals es')"
      "ids_lt (nextV s1) ls" "{nextV s..<nextV s1} \<subseteq> set ls"
    using merge_slots_run [where m = "merge_local es'" and g = ie_locals and es = es' and k = 0 and r = n and s = s and n = "nextV s",
        OF merge_local_slot _ assms(2) ne lt(1) order_refl] ls n by auto
  let ?s1 = "s1\<lparr>ls_locals := ls\<rparr>"
  have 1: "cur (ls_b ?s1) = Some t" "nextV s \<le> nextV ?s1" using vs(1) assms(2) by (simp_all add: nextV_def)
  obtain ws where ws: "s2 = on_func (push_values t ws) ?s1" "phis_pushed t ws" "length st = r" "slots (nextV s) (bf (ls_b s2)) st 0 (map ie_stack es')"
      "ids_lt (nextV s2) st" "{nextV ?s1..<nextV s2} \<subseteq> set st"
    using merge_slots_run [where m = "merge_result es'" and g = ie_stack and es = es' and k = 0 and r = r and s = ?s1 and n = "nextV s",
        OF merge_result_slot _ 1(1) ne lt(2) 1(2)] st by auto
  have state: "s' = (on_func (push_values t (vs @ ws)) s)\<lparr>ls_locals := ls, ls_stack := take base (ls_stack s) @ st\<rparr>"
    using s' ws(1) vs(1) by (simp add: push_values_append [abs_def])
  have "nextV s1 \<le> nextV s'" "nextV s2 = nextV s'" using state vs(1) ws(1) s' by (simp_all add: nextV_def)
  then have sub: "{nextV s..<nextV s'} \<subseteq> set ls \<union> set st" using vs(6) ws(6) by (force simp: subset_iff not_less)
  have lts: "ids_lt (nextV s') ls" "ids_lt (nextV s') st" using vs(5) ws(5) ids_lt_mono \<open>nextV s1 \<le> nextV s'\<close> \<open>nextV s2 = nextV s'\<close> by auto
  have ls': "slots (nextV s) (bf (ls_b s')) ls 0 (map ie_locals es')"
    using vs(4) s' ws(1) merged_pushes 1(2) by (simp add: slots_def nextV_def)
  have st': "slots (nextV s) (bf (ls_b s')) st 0 (map ie_stack es')" using ws(4) s' by simp
  have slot: "list_all2 (slot_is (nextV s) (bf (ls_b s')) j) ls (ie_locals e) \<and> list_all2 (slot_is (nextV s) (bf (ls_b s')) j) st (ie_stack e)"
    if "j < length (Preds (fblk (bf (ls_b s)) t))" "e \<in> set es" "eBlock (Preds (fblk (bf (ls_b s)) t) ! j) = ie_from e" for j e
  proof -
    have "edge_from es (ie_from e) = Some e" using edge_from_unique es that(2) by (auto simp: edges_ok_def)
    then have e: "es' ! j = e" "j < length es'" using o that(1,3) by (auto simp: list_all2_conv_all_nth)
    have "length (ie_locals e) = n" "length (ie_stack e) = r" using es that(2) by (auto simp: edges_ok_def)
    then show ?thesis
      using slots_slot_is [OF ls' e(2)] slots_slot_is [OF st' e(2)] e(1) vs(3) ws(3) by (simp add: list_all2_conv_all_nth)
  qed
  show ?thesis unfolding join_of_def
    using state slot vs(2,3) ws(2,3) lts sub assms(4) by (intro exI [of _ "vs @ ws"] exI [of _ ls] exI [of _ st]) (auto simp: phis_pushed_def)
qed

lemma resolve_join:
  assumes "resolveIncoming t r base s = Inr ((), s')" and "cur (ls_b s) = Some t" and "edges_ok (nextV s) n r (inc s t)" and "inc s t \<noteq> []"
  shows "join_of t n r base (inc s t) (s\<lparr>ls_incoming := (ls_incoming s)(t := None)\<rparr>) s'"
proof (cases "\<exists>e. inc s t = [e]")
  case True
  then obtain e where e: "inc s t = [e]" by blast
  note r = resolve_single [OF e assms(1)]
  have "ids_lt (nextV s) (ie_locals e)" "ids_lt (nextV s) (ie_stack e)" "length (ie_locals e) = n" "length (ie_stack e) = r"
    using assms(3) e by (auto simp: edges_ok_def)
  then show ?thesis using r e unfolding join_of_def
    by (intro exI [of _ "[]"] exI [of _ "ie_locals e"] exI [of _ "ie_stack e"]) (auto simp: push_values_fun phis_pushed_def slot_is_old)
next
  case False
  then have "1 < length (inc s t)" using assms(4) by (cases "inc s t" rule: remdups_adj.cases) auto
  note m = resolve_many [OF this assms(1)]
  show ?thesis by (rule merge_join) (use m assms in simp_all)
qed

lemma enter_join_run:
  assumes "enter_join t r base s = Inr ((), s')" and "edges_ok (nextV s) n r (inc s t)" and "ls_incoming s t \<noteq> Some []"
  shows "if ls_incoming s t = None then s' = s
    else join_of t n r base (inc s t) (at_block t s\<lparr>ls_unreachable := False, ls_incoming := (ls_incoming s)(t := None)\<rparr>) s'"
proof (cases "ls_incoming s t")
  case None
  then show ?thesis using assms(1) by (simp add: enter_join_def run_simps)
next
  case (Some es)
  let ?s = "at_block t s\<lparr>ls_unreachable := False\<rparr>"
  have r: "resolveIncoming t r base ?s = Inr ((), s')" using assms(1) Some by (simp add: enter_join_def run_simps)
  have "inc ?s t = inc s t" "inc s t \<noteq> []" using Some assms(3) by (simp_all add: inc_def)
  then show ?thesis using resolve_join [OF r, of n] assms(2) Some by simp
qed

section \<open>Alternatives and ends\<close>

definition closed :: "nat \<Rightarrow> nat \<Rightarrow> nat \<Rightarrow> lowerState \<Rightarrow> lowerState" where
  "closed c t r s = on_func (\<lambda>f. AddEdge c t (set_kind BlockPlain c f)) (recorded c t r s)"

text \<open>What flows into the end of a frame from a live cursor.\<close>

definition flowed :: "nat \<Rightarrow> nat \<Rightarrow> lowerState \<Rightarrow> lowerState" where
  "flowed t r s = (if ls_unreachable s then s else closed (the (cur (ls_b s))) t r s)"

definition live_cur :: "lowerState \<Rightarrow> bool" where
  "live_cur s \<longleftrightarrow> \<not> ls_mutableLocals s \<and> (\<not> ls_unreachable s \<longrightarrow> cur (ls_b s) \<noteq> None)"

lemma flow_run:
  assumes "live_cur s"
  shows "lwhen (\<not> ls_unreachable s) (close_into t r) s = Inr ((), flowed t r s)"
  using assms by (auto simp: lwhen_def runs_more flowed_def live_cur_def close_into_run closed_def)

lemma flowed_fields [simp]:
  "ls_stack (flowed t r s) = ls_stack s" "ls_locals (flowed t r s) = ls_locals s" "ls_ctrl (flowed t r s) = ls_ctrl s"
  "ls_localTypes (flowed t r s) = ls_localTypes s" "ls_unreachable (flowed t r s) = ls_unreachable s"
  "ls_rd (flowed t r s) = ls_rd s" "cur (ls_b (flowed t r s)) = cur (ls_b s)" "ls_mutableLocals (flowed t r s) = ls_mutableLocals s"
  by (simp_all add: flowed_def closed_def)

lemma handleElse_run:
  assumes "handleElse s = Inr ((), s')" and "live_cur s" and "ls_ctrl s = fs @ [fr]" and "cf_elseBlk fr = Some e"
  shows "cf_stackHeightAtEntry fr \<le> length (ls_stack s) \<and>
    s' = at_block e (flowed (cf_target fr) (cf_resultCount fr) s
      \<lparr>ls_stack := take (cf_stackHeightAtEntry fr) (ls_stack s), ls_locals := cf_entryLocals fr,
       ls_ctrl := fs @ [fr\<lparr>cf_haveElse := True\<rparr>], ls_unreachable := False\<rparr>)"
proof -
  let ?t = "cf_target fr" and ?r = "cf_resultCount fr" and ?h = "cf_stackHeightAtEntry fr"
  have l: "last (ls_ctrl s) = fr" "ls_ctrl s \<noteq> []" using assms(3) by simp_all
  obtain s1 where 1: "lwhen (\<not> ls_unreachable s) (close_into ?t ?r) s = Inr ((), s1)"
      "(lthen (lcut ?h) (lthen (llocals (cf_entryLocals fr)) (lthen (lsetTop (fr\<lparr>cf_haveElse := True\<rparr>))
        (lthen (ldead False) (lbind (lsome (cf_elseBlk fr)) lsetCurrent))))) s1 = Inr ((), s')"
    using assms(1) unfolding handleElse_def by (auto simp: Let_def l lbind_eq_Inr lthen_eq_Inr lcheck_eq_Inr ldeadNow_def lget_def)
  have "s1 = flowed ?t ?r s" using 1(1) flow_run [OF assms(2), of ?t ?r] by simp
  then show ?thesis using 1(2) assms(3,4)
    by (auto simp: lcut_def low_eqs lstack_def llocals_def lsetTop_def ldead_def lsetCurrent_def at_block_def SetCurrent_def)
qed

lemma end_plain_run:
  assumes "end_plain t fr s = Inr ((), s')" and "live_cur s"
  shows "enter_join t (cf_resultCount fr) (cf_stackHeightAtEntry fr) (flowed t (cf_resultCount fr) s) = Inr ((), s')"
proof -
  obtain s1 where 1: "lwhen (\<not> ls_unreachable s) (close_into t (cf_resultCount fr)) s = Inr ((), s1)"
      "enter_join t (cf_resultCount fr) (cf_stackHeightAtEntry fr) s1 = Inr ((), s')"
    using assms(1) unfolding end_plain_def by (auto simp: lbind_eq_Inr lthen_eq_Inr ldeadNow_def lget_def)
  then show ?thesis using flow_run [OF assms(2), of t "cf_resultCount fr"] by simp
qed

definition else_edge :: "nat \<Rightarrow> nat list \<Rightarrow> incomingEdge" where
  "else_edge e ls = \<lparr>ie_from = e, ie_locals = ls, ie_stack = []\<rparr>"

definition skipped :: "nat \<Rightarrow> nat \<Rightarrow> nat list \<Rightarrow> lowerState \<Rightarrow> lowerState" where
  "skipped e t ls s = on_func (AddEdge e t) (s\<lparr>ls_incoming := (ls_incoming s)(t \<mapsto> inc s t @ [else_edge e ls])\<rparr>)"

lemma implicit_else_run:
  assumes "implicit_else fr s = Inr ((), s')" and "\<not> ls_mutableLocals s" and "cf_elseBlk fr = Some e"
  shows "cf_resultCount fr = 0 \<and> s' = skipped e (cf_target fr) (cf_entryLocals fr) s"
  using assms
  by (auto simp: implicit_else_def low_eqs llocals_def lsetCurrent_def SetCurrent_def recordIncoming_def lcurrent_def lfunc_run
      skipped_def else_edge_def inc_def on_func_def)

lemma end_if_run:
  assumes "end_if fr s = Inr ((), s')" and "live_cur s" and "\<not> cf_haveElse fr \<Longrightarrow> cf_elseBlk fr = Some e"
  shows "(cf_haveElse fr \<longrightarrow>
      enter_join (cf_target fr) (cf_resultCount fr) (cf_stackHeightAtEntry fr) (flowed (cf_target fr) (cf_resultCount fr) s) = Inr ((), s')) \<and>
    (\<not> cf_haveElse fr \<longrightarrow> cf_resultCount fr = 0 \<and>
      enter_join (cf_target fr) 0 (cf_stackHeightAtEntry fr)
        (let c = the (cur (ls_b s)); t = cf_target fr in
         if ls_unreachable s then skipped e t (cf_entryLocals fr) s
         else on_func (\<lambda>f. AddEdge c t (set_kind BlockPlain c f)) (skipped e t (cf_entryLocals fr) (recorded c t 0 s))) = Inr ((), s'))"
proof -
  let ?t = "cf_target fr" and ?r = "cf_resultCount fr" and ?h = "cf_stackHeightAtEntry fr"
  obtain s1 s2 s3 where 1: "lwhen (\<not> ls_unreachable s) (recordIncoming ?t ?r) s = Inr ((), s1)"
      "lwhen (\<not> cf_haveElse fr) (implicit_else fr) s1 = Inr ((), s2)" "lwhen (\<not> ls_unreachable s) (lgoto ?t) s2 = Inr ((), s3)"
      "enter_join ?t ?r ?h s3 = Inr ((), s')"
    using assms(1) unfolding end_if_def by (auto simp: lbind_eq_Inr lthen_eq_Inr ldeadNow_def lget_def)
  have s1: "s1 = (if ls_unreachable s then s else recorded (the (cur (ls_b s))) ?t ?r s)"
    using 1(1) assms(2) by (auto simp: lwhen_def runs_more live_cur_def runs_at)
  then have mut: "\<not> ls_mutableLocals s1" using assms(2) by (auto simp: live_cur_def)
  show ?thesis
  proof (cases "cf_haveElse fr")
    case True
    then have "s2 = s1" using 1(2) by (simp add: lwhen_def runs_more)
    then have "s3 = flowed ?t ?r s" using 1(3) s1 assms(2) by (auto simp: lwhen_def runs_more live_cur_def lgoto_run flowed_def closed_def)
    then show ?thesis using 1(4) True by simp
  next
    case False
    then have s2: "?r = 0" "s2 = skipped e ?t (cf_entryLocals fr) s1"
      using 1(2) implicit_else_run [OF _ mut assms(3)] by (auto simp: lwhen_def)
    then have "cur (ls_b s2) = cur (ls_b s)" using s1 by (simp add: skipped_def)
    then have "s3 = (if ls_unreachable s then s2 else on_func (\<lambda>f. AddEdge (the (cur (ls_b s))) ?t (set_kind BlockPlain (the (cur (ls_b s))) f)) s2)"
      using 1(3) assms(2) by (auto simp: lwhen_def runs_more live_cur_def lgoto_run)
    then show ?thesis using 1(4) False s2 s1 by (cases "ls_unreachable s") (simp_all add: Let_def)
  qed
qed

definition select_f :: "nat \<Rightarrow> nat \<Rightarrow> nat \<Rightarrow> Func \<Rightarrow> Func" where
  "select_f v c b f = AddEdge (b + 1) (b + 2) (AddEdge b (b + 2) (if_f v c b (b + 1) (new_block (new_block (new_block f)))))"

lemma handleSelect_run:
  assumes "ls_stack s = st @ [x, y, v]" and "cur (ls_b s) = Some c"
  shows "\<exists>ty. handleSelect 0x1b s = Inr ((), at_block (bound s + 2)
    ((on_func (\<lambda>f. push_value (bound s + 2) (phi_in (bound s + 2) ty [x, y]) (select_f v c (bound s) f)) s)\<lparr>ls_stack := st @ [nextV s]\<rparr>))"
proof -
  have p: "lpop s = Inr (v, s\<lparr>ls_stack := st @ [x, y]\<rparr>)" "lpop (s\<lparr>ls_stack := st @ [x, y]\<rparr>) = Inr (y, s\<lparr>ls_stack := st @ [x]\<rparr>)"
    "lpop (s\<lparr>ls_stack := st @ [x]\<rparr>) = Inr (x, s\<lparr>ls_stack := st\<rparr>)"
    using assms(1) by (simp_all add: lpop_def butlast_append)
  let ?b = "bound s"
  let ?s = "at_block (?b + 2) ((on_func (select_f v c ?b) s)\<lparr>ls_stack := st\<rparr>)"
  show ?thesis
    apply (rule exI [of _ "vTyp (fval (bf (ls_b s)) x)"])
    using assms(2) lvalue_run(1) [of ?s "?b + 2" OpPhi "vTyp (fval (bf (ls_b ?s)) x)" 0 "[x, y]"]
    by (simp add: handleSelect_def run_simps p if_f_def [abs_def] select_f_def [abs_def] phi_in_def lpush_run bound_def nextV_def)
      (simp add: on_func_def at_block_def bound_def)
qed

end
