(* ===== verification/LowerSim.thy ===== *)
theory LowerSim
  imports LowerRun
begin

text \<open>
  The simulation between a structured piece of code and what its lowering appends: the invariant of
  the lowering's state, how it evolves, and what executing the function does against the reference
  semantics of the code.
\<close>

section \<open>The invariant\<close>

text \<open>The join block of a frame, and the blocks of a frame that control has not entered yet.\<close>

definition fwd :: "ctrlFrame \<Rightarrow> nat" where
  "fwd fr = (if cf_kind fr = ctrlLoop then cf_fallthrough fr else cf_target fr)"

definition pend_blocks :: "ctrlFrame \<Rightarrow> nat list" where
  "pend_blocks fr = fwd fr # (if cf_kind fr = ctrlIf \<and> \<not> cf_haveElse fr then [the (cf_elseBlk fr)] else [])"

definition frame_blocks :: "ctrlFrame \<Rightarrow> nat list" where
  "frame_blocks fr = pend_blocks fr @ (if cf_kind fr = ctrlLoop then [cf_target fr] else [])"

definition pends :: "ctrlFrame list \<Rightarrow> nat set" where
  "pends ctrl = set (concat (map pend_blocks ctrl))"

definition untouched :: "Func \<Rightarrow> nat \<Rightarrow> bool" where
  "untouched f t \<longleftrightarrow> t < nextBlockID f \<and> Values (fblk f t) = [] \<and> Succs (fblk f t) = [] \<and> bKind (fblk f t) = BlockPlain"

definition join_ok :: "lowerState \<Rightarrow> nat \<Rightarrow> nat \<Rightarrow> bool" where
  "join_ok s t r \<longleftrightarrow> edges_ok (nextV s) (length (ls_localTypes s)) r (inc s t) \<and> ls_incoming s t \<noteq> Some [] \<and>
     (\<forall>e \<in> set (inc s t). ie_from e < bound s \<and> Succs (fblk (bf (ls_b s)) (ie_from e)) \<noteq> [])"

definition header_ok :: "lowerState \<Rightarrow> nat \<Rightarrow> bool" where
  "header_ok s h \<longleftrightarrow> h < bound s \<and> length (header_phis (bf (ls_b s)) h) = length (ls_localTypes s) \<and>
     prefix (header_phis (bf (ls_b s)) h) (Values (fblk (bf (ls_b s)) h)) \<and>
     (\<forall>p \<in> set (header_phis (bf (ls_b s)) h). length (vArgs (fval (bf (ls_b s)) p)) = length (Preds (fblk (bf (ls_b s)) h)))"

definition else_ok :: "lowerState \<Rightarrow> ctrlFrame \<Rightarrow> bool" where
  "else_ok s fr \<longleftrightarrow> (cf_kind fr = ctrlIf \<and> \<not> cf_haveElse fr \<longrightarrow>
     cf_elseBlk fr \<noteq> None \<and> ids_lt (nextV s) (cf_entryLocals fr) \<and> length (cf_entryLocals fr) = length (ls_localTypes s))"

definition frame_inv :: "lowerState \<Rightarrow> ctrlFrame \<Rightarrow> bool" where
  "frame_inv s fr \<longleftrightarrow> cf_kind fr \<noteq> ctrlTry \<and> (\<forall>t \<in> set (pend_blocks fr). untouched (bf (ls_b s)) t) \<and>
     join_ok s (fwd fr) (cf_resultCount fr) \<and> else_ok s fr \<and> (cf_kind fr = ctrlLoop \<longrightarrow> header_ok s (cf_target fr))"

definition cur_ok :: "nat \<Rightarrow> lowerState \<Rightarrow> bool" where
  "cur_ok c s \<longleftrightarrow> live_state c s \<and> c \<notin> pends (ls_ctrl s) \<and> Succs (fblk (bf (ls_b s)) c) = []"

text \<open>Nothing is recorded for a block that does not exist.\<close>

definition inc_bound :: "lowerState \<Rightarrow> bool" where
  "inc_bound s \<longleftrightarrow> (\<forall>b. bound s \<le> b \<longrightarrow> ls_incoming s b = None)"

definition ctx :: "lowerState \<Rightarrow> bool" where
  "ctx s \<longleftrightarrow> state_inv s \<and> ls_unreachableDepth s = 0 \<and> \<not> ls_mutableLocals s \<and> \<not> ls_mem64 s \<and> ls_inlineFrames s = [] \<and>
     distinct (concat (map frame_blocks (ls_ctrl s))) \<and> (\<forall>fr \<in> set (ls_ctrl s). frame_inv s fr) \<and>
     (\<not> ls_unreachable s \<longrightarrow> (\<exists>c. cur_ok c s)) \<and> inc_bound s"

lemma ctxD:
  assumes "ctx s"
  shows "state_inv s" "ls_unreachableDepth s = 0" "\<not> ls_mutableLocals s" "\<not> ls_mem64 s" "ls_inlineFrames s = []"
    "distinct (concat (map frame_blocks (ls_ctrl s)))" "fr \<in> set (ls_ctrl s) \<Longrightarrow> frame_inv s fr" "inc_bound s"
  using assms by (simp_all add: ctx_def)

lemma ctx_live:
  assumes "ctx s" and "\<not> ls_unreachable s" and "cur (ls_b s) = Some c"
  shows "cur_ok c s" "live_state c s" "c \<notin> pends (ls_ctrl s)" "Succs (fblk (bf (ls_b s)) c) = []" "c < bound s"
proof -
  obtain c' where c': "cur_ok c' s" using assms(1,2) by (auto simp: ctx_def)
  then show c: "cur_ok c s" using assms(3) by (auto simp: cur_ok_def live_state_def)
  then show "live_state c s" "c \<notin> pends (ls_ctrl s)" "Succs (fblk (bf (ls_b s)) c) = []" by (simp_all add: cur_ok_def)
  show "c < bound s" using state_invD(2) [OF ctxD(1) [OF assms(1)] assms(3)] .
qed

lemma ctx_cur: "ctx s \<Longrightarrow> \<not> ls_unreachable s \<Longrightarrow> \<exists>c. cur (ls_b s) = Some c \<and> cur_ok c s"
  by (auto simp: ctx_def cur_ok_def live_state_def)

lemma ctx_vals: "ctx s \<Longrightarrow> vals_lt (bf (ls_b s))"
  using func_inv_vals_lt state_invD(1) ctxD(1) by blast

lemma pends_mem: "fr \<in> set ctrl \<Longrightarrow> t \<in> set (pend_blocks fr) \<Longrightarrow> t \<in> pends ctrl"
  by (auto simp: pends_def)

lemma header_lt: "vals_lt f \<Longrightarrow> p \<in> set (header_phis f b) \<Longrightarrow> p < nextValueID f"
  by (auto simp: header_phis_def vals_lt_def)

section \<open>Steps that touch no frame\<close>

definition quiet :: "nat \<Rightarrow> lowerState \<Rightarrow> lowerState \<Rightarrow> bool" where
  "quiet c s s' \<longleftrightarrow> grows {c} {} (bf (ls_b s)) (bf (ls_b s')) \<and> ls_localTypes s' = ls_localTypes s \<and>
     (Succs (fblk (bf (ls_b s)) c) \<noteq> [] \<longrightarrow> Succs (fblk (bf (ls_b s')) c) \<noteq> []) \<and>
     (\<forall>b < bound s. Preds (fblk (bf (ls_b s')) b) = Preds (fblk (bf (ls_b s)) b)) \<and>
     (\<forall>i < nextV s. length (vArgs (fval (bf (ls_b s')) i)) = length (vArgs (fval (bf (ls_b s)) i)))"

definition keeps_Succs :: "Func \<Rightarrow> Func \<Rightarrow> bool" where
  "keeps_Succs f f' \<longleftrightarrow> (\<forall>b < nextBlockID f. Succs (fblk f b) \<noteq> [] \<longrightarrow> Succs (fblk f' b) \<noteq> [])"

lemma grows_Succs:
  assumes "grows {c} P f f'" and "Succs (fblk f c) \<noteq> [] \<longrightarrow> Succs (fblk f' c) \<noteq> []"
  shows "keeps_Succs f f'"
  unfolding keeps_Succs_def
proof (intro allI impI)
  fix b assume "b < nextBlockID f" and "Succs (fblk f b) \<noteq> []"
  then show "Succs (fblk f' b) \<noteq> []" using growsD(10) [OF assms(1), of b] same_codeD(3) assms(2) by (cases "b = c") auto
qed

lemma grows_untouched:
  assumes "grows Q P f f'" and "untouched f t" and "t \<notin> Q"
  shows "untouched f' t"
  using growsD(4) [OF assms(1)] growsD(10) [OF assms(1), of t] assms(2,3) same_codeD(1-3) [of "fblk f t" "fblk f' t"]
  by (simp add: untouched_def)

lemma edges_ok_mono: "edges_ok m n r es \<Longrightarrow> m \<le> m' \<Longrightarrow> edges_ok m' n r es"
  by (auto simp: edges_ok_def elim: ids_lt_mono)

lemma join_ok_grows:
  assumes j: "join_ok s t r" and g: "grows Q P (bf (ls_b s)) (bf (ls_b s'))" and "ls_localTypes s' = ls_localTypes s"
    and S: "keeps_Succs (bf (ls_b s)) (bf (ls_b s'))" and i: "ls_incoming s' t = ls_incoming s t"
  shows "join_ok s' t r"
proof -
  have inc: "inc s' t = inc s t" using i by (simp add: inc_def)
  have le: "nextV s \<le> nextV s'" "bound s \<le> bound s'" using growsD(3,4) [OF g] by (simp_all add: nextV_def bound_def)
  have "ie_from e < bound s' \<and> Succs (fblk (bf (ls_b s')) (ie_from e)) \<noteq> []" if "e \<in> set (inc s t)" for e
  proof -
    have "ie_from e < bound s" "Succs (fblk (bf (ls_b s)) (ie_from e)) \<noteq> []" using j that by (auto simp: join_ok_def)
    then show ?thesis using S le by (auto simp: bound_def keeps_Succs_def)
  qed
  then show ?thesis using j edges_ok_mono [OF _ le(1)] assms(3) i inc by (auto simp: join_ok_def)
qed

lemma header_ok_grows:
  assumes h: "header_ok s h" and g: "grows Q P (bf (ls_b s)) (bf (ls_b s'))" and P: "h \<notin> P" and "ls_localTypes s' = ls_localTypes s"
    and len: "\<And>p. p \<in> set (header_phis (bf (ls_b s)) h) \<Longrightarrow> length (vArgs (fval (bf (ls_b s')) p)) = length (Preds (fblk (bf (ls_b s')) h))"
  shows "header_ok s' h"
proof -
  have lt: "h < nextBlockID (bf (ls_b s))" using h by (simp add: header_ok_def bound_def)
  have same: "header_phis (bf (ls_b s')) h = header_phis (bf (ls_b s)) h" by (rule growsD(11) [OF g lt P])
  then have "prefix (header_phis (bf (ls_b s')) h) (Values (fblk (bf (ls_b s')) h))"
    using h growsD(8) [OF g lt] prefix_order.trans by (metis header_ok_def)
  then show ?thesis using h same growsD(4) [OF g] len assms(4) by (auto simp: header_ok_def bound_def)
qed

lemma else_ok_grows:
  assumes "else_ok s fr" and "nextV s \<le> nextV s'" and "ls_localTypes s' = ls_localTypes s"
  shows "else_ok s' fr"
  using assms ids_lt_mono by (auto simp: else_ok_def)

lemma frame_grows:
  assumes fr: "frame_inv s fr" and v: "vals_lt (bf (ls_b s))" and g: "grows Q P (bf (ls_b s)) (bf (ls_b s'))"
    and tys: "ls_localTypes s' = ls_localTypes s" and S: "keeps_Succs (bf (ls_b s)) (bf (ls_b s'))"
    and Q: "Q \<inter> set (pend_blocks fr) = {}" and P: "cf_kind fr = ctrlLoop \<Longrightarrow> cf_target fr \<notin> P"
    and preds: "cf_kind fr = ctrlLoop \<Longrightarrow> Preds (fblk (bf (ls_b s')) (cf_target fr)) = Preds (fblk (bf (ls_b s)) (cf_target fr))"
    and args: "\<And>i. i < nextV s \<Longrightarrow> length (vArgs (fval (bf (ls_b s')) i)) = length (vArgs (fval (bf (ls_b s)) i))"
    and i: "ls_incoming s' (fwd fr) = ls_incoming s (fwd fr)"
  shows "frame_inv s' fr"
proof -
  have "untouched (bf (ls_b s')) t" if "t \<in> set (pend_blocks fr)" for t
    using grows_untouched [OF g] fr that Q by (auto simp: frame_inv_def)
  moreover have "join_ok s' (fwd fr) (cf_resultCount fr)" using join_ok_grows [OF _ g tys S i] fr by (simp add: frame_inv_def)
  moreover have "else_ok s' fr" using else_ok_grows [OF _ _ tys] fr growsD(3) [OF g] by (simp add: frame_inv_def nextV_def)
  moreover have "header_ok s' (cf_target fr)" if l: "cf_kind fr = ctrlLoop"
  proof -
    have h: "header_ok s (cf_target fr)" using fr l by (simp add: frame_inv_def)
    show ?thesis
      by (rule header_ok_grows [OF h g P [OF l] tys]) (use h preds [OF l] args header_lt [OF v] in \<open>simp add: header_ok_def nextV_def\<close>)
  qed
  ultimately show ?thesis using fr by (simp add: frame_inv_def)
qed

lemma header_bound: "frame_inv s fr \<Longrightarrow> cf_kind fr = ctrlLoop \<Longrightarrow> cf_target fr < bound s"
  by (simp add: frame_inv_def header_ok_def)

lemma quiet_frame:
  assumes q: "quiet c s s'" and fr: "frame_inv s fr" and c: "c \<notin> set (pend_blocks fr)" and v: "vals_lt (bf (ls_b s))"
    and i: "ls_incoming s' (fwd fr) = ls_incoming s (fwd fr)"
  shows "frame_inv s' fr"
  by (rule frame_grows [OF fr v, where Q = "{c}" and P = "{}"])
    (use q c i header_bound [OF fr] grows_Succs in \<open>auto simp: quiet_def\<close>)

section \<open>Steps that add an edge into a frame\<close>

text \<open>The block a branch to the frame goes to is in the frame, and in no other.\<close>

lemma frame_blocks_distinct:
  assumes "distinct (concat (map frame_blocks ctrl))" and "fr \<in> set ctrl" and "fr' \<in> set ctrl" and "fr \<noteq> fr'"
  shows "set (frame_blocks fr) \<inter> set (frame_blocks fr') = {}"
  using assms
proof (induction ctrl)
  case (Cons x ctrl)
  have in_concat: "set (frame_blocks y) \<subseteq> set (concat (map frame_blocks ctrl))" if "y \<in> set ctrl" for y using that by auto
  show ?case
  proof (cases "x = fr \<or> x = fr'")
    case True
    then show ?thesis using Cons.prems in_concat [of fr] in_concat [of fr'] by (auto simp: disjoint_iff)
  next
    case False
    then show ?thesis using Cons by auto
  qed
qed simp

lemma distinct_frame: "distinct (concat (map frame_blocks ctrl)) \<Longrightarrow> fr \<in> set ctrl \<Longrightarrow> distinct (frame_blocks fr)"
  by (induction ctrl) auto

lemma frame_blocks_mem: "fwd fr \<in> set (frame_blocks fr)" "cf_target fr \<in> set (frame_blocks fr)" "set (pend_blocks fr) \<subseteq> set (frame_blocks fr)"
  by (auto simp: frame_blocks_def pend_blocks_def fwd_def)

lemma header_not_pending:
  assumes "distinct (concat (map frame_blocks ctrl))" and "fr \<in> set ctrl" and "cf_kind fr = ctrlLoop"
  shows "cf_target fr \<notin> pends ctrl"
proof
  assume "cf_target fr \<in> pends ctrl"
  then obtain fr' where fr': "fr' \<in> set ctrl" "cf_target fr \<in> set (pend_blocks fr')" by (auto simp: pends_def)
  show False
  proof (cases "fr = fr'")
    case True
    then show ?thesis using distinct_frame [OF assms(1,2)] assms(3) fr'(2) by (auto simp: frame_blocks_def pend_blocks_def)
  next
    case False
    then show ?thesis using frame_blocks_distinct [OF assms(1,2) fr'(1)] frame_blocks_mem(2) [of fr] frame_blocks_mem(3) [of fr'] fr'(2)
      by blast
  qed
qed

lemma header_phis_disjoint:
  assumes "func_inv f" and "p \<in> set (header_phis f b)" and "p \<in> set (header_phis f b')"
  shows "b = b'"
proof -
  have "vBlock (fval f p) = Some c" if "p \<in> set (header_phis f c)" for c
    using that assms(1) by (simp add: header_phis_def func_inv_def values_inv_def)
  from this [OF assms(2)] this [OF assms(3)] show ?thesis by simp
qed

definition hits :: "nat \<Rightarrow> nat \<Rightarrow> incomingEdge \<Rightarrow> bool \<Rightarrow> lowerState \<Rightarrow> lowerState \<Rightarrow> bool" where
  "hits c t e loop s s' \<longleftrightarrow> grows {c} {} (bf (ls_b s)) (bf (ls_b s')) \<and> ls_localTypes s' = ls_localTypes s \<and>
     Succs (fblk (bf (ls_b s')) c) \<noteq> [] \<and>
     (\<forall>b < bound s. b \<noteq> t \<longrightarrow> Preds (fblk (bf (ls_b s')) b) = Preds (fblk (bf (ls_b s)) b)) \<and>
     length (Preds (fblk (bf (ls_b s')) t)) = Suc (length (Preds (fblk (bf (ls_b s)) t))) \<and>
     (\<forall>i < nextV s. length (vArgs (fval (bf (ls_b s')) i)) =
        (if loop \<and> i \<in> set (header_phis (bf (ls_b s)) t) then Suc (length (vArgs (fval (bf (ls_b s)) i)))
         else length (vArgs (fval (bf (ls_b s)) i)))) \<and>
     ls_incoming s' = (ls_incoming s)(t \<mapsto> inc s t @ [e]) \<and> ie_from e = c \<and>
     ids_lt (nextV s) (ie_locals e) \<and> ids_lt (nextV s) (ie_stack e) \<and> length (ie_locals e) = length (ls_localTypes s) \<and> c < bound s"

lemma hits_frames:
  assumes h: "hits c t e (cf_kind fr0 = ctrlLoop) s s'" and fr0: "fr0 \<in> set ctrl" and t: "t = cf_target fr0 \<or> t = fwd fr0"
    and d: "distinct (concat (map frame_blocks ctrl))" and fr: "fr \<in> set ctrl" "frame_inv s fr" and c: "c \<notin> pends ctrl"
    and inv: "func_inv (bf (ls_b s))" and r: "t = fwd fr0 \<Longrightarrow> length (ie_stack e) = cf_resultCount fr0"
    and fresh: "t = fwd fr0 \<Longrightarrow> c \<notin> ie_from ` set (inc s t)"
  shows "frame_inv s' fr"
proof -
  have g: "grows {c} {} (bf (ls_b s)) (bf (ls_b s'))" and tys: "ls_localTypes s' = ls_localTypes s"
    and S: "Succs (fblk (bf (ls_b s')) c) \<noteq> []" and i: "ls_incoming s' = (ls_incoming s)(t \<mapsto> inc s t @ [e])"
    using h by (simp_all add: hits_def)
  have S': "keeps_Succs (bf (ls_b s)) (bf (ls_b s'))" by (rule grows_Succs [OF g]) (simp add: S)
  have le: "nextV s \<le> nextV s'" "bound s \<le> bound s'" using growsD(3,4) [OF g] by (simp_all add: nextV_def bound_def)
  have c': "c \<notin> set (pend_blocks fr)" using c fr(1) by (auto simp: pends_def)
  have t_in: "t \<in> set (frame_blocks fr0)" using t frame_blocks_mem(1,2) by auto
  have other: "fr = fr0" if "t \<in> set (frame_blocks fr)"
    using frame_blocks_distinct [OF d fr(1) fr0] t_in that by blast
  have "untouched (bf (ls_b s')) b" if "b \<in> set (pend_blocks fr)" for b
    using grows_untouched [OF g] fr(2) that c' by (auto simp: frame_inv_def)
  moreover have "else_ok s' fr" using else_ok_grows [OF _ le(1) tys] fr(2) by (simp add: frame_inv_def)
  moreover have "join_ok s' (fwd fr) (cf_resultCount fr)"
  proof (cases "fwd fr = t")
    case False
    then show ?thesis using join_ok_grows [OF _ g tys S'] fr(2) i by (simp add: frame_inv_def)
  next
    case True
    then have fr_eq: "fr = fr0" using other frame_blocks_mem(1) [of fr] by simp
    have j: "join_ok s t (cf_resultCount fr)" using fr(2) True by (simp add: frame_inv_def)
    have inc: "inc s' t = inc s t @ [e]" using i by (simp add: inc_def)
    have "edges_ok (nextV s) (length (ls_localTypes s)) (cf_resultCount fr) (inc s t @ [e])"
      using j h r fresh True fr_eq by (auto simp: join_ok_def edges_ok_def hits_def)
    then have "edges_ok (nextV s') (length (ls_localTypes s')) (cf_resultCount fr) (inc s' t)"
      using edges_ok_mono [OF _ le(1)] inc tys by simp
    moreover have "ie_from e' < bound s' \<and> Succs (fblk (bf (ls_b s')) (ie_from e')) \<noteq> []" if "e' \<in> set (inc s' t)" for e'
    proof (cases "e' = e")
      case True
      then show ?thesis using h le(2) by (auto simp: hits_def)
    next
      case False
      then have "ie_from e' < bound s" "Succs (fblk (bf (ls_b s)) (ie_from e')) \<noteq> []"
        using that inc j by (auto simp: join_ok_def)
      then show ?thesis using S' le(2) by (simp add: bound_def keeps_Succs_def)
    qed
    ultimately show ?thesis using i True by (simp add: join_ok_def)
  qed
  moreover have "header_ok s' (cf_target fr)" if l: "cf_kind fr = ctrlLoop"
  proof -
    have hd: "header_ok s (cf_target fr)" using fr(2) l by (simp add: frame_inv_def)
    have P: "length (Preds (fblk (bf (ls_b s')) b)) = length (Preds (fblk (bf (ls_b s)) b)) + (if b = t then 1 else 0)" if "b < bound s" for b
      using h that by (auto simp: hits_def)
    have same: "(cf_kind fr0 = ctrlLoop \<and> p \<in> set (header_phis (bf (ls_b s)) t)) = (cf_target fr = t)"
      if p: "p \<in> set (header_phis (bf (ls_b s)) (cf_target fr))" for p
    proof
      assume "cf_kind fr0 = ctrlLoop \<and> p \<in> set (header_phis (bf (ls_b s)) t)"
      then show "cf_target fr = t" using header_phis_disjoint [OF inv p] by blast
    next
      assume eq: "cf_target fr = t"
      then have "fr = fr0" using other frame_blocks_mem(2) [of fr] by simp
      then show "cf_kind fr0 = ctrlLoop \<and> p \<in> set (header_phis (bf (ls_b s)) t)" using l p eq by simp
    qed
    have A: "length (vArgs (fval (bf (ls_b s')) p)) = length (vArgs (fval (bf (ls_b s)) p)) + (if cf_target fr = t then 1 else 0)"
      if p: "p \<in> set (header_phis (bf (ls_b s)) (cf_target fr))" for p
    proof -
      have "p < nextV s" using header_lt [OF func_inv_vals_lt [OF inv] p] by (simp add: nextV_def)
      then have "length (vArgs (fval (bf (ls_b s')) p)) =
          (if cf_kind fr0 = ctrlLoop \<and> p \<in> set (header_phis (bf (ls_b s)) t) then Suc (length (vArgs (fval (bf (ls_b s)) p)))
           else length (vArgs (fval (bf (ls_b s)) p)))" using h by (simp add: hits_def)
      then show ?thesis unfolding same [OF p] by simp
    qed
    have b: "cf_target fr < bound s" "\<And>p. p \<in> set (header_phis (bf (ls_b s)) (cf_target fr)) \<Longrightarrow>
        length (vArgs (fval (bf (ls_b s)) p)) = length (Preds (fblk (bf (ls_b s)) (cf_target fr)))"
      using hd by (simp_all add: header_ok_def)
    show ?thesis proof (rule header_ok_grows [OF hd g _ tys])
      show "cf_target fr \<notin> {}" by simp
      show "length (vArgs (fval (bf (ls_b s')) p)) = length (Preds (fblk (bf (ls_b s')) (cf_target fr)))"
        if "p \<in> set (header_phis (bf (ls_b s)) (cf_target fr))" for p
        by (simp only: A [OF that] b(2) [OF that] P [OF b(1)])
    qed
  qed
  ultimately show ?thesis using fr(2) by (simp add: frame_inv_def)
qed

section \<open>Later states\<close>

definition opens :: "lowerState \<Rightarrow> nat set" where
  "opens s = pends (ls_ctrl s) \<union> (if ls_unreachable s then {} else {the (cur (ls_b s))})"

definition later :: "nat \<Rightarrow> lowerState \<Rightarrow> lowerState \<Rightarrow> bool" where
  "later base s s' \<longleftrightarrow> ls_ctrl s' = ls_ctrl s \<and> ls_localTypes s' = ls_localTypes s \<and> ls_ft s' = ls_ft s \<and>
     grows (opens s) (pends (ls_ctrl s)) (bf (ls_b s)) (bf (ls_b s')) \<and> (\<forall>b \<in> opens s'. b \<in> opens s \<or> bound s \<le> b) \<and>
     base \<le> length (ls_stack s') \<and> take base (ls_stack s') = take base (ls_stack s) \<and>
     (\<forall>fr \<in> set (ls_ctrl s). prefix (inc s (fwd fr)) (inc s' (fwd fr)))"

lemma later_refl: "base \<le> length (ls_stack s) \<Longrightarrow> later base s s"
  by (simp add: later_def)

lemma later_trans:
  assumes "later base s s'" and "later base s' s''"
  shows "later base s s''"
proof -
  have ctrl: "ls_ctrl s' = ls_ctrl s" using assms(1) by (simp add: later_def)
  have g: "grows (opens s) (pends (ls_ctrl s)) (bf (ls_b s)) (bf (ls_b s'))" using assms(1) by (simp add: later_def)
  have "grows (opens s) (pends (ls_ctrl s)) (bf (ls_b s)) (bf (ls_b s''))"
    by (rule grows_trans [OF g, where Q' = "opens s'" and P' = "pends (ls_ctrl s')"]) (use assms in \<open>auto simp: later_def bound_def\<close>)
  moreover have "bound s \<le> bound s'" using growsD(4) [OF g] by (simp add: bound_def)
  moreover have "prefix (inc s (fwd fr)) (inc s'' (fwd fr))" if "fr \<in> set (ls_ctrl s)" for fr
    by (rule prefix_order.trans [of _ "inc s' (fwd fr)"]) (use that assms ctrl in \<open>auto simp: later_def\<close>)
  ultimately show ?thesis using assms by (auto simp: later_def)
qed

lemma later_le: "later base s s' \<Longrightarrow> nextV s \<le> nextV s' \<and> bound s \<le> bound s'"
  using growsD(3,4) by (auto simp: later_def nextV_def bound_def)

text \<open>What a later function keeps of the one at hand.\<close>

definition extends :: "lowerState \<Rightarrow> Func \<Rightarrow> bool" where
  "extends s F \<longleftrightarrow> grows (opens s) (pends (ls_ctrl s)) (bf (ls_b s)) F"

lemma extends_later: "extends s' F \<Longrightarrow> later base s s' \<Longrightarrow> extends s F"
  unfolding extends_def later_def by (rule grows_trans [where g = "bf (ls_b s')" and Q' = "opens s'" and P' = "pends (ls_ctrl s')"]) (auto simp: bound_def)

section \<open>The simulation\<close>

definition here :: "lowerState \<Rightarrow> env \<Rightarrow> guest \<Rightarrow> config" where
  "here s env st = (the (cur (ls_b s)), length (Values (fblk (bf (ls_b s)) (the (cur (ls_b s))))), env, st)"

text \<open>Control arrives at the target of a frame by the edge \<open>j\<close>, with the locals and operands the edge was recorded with.\<close>

definition arrives :: "lowerState \<Rightarrow> ctrlFrame \<Rightarrow> nat \<Rightarrow> env \<Rightarrow> wval list \<Rightarrow> wval list \<Rightarrow> bool" where
  "arrives s fr j env ls ws \<longleftrightarrow>
     (let f = bf (ls_b s); t = cf_target fr in
      j < length (Preds (fblk f t)) \<and>
      (if cf_kind fr = ctrlLoop then
         \<exists>xs. denotes env xs ls \<and> list_all2 (\<lambda>p x. j < length (vArgs (fval f p)) \<and> vArgs (fval f p) ! j = Some x) (header_phis f t) xs
       else
         \<exists>e \<in> set (inc s t). eBlock (Preds (fblk f t) ! j) = ie_from e \<and> denotes env (ie_locals e) ls \<and>
           cf_resultCount fr \<le> length ws \<and> denotes env (ie_stack e) (rev (take (cf_resultCount fr) ws))))"

definition reaches :: "guest sem \<Rightarrow> Func \<Rightarrow> lowerState \<Rightarrow> nat \<Rightarrow> nat \<Rightarrow> config \<Rightarrow> env \<Rightarrow> wres \<Rightarrow> bool" where
  "reaches sem F s' base m cfg env r \<longleftrightarrow>
     (case r of
        WStuck \<Rightarrow> True
      | WTimeout \<Rightarrow> True
      | WTrap st' \<Rightarrow> leads sem F cfg (\<lambda>k. Trap st')
      | WReturned ws st' \<Rightarrow> leads sem F cfg (\<lambda>k. Done (Return (rev ws) st'))
      | WNormal ws ls st' \<Rightarrow> \<exists>env'. \<not> ls_unreachable s' \<and> leads sem F cfg (\<lambda>k. resume k sem F (here s' env' st')) \<and>
          agree m env env' \<and> denotes env' (drop base (ls_stack s')) (rev ws) \<and> denotes env' (ls_locals s') ls
      | WBranch d ws ls st' \<Rightarrow> \<exists>env' j. d < length (ls_ctrl s') \<and> agree m env env' \<and>
          leads sem F cfg (\<lambda>k. run k sem F (cf_target (label s' d)) j env' st') \<and> arrives s' (label s' d) j env' ls ws)"

text \<open>The lowering that goes from \<open>s\<close> to \<open>s'\<close> does what \<open>res\<close> says of operands, locals and the guest's state.\<close>

definition simulates :: "(nat \<Rightarrow> wval list \<Rightarrow> wval list \<Rightarrow> guest \<Rightarrow> wres) \<Rightarrow> nat \<Rightarrow> lowerState \<Rightarrow> lowerState \<Rightarrow> bool" where
  "simulates res base s s' \<longleftrightarrow> ctx s' \<and> later base s s' \<and>
     (\<forall>ps ext F k env ws ls st. extends s' F \<longrightarrow> denotes env (drop base (ls_stack s)) (rev ws) \<longrightarrow> denotes env (ls_locals s) ls \<longrightarrow>
        reaches (rt_sem ps ext) F s' base (nextV s) (here s env st) env (res k ws ls st))"

lemma arrives_later:
  assumes a: "arrives s fr j env ls ws" and l: "later base s s'" and fr: "fr \<in> set (ls_ctrl s)" and s: "ctx s"
  shows "arrives s' fr j env ls ws"
proof -
  let ?f = "bf (ls_b s)" and ?f' = "bf (ls_b s')" and ?t = "cf_target fr"
  have g: "grows (opens s) (pends (ls_ctrl s)) ?f ?f'" using l by (simp add: later_def)
  have inv: "frame_inv s fr" using ctxD(7) [OF s fr] .
  have t: "?t < nextBlockID ?f"
    using inv by (auto simp: frame_inv_def untouched_def header_ok_def pend_blocks_def fwd_def bound_def split: if_splits)
  have P: "prefix (Preds (fblk ?f ?t)) (Preds (fblk ?f' ?t))" by (rule growsD(9) [OF g t])
  have j: "j < length (Preds (fblk ?f ?t))" using a by (simp add: arrives_def Let_def)
  then have P': "j < length (Preds (fblk ?f' ?t)) \<and> Preds (fblk ?f' ?t) ! j = Preds (fblk ?f ?t) ! j"
    using P by (auto simp: prefix_def nth_append)
  show ?thesis
  proof (cases "cf_kind fr = ctrlLoop")
    case False
    then have "fwd fr = ?t" by (simp add: fwd_def)
    then have "set (inc s ?t) \<subseteq> set (inc s' ?t)" using l fr set_mono_prefix by (force simp: later_def)
    then show ?thesis using a P' False by (auto simp: arrives_def Let_def)
  next
    case True
    then have "?t \<notin> pends (ls_ctrl s)" using header_not_pending ctxD(6) [OF s] fr by blast
    then have same: "header_phis ?f' ?t = header_phis ?f ?t" using growsD(11) [OF g t] by simp
    obtain xs where xs: "denotes env xs ls"
        "list_all2 (\<lambda>p x. j < length (vArgs (fval ?f p)) \<and> vArgs (fval ?f p) ! j = Some x) (header_phis ?f ?t) xs"
      using a True by (auto simp: arrives_def Let_def)
    have "list_all2 (\<lambda>p x. j < length (vArgs (fval ?f' p)) \<and> vArgs (fval ?f' p) ! j = Some x) (header_phis ?f ?t) xs"
    proof (rule list.rel_mono_strong [OF xs(2)])
      fix p x assume "p \<in> set (header_phis ?f ?t)" and px: "j < length (vArgs (fval ?f p)) \<and> vArgs (fval ?f p) ! j = Some x"
      then have "p < nextValueID ?f" using header_lt [OF ctx_vals [OF s]] by blast
      from growsD(6) [OF g this] show "j < length (vArgs (fval ?f' p)) \<and> vArgs (fval ?f' p) ! j = Some x"
        using px by (auto simp: prefix_def nth_append)
    qed
    then show ?thesis using True P' xs(1) same by (auto simp: arrives_def Let_def)
  qed
qed

lemma reaches_simps [simp]:
  "reaches sem F s' base m cfg env WStuck" "reaches sem F s' base m cfg env WTimeout"
  "reaches sem F s' base m cfg env (WTrap st') = leads sem F cfg (\<lambda>k. Trap st')"
  "reaches sem F s' base m cfg env (WReturned ws st') = leads sem F cfg (\<lambda>k. Done (Return (rev ws) st'))"
  by (simp_all add: reaches_def)

lemma reaches_normal:
  "reaches sem F s' base m cfg env (WNormal ws ls st') \<longleftrightarrow>
     (\<exists>env'. \<not> ls_unreachable s' \<and> leads sem F cfg (\<lambda>k. resume k sem F (here s' env' st')) \<and>
          agree m env env' \<and> denotes env' (drop base (ls_stack s')) (rev ws) \<and> denotes env' (ls_locals s') ls)"
  by (simp add: reaches_def)

lemma reaches_branch:
  "reaches sem F s' base m cfg env (WBranch d ws ls st') \<longleftrightarrow>
     (\<exists>env' j. d < length (ls_ctrl s') \<and> agree m env env' \<and>
        leads sem F cfg (\<lambda>k. run k sem F (cf_target (label s' d)) j env' st') \<and> arrives s' (label s' d) j env' ls ws)"
  by (simp add: reaches_def)

lemma label_mem: "d < length (ls_ctrl s) \<Longrightarrow> label s d \<in> set (ls_ctrl s)"
  by (simp add: label_def)

text \<open>Going on from a point that has been led to.\<close>

lemma reaches_from:
  assumes r: "reaches sem F s' base m' cfg' env' res" and "leads sem F cfg (\<lambda>k. resume k sem F cfg')" and "agree m env env'" and "m \<le> m'"
  shows "reaches sem F s' base m cfg env res"
proof (cases res)
  case (WNormal ws ls st)
  then show ?thesis using r agree_trans [OF assms(3) _ assms(4)] leads_trans [OF assms(2)] by (auto simp: reaches_normal)
next
  case (WBranch d ws ls st)
  then show ?thesis using r agree_trans [OF assms(3) _ assms(4)] leads_trans [OF assms(2)] unfolding WBranch reaches_branch by blast
qed (use r leads_trans [OF assms(2)] in simp_all)

text \<open>An end that is not the regular one stays an end.\<close>

lemma reaches_later:
  assumes r: "reaches sem F s base m cfg env res" and l: "later base' s s'" and s: "ctx s" and "\<And>ws ls st. res \<noteq> WNormal ws ls st"
  shows "reaches sem F s' base'' m cfg env res"
proof (cases res)
  case (WBranch d ws ls st)
  have "label s' d = label s d" "length (ls_ctrl s') = length (ls_ctrl s)" using l by (simp_all add: label_def later_def)
  then show ?thesis using r arrives_later [OF _ l _ s] label_mem [of d s] unfolding WBranch reaches_branch by fastforce
qed (use r assms(4) in auto)

section \<open>Reading on changes nothing\<close>

lemma rd_irrelevant [simp]:
  "opens (s\<lparr>ls_rd := r\<rparr>) = opens s" "here (s\<lparr>ls_rd := r\<rparr>) = here s" "frame_inv (s\<lparr>ls_rd := r\<rparr>) fr = frame_inv s fr"
  "later base (s\<lparr>ls_rd := r\<rparr>) s' = later base s s'" "later base s (s'\<lparr>ls_rd := r\<rparr>) = later base s s'"
  "cur_ok c (s\<lparr>ls_rd := r\<rparr>) = cur_ok c s" "ctx (s\<lparr>ls_rd := r\<rparr>) = ctx s" "extends (s\<lparr>ls_rd := r\<rparr>) F = extends s F"
  "arrives (s\<lparr>ls_rd := r\<rparr>) = arrives s" "reaches sem F (s\<lparr>ls_rd := r\<rparr>) = reaches sem F s"
  "live_state c (s\<lparr>ls_rd := r\<rparr>) = live_state c s"
proof -
  show 1: "opens (s\<lparr>ls_rd := r\<rparr>) = opens s" for s :: lowerState by (simp add: opens_def)
  show "here (s\<lparr>ls_rd := r\<rparr>) = here s" by (simp add: here_def fun_eq_iff)
  show 2: "frame_inv (s\<lparr>ls_rd := r\<rparr>) fr = frame_inv s fr" for s fr
    by (simp add: frame_inv_def join_ok_def header_ok_def else_ok_def)
  show "later base (s\<lparr>ls_rd := r\<rparr>) s' = later base s s'" "later base s (s'\<lparr>ls_rd := r\<rparr>) = later base s s'"
    by (simp_all add: later_def 1)
  show 3: "live_state c (s\<lparr>ls_rd := r\<rparr>) = live_state c s" for c by (simp add: live_state_def)
  show 4: "cur_ok c (s\<lparr>ls_rd := r\<rparr>) = cur_ok c s" for c by (simp add: cur_ok_def 3)
  show "ctx (s\<lparr>ls_rd := r\<rparr>) = ctx s" by (simp add: ctx_def 2 4 inc_bound_def)
  show "extends (s\<lparr>ls_rd := r\<rparr>) F = extends s F" by (simp add: extends_def 1)
  show 5: "arrives (s\<lparr>ls_rd := r\<rparr>) = arrives s" by (simp add: arrives_def fun_eq_iff)
  show "reaches sem F (s\<lparr>ls_rd := r\<rparr>) = reaches sem F s"
    by (simp add: reaches_def here_def 5 label_def fun_eq_iff split: wres.split)
qed

lemma simulates_rd [simp]:
  "simulates res base (s\<lparr>ls_rd := r\<rparr>) s' = simulates res base s s'" "simulates res base s (s'\<lparr>ls_rd := r\<rparr>) = simulates res base s s'"
  by (simp_all add: simulates_def)

section \<open>Sequences\<close>

lemma sim_nil:
  assumes "ctx s" and "\<not> ls_unreachable s" and "base \<le> length (ls_stack s)"
  shows "simulates (\<lambda>k. weval k n []) base s s"
  unfolding simulates_def
proof (intro conjI allI impI)
  show "ctx s" by (rule assms(1))
  show "later base s s" by (rule later_refl [OF assms(3)])
  fix ps ext F k env ws ls st
  assume "denotes env (drop base (ls_stack s)) (rev ws)" "denotes env (ls_locals s) ls"
  then show "reaches (rt_sem ps ext) F s base (nextV s) (here s env st) env (weval k n [] ws ls st)"
    using assms(2) leads_refl agree_refl by (cases k) (simp, fastforce simp: reaches_normal)
qed

lemma sim_cons:
  assumes i: "simulates (\<lambda>k. wexec k n i) base s s1" and js: "\<not> ls_unreachable s1 \<Longrightarrow> simulates (\<lambda>k. weval k n js) base s1 s'"
    and dead: "ls_unreachable s1 \<Longrightarrow> s' = s1"
  shows "simulates (\<lambda>k. weval k n (i # js)) base s s'"
  unfolding simulates_def
proof (intro conjI allI impI)
  have l1: "later base s s1" and c1: "ctx s1" using i by (simp_all add: simulates_def)
  have l2: "later base s1 s'" using js dead later_refl l1 by (cases "ls_unreachable s1") (auto simp: simulates_def later_def)
  show "ctx s'" using js dead c1 by (cases "ls_unreachable s1") (simp_all add: simulates_def)
  show "later base s s'" by (rule later_trans [OF l1 l2])
  fix ps ext F k env ws ls st
  assume F: "extends s' F" and d: "denotes env (drop base (ls_stack s)) (rev ws)" "denotes env (ls_locals s) ls"
  let ?sem = "rt_sem ps ext"
  show "reaches ?sem F s' base (nextV s) (here s env st) env (weval k n (i # js) ws ls st)"
  proof (cases k)
    case (Suc k)
    have F1: "extends s1 F" by (rule extends_later [OF F l2])
    have r: "reaches ?sem F s1 base (nextV s) (here s env st) env (wexec k n i ws ls st)"
      using i F1 d unfolding simulates_def by blast
    show ?thesis
    proof (cases "\<exists>ws1 ls1 st1. wexec k n i ws ls st = WNormal ws1 ls1 st1")
      case True
      then obtain ws1 ls1 st1 where w: "wexec k n i ws ls st = WNormal ws1 ls1 st1" by blast
      then obtain env1 where e: "\<not> ls_unreachable s1" "leads ?sem F (here s env st) (\<lambda>k. resume k ?sem F (here s1 env1 st1))"
          "agree (nextV s) env env1" "denotes env1 (drop base (ls_stack s1)) (rev ws1)" "denotes env1 (ls_locals s1) ls1"
        using r by (auto simp: reaches_normal)
      have "reaches ?sem F s' base (nextV s1) (here s1 env1 st1) env1 (weval k n js ws1 ls1 st1)"
        using js [OF e(1)] F e(4,5) unfolding simulates_def by blast
      from reaches_from [OF this e(2,3)] show ?thesis using later_le [OF l1] w Suc by simp
    next
      case False
      then have "reaches ?sem F s' base (nextV s) (here s env st) env (wexec k n i ws ls st)"
        using reaches_later [OF r l2 c1] by blast
      then show ?thesis using False Suc by (cases "wexec k n i ws ls st") auto
    qed
  qed simp
qed

section \<open>Instructions without control flow\<close>

definition same_consts :: "lowerState \<Rightarrow> lowerState \<Rightarrow> bool" where
  "same_consts s s' \<longleftrightarrow> ls_unreachableDepth s' = ls_unreachableDepth s \<and> ls_mutableLocals s' = ls_mutableLocals s \<and>
     ls_mem64 s' = ls_mem64 s \<and> ls_inlineFrames s' = ls_inlineFrames s \<and> ls_ft s' = ls_ft s \<and> ls_localTypes s' = ls_localTypes s"

lemma ctx_quiet:
  assumes s: "ctx s" and "state_inv s'" and q: "quiet c s s'" and "c \<notin> pends (ls_ctrl s)" and "ls_ctrl s' = ls_ctrl s"
    and "ls_incoming s' = ls_incoming s" and "same_consts s s'" and "\<not> ls_unreachable s' \<Longrightarrow> \<exists>c. cur_ok c s'"
  shows "ctx s'"
proof -
  have "frame_inv s' fr" if fr: "fr \<in> set (ls_ctrl s)" for fr
    by (rule quiet_frame [OF q ctxD(7) [OF s fr] _ ctx_vals [OF s]]) (use assms(4,6) pends_mem [OF fr] in auto)
  moreover have "inc_bound s'" using ctxD(8) [OF s] q growsD(4) assms(6) by (fastforce simp: inc_bound_def quiet_def bound_def)
  ultimately show ?thesis using assms ctxD [OF s] by (auto simp: ctx_def same_consts_def)
qed

lemma later_quiet:
  assumes s: "ctx s" "\<not> ls_unreachable s" "cur (ls_b s) = Some c" and q: "quiet c s s'" and "ls_ctrl s' = ls_ctrl s"
    and "ls_incoming s' = ls_incoming s" and "same_consts s s'"
    and "\<not> ls_unreachable s' \<Longrightarrow> cur (ls_b s') = Some c' \<and> (c' = c \<or> bound s \<le> c')"
    and "base \<le> length (ls_stack s')" "take base (ls_stack s') = take base (ls_stack s)"
  shows "later base s s'"
proof -
  have "grows (opens s) (pends (ls_ctrl s)) (bf (ls_b s)) (bf (ls_b s'))"
    using q grows_mono [of "{c}" "{}"] s(2,3) by (auto simp: quiet_def opens_def)
  then show ?thesis using assms(5-10) s(2,3) by (auto simp: later_def opens_def same_consts_def inc_def)
qed

lemma wexec_plain: "plain_code i = Some x \<Longrightarrow> wexec (Suc k) n i ws ls st = plain_sem i ws ls st"
  by (cases i) simp_all

lemma appended_fields [simp]:
  "ls_stack (appended c vs stk locs rd s) = stk" "ls_locals (appended c vs stk locs rd s) = locs" "ls_rd (appended c vs stk locs rd s) = rd"
  "bf (ls_b (appended c vs stk locs rd s)) = push_values c vs (bf (ls_b s))" "cur (ls_b (appended c vs stk locs rd s)) = cur (ls_b s)"
  "ls_ctrl (appended c vs stk locs rd s) = ls_ctrl s" "ls_incoming (appended c vs stk locs rd s) = ls_incoming s"
  "ls_unreachable (appended c vs stk locs rd s) = ls_unreachable s" "ls_localTypes (appended c vs stk locs rd s) = ls_localTypes s"
  "nextV (appended c vs stk locs rd s) = nextV s + length vs" "same_consts s (appended c vs stk locs rd s)"
  "ls_mutableLocals (appended c vs stk locs rd s) = ls_mutableLocals s" "ls_mem64 (appended c vs stk locs rd s) = ls_mem64 s"
  by (simp_all add: appended_def nextV_def same_consts_def)

lemma quiet_appended:
  assumes "vals_lt (bf (ls_b s))" and "\<And>v. v \<in> set vs \<Longrightarrow> vOp v \<noteq> OpPhi"
  shows "quiet c s (appended c vs stk locs rd s)"
proof -
  have "grows {c} {} (bf (ls_b s)) (push_values c vs (bf (ls_b s)))" using grows_pushes [OF assms(1), of c "{c}" vs "{}"] assms(2) by auto
  then show ?thesis using growsD(5,6) by (auto simp: quiet_def bound_def nextV_def fval_push_values)
qed

lemma here_appended:
  "cur (ls_b s) = Some c \<Longrightarrow> here (appended c vs stk locs rd s) env st =
     (c, length (Values (fblk (push_values c vs (bf (ls_b s))) c)), env, st)"
  by (simp add: here_def)

lemma sim_plain:
  assumes s: "ctx s" "\<not> ls_unreachable s" and i: "plain_code i = Some (opc, rd)" "rd (ls_rd s) = Inr (i, rest)"
    and h: "base + fst (plain_arity i) \<le> length (ls_stack s)" and run: "plain_op opc s = Inr ((), s1)"
  shows "simulates (\<lambda>k. wexec k n i) base s s1 \<and> ls_rd s1 = rest \<and> \<not> ls_unreachable s1 \<and>
    length (ls_stack s1) = length (ls_stack s) - fst (plain_arity i) + snd (plain_arity i)"
proof -
  obtain c where cur: "cur (ls_b s) = Some c" and "cur_ok c s" using ctx_cur [OF s] by blast
  then have live: "live_state c s" "c \<notin> pends (ls_ctrl s)" "Succs (fblk (bf (ls_b s)) c) = []" by (simp_all add: cur_ok_def)
  have c: "c < bound s" by (rule ctx_live(5) [OF s cur])
  obtain vs st0 args new locs where p: "ls_stack s = st0 @ args" "length args = fst (plain_arity i)" "base \<le> length st0"
      "s1 = appended c vs (st0 @ new) locs rest s" "length new = snd (plain_arity i)" "length locs = length (ls_locals s)"
      "ids_lt (nextV s + length vs) (new @ locs)" "\<forall>v \<in> set vs. vOp v \<noteq> OpPhi \<and> vOp v \<noteq> OpInvalid \<and> vBlock v = Some c"
      "does i (nextV s) vs (drop base (ls_stack s)) (ls_locals s) (drop base (st0 @ new)) locs"
    using plain_lowered [OF i live(1) h run] unfolding plain_result_def by blast
  have q: "quiet c s s1" unfolding p(4) by (rule quiet_appended [OF ctx_vals [OF s(1)]]) (use p(8) in blast)
  have inv: "state_inv s1" using keepsD(2) [OF keeps_plain_op [of 0] ctxD(1) [OF s(1)] _ run] by simp
  have "ids_lt (nextV s) st0" using live_stateD(4) [OF live(1)] p(1) by simp
  then have "ids_lt (nextV s1) (st0 @ new)" "ids_lt (nextV s1) locs" using p(4,7) ids_lt_mono [of "nextV s" st0] by simp_all
  then have "cur_ok c s1" using live live_stateD [OF live(1)] p(4,6) by (simp add: cur_ok_def live_state_def)
  then have ctx1: "ctx s1" by (intro ctx_quiet [OF s(1) inv q live(2)]) (use p(4) in auto)
  have take: "take base (ls_stack s1) = take base (ls_stack s)" "base \<le> length (ls_stack s1)" using p(1,3,4) by simp_all
  have later: "later base s s1" by (rule later_quiet [OF s cur q, where c' = c]) (use p(4) cur take in simp_all)
  have "reaches (rt_sem ps ext) F s1 base (nextV s) (here s env st) env (wexec k n i ws ls st)"
    if F: "extends s1 F" and d: "denotes env (drop base (ls_stack s)) (rev ws)" "denotes env (ls_locals s) ls" for ps ext F k env ws ls st
  proof (cases k)
    case (Suc k')
    let ?sem = "rt_sem ps ext"
    have g: "grows (opens s1) (pends (ls_ctrl s1)) (push_values c vs (bf (ls_b s))) F" using F p(4) by (simp add: extends_def)
    have "fits F (nextV s) vs" using grows_fits [OF g] p(8) by (simp add: nextV_def)
    then have e: "exec_rel ?sem F (nextV s) (length vs) env st (drop base (st0 @ new)) locs (plain_sem i ws ls st)"
      using p(9) d unfolding does_def by blast
    have c': "c < nextBlockID (bf (ls_b s))" using c by (simp add: bound_def)
    have here: "here s env st = (c, length (Values (fblk (bf (ls_b s)) c)), env, st)" using cur by (simp add: here_def)
    show ?thesis
    proof (cases "plain_sem i ws ls st")
      case (WNormal ws' ls' st')
      then obtain env' where x: "exec_vals ?sem F [nextV s..<nextV s + length vs] (env, st) = Done (env', st')"
          "agree (nextV s) env env'" "denotes env' (drop base (st0 @ new)) (rev ws')" "denotes env' locs ls'"
        using e unfolding exec_rel_def by auto
      have "leads ?sem F (here s env st) (\<lambda>k. resume k ?sem F (here s1 env' st'))"
        using run_pushed(1) [OF g c', of ?sem env st env' st'] x(1) here here_appended [OF cur] p(4) by (simp add: nextV_def)
      then show ?thesis using x s(2) p(4) WNormal Suc wexec_plain [OF i(1)] by (auto simp: reaches_normal)
    next
      case (WTrap st')
      then have "exec_vals ?sem F [nextV s..<nextV s + length vs] (env, st) = Trap st'" using e by (simp add: exec_rel_def)
      then show ?thesis using run_pushed(2) [OF g c', of ?sem env st st'] here WTrap Suc wexec_plain [OF i(1)] by (simp add: nextV_def)
    qed (use e Suc wexec_plain [OF i(1)] in \<open>auto simp: exec_rel_def\<close>)
  qed simp
  then show ?thesis using ctx1 later p s(2) by (auto simp: simulates_def)
qed

end
