(* ===== verification/LowerBranch.thy ===== *)
theory LowerBranch
  imports LowerSim
begin

text \<open>The simulation of the instructions that end the current block: traps, returns and branches.\<close>

section \<open>Fields\<close>

lemma AddEdge_block_fields [simp]:
  "bKind (fblk (AddEdge a b f) c) = bKind (fblk f c)" "Control (fblk (AddEdge a b f) c) = Control (fblk f c)"
  by (auto simp: AddEdge_def upd_blk_def Let_def)

lemma grows_set [simp]: "c \<in> Q \<Longrightarrow> grows Q P f (set_kind k c f)" "c \<in> Q \<Longrightarrow> grows Q P f (set_control v c f)" "grows Q P f (new_block f)"
  by (simp_all add: set_kind_def set_control_def grows_upd_blk new_block_def grows_NewBlock)

lemma header_phis_set [simp]:
  "header_phis (set_kind k c f) b = header_phis f b" "header_phis (set_control v c f) b = header_phis f b"
  by (simp_all add: header_phis_def)

lemma back_args_simps [simp]:
  "back_args [] vs f = f" "back_args phis [] f = f"
  "back_args (p # phis) (v # vs) f = back_args phis vs (upd_val p (\<lambda>w. w\<lparr>vArgs := vArgs w @ [Some v]\<rparr>) f)"
  by (simp_all add: back_args_def)

lemma upd_val_fields [simp]:
  "nextBlockID (upd_val p g f) = nextBlockID f" "nextValueID (upd_val p g f) = nextValueID f" "Sig (upd_val p g f) = Sig f"
  "Entry (upd_val p g f) = Entry f" "fblk (upd_val p g f) = fblk f" "fval (upd_val p g f) = (fval f)(p := g (fval f p))"
  by (simp_all add: upd_val_def)

lemma back_args_fields [simp]:
  "nextBlockID (back_args phis vs f) = nextBlockID f" "nextValueID (back_args phis vs f) = nextValueID f"
  "Sig (back_args phis vs f) = Sig f" "Entry (back_args phis vs f) = Entry f" "fblk (back_args phis vs f) = fblk f"
  by (induction phis vs arbitrary: f rule: list_induct2') simp_all

lemma back_args_other: "i \<notin> set phis \<Longrightarrow> fval (back_args phis vs f) i = fval f i"
  by (induction phis vs arbitrary: f rule: list_induct2') auto

lemma back_args_op [simp]: "vOp (fval (back_args phis vs f) i) = vOp (fval f i)"
  by (induction phis vs arbitrary: f rule: list_induct2') auto

lemma back_args_phi:
  assumes "distinct phis" and "length phis = length vs"
  shows "list_all2 (\<lambda>p v. vArgs (fval (back_args phis vs f) p) = vArgs (fval f p) @ [Some v]) phis vs"
  using assms(2,1)
proof (induction phis vs arbitrary: f rule: list_induct2)
  case (Cons p phis v vs)
  let ?f = "upd_val p (\<lambda>w. w\<lparr>vArgs := vArgs w @ [Some v]\<rparr>) f"
  have "list_all2 (\<lambda>q v. vArgs (fval (back_args phis vs ?f) q) = vArgs (fval ?f q) @ [Some v]) phis vs"
    by (rule Cons.IH) (use Cons.prems in simp)
  then have "list_all2 (\<lambda>q v. vArgs (fval (back_args phis vs ?f) q) = vArgs (fval f q) @ [Some v]) phis vs"
    by (rule list.rel_mono_strong) (use Cons.prems in auto)
  then show ?case using back_args_other [of p phis vs ?f] Cons.prems by simp
qed simp

lemma back_args_grows:
  assumes "\<And>p. p \<in> set phis \<Longrightarrow> vOp (fval f p) = OpPhi"
  shows "grows Q P f (back_args phis vs f)"
  using assms
proof (induction phis vs arbitrary: f rule: list_induct2')
  case (4 p phis v vs)
  let ?f = "upd_val p (\<lambda>w. w\<lparr>vArgs := vArgs w @ [Some v]\<rparr>) f"
  have "grows Q P f ?f" by (rule grows_arg) (use 4 in simp)
  moreover have "grows Q P ?f (back_args phis vs ?f)" by (rule 4(1)) (use 4(2) in auto)
  ultimately show ?case using grows_step by auto
qed simp_all

lemma branch_f_fields [simp]:
  "nextBlockID (branch_f fr ls f) = nextBlockID f" "nextValueID (branch_f fr ls f) = nextValueID f"
  "Sig (branch_f fr ls f) = Sig f" "Entry (branch_f fr ls f) = Entry f" "fblk (branch_f fr ls f) = fblk f"
  "vOp (fval (branch_f fr ls f) i) = vOp (fval f i)"
  by (simp_all add: branch_f_def)

lemma header_phis_op: "p \<in> set (header_phis f b) \<Longrightarrow> vOp (fval f p) = OpPhi"
  by (simp add: header_phis_def)

lemma branch_f_grows: "grows Q P f (branch_f fr ls f)"
  by (simp add: branch_f_def back_args_grows header_phis_op)

lemma header_phis_branch [simp]: "header_phis (branch_f fr ls f) b = header_phis f b"
  by (simp add: header_phis_def)

lemma header_phis_distinct: "func_inv f \<Longrightarrow> distinct (header_phis f b)"
  by (simp add: header_phis_def func_inv_def values_inv_def)

lemma branch_f_args:
  assumes "func_inv f" and "cf_kind fr = ctrlLoop \<Longrightarrow> length (header_phis f (cf_target fr)) = length ls"
  shows "length (vArgs (fval (branch_f fr ls f) i)) =
    (if cf_kind fr = ctrlLoop \<and> i \<in> set (header_phis f (cf_target fr)) then Suc (length (vArgs (fval f i))) else length (vArgs (fval f i)))"
proof (cases "cf_kind fr = ctrlLoop \<and> i \<in> set (header_phis f (cf_target fr))")
  case True
  let ?phis = "header_phis f (cf_target fr)"
  have "list_all2 (\<lambda>p v. vArgs (fval (back_args ?phis ls f) p) = vArgs (fval f p) @ [Some v]) ?phis ls"
    by (rule back_args_phi) (use assms True header_phis_distinct in auto)
  then show ?thesis using True by (auto simp: branch_f_def list_all2_conv_all_nth in_set_conv_nth)
next
  case False
  then show ?thesis by (auto simp: branch_f_def back_args_other)
qed

section \<open>Branching to a frame\<close>

text \<open>What a branch from the block \<open>c\<close> of a live state has done to the state when it is complete.\<close>

definition branched_to :: "nat \<Rightarrow> ctrlFrame \<Rightarrow> nat \<Rightarrow> lowerState \<Rightarrow> lowerState \<Rightarrow> bool" where
  "branched_to c fr r s s' \<longleftrightarrow> (let f = bf (ls_b s); f' = bf (ls_b s'); t = cf_target fr in
     grows {c} {} f f' \<and> ls_localTypes s' = ls_localTypes s \<and> Succs (fblk f' c) \<noteq> [] \<and>
     (\<forall>b < bound s. b \<noteq> t \<longrightarrow> Preds (fblk f' b) = Preds (fblk f b)) \<and>
     (\<exists>i. Preds (fblk f' t) = Preds (fblk f t) @ [\<lparr>eBlock = c, eIndex = i\<rparr>]) \<and>
     (\<forall>i < nextV s. vArgs (fval f' i) = vArgs (fval (branch_f fr (ls_locals s) f) i)) \<and>
     ls_incoming s' = (ls_incoming s)(t \<mapsto> inc s t @ [edge_of c r s]))"

definition fresh_edge :: "nat \<Rightarrow> nat \<Rightarrow> lowerState \<Rightarrow> bool" where
  "fresh_edge c t s \<longleftrightarrow> c \<notin> ie_from ` set (inc s t)"

lemma edge_lt: "ids_lt n (ls_stack s) \<Longrightarrow> ids_lt n (ie_stack (edge_of c r s))"
  by (simp add: edge_of_def ids_lt_take)

lemma target_join: "frame_inv s fr \<Longrightarrow> cf_kind fr \<noteq> ctrlLoop \<Longrightarrow> join_ok s (cf_target fr) (cf_resultCount fr)"
  by (simp add: frame_inv_def fwd_def)

lemma open_fresh:
  assumes "ctx s" and "Succs (fblk (bf (ls_b s)) c) = []" and "fr \<in> set (ls_ctrl s)"
  shows "fresh_edge c (fwd fr) s"
  using ctxD(7) [OF assms(1,3)] assms(2) by (auto simp: frame_inv_def join_ok_def fresh_edge_def)

lemma branched_hits:
  assumes b: "branched_to c fr r s s'" and live: "live_state c s" and "c < bound s" and inv: "func_inv (bf (ls_b s))"
    and fr: "frame_inv s fr"
  shows "hits c (cf_target fr) (edge_of c r s) (cf_kind fr = ctrlLoop) s s'"
proof -
  note l = live_stateD [OF live]
  have len: "cf_kind fr = ctrlLoop \<Longrightarrow> length (header_phis (bf (ls_b s)) (cf_target fr)) = length (ls_locals s)"
    using fr l(6) by (simp add: frame_inv_def header_ok_def)
  show ?thesis
    using b l assms(3) branch_f_args [OF inv len] edge_lt [OF l(4)]
    unfolding branched_to_def hits_def Let_def by (auto simp: edge_of_def)
qed

lemma branched_frames:
  assumes s: "ctx s" and b: "branched_to c fr r s s'" and live: "live_state c s" and c: "c < bound s" "c \<notin> pends (ls_ctrl s)"
    and fr: "fr \<in> set (ls_ctrl s)" and fresh: "cf_kind fr \<noteq> ctrlLoop \<Longrightarrow> fresh_edge c (cf_target fr) s"
    and r: "r = branchArity fr" "r \<le> length (ls_stack s)" and "fr' \<in> set (ls_ctrl s)"
  shows "frame_inv s' fr'"
proof -
  have inv: "func_inv (bf (ls_b s))" by (rule state_invD(1) [OF ctxD(1) [OF s]])
  have loop: "cf_target fr \<noteq> fwd fr" if "cf_kind fr = ctrlLoop"
    using distinct_frame [OF ctxD(6) [OF s] fr] that by (auto simp: frame_blocks_def pend_blocks_def)
  show ?thesis
    by (rule hits_frames [OF branched_hits [OF b live c(1) inv ctxD(7) [OF s fr]] fr _ ctxD(6) [OF s] assms(10) ctxD(7) [OF s assms(10)] c(2) inv])
      (use loop fresh r in \<open>auto simp: edge_of_def branchArity_def fresh_edge_def\<close>)
qed

lemma denotes_top:
  assumes "denotes env (drop base st) (rev ws)" and "base + r \<le> length st"
  shows "denotes env (drop (length st - r) st) (rev (take r ws)) \<and> r \<le> length ws"
proof -
  have len: "length st - base = length ws" using denotes_length [OF assms(1)] by simp
  have st: "length st = base + length ws" using len assms(2) by simp
  have "drop (length st - r) st = drop (length ws - r) (drop base st)" using assms(2) st by (simp add: algebra_simps)
  moreover have "rev (take r ws) = drop (length ws - r) (rev ws)" by (simp add: rev_take)
  moreover have "map env (drop (length ws - r) (drop base st)) = map Some (drop (length ws - r) (rev ws))"
    using assms(1) unfolding denotes_def by (metis drop_map)
  ultimately show ?thesis using assms st by (simp add: denotes_def)
qed

lemma branched_arrives:
  assumes b: "branched_to c fr r s s'" and fr: "frame_inv s fr" and live: "live_state c s" and inv: "func_inv (bf (ls_b s))"
    and r: "r = branchArity fr" "base + r \<le> length (ls_stack s)"
    and d: "denotes env (drop base (ls_stack s)) (rev ws)" "denotes env (ls_locals s) ls"
  shows "arrives s' fr (length (Preds (fblk (bf (ls_b s)) (cf_target fr)))) env ls ws"
proof -
  let ?f = "bf (ls_b s)" and ?f' = "bf (ls_b s')" and ?t = "cf_target fr"
  let ?j = "length (Preds (fblk ?f ?t))"
  obtain i where P: "Preds (fblk ?f' ?t) = Preds (fblk ?f ?t) @ [\<lparr>eBlock = c, eIndex = i\<rparr>]"
    using b by (auto simp: branched_to_def Let_def)
  have g: "grows {c} {} ?f ?f'" using b by (simp add: branched_to_def Let_def)
  show ?thesis
  proof (cases "cf_kind fr = ctrlLoop")
    case False
    have inc: "inc s' ?t = inc s ?t @ [edge_of c r s]" using b by (simp add: branched_to_def Let_def inc_def)
    have "r = cf_resultCount fr" using False r(1) by (simp add: branchArity_def)
    then show ?thesis using False P inc denotes_top [OF d(1) r(2)] d(2) by (auto simp: arrives_def Let_def edge_of_def)
  next
    case True
    then have h: "header_ok s ?t" using fr by (simp add: frame_inv_def)
    then have same: "header_phis ?f' ?t = header_phis ?f ?t" using growsD(11) [OF g, of ?t] by (simp add: header_ok_def bound_def)
    have len: "length (header_phis ?f ?t) = length (ls_locals s)" using h live_stateD(6) [OF live] by (simp add: header_ok_def)
    have "list_all2 (\<lambda>p v. vArgs (fval (back_args (header_phis ?f ?t) (ls_locals s) ?f) p) = vArgs (fval ?f p) @ [Some v])
        (header_phis ?f ?t) (ls_locals s)"
      by (rule back_args_phi [OF header_phis_distinct [OF inv] len])
    then have "list_all2 (\<lambda>p x. ?j < length (vArgs (fval ?f' p)) \<and> vArgs (fval ?f' p) ! ?j = Some x) (header_phis ?f ?t) (ls_locals s)"
    proof (rule list.rel_mono_strong)
      fix p v assume p: "p \<in> set (header_phis ?f ?t)"
        and v: "vArgs (fval (back_args (header_phis ?f ?t) (ls_locals s) ?f) p) = vArgs (fval ?f p) @ [Some v]"
      have "p < nextV s" using header_lt [OF func_inv_vals_lt [OF inv] p] by (simp add: nextV_def)
      then have "vArgs (fval ?f' p) = vArgs (fval ?f p) @ [Some v]"
        using b v True by (simp add: branched_to_def Let_def branch_f_def)
      moreover have "length (vArgs (fval ?f p)) = ?j" using h p by (simp add: header_ok_def)
      ultimately show "?j < length (vArgs (fval ?f' p)) \<and> vArgs (fval ?f' p) ! ?j = Some v" by (simp add: nth_append)
    qed
    then show ?thesis using True P d(2) same by (auto simp: arrives_def Let_def)
  qed
qed

section \<open>Instructions that end a block\<close>

lemma sim_dead:
  assumes s: "ctx s" "\<not> ls_unreachable s" "cur (ls_b s) = Some c" and "state_inv s'" and q: "quiet c s s'" and "ls_ctrl s' = ls_ctrl s"
    and "ls_incoming s' = ls_incoming s" and "same_consts s s'" and "ls_unreachable s'" and "ls_stack s' = ls_stack s" "base \<le> length (ls_stack s)"
    and sem: "\<And>ps ext F k env ws ls st. extends s' F \<Longrightarrow> denotes env (drop base (ls_stack s)) (rev ws) \<Longrightarrow> denotes env (ls_locals s) ls \<Longrightarrow>
        reaches (rt_sem ps ext) F s' base (nextV s) (here s env st) env (res k ws ls st)"
  shows "simulates res base s s'"
proof -
  have "c \<notin> pends (ls_ctrl s)" by (rule ctx_live(3) [OF s])
  then have "ctx s'" by (intro ctx_quiet [OF s(1) assms(4) q]) (use assms in auto)
  moreover have "later base s s'" by (rule later_quiet [OF s q, where c' = c]) (use assms in auto)
  ultimately show ?thesis using sem by (simp add: simulates_def)
qed

lemma quiet_set_kind:
  assumes "bf (ls_b s') = set_kind k c (bf (ls_b s))" and "ls_localTypes s' = ls_localTypes s"
  shows "quiet c s s'"
  using assms by (auto simp: quiet_def)

lemma here_at: "cur (ls_b s) = Some c \<Longrightarrow> here s env st = (c, length (Values (fblk (bf (ls_b s)) c)), env, st)"
  by (simp add: here_def)

lemma extends_grows: "extends s F \<Longrightarrow> grows (opens s) (pends (ls_ctrl s)) (bf (ls_b s)) F"
  by (simp add: extends_def)

lemma sim_unreachable:
  assumes s: "ctx s" "\<not> ls_unreachable s" and "base \<le> length (ls_stack s)" and run: "lower_unreachable s = Inr ((), s1)"
  shows "simulates (\<lambda>k. wexec k n WUnreachable) base s s1 \<and> ls_unreachable s1 \<and> ls_rd s1 = ls_rd s"
proof -
  obtain c where cur: "cur (ls_b s) = Some c" using ctx_cur [OF s] by blast
  note live = ctx_live [OF s cur]
  have s1: "s1 = (on_func (set_kind BlockUnreachable c) s)\<lparr>ls_unreachable := True\<rparr>" using run lower_unreachable_run [OF cur] by simp
  have "lkeeps 0 lower_unreachable any"
    unfolding lower_unreachable_def by (rule keeps_rules)+
  then have inv: "state_inv s1" using keepsD(2) [of 0 lower_unreachable any s "()" s1] ctxD(1) [OF s(1)] run by simp
  have "simulates (\<lambda>k. wexec k n WUnreachable) base s s1"
  proof (rule sim_dead [OF s cur inv quiet_set_kind])
    fix ps ext F k env ws ls st assume F: "extends s1 F"
    have c: "c < nextBlockID (bf (ls_b s1))" "c \<notin> opens s1" using live(3,5) s1 by (simp_all add: bound_def opens_def)
    have "leads (rt_sem ps ext) F (here s env st) (\<lambda>k. Trap st)"
      by (rule leadsI) (use run_closed [OF extends_grows [OF F] c] here_at [OF cur] s1 in \<open>simp add: terminate_def\<close>)
    then show "reaches (rt_sem ps ext) F s1 base (nextV s) (here s env st) env (wexec k n WUnreachable ws ls st)"
      by (cases k) simp_all
  qed (use s1 assms(3) in \<open>simp_all add: same_consts_def\<close>)
  then show ?thesis using s1 by simp
qed

lemma exec_copies:
  assumes "fits F m vs" and "copies c rs vs" and "denotes env rs xs" and "ids_lt n rs" and "n \<le> m"
  shows "\<exists>env'. exec_vals (rt_sem ps ext) F [m..<m + length vs] (env, st) = Done (env', st) \<and>
    denotes env' [m..<m + length vs] xs \<and> agree m env env'"
  using assms
proof (induction rs arbitrary: vs xs m env)
  case Nil
  then show ?case by (simp add: copies_def)
next
  case (Cons r rs)
  obtain ty vs' where vs: "vs = value_in c OpCopy ty 0 AuxNil [r] # vs'" "copies c rs vs'"
    using Cons.prems(2) by (auto simp: copies_def list_all2_Cons1)
  obtain x xs' where xs: "xs = x # xs'" "env r = Some x" "denotes env rs xs'" using Cons.prems(3) by (cases xs) auto
  have v: "fval F m = value_in c OpCopy ty 0 AuxNil [r]" using Cons.prems(1) vs(1) by (auto simp: fits_def)
  have one: "exec_vals (rt_sem ps ext) F [m] (env, st) = Done (env(m \<mapsto> x), st)"
    using exec_one [OF v, of env "[x]" "rt_sem ps ext" st] xs(2) by (simp add: const_eval)
  have d: "denotes (env(m \<mapsto> x)) rs xs'" by (rule denotes_agree [OF xs(3) agree_upd [of n m env x]]) (use Cons.prems(4,5) in simp_all)
  have "fits F (Suc m) vs'" unfolding fits_def
  proof (intro allI impI)
    fix k assume "k < length vs'"
    then show "fval F (Suc m + k) = vs' ! k" using Cons.prems(1) [unfolded fits_def, THEN spec, of "Suc k"] vs(1) by simp
  qed
  then obtain env' where e: "exec_vals (rt_sem ps ext) F [Suc m..<Suc m + length vs'] (env(m \<mapsto> x), st) = Done (env', st)"
      "denotes env' [Suc m..<Suc m + length vs'] xs'" "agree (Suc m) (env(m \<mapsto> x)) env'"
    using Cons.IH [OF \<open>fits F (Suc m) vs'\<close> vs(2) d] Cons.prems(4,5) by (metis ids_lt_simps(2) le_Suc_eq)
  have "env' m = Some x" using e(3) by (simp add: agree_def)
  moreover have "agree m env env'" using e(3) by (simp add: agree_def)
  moreover have "[m..<m + length vs] = [m] @ [Suc m..<Suc m + length vs']" using vs(1) by (simp add: upt_first del: upt_Suc)
  ultimately show ?case using one e(1,2) xs(1) by (simp only: exec_vals_append bind_outcome.simps) auto
qed

lemma push_values_kind [simp]:
  "bKind (fblk (push_values c vs f) b) = bKind (fblk f b)" "Succs (fblk (push_values c vs f) b) = Succs (fblk f b)"
  "Preds (fblk (push_values c vs f) b) = Preds (fblk f b)" "Control (fblk (push_values c vs f) b) = Control (fblk f b)"
  by simp_all

lemma fval_push_old: "i < nextValueID f \<Longrightarrow> fval (push_values c vs f) i = fval f i"
  by (simp add: fval_push_values)

definition sig_ok :: "nat \<Rightarrow> lowerState \<Rightarrow> bool" where
  "sig_ok n s \<longleftrightarrow> length (FuncType.Results (ls_ft s)) = n \<and> length (FuncSig.Results (Sig (bf (ls_b s)))) = n"

lemma sig_ok_later: "sig_ok n s \<Longrightarrow> later base s s' \<Longrightarrow> sig_ok n s'"
  using growsD(1) by (auto simp: sig_ok_def later_def)

lemma copies_op: "copies c rs vs \<Longrightarrow> v \<in> set vs \<Longrightarrow> vOp v = OpCopy"
  by (auto simp: copies_def list_all2_conv_all_nth in_set_conv_nth)

lemma run_returned:
  assumes s: "ctx s" "\<not> ls_unreachable s" "cur (ls_b s) = Some c" and cp: "copies c (top_vals n (ls_stack s)) vs" and n: "n \<le> length (ls_stack s)"
    and f': "f' = push_values c vs (set_kind BlockRet c (bf (ls_b s)))" and F: "grows Q P f' F" "c \<notin> Q" and sig: "sig_ok n s"
    and d: "denotes env (top_vals n (ls_stack s)) (rev xs)"
  shows "leads (rt_sem ps ext) F (here s env st) (\<lambda>k. Done (Return (rev xs) st))"
proof -
  let ?sem = "rt_sem ps ext" and ?g = "set_kind BlockRet c (bf (ls_b s))"
  note live = ctx_live [OF s]
  have c: "c < nextBlockID ?g" "c < nextBlockID f'" using live(5) f' by (simp_all add: bound_def)
  have len: "length vs = n" using cp n by (simp add: copies_def list_all2_lengthD [symmetric] top_vals_def)
  have "fits F (nextValueID ?g) vs" using grows_fits [OF F(1) [unfolded f']] copies_op [OF cp] by simp
  then have fit: "fits F (nextV s) vs" by (simp add: nextV_def)
  have "ids_lt (nextV s) (top_vals n (ls_stack s))" using live_stateD(4) [OF live(2)] by (simp add: top_vals_def ids_lt_take)
  then obtain env' where e: "exec_vals ?sem F [nextV s..<nextV s + length vs] (env, st) = Done (env', st)"
      "denotes env' [nextV s..<nextV s + length vs] (rev xs)"
    using exec_copies [OF fit cp d] by blast
  have 1: "leads ?sem F (here s env st) (\<lambda>k. resume k ?sem F (c, length (Values (fblk f' c)), env', st))"
    using run_pushed(1) [OF F(1) [unfolded f'] c(1), of ?sem env st env' st] e(1) here_at [OF s(3)] unfolding f' by (simp add: nextV_def)
  have "marker_vals n (Values (fblk f' c)) env' = Some (rev xs)"
    using e(2) len unfolding f' by (simp add: marker_vals_def denotes_def nextV_def those_eq_Some)
  then have "terminate (Sig f') (fblk f' c) env' st = Done (Return (rev xs) st)"
    using sig f' by (simp add: terminate_def sig_ok_def)
  then have "leads ?sem F (c, length (Values (fblk f' c)), env', st) (\<lambda>k. Done (Return (rev xs) st))"
    by (intro leadsI) (use run_closed [OF F(1) c(2) F(2)] in simp)
  then show ?thesis by (rule leads_trans [OF 1])
qed

lemma quiet_returned:
  assumes "vals_lt (bf (ls_b s))" and "copies c rs vs" and "bf (ls_b s') = push_values c vs (set_kind BlockRet c (bf (ls_b s)))"
    and "ls_localTypes s' = ls_localTypes s"
  shows "quiet c s s'"
proof -
  let ?g = "set_kind BlockRet c (bf (ls_b s))"
  have "vals_lt ?g" using assms(1) by (simp add: vals_lt_def)
  then have "grows {c} {} ?g (push_values c vs ?g)" using grows_pushes copies_op [OF assms(2)] by fastforce
  then have "grows {c} {} (bf (ls_b s)) (bf (ls_b s'))" unfolding assms(3) by (rule grows_step [rotated]) simp
  then show ?thesis using assms(3,4) by (auto simp: quiet_def bound_def nextV_def fval_push_old)
qed

lemma sim_return:
  assumes s: "ctx s" "\<not> ls_unreachable s" and sig: "sig_ok n s" and h: "base + n \<le> length (ls_stack s)"
    and run: "handleReturn s = Inr ((), s1)"
  shows "simulates (\<lambda>k. wexec k n WReturn) base s s1 \<and> ls_unreachable s1 \<and> ls_rd s1 = ls_rd s"
proof -
  obtain c where cur: "cur (ls_b s) = Some c" using ctx_cur [OF s] by blast
  note live = ctx_live [OF s cur]
  have n: "n = length (FuncType.Results (ls_ft s))" "n \<le> length (ls_stack s)" using sig h by (simp_all add: sig_ok_def)
  obtain vs where vs: "s1 = (returned c vs s)\<lparr>ls_unreachable := True\<rparr>" "copies c (top_vals n (ls_stack s)) vs"
    using handleReturn_run [OF cur ctxD(5) [OF s(1)] n] run by auto
  have f1: "bf (ls_b s1) = push_values c vs (set_kind BlockRet c (bf (ls_b s)))" using vs(1) by (simp add: returned_def)
  have inv: "state_inv s1" using keepsD(2) [of 0 handleReturn any s "()" s1] keeps_handleReturn ctxD(1) [OF s(1)] run by simp
  have q: "quiet c s s1" by (rule quiet_returned [OF ctx_vals [OF s(1)] vs(2) f1]) (simp add: vs(1) returned_def)
  have "simulates (\<lambda>k. wexec k n WReturn) base s s1"
  proof (rule sim_dead [OF s cur inv q])
    fix ps ext F k env ws ls st
    assume F: "extends s1 F" and d: "denotes env (drop base (ls_stack s)) (rev ws)"
    have "c \<notin> opens s1" using live(3) vs(1) by (simp add: opens_def returned_def)
    then have "leads (rt_sem ps ext) F (here s env st) (\<lambda>k. Done (Return (rev (take n ws)) st))"
      using run_returned [OF s cur vs(2) n(2) f1 extends_grows [OF F] _ sig] denotes_top [OF d h] by (simp add: top_vals_def)
    then show "reaches (rt_sem ps ext) F s1 base (nextV s) (here s env st) env (wexec k n WReturn ws ls st)"
      using denotes_top [OF d h] by (cases k) simp_all
  qed (use vs(1) h in \<open>simp_all add: same_consts_def returned_def\<close>)
  then show ?thesis using vs(1) by (simp add: returned_def)
qed

lemma frame_target_lt: "frame_inv s fr \<Longrightarrow> cf_target fr < bound s \<and> fwd fr < bound s"
  by (auto simp: frame_inv_def untouched_def header_ok_def pend_blocks_def fwd_def bound_def split: if_splits)

section \<open>Branches\<close>

lemma ctx_branched:
  assumes s: "ctx s" "\<not> ls_unreachable s" "cur (ls_b s) = Some c" and b: "branched_to c fr (branchArity fr) s s'" and "state_inv s'"
    and fr: "fr \<in> set (ls_ctrl s)" and "branchArity fr \<le> length (ls_stack s)" and "ls_ctrl s' = ls_ctrl s" and "same_consts s s'"
    and "\<not> ls_unreachable s' \<Longrightarrow> \<exists>c. cur_ok c s'"
  shows "ctx s'"
proof -
  note live = ctx_live [OF s]
  have fresh: "fresh_edge c (cf_target fr) s" if "cf_kind fr \<noteq> ctrlLoop"
    using open_fresh [OF s(1) live(4) fr] that by (simp add: fwd_def)
  have "frame_inv s' fr'" if "fr' \<in> set (ls_ctrl s)" for fr'
    by (rule branched_frames [OF s(1) b live(2,5,3) fr fresh refl assms(7) that])
  moreover have "inc_bound s'"
  proof -
    have "grows {c} {} (bf (ls_b s)) (bf (ls_b s'))" "ls_incoming s' = (ls_incoming s)(cf_target fr \<mapsto> inc s (cf_target fr) @ [edge_of c (branchArity fr) s])"
      using b by (simp_all add: branched_to_def Let_def)
    moreover have "cf_target fr < bound s" using frame_target_lt [OF ctxD(7) [OF s(1) fr]] by simp
    ultimately show ?thesis using ctxD(8) [OF s(1)] growsD(4) by (fastforce simp: inc_bound_def bound_def)
  qed
  ultimately show ?thesis using assms ctxD [OF s(1)] by (auto simp: ctx_def same_consts_def)
qed

lemma later_branched:
  assumes s: "ctx s" "\<not> ls_unreachable s" "cur (ls_b s) = Some c" and b: "branched_to c fr r s s'" and "ls_ctrl s' = ls_ctrl s"
    and "same_consts s s'" and "\<not> ls_unreachable s' \<Longrightarrow> cur (ls_b s') = Some c' \<and> bound s \<le> c'"
    and "base \<le> length (ls_stack s')" "take base (ls_stack s') = take base (ls_stack s)"
  shows "later base s s'"
proof -
  have "grows (opens s) (pends (ls_ctrl s)) (bf (ls_b s)) (bf (ls_b s'))"
    using b grows_mono [of "{c}" "{}"] s(2,3) by (auto simp: branched_to_def Let_def opens_def)
  moreover have "prefix (inc s b) (inc s' b)" for b using assms(4) by (auto simp: branched_to_def Let_def inc_def)
  ultimately show ?thesis using assms(5-9) s(2,3) by (auto simp: later_def opens_def same_consts_def)
qed

lemma leads_branch:
  assumes F: "grows Q P f' F" and c: "c < nextBlockID f'" "c \<notin> Q" "m = length (Values (fblk f' c))"
    and "terminate (Sig f') (fblk f' c) env st = Done (Goto (cf_target fr) (length (Preds (fblk (bf (ls_b s)) (cf_target fr)))) env st)"
    and "d < length (ls_ctrl s')" "fr = label s' d" "branched_to c fr (branchArity fr) s s'"
    and "frame_inv s fr" "live_state c s" "func_inv (bf (ls_b s))" "base + branchArity fr \<le> length (ls_stack s)"
    and "denotes env (drop base (ls_stack s)) (rev ws)" "denotes env (ls_locals s) ls"
  shows "reaches sem F s' base n (c, m, env, st) env (WBranch d ws ls st)"
  unfolding reaches_branch
  using leads_goto [OF F c assms(5)] branched_arrives [OF assms(8-11) refl assms(12-14)] assms(6,7) agree_refl by blast

lemma sim_br:
  assumes s: "ctx s" "\<not> ls_unreachable s" and rd: "irReadU32 (ls_rd s) = Inr (d, bs)" and d: "unat d < length (ls_ctrl s)"
    and h: "base + branchArity (label s (unat d)) \<le> length (ls_stack s)" and run: "handleBr s = Inr ((), s1)"
  shows "simulates (\<lambda>k. wexec k n (WBr d)) base s s1 \<and> ls_unreachable s1 \<and> ls_rd s1 = bs"
proof -
  let ?fr = "label s (unat d)" and ?s = "s\<lparr>ls_rd := bs\<rparr>"
  obtain c where cur: "cur (ls_b s) = Some c" using ctx_cur [OF s] by blast
  note live = ctx_live [OF s cur]
  have fr: "?fr \<in> set (ls_ctrl s)" by (rule label_mem [OF d])
  have s1: "s1 = jumped c ?fr ?s" using handleBr_run [OF rd cur ctxD(3) [OF s(1)] d] run by simp
  let ?f1 = "AddEdge c (cf_target ?fr) (set_kind BlockPlain c (branch_f ?fr (ls_locals s) (bf (ls_b s))))"
  have f1: "bf (ls_b s1) = ?f1" using s1 by (simp add: jumped_def)
  have inv: "state_inv s1" using keepsD(2) [of 0 handleBr any s "()" s1] keeps_handleBr ctxD(1) [OF s(1)] run by simp
  have g: "grows {c} {} (bf (ls_b s)) ?f1"
    by (rule grows_step [OF branch_f_grows grows_step [OF grows_set(1) grows_AddEdge]]) simp_all
  have b: "branched_to c ?fr (branchArity ?fr) s s1"
    using g s1 unfolding branched_to_def Let_def f1 by (auto simp: jumped_def edge_of_def bound_def)
  have ctx1: "ctx s1"
    by (rule ctx_branched [OF s cur b inv fr]) (use s1 h in \<open>auto simp: jumped_def same_consts_def\<close>)
  have later: "later base s s1" by (rule later_branched [OF s cur b]) (use s1 h in \<open>auto simp: jumped_def same_consts_def\<close>)
  have "reaches (rt_sem ps ext) F s1 base (nextV s) (here s env st) env (wexec k n (WBr d) ws ls st)"
    if F: "extends s1 F" and e: "denotes env (drop base (ls_stack s)) (rev ws)" "denotes env (ls_locals s) ls" for ps ext F k env ws ls st
  proof (cases k)
    case (Suc k')
    have c: "c < nextBlockID (bf (ls_b s1))" "c \<notin> opens s1" using live(3,5) s1 by (simp_all add: jumped_def bound_def opens_def)
    have "terminate (Sig (bf (ls_b s1))) (fblk (bf (ls_b s1)) c) env st =
        Done (Goto (cf_target ?fr) (length (Preds (fblk (bf (ls_b s)) (cf_target ?fr)))) env st)"
      using live(4) unfolding f1 by (simp add: terminate_def take_edge_def)
    moreover have "length (Values (fblk (bf (ls_b s1)) c)) = length (Values (fblk (bf (ls_b s)) c))" unfolding f1 by simp
    moreover have "?fr = label s1 (unat d)" "unat d < length (ls_ctrl s1)" using s1 d by (simp_all add: label_def jumped_def)
    ultimately show ?thesis
      using leads_branch [OF extends_grows [OF F] c refl _ _ _ b ctxD(7) [OF s(1) fr] live(2) state_invD(1) [OF ctxD(1) [OF s(1)]] h e]
        here_at [OF cur] Suc by simp
  qed simp
  then show ?thesis using ctx1 later s1 by (simp add: simulates_def jumped_def)
qed

lemma ctx_pop:
  assumes "ctx s" and "ls_stack s = st @ st'"
  shows "ctx (s\<lparr>ls_stack := st\<rparr>)"
proof -
  have "frame_inv (s\<lparr>ls_stack := st\<rparr>) fr = frame_inv s fr" for fr
    by (simp add: frame_inv_def join_ok_def header_ok_def else_ok_def)
  moreover have "cur_ok c s \<Longrightarrow> cur_ok c (s\<lparr>ls_stack := st\<rparr>)" for c using assms(2) by (simp add: cur_ok_def live_state_def)
  moreover have "inc_bound (s\<lparr>ls_stack := st\<rparr>) = inc_bound s" by (simp add: inc_bound_def)
  ultimately show ?thesis using assms(1) by (auto simp: ctx_def)
qed

lemma later_stack:
  assumes "take base st = take base (ls_stack s)"
  shows "later base (s\<lparr>ls_stack := st\<rparr>) s' = later base s s'"
proof -
  have "opens (s\<lparr>ls_stack := st\<rparr>) = opens s" by (simp add: opens_def)
  then show ?thesis using assms by (simp add: later_def)
qed

lemma back_args_fval: "fval f = fval g \<Longrightarrow> fval (back_args phis vs f) = fval (back_args phis vs g)"
  by (induction phis vs arbitrary: f g rule: list_induct2') simp_all

lemma branch_f_new_block: "cf_target fr < nextBlockID f \<Longrightarrow> fval (branch_f fr ls (new_block f)) = fval (branch_f fr ls f)"
  using back_args_fval [of "new_block f" f] by (simp add: branch_f_def header_phis_def)

lemma enter_fresh:
  assumes F: "grows Q P f F" and "b < nextBlockID f" and "b \<notin> P" and "Values (fblk f b) = []" and "leads sem F cfg (\<lambda>k. run k sem F b j env st)"
  shows "leads sem F cfg (\<lambda>k. resume k sem F (b, 0, env, st))"
proof -
  have h: "header_phis F b = []" using growsD(11) [OF F assms(2,3)] assms(4) by (simp add: header_phis_def)
  have "phi_env F j [] env = env" by (simp add: phi_env_def)
  then show ?thesis using leads_into [of "[]" F b j env sem cfg st] h assms(5) by simp
qed

lemma terminate_if:
  assumes "bKind b = BlockIf" and "Succs b = [x, y]" and "Control b = Some v" and "env v = Some (W32 w)"
  shows "terminate sig b env st = Done (if w \<noteq> 0 then Goto (eBlock x) (eIndex x) env st else Goto (eBlock y) (eIndex y) env st)"
  using assms by (simp add: terminate_def arg_val_def truthy_def take_edge_def)

lemma zero_block_simps [simp]: "Values (zero_block\<lparr>bKind := k\<rparr>) = []" "Succs (zero_block\<lparr>bKind := k\<rparr>) = []" "Preds (zero_block\<lparr>bKind := k\<rparr>) = []"
  by (simp_all add: zero_block_def)

lemma sim_br_if:
  assumes s: "ctx s" "\<not> ls_unreachable s" and rd: "irReadU32 (ls_rd s) = Inr (d, bs)" and d: "unat d < length (ls_ctrl s)"
    and h: "base + branchArity (label s (unat d)) < length (ls_stack s)" and run: "handleBrIf s = Inr ((), s1)"
  shows "simulates (\<lambda>k. wexec k n (WBrIf d)) base s s1 \<and> \<not> ls_unreachable s1 \<and> ls_rd s1 = bs \<and> length (ls_stack s1) = length (ls_stack s) - 1"
proof -
  let ?fr = "label s (unat d)"
  obtain st v where st: "ls_stack s = st @ [v]" using h by (cases "ls_stack s" rule: rev_cases) auto
  let ?s = "s\<lparr>ls_rd := bs, ls_stack := st\<rparr>"
  obtain c where cur: "cur (ls_b s) = Some c" using ctx_cur [OF s] by blast
  have s': "ctx ?s" "\<not> ls_unreachable ?s" "cur (ls_b ?s) = Some c" using ctx_pop [of "s\<lparr>ls_rd := bs\<rparr>" st "[v]"] st s cur by simp_all
  note live = ctx_live [OF s']
  have fr: "?fr \<in> set (ls_ctrl s)" "?fr \<in> set (ls_ctrl ?s)" using label_mem [OF d] by simp_all
  note tgt = frame_target_lt [OF ctxD(7) [OF s(1) fr(1)]]
  have s1: "s1 = branched c v ?fr ?s" using handleBrIf_run [OF rd cur ctxD(3) [OF s(1)] d st] run by simp
  let ?b = "bound s" and ?f = "bf (ls_b s)"
  let ?f1 = "AddEdge c ?b (AddEdge c (cf_target ?fr) (set_control v c (set_kind BlockIf c (branch_f ?fr (ls_locals s) (new_block ?f)))))"
  have bound: "bound ?s = bound s" by (simp add: bound_def)
  have f1: "bf (ls_b s1) = ?f1" unfolding s1 branched_def by (simp add: if_f_def bound)
  have inv: "state_inv s1" using keepsD(2) [of 0 handleBrIf any s "()" s1] keeps_handleBrIf ctxD(1) [OF s(1)] run by simp
  have c: "c < ?b" "c \<noteq> ?b" "c < nextBlockID ?f" using live(5) by (simp_all add: bound_def)
  have "grows {c} {} (new_block ?f) ?f1"
    by (rule grows_step [OF branch_f_grows grows_step [OF grows_set(1) grows_step [OF grows_set(2) grows_step [OF grows_AddEdge grows_AddEdge]]]]) simp_all
  then have g: "grows {c} {} ?f ?f1" by (rule grows_step [OF grows_set(3)])
  have "bf (ls_b ?s) = ?f" by simp
  have b: "branched_to c ?fr (branchArity ?fr) ?s s1"
    using g s1 tgt c branch_f_new_block [of ?fr ?f "ls_locals s"] unfolding branched_to_def Let_def f1
    by (auto simp: branched_def edge_of_def bound_def)
  have blk: "Values (fblk ?f1 ?b) = []" "Succs (fblk ?f1 ?b) = []" "?b < nextBlockID ?f1" using c by (simp_all add: bound_def)
  have "?b \<notin> pends (ls_ctrl s)"
    using ctxD(7) [OF s(1)] by (auto simp: pends_def frame_inv_def untouched_def bound_def)
  then have "cur_ok ?b s1" using s1 blk f1 live_stateD [OF live(2)] by (simp add: cur_ok_def live_state_def branched_def if_f_def nextV_def)
  then have ctx1: "ctx s1"
    by (intro ctx_branched [OF s' b inv fr(2)]) (use s1 h st in \<open>auto simp: branched_def same_consts_def\<close>)
  have take: "base \<le> length st" "take base (ls_stack s1) = take base (ls_stack s)" using s1 h st by (simp_all add: branched_def)
  have "later base ?s s1" by (rule later_branched [OF s' b, where c' = ?b]) (use s1 h st in \<open>auto simp: branched_def same_consts_def bound\<close>)
  then have later: "later base s s1" using later_stack [of base st "s\<lparr>ls_rd := bs\<rparr>" s1] take st by simp
  have nV: "nextV s1 = nextV s" using f1 by (simp add: nextV_def)
  have "reaches (rt_sem ps ext) F s1 base (nextV s) (here s env st') env (wexec k n (WBrIf d) ws ls st')"
    if F: "extends s1 F" and e: "denotes env (drop base (ls_stack s)) (rev ws)" "denotes env (ls_locals s) ls" for ps ext F k env ws ls st'
  proof (cases k)
    case (Suc k')
    let ?sem = "rt_sem ps ext"
    obtain w ws' where w: "ws = w # ws'" "env v = Some w" "denotes env (drop base st) (rev ws')"
      using e(1) st take(1) by (auto simp: denotes_snoc)
    show ?thesis
    proof (cases w)
      case (W32 x)
      have cl: "c < nextBlockID (bf (ls_b s1))" "c \<notin> opens s1"
        using c live(3) s1 bound by (simp_all add: opens_def branched_def if_f_def)
      let ?t = "cf_target ?fr"
      have go: "terminate (Sig (bf (ls_b s1))) (fblk (bf (ls_b s1)) c) env st' =
          Done (if x \<noteq> 0 then Goto ?t (length (Preds (fblk ?f ?t))) env st' else Goto ?b 0 env st')"
      proof -
        have S: "Succs (fblk ?f1 c) = [\<lparr>eBlock = ?t, eIndex = length (Preds (fblk ?f ?t))\<rparr>, \<lparr>eBlock = ?b, eIndex = 0\<rparr>]"
          using live(4) tgt c by (simp add: bound_def)
        have "terminate (Sig ?f1) (fblk ?f1 c) env st' = Done (if x \<noteq> 0
            then Goto (eBlock \<lparr>eBlock = ?t, eIndex = length (Preds (fblk ?f ?t))\<rparr>) (eIndex \<lparr>eBlock = ?t, eIndex = length (Preds (fblk ?f ?t))\<rparr>) env st'
            else Goto (eBlock \<lparr>eBlock = ?b, eIndex = 0\<rparr>) (eIndex \<lparr>eBlock = ?b, eIndex = 0\<rparr>) env st')"
          by (rule terminate_if [OF _ S, of v]) (use w(2) W32 in simp_all)
        then show ?thesis unfolding f1 by simp
      qed
      have len: "length (Values (fblk (bf (ls_b s1)) c)) = length (Values (fblk ?f c))" unfolding f1 using c by simp
      show ?thesis
      proof (cases "x = 0")
        case False
        have "reaches ?sem F s1 base (nextV s) (c, length (Values (fblk ?f c)), env, st') env (WBranch (unat d) ws' ls st')"
          using leads_branch [OF extends_grows [OF F] cl refl _ _ _ b ctxD(7) [OF s'(1) fr(2)] live(2) state_invD(1) [OF ctxD(1) [OF s'(1)]], of env st' "unat d" base ws' ls ?sem "nextV s"]
            go False len d s1 w(3) e(2) h st by (simp add: label_def branched_def)
        then show ?thesis using False W32 w(1) Suc here_at [OF cur] by (simp add: branch_if_def)
      next
        case True
        have "leads ?sem F (here s env st') (\<lambda>k. run k ?sem F ?b 0 env st')"
          using leads_goto [OF extends_grows [OF F] cl refl, of env st' ?b 0 ?sem] go True len here_at [OF cur] by simp
        then have "leads ?sem F (here s env st') (\<lambda>k. resume k ?sem F (?b, 0, env, st'))"
          by (rule enter_fresh [OF extends_grows [OF F], rotated 3]) (use blk \<open>?b \<notin> pends (ls_ctrl s)\<close> s1 f1 in \<open>simp_all add: branched_def\<close>)
        moreover have "here s1 env st' = (?b, 0, env, st')" using blk f1 s1 bound by (simp add: here_def branched_def)
        ultimately show ?thesis using True W32 w Suc s1 s(2) e(2) by (auto simp: branch_if_def reaches_normal branched_def intro!: exI [of _ env])
      qed
    qed (use w(1) Suc in \<open>simp_all add: branch_if_def\<close>)
  qed simp
  then show ?thesis using ctx1 later s1 s(2) st by (simp add: simulates_def branched_def)
qed

end
