(* ===== verification/LowerBlocks.thy ===== *)
theory LowerBlocks
  imports LowerBranch
begin

text \<open>The simulation of blocks, loops and conditionals: entering them, and the joins at their ends.\<close>

section \<open>Joins\<close>

lemma flowed_live:
  "\<not> ls_unreachable s \<Longrightarrow> cur (ls_b s) = Some c \<Longrightarrow> flowed t r s = closed c t r s"
  by (simp add: flowed_def)

lemma fresh_phis:
  assumes "phis_pushed t vs" and "Values (fblk f t) = []" and "vals_lt f"
  shows "header_phis (push_values t vs f) t = [nextValueID f..<nextValueID f + length vs]"
proof -
  have "vOp (vs ! k) = OpPhi" if "k < length vs" for k
    using assms(1) nth_mem [OF that] by (auto simp: phis_pushed_def)
  then have "filter (\<lambda>v. vOp (fval (push_values t vs f) v) = OpPhi) [nextValueID f..<nextValueID f + length vs] =
      [nextValueID f..<nextValueID f + length vs]"
    by (intro filter_True) (auto simp: fval_push_values)
  then show ?thesis using assms(2) by (simp add: header_phis_def)
qed

lemma slot_value:
  assumes "slot_is n f j i a" and "env a = Some w" and F: "grows Q P f F" and "n \<le> nextValueID f"
    and phis: "phis = [n..<nextValueID f]"
  shows "phi_env F j phis env i = Some w" and "n \<le> i \<Longrightarrow> phi_val F j env i = Some w"
proof -
  show p: "phi_val F j env i = Some w" if "n \<le> i"
  proof -
    have i: "i < nextValueID f" "j < length (vArgs (fval f i))" "vArgs (fval f i) ! j = Some a"
      using assms(1) that by (simp_all add: slot_is_def)
    then have "j < length (vArgs (fval F i)) \<and> vArgs (fval F i) ! j = Some a"
      using growsD(6) [OF F i(1)] by (auto simp: prefix_def nth_append)
    then show ?thesis using assms(2) by (simp add: phi_val_def arg_val_def)
  qed
  show "phi_env F j phis env i = Some w"
  proof (cases "i < n")
    case True
    then show ?thesis using assms(1,2) phis by (simp add: slot_is_def phi_env_def)
  next
    case False
    then have "i < nextValueID f" using assms(1) by (simp add: slot_is_def)
    then show ?thesis using p False phis by (simp add: phi_env_def)
  qed
qed

lemma slots_denote:
  assumes "list_all2 (slot_is n f j) ids as" and "denotes env as ws" and "grows Q P f F" and "n \<le> nextValueID f"
    and "phis = [n..<nextValueID f]"
  shows "denotes (phi_env F j phis env) ids ws" and "i \<in> set ids \<Longrightarrow> n \<le> i \<Longrightarrow> phi_val F j env i \<noteq> None"
proof -
  have len: "length ids = length as" "length as = length ws" using list_all2_lengthD [OF assms(1)] denotes_length [OF assms(2)] by simp_all
  have v: "slot_is n f j (ids ! q) (as ! q) \<and> env (as ! q) = Some (ws ! q)" if "q < length ids" for q
    using assms(1) denotes_nth [OF assms(2)] that len by (simp add: list_all2_conv_all_nth)
  have "phi_env F j phis env (ids ! q) = Some (ws ! q)" if "q < length ids" for q
    using slot_value(1) [OF _ _ assms(3-5)] v [OF that] by blast
  then show "denotes (phi_env F j phis env) ids ws" using len unfolding denotes_def by (simp add: list_eq_iff_nth_eq)
  show "phi_val F j env i \<noteq> None" if "i \<in> set ids" "n \<le> i"
    using that v slot_value(2) [OF _ _ assms(3-5)] by (metis in_set_conv_nth option.distinct(1))
qed

text \<open>Entering a join block by a recorded edge.\<close>

lemma join_lands:
  assumes j: "join_of t n r base es s s'" and s: "cur (ls_b s) = Some t" "Values (fblk (bf (ls_b s)) t) = []" "vals_lt (bf (ls_b s))"
    and t: "t < nextBlockID (bf (ls_b s))" "t \<notin> P" and F: "grows Q P (bf (ls_b s')) F"
    and e: "i < length (Preds (fblk (bf (ls_b s)) t))" "e \<in> set es" "eBlock (Preds (fblk (bf (ls_b s)) t) ! i) = ie_from e"
    and d: "denotes env (ie_locals e) ls" "denotes env (ie_stack e) ws" "ids_lt (nextV s) (take base (ls_stack s))"
    and leads: "leads sem F cfg (\<lambda>k. run k sem F t i env st)"
  shows "\<exists>env'. leads sem F cfg (\<lambda>k. resume k sem F (here s' env' st)) \<and> agree (nextV s) env env' \<and>
    denotes env' (ls_locals s') ls \<and> (\<exists>ids. ls_stack s' = take base (ls_stack s) @ ids \<and> denotes env' ids ws) \<and>
    length (ls_stack s') = base + length ws"
proof -
  let ?f = "bf (ls_b s)" and ?f' = "bf (ls_b s')"
  obtain vs locs ids where s': "s' = (on_func (push_values t vs) s)\<lparr>ls_locals := locs, ls_stack := take base (ls_stack s) @ ids\<rparr>"
      and vs: "phis_pushed t vs" "base \<le> length (ls_stack s)" "{nextV s..<nextV s'} \<subseteq> set locs \<union> set ids"
      and slots: "list_all2 (slot_is (nextV s) ?f' i) locs (ie_locals e)" "list_all2 (slot_is (nextV s) ?f' i) ids (ie_stack e)"
    using j e unfolding join_of_def by blast
  let ?phis = "[nextV s..<nextValueID ?f']"
  have f': "?f' = push_values t vs ?f" using s' by simp
  have n: "nextV s \<le> nextValueID ?f'" "nextValueID ?f' = nextV s + length vs" using f' by (simp_all add: nextV_def)
  have h: "header_phis ?f' t = ?phis" using fresh_phis [OF vs(1) s(2,3)] n(2) f' by (simp add: nextV_def)
  have hF: "header_phis F t = ?phis" using growsD(11) [OF F, of t] t f' h by simp
  have vals: "Values (fblk ?f' t) = ?phis" using f' s(2) n(2) by (simp add: nextV_def)
  then have pre: "prefix ?phis (Values (fblk F t))" using growsD(8) [OF F, of t] t(1) f' by simp
  note locs_d = slots_denote [OF slots(1) d(1) F n(1) refl] and ids_d = slots_denote [OF slots(2) d(2) F n(1) refl]
  have some: "phi_val F i env x \<noteq> None" if "x \<in> set ?phis" for x
  proof -
    have "x \<in> set locs \<union> set ids" "nextV s \<le> x" using that vs(3) n(2) s' by (auto simp: nextV_def)
    then show ?thesis using locs_d(2) ids_d(2) by blast
  qed
  have "leads sem F cfg (\<lambda>k. resume k sem F (t, length ?phis, phi_env F i ?phis env, st))"
    by (rule leads_into [OF pre hF some leads])
  moreover have "here s' (phi_env F i ?phis env) st = (t, length ?phis, phi_env F i ?phis env, st)"
    using vals s' s(1) by (simp add: here_def)
  moreover have "length ids = length ws" using denotes_length [OF ids_d(1)] .
  ultimately show ?thesis using locs_d(1) ids_d(1) s' vs(2) by (intro exI [of _ "phi_env F i ?phis env"]) (auto intro: agree_phi_env)
qed

text \<open>Control is on its way into the join block \<open>t\<close>.\<close>

definition lands :: "lowerState \<Rightarrow> nat \<Rightarrow> nat \<Rightarrow> env \<Rightarrow> wval list \<Rightarrow> wval list \<Rightarrow> bool" where
  "lands s t j env ls ws \<longleftrightarrow> j < length (Preds (fblk (bf (ls_b s)) t)) \<and>
     (\<exists>e \<in> set (inc s t). eBlock (Preds (fblk (bf (ls_b s)) t) ! j) = ie_from e \<and>
        denotes env (ie_locals e) ls \<and> denotes env (ie_stack e) (rev ws))"

lemma arrives_lands:
  "cf_kind fr \<noteq> ctrlLoop \<Longrightarrow> arrives s fr j env ls ws \<longleftrightarrow>
     lands s (cf_target fr) j env ls (take (cf_resultCount fr) ws) \<and> cf_resultCount fr \<le> length ws"
  by (auto simp: arrives_def lands_def Let_def)

lemma prefix_Preds:
  "grows Q P f f' \<Longrightarrow> t < nextBlockID f \<Longrightarrow> j < length (Preds (fblk f t)) \<Longrightarrow>
   j < length (Preds (fblk f' t)) \<and> Preds (fblk f' t) ! j = Preds (fblk f t) ! j"
  using growsD(9) [of Q P f f' t] by (auto simp: prefix_def nth_append)

lemma lands_grows:
  assumes "lands s t j env ls ws" and "grows Q P (bf (ls_b s)) (bf (ls_b s'))" and "t < bound s" and "set (inc s t) \<subseteq> set (inc s' t)"
  shows "lands s' t j env ls ws"
  using assms(1,4) prefix_Preds [OF assms(2), of t j] assms(3) by (auto simp: lands_def bound_def)

lemma arrives_grows:
  assumes a: "arrives s fr j env ls ws" and fr: "frame_inv s fr" and v: "vals_lt (bf (ls_b s))"
    and g: "grows Q P (bf (ls_b s)) (bf (ls_b s'))" and P: "cf_kind fr = ctrlLoop \<Longrightarrow> cf_target fr \<notin> P"
    and i: "cf_kind fr \<noteq> ctrlLoop \<Longrightarrow> set (inc s (cf_target fr)) \<subseteq> set (inc s' (cf_target fr))"
  shows "arrives s' fr j env ls ws"
proof (cases "cf_kind fr = ctrlLoop")
  case False
  then show ?thesis using a i lands_grows [OF _ g] frame_target_lt [OF fr] by (simp add: arrives_lands)
next
  case True
  let ?f = "bf (ls_b s)" and ?f' = "bf (ls_b s')" and ?t = "cf_target fr"
  have t: "?t < nextBlockID ?f" using frame_target_lt [OF fr] by (simp add: bound_def)
  have same: "header_phis ?f' ?t = header_phis ?f ?t" by (rule growsD(11) [OF g t P [OF True]])
  obtain xs where xs: "denotes env xs ls"
      "list_all2 (\<lambda>p x. j < length (vArgs (fval ?f p)) \<and> vArgs (fval ?f p) ! j = Some x) (header_phis ?f ?t) xs"
    using a True by (auto simp: arrives_def Let_def)
  have "list_all2 (\<lambda>p x. j < length (vArgs (fval ?f' p)) \<and> vArgs (fval ?f' p) ! j = Some x) (header_phis ?f ?t) xs"
  proof (rule list.rel_mono_strong [OF xs(2)])
    fix p x assume p: "p \<in> set (header_phis ?f ?t)" and px: "j < length (vArgs (fval ?f p)) \<and> vArgs (fval ?f p) ! j = Some x"
    from growsD(6) [OF g header_lt [OF v p]] show "j < length (vArgs (fval ?f' p)) \<and> vArgs (fval ?f' p) ! j = Some x"
      using px by (auto simp: prefix_def nth_append)
  qed
  then show ?thesis using True prefix_Preds [OF g t, of j] a xs(1) same by (auto simp: arrives_def Let_def)
qed

section \<open>The end of a frame\<close>

lemma ctrl_irrelevant [simp]:
  "frame_inv (s\<lparr>ls_ctrl := fs\<rparr>) fr = frame_inv s fr" "live_state c (s\<lparr>ls_ctrl := fs\<rparr>) = live_state c s"
  "lands (s\<lparr>ls_ctrl := fs\<rparr>) = lands s" "arrives (s\<lparr>ls_ctrl := fs\<rparr>) = arrives s" "here (s\<lparr>ls_ctrl := fs\<rparr>) = here s"
  by (simp_all add: frame_inv_def join_ok_def header_ok_def else_ok_def live_state_def lands_def arrives_def here_def fun_eq_iff)

lemma flowed_ctrl: "flowed t r (s\<lparr>ls_ctrl := fs\<rparr>) = (flowed t r s)\<lparr>ls_ctrl := fs\<rparr>"
  by (simp add: flowed_def closed_def recorded_def on_func_def inc_def edge_of_def)

text \<open>What may be assumed of the state in which the join of the frame \<open>fr\<close> is entered.\<close>

definition joinable :: "ctrlFrame list \<Rightarrow> ctrlFrame \<Rightarrow> lowerState \<Rightarrow> bool" where
  "joinable fs fr s \<longleftrightarrow> (\<forall>fr' \<in> set (fs @ [fr]). frame_inv s fr') \<and> distinct (concat (map frame_blocks (fs @ [fr]))) \<and>
     ls_unreachableDepth s = 0 \<and> \<not> ls_mutableLocals s \<and> \<not> ls_mem64 s \<and> ls_inlineFrames s = [] \<and> vals_lt (bf (ls_b s)) \<and>
     (ls_incoming s (fwd fr) = None \<longrightarrow> ls_unreachable s) \<and> inc_bound s"

lemma joinable_ctrl [simp]: "joinable fs fr (s\<lparr>ls_ctrl := gs\<rparr>) = joinable fs fr s"
  by (simp add: joinable_def inc_bound_def)

lemma joinable_quietly:
  assumes "ctx s" and "ls_ctrl s = fs @ [fr]" and "ls_unreachable s"
  shows "joinable fs fr s"
  using assms ctxD [OF assms(1)] ctx_vals by (auto simp: joinable_def)

lemma closed_grows: "grows {c} {} (bf (ls_b s)) (bf (ls_b (closed c t r s)))"
proof -
  have "grows {c} {} (bf (ls_b s)) (AddEdge c t (set_kind BlockPlain c (bf (ls_b s))))"
    by (rule grows_step [OF grows_set(1) grows_AddEdge]) simp_all
  then show ?thesis by (simp add: closed_def)
qed

lemma closed_hits:
  assumes s: "ctx s" "\<not> ls_unreachable s" "cur (ls_b s) = Some c" and "untouched (bf (ls_b s)) t"
  shows "hits c t (edge_of c r s) b s (closed c t r s)"
proof -
  note live = ctx_live [OF s]
  have h: "header_phis (bf (ls_b s)) t = []" using assms(4) by (simp add: untouched_def header_phis_def)
  show ?thesis
    using closed_grows [of c s t r] live_stateD [OF live(2)] live(5) h edge_lt [OF live_stateD(4) [OF live(2)]]
    unfolding hits_def by (auto simp: closed_def edge_of_def)
qed

lemma closed_joinable:
  assumes s: "ctx s" "\<not> ls_unreachable s" "cur (ls_b s) = Some c" and fs: "ls_ctrl s = fs @ [fr]"
    and r: "cf_resultCount fr \<le> length (ls_stack s)"
  shows "joinable fs fr (closed c (fwd fr) (cf_resultCount fr) s)"
proof -
  let ?s = "closed c (fwd fr) (cf_resultCount fr) s"
  note live = ctx_live [OF s]
  have fr: "fr \<in> set (ls_ctrl s)" using fs by simp
  have inv: "func_inv (bf (ls_b s))" by (rule state_invD(1) [OF ctxD(1) [OF s(1)]])
  have un: "untouched (bf (ls_b s)) (fwd fr)" using ctxD(7) [OF s(1) fr] by (simp add: frame_inv_def pend_blocks_def)
  have fresh: "c \<notin> ie_from ` set (inc s (fwd fr))" using open_fresh [OF s(1) live(4) fr] by (simp add: fresh_edge_def)
  have "frame_inv ?s fr'" if "fr' \<in> set (ls_ctrl s)" for fr'
    by (rule hits_frames [OF closed_hits [OF s un] fr disjI2 [OF refl] ctxD(6) [OF s(1)] that ctxD(7) [OF s(1) that] live(3) inv _ fresh])
      (use r in \<open>simp add: edge_of_def\<close>)
  moreover have "vals_lt (bf (ls_b ?s))" using ctx_vals [OF s(1)] by (simp add: closed_def vals_lt_def)
  moreover have "inc_bound ?s"
    using ctxD(8) [OF s(1)] frame_target_lt [OF ctxD(7) [OF s(1) fr]] by (auto simp: inc_bound_def closed_def bound_def)
  ultimately show ?thesis using ctxD [OF s(1)] fs by (simp add: joinable_def closed_def)
qed

text \<open>Entering the join, or going on in dead code.\<close>

lemma join_ctx:
  assumes j: "joinable fs fr s" and ctrl: "ls_ctrl s = fs" and e: "enter_join (fwd fr) (cf_resultCount fr) base s = Inr ((), s')"
    and inv: "state_inv s'" and lt: "ids_lt (nextV s) (take base (ls_stack s))" and base: "base \<le> length (ls_stack s)"
  shows "ctx s' \<and> ls_ctrl s' = fs \<and> grows {fwd fr} {fwd fr} (bf (ls_b s)) (bf (ls_b s')) \<and> same_consts s s' \<and>
    (\<forall>t. t \<noteq> fwd fr \<longrightarrow> ls_incoming s' t = ls_incoming s t) \<and> take base (ls_stack s') = take base (ls_stack s) \<and> base \<le> length (ls_stack s') \<and>
    (\<not> ls_unreachable s' \<longrightarrow> cur (ls_b s') = Some (fwd fr) \<and> length (ls_stack s') = base + cf_resultCount fr) \<and> ls_rd s' = ls_rd s \<and>
    (ls_incoming s (fwd fr) \<noteq> None \<longrightarrow> \<not> ls_unreachable s' \<and>
       join_of (fwd fr) (length (ls_localTypes s)) (cf_resultCount fr) base (inc s (fwd fr))
         (at_block (fwd fr) s\<lparr>ls_unreachable := False, ls_incoming := (ls_incoming s)(fwd fr := None)\<rparr>) s')"
proof -
  let ?t = "fwd fr" and ?r = "cf_resultCount fr"
  have frames: "frame_inv s fr'" if "fr' \<in> set (fs @ [fr])" for fr' using j that unfolding joinable_def by blast
  have d: "distinct (concat (map frame_blocks (fs @ [fr])))" and vals: "vals_lt (bf (ls_b s))" using j by (simp_all add: joinable_def)
  have ok: "join_ok s ?t ?r" "untouched (bf (ls_b s)) ?t" using frames [of fr] by (simp_all add: frame_inv_def pend_blocks_def)
  then have edges: "edges_ok (nextV s) (length (ls_localTypes s)) ?r (inc s ?t)" "ls_incoming s ?t \<noteq> Some []" by (simp_all add: join_ok_def)
  note run = enter_join_run [OF e edges]
  show ?thesis
  proof (cases "ls_incoming s ?t")
    case None
    then have "s' = s" "ls_unreachable s" using run j by (simp_all add: joinable_def)
    moreover have "ctx s" using j ctrl inv \<open>s' = s\<close> \<open>ls_unreachable s\<close> by (simp add: ctx_def joinable_def)
    ultimately show ?thesis using ctrl None base by (simp add: same_consts_def)
  next
    case (Some es)
    let ?s = "at_block ?t s\<lparr>ls_unreachable := False, ls_incoming := (ls_incoming s)(?t := None)\<rparr>"
    have jo: "join_of ?t (length (ls_localTypes s)) ?r base (inc s ?t) ?s s'" using run Some by simp
    then obtain vs locs ids where s': "s' = (on_func (push_values ?t vs) ?s)\<lparr>ls_locals := locs, ls_stack := take base (ls_stack s) @ ids\<rparr>"
        and vs: "phis_pushed ?t vs" "length locs = length (ls_localTypes s)" "length ids = ?r" "ids_lt (nextV s') locs" "ids_lt (nextV s') ids"
      unfolding join_of_def by auto
    have f': "bf (ls_b s') = push_values ?t vs (bf (ls_b s))" using s' by simp
    have g: "grows {?t} {?t} (bf (ls_b s)) (bf (ls_b s'))" unfolding f' using grows_pushes [OF vals, of ?t "{?t}" vs "{?t}"] by simp
    have S: "keeps_Succs (bf (ls_b s)) (bf (ls_b s'))" unfolding f' by (simp add: keeps_Succs_def)
    have other: "?t \<notin> set (frame_blocks fr')" if "fr' \<in> set fs" for fr'
      using d that frame_blocks_mem(1) [of fr] by (auto simp: disjoint_iff)
    have fr': "frame_inv s' fr'" if "fr' \<in> set fs" for fr'
    proof (rule frame_grows [OF frames vals g _ S])
      show "fr' \<in> set (fs @ [fr])" "ls_localTypes s' = ls_localTypes s" using that s' by simp_all
      show "{?t} \<inter> set (pend_blocks fr') = {}" using other [OF that] frame_blocks_mem(3) [of fr'] by auto
      show "cf_kind fr' = ctrlLoop \<Longrightarrow> cf_target fr' \<notin> {?t}" using other [OF that] frame_blocks_mem(2) [of fr'] by auto
      show "Preds (fblk (bf (ls_b s')) (cf_target fr')) = Preds (fblk (bf (ls_b s)) (cf_target fr'))" unfolding f' by simp
      show "length (vArgs (fval (bf (ls_b s')) i)) = length (vArgs (fval (bf (ls_b s)) i))" if "i < nextV s" for i
        using that unfolding f' by (simp add: nextV_def fval_push_old)
      show "ls_incoming s' (fwd fr') = ls_incoming s (fwd fr')" using other [OF that] frame_blocks_mem(1) [of fr'] s' by auto
    qed
    have "nextV s \<le> nextV s'" unfolding nextV_def f' by simp
    then have lts: "ids_lt (nextV s') (ls_stack s')" using vs(5) ids_lt_mono [OF lt] s' by simp
    have "?t \<notin> pends fs" using other frame_blocks_mem(3) by (force simp: pends_def)
    moreover have "Succs (fblk (bf (ls_b s')) ?t) = []" using ok(2) unfolding f' by (simp add: untouched_def)
    ultimately have "cur_ok ?t s'" using j lts vs(2,4) s' ctrl by (simp add: cur_ok_def live_state_def joinable_def)
    moreover have "distinct (concat (map frame_blocks fs))" using d by simp
    moreover have "inc_bound s'" using j s' by (auto simp: inc_bound_def joinable_def bound_def)
    ultimately have "ctx s'" using j inv fr' s' ctrl by (auto simp: ctx_def joinable_def)
    then show ?thesis using s' vs(3) jo g ctrl base by (auto simp: same_consts_def)
  qed
qed

section \<open>From the body to the join\<close>

text \<open>Growth over several frames; \<open>fs\<close> are those that stay.\<close>

definition evolves :: "ctrlFrame list \<Rightarrow> lowerState \<Rightarrow> lowerState \<Rightarrow> bool" where
  "evolves fs s s' \<longleftrightarrow> grows (opens s) (pends (ls_ctrl s)) (bf (ls_b s)) (bf (ls_b s')) \<and> ls_localTypes s' = ls_localTypes s \<and> ls_ft s' = ls_ft s \<and>
     (\<forall>b < bound s. (b \<in> opens s' \<longrightarrow> b \<in> opens s) \<and> (b \<in> pends (ls_ctrl s') \<longrightarrow> b \<in> pends (ls_ctrl s))) \<and>
     (\<forall>fr \<in> set fs. prefix (inc s (fwd fr)) (inc s' (fwd fr)))"

lemma evolves_trans:
  assumes "evolves fs s s'" and "evolves fs s' s''"
  shows "evolves fs s s''"
proof -
  have g: "grows (opens s) (pends (ls_ctrl s)) (bf (ls_b s)) (bf (ls_b s'))" using assms(1) by (simp add: evolves_def)
  have le: "bound s \<le> bound s'" using growsD(4) [OF g] by (simp add: bound_def)
  have "grows (opens s) (pends (ls_ctrl s)) (bf (ls_b s)) (bf (ls_b s''))"
    by (rule grows_trans [OF g, where Q' = "opens s'" and P' = "pends (ls_ctrl s')"]) (use assms in \<open>auto simp: evolves_def bound_def\<close>)
  moreover have "prefix (inc s (fwd fr)) (inc s'' (fwd fr))" if "fr \<in> set fs" for fr
    by (rule prefix_order.trans [of _ "inc s' (fwd fr)"]) (use that assms in \<open>auto simp: evolves_def\<close>)
  ultimately show ?thesis using assms le by (auto simp: evolves_def)
qed

lemma evolves_extends: "extends s' F \<Longrightarrow> evolves fs s s' \<Longrightarrow> extends s F"
  unfolding extends_def evolves_def
  by (rule grows_trans [where g = "bf (ls_b s')" and Q' = "opens s'" and P' = "pends (ls_ctrl s')"]) (auto simp: bound_def)

lemma later_evolves: "later base s s' \<Longrightarrow> set fs \<subseteq> set (ls_ctrl s) \<Longrightarrow> evolves fs s s'"
  by (auto simp: later_def evolves_def)

lemma evolves_later:
  "evolves (ls_ctrl s) s s' \<Longrightarrow> ls_ctrl s' = ls_ctrl s \<Longrightarrow> base \<le> length (ls_stack s') \<Longrightarrow> take base (ls_stack s') = take base (ls_stack s) \<Longrightarrow>
   later base s s'"
  by (auto simp: later_def evolves_def not_less [symmetric])

lemma evolves_le: "evolves fs s s' \<Longrightarrow> nextV s \<le> nextV s' \<and> bound s \<le> bound s'"
  using growsD(3,4) by (auto simp: evolves_def nextV_def bound_def)

definition flows :: "ctrlFrame \<Rightarrow> lowerState \<Rightarrow> lowerState \<Rightarrow> bool" where
  "flows fr s s' \<longleftrightarrow> (let t = fwd fr; r = cf_resultCount fr in
     grows (opens s) (pends (ls_ctrl s)) (bf (ls_b s)) (bf (ls_b s')) \<and> prefix (inc s t) (inc s' t) \<and>
     (\<forall>t'. t' \<noteq> t \<longrightarrow> ls_incoming s' t' = ls_incoming s t') \<and> ls_stack s' = ls_stack s \<and> ls_localTypes s' = ls_localTypes s \<and>
     ls_ft s' = ls_ft s \<and> ls_unreachable s' = ls_unreachable s \<and>
     (\<not> ls_unreachable s \<longrightarrow> (\<forall>sem F env ls vs st. grows (pends (ls_ctrl s)) (pends (ls_ctrl s)) (bf (ls_b s')) F \<longrightarrow> length vs = r \<longrightarrow>
        denotes env (top_vals r (ls_stack s)) (rev vs) \<longrightarrow> denotes env (ls_locals s) ls \<longrightarrow>
        (\<exists>j. leads sem F (here s env st) (\<lambda>k. run k sem F t j env st) \<and> lands s' t j env ls vs))))"

lemma closed_go:
  assumes s: "ctx s" "\<not> ls_unreachable s" "cur (ls_b s) = Some c" and g: "grows Q P (AddEdge c t (set_kind BlockPlain c (bf (ls_b s)))) F" "c \<notin> Q"
  shows "leads sem F (here s env st) (\<lambda>k. run k sem F t (length (Preds (fblk (bf (ls_b s)) t))) env st)"
proof -
  note live = ctx_live [OF s]
  let ?f = "AddEdge c t (set_kind BlockPlain c (bf (ls_b s)))"
  have "terminate (Sig ?f) (fblk ?f c) env st = Done (Goto t (length (Preds (fblk (bf (ls_b s)) t))) env st)"
    using live(4) by (simp add: terminate_def take_edge_def)
  moreover have "c < nextBlockID ?f" "length (Values (fblk (bf (ls_b s)) c)) = length (Values (fblk ?f c))" using live(5) by (simp_all add: bound_def)
  ultimately show ?thesis using leads_goto [OF g(1) _ g(2)] here_at [OF s(3)] by simp
qed

lemma flows_flowed:
  assumes s: "ctx s" and fs: "ls_ctrl s = fs @ [fr]" and r: "\<not> ls_unreachable s \<Longrightarrow> cf_resultCount fr \<le> length (ls_stack s)"
  shows "flows fr s (flowed (fwd fr) (cf_resultCount fr) s)" and "joinable fs fr (flowed (fwd fr) (cf_resultCount fr) s)"
proof -
  let ?t = "fwd fr" and ?r = "cf_resultCount fr"
  have "flows fr s (flowed ?t ?r s) \<and> joinable fs fr (flowed ?t ?r s)"
  proof (cases "ls_unreachable s")
    case True
    then show ?thesis using joinable_quietly [OF s fs] by (simp add: flowed_def flows_def Let_def)
  next
    case False
    then obtain c where c: "cur (ls_b s) = Some c" using ctx_cur [OF s] by blast
    note live = ctx_live [OF s False c]
    have fl: "flowed ?t ?r s = closed c ?t ?r s" by (rule flowed_live [OF False c])
    have "c \<in> opens s" using False c by (simp add: opens_def)
    then have g: "grows (opens s) (pends (ls_ctrl s)) (bf (ls_b s)) (bf (ls_b (closed c ?t ?r s)))"
      using grows_mono [OF closed_grows] by blast
    have f: "bf (ls_b (closed c ?t ?r s)) = AddEdge c ?t (set_kind BlockPlain c (bf (ls_b s)))" by (simp add: closed_def)
    have "leads sem F (here s env st) (\<lambda>k. run k sem F ?t (length (Preds (fblk (bf (ls_b s)) ?t))) env st) \<and>
        lands (closed c ?t ?r s) ?t (length (Preds (fblk (bf (ls_b s)) ?t))) env ls vs"
      if F: "grows (pends (ls_ctrl s)) (pends (ls_ctrl s)) (bf (ls_b (closed c ?t ?r s))) F"
        and d: "denotes env (top_vals ?r (ls_stack s)) (rev vs)" "denotes env (ls_locals s) ls" for sem F env ls vs st
      using closed_go [OF s False c F [unfolded f] live(3)] d unfolding lands_def by (auto simp: closed_def edge_of_def top_vals_def)
    then show ?thesis using closed_joinable [OF s False c fs r [OF False]] g False fl
      unfolding flows_def Let_def by (simp add: closed_def) blast
  qed
  then show "flows fr s (flowed ?t ?r s)" "joinable fs fr (flowed ?t ?r s)" by simp_all
qed

text \<open>The state after the join, against the state before it.\<close>

definition ends_frame :: "ctrlFrame list \<Rightarrow> ctrlFrame \<Rightarrow> nat \<Rightarrow> lowerState \<Rightarrow> lowerState \<Rightarrow> lowerState \<Rightarrow> bool" where
  "ends_frame fs fr base s sf s' \<longleftrightarrow> ctx s \<and> ls_ctrl s = fs @ [fr] \<and> flows fr s sf \<and> joinable fs fr sf \<and> ls_ctrl sf = fs @ [fr] \<and>
     enter_join (fwd fr) (cf_resultCount fr) base (sf\<lparr>ls_ctrl := fs\<rparr>) = Inr ((), s') \<and> state_inv s' \<and>
     ids_lt (nextV s) (take base (ls_stack s)) \<and> base \<le> length (ls_stack s)"

lemma nextV_ctrl [simp]: "nextV (s\<lparr>ls_ctrl := fs\<rparr>) = nextV s"
  by simp

lemma ends_frame_facts:
  assumes "ends_frame fs fr base s sf s'"
  shows "ctx s'" "ls_ctrl s' = fs" "evolves fs s s'" "take base (ls_stack s') = take base (ls_stack s)" "base \<le> length (ls_stack s')"
    "\<not> ls_unreachable s' \<Longrightarrow> length (ls_stack s') = base + cf_resultCount fr" "ls_rd s' = ls_rd sf"
    "grows {fwd fr} {fwd fr} (bf (ls_b sf)) (bf (ls_b s'))" "opens s' \<subseteq> pends fs \<union> {fwd fr}"
    "ls_incoming sf (fwd fr) \<noteq> None \<Longrightarrow> \<not> ls_unreachable s' \<and>
       join_of (fwd fr) (length (ls_localTypes sf)) (cf_resultCount fr) base (inc sf (fwd fr))
         (at_block (fwd fr) (sf\<lparr>ls_ctrl := fs\<rparr>)\<lparr>ls_unreachable := False, ls_incoming := (ls_incoming sf)(fwd fr := None)\<rparr>) s'"
proof -
  let ?t = "fwd fr"
  have s: "ctx s" "ls_ctrl s = fs @ [fr]" "flows fr s sf" "joinable fs fr sf"
      "enter_join ?t (cf_resultCount fr) base (sf\<lparr>ls_ctrl := fs\<rparr>) = Inr ((), s')" "state_inv s'"
      "ids_lt (nextV s) (take base (ls_stack s))" "base \<le> length (ls_stack s)"
    using assms by (simp_all add: ends_frame_def)
  have fl: "grows (opens s) (pends (ls_ctrl s)) (bf (ls_b s)) (bf (ls_b sf))" "prefix (inc s ?t) (inc sf ?t)"
      "\<And>t. t \<noteq> ?t \<Longrightarrow> ls_incoming sf t = ls_incoming s t" "ls_stack sf = ls_stack s" "ls_localTypes sf = ls_localTypes s" "ls_ft sf = ls_ft s"
    using s(3) by (simp_all add: flows_def Let_def)
  have "nextV s \<le> nextV sf" using growsD(3) [OF fl(1)] by (simp add: nextV_def)
  then have lt: "ids_lt (nextV (sf\<lparr>ls_ctrl := fs\<rparr>)) (take base (ls_stack (sf\<lparr>ls_ctrl := fs\<rparr>)))"
    using s(7) fl(4) ids_lt_mono by simp
  have j: "joinable fs fr (sf\<lparr>ls_ctrl := fs\<rparr>)" "ls_ctrl (sf\<lparr>ls_ctrl := fs\<rparr>) = fs" using s(4) by simp_all
  have le: "base \<le> length (ls_stack (sf\<lparr>ls_ctrl := fs\<rparr>))" using s(8) fl(4) by simp
  note e = join_ctx [OF j s(5,6) lt le]
  then show "ctx s'" "ls_ctrl s' = fs" "take base (ls_stack s') = take base (ls_stack s)" "base \<le> length (ls_stack s')" "ls_rd s' = ls_rd sf"
    "\<not> ls_unreachable s' \<Longrightarrow> length (ls_stack s') = base + cf_resultCount fr" using fl(4) by simp_all
  show g: "grows {?t} {?t} (bf (ls_b sf)) (bf (ls_b s'))" using e by simp
  show op: "opens s' \<subseteq> pends fs \<union> {?t}" using e by (auto simp: opens_def)
  show "ls_incoming sf ?t \<noteq> None \<Longrightarrow> \<not> ls_unreachable s' \<and>
       join_of ?t (length (ls_localTypes sf)) (cf_resultCount fr) base (inc sf ?t)
         (at_block ?t (sf\<lparr>ls_ctrl := fs\<rparr>)\<lparr>ls_unreachable := False, ls_incoming := (ls_incoming sf)(?t := None)\<rparr>) s'"
    using e by simp
  have t: "?t \<in> pends (ls_ctrl s)" using s(2) by (auto simp: pends_def pend_blocks_def)
  then have "grows (opens s) (pends (ls_ctrl s)) (bf (ls_b sf)) (bf (ls_b s'))" using grows_mono [OF g] by (simp add: opens_def)
  then have "grows (opens s) (pends (ls_ctrl s)) (bf (ls_b s)) (bf (ls_b s'))" by (rule grows_step [OF fl(1)])
  moreover have "prefix (inc s (fwd fr')) (inc s' (fwd fr'))" if "fr' \<in> set fs" for fr'
  proof -
    have "?t \<noteq> fwd fr'"
      using ctxD(6) [OF s(1)] s(2) that frame_blocks_mem(1) [of fr] frame_blocks_mem(1) [of fr'] by (auto simp: disjoint_iff)
    then show ?thesis using e fl(3) by (simp add: inc_def)
  qed
  ultimately show "evolves fs s s'" using op t s(2) e fl(5,6) by (auto simp: evolves_def opens_def pends_def same_consts_def)
qed

text \<open>Whatever has landed at the join goes on behind it.\<close>

lemma landed_reaches:
  assumes e: "ends_frame fs fr base s sf s'" and F: "extends s' F" and l: "lands sf (fwd fr) j env1 ls vs"
    and run: "leads sem F cfg (\<lambda>k. run k sem F (fwd fr) j env1 st)" and a: "agree m env env1" "m \<le> nextV s"
    and d: "denotes env1 (drop base' (take base (ls_stack s))) (rev ws)" and base': "base' \<le> base"
  shows "reaches sem F s' base' m cfg env (WNormal (vs @ ws) ls st) \<and> length vs = cf_resultCount fr"
proof -
  let ?t = "fwd fr"
  note x = ends_frame_facts [OF e]
  obtain ed where ed: "j < length (Preds (fblk (bf (ls_b sf)) ?t))" "ed \<in> set (inc sf ?t)"
      "eBlock (Preds (fblk (bf (ls_b sf)) ?t) ! j) = ie_from ed" "denotes env1 (ie_locals ed) ls" "denotes env1 (ie_stack ed) (rev vs)"
    using l by (auto simp: lands_def)
  let ?s = "at_block ?t (sf\<lparr>ls_ctrl := fs\<rparr>)\<lparr>ls_unreachable := False, ls_incoming := (ls_incoming sf)(?t := None)\<rparr>"
  have "ls_incoming sf ?t \<noteq> None" using ed(2) by (cases "ls_incoming sf ?t") (simp_all add: inc_def)
  note jo = x(10) [OF this]
  have sf: "ls_stack sf = ls_stack s" "joinable fs fr sf" "grows (opens s) (pends (ls_ctrl s)) (bf (ls_b s)) (bf (ls_b sf))"
    using e unfolding ends_frame_def flows_def Let_def by blast+
  have nV: "nextV s \<le> nextV sf" using growsD(3) [OF sf(3)] by (simp add: nextV_def)
  have ok: "untouched (bf (ls_b sf)) ?t" "vals_lt (bf (ls_b sf))" "join_ok sf ?t (cf_resultCount fr)"
    using sf(2) by (simp_all add: joinable_def frame_inv_def pend_blocks_def)
  have un: "Values (fblk (bf (ls_b ?s)) ?t) = []" "vals_lt (bf (ls_b ?s))" "?t < nextBlockID (bf (ls_b ?s))"
    using ok by (simp_all add: untouched_def)
  have "ids_lt (nextV s) (take base (ls_stack s))" using e by (simp add: ends_frame_def)
  then have lt: "ids_lt (nextV ?s) (take base (ls_stack ?s))" using ids_lt_mono [OF _ nV] sf(1) by simp
  have "?t \<notin> pends fs"
    using ctxD(6) [of s] e frame_blocks_mem(1) [of fr] frame_blocks_mem(3) by (fastforce simp: ends_frame_def pends_def disjoint_iff)
  then have P: "?t \<notin> pends (ls_ctrl s')" using x(2) by simp
  have "\<exists>env'. leads sem F cfg (\<lambda>k. resume k sem F (here s' env' st)) \<and> agree (nextV ?s) env1 env' \<and> denotes env' (ls_locals s') ls \<and>
      (\<exists>ids. ls_stack s' = take base (ls_stack ?s) @ ids \<and> denotes env' ids (rev vs)) \<and> length (ls_stack s') = base + length (rev vs)"
    by (rule join_lands [OF conjunct2 [OF jo] _ un P extends_grows [OF F] _ ed(2) _ ed(4,5) lt run]) (use ed(1,3) in simp_all)
  then obtain env' ids where env': "leads sem F cfg (\<lambda>k. resume k sem F (here s' env' st))" "agree (nextV sf) env1 env'" "denotes env' (ls_locals s') ls"
      "ls_stack s' = take base (ls_stack s) @ ids" "denotes env' ids (rev vs)" "length (ls_stack s') = base + length vs"
    using sf(1) by auto
  have "ids_lt (nextV s) (drop base' (take base (ls_stack s)))" using e by (simp add: ends_frame_def ids_lt_take)
  then have d': "denotes env' (drop base' (take base (ls_stack s))) (rev ws)"
    using denotes_agree [OF d env'(2)] ids_lt_mono nV by blast
  have "base' \<le> length (take base (ls_stack s))" using e base' by (simp add: ends_frame_def)
  then have "drop base' (ls_stack s') = drop base' (take base (ls_stack s)) @ ids" using env'(4) by simp
  then have "denotes env' (drop base' (ls_stack s')) (rev (vs @ ws))"
    using d' env'(5) denotes_length [OF d'] by (simp add: denotes_append)
  moreover have "agree m env env'" using agree_trans [OF a(1) env'(2)] a(2) nV by simp
  moreover have "length vs = cf_resultCount fr" using env'(6) x(6) jo by simp
  ultimately show ?thesis using env'(1,3) jo unfolding reaches_normal by blast
qed

lemma label_snoc: "ls_ctrl s = fs @ [fr] \<Longrightarrow> label s 0 = fr"
  "ls_ctrl s = fs @ [fr] \<Longrightarrow> ls_ctrl s' = fs \<Longrightarrow> d < length fs \<Longrightarrow> label s (Suc d) = label s' d"
  by (simp_all add: label_def nth_append)

lemma ends_frame_extends:
  assumes e: "ends_frame fs fr base s sf s'" and F: "extends s' F"
  shows "grows (pends (ls_ctrl s)) (pends (ls_ctrl s)) (bf (ls_b sf)) F" and "extends s F"
proof -
  note x = ends_frame_facts [OF e]
  have s: "ls_ctrl s = fs @ [fr]" using e by (simp add: ends_frame_def)
  then have t: "fwd fr \<in> pends (ls_ctrl s)" "pends fs \<subseteq> pends (ls_ctrl s)" by (auto simp: pends_def pend_blocks_def)
  show "grows (pends (ls_ctrl s)) (pends (ls_ctrl s)) (bf (ls_b sf)) F"
    by (rule grows_trans [OF grows_mono [OF x(8)] extends_grows [OF F]]) (use t x(2,9) in auto)
  show "extends s F" by (rule evolves_extends [OF F x(3)])
qed

text \<open>Leaving a block, however its body ends, unless it is a loop that is branched to.\<close>

lemma leave_reaches:
  assumes e: "ends_frame fs fr base s sf s'" and F: "extends s' F" and r: "reaches sem F s base mb cfg env res"
    and a: "agree m enva env" "m \<le> mb" "mb \<le> nextV s" and d: "denotes env (drop base' (take base (ls_stack s))) (rev ws)"
    and lt: "ids_lt mb (take base (ls_stack s))" and base': "base' \<le> base"
    and h: "\<not> ls_unreachable s \<Longrightarrow> length (ls_stack s) = base + cf_resultCount fr"
    and loop: "cf_kind fr = ctrlLoop \<Longrightarrow> \<nexists>vs ls st. res = WBranch 0 vs ls st"
  shows "reaches sem F s' base' m cfg enva (leave_block (cf_resultCount fr) ws res)"
proof -
  let ?r = "cf_resultCount fr" and ?t = "fwd fr"
  note x = ends_frame_facts [OF e]
  have s: "ctx s" "ls_ctrl s = fs @ [fr]" "flows fr s sf" using e by (simp_all add: ends_frame_def)
  have outer: "denotes env1 (drop base' (take base (ls_stack s))) (rev ws) \<and> agree m enva env1" if "agree mb env env1" for env1
    using denotes_agree [OF d that ids_lt_take(2) [OF lt]] agree_trans [OF a(1) that a(2)] by simp
  have m: "m \<le> nextV s" using a by simp
  show ?thesis
  proof (cases res)
    case (WNormal vs ls st)
    then obtain env1 where n: "\<not> ls_unreachable s" "leads sem F cfg (\<lambda>k. resume k sem F (here s env1 st))" "agree mb env env1"
        "denotes env1 (drop base (ls_stack s)) (rev vs)" "denotes env1 (ls_locals s) ls" using r by (auto simp: reaches_normal)
    show ?thesis
    proof (cases "length vs = ?r")
      case True
      have "top_vals ?r (ls_stack s) = drop base (ls_stack s)" using h [OF n(1)] by (simp add: top_vals_def)
      then obtain j where j: "leads sem F (here s env1 st) (\<lambda>k. run k sem F ?t j env1 st)" "lands sf ?t j env1 ls vs"
        using s(3) n(1,4,5) True ends_frame_extends(1) [OF e F] unfolding flows_def Let_def by metis
      from landed_reaches [OF e F j(2) leads_trans [OF n(2) j(1)] _ m _ base', where env = enva and ws = ws] outer [OF n(3)]
      show ?thesis using WNormal True by (simp add: leave_block_def)
    qed (use WNormal in \<open>simp add: leave_block_def\<close>)
  next
    case (WBranch d vs ls st)
    then obtain env1 j where b: "d < length (ls_ctrl s)" "agree mb env env1" "arrives s (label s d) j env1 ls vs"
        "leads sem F cfg (\<lambda>k. run k sem F (cf_target (label s d)) j env1 st)" using r unfolding WBranch reaches_branch by blast
    show ?thesis
    proof (cases d)
      case 0
      then have fr: "label s d = fr" "cf_kind fr \<noteq> ctrlLoop" "cf_target fr = ?t" using label_snoc(1) [OF s(2)] loop WBranch by (auto simp: fwd_def)
      then have l: "lands s ?t j env1 ls (take ?r vs)" "?r \<le> length vs" using b(3) by (simp_all add: arrives_lands)
      have inv: "frame_inv s fr" using ctxD(7) [OF s(1)] s(2) by simp
      have "grows (opens s) (pends (ls_ctrl s)) (bf (ls_b s)) (bf (ls_b sf))" "set (inc s ?t) \<subseteq> set (inc sf ?t)"
        using s(3) set_mono_prefix by (auto simp: flows_def Let_def)
      then have l': "lands sf ?t j env1 ls (take ?r vs)" using lands_grows [OF l(1)] frame_target_lt [OF inv] by blast
      from landed_reaches [OF e F l' b(4) [unfolded fr] _ m _ base', where env = enva and ws = ws] outer [OF b(2)] show ?thesis
        using WBranch 0 l(2) by (simp add: leave_block_def)
    next
      case (Suc d')
      then have d': "d' < length fs" "label s d = label s' d'" using b(1) s(2) label_snoc(2) [OF s(2) x(2)] by simp_all
      let ?fr = "label s d"
      have mem: "?fr \<in> set fs" "?fr \<in> set (ls_ctrl s)" using label_mem [of d' s'] d' x(2) s(2) by simp_all
      have g: "grows (opens s) (pends (ls_ctrl s)) (bf (ls_b s)) (bf (ls_b s'))" using x(3) by (simp add: evolves_def)
      have "arrives s' ?fr j env1 ls vs"
      proof (rule arrives_grows [OF b(3) ctxD(7) [OF s(1) mem(2)] ctx_vals [OF s(1)] g])
        show "cf_kind ?fr = ctrlLoop \<Longrightarrow> cf_target ?fr \<notin> pends (ls_ctrl s)" using header_not_pending [OF ctxD(6) [OF s(1)] mem(2)] .
        show "set (inc s (cf_target ?fr)) \<subseteq> set (inc s' (cf_target ?fr))" if "cf_kind ?fr \<noteq> ctrlLoop"
          using x(3) mem(1) that set_mono_prefix by (fastforce simp: evolves_def fwd_def)
      qed
      then show ?thesis using WBranch Suc d' b(4) outer [OF b(2)] x(2) by (auto simp: leave_block_def reaches_branch)
    qed
  qed (use r in \<open>simp_all add: leave_block_def\<close>)
qed

section \<open>Blocks\<close>

lemma handleEnd_frame:
  assumes "handleEnd s = Inr (fin, s')" and "ls_ctrl s = fs @ [fr]"
  shows "\<not> fin \<and> end_frame fr (s\<lparr>ls_ctrl := fs\<rparr>) = Inr ((), s')"
  using assms by (auto simp: handleEnd_def low_eqs lpopFrame_def)

lemma ctx_live_cur: "ctx s \<Longrightarrow> live_cur (s\<lparr>ls_ctrl := fs\<rparr>)"
  using ctx_cur [of s] ctxD(3) [of s] by (auto simp: live_cur_def)

lemma plain_end_run:
  assumes s: "ctx s" "ls_ctrl s = fs @ [fr]" and kind: "cf_kind fr = ctrlBlock \<or> cf_kind fr = ctrlLoop" and run: "handleEnd s = Inr (fin, s')"
    and r: "\<not> ls_unreachable s \<Longrightarrow> cf_resultCount fr \<le> length (ls_stack s)"
    and base: "base = cf_stackHeightAtEntry fr" "base \<le> length (ls_stack s)" "ids_lt (nextV s) (take base (ls_stack s))"
  shows "\<not> fin \<and> ends_frame fs fr base s (flowed (fwd fr) (cf_resultCount fr) s) s'"
proof -
  have e: "\<not> fin" "end_plain (fwd fr) fr (s\<lparr>ls_ctrl := fs\<rparr>) = Inr ((), s')"
    using handleEnd_frame [OF run s(2)] kind by (auto simp: end_frame_def fwd_def)
  have "enter_join (fwd fr) (cf_resultCount fr) base ((flowed (fwd fr) (cf_resultCount fr) s)\<lparr>ls_ctrl := fs\<rparr>) = Inr ((), s')"
    using end_plain_run [OF e(2) ctx_live_cur [OF s(1)]] base(1) by (simp add: flowed_ctrl)
  moreover have "state_inv s'" using keepsD(2) [of 0 handleEnd any s fin s'] keeps_handleEnd ctxD(1) [OF s(1)] run by simp
  ultimately show ?thesis using flows_flowed [OF s r] s base(2,3) e(1) by (simp add: ends_frame_def)
qed

lemma fresh_block_facts:
  assumes "ctx s"
  shows "b \<in> pends (ls_ctrl s) \<Longrightarrow> b < bound s" "fr \<in> set (ls_ctrl s) \<Longrightarrow> b \<in> set (frame_blocks fr) \<Longrightarrow> b < bound s" "inc s (bound s + k) = []"
    "ls_incoming s (bound s + k) = None"
proof -
  have p: "b < bound s" if "fr \<in> set (ls_ctrl s)" "b \<in> set (pend_blocks fr)" for fr b
    using ctxD(7) [OF assms that(1)] that(2) by (auto simp: frame_inv_def untouched_def bound_def)
  then show "b \<in> pends (ls_ctrl s) \<Longrightarrow> b < bound s" by (auto simp: pends_def)
  show "fr \<in> set (ls_ctrl s) \<Longrightarrow> b \<in> set (frame_blocks fr) \<Longrightarrow> b < bound s"
    using p frame_target_lt [OF ctxD(7) [OF assms]] by (auto simp: frame_blocks_def split: if_splits)
  show "ls_incoming s (bound s + k) = None" using ctxD(8) [OF assms] by (simp add: inc_bound_def)
  then show "inc s (bound s + k) = []" by (simp add: inc_def)
qed

definition enters :: "ctrlFrame \<Rightarrow> nat \<Rightarrow> lowerState \<Rightarrow> lowerState \<Rightarrow> bool" where
  "enters fr base s s' \<longleftrightarrow> ctx s \<and> \<not> ls_unreachable s \<and> ctx s' \<and> \<not> ls_unreachable s' \<and> ls_ctrl s' = ls_ctrl s @ [fr] \<and> evolves (ls_ctrl s) s s' \<and>
     base = cf_stackHeightAtEntry fr \<and> base = length (ls_stack s') \<and> base \<le> length (ls_stack s) \<and>
     ls_stack s' = take base (ls_stack s)"

text \<open>A new frame on top of a state whose other frames are as before.\<close>

lemma enters_quiet:
  assumes s: "ctx s" "\<not> ls_unreachable s" "cur (ls_b s) = Some c" and q: "quiet c s s'" and inv: "state_inv s'"
    and ctrl: "ls_ctrl s' = ls_ctrl s @ [fr]" and i: "ls_incoming s' = ls_incoming s" and same: "same_consts s s'"
    and new: "frame_inv s' fr" "distinct (frame_blocks fr)" "\<And>b. b \<in> set (frame_blocks fr) \<Longrightarrow> bound s \<le> b"
    and live: "\<not> ls_unreachable s'" "cur_ok c' s'" "c' = c \<or> bound s \<le> c'"
    and st: "base = cf_stackHeightAtEntry fr" "base = length (ls_stack s')" "base \<le> length (ls_stack s)" "ls_stack s' = take base (ls_stack s)"
  shows "enters fr base s s'"
proof -
  note lv = ctx_live [OF s]
  have g: "grows {c} {} (bf (ls_b s)) (bf (ls_b s'))" using q by (simp add: quiet_def)
  have "frame_inv s' fr'" if "fr' \<in> set (ls_ctrl s)" for fr'
    by (rule quiet_frame [OF q ctxD(7) [OF s(1) that] _ ctx_vals [OF s(1)]]) (use lv(3) pends_mem [OF that] i in auto)
  moreover have "set (concat (map frame_blocks (ls_ctrl s))) \<inter> set (frame_blocks fr) = {}"
    using fresh_block_facts(2) [OF s(1)] new(3) by fastforce
  moreover have "inc_bound s'" using ctxD(8) [OF s(1)] growsD(4) [OF g] i by (simp add: inc_bound_def bound_def)
  ultimately have ctx': "ctx s'" using ctxD [OF s(1)] ctrl same new(1,2) live inv by (auto simp: ctx_def same_consts_def)
  have "cur (ls_b s') = Some c'" using live(2) by (simp add: cur_ok_def live_state_def)
  moreover have "b \<in> pends (ls_ctrl s') \<Longrightarrow> b < bound s \<Longrightarrow> b \<in> pends (ls_ctrl s)" for b
    using ctrl new(3) frame_blocks_mem(3) [of fr] by (force simp: pends_def)
  moreover have "grows (opens s) (pends (ls_ctrl s)) (bf (ls_b s)) (bf (ls_b s'))"
    using grows_mono [OF g] s(2,3) by (simp add: opens_def)
  ultimately have "evolves (ls_ctrl s) s s'"
    using same live(1,3) s(2,3) i by (auto simp: evolves_def opens_def same_consts_def inc_def)
  then show ?thesis using s(1,2) ctx' live(1) ctrl st unfolding enters_def by blast
qed

lemma join_ok_new: "ls_incoming s t = None \<Longrightarrow> join_ok s t r"
  by (simp add: join_ok_def inc_def edges_ok_def)

lemma enter_block:
  assumes s: "ctx s" "\<not> ls_unreachable s" and bt: "block_results (ls_rd s) r bs" and run: "handleBlock s = Inr ((), s')"
  shows "\<exists>fr. enters fr (length (ls_stack s)) s s' \<and> cf_kind fr = ctrlBlock \<and> cf_resultCount fr = r \<and> ls_rd s' = bs \<and>
    ls_stack s' = ls_stack s \<and> ls_locals s' = ls_locals s \<and> here s' = here s \<and> nextV s' = nextV s"
proof -
  obtain c where cur: "cur (ls_b s) = Some c" using ctx_cur [OF s] by blast
  note live = ctx_live [OF s cur]
  let ?b = "bound s"
  let ?fr = "new_frame ctrlBlock ?b ?b r (length (ls_stack s))"
  have s': "s' = (on_func new_block (s\<lparr>ls_rd := bs\<rparr>))\<lparr>ls_ctrl := ls_ctrl s @ [?fr]\<rparr>"
    using bt run handleBlock_run by (fastforce simp: block_results_def)
  have f': "bf (ls_b s') = new_block (bf (ls_b s))" using s' by simp
  have inv: "state_inv s'" using keepsD(2) [of 0 handleBlock any s "()" s'] keeps_handleBlock ctxD(1) [OF s(1)] run by simp
  have c: "c \<noteq> ?b" "c < nextBlockID (bf (ls_b s))" using live(5) by (simp_all add: bound_def)
  have q: "quiet c s s'" using s' c by (auto simp: quiet_def bound_def)
  have blocks: "frame_blocks ?fr = [?b]" "pend_blocks ?fr = [?b]" "fwd ?fr = ?b" by (simp_all add: frame_blocks_def pend_blocks_def fwd_def new_frame_def)
  have "untouched (bf (ls_b s')) ?b" unfolding f' by (simp add: untouched_def bound_def)
  moreover have "ls_incoming s' ?b = None" using fresh_block_facts(4) [OF s(1), of 0] s' by simp
  ultimately have fr: "frame_inv s' ?fr"
    using join_ok_new [of s' ?b] by (simp add: frame_inv_def blocks else_ok_def) (simp add: new_frame_def)
  have "c \<notin> pends (ls_ctrl s')" using live(3) c s' blocks by (auto simp: pends_def)
  then have "cur_ok c s'" using live_stateD [OF live(2)] live(4) s' c by (simp add: cur_ok_def live_state_def nextV_def bound_def)
  then have "enters ?fr (length (ls_stack s)) s s'"
    by (intro enters_quiet [OF s cur q inv _ _ _ fr, where c' = c]) (use s' s(2) blocks in \<open>simp_all add: same_consts_def new_frame_def\<close>)
  moreover have "here s' = here s" using s' c cur by (simp add: here_def fun_eq_iff bound_def)
  ultimately show ?thesis using s' by (intro exI [of _ ?fr]) (simp add: new_frame_def nextV_def)
qed

lemma evolves_stack [simp]: "evolves fs (s\<lparr>ls_rd := r\<rparr>) s' = evolves fs s s'" "evolves fs s (s'\<lparr>ls_rd := r\<rparr>) = evolves fs s s'"
  by (simp_all add: evolves_def)

text \<open>What is left to show of a compound instruction is its outcome.\<close>

lemma sim_compound:
  assumes en: "enters fr b s s0" and ev: "evolves (ls_ctrl s @ [fr]) s0 s2 \<or> evolves (ls_ctrl s) s0 s2"
    and st: "take b (ls_stack s2) = ls_stack s0" and e: "ends_frame (ls_ctrl s) fr' b s2 sf s3" and base: "base \<le> b"
    and sem: "\<And>ps ext F k env ws ls st. extends s3 F \<Longrightarrow> denotes env (drop base (ls_stack s)) (rev ws) \<Longrightarrow> denotes env (ls_locals s) ls \<Longrightarrow>
        reaches (rt_sem ps ext) F s3 base (nextV s) (here s env st) env (res k ws ls st)"
  shows "simulates res base s s3 \<and> (\<not> ls_unreachable s3 \<longrightarrow> length (ls_stack s3) = b + cf_resultCount fr')"
proof -
  note x = ends_frame_facts [OF e]
  have s: "ctx s" "evolves (ls_ctrl s) s s0" "ls_stack s0 = take b (ls_stack s)" using en by (simp_all add: enters_def)
  have "evolves (ls_ctrl s) s0 s2" using ev by (auto simp: evolves_def)
  then have "evolves (ls_ctrl s) s s3" using evolves_trans s(2) x(3) by blast
  moreover have "take base (ls_stack s3) = take base (ls_stack s)" using x(4) st s(3) base by (metis min.absorb1 take_take)
  ultimately have "later base s s3" using evolves_later x(2,5) base by simp
  then show ?thesis using x(1,6) sem by (simp add: simulates_def)
qed

lemma sim_block:
  assumes s: "ctx s" "\<not> ls_unreachable s" and base: "base \<le> length (ls_stack s)" and bt: "block_results (ls_rd s) r bs"
    and run: "handleBlock s = Inr ((), s0)" and body: "simulates (\<lambda>k. weval k n body) (length (ls_stack s)) s0 s2"
    and h: "\<not> ls_unreachable s2 \<Longrightarrow> length (ls_stack s2) = length (ls_stack s) + r" and fin: "handleEnd s2 = Inr (fin, s3)"
  shows "simulates (\<lambda>k. wexec k n (WBlock r body)) base s s3 \<and> \<not> fin \<and> ls_rd s3 = ls_rd s2 \<and>
    (\<not> ls_unreachable s3 \<longrightarrow> length (ls_stack s3) = length (ls_stack s) + r)"
proof -
  let ?b = "length (ls_stack s)"
  obtain fr where fr: "enters fr ?b s s0" "cf_kind fr = ctrlBlock" "cf_resultCount fr = r" "ls_stack s0 = ls_stack s" "ls_locals s0 = ls_locals s"
      "here s0 = here s" "nextV s0 = nextV s" using enter_block [OF s bt run] by blast
  obtain c where cur: "cur (ls_b s) = Some c" using ctx_cur [OF s] by blast
  note live = live_stateD [OF ctx_live(2) [OF s cur]]
  have body': "ctx s2" "later ?b s0 s2" using body by (simp_all add: simulates_def)
  then have s2: "ls_ctrl s2 = ls_ctrl s @ [fr]" "take ?b (ls_stack s2) = ls_stack s" "?b \<le> length (ls_stack s2)" "nextV s0 \<le> nextV s2"
    using fr(1,4) later_le [OF body'(2)] by (simp_all add: later_def enters_def)
  have lt: "ids_lt (nextV s2) (take ?b (ls_stack s2))" using live(4) s2(2,4) fr(7) ids_lt_mono by simp
  have base0: "?b = cf_stackHeightAtEntry fr" using fr(1) by (simp add: enters_def)
  have e: "\<not> fin \<and> ends_frame (ls_ctrl s) fr ?b s2 (flowed (fwd fr) (cf_resultCount fr) s2) s3"
    by (rule plain_end_run [OF body'(1) s2(1) _ fin _ base0 s2(3) lt]) (use fr(2,3) h in auto)
  then have ef: "ends_frame (ls_ctrl s) fr ?b s2 (flowed (fwd fr) (cf_resultCount fr) s2) s3" by simp
  have ev: "evolves (ls_ctrl s @ [fr]) s0 s2" by (rule later_evolves [OF body'(2)]) (use fr(1) in \<open>simp add: enters_def\<close>)
  have "simulates (\<lambda>k. wexec k n (WBlock r body)) base s s3 \<and> (\<not> ls_unreachable s3 \<longrightarrow> length (ls_stack s3) = ?b + cf_resultCount fr)"
  proof (rule sim_compound [OF fr(1) disjI1 [OF ev] _ ef base])
    show "take ?b (ls_stack s2) = ls_stack s0" using s2(2) fr(4) by simp
    fix ps ext F k env ws ls st
    assume F: "extends s3 F" and d: "denotes env (drop base (ls_stack s)) (rev ws)" "denotes env (ls_locals s) ls"
    let ?sem = "rt_sem ps ext"
    show "reaches ?sem F s3 base (nextV s) (here s env st) env (wexec k n (WBlock r body) ws ls st)"
    proof (cases k)
      case (Suc k)
      have "denotes env (drop ?b (ls_stack s0)) (rev [])" "denotes env (ls_locals s0) ls" using fr(4,5) d(2) by simp_all
      then have "reaches ?sem F s2 ?b (nextV s0) (here s0 env st) env (weval k n body [] ls st)"
        using body ends_frame_extends(2) [OF ef F] unfolding simulates_def by blast
      then have "reaches ?sem F s2 ?b (nextV s) (here s env st) env (weval k n body [] ls st)" using fr(6,7) by simp
      then have "reaches ?sem F s3 base (nextV s) (here s env st) env (leave_block (cf_resultCount fr) ws (weval k n body [] ls st))"
        by (rule leave_reaches [where mb = "nextV s", OF ef F _ agree_refl _ _ _ _ base]) (use fr s2 lt h d(1) live(4) in simp_all)
      then show ?thesis using Suc fr(3) by simp
    qed simp
  qed
  then show ?thesis using e fr(3) ends_frame_facts(7) [OF ef] by simp
qed

end
