(* ===== verification/Spec2Isabelle.thy ===== *)
theory Spec2Isabelle
  imports WasmCodec InstrReader PassConstProp PassDce PassMemOpt PassSimdBounds LowerSound SsaTrees LowerBlocks
begin

text \<open>
  A model of wasm2go, an ahead-of-time compiler from WebAssembly modules to Go packages.

  The program reads a binary module (\<^verbatim>\<open>internal/wasm\<close>), lowers every function body to an SSA
  graph (\<^verbatim>\<open>internal/lower\<close>, \<^verbatim>\<open>internal/ssa\<close>), optimises it (\<^verbatim>\<open>internal/ssa/pass\<close>), and prints Go
  (\<^verbatim>\<open>internal/codegen\<close>, \<^verbatim>\<open>internal/emit\<close>) or assembly (\<^verbatim>\<open>internal/asmgen\<close>, \<^verbatim>\<open>internal/gcasm\<close>). The printed code
  calls runtime helpers, whose source is \<^verbatim>\<open>internal/codegen/helpers\<close>, on a \<^verbatim>\<open>Module\<close> value that holds
  the linear memory.

  Correspondence. Functions, fields and constants keep their Go names; a local loop or switch of a
  Go function is a definition of its own beside it. An \<^verbatim>\<open>error\<close> result is the left side of a sum, a
  panic of a helper is the left side of the type \<open>trap\<close>. Machine integers are words of their width. Pointers to
  SSA values and blocks are the identifiers the Go code gives them, and \<open>Func\<close> holds the two stores
  from identifiers to their contents, so an assignment through a pointer is an update of a store.

  \<^item> \<open>Prelude\<close>: lists, words, little-endian bytes, and folds that can fail.
  \<^item> \<open>Leb128\<close>, \<open>WasmIR\<close>, \<open>WasmParser\<close>, \<open>WasmCodec\<close>: \<^verbatim>\<open>leb128.go\<close>, \<^verbatim>\<open>ir.go\<close> and \<^verbatim>\<open>parser.go\<close>. The readers consume a
    byte list. \<open>WasmCodec\<close> defines an encoder of modules and proves that \<open>Parse\<close> inverts it, that what
    \<open>Parse\<close> returns respects every limit, and which constant expressions are accepted.
  \<^item> \<open>InstrReader\<close>: \<^verbatim>\<open>instr.go\<close>, the readers of instruction immediates and \<open>SkipImmediates\<close>.
  \<^item> \<open>SsaCore\<close>: \<^verbatim>\<open>ssa.go\<close>, \<^verbatim>\<open>op.go\<close>, \<^verbatim>\<open>type.go\<close>, \<^verbatim>\<open>builder.go\<close>, \<^verbatim>\<open>compact.go\<close>. \<open>SsaSem\<close> is the abstract machine that gives a
    function its meaning, \<open>SsaMem\<close> the meaning of the memory operations by the runtime helpers;
    \<open>SsaSubst\<close>, \<open>SsaOrder\<close>, \<open>SsaStraight\<close> hold what the pass proofs share: replacing values by others, dominance, and
    functions of one block. The machine runs at most a given number of blocks; the equivalences
    hold for every such number, so no bound is chosen anywhere.
  \<^item> \<open>SsaDom\<close>, \<open>SsaVerify\<close>, \<open>SsaTrees\<close>: \<^verbatim>\<open>verify.go\<close> and \<^verbatim>\<open>domtree.go\<close>. The dominator algorithm is stated once over any graph, its
    loops are partial functions, and it is proved to end with the dominators by paths; \<open>Verify\<close> is proved
    to accept what \<open>SsaSem\<close> requires of a function.
  \<^item> \<open>LowerTables\<close>, \<open>LowerState\<close>, \<open>LowerOps\<close>, \<open>LowerCtrl\<close>, \<open>LowerFlow\<close>, \<open>Lower\<close>, \<open>LowerFunc\<close>: \<^verbatim>\<open>internal/lower\<close>. The tables of opcodes;
    the state of a function's lowering with the monad its handlers run in (an error is a left side,
    a Go panic among them); the plain instructions; frames and exceptions; structured control and
    branches; calls, splicing and the loop over a body; the whole of \<open>LowerFunction\<close> with the inliner's
    summary. The loop over a body has the number of bytes that are left as fuel. \<open>LowerInv\<close>, \<open>LowerKeeps\<close> and
    \<open>LowerSound\<close> prove that every handler keeps the graph well formed and never reads backwards, so
    that the fuel is enough and what \<open>LowerFunction\<close> returns is SSA.
  \<^item> \<open>PassConstProp\<close>, \<open>PassCse\<close>, \<open>PassDce\<close>, \<open>PassMemOpt\<close>, \<open>PassSimdBounds\<close>: the passes of the same names. Each is
    proved to preserve every run (dead-code elimination: every run that does not trap), and where
    it does not, a function shows it. Worklists are recursive functions with a termination proof.
  \<^item> \<open>RtInt\<close>, \<open>RtMemory\<close>, \<open>RtSimdMem\<close>, \<open>RtSimdSpec\<close>: the integer, memory and vector memory helpers of \<^verbatim>\<open>helpers.go\<close>, with an
    abstract memory they refine.

  Not modelled: the emitters and assemblers print Go and Plan 9 assembly, whose meaning is that of
  the Go toolchain, which is not part of this repository; the SIMD and floating-point arithmetic
  helpers, atomics and threads, the WASI host, and the register allocator are left out so far.
\<close>

end
